(* ===== verification/Alsa_Prelude.thy ===== *)
theory Alsa_Prelude
  imports Complex_Main "HOL-Library.Word"
begin

text \<open>
  What every component of the development shares: the C integer types of an LP64 kernel as
  words, the error codes of the kernel as a datatype, the type of a result that is either an
  error code or a value, and the lemmas that move comparisons and arithmetic between words and
  natural numbers. \<open>u32\<close> is C's \<open>unsigned int\<close>, \<open>u64\<close> is \<open>unsigned long\<close> (and with
  \<open>sint\<close> also \<open>signed long\<close>, as in \<open>snd_pcm_uframes_t\<close> and \<open>snd_pcm_sframes_t\<close>).
\<close>

unbundle bit_operations_syntax

type_synonym u8 = "8 word"
type_synonym u32 = "32 word"
type_synonym u64 = "64 word"

text \<open>
  The error codes the modelled functions return. C returns them as negative integers; a model
  function returns \<open>Inl e\<close> for \<open>-e\<close> and \<open>Inr v\<close> for a non-negative \<open>v\<close>.
  \<open>EDRIVER n\<close> stands for a code that a driver callback made up.
\<close>

datatype errno =
    EINVAL | ENOMEM | EBADFD | EPIPE | ESTRPIPE | EAGAIN | EBUSY | ENOSYS | ENXIO | EIO
  | EFAULT | ENODEV | ENOTTY | EALREADY | ERESTARTSYS | EPERM | ENOENT | EMLINK | ENOSPC | EDRIVER nat

type_synonym 'a res = "errno + 'a"

named_theorems word_nat "moving word comparisons and arithmetic to natural numbers"

abbreviation UINT_MAX :: u32 where "UINT_MAX \<equiv> 4294967295"
abbreviation ULONG_MAX :: u64 where "ULONG_MAX \<equiv> 18446744073709551615"

section \<open>Words and natural numbers\<close>

text \<open>Bounds are compared as natural numbers, so \<open>real (unat w)\<close> and \<open>int (unat w)\<close> stay as
  they are.\<close>

declare of_nat_unat [simp del]

lemma word_of_nat_unat [simp]: "(of_nat (unat (w :: 'a::len word)) :: 'a word) = w"
  by (simp add: of_nat_unat)

lemma uint_int_unat: "uint (w :: 'a::len word) = int (unat w)"
  by (simp add: of_nat_unat)

lemmas [word_nat] = word_less_nat_alt word_le_nat_alt unat_div unat_mod

lemma unat_inj_iff [word_nat]: "(a :: 'a::len word) = b \<longleftrightarrow> unat a = unat b"
  by (simp add: word_unat_eq_iff)

lemma unat_u32_lt [simp]: "unat (a :: u32) < 4294967296"
  using unsigned_less [of a] by simp

lemma unat_u64_lt [simp]: "unat (a :: u64) < 18446744073709551616"
  using unsigned_less [of a] by simp

lemma unat_u32_le_max [simp]: "unat (a :: u32) \<le> 4294967295"
  using unat_u32_lt [of a] by linarith

lemma unat_u64_le_max [simp]: "unat (a :: u64) \<le> 18446744073709551615"
  using unat_u64_lt [of a] by linarith

lemma unat_add_nowrap:
  "unat (a :: 'a::len word) + unat b < 2 ^ LENGTH('a) \<Longrightarrow> unat (a + b) = unat a + unat b"
  by (simp add: unat_word_ariths)

lemma unat_add_le:
  fixes a b c :: "'a::len word"
  shows "unat a + unat b \<le> unat c \<Longrightarrow> unat (a + b) = unat a + unat b"
  by (rule unat_add_nowrap) (erule le_less_trans, rule unsigned_less)

lemma unat_mult_nowrap:
  "unat (a :: 'a::len word) * unat b < 2 ^ LENGTH('a) \<Longrightarrow> unat (a * b) = unat a * unat b"
  by (simp add: unat_word_ariths)

lemma unat_sub_nowrap: "b \<le> a \<Longrightarrow> unat ((a :: 'a::len word) - b) = unat a - unat b"
  by (rule unat_sub)

lemma unat_inc32: "unat (a :: u32) < 4294967295 \<Longrightarrow> unat (a + 1) = unat a + 1"
  by (simp add: unat_word_ariths)

lemma unat_dec32: "0 < unat (a :: u32) \<Longrightarrow> unat (a - 1) = unat a - 1"
  by (simp add: unat_sub word_le_nat_alt)

lemma unat_ucast_32_64 [simp]: "unat (ucast (a :: u32) :: u64) = unat a"
  by (simp add: unsigned_ucast_eq take_bit_nat_eq_self order_less_le_trans [OF unat_u32_lt])

lemma unat_ucast_64_32: "unat (a :: u64) < 4294967296 \<Longrightarrow> unat (ucast a :: u32) = unat a"
  by (simp add: unsigned_ucast_eq take_bit_nat_eq_self)

lemma unat_mod_pos: "0 < unat b \<Longrightarrow> unat ((a :: 'a::len word) mod b) < unat b"
  by (simp add: unat_mod)

lemma unat_of_nat32: "n < 4294967296 \<Longrightarrow> unat (of_nat n :: u32) = n"
  by (simp add: unat_of_nat)

lemma unat_of_nat64: "n < 18446744073709551616 \<Longrightarrow> unat (of_nat n :: u64) = n"
  by (simp add: unat_of_nat)

end
