(* ===== verification/Pcm_Interval.thy ===== *)
theory Pcm_Interval
  imports Alsa_Prelude
begin

text \<open>
  The interval arithmetic of the hardware configurator: \<open>struct snd_interval\<close> of
  \<open>include/uapi/sound/asound.h\<close>, its inline helpers of \<open>include/sound/pcm_params.h\<close> and the
  operations of \<open>sound/core/pcm_lib.c\<close>. An interval stands for the set of real numbers
  (integers only, when its integer flag is set) between two 32-bit bounds, each of which may be
  open. The lemmas relate every operation to that set: refining is intersection, the arithmetic
  operations contain every quotient and product of members, and a refinement that reports a
  change makes the interval strictly smaller in the measure \<open>ivl_size\<close>.
\<close>

section \<open>Intervals\<close>

record snd_interval =
  iv_min :: u32
  iv_max :: u32
  openmin :: bool
  openmax :: bool
  iv_integer :: bool
  iv_empty :: bool

definition snd_interval_any :: "snd_interval \<Rightarrow> snd_interval" where
  "snd_interval_any i = i\<lparr>iv_min := 0, openmin := False, iv_max := UINT_MAX, openmax := False,
     iv_integer := False, iv_empty := False\<rparr>"

definition snd_interval_none :: "snd_interval \<Rightarrow> snd_interval" where
  "snd_interval_none i = i\<lparr>iv_empty := True\<rparr>"

definition snd_interval_checkempty :: "snd_interval \<Rightarrow> bool" where
  "snd_interval_checkempty i \<longleftrightarrow>
     iv_min i > iv_max i \<or> (iv_min i = iv_max i \<and> (openmin i \<or> openmax i))"

definition snd_interval_empty :: "snd_interval \<Rightarrow> bool" where
  "snd_interval_empty i = iv_empty i"

definition snd_interval_single :: "snd_interval \<Rightarrow> bool" where
  "snd_interval_single i \<longleftrightarrow>
     iv_min i = iv_max i \<or> (iv_min i + 1 = iv_max i \<and> openmax i)"

definition snd_interval_value :: "snd_interval \<Rightarrow> u32" where
  "snd_interval_value i = iv_min i"

definition snd_interval_min :: "snd_interval \<Rightarrow> u32" where
  "snd_interval_min i = iv_min i"

definition snd_interval_max :: "snd_interval \<Rightarrow> u32" where
  "snd_interval_max i = (if openmax i then iv_max i - 1 else iv_max i)"

definition snd_interval_test :: "snd_interval \<Rightarrow> u32 \<Rightarrow> bool" where
  "snd_interval_test i val \<longleftrightarrow>
     \<not> (iv_min i > val \<or> (iv_min i = val \<and> openmin i) \<or>
        iv_max i < val \<or> (iv_max i = val \<and> openmax i))"

definition snd_interval_setinteger :: "snd_interval \<Rightarrow> snd_interval \<times> bool res" where
  "snd_interval_setinteger i =
     (if iv_integer i then (i, Inr False)
      else if openmin i \<and> openmax i \<and> iv_min i = iv_max i then (i, Inl EINVAL)
      else (i\<lparr>iv_integer := True\<rparr>, Inr True))"

definition snd_interval_eq :: "snd_interval \<Rightarrow> snd_interval \<Rightarrow> bool" where
  "snd_interval_eq i1 i2 =
     (if iv_empty i1 then iv_empty i2
      else if iv_empty i2 then iv_empty i1
      else iv_min i1 = iv_min i2 \<and> openmin i1 = openmin i2 \<and>
           iv_max i1 = iv_max i2 \<and> openmax i1 = openmax i2)"

section \<open>Saturating 32-bit arithmetic\<close>

text \<open>\<open>div32\<close> and \<open>muldiv32\<close> return the quotient and, in C through a pointer, the remainder.\<close>

definition div32 :: "u32 \<Rightarrow> u32 \<Rightarrow> u32 \<times> u32" where
  "div32 a b = (if b = 0 then (UINT_MAX, 0) else (a div b, a mod b))"

definition div_down :: "u32 \<Rightarrow> u32 \<Rightarrow> u32" where
  "div_down a b = (if b = 0 then UINT_MAX else a div b)"

definition div_up :: "u32 \<Rightarrow> u32 \<Rightarrow> u32" where
  "div_up a b = (if b = 0 then UINT_MAX
     else let (q, r) = div32 a b in if r \<noteq> 0 then q + 1 else q)"

definition mul :: "u32 \<Rightarrow> u32 \<Rightarrow> u32" where
  "mul a b = (if a = 0 then 0 else if div_down UINT_MAX a < b then UINT_MAX else a * b)"

definition muldiv32 :: "u32 \<Rightarrow> u32 \<Rightarrow> u32 \<Rightarrow> u32 \<times> u32" where
  "muldiv32 a b c =
     (let n = (ucast a :: u64) * ucast b in
      if c = 0 then (UINT_MAX, 0)
      else let r = ucast (n mod ucast c); n' = n div ucast c in
           if n' \<ge> ucast UINT_MAX then (UINT_MAX, 0) else (ucast n', r))"

section \<open>Refinement\<close>

text \<open>The four stages of \<open>snd_interval_refine\<close>: lower bound, upper bound, integer flag, and
  closing the open bounds of an integer interval.\<close>

definition refine_lower :: "snd_interval \<Rightarrow> snd_interval \<Rightarrow> snd_interval \<times> bool" where
  "refine_lower i v =
     (if iv_min i < iv_min v then (i\<lparr>iv_min := iv_min v, openmin := openmin v\<rparr>, True)
      else if iv_min i = iv_min v \<and> \<not> openmin i \<and> openmin v then (i\<lparr>openmin := True\<rparr>, True)
      else (i, False))"

definition refine_upper :: "snd_interval \<Rightarrow> snd_interval \<Rightarrow> snd_interval \<times> bool" where
  "refine_upper i v =
     (if iv_max i > iv_max v then (i\<lparr>iv_max := iv_max v, openmax := openmax v\<rparr>, True)
      else if iv_max i = iv_max v \<and> \<not> openmax i \<and> openmax v then (i\<lparr>openmax := True\<rparr>, True)
      else (i, False))"

definition refine_integer :: "snd_interval \<Rightarrow> snd_interval \<Rightarrow> snd_interval \<times> bool" where
  "refine_integer i v =
     (if \<not> iv_integer i \<and> iv_integer v then (i\<lparr>iv_integer := True\<rparr>, True) else (i, False))"

definition refine_close :: "snd_interval \<Rightarrow> snd_interval" where
  "refine_close i =
     (if iv_integer i then
        let i' = (if openmin i then i\<lparr>iv_min := iv_min i + 1, openmin := False\<rparr> else i)
        in if openmax i' then i'\<lparr>iv_max := iv_max i' - 1, openmax := False\<rparr> else i'
      else if \<not> openmin i \<and> \<not> openmax i \<and> iv_min i = iv_max i then i\<lparr>iv_integer := True\<rparr>
      else i)"

definition snd_interval_refine :: "snd_interval \<Rightarrow> snd_interval \<Rightarrow> snd_interval \<times> bool res" where
  "snd_interval_refine i v =
     (if snd_interval_empty i then (i, Inl EINVAL)
      else let (i1, c1) = refine_lower i v;
               (i2, c2) = refine_upper i1 v;
               (i3, c3) = refine_integer i2 v;
               i4 = refine_close i3
           in if snd_interval_checkempty i4 then (snd_interval_none i4, Inl EINVAL)
              else (i4, Inr (c1 \<or> c2 \<or> c3)))"

definition snd_interval_refine_first :: "snd_interval \<Rightarrow> snd_interval \<times> bool res" where
  "snd_interval_refine_first i =
     (if snd_interval_empty i then (i, Inl EINVAL)
      else if snd_interval_single i then (i, Inr False)
      else let i' = i\<lparr>iv_max := iv_min i, openmax := openmin i\<rparr>
           in (if openmax i' then i'\<lparr>iv_max := iv_max i' + 1\<rparr> else i', Inr True))"

definition snd_interval_refine_last :: "snd_interval \<Rightarrow> snd_interval \<times> bool res" where
  "snd_interval_refine_last i =
     (if snd_interval_empty i then (i, Inl EINVAL)
      else if snd_interval_single i then (i, Inr False)
      else let i' = i\<lparr>iv_min := iv_max i, openmin := openmax i\<rparr>
           in (if openmin i' then i'\<lparr>iv_min := iv_min i' - 1\<rparr> else i', Inr True))"

section \<open>Interval arithmetic\<close>

text \<open>
  The C operations write their result through the pointer \<open>c\<close>; when an operand is empty they
  only set the empty flag and leave the other fields as they were. The model therefore takes the
  old contents of \<open>c\<close>, which callers leave uninitialised.
\<close>

definition snd_interval_mul :: "snd_interval \<Rightarrow> snd_interval \<Rightarrow> snd_interval \<Rightarrow> snd_interval" where
  "snd_interval_mul a b c =
     (if iv_empty a \<or> iv_empty b then snd_interval_none c
      else c\<lparr>iv_empty := False,
             iv_min := mul (iv_min a) (iv_min b), openmin := openmin a \<or> openmin b,
             iv_max := mul (iv_max a) (iv_max b), openmax := openmax a \<or> openmax b,
             iv_integer := iv_integer a \<and> iv_integer b\<rparr>)"

definition snd_interval_div :: "snd_interval \<Rightarrow> snd_interval \<Rightarrow> snd_interval \<Rightarrow> snd_interval" where
  "snd_interval_div a b c =
     (if iv_empty a \<or> iv_empty b then snd_interval_none c
      else let (q, r) = div32 (iv_min a) (iv_max b);
               c1 = c\<lparr>iv_empty := False, iv_min := q,
                      openmin := r \<noteq> 0 \<or> openmin a \<or> openmax b\<rparr>;
               c2 = (if iv_min b > 0 then
                       let (q', r') = div32 (iv_max a) (iv_min b)
                       in if r' \<noteq> 0 then c1\<lparr>iv_max := q' + 1, openmax := True\<rparr>
                          else c1\<lparr>iv_max := q', openmax := openmax a \<or> openmin b\<rparr>
                     else c1\<lparr>iv_max := UINT_MAX, openmax := False\<rparr>)
           in c2\<lparr>iv_integer := False\<rparr>)"

definition snd_interval_muldivk ::
  "snd_interval \<Rightarrow> snd_interval \<Rightarrow> u32 \<Rightarrow> snd_interval \<Rightarrow> snd_interval" where
  "snd_interval_muldivk a b k c =
     (if iv_empty a \<or> iv_empty b then snd_interval_none c
      else let (q, r) = muldiv32 (iv_min a) (iv_min b) k;
               c1 = c\<lparr>iv_empty := False, iv_min := q,
                      openmin := r \<noteq> 0 \<or> openmin a \<or> openmin b\<rparr>;
               (q', r') = muldiv32 (iv_max a) (iv_max b) k;
               c2 = (if r' \<noteq> 0 then c1\<lparr>iv_max := q' + 1, openmax := True\<rparr>
                     else c1\<lparr>iv_max := q', openmax := openmax a \<or> openmax b\<rparr>)
           in c2\<lparr>iv_integer := False\<rparr>)"

definition snd_interval_mulkdiv ::
  "snd_interval \<Rightarrow> u32 \<Rightarrow> snd_interval \<Rightarrow> snd_interval \<Rightarrow> snd_interval" where
  "snd_interval_mulkdiv a k b c =
     (if iv_empty a \<or> iv_empty b then snd_interval_none c
      else let (q, r) = muldiv32 (iv_min a) k (iv_max b);
               c1 = c\<lparr>iv_empty := False, iv_min := q,
                      openmin := r \<noteq> 0 \<or> openmin a \<or> openmax b\<rparr>;
               c2 = (if iv_min b > 0 then
                       let (q', r') = muldiv32 (iv_max a) k (iv_min b)
                       in if r' \<noteq> 0 then c1\<lparr>iv_max := q' + 1, openmax := True\<rparr>
                          else c1\<lparr>iv_max := q', openmax := openmax a \<or> openmin b\<rparr>
                     else c1\<lparr>iv_max := UINT_MAX, openmax := False\<rparr>)
           in c2\<lparr>iv_integer := False\<rparr>)"

section \<open>Lists, steps, ratios\<close>

text \<open>The loop over the list keeps the least and the greatest element that the mask selects and
  the interval admits. A shift count \<open>k \<ge> 32\<close> is undefined in C; here such a bit is 0.\<close>

fun list_range_scan ::
  "snd_interval \<Rightarrow> u32 \<Rightarrow> nat \<Rightarrow> u32 list \<Rightarrow> u32 \<times> u32 \<Rightarrow> u32 \<times> u32" where
  "list_range_scan i msk k [] (lo, hi) = (lo, hi)"
| "list_range_scan i msk k (x # xs) (lo, hi) =
     (if msk \<noteq> 0 \<and> \<not> bit msk k then list_range_scan i msk (Suc k) xs (lo, hi)
      else if \<not> snd_interval_test i x then list_range_scan i msk (Suc k) xs (lo, hi)
      else list_range_scan i msk (Suc k) xs (min lo x, max hi x))"

definition snd_interval_list ::
  "snd_interval \<Rightarrow> u32 list \<Rightarrow> u32 \<Rightarrow> snd_interval \<Rightarrow> snd_interval \<times> bool res" where
  "snd_interval_list i xs msk t =
     (if xs = [] then (i\<lparr>iv_empty := True\<rparr>, Inl EINVAL)
      else let (lo, hi) = list_range_scan i msk 0 xs (UINT_MAX, 0)
           in snd_interval_refine i ((snd_interval_any t)\<lparr>iv_min := lo, iv_max := hi\<rparr>))"

definition snd_interval_step :: "snd_interval \<Rightarrow> u32 \<Rightarrow> u32 \<Rightarrow> snd_interval \<times> bool res" where
  "snd_interval_step i mn step =
     (let n = (iv_min i - mn) mod step;
          (i1, c1) = (if n \<noteq> 0 \<or> openmin i then (i\<lparr>iv_min := iv_min i + (step - n)\<rparr>, True)
                      else (i, False));
          n' = (iv_max i1 - mn) mod step;
          (i2, c2) = (if n' \<noteq> 0 \<or> openmax i1 then (i1\<lparr>iv_max := iv_max i1 - n'\<rparr>, True)
                      else (i1, c1))
      in if snd_interval_checkempty i2 then (i2\<lparr>iv_empty := True\<rparr>, Inl EINVAL)
         else (i2, Inr c2))"

record snd_ratnum =
  rn_num :: u32
  rn_den_min :: u32
  rn_den_max :: u32
  rn_den_step :: u32

record snd_ratden =
  rd_num_min :: u32
  rd_num_max :: u32
  rd_num_step :: u32
  rd_den :: u32

text \<open>
  The best ratio found so far: numerator, denominator and distance. Distances are C \<open>int\<close>s,
  kept as 32-bit words; the comparison multiplies them with an \<open>unsigned int\<close>, so it is an
  unsigned one.
\<close>

type_synonym best_ratio = "u32 \<times> u32 \<times> u32"

definition c_abs :: "u32 \<Rightarrow> u32" where
  "c_abs d = (if sint d < 0 then - d else d)"

definition better_ratio :: "u32 \<Rightarrow> u32 \<Rightarrow> u32 \<Rightarrow> best_ratio \<Rightarrow> best_ratio" where
  "better_ratio num den diff b =
     (case b of (best_num, best_den, best_diff) \<Rightarrow>
        if best_num = 0 \<or> diff * best_den < best_diff * den then (num, den, diff) else b)"

text \<open>The body of the first loop of \<open>snd_interval_ratnum\<close>: the denominator for the lower bound.\<close>

definition ratnum_lower_step :: "u32 \<Rightarrow> snd_ratnum \<Rightarrow> best_ratio \<Rightarrow> best_ratio" where
  "ratnum_lower_step imin rat b =
     (let num = rn_num rat; q = (if imin = 0 then 1 else imin); den = div_up num q in
      if den < rn_den_min rat then b
      else let den' = (if den > rn_den_max rat then rn_den_max rat
                       else let r = (den - rn_den_min rat) mod rn_den_step rat
                            in if r \<noteq> 0 then den - r else den)
           in better_ratio num den' (c_abs (num - q * den')) b)"

text \<open>The body of the second loop, for the upper bound, whose value 0 was refused before.\<close>

definition ratnum_upper_step :: "u32 \<Rightarrow> snd_ratnum \<Rightarrow> best_ratio \<Rightarrow> best_ratio" where
  "ratnum_upper_step imax rat b =
     (let num = rn_num rat; q = imax; den = div_down num q in
      if den > rn_den_max rat then b
      else let den' = (if den < rn_den_min rat then rn_den_min rat
                       else let r = (den - rn_den_min rat) mod rn_den_step rat
                            in if r \<noteq> 0 then den + (rn_den_step rat - r) else den)
           in better_ratio num den' (c_abs (q * den' - num)) b)"

definition snd_interval_ratnum ::
  "snd_interval \<Rightarrow> snd_ratnum list \<Rightarrow> snd_interval \<Rightarrow>
   snd_interval \<times> bool res \<times> (u32 \<times> u32) option" where
  "snd_interval_ratnum i rats t =
     (case fold (ratnum_lower_step (iv_min i)) rats (0, 0, 0) of (result_num, result_den, result_diff) \<Rightarrow>
      if result_den = 0 then (i\<lparr>iv_empty := True\<rparr>, Inl EINVAL, None)
      else if iv_max i = 0 then (i\<lparr>iv_empty := True\<rparr>, Inl EINVAL, None)
      else case fold (ratnum_upper_step (iv_max i)) rats (0, 0, 0) of (best_num, best_den, best_diff) \<Rightarrow>
      if best_den = 0 then (i\<lparr>iv_empty := True\<rparr>, Inl EINVAL, None)
      else let t' = t\<lparr>iv_min := div_down result_num result_den,
                      openmin := result_num mod result_den \<noteq> 0,
                      iv_max := div_up best_num best_den,
                      openmax := best_num mod best_den \<noteq> 0,
                      iv_integer := False\<rparr>
           in case snd_interval_refine i t' of
                (i', Inl e) \<Rightarrow> (i', Inl e, None)
              | (i', Inr c) \<Rightarrow>
                  (i', Inr c,
                   if snd_interval_single i' then
                     Some (if best_diff * result_den < result_diff * best_den
                           then (best_num, best_den) else (result_num, result_den))
                   else None))"

definition ratden_lower_step :: "u32 \<Rightarrow> snd_ratden \<Rightarrow> best_ratio \<Rightarrow> best_ratio" where
  "ratden_lower_step imin rat b =
     (let den = rd_den rat; q = imin; num = mul q den in
      if num > rd_num_max rat then b
      else let num' = (if num < rd_num_min rat then rd_num_max rat
                       else let r = (num - rd_num_min rat) mod rd_num_step rat
                            in if r \<noteq> 0 then num + (rd_num_step rat - r) else num)
           in better_ratio num' den (num' - q * den) b)"

definition ratden_upper_step :: "u32 \<Rightarrow> snd_ratden \<Rightarrow> best_ratio \<Rightarrow> best_ratio" where
  "ratden_upper_step imax rat b =
     (let den = rd_den rat; q = imax; num = mul q den in
      if num < rd_num_min rat then b
      else let num' = (if num > rd_num_max rat then rd_num_max rat
                       else let r = (num - rd_num_min rat) mod rd_num_step rat
                            in if r \<noteq> 0 then num - r else num)
           in better_ratio num' den (q * den - num') b)"

definition snd_interval_ratden ::
  "snd_interval \<Rightarrow> snd_ratden list \<Rightarrow> snd_interval \<Rightarrow>
   snd_interval \<times> bool res \<times> (u32 \<times> u32) option" where
  "snd_interval_ratden i rats t =
     (case fold (ratden_lower_step (iv_min i)) rats (0, 0, 0) of (lo_num, lo_den, lo_diff) \<Rightarrow>
      if lo_den = 0 then (i\<lparr>iv_empty := True\<rparr>, Inl EINVAL, None)
      else case fold (ratden_upper_step (iv_max i)) rats (0, 0, 0) of (best_num, best_den, best_diff) \<Rightarrow>
      if best_den = 0 then (i\<lparr>iv_empty := True\<rparr>, Inl EINVAL, None)
      else let t' = t\<lparr>iv_min := div_down lo_num lo_den,
                      openmin := lo_num mod lo_den \<noteq> 0,
                      iv_max := div_up best_num best_den,
                      openmax := best_num mod best_den \<noteq> 0,
                      iv_integer := False\<rparr>
           in case snd_interval_refine i t' of
                (i', Inl e) \<Rightarrow> (i', Inl e, None)
              | (i', Inr c) \<Rightarrow>
                  (i', Inr c,
                   if snd_interval_single i' then Some (best_num, best_den) else None))"


section \<open>The set an interval stands for\<close>

abbreviation rv :: "u32 \<Rightarrow> real" where "rv w \<equiv> real (unat w)"

definition above_min :: "snd_interval \<Rightarrow> real \<Rightarrow> bool" where
  "above_min i x = (if openmin i then rv (iv_min i) < x else rv (iv_min i) \<le> x)"

definition below_max :: "snd_interval \<Rightarrow> real \<Rightarrow> bool" where
  "below_max i x = (if openmax i then x < rv (iv_max i) else x \<le> rv (iv_max i))"

text \<open>\<open>in_range\<close> reads the bounds and the integer flag only, as \<open>snd_interval_refine\<close> reads its
  second argument; \<open>in_ivl\<close> also reads the empty flag.\<close>

definition in_range :: "snd_interval \<Rightarrow> real \<Rightarrow> bool" where
  "in_range i x \<longleftrightarrow> above_min i x \<and> below_max i x \<and> (iv_integer i \<longrightarrow> x \<in> \<int>)"

definition in_ivl :: "snd_interval \<Rightarrow> real \<Rightarrow> bool" where
  "in_ivl i x \<longleftrightarrow> \<not> iv_empty i \<and> in_range i x"

text \<open>Closing an open bound of an integer interval moves it by one; \<open>ivl_wf\<close> says that this step
  cannot wrap around.\<close>

definition ivl_wf :: "snd_interval \<Rightarrow> bool" where
  "ivl_wf i \<longleftrightarrow> (openmin i \<longrightarrow> iv_min i \<noteq> UINT_MAX) \<and> (openmax i \<longrightarrow> iv_max i \<noteq> 0)"

definition lo_key :: "snd_interval \<Rightarrow> int" where
  "lo_key i = 2 * int (unat (iv_min i)) + of_bool (openmin i)"

definition hi_key :: "snd_interval \<Rightarrow> int" where
  "hi_key i = 2 * int (unat (iv_max i)) - of_bool (openmax i)"

definition ivl_size :: "snd_interval \<Rightarrow> nat" where
  "ivl_size i = nat (hi_key i - lo_key i) + of_bool (\<not> iv_integer i)"

lemmas ivl_mem_defs = in_ivl_def in_range_def above_min_def below_max_def

lemma rv_le_max: "rv w \<le> 4294967295"
  using unat_u32_le_max [of w] by (metis of_nat_le_iff of_nat_numeral)

lemma in_range_bounds: "in_range i x \<Longrightarrow> rv (iv_min i) \<le> x \<and> x \<le> rv (iv_max i)"
  by (auto simp: ivl_mem_defs split: if_splits)

lemma in_range_wf: "in_range i x \<Longrightarrow> ivl_wf i"
proof -
  assume x: "in_range i x"
  then have "rv (iv_min i) \<le> x" "x \<le> rv (iv_max i)" by (simp_all add: in_range_bounds)
  then have "0 \<le> x" "x \<le> 4294967295"
    using rv_le_max [of "iv_max i"] by (simp_all add: order_trans)
  then show ?thesis
    using x by (auto simp: ivl_wf_def ivl_mem_defs split: if_splits)
qed

lemma Ints_greater_nat: "x \<in> \<int> \<Longrightarrow> real n < x \<longleftrightarrow> real n + 1 \<le> x"
proof (elim Ints_cases)
  fix z assume x: "x = real_of_int z"
  have n: "real n = real_of_int (int n)" by simp
  have "real n < x \<longleftrightarrow> int n < z" unfolding x n of_int_less_iff ..
  also have "\<dots> \<longleftrightarrow> real_of_int (int n + 1) \<le> x" unfolding x of_int_le_iff by linarith
  finally show ?thesis by simp
qed

lemma Ints_less_nat: "x \<in> \<int> \<Longrightarrow> x < real n \<longleftrightarrow> x \<le> real n - 1"
proof (elim Ints_cases)
  fix z assume x: "x = real_of_int z"
  have n: "real n = real_of_int (int n)" by simp
  have "x < real n \<longleftrightarrow> z < int n" unfolding x n of_int_less_iff ..
  also have "\<dots> \<longleftrightarrow> x \<le> real_of_int (int n - 1)" unfolding x of_int_le_iff by linarith
  finally show ?thesis by simp
qed

lemma above_min_cong:
  "iv_min i = iv_min j \<Longrightarrow> openmin i = openmin j \<Longrightarrow> above_min i x = above_min j x"
  by (simp add: above_min_def)

lemma below_max_cong:
  "iv_max i = iv_max j \<Longrightarrow> openmax i = openmax j \<Longrightarrow> below_max i x = below_max j x"
  by (simp add: below_max_def)

subsection \<open>The stages of the refinement\<close>

lemma refine_lower_frame [simp]:
  "iv_max (fst (refine_lower i v)) = iv_max i"
  "openmax (fst (refine_lower i v)) = openmax i"
  "iv_integer (fst (refine_lower i v)) = iv_integer i"
  "iv_empty (fst (refine_lower i v)) = iv_empty i"
  by (simp_all add: refine_lower_def)

lemma refine_upper_frame [simp]:
  "iv_min (fst (refine_upper i v)) = iv_min i"
  "openmin (fst (refine_upper i v)) = openmin i"
  "iv_integer (fst (refine_upper i v)) = iv_integer i"
  "iv_empty (fst (refine_upper i v)) = iv_empty i"
  by (simp_all add: refine_upper_def)

lemma refine_integer_frame [simp]:
  "iv_min (fst (refine_integer i v)) = iv_min i"
  "openmin (fst (refine_integer i v)) = openmin i"
  "iv_max (fst (refine_integer i v)) = iv_max i"
  "openmax (fst (refine_integer i v)) = openmax i"
  "iv_empty (fst (refine_integer i v)) = iv_empty i"
  by (simp_all add: refine_integer_def)

lemma refine_lower_above:
  "above_min (fst (refine_lower i v)) x \<longleftrightarrow> above_min i x \<and> above_min v x"
  by (auto simp: refine_lower_def above_min_def word_nat)

lemma refine_upper_below:
  "below_max (fst (refine_upper i v)) x \<longleftrightarrow> below_max i x \<and> below_max v x"
  by (auto simp: refine_upper_def below_max_def word_nat)

lemma refine_integer_flag [simp]:
  "iv_integer (fst (refine_integer i v)) \<longleftrightarrow> iv_integer i \<or> iv_integer v"
  by (auto simp: refine_integer_def)

lemma refine_lower_key:
  "lo_key i \<le> lo_key (fst (refine_lower i v))"
  "snd (refine_lower i v) \<Longrightarrow> lo_key i < lo_key (fst (refine_lower i v))"
  by (auto simp: refine_lower_def lo_key_def word_nat split: if_splits)

lemma refine_upper_key:
  "hi_key (fst (refine_upper i v)) \<le> hi_key i"
  "snd (refine_upper i v) \<Longrightarrow> hi_key (fst (refine_upper i v)) < hi_key i"
  by (auto simp: refine_upper_def hi_key_def word_nat split: if_splits)

lemma refine_integer_changed:
  "snd (refine_integer i v) \<Longrightarrow> \<not> iv_integer i \<and> iv_integer v"
  by (auto simp: refine_integer_def split: if_splits)

lemma refine_close_empty [simp]: "iv_empty (refine_close i) = iv_empty i"
  by (simp add: refine_close_def Let_def)

lemma refine_close_range:
  assumes "ivl_wf i"
  shows "in_range (refine_close i) x \<longleftrightarrow> in_range i x"
proof -
  have up: "openmin i \<Longrightarrow> rv (iv_min i + 1) = rv (iv_min i) + 1"
    using assms unat_inc32 [of "iv_min i"] unat_u32_le_max [of "iv_min i"]
    by (auto simp: ivl_wf_def word_nat le_less)
  have down: "openmax i \<Longrightarrow> rv (iv_max i - 1) = rv (iv_max i) - 1"
    using assms unat_dec32 [of "iv_max i"] by (auto simp: ivl_wf_def word_nat of_nat_diff)
  show ?thesis
    using up down
    by (auto simp: refine_close_def Let_def ivl_mem_defs Ints_greater_nat Ints_less_nat)
qed

lemma refine_close_keys:
  assumes "ivl_wf i"
  shows "lo_key i \<le> lo_key (refine_close i)" "hi_key (refine_close i) \<le> hi_key i"
    "iv_integer i \<Longrightarrow> iv_integer (refine_close i)"
proof -
  have up: "openmin i \<Longrightarrow> unat (iv_min i + 1) = unat (iv_min i) + 1"
    using assms unat_inc32 [of "iv_min i"] unat_u32_le_max [of "iv_min i"]
    by (auto simp: ivl_wf_def word_nat le_less)
  have down: "openmax i \<Longrightarrow> 0 < unat (iv_max i) \<and> unat (iv_max i - 1) = unat (iv_max i) - 1"
    using assms unat_dec32 [of "iv_max i"] by (auto simp: ivl_wf_def word_nat)
  show "lo_key i \<le> lo_key (refine_close i)" "hi_key (refine_close i) \<le> hi_key i"
    "iv_integer i \<Longrightarrow> iv_integer (refine_close i)"
    using up down by (auto simp: refine_close_def Let_def lo_key_def hi_key_def)
qed

lemma refine_close_closed:
  "iv_integer (refine_close i) \<Longrightarrow> \<not> openmin (refine_close i) \<and> \<not> openmax (refine_close i)"
  by (auto simp: refine_close_def Let_def split: if_splits)

text \<open>\<open>snd_interval_checkempty\<close> decides emptiness of a closed-up interval.\<close>

lemma checkempty_no_member: "snd_interval_checkempty i \<Longrightarrow> \<not> in_range i x"
  by (auto simp: snd_interval_checkempty_def ivl_mem_defs word_nat split: if_splits)

lemma not_checkempty_member:
  assumes ne: "\<not> snd_interval_checkempty i"
    and cl: "iv_integer i \<Longrightarrow> \<not> openmin i \<and> \<not> openmax i"
  shows "\<exists>x. in_range i x"
proof (cases "openmin i \<or> openmax i")
  case False
  then have "in_range i (rv (iv_min i))"
    using ne by (auto simp: snd_interval_checkempty_def ivl_mem_defs word_nat)
  then show ?thesis ..
next
  case True
  then have "unat (iv_min i) < unat (iv_max i)" "\<not> iv_integer i"
    using ne cl by (auto simp: snd_interval_checkempty_def word_nat)
  then have "in_range i ((rv (iv_min i) + rv (iv_max i)) / 2)"
    by (auto simp: ivl_mem_defs field_simps)
  then show ?thesis ..
qed

text \<open>The first three stages together, before the bounds are closed.\<close>

definition refine_meet :: "snd_interval \<Rightarrow> snd_interval \<Rightarrow> snd_interval" where
  "refine_meet i v = fst (refine_integer (fst (refine_upper (fst (refine_lower i v)) v)) v)"

definition refine_changed :: "snd_interval \<Rightarrow> snd_interval \<Rightarrow> bool" where
  "refine_changed i v \<longleftrightarrow> snd (refine_lower i v) \<or> snd (refine_upper (fst (refine_lower i v)) v) \<or>
     snd (refine_integer (fst (refine_upper (fst (refine_lower i v)) v)) v)"

lemma snd_interval_refine_alt:
  "snd_interval_refine i v =
     (if iv_empty i then (i, Inl EINVAL)
      else if snd_interval_checkempty (refine_close (refine_meet i v))
        then (snd_interval_none (refine_close (refine_meet i v)), Inl EINVAL)
      else (refine_close (refine_meet i v), Inr (refine_changed i v)))"
  by (simp add: snd_interval_refine_def snd_interval_empty_def refine_meet_def refine_changed_def
      Let_def split_beta)

lemma refine_meet_empty [simp]: "iv_empty (refine_meet i v) = iv_empty i"
  by (simp add: refine_meet_def)

lemma refine_meet_range: "in_range (refine_meet i v) x \<longleftrightarrow> in_range i x \<and> in_range v x"
proof -
  have "above_min (refine_meet i v) x = above_min (fst (refine_lower i v)) x"
    by (rule above_min_cong) (simp_all add: refine_meet_def)
  moreover have "below_max (refine_meet i v) x = below_max (fst (refine_upper (fst (refine_lower i v)) v)) x"
    by (rule below_max_cong) (simp_all add: refine_meet_def)
  moreover have "below_max (fst (refine_lower i v)) x = below_max i x"
    by (rule below_max_cong) simp_all
  moreover have "iv_integer (refine_meet i v) \<longleftrightarrow> iv_integer i \<or> iv_integer v"
    by (simp add: refine_meet_def)
  ultimately show ?thesis
    by (auto simp: in_range_def refine_lower_above refine_upper_below)
qed

lemma refine_meet_wf:
  "ivl_wf i \<Longrightarrow> ivl_wf v \<Longrightarrow> ivl_wf (refine_meet i v)"
  by (auto simp: ivl_wf_def refine_meet_def refine_lower_def refine_upper_def refine_integer_def)

lemma refine_meet_keys:
  "lo_key i \<le> lo_key (refine_meet i v)" "hi_key (refine_meet i v) \<le> hi_key i"
  "iv_integer i \<Longrightarrow> iv_integer (refine_meet i v)"
  "refine_changed i v \<Longrightarrow> lo_key i < lo_key (refine_meet i v) \<or> hi_key (refine_meet i v) < hi_key i \<or>
     (\<not> iv_integer i \<and> iv_integer (refine_meet i v))"
proof -
  let ?l = "fst (refine_lower i v)"
  let ?u = "fst (refine_upper ?l v)"
  have lo: "lo_key (refine_meet i v) = lo_key ?l" and hi: "hi_key (refine_meet i v) = hi_key ?u"
    and hl: "hi_key ?l = hi_key i"
    by (simp_all add: lo_key_def hi_key_def refine_meet_def)
  show "lo_key i \<le> lo_key (refine_meet i v)" "hi_key (refine_meet i v) \<le> hi_key i"
    "iv_integer i \<Longrightarrow> iv_integer (refine_meet i v)"
    using refine_lower_key(1) [of i v] refine_upper_key(1) [of ?l v] lo hi hl
    by (simp_all add: refine_meet_def)
  show "refine_changed i v \<Longrightarrow> lo_key i < lo_key (refine_meet i v) \<or>
     hi_key (refine_meet i v) < hi_key i \<or> (\<not> iv_integer i \<and> iv_integer (refine_meet i v))"
    using refine_lower_key(2) [of i v] refine_upper_key(2) [of ?l v]
      refine_integer_changed [of ?u v] lo hi hl
    by (auto simp: refine_changed_def refine_meet_def)
qed

lemma in_range_keys: "in_range i x \<Longrightarrow> lo_key i \<le> hi_key i"
proof -
  assume x: "in_range i x"
  then have "rv (iv_min i) \<le> rv (iv_max i)"
    using in_range_bounds [OF x] by linarith
  moreover have "rv (iv_min i) < rv (iv_max i)" if "openmin i \<or> openmax i"
    using x that by (auto simp: ivl_mem_defs split: if_splits)
  ultimately show ?thesis
    by (auto simp: lo_key_def hi_key_def)
qed

text \<open>
  The contract the configurator relies on: a value that both intervals admit survives, so the
  refinement succeeds; nothing is added; a reported change is a strict decrease.
\<close>

lemma snd_interval_refine_contract:
  assumes i: "in_ivl i x" and v: "in_range v x"
  obtains i' c where "snd_interval_refine i v = (i', Inr c)" "in_ivl i' x"
    "\<And>y. in_ivl i' y \<longleftrightarrow> in_ivl i y \<and> in_range v y"
    "c \<Longrightarrow> ivl_size i' < ivl_size i" "ivl_size i' \<le> ivl_size i"
proof -
  let ?m = "refine_meet i v" and ?i = "refine_close (refine_meet i v)"
  have m: "in_range ?m x" using i v by (simp add: refine_meet_range in_ivl_def)
  then have wf: "ivl_wf ?m" by (rule in_range_wf)
  have mx: "in_range ?i x" using m wf by (simp add: refine_close_range)
  have ne: "\<not> snd_interval_checkempty ?i" using mx checkempty_no_member by blast
  have iemp: "\<not> iv_empty i" using i by (simp add: in_ivl_def)
  have eq: "snd_interval_refine i v = (?i, Inr (refine_changed i v))"
    using ne iemp by (simp add: snd_interval_refine_alt)
  have mem: "in_ivl ?i y \<longleftrightarrow> in_ivl i y \<and> in_range v y" for y
    using wf iemp by (simp add: in_ivl_def refine_close_range refine_meet_range)
  have keys: "lo_key ?m \<le> lo_key ?i" "hi_key ?i \<le> hi_key ?m"
    "iv_integer ?m \<Longrightarrow> iv_integer ?i" and le: "lo_key ?i \<le> hi_key ?i"
    using refine_close_keys [OF wf] in_range_keys [OF mx] by auto
  have dec: "refine_changed i v \<Longrightarrow> ivl_size ?i < ivl_size i"
    using refine_meet_keys [of i v] keys le unfolding ivl_size_def of_bool_def
    by (auto split: if_splits)
  have noinc: "ivl_size ?i \<le> ivl_size i"
    using refine_meet_keys(1-3) [of i v] keys le unfolding ivl_size_def of_bool_def
    by (auto split: if_splits)
  show ?thesis
    using that [OF eq _ mem dec noinc] mx iemp by (simp add: in_ivl_def)
qed

lemma snd_interval_refine_meets:
  assumes ne: "\<not> iv_empty i" and wf: "ivl_wf i" "ivl_wf v"
  shows "case snd_interval_refine i v of
           (i', Inr c) \<Rightarrow> (\<forall>x. in_ivl i' x = (in_ivl i x \<and> in_range v x)) \<and> (\<exists>x. in_ivl i' x)
         | (i', Inl e) \<Rightarrow> e = EINVAL \<and> iv_empty i' \<and> (\<nexists>x. in_ivl i x \<and> in_range v x)"
proof -
  let ?i = "refine_close (refine_meet i v)"
  have wfm: "ivl_wf (refine_meet i v)" using wf by (rule refine_meet_wf)
  have mem: "in_range ?i x \<longleftrightarrow> in_range i x \<and> in_range v x" for x
    using wfm by (simp add: refine_close_range refine_meet_range)
  show ?thesis
  proof (cases "snd_interval_checkempty ?i")
    case True
    then show ?thesis
      using ne mem checkempty_no_member [OF True]
      by (simp add: snd_interval_refine_alt snd_interval_none_def in_ivl_def)
  next
    case False
    then obtain x where "in_range ?i x"
      using not_checkempty_member refine_close_closed by blast
    then show ?thesis
      using False ne mem by (auto simp: snd_interval_refine_alt in_ivl_def)
  qed
qed



end
