(* ===== verification/Pcm_Interval_Arith.thy ===== *)
theory Pcm_Interval_Arith
  imports Pcm_Interval
begin

text \<open>
  Soundness of the interval arithmetic of \<open>sound/core/pcm_lib.c\<close>: the product or quotient of members is a
  member of the computed interval, whatever the rounding, the open bounds and the saturation at
  \<open>UINT_MAX\<close>. Hardware parameters are positive and below \<open>UINT_MAX\<close>; outside that range the open-bound
  flags of the code are too eager, which the last theorem shows. Value lists, steps and ratio tables follow
  in \<open>Pcm_Interval_Tables\<close>.
\<close>

section \<open>Quotients and remainders as reals\<close>

lemma real_div_mod: "0 < n \<Longrightarrow> real (m div n) = (real m - real (m mod n)) / real n"
proof -
  assume n: "0 < n"
  have "real (m div n) * real n + real (m mod n) = real m"
    by (metis div_mult_mod_eq of_nat_add of_nat_mult)
  then show ?thesis using n by (simp add: field_simps)
qed

lemma real_div_le: "real (m div n) \<le> real m / real n"
  by (cases "n = 0") (simp_all add: real_div_mod divide_right_mono)

lemma real_div_less: "0 < n \<Longrightarrow> m mod n \<noteq> 0 \<Longrightarrow> real (m div n) < real m / real n"
  by (simp add: real_div_mod divide_strict_right_mono)

lemma real_div_succ: "0 < n \<Longrightarrow> real m / real n < real (m div n) + 1"
proof -
  assume n: "0 < n"
  have "m < n * (m div n) + n" using n by (metis add_less_cancel_left mod_less_divisor mult_div_mod_eq)
  then have "real m < real (n * (m div n) + n)" by (simp only: of_nat_less_iff)
  then show ?thesis using n by (simp add: pos_divide_less_eq algebra_simps)
qed

lemma real_div_exact: "0 < n \<Longrightarrow> m mod n = 0 \<Longrightarrow> real (m div n) = real m / real n"
  by (metis mod_0_imp_dvd real_of_nat_div)

lemma unat_mul: "unat (mul a b) = min (unat a * unat b) 4294967295"
proof (cases "a = 0")
  case True
  then show ?thesis by (simp add: mul_def)
next
  case False
  then have a: "0 < unat a" by (simp add: word_nat)
  have gt: "div_down UINT_MAX a < b \<longleftrightarrow> 4294967295 < unat a * unat b"
    using a False by (simp add: div_down_def word_nat div_less_iff_less_mult mult.commute)
  show ?thesis
  proof (cases "4294967295 < unat a * unat b")
    case True
    then show ?thesis using False gt by (simp add: mul_def)
  next
    case less: False
    then have "unat (a * b) = unat a * unat b" by (simp add: unat_mult_nowrap)
    then show ?thesis using False less gt by (simp add: mul_def)
  qed
qed

lemma div32_nat:
  "b \<noteq> 0 \<Longrightarrow> unat (fst (div32 a b)) = unat a div unat b"
  "b \<noteq> 0 \<Longrightarrow> (snd (div32 a b) = 0) = (unat a mod unat b = 0)"
  by (simp_all add: div32_def unat_div word_nat)

lemma unat_mult_64: "unat ((ucast (a :: u32) :: u64) * ucast (b :: u32)) = unat a * unat b"
proof -
  have "unat a * unat b < 4294967296 * 4294967296"
    by (rule mult_strict_mono) auto
  then show ?thesis by (simp add: unat_mult_nowrap)
qed

lemma muldiv32_nat:
  assumes c: "c \<noteq> 0" and small: "unat a * unat b div unat c < 4294967295"
  shows "unat (fst (muldiv32 a b c)) = unat a * unat b div unat c"
    and "(snd (muldiv32 a b c) = 0) = (unat a * unat b mod unat c = 0)"
proof -
  let ?n = "(ucast a :: u64) * ucast b"
  have q: "unat (?n div ucast c) = unat a * unat b div unat c"
    and r: "unat (?n mod ucast c) = unat a * unat b mod unat c"
    by (simp_all add: unat_div unat_mod unat_mult_64)
  have "unat c \<noteq> 0" using c by (simp add: word_nat)
  then have "unat a * unat b mod unat c < 4294967296"
    using unat_u32_lt [of c] by (meson mod_less_divisor neq0_conv order_less_trans)
  then have r': "unat (ucast (?n mod ucast c) :: u32) = unat a * unat b mod unat c"
    using r by (simp add: unat_ucast_64_32)
  have q': "unat (ucast (?n div ucast c) :: u32) = unat a * unat b div unat c"
    using q small by (simp add: unat_ucast_64_32)
  have lt: "\<not> ?n div ucast c \<ge> ucast UINT_MAX"
    using q small by (simp add: word_nat)
  have eq: "muldiv32 a b c = (ucast (?n div ucast c), ucast (?n mod ucast c))"
    using c lt by (simp add: muldiv32_def Let_def)
  show "unat (fst (muldiv32 a b c)) = unat a * unat b div unat c"
    "(snd (muldiv32 a b c) = 0) = (unat a * unat b mod unat c = 0)"
    using q' r' eq by (simp_all add: word_nat)
qed

lemma muldiv32_sat:
  assumes c: "c \<noteq> 0" and big: "4294967295 \<le> unat a * unat b div unat c"
  shows "muldiv32 a b c = (UINT_MAX, 0)"
proof -
  have "unat ((ucast a :: u64) * ucast b div ucast c) = unat a * unat b div unat c"
    by (simp add: unat_div unat_mult_64)
  then have "(ucast a :: u64) * ucast b div ucast c \<ge> ucast UINT_MAX"
    using big by (simp add: word_nat)
  then show ?thesis using c by (simp add: muldiv32_def Let_def)
qed

section \<open>Rounding down and up\<close>

text \<open>
  A lower bound is rounded down and opened when something was lost; an upper bound is rounded up
  and opened when something was added.
\<close>

lemma div32_lower:
  assumes "b \<noteq> 0"
  shows "rv (fst (div32 a b)) \<le> rv a / rv b"
    and "snd (div32 a b) \<noteq> 0 \<Longrightarrow> rv (fst (div32 a b)) < rv a / rv b"
proof -
  have pos: "0 < unat b" using assms by (simp add: word_nat)
  show "rv (fst (div32 a b)) \<le> rv a / rv b"
    "snd (div32 a b) \<noteq> 0 \<Longrightarrow> rv (fst (div32 a b)) < rv a / rv b"
    using assms by (simp_all add: div32_nat real_div_le real_div_less [OF pos])
qed

lemma div32_upper:
  assumes b: "b \<noteq> 0"
  shows "snd (div32 a b) \<noteq> 0 \<Longrightarrow> rv a / rv b < rv (fst (div32 a b) + 1)"
    and "snd (div32 a b) = 0 \<Longrightarrow> rv (fst (div32 a b)) = rv a / rv b"
proof -
  have pos: "0 < unat b" using b by (simp add: word_nat)
  show "snd (div32 a b) = 0 \<Longrightarrow> rv (fst (div32 a b)) = rv a / rv b"
    using b pos by (simp add: div32_nat real_div_exact)
  assume r: "snd (div32 a b) \<noteq> 0"
  then have "unat a mod unat b \<noteq> 0" using b by (simp add: div32_nat)
  then have "2 \<le> unat b" using pos by (cases "unat b = 1") auto
  then have "unat a div unat b \<le> unat a div 2" using pos by (simp add: div_le_mono2)
  also have "\<dots> < 4294967295" using unat_u32_lt [of a] by linarith
  finally have "unat (fst (div32 a b) + 1) = unat a div unat b + 1"
    using b by (simp add: unat_inc32 div32_nat)
  then show "rv a / rv b < rv (fst (div32 a b) + 1)"
    using real_div_succ [OF pos, of "unat a"] by simp
qed

lemma muldiv32_lower:
  assumes c: "c \<noteq> 0" and v: "rv a * rv b / rv c \<le> v" "v < 4294967295"
  shows "rv (fst (muldiv32 a b c)) \<le> rv a * rv b / rv c"
    and "snd (muldiv32 a b c) \<noteq> 0 \<Longrightarrow> rv (fst (muldiv32 a b c)) < rv a * rv b / rv c"
proof -
  have pos: "0 < unat c" using c by (simp add: word_nat)
  have "real (unat a * unat b div unat c) < 4294967295"
    using real_div_le [of "unat a * unat b" "unat c"] v by simp
  then have small: "unat a * unat b div unat c < 4294967295" by linarith
  show "rv (fst (muldiv32 a b c)) \<le> rv a * rv b / rv c"
    "snd (muldiv32 a b c) \<noteq> 0 \<Longrightarrow> rv (fst (muldiv32 a b c)) < rv a * rv b / rv c"
    using muldiv32_nat [OF c small] real_div_le [of "unat a * unat b" "unat c"]
      real_div_less [OF pos, of "unat a * unat b"] by simp_all
qed

lemma muldiv32_upper:
  assumes c: "c \<noteq> 0" and v: "v \<le> rv a * rv b / rv c" "v < 4294967295"
  shows "snd (muldiv32 a b c) \<noteq> 0 \<Longrightarrow> v < rv (fst (muldiv32 a b c) + 1)"
    and "snd (muldiv32 a b c) = 0 \<Longrightarrow> v \<le> rv (fst (muldiv32 a b c))"
    and "snd (muldiv32 a b c) = 0 \<Longrightarrow> v < rv a * rv b / rv c \<Longrightarrow> v < rv (fst (muldiv32 a b c))"
proof -
  have pos: "0 < unat c" using c by (simp add: word_nat)
  consider (sat) "muldiv32 a b c = (UINT_MAX, 0)"
    | (fit) "unat a * unat b div unat c < 4294967295"
    using muldiv32_sat [OF c] by fastforce
  then have "(snd (muldiv32 a b c) \<noteq> 0 \<longrightarrow> v < rv (fst (muldiv32 a b c) + 1)) \<and>
    (snd (muldiv32 a b c) = 0 \<longrightarrow> v \<le> rv (fst (muldiv32 a b c)) \<and>
      (v < rv a * rv b / rv c \<longrightarrow> v < rv (fst (muldiv32 a b c))))"
  proof cases
    case sat
    then show ?thesis using v by simp
  next
    case fit
    note q = muldiv32_nat [OF c fit]
    have up: "unat (fst (muldiv32 a b c) + 1) = unat a * unat b div unat c + 1"
      using q fit by (simp add: unat_inc32)
    have succ: "rv a * rv b / rv c < real (unat a * unat b div unat c) + 1"
      using real_div_succ [OF pos, of "unat a * unat b"] by simp
    have exact: "snd (muldiv32 a b c) = 0 \<Longrightarrow> rv (fst (muldiv32 a b c)) = rv a * rv b / rv c"
      using q real_div_exact [OF pos, of "unat a * unat b"] by simp
    show ?thesis using exact up succ v by auto
  qed
  then show "snd (muldiv32 a b c) \<noteq> 0 \<Longrightarrow> v < rv (fst (muldiv32 a b c) + 1)"
    "snd (muldiv32 a b c) = 0 \<Longrightarrow> v \<le> rv (fst (muldiv32 a b c))"
    "snd (muldiv32 a b c) = 0 \<Longrightarrow> v < rv a * rv b / rv c \<Longrightarrow> v < rv (fst (muldiv32 a b c))"
    by auto
qed

section \<open>Monotone products and quotients\<close>

lemma product_lower:
  fixes x y :: real
  assumes "0 \<le> A" "0 \<le> B" "A \<le> x" "B \<le> y" "0 < x" "0 < y"
  shows "A * B \<le> x * y" and "A < x \<or> B < y \<Longrightarrow> A * B < x * y"
proof -
  show "A * B \<le> x * y" using assms by (intro mult_mono) auto
  have "A * B < x * y" if "A < x"
    using mult_left_mono [of B y A] mult_strict_right_mono [of A x y] assms that by linarith
  moreover have "A * B < x * y" if "B < y"
    using mult_right_mono [of A x B] mult_strict_left_mono [of B y x] assms that by linarith
  ultimately show "A < x \<or> B < y \<Longrightarrow> A * B < x * y" by blast
qed

lemma product_upper:
  fixes x y :: real
  assumes "x \<le> A" "y \<le> B" "0 < x" "0 < y"
  shows "x * y \<le> A * B" and "x < A \<or> y < B \<Longrightarrow> x * y < A * B"
proof -
  have pos: "0 < A" "0 < B" using assms by linarith+
  show "x * y \<le> A * B" using assms pos by (intro mult_mono) auto
  show "x < A \<or> y < B \<Longrightarrow> x * y < A * B"
    using product_lower(2) [of x y A B] assms pos by auto
qed

lemma quotient_lower:
  fixes x y :: real
  assumes "0 \<le> A" "A \<le> x" "y \<le> B" "0 < x" "0 < y"
  shows "A / B \<le> x / y" and "A < x \<or> y < B \<Longrightarrow> A / B < x / y"
proof -
  have B: "0 < B" using assms by linarith
  have i: "0 < 1 / B" "1 / B \<le> 1 / y" "y < B \<Longrightarrow> 1 / B < 1 / y"
    using assms B by (simp_all add: frac_le frac_less2)
  show "A / B \<le> x / y" "A < x \<or> y < B \<Longrightarrow> A / B < x / y"
    using product_lower [of A "1 / B" x "1 / y"] assms i by auto
qed

lemma quotient_upper:
  fixes x y :: real
  assumes "x \<le> A" "B \<le> y" "0 < x" "0 < B"
  shows "x / y \<le> A / B" and "x < A \<or> B < y \<Longrightarrow> x / y < A / B"
  using quotient_lower [of x A B y] assms by auto


section \<open>Soundness of the operations\<close>

lemma in_ivlD:
  assumes "in_ivl i x"
  shows "\<not> iv_empty i" "rv (iv_min i) \<le> x" "openmin i \<Longrightarrow> rv (iv_min i) < x"
    "x \<le> rv (iv_max i)" "openmax i \<Longrightarrow> x < rv (iv_max i)" "iv_integer i \<Longrightarrow> x \<in> \<int>"
  using assms by (auto simp: ivl_mem_defs split: if_splits)

lemma in_ivlI:
  assumes "\<not> iv_empty i" "rv (iv_min i) \<le> x" "openmin i \<Longrightarrow> rv (iv_min i) < x"
    "x \<le> rv (iv_max i)" "openmax i \<Longrightarrow> x < rv (iv_max i)" "iv_integer i \<Longrightarrow> x \<in> \<int>"
  shows "in_ivl i x"
  using assms by (auto simp: ivl_mem_defs)

lemma rv_mul: "rv (mul a b) = min (rv a * rv b) 4294967295"
  by (simp add: unat_mul of_nat_min)

lemma snd_interval_mul_sound:
  assumes a: "in_ivl a x" and b: "in_ivl b y"
    and pos: "0 < x" "0 < y" and lim: "x * y < 4294967295"
  shows "in_ivl (snd_interval_mul a b c) (x * y)"
proof (rule in_ivlI)
  note A = in_ivlD [OF a] and B = in_ivlD [OF b]
  note lo = product_lower [OF _ _ A(2) B(2) pos] and hi = product_upper [OF A(4) B(4) pos]
  show "rv (iv_min (snd_interval_mul a b c)) \<le> x * y"
    using A(1) B(1) lo(1) by (simp add: snd_interval_mul_def rv_mul min_le_iff_disj)
  show "openmin (snd_interval_mul a b c) \<Longrightarrow> rv (iv_min (snd_interval_mul a b c)) < x * y"
    using A(1,3) B(1,3) lo(2) by (auto simp: snd_interval_mul_def rv_mul min_less_iff_disj)
  show "x * y \<le> rv (iv_max (snd_interval_mul a b c))"
    using A(1) B(1) hi(1) lim by (simp add: snd_interval_mul_def rv_mul)
  show "openmax (snd_interval_mul a b c) \<Longrightarrow> x * y < rv (iv_max (snd_interval_mul a b c))"
    using A(1,5) B(1,5) hi(2) lim by (auto simp: snd_interval_mul_def rv_mul)
  show "iv_integer (snd_interval_mul a b c) \<Longrightarrow> x * y \<in> \<int>"
    using A(1,6) B(1,6) by (simp add: snd_interval_mul_def)
qed (use in_ivlD(1) [OF a] in_ivlD(1) [OF b] in \<open>simp add: snd_interval_mul_def\<close>)

text \<open>The three divisions share their two bounds: a lower bound rounded down, and an upper bound
  rounded up, or \<open>UINT_MAX\<close> when the divisor may vanish.\<close>

lemma snd_interval_div_sound:
  assumes a: "in_ivl a x" and b: "in_ivl b y"
    and pos: "0 < x" "0 < y" and lim: "x / y < 4294967295"
  shows "in_ivl (snd_interval_div a b c) (x / y)"
proof -
  note A = in_ivlD [OF a] and B = in_ivlD [OF b]
  have bmax: "iv_max b \<noteq> 0" using B(4) pos by (auto simp: word_nat)
  note lo = quotient_lower [OF _ A(2) B(4) pos]
  have low: "rv (fst (div32 (iv_min a) (iv_max b))) \<le> x / y"
    "snd (div32 (iv_min a) (iv_max b)) \<noteq> 0 \<or> openmin a \<or> openmax b \<Longrightarrow>
       rv (fst (div32 (iv_min a) (iv_max b))) < x / y"
    using div32_lower [OF bmax, of "iv_min a"] lo A(3) B(5) by fastforce+
  have high: "x / y < rv (fst (div32 (iv_max a) (iv_min b)) + 1)"
    if "snd (div32 (iv_max a) (iv_min b)) \<noteq> 0" "iv_min b > 0"
  proof -
    have bmin: "iv_min b \<noteq> 0" "0 < rv (iv_min b)" using that(2) by (simp_all add: word_nat)
    show ?thesis
      using div32_upper(1) [OF bmin(1) that(1)] quotient_upper(1) [OF A(4) B(2) pos(1) bmin(2)]
      by linarith
  qed
  have high0: "x / y \<le> rv (fst (div32 (iv_max a) (iv_min b)))"
    "openmax a \<or> openmin b \<Longrightarrow> x / y < rv (fst (div32 (iv_max a) (iv_min b)))"
    if "snd (div32 (iv_max a) (iv_min b)) = 0" "iv_min b > 0"
  proof -
    have bmin: "iv_min b \<noteq> 0" "0 < rv (iv_min b)" using that(2) by (simp_all add: word_nat)
    note hi = quotient_upper [OF A(4) B(2) pos(1) bmin(2)]
    show "x / y \<le> rv (fst (div32 (iv_max a) (iv_min b)))"
      "openmax a \<or> openmin b \<Longrightarrow> x / y < rv (fst (div32 (iv_max a) (iv_min b)))"
      using div32_upper(2) [OF bmin(1) that(1)] hi A(5) B(3) by fastforce+
  qed
  show ?thesis
    using A(1) B(1) low high high0 lim
    by (auto intro!: in_ivlI simp: snd_interval_div_def Let_def split_beta order_less_imp_le)
qed

lemma snd_interval_muldivk_sound:
  assumes a: "in_ivl a x" and b: "in_ivl b y" and k: "k \<noteq> 0"
    and pos: "0 < x" "0 < y" and lim: "x * y / rv k < 4294967295"
  shows "in_ivl (snd_interval_muldivk a b k c) (x * y / rv k)"
proof -
  note A = in_ivlD [OF a] and B = in_ivlD [OF b]
  have kpos: "0 < rv k" using k by (simp add: word_nat)
  note lo = product_lower [OF _ _ A(2) B(2) pos] and hi = product_upper [OF A(4) B(4) pos]
  have lok: "rv (iv_min a) * rv (iv_min b) / rv k \<le> x * y / rv k"
    "openmin a \<or> openmin b \<Longrightarrow> rv (iv_min a) * rv (iv_min b) / rv k < x * y / rv k"
    using lo A(3) B(3) kpos by (auto intro: divide_right_mono divide_strict_right_mono)
  have hik: "x * y / rv k \<le> rv (iv_max a) * rv (iv_max b) / rv k"
    "openmax a \<or> openmax b \<Longrightarrow> x * y / rv k < rv (iv_max a) * rv (iv_max b) / rv k"
    using hi A(5) B(5) kpos by (auto intro: divide_right_mono divide_strict_right_mono)
  have low: "rv (fst (muldiv32 (iv_min a) (iv_min b) k)) \<le> x * y / rv k"
    "snd (muldiv32 (iv_min a) (iv_min b) k) \<noteq> 0 \<or> openmin a \<or> openmin b \<Longrightarrow>
       rv (fst (muldiv32 (iv_min a) (iv_min b) k)) < x * y / rv k"
    using muldiv32_lower [OF k lok(1) lim] lok by fastforce+
  note high = muldiv32_upper [OF k hik(1) lim]
  show ?thesis
    using A(1) B(1) low high hik(2)
    by (auto intro!: in_ivlI simp: snd_interval_muldivk_def Let_def split_beta order_less_imp_le)
qed

lemma snd_interval_mulkdiv_sound:
  assumes a: "in_ivl a x" and b: "in_ivl b y" and k: "k \<noteq> 0"
    and pos: "0 < x" "0 < y" and lim: "x * rv k / y < 4294967295"
  shows "in_ivl (snd_interval_mulkdiv a k b c) (x * rv k / y)"
proof -
  note A = in_ivlD [OF a] and B = in_ivlD [OF b]
  have kpos: "0 < rv k" using k by (simp add: word_nat)
  have xk: "0 < x * rv k" using pos kpos by simp
  have bmax: "iv_max b \<noteq> 0" using B(4) pos by (auto simp: word_nat)
  have ak: "rv (iv_min a) * rv k \<le> x * rv k" "openmin a \<Longrightarrow> rv (iv_min a) * rv k < x * rv k"
    "x * rv k \<le> rv (iv_max a) * rv k" "openmax a \<Longrightarrow> x * rv k < rv (iv_max a) * rv k"
    using A kpos by simp_all
  note lo = quotient_lower [OF _ ak(1) B(4) xk pos(2)]
  have lov: "rv (iv_min a) * rv k / rv (iv_max b) \<le> x * rv k / y"
    "openmin a \<or> openmax b \<Longrightarrow> rv (iv_min a) * rv k / rv (iv_max b) < x * rv k / y"
    using lo ak(2) B(5) by auto
  have low: "rv (fst (muldiv32 (iv_min a) k (iv_max b))) \<le> x * rv k / y"
    "snd (muldiv32 (iv_min a) k (iv_max b)) \<noteq> 0 \<or> openmin a \<or> openmax b \<Longrightarrow>
       rv (fst (muldiv32 (iv_min a) k (iv_max b))) < x * rv k / y"
    using muldiv32_lower [OF bmax lov(1) lim] lov by fastforce+
  have high: "snd (muldiv32 (iv_max a) k (iv_min b)) \<noteq> 0 \<Longrightarrow>
       x * rv k / y < rv (fst (muldiv32 (iv_max a) k (iv_min b)) + 1)"
    "snd (muldiv32 (iv_max a) k (iv_min b)) = 0 \<Longrightarrow>
       x * rv k / y \<le> rv (fst (muldiv32 (iv_max a) k (iv_min b)))"
    "snd (muldiv32 (iv_max a) k (iv_min b)) = 0 \<Longrightarrow> openmax a \<or> openmin b \<Longrightarrow>
       x * rv k / y < rv (fst (muldiv32 (iv_max a) k (iv_min b)))"
    if "iv_min b > 0"
  proof -
    have bmin: "iv_min b \<noteq> 0" "0 < rv (iv_min b)" using that by (simp_all add: word_nat)
    note hi = quotient_upper [OF ak(3) B(2) xk bmin(2)]
    note up = muldiv32_upper [OF bmin(1) hi(1) lim]
    show "snd (muldiv32 (iv_max a) k (iv_min b)) \<noteq> 0 \<Longrightarrow>
       x * rv k / y < rv (fst (muldiv32 (iv_max a) k (iv_min b)) + 1)" by (rule up(1))
    show "snd (muldiv32 (iv_max a) k (iv_min b)) = 0 \<Longrightarrow>
       x * rv k / y \<le> rv (fst (muldiv32 (iv_max a) k (iv_min b)))" by (rule up(2))
    show "snd (muldiv32 (iv_max a) k (iv_min b)) = 0 \<Longrightarrow> openmax a \<or> openmin b \<Longrightarrow>
       x * rv k / y < rv (fst (muldiv32 (iv_max a) k (iv_min b)))"
      using up(3) hi(2) ak(4) B(3) by blast
  qed
  show ?thesis
    using A(1) B(1) low high lim
    by (auto intro!: in_ivlI simp: snd_interval_mulkdiv_def Let_def split_beta order_less_imp_le)
qed


abbreviation ivl :: "u32 \<Rightarrow> bool \<Rightarrow> u32 \<Rightarrow> bool \<Rightarrow> bool \<Rightarrow> snd_interval" where
  "ivl mn opmin mx opmax integ \<equiv>
     \<lparr>iv_min = mn, iv_max = mx, openmin = opmin, openmax = opmax, iv_integer = integ, iv_empty = False\<rparr>"


text \<open>
  outside the range of the previous property the open flags of the code are wrong. A product
  of 0 is dropped when the other factor has an open lower bound; and a lower bound that saturates
  at \<open>UINT_MAX\<close> and is open wraps around to 0 when it refines an integer interval: the refinement
  succeeds and reports a change although nothing is left, and the interval stays as it was.
\<close>

theorem snd_interval_open_bound_gaps:
  "in_ivl (ivl 0 True 2 False False) 1 \<and> in_ivl (ivl 0 False 3 False False) 0 \<and>
   \<not> in_ivl (snd_interval_mul (ivl 0 True 2 False False) (ivl 0 False 3 False False) c) (1 * 0) \<and>
   (\<nexists>x. in_ivl (ivl 0 False 96000 False True) x \<and>
      in_range (snd_interval_mul (ivl 65536 True 65537 False False) (ivl 65536 False 65537 False False) c) x) \<and>
   snd_interval_refine (ivl 0 False 96000 False True)
     (snd_interval_mul (ivl 65536 True 65537 False False) (ivl 65536 False 65537 False False) c) =
   (ivl 0 False 96000 False True, Inr True)"
  by (simp add: ivl_mem_defs snd_interval_mul_def mul_def div_down_def snd_interval_refine_def
      refine_lower_def refine_upper_def refine_integer_def refine_close_def
      snd_interval_checkempty_def snd_interval_empty_def)

end
