(* ===== verification/Pcm_Interval_Tables.thy ===== *)
theory Pcm_Interval_Tables
  imports Pcm_Interval_Arith
begin

text \<open>
  Correctness of the interval operations that restrict a parameter to a table: value lists
  (\<open>snd_interval_list\<close>), multiples of a step (\<open>snd_interval_step\<close>) and ratios of a clock
  (\<open>snd_interval_ratnum\<close>, \<open>snd_interval_ratden\<close>), with the corner cases where the code drops
  values that the table allows.
\<close>

section \<open>Value lists\<close>

text \<open>The elements of a list that the mask selects and the interval admits.\<close>

fun admitted :: "snd_interval \<Rightarrow> u32 \<Rightarrow> nat \<Rightarrow> u32 list \<Rightarrow> u32 list" where
  "admitted i msk k [] = []"
| "admitted i msk k (x # xs) =
     (if (msk \<noteq> 0 \<and> \<not> bit msk k) \<or> \<not> snd_interval_test i x then admitted i msk (Suc k) xs
      else x # admitted i msk (Suc k) xs)"

lemma list_range_scan_fold:
  "list_range_scan i msk k xs (lo, hi) =
     (fold min (admitted i msk k xs) lo, fold max (admitted i msk k xs) hi)"
  by (induction xs arbitrary: k lo hi msk) (simp_all add: min.commute max.commute)

lemma fold_min_le: "x \<in> set xs \<Longrightarrow> fold min xs (a :: u32) \<le> x"
  by (metis List.finite_set Min.set_eq_fold Min_le list.set_intros(2))

lemma fold_max_ge: "x \<in> set xs \<Longrightarrow> x \<le> fold max xs (a :: u32)"
  by (metis List.finite_set Max.set_eq_fold Max_ge list.set_intros(2))

lemma fold_min_in: "fold min xs (a :: u32) \<in> set (a # xs)"
  by (metis List.finite_set Min.set_eq_fold Min_in list.distinct(1) set_empty)

lemma fold_max_in: "fold max xs (a :: u32) \<in> set (a # xs)"
  by (metis List.finite_set Max.set_eq_fold Max_in list.distinct(1) set_empty)

lemma fold_min_elem: "xs \<noteq> [] \<Longrightarrow> fold min xs UINT_MAX \<in> set xs"
proof -
  assume "xs \<noteq> []"
  then obtain x where x: "x \<in> set xs" by (cases xs) auto
  have "x = UINT_MAX" if "fold min xs UINT_MAX = UINT_MAX"
    using fold_min_le [OF x, of UINT_MAX] that unat_u32_le_max [of x] by (simp add: word_nat)
  then show ?thesis using x fold_min_in [of xs UINT_MAX] by auto
qed

lemma fold_max_elem: "xs \<noteq> [] \<Longrightarrow> fold max xs 0 \<in> set (xs :: u32 list)"
proof -
  assume "xs \<noteq> []"
  then obtain x where x: "x \<in> set xs" by (cases xs) auto
  have "x = 0" if "fold max xs 0 = 0"
    using fold_max_ge [OF x, of 0] that by (simp add: word_nat)
  then show ?thesis using x fold_max_in [of xs 0] by auto
qed

lemma admitted_test: "x \<in> set (admitted i msk k xs) \<Longrightarrow> snd_interval_test i x"
  by (induction xs arbitrary: k) (auto split: if_splits)

lemma test_in_ivl:
  "\<not> iv_empty i \<Longrightarrow> snd_interval_test i w = in_ivl i (rv w)"
  by (auto simp: snd_interval_test_def ivl_mem_defs word_nat)

lemma admittedI:
  assumes "w \<in> set xs" and "msk = 0" and "snd_interval_test i w"
  shows "w \<in> set (admitted i msk k xs)"
  using assms by (induction xs arbitrary: k) auto

lemma admitted_nthI:
  assumes "j < length xs" and "bit msk (k + j)" and "snd_interval_test i (xs ! j)"
  shows "xs ! j \<in> set (admitted i msk k xs)"
  using assms
proof (induction xs arbitrary: k j)
  case (Cons x xs)
  show ?case
  proof (cases j)
    case 0
    then show ?thesis using Cons.prems by simp
  next
    case (Suc j')
    then show ?thesis using Cons.prems Cons.IH [of j' "Suc k"] by simp
  qed
qed simp

definition list_range :: "snd_interval \<Rightarrow> u32 \<Rightarrow> u32 list \<Rightarrow> snd_interval \<Rightarrow> snd_interval" where
  "list_range i msk xs t = (snd_interval_any t)\<lparr>iv_min := fold min (admitted i msk 0 xs) UINT_MAX,
     iv_max := fold max (admitted i msk 0 xs) 0\<rparr>"

lemma snd_interval_list_alt:
  "xs \<noteq> [] \<Longrightarrow> snd_interval_list i xs msk t = snd_interval_refine i (list_range i msk xs t)"
  by (simp add: snd_interval_list_def list_range_scan_fold list_range_def Let_def)

lemma in_list_range:
  "in_range (list_range i msk xs t) x \<longleftrightarrow>
     rv (fold min (admitted i msk 0 xs) UINT_MAX) \<le> x \<and> x \<le> rv (fold max (admitted i msk 0 xs) 0)"
  by (simp add: list_range_def snd_interval_any_def ivl_mem_defs)

lemma admitted_in_list_range:
  "w \<in> set (admitted i msk 0 xs) \<Longrightarrow> in_range (list_range i msk xs t) (rv w)"
  using fold_min_le [of w "admitted i msk 0 xs" UINT_MAX]
    fold_max_ge [of w "admitted i msk 0 xs" 0]
  by (simp add: in_list_range word_nat)

lemma snd_interval_list_contract:
  assumes w: "w \<in> set (admitted i msk 0 xs)" and ne: "\<not> iv_empty i"
  obtains i' c where "snd_interval_list i xs msk t = (i', Inr c)" "in_ivl i' (rv w)"
    "\<And>y. in_ivl i' y \<longleftrightarrow> in_ivl i y \<and> in_range (list_range i msk xs t) y"
    "c \<Longrightarrow> ivl_size i' < ivl_size i" "ivl_size i' \<le> ivl_size i"
proof -
  have "xs \<noteq> []" using w by auto
  moreover have "in_ivl i (rv w)" using admitted_test [OF w] ne by (simp add: test_in_ivl)
  moreover have "in_range (list_range i msk xs t) (rv w)" using w by (rule admitted_in_list_range)
  ultimately show ?thesis
    using that snd_interval_refine_contract [of i "rv w" "list_range i msk xs t"]
    by (metis snd_interval_list_alt)
qed

text \<open>
  \<open>snd_interval_list\<close> fails exactly when no selected list element lies in the interval;
  otherwise the new interval contains all of these elements and lies between two of them.
\<close>

theorem snd_interval_list_exact:
  assumes ne: "\<not> iv_empty i" and wf: "ivl_wf i"
  shows "case snd_interval_list i xs msk t of
           (i', Inr c) \<Rightarrow> (\<exists>lo \<in> set (admitted i msk 0 xs). \<exists>hi \<in> set (admitted i msk 0 xs).
              (\<forall>w \<in> set (admitted i msk 0 xs). in_ivl i' (rv w)) \<and>
              (\<forall>y. in_ivl i' y \<longrightarrow> rv lo \<le> y \<and> y \<le> rv hi))
         | (i', Inl e) \<Rightarrow> e = EINVAL \<and> iv_empty i' \<and> admitted i msk 0 xs = []"
proof (cases "admitted i msk 0 xs = []")
  case False
  let ?a = "admitted i msk 0 xs"
  from False obtain w0 where w0: "w0 \<in> set ?a" by (cases ?a) auto
  obtain i' c where eq: "snd_interval_list i xs msk t = (i', Inr c)"
    and mem: "\<And>y. in_ivl i' y \<longleftrightarrow> in_ivl i y \<and> in_range (list_range i msk xs t) y"
    using snd_interval_list_contract [OF w0 ne] by metis
  have "in_ivl i' (rv w)" if "w \<in> set ?a" for w
    using that mem admitted_test [OF that] ne admitted_in_list_range [OF that]
    by (simp add: test_in_ivl)
  moreover have "rv (fold min ?a UINT_MAX) \<le> y \<and> y \<le> rv (fold max ?a 0)" if "in_ivl i' y" for y
    using mem [of y] that by (simp add: in_list_range)
  ultimately show ?thesis
    using eq fold_min_elem [OF False] fold_max_elem [OF False] by auto
next
  case True
  show ?thesis
  proof (cases "xs = []")
    case True
    then show ?thesis by (simp add: snd_interval_list_def)
  next
    case False
    have "\<not> in_range (list_range i msk xs t) x" for x
      using True by (simp add: in_list_range)
    moreover have "ivl_wf (list_range i msk xs t)"
      by (simp add: ivl_wf_def list_range_def snd_interval_any_def)
    ultimately show ?thesis
      using snd_interval_refine_meets [OF ne wf, of "list_range i msk xs t"] False True
      by (auto simp: snd_interval_list_alt split: prod.splits sum.splits)
  qed
qed

section \<open>Steps\<close>

lemma next_multiple_le:
  assumes "0 < (s :: nat)" "s dvd w" "m \<le> w" "m mod s \<noteq> 0"
  shows "m + (s - m mod s) \<le> w" "s dvd m + (s - m mod s)"
proof -
  obtain k where w: "w = s * k" using assms(2) by blast
  have m: "m = s * (m div s) + m mod s" by simp
  have lt: "m mod s < s" using assms(1) by simp
  have "m + (s - m mod s) = s * (m div s + 1)"
    using m lt by (metis add.assoc add_diff_inverse_nat distrib_left less_imp_not_less mult.right_neutral)
  moreover have "m div s < k"
  proof (rule ccontr)
    assume "\<not> m div s < k"
    then have "s * k \<le> s * (m div s)" by simp
    then show False using assms(3,4) m w by linarith
  qed
  then have "s * (m div s + 1) \<le> w" by (metis Suc_eq_plus1 Suc_leI mult_le_mono2 w)
  ultimately show "m + (s - m mod s) \<le> w" "s dvd m + (s - m mod s)" by simp_all
qed

lemma prev_multiple_ge:
  assumes "(s :: nat) dvd w" "w \<le> m"
  shows "w \<le> m - m mod s" "s dvd m - m mod s"
proof -
  show "s dvd m - m mod s" by (rule dvd_minus_mod)
  obtain k where w: "w = s * k" using assms(1) by blast
  have "k \<le> m div s \<or> s = 0" using assms(2) w by (metis div_le_mono nonzero_mult_div_cancel_left)
  then have "s * k \<le> s * (m div s)" by auto
  then show "w \<le> m - m mod s" using w by (simp add: minus_mod_eq_mult_div)
qed


text \<open>
  on an interval with closed bounds the step rule keeps every multiple of the step and moves
  both bounds to multiples. (The code leaves an open bound open, see the next theorem.)
\<close>

theorem snd_interval_step_sound:
  assumes closed: "\<not> openmin i" "\<not> openmax i" and ne: "\<not> iv_empty i"
    and step: "step \<noteq> 0" and w: "in_ivl i (rv w)" "unat step dvd unat w"
  shows "\<exists>i' c. snd_interval_step i 0 step = (i', Inr c) \<and> in_ivl i' (rv w) \<and>
           unat step dvd unat (iv_min i') \<and> unat step dvd unat (iv_max i') \<and>
           (\<forall>y. in_ivl i' y \<longrightarrow> in_ivl i y) \<and> (c \<longrightarrow> ivl_size i' < ivl_size i)"
proof -
  let ?s = "unat step" and ?m = "unat (iv_min i)" and ?M = "unat (iv_max i)"
  define lo where "lo = (if iv_min i mod step \<noteq> 0 then iv_min i + (step - iv_min i mod step) else iv_min i)"
  define hi where "hi = (if iv_max i mod step \<noteq> 0 then iv_max i - iv_max i mod step else iv_max i)"
  have s: "0 < ?s" using step by (simp add: word_nat)
  have bounds: "?m \<le> unat w" "unat w \<le> ?M" using in_ivlD(2,4) [OF w(1)] by simp_all
  have mod0: "(iv_min i mod step = 0) = (?m mod ?s = 0)" "(iv_max i mod step = 0) = (?M mod ?s = 0)"
    by (simp_all add: word_nat)
  have lo: "unat lo \<le> unat w" "?s dvd unat lo" "?m \<le> unat lo" "iv_min i mod step \<noteq> 0 \<Longrightarrow> ?m < unat lo"
  proof -
    have up: "unat lo = ?m + (?s - ?m mod ?s)" "?m < unat lo" if r: "?m mod ?s \<noteq> 0"
    proof -
      have d: "unat (step - iv_min i mod step) = ?s - ?m mod ?s"
        using s by (simp add: unat_sub_nowrap word_nat order_less_imp_le)
      moreover have "?m + (?s - ?m mod ?s) \<le> unat w"
        using next_multiple_le(1) [OF s w(2) bounds(1) r] .
      ultimately have "unat (iv_min i + (step - iv_min i mod step)) = ?m + (?s - ?m mod ?s)"
        by (subst unat_add_le [where c = w]) simp_all
      then show "unat lo = ?m + (?s - ?m mod ?s)" using r mod0 by (simp add: lo_def)
      then show "?m < unat lo" using mod_less_divisor [OF s, of ?m] by linarith
    qed
    have same: "lo = iv_min i \<and> ?s dvd ?m" if "?m mod ?s = 0"
      using that mod0(1) by (simp add: lo_def mod_eq_0_iff_dvd)
    have "unat lo \<le> unat w \<and> ?s dvd unat lo \<and> ?m \<le> unat lo \<and> (?m mod ?s \<noteq> 0 \<longrightarrow> ?m < unat lo)"
      using up same next_multiple_le [OF s w(2) bounds(1)] bounds by (cases "?m mod ?s = 0") auto
    then show "unat lo \<le> unat w" "?s dvd unat lo" "?m \<le> unat lo"
      "iv_min i mod step \<noteq> 0 \<Longrightarrow> ?m < unat lo"
      unfolding mod0 by blast+
  qed
  have hi: "unat w \<le> unat hi" "?s dvd unat hi" "unat hi \<le> ?M" "iv_max i mod step \<noteq> 0 \<Longrightarrow> unat hi < ?M"
  proof -
    have u: "unat hi = ?M - ?M mod ?s"
      by (auto simp: hi_def word_nat unat_sub_nowrap)
    have "?M mod ?s \<le> ?M" by simp
    then have "0 < ?M mod ?s \<Longrightarrow> ?M - ?M mod ?s < ?M" by linarith
    then show "unat w \<le> unat hi" "?s dvd unat hi" "unat hi \<le> ?M"
      "iv_max i mod step \<noteq> 0 \<Longrightarrow> unat hi < ?M"
      using prev_multiple_ge [OF w(2) bounds(2)] mod0(2) by (auto simp: u)
  qed
  define i' where "i' = i\<lparr>iv_min := lo, iv_max := hi\<rparr>"
  have eq: "snd_interval_step i 0 step = (i', Inr (iv_min i mod step \<noteq> 0 \<or> iv_max i mod step \<noteq> 0))"
  proof -
    have "snd_interval_step i 0 step =
       (if snd_interval_checkempty i' then (i'\<lparr>iv_empty := True\<rparr>, Inl EINVAL)
        else (i', Inr (iv_min i mod step \<noteq> 0 \<or> iv_max i mod step \<noteq> 0)))"
      using closed by (simp add: snd_interval_step_def Let_def i'_def lo_def hi_def)
    moreover have "\<not> snd_interval_checkempty i'"
      using lo(1) hi(1) closed by (auto simp: snd_interval_checkempty_def i'_def word_le_nat_alt not_less)
    ultimately show ?thesis by simp
  qed
  have size: "ivl_size i' < ivl_size i" if "iv_min i mod step \<noteq> 0 \<or> iv_max i mod step \<noteq> 0"
    using that closed lo hi
    by (auto simp: i'_def ivl_size_def lo_key_def hi_key_def)
  have mem: "in_ivl i' (rv w)" "in_ivl i' y \<Longrightarrow> in_ivl i y" for y
    using w(1) closed lo hi ne by (auto simp: i'_def ivl_mem_defs)
  show ?thesis
    using eq lo(2) hi(2) mem size by (auto simp: i'_def)
qed

text \<open>
  the step rule does not clear an open-bound flag when it moves the bound, so a lower bound
  that is open at a multiple of the step loses the next multiple, which the interval contains.
\<close>

theorem snd_interval_step_loses_multiple:
  assumes i: "openmin i" "\<not> openmax i" "\<not> iv_empty i" and step: "step \<noteq> 0"
    and aligned: "iv_min i mod step = 0" "iv_max i mod step = 0"
    and room: "unat (iv_min i) + unat step < unat (iv_max i)"
  shows "in_ivl i (rv (iv_min i + step)) \<and>
    (\<exists>i'. snd_interval_step i 0 step = (i', Inr True) \<and> \<not> in_ivl i' (rv (iv_min i + step)))"
proof -
  have u: "unat (iv_min i + step) = unat (iv_min i) + unat step"
    using room by (intro unat_add_le [where c = "iv_max i"]) simp
  have s: "0 < unat step" using step by (simp add: word_nat)
  have "in_ivl i (rv (iv_min i + step))"
    using i room u s by (auto simp: ivl_mem_defs)
  moreover have z: "step - iv_min i mod step = step" by (simp only: aligned diff_zero)
  have "snd_interval_step i 0 step = (i\<lparr>iv_min := iv_min i + step\<rparr>, Inr True)"
    using i aligned room u
    by (auto simp: snd_interval_step_def Let_def snd_interval_checkempty_def word_nat z)
  ultimately show ?thesis
    using i by (auto simp: ivl_mem_defs)
qed


section \<open>Ratios\<close>

text \<open>A table entry that a driver may register: its step is positive and divides its range.\<close>

definition ratnum_ok :: "snd_ratnum \<Rightarrow> bool" where
  "ratnum_ok r \<longleftrightarrow> rn_den_step r \<noteq> 0 \<and> rn_den_min r \<le> rn_den_max r \<and>
     unat (rn_den_step r) dvd unat (rn_den_max r) - unat (rn_den_min r)"

text \<open>A divisor that the entry can be programmed with.\<close>

definition on_grid :: "snd_ratnum \<Rightarrow> u32 \<Rightarrow> bool" where
  "on_grid r den \<longleftrightarrow> rn_den_min r \<le> den \<and> den \<le> rn_den_max r \<and>
     unat (rn_den_step r) dvd unat den - unat (rn_den_min r)"

definition ratio_from :: "snd_ratnum set \<Rightarrow> best_ratio \<Rightarrow> bool" where
  "ratio_from R b \<longleftrightarrow> (case b of (num, den, diff) \<Rightarrow>
     (num, den, diff) = (0, 0, 0) \<or> (\<exists>r \<in> R. num = rn_num r \<and> on_grid r den))"

lemma on_grid_max: "ratnum_ok r \<Longrightarrow> on_grid r (rn_den_max r)"
  by (simp add: ratnum_ok_def on_grid_def)

lemma on_grid_min: "ratnum_ok r \<Longrightarrow> on_grid r (rn_den_min r)"
  by (simp add: ratnum_ok_def on_grid_def)

lemma on_grid_down:
  assumes ok: "ratnum_ok r" and den: "rn_den_min r \<le> den" "den \<le> rn_den_max r"
  shows "on_grid r (den - (den - rn_den_min r) mod rn_den_step r)"
proof -
  let ?d = "unat den" and ?m = "unat (rn_den_min r)" and ?s = "unat (rn_den_step r)"
  have le: "?m \<le> ?d" "?d \<le> unat (rn_den_max r)" using den by (simp_all add: word_nat)
  have r: "unat ((den - rn_den_min r) mod rn_den_step r) = (?d - ?m) mod ?s"
    using den by (simp add: unat_mod unat_sub_nowrap)
  have small: "(?d - ?m) mod ?s \<le> ?d - ?m" by simp
  then have small': "(?d - ?m) mod ?s \<le> ?d" by linarith
  then have "unat (den - (den - rn_den_min r) mod rn_den_step r) = ?d - (?d - ?m) mod ?s"
    using r le by (subst unat_sub_nowrap) (simp_all add: word_nat)
  moreover have "?d - (?d - ?m) mod ?s - ?m = (?d - ?m) - (?d - ?m) mod ?s" by linarith
  moreover have "?s dvd (?d - ?m) - (?d - ?m) mod ?s" by (rule dvd_minus_mod)
  moreover have "?m \<le> ?d - (?d - ?m) mod ?s" "?d - (?d - ?m) mod ?s \<le> unat (rn_den_max r)"
    using le small by linarith+
  ultimately show ?thesis unfolding on_grid_def word_le_nat_alt by presburger
qed

lemma on_grid_up:
  assumes ok: "ratnum_ok r" and den: "rn_den_min r \<le> den" "den \<le> rn_den_max r"
    and r: "(den - rn_den_min r) mod rn_den_step r \<noteq> 0"
  shows "on_grid r (den + (rn_den_step r - (den - rn_den_min r) mod rn_den_step r))"
proof -
  let ?d = "unat den" and ?m = "unat (rn_den_min r)" and ?s = "unat (rn_den_step r)"
    and ?M = "unat (rn_den_max r)"
  have s: "0 < ?s" and dvd: "?s dvd ?M - ?m" using ok by (simp_all add: ratnum_ok_def word_nat)
  have le: "?m \<le> ?d" "?d \<le> ?M" using den by (simp_all add: word_nat)
  have r': "unat ((den - rn_den_min r) mod rn_den_step r) = (?d - ?m) mod ?s"
    using den by (simp add: unat_mod unat_sub_nowrap)
  then have nz: "(?d - ?m) mod ?s \<noteq> 0" using r by (simp add: word_nat)
  have nxt: "(?d - ?m) + (?s - (?d - ?m) mod ?s) \<le> ?M - ?m"
    "?s dvd (?d - ?m) + (?s - (?d - ?m) mod ?s)"
    using next_multiple_le [OF s dvd _ nz] le by simp_all
  have "unat (rn_den_step r - (den - rn_den_min r) mod rn_den_step r) = ?s - (?d - ?m) mod ?s"
    using r' s by (subst unat_sub_nowrap) (simp_all add: word_nat order_less_imp_le)
  then have "unat (den + (rn_den_step r - (den - rn_den_min r) mod rn_den_step r)) =
     ?d + (?s - (?d - ?m) mod ?s)"
    using nxt(1) le by (subst unat_add_le [where c = "rn_den_max r"]) simp_all
  moreover have "?d + (?s - (?d - ?m) mod ?s) - ?m = (?d - ?m) + (?s - (?d - ?m) mod ?s)"
    using le by simp
  ultimately show ?thesis
    using nxt le by (simp add: on_grid_def word_nat)
qed

lemma better_ratio_from:
  "ratio_from R b \<Longrightarrow> \<exists>r \<in> R. num = rn_num r \<and> on_grid r den \<Longrightarrow> ratio_from R (better_ratio num den diff b)"
  by (auto simp: ratio_from_def better_ratio_def split: prod.splits)

lemma ratnum_lower_step_from:
  assumes ok: "ratnum_ok r" and r: "r \<in> R" and b: "ratio_from R b"
  shows "ratio_from R (ratnum_lower_step imin r b)"
proof -
  define q where "q = (if imin = 0 then 1 else imin)"
  define den where "den = div_up (rn_num r) q"
  define den' where "den' = (if den > rn_den_max r then rn_den_max r
    else let m = (den - rn_den_min r) mod rn_den_step r in if m \<noteq> 0 then den - m else den)"
  have eq: "ratnum_lower_step imin r b = (if den < rn_den_min r then b
    else better_ratio (rn_num r) den' (c_abs (rn_num r - q * den')) b)"
    by (simp add: ratnum_lower_step_def Let_def q_def den_def den'_def)
  have "on_grid r den'" if "\<not> den < rn_den_min r"
    using that on_grid_max [OF ok] on_grid_down [OF ok, of den]
    by (cases "den > rn_den_max r"; cases "(den - rn_den_min r) mod rn_den_step r = 0")
      (simp_all add: den'_def Let_def not_less)
  then show ?thesis using eq b r by (auto intro: better_ratio_from)
qed

lemma ratnum_upper_step_from:
  assumes ok: "ratnum_ok r" and r: "r \<in> R" and b: "ratio_from R b"
  shows "ratio_from R (ratnum_upper_step imax r b)"
proof -
  define den where "den = div_down (rn_num r) imax"
  define den' where "den' = (if den < rn_den_min r then rn_den_min r
    else let m = (den - rn_den_min r) mod rn_den_step r
         in if m \<noteq> 0 then den + (rn_den_step r - m) else den)"
  have eq: "ratnum_upper_step imax r b = (if den > rn_den_max r then b
    else better_ratio (rn_num r) den' (c_abs (imax * den' - rn_num r)) b)"
    by (simp add: ratnum_upper_step_def Let_def den_def den'_def)
  have "on_grid r den'" if "\<not> den > rn_den_max r"
    using that on_grid_min [OF ok] on_grid_up [OF ok, of den] on_grid_down [OF ok, of den]
    by (cases "den < rn_den_min r"; cases "(den - rn_den_min r) mod rn_den_step r = 0")
      (simp_all add: den'_def Let_def not_less)
  then show ?thesis using eq b r by (auto intro: better_ratio_from)
qed

lemma fold_ratio_from:
  assumes "\<And>r b. r \<in> set rats \<Longrightarrow> ratio_from R b \<Longrightarrow> ratio_from R (f r b)" and "ratio_from R b"
  shows "ratio_from R (fold f rats b)"
  using assms by (induction rats arbitrary: b) auto

text \<open>
  when \<open>snd_interval_ratnum\<close> reports a numerator and a denominator for a fixed rate, the
  numerator is that of a table entry and the denominator can be programmed for that entry.
\<close>

theorem snd_interval_ratnum_programmable:
  assumes ok: "\<forall>r \<in> set rats. ratnum_ok r"
    and res: "snd_interval_ratnum i rats t = (i', Inr c, Some (num, den))"
  shows "\<exists>r \<in> set rats. num = rn_num r \<and> on_grid r den"
proof -
  let ?lo = "fold (ratnum_lower_step (iv_min i)) rats (0, 0, 0)"
  let ?hi = "fold (ratnum_upper_step (iv_max i)) rats (0, 0, 0)"
  have lo: "ratio_from (set rats) ?lo"
    using ok by (intro fold_ratio_from ratnum_lower_step_from) (auto simp: ratio_from_def)
  have hi: "ratio_from (set rats) ?hi"
    using ok by (intro fold_ratio_from ratnum_upper_step_from) (auto simp: ratio_from_def)
  have "(num = fst ?lo \<and> den = fst (snd ?lo) \<and> den \<noteq> 0) \<or> (num = fst ?hi \<and> den = fst (snd ?hi) \<and> den \<noteq> 0)"
    using res by (auto simp: snd_interval_ratnum_def Let_def split: prod.splits if_splits sum.splits)
  then show ?thesis using lo hi by (auto simp: ratio_from_def split: prod.splits)
qed

text \<open>
  \<open>snd_interval_ratden\<close> starts a numerator that is below the table's range at \<open>num_max\<close>
  instead of \<open>num_min\<close>. A clock that can be programmed to every rate from 8000 to 48000 Hz loses
  all of them but the last when the requested range starts below 8000.
\<close>

theorem snd_interval_ratden_loses_rates:
  "snd_interval_ratden (ivl 1 False 48000 False False)
     [\<lparr>rd_num_min = 8000, rd_num_max = 48000, rd_num_step = 1, rd_den = 1\<rparr>] t =
   (ivl 48000 False 48000 False True, Inr True, Some (48000, 1)) \<and>
   {rate. 8000 \<le> rate \<and> rate \<le> 48000} \<subseteq> {rate. in_ivl (ivl 1 False 48000 False False) rate}"
  by (auto simp: ivl_mem_defs snd_interval_ratden_def ratden_lower_step_def ratden_upper_step_def
      better_ratio_def mul_def div_down_def div_up_def div32_def snd_interval_refine_def
      refine_lower_def refine_upper_def refine_integer_def refine_close_def Let_def
      snd_interval_checkempty_def snd_interval_empty_def snd_interval_single_def)

section \<open>Instances of the properties\<close>

theorem snd_interval_list_exact_witness:
  "case snd_interval_list (ivl 40000 False 50000 False False) [32000, 44100, 48000] 0 (ivl 0 False 0 False False) of
     (i', Inr c) \<Rightarrow> (\<exists>lo \<in> set (admitted (ivl 40000 False 50000 False False) 0 0 [32000, 44100, 48000]).
        \<exists>hi \<in> set (admitted (ivl 40000 False 50000 False False) 0 0 [32000, 44100, 48000]).
        (\<forall>w \<in> set (admitted (ivl 40000 False 50000 False False) 0 0 [32000, 44100, 48000]). in_ivl i' (rv w)) \<and>
        (\<forall>y. in_ivl i' y \<longrightarrow> rv lo \<le> y \<and> y \<le> rv hi))
   | (i', Inl e) \<Rightarrow> e = EINVAL \<and> iv_empty i' \<and> admitted (ivl 40000 False 50000 False False) 0 0 [32000, 44100, 48000] = []"
  by (rule snd_interval_list_exact) (simp_all add: ivl_wf_def)

theorem snd_interval_step_sound_witness:
  "\<exists>i' c. snd_interval_step (ivl 10 False 50 False False) 0 16 = (i', Inr c) \<and> in_ivl i' (rv 32) \<and>
     unat (16 :: u32) dvd unat (iv_min i') \<and> unat (16 :: u32) dvd unat (iv_max i') \<and>
     (\<forall>y. in_ivl i' y \<longrightarrow> in_ivl (ivl 10 False 50 False False) y) \<and>
     (c \<longrightarrow> ivl_size i' < ivl_size (ivl 10 False 50 False False))"
  by (rule snd_interval_step_sound) (simp_all add: ivl_mem_defs)

theorem snd_interval_step_loses_multiple_witness:
  "in_ivl (ivl 16 True 64 False False) (rv (iv_min (ivl 16 True 64 False False) + 16)) \<and>
    (\<exists>i'. snd_interval_step (ivl 16 True 64 False False) 0 16 = (i', Inr True) \<and>
       \<not> in_ivl i' (rv (iv_min (ivl 16 True 64 False False) + 16)))"
  by (rule snd_interval_step_loses_multiple) simp_all

definition demo_ratnum :: snd_ratnum where
  "demo_ratnum = \<lparr>rn_num = 12288000, rn_den_min = 64, rn_den_max = 1536, rn_den_step = 64\<rparr>"

theorem snd_interval_ratnum_programmable_witness:
  "\<exists>r \<in> set [demo_ratnum]. (12288000 :: u32) = rn_num r \<and> on_grid r 256"
proof (rule snd_interval_ratnum_programmable)
  show "\<forall>r \<in> set [demo_ratnum]. ratnum_ok r" by (simp add: ratnum_ok_def demo_ratnum_def)
  show "snd_interval_ratnum (ivl 48000 False 48000 False False) [demo_ratnum] (ivl 0 False 0 False False) =
     (ivl 48000 False 48000 False True, Inr False, Some (12288000, 256))"
    by (simp add: snd_interval_ratnum_def demo_ratnum_def ratnum_lower_step_def ratnum_upper_step_def
        better_ratio_def div_down_def div_up_def div32_def c_abs_def snd_interval_refine_def
        refine_lower_def refine_upper_def refine_integer_def refine_close_def Let_def
        snd_interval_checkempty_def snd_interval_empty_def snd_interval_single_def)
qed

end
