(* ===== verification/Pcm_Mask.thy ===== *)
theory Pcm_Mask
  imports Alsa_Prelude
begin

text \<open>
  The bit masks of the hardware configurator (\<open>struct snd_mask\<close>, inline helpers of
  \<open>include/sound/pcm_params.h\<close>): an array of eight 32-bit words of which the first two, 64 bits,
  are in use. A mask stands for the set of its bit numbers below 64; the lemmas say what each
  helper does to that set. Bit numbers are natural numbers; an array is a list whose length,
  eight, is the invariant \<open>mask_wf\<close>.
\<close>

type_synonym snd_mask = "u32 list"

definition SNDRV_MASK_BITS :: nat where "SNDRV_MASK_BITS = 64"
definition SNDRV_MASK_SIZE :: nat where "SNDRV_MASK_SIZE = SNDRV_MASK_BITS div 32"
definition MASK_OFS :: "nat \<Rightarrow> nat" where "MASK_OFS i = i div 32"
definition MASK_BIT :: "nat \<Rightarrow> u32" where "MASK_BIT i = push_bit (i mod 32) 1"

definition mask_wf :: "snd_mask \<Rightarrow> bool" where
  "mask_wf m \<longleftrightarrow> length m = 8"

text \<open>The compiler's \<open>ffs\<close>: one plus the number of the lowest set bit, 0 for 0.\<close>

definition ffs :: "u32 \<Rightarrow> nat" where
  "ffs v = (case find (bit v) [0..<32] of None \<Rightarrow> 0 | Some k \<Rightarrow> k + 1)"

definition ld2 :: "u32 \<Rightarrow> nat" where
  "ld2 v = (let (v, r) = (if v \<ge> 0x10000 then (drop_bit 16 v, 16) else (v, 0));
                (v, r) = (if v \<ge> 0x100 then (drop_bit 8 v, r + 8) else (v, r));
                (v, r) = (if v \<ge> 0x10 then (drop_bit 4 v, r + 4) else (v, r));
                (v, r) = (if v \<ge> 4 then (drop_bit 2 v, r + 2) else (v, r))
            in if v \<ge> 2 then r + 1 else r)"

definition snd_mask_none :: "snd_mask \<Rightarrow> snd_mask" where
  "snd_mask_none m = replicate (length m) 0"

definition snd_mask_any :: "snd_mask \<Rightarrow> snd_mask" where
  "snd_mask_any m = replicate SNDRV_MASK_SIZE 0xFFFFFFFF @ drop SNDRV_MASK_SIZE m"

definition snd_mask_empty :: "snd_mask \<Rightarrow> bool" where
  "snd_mask_empty m = list_all (\<lambda>i. m ! i = 0) [0..<SNDRV_MASK_SIZE]"

definition snd_mask_min :: "snd_mask \<Rightarrow> nat" where
  "snd_mask_min m = (case find (\<lambda>i. m ! i \<noteq> 0) [0..<SNDRV_MASK_SIZE] of
     Some i \<Rightarrow> ffs (m ! i) - 1 + 32 * i | None \<Rightarrow> 0)"

definition snd_mask_max :: "snd_mask \<Rightarrow> nat" where
  "snd_mask_max m = (case find (\<lambda>i. m ! i \<noteq> 0) (rev [0..<SNDRV_MASK_SIZE]) of
     Some i \<Rightarrow> ld2 (m ! i) + 32 * i | None \<Rightarrow> 0)"

definition snd_mask_set :: "snd_mask \<Rightarrow> nat \<Rightarrow> snd_mask" where
  "snd_mask_set m val = m[MASK_OFS val := m ! MASK_OFS val OR MASK_BIT val]"

definition snd_mask_reset :: "snd_mask \<Rightarrow> nat \<Rightarrow> snd_mask" where
  "snd_mask_reset m val = m[MASK_OFS val := m ! MASK_OFS val AND NOT (MASK_BIT val)]"

definition snd_mask_set_range :: "snd_mask \<Rightarrow> nat \<Rightarrow> nat \<Rightarrow> snd_mask" where
  "snd_mask_set_range m from_bit to_bit = fold (\<lambda>i m. snd_mask_set m i) [from_bit..<Suc to_bit] m"

definition snd_mask_reset_range :: "snd_mask \<Rightarrow> nat \<Rightarrow> nat \<Rightarrow> snd_mask" where
  "snd_mask_reset_range m from_bit to_bit = fold (\<lambda>i m. snd_mask_reset m i) [from_bit..<Suc to_bit] m"

definition snd_mask_leave :: "snd_mask \<Rightarrow> nat \<Rightarrow> snd_mask" where
  "snd_mask_leave m val =
     (let v = m ! MASK_OFS val AND MASK_BIT val in (snd_mask_none m)[MASK_OFS val := v])"

definition snd_mask_intersect :: "snd_mask \<Rightarrow> snd_mask \<Rightarrow> snd_mask" where
  "snd_mask_intersect m v = fold (\<lambda>i m. m[i := m ! i AND v ! i]) [0..<SNDRV_MASK_SIZE] m"

definition snd_mask_eq :: "snd_mask \<Rightarrow> snd_mask \<Rightarrow> bool" where
  "snd_mask_eq m v = (take SNDRV_MASK_SIZE m = take SNDRV_MASK_SIZE v)"

definition snd_mask_test :: "snd_mask \<Rightarrow> nat \<Rightarrow> bool" where
  "snd_mask_test m val = (m ! MASK_OFS val AND MASK_BIT val \<noteq> 0)"

fun mask_single_scan :: "u32 list \<Rightarrow> nat \<Rightarrow> bool" where
  "mask_single_scan [] c = True"
| "mask_single_scan (b # bs) c =
     (if b = 0 then mask_single_scan bs c
      else if b AND (b - 1) \<noteq> 0 then False
      else if c \<noteq> 0 then False
      else mask_single_scan bs (c + 1))"

definition snd_mask_single :: "snd_mask \<Rightarrow> bool" where
  "snd_mask_single m = mask_single_scan (take SNDRV_MASK_SIZE m) 0"

definition snd_mask_refine :: "snd_mask \<Rightarrow> snd_mask \<Rightarrow> snd_mask \<times> bool res" where
  "snd_mask_refine m v =
     (let m' = snd_mask_intersect m v
      in (m', if snd_mask_empty m' then Inl EINVAL else Inr (\<not> snd_mask_eq m' m)))"

definition snd_mask_refine_first :: "snd_mask \<Rightarrow> snd_mask \<times> bool" where
  "snd_mask_refine_first m =
     (if snd_mask_single m then (m, False) else (snd_mask_leave m (snd_mask_min m), True))"

definition snd_mask_refine_last :: "snd_mask \<Rightarrow> snd_mask \<times> bool" where
  "snd_mask_refine_last m =
     (if snd_mask_single m then (m, False) else (snd_mask_leave m (snd_mask_max m), True))"

definition snd_mask_refine_min :: "snd_mask \<Rightarrow> nat \<Rightarrow> snd_mask \<times> bool res" where
  "snd_mask_refine_min m val =
     (if snd_mask_min m \<ge> val then (m, Inr False)
      else let m' = snd_mask_reset_range m 0 (val - 1)
           in (m', if snd_mask_empty m' then Inl EINVAL else Inr True))"

definition snd_mask_refine_max :: "snd_mask \<Rightarrow> nat \<Rightarrow> snd_mask \<times> bool res" where
  "snd_mask_refine_max m val =
     (if snd_mask_max m \<le> val then (m, Inr False)
      else let m' = snd_mask_reset_range m (val + 1) SNDRV_MASK_BITS
           in (m', if snd_mask_empty m' then Inl EINVAL else Inr True))"

definition snd_mask_refine_set :: "snd_mask \<Rightarrow> nat \<Rightarrow> snd_mask \<times> bool res" where
  "snd_mask_refine_set m val =
     (let changed = \<not> snd_mask_single m; m' = snd_mask_leave m val
      in (m', if snd_mask_empty m' then Inl EINVAL else Inr changed))"

definition snd_mask_value :: "snd_mask \<Rightarrow> nat" where
  "snd_mask_value m = snd_mask_min m"

section \<open>The set a mask stands for\<close>

definition mask_elems :: "snd_mask \<Rightarrow> nat set" where
  "mask_elems m = {k. k < SNDRV_MASK_BITS \<and> snd_mask_test m k}"

definition mask_card :: "snd_mask \<Rightarrow> nat" where
  "mask_card m = card (mask_elems m)"

lemmas mask_consts = SNDRV_MASK_BITS_def SNDRV_MASK_SIZE_def MASK_OFS_def

lemma MASK_SIZE_2 [simp]: "SNDRV_MASK_SIZE = 2"
  by (simp add: mask_consts)

lemma upt_0_2: "[0..<2] = [0, 1 :: nat]"
  by (simp add: upt_rec)

lemma bit_MASK_BIT: "bit (MASK_BIT i) n \<longleftrightarrow> n = i mod 32"
  by (auto simp: MASK_BIT_def push_bit_of_1 bit_exp_iff possible_bit_def)

lemma snd_mask_test_bit: "snd_mask_test m k = bit (m ! (k div 32)) (k mod 32)"
  by (simp add: snd_mask_test_def MASK_OFS_def MASK_BIT_def push_bit_of_1 and_exp_eq_0_iff_not_bit)

lemma mask_elems_iff: "k \<in> mask_elems m \<longleftrightarrow> k < 64 \<and> bit (m ! (k div 32)) (k mod 32)"
  by (simp add: mask_elems_def snd_mask_test_bit SNDRV_MASK_BITS_def)

lemma finite_mask_elems [simp]: "finite (mask_elems m)"
  by (simp add: mask_elems_def)

lemma word_zero_iff_bits: "(w :: u32) = 0 \<longleftrightarrow> (\<forall>n < 32. \<not> bit w n)"
proof
  assume "\<forall>n < 32. \<not> bit w n"
  then show "w = 0" by (intro bit_word_eqI) simp
qed simp

lemma u32_eq_bits: "(v :: u32) = w \<longleftrightarrow> (\<forall>n < 32. bit v n = bit w n)"
  by (auto intro: bit_word_eqI)

lemma div_32_cases: "k < 64 \<Longrightarrow> k div 32 = 0 \<or> k div 32 = (1 :: nat)"
  by linarith

lemma word_elem: "n < 32 \<Longrightarrow> i < 2 \<Longrightarrow> bit (m ! i) n = (32 * i + n \<in> mask_elems m)"
  by (auto simp: mask_elems_iff)

lemma snd_mask_empty_iff: "snd_mask_empty m \<longleftrightarrow> mask_elems m = {}"
proof -
  have "snd_mask_empty m \<longleftrightarrow> (\<forall>i < 2. \<forall>n < 32. \<not> bit (m ! i) n)"
    by (auto simp: snd_mask_empty_def upt_0_2 word_zero_iff_bits numeral_2_eq_2 All_less_Suc)
  also have "\<dots> \<longleftrightarrow> (\<forall>k < 64. \<not> bit (m ! (k div 32)) (k mod 32))"
  proof
    assume H: "\<forall>k < 64. \<not> bit (m ! (k div 32)) (k mod 32)"
    show "\<forall>i < 2. \<forall>n < 32. \<not> bit (m ! i) n"
    proof (intro allI impI)
      fix i n :: nat assume "i < 2" "n < 32"
      then show "\<not> bit (m ! i) n" using H [rule_format, of "32 * i + n"] by simp
    qed
  qed auto
  also have "\<dots> \<longleftrightarrow> mask_elems m = {}" by (auto simp: mask_elems_iff)
  finally show ?thesis .
qed

lemma snd_mask_intersect_unfold:
  "mask_wf m \<Longrightarrow> snd_mask_intersect m v = m[0 := m ! 0 AND v ! 0, 1 := m ! 1 AND v ! 1]"
  by (simp add: snd_mask_intersect_def upt_0_2 mask_wf_def)

lemma snd_mask_intersect_wf [simp]: "mask_wf m \<Longrightarrow> mask_wf (snd_mask_intersect m v)"
  by (simp add: snd_mask_intersect_unfold) (simp add: mask_wf_def)

lemma snd_mask_intersect_elems:
  assumes "mask_wf m"
  shows "mask_elems (snd_mask_intersect m v) = mask_elems m \<inter> mask_elems v"
proof -
  have "bit (snd_mask_intersect m v ! i) n = (bit (m ! i) n \<and> bit (v ! i) n)" if "i = 0 \<or> i = 1" for i n
    using assms that by (auto simp: snd_mask_intersect_unfold mask_wf_def bit_and_iff)
  then show ?thesis using div_32_cases by (auto simp: mask_elems_iff)
qed

lemma take2_eq_iff:
  "mask_wf m \<Longrightarrow> mask_wf v \<Longrightarrow> snd_mask_eq m v \<longleftrightarrow> mask_elems m = mask_elems v"
proof -
  assume wf: "mask_wf m" "mask_wf v"
  have "snd_mask_eq m v \<longleftrightarrow> (\<forall>i < 2. m ! i = v ! i)"
    using wf by (simp add: snd_mask_eq_def list_eq_iff_nth_eq mask_wf_def)
  also have "\<dots> \<longleftrightarrow> (\<forall>i < 2. \<forall>n < 32. bit (m ! i) n = bit (v ! i) n)"
    by (simp add: u32_eq_bits)
  also have "\<dots> \<longleftrightarrow> mask_elems m = mask_elems v"
  proof
    assume H: "\<forall>i < 2. \<forall>n < 32. bit (m ! i) n = bit (v ! i) n"
    then show "mask_elems m = mask_elems v"
      by (auto simp: mask_elems_iff less_mult_imp_div_less)
  qed (simp add: word_elem)
  finally show ?thesis .
qed

section \<open>Updating single bits\<close>

lemma snd_mask_set_wf [simp]: "mask_wf m \<Longrightarrow> mask_wf (snd_mask_set m k)"
  by (simp add: mask_wf_def snd_mask_set_def)

lemma snd_mask_reset_wf [simp]: "mask_wf m \<Longrightarrow> mask_wf (snd_mask_reset m k)"
  by (simp add: mask_wf_def snd_mask_reset_def)

lemma snd_mask_leave_wf [simp]: "mask_wf m \<Longrightarrow> mask_wf (snd_mask_leave m k)"
  by (simp add: mask_wf_def snd_mask_leave_def Let_def snd_mask_none_def)

lemma same_bit: "k div 32 = i div 32 \<Longrightarrow> k mod 32 = i mod 32 \<Longrightarrow> k = (i :: nat)"
  by (metis div_mult_mod_eq)

lemma nth_upd: "xs[i := v] ! j = (if i = j \<and> j < length xs then v else xs ! j)"
  by (cases "i < length xs") (auto simp: nth_list_update list_update_beyond)

lemma index_in_mask: "x < 64 \<Longrightarrow> length m = 8 \<Longrightarrow> x div 32 < length m"
  by linarith

lemma snd_mask_set_elems:
  "mask_wf m \<Longrightarrow> k < 64 \<Longrightarrow> mask_elems (snd_mask_set m k) = insert k (mask_elems m)"
  by (auto simp: mask_elems_iff snd_mask_set_def mask_wf_def MASK_OFS_def nth_upd index_in_mask
      bit_or_iff bit_MASK_BIT dest: same_bit [OF _ sym] same_bit split: if_splits)

lemma snd_mask_reset_elems:
  "mask_wf m \<Longrightarrow> mask_elems (snd_mask_reset m k) = mask_elems m - {k}"
  by (auto simp: mask_elems_iff snd_mask_reset_def mask_wf_def MASK_OFS_def nth_upd index_in_mask
      bit_and_iff bit_not_iff bit_MASK_BIT possible_bit_def dest: same_bit [OF _ sym] same_bit split: if_splits)

lemma snd_mask_reset_range_elems:
  "mask_wf m \<Longrightarrow> mask_wf (snd_mask_reset_range m a b) \<and>
    mask_elems (snd_mask_reset_range m a b) = mask_elems m - {a..b}"
proof -
  have "mask_wf m \<Longrightarrow> mask_wf (fold (\<lambda>i m. snd_mask_reset m i) ks m) \<and>
    mask_elems (fold (\<lambda>i m. snd_mask_reset m i) ks m) = mask_elems m - set ks" for ks m
    by (induction ks arbitrary: m) (auto simp: snd_mask_reset_elems)
  moreover have "set [a..<Suc b] = {a..b}" by auto
  ultimately show "mask_wf m \<Longrightarrow> ?thesis" by (metis snd_mask_reset_range_def)
qed

lemma snd_mask_leave_elems:
  "mask_wf m \<Longrightarrow> k < 64 \<Longrightarrow> mask_elems (snd_mask_leave m k) = mask_elems m \<inter> {k}"
  by (auto simp: mask_elems_iff snd_mask_leave_def snd_mask_none_def mask_wf_def MASK_OFS_def
      nth_upd index_in_mask bit_and_iff bit_MASK_BIT dest: same_bit [OF _ sym] same_bit split: if_splits)

section \<open>The lowest and the highest element\<close>

lemma find_upt_SomeD:
  "find P [0..<n] = Some k \<Longrightarrow> k < n \<and> P k \<and> (\<forall>j < k. \<not> P j)"
  by (auto simp: find_Some_iff)

lemma ffs_lowest:
  assumes "v \<noteq> 0"
  shows "ffs v - 1 < 32 \<and> bit v (ffs v - 1) \<and> (\<forall>n < ffs v - 1. \<not> bit v n)"
proof (cases "find (bit v) [0..<32]")
  case None
  then show ?thesis using assms by (auto simp: find_None_iff word_zero_iff_bits)
next
  case (Some k)
  then show ?thesis using find_upt_SomeD [OF Some] by (simp add: ffs_def)
qed

text \<open>Each step of \<open>ld2\<close> halves the range of the remaining value \<open>w\<close> and keeps \<open>w\<close> equal to the top
  part of \<open>v\<close> above \<open>r\<close> bits.\<close>

definition ld2_inv :: "u32 \<Rightarrow> nat \<Rightarrow> u32 \<times> nat \<Rightarrow> bool" where
  "ld2_inv v B p = (case p of (w, r) \<Rightarrow>
     2 ^ r * unat w \<le> unat v \<and> unat v < 2 ^ r * (unat w + 1) \<and> 1 \<le> unat w \<and> unat w < B)"

lemma ld2_inv_step:
  assumes "ld2_inv v (2 ^ (2 * k)) p" and "unat c = 2 ^ k"
  shows "ld2_inv v (2 ^ k) (case p of (w, r) \<Rightarrow> if w \<ge> c then (drop_bit k w, r + k) else (w, r))"
proof -
  obtain w r where p: "p = (w, r)" by (cases p)
  have lo: "2 ^ r * unat w \<le> unat v" and hi: "unat v < 2 ^ r * (unat w + 1)"
    and w: "1 \<le> unat w" "unat w < 2 ^ (2 * k)"
    using assms(1) by (simp_all add: p ld2_inv_def)
  show ?thesis
  proof (cases "w \<ge> c")
    case True
    define q where "q = unat w div 2 ^ k"
    have d: "unat (drop_bit k w) = q" by (simp only: q_def unat_drop_bit_eq) (simp add: drop_bit_eq_div)
    have ql: "2 ^ k * q \<le> unat w" by (simp add: q_def)
    have "unat w < (q + 1) * 2 ^ k" unfolding q_def
      using dividend_less_div_times [of "2 ^ k" "unat w"] by (simp add: algebra_simps)
    then have qh: "unat w + 1 \<le> 2 ^ k * (q + 1)" by (simp add: mult.commute)
    have "2 ^ k \<le> unat w" using True assms(2) by (simp add: word_le_nat_alt)
    then have "1 \<le> q" by (simp add: q_def Suc_le_eq div_greater_zero_iff)
    moreover have "q < 2 ^ k" using w(2) by (simp add: q_def less_mult_imp_div_less power_add mult_2)
    moreover have "2 ^ (r + k) * q \<le> unat v"
      using order_trans [OF mult_le_mono2 [OF ql, of "2 ^ r"] lo] by (simp add: power_add mult.assoc)
    moreover have "unat v < 2 ^ (r + k) * (q + 1)"
      using less_le_trans [OF hi mult_le_mono2 [OF qh, of "2 ^ r"]] by (simp only: power_add mult.assoc)
    ultimately show ?thesis using True by (simp add: p ld2_inv_def d)
  next
    case False
    then show ?thesis using lo hi w assms(2) by (simp add: p ld2_inv_def word_le_nat_alt)
  qed
qed

lemma ld2_bounds:
  assumes "v \<noteq> 0" shows "2 ^ ld2 v \<le> unat v \<and> unat v < 2 ^ (ld2 v + 1)"
proof -
  have "ld2_inv v (2 ^ (2 * 16)) (v, 0)"
    using assms unsigned_less [of v] by (simp add: ld2_inv_def Suc_le_eq unat_gt_0)
  from ld2_inv_step [OF this, of "0x10000"]
  obtain v1 r1 where 1: "(if v \<ge> 0x10000 then (drop_bit 16 v, 16) else (v, 0)) = (v1, r1)"
    and I1: "ld2_inv v (2 ^ (2 * 8)) (v1, r1)" by (auto split: if_splits)
  from ld2_inv_step [OF I1, of "0x100"]
  obtain v2 r2 where 2: "(if v1 \<ge> 0x100 then (drop_bit 8 v1, r1 + 8) else (v1, r1)) = (v2, r2)"
    and I2: "ld2_inv v (2 ^ (2 * 4)) (v2, r2)" by (auto split: if_splits)
  from ld2_inv_step [OF I2, of "0x10"]
  obtain v3 r3 where 3: "(if v2 \<ge> 0x10 then (drop_bit 4 v2, r2 + 4) else (v2, r2)) = (v3, r3)"
    and I3: "ld2_inv v (2 ^ (2 * 2)) (v3, r3)" by (auto split: if_splits)
  from ld2_inv_step [OF I3, of "4"]
  obtain v4 r4 where 4: "(if v3 \<ge> 4 then (drop_bit 2 v3, r3 + 2) else (v3, r3)) = (v4, r4)"
    and I4: "ld2_inv v (2 ^ (2 * 1)) (v4, r4)" by (auto split: if_splits)
  have lo: "2 ^ r4 * unat v4 \<le> unat v" and hi: "unat v < 2 ^ r4 * (unat v4 + 1)"
    and v4: "1 \<le> unat v4" "unat v4 < 4" using I4 by (auto simp: ld2_inv_def)
  have L: "ld2 v = (if v4 \<ge> 2 then r4 + 1 else r4)" by (simp add: ld2_def Let_def 1 2 3 4)
  show ?thesis
  proof (cases "v4 \<ge> 2")
    case True
    then have "2 \<le> unat v4" by (simp add: word_le_nat_alt)
    then have "2 ^ r4 * 2 \<le> 2 ^ r4 * unat v4" by (rule mult_le_mono2)
    moreover have "2 ^ r4 * (unat v4 + 1) \<le> 2 ^ r4 * 4" using v4 by (intro mult_le_mono2) simp
    moreover have "ld2 v = r4 + 1" using True L by simp
    ultimately show ?thesis using lo hi by (simp only: power_add power_one_right) linarith
  next
    case False
    then have "unat v4 = 1" using v4 by (simp add: word_le_nat_alt)
    then show ?thesis using False L lo hi by simp
  qed
qed

lemma ld2_highest:
  assumes "v \<noteq> 0" shows "ld2 v < 32 \<and> bit v (ld2 v) \<and> (\<forall>n > ld2 v. \<not> bit v n)"
proof -
  define l where "l = ld2 v"
  have b: "2 ^ l \<le> unat v" "unat v < 2 ^ (l + 1)" using ld2_bounds [OF assms] by (auto simp: l_def)
  have "l < 32"
  proof (rule ccontr)
    assume "\<not> l < 32"
    then have "(2 :: nat) ^ 32 \<le> 2 ^ l" by (intro power_increasing) auto
    then show False using b(1) unat_u32_lt [of v] by simp
  qed
  moreover have "bit v l"
  proof -
    have "unat v div 2 ^ l = 1" using b by (simp add: div_nat_eqI)
    then have "bit (unat v) l" by (simp add: bit_iff_odd)
    then show ?thesis by (simp add: bit_unsigned_iff)
  qed
  moreover have "\<not> bit v n" if "n > l" for n
  proof -
    have "(2 :: nat) ^ (l + 1) \<le> 2 ^ n" using that by (intro power_increasing) auto
    then have "unat v div 2 ^ n = 0" using b(2) by simp
    then have "\<not> bit (unat v) n" by (simp add: bit_iff_odd)
    then show ?thesis by (auto simp: bit_unsigned_iff dest: bit_imp_le_length)
  qed
  ultimately show ?thesis by (simp add: l_def)
qed

lemma snd_mask_min_Min:
  assumes "mask_elems m \<noteq> {}"
  shows "snd_mask_min m = Min (mask_elems m)"
proof (rule Min_eqI [symmetric])
  have ne: "m ! 0 \<noteq> 0 \<or> m ! 1 \<noteq> 0"
    using assms by (auto simp: snd_mask_empty_def upt_0_2 simp flip: snd_mask_empty_iff)
  show "snd_mask_min m \<in> mask_elems m"
    using ne ffs_lowest [of "m ! 0"] ffs_lowest [of "m ! 1"]
    by (auto simp: snd_mask_min_def upt_0_2 mask_elems_iff)
  fix k assume "k \<in> mask_elems m"
  then have k: "k < 64" "bit (m ! (k div 32)) (k mod 32)" by (auto simp: mask_elems_iff)
  show "snd_mask_min m \<le> k"
  proof (cases "m ! 0 = 0")
    case True
    then have "k div 32 = 1" using k div_32_cases [of k] by auto
    moreover have "ffs (m ! 1) - 1 \<le> k mod 32"
      using ne True k \<open>k div 32 = 1\<close> ffs_lowest [of "m ! 1"] by (metis not_le_imp_less)
    moreover have "k = 32 + k mod 32" using \<open>k div 32 = 1\<close> mult_div_mod_eq [of 32 k] by simp
    ultimately have "ffs (m ! 1) - 1 + 32 \<le> k" by linarith
    then show ?thesis using True ne by (simp add: snd_mask_min_def upt_0_2)
  next
    case False
    have "ffs (m ! 0) - 1 \<le> k"
    proof (cases "k div 32 = 0")
      case True
      then show ?thesis using k False ffs_lowest [of "m ! 0"] by (metis not_le_imp_less mod_less div_eq_0_iff zero_neq_numeral)
    next
      case F: False
      then show ?thesis using ffs_lowest [OF False] by linarith
    qed
    then show ?thesis using False by (simp add: snd_mask_min_def upt_0_2)
  qed
qed simp

lemma snd_mask_max_Max:
  assumes "mask_elems m \<noteq> {}"
  shows "snd_mask_max m = Max (mask_elems m)"
proof (rule Max_eqI [symmetric])
  have ne: "m ! 0 \<noteq> 0 \<or> m ! 1 \<noteq> 0"
    using assms by (auto simp: snd_mask_empty_def upt_0_2 simp flip: snd_mask_empty_iff)
  show "snd_mask_max m \<in> mask_elems m"
    using ne ld2_highest [of "m ! 0"] ld2_highest [of "m ! 1"]
    by (auto simp: snd_mask_max_def upt_0_2 mask_elems_iff)
  fix k assume "k \<in> mask_elems m"
  then have k: "k < 64" "bit (m ! (k div 32)) (k mod 32)" by (auto simp: mask_elems_iff)
  show "k \<le> snd_mask_max m"
  proof (cases "m ! 1 = 0")
    case True
    then have "k div 32 = 0" using k div_32_cases [of k] by auto
    moreover have "k mod 32 \<le> ld2 (m ! 0)"
      using ne True k \<open>k div 32 = 0\<close> ld2_highest [of "m ! 0"] by (metis not_le_imp_less)
    ultimately show ?thesis using True ne by (simp add: snd_mask_max_def upt_0_2 div_eq_0_iff)
  next
    case False
    have "k \<le> ld2 (m ! 1) + 32"
    proof (cases "k div 32 = 1")
      case True
      then have "k mod 32 \<le> ld2 (m ! 1)" using k False ld2_highest [of "m ! 1"] by (metis not_le_imp_less)
      then show ?thesis using True mult_div_mod_eq [of 32 k] by simp
    next
      case F: False
      then show ?thesis using div_32_cases [OF k(1)] by linarith
    qed
    then show ?thesis using False by (simp add: snd_mask_max_def upt_0_2)
  qed
qed simp

text \<open>\<open>x & (x - 1)\<close> clears the lowest set bit.\<close>

lemma clear_lowest:
  assumes "v \<noteq> 0"
  shows "bit (v AND (v - 1)) n \<longleftrightarrow> bit v n \<and> n \<noteq> ffs v - 1"
proof -
  define k where "k = ffs v - 1"
  have k: "k < 32" "bit v k" "\<forall>n < k. \<not> bit v n" using ffs_lowest [OF assms] by (auto simp: k_def)
  define z where "z = v AND NOT (2 ^ k)"
  have disj: "z AND 2 ^ k = 0" "z AND mask k = 0"
    using k by (auto simp: z_def bit_simps intro!: bit_word_eqI)
  have v: "v = z OR 2 ^ k" using k by (auto simp: z_def bit_simps intro!: bit_word_eqI)
  then have "v = z + 2 ^ k" using disj(1) by (simp add: disjunctive_add_eq_or)
  then have "v - 1 = z + mask k" by (simp add: mask_eq_decr_exp)
  also have "\<dots> = z OR mask k" using disj(2) by (simp add: disjunctive_add_eq_or)
  finally have "v AND (v - 1) = v AND (z OR mask k)" by simp
  then show ?thesis using k unfolding k_def [symmetric]
    by (auto simp: z_def bit_simps dest: bit_imp_le_length)
qed

lemma clear_lowest_zero:
  assumes "(v :: u32) \<noteq> 0"
  shows "v AND (v - 1) = 0 \<longleftrightarrow> {n. n < 32 \<and> bit v n} = {ffs v - 1}"
  using ffs_lowest [OF assms] by (auto simp: word_zero_iff_bits clear_lowest [OF assms])

lemma mask_elems_words:
  "mask_elems m = {n. n < 32 \<and> bit (m ! 0) n} \<union> (\<lambda>n. n + 32) ` {n. n < 32 \<and> bit (m ! 1) n}"
  (is "_ = ?A \<union> ?B")
proof (rule set_eqI)
  fix k show "k \<in> mask_elems m \<longleftrightarrow> k \<in> ?A \<union> ?B"
  proof (cases "k < 32")
    case False
    then have "k \<in> ?B \<longleftrightarrow> k < 64 \<and> bit (m ! 1) (k - 32)"
      by (auto intro!: image_eqI [where x = "k - 32"])
    then show ?thesis using False by (auto simp: mask_elems_iff le_div_geq le_mod_geq)
  qed (auto simp: mask_elems_iff)
qed

lemma snd_mask_single_words:
  assumes "mask_wf m"
  shows "snd_mask_single m \<longleftrightarrow>
    (m ! 0 = 0 \<or> m ! 0 AND (m ! 0 - 1) = 0) \<and> (m ! 1 = 0 \<or> m ! 1 AND (m ! 1 - 1) = 0)
    \<and> (m ! 0 = 0 \<or> m ! 1 = 0)"
proof -
  have "take 2 m = [m ! 0, m ! 1]"
    using assms by (intro nth_equalityI) (auto simp: mask_wf_def less_2_cases_iff)
  then show ?thesis by (auto simp: snd_mask_single_def)
qed

lemma singleton_unique: "x \<in> A \<Longrightarrow> A = {x} \<longleftrightarrow> (\<forall>a \<in> A. \<forall>b \<in> A. a = b)"
  by (auto simp: set_eq_iff)

lemma snd_mask_single_iff:
  assumes "mask_wf m"
  shows "snd_mask_single m \<longleftrightarrow> (\<forall>a \<in> mask_elems m. \<forall>b \<in> mask_elems m. a = b)"
proof -
  define B where "B v = {n. n < 32 \<and> bit v n}" for v :: u32
  have B0: "v = 0 \<longleftrightarrow> B v = {}" for v by (auto simp: B_def word_zero_iff_bits)
  have B1: "(v = 0 \<or> v AND (v - 1) = 0) \<longleftrightarrow> (\<forall>a \<in> B v. \<forall>b \<in> B v. a = b)" for v
  proof (cases "v = 0")
    case False
    have "ffs v - 1 \<in> B v" using ffs_lowest [OF False] by (simp add: B_def)
    then have "B v = {ffs v - 1} \<longleftrightarrow> (\<forall>a \<in> B v. \<forall>b \<in> B v. a = b)" by (rule singleton_unique)
    then show ?thesis using clear_lowest_zero [OF False] False by (simp flip: B_def)
  qed (simp add: B_def)
  have "mask_elems m = B (m ! 0) \<union> (\<lambda>n. n + 32) ` B (m ! 1)"
    by (simp only: mask_elems_words B_def)
  moreover have "a \<noteq> n + 32" if "a \<in> B v" for a n v using that by (simp add: B_def)
  ultimately show ?thesis unfolding snd_mask_single_words [OF assms] B1 unfolding B0
    by (simp add: ball_Un) blast
qed

lemma snd_mask_refine_contract:
  assumes wf: "mask_wf m" and m: "k \<in> mask_elems m" and v: "k \<in> mask_elems v"
  obtains m' c where "snd_mask_refine m v = (m', Inr c)" "mask_wf m'" "k \<in> mask_elems m'"
    "mask_elems m' = mask_elems m \<inter> mask_elems v"
    "c \<Longrightarrow> mask_card m' < mask_card m" "mask_card m' \<le> mask_card m"
proof -
  let ?m = "snd_mask_intersect m v" and ?c = "\<not> snd_mask_eq (snd_mask_intersect m v) m"
  have e: "mask_elems ?m = mask_elems m \<inter> mask_elems v" using wf by (rule snd_mask_intersect_elems)
  have eq: "snd_mask_refine m v = (?m, Inr ?c)"
    using e m v by (auto simp: snd_mask_refine_def Let_def snd_mask_empty_iff)
  have "mask_card ?m < mask_card m" if ?c
  proof -
    have "mask_elems ?m \<noteq> mask_elems m"
      using that take2_eq_iff [OF snd_mask_intersect_wf [OF wf] wf] by blast
    then have "mask_elems ?m \<subset> mask_elems m" using e by blast
    then show ?thesis unfolding mask_card_def by (rule psubset_card_mono [OF finite_mask_elems])
  qed
  moreover have "mask_card ?m \<le> mask_card m"
    by (simp add: mask_card_def e card_mono)
  moreover have "mask_wf ?m" "k \<in> mask_elems ?m" using wf e m v by simp_all
  ultimately show ?thesis using that [OF eq] e by metis
qed

text \<open>
  refining a mask is set intersection; it fails exactly when nothing is left, and it reports a
  change exactly when an element was removed.
\<close>

theorem snd_mask_refine_exact:
  assumes "mask_wf m"
  shows "mask_elems (fst (snd_mask_refine m v)) = mask_elems m \<inter> mask_elems v \<and>
    snd (snd_mask_refine m v) =
      (if mask_elems m \<inter> mask_elems v = {} then Inl EINVAL
       else Inr (\<not> mask_elems m \<subseteq> mask_elems v))"
  using assms
  by (auto simp: snd_mask_refine_def Let_def snd_mask_empty_iff snd_mask_intersect_elems take2_eq_iff)


text \<open>
  Fixing a parameter held in a mask to its first or last value. When the mask is not empty,
  \<open>snd_mask_refine_first\<close> leaves exactly the smallest element and \<open>snd_mask_refine_last\<close> exactly
  the largest; both report a change exactly when more than one element was there.
\<close>

theorem snd_mask_refine_first_last:
  assumes "mask_wf m" and "mask_elems m \<noteq> {}"
  shows "mask_elems (fst (snd_mask_refine_first m)) = {Min (mask_elems m)} \<and>
    mask_elems (fst (snd_mask_refine_last m)) = {Max (mask_elems m)} \<and>
    snd (snd_mask_refine_first m) = (mask_card m > 1) \<and>
    snd (snd_mask_refine_last m) = (mask_card m > 1)"
proof -
  let ?E = "mask_elems m"
  have lt: "Min ?E < 64" "Max ?E < 64" and ins: "Min ?E \<in> ?E" "Max ?E \<in> ?E"
    using Min_in [OF finite_mask_elems assms(2)] Max_in [OF finite_mask_elems assms(2)]
    by (auto simp: mask_elems_iff)
  have single: "snd_mask_single m \<longleftrightarrow> ?E = {Min ?E} \<and> ?E = {Max ?E}"
    unfolding snd_mask_single_iff [OF assms(1)] using singleton_unique [OF ins(1)] singleton_unique [OF ins(2)]
    by metis
  moreover have "mask_card m > 1 \<longleftrightarrow> \<not> snd_mask_single m"
  proof
    assume "\<not> snd_mask_single m"
    then obtain a b where "a \<in> ?E" "b \<in> ?E" "a \<noteq> b" using snd_mask_single_iff [OF assms(1)] by blast
    then have "card {a, b} \<le> card ?E" by (intro card_mono) auto
    then show "mask_card m > 1" using \<open>a \<noteq> b\<close> by (simp add: mask_card_def)
  next
    assume "mask_card m > 1"
    then have "?E \<noteq> {Min ?E}" by (metis mask_card_def card_1_singleton_iff less_irrefl is_singleton_def is_singleton_altdef One_nat_def)
    then show "\<not> snd_mask_single m" using single by blast
  qed
  ultimately show ?thesis using lt ins assms
    by (auto simp: snd_mask_refine_first_def snd_mask_refine_last_def snd_mask_leave_elems
        snd_mask_min_Min snd_mask_max_Max)
qed

theorem snd_mask_refine_exact_witness:
  "mask_elems (fst (snd_mask_refine [6, 0, 0, 0, 0, 0, 0, 0] [3, 1, 0, 0, 0, 0, 0, 0])) =
     mask_elems [6, 0, 0, 0, 0, 0, 0, 0] \<inter> mask_elems [3, 1, 0, 0, 0, 0, 0, 0] \<and>
   snd (snd_mask_refine [6, 0, 0, 0, 0, 0, 0, 0] [3, 1, 0, 0, 0, 0, 0, 0]) =
     (if mask_elems [6, 0, 0, 0, 0, 0, 0, 0] \<inter> mask_elems [3, 1, 0, 0, 0, 0, 0, 0] = {} then Inl EINVAL
      else Inr (\<not> mask_elems [6, 0, 0, 0, 0, 0, 0, 0] \<subseteq> mask_elems [3, 1, 0, 0, 0, 0, 0, 0]))"
  by (rule snd_mask_refine_exact) (simp add: mask_wf_def)

theorem snd_mask_refine_first_last_witness:
  "mask_elems (fst (snd_mask_refine_first [6, 1, 0, 0, 0, 0, 0, 0])) = {Min (mask_elems [6, 1, 0, 0, 0, 0, 0, 0])} \<and>
   mask_elems (fst (snd_mask_refine_last [6, 1, 0, 0, 0, 0, 0, 0])) = {Max (mask_elems [6, 1, 0, 0, 0, 0, 0, 0])} \<and>
   snd (snd_mask_refine_first [6, 1, 0, 0, 0, 0, 0, 0]) = (mask_card [6, 1, 0, 0, 0, 0, 0, 0] > 1) \<and>
   snd (snd_mask_refine_last [6, 1, 0, 0, 0, 0, 0, 0]) = (mask_card [6, 1, 0, 0, 0, 0, 0, 0] > 1)"
proof (rule snd_mask_refine_first_last)
  show "mask_wf [6, 1, 0, 0, 0, 0, 0, 0]" by (simp add: mask_wf_def)
  have "\<not> snd_mask_empty [6, 1, 0, 0, 0, 0, 0, 0]" by code_simp
  then show "mask_elems [6, 1, 0, 0, 0, 0, 0, 0] \<noteq> {}" by (simp add: snd_mask_empty_iff)
qed

end
