(* ===== verification/Pcm_Format.thy ===== *)
theory Pcm_Format
  imports Alsa_Prelude
begin

text \<open>
  Sample formats and rate bits (\<open>sound/core/pcm_misc.c\<close>). The table \<open>pcm_formats\<close> is a list
  indexed by the format number of \<open>include/uapi/sound/asound.h\<close>; the designated initialisers of
  the source leave the numbers 25 to 30 zero. A byte buffer is a list of bytes. \<open>decode_sample\<close>
  says what integer the bytes of one sample stand for, which is what silence is measured by.
\<close>

section \<open>The format table\<close>

record pcm_format_data =
  fd_width :: nat
  fd_phys :: nat
  fd_le :: int
  fd_signd :: int
  fd_silence :: "u8 list"

definition pad8 :: "u8 list \<Rightarrow> u8 list" where
  "pad8 bs = bs @ replicate (8 - length bs) 0"

definition fmt :: "nat \<Rightarrow> nat \<Rightarrow> int \<Rightarrow> int \<Rightarrow> u8 list \<Rightarrow> pcm_format_data" where
  "fmt width phys le signd silence =
     \<lparr>fd_width = width, fd_phys = phys, fd_le = le, fd_signd = signd, fd_silence = pad8 silence\<rparr>"

definition SNDRV_PCM_FORMAT_LAST :: int where "SNDRV_PCM_FORMAT_LAST = 49"

text \<open>In the order of the format numbers: S8 U8 S16 U16 S24 U24 S32 U32 FLOAT FLOAT64 IEC958 (LE
  and BE each), MU\_LAW A\_LAW IMA\_ADPCM MPEG GSM, six unused numbers, SPECIAL, S24\_3 U24\_3 S20\_3
  U20\_3 S18\_3 U18\_3 (LE and BE each), G723\_24 G723\_24\_1B G723\_40 G723\_40\_1B DSD\_U8 DSD\_U16\_LE.\<close>

definition pcm_formats :: "pcm_format_data list" where
  "pcm_formats =
    [fmt 8 8 (-1) 1 [], fmt 8 8 (-1) 0 [0x80],
     fmt 16 16 1 1 [], fmt 16 16 0 1 [], fmt 16 16 1 0 [0x00, 0x80], fmt 16 16 0 0 [0x80, 0x00],
     fmt 24 32 1 1 [], fmt 24 32 0 1 [],
     fmt 24 32 1 0 [0x00, 0x00, 0x80], fmt 24 32 0 0 [0x00, 0x80, 0x00, 0x00],
     fmt 32 32 1 1 [], fmt 32 32 0 1 [],
     fmt 32 32 1 0 [0x00, 0x00, 0x00, 0x80], fmt 32 32 0 0 [0x80, 0x00, 0x00, 0x00],
     fmt 32 32 1 (-1) [], fmt 32 32 0 (-1) [], fmt 64 64 1 (-1) [], fmt 64 64 0 (-1) [],
     fmt 32 32 1 (-1) [], fmt 32 32 0 (-1) [],
     fmt 8 8 (-1) (-1) [0x7f], fmt 8 8 (-1) (-1) [0x55], fmt 4 4 (-1) (-1) [],
     fmt 0 0 (-1) (-1) [], fmt 0 0 (-1) (-1) [],
     fmt 0 0 0 0 [], fmt 0 0 0 0 [], fmt 0 0 0 0 [], fmt 0 0 0 0 [], fmt 0 0 0 0 [], fmt 0 0 0 0 [],
     fmt 0 0 (-1) (-1) [],
     fmt 24 24 1 1 [], fmt 24 24 0 1 [], fmt 24 24 1 0 [0x00, 0x00, 0x80], fmt 24 24 0 0 [0x80, 0x00, 0x00],
     fmt 20 24 1 1 [], fmt 20 24 0 1 [], fmt 20 24 1 0 [0x00, 0x00, 0x08], fmt 20 24 0 0 [0x08, 0x00, 0x00],
     fmt 18 24 1 1 [], fmt 18 24 0 1 [], fmt 18 24 1 0 [0x00, 0x00, 0x02], fmt 18 24 0 0 [0x02, 0x00, 0x00],
     fmt 3 3 (-1) (-1) [], fmt 3 8 (-1) (-1) [], fmt 5 5 (-1) (-1) [], fmt 5 8 (-1) (-1) [],
     fmt 8 8 1 0 [], fmt 16 16 1 0 []]"

definition format_in_table :: "int \<Rightarrow> bool" where
  "format_in_table format \<longleftrightarrow> \<not> (format < 0 \<or> format > SNDRV_PCM_FORMAT_LAST)"

section \<open>Queries\<close>

definition snd_pcm_format_signed :: "int \<Rightarrow> bool res" where
  "snd_pcm_format_signed format =
     (if \<not> format_in_table format then Inl EINVAL
      else let val = fd_signd (pcm_formats ! nat format)
           in if val < 0 then Inl EINVAL else Inr (val \<noteq> 0))"

definition snd_pcm_format_unsigned :: "int \<Rightarrow> bool res" where
  "snd_pcm_format_unsigned format =
     (case snd_pcm_format_signed format of Inl e \<Rightarrow> Inl e | Inr val \<Rightarrow> Inr (\<not> val))"

definition snd_pcm_format_linear :: "int \<Rightarrow> bool" where
  "snd_pcm_format_linear format = (case snd_pcm_format_signed format of Inl _ \<Rightarrow> False | Inr _ \<Rightarrow> True)"

definition snd_pcm_format_little_endian :: "int \<Rightarrow> bool res" where
  "snd_pcm_format_little_endian format =
     (if \<not> format_in_table format then Inl EINVAL
      else let val = fd_le (pcm_formats ! nat format)
           in if val < 0 then Inl EINVAL else Inr (val \<noteq> 0))"

definition snd_pcm_format_big_endian :: "int \<Rightarrow> bool res" where
  "snd_pcm_format_big_endian format =
     (case snd_pcm_format_little_endian format of Inl e \<Rightarrow> Inl e | Inr val \<Rightarrow> Inr (\<not> val))"

definition snd_pcm_format_width :: "int \<Rightarrow> nat res" where
  "snd_pcm_format_width format =
     (if \<not> format_in_table format then Inl EINVAL
      else let val = fd_width (pcm_formats ! nat format)
           in if val = 0 then Inl EINVAL else Inr val)"

definition snd_pcm_format_physical_width :: "int \<Rightarrow> nat res" where
  "snd_pcm_format_physical_width format =
     (if \<not> format_in_table format then Inl EINVAL
      else let val = fd_phys (pcm_formats ! nat format)
           in if val = 0 then Inl EINVAL else Inr val)"

text \<open>\<open>size_t\<close> arithmetic of 64 bits.\<close>

definition snd_pcm_format_size :: "int \<Rightarrow> u64 \<Rightarrow> u64 res" where
  "snd_pcm_format_size format samples =
     (case snd_pcm_format_physical_width format of
        Inl _ \<Rightarrow> Inl EINVAL
      | Inr phys_width \<Rightarrow> Inr (samples * of_nat phys_width div 8))"

definition snd_pcm_format_silence_64 :: "int \<Rightarrow> u8 list option" where
  "snd_pcm_format_silence_64 format =
     (if \<not> format_in_table format then None
      else if fd_phys (pcm_formats ! nat format) = 0 then None
      else Some (fd_silence (pcm_formats ! nat format)))"

section \<open>Filling a buffer with silence\<close>

definition memset :: "u8 list \<Rightarrow> u8 \<Rightarrow> nat \<Rightarrow> u8 list" where
  "memset data b bytes = replicate bytes b @ drop bytes data"

fun copy_samples :: "nat \<Rightarrow> u8 list \<Rightarrow> nat \<Rightarrow> u8 list \<Rightarrow> u8 list" where
  "copy_samples width pat 0 dst = dst"
| "copy_samples width pat (Suc samples) dst =
     take width pat @ copy_samples width pat samples (drop width dst)"

definition snd_pcm_format_set_silence :: "int \<Rightarrow> u8 list \<Rightarrow> u32 \<Rightarrow> u8 list \<times> unit res" where
  "snd_pcm_format_set_silence format data samples =
     (if \<not> format_in_table format then (data, Inl EINVAL)
      else if samples = 0 then (data, Inr ())
      else let width = fd_phys (pcm_formats ! nat format);
               pat = fd_silence (pcm_formats ! nat format)
           in if width = 0 then (data, Inl EINVAL)
              else if fd_signd (pcm_formats ! nat format) = 1 \<or> width \<le> 8
              then let bytes = samples * of_nat width div 8
                   in (memset data (hd pat) (unat bytes), Inr ())
              else let width = width div 8
                   in (if width \<in> {2, 3, 4, 8} then copy_samples width pat (unat samples) data
                       else data, Inr ()))"

section \<open>Rates\<close>

definition snd_pcm_known_rates :: "u32 list" where
  "snd_pcm_known_rates = [5512, 8000, 11025, 16000, 22050, 32000, 44100,
                          48000, 64000, 88200, 96000, 176400, 192000]"

abbreviation rate_bit :: "nat \<Rightarrow> u32" where "rate_bit i \<equiv> push_bit i 1"

definition SNDRV_PCM_RATE_CONTINUOUS :: u32 where "SNDRV_PCM_RATE_CONTINUOUS = push_bit 30 1"
definition SNDRV_PCM_RATE_KNOT :: u32 where "SNDRV_PCM_RATE_KNOT = push_bit 31 1"

text \<open>The fields of \<open>runtime->hw\<close> the function reads and writes are \<open>rates\<close>, \<open>rate_min\<close>, \<open>rate_max\<close>.\<close>

definition snd_pcm_limit_hw_rates :: "u32 \<Rightarrow> u32 \<times> u32 \<Rightarrow> u32 \<times> u32" where
  "snd_pcm_limit_hw_rates rates old =
     (let has = (\<lambda>i. rates AND rate_bit i \<noteq> 0);
          idx = [0..<length snd_pcm_known_rates];
          rate_min = (case find has idx of Some i \<Rightarrow> snd_pcm_known_rates ! i | None \<Rightarrow> fst old);
          rate_max = (case find has (rev idx) of Some i \<Rightarrow> snd_pcm_known_rates ! i | None \<Rightarrow> snd old)
      in (rate_min, rate_max))"

definition snd_pcm_rate_to_rate_bit :: "u32 \<Rightarrow> u32" where
  "snd_pcm_rate_to_rate_bit rate =
     (case find (\<lambda>i. snd_pcm_known_rates ! i = rate) [0..<length snd_pcm_known_rates] of
        Some i \<Rightarrow> rate_bit i | None \<Rightarrow> SNDRV_PCM_RATE_KNOT)"

definition snd_pcm_rate_bit_to_rate :: "u32 \<Rightarrow> u32" where
  "snd_pcm_rate_bit_to_rate b =
     (case find (\<lambda>i. rate_bit i = b) [0..<length snd_pcm_known_rates] of
        Some i \<Rightarrow> snd_pcm_known_rates ! i | None \<Rightarrow> 0)"

section \<open>Properties of the table\<close>

definition phys_bytes :: "int \<Rightarrow> nat" where
  "phys_bytes format = fd_phys (pcm_formats ! nat format) div 8"

definition silence_of :: "int \<Rightarrow> u8 list" where
  "silence_of format = take (phys_bytes format) (fd_silence (pcm_formats ! nat format))"

text \<open>The unsigned number in the bytes of one sample, most significant byte first for a big-endian
  format.\<close>

definition decode_sample :: "int \<Rightarrow> u8 list \<Rightarrow> nat" where
  "decode_sample format bs =
     horner_sum unat 256 (if fd_le (pcm_formats ! nat format) = 0 then rev bs else bs)"

definition midpoint :: "int \<Rightarrow> nat" where
  "midpoint format =
     (if snd_pcm_format_signed format = Inr True then 0
      else 2 ^ (fd_width (pcm_formats ! nat format) - 1))"

definition is_dsd :: "int \<Rightarrow> bool" where
  "is_dsd format \<longleftrightarrow> format = 48 \<or> format = 49"

lemma format_cases:
  assumes "format_in_table format" and "list_all P [0..49]" shows "P format"
  using assms by (simp add: format_in_table_def SNDRV_PCM_FORMAT_LAST_def list_all_iff)

definition format_entry_ok :: "int \<Rightarrow> bool" where
  "format_entry_ok format =
     (let fd = pcm_formats ! nat format
      in fd_width fd \<le> fd_phys fd \<and> length (fd_silence fd) = 8 \<and>
         (snd_pcm_format_linear format \<and> fd_phys fd \<noteq> 0 \<longrightarrow>
            fd_phys fd \<in> {8, 16, 24, 32} \<and>
            (fd_phys fd > 8 \<longleftrightarrow> snd_pcm_format_little_endian format \<noteq> Inl EINVAL \<and> \<not> format = 48)) \<and>
         (fd_signd fd = 1 \<longrightarrow> fd_silence fd = replicate 8 0) \<and>
         (fd_phys fd \<ge> 8 \<longrightarrow> fd_phys fd \<in> {8, 16, 24, 32, 64}))"

lemma upto_0_49: "[0..49] = [0, 1, 2, 3, 4, 5, 6, 7, 8, 9, 10, 11, 12, 13, 14, 15, 16, 17, 18, 19,
    20, 21, 22, 23, 24, 25, 26, 27, 28, 29, 30, 31, 32, 33, 34, 35, 36, 37, 38, 39,
    40, 41, 42, 43, 44, 45, 46, 47, 48, 49 :: int]"
  by (simp add: upto_rec1)

lemma format_entries: "list_all format_entry_ok [0..49]"
  by code_simp

lemma horner_zeros: "horner_sum unat 256 (replicate n (0 :: u8)) = 0"
  by (induction n) simp_all

lemma linear_silence_midpoint:
  "list_all (\<lambda>f. snd_pcm_format_linear f \<and> phys_bytes f \<noteq> 0 \<and> \<not> is_dsd f \<longrightarrow>
     decode_sample f (silence_of f) = midpoint f) [0..49]"
  by (simp add: upto_0_49 snd_pcm_format_linear_def snd_pcm_format_signed_def format_in_table_def
      SNDRV_PCM_FORMAT_LAST_def phys_bytes_def is_dsd_def decode_sample_def silence_of_def
      midpoint_def pcm_formats_def fmt_def pad8_def horner_zeros)

lemma copy_samples_concat:
  "copy_samples w pat n d = concat (replicate n (take w pat)) @ drop (n * w) d"
  by (induction n arbitrary: d) (simp_all add: add.commute)

lemma concat_replicate_singleton: "concat (replicate n (replicate k x)) = replicate (n * k) x"
  by (induction n) (simp_all add: replicate_add)

lemma nth_sample:
  "length p = w \<Longrightarrow> i < n \<Longrightarrow> take w (drop (i * w) (concat (replicate n p) @ r)) = p"
proof (induction n arbitrary: i)
  case (Suc n)
  then show ?case by (cases i) (simp_all add: add.commute)
qed simp

lemma linear_format_facts:
  assumes "snd_pcm_format_physical_width format = Inr phys" "8 \<le> phys"
  shows "format_in_table format" "phys = 8 * phys_bytes format" "phys_bytes format \<in> {1, 2, 3, 4, 8}"
    "length (silence_of format) = phys_bytes format" "format_entry_ok format"
proof -
  show t: "format_in_table format"
    using assms by (auto simp: snd_pcm_format_physical_width_def split: if_splits)
  show ok: "format_entry_ok format" by (rule format_cases [OF t format_entries])
  have p: "fd_phys (pcm_formats ! nat format) = phys"
    using assms t by (auto simp: snd_pcm_format_physical_width_def Let_def split: if_splits)
  then have "phys \<in> {8, 16, 24, 32, 64}" and "length (fd_silence (pcm_formats ! nat format)) = 8"
    using ok assms(2) unfolding format_entry_ok_def Let_def by metis+
  then show "phys = 8 * phys_bytes format" "phys_bytes format \<in> {1, 2, 3, 4, 8}"
    "length (silence_of format) = phys_bytes format"
    by (auto simp: phys_bytes_def silence_of_def p)
qed

text \<open>The optimised fill writes what the loop over samples under \<open>#if 0\<close> would write.\<close>

lemma set_silence_fill:
  assumes "snd_pcm_format_physical_width format = Inr phys" "8 \<le> phys"
    and nowrap: "unat samples * phys < 2 ^ 32"
  shows "snd_pcm_format_set_silence format data samples =
    (concat (replicate (unat samples) (silence_of format)) @
       drop (unat samples * phys_bytes format) data, Inr ())"
proof -
  note F = linear_format_facts [OF assms(1,2)]
  let ?fd = "pcm_formats ! nat format"
  let ?k = "phys_bytes format"
  have phys: "fd_phys ?fd = 8 * ?k" using F(1,2) assms(1)
    by (auto simp: snd_pcm_format_physical_width_def Let_def split: if_splits)
  have k: "?k \<noteq> 0" using F(3) by auto
  have sil: "length (fd_silence ?fd) = 8" using F(5) by (simp add: format_entry_ok_def Let_def)
  consider "samples = 0" | "samples \<noteq> 0" "fd_signd ?fd = 1 \<or> fd_phys ?fd \<le> 8"
    | "samples \<noteq> 0" "\<not> (fd_signd ?fd = 1 \<or> fd_phys ?fd \<le> 8)" by blast
  then show ?thesis
  proof cases
    case 1
    then show ?thesis using F(1) by (simp add: snd_pcm_format_set_silence_def)
  next
    case 2
    define w where "w = (of_nat (8 * ?k) :: u32)"
    have w: "unat w = 8 * ?k" unfolding w_def using F(3) by (intro unat_of_nat32) auto
    then have "unat (samples * w) = unat samples * ?k * 8"
      using nowrap F(2) by (subst unat_mult_nowrap) simp_all
    then have bytes: "unat (samples * of_nat (8 * ?k) div 8) = unat samples * ?k"
      unfolding w_def [symmetric] by (simp add: unat_div)
    have "silence_of format = replicate ?k (hd (fd_silence ?fd))"
    proof (cases "fd_signd ?fd = 1")
      case True
      then have "fd_silence ?fd = replicate 8 0" using F(5) by (simp add: format_entry_ok_def Let_def)
      then show ?thesis using F(3) by (auto simp: silence_of_def)
    next
      case False
      then have "?k = 1" using 2 k phys by simp
      then show ?thesis using sil by (cases "fd_silence ?fd") (simp_all add: silence_of_def)
    qed
    then show ?thesis using 2 F(1) phys k bytes
      by (simp add: snd_pcm_format_set_silence_def Let_def memset_def concat_replicate_singleton)
  next
    case 3
    then have "?k \<in> {2, 3, 4, 8}" using F(3) phys by auto
    then show ?thesis using 3 F(1) phys k
      by (simp add: snd_pcm_format_set_silence_def Let_def copy_samples_concat silence_of_def)
  qed
qed

text \<open>
  filling a buffer with silence. For every linear format except the two DSD ones, as long as
  the bit count \<open>samples * width\<close> does not wrap at 32 bits, the call succeeds, keeps the length of
  the buffer and everything behind the samples, and every sample of the filled part decodes to the
  midpoint of the format: 0 when signed, 2 to the (width - 1) when unsigned.
\<close>

theorem snd_pcm_format_set_silence_midpoint:
  assumes "snd_pcm_format_linear format" and "\<not> is_dsd format"
    and "snd_pcm_format_physical_width format = Inr phys"
    and "unat samples * phys < 2 ^ 32"
    and "unat samples * phys_bytes format \<le> length data"
  shows "\<exists>data'. snd_pcm_format_set_silence format data samples = (data', Inr ()) \<and>
    length data' = length data \<and>
    drop (unat samples * phys_bytes format) data' = drop (unat samples * phys_bytes format) data \<and>
    (\<forall>i < unat samples.
       decode_sample format (take (phys_bytes format) (drop (i * phys_bytes format) data')) = midpoint format)"
proof -
  have t: "format_in_table format"
    using assms(3) by (auto simp: snd_pcm_format_physical_width_def split: if_splits)
  have phys: "fd_phys (pcm_formats ! nat format) = phys" "phys \<noteq> 0"
    using assms(3) t by (auto simp: snd_pcm_format_physical_width_def Let_def split: if_splits)
  have "8 \<le> phys" using format_cases [OF t format_entries] assms(1) phys
    by (auto simp: format_entry_ok_def Let_def)
  note F = linear_format_facts [OF assms(3) this]
  have d: "decode_sample format (silence_of format) = midpoint format"
    using format_cases [OF t linear_silence_midpoint] assms(1,2) F(3) by auto
  have l: "length (concat (replicate (unat samples) (silence_of format))) = unat samples * phys_bytes format"
    using F(4) by (simp add: length_concat sum_list_replicate)
  show ?thesis
    unfolding set_silence_fill [OF assms(3) \<open>8 \<le> phys\<close> assms(4), of data]
    using l assms(5) d by (auto simp: nth_sample [OF F(4)] simp del: drop_append take_append)
      (simp add: l)
qed

theorem snd_pcm_format_set_silence_midpoint_witness:
  "\<exists>data'. snd_pcm_format_set_silence 4 [1, 2, 3, 4, 5] 2 = (data', Inr ()) \<and>
    length data' = length ([1, 2, 3, 4, 5] :: u8 list) \<and>
    drop (unat (2 :: u32) * phys_bytes 4) data' = drop (unat (2 :: u32) * phys_bytes 4) [1, 2, 3, 4, 5] \<and>
    (\<forall>i < unat (2 :: u32). decode_sample 4 (take (phys_bytes 4) (drop (i * phys_bytes 4) data')) = midpoint 4)"
proof (rule snd_pcm_format_set_silence_midpoint)
  show "snd_pcm_format_linear 4" "\<not> is_dsd 4" "snd_pcm_format_physical_width 4 = Inr 16" by code_simp+
  show "unat (2 :: u32) * 16 < 2 ^ 32" by simp
  have "phys_bytes 4 = 2" by code_simp
  then show "unat (2 :: u32) * phys_bytes 4 \<le> length ([1, 2, 3, 4, 5] :: u8 list)" by simp
qed

text \<open>
  The two DSD formats are unsigned linear by the table, but their silence is not at the
  midpoint of the format; and 32-bit signed samples are left unfilled from the
  134217728th sample on, where the bit count wraps to 0.
\<close>

lemma snd_pcm_format_set_silence_gaps:
  "snd_pcm_format_unsigned 48 = Inr True \<and> snd_pcm_format_unsigned 49 = Inr True \<and>
   decode_sample 48 (silence_of 48) \<noteq> midpoint 48 \<and> decode_sample 49 (silence_of 49) \<noteq> midpoint 49 \<and>
   snd_pcm_format_set_silence 10 data 134217728 = (data, Inr ())"
proof (intro conjI)
  show "snd_pcm_format_set_silence 10 data 134217728 = (data, Inr ())"
    by (simp add: snd_pcm_format_set_silence_def format_in_table_def SNDRV_PCM_FORMAT_LAST_def
        pcm_formats_def fmt_def memset_def)
qed code_simp+

section \<open>Properties of the rate bits\<close>

text \<open>
  Rates and rate bits. A known rate survives the round trip through its bit, the bit of a known
  rate is one of the 13 rate bits, and an unknown rate becomes the KNOT bit, whose
  rate is 0.
\<close>

theorem snd_pcm_rate_bit_roundtrip:
  "(if r \<in> set snd_pcm_known_rates
    then snd_pcm_rate_bit_to_rate (snd_pcm_rate_to_rate_bit r) = r \<and>
         (\<exists>i < 13. snd_pcm_rate_to_rate_bit r = rate_bit i)
    else snd_pcm_rate_to_rate_bit r = SNDRV_PCM_RATE_KNOT) \<and>
   snd_pcm_rate_bit_to_rate SNDRV_PCM_RATE_KNOT = 0"
proof -
  have up: "[0..<13] = [0, 1, 2, 3, 4, 5, 6, 7, 8, 9, 10, 11, 12 :: nat]" by (simp add: upt_rec)
  have "list_all (\<lambda>r. snd_pcm_rate_bit_to_rate (snd_pcm_rate_to_rate_bit r) = r \<and>
         (list_ex (\<lambda>i. snd_pcm_rate_to_rate_bit r = rate_bit i) [0..<13])) snd_pcm_known_rates"
    by (simp add: snd_pcm_known_rates_def snd_pcm_rate_bit_to_rate_def snd_pcm_rate_to_rate_bit_def up push_bit_eq_mult)
  moreover have "snd_pcm_rate_bit_to_rate SNDRV_PCM_RATE_KNOT = 0"
    by (simp add: snd_pcm_known_rates_def snd_pcm_rate_bit_to_rate_def SNDRV_PCM_RATE_KNOT_def up push_bit_eq_mult)
  moreover have "r \<notin> set snd_pcm_known_rates \<Longrightarrow> snd_pcm_rate_to_rate_bit r = SNDRV_PCM_RATE_KNOT"
    by (simp add: snd_pcm_known_rates_def snd_pcm_rate_to_rate_bit_def up)
  ultimately show ?thesis by (simp add: list_all_iff list_ex_iff) (metis atLeastLessThan_iff)
qed

definition selected_rates :: "u32 \<Rightarrow> u32 set" where
  "selected_rates rates = {snd_pcm_known_rates ! i | i. i < 13 \<and> rates AND rate_bit i \<noteq> 0}"

lemma known_rates_length [simp]: "length snd_pcm_known_rates = 13"
  by (simp add: snd_pcm_known_rates_def)

lemma known_rates_mono: "i \<le> j \<Longrightarrow> j < 13 \<Longrightarrow> snd_pcm_known_rates ! i \<le> snd_pcm_known_rates ! j"
proof (rule sorted_nth_mono)
  show "sorted snd_pcm_known_rates" by (simp add: snd_pcm_known_rates_def)
qed simp_all

lemma find_rev_upt_SomeD:
  assumes "find P (rev [0..<n]) = Some k"
  shows "k < n \<and> P k \<and> (\<forall>j < n. k < j \<longrightarrow> \<not> P j)"
proof -
  obtain i where i: "i < n" "k = n - Suc i" "P k" "\<forall>j < i. \<not> P (n - Suc j)"
    using assms by (auto simp: find_Some_iff rev_nth)
  have "\<not> P j" if "j < n" "k < j" for j
    using i(4) [rule_format, of "n - Suc j"] that i(1,2) by (simp add: Suc_diff_Suc)
  then show ?thesis using i by auto
qed

text \<open>
  the rate limits taken from the rate bits. When at least one known rate bit is set,
  \<open>rate_min\<close> and \<open>rate_max\<close> are both selected rates and every selected rate lies between them;
  otherwise the two fields keep what the driver put there.
\<close>

theorem snd_pcm_limit_hw_rates_exact:
  "case snd_pcm_limit_hw_rates rates old of (rate_min, rate_max) \<Rightarrow>
     if selected_rates rates = {} then (rate_min, rate_max) = old
     else rate_min \<in> selected_rates rates \<and> rate_max \<in> selected_rates rates \<and>
          (\<forall>r \<in> selected_rates rates. rate_min \<le> r \<and> r \<le> rate_max)"
proof -
  define has where "has i = (rates AND rate_bit i \<noteq> 0)" for i
  have sel: "selected_rates rates = {snd_pcm_known_rates ! i | i. i < 13 \<and> has i}"
    by (simp add: selected_rates_def has_def)
  show ?thesis
  proof (cases "find has [0..<13]")
    case None
    then have "find has (rev [0..<13]) = None" "selected_rates rates = {}"
      by (auto simp: find_None_iff sel)
    then show ?thesis using None
      by (simp add: snd_pcm_limit_hw_rates_def Let_def has_def [abs_def])
  next
    case (Some i)
    then have i: "i < 13" "has i" "\<forall>j < i. \<not> has j"
      by (auto simp: find_Some_iff)
    then obtain k where k: "find has (rev [0..<13]) = Some k"
      by (metis atLeastLessThan_iff find_None_iff le0 not_None_eq set_rev set_upt)
    note K = find_rev_upt_SomeD [OF k]
    have eq: "snd_pcm_limit_hw_rates rates old = (snd_pcm_known_rates ! i, snd_pcm_known_rates ! k)"
      using Some k by (simp add: snd_pcm_limit_hw_rates_def Let_def has_def [abs_def])
    have "snd_pcm_known_rates ! i \<in> selected_rates rates" "snd_pcm_known_rates ! k \<in> selected_rates rates"
      using i K by (auto simp: sel)
    moreover have "snd_pcm_known_rates ! i \<le> snd_pcm_known_rates ! j \<and> snd_pcm_known_rates ! j \<le> snd_pcm_known_rates ! k"
      if "j < 13" "has j" for j
      using that i K by (intro conjI known_rates_mono) (auto simp: not_le [symmetric])
    ultimately show ?thesis unfolding eq by (auto simp: sel)
  qed
qed

theorem snd_pcm_limit_hw_rates_exact_witness:
  "case snd_pcm_limit_hw_rates 0xC0 (0, 0) of (rate_min, rate_max) \<Rightarrow>
     if selected_rates 0xC0 = {} then (rate_min, rate_max) = (0, 0)
     else rate_min \<in> selected_rates 0xC0 \<and> rate_max \<in> selected_rates 0xC0 \<and>
          (\<forall>r \<in> selected_rates 0xC0. rate_min \<le> r \<and> r \<le> rate_max)"
  by (rule snd_pcm_limit_hw_rates_exact)

end
