(* ===== verification/Pcm_HwParams.thy ===== *)
theory Pcm_HwParams
  imports Pcm_Interval_Tables Pcm_Mask Pcm_Format
begin

text \<open>
  The configuration space of a stream and its constraint rules: \<open>struct snd_pcm_hw_params\<close>,
  \<open>struct snd_pcm_hw_constraints\<close> and \<open>struct snd_pcm_hw_rule\<close>, the rule functions and
  \<open>snd_pcm_hw_refine\<close> of \<open>sound/core/pcm_native.c\<close>, and the constraint and selection functions of
  \<open>sound/core/pcm_lib.c\<close>. The arrays \<open>masks\<close> and \<open>intervals\<close> are functions of the parameter number
  (0 to 2 and 8 to 19), which is how \<open>hw_param_mask\<close> and \<open>hw_param_interval\<close> read them. A rule's
  function pointer with its private data is a constructor of \<open>hw_rule_func\<close>; a function a driver
  registered is a parameter. The contents of uninitialised stack variables are parameters too
  (\<open>env_stack_interval\<close>, \<open>env_stack_mask\<close>).
\<close>

section \<open>Parameters, hardware description, rules\<close>

abbreviation (input) HW_PARAM_ACCESS :: nat where "HW_PARAM_ACCESS \<equiv> 0"
abbreviation (input) HW_PARAM_FORMAT :: nat where "HW_PARAM_FORMAT \<equiv> 1"
abbreviation (input) HW_PARAM_SUBFORMAT :: nat where "HW_PARAM_SUBFORMAT \<equiv> 2"
abbreviation (input) HW_PARAM_SAMPLE_BITS :: nat where "HW_PARAM_SAMPLE_BITS \<equiv> 8"
abbreviation (input) HW_PARAM_FRAME_BITS :: nat where "HW_PARAM_FRAME_BITS \<equiv> 9"
abbreviation (input) HW_PARAM_CHANNELS :: nat where "HW_PARAM_CHANNELS \<equiv> 10"
abbreviation (input) HW_PARAM_RATE :: nat where "HW_PARAM_RATE \<equiv> 11"
abbreviation (input) HW_PARAM_PERIOD_TIME :: nat where "HW_PARAM_PERIOD_TIME \<equiv> 12"
abbreviation (input) HW_PARAM_PERIOD_SIZE :: nat where "HW_PARAM_PERIOD_SIZE \<equiv> 13"
abbreviation (input) HW_PARAM_PERIOD_BYTES :: nat where "HW_PARAM_PERIOD_BYTES \<equiv> 14"
abbreviation (input) HW_PARAM_PERIODS :: nat where "HW_PARAM_PERIODS \<equiv> 15"
abbreviation (input) HW_PARAM_BUFFER_TIME :: nat where "HW_PARAM_BUFFER_TIME \<equiv> 16"
abbreviation (input) HW_PARAM_BUFFER_SIZE :: nat where "HW_PARAM_BUFFER_SIZE \<equiv> 17"
abbreviation (input) HW_PARAM_BUFFER_BYTES :: nat where "HW_PARAM_BUFFER_BYTES \<equiv> 18"
abbreviation (input) HW_PARAM_TICK_TIME :: nat where "HW_PARAM_TICK_TIME \<equiv> 19"

definition mask_params :: "nat list" where "mask_params = [0..<3]"
definition interval_params :: "nat list" where "interval_params = [8..<20]"

definition hw_is_mask :: "nat \<Rightarrow> bool" where "hw_is_mask var \<longleftrightarrow> var \<le> 2"
definition hw_is_interval :: "nat \<Rightarrow> bool" where "hw_is_interval var \<longleftrightarrow> 8 \<le> var \<and> var \<le> 19"

definition var_flag :: "nat \<Rightarrow> u32" where "var_flag k = push_bit k 1"

definition SNDRV_PCM_HW_PARAMS_NORESAMPLE :: u32 where "SNDRV_PCM_HW_PARAMS_NORESAMPLE = 1"

abbreviation (input) INFO_MMAP :: u32 where "INFO_MMAP \<equiv> 0x00000001"
abbreviation (input) INFO_INTERLEAVED :: u32 where "INFO_INTERLEAVED \<equiv> 0x00000100"
abbreviation (input) INFO_NONINTERLEAVED :: u32 where "INFO_NONINTERLEAVED \<equiv> 0x00000200"
abbreviation (input) INFO_COMPLEX :: u32 where "INFO_COMPLEX \<equiv> 0x00000400"
abbreviation (input) INFO_FIFO_IN_FRAMES :: u32 where "INFO_FIFO_IN_FRAMES \<equiv> 0x80000000"

record hw_params =
  hp_flags :: u32
  hp_masks :: "nat \<Rightarrow> snd_mask"
  hp_intervals :: "nat \<Rightarrow> snd_interval"
  hp_rmask :: u32
  hp_cmask :: u32
  hp_info :: u32
  hp_msbits :: u32
  hp_rate_num :: u32
  hp_rate_den :: u32
  hp_fifo_size :: u64

record pcm_hardware =
  hw_info :: u32
  hw_formats :: u64
  hw_rates :: u32
  hw_rate_min :: u32
  hw_rate_max :: u32
  hw_channels_min :: u32
  hw_channels_max :: u32
  hw_buffer_bytes_max :: u64
  hw_period_bytes_min :: u64
  hw_period_bytes_max :: u64
  hw_periods_min :: u32
  hw_periods_max :: u32
  hw_fifo_size :: u64

datatype hw_rule_func =
    Rule_format | Rule_sample_bits
  | Rule_mul | Rule_div | Rule_muldivk u64 | Rule_mulkdiv u64
  | Rule_rate | Rule_buffer_bytes_max
  | Rule_list "u32 list" u32
  | Rule_ratnums "snd_ratnum list"
  | Rule_ratdens "snd_ratden list"
  | Rule_msbits u64
  | Rule_step u64
  | Rule_pow2
  | Rule_noresample u64
  | Rule_driver "hw_params \<Rightarrow> int \<Rightarrow> int list \<Rightarrow> hw_params \<times> bool res"

record hw_rule =
  r_cond :: u32
  r_func :: hw_rule_func
  r_var :: int
  r_deps :: "int list"

text \<open>\<open>hc_rules\<close> is the used part of the array \<open>rules\<close>; its length is \<open>rules_num\<close>.\<close>

record hw_constraints =
  hc_masks :: "nat \<Rightarrow> snd_mask"
  hc_intervals :: "nat \<Rightarrow> snd_interval"
  hc_rules :: "hw_rule list"
  hc_rules_all :: u32

text \<open>What the rules read besides the parameters: \<open>runtime->hw\<close>, \<open>substream->buffer_bytes_max\<close>,
  uninitialised stack, and the driver's FIFO\_SIZE ioctl.\<close>

record refine_env =
  env_hw :: pcm_hardware
  env_buffer_bytes_max :: u64
  env_stack_interval :: snd_interval
  env_stack_mask :: snd_mask
  env_fifo_ioctl :: "hw_params \<Rightarrow> hw_params \<times> unit res"

definition set_mask :: "nat \<Rightarrow> snd_mask \<Rightarrow> hw_params \<Rightarrow> hw_params" where
  "set_mask k m p = p\<lparr>hp_masks := (hp_masks p)(k := m)\<rparr>"

definition set_interval :: "nat \<Rightarrow> snd_interval \<Rightarrow> hw_params \<Rightarrow> hw_params" where
  "set_interval k i p = p\<lparr>hp_intervals := (hp_intervals p)(k := i)\<rparr>"

definition add_cmask :: "nat \<Rightarrow> hw_params \<Rightarrow> hw_params" where
  "add_cmask k p = p\<lparr>hp_cmask := hp_cmask p OR var_flag k\<rparr>"

definition add_crmask :: "nat \<Rightarrow> hw_params \<Rightarrow> hw_params" where
  "add_crmask k p = p\<lparr>hp_cmask := hp_cmask p OR var_flag k, hp_rmask := hp_rmask p OR var_flag k\<rparr>"

section \<open>The rule functions\<close>

definition refine_var :: "nat \<Rightarrow> snd_interval \<Rightarrow> hw_params \<Rightarrow> hw_params \<times> bool res" where
  "refine_var v t p = (let (i, res) = snd_interval_refine (hp_intervals p v) t in (set_interval v i p, res))"

abbreviation (input) dep :: "int list \<Rightarrow> nat \<Rightarrow> nat" where "dep deps d \<equiv> nat (deps ! d)"

definition snd_pcm_hw_rule_mul :: "snd_interval \<Rightarrow> nat \<Rightarrow> int list \<Rightarrow> hw_params \<Rightarrow> hw_params \<times> bool res" where
  "snd_pcm_hw_rule_mul t var deps p =
     refine_var var (snd_interval_mul (hp_intervals p (dep deps 0)) (hp_intervals p (dep deps 1)) t) p"

definition snd_pcm_hw_rule_div :: "snd_interval \<Rightarrow> nat \<Rightarrow> int list \<Rightarrow> hw_params \<Rightarrow> hw_params \<times> bool res" where
  "snd_pcm_hw_rule_div t var deps p =
     refine_var var (snd_interval_div (hp_intervals p (dep deps 0)) (hp_intervals p (dep deps 1)) t) p"

definition snd_pcm_hw_rule_muldivk ::
  "snd_interval \<Rightarrow> u64 \<Rightarrow> nat \<Rightarrow> int list \<Rightarrow> hw_params \<Rightarrow> hw_params \<times> bool res" where
  "snd_pcm_hw_rule_muldivk t k var deps p =
     refine_var var (snd_interval_muldivk (hp_intervals p (dep deps 0)) (hp_intervals p (dep deps 1)) (ucast k) t) p"

definition snd_pcm_hw_rule_mulkdiv ::
  "snd_interval \<Rightarrow> u64 \<Rightarrow> nat \<Rightarrow> int list \<Rightarrow> hw_params \<Rightarrow> hw_params \<times> bool res" where
  "snd_pcm_hw_rule_mulkdiv t k var deps p =
     refine_var var (snd_interval_mulkdiv (hp_intervals p (dep deps 0)) (ucast k) (hp_intervals p (dep deps 1)) t) p"

definition snd_pcm_hw_rule_format :: "snd_mask \<Rightarrow> int list \<Rightarrow> hw_params \<Rightarrow> hw_params \<times> bool res" where
  "snd_pcm_hw_rule_format stack deps p =
     (let i = hp_intervals p (dep deps 0);
          msk = hp_masks p HW_PARAM_FORMAT;
          m = fold (\<lambda>k m.
                if \<not> snd_mask_test msk k then m
                else case snd_pcm_format_physical_width (int k) of
                       Inl _ \<Rightarrow> m
                     | Inr bits \<Rightarrow> if bits < unat (iv_min i) \<or> bits > unat (iv_max i)
                                  then snd_mask_reset m k else m)
              [0..<50] (snd_mask_any stack);
          (msk', res) = snd_mask_refine msk m
      in (set_mask HW_PARAM_FORMAT msk' p, res))"

definition snd_pcm_hw_rule_sample_bits :: "snd_interval \<Rightarrow> nat \<Rightarrow> hw_params \<Rightarrow> hw_params \<times> bool res" where
  "snd_pcm_hw_rule_sample_bits stack var p =
     (let (lo, hi) = fold (\<lambda>k (lo, hi).
                if \<not> snd_mask_test (hp_masks p HW_PARAM_FORMAT) k then (lo, hi)
                else case snd_pcm_format_physical_width (int k) of
                       Inl _ \<Rightarrow> (lo, hi)
                     | Inr bits \<Rightarrow> (if unat lo > bits then of_nat bits else lo,
                                   if unat hi < bits then of_nat bits else hi))
              [0..<50] (UINT_MAX, 0)
      in refine_var var (stack\<lparr>iv_min := lo, iv_max := hi, openmin := False, openmax := False,
                               iv_integer := True\<rparr>) p)"

definition list_var :: "snd_interval \<Rightarrow> nat \<Rightarrow> u32 list \<Rightarrow> u32 \<Rightarrow> hw_params \<Rightarrow> hw_params \<times> bool res" where
  "list_var stack var xs msk p =
     (let (i, res) = snd_interval_list (hp_intervals p var) xs msk stack in (set_interval var i p, res))"

definition snd_pcm_hw_rule_rate :: "snd_interval \<Rightarrow> u32 \<Rightarrow> nat \<Rightarrow> hw_params \<Rightarrow> hw_params \<times> bool res" where
  "snd_pcm_hw_rule_rate stack rates var p = list_var stack var snd_pcm_known_rates rates p"

definition snd_pcm_hw_rule_buffer_bytes_max ::
  "snd_interval \<Rightarrow> u64 \<Rightarrow> nat \<Rightarrow> hw_params \<Rightarrow> hw_params \<times> bool res" where
  "snd_pcm_hw_rule_buffer_bytes_max stack bytes_max var p =
     refine_var var (stack\<lparr>iv_min := 0, iv_max := ucast bytes_max, openmin := False,
                           openmax := False, iv_integer := True\<rparr>) p"

definition set_rate_ratio :: "nat \<Rightarrow> (u32 \<times> u32) option \<Rightarrow> hw_params \<Rightarrow> hw_params" where
  "set_rate_ratio var ratio p =
     (case ratio of
        Some (num, den) \<Rightarrow>
          if den \<noteq> 0 \<and> var = HW_PARAM_RATE then p\<lparr>hp_rate_num := num, hp_rate_den := den\<rparr> else p
      | None \<Rightarrow> p)"

definition snd_pcm_hw_rule_ratnums ::
  "snd_interval \<Rightarrow> snd_ratnum list \<Rightarrow> nat \<Rightarrow> hw_params \<Rightarrow> hw_params \<times> bool res" where
  "snd_pcm_hw_rule_ratnums stack rats var p =
     (let (i, res, ratio) = snd_interval_ratnum (hp_intervals p var) rats stack;
          p' = set_interval var i p
      in (case res of Inl _ \<Rightarrow> p' | Inr _ \<Rightarrow> set_rate_ratio var ratio p', res))"

definition snd_pcm_hw_rule_ratdens ::
  "snd_interval \<Rightarrow> snd_ratden list \<Rightarrow> nat \<Rightarrow> hw_params \<Rightarrow> hw_params \<times> bool res" where
  "snd_pcm_hw_rule_ratdens stack rats var p =
     (let (i, res, ratio) = snd_interval_ratden (hp_intervals p var) rats stack;
          p' = set_interval var i p
      in (case res of Inl _ \<Rightarrow> p' | Inr _ \<Rightarrow> set_rate_ratio var ratio p', res))"

text \<open>\<open>width\<close> is an \<open>int\<close> below 65536 and is compared as an unsigned number.\<close>

definition snd_pcm_hw_rule_msbits :: "u64 \<Rightarrow> hw_params \<Rightarrow> hw_params \<times> bool res" where
  "snd_pcm_hw_rule_msbits private p =
     (let l = ucast private :: u32; width = l AND 0xffff; msbits = drop_bit 16 l;
          i = hp_intervals p HW_PARAM_SAMPLE_BITS
      in (if snd_interval_single i \<and> snd_interval_value i = width then p\<lparr>hp_msbits := msbits\<rparr> else p,
          Inr False))"

definition snd_pcm_hw_rule_step :: "u64 \<Rightarrow> nat \<Rightarrow> hw_params \<Rightarrow> hw_params \<times> bool res" where
  "snd_pcm_hw_rule_step step var p =
     (let (i, res) = snd_interval_step (hp_intervals p var) 0 (ucast step) in (set_interval var i p, res))"

definition pow2_sizes :: "u32 list" where "pow2_sizes = map (\<lambda>k. push_bit k 1) [0..<31]"

definition snd_pcm_hw_rule_pow2 :: "snd_interval \<Rightarrow> nat \<Rightarrow> hw_params \<Rightarrow> hw_params \<times> bool res" where
  "snd_pcm_hw_rule_pow2 stack var p = list_var stack var pow2_sizes 0 p"

definition snd_pcm_hw_rule_noresample_func :: "snd_interval \<Rightarrow> u64 \<Rightarrow> hw_params \<Rightarrow> hw_params \<times> bool res" where
  "snd_pcm_hw_rule_noresample_func stack base_rate p =
     list_var stack HW_PARAM_RATE [ucast base_rate] 0 p"

definition rule_call :: "refine_env \<Rightarrow> hw_rule \<Rightarrow> hw_params \<Rightarrow> hw_params \<times> bool res" where
  "rule_call env r p =
     (let var = nat (r_var r); deps = r_deps r; t = env_stack_interval env in
      case r_func r of
        Rule_format \<Rightarrow> snd_pcm_hw_rule_format (env_stack_mask env) deps p
      | Rule_sample_bits \<Rightarrow> snd_pcm_hw_rule_sample_bits t var p
      | Rule_mul \<Rightarrow> snd_pcm_hw_rule_mul t var deps p
      | Rule_div \<Rightarrow> snd_pcm_hw_rule_div t var deps p
      | Rule_muldivk k \<Rightarrow> snd_pcm_hw_rule_muldivk t k var deps p
      | Rule_mulkdiv k \<Rightarrow> snd_pcm_hw_rule_mulkdiv t k var deps p
      | Rule_rate \<Rightarrow> snd_pcm_hw_rule_rate t (hw_rates (env_hw env)) var p
      | Rule_buffer_bytes_max \<Rightarrow> snd_pcm_hw_rule_buffer_bytes_max t (env_buffer_bytes_max env) var p
      | Rule_list xs msk \<Rightarrow> list_var t var xs msk p
      | Rule_ratnums rats \<Rightarrow> snd_pcm_hw_rule_ratnums t rats var p
      | Rule_ratdens rats \<Rightarrow> snd_pcm_hw_rule_ratdens t rats var p
      | Rule_msbits l \<Rightarrow> snd_pcm_hw_rule_msbits l p
      | Rule_step step \<Rightarrow> snd_pcm_hw_rule_step step var p
      | Rule_pow2 \<Rightarrow> snd_pcm_hw_rule_pow2 t var p
      | Rule_noresample rate \<Rightarrow> snd_pcm_hw_rule_noresample_func t rate p
      | Rule_driver f \<Rightarrow> f p (r_var r) deps)"

end
