(* ===== verification/Pcm_Refine.thy ===== *)
theory Pcm_Refine
  imports Pcm_HwParams
begin

text \<open>
  \<open>snd_pcm_hw_refine\<close> of \<open>sound/core/pcm_native.c\<close>: intersecting a request with the constraints
  and running the constraint rules until no rule changes anything. Functions that mutate
  \<open>params\<close> return the new parameters with their result, on errors too.
\<close>

section \<open>Intersection with the constraints\<close>

definition did_change :: "bool res \<Rightarrow> bool" where
  "did_change res = (case res of Inl _ \<Rightarrow> True | Inr b \<Rightarrow> b)"

fun refine_masks :: "hw_constraints \<Rightarrow> nat list \<Rightarrow> hw_params \<Rightarrow> hw_params \<times> unit res" where
  "refine_masks cs [] p = (p, Inr ())"
| "refine_masks cs (k # ks) p =
     (if snd_mask_empty (hp_masks p k) then (p, Inl EINVAL)
      else if hp_rmask p AND var_flag k = 0 then refine_masks cs ks p
      else let (m, changed) = snd_mask_refine (hp_masks p k) (hc_masks cs k);
               p1 = set_mask k m p;
               p2 = (if did_change changed then add_cmask k p1 else p1)
           in case changed of Inl e \<Rightarrow> (p2, Inl e) | Inr _ \<Rightarrow> refine_masks cs ks p2)"

fun refine_intervals :: "hw_constraints \<Rightarrow> nat list \<Rightarrow> hw_params \<Rightarrow> hw_params \<times> unit res" where
  "refine_intervals cs [] p = (p, Inr ())"
| "refine_intervals cs (k # ks) p =
     (if snd_interval_empty (hp_intervals p k) then (p, Inl EINVAL)
      else if hp_rmask p AND var_flag k = 0 then refine_intervals cs ks p
      else let (i, changed) = snd_interval_refine (hp_intervals p k) (hc_intervals cs k);
               p1 = set_interval k i p;
               p2 = (if did_change changed then add_cmask k p1 else p1)
           in case changed of Inl e \<Rightarrow> (p2, Inl e) | Inr _ \<Rightarrow> refine_intervals cs ks p2)"

section \<open>The rule loop\<close>

record refine_state =
  rf_params :: hw_params
  rf_vstamps :: "nat \<Rightarrow> u32"
  rf_rstamps :: "nat \<Rightarrow> u32"
  rf_stamp :: u32
  rf_again :: bool

definition rule_enabled :: "hw_params \<Rightarrow> hw_rule \<Rightarrow> bool" where
  "rule_enabled p r \<longleftrightarrow> \<not> (r_cond r \<noteq> 0 \<and> r_cond r AND hp_flags p = 0)"

definition rule_doit :: "refine_state \<Rightarrow> nat \<Rightarrow> hw_rule \<Rightarrow> bool" where
  "rule_doit st k r \<longleftrightarrow>
     list_ex (\<lambda>d. rf_vstamps st (nat d) > rf_rstamps st k) (takeWhile (\<lambda>d. d \<ge> 0) (r_deps r))"

definition note_change :: "hw_rule \<Rightarrow> bool res \<Rightarrow> refine_state \<Rightarrow> refine_state" where
  "note_change r changed st =
     (if did_change changed \<and> r_var r \<ge> 0
      then st\<lparr>rf_params := add_cmask (nat (r_var r)) (rf_params st),
              rf_vstamps := (rf_vstamps st)(nat (r_var r) := rf_stamp st),
              rf_again := True\<rparr>
      else st)"

definition rule_step :: "refine_env \<Rightarrow> nat \<Rightarrow> hw_rule \<Rightarrow> refine_state \<Rightarrow> refine_state \<times> unit res" where
  "rule_step env k r st =
     (if \<not> rule_enabled (rf_params st) r then (st, Inr ())
      else if \<not> rule_doit st k r then (st, Inr ())
      else let (p, changed) = rule_call env r (rf_params st);
               st1 = st\<lparr>rf_params := p, rf_rstamps := (rf_rstamps st)(k := rf_stamp st)\<rparr>;
               st2 = note_change r changed st1
           in case changed of
                Inl e \<Rightarrow> (st2, Inl e)
              | Inr _ \<Rightarrow> (st2\<lparr>rf_stamp := rf_stamp st2 + 1\<rparr>, Inr ()))"

fun rule_sweep :: "refine_env \<Rightarrow> nat \<Rightarrow> hw_rule list \<Rightarrow> refine_state \<Rightarrow> refine_state \<times> unit res" where
  "rule_sweep env k [] st = (st, Inr ())"
| "rule_sweep env k (r # rs) st =
     (case rule_step env k r st of
        (st', Inl e) \<Rightarrow> (st', Inl e)
      | (st', Inr _) \<Rightarrow> rule_sweep env (Suc k) rs st')"

text \<open>The \<open>do\<close>-\<open>while\<close> loop; it may not end, then its value is \<open>None\<close>.\<close>

partial_function (option) rule_loop ::
  "refine_env \<Rightarrow> hw_rule list \<Rightarrow> refine_state \<Rightarrow> (refine_state \<times> unit res) option" where
  "rule_loop env rules st =
     (case rule_sweep env 0 rules (st\<lparr>rf_again := False\<rparr>) of
        (st', Inl e) \<Rightarrow> Some (st', Inl e)
      | (st', Inr _) \<Rightarrow> if rf_again st' then rule_loop env rules st' else Some (st', Inr ()))"

declare rule_loop.simps [code]

section \<open>The whole refinement\<close>

definition refine_begin :: "hw_params \<Rightarrow> hw_params" where
  "refine_begin p =
     (let p1 = p\<lparr>hp_info := 0, hp_fifo_size := 0\<rparr>;
          p2 = (if hp_rmask p1 AND var_flag HW_PARAM_SAMPLE_BITS \<noteq> 0 then p1\<lparr>hp_msbits := 0\<rparr> else p1)
      in if hp_rmask p2 AND var_flag HW_PARAM_RATE \<noteq> 0
         then p2\<lparr>hp_rate_num := 0, hp_rate_den := 0\<rparr> else p2)"

definition refine_initial_state :: "hw_params \<Rightarrow> refine_state" where
  "refine_initial_state p =
     \<lparr>rf_params = p, rf_vstamps = (\<lambda>k. if hp_rmask p AND var_flag k \<noteq> 0 then 1 else 0),
      rf_rstamps = (\<lambda>_. 0), rf_stamp = 2, rf_again = False\<rparr>"

definition refine_results :: "pcm_hardware \<Rightarrow> hw_params \<Rightarrow> hw_params" where
  "refine_results hw p =
     (let bits = hp_intervals p HW_PARAM_SAMPLE_BITS;
          p1 = (if hp_msbits p = 0 \<and> snd_interval_single bits
                then p\<lparr>hp_msbits := snd_interval_value bits\<rparr> else p);
          rate = hp_intervals p1 HW_PARAM_RATE;
          p2 = (if hp_rate_den p1 = 0 \<and> snd_interval_single rate
                then p1\<lparr>hp_rate_num := snd_interval_value rate, hp_rate_den := 1\<rparr> else p1)
      in if hp_info p2 = 0 then p2\<lparr>hp_info := hw_info hw AND NOT INFO_FIFO_IN_FRAMES\<rparr> else p2)"

definition refine_end :: "refine_env \<Rightarrow> hw_params \<Rightarrow> hw_params \<times> unit res" where
  "refine_end env p =
     (let p1 = refine_results (env_hw env) p;
          m = hp_masks p1 HW_PARAM_FORMAT;
          i = hp_intervals p1 HW_PARAM_CHANNELS;
          (p2, res) = (if hp_fifo_size p1 = 0 \<and> snd_mask_min m = snd_mask_max m \<and>
                          snd_interval_min i = snd_interval_max i
                       then env_fifo_ioctl env p1 else (p1, Inr ()))
      in case res of Inl e \<Rightarrow> (p2, Inl e) | Inr _ \<Rightarrow> (p2\<lparr>hp_rmask := 0\<rparr>, Inr ()))"

definition snd_pcm_hw_refine ::
  "refine_env \<Rightarrow> hw_constraints \<Rightarrow> hw_params \<Rightarrow> (hw_params \<times> unit res) option" where
  "snd_pcm_hw_refine env cs params =
     (let p0 = refine_begin params in
      case refine_masks cs mask_params p0 of
        (p1, Inl e) \<Rightarrow> Some (p1, Inl e)
      | (p1, Inr _) \<Rightarrow>
          (case refine_intervals cs interval_params p1 of
             (p2, Inl e) \<Rightarrow> Some (p2, Inl e)
           | (p2, Inr _) \<Rightarrow>
               (case rule_loop env (hc_rules cs) (refine_initial_state p2) of
                  None \<Rightarrow> None
                | Some (st, Inl e) \<Rightarrow> Some (rf_params st, Inl e)
                | Some (st, Inr _) \<Rightarrow> Some (refine_end env (rf_params st)))))"

end
