(* ===== verification/Pcm_Config.thy ===== *)
theory Pcm_Config
  imports Pcm_Refine
begin

text \<open>
  What a constraint rule owes the configurator. A configuration picks one element of every mask
  and one real number for every interval parameter. A rule call is \<open>contracting\<close> for a
  configuration when, on a space that contains the configuration, it succeeds, keeps it, adds
  nothing, and makes the space strictly smaller whenever it reports a change. Every rule function
  of the core is shown to be contracting for the configurations that satisfy the equation the rule
  stands for.
\<close>

section \<open>Configurations\<close>

record config =
  c_choice :: "nat \<Rightarrow> nat"
  c_value :: "nat \<Rightarrow> real"

definition in_space :: "config \<Rightarrow> hw_params \<Rightarrow> bool" where
  "in_space c p \<longleftrightarrow>
     (\<forall>k \<le> 2. mask_wf (hp_masks p k) \<and> c_choice c k \<in> mask_elems (hp_masks p k)) \<and>
     (\<forall>k. 8 \<le> k \<and> k \<le> 19 \<longrightarrow> in_ivl (hp_intervals p k) (c_value c k))"

definition space_size :: "hw_params \<Rightarrow> nat" where
  "space_size p = (\<Sum>k \<le> 2. mask_card (hp_masks p k)) + (\<Sum>k = 8..19. ivl_size (hp_intervals p k))"

definition shrinks :: "hw_params \<Rightarrow> hw_params \<Rightarrow> bool \<Rightarrow> bool" where
  "shrinks p p' changed \<longleftrightarrow>
     (\<forall>c. in_space c p' \<longrightarrow> in_space c p) \<and>
     hp_flags p' = hp_flags p \<and> hp_rmask p' = hp_rmask p \<and>
     space_size p' \<le> space_size p \<and> (changed \<longrightarrow> space_size p' < space_size p)"

lemma in_space_maskD: "in_space c p \<Longrightarrow> k \<le> 2 \<Longrightarrow> mask_wf (hp_masks p k) \<and> c_choice c k \<in> mask_elems (hp_masks p k)"
  by (simp add: in_space_def)

lemma in_space_ivlD: "in_space c p \<Longrightarrow> 8 \<le> k \<Longrightarrow> k \<le> 19 \<Longrightarrow> in_ivl (hp_intervals p k) (c_value c k)"
  by (simp add: in_space_def)

lemma sum_update_less:
  fixes f :: "nat \<Rightarrow> nat"
  assumes "finite A" "k \<in> A"
  shows "b \<le> f k \<Longrightarrow> (\<Sum>j \<in> A. (f(k := b)) j) \<le> (\<Sum>j \<in> A. f j)"
    "b < f k \<Longrightarrow> (\<Sum>j \<in> A. (f(k := b)) j) < (\<Sum>j \<in> A. f j)"
proof -
  have "(\<Sum>j \<in> A. (f(k := b)) j) = b + (\<Sum>j \<in> A - {k}. f j)" and "(\<Sum>j \<in> A. f j) = f k + (\<Sum>j \<in> A - {k}. f j)"
    using assms by (simp_all add: sum.remove)
  then show "b \<le> f k \<Longrightarrow> (\<Sum>j \<in> A. (f(k := b)) j) \<le> (\<Sum>j \<in> A. f j)"
    "b < f k \<Longrightarrow> (\<Sum>j \<in> A. (f(k := b)) j) < (\<Sum>j \<in> A. f j)" by simp_all
qed

lemma set_interval_simps [simp]:
  "hp_masks (set_interval k i p) = hp_masks p"
  "hp_intervals (set_interval k i p) = (hp_intervals p)(k := i)"
  "hp_flags (set_interval k i p) = hp_flags p" "hp_rmask (set_interval k i p) = hp_rmask p"
  by (simp_all add: set_interval_def)

lemma set_mask_simps [simp]:
  "hp_masks (set_mask k i p) = (hp_masks p)(k := i)"
  "hp_intervals (set_mask k i p) = hp_intervals p"
  "hp_flags (set_mask k i p) = hp_flags p" "hp_rmask (set_mask k i p) = hp_rmask p"
  by (simp_all add: set_mask_def)

lemma add_cmask_simps [simp]:
  "hp_masks (add_cmask k p) = hp_masks p" "hp_intervals (add_cmask k p) = hp_intervals p"
  "hp_flags (add_cmask k p) = hp_flags p" "hp_rmask (add_cmask k p) = hp_rmask p"
  by (simp_all add: add_cmask_def)

text \<open>Spaces are compared through their masks and intervals only.\<close>

lemma space_cong:
  assumes "hp_masks p' = hp_masks p" "hp_intervals p' = hp_intervals p"
  shows "in_space c p' = in_space c p" "space_size p' = space_size p"
  using assms by (simp_all add: in_space_def space_size_def)

lemma space_add_cmask [simp]:
  "in_space c (add_cmask k p) = in_space c p" "space_size (add_cmask k p) = space_size p"
  by (rule space_cong; simp)+

lemma size_set_interval:
  assumes "8 \<le> k" "k \<le> 19"
  shows "ivl_size i \<le> ivl_size (hp_intervals p k) \<Longrightarrow> space_size (set_interval k i p) \<le> space_size p"
    "ivl_size i < ivl_size (hp_intervals p k) \<Longrightarrow> space_size (set_interval k i p) < space_size p"
proof -
  have eq: "(\<Sum>j = 8..19. ivl_size (((hp_intervals p)(k := i)) j)) =
    (\<Sum>j = 8..19. ((\<lambda>j. ivl_size (hp_intervals p j))(k := ivl_size i)) j)"
    by (rule sum.cong) simp_all
  show "ivl_size i \<le> ivl_size (hp_intervals p k) \<Longrightarrow> space_size (set_interval k i p) \<le> space_size p"
    "ivl_size i < ivl_size (hp_intervals p k) \<Longrightarrow> space_size (set_interval k i p) < space_size p"
    unfolding space_size_def set_interval_simps eq
    using sum_update_less [of "{8..19}" k "ivl_size i" "\<lambda>j. ivl_size (hp_intervals p j)"] assms by simp_all
qed

lemma size_set_mask:
  assumes "k \<le> 2"
  shows "mask_card m \<le> mask_card (hp_masks p k) \<Longrightarrow> space_size (set_mask k m p) \<le> space_size p"
    "mask_card m < mask_card (hp_masks p k) \<Longrightarrow> space_size (set_mask k m p) < space_size p"
proof -
  have eq: "(\<Sum>j \<le> 2. mask_card (((hp_masks p)(k := m)) j)) =
    (\<Sum>j \<le> 2. ((\<lambda>j. mask_card (hp_masks p j))(k := mask_card m)) j)"
    by (rule sum.cong) simp_all
  show "mask_card m \<le> mask_card (hp_masks p k) \<Longrightarrow> space_size (set_mask k m p) \<le> space_size p"
    "mask_card m < mask_card (hp_masks p k) \<Longrightarrow> space_size (set_mask k m p) < space_size p"
    unfolding space_size_def set_mask_simps eq
    using sum_update_less [of "{..2}" k "mask_card m" "\<lambda>j. mask_card (hp_masks p j)"] assms by simp_all
qed

lemma shrinks_refl [simp]: "shrinks p p False"
  by (simp add: shrinks_def)

lemma shrinks_trans:
  "shrinks p p1 a \<Longrightarrow> shrinks p1 p2 b \<Longrightarrow> shrinks p p2 (a \<or> b)"
  by (auto simp: shrinks_def)

definition contracting :: "(hw_params \<Rightarrow> hw_params \<times> bool res) \<Rightarrow> config \<Rightarrow> hw_params \<Rightarrow> bool" where
  "contracting f c p \<longleftrightarrow>
     (\<exists>p' changed. f p = (p', Inr changed) \<and> in_space c p' \<and> shrinks p p' changed)"

lemma contractingI:
  "f p = (p', Inr changed) \<Longrightarrow> in_space c p' \<Longrightarrow> shrinks p p' changed \<Longrightarrow> contracting f c p"
  by (auto simp: contracting_def)

section \<open>Refining one parameter\<close>

lemma set_interval_shrinks:
  assumes c: "in_space c p" and k: "8 \<le> k" "k \<le> 19" and i: "in_ivl i (c_value c k)"
    and sub: "\<And>y. in_ivl i y \<Longrightarrow> in_ivl (hp_intervals p k) y"
    and size: "ch \<Longrightarrow> ivl_size i < ivl_size (hp_intervals p k)" "ivl_size i \<le> ivl_size (hp_intervals p k)"
  shows "in_space c (set_interval k i p) \<and> shrinks p (set_interval k i p) ch"
proof
  show "in_space c (set_interval k i p)" using c i by (auto simp: in_space_def)
  have "in_space c' p" if c': "in_space c' (set_interval k i p)" for c'
  proof -
    have "in_ivl (hp_intervals p j) (c_value c' j)" if "8 \<le> j" "j \<le> 19" for j
      using in_space_ivlD [OF c' that] sub by (cases "j = k") simp_all
    then show ?thesis using c' by (simp add: in_space_def)
  qed
  then show "shrinks p (set_interval k i p) ch"
    using size_set_interval [OF k] size by (simp add: shrinks_def)
qed

lemma set_mask_shrinks:
  assumes c: "in_space c p" and k: "k \<le> 2" and m: "mask_wf m" "c_choice c k \<in> mask_elems m"
    and sub: "mask_elems m \<subseteq> mask_elems (hp_masks p k)"
    and size: "ch \<Longrightarrow> mask_card m < mask_card (hp_masks p k)" "mask_card m \<le> mask_card (hp_masks p k)"
  shows "in_space c (set_mask k m p) \<and> shrinks p (set_mask k m p) ch"
proof
  show "in_space c (set_mask k m p)" using c m by (auto simp: in_space_def)
  have "in_space c' p" if c': "in_space c' (set_mask k m p)" for c'
  proof -
    have "mask_wf (hp_masks p j) \<and> c_choice c' j \<in> mask_elems (hp_masks p j)" if "j \<le> 2" for j
      using in_space_maskD [OF c' that] in_space_maskD [OF c that] sub by (cases "j = k") auto
    then show ?thesis using c' by (simp add: in_space_def)
  qed
  then show "shrinks p (set_mask k m p) ch"
    using size_set_mask [OF k] size by (simp add: shrinks_def)
qed

lemma refine_var_contracting:
  assumes c: "in_space c p" and k: "8 \<le> k" "k \<le> 19" and t: "in_range t (c_value c k)"
  shows "contracting (refine_var k t) c p"
proof -
  obtain i ch where eq: "snd_interval_refine (hp_intervals p k) t = (i, Inr ch)"
    and i: "in_ivl i (c_value c k)" and mem: "\<And>y. in_ivl i y \<longleftrightarrow> in_ivl (hp_intervals p k) y \<and> in_range t y"
    and size: "ch \<Longrightarrow> ivl_size i < ivl_size (hp_intervals p k)" "ivl_size i \<le> ivl_size (hp_intervals p k)"
    using snd_interval_refine_contract [OF in_space_ivlD [OF c k] t] by metis
  show ?thesis
    using set_interval_shrinks [OF c k i _ size] mem eq by (auto intro!: contractingI simp: refine_var_def)
qed

lemma list_var_contracting:
  assumes c: "in_space c p" and k: "8 \<le> k" "k \<le> 19"
    and w: "c_value c k = rv w" "w \<in> set (admitted (hp_intervals p k) msk 0 xs)"
  shows "contracting (list_var t k xs msk) c p"
proof -
  have ne: "\<not> iv_empty (hp_intervals p k)" using in_space_ivlD [OF c k] by (simp add: in_ivl_def)
  obtain i ch where eq: "snd_interval_list (hp_intervals p k) xs msk t = (i, Inr ch)"
    and i: "in_ivl i (rv w)"
    and mem: "\<And>y. in_ivl i y \<longleftrightarrow> in_ivl (hp_intervals p k) y \<and> in_range (list_range (hp_intervals p k) msk xs t) y"
    and size: "ch \<Longrightarrow> ivl_size i < ivl_size (hp_intervals p k)" "ivl_size i \<le> ivl_size (hp_intervals p k)"
    using snd_interval_list_contract [OF w(2) ne] by metis
  have "in_ivl i (c_value c k)" using i w(1) by simp
  from set_interval_shrinks [OF c k this _ size] mem eq show ?thesis
    by (auto intro!: contractingI simp: list_var_def)
qed

section \<open>The equations behind the rules\<close>

definition ivar :: "int \<Rightarrow> bool" where "ivar v \<longleftrightarrow> 8 \<le> v \<and> v \<le> 19"

definition listed :: "real \<Rightarrow> u32 list \<Rightarrow> u32 \<Rightarrow> bool" where
  "listed x xs msk \<longleftrightarrow> (\<exists>j < length xs. (msk = 0 \<or> bit msk j) \<and> x = rv (xs ! j))"

text \<open>
  When a configuration satisfies a rule. The equations of the arithmetic rules are between exact
  real values. The step and ratio rules and the rules of drivers are admitted by their contract:
  they contract every space with the configuration.
\<close>

definition rule_admits :: "refine_env \<Rightarrow> config \<Rightarrow> hw_rule \<Rightarrow> bool" where
  "rule_admits env c r \<longleftrightarrow>
     (let v = r_var r; d0 = r_deps r ! 0; d1 = r_deps r ! 1;
          x = c_value c (nat v); a = c_value c (nat d0); b = c_value c (nat d1) in
      case r_func r of
        Rule_mul \<Rightarrow> ivar v \<and> ivar d0 \<and> ivar d1 \<and> x = a * b
      | Rule_div \<Rightarrow> ivar v \<and> ivar d0 \<and> ivar d1 \<and> x = a / b
      | Rule_muldivk k \<Rightarrow> ivar v \<and> ivar d0 \<and> ivar d1 \<and> (ucast k :: u32) \<noteq> 0 \<and> x = a * b / rv (ucast k)
      | Rule_mulkdiv k \<Rightarrow> ivar v \<and> ivar d0 \<and> ivar d1 \<and> (ucast k :: u32) \<noteq> 0 \<and> x = a * rv (ucast k) / b
      | Rule_format \<Rightarrow> ivar d0 \<and>
          (case snd_pcm_format_physical_width (int (c_choice c HW_PARAM_FORMAT)) of
             Inr bits \<Rightarrow> a = real bits | Inl _ \<Rightarrow> True)
      | Rule_sample_bits \<Rightarrow> ivar v \<and>
          (case snd_pcm_format_physical_width (int (c_choice c HW_PARAM_FORMAT)) of
             Inr bits \<Rightarrow> x = real bits | Inl _ \<Rightarrow> False)
      | Rule_rate \<Rightarrow> ivar v \<and> listed x snd_pcm_known_rates (hw_rates (env_hw env))
      | Rule_buffer_bytes_max \<Rightarrow> ivar v \<and> x \<in> \<int> \<and> 0 \<le> x \<and> x \<le> rv (ucast (env_buffer_bytes_max env))
      | Rule_list xs msk \<Rightarrow> ivar v \<and> listed x xs msk
      | Rule_pow2 \<Rightarrow> ivar v \<and> listed x pow2_sizes 0
      | Rule_noresample rate \<Rightarrow> c_value c HW_PARAM_RATE = rv (ucast rate)
      | Rule_msbits _ \<Rightarrow> True
      | _ \<Rightarrow> (\<forall>p. in_space c p \<longrightarrow> contracting (rule_call env r) c p))"

definition config_positive :: "config \<Rightarrow> bool" where
  "config_positive c \<longleftrightarrow> (\<forall>k. 8 \<le> k \<and> k \<le> 19 \<longrightarrow> 0 < c_value c k \<and> c_value c k < 4294967295)"

lemma ivar_nat: "ivar v \<Longrightarrow> 8 \<le> nat v \<and> nat v \<le> 19"
  by (auto simp: ivar_def)

lemma ivar_member:
  assumes "in_space c p" "ivar v"
  shows "in_ivl (hp_intervals p (nat v)) (c_value c (nat v))"
  using in_space_ivlD [OF assms(1)] ivar_nat [OF assms(2)] by blast

lemma ivar_value:
  assumes "config_positive c" "ivar v"
  shows "0 < c_value c (nat v)" "c_value c (nat v) < 4294967295"
  using assms(1) ivar_nat [OF assms(2)] by (auto simp: config_positive_def)

lemma in_ivl_range: "in_ivl i x \<Longrightarrow> in_range i x"
  by (simp add: in_ivl_def)

subsection \<open>Arithmetic rules\<close>

lemma rule_mul_contracting:
  assumes c: "in_space c p" "config_positive c" and v: "ivar v" "ivar (deps ! 0)" "ivar (deps ! 1)"
    and eq: "c_value c (nat v) = c_value c (dep deps 0) * c_value c (dep deps 1)"
  shows "contracting (snd_pcm_hw_rule_mul t (nat v) deps) c p"
proof -
  have "in_range (snd_interval_mul (hp_intervals p (dep deps 0)) (hp_intervals p (dep deps 1)) t) (c_value c (nat v))"
    unfolding eq using ivar_value [OF c(2)] v ivar_value(2) [OF c(2) v(1), unfolded eq]
    by (intro in_ivl_range snd_interval_mul_sound ivar_member [OF c(1)]) auto
  then show ?thesis
    using refine_var_contracting [OF c(1)] ivar_nat [OF v(1)]
    by (simp add: snd_pcm_hw_rule_mul_def contracting_def)
qed

lemma rule_div_contracting:
  assumes c: "in_space c p" "config_positive c" and v: "ivar v" "ivar (deps ! 0)" "ivar (deps ! 1)"
    and eq: "c_value c (nat v) = c_value c (dep deps 0) / c_value c (dep deps 1)"
  shows "contracting (snd_pcm_hw_rule_div t (nat v) deps) c p"
proof -
  have "in_range (snd_interval_div (hp_intervals p (dep deps 0)) (hp_intervals p (dep deps 1)) t) (c_value c (nat v))"
    unfolding eq using ivar_value [OF c(2)] v ivar_value(2) [OF c(2) v(1), unfolded eq]
    by (intro in_ivl_range snd_interval_div_sound ivar_member [OF c(1)]) auto
  then show ?thesis
    using refine_var_contracting [OF c(1)] ivar_nat [OF v(1)]
    by (simp add: snd_pcm_hw_rule_div_def contracting_def)
qed

lemma rule_muldivk_contracting:
  assumes c: "in_space c p" "config_positive c" and v: "ivar v" "ivar (deps ! 0)" "ivar (deps ! 1)"
    and k: "(ucast k :: u32) \<noteq> 0"
    and eq: "c_value c (nat v) = c_value c (dep deps 0) * c_value c (dep deps 1) / rv (ucast k)"
  shows "contracting (snd_pcm_hw_rule_muldivk t k (nat v) deps) c p"
proof -
  have "in_range (snd_interval_muldivk (hp_intervals p (dep deps 0)) (hp_intervals p (dep deps 1)) (ucast k) t)
    (c_value c (nat v))"
    unfolding eq using ivar_value [OF c(2)] v ivar_value(2) [OF c(2) v(1), unfolded eq] k
    by (intro in_ivl_range snd_interval_muldivk_sound ivar_member [OF c(1)]) auto
  then show ?thesis
    using refine_var_contracting [OF c(1)] ivar_nat [OF v(1)]
    by (simp add: snd_pcm_hw_rule_muldivk_def contracting_def)
qed

lemma rule_mulkdiv_contracting:
  assumes c: "in_space c p" "config_positive c" and v: "ivar v" "ivar (deps ! 0)" "ivar (deps ! 1)"
    and k: "(ucast k :: u32) \<noteq> 0"
    and eq: "c_value c (nat v) = c_value c (dep deps 0) * rv (ucast k) / c_value c (dep deps 1)"
  shows "contracting (snd_pcm_hw_rule_mulkdiv t k (nat v) deps) c p"
proof -
  have "in_range (snd_interval_mulkdiv (hp_intervals p (dep deps 0)) (ucast k) (hp_intervals p (dep deps 1)) t)
    (c_value c (nat v))"
    unfolding eq using ivar_value [OF c(2)] v ivar_value(2) [OF c(2) v(1), unfolded eq] k
    by (intro in_ivl_range snd_interval_mulkdiv_sound ivar_member [OF c(1)]) auto
  then show ?thesis
    using refine_var_contracting [OF c(1)] ivar_nat [OF v(1)]
    by (simp add: snd_pcm_hw_rule_mulkdiv_def contracting_def)
qed

subsection \<open>Format rules\<close>

lemma fold_reset_elems:
  assumes "mask_wf m"
  shows "mask_wf (fold (\<lambda>k m. if P k then snd_mask_reset m k else m) ks m) \<and>
    (i \<in> mask_elems (fold (\<lambda>k m. if P k then snd_mask_reset m k else m) ks m) \<longleftrightarrow>
     i \<in> mask_elems m \<and> \<not> (i \<in> set ks \<and> P i))"
  using assms by (induction ks arbitrary: m) (auto simp: snd_mask_reset_elems)

lemma snd_mask_any_wf: "mask_wf m \<Longrightarrow> mask_wf (snd_mask_any m)"
  by (simp add: snd_mask_any_def mask_wf_def)

lemma snd_mask_any_elems: "mask_wf m \<Longrightarrow> mask_elems (snd_mask_any m) = {..<64}"
proof -
  assume "mask_wf m"
  have "bit (0xFFFFFFFF :: u32) n" if "n < 32" for n
  proof -
    have "(0xFFFFFFFF :: u32) = mask 32" by (simp add: mask_eq_exp_minus_1)
    then show ?thesis using that by (simp only: bit_mask_iff) simp
  qed
  moreover have "snd_mask_any m ! (x div 32) = UINT_MAX" if "x < 64" for x
    using div_32_cases [OF that] by (auto simp: snd_mask_any_def numeral_2_eq_2)
  ultimately show ?thesis by (auto simp: mask_elems_iff)
qed

definition outside_width :: "snd_interval \<Rightarrow> nat \<Rightarrow> bool" where
  "outside_width i k \<longleftrightarrow> (case snd_pcm_format_physical_width (int k) of
     Inl _ \<Rightarrow> False | Inr bits \<Rightarrow> bits < unat (iv_min i) \<or> bits > unat (iv_max i))"

lemma rule_format_contracting:
  assumes c: "in_space c p" and stack: "mask_wf stack" and v: "ivar (deps ! 0)"
    and eq: "\<And>bits. snd_pcm_format_physical_width (int (c_choice c HW_PARAM_FORMAT)) = Inr bits \<Longrightarrow>
      c_value c (dep deps 0) = real bits"
  shows "contracting (snd_pcm_hw_rule_format stack deps) c p"
proof -
  let ?i = "hp_intervals p (dep deps 0)" and ?msk = "hp_masks p HW_PARAM_FORMAT" and ?k = "c_choice c HW_PARAM_FORMAT"
  define P where "P k \<longleftrightarrow> snd_mask_test ?msk k \<and> outside_width ?i k" for k
  define m where "m = fold (\<lambda>k m. if P k then snd_mask_reset m k else m) [0..<50] (snd_mask_any stack)"
  have msk: "mask_wf ?msk" "?k \<in> mask_elems ?msk" using in_space_maskD [OF c, of 1] by simp_all
  have "\<not> outside_width ?i ?k"
    using in_ivlD(2,4) [OF ivar_member [OF c v]] eq
    by (auto simp: outside_width_def split: sum.split)
  then have "?k \<in> mask_elems m"
    using fold_reset_elems [OF snd_mask_any_wf [OF stack], of P "[0..<50]" ?k] msk(2)
    by (auto simp: m_def P_def snd_mask_any_elems [OF stack] mask_elems_iff)
  then obtain m' ch where m': "snd_mask_refine ?msk m = (m', Inr ch)" "mask_wf m'" "?k \<in> mask_elems m'"
    "mask_elems m' = mask_elems ?msk \<inter> mask_elems m"
    "ch \<Longrightarrow> mask_card m' < mask_card ?msk" "mask_card m' \<le> mask_card ?msk"
    using snd_mask_refine_contract [OF msk] by metis
  have "(\<lambda>k m. if \<not> snd_mask_test ?msk k then m
          else case snd_pcm_format_physical_width (int k) of Inl _ \<Rightarrow> m
               | Inr bits \<Rightarrow> if bits < unat (iv_min ?i) \<or> bits > unat (iv_max ?i) then snd_mask_reset m k else m) =
        (\<lambda>k m. if P k then snd_mask_reset m k else m)"
    by (auto simp: fun_eq_iff P_def outside_width_def split: sum.split)
  then have "snd_pcm_hw_rule_format stack deps p = (set_mask HW_PARAM_FORMAT m' p, Inr ch)"
    using m'(1) by (simp add: snd_pcm_hw_rule_format_def Let_def m_def)
  moreover have "in_space c (set_mask 1 m' p) \<and> shrinks p (set_mask 1 m' p) ch"
    using m' by (intro set_mask_shrinks [OF c]) auto
  ultimately show ?thesis by (auto intro: contractingI)
qed

definition width_bounds :: "snd_mask \<Rightarrow> nat \<Rightarrow> u32 \<times> u32 \<Rightarrow> u32 \<times> u32" where
  "width_bounds msk k = (\<lambda>(lo, hi).
     if \<not> snd_mask_test msk k then (lo, hi)
     else case snd_pcm_format_physical_width (int k) of
            Inl _ \<Rightarrow> (lo, hi)
          | Inr bits \<Rightarrow> (if unat lo > bits then of_nat bits else lo,
                        if unat hi < bits then of_nat bits else hi))"

lemma phys_width_small: "snd_pcm_format_physical_width f = Inr bits \<Longrightarrow> bits \<le> 64 \<and> f \<le> 49 \<and> 0 \<le> f"
proof -
  assume a: "snd_pcm_format_physical_width f = Inr bits"
  then have t: "format_in_table f" by (auto simp: snd_pcm_format_physical_width_def split: if_splits)
  have "list_all (\<lambda>f. fd_phys (pcm_formats ! nat f) \<le> 64) [0..49]" by code_simp
  from format_cases [OF t this] show ?thesis
    using a t by (auto simp: snd_pcm_format_physical_width_def Let_def format_in_table_def
        SNDRV_PCM_FORMAT_LAST_def split: if_splits)
qed

lemma width_bounds_mono:
  "unat (fst (width_bounds msk k b)) \<le> unat (fst b) \<and> unat (snd b) \<le> unat (snd (width_bounds msk k b))"
  by (auto simp: width_bounds_def unat_of_nat32 split: prod.splits sum.splits dest!: phys_width_small)

lemma width_bounds_fold_mono:
  "unat (fst (fold (width_bounds msk) ks b)) \<le> unat (fst b) \<and> unat (snd b) \<le> unat (snd (fold (width_bounds msk) ks b))"
proof (induction ks arbitrary: b)
  case (Cons k ks)
  show ?case using Cons.IH [of "width_bounds msk k b"] width_bounds_mono [of msk k b] by simp
qed simp

lemma width_bounds_fold:
  assumes "k \<in> set ks" "snd_mask_test msk k" "snd_pcm_format_physical_width (int k) = Inr bits"
  shows "unat (fst (fold (width_bounds msk) ks b)) \<le> bits \<and> bits \<le> unat (snd (fold (width_bounds msk) ks b))"
  using assms(1)
proof (induction ks arbitrary: b)
  case (Cons j ks)
  show ?case
  proof (cases "j = k")
    case True
    have "unat (fst (width_bounds msk k b)) \<le> bits \<and> bits \<le> unat (snd (width_bounds msk k b))"
      using assms(2,3) phys_width_small [OF assms(3)]
      by (auto simp: width_bounds_def unat_of_nat32 split: prod.splits)
    then show ?thesis using True width_bounds_fold_mono [of msk ks "width_bounds msk k b"] by simp
  qed (use Cons in simp)
qed simp

lemma rule_sample_bits_contracting:
  assumes c: "in_space c p" and v: "ivar v"
    and w: "snd_pcm_format_physical_width (int (c_choice c HW_PARAM_FORMAT)) = Inr bits"
    and eq: "c_value c (nat v) = real bits"
  shows "contracting (snd_pcm_hw_rule_sample_bits stack (nat v)) c p"
proof -
  let ?msk = "hp_masks p HW_PARAM_FORMAT" and ?k = "c_choice c HW_PARAM_FORMAT"
  obtain lo hi where b: "fold (width_bounds ?msk) [0..<50] (UINT_MAX, 0) = (lo, hi)"
    by (cases "fold (width_bounds ?msk) [0..<50] (UINT_MAX, 0)")
  have k: "?k \<in> set [0..<50]" using phys_width_small [OF w] by simp
  have "snd_mask_test ?msk ?k" using in_space_maskD [OF c, of 1] by (simp add: mask_elems_def)
  from width_bounds_fold [OF k this w, of "(UINT_MAX, 0)"]
  have "unat lo \<le> bits" "bits \<le> unat hi" by (simp_all only: b fst_conv snd_conv)
  then have "in_range (stack\<lparr>iv_min := lo, iv_max := hi, openmin := False, openmax := False, iv_integer := True\<rparr>)
     (c_value c (nat v))" by (simp add: eq ivl_mem_defs)
  from refine_var_contracting [OF c _ _ this] show ?thesis
    using ivar_nat [OF v] b
    by (simp add: contracting_def snd_pcm_hw_rule_sample_bits_def width_bounds_def [abs_def])
qed

subsection \<open>All rules\<close>

lemma listed_admitted:
  assumes c: "in_space c p" and v: "ivar v" and l: "listed (c_value c (nat v)) xs msk"
  obtains w where "c_value c (nat v) = rv w" "w \<in> set (admitted (hp_intervals p (nat v)) msk 0 xs)"
proof -
  obtain j where j: "j < length xs" "msk = 0 \<or> bit msk j" "c_value c (nat v) = rv (xs ! j)"
    using l by (auto simp: listed_def)
  have m: "in_ivl (hp_intervals p (nat v)) (rv (xs ! j))"
    using ivar_member [OF c v] j(3) by simp
  then have "snd_interval_test (hp_intervals p (nat v)) (xs ! j)"
    by (simp add: test_in_ivl in_ivlD(1) [OF m])
  then have "xs ! j \<in> set (admitted (hp_intervals p (nat v)) msk 0 xs)"
    using j(1,2) admittedI [of "xs ! j" xs msk] admitted_nthI [of j xs msk 0] by auto
  then show ?thesis using that j(3) by blast
qed

lemma listed_contracting:
  assumes "in_space c p" "ivar v" "listed (c_value c (nat v)) xs msk"
  shows "contracting (list_var t (nat v) xs msk) c p"
proof -
  obtain w where "c_value c (nat v) = rv w" "w \<in> set (admitted (hp_intervals p (nat v)) msk 0 xs)"
    using listed_admitted [OF assms] .
  then show ?thesis using list_var_contracting [OF assms(1)] ivar_nat [OF assms(2)] by blast
qed

lemma rule_buffer_bytes_max_contracting:
  assumes c: "in_space c p" and v: "ivar v"
    and x: "c_value c (nat v) \<in> \<int>" "0 \<le> c_value c (nat v)" "c_value c (nat v) \<le> rv (ucast bytes_max)"
  shows "contracting (snd_pcm_hw_rule_buffer_bytes_max t bytes_max (nat v)) c p"
proof -
  have "in_range (t\<lparr>iv_min := 0, iv_max := ucast bytes_max, openmin := False, openmax := False,
      iv_integer := True\<rparr>) (c_value c (nat v))"
    using x by (simp add: ivl_mem_defs)
  then show ?thesis
    using refine_var_contracting [OF c] ivar_nat [OF v]
    by (simp add: contracting_def snd_pcm_hw_rule_buffer_bytes_max_def)
qed

lemma rule_msbits_contracting:
  assumes c: "in_space c p" shows "contracting (snd_pcm_hw_rule_msbits l) c p"
proof -
  obtain p' where p': "snd_pcm_hw_rule_msbits l p = (p', Inr False)"
    and eq: "hp_masks p' = hp_masks p" "hp_intervals p' = hp_intervals p" "hp_flags p' = hp_flags p"
      "hp_rmask p' = hp_rmask p"
    by (simp add: snd_pcm_hw_rule_msbits_def Let_def)
  then show ?thesis using c by (intro contractingI [where f = "snd_pcm_hw_rule_msbits l", OF p']) (simp_all add: shrinks_def space_cong [OF eq(1,2)])
qed

definition env_wf :: "refine_env \<Rightarrow> bool" where
  "env_wf env \<longleftrightarrow> mask_wf (env_stack_mask env)"

lemma rule_call_contracting:
  assumes env: "env_wf env" and pos: "config_positive c" and adm: "rule_admits env c r" and c: "in_space c p"
  shows "contracting (rule_call env r) c p"
proof (cases "r_func r")
  case Rule_format
  then have "contracting (snd_pcm_hw_rule_format (env_stack_mask env) (r_deps r)) c p"
    using adm env c by (intro rule_format_contracting) (auto simp: rule_admits_def env_wf_def Let_def)
  then show ?thesis by (simp add: contracting_def rule_call_def Rule_format Let_def)
next
  case Rule_sample_bits
  then obtain bits where "snd_pcm_format_physical_width (int (c_choice c HW_PARAM_FORMAT)) = Inr bits"
    "c_value c (nat (r_var r)) = real bits" "ivar (r_var r)"
    using adm by (auto simp: rule_admits_def Let_def split: sum.splits)
  from rule_sample_bits_contracting [OF c this(3,1,2)]
  show ?thesis by (simp add: contracting_def rule_call_def Rule_sample_bits Let_def)
next
  case Rule_mul
  from rule_mul_contracting [OF c pos] Rule_mul adm
  show ?thesis by (simp add: contracting_def rule_call_def rule_admits_def Let_def)
next
  case Rule_div
  from rule_div_contracting [OF c pos] Rule_div adm
  show ?thesis by (simp add: contracting_def rule_call_def rule_admits_def Let_def)
next
  case (Rule_muldivk k)
  from rule_muldivk_contracting [OF c pos] Rule_muldivk adm
  show ?thesis by (simp add: contracting_def rule_call_def rule_admits_def Let_def)
next
  case (Rule_mulkdiv k)
  from rule_mulkdiv_contracting [OF c pos] Rule_mulkdiv adm
  show ?thesis by (simp add: contracting_def rule_call_def rule_admits_def Let_def)
next
  case Rule_rate
  then have "contracting (list_var (env_stack_interval env) (nat (r_var r)) snd_pcm_known_rates (hw_rates (env_hw env))) c p"
    using adm c by (intro listed_contracting) (simp_all add: rule_admits_def Let_def)
  then show ?thesis by (simp add: contracting_def rule_call_def Rule_rate snd_pcm_hw_rule_rate_def Let_def)
next
  case Rule_buffer_bytes_max
  then have "contracting (snd_pcm_hw_rule_buffer_bytes_max (env_stack_interval env) (env_buffer_bytes_max env) (nat (r_var r))) c p"
    using adm c by (intro rule_buffer_bytes_max_contracting) (simp_all add: rule_admits_def Let_def)
  then show ?thesis by (simp add: contracting_def rule_call_def Rule_buffer_bytes_max Let_def)
next
  case (Rule_list xs msk)
  then have "contracting (list_var (env_stack_interval env) (nat (r_var r)) xs msk) c p"
    using adm c by (intro listed_contracting) (simp_all add: rule_admits_def Let_def)
  then show ?thesis by (simp add: contracting_def rule_call_def Rule_list Let_def)
next
  case Rule_pow2
  then have "contracting (list_var (env_stack_interval env) (nat (r_var r)) pow2_sizes 0) c p"
    using adm c by (intro listed_contracting) (simp_all add: rule_admits_def Let_def)
  then show ?thesis by (simp add: contracting_def rule_call_def Rule_pow2 snd_pcm_hw_rule_pow2_def Let_def)
next
  case (Rule_noresample rate)
  then have "listed (c_value c (nat 11)) [ucast rate] 0"
    using adm by (simp add: rule_admits_def Let_def listed_def)
  then have "contracting (list_var (env_stack_interval env) (nat 11) [ucast rate] 0) c p"
    using c by (intro listed_contracting) (simp_all add: ivar_def)
  then show ?thesis
    by (simp add: contracting_def rule_call_def Rule_noresample snd_pcm_hw_rule_noresample_func_def Let_def)
next
  case (Rule_msbits l)
  then show ?thesis using rule_msbits_contracting [OF c, of l]
    by (simp add: contracting_def rule_call_def Let_def)
qed (use adm c in \<open>auto simp: rule_admits_def Let_def\<close>)

end
