(* ===== verification/Pcm_Constraints.thy ===== *)
theory Pcm_Constraints
  imports Pcm_Refine
begin

text \<open>
  Building the constraints of a stream (\<open>snd_pcm_hw_rule_add\<close>, \<open>snd_pcm_hw_constraint_*\<close>,
  \<open>snd_pcm_hw_constraints_init\<close> and \<open>_complete\<close>) and picking one configuration
  (\<open>snd_pcm_hw_param_first\<close>, \<open>_last\<close>, \<open>snd_pcm_hw_params_choose\<close>), from \<open>sound/core/pcm_lib.c\<close>
  and \<open>sound/core/pcm_native.c\<close>. The functions update \<open>runtime->hw_constraints\<close>. Whether an
  allocation of a rule array of a given length succeeds is the parameter \<open>alloc\<close>.
\<close>

type_synonym 'a cs_res = "hw_constraints \<times> 'a res"

text \<open>\<open>err = f(...); if (err < 0) return err;\<close> followed by the rest.\<close>

definition and_then :: "'a cs_res \<Rightarrow> (hw_constraints \<Rightarrow> 'b cs_res) \<Rightarrow> 'b cs_res" where
  "and_then m f = (case m of (cs, Inl e) \<Rightarrow> (cs, Inl e) | (cs, Inr _) \<Rightarrow> f cs)"

lemma and_then_simps [simp]:
  "and_then (cs, Inl e) f = (cs, Inl e)" "and_then (cs, Inr x) f = f cs"
  by (simp_all add: and_then_def)

section \<open>Adding a rule\<close>

text \<open>The arguments \<open>dep, ...\<close> up to and with the first negative one; the array holds four.\<close>

definition collect_deps :: "int list \<Rightarrow> int list option" where
  "collect_deps args =
     (let n = length (takeWhile (\<lambda>d. d \<ge> 0) args)
      in if n \<ge> 4 then None else Some (take (n + 1) args))"

definition snd_pcm_hw_rule_add ::
  "(u32 \<Rightarrow> bool) \<Rightarrow> u32 \<Rightarrow> int \<Rightarrow> hw_rule_func \<Rightarrow> int list \<Rightarrow> hw_constraints \<Rightarrow> unit cs_res" where
  "snd_pcm_hw_rule_add alloc cond var func args cs =
     (let new_rules = hc_rules_all cs + 16;
          full = (of_nat (length (hc_rules cs)) \<ge> hc_rules_all cs)
      in if full \<and> \<not> alloc new_rules then (cs, Inl ENOMEM)
         else let cs1 = (if full then cs\<lparr>hc_rules_all := new_rules\<rparr> else cs)
              in case collect_deps args of
                   None \<Rightarrow> (cs1, Inl EINVAL)
                 | Some deps \<Rightarrow>
                     (cs1\<lparr>hc_rules := hc_rules cs1 @
                            [\<lparr>r_cond = cond, r_func = func, r_var = var, r_deps = deps\<rparr>]\<rparr>, Inr ()))"

section \<open>Constraints on one parameter\<close>

definition set_cs_mask :: "nat \<Rightarrow> snd_mask \<Rightarrow> hw_constraints \<Rightarrow> hw_constraints" where
  "set_cs_mask k m cs = cs\<lparr>hc_masks := (hc_masks cs)(k := m)\<rparr>"

definition set_cs_interval :: "nat \<Rightarrow> snd_interval \<Rightarrow> hw_constraints \<Rightarrow> hw_constraints" where
  "set_cs_interval k i cs = cs\<lparr>hc_intervals := (hc_intervals cs)(k := i)\<rparr>"

definition snd_pcm_hw_constraint_mask :: "nat \<Rightarrow> u32 \<Rightarrow> hw_constraints \<Rightarrow> unit cs_res" where
  "snd_pcm_hw_constraint_mask var msk cs =
     (let b0 = hc_masks cs var ! 0 AND msk; m = b0 # replicate 7 0
      in (set_cs_mask var m cs, if b0 = 0 then Inl EINVAL else Inr ()))"

definition snd_pcm_hw_constraint_mask64 :: "nat \<Rightarrow> u64 \<Rightarrow> hw_constraints \<Rightarrow> unit cs_res" where
  "snd_pcm_hw_constraint_mask64 var msk cs =
     (let b0 = hc_masks cs var ! 0 AND ucast msk;
          b1 = hc_masks cs var ! 1 AND ucast (drop_bit 32 msk);
          m = b0 # b1 # replicate 6 0
      in (set_cs_mask var m cs, if b0 = 0 \<and> b1 = 0 then Inl EINVAL else Inr ()))"

definition snd_pcm_hw_constraint_integer :: "nat \<Rightarrow> hw_constraints \<Rightarrow> bool cs_res" where
  "snd_pcm_hw_constraint_integer var cs =
     (let (i, res) = snd_interval_setinteger (hc_intervals cs var) in (set_cs_interval var i cs, res))"

definition snd_pcm_hw_constraint_minmax ::
  "snd_interval \<Rightarrow> nat \<Rightarrow> u32 \<Rightarrow> u32 \<Rightarrow> hw_constraints \<Rightarrow> bool cs_res" where
  "snd_pcm_hw_constraint_minmax stack var mn mx cs =
     (let t = stack\<lparr>iv_min := mn, iv_max := mx, openmin := False, openmax := False, iv_integer := False\<rparr>;
          (i, res) = snd_interval_refine (hc_intervals cs var) t
      in (set_cs_interval var i cs, res))"

definition snd_pcm_hw_constraint_list ::
  "(u32 \<Rightarrow> bool) \<Rightarrow> u32 \<Rightarrow> nat \<Rightarrow> u32 list \<Rightarrow> u32 \<Rightarrow> hw_constraints \<Rightarrow> unit cs_res" where
  "snd_pcm_hw_constraint_list alloc cond var xs msk =
     snd_pcm_hw_rule_add alloc cond (int var) (Rule_list xs msk) [int var, -1]"

definition snd_pcm_hw_constraint_ratnums ::
  "(u32 \<Rightarrow> bool) \<Rightarrow> u32 \<Rightarrow> nat \<Rightarrow> snd_ratnum list \<Rightarrow> hw_constraints \<Rightarrow> unit cs_res" where
  "snd_pcm_hw_constraint_ratnums alloc cond var rats =
     snd_pcm_hw_rule_add alloc cond (int var) (Rule_ratnums rats) [int var, -1]"

definition snd_pcm_hw_constraint_ratdens ::
  "(u32 \<Rightarrow> bool) \<Rightarrow> u32 \<Rightarrow> nat \<Rightarrow> snd_ratden list \<Rightarrow> hw_constraints \<Rightarrow> unit cs_res" where
  "snd_pcm_hw_constraint_ratdens alloc cond var rats =
     snd_pcm_hw_rule_add alloc cond (int var) (Rule_ratdens rats) [int var, -1]"

definition snd_pcm_hw_constraint_msbits ::
  "(u32 \<Rightarrow> bool) \<Rightarrow> u32 \<Rightarrow> u32 \<Rightarrow> u32 \<Rightarrow> hw_constraints \<Rightarrow> unit cs_res" where
  "snd_pcm_hw_constraint_msbits alloc cond width msbits =
     (let l = ucast (push_bit 16 msbits OR width) :: u64
      in snd_pcm_hw_rule_add alloc cond (-1) (Rule_msbits l) [int HW_PARAM_SAMPLE_BITS, -1])"

definition snd_pcm_hw_constraint_step ::
  "(u32 \<Rightarrow> bool) \<Rightarrow> u32 \<Rightarrow> nat \<Rightarrow> u64 \<Rightarrow> hw_constraints \<Rightarrow> unit cs_res" where
  "snd_pcm_hw_constraint_step alloc cond var step =
     snd_pcm_hw_rule_add alloc cond (int var) (Rule_step step) [int var, -1]"

definition snd_pcm_hw_constraint_pow2 ::
  "(u32 \<Rightarrow> bool) \<Rightarrow> u32 \<Rightarrow> nat \<Rightarrow> hw_constraints \<Rightarrow> unit cs_res" where
  "snd_pcm_hw_constraint_pow2 alloc cond var =
     snd_pcm_hw_rule_add alloc cond (int var) Rule_pow2 [int var, -1]"

definition snd_pcm_hw_rule_noresample :: "(u32 \<Rightarrow> bool) \<Rightarrow> u32 \<Rightarrow> hw_constraints \<Rightarrow> unit cs_res" where
  "snd_pcm_hw_rule_noresample alloc base_rate =
     snd_pcm_hw_rule_add alloc SNDRV_PCM_HW_PARAMS_NORESAMPLE (int HW_PARAM_RATE)
       (Rule_noresample (ucast base_rate)) [int HW_PARAM_RATE, -1]"

section \<open>The constraints of a new stream\<close>

definition constraints_any :: "hw_constraints \<Rightarrow> hw_constraints" where
  "constraints_any cs =
     fold (\<lambda>k cs. set_cs_interval k (snd_interval_any (hc_intervals cs k)) cs) interval_params
       (fold (\<lambda>k cs. set_cs_mask k (snd_mask_any (hc_masks cs k)) cs) mask_params cs)"

definition constraints_setinteger :: "hw_constraints \<Rightarrow> hw_constraints" where
  "constraints_setinteger cs =
     fold (\<lambda>k cs. set_cs_interval k (fst (snd_interval_setinteger (hc_intervals cs k))) cs)
       [HW_PARAM_CHANNELS, HW_PARAM_BUFFER_SIZE, HW_PARAM_BUFFER_BYTES, HW_PARAM_SAMPLE_BITS,
        HW_PARAM_FRAME_BITS] cs"

text \<open>The twenty calls of \<open>snd_pcm_hw_rule_add\<close> in \<open>snd_pcm_hw_constraints_init\<close>: variable,
  function, dependencies.\<close>

definition init_rules :: "(nat \<times> hw_rule_func \<times> nat list) list" where
  "init_rules =
    [(HW_PARAM_FORMAT, Rule_format, [HW_PARAM_SAMPLE_BITS]),
     (HW_PARAM_SAMPLE_BITS, Rule_sample_bits, [HW_PARAM_FORMAT, HW_PARAM_SAMPLE_BITS]),
     (HW_PARAM_SAMPLE_BITS, Rule_div, [HW_PARAM_FRAME_BITS, HW_PARAM_CHANNELS]),
     (HW_PARAM_FRAME_BITS, Rule_mul, [HW_PARAM_SAMPLE_BITS, HW_PARAM_CHANNELS]),
     (HW_PARAM_FRAME_BITS, Rule_mulkdiv 8, [HW_PARAM_PERIOD_BYTES, HW_PARAM_PERIOD_SIZE]),
     (HW_PARAM_FRAME_BITS, Rule_mulkdiv 8, [HW_PARAM_BUFFER_BYTES, HW_PARAM_BUFFER_SIZE]),
     (HW_PARAM_CHANNELS, Rule_div, [HW_PARAM_FRAME_BITS, HW_PARAM_SAMPLE_BITS]),
     (HW_PARAM_RATE, Rule_mulkdiv 1000000, [HW_PARAM_PERIOD_SIZE, HW_PARAM_PERIOD_TIME]),
     (HW_PARAM_RATE, Rule_mulkdiv 1000000, [HW_PARAM_BUFFER_SIZE, HW_PARAM_BUFFER_TIME]),
     (HW_PARAM_PERIODS, Rule_div, [HW_PARAM_BUFFER_SIZE, HW_PARAM_PERIOD_SIZE]),
     (HW_PARAM_PERIOD_SIZE, Rule_div, [HW_PARAM_BUFFER_SIZE, HW_PARAM_PERIODS]),
     (HW_PARAM_PERIOD_SIZE, Rule_mulkdiv 8, [HW_PARAM_PERIOD_BYTES, HW_PARAM_FRAME_BITS]),
     (HW_PARAM_PERIOD_SIZE, Rule_muldivk 1000000, [HW_PARAM_PERIOD_TIME, HW_PARAM_RATE]),
     (HW_PARAM_BUFFER_SIZE, Rule_mul, [HW_PARAM_PERIOD_SIZE, HW_PARAM_PERIODS]),
     (HW_PARAM_BUFFER_SIZE, Rule_mulkdiv 8, [HW_PARAM_BUFFER_BYTES, HW_PARAM_FRAME_BITS]),
     (HW_PARAM_BUFFER_SIZE, Rule_muldivk 1000000, [HW_PARAM_BUFFER_TIME, HW_PARAM_RATE]),
     (HW_PARAM_PERIOD_BYTES, Rule_muldivk 8, [HW_PARAM_PERIOD_SIZE, HW_PARAM_FRAME_BITS]),
     (HW_PARAM_BUFFER_BYTES, Rule_muldivk 8, [HW_PARAM_BUFFER_SIZE, HW_PARAM_FRAME_BITS]),
     (HW_PARAM_PERIOD_TIME, Rule_mulkdiv 1000000, [HW_PARAM_PERIOD_SIZE, HW_PARAM_RATE]),
     (HW_PARAM_BUFFER_TIME, Rule_mulkdiv 1000000, [HW_PARAM_BUFFER_SIZE, HW_PARAM_RATE])]"

fun add_rules ::
  "(u32 \<Rightarrow> bool) \<Rightarrow> (nat \<times> hw_rule_func \<times> nat list) list \<Rightarrow> hw_constraints \<Rightarrow> unit cs_res" where
  "add_rules alloc [] cs = (cs, Inr ())"
| "add_rules alloc ((var, f, deps) # rs) cs =
     and_then (snd_pcm_hw_rule_add alloc 0 (int var) f (map int deps @ [-1]) cs) (add_rules alloc rs)"

definition snd_pcm_hw_constraints_init :: "(u32 \<Rightarrow> bool) \<Rightarrow> hw_constraints \<Rightarrow> unit cs_res" where
  "snd_pcm_hw_constraints_init alloc cs =
     add_rules alloc init_rules (constraints_setinteger (constraints_any cs))"

definition access_mask :: "u32 \<Rightarrow> u32" where
  "access_mask info =
     (let il = (info AND INFO_INTERLEAVED \<noteq> 0); nil = (info AND INFO_NONINTERLEAVED \<noteq> 0);
          m1 = (if il then var_flag 3 else 0);
          m2 = (if nil then m1 OR var_flag 4 else m1)
      in if info AND INFO_MMAP \<noteq> 0 then
           (let m3 = (if il then m2 OR var_flag 0 else m2);
                m4 = (if nil then m3 OR var_flag 1 else m3)
            in if info AND INFO_COMPLEX \<noteq> 0 then m4 OR var_flag 2 else m4)
         else m2)"

definition snd_pcm_hw_constraints_complete ::
  "(u32 \<Rightarrow> bool) \<Rightarrow> snd_interval \<Rightarrow> pcm_hardware \<Rightarrow> u64 \<Rightarrow> hw_constraints \<Rightarrow> unit cs_res" where
  "snd_pcm_hw_constraints_complete alloc stack hw dma_bytes cs =
     and_then (snd_pcm_hw_constraint_mask HW_PARAM_ACCESS (access_mask (hw_info hw)) cs) (\<lambda>cs.
     and_then (snd_pcm_hw_constraint_mask64 HW_PARAM_FORMAT (hw_formats hw) cs) (\<lambda>cs.
     and_then (snd_pcm_hw_constraint_mask HW_PARAM_SUBFORMAT (var_flag 0) cs) (\<lambda>cs.
     and_then (snd_pcm_hw_constraint_minmax stack HW_PARAM_CHANNELS
                 (hw_channels_min hw) (hw_channels_max hw) cs) (\<lambda>cs.
     and_then (snd_pcm_hw_constraint_minmax stack HW_PARAM_RATE
                 (hw_rate_min hw) (hw_rate_max hw) cs) (\<lambda>cs.
     and_then (snd_pcm_hw_constraint_minmax stack HW_PARAM_PERIOD_BYTES
                 (ucast (hw_period_bytes_min hw)) (ucast (hw_period_bytes_max hw)) cs) (\<lambda>cs.
     and_then (snd_pcm_hw_constraint_minmax stack HW_PARAM_PERIODS
                 (hw_periods_min hw) (hw_periods_max hw) cs) (\<lambda>cs.
     and_then (snd_pcm_hw_constraint_minmax stack HW_PARAM_BUFFER_BYTES
                 (ucast (hw_period_bytes_min hw)) (ucast (hw_buffer_bytes_max hw)) cs) (\<lambda>cs.
     and_then (snd_pcm_hw_rule_add alloc 0 (int HW_PARAM_BUFFER_BYTES) Rule_buffer_bytes_max
                 [int HW_PARAM_BUFFER_BYTES, -1] cs) (\<lambda>cs.
     and_then (if dma_bytes \<noteq> 0
               then snd_pcm_hw_constraint_minmax stack HW_PARAM_BUFFER_BYTES 0 (ucast dma_bytes) cs
               else (cs, Inr False)) (\<lambda>cs.
     and_then (if hw_rates hw AND (SNDRV_PCM_RATE_KNOT OR SNDRV_PCM_RATE_CONTINUOUS) = 0
               then snd_pcm_hw_rule_add alloc 0 (int HW_PARAM_RATE) Rule_rate [int HW_PARAM_RATE, -1] cs
               else (cs, Inr ())) (\<lambda>cs.
     (fst (snd_pcm_hw_constraint_integer HW_PARAM_PERIOD_SIZE cs), Inr ()))))))))))))"

section \<open>Choosing a configuration\<close>

text \<open>\<open>snd_BUG\<close> for a number that is no parameter only prints a warning.\<close>

definition snd_pcm_hw_param_any :: "nat \<Rightarrow> hw_params \<Rightarrow> hw_params" where
  "snd_pcm_hw_param_any var p =
     (if hw_is_mask var then add_crmask var (set_mask var (snd_mask_any (hp_masks p var)) p)
      else if hw_is_interval var
      then add_crmask var (set_interval var (snd_interval_any (hp_intervals p var)) p)
      else p)"

definition zero_interval :: snd_interval where
  "zero_interval = \<lparr>iv_min = 0, iv_max = 0, openmin = False, openmax = False,
                    iv_integer = False, iv_empty = False\<rparr>"

definition zero_params :: hw_params where
  "zero_params = \<lparr>hp_flags = 0, hp_masks = (\<lambda>_. replicate 8 0), hp_intervals = (\<lambda>_. zero_interval),
     hp_rmask = 0, hp_cmask = 0, hp_info = 0, hp_msbits = 0, hp_rate_num = 0, hp_rate_den = 0,
     hp_fifo_size = 0\<rparr>"

definition snd_pcm_hw_params_any :: hw_params where
  "snd_pcm_hw_params_any =
     (fold snd_pcm_hw_param_any interval_params (fold snd_pcm_hw_param_any mask_params zero_params))
       \<lparr>hp_info := 0xFFFFFFFF\<rparr>"

text \<open>The value is returned as an \<open>int\<close>: one that does not fit is negative, and callers take it for
  an error code.\<close>

definition c_int_result :: "u32 \<Rightarrow> u32 res" where
  "c_int_result w = (if sint w < 0 then Inl (EDRIVER (unat (- w))) else Inr w)"

definition snd_pcm_hw_param_value :: "hw_params \<Rightarrow> nat \<Rightarrow> (u32 \<times> bool) res" where
  "snd_pcm_hw_param_value p var =
     (if hw_is_mask var then
        (let m = hp_masks p var
         in if \<not> snd_mask_single m then Inl EINVAL else Inr (of_nat (snd_mask_value m), False))
      else if hw_is_interval var then
        (let i = hp_intervals p var
         in if \<not> snd_interval_single i then Inl EINVAL
            else case c_int_result (snd_interval_value i) of Inl e \<Rightarrow> Inl e | Inr v \<Rightarrow> Inr (v, openmin i))
      else Inl EINVAL)"

definition snd_pcm_hw_param_setempty :: "nat \<Rightarrow> hw_params \<Rightarrow> hw_params" where
  "snd_pcm_hw_param_setempty var p =
     (if hw_is_mask var then add_crmask var (set_mask var (snd_mask_none (hp_masks p var)) p)
      else if hw_is_interval var
      then add_crmask var (set_interval var (snd_interval_none (hp_intervals p var)) p)
      else p)"

definition select_in_param ::
  "(snd_mask \<Rightarrow> snd_mask \<times> bool) \<Rightarrow> (snd_interval \<Rightarrow> snd_interval \<times> bool res) \<Rightarrow>
   nat \<Rightarrow> hw_params \<Rightarrow> hw_params \<times> bool res" where
  "select_in_param fm fi var p =
     (if hw_is_mask var then
        (let (m, changed) = fm (hp_masks p var); p1 = set_mask var m p
         in (if changed then add_crmask var p1 else p1, Inr changed))
      else if hw_is_interval var then
        (let (i, changed) = fi (hp_intervals p var); p1 = set_interval var i p
         in (if did_change changed then add_crmask var p1 else p1, changed))
      else (p, Inl EINVAL))"

definition hw_param_first :: "nat \<Rightarrow> hw_params \<Rightarrow> hw_params \<times> bool res" where
  "hw_param_first = select_in_param snd_mask_refine_first snd_interval_refine_first"

definition hw_param_last :: "nat \<Rightarrow> hw_params \<Rightarrow> hw_params \<times> bool res" where
  "hw_param_last = select_in_param snd_mask_refine_last snd_interval_refine_last"

definition after_select ::
  "refine_env \<Rightarrow> hw_constraints \<Rightarrow> nat \<Rightarrow> hw_params \<times> bool res \<Rightarrow> (hw_params \<times> (u32 \<times> bool) res) option" where
  "after_select env cs var m =
     (case m of
        (p, Inl e) \<Rightarrow> Some (p, Inl e)
      | (p, Inr _) \<Rightarrow>
          if hp_rmask p \<noteq> 0 then
            (case snd_pcm_hw_refine env cs p of
               None \<Rightarrow> None
             | Some (p', Inl e) \<Rightarrow> Some (p', Inl e)
             | Some (p', Inr _) \<Rightarrow> Some (p', snd_pcm_hw_param_value p' var))
          else Some (p, snd_pcm_hw_param_value p var))"

definition snd_pcm_hw_param_first ::
  "refine_env \<Rightarrow> hw_constraints \<Rightarrow> nat \<Rightarrow> hw_params \<Rightarrow> (hw_params \<times> (u32 \<times> bool) res) option" where
  "snd_pcm_hw_param_first env cs var p = after_select env cs var (hw_param_first var p)"

definition snd_pcm_hw_param_last ::
  "refine_env \<Rightarrow> hw_constraints \<Rightarrow> nat \<Rightarrow> hw_params \<Rightarrow> (hw_params \<times> (u32 \<times> bool) res) option" where
  "snd_pcm_hw_param_last env cs var p = after_select env cs var (hw_param_last var p)"

definition choose_vars :: "nat list" where
  "choose_vars = [HW_PARAM_ACCESS, HW_PARAM_FORMAT, HW_PARAM_SUBFORMAT, HW_PARAM_CHANNELS,
     HW_PARAM_RATE, HW_PARAM_PERIOD_TIME, HW_PARAM_BUFFER_SIZE, HW_PARAM_TICK_TIME]"

fun choose_params ::
  "refine_env \<Rightarrow> hw_constraints \<Rightarrow> nat list \<Rightarrow> hw_params \<Rightarrow> (hw_params \<times> unit res) option" where
  "choose_params env cs [] p = Some (p, Inr ())"
| "choose_params env cs (v # vs) p =
     (case (if v \<noteq> HW_PARAM_BUFFER_SIZE then snd_pcm_hw_param_first env cs v p
            else snd_pcm_hw_param_last env cs v p) of
        None \<Rightarrow> None
      | Some (p', Inl e) \<Rightarrow> Some (p', Inl e)
      | Some (p', Inr _) \<Rightarrow> choose_params env cs vs p')"

definition snd_pcm_hw_params_choose ::
  "refine_env \<Rightarrow> hw_constraints \<Rightarrow> hw_params \<Rightarrow> (hw_params \<times> unit res) option" where
  "snd_pcm_hw_params_choose env cs = choose_params env cs choose_vars"

section \<open>The FIFO size\<close>

text \<open>\<open>snd_pcm_lib_ioctl_fifo_size\<close>, the default of the driver's FIFO\_SIZE ioctl. The width of an
  unknown format is the error code \<open>-EINVAL\<close>, -22; the product is an \<open>int\<close> that the division
  converts to 64 bits. C traps on a product of 0, where the model's quotient is 0.\<close>

definition snd_pcm_lib_ioctl_fifo_size :: "pcm_hardware \<Rightarrow> hw_params \<Rightarrow> hw_params \<times> unit res" where
  "snd_pcm_lib_ioctl_fifo_size hw p =
     (if hw_info hw AND INFO_FIFO_IN_FRAMES \<noteq> 0 then (p\<lparr>hp_fifo_size := hw_fifo_size hw\<rparr>, Inr ())
      else let format = snd_mask_min (hp_masks p HW_PARAM_FORMAT);
               channels = iv_min (hp_intervals p HW_PARAM_CHANNELS);
               width = (case snd_pcm_format_physical_width (int format) of
                          Inl _ \<Rightarrow> -22 | Inr w \<Rightarrow> of_nat w) :: u32
           in (p\<lparr>hp_fifo_size := hw_fifo_size hw div scast (width * channels)\<rparr>, Inr ()))"

end
