(* ===== verification/Pcm_Configurator.thy ===== *)
theory Pcm_Configurator
  imports Pcm_Config Pcm_Constraints
begin

text \<open>
  The rule loop of \<open>snd_pcm_hw_refine\<close> terminates and loses no configuration. The locale
  \<open>contracting_rules\<close> is the interface between the loop and the rules: a predicate on parameters
  that every enabled rule call re-establishes and a weight that every reported change decreases.
  It is interpreted with the configurations of \<open>Pcm_Config\<close> and the size of the space.
\<close>

section \<open>The loop over contracting rules\<close>

locale contracting_rules =
  fixes env :: refine_env and good :: "hw_rule \<Rightarrow> bool" and keeps :: "hw_params \<Rightarrow> bool"
    and subspace :: "hw_params \<Rightarrow> hw_params \<Rightarrow> bool" and weight :: "hw_params \<Rightarrow> nat"
  assumes call: "keeps p \<Longrightarrow> rule_enabled p r \<Longrightarrow> good r \<Longrightarrow>
      \<exists>p' changed. rule_call env r p = (p', Inr changed) \<and> keeps p' \<and> subspace p' p \<and>
        hp_flags p' = hp_flags p \<and> weight p' \<le> weight p \<and> (changed \<longrightarrow> weight p' < weight p)"
    and mark: "keeps (add_cmask k p) = keeps p" "subspace (add_cmask k p) q = subspace p q"
      "weight (add_cmask k p) = weight p"
    and subspace_refl: "subspace p p"
    and subspace_trans: "subspace p q \<Longrightarrow> subspace q s \<Longrightarrow> subspace p s"
begin

definition steps_to :: "refine_state \<Rightarrow> refine_state \<Rightarrow> bool" where
  "steps_to st st' \<longleftrightarrow> keeps (rf_params st') \<and> subspace (rf_params st') (rf_params st) \<and>
     hp_flags (rf_params st') = hp_flags (rf_params st) \<and> weight (rf_params st') \<le> weight (rf_params st) \<and>
     (rf_again st' \<longrightarrow> rf_again st \<or> weight (rf_params st') < weight (rf_params st))"

lemma steps_to_refl: "keeps (rf_params st) \<Longrightarrow> steps_to st st"
  by (simp add: steps_to_def subspace_refl)

lemma steps_to_trans: "steps_to a b \<Longrightarrow> steps_to b c \<Longrightarrow> steps_to a c"
  unfolding steps_to_def using subspace_trans by (metis le_less_trans less_le_trans order_trans)

lemma one_step:
  assumes st: "keeps (rf_params st)" and good: "rule_enabled (rf_params st) r \<Longrightarrow> good r"
  obtains st' where "rule_step env k r st = (st', Inr ())" "steps_to st st'"
proof (cases "rule_enabled (rf_params st) r \<and> rule_doit st k r")
  case True
  then obtain p' ch where eq: "rule_call env r (rf_params st) = (p', Inr ch)" and p': "keeps p'"
    "subspace p' (rf_params st)" "hp_flags p' = hp_flags (rf_params st)"
    "weight p' \<le> weight (rf_params st)" "ch \<Longrightarrow> weight p' < weight (rf_params st)"
    using call [OF st _ good] by blast
  define st1 where "st1 = note_change r (Inr ch) (st\<lparr>rf_params := p', rf_rstamps := (rf_rstamps st)(k := rf_stamp st)\<rparr>)"
  have "rule_step env k r st = (st1\<lparr>rf_stamp := rf_stamp st1 + 1\<rparr>, Inr ())"
    using True eq by (simp add: rule_step_def Let_def st1_def)
  moreover have "steps_to st (st1\<lparr>rf_stamp := rf_stamp st1 + 1\<rparr>)"
    using p' by (auto simp: steps_to_def note_change_def did_change_def mark st1_def)
  ultimately show ?thesis by (rule that)
next
  case False
  then show ?thesis using that [of st] steps_to_refl [OF st] by (auto simp: rule_step_def)
qed

lemma one_sweep:
  assumes "keeps (rf_params st)" and "\<forall>r \<in> set rs. rule_enabled (rf_params st) r \<longrightarrow> good r"
  shows "\<exists>st'. rule_sweep env k rs st = (st', Inr ()) \<and> steps_to st st'"
  using assms
proof (induction rs arbitrary: k st)
  case Nil
  then show ?case by (simp add: steps_to_refl)
next
  case (Cons r rs)
  obtain st1 where st1: "rule_step env k r st = (st1, Inr ())" "steps_to st st1"
    using one_step [OF Cons.prems(1), of r k] Cons.prems(2) by auto
  have "rule_enabled (rf_params st1) q = rule_enabled (rf_params st) q" for q
    using st1(2) by (simp add: steps_to_def rule_enabled_def)
  then obtain st2 where "rule_sweep env (Suc k) rs st1 = (st2, Inr ())" "steps_to st1 st2"
    using Cons.IH [of st1 "Suc k"] Cons.prems(2) st1(2) by (auto simp: steps_to_def)
  then show ?case using st1 steps_to_trans by auto
qed

text \<open>The loop ends with success: every repetition decreases the weight.\<close>

lemma loop_returns:
  assumes "keeps (rf_params st)" and "\<forall>r \<in> set rs. rule_enabled (rf_params st) r \<longrightarrow> good r"
  shows "\<exists>st'. rule_loop env rs st = Some (st', Inr ()) \<and> keeps (rf_params st') \<and>
    subspace (rf_params st') (rf_params st)"
  using assms
proof (induction "weight (rf_params st)" arbitrary: st rule: less_induct)
  case less
  define st0 where "st0 = st\<lparr>rf_again := False\<rparr>"
  have p0: "rf_params st0 = rf_params st" "\<not> rf_again st0" by (simp_all add: st0_def)
  then obtain st1 where st1: "rule_sweep env 0 rs st0 = (st1, Inr ())" "steps_to st0 st1"
    using one_sweep [of st0 rs 0] less.prems by auto
  have en: "rule_enabled (rf_params st1) q = rule_enabled (rf_params st) q" for q
    using st1(2) p0 by (simp add: steps_to_def rule_enabled_def)
  have k1: "keeps (rf_params st1)" "subspace (rf_params st1) (rf_params st)"
    using st1(2) p0 by (simp_all add: steps_to_def)
  have unfold: "rule_loop env rs st = (if rf_again st1 then rule_loop env rs st1 else Some (st1, Inr ()))"
    using st1(1) by (subst rule_loop.simps) (simp add: st0_def)
  show ?case
  proof (cases "rf_again st1")
    case True
    then have "weight (rf_params st1) < weight (rf_params st)" using st1(2) p0 by (simp add: steps_to_def)
    from less.hyps [OF this] k1 less.prems(2) en show ?thesis
      using True unfold subspace_trans by auto
  next
    case False
    then show ?thesis using unfold k1 by simp
  qed
qed

end

section \<open>The model's rules\<close>

definition hw_subspace :: "hw_params \<Rightarrow> hw_params \<Rightarrow> bool" where
  "hw_subspace p q \<longleftrightarrow> (\<forall>c. in_space c p \<longrightarrow> in_space c q)"

interpretation admitted_rules: contracting_rules env "rule_admits env c"
    "\<lambda>p. env_wf env \<and> config_positive c \<and> in_space c p" hw_subspace space_size
  for env c
proof unfold_locales
  fix p r
  assume "env_wf env \<and> config_positive c \<and> in_space c p" "rule_admits env c r"
  then show "\<exists>p' changed. rule_call env r p = (p', Inr changed) \<and>
      (env_wf env \<and> config_positive c \<and> in_space c p') \<and> hw_subspace p' p \<and> hp_flags p' = hp_flags p \<and>
      space_size p' \<le> space_size p \<and> (changed \<longrightarrow> space_size p' < space_size p)"
    using rule_call_contracting [of env c r p] by (auto simp: contracting_def shrinks_def hw_subspace_def)
qed (auto simp: hw_subspace_def)

section \<open>The first intersection\<close>

definition in_constraints :: "config \<Rightarrow> hw_constraints \<Rightarrow> bool" where
  "in_constraints c cs \<longleftrightarrow>
     (\<forall>k \<le> 2. c_choice c k \<in> mask_elems (hc_masks cs k)) \<and>
     (\<forall>k. 8 \<le> k \<and> k \<le> 19 \<longrightarrow> in_range (hc_intervals cs k) (c_value c k))"

lemma add_cmask_shrinks: "shrinks p (add_cmask k q) ch = shrinks p q ch"
  by (simp add: shrinks_def)

lemma hw_subspace_simps: "hw_subspace p p" "hw_subspace p q \<Longrightarrow> hw_subspace q s \<Longrightarrow> hw_subspace p s"
  "hw_subspace (add_cmask k p) q = hw_subspace p q"
  by (auto simp: hw_subspace_def)

lemma refine_masks_keeps:
  assumes "in_space c p" "in_constraints c cs" "set ks \<subseteq> {..2}"
  shows "\<exists>p'. refine_masks cs ks p = (p', Inr ()) \<and> in_space c p' \<and> hw_subspace p' p \<and>
    hp_flags p' = hp_flags p \<and> hp_rmask p' = hp_rmask p"
  using assms
proof (induction ks arbitrary: p)
  case Nil
  then show ?case by (simp add: hw_subspace_simps)
next
  case (Cons k ks)
  have k: "k \<le> 2" using Cons.prems(3) by simp
  have m: "mask_wf (hp_masks p k)" "c_choice c k \<in> mask_elems (hp_masks p k)"
    using in_space_maskD [OF Cons.prems(1) k] by simp_all
  then have ne: "\<not> snd_mask_empty (hp_masks p k)" by (auto simp: snd_mask_empty_iff)
  show ?case
  proof (cases "hp_rmask p AND var_flag k = 0")
    case True
    then show ?thesis using Cons ne by simp
  next
    case False
    obtain m' ch where m': "snd_mask_refine (hp_masks p k) (hc_masks cs k) = (m', Inr ch)" "mask_wf m'"
      "c_choice c k \<in> mask_elems m'" "mask_elems m' = mask_elems (hp_masks p k) \<inter> mask_elems (hc_masks cs k)"
      "ch \<Longrightarrow> mask_card m' < mask_card (hp_masks p k)" "mask_card m' \<le> mask_card (hp_masks p k)"
      using snd_mask_refine_contract [OF m] Cons.prems(2) k unfolding in_constraints_def by metis
    define p1 where "p1 = (if ch then add_cmask k (set_mask k m' p) else set_mask k m' p)"
    have "in_space c (set_mask k m' p) \<and> shrinks p (set_mask k m' p) ch"
      using m' by (intro set_mask_shrinks [OF Cons.prems(1) k]) auto
    then have p1: "in_space c p1" "hw_subspace p1 p" "hp_flags p1 = hp_flags p" "hp_rmask p1 = hp_rmask p"
      by (auto simp: p1_def shrinks_def hw_subspace_def)
    have "refine_masks cs (k # ks) p = refine_masks cs ks p1"
      using False ne m'(1) by (simp add: p1_def did_change_def)
    then show ?thesis
      using Cons.IH [OF p1(1) Cons.prems(2)] Cons.prems(3) p1 hw_subspace_simps(2) by auto
  qed
qed

lemma refine_intervals_keeps:
  assumes "in_space c p" "in_constraints c cs" "set ks \<subseteq> {8..19}"
  shows "\<exists>p'. refine_intervals cs ks p = (p', Inr ()) \<and> in_space c p' \<and> hw_subspace p' p \<and>
    hp_flags p' = hp_flags p \<and> hp_rmask p' = hp_rmask p"
  using assms
proof (induction ks arbitrary: p)
  case Nil
  then show ?case by (simp add: hw_subspace_simps)
next
  case (Cons k ks)
  have k: "8 \<le> k" "k \<le> 19" using Cons.prems(3) by simp_all
  have i: "in_ivl (hp_intervals p k) (c_value c k)" using in_space_ivlD [OF Cons.prems(1) k] .
  then have ne: "\<not> snd_interval_empty (hp_intervals p k)" by (simp add: in_ivl_def snd_interval_empty_def)
  show ?case
  proof (cases "hp_rmask p AND var_flag k = 0")
    case True
    then show ?thesis using Cons ne by simp
  next
    case False
    obtain i' ch where i': "snd_interval_refine (hp_intervals p k) (hc_intervals cs k) = (i', Inr ch)"
      "in_ivl i' (c_value c k)" "\<And>y. in_ivl i' y \<Longrightarrow> in_ivl (hp_intervals p k) y"
      "ch \<Longrightarrow> ivl_size i' < ivl_size (hp_intervals p k)" "ivl_size i' \<le> ivl_size (hp_intervals p k)"
      using snd_interval_refine_contract [OF i] Cons.prems(2) k unfolding in_constraints_def by metis
    define p1 where "p1 = (if ch then add_cmask k (set_interval k i' p) else set_interval k i' p)"
    have "in_space c (set_interval k i' p) \<and> shrinks p (set_interval k i' p) ch"
      using i' by (intro set_interval_shrinks [OF Cons.prems(1) k]) auto
    then have p1: "in_space c p1" "hw_subspace p1 p" "hp_flags p1 = hp_flags p" "hp_rmask p1 = hp_rmask p"
      by (auto simp: p1_def shrinks_def hw_subspace_def)
    have "refine_intervals cs (k # ks) p = refine_intervals cs ks p1"
      using False ne i'(1) by (simp add: p1_def did_change_def)
    then show ?thesis
      using Cons.IH [OF p1(1) Cons.prems(2)] Cons.prems(3) p1 hw_subspace_simps(2) by auto
  qed
qed

section \<open>The whole refinement\<close>

definition fifo_keeps :: "refine_env \<Rightarrow> bool" where
  "fifo_keeps env \<longleftrightarrow> (\<forall>p. \<exists>p'. env_fifo_ioctl env p = (p', Inr ()) \<and>
     hp_masks p' = hp_masks p \<and> hp_intervals p' = hp_intervals p)"

lemma fifo_size_keeps: "env_fifo_ioctl env = snd_pcm_lib_ioctl_fifo_size hw \<Longrightarrow> fifo_keeps env"
  by (auto simp: fifo_keeps_def snd_pcm_lib_ioctl_fifo_size_def Let_def)

lemma refine_begin_frame:
  "hp_masks (refine_begin p) = hp_masks p" "hp_intervals (refine_begin p) = hp_intervals p"
  "hp_flags (refine_begin p) = hp_flags p" "hp_rmask (refine_begin p) = hp_rmask p"
  by (simp_all add: refine_begin_def Let_def)

lemma refine_results_frame:
  "hp_masks (refine_results hw p) = hp_masks p" "hp_intervals (refine_results hw p) = hp_intervals p"
  by (simp_all add: refine_results_def Let_def)

lemma refine_end_returns:
  assumes "fifo_keeps env"
  shows "\<exists>p'. refine_end env p = (p', Inr ()) \<and> hp_masks p' = hp_masks p \<and>
    hp_intervals p' = hp_intervals p \<and> hp_rmask p' = 0"
proof -
  obtain p1 where "env_fifo_ioctl env (refine_results (env_hw env) p) = (p1, Inr ())"
    "hp_masks p1 = hp_masks p" "hp_intervals p1 = hp_intervals p"
    using assms refine_results_frame [of "env_hw env" p] unfolding fifo_keeps_def by metis
  then show ?thesis by (auto simp: refine_end_def Let_def refine_results_frame)
qed

lemma param_numbers: "set mask_params \<subseteq> {..2}" "set interval_params \<subseteq> {8..19}"
  by (auto simp: mask_params_def interval_params_def)

lemma refine_keeps_configuration:
  assumes env: "env_wf env" "fifo_keeps env" and pos: "config_positive c"
    and c: "in_space c params" "in_constraints c cs"
    and rules: "\<forall>r \<in> set (hc_rules cs). rule_enabled params r \<longrightarrow> rule_admits env c r"
  shows "\<exists>p'. snd_pcm_hw_refine env cs params = Some (p', Inr ()) \<and> in_space c p' \<and>
    hw_subspace p' params \<and> hp_rmask p' = 0"
proof -
  have p0: "in_space c (refine_begin params)" using c(1) by (simp add: in_space_def refine_begin_frame)
  obtain p1 where p1: "refine_masks cs mask_params (refine_begin params) = (p1, Inr ())" "in_space c p1"
    "hw_subspace p1 (refine_begin params)" "hp_flags p1 = hp_flags params"
    using refine_masks_keeps [OF p0 c(2) param_numbers(1)] by (auto simp: refine_begin_frame)
  obtain p2 where p2: "refine_intervals cs interval_params p1 = (p2, Inr ())" "in_space c p2"
    "hw_subspace p2 p1" "hp_flags p2 = hp_flags params"
    using refine_intervals_keeps [OF p1(2) c(2) param_numbers(2)] p1(4) by auto
  have "rf_params (refine_initial_state p2) = p2" by (simp add: refine_initial_state_def)
  then obtain st where st: "rule_loop env (hc_rules cs) (refine_initial_state p2) = Some (st, Inr ())"
    "in_space c (rf_params st)" "hw_subspace (rf_params st) p2"
    using admitted_rules.loop_returns [of env c "refine_initial_state p2" "hc_rules cs"]
      env(1) pos p2(2,4) rules by (auto simp: rule_enabled_def)
  obtain p' where p': "refine_end env (rf_params st) = (p', Inr ())" "hp_masks p' = hp_masks (rf_params st)"
    "hp_intervals p' = hp_intervals (rf_params st)" "hp_rmask p' = 0"
    using refine_end_returns [OF env(2)] by blast
  have e: "in_space c' p' = in_space c' (rf_params st)" for c'
    by (rule space_cong(1)) (rule p')+
  have "in_space c' (refine_begin params) = in_space c' params" for c'
    by (rule space_cong(1)) (rule refine_begin_frame)+
  then have "hw_subspace p' params" and "in_space c p'"
    using p1(3) p2(3) st(2,3) by (simp_all add: hw_subspace_def e)
  then show ?thesis
    using p1(1) p2(1) st(1) p' by (simp add: snd_pcm_hw_refine_def)
qed

text \<open>
  C12: the hardware configurator loses no configuration. If a configuration with positive values
  below \<open>UINT_MAX\<close> lies in the requested space and in the constraints and satisfies the
  enabled rules, then \<open>snd_pcm_hw_refine\<close> returns, with success, the result still contains that
  configuration, and it contains nothing that the request did not.
\<close>

theorem snd_pcm_hw_refine_keeps_configuration:
  assumes "env_wf env" and "fifo_keeps env" and "config_positive c"
    and "in_space c params" and "in_constraints c cs"
    and "\<forall>r \<in> set (hc_rules cs). rule_enabled params r \<longrightarrow> rule_admits env c r"
  shows "\<exists>p'. snd_pcm_hw_refine env cs params = Some (p', Inr ()) \<and> in_space c p' \<and>
    hw_subspace p' params \<and> hp_rmask p' = 0"
  by (rule refine_keeps_configuration [OF assms])

end
