(* ===== verification/Pcm_Hw_Setup.thy ===== *)
theory Pcm_Hw_Setup
  imports Pcm_Configurator
begin

text \<open>
  The constraints of a real stream: what \<open>snd_pcm_hw_constraints_init\<close> followed by
  \<open>snd_pcm_hw_constraints_complete\<close> builds from a hardware description, and which
  configurations it admits. A configuration fits the hardware when it obeys the relations between
  bits, frames, periods, buffers and times as exact real numbers, is integral where the core says
  so, and lies within the limits of the description.
\<close>

section \<open>Configurations that fit the hardware\<close>

abbreviation (input) val :: "config \<Rightarrow> nat \<Rightarrow> real" where "val c k \<equiv> c_value c k"

definition consistent_config :: "config \<Rightarrow> bool" where
  "consistent_config c \<longleftrightarrow>
     snd_pcm_format_physical_width (int (c_choice c HW_PARAM_FORMAT)) = Inr (nat \<lfloor>val c HW_PARAM_SAMPLE_BITS\<rfloor>) \<and>
     val c HW_PARAM_SAMPLE_BITS \<in> \<int> \<and> val c HW_PARAM_CHANNELS \<in> \<int> \<and>
     val c HW_PARAM_PERIOD_SIZE \<in> \<int> \<and> val c HW_PARAM_BUFFER_SIZE \<in> \<int> \<and> val c HW_PARAM_BUFFER_BYTES \<in> \<int> \<and>
     val c HW_PARAM_FRAME_BITS = val c HW_PARAM_SAMPLE_BITS * val c HW_PARAM_CHANNELS \<and>
     val c HW_PARAM_PERIOD_BYTES = val c HW_PARAM_PERIOD_SIZE * val c HW_PARAM_FRAME_BITS / 8 \<and>
     val c HW_PARAM_BUFFER_BYTES = val c HW_PARAM_BUFFER_SIZE * val c HW_PARAM_FRAME_BITS / 8 \<and>
     val c HW_PARAM_PERIOD_TIME = val c HW_PARAM_PERIOD_SIZE * 1000000 / val c HW_PARAM_RATE \<and>
     val c HW_PARAM_BUFFER_TIME = val c HW_PARAM_BUFFER_SIZE * 1000000 / val c HW_PARAM_RATE \<and>
     val c HW_PARAM_PERIODS = val c HW_PARAM_BUFFER_SIZE / val c HW_PARAM_PERIOD_SIZE"

definition between :: "u32 \<Rightarrow> real \<Rightarrow> u32 \<Rightarrow> bool" where
  "between lo x hi \<longleftrightarrow> rv lo \<le> x \<and> x \<le> rv hi"

definition within_hardware :: "pcm_hardware \<Rightarrow> u64 \<Rightarrow> u64 \<Rightarrow> config \<Rightarrow> bool" where
  "within_hardware hw bytes_max dma_bytes c \<longleftrightarrow>
     c_choice c HW_PARAM_ACCESS < 32 \<and> bit (access_mask (hw_info hw)) (c_choice c HW_PARAM_ACCESS) \<and>
     bit (hw_formats hw) (c_choice c HW_PARAM_FORMAT) \<and> c_choice c HW_PARAM_SUBFORMAT = 0 \<and>
     between (hw_channels_min hw) (val c HW_PARAM_CHANNELS) (hw_channels_max hw) \<and>
     between (hw_rate_min hw) (val c HW_PARAM_RATE) (hw_rate_max hw) \<and>
     between (ucast (hw_period_bytes_min hw)) (val c HW_PARAM_PERIOD_BYTES) (ucast (hw_period_bytes_max hw)) \<and>
     between (hw_periods_min hw) (val c HW_PARAM_PERIODS) (hw_periods_max hw) \<and>
     between (ucast (hw_period_bytes_min hw)) (val c HW_PARAM_BUFFER_BYTES) (ucast (hw_buffer_bytes_max hw)) \<and>
     between 0 (val c HW_PARAM_BUFFER_BYTES) (ucast bytes_max) \<and>
     (dma_bytes \<noteq> 0 \<longrightarrow> between 0 (val c HW_PARAM_BUFFER_BYTES) (ucast dma_bytes)) \<and>
     (hw_rates hw AND (SNDRV_PCM_RATE_KNOT OR SNDRV_PCM_RATE_CONTINUOUS) = 0 \<longrightarrow>
        listed (val c HW_PARAM_RATE) snd_pcm_known_rates (hw_rates hw))"

section \<open>The rules that are added\<close>

definition core_rule :: "nat \<times> hw_rule_func \<times> nat list \<Rightarrow> hw_rule" where
  "core_rule = (\<lambda>(var, f, deps). \<lparr>r_cond = 0, r_func = f, r_var = int var, r_deps = map int deps @ [-1]\<rparr>)"

lemma collect_deps_nats: "length deps < 4 \<Longrightarrow> collect_deps (map int deps @ [-1]) = Some (map int deps @ [-1])"
proof -
  have "takeWhile (\<lambda>d. d \<ge> 0) (map int deps @ [-1]) = map int deps"
    by (subst takeWhile_append2) (auto simp: takeWhile_eq_all_conv)
  then show "length deps < 4 \<Longrightarrow> ?thesis" by (simp add: collect_deps_def Let_def)
qed

definition adds :: "hw_rule list \<Rightarrow> hw_constraints \<Rightarrow> hw_constraints \<Rightarrow> bool" where
  "adds rs cs cs' \<longleftrightarrow> hc_rules cs' = hc_rules cs @ rs \<and> hc_masks cs' = hc_masks cs \<and>
     hc_intervals cs' = hc_intervals cs"

lemma rule_add_adds:
  assumes "\<forall>n. alloc n" "length deps < 4"
  shows "\<exists>cs'. snd_pcm_hw_rule_add alloc 0 (int var) f (map int deps @ [-1]) cs = (cs', Inr ()) \<and>
    adds [core_rule (var, f, deps)] cs cs'"
  using assms by (simp add: snd_pcm_hw_rule_add_def Let_def collect_deps_nats adds_def core_rule_def)

lemma add_rules_adds:
  assumes "\<forall>n. alloc n" "\<forall>(v, f, deps) \<in> set rs. length deps < 4"
  shows "\<exists>cs'. add_rules alloc rs cs = (cs', Inr ()) \<and> adds (map core_rule rs) cs cs'"
  using assms(2)
proof (induction rs arbitrary: cs)
  case (Cons r rs)
  obtain v f deps where r: "r = (v, f, deps)" by (cases r)
  obtain cs1 where 1: "snd_pcm_hw_rule_add alloc 0 (int v) f (map int deps @ [-1]) cs = (cs1, Inr ())"
    "adds [core_rule r] cs cs1"
    using rule_add_adds [OF assms(1), of deps v f cs] Cons.prems r by auto
  obtain cs2 where 2: "add_rules alloc rs cs1 = (cs2, Inr ())" "adds (map core_rule rs) cs1 cs2"
    using Cons.IH [of cs1] Cons.prems by auto
  then show ?case using 1 by (auto simp: r adds_def)
qed (simp add: adds_def)

section \<open>Constraints that keep a configuration\<close>

lemma set_cs_simps [simp]:
  "hc_intervals (set_cs_interval k i cs) = (hc_intervals cs)(k := i)"
  "hc_masks (set_cs_interval k i cs) = hc_masks cs" "hc_rules (set_cs_interval k i cs) = hc_rules cs"
  "hc_masks (set_cs_mask k m cs) = (hc_masks cs)(k := m)"
  "hc_intervals (set_cs_mask k m cs) = hc_intervals cs" "hc_rules (set_cs_mask k m cs) = hc_rules cs"
  by (simp_all add: set_cs_interval_def set_cs_mask_def)

lemma snd_interval_any_idem [simp]: "snd_interval_any (snd_interval_any i) = snd_interval_any i"
  by (simp add: snd_interval_any_def)

text \<open>The constraint intervals are never empty, so their members are members of \<open>in_ivl\<close>.\<close>

definition cs_contains :: "config \<Rightarrow> hw_constraints \<Rightarrow> bool" where
  "cs_contains c cs \<longleftrightarrow>
     (\<forall>k \<le> 2. mask_wf (hc_masks cs k) \<and> c_choice c k \<in> mask_elems (hc_masks cs k)) \<and>
     (\<forall>k. 8 \<le> k \<and> k \<le> 19 \<longrightarrow> in_ivl (hc_intervals cs k) (c_value c k))"

lemma cs_contains_in: "cs_contains c cs \<Longrightarrow> in_constraints c cs"
  by (auto simp: cs_contains_def in_constraints_def in_ivl_def)

lemma cs_contains_adds: "adds rs cs cs' \<Longrightarrow> cs_contains c cs' = cs_contains c cs"
  by (simp add: cs_contains_def adds_def)

lemma cs_contains_set_interval:
  "cs_contains c cs \<Longrightarrow> in_ivl i (c_value c k) \<Longrightarrow> cs_contains c (set_cs_interval k i cs)"
  by (simp add: cs_contains_def set_cs_interval_def)

lemma cs_contains_set_mask:
  "cs_contains c cs \<Longrightarrow> mask_wf m \<Longrightarrow> c_choice c k \<in> mask_elems m \<Longrightarrow> cs_contains c (set_cs_mask k m cs)"
  by (simp add: cs_contains_def set_cs_mask_def)

lemma minmax_keeps:
  assumes c: "cs_contains c cs" and k: "8 \<le> k" "k \<le> 19" and b: "between mn (c_value c k) mx"
  shows "\<exists>cs' ch. snd_pcm_hw_constraint_minmax stack k mn mx cs = (cs', Inr ch) \<and> cs_contains c cs' \<and>
    hc_rules cs' = hc_rules cs"
proof -
  let ?t = "stack\<lparr>iv_min := mn, iv_max := mx, openmin := False, openmax := False, iv_integer := False\<rparr>"
  have i: "in_ivl (hc_intervals cs k) (c_value c k)" using c k by (simp add: cs_contains_def)
  have "in_range ?t (c_value c k)" using b by (simp add: ivl_mem_defs between_def)
  from snd_interval_refine_contract [OF i this] obtain i' ch
    where i': "snd_interval_refine (hc_intervals cs k) ?t = (i', Inr ch)" "in_ivl i' (c_value c k)" by metis
  then show ?thesis
    using cs_contains_set_interval [OF c i'(2)]
    by (simp add: snd_pcm_hw_constraint_minmax_def Let_def set_cs_interval_def)
qed

lemma setinteger_keeps:
  assumes c: "in_ivl i x" and x: "x \<in> \<int>"
  shows "in_ivl (fst (snd_interval_setinteger i)) x"
  using assms by (auto simp: snd_interval_setinteger_def ivl_mem_defs)

lemma mask_elems_replicate:
  "k \<in> mask_elems (a # b # rest) \<longleftrightarrow> (k < 32 \<and> bit a k) \<or> (32 \<le> k \<and> k < 64 \<and> bit b (k - 32))"
proof (cases "k < 32")
  case False
  then show ?thesis
    by (auto simp: mask_elems_iff le_div_geq le_mod_geq nth_Cons' div_eq_0_iff)
qed (simp add: mask_elems_iff)

lemma constraint_mask_keeps:
  assumes c: "cs_contains c cs" and k: "k \<le> 2" and b: "c_choice c k < 32" "bit msk (c_choice c k)"
  shows "\<exists>cs'. snd_pcm_hw_constraint_mask k msk cs = (cs', Inr ()) \<and> cs_contains c cs' \<and> hc_rules cs' = hc_rules cs"
proof -
  let ?b = "hc_masks cs k ! 0 AND msk"
  have "c_choice c k \<in> mask_elems (hc_masks cs k)" using c k by (simp add: cs_contains_def)
  then have bit: "bit ?b (c_choice c k)" using b by (simp add: mask_elems_iff bit_and_iff)
  then have "?b \<noteq> 0" by auto
  moreover have "c_choice c k \<in> mask_elems (?b # replicate 7 0)"
    using bit b(1) mask_elems_replicate [of _ ?b 0 "replicate 6 0"] by (simp add: numeral_eq_Suc)
  ultimately show ?thesis
    using cs_contains_set_mask [OF c, of "?b # replicate 7 0"]
    by (simp add: snd_pcm_hw_constraint_mask_def Let_def set_cs_mask_def mask_wf_def)
qed

lemma constraint_mask64_keeps:
  assumes c: "cs_contains c cs" and k: "k \<le> 2" and b: "bit msk (c_choice c k)"
  shows "\<exists>cs'. snd_pcm_hw_constraint_mask64 k msk cs = (cs', Inr ()) \<and> cs_contains c cs' \<and> hc_rules cs' = hc_rules cs"
proof -
  let ?x = "c_choice c k"
  let ?a = "hc_masks cs k ! 0 AND ucast msk" and ?b = "hc_masks cs k ! 1 AND ucast (drop_bit 32 msk)"
  have x: "?x \<in> mask_elems (hc_masks cs k)" using c k by (simp add: cs_contains_def)
  have lo: "bit ?a ?x" if "?x < 32"
    using x b that by (simp add: mask_elems_iff bit_and_iff bit_ucast_iff)
  have hi: "bit ?b (?x - 32)" if "\<not> ?x < 32"
  proof -
    have "?x div 32 = 1" "?x mod 32 = ?x - 32" using x that div_32_cases [of ?x] by (auto simp: mask_elems_iff le_mod_geq)
    then show ?thesis
      using x b that by (simp add: mask_elems_iff bit_and_iff bit_ucast_iff bit_drop_bit_eq)
  qed
  have "?a \<noteq> 0 \<or> ?b \<noteq> 0" using lo hi by fastforce
  moreover have "?x \<in> mask_elems (?a # ?b # replicate 6 0)"
    using lo hi x by (simp only: mask_elems_replicate) (auto simp: mask_elems_iff)
  ultimately show ?thesis
    using cs_contains_set_mask [OF c, of "?a # ?b # replicate 6 0"]
    by (auto simp: snd_pcm_hw_constraint_mask64_def Let_def set_cs_mask_def mask_wf_def)
qed

section \<open>\<open>snd_pcm_hw_constraints_init\<close>\<close>

lemma fold_any_intervals:
  "hc_rules (fold (\<lambda>k cs. set_cs_interval k (snd_interval_any (hc_intervals cs k)) cs) ks cs) = hc_rules cs"
  "hc_masks (fold (\<lambda>k cs. set_cs_interval k (snd_interval_any (hc_intervals cs k)) cs) ks cs) = hc_masks cs"
  "hc_intervals (fold (\<lambda>k cs. set_cs_interval k (snd_interval_any (hc_intervals cs k)) cs) ks cs) j =
     (if j \<in> set ks then snd_interval_any (hc_intervals cs j) else hc_intervals cs j)"
  by (induction ks arbitrary: cs) auto

lemma fold_any_masks_rules:
  "hc_rules (fold (\<lambda>k cs. set_cs_mask k (snd_mask_any (hc_masks cs k)) cs) ks cs) = hc_rules cs"
  by (induction ks arbitrary: cs) auto

lemma fold_any_masks_elems:
  "mask_wf (hc_masks cs j) \<Longrightarrow>
     mask_wf (hc_masks (fold (\<lambda>k cs. set_cs_mask k (snd_mask_any (hc_masks cs k)) cs) ks cs) j) \<and>
     mask_elems (hc_masks (fold (\<lambda>k cs. set_cs_mask k (snd_mask_any (hc_masks cs k)) cs) ks cs) j) =
       (if j \<in> set ks then {..<64} else mask_elems (hc_masks cs j))"
proof (induction ks arbitrary: cs)
  case (Cons k ks)
  let ?cs = "set_cs_mask k (snd_mask_any (hc_masks cs k)) cs"
  have "mask_wf (hc_masks ?cs j)" using Cons.prems by (auto simp: snd_mask_any_wf)
  from Cons.IH [OF this] Cons.prems show ?case by (auto simp: snd_mask_any_elems)
qed simp_all

lemmas fold_any_masks = fold_any_masks_rules fold_any_masks_elems

lemma any_contains: "0 \<le> x \<Longrightarrow> x \<le> 4294967295 \<Longrightarrow> in_ivl (snd_interval_any i) x"
  by (simp add: snd_interval_any_def ivl_mem_defs)

lemma constraints_any_contains:
  assumes wf: "\<forall>k \<le> 2. mask_wf (hc_masks cs k)" and pos: "config_positive c" and ch: "\<forall>k \<le> 2. c_choice c k < 64"
  shows "cs_contains c (constraints_any cs) \<and> hc_rules (constraints_any cs) = hc_rules cs"
proof -
  let ?cs1 = "fold (\<lambda>k cs. set_cs_mask k (snd_mask_any (hc_masks cs k)) cs) mask_params cs"
  let ?cs2 = "constraints_any cs"
  note M = fold_any_masks and I = fold_any_intervals
  have "mask_wf (hc_masks ?cs2 k) \<and> c_choice c k \<in> mask_elems (hc_masks ?cs2 k)" if "k \<le> 2" for k
    using M(2) [of cs k mask_params] that wf ch by (auto simp: constraints_any_def I mask_params_def)
  moreover have "in_ivl (hc_intervals ?cs2 k) (c_value c k)" if "8 \<le> k" "k \<le> 19" for k
  proof -
    have "set interval_params = {8..<20}" by (simp add: interval_params_def del: set_upt flip: set_upt)
    then have "hc_intervals ?cs2 k = snd_interval_any (hc_intervals ?cs1 k)"
      using that by (simp add: constraints_any_def I)
    moreover have "0 < c_value c k" "c_value c k < 4294967295"
      using pos that by (auto simp: config_positive_def)
    ultimately show ?thesis using any_contains [of "c_value c k"] by simp
  qed
  ultimately show ?thesis by (simp add: cs_contains_def) (simp add: constraints_any_def M I)
qed

lemma constraints_setinteger_contains:
  assumes "cs_contains c cs"
    and "\<forall>k \<in> {HW_PARAM_CHANNELS, HW_PARAM_BUFFER_SIZE, HW_PARAM_BUFFER_BYTES, HW_PARAM_SAMPLE_BITS,
      HW_PARAM_FRAME_BITS}. c_value c k \<in> \<int>"
  shows "cs_contains c (constraints_setinteger cs) \<and> hc_rules (constraints_setinteger cs) = hc_rules cs"
proof -
  have "cs_contains c (fold (\<lambda>k cs. set_cs_interval k (fst (snd_interval_setinteger (hc_intervals cs k))) cs) ks cs) \<and>
     hc_rules (fold (\<lambda>k cs. set_cs_interval k (fst (snd_interval_setinteger (hc_intervals cs k))) cs) ks cs) = hc_rules cs"
    if "cs_contains c cs" "\<forall>k \<in> set ks. 8 \<le> k \<and> k \<le> 19 \<and> c_value c k \<in> \<int>" for ks
    using that
  proof (induction ks arbitrary: cs)
    case (Cons k ks)
    have "in_ivl (fst (snd_interval_setinteger (hc_intervals cs k))) (c_value c k)"
      using Cons.prems by (intro setinteger_keeps) (auto simp: cs_contains_def)
    from cs_contains_set_interval [OF Cons.prems(1) this] Cons show ?case by simp
  qed simp
  from this [OF assms(1), of "[10, 17, 18, 8, 9]"] assms(2) show ?thesis
    unfolding constraints_setinteger_def by simp
qed

lemma init_rules_small: "\<forall>(v, f, deps) \<in> set init_rules. length deps < 4"
  by (simp add: init_rules_def)

lemma constraints_init_contains:
  assumes wf: "\<forall>k \<le> 2. mask_wf (hc_masks cs k)" and pos: "config_positive c" and ch: "\<forall>k \<le> 2. c_choice c k < 64"
    and ints: "\<forall>k \<in> {HW_PARAM_CHANNELS, HW_PARAM_BUFFER_SIZE, HW_PARAM_BUFFER_BYTES, HW_PARAM_SAMPLE_BITS,
      HW_PARAM_FRAME_BITS}. c_value c k \<in> \<int>"
    and alloc: "\<forall>n. alloc n"
  shows "\<exists>cs'. snd_pcm_hw_constraints_init alloc cs = (cs', Inr ()) \<and> cs_contains c cs' \<and>
    hc_rules cs' = hc_rules cs @ map core_rule init_rules"
proof -
  let ?cs = "constraints_setinteger (constraints_any cs)"
  have c: "cs_contains c ?cs" "hc_rules ?cs = hc_rules cs"
    using constraints_any_contains [OF wf pos ch] constraints_setinteger_contains [OF _ ints] by auto
  obtain cs' where "add_rules alloc init_rules ?cs = (cs', Inr ())" "adds (map core_rule init_rules) ?cs cs'"
    using add_rules_adds [OF alloc init_rules_small] by blast
  then show ?thesis using c cs_contains_adds [of "map core_rule init_rules" ?cs cs' c]
    by (simp add: snd_pcm_hw_constraints_init_def adds_def)
qed

section \<open>\<open>snd_pcm_hw_constraints_complete\<close>\<close>

definition complete_rules :: "pcm_hardware \<Rightarrow> (nat \<times> hw_rule_func \<times> nat list) list" where
  "complete_rules hw =
     (HW_PARAM_BUFFER_BYTES, Rule_buffer_bytes_max, [HW_PARAM_BUFFER_BYTES]) #
     (if hw_rates hw AND (SNDRV_PCM_RATE_KNOT OR SNDRV_PCM_RATE_CONTINUOUS) = 0
      then [(HW_PARAM_RATE, Rule_rate, [HW_PARAM_RATE])] else [])"

definition keeps_cs :: "config \<Rightarrow> hw_rule list \<Rightarrow> 'a cs_res \<Rightarrow> bool" where
  "keeps_cs c rs m \<longleftrightarrow> (\<exists>cs' x. m = (cs', Inr x) \<and> cs_contains c cs' \<and> hc_rules cs' = rs)"

text \<open>The sequencing rule for the calls with their early returns.\<close>

lemma keeps_cs_then:
  "keeps_cs c rs m \<Longrightarrow> (\<And>cs'. cs_contains c cs' \<Longrightarrow> hc_rules cs' = rs \<Longrightarrow> keeps_cs c rs' (f cs')) \<Longrightarrow>
   keeps_cs c rs' (and_then m f)"
  by (auto simp: keeps_cs_def)

lemma keeps_cs_minmax:
  "cs_contains c cs \<Longrightarrow> hc_rules cs = rs \<Longrightarrow> 8 \<le> k \<Longrightarrow> k \<le> 19 \<Longrightarrow> between mn (c_value c k) mx \<Longrightarrow>
   keeps_cs c rs (snd_pcm_hw_constraint_minmax stack k mn mx cs)"
  using minmax_keeps [of c cs k mn mx stack] by (auto simp: keeps_cs_def)

lemma keeps_cs_mask:
  "cs_contains c cs \<Longrightarrow> hc_rules cs = rs \<Longrightarrow> k \<le> 2 \<Longrightarrow> c_choice c k < 32 \<Longrightarrow> bit msk (c_choice c k) \<Longrightarrow>
   keeps_cs c rs (snd_pcm_hw_constraint_mask k msk cs)"
  using constraint_mask_keeps [of c cs k msk] by (auto simp: keeps_cs_def)

lemma keeps_cs_mask64:
  "cs_contains c cs \<Longrightarrow> hc_rules cs = rs \<Longrightarrow> k \<le> 2 \<Longrightarrow> bit msk (c_choice c k) \<Longrightarrow>
   keeps_cs c rs (snd_pcm_hw_constraint_mask64 k msk cs)"
  using constraint_mask64_keeps [of c cs k msk] by (auto simp: keeps_cs_def)

lemma keeps_cs_rule:
  assumes "cs_contains c cs" "hc_rules cs = rs" "\<forall>n. alloc n"
  shows "keeps_cs c (rs @ [core_rule (v, f, [d])]) (snd_pcm_hw_rule_add alloc 0 (int v) f [int d, -1] cs)"
  using rule_add_adds [OF assms(3), of "[d]" v f cs] assms(1,2)
  by (auto simp: keeps_cs_def adds_def cs_contains_def)

lemma integer_keeps:
  assumes c: "cs_contains c cs" and k: "8 \<le> k" "k \<le> 19" "c_value c k \<in> \<int>"
  shows "cs_contains c (fst (snd_pcm_hw_constraint_integer k cs)) \<and>
    hc_rules (fst (snd_pcm_hw_constraint_integer k cs)) = hc_rules cs"
proof -
  have "in_ivl (hc_intervals cs k) (c_value c k)" using c k by (simp add: cs_contains_def)
  from cs_contains_set_interval [OF c setinteger_keeps [OF this k(3)]] show ?thesis
    by (simp add: snd_pcm_hw_constraint_integer_def split_beta)
qed

lemma constraints_complete_contains:
  assumes c: "cs_contains c cs" and hw: "within_hardware hw bytes_max dma_bytes c"
    and ps: "c_value c HW_PARAM_PERIOD_SIZE \<in> \<int>" and alloc: "\<forall>n. alloc n"
  shows "keeps_cs c (hc_rules cs @ map core_rule (complete_rules hw))
    (snd_pcm_hw_constraints_complete alloc stack hw dma_bytes cs)"
proof -
  let ?r = "hc_rules cs @ [core_rule (HW_PARAM_BUFFER_BYTES, Rule_buffer_bytes_max, [HW_PARAM_BUFFER_BYTES])]"
  let ?R = "hc_rules cs @ map core_rule (complete_rules hw)"
  have dma: "keeps_cs c ?r (if dma_bytes \<noteq> 0
      then snd_pcm_hw_constraint_minmax stack HW_PARAM_BUFFER_BYTES 0 (ucast dma_bytes) cs' else (cs', Inr False))"
    if "cs_contains c cs'" "hc_rules cs' = ?r" for cs'
    using that hw keeps_cs_minmax [OF that, of HW_PARAM_BUFFER_BYTES 0 "ucast dma_bytes" stack]
    by (auto simp: within_hardware_def keeps_cs_def)
  have rate: "keeps_cs c ?R (if hw_rates hw AND (SNDRV_PCM_RATE_KNOT OR SNDRV_PCM_RATE_CONTINUOUS) = 0
      then snd_pcm_hw_rule_add alloc 0 (int HW_PARAM_RATE) Rule_rate [int HW_PARAM_RATE, -1] cs' else (cs', Inr ()))"
    if "cs_contains c cs'" "hc_rules cs' = ?r" for cs'
    using that keeps_cs_rule [OF that alloc, of HW_PARAM_RATE Rule_rate HW_PARAM_RATE]
    by (auto simp: complete_rules_def keeps_cs_def)
  have last: "keeps_cs c ?R (fst (snd_pcm_hw_constraint_integer HW_PARAM_PERIOD_SIZE cs'), Inr ())"
    if "cs_contains c cs'" "hc_rules cs' = ?R" for cs'
    using that integer_keeps [OF that(1) _ _ ps] by (simp add: keeps_cs_def)
  show ?thesis unfolding snd_pcm_hw_constraints_complete_def
    apply (rule keeps_cs_then [where rs = "hc_rules cs"])
     apply (rule keeps_cs_mask [OF c refl]; use hw in \<open>simp add: within_hardware_def\<close>)
    apply (rule keeps_cs_then [where rs = "hc_rules cs"])
     apply (erule (1) keeps_cs_mask64; use hw in \<open>simp add: within_hardware_def\<close>)
    apply (rule keeps_cs_then [where rs = "hc_rules cs"])
     apply (erule (1) keeps_cs_mask; use hw in \<open>simp add: within_hardware_def var_flag_def bit_1_iff\<close>)
    apply (rule keeps_cs_then [where rs = "hc_rules cs"], erule (1) keeps_cs_minmax,
        simp, simp, use hw in \<open>simp add: within_hardware_def\<close>)+
    apply (rule keeps_cs_then [where rs = ?r], erule (1) keeps_cs_rule [OF _ _ alloc])
    apply (rule keeps_cs_then [where rs = ?r], erule (1) dma)
    apply (rule keeps_cs_then [where rs = ?R], erule (1) rate)
    apply (erule (1) last)
    done
qed

section \<open>The core's rules admit consistent configurations\<close>

lemma positive_values:
  assumes "config_positive c" and "8 \<le> k" and "k \<le> 19"
  shows "0 < c_value c k" "c_value c k \<noteq> 0"
  using assms by (auto simp: config_positive_def)

lemma Ints_real_nat: "x \<in> \<int> \<Longrightarrow> 0 < x \<Longrightarrow> real (nat \<lfloor>x\<rfloor>) = x"
  by (auto elim!: Ints_cases)

lemma init_rules_admitted:
  assumes pos: "config_positive c" and c: "consistent_config c"
  shows "\<forall>r \<in> set init_rules. rule_admits env c (core_rule r)"
proof -
  note P = positive_values [OF pos]
  have bits: "real (nat \<lfloor>val c HW_PARAM_SAMPLE_BITS\<rfloor>) = val c HW_PARAM_SAMPLE_BITS"
    using c P(1) [of HW_PARAM_SAMPLE_BITS] by (intro Ints_real_nat) (simp_all add: consistent_config_def)
  have ne: "val c HW_PARAM_SAMPLE_BITS \<noteq> 0" "val c HW_PARAM_CHANNELS \<noteq> 0" "val c HW_PARAM_RATE \<noteq> 0"
    "val c HW_PARAM_PERIOD_SIZE \<noteq> 0" "val c HW_PARAM_BUFFER_SIZE \<noteq> 0"
    using P(2) by simp_all
  note eqs = c [unfolded consistent_config_def]
  have m: "rule_admits env c (core_rule (v, Rule_mul, [a, b]))"
    if "8 \<le> v" "v \<le> 19" "8 \<le> a" "a \<le> 19" "8 \<le> b" "b \<le> 19" "val c v = val c a * val c b" for v a b
    using that by (simp add: rule_admits_def core_rule_def ivar_def)
  have d: "rule_admits env c (core_rule (v, Rule_div, [a, b]))"
    if "8 \<le> v" "v \<le> 19" "8 \<le> a" "a \<le> 19" "8 \<le> b" "b \<le> 19" "val c v = val c a / val c b" for v a b
    using that by (simp add: rule_admits_def core_rule_def ivar_def)
  have mk: "rule_admits env c (core_rule (v, Rule_muldivk k, [a, b]))"
    if "8 \<le> v" "v \<le> 19" "8 \<le> a" "a \<le> 19" "8 \<le> b" "b \<le> 19"
      "(ucast k :: u32) \<noteq> 0" "val c v = val c a * val c b / rv (ucast k)" for v a b k
    using that by (simp add: rule_admits_def core_rule_def ivar_def)
  have kd: "rule_admits env c (core_rule (v, Rule_mulkdiv k, [a, b]))"
    if "8 \<le> v" "v \<le> 19" "8 \<le> a" "a \<le> 19" "8 \<le> b" "b \<le> 19"
      "(ucast k :: u32) \<noteq> 0" "val c v = val c a * rv (ucast k) / val c b" for v a b k
    using that by (simp add: rule_admits_def core_rule_def ivar_def)
  have f: "rule_admits env c (core_rule (HW_PARAM_FORMAT, Rule_format, [HW_PARAM_SAMPLE_BITS]))"
    "rule_admits env c (core_rule (HW_PARAM_SAMPLE_BITS, Rule_sample_bits, [HW_PARAM_FORMAT, HW_PARAM_SAMPLE_BITS]))"
    using eqs bits by (simp_all add: rule_admits_def core_rule_def ivar_def)
  have rv: "rv (ucast (8 :: u64)) = 8" "rv (ucast (1000000 :: u64)) = 1000000" by simp_all
  have A: "val c HW_PARAM_SAMPLE_BITS = val c HW_PARAM_FRAME_BITS / val c HW_PARAM_CHANNELS"
    "val c HW_PARAM_FRAME_BITS = val c HW_PARAM_SAMPLE_BITS * val c HW_PARAM_CHANNELS"
    "val c HW_PARAM_FRAME_BITS = val c HW_PARAM_PERIOD_BYTES * 8 / val c HW_PARAM_PERIOD_SIZE"
    "val c HW_PARAM_FRAME_BITS = val c HW_PARAM_BUFFER_BYTES * 8 / val c HW_PARAM_BUFFER_SIZE"
    "val c HW_PARAM_CHANNELS = val c HW_PARAM_FRAME_BITS / val c HW_PARAM_SAMPLE_BITS"
    "val c HW_PARAM_RATE = val c HW_PARAM_PERIOD_SIZE * 1000000 / val c HW_PARAM_PERIOD_TIME"
    "val c HW_PARAM_RATE = val c HW_PARAM_BUFFER_SIZE * 1000000 / val c HW_PARAM_BUFFER_TIME"
    "val c HW_PARAM_PERIODS = val c HW_PARAM_BUFFER_SIZE / val c HW_PARAM_PERIOD_SIZE"
    "val c HW_PARAM_PERIOD_SIZE = val c HW_PARAM_BUFFER_SIZE / val c HW_PARAM_PERIODS"
    "val c HW_PARAM_PERIOD_SIZE = val c HW_PARAM_PERIOD_BYTES * 8 / val c HW_PARAM_FRAME_BITS"
    "val c HW_PARAM_PERIOD_SIZE = val c HW_PARAM_PERIOD_TIME * val c HW_PARAM_RATE / 1000000"
    "val c HW_PARAM_BUFFER_SIZE = val c HW_PARAM_PERIOD_SIZE * val c HW_PARAM_PERIODS"
    "val c HW_PARAM_BUFFER_SIZE = val c HW_PARAM_BUFFER_BYTES * 8 / val c HW_PARAM_FRAME_BITS"
    "val c HW_PARAM_BUFFER_SIZE = val c HW_PARAM_BUFFER_TIME * val c HW_PARAM_RATE / 1000000"
    "val c HW_PARAM_PERIOD_BYTES = val c HW_PARAM_PERIOD_SIZE * val c HW_PARAM_FRAME_BITS / 8"
    "val c HW_PARAM_BUFFER_BYTES = val c HW_PARAM_BUFFER_SIZE * val c HW_PARAM_FRAME_BITS / 8"
    "val c HW_PARAM_PERIOD_TIME = val c HW_PARAM_PERIOD_SIZE * 1000000 / val c HW_PARAM_RATE"
    "val c HW_PARAM_BUFFER_TIME = val c HW_PARAM_BUFFER_SIZE * 1000000 / val c HW_PARAM_RATE"
    using eqs ne by simp_all
  show ?thesis
    unfolding init_rules_def list.set ball_simps
    by (intro conjI TrueI f m d mk kd; (simp only: rv; fail)?; (rule A | (simp only: rv, rule A) | simp))
qed

lemma complete_rules_admitted:
  assumes pos: "config_positive c" and c: "consistent_config c" and hw: "within_hardware hw bytes_max dma_bytes c"
    and env: "env_hw env = hw" "env_buffer_bytes_max env = bytes_max"
  shows "\<forall>r \<in> set (complete_rules hw). rule_admits env c (core_rule r)"
  using assms positive_values(1) [OF pos, of HW_PARAM_BUFFER_BYTES]
  by (auto simp: complete_rules_def rule_admits_def core_rule_def ivar_def consistent_config_def
      within_hardware_def between_def order_less_imp_le)

text \<open>
  C5: the constraints of a stream. For any configuration that fits a hardware description (its
  formats, access types, limits and rates) and obeys the relations between bits, frames, periods,
  buffers and times, the two constraint functions of the core succeed, and every request that
  contains the configuration is refined, with success and in finitely many rounds, to a subspace
  that still contains it.
\<close>

theorem hw_setup_keeps_configuration:
  assumes "config_positive c" and "consistent_config c" and "within_hardware hw bytes_max dma_bytes c"
    and "\<forall>k \<le> 2. mask_wf (hc_masks cs0 k)" and "hc_rules cs0 = []" and "\<forall>n. alloc n"
    and "env_hw env = hw" and "env_buffer_bytes_max env = bytes_max" and "env_wf env"
    and "env_fifo_ioctl env = snd_pcm_lib_ioctl_fifo_size hw" and "in_space c params"
  shows "\<exists>cs p'. and_then (snd_pcm_hw_constraints_init alloc cs0)
      (snd_pcm_hw_constraints_complete alloc stack hw dma_bytes) = (cs, Inr ()) \<and>
    snd_pcm_hw_refine env cs params = Some (p', Inr ()) \<and> in_space c p' \<and> hw_subspace p' params"
proof -
  have ch: "\<forall>k \<le> 2. c_choice c k < 64"
    using in_space_maskD [OF assms(11)] by (auto simp: mask_elems_iff)
  have ints: "\<forall>k \<in> {HW_PARAM_CHANNELS, HW_PARAM_BUFFER_SIZE, HW_PARAM_BUFFER_BYTES, HW_PARAM_SAMPLE_BITS,
      HW_PARAM_FRAME_BITS}. c_value c k \<in> \<int>"
    using assms(2) by (auto simp: consistent_config_def)
  obtain cs1 where 1: "snd_pcm_hw_constraints_init alloc cs0 = (cs1, Inr ())" "cs_contains c cs1"
    "hc_rules cs1 = map core_rule init_rules"
    using constraints_init_contains [OF assms(4,1) ch ints assms(6)] assms(5) by auto
  have "c_value c HW_PARAM_PERIOD_SIZE \<in> \<int>" using assms(2) by (simp add: consistent_config_def)
  then obtain cs where 2: "snd_pcm_hw_constraints_complete alloc stack hw dma_bytes cs1 = (cs, Inr ())"
    "cs_contains c cs" "hc_rules cs = map core_rule (init_rules @ complete_rules hw)"
    using constraints_complete_contains [OF 1(2) assms(3) _ assms(6), of stack] 1(3)
    by (auto simp: keeps_cs_def)
  have "\<forall>r \<in> set (hc_rules cs). rule_admits env c r"
    using init_rules_admitted [OF assms(1,2)] complete_rules_admitted [OF assms(1-3,7,8)] 2(3) by auto
  then obtain p' where "snd_pcm_hw_refine env cs params = Some (p', Inr ())" "in_space c p'" "hw_subspace p' params"
    using refine_keeps_configuration [OF assms(9) fifo_size_keeps [OF assms(10)] assms(1,11) cs_contains_in [OF 2(2)]]
    by blast
  then show ?thesis using 1 2 by auto
qed

section \<open>A concrete stream\<close>

text \<open>A stereo 16-bit device at 48000 Hz with periods of 1024 frames and a buffer of 4096.\<close>

definition demo_hw :: pcm_hardware where
  "demo_hw = \<lparr>hw_info = 0x100, hw_formats = 4, hw_rates = 0x80, hw_rate_min = 48000, hw_rate_max = 48000,
     hw_channels_min = 1, hw_channels_max = 2, hw_buffer_bytes_max = 65536, hw_period_bytes_min = 64,
     hw_period_bytes_max = 65536, hw_periods_min = 1, hw_periods_max = 1024, hw_fifo_size = 0\<rparr>"

definition demo_config :: config where
  "demo_config = \<lparr>c_choice = (\<lambda>_. 0)(0 := 3, 1 := 2),
     c_value = (\<lambda>_. 1)(8 := 16, 9 := 32, 10 := 2, 11 := 48000, 12 := 64000 / 3, 13 := 1024, 14 := 4096,
       15 := 4, 16 := 256000 / 3, 17 := 4096, 18 := 16384)\<rparr>"

definition demo_env :: refine_env where
  "demo_env = \<lparr>env_hw = demo_hw, env_buffer_bytes_max = 65536, env_stack_interval = zero_interval,
     env_stack_mask = replicate 8 0, env_fifo_ioctl = snd_pcm_lib_ioctl_fifo_size demo_hw\<rparr>"

definition demo_constraints :: hw_constraints where
  "demo_constraints = \<lparr>hc_masks = (\<lambda>_. replicate 8 0xFF), hc_intervals = (\<lambda>_. snd_interval_any zero_interval),
     hc_rules = [], hc_rules_all = 0\<rparr>"

definition demo_params :: hw_params where
  "demo_params = zero_params\<lparr>hp_masks := (\<lambda>_. replicate 8 0xFF), hp_rmask := 0xFFFFFFFF,
     hp_intervals := (\<lambda>_. snd_interval_any zero_interval)\<rparr>"

lemma demo_param_cases:
  "8 \<le> k \<Longrightarrow> k \<le> 19 \<Longrightarrow> k \<in> {8, 9, 10, 11, 12, 13, 14, 15, 16, 17, 18, 19 :: nat}"
  by simp presburger

lemma demo_positive: "config_positive demo_config"
  unfolding config_positive_def
proof (intro allI impI)
  fix k :: nat assume "8 \<le> k \<and> k \<le> 19"
  then show "0 < c_value demo_config k \<and> c_value demo_config k < 4294967295"
    using demo_param_cases [of k] by (auto simp: demo_config_def)
qed

lemma demo_bits: "k \<in> {0, 2, 3} \<Longrightarrow> k \<in> mask_elems (replicate 8 0xFF)"
  by (auto simp: mask_elems_iff)

lemma demo_consistent: "consistent_config demo_config"
  by (simp add: consistent_config_def demo_config_def) code_simp

lemma demo_in_space: "in_space demo_config demo_params"
proof -
  have "in_ivl (hp_intervals demo_params k) (c_value demo_config k)" if "8 \<le> k" "k \<le> 19" for k
    using demo_positive that any_contains [of "c_value demo_config k" zero_interval]
    by (simp add: demo_params_def config_positive_def order_less_imp_le)
  moreover have "c_choice demo_config k \<in> {0, 2, 3}" for k by (simp add: demo_config_def)
  ultimately show ?thesis
    using demo_bits by (simp add: in_space_def mask_wf_def demo_params_def)
qed

lemma demo_within: "within_hardware demo_hw 65536 0 demo_config"
  unfolding within_hardware_def
  by (auto simp: demo_hw_def demo_config_def between_def access_mask_def var_flag_def listed_def
      SNDRV_PCM_RATE_KNOT_def SNDRV_PCM_RATE_CONTINUOUS_def snd_pcm_known_rates_def
      intro!: exI [of _ "7 :: nat"])

theorem hw_setup_keeps_configuration_witness:
  "\<exists>cs p'. and_then (snd_pcm_hw_constraints_init (\<lambda>_. True) demo_constraints)
      (snd_pcm_hw_constraints_complete (\<lambda>_. True) zero_interval demo_hw 0) = (cs, Inr ()) \<and>
    snd_pcm_hw_refine demo_env cs demo_params = Some (p', Inr ()) \<and> in_space demo_config p' \<and>
    hw_subspace p' demo_params"
  by (rule hw_setup_keeps_configuration [OF demo_positive demo_consistent demo_within])
    (simp_all add: demo_constraints_def demo_env_def mask_wf_def env_wf_def demo_in_space)

theorem snd_pcm_hw_refine_keeps_configuration_witness:
  "\<exists>p'. snd_pcm_hw_refine demo_env (demo_constraints\<lparr>hc_rules := map core_rule init_rules\<rparr>) demo_params =
      Some (p', Inr ()) \<and> in_space demo_config p' \<and> hw_subspace p' demo_params \<and> hp_rmask p' = 0"
proof (rule snd_pcm_hw_refine_keeps_configuration)
  show "env_wf demo_env" by (simp add: env_wf_def demo_env_def mask_wf_def)
  show "fifo_keeps demo_env" by (rule fifo_size_keeps [of _ demo_hw]) (simp add: demo_env_def)
  show "in_constraints demo_config (demo_constraints\<lparr>hc_rules := map core_rule init_rules\<rparr>)"
    using demo_in_space by (simp add: in_constraints_def in_space_def demo_constraints_def demo_params_def in_ivl_def)
  show "\<forall>r \<in> set (hc_rules (demo_constraints\<lparr>hc_rules := map core_rule init_rules\<rparr>)).
      rule_enabled demo_params r \<longrightarrow> rule_admits demo_env demo_config r"
    using init_rules_admitted [OF demo_positive demo_consistent] by simp
qed (rule demo_positive demo_in_space)+

text \<open>
  The default FIFO\_SIZE ioctl divides a FIFO size in bytes by the number of bits of a frame, so
  a FIFO of 64 bytes is reported as 2 stereo 16-bit frames instead of 16.
\<close>

theorem snd_pcm_lib_ioctl_fifo_size_in_bits:
  "hp_fifo_size (fst (snd_pcm_lib_ioctl_fifo_size (demo_hw\<lparr>hw_fifo_size := 64\<rparr>)
     (zero_params\<lparr>hp_masks := (\<lambda>_. [4, 0, 0, 0, 0, 0, 0, 0]),
        hp_intervals := (\<lambda>_. ivl 2 False 2 False True)\<rparr>))) = 2 \<and>
   snd_pcm_format_size 2 (16 * 2) = Inr 64"
proof
  have "snd_mask_min [4, 0, 0, 0, 0, 0, 0, 0] = 2" by code_simp
  moreover have "snd_pcm_format_physical_width 2 = Inr 16" by code_simp
  ultimately show "hp_fifo_size (fst (snd_pcm_lib_ioctl_fifo_size (demo_hw\<lparr>hw_fifo_size := 64\<rparr>)
     (zero_params\<lparr>hp_masks := (\<lambda>_. [4, 0, 0, 0, 0, 0, 0, 0]),
        hp_intervals := (\<lambda>_. ivl 2 False 2 False True)\<rparr>))) = 2"
    by (simp add: snd_pcm_lib_ioctl_fifo_size_def demo_hw_def)
  show "snd_pcm_format_size 2 (16 * 2) = Inr 64" by code_simp
qed

end
