(* ===== verification/Pcm_Runtime.thy ===== *)
theory Pcm_Runtime
  imports Pcm_Constraints
begin

text \<open>
  The state of PCM streams: \<open>struct snd_pcm_runtime\<close> with its mmap status and control records,
  \<open>struct snd_pcm_substream\<close>, groups of linked streams, the operations of a driver, and the
  position arithmetic of \<open>include/sound/pcm.h\<close>. A world holds all streams, the state \<open>'h\<close> of
  the hardware and its drivers, and the clocks, which stand still during one call. Timestamps are
  nanoseconds. Streams are numbered; a pointer to a stream is its number.
\<close>

section \<open>State\<close>

datatype pcm_state =
    S_OPEN | S_SETUP | S_PREPARED | S_RUNNING | S_XRUN | S_DRAINING | S_PAUSED | S_SUSPENDED
  | S_DISCONNECTED

record runtime =
  rt_state :: pcm_state
  rt_suspended_state :: pcm_state
  rt_hw_ptr :: u64
  rt_tstamp :: u64
  rt_audio_tstamp :: u64
  rt_appl_ptr :: u64
  rt_avail_min :: u64
  rt_trigger_master :: "nat option"
  rt_trigger_tstamp :: u64
  rt_overrange :: u32
  rt_avail_max :: u64
  rt_hw_ptr_base :: u64
  rt_hw_ptr_interrupt :: u64
  rt_hw_ptr_jiffies :: u64
  rt_hw_ptr_buffer_jiffies :: u64
  rt_delay :: u64
  rt_hw_ptr_wrap :: u64
  rt_access :: nat
  rt_format :: int
  rt_subformat :: nat
  rt_rate :: u32
  rt_channels :: u32
  rt_period_size :: u64
  rt_periods :: u32
  rt_buffer_size :: u64
  rt_min_align :: u64
  rt_byte_align :: u64
  rt_frame_bits :: u32
  rt_sample_bits :: u32
  rt_info :: u32
  rt_rate_num :: u32
  rt_rate_den :: u32
  rt_no_period_wakeup :: bool
  rt_tstamp_mode :: bool
  rt_period_step :: u32
  rt_start_threshold :: u64
  rt_stop_threshold :: u64
  rt_silence_threshold :: u64
  rt_silence_size :: u64
  rt_boundary :: u64
  rt_silence_start :: u64
  rt_silence_filled :: u64
  rt_twake :: u64
  rt_hw :: pcm_hardware
  rt_constraints :: hw_constraints
  rt_tstamp_monotonic :: bool
  rt_timer_resolution :: u64
  rt_dma_area :: "u8 list"
  rt_dma_bytes :: u64

text \<open>\<open>Self s\<close> is the \<open>self_group\<close> of stream \<open>s\<close>, \<open>Shared g\<close> an allocated group.\<close>

datatype group_id = Self nat | Shared nat

record substream =
  ss_playback :: bool
  ss_rt :: runtime
  ss_group :: group_id
  ss_f_nonblock :: bool
  ss_has_timer :: bool
  ss_timer_running :: bool
  ss_mmap_count :: nat
  ss_buffer_bytes_max :: u64

datatype timer_event = MSTART | MSTOP | MPAUSE | MCONTINUE | MSUSPEND | MRESUME

text \<open>Effects outside the streams, in the order in which they happen.\<close>

datatype pcm_effect =
    Timer_notify nat timer_event u64 | Timer_interrupt nat | Wake_sleep nat | Wake_tsleep nat | Kill_fasync nat

record 'h pcm_world =
  w_subs :: "nat \<Rightarrow> substream"
  w_groups :: "nat \<Rightarrow> nat list"
  w_group_count :: "nat \<Rightarrow> int"
  w_hw :: 'h
  w_jiffies :: u64
  w_monotonic :: u64
  w_realtime :: u64
  w_effects :: "pcm_effect list"

text \<open>The trigger commands of \<open>include/sound/pcm.h\<close>.\<close>

datatype trigger_cmd =
    TRIGGER_STOP | TRIGGER_START | TRIGGER_PAUSE_PUSH | TRIGGER_PAUSE_RELEASE
  | TRIGGER_SUSPEND | TRIGGER_RESUME

text \<open>
  A driver: its callbacks as functions on the hardware state. \<open>op_trigger\<close> also returns the calls
  of \<open>snd_pcm_trigger_done(s, master)\<close> the driver made, \<open>op_pointer\<close> a new value of \<open>runtime->delay\<close> if
  the driver sets one, \<open>op_copy\<close> the user memory (read for playback, written for capture).
  \<open>op_wall_clock\<close>, \<open>op_copy\<close>, \<open>op_silence\<close>, \<open>op_ack\<close> and \<open>op_reset\<close> (the RESET ioctl, when it is not
  \<open>snd_pcm_lib_ioctl\<close>) may be absent. The record
  also holds the configuration of the kernel: \<open>HZ\<close> and the jiffies check of
  \<open>CONFIG_SND_PCM_XRUN_DEBUG\<close>, and the contents of an uninitialised timestamp on the stack.
\<close>

record 'h pcm_ops =
  op_trigger :: "nat \<Rightarrow> trigger_cmd \<Rightarrow> 'h \<Rightarrow> 'h \<times> (nat \<times> nat) list \<times> unit res"
  op_prepare :: "nat \<Rightarrow> 'h \<Rightarrow> 'h \<times> unit res"
  op_pointer :: "nat \<Rightarrow> 'h \<Rightarrow> 'h \<times> u64 \<times> u64 option"
  op_wall_clock :: "(nat \<Rightarrow> 'h \<Rightarrow> u64) option"
  op_copy :: "(nat \<Rightarrow> int \<Rightarrow> u64 \<Rightarrow> u8 list \<Rightarrow> u64 \<Rightarrow> 'h \<Rightarrow> 'h \<times> u8 list \<times> unit res) option"
  op_silence :: "(nat \<Rightarrow> int \<Rightarrow> u64 \<Rightarrow> u64 \<Rightarrow> 'h \<Rightarrow> 'h \<times> unit res) option"
  op_ack :: "(nat \<Rightarrow> 'h \<Rightarrow> 'h) option"
  op_reset :: "(nat \<Rightarrow> 'h pcm_world \<Rightarrow> 'h pcm_world \<times> unit res) option"
  op_hw_params :: "(nat \<Rightarrow> hw_params \<Rightarrow> 'h pcm_world \<Rightarrow> 'h pcm_world \<times> hw_params \<times> unit res) option"
  op_hw_free :: "(nat \<Rightarrow> 'h pcm_world \<Rightarrow> 'h pcm_world \<times> unit res) option"
  k_HZ :: u64
  k_jiffies_check :: bool
  k_stack_time :: u64

section \<open>Access to a stream\<close>

definition rt :: "'h pcm_world \<Rightarrow> nat \<Rightarrow> runtime" where
  "rt w s = ss_rt (w_subs w s)"

definition upd_sub :: "nat \<Rightarrow> (substream \<Rightarrow> substream) \<Rightarrow> 'h pcm_world \<Rightarrow> 'h pcm_world" where
  "upd_sub s f w = w\<lparr>w_subs := (w_subs w)(s := f (w_subs w s))\<rparr>"

definition upd_rt :: "nat \<Rightarrow> (runtime \<Rightarrow> runtime) \<Rightarrow> 'h pcm_world \<Rightarrow> 'h pcm_world" where
  "upd_rt s f = upd_sub s (\<lambda>u. u\<lparr>ss_rt := f (ss_rt u)\<rparr>)"

definition playback :: "'h pcm_world \<Rightarrow> nat \<Rightarrow> bool" where
  "playback w s = ss_playback (w_subs w s)"

definition add_effects :: "pcm_effect list \<Rightarrow> 'h pcm_world \<Rightarrow> 'h pcm_world" where
  "add_effects es w = w\<lparr>w_effects := w_effects w @ es\<rparr>"

definition timer_notify :: "nat \<Rightarrow> timer_event \<Rightarrow> 'h pcm_world \<Rightarrow> 'h pcm_world" where
  "timer_notify s e w =
     (if ss_has_timer (w_subs w s) then add_effects [Timer_notify s e (rt_trigger_tstamp (rt w s))] w else w)"

definition wake_both :: "nat \<Rightarrow> 'h pcm_world \<Rightarrow> 'h pcm_world" where
  "wake_both s = add_effects [Wake_sleep s, Wake_tsleep s]"

definition snd_pcm_gettime :: "'h pcm_world \<Rightarrow> nat \<Rightarrow> u64" where
  "snd_pcm_gettime w s = (if rt_tstamp_monotonic (rt w s) then w_monotonic w else w_realtime w)"

definition snd_pcm_running :: "'h pcm_world \<Rightarrow> nat \<Rightarrow> bool" where
  "snd_pcm_running w s \<longleftrightarrow>
     rt_state (rt w s) = S_RUNNING \<or> (rt_state (rt w s) = S_DRAINING \<and> playback w s)"

definition snd_pcm_stream_linked :: "'h pcm_world \<Rightarrow> nat \<Rightarrow> bool" where
  "snd_pcm_stream_linked w s \<longleftrightarrow> ss_group (w_subs w s) \<noteq> Self s"

text \<open>The list \<open>substreams\<close> of a group; that of a self group holds its stream.\<close>

definition group_members :: "'h pcm_world \<Rightarrow> nat \<Rightarrow> nat list" where
  "group_members w s = (case ss_group (w_subs w s) of Self k \<Rightarrow> [k] | Shared g \<Rightarrow> w_groups w g)"

lemma rt_upd_rt [simp]: "rt (upd_rt s f w) t = (if t = s then f (rt w s) else rt w t)"
  by (simp add: rt_def upd_rt_def upd_sub_def)

lemma upd_rt_frame [simp]:
  "ss_playback (w_subs (upd_rt s f w) t) = ss_playback (w_subs w t)"
  "ss_group (w_subs (upd_rt s f w) t) = ss_group (w_subs w t)"
  "ss_f_nonblock (w_subs (upd_rt s f w) t) = ss_f_nonblock (w_subs w t)"
  "ss_has_timer (w_subs (upd_rt s f w) t) = ss_has_timer (w_subs w t)"
  "ss_mmap_count (w_subs (upd_rt s f w) t) = ss_mmap_count (w_subs w t)"
  "ss_timer_running (w_subs (upd_rt s f w) t) = ss_timer_running (w_subs w t)"
  "w_groups (upd_rt s f w) = w_groups w" "w_group_count (upd_rt s f w) = w_group_count w"
  "w_hw (upd_rt s f w) = w_hw w" "w_jiffies (upd_rt s f w) = w_jiffies w"
  "w_monotonic (upd_rt s f w) = w_monotonic w" "w_realtime (upd_rt s f w) = w_realtime w"
  "w_effects (upd_rt s f w) = w_effects w"
  "playback (upd_rt s f w) t = playback w t"
  "group_members (upd_rt s f w) t = group_members w t"
  "snd_pcm_stream_linked (upd_rt s f w) t = snd_pcm_stream_linked w t"
  by (simp_all add: upd_rt_def upd_sub_def playback_def group_members_def snd_pcm_stream_linked_def
      split: group_id.split)

lemma add_effects_frame [simp]:
  "w_subs (add_effects es w) = w_subs w" "rt (add_effects es w) t = rt w t"
  "playback (add_effects es w) t = playback w t"
  "w_groups (add_effects es w) = w_groups w" "w_group_count (add_effects es w) = w_group_count w"
  "w_hw (add_effects es w) = w_hw w" "w_jiffies (add_effects es w) = w_jiffies w"
  "group_members (add_effects es w) t = group_members w t"
  "snd_pcm_stream_linked (add_effects es w) t = snd_pcm_stream_linked w t"
  by (simp_all add: add_effects_def rt_def playback_def group_members_def snd_pcm_stream_linked_def
      split: group_id.split)

section \<open>Signed 64-bit arithmetic\<close>

text \<open>C's division of \<open>long\<close> rounds towards zero.\<close>

definition sdiv64 :: "u64 \<Rightarrow> u64 \<Rightarrow> u64" where
  "sdiv64 a b = word_of_int (sgn (sint a) * sgn (sint b) * (\<bar>sint a\<bar> div \<bar>sint b\<bar>))"

definition bytes_to_samples :: "runtime \<Rightarrow> u64 \<Rightarrow> u64" where
  "bytes_to_samples r sz = sdiv64 (sz * 8) (ucast (rt_sample_bits r))"

definition bytes_to_frames :: "runtime \<Rightarrow> u64 \<Rightarrow> u64" where
  "bytes_to_frames r sz = sdiv64 (sz * 8) (ucast (rt_frame_bits r))"

definition samples_to_bytes :: "runtime \<Rightarrow> u64 \<Rightarrow> u64" where
  "samples_to_bytes r sz = sdiv64 (sz * ucast (rt_sample_bits r)) 8"

definition frames_to_bytes :: "runtime \<Rightarrow> u64 \<Rightarrow> u64" where
  "frames_to_bytes r sz = sdiv64 (sz * ucast (rt_frame_bits r)) 8"

definition snd_pcm_lib_buffer_bytes :: "runtime \<Rightarrow> u64" where
  "snd_pcm_lib_buffer_bytes r = frames_to_bytes r (rt_buffer_size r)"

definition snd_pcm_lib_period_bytes :: "runtime \<Rightarrow> u64" where
  "snd_pcm_lib_period_bytes r = frames_to_bytes r (rt_period_size r)"

section \<open>Positions\<close>

definition snd_pcm_playback_avail :: "runtime \<Rightarrow> u64" where
  "snd_pcm_playback_avail r =
     (let avail = rt_hw_ptr r + rt_buffer_size r - rt_appl_ptr r
      in if sint avail < 0 then avail + rt_boundary r
         else if avail \<ge> rt_boundary r then avail - rt_boundary r
         else avail)"

definition snd_pcm_capture_avail :: "runtime \<Rightarrow> u64" where
  "snd_pcm_capture_avail r =
     (let avail = rt_hw_ptr r - rt_appl_ptr r
      in if sint avail < 0 then avail + rt_boundary r else avail)"

definition snd_pcm_playback_hw_avail :: "runtime \<Rightarrow> u64" where
  "snd_pcm_playback_hw_avail r = rt_buffer_size r - snd_pcm_playback_avail r"

definition snd_pcm_capture_hw_avail :: "runtime \<Rightarrow> u64" where
  "snd_pcm_capture_hw_avail r = rt_buffer_size r - snd_pcm_capture_avail r"

definition snd_pcm_playback_ready :: "runtime \<Rightarrow> bool" where
  "snd_pcm_playback_ready r \<longleftrightarrow> snd_pcm_playback_avail r \<ge> rt_avail_min r"

definition snd_pcm_capture_ready :: "runtime \<Rightarrow> bool" where
  "snd_pcm_capture_ready r \<longleftrightarrow> snd_pcm_capture_avail r \<ge> rt_avail_min r"

definition snd_pcm_playback_data :: "runtime \<Rightarrow> bool" where
  "snd_pcm_playback_data r \<longleftrightarrow>
     (if rt_stop_threshold r \<ge> rt_boundary r then True else snd_pcm_playback_avail r < rt_buffer_size r)"

definition snd_pcm_playback_empty :: "runtime \<Rightarrow> bool" where
  "snd_pcm_playback_empty r \<longleftrightarrow> snd_pcm_playback_avail r \<ge> rt_buffer_size r"

definition snd_pcm_capture_empty :: "runtime \<Rightarrow> bool" where
  "snd_pcm_capture_empty r \<longleftrightarrow> snd_pcm_capture_avail r = 0"

section \<open>The ring\<close>

text \<open>
  What \<open>hw_params\<close> establishes and every position update keeps: a boundary that is a multiple of
  the buffer and stays below half the range of \<open>long\<close>, and positions below the boundary.
\<close>

definition ring_wf :: "runtime \<Rightarrow> bool" where
  "ring_wf r \<longleftrightarrow> rt_buffer_size r \<noteq> 0 \<and> unat (rt_buffer_size r) dvd unat (rt_boundary r) \<and>
     unat (rt_buffer_size r) \<le> unat (rt_boundary r) \<and>
     unat (rt_boundary r) + unat (rt_buffer_size r) < 2 ^ 63 \<and>
     rt_hw_ptr r < rt_boundary r \<and> rt_appl_ptr r < rt_boundary r"

lemma sint_u64: "sint (w :: u64) = (if unat w < 2 ^ 63 then int (unat w) else int (unat w) - 2 ^ 64)"
proof -
  have u: "uint w = int (unat w)" "uint w < 2 ^ 64" "0 \<le> uint w"
    using unat_u64_lt [of w] by (simp_all add: uint_int_unat)
  have "bit (uint w) 63 \<longleftrightarrow> 2 ^ 63 \<le> uint w"
  proof -
    have "uint w div 2 ^ 63 = (if 2 ^ 63 \<le> uint w then 1 else 0)"
      using u by (auto simp: div_pos_pos_trivial intro: int_div_pos_eq [where r = "uint w - 2 ^ 63"])
    then show ?thesis by (simp add: bit_iff_odd)
  qed
  then have "sint w = uint w - 2 ^ 64 * of_bool (2 ^ 63 \<le> uint w)"
    using u by (simp add: sint_uint signed_take_bit_eq_take_bit_minus take_bit_int_eq_self)
  then show ?thesis using u(1) by (auto simp: not_less)
qed

lemma sint_nonneg_iff: "sint (w :: u64) < 0 \<longleftrightarrow> 2 ^ 63 \<le> unat w"
  using unat_u64_lt [of w] by (auto simp: sint_u64)

text \<open>Words as residues: a computation on words is determined by the integers behind it.\<close>

lemma unat_word_of_int: "0 \<le> k \<Longrightarrow> k < 2 ^ 64 \<Longrightarrow> int (unat (word_of_int k :: u64)) = k"
  by (simp add: uint_word_of_int take_bit_int_eq_self flip: uint_int_unat)

lemma word_as_int: "(w :: u64) = word_of_int (int (unat w))"
  by simp

lemma mod_one_below: "- m < d \<Longrightarrow> d < 0 \<Longrightarrow> d mod m = d + (m :: int)"
  using mod_pos_pos_trivial [of "d + m" m] by simp

lemma mod_one_above: "m \<le> d \<Longrightarrow> d < 2 * m \<Longrightarrow> d mod m = d - (m :: int)"
  using mod_pos_pos_trivial [of "d - m" m] minus_mod_self2 [of d m] by simp

lemma playback_avail_mod:
  assumes "ring_wf r"
  shows "int (unat (snd_pcm_playback_avail r)) =
    (int (unat (rt_hw_ptr r)) + int (unat (rt_buffer_size r)) - int (unat (rt_appl_ptr r))) mod int (unat (rt_boundary r))"
proof -
  let ?h = "int (unat (rt_hw_ptr r))" and ?b = "int (unat (rt_buffer_size r))"
    and ?a = "int (unat (rt_appl_ptr r))" and ?B = "int (unat (rt_boundary r))"
  define d where "d = ?h + ?b - ?a"
  have lim: "?h < ?B" "?a < ?B" "?b \<le> ?B" "?B + ?b < 2 ^ 63" "0 < ?b"
    using assms by (auto simp: ring_wf_def word_nat)
  then have d: "- ?B < d" "d < 2 * ?B" "d < ?B + ?b" by (simp_all add: d_def)
  let ?avail = "rt_hw_ptr r + rt_buffer_size r - rt_appl_ptr r"
  have w: "?avail = word_of_int d" by (simp add: d_def)
  show ?thesis
  proof (cases "d < 0")
    case True
    have w2: "?avail = word_of_int (d + 2 ^ 64)" unfolding w by simp
    have u: "int (unat ?avail) = d + 2 ^ 64"
      unfolding w2 by (rule unat_word_of_int) (use True d lim in simp_all)
    then have neg: "sint ?avail < 0" using d lim by (simp add: sint_nonneg_iff)
    have "?avail + rt_boundary r = word_of_int (d + ?B)" using w by simp
    then have "int (unat (snd_pcm_playback_avail r)) = d + ?B"
      using neg d lim True unat_word_of_int [of "d + ?B"] by (simp add: snd_pcm_playback_avail_def Let_def)
    moreover have "d mod ?B = d + ?B" using True d by (simp add: mod_one_below)
    ultimately show ?thesis by (simp add: d_def)
  next
    case False
    have u: "int (unat ?avail) = d"
      using False d lim unat_word_of_int [of d] w by simp
    then have pos: "\<not> sint ?avail < 0" using d lim by (simp add: sint_nonneg_iff)
    show ?thesis
    proof (cases "d < ?B")
      case True
      then have "\<not> ?avail \<ge> rt_boundary r" using u by (simp add: word_le_nat_alt)
      then show ?thesis using pos u True False by (simp add: snd_pcm_playback_avail_def Let_def d_def)
    next
      case F: False
      then have ge: "?avail \<ge> rt_boundary r" using u by (simp add: word_le_nat_alt)
      have "int (unat (?avail - rt_boundary r)) = d - ?B"
        using ge u by (simp add: unat_sub_nowrap word_le_nat_alt)
      moreover have "d mod ?B = d - ?B" using F d by (simp add: mod_one_above)
      ultimately show ?thesis using pos ge by (simp add: snd_pcm_playback_avail_def Let_def d_def)
    qed
  qed
qed

lemma capture_avail_mod:
  assumes "ring_wf r"
  shows "int (unat (snd_pcm_capture_avail r)) =
    (int (unat (rt_hw_ptr r)) - int (unat (rt_appl_ptr r))) mod int (unat (rt_boundary r))"
proof -
  let ?h = "int (unat (rt_hw_ptr r))" and ?a = "int (unat (rt_appl_ptr r))" and ?B = "int (unat (rt_boundary r))"
  define d where "d = ?h - ?a"
  have lim: "?h < ?B" "?a < ?B" "?B < 2 ^ 63"
    using assms by (auto simp: ring_wf_def word_nat)
  then have d: "- ?B < d" "d < ?B" by (simp_all add: d_def)
  have w: "rt_hw_ptr r - rt_appl_ptr r = word_of_int d" by (simp add: d_def)
  show ?thesis
  proof (cases "d < 0")
    case True
    have w2: "rt_hw_ptr r - rt_appl_ptr r = word_of_int (d + 2 ^ 64)" unfolding w by simp
    have u: "int (unat (rt_hw_ptr r - rt_appl_ptr r)) = d + 2 ^ 64"
      unfolding w2 by (rule unat_word_of_int) (use True d lim in simp_all)
    then have neg: "sint (rt_hw_ptr r - rt_appl_ptr r) < 0" using d lim by (simp add: sint_nonneg_iff)
    have "rt_hw_ptr r - rt_appl_ptr r + rt_boundary r = word_of_int (d + ?B)" using w by simp
    then have "int (unat (snd_pcm_capture_avail r)) = d + ?B"
      using neg d lim True unat_word_of_int [of "d + ?B"] by (simp add: snd_pcm_capture_avail_def Let_def)
    moreover have "d mod ?B = d + ?B" using True d by (simp add: mod_one_below)
    ultimately show ?thesis by (simp add: d_def)
  next
    case False
    have u: "int (unat (rt_hw_ptr r - rt_appl_ptr r)) = d"
      using False d lim unat_word_of_int [of d] w by simp
    then have "\<not> sint (rt_hw_ptr r - rt_appl_ptr r) < 0" using d lim by (simp add: sint_nonneg_iff)
    then show ?thesis using u d False by (simp add: snd_pcm_capture_avail_def Let_def d_def)
  qed
qed

section \<open>A concrete runtime\<close>

text \<open>An opened stream before \<open>hw_params\<close>, and one with a buffer of 4096 stereo 16-bit frames.\<close>

definition zero_hardware :: pcm_hardware where
  "zero_hardware = \<lparr>hw_info = 0, hw_formats = 0, hw_rates = 0, hw_rate_min = 0, hw_rate_max = 0,
     hw_channels_min = 0, hw_channels_max = 0, hw_buffer_bytes_max = 0, hw_period_bytes_min = 0,
     hw_period_bytes_max = 0, hw_periods_min = 0, hw_periods_max = 0, hw_fifo_size = 0\<rparr>"

definition zero_constraints :: hw_constraints where
  "zero_constraints = \<lparr>hc_masks = (\<lambda>_. replicate 8 0), hc_intervals = (\<lambda>_. zero_interval), hc_rules = [],
     hc_rules_all = 0\<rparr>"

definition zero_runtime :: runtime where
  "zero_runtime = \<lparr>rt_state = S_OPEN, rt_suspended_state = S_OPEN, rt_hw_ptr = 0, rt_tstamp = 0,
     rt_audio_tstamp = 0, rt_appl_ptr = 0, rt_avail_min = 0, rt_trigger_master = None,
     rt_trigger_tstamp = 0, rt_overrange = 0, rt_avail_max = 0, rt_hw_ptr_base = 0,
     rt_hw_ptr_interrupt = 0, rt_hw_ptr_jiffies = 0, rt_hw_ptr_buffer_jiffies = 0, rt_delay = 0,
     rt_hw_ptr_wrap = 0, rt_access = 0, rt_format = 0, rt_subformat = 0, rt_rate = 0, rt_channels = 0,
     rt_period_size = 0, rt_periods = 0, rt_buffer_size = 0, rt_min_align = 0, rt_byte_align = 0,
     rt_frame_bits = 0, rt_sample_bits = 0, rt_info = 0, rt_rate_num = 0, rt_rate_den = 0,
     rt_no_period_wakeup = False, rt_tstamp_mode = False, rt_period_step = 0, rt_start_threshold = 0,
     rt_stop_threshold = 0, rt_silence_threshold = 0, rt_silence_size = 0, rt_boundary = 0,
     rt_silence_start = 0, rt_silence_filled = 0, rt_twake = 0, rt_hw = zero_hardware,
     rt_constraints = zero_constraints, rt_tstamp_monotonic = False, rt_timer_resolution = 0, rt_dma_area = [], rt_dma_bytes = 0\<rparr>"

definition demo_runtime :: runtime where
  "demo_runtime = zero_runtime\<lparr>rt_state := S_PREPARED, rt_hw_ptr := 100, rt_appl_ptr := 8000,
     rt_access := 3, rt_format := 2, rt_rate := 48000, rt_channels := 2, rt_period_size := 1024,
     rt_periods := 4, rt_buffer_size := 4096, rt_min_align := 1, rt_byte_align := 4, rt_frame_bits := 32,
     rt_sample_bits := 16, rt_stop_threshold := 4096, rt_boundary := 8192\<rparr>"

lemma demo_ring: "ring_wf demo_runtime"
  by (simp add: ring_wf_def demo_runtime_def)

text \<open>
  the free and the filled part of the ring. With positions below the boundary,
  \<open>snd_pcm_playback_avail\<close> is the distance from the application pointer to one buffer ahead of
  the hardware pointer and \<open>snd_pcm_capture_avail\<close> the distance from the application pointer to
  the hardware pointer, both around a ring of \<open>boundary\<close> frames, whatever the wrap-around of the
  64-bit difference.
\<close>

theorem snd_pcm_avail_mod_boundary:
  assumes "ring_wf r"
  shows "int (unat (snd_pcm_playback_avail r)) =
      (int (unat (rt_hw_ptr r)) + int (unat (rt_buffer_size r)) - int (unat (rt_appl_ptr r))) mod int (unat (rt_boundary r)) \<and>
    int (unat (snd_pcm_capture_avail r)) =
      (int (unat (rt_hw_ptr r)) - int (unat (rt_appl_ptr r))) mod int (unat (rt_boundary r)) \<and>
    snd_pcm_playback_avail r < rt_boundary r \<and> snd_pcm_capture_avail r < rt_boundary r"
proof -
  have B: "0 < int (unat (rt_boundary r))" using assms by (auto simp: ring_wf_def word_nat)
  note P = playback_avail_mod [OF assms] and C = capture_avail_mod [OF assms]
  have "int (unat (snd_pcm_playback_avail r)) < int (unat (rt_boundary r))" unfolding P using B by simp
  moreover have "int (unat (snd_pcm_capture_avail r)) < int (unat (rt_boundary r))" unfolding C using B by simp
  ultimately show ?thesis using P C unfolding word_less_nat_alt of_nat_less_iff by blast
qed

theorem snd_pcm_avail_mod_boundary_witness:
  "int (unat (snd_pcm_playback_avail demo_runtime)) =
      (int (unat (rt_hw_ptr demo_runtime)) + int (unat (rt_buffer_size demo_runtime)) -
         int (unat (rt_appl_ptr demo_runtime))) mod int (unat (rt_boundary demo_runtime)) \<and>
    int (unat (snd_pcm_capture_avail demo_runtime)) =
      (int (unat (rt_hw_ptr demo_runtime)) - int (unat (rt_appl_ptr demo_runtime)))
         mod int (unat (rt_boundary demo_runtime)) \<and>
    snd_pcm_playback_avail demo_runtime < rt_boundary demo_runtime \<and>
    snd_pcm_capture_avail demo_runtime < rt_boundary demo_runtime"
  by (rule snd_pcm_avail_mod_boundary [OF demo_ring])

end
