(* ===== verification/Pcm_Silence.thy ===== *)
theory Pcm_Silence
  imports Pcm_Runtime
begin

text \<open>
  Filling the ring buffer with silence ahead of the hardware: \<open>snd_pcm_playback_silence\<close> of
  \<open>sound/core/pcm_lib.c\<close>. \<open>silence_plan\<close> is the part that updates \<open>silence_start\<close> and
  \<open>silence_filled\<close> and computes the number of frames; \<open>silence_loop\<close> writes them, at most up to
  the end of the buffer in one round.
\<close>

section \<open>One chunk\<close>

definition write_area :: "nat \<Rightarrow> (u8 list \<Rightarrow> u8 list) \<Rightarrow> runtime \<Rightarrow> runtime" where
  "write_area off f r = r\<lparr>rt_dma_area := take off (rt_dma_area r) @ f (drop off (rt_dma_area r))\<rparr>"

definition set_silence_at :: "u64 \<Rightarrow> u32 \<Rightarrow> runtime \<Rightarrow> runtime" where
  "set_silence_at off samples r =
     write_area (unat off) (\<lambda>bs. fst (snd_pcm_format_set_silence (rt_format r) bs samples)) r"

definition silence_chunk :: "'h pcm_ops \<Rightarrow> nat \<Rightarrow> u64 \<Rightarrow> u64 \<Rightarrow> 'h pcm_world \<Rightarrow> 'h pcm_world" where
  "silence_chunk ops s ofs transfer w =
     (let r = rt w s; channels = rt_channels r in
      if rt_access r = 3 \<or> rt_access r = 0 then
        (case op_silence ops of
           Some f \<Rightarrow> w\<lparr>w_hw := fst (f s (-1) ofs transfer (w_hw w))\<rparr>
         | None \<Rightarrow> upd_rt s (set_silence_at (frames_to_bytes r ofs) (ucast (transfer * ucast channels))) w)
      else
        (case op_silence ops of
           Some f \<Rightarrow> w\<lparr>w_hw := fold (\<lambda>c h. fst (f s (int c) ofs transfer h)) [0..<unat channels] (w_hw w)\<rparr>
         | None \<Rightarrow>
             let dma_csize = rt_dma_bytes r div ucast channels
             in upd_rt s (fold (\<lambda>c. set_silence_at (of_nat c * dma_csize + samples_to_bytes r ofs) (ucast transfer))
                  [0..<unat channels]) w))"

section \<open>The loop over chunks\<close>

definition silence_transfer :: "u64 \<Rightarrow> u64 \<Rightarrow> u64 \<Rightarrow> u64" where
  "silence_transfer buffer_size ofs frames =
     (if ofs + frames > buffer_size then buffer_size - ofs else frames)"

text \<open>The offset is always inside the buffer (the caller takes it modulo the buffer size, later
  rounds start at 0); the test of the offset only makes the function total.\<close>

function silence_loop :: "'h pcm_ops \<Rightarrow> nat \<Rightarrow> u64 \<Rightarrow> u64 \<Rightarrow> 'h pcm_world \<Rightarrow> 'h pcm_world" where
  "silence_loop ops s ofs frames w =
     (if frames = 0 \<or> ofs \<ge> rt_buffer_size (rt w s) then w
      else let transfer = silence_transfer (rt_buffer_size (rt w s)) ofs frames;
               w1 = upd_rt s (\<lambda>r. r\<lparr>rt_silence_filled := rt_silence_filled r + transfer\<rparr>)
                      (silence_chunk ops s ofs transfer w)
           in silence_loop ops s 0 (frames - transfer) w1)"
  by pat_completeness auto

lemma silence_transfer_pos:
  assumes "frames \<noteq> 0" "ofs < bs"
  shows "0 < unat (silence_transfer bs ofs frames) \<and> silence_transfer bs ofs frames \<le> frames"
proof (cases "ofs + frames > bs")
  case True
  have d: "unat (bs - ofs) = unat bs - unat ofs" using assms(2) by (simp add: unat_sub_nowrap order_less_imp_le)
  have o: "unat ofs < unat bs" using assms(2) by (simp add: word_less_nat_alt)
  have "unat bs < unat ofs + unat frames"
  proof -
    have "unat (ofs + frames) \<le> unat ofs + unat frames" by (simp add: unat_word_ariths)
    then show ?thesis using True by (simp add: word_less_nat_alt)
  qed
  then show ?thesis using True d o by (simp add: silence_transfer_def word_le_nat_alt)
next
  case False
  then show ?thesis using assms(1) by (simp add: silence_transfer_def unat_gt_0)
qed

termination silence_loop
proof (relation "measure (\<lambda>(ops, s, ofs, frames, w). unat frames)")
  fix ops :: "'h pcm_ops" and s ofs frames and w w1 :: "'h pcm_world" and transfer
  assume a: "\<not> (frames = 0 \<or> rt_buffer_size (rt w s) \<le> ofs)"
    and t: "transfer = silence_transfer (rt_buffer_size (rt w s)) ofs frames"
  have "0 < unat transfer \<and> transfer \<le> frames"
    unfolding t by (rule silence_transfer_pos) (use a in auto)
  then show "((ops, s, 0, frames - transfer, w1), ops, s, ofs, frames, w) \<in> measure (\<lambda>(ops, s, ofs, frames, w). unat frames)"
    using a by (auto simp: unat_sub_nowrap unat_gt_0 word_le_nat_alt)
qed simp

declare silence_loop.simps [simp del]

section \<open>How much to fill\<close>

text \<open>The comparison of the signed \<open>avail\<close> with \<open>buffer_size\<close> is an unsigned one in C.\<close>

definition silence_plan :: "u64 \<Rightarrow> runtime \<Rightarrow> runtime \<times> u64 option" where
  "silence_plan new_hw_ptr r =
     (if rt_silence_size r < rt_boundary r then
        (let r1 = (if rt_silence_start r \<noteq> rt_appl_ptr r then
                     (let n0 = rt_appl_ptr r - rt_silence_start r;
                          n = (if sint n0 < 0 then n0 + rt_boundary r else n0)
                      in r\<lparr>rt_silence_filled := (if n < rt_silence_filled r then rt_silence_filled r - n else 0),
                           rt_silence_start := rt_appl_ptr r\<rparr>)
                   else r)
         in if rt_silence_filled r1 \<ge> rt_buffer_size r1 then (r1, None)
            else let noise_dist = snd_pcm_playback_hw_avail r1 + rt_silence_filled r1
                 in if sint noise_dist \<ge> sint (rt_silence_threshold r1) then (r1, None)
                    else let frames = rt_silence_threshold r1 - noise_dist
                         in (r1, Some (if frames > rt_silence_size r1 then rt_silence_size r1 else frames)))
      else
        (let r1 = (if new_hw_ptr = ULONG_MAX then
                     (let avail0 = snd_pcm_playback_hw_avail r;
                          avail = (if avail0 > rt_buffer_size r then rt_buffer_size r else avail0);
                          filled = (if sint avail > 0 then avail else 0)
                      in r\<lparr>rt_silence_filled := filled,
                           rt_silence_start := (rt_hw_ptr r + filled) mod rt_boundary r\<rparr>)
                   else
                     (let ofs = rt_hw_ptr r;
                          frames0 = new_hw_ptr - ofs;
                          frames = (if sint frames0 < 0 then frames0 + rt_boundary r else frames0);
                          filled = rt_silence_filled r - frames
                      in if sint filled < 0
                         then r\<lparr>rt_silence_filled := 0, rt_silence_start := new_hw_ptr\<rparr>
                         else r\<lparr>rt_silence_filled := filled, rt_silence_start := ofs\<rparr>))
         in (r1, Some (rt_buffer_size r1 - rt_silence_filled r1))))"

definition snd_pcm_playback_silence :: "'h pcm_ops \<Rightarrow> nat \<Rightarrow> u64 \<Rightarrow> 'h pcm_world \<Rightarrow> 'h pcm_world" where
  "snd_pcm_playback_silence ops s new_hw_ptr w =
     (let (r1, plan) = silence_plan new_hw_ptr (rt w s);
          w1 = upd_rt s (\<lambda>_. r1) w
      in case plan of
           None \<Rightarrow> w1
         | Some frames \<Rightarrow>
             if frames > rt_buffer_size r1 then w1
             else if frames = 0 then w1
             else silence_loop ops s (rt_silence_start r1 mod rt_buffer_size r1) frames w1)"

section \<open>Correctness\<close>

lemma set_silence_at_frame:
  "set_silence_at off n r = r\<lparr>rt_dma_area := rt_dma_area (set_silence_at off n r)\<rparr>"
  by (simp add: set_silence_at_def write_area_def)

lemma fold_set_silence_frame:
  "\<exists>area. fold (\<lambda>c. set_silence_at (g c) n) cs r = r\<lparr>rt_dma_area := area\<rparr>"
proof (induction cs arbitrary: r)
  case (Cons c cs)
  obtain area where "fold (\<lambda>c. set_silence_at (g c) n) cs (set_silence_at (g c) n r) =
      (set_silence_at (g c) n r)\<lparr>rt_dma_area := area\<rparr>" using Cons.IH by blast
  moreover have "(set_silence_at (g c) n r)\<lparr>rt_dma_area := area\<rparr> = r\<lparr>rt_dma_area := area\<rparr>"
    by (simp add: set_silence_at_def write_area_def)
  ultimately show ?case by auto
next
  case Nil
  show ?case by (rule exI [of _ "rt_dma_area r"]) simp
qed

text \<open>A chunk changes the DMA area of its stream and the hardware state, nothing else.\<close>

lemma rt_w_hw [simp]: "rt (w\<lparr>w_hw := h\<rparr>) t = rt w t"
  by (simp add: rt_def)

lemma silence_chunk_rt:
  "\<exists>area. rt (silence_chunk ops s ofs transfer w) s = (rt w s)\<lparr>rt_dma_area := area\<rparr>"
proof -
  have 1: "\<exists>area. rt w s = (rt w s)\<lparr>rt_dma_area := area\<rparr>" by (rule exI [of _ "rt_dma_area (rt w s)"]) simp
  have 2: "\<exists>area. set_silence_at off n r = r\<lparr>rt_dma_area := area\<rparr>" for off n r
    by (rule exI) (rule set_silence_at_frame)
  show ?thesis
  proof (cases "op_silence ops")
    case (Some f)
    then show ?thesis using 1 by (simp add: silence_chunk_def Let_def)
  next
    case None
    then show ?thesis using 2 fold_set_silence_frame
      by (cases "rt_access (rt w s) = 3 \<or> rt_access (rt w s) = 0") (simp_all only: silence_chunk_def Let_def
          option.case if_True if_False rt_upd_rt simp_thms)
  qed
qed

lemma silence_chunk_frame [simp]:
  "rt_buffer_size (rt (silence_chunk ops s ofs t w) s) = rt_buffer_size (rt w s)"
  "rt_silence_filled (rt (silence_chunk ops s ofs t w) s) = rt_silence_filled (rt w s)"
  "rt_silence_start (rt (silence_chunk ops s ofs t w) s) = rt_silence_start (rt w s)"
  using silence_chunk_rt [of ops s ofs t w] by auto

definition filled_chunk :: "'h pcm_ops \<Rightarrow> nat \<Rightarrow> u64 \<Rightarrow> u64 \<Rightarrow> 'h pcm_world \<Rightarrow> 'h pcm_world" where
  "filled_chunk ops s ofs n w =
     upd_rt s (\<lambda>r. r\<lparr>rt_silence_filled := rt_silence_filled r + n\<rparr>) (silence_chunk ops s ofs n w)"

lemma filled_chunk_frame [simp]:
  "rt_buffer_size (rt (filled_chunk ops s ofs t w) s) = rt_buffer_size (rt w s)"
  "rt_silence_filled (rt (filled_chunk ops s ofs t w) s) = rt_silence_filled (rt w s) + t"
  "rt_silence_start (rt (filled_chunk ops s ofs t w) s) = rt_silence_start (rt w s)"
  by (simp_all add: filled_chunk_def)

lemma silence_loop_done: "silence_loop ops s ofs 0 w = w"
  by (subst silence_loop.simps) simp

lemma silence_loop_step:
  "frames \<noteq> 0 \<Longrightarrow> ofs < rt_buffer_size (rt w s) \<Longrightarrow>
   silence_loop ops s ofs frames w =
     (let t = silence_transfer (rt_buffer_size (rt w s)) ofs frames
      in silence_loop ops s 0 (frames - t) (filled_chunk ops s ofs t w))"
  by (subst silence_loop.simps) (simp add: Let_def filled_chunk_def not_le)

text \<open>The loop writes the frames from the offset to the end of the buffer and the rest at its
  beginning, each frame once.\<close>

lemma silence_loop_two_chunks:
  assumes f: "frames \<noteq> 0" "frames \<le> rt_buffer_size (rt w s)" and o: "ofs < rt_buffer_size (rt w s)"
    and lim: "unat (rt_buffer_size (rt w s)) < 2 ^ 63"
  shows "silence_loop ops s ofs frames w =
    (if unat ofs + unat frames \<le> unat (rt_buffer_size (rt w s)) then filled_chunk ops s ofs frames w
     else let t = rt_buffer_size (rt w s) - ofs
          in filled_chunk ops s 0 (frames - t) (filled_chunk ops s ofs t w))"
proof -
  let ?B = "rt_buffer_size (rt w s)"
  have u: "unat (ofs + frames) = unat ofs + unat frames"
    using f o lim by (intro unat_add_nowrap) (simp add: word_le_nat_alt word_less_nat_alt)
  show ?thesis
  proof (cases "unat ofs + unat frames \<le> unat ?B")
    case True
    then have "silence_transfer ?B ofs frames = frames" by (simp add: silence_transfer_def word_less_nat_alt u)
    then show ?thesis using True f o by (simp add: silence_loop_step silence_loop_done Let_def)
  next
    case False
    define t where "t = ?B - ofs"
    have ut: "unat t = unat ?B - unat ofs" using o by (simp add: t_def unat_sub_nowrap order_less_imp_le)
    have st: "silence_transfer ?B ofs frames = t" using False by (simp add: silence_transfer_def word_less_nat_alt u t_def)
    have le: "t \<le> frames" using False ut by (simp add: word_le_nat_alt)
    have uf: "unat (frames - t) = unat frames - unat t" using le by (rule unat_sub_nowrap)
    have "0 < unat (frames - t)" using False ut uf o by (simp add: word_less_nat_alt)
    then have nz: "frames - t \<noteq> 0" by auto
    have "silence_transfer ?B 0 (frames - t) = frames - t"
      using f(2) uf by (auto simp: silence_transfer_def word_less_nat_alt word_le_nat_alt)
    moreover have "0 < ?B" using o by (auto simp: word_less_nat_alt)
    ultimately show ?thesis using False f(1) o st nz
      by (simp add: silence_loop_step silence_loop_done Let_def flip: t_def)
  qed
qed

lemma silence_loop_filled:
  assumes "frames \<le> rt_buffer_size (rt w s)" and "ofs < rt_buffer_size (rt w s)"
    and "unat (rt_buffer_size (rt w s)) < 2 ^ 63"
  shows "rt_silence_filled (rt (silence_loop ops s ofs frames w) s) = rt_silence_filled (rt w s) + frames \<and>
    rt_silence_start (rt (silence_loop ops s ofs frames w) s) = rt_silence_start (rt w s)"
proof (cases "frames = 0")
  case True
  then show ?thesis by (simp add: silence_loop_done)
next
  case False
  from silence_loop_two_chunks [OF this assms, of ops] show ?thesis by (simp add: Let_def)
qed

lemma ring_bounds:
  assumes "ring_wf r"
  shows "unat (rt_buffer_size r) < 2 ^ 62" "0 < unat (rt_buffer_size r)"
    "unat (rt_buffer_size r) \<le> unat (rt_boundary r)" "unat (rt_boundary r) < 2 ^ 63"
    "unat (rt_hw_ptr r) < unat (rt_boundary r)" "unat (rt_appl_ptr r) < unat (rt_boundary r)"
  using assms by (auto simp: ring_wf_def word_nat)

lemma hw_avail_bound:
  assumes "snd_pcm_playback_avail r \<le> rt_buffer_size r"
  shows "unat (snd_pcm_playback_hw_avail r) = unat (rt_buffer_size r) - unat (snd_pcm_playback_avail r)"
    "snd_pcm_playback_hw_avail r \<le> rt_buffer_size r"
  using assms by (simp_all add: snd_pcm_playback_hw_avail_def unat_sub_nowrap word_le_nat_alt)

text \<open>What a plan asks for fits into the buffer.\<close>

definition plan_fits :: "runtime \<times> u64 option \<Rightarrow> bool" where
  "plan_fits p \<longleftrightarrow> (case p of
     (r, None) \<Rightarrow> True
   | (r, Some frames) \<Rightarrow> unat (rt_silence_filled r) + unat frames \<le> unat (rt_buffer_size r))"

lemma silence_plan_frame:
  "rt_buffer_size (fst (silence_plan p r)) = rt_buffer_size r"
  "rt_boundary (fst (silence_plan p r)) = rt_boundary r"
  by (auto simp: silence_plan_def Let_def)

lemma silence_plan_threshold_fits:
  assumes ring: "ring_wf r" and av: "snd_pcm_playback_avail r \<le> rt_buffer_size r"
    and thr: "rt_silence_threshold r \<le> rt_buffer_size r" and filled: "rt_silence_filled r \<le> rt_buffer_size r"
    and mode: "rt_silence_size r < rt_boundary r"
  shows "plan_fits (silence_plan p r) \<and> rt_silence_filled (fst (silence_plan p r)) \<le> rt_buffer_size r"
proof -
  define n0 where "n0 = rt_appl_ptr r - rt_silence_start r"
  define n where "n = (if sint n0 < 0 then n0 + rt_boundary r else n0)"
  define r1 where "r1 = (if rt_silence_start r \<noteq> rt_appl_ptr r then
      r\<lparr>rt_silence_filled := (if n < rt_silence_filled r then rt_silence_filled r - n else 0),
        rt_silence_start := rt_appl_ptr r\<rparr> else r)"
  have same: "rt_buffer_size r1 = rt_buffer_size r" "rt_silence_threshold r1 = rt_silence_threshold r"
    "snd_pcm_playback_hw_avail r1 = snd_pcm_playback_hw_avail r" "rt_silence_size r1 = rt_silence_size r"
    by (simp_all add: r1_def snd_pcm_playback_hw_avail_def snd_pcm_playback_avail_def Let_def)
  have f1: "rt_silence_filled r1 \<le> rt_buffer_size r"
    using filled by (auto simp: r1_def word_le_nat_alt word_less_nat_alt unat_sub_nowrap)
  define noise where "noise = snd_pcm_playback_hw_avail r + rt_silence_filled r1"
  note B = ring_bounds [OF ring] and H = hw_avail_bound [OF av]
  have un: "unat noise = unat (snd_pcm_playback_hw_avail r) + unat (rt_silence_filled r1)"
    unfolding noise_def using H(2) f1 B(1) by (intro unat_add_nowrap) (simp add: word_le_nat_alt)
  then have small: "unat noise < 2 ^ 63" using H(2) f1 B(1) by (simp add: word_le_nat_alt)
  have ts: "unat (rt_silence_threshold r) < 2 ^ 63" using thr B(1) by (simp add: word_le_nat_alt)
  have plan: "silence_plan p r = (if rt_silence_filled r1 \<ge> rt_buffer_size r then (r1, None)
     else if sint noise \<ge> sint (rt_silence_threshold r) then (r1, None)
     else (r1, Some (if rt_silence_threshold r - noise > rt_silence_size r then rt_silence_size r
                     else rt_silence_threshold r - noise)))"
    using mode by (simp add: silence_plan_def Let_def n_def n0_def r1_def noise_def
        snd_pcm_playback_hw_avail_def snd_pcm_playback_avail_def)
  show ?thesis
  proof (cases "rt_silence_filled r1 \<ge> rt_buffer_size r \<or> sint noise \<ge> sint (rt_silence_threshold r)")
    case True
    then show ?thesis using f1 plan by (auto simp: plan_fits_def)
  next
    case False
    then have lt: "unat noise < unat (rt_silence_threshold r)" using small ts by (simp add: sint_u64)
    define fr where "fr = (if rt_silence_threshold r - noise > rt_silence_size r then rt_silence_size r
        else rt_silence_threshold r - noise)"
    have eq: "silence_plan p r = (r1, Some fr)" using plan False by (simp add: fr_def)
    have d: "unat (rt_silence_threshold r - noise) = unat (rt_silence_threshold r) - unat noise"
      using lt by (simp add: unat_sub_nowrap word_le_nat_alt)
    have "unat fr \<le> unat (rt_silence_threshold r - noise)" by (auto simp: fr_def word_less_nat_alt)
    then have "unat (rt_silence_filled r1) + unat fr \<le> unat (rt_silence_threshold r)" using d un lt by simp
    then show ?thesis using thr f1 by (simp add: eq plan_fits_def same word_le_nat_alt)
  qed
qed

lemma silence_plan_immediate_fits:
  assumes ring: "ring_wf r" and av: "snd_pcm_playback_avail r \<le> rt_buffer_size r"
    and filled: "rt_silence_filled r \<le> rt_buffer_size r" and mode: "\<not> rt_silence_size r < rt_boundary r"
    and p: "p = ULONG_MAX \<or> p < rt_boundary r"
  shows "\<exists>r1. silence_plan p r = (r1, Some (rt_buffer_size r - rt_silence_filled r1)) \<and>
    rt_silence_filled r1 \<le> rt_buffer_size r \<and> rt_buffer_size r1 = rt_buffer_size r"
proof (cases "p = ULONG_MAX")
  case True
  note H = hw_avail_bound [OF av]
  then show ?thesis using mode True ring_bounds(1) [OF ring]
    by (auto simp: silence_plan_def Let_def word_le_nat_alt word_less_nat_alt)
next
  case False
  note B = ring_bounds [OF ring]
  have pb: "unat p < unat (rt_boundary r)" using p False by (simp add: word_less_nat_alt)
  define d where "d = (if sint (p - rt_hw_ptr r) < 0 then p - rt_hw_ptr r + rt_boundary r else p - rt_hw_ptr r)"
  have "int (unat d) = (int (unat p) - int (unat (rt_hw_ptr r))) mod int (unat (rt_boundary r))"
  proof -
    have "ring_wf (r\<lparr>rt_appl_ptr := rt_hw_ptr r, rt_hw_ptr := p\<rparr>)"
      using ring pb by (simp add: ring_wf_def word_less_nat_alt)
    moreover have "snd_pcm_capture_avail (r\<lparr>rt_appl_ptr := rt_hw_ptr r, rt_hw_ptr := p\<rparr>) = d"
      by (simp add: snd_pcm_capture_avail_def Let_def d_def)
    ultimately show ?thesis using capture_avail_mod by fastforce
  qed
  then have d: "unat d < unat (rt_boundary r)"
    using B(2,3) by (metis gr_zeroI le_zero_eq of_nat_less_iff pos_mod_bound of_nat_0_less_iff)
  have "rt_silence_filled r - d \<le> rt_buffer_size r" if "\<not> sint (rt_silence_filled r - d) < 0"
  proof (cases "d \<le> rt_silence_filled r")
    case True
    then show ?thesis using filled by (simp add: word_le_nat_alt unat_sub_nowrap)
  next
    case F: False
    have w: "rt_silence_filled r - d = word_of_int (int (unat (rt_silence_filled r)) - int (unat d) + 2 ^ 64)" by simp
    have "int (unat (rt_silence_filled r - d)) = int (unat (rt_silence_filled r)) - int (unat d) + 2 ^ 64"
      unfolding w by (rule unat_word_of_int) (use F d B(4) in \<open>simp_all add: word_le_nat_alt\<close>)
    then show ?thesis using that d B(4) by (simp add: sint_nonneg_iff)
  qed
  then show ?thesis using False mode by (simp add: silence_plan_def Let_def flip: d_def)
qed

lemma silence_plan_fits:
  assumes "ring_wf r" "snd_pcm_playback_avail r \<le> rt_buffer_size r" "rt_silence_threshold r \<le> rt_buffer_size r"
    "rt_silence_filled r \<le> rt_buffer_size r" "p = ULONG_MAX \<or> p < rt_boundary r"
  shows "plan_fits (silence_plan p r)" "rt_silence_filled (fst (silence_plan p r)) \<le> rt_buffer_size r"
proof -
  have "plan_fits (silence_plan p r) \<and> rt_silence_filled (fst (silence_plan p r)) \<le> rt_buffer_size r"
  proof (cases "rt_silence_size r < rt_boundary r")
    case True
    then show ?thesis using assms by (intro silence_plan_threshold_fits)
  next
    case False
    then obtain r1 where "silence_plan p r = (r1, Some (rt_buffer_size r - rt_silence_filled r1))"
      "rt_silence_filled r1 \<le> rt_buffer_size r" "rt_buffer_size r1 = rt_buffer_size r"
      using silence_plan_immediate_fits [OF assms(1,2,4) False assms(5)] by blast
    then show ?thesis by (simp add: plan_fits_def unat_sub_nowrap word_le_nat_alt)
  qed
  then show "plan_fits (silence_plan p r)" "rt_silence_filled (fst (silence_plan p r)) \<le> rt_buffer_size r"
    by simp_all
qed

text \<open>What the function leaves in the runtime, once the plan is known and fits.\<close>

lemma playback_silence_planned:
  assumes plan: "silence_plan p (rt w s) = (r1, Some frames)" and fits: "plan_fits (r1, Some frames)"
    and bs: "0 < unat (rt_buffer_size r1)" "unat (rt_buffer_size r1) < 2 ^ 63"
  shows "rt_silence_filled (rt (snd_pcm_playback_silence ops s p w) s) = rt_silence_filled r1 + frames"
    "rt_silence_start (rt (snd_pcm_playback_silence ops s p w) s) = rt_silence_start r1"
proof -
  let ?w1 = "upd_rt s (\<lambda>_. r1) w"
  have fr: "frames \<le> rt_buffer_size r1" using fits by (simp add: plan_fits_def word_le_nat_alt)
  have ofs: "rt_silence_start r1 mod rt_buffer_size r1 < rt_buffer_size r1"
    using bs by (simp add: word_less_nat_alt unat_mod)
  have loop: "rt_silence_filled (rt (silence_loop ops s (rt_silence_start r1 mod rt_buffer_size r1) frames ?w1) s) =
      rt_silence_filled r1 + frames \<and>
    rt_silence_start (rt (silence_loop ops s (rt_silence_start r1 mod rt_buffer_size r1) frames ?w1) s) = rt_silence_start r1"
    using silence_loop_filled [of frames ?w1 s "rt_silence_start r1 mod rt_buffer_size r1" ops] fr ofs bs by simp
  show "rt_silence_filled (rt (snd_pcm_playback_silence ops s p w) s) = rt_silence_filled r1 + frames"
    "rt_silence_start (rt (snd_pcm_playback_silence ops s p w) s) = rt_silence_start r1"
    using plan fr loop by (auto simp: snd_pcm_playback_silence_def Let_def)
qed

lemma playback_silence_idle:
  "silence_plan p (rt w s) = (r1, None) \<Longrightarrow> snd_pcm_playback_silence ops s p w = upd_rt s (\<lambda>_. r1) w"
  by (simp add: snd_pcm_playback_silence_def)


section \<open>A concrete world\<close>

text \<open>A driver that accepts every call and never moves; one prepared playback stream on it.\<close>

definition still_ops :: "unit pcm_ops" where
  "still_ops = \<lparr>op_trigger = (\<lambda>_ _ h. (h, [], Inr ())), op_prepare = (\<lambda>_ h. (h, Inr ())),
     op_pointer = (\<lambda>_ h. (h, 0, None)), op_wall_clock = None, op_copy = None, op_silence = None, op_ack = None, op_reset = None,
     op_hw_params = None, op_hw_free = None, k_HZ = 1000, k_jiffies_check = False, k_stack_time = 0\<rparr>"

definition demo_world :: "unit pcm_world" where
  "demo_world = \<lparr>w_subs = (\<lambda>k. \<lparr>ss_playback = True, ss_rt = demo_runtime, ss_group = Self k, ss_f_nonblock = False,
       ss_has_timer = True, ss_timer_running = False, ss_mmap_count = 0, ss_buffer_bytes_max = 65536\<rparr>),
     w_groups = (\<lambda>_. []), w_group_count = (\<lambda>_. 0), w_hw = (), w_jiffies = 0, w_monotonic = 0, w_realtime = 0,
     w_effects = []\<rparr>"

lemma rt_demo_world [simp]: "rt demo_world s = demo_runtime"
  by (simp add: rt_def demo_world_def)


text \<open>
  an underrun is not filled. With \<open>silence_size\<close> at the boundary (fill everything that is free)
  the initialisation compares the signed number of queued frames with the unsigned buffer size, so
  that in an underrun, where this number is negative, the counter says that the whole buffer is
  filled: no frame is written, and the buffer keeps playing old samples.
\<close>

theorem snd_pcm_playback_silence_skips_underrun:
  assumes "rt_silence_size (rt w s) \<ge> rt_boundary (rt w s)"
    "unat (rt_buffer_size (rt w s)) < 2 ^ 63"
    "sint (snd_pcm_playback_hw_avail (rt w s)) < 0" "0 < rt_buffer_size (rt w s)"
  shows "rt_dma_area (rt (snd_pcm_playback_silence ops s ULONG_MAX w) s) = rt_dma_area (rt w s) \<and>
    rt_silence_filled (rt (snd_pcm_playback_silence ops s ULONG_MAX w) s) = rt_buffer_size (rt w s)"
proof -
  let ?r = "rt w s"
  have "rt_buffer_size ?r < snd_pcm_playback_hw_avail ?r"
    using assms(2,3) by (simp add: word_less_nat_alt sint_nonneg_iff)
  moreover have "0 < sint (rt_buffer_size ?r)" using assms(2,4) by (simp add: sint_u64 word_less_nat_alt)
  moreover have "\<not> rt_silence_size ?r < rt_boundary ?r" using assms(1) by simp
  ultimately have "silence_plan ULONG_MAX ?r = (?r\<lparr>rt_silence_filled := rt_buffer_size ?r,
      rt_silence_start := (rt_hw_ptr ?r + rt_buffer_size ?r) mod rt_boundary ?r\<rparr>, Some 0)"
    by (simp add: silence_plan_def Let_def)
  then show ?thesis by (simp add: snd_pcm_playback_silence_def)
qed

theorem snd_pcm_playback_silence_skips_underrun_witness:
  "rt_silence_filled (rt (snd_pcm_playback_silence still_ops 0 ULONG_MAX
      (upd_rt 0 (\<lambda>r. r\<lparr>rt_hw_ptr := 2000, rt_appl_ptr := 1000, rt_silence_size := 8192\<rparr>) demo_world)) 0) = 4096"
proof -
  define w where "w = upd_rt 0 (\<lambda>r. r\<lparr>rt_hw_ptr := 2000, rt_appl_ptr := 1000, rt_silence_size := 8192\<rparr>) demo_world"
  have bs: "rt_buffer_size (rt w 0) = 4096" by (simp add: w_def demo_runtime_def)
  have "rt_silence_filled (rt (snd_pcm_playback_silence still_ops 0 ULONG_MAX w) 0) = rt_buffer_size (rt w 0)"
    by (rule snd_pcm_playback_silence_skips_underrun [THEN conjunct2])
      (simp_all add: w_def demo_runtime_def zero_runtime_def snd_pcm_playback_hw_avail_def
        snd_pcm_playback_avail_def sint_u64)
  then show ?thesis by (simp only: bs flip: w_def)
qed

end
