(* ===== verification/Pcm_Action.thy ===== *)
theory Pcm_Action
  imports Pcm_Silence "HOL-Library.Monad_Syntax"
begin

text \<open>
  Actions on streams and groups of linked streams: the action table of \<open>sound/core/pcm_native.c\<close>
  (\<open>struct action_ops\<close>, \<open>snd_pcm_action_group\<close> and its wrappers) with the start and stop actions.
  A group action runs \<open>pre_action\<close> on all members, then \<open>do_action\<close> on all, then \<open>post_action\<close>; the
  trigger of a stream may serve the other members, which then name it as their trigger master.
  Locks are not modelled: an action is one step of the world. The locales \<open>pcm_action\<close> and
  \<open>action_invariant\<close> state what one action promises, and derive what a group action promises.
\<close>

section \<open>Triggers\<close>

definition snd_pcm_trigger_done :: "nat \<Rightarrow> nat \<Rightarrow> 'h pcm_world \<Rightarrow> 'h pcm_world" where
  "snd_pcm_trigger_done s master = upd_rt s (\<lambda>r. r\<lparr>rt_trigger_master := Some master\<rparr>)"

definition set_trigger_master :: "nat \<Rightarrow> 'h pcm_world \<Rightarrow> 'h pcm_world" where
  "set_trigger_master s = upd_rt s (\<lambda>r. r\<lparr>rt_trigger_master := Some s\<rparr>)"

definition call_trigger :: "'h pcm_ops \<Rightarrow> nat \<Rightarrow> trigger_cmd \<Rightarrow> 'h pcm_world \<Rightarrow> 'h pcm_world \<times> unit res" where
  "call_trigger ops s cmd w =
     (let (h, dones, res) = op_trigger ops s cmd (w_hw w)
      in (fold (\<lambda>(t, m). snd_pcm_trigger_done t m) dones (w\<lparr>w_hw := h\<rparr>), res))"

text \<open>The recursion follows the trigger masters; it does not end when they form a cycle.\<close>

partial_function (option) snd_pcm_trigger_tstamp :: "nat \<Rightarrow> 'h pcm_world \<Rightarrow> 'h pcm_world option" where
  "snd_pcm_trigger_tstamp s w =
     (case rt_trigger_master (rt w s) of
        None \<Rightarrow> Some w
      | Some m \<Rightarrow>
          if m = s then
            Some (upd_rt s (\<lambda>r. r\<lparr>rt_trigger_tstamp := snd_pcm_gettime w s, rt_trigger_master := None\<rparr>) w)
          else do {
            w1 \<leftarrow> snd_pcm_trigger_tstamp m w;
            Some (upd_rt s (\<lambda>r. r\<lparr>rt_trigger_tstamp := rt_trigger_tstamp (rt w1 m), rt_trigger_master := None\<rparr>) w1)
          })"

declare snd_pcm_trigger_tstamp.simps [code]

section \<open>Actions\<close>

record 'h action_ops =
  pre_action :: "nat \<Rightarrow> 'h pcm_world \<Rightarrow> 'h pcm_world \<times> unit res"
  do_action :: "nat \<Rightarrow> 'h pcm_world \<Rightarrow> ('h pcm_world \<times> unit res) option"
  undo_action :: "(nat \<Rightarrow> 'h pcm_world \<Rightarrow> 'h pcm_world) option"
  post_action :: "nat \<Rightarrow> 'h pcm_world \<Rightarrow> 'h pcm_world option"

fun pre_members :: "'h action_ops \<Rightarrow> nat list \<Rightarrow> 'h pcm_world \<Rightarrow> 'h pcm_world \<times> unit res" where
  "pre_members A [] w = (w, Inr ())"
| "pre_members A (s # ss) w =
     (case pre_action A s w of
        (w1, Inl e) \<Rightarrow> (w1, Inl e)
      | (w1, Inr _) \<Rightarrow> pre_members A ss w1)"

definition undo_members :: "'h action_ops \<Rightarrow> nat list \<Rightarrow> 'h pcm_world \<Rightarrow> 'h pcm_world" where
  "undo_members A ss w = (case undo_action A of None \<Rightarrow> w | Some u \<Rightarrow> fold u ss w)"

text \<open>\<open>served\<close> are the members before the failed one.\<close>

fun do_members :: "'h action_ops \<Rightarrow> nat list \<Rightarrow> nat list \<Rightarrow> 'h pcm_world \<Rightarrow> ('h pcm_world \<times> unit res) option" where
  "do_members A served [] w = Some (w, Inr ())"
| "do_members A served (s # ss) w = do {
     (w1, res) \<leftarrow> do_action A s w;
     (case res of
        Inl e \<Rightarrow> Some (undo_members A served w1, Inl e)
      | Inr _ \<Rightarrow> do_members A (served @ [s]) ss w1)
   }"

fun post_members :: "'h action_ops \<Rightarrow> nat list \<Rightarrow> 'h pcm_world \<Rightarrow> 'h pcm_world option" where
  "post_members A [] w = Some w"
| "post_members A (s # ss) w = do { w1 \<leftarrow> post_action A s w; post_members A ss w1 }"

definition snd_pcm_action_group :: "'h action_ops \<Rightarrow> nat \<Rightarrow> 'h pcm_world \<Rightarrow> ('h pcm_world \<times> unit res) option" where
  "snd_pcm_action_group A s w =
     (case pre_members A (group_members w s) w of
        (w1, Inl e) \<Rightarrow> Some (w1, Inl e)
      | (w1, Inr _) \<Rightarrow> do {
          (w2, res) \<leftarrow> do_members A [] (group_members w s) w1;
          (case res of
             Inl e \<Rightarrow> Some (w2, Inl e)
           | Inr _ \<Rightarrow> do { w3 \<leftarrow> post_members A (group_members w s) w2; Some (w3, Inr ()) })
        })"

definition snd_pcm_action_single :: "'h action_ops \<Rightarrow> nat \<Rightarrow> 'h pcm_world \<Rightarrow> ('h pcm_world \<times> unit res) option" where
  "snd_pcm_action_single A s w =
     (case pre_action A s w of
        (w1, Inl e) \<Rightarrow> Some (w1, Inl e)
      | (w1, Inr _) \<Rightarrow> do {
          (w2, res) \<leftarrow> do_action A s w1;
          (case res of
             Inl e \<Rightarrow> Some (case undo_action A of None \<Rightarrow> w2 | Some u \<Rightarrow> u s w2, Inl e)
           | Inr _ \<Rightarrow> do { w3 \<leftarrow> post_action A s w2; Some (w3, Inr ()) })
        })"

definition snd_pcm_action :: "'h action_ops \<Rightarrow> nat \<Rightarrow> 'h pcm_world \<Rightarrow> ('h pcm_world \<times> unit res) option" where
  "snd_pcm_action A s w =
     (if snd_pcm_stream_linked w s then snd_pcm_action_group A s w else snd_pcm_action_single A s w)"

definition snd_pcm_action_lock_irq :: "'h action_ops \<Rightarrow> nat \<Rightarrow> 'h pcm_world \<Rightarrow> ('h pcm_world \<times> unit res) option" where
  "snd_pcm_action_lock_irq A s w =
     (if snd_pcm_stream_linked w s then snd_pcm_action_group A s w else snd_pcm_action_single A s w)"

definition snd_pcm_action_nonatomic :: "'h action_ops \<Rightarrow> nat \<Rightarrow> 'h pcm_world \<Rightarrow> ('h pcm_world \<times> unit res) option" where
  "snd_pcm_action_nonatomic A s w =
     (if snd_pcm_stream_linked w s then snd_pcm_action_group A s w else snd_pcm_action_single A s w)"

section \<open>Start\<close>

definition snd_pcm_pre_start :: "nat \<Rightarrow> 'h pcm_world \<Rightarrow> 'h pcm_world \<times> unit res" where
  "snd_pcm_pre_start s w =
     (if rt_state (rt w s) \<noteq> S_PREPARED then (w, Inl EBADFD)
      else if playback w s \<and> \<not> snd_pcm_playback_data (rt w s) then (w, Inl EPIPE)
      else (set_trigger_master s w, Inr ()))"

definition snd_pcm_do_start :: "'h pcm_ops \<Rightarrow> nat \<Rightarrow> 'h pcm_world \<Rightarrow> 'h pcm_world \<times> unit res" where
  "snd_pcm_do_start ops s w =
     (if rt_trigger_master (rt w s) \<noteq> Some s then (w, Inr ())
      else call_trigger ops s TRIGGER_START w)"

definition snd_pcm_undo_start :: "'h pcm_ops \<Rightarrow> nat \<Rightarrow> 'h pcm_world \<Rightarrow> 'h pcm_world" where
  "snd_pcm_undo_start ops s w =
     (if rt_trigger_master (rt w s) = Some s then fst (call_trigger ops s TRIGGER_STOP w) else w)"

definition snd_pcm_post_start :: "'h pcm_ops \<Rightarrow> pcm_state \<Rightarrow> nat \<Rightarrow> 'h pcm_world \<Rightarrow> 'h pcm_world option" where
  "snd_pcm_post_start ops state s w = do {
     w1 \<leftarrow> snd_pcm_trigger_tstamp s w;
     let w2 = upd_rt s (\<lambda>r. r\<lparr>rt_hw_ptr_jiffies := w_jiffies w1,
                 rt_hw_ptr_buffer_jiffies := (rt_buffer_size r * k_HZ ops) div ucast (rt_rate r),
                 rt_state := state\<rparr>) w1;
         w3 = (if playback w2 s \<and> rt_silence_size (rt w2 s) > 0
               then snd_pcm_playback_silence ops s ULONG_MAX w2 else w2)
     in Some (timer_notify s MSTART w3)
   }"

definition snd_pcm_action_start :: "'h pcm_ops \<Rightarrow> pcm_state \<Rightarrow> 'h action_ops" where
  "snd_pcm_action_start ops state = \<lparr>pre_action = snd_pcm_pre_start,
     do_action = (\<lambda>s w. Some (snd_pcm_do_start ops s w)), undo_action = Some (snd_pcm_undo_start ops),
     post_action = snd_pcm_post_start ops state\<rparr>"

definition snd_pcm_start :: "'h pcm_ops \<Rightarrow> nat \<Rightarrow> 'h pcm_world \<Rightarrow> ('h pcm_world \<times> unit res) option" where
  "snd_pcm_start ops s w = snd_pcm_action (snd_pcm_action_start ops S_RUNNING) s w"

section \<open>Stop\<close>

definition snd_pcm_pre_stop :: "nat \<Rightarrow> 'h pcm_world \<Rightarrow> 'h pcm_world \<times> unit res" where
  "snd_pcm_pre_stop s w =
     (if rt_state (rt w s) = S_OPEN then (w, Inl EBADFD) else (set_trigger_master s w, Inr ()))"

definition snd_pcm_do_stop :: "'h pcm_ops \<Rightarrow> nat \<Rightarrow> 'h pcm_world \<Rightarrow> 'h pcm_world \<times> unit res" where
  "snd_pcm_do_stop ops s w =
     (if rt_trigger_master (rt w s) = Some s \<and> snd_pcm_running w s
      then fst (call_trigger ops s TRIGGER_STOP w) else w, Inr ())"

definition snd_pcm_post_stop :: "pcm_state \<Rightarrow> nat \<Rightarrow> 'h pcm_world \<Rightarrow> 'h pcm_world option" where
  "snd_pcm_post_stop state s w =
     (if rt_state (rt w s) \<noteq> state then do {
        w1 \<leftarrow> snd_pcm_trigger_tstamp s w;
        Some (wake_both s (upd_rt s (\<lambda>r. r\<lparr>rt_state := state\<rparr>) (timer_notify s MSTOP w1)))
      }
      else Some (wake_both s w))"

definition snd_pcm_action_stop :: "'h pcm_ops \<Rightarrow> pcm_state \<Rightarrow> 'h action_ops" where
  "snd_pcm_action_stop ops state = \<lparr>pre_action = snd_pcm_pre_stop,
     do_action = (\<lambda>s w. Some (snd_pcm_do_stop ops s w)), undo_action = None,
     post_action = snd_pcm_post_stop state\<rparr>"

definition snd_pcm_stop :: "'h pcm_ops \<Rightarrow> nat \<Rightarrow> pcm_state \<Rightarrow> 'h pcm_world \<Rightarrow> ('h pcm_world \<times> unit res) option" where
  "snd_pcm_stop ops s state w = snd_pcm_action (snd_pcm_action_stop ops state) s w"

definition snd_pcm_drain_done :: "'h pcm_ops \<Rightarrow> nat \<Rightarrow> 'h pcm_world \<Rightarrow> ('h pcm_world \<times> unit res) option" where
  "snd_pcm_drain_done ops s w = snd_pcm_action_single (snd_pcm_action_stop ops S_SETUP) s w"

end
