(* ===== verification/Pcm_Action_Laws.thy ===== *)
theory Pcm_Action_Laws
  imports Pcm_Action
begin

text \<open>
  What the action tables promise, as locales, and what group actions make of it. \<open>pcm_action\<close>:
  an action whose preparation decides from the old state, without touching the hardware, and whose
  completion reaches a goal that later completions keep; then a group action reaches the goal on
  all members or, when one of them refuses, touches nothing. \<open>action_invariant\<close> and
  \<open>action_total\<close>: invariants, and actions that return. Further down, the laws of the start and stop
  actions, the interpretations, and the properties of \<open>snd_pcm_start\<close> and \<open>snd_pcm_stop\<close>.
\<close>

section \<open>The interface of an action\<close>

lemma unit_res_cases: "\<forall>e. r \<noteq> Inl e \<Longrightarrow> r \<noteq> Inr () \<Longrightarrow> False"
  by (cases r) simp_all

lemma action_success_posts:
  assumes "snd_pcm_action A s w = Some (w', Inr u)"
  shows "if snd_pcm_stream_linked w s then \<exists>w2. post_members A (group_members w s) w2 = Some w'
    else \<exists>w2. post_action A s w2 = Some w'"
  using assms
  by (auto simp: snd_pcm_action_def snd_pcm_action_group_def snd_pcm_action_single_def Option.bind_eq_Some_conv
      split: prod.splits sum.splits dest!: unit_res_cases)

locale pcm_action =
  fixes A :: "'h action_ops" and refuses reached :: "'h pcm_world \<Rightarrow> nat \<Rightarrow> bool"
  assumes pre_refuses: "isl (snd (pre_action A s w)) \<longleftrightarrow> refuses w s"
    and pre_hw: "w_hw (fst (pre_action A s w)) = w_hw w"
    and pre_state: "rt_state (rt (fst (pre_action A s w)) t) = rt_state (rt w t)"
    and pre_stable: "refuses (fst (pre_action A s w)) t = refuses w t"
    and post_reaches: "post_action A s w = Some w' \<Longrightarrow> reached w' s"
    and post_keeps: "post_action A s w = Some w' \<Longrightarrow> reached w t \<Longrightarrow> reached w' t"
begin

lemma pre_members_laws:
  "(isl (snd (pre_members A ss w)) \<longleftrightarrow> (\<exists>t\<in>set ss. refuses w t)) \<and>
   w_hw (fst (pre_members A ss w)) = w_hw w \<and>
   (\<forall>t. rt_state (rt (fst (pre_members A ss w)) t) = rt_state (rt w t))"
proof (induction ss arbitrary: w)
  case (Cons s ss)
  obtain w1 r where p: "pre_action A s w = (w1, r)" by fastforce
  have 1: "isl r \<longleftrightarrow> refuses w s" "w_hw w1 = w_hw w" "\<And>t. rt_state (rt w1 t) = rt_state (rt w t)"
    "\<And>t. refuses w1 t = refuses w t"
    using pre_refuses [of s w] pre_hw [of s w] pre_state [of s w] pre_stable [of s w] by (simp_all add: p)
  show ?case using 1 Cons.IH [of w1] by (cases r) (simp_all add: p)
qed simp

lemma post_members_reach:
  "post_members A ss w = Some w' \<Longrightarrow> t \<in> set ss \<or> reached w t \<Longrightarrow> reached w' t"
proof (induction ss arbitrary: w)
  case (Cons s ss)
  then obtain w1 where "post_action A s w = Some w1" "post_members A ss w1 = Some w'"
    by (auto simp: Option.bind_eq_Some_conv)
  then show ?case using Cons.IH [of w1] Cons.prems(2) post_reaches post_keeps by auto
qed simp

lemma unlinked_members: "\<not> snd_pcm_stream_linked w s \<Longrightarrow> group_members w s = [s]"
  by (simp add: snd_pcm_stream_linked_def group_members_def)

lemma action_refused:
  assumes "t \<in> set (group_members w s)" "refuses w t"
  shows "\<exists>w' e. snd_pcm_action A s w = Some (w', Inl e) \<and> w_hw w' = w_hw w \<and>
    (\<forall>u. rt_state (rt w' u) = rt_state (rt w u))"
proof (cases "snd_pcm_stream_linked w s")
  case True
  obtain w1 r where p: "pre_members A (group_members w s) w = (w1, r)" by fastforce
  have "isl r \<and> w_hw w1 = w_hw w \<and> (\<forall>u. rt_state (rt w1 u) = rt_state (rt w u))"
    using pre_members_laws [of "group_members w s" w] assms by (auto simp: p)
  then show ?thesis using True by (cases r) (simp_all add: snd_pcm_action_def snd_pcm_action_group_def p)
next
  case False
  obtain w1 r where p: "pre_action A s w = (w1, r)" by fastforce
  have "t = s" using assms(1) unlinked_members [OF False] by simp
  then have "isl r \<and> w_hw w1 = w_hw w \<and> (\<forall>u. rt_state (rt w1 u) = rt_state (rt w u))"
    using pre_refuses [of s w] pre_hw [of s w] pre_state [of s w] assms(2) by (simp add: p)
  then show ?thesis using False by (cases r) (simp_all add: snd_pcm_action_def snd_pcm_action_single_def p)
qed

lemma action_reaches:
  assumes "snd_pcm_action A s w = Some (w', Inr u)" "t \<in> set (group_members w s)"
  shows "reached w' t"
  using action_success_posts [OF assms(1)] assms(2) post_members_reach post_reaches unlinked_members [of w s]
  by (auto split: if_splits)

lemma action_admitted:
  assumes "snd_pcm_action A s w = Some (w', Inr u)" "t \<in> set (group_members w s)"
  shows "\<not> refuses w t"
  using action_refused [OF assms(2)] assms(1) by auto

end

locale local_action = pcm_action +
  assumes do_local: "t \<noteq> s \<Longrightarrow> do_action A s w = Some (w', r) \<Longrightarrow> rt_state (rt w' t) = rt_state (rt w t)"
    and undo_local: "t \<noteq> s \<Longrightarrow> undo_action A = Some u \<Longrightarrow> rt_state (rt (u s w) t) = rt_state (rt w t)"
    and post_local: "t \<noteq> s \<Longrightarrow> post_action A s w = Some w' \<Longrightarrow> rt_state (rt w' t) = rt_state (rt w t)"
begin

lemma undo_members_outside: "t \<notin> set ss \<Longrightarrow> rt_state (rt (undo_members A ss w) t) = rt_state (rt w t)"
proof (cases "undo_action A")
  case (Some u)
  assume "t \<notin> set ss"
  then have "rt_state (rt (fold u ss w) t) = rt_state (rt w t)"
    by (induction ss arbitrary: w) (auto simp: undo_local [OF _ Some])
  then show ?thesis by (simp add: undo_members_def Some)
qed (simp add: undo_members_def)

lemma do_members_outside:
  "do_members A served ss w = Some (w', r) \<Longrightarrow> t \<notin> set served \<union> set ss \<Longrightarrow> rt_state (rt w' t) = rt_state (rt w t)"
proof (induction ss arbitrary: w served)
  case (Cons s ss)
  then obtain w1 r1 where d: "do_action A s w = Some (w1, r1)" by (auto simp: Option.bind_eq_Some_conv)
  have "rt_state (rt w1 t) = rt_state (rt w t)" using do_local [OF _ d] Cons.prems(2) by simp
  then show ?case using Cons.prems Cons.IH [of "served @ [s]" w1]
    by (cases r1) (auto simp: d undo_members_outside)
qed simp

lemma post_members_outside:
  "post_members A ss w = Some w' \<Longrightarrow> t \<notin> set ss \<Longrightarrow> rt_state (rt w' t) = rt_state (rt w t)"
  by (induction ss arbitrary: w) (auto simp: Option.bind_eq_Some_conv dest: post_local [rotated])

lemma action_outside:
  assumes "snd_pcm_action A s w = Some (w', r)" "t \<notin> set (group_members w s)"
  shows "rt_state (rt w' t) = rt_state (rt w t)"
proof (cases "snd_pcm_stream_linked w s")
  case True
  obtain w1 r1 where p: "pre_members A (group_members w s) w = (w1, r1)" by fastforce
  have 1: "rt_state (rt w1 t) = rt_state (rt w t)" using pre_members_laws [of "group_members w s" w] by (simp add: p)
  show ?thesis
  proof (cases r1)
    case (Inr u)
    then obtain w2 r2 where d: "do_members A [] (group_members w s) w1 = Some (w2, r2)"
      using assms(1) True by (auto simp: snd_pcm_action_def snd_pcm_action_group_def p Option.bind_eq_Some_conv)
    have 2: "rt_state (rt w2 t) = rt_state (rt w t)" using do_members_outside [OF d] assms(2) 1 by simp
    show ?thesis using assms True Inr 2
      by (cases r2) (auto simp: snd_pcm_action_def snd_pcm_action_group_def p d Option.bind_eq_Some_conv
          dest: post_members_outside)
  qed (use assms(1) True 1 in \<open>simp add: snd_pcm_action_def snd_pcm_action_group_def p\<close>)
next
  case False
  have "t \<noteq> s" using assms(2) unlinked_members [OF False] by simp
  obtain w1 r1 where p: "pre_action A s w = (w1, r1)" by fastforce
  have 1: "rt_state (rt w1 t) = rt_state (rt w t)" using pre_state [of s w t] by (simp add: p)
  show ?thesis
  proof (cases r1)
    case (Inr u)
    then obtain w2 r2 where d: "do_action A s w1 = Some (w2, r2)"
      using assms(1) False by (auto simp: snd_pcm_action_def snd_pcm_action_single_def p Option.bind_eq_Some_conv)
    have 2: "rt_state (rt w2 t) = rt_state (rt w t)" using do_local [OF \<open>t \<noteq> s\<close> d] 1 by simp
    show ?thesis using assms(1) False Inr 2 \<open>t \<noteq> s\<close>
      by (cases r2; cases "undo_action A")
        (auto simp: snd_pcm_action_def snd_pcm_action_single_def p d Option.bind_eq_Some_conv
          undo_local [OF \<open>t \<noteq> s\<close>] dest: post_local [rotated])
  qed (use assms(1) False 1 in \<open>simp add: snd_pcm_action_def snd_pcm_action_single_def p\<close>)
qed

end

text \<open>An action whose middle phase cannot fail: it fails only when a preparation refuses.\<close>

locale unfailing_action = pcm_action +
  assumes do_ok: "do_action A s w = Some (w', r) \<Longrightarrow> r = Inr ()"
begin

lemma do_members_ok: "do_members A served ss w = Some (w', r) \<Longrightarrow> r = Inr ()"
  by (induction ss arbitrary: w served) (auto simp: Option.bind_eq_Some_conv dest: do_ok)

lemma pre_members_error: "snd (pre_members A ss w) = Inl e \<Longrightarrow> \<exists>t v. snd (pre_action A t v) = Inl e"
proof (induction ss arbitrary: w)
  case (Cons s ss)
  obtain w1 r where p: "pre_action A s w = (w1, r)" by fastforce
  show ?case
  proof (cases r)
    case (Inl x)
    then have "snd (pre_action A s w) = Inl e" using Cons.prems by (simp add: p)
    then show ?thesis by blast
  next
    case (Inr x)
    then show ?thesis using Cons by (simp add: p)
  qed
qed simp

lemma action_error:
  assumes a: "snd_pcm_action A s w = Some (w', Inl e)"
  shows "(\<exists>t\<in>set (group_members w s). refuses w t) \<and> (\<exists>t v. snd (pre_action A t v) = Inl e)"
proof (cases "snd_pcm_stream_linked w s")
  case True
  obtain w1 r where p: "pre_members A (group_members w s) w = (w1, r)" by fastforce
  have "r = Inl e"
  proof (cases r)
    case (Inr x)
    then obtain w2 r2 where d: "do_members A [] (group_members w s) w1 = Some (w2, r2)"
      using a True by (auto simp: snd_pcm_action_def snd_pcm_action_group_def p Option.bind_eq_Some_conv)
    then show ?thesis using a True Inr do_members_ok [OF d]
      by (auto simp: snd_pcm_action_def snd_pcm_action_group_def p Option.bind_eq_Some_conv)
  qed (use a True in \<open>simp add: snd_pcm_action_def snd_pcm_action_group_def p\<close>)
  then show ?thesis using pre_members_laws [of "group_members w s" w] pre_members_error [of "group_members w s" w e]
    by (simp add: p)
next
  case False
  obtain w1 r where p: "pre_action A s w = (w1, r)" by fastforce
  have "r = Inl e"
  proof (cases r)
    case (Inr x)
    then obtain w2 r2 where d: "do_action A s w1 = Some (w2, r2)"
      using a False by (auto simp: snd_pcm_action_def snd_pcm_action_single_def p Option.bind_eq_Some_conv)
    then show ?thesis using a False Inr do_ok [OF d]
      by (auto simp: snd_pcm_action_def snd_pcm_action_single_def p Option.bind_eq_Some_conv)
  qed (use a False in \<open>simp add: snd_pcm_action_def snd_pcm_action_single_def p\<close>)
  then have "snd (pre_action A s w) = Inl e" by (simp add: p)
  then show ?thesis using pre_refuses [of s w] unlinked_members [OF False] by (auto simp: isl_def)
qed

lemma action_succeeds:
  assumes "snd_pcm_action A s w = Some (w', r)" "\<forall>t\<in>set (group_members w s). \<not> refuses w t"
  shows "r = Inr ()"
  using assms action_error [of s w w'] by (cases r) auto

end

section \<open>Invariants of actions\<close>

locale action_invariant =
  fixes A :: "'h action_ops" and I :: "'h pcm_world \<Rightarrow> bool"
  assumes pre_inv: "I w \<Longrightarrow> I (fst (pre_action A s w))"
    and do_inv: "I w \<Longrightarrow> do_action A s w = Some (w', r) \<Longrightarrow> I w'"
    and undo_inv: "I w \<Longrightarrow> undo_action A = Some u \<Longrightarrow> I (u s w)"
    and post_inv: "I w \<Longrightarrow> post_action A s w = Some w' \<Longrightarrow> I w'"
begin

lemma pre_members_inv: "I w \<Longrightarrow> I (fst (pre_members A ss w))"
proof (induction ss arbitrary: w)
  case (Cons s ss)
  obtain w1 r where p: "pre_action A s w = (w1, r)" by fastforce
  then have "I w1" using pre_inv [of w s] Cons.prems by simp
  then show ?case using Cons.IH by (cases r) (simp_all add: p)
qed simp

lemma undo_members_inv: "I w \<Longrightarrow> I (undo_members A ss w)"
proof (cases "undo_action A")
  case (Some u)
  assume "I w"
  then have "I (fold u ss w)" by (induction ss arbitrary: w) (auto intro: undo_inv [OF _ Some])
  then show ?thesis by (simp add: undo_members_def Some)
qed (simp add: undo_members_def)

lemma do_members_inv: "I w \<Longrightarrow> do_members A served ss w = Some (w', r) \<Longrightarrow> I w'"
proof (induction ss arbitrary: w served)
  case (Cons s ss)
  then obtain w1 r1 where d: "do_action A s w = Some (w1, r1)" by (auto simp: Option.bind_eq_Some_conv)
  have "I w1" using do_inv [OF Cons.prems(1) d] .
  then show ?case using Cons.prems(2) Cons.IH [of w1 "served @ [s]"]
    by (cases r1) (auto simp: d undo_members_inv)
qed simp

lemma post_members_inv: "I w \<Longrightarrow> post_members A ss w = Some w' \<Longrightarrow> I w'"
  by (induction ss arbitrary: w) (auto simp: Option.bind_eq_Some_conv intro: post_inv)

lemma group_inv:
  assumes "I w" "snd_pcm_action_group A s w = Some (w', r)"
  shows "I w'"
proof -
  obtain w1 r1 where p: "pre_members A (group_members w s) w = (w1, r1)" by fastforce
  have 1: "I w1" using pre_members_inv [OF assms(1), of "group_members w s"] by (simp add: p)
  show ?thesis
  proof (cases r1)
    case (Inr u)
    then obtain w2 r2 where d: "do_members A [] (group_members w s) w1 = Some (w2, r2)"
      using assms(2) by (auto simp: snd_pcm_action_group_def p Option.bind_eq_Some_conv)
    have "I w2" using do_members_inv [OF 1 d] .
    then show ?thesis using assms(2) Inr post_members_inv
      by (cases r2) (auto simp: snd_pcm_action_group_def p d Option.bind_eq_Some_conv)
  qed (use assms 1 in \<open>simp add: snd_pcm_action_group_def p\<close>)
qed

lemma single_inv:
  assumes "I w" "snd_pcm_action_single A s w = Some (w', r)"
  shows "I w'"
proof -
  obtain w1 r1 where p: "pre_action A s w = (w1, r1)" by fastforce
  have 1: "I w1" using pre_inv [OF assms(1), of s] by (simp add: p)
  show ?thesis
  proof (cases r1)
    case (Inr u)
    then obtain w2 r2 where d: "do_action A s w1 = Some (w2, r2)"
      using assms(2) by (auto simp: snd_pcm_action_single_def p Option.bind_eq_Some_conv)
    have "I w2" using do_inv [OF 1 d] .
    then show ?thesis using assms(2) Inr
      by (cases r2; cases "undo_action A")
        (auto simp: snd_pcm_action_single_def p d Option.bind_eq_Some_conv intro: post_inv undo_inv)
  qed (use assms 1 in \<open>simp add: snd_pcm_action_single_def p\<close>)
qed

lemma action_inv: "I w \<Longrightarrow> snd_pcm_action A s w = Some (w', r) \<Longrightarrow> I w'"
  by (auto simp: snd_pcm_action_def intro: group_inv single_inv split: if_splits)

end

locale action_total = action_invariant +
  assumes do_total: "I w \<Longrightarrow> do_action A s w \<noteq> None"
    and post_total: "I w \<Longrightarrow> post_action A s w \<noteq> None"
begin

lemma do_members_total: "I w \<Longrightarrow> do_members A served ss w \<noteq> None"
proof (induction ss arbitrary: w served)
  case (Cons s ss)
  obtain w1 r1 where d: "do_action A s w = Some (w1, r1)" using do_total [OF Cons.prems, of s] by auto
  then show ?case using Cons.IH [OF do_inv [OF Cons.prems d], of "served @ [s]"] by (cases r1) simp_all
qed simp

lemma post_members_total: "I w \<Longrightarrow> post_members A ss w \<noteq> None"
proof (induction ss arbitrary: w)
  case (Cons s ss)
  obtain w1 where d: "post_action A s w = Some w1" using post_total [OF Cons.prems, of s] by auto
  then show ?case using Cons.IH [OF post_inv [OF Cons.prems d]] by simp
qed simp

lemma group_total:
  assumes "I w"
  shows "snd_pcm_action_group A s w \<noteq> None"
proof -
  obtain w1 r1 where p: "pre_members A (group_members w s) w = (w1, r1)" by fastforce
  have 1: "I w1" using pre_members_inv [OF assms, of "group_members w s"] by (simp add: p)
  obtain w2 r2 where d: "do_members A [] (group_members w s) w1 = Some (w2, r2)"
    using do_members_total [OF 1] by fastforce
  have "post_members A (group_members w s) w2 \<noteq> None" by (rule post_members_total [OF do_members_inv [OF 1 d]])
  then show ?thesis by (cases r1; cases r2) (auto simp: snd_pcm_action_group_def p d)
qed

lemma single_total:
  assumes "I w"
  shows "snd_pcm_action_single A s w \<noteq> None"
proof -
  obtain w1 r1 where p: "pre_action A s w = (w1, r1)" by fastforce
  have 1: "I w1" using pre_inv [OF assms, of s] by (simp add: p)
  obtain w2 r2 where d: "do_action A s w1 = Some (w2, r2)" using do_total [OF 1, of s] by fastforce
  have "post_action A s w2 \<noteq> None" by (rule post_total [OF do_inv [OF 1 d]])
  then show ?thesis by (cases r1; cases r2) (auto simp: snd_pcm_action_single_def p d)
qed

lemma action_total: "I w \<Longrightarrow> \<exists>w' r. snd_pcm_action A s w = Some (w', r) \<and> I w'"
  using group_total [of w s] single_total [of w s] action_inv [of w s]
  by (cases "snd_pcm_action A s w") (auto simp: snd_pcm_action_def split: if_splits)

end

end
