(* ===== verification/Pcm_Frames.thy ===== *)
theory Pcm_Frames
  imports Pcm_Action
begin

text \<open>
  What an operation leaves alone.  \<open>free_frame f w w'\<close>: the streams agree in all fields that \<open>f\<close> does not
  erase, and groups and clocks are the same. \<open>sil_free\<close> erases what filling with silence writes, \<open>act_free\<close> what the parts of an action write (the
  trigger master and time, the silence counters and the DMA area), \<open>pos_free\<close> also the states,
  times and delays: what remains are positions, sizes and configuration.
\<close>

section \<open>Frames\<close>

definition sil_free :: "runtime \<Rightarrow> runtime" where
  "sil_free r = r\<lparr>rt_silence_start := 0, rt_silence_filled := 0, rt_dma_area := []\<rparr>"

definition act_free :: "runtime \<Rightarrow> runtime" where
  "act_free r = r\<lparr>rt_trigger_master := None, rt_trigger_tstamp := 0, rt_silence_start := 0,
     rt_silence_filled := 0, rt_dma_area := []\<rparr>"

definition pos_free :: "runtime \<Rightarrow> runtime" where
  "pos_free r = (act_free r)\<lparr>rt_state := S_OPEN, rt_suspended_state := S_OPEN, rt_hw_ptr_jiffies := 0,
     rt_hw_ptr_buffer_jiffies := 0, rt_tstamp := 0, rt_audio_tstamp := 0, rt_delay := 0,
     rt_avail_max := 0\<rparr>"

definition free_frame :: "(runtime \<Rightarrow> runtime) \<Rightarrow> 'h pcm_world \<Rightarrow> 'h pcm_world \<Rightarrow> bool" where
  "free_frame f w w' \<longleftrightarrow> (\<forall>t. f (rt w' t) = f (rt w t)) \<and>
     (\<forall>t. (w_subs w' t)\<lparr>ss_rt := zero_runtime\<rparr> = (w_subs w t)\<lparr>ss_rt := zero_runtime\<rparr>) \<and>
     w_groups w' = w_groups w \<and> w_group_count w' = w_group_count w \<and> w_jiffies w' = w_jiffies w \<and>
     w_monotonic w' = w_monotonic w \<and> w_realtime w' = w_realtime w"

abbreviation sil_frame :: "'h pcm_world \<Rightarrow> 'h pcm_world \<Rightarrow> bool" where "sil_frame \<equiv> free_frame sil_free"
abbreviation act_frame :: "'h pcm_world \<Rightarrow> 'h pcm_world \<Rightarrow> bool" where "act_frame \<equiv> free_frame act_free"
abbreviation pos_frame :: "'h pcm_world \<Rightarrow> 'h pcm_world \<Rightarrow> bool" where "pos_frame \<equiv> free_frame pos_free"

lemma free_frame_refl [simp]: "free_frame f w w"
  by (simp add: free_frame_def)

lemma free_frame_trans: "free_frame f w w1 \<Longrightarrow> free_frame f w1 w2 \<Longrightarrow> free_frame f w w2"
  by (simp add: free_frame_def)

lemma act_free_sel [simp]:
  "rt_state (act_free r) = rt_state r"
  "rt_suspended_state (act_free r) = rt_suspended_state r"
  "rt_info (act_free r) = rt_info r"
  "rt_buffer_size (act_free r) = rt_buffer_size r"
  "rt_hw_ptr (act_free r) = rt_hw_ptr r"
  "rt_appl_ptr (act_free r) = rt_appl_ptr r"
  "rt_boundary (act_free r) = rt_boundary r"
  "rt_period_size (act_free r) = rt_period_size r"
  "rt_stop_threshold (act_free r) = rt_stop_threshold r"
  "rt_silence_size (act_free r) = rt_silence_size r"
  "rt_silence_threshold (act_free r) = rt_silence_threshold r"
  "rt_avail_min (act_free r) = rt_avail_min r"
  "rt_rate (act_free r) = rt_rate r"
  "rt_hw_ptr_base (act_free r) = rt_hw_ptr_base r"
  "rt_no_period_wakeup (act_free r) = rt_no_period_wakeup r"
  by (simp_all add: act_free_def)

lemma act_free_selectors:
  assumes "act_free r' = act_free r"
  shows "rt_state r' = rt_state r"
    "rt_suspended_state r' = rt_suspended_state r"
    "rt_info r' = rt_info r"
    "rt_buffer_size r' = rt_buffer_size r"
    "rt_hw_ptr r' = rt_hw_ptr r"
    "rt_appl_ptr r' = rt_appl_ptr r"
    "rt_boundary r' = rt_boundary r"
    "rt_period_size r' = rt_period_size r"
    "rt_stop_threshold r' = rt_stop_threshold r"
    "rt_silence_size r' = rt_silence_size r"
    "rt_silence_threshold r' = rt_silence_threshold r"
    "rt_avail_min r' = rt_avail_min r"
    "rt_rate r' = rt_rate r"
    "rt_hw_ptr_base r' = rt_hw_ptr_base r"
    "rt_no_period_wakeup r' = rt_no_period_wakeup r"
  using arg_cong [OF assms, of rt_state]
    arg_cong [OF assms, of rt_suspended_state]
    arg_cong [OF assms, of rt_info]
    arg_cong [OF assms, of rt_buffer_size]
    arg_cong [OF assms, of rt_hw_ptr]
    arg_cong [OF assms, of rt_appl_ptr]
    arg_cong [OF assms, of rt_boundary]
    arg_cong [OF assms, of rt_period_size]
    arg_cong [OF assms, of rt_stop_threshold]
    arg_cong [OF assms, of rt_silence_size]
    arg_cong [OF assms, of rt_silence_threshold]
    arg_cong [OF assms, of rt_avail_min]
    arg_cong [OF assms, of rt_rate]
    arg_cong [OF assms, of rt_hw_ptr_base]
    arg_cong [OF assms, of rt_no_period_wakeup]
  by simp_all

lemma pos_free_sel [simp]:
  "rt_info (pos_free r) = rt_info r"
  "rt_buffer_size (pos_free r) = rt_buffer_size r"
  "rt_hw_ptr (pos_free r) = rt_hw_ptr r"
  "rt_appl_ptr (pos_free r) = rt_appl_ptr r"
  "rt_boundary (pos_free r) = rt_boundary r"
  "rt_period_size (pos_free r) = rt_period_size r"
  "rt_stop_threshold (pos_free r) = rt_stop_threshold r"
  "rt_silence_size (pos_free r) = rt_silence_size r"
  "rt_silence_threshold (pos_free r) = rt_silence_threshold r"
  "rt_avail_min (pos_free r) = rt_avail_min r"
  "rt_rate (pos_free r) = rt_rate r"
  "rt_hw_ptr_base (pos_free r) = rt_hw_ptr_base r"
  "rt_no_period_wakeup (pos_free r) = rt_no_period_wakeup r"
  by (simp_all add: pos_free_def)

lemma pos_free_selectors:
  assumes "pos_free r' = pos_free r"
  shows "rt_info r' = rt_info r"
    "rt_buffer_size r' = rt_buffer_size r"
    "rt_hw_ptr r' = rt_hw_ptr r"
    "rt_appl_ptr r' = rt_appl_ptr r"
    "rt_boundary r' = rt_boundary r"
    "rt_period_size r' = rt_period_size r"
    "rt_stop_threshold r' = rt_stop_threshold r"
    "rt_silence_size r' = rt_silence_size r"
    "rt_silence_threshold r' = rt_silence_threshold r"
    "rt_avail_min r' = rt_avail_min r"
    "rt_rate r' = rt_rate r"
    "rt_hw_ptr_base r' = rt_hw_ptr_base r"
    "rt_no_period_wakeup r' = rt_no_period_wakeup r"
  using arg_cong [OF assms, of rt_info]
    arg_cong [OF assms, of rt_buffer_size]
    arg_cong [OF assms, of rt_hw_ptr]
    arg_cong [OF assms, of rt_appl_ptr]
    arg_cong [OF assms, of rt_boundary]
    arg_cong [OF assms, of rt_period_size]
    arg_cong [OF assms, of rt_stop_threshold]
    arg_cong [OF assms, of rt_silence_size]
    arg_cong [OF assms, of rt_silence_threshold]
    arg_cong [OF assms, of rt_avail_min]
    arg_cong [OF assms, of rt_rate]
    arg_cong [OF assms, of rt_hw_ptr_base]
    arg_cong [OF assms, of rt_no_period_wakeup]
  by simp_all

lemma act_frame_rt: "act_frame w w' \<Longrightarrow> act_free (rt w' t) = act_free (rt w t)"
  by (simp add: free_frame_def)

lemma pos_frame_rt: "pos_frame w w' \<Longrightarrow> pos_free (rt w' t) = pos_free (rt w t)"
  by (simp add: free_frame_def)

lemmas act_frame_selectors = act_free_selectors [OF act_frame_rt]
lemmas pos_frame_selectors = pos_free_selectors [OF pos_frame_rt]

lemma sil_frame_rt: "sil_frame w w' \<Longrightarrow> sil_free (rt w' t) = sil_free (rt w t)"
  by (simp add: free_frame_def)

lemma act_free_sil: "act_free r = (sil_free r)\<lparr>rt_trigger_master := None, rt_trigger_tstamp := 0\<rparr>"
  by (simp add: act_free_def sil_free_def)

lemma sil_frame_act: "sil_frame w w' \<Longrightarrow> act_frame w w'"
  by (simp add: free_frame_def act_free_sil)

lemma act_frame_pos: "act_frame w w' \<Longrightarrow> pos_frame w w'"
  by (simp add: free_frame_def pos_free_def)

lemma substream_fields:
  assumes "(u' :: substream)\<lparr>ss_rt := r\<rparr> = u\<lparr>ss_rt := r\<rparr>"
  shows "ss_playback u' = ss_playback u" "ss_group u' = ss_group u" "ss_f_nonblock u' = ss_f_nonblock u"
    "ss_has_timer u' = ss_has_timer u"
  using assms by (cases u; cases u'; simp)+

lemma free_frame_subs:
  assumes "free_frame f w w'"
  shows "ss_playback (w_subs w' t) = ss_playback (w_subs w t)" "ss_group (w_subs w' t) = ss_group (w_subs w t)"
    "playback w' t = playback w t" "group_members w' t = group_members w t"
    "snd_pcm_stream_linked w' t = snd_pcm_stream_linked w t"
proof -
  have "(w_subs w' t)\<lparr>ss_rt := zero_runtime\<rparr> = (w_subs w t)\<lparr>ss_rt := zero_runtime\<rparr>"
    using assms by (simp add: free_frame_def)
  note S = substream_fields [OF this]
  show "ss_playback (w_subs w' t) = ss_playback (w_subs w t)" "ss_group (w_subs w' t) = ss_group (w_subs w t)"
    "playback w' t = playback w t" "group_members w' t = group_members w t"
    "snd_pcm_stream_linked w' t = snd_pcm_stream_linked w t"
    using S assms by (auto simp: playback_def group_members_def snd_pcm_stream_linked_def free_frame_def
        split: group_id.splits)
qed

lemma ring_wf_pos: "pos_free r' = pos_free r \<Longrightarrow> ring_wf r' \<longleftrightarrow> ring_wf r"
  by (simp add: ring_wf_def pos_free_selectors [of r' r])

lemma avail_act: "act_free r' = act_free r \<Longrightarrow> snd_pcm_playback_avail r' = snd_pcm_playback_avail r"
  by (simp add: snd_pcm_playback_avail_def Let_def act_free_selectors [of r' r])

lemma free_frame_upd_rt: "(\<And>r. f (g r) = f r) \<Longrightarrow> free_frame f w (upd_rt s g w)"
  by (simp add: free_frame_def upd_rt_def upd_sub_def rt_def)

lemma free_frame_w_hw [simp]: "free_frame f w (w\<lparr>w_hw := h\<rparr>)"
  by (simp add: free_frame_def rt_def)

lemma free_frame_add_effects [simp]: "free_frame f w (add_effects es w)"
  by (simp add: free_frame_def add_effects_def rt_def)

lemma free_frame_timer_notify [simp]: "free_frame f w (timer_notify s e w)"
  by (simp add: timer_notify_def)

lemma free_frame_wake_both [simp]: "free_frame f w (wake_both s w)"
  by (simp add: wake_both_def)

lemma free_frame_fold: "(\<And>x v. free_frame f v (g x v)) \<Longrightarrow> free_frame f w (fold g xs w)"
  by (induction xs arbitrary: w) (auto intro: free_frame_trans)

section \<open>Frames of the parts\<close>

lemma set_trigger_master_frame [simp]: "act_frame w (set_trigger_master s w)"
  by (simp add: set_trigger_master_def free_frame_upd_rt act_free_def)

lemma call_trigger_frame: "act_frame w (fst (call_trigger ops s cmd w))"
proof -
  have "act_frame v (fold (\<lambda>(t, m). snd_pcm_trigger_done t m) ds v)" for v :: "'a pcm_world" and ds
    by (rule free_frame_fold) (auto simp: snd_pcm_trigger_done_def free_frame_upd_rt act_free_def)
  then show ?thesis
    by (auto simp: call_trigger_def Let_def split: prod.splits intro: free_frame_trans [OF free_frame_w_hw])
qed

lemma trigger_tstamp_frame:
  assumes "snd_pcm_trigger_tstamp s w = Some w'"
  shows "act_frame w w'"
proof (rule snd_pcm_trigger_tstamp.raw_induct [where P = "\<lambda>_ w w'. act_frame w w'", OF _ assms])
  fix f :: "nat \<Rightarrow> 'a pcm_world \<Rightarrow> 'a pcm_world option" and s w w'
  assume IH: "\<And>s w w'. f s w = Some w' \<Longrightarrow> act_frame w w'"
    and step: "(case rt_trigger_master (rt w s) of None \<Rightarrow> Some w
      | Some m \<Rightarrow> if m = s then
            Some (upd_rt s (\<lambda>r. r\<lparr>rt_trigger_tstamp := snd_pcm_gettime w s, rt_trigger_master := None\<rparr>) w)
          else do {
            w1 \<leftarrow> f m w;
            Some (upd_rt s (\<lambda>r. r\<lparr>rt_trigger_tstamp := rt_trigger_tstamp (rt w1 m), rt_trigger_master := None\<rparr>) w1)
          }) = Some w'"
  show "act_frame w w'"
  proof (cases "rt_trigger_master (rt w s)")
    case None
    then show ?thesis using step by simp
  next
    case (Some m)
    show ?thesis
    proof (cases "m = s")
      case True
      then show ?thesis using step Some by (auto simp: free_frame_upd_rt act_free_def)
    next
      case False
      then obtain w1 where "f m w = Some w1"
        "w' = upd_rt s (\<lambda>r. r\<lparr>rt_trigger_tstamp := rt_trigger_tstamp (rt w1 m), rt_trigger_master := None\<rparr>) w1"
        using step Some by (auto simp: Option.bind_eq_Some_conv)
      moreover have "act_frame w1 w'" unfolding calculation(2) by (rule free_frame_upd_rt) (simp add: act_free_def)
      ultimately show ?thesis using IH free_frame_trans by blast
    qed
  qed
qed

lemma silence_chunk_frame_sil: "sil_frame w (silence_chunk ops s ofs n w)"
proof -
  have f: "\<exists>h. fold (\<lambda>c. f s (int c) ofs n) cs (w_hw w) = h" for f :: "nat \<Rightarrow> int \<Rightarrow> u64 \<Rightarrow> u64 \<Rightarrow> 'a \<Rightarrow> 'a" and cs
    by blast
  have 1: "sil_free (set_silence_at off k r) = sil_free r" for off k r
    by (simp add: set_silence_at_def write_area_def sil_free_def)
  have 2: "sil_free (fold (\<lambda>c. set_silence_at (g c) k) cs r) = sil_free r" for g k cs r
    by (induction cs arbitrary: r) (simp_all add: 1)
  show ?thesis by (auto simp: silence_chunk_def Let_def 1 2 split: option.split intro!: free_frame_upd_rt)
qed

lemma silence_loop_frame: "sil_frame w (silence_loop ops s ofs frames w)"
proof (induction ops s ofs frames w rule: silence_loop.induct)
  case (1 ops s ofs frames w)
  show ?case
  proof (cases "frames = 0 \<or> ofs \<ge> rt_buffer_size (rt w s)")
    case True
    then show ?thesis by (subst silence_loop.simps) simp
  next
    case False
    define n where "n = silence_transfer (rt_buffer_size (rt w s)) ofs frames"
    have "sil_frame w (filled_chunk ops s ofs n w)"
      unfolding filled_chunk_def
      by (rule free_frame_trans [OF silence_chunk_frame_sil free_frame_upd_rt]) (simp add: sil_free_def)
    moreover have "sil_frame (filled_chunk ops s ofs n w) (silence_loop ops s 0 (frames - n) (filled_chunk ops s ofs n w))"
      using 1 [OF False n_def] by (simp add: filled_chunk_def)
    moreover have "silence_loop ops s ofs frames w = silence_loop ops s 0 (frames - n) (filled_chunk ops s ofs n w)"
      using False by (simp add: silence_loop_step Let_def not_le flip: n_def)
    ultimately show ?thesis using free_frame_trans by metis
  qed
qed

lemma silence_plan_sil_free: "sil_free (fst (silence_plan p r)) = sil_free r"
  by (simp add: silence_plan_def Let_def sil_free_def)

lemma playback_silence_sil: "sil_frame w (snd_pcm_playback_silence ops s p w)"
proof -
  obtain r1 plan where p: "silence_plan p (rt w s) = (r1, plan)" by fastforce
  have "sil_free r1 = sil_free (rt w s)" using silence_plan_sil_free [of p "rt w s"] by (simp add: p)
  then have 1: "sil_frame w (upd_rt s (\<lambda>_. r1) w)"
    by (simp add: free_frame_def upd_rt_def upd_sub_def rt_def)
  then show ?thesis
    by (auto simp: snd_pcm_playback_silence_def p Let_def split: option.split
        intro: free_frame_trans [OF 1 silence_loop_frame])
qed

lemma playback_silence_frame: "act_frame w (snd_pcm_playback_silence ops s p w)"
  by (rule sil_frame_act) (rule playback_silence_sil)

lemma silence_masters [simp]:
  "rt_trigger_master (rt (snd_pcm_playback_silence ops s p w) t) = rt_trigger_master (rt w t)"
  using arg_cong [OF sil_frame_rt [OF playback_silence_sil], of rt_trigger_master ops s p w t]
  by (simp add: sil_free_def)

end
