(* ===== verification/Pcm_Start_Stop.thy ===== *)
theory Pcm_Start_Stop
  imports Pcm_Action_Laws Pcm_Frames
begin

text \<open>
  Starting and stopping: the laws of the tables \<open>snd_pcm_action_start\<close> and \<open>snd_pcm_action_stop\<close>,
  the interpretations of the action locales on them, and what \<open>snd_pcm_start\<close> and
  \<open>snd_pcm_stop\<close> do to a group.
\<close>

section \<open>Trigger masters\<close>

text \<open>Trigger masters form no cycle, except that a stream may be its own master.\<close>

definition master_edges :: "'h pcm_world \<Rightarrow> (nat \<times> nat) set" where
  "master_edges w = {(m, s). rt_trigger_master (rt w s) = Some m \<and> m \<noteq> s}"

definition master_wf :: "'h pcm_world \<Rightarrow> bool" where
  "master_wf w \<longleftrightarrow> wf (master_edges w)"

lemma master_edges_cong:
  "(\<And>t. rt_trigger_master (rt w' t) = rt_trigger_master (rt w t)) \<Longrightarrow> master_wf w' = master_wf w"
  by (simp add: master_wf_def master_edges_def)

lemma master_wf_fewer: "master_wf w \<Longrightarrow> master_edges w' \<subseteq> master_edges w \<Longrightarrow> master_wf w'"
  unfolding master_wf_def by (rule wf_subset)

text \<open>A stream that names no other master may be named as master.\<close>

lemma master_wf_insert:
  assumes "master_wf w" and free: "rt_trigger_master (rt w m) \<in> {None, Some m}" and "t \<noteq> m"
    and sub: "master_edges w' \<subseteq> insert (m, t) (master_edges w)"
  shows "master_wf w'"
proof -
  have no_in: "(a, m) \<notin> master_edges w" for a using free by (auto simp: master_edges_def)
  have "(t, m) \<notin> (master_edges w)\<^sup>*"
    using \<open>t \<noteq> m\<close> no_in by (metis rtranclE)
  then have "wf (insert (m, t) (master_edges w))"
    using assms(1) by (simp add: master_wf_def wf_insert)
  then show ?thesis unfolding master_wf_def using sub by (rule wf_subset)
qed

lemma master_edges_upd:
  "master_edges (upd_rt s (\<lambda>r. r\<lparr>rt_trigger_master := M\<rparr>) w) \<subseteq>
    (case M of Some m \<Rightarrow> (if m = s then {} else {(m, s)}) | None \<Rightarrow> {}) \<union> (master_edges w)"
  by (auto simp: master_edges_def split: if_splits)

lemma trigger_done_wf:
  assumes "master_wf w" "rt_trigger_master (rt w m) \<in> {None, Some m}"
  shows "master_wf (snd_pcm_trigger_done t m w)" "rt_trigger_master (rt (snd_pcm_trigger_done t m w) m) \<in> {None, Some m}"
proof -
  have e: "master_edges (snd_pcm_trigger_done t m w) \<subseteq> (if m = t then {} else {(m, t)}) \<union> master_edges w"
    using master_edges_upd [of t "Some m" w] by (simp add: snd_pcm_trigger_done_def)
  show "master_wf (snd_pcm_trigger_done t m w)"
  proof (cases "m = t")
    case True
    then show ?thesis using e by (intro master_wf_fewer [OF assms(1)]) simp
  next
    case False
    then show ?thesis using e by (intro master_wf_insert [OF assms(1,2)]) auto
  qed
  show "rt_trigger_master (rt (snd_pcm_trigger_done t m w) m) \<in> {None, Some m}"
    using assms(2) by (auto simp: snd_pcm_trigger_done_def)
qed

lemma set_trigger_master_wf: "master_wf w \<Longrightarrow> master_wf (set_trigger_master s w)"
  using master_edges_upd [of s "Some s" w] by (simp add: set_trigger_master_def master_wf_fewer)

lemma trigger_tstamp_total:
  assumes "master_wf w"
  shows "snd_pcm_trigger_tstamp s w \<noteq> None"
proof -
  have "wf (master_edges w)" using assms by (simp add: master_wf_def)
  then show ?thesis
  proof (induction s rule: wf_induct_rule)
    case (less s)
    show ?case
    proof (cases "rt_trigger_master (rt w s)")
      case None
      then show ?thesis by (subst snd_pcm_trigger_tstamp.simps) simp
    next
      case (Some m)
      then have "m \<noteq> s \<Longrightarrow> snd_pcm_trigger_tstamp m w \<noteq> None" by (intro less) (simp add: master_edges_def)
      then show ?thesis using Some by (subst snd_pcm_trigger_tstamp.simps) auto
    qed
  qed
qed

lemma trigger_tstamp_fewer:
  assumes "snd_pcm_trigger_tstamp s w = Some w'"
  shows "master_edges w' \<subseteq> master_edges w"
proof (rule snd_pcm_trigger_tstamp.raw_induct [where P = "\<lambda>_ w w'. master_edges w' \<subseteq> master_edges w", OF _ assms])
  fix f :: "nat \<Rightarrow> 'a pcm_world \<Rightarrow> 'a pcm_world option" and s w w'
  assume IH: "\<And>s w w'. f s w = Some w' \<Longrightarrow> master_edges w' \<subseteq> master_edges w"
    and step: "(case rt_trigger_master (rt w s) of None \<Rightarrow> Some w
      | Some m \<Rightarrow> if m = s then
            Some (upd_rt s (\<lambda>r. r\<lparr>rt_trigger_tstamp := snd_pcm_gettime w s, rt_trigger_master := None\<rparr>) w)
          else do {
            w1 \<leftarrow> f m w;
            Some (upd_rt s (\<lambda>r. r\<lparr>rt_trigger_tstamp := rt_trigger_tstamp (rt w1 m), rt_trigger_master := None\<rparr>) w1)
          }) = Some w'"
  have upd: "master_edges (upd_rt s (\<lambda>r. r\<lparr>rt_trigger_tstamp := x, rt_trigger_master := None\<rparr>) v) \<subseteq> master_edges v"
    for x and v :: "'a pcm_world" by (auto simp: master_edges_def split: if_splits)
  show "master_edges w' \<subseteq> master_edges w"
    using step IH upd by (fastforce simp: Option.bind_eq_Some_conv split: option.splits if_splits)
qed

lemma trigger_tstamp_wf: "master_wf w \<Longrightarrow> snd_pcm_trigger_tstamp s w = Some w' \<Longrightarrow> master_wf w'"
  using master_wf_fewer trigger_tstamp_fewer by blast

lemma trigger_dones_wf:
  assumes "\<forall>d \<in> set dones. snd d = s" "master_wf w" "rt_trigger_master (rt w s) \<in> {None, Some s}"
  shows "master_wf (fold (\<lambda>(t, m). snd_pcm_trigger_done t m) dones w)"
  using assms
proof (induction dones arbitrary: w)
  case (Cons d ds)
  obtain t where d: "d = (t, s)" using Cons.prems(1) by (cases d) simp
  show ?case using Cons.IH [OF _ trigger_done_wf [OF Cons.prems(2,3)]] Cons.prems(1) by (simp add: d)
qed simp

lemma call_trigger_wf:
  assumes marks: "\<And>h t m. (t, m) \<in> set (fst (snd (op_trigger ops s cmd h))) \<Longrightarrow> m = s"
    and wf: "master_wf w" and free: "rt_trigger_master (rt w s) \<in> {None, Some s}"
  shows "master_wf (fst (call_trigger ops s cmd w))"
proof -
  obtain h dones res where t: "op_trigger ops s cmd (w_hw w) = (h, dones, res)" by (metis prod_cases3)
  have m: "\<forall>d \<in> set dones. snd d = s" using marks [of _ _ "w_hw w"] by (auto simp: t)
  have "master_wf (w\<lparr>w_hw := h\<rparr>)" "rt_trigger_master (rt (w\<lparr>w_hw := h\<rparr>) s) \<in> {None, Some s}"
    using wf free master_edges_cong [of "w\<lparr>w_hw := h\<rparr>" w] by simp_all
  from trigger_dones_wf [OF m this] show ?thesis by (simp add: call_trigger_def t)
qed

section \<open>The parts of the start action\<close>

lemma pre_start_world: "fst (snd_pcm_pre_start s w) \<in> {w, set_trigger_master s w}"
  by (simp add: snd_pcm_pre_start_def)

lemma do_start_world: "fst (snd_pcm_do_start ops s w) = w \<or>
    rt_trigger_master (rt w s) = Some s \<and> fst (snd_pcm_do_start ops s w) = fst (call_trigger ops s TRIGGER_START w)"
  by (simp add: snd_pcm_do_start_def)

lemma undo_start_world: "snd_pcm_undo_start ops s w = w \<or>
    rt_trigger_master (rt w s) = Some s \<and> snd_pcm_undo_start ops s w = fst (call_trigger ops s TRIGGER_STOP w)"
  by (simp add: snd_pcm_undo_start_def)

text \<open>The completion of a start: the trigger time, the new state, and silence.\<close>

definition started :: "'h pcm_ops \<Rightarrow> pcm_state \<Rightarrow> nat \<Rightarrow> 'h pcm_world \<Rightarrow> 'h pcm_world" where
  "started ops state s w1 = upd_rt s (\<lambda>r. r\<lparr>rt_hw_ptr_jiffies := w_jiffies w1,
     rt_hw_ptr_buffer_jiffies := (rt_buffer_size r * k_HZ ops) div ucast (rt_rate r), rt_state := state\<rparr>) w1"

lemma post_start_cases:
  assumes "snd_pcm_post_start ops state s w = Some w'"
  obtains w1 where "snd_pcm_trigger_tstamp s w = Some w1" "sil_frame (started ops state s w1) w'"
proof -
  obtain w1 where w1: "snd_pcm_trigger_tstamp s w = Some w1"
    and w': "w' = timer_notify s MSTART (if playback (started ops state s w1) s \<and> rt_silence_size (rt (started ops state s w1) s) > 0
      then snd_pcm_playback_silence ops s ULONG_MAX (started ops state s w1) else started ops state s w1)"
    using assms by (auto simp: snd_pcm_post_start_def Option.bind_eq_Some_conv Let_def started_def)
  have "sil_frame (started ops state s w1) w'"
    unfolding w' by (auto intro: free_frame_trans [OF _ free_frame_timer_notify] playback_silence_sil)
  with w1 show thesis by (rule that)
qed

lemma started_frame: "pos_frame w (started ops state s w)"
  unfolding started_def by (rule free_frame_upd_rt) (simp add: pos_free_def act_free_def)

lemma post_start_state:
  assumes "snd_pcm_post_start ops state s w = Some w'"
  shows "rt_state (rt w' t) = (if t = s then state else rt_state (rt w t))"
proof -
  obtain w1 where w1: "snd_pcm_trigger_tstamp s w = Some w1" and f: "sil_frame (started ops state s w1) w'"
    using assms by (rule post_start_cases)
  have "rt_state (rt w' t) = rt_state (rt (started ops state s w1) t)"
    using act_frame_selectors(1) [OF sil_frame_act [OF f]] .
  also have "\<dots> = (if t = s then state else rt_state (rt w1 t))" by (simp add: started_def)
  finally show ?thesis using act_frame_selectors(1) [OF trigger_tstamp_frame [OF w1]] by simp
qed

lemma post_start_frame: "snd_pcm_post_start ops state s w = Some w' \<Longrightarrow> pos_frame w w'"
  by (erule post_start_cases)
    (blast intro: free_frame_trans act_frame_pos sil_frame_act started_frame dest: trigger_tstamp_frame)

lemma post_start_wf:
  assumes "master_wf w" "snd_pcm_post_start ops state s w = Some w'"
  shows "master_wf w'"
proof -
  obtain w1 where w1: "snd_pcm_trigger_tstamp s w = Some w1" and f: "sil_frame (started ops state s w1) w'"
    using assms(2) by (rule post_start_cases)
  have "rt_trigger_master (rt w' t) = rt_trigger_master (rt w1 t)" for t
    using arg_cong [OF sil_frame_rt [OF f, of t], of rt_trigger_master] by (simp add: sil_free_def started_def)
  then show ?thesis using trigger_tstamp_wf [OF assms(1) w1] master_edges_cong by blast
qed

lemma post_start_total: "master_wf w \<Longrightarrow> snd_pcm_post_start ops state s w \<noteq> None"
  using trigger_tstamp_total [of w s] by (auto simp: snd_pcm_post_start_def Let_def)

section \<open>The parts of the stop action\<close>

lemma pre_stop_world: "fst (snd_pcm_pre_stop s w) \<in> {w, set_trigger_master s w}"
  by (simp add: snd_pcm_pre_stop_def)

lemma do_stop_world: "fst (snd_pcm_do_stop ops s w) = w \<or>
    rt_trigger_master (rt w s) = Some s \<and> fst (snd_pcm_do_stop ops s w) = fst (call_trigger ops s TRIGGER_STOP w)"
  by (simp add: snd_pcm_do_stop_def)

lemma post_stop_cases:
  assumes "snd_pcm_post_stop state s w = Some w'"
  shows "rt_state (rt w s) = state \<and> w' = wake_both s w \<or>
    (\<exists>w1. rt_state (rt w s) \<noteq> state \<and> snd_pcm_trigger_tstamp s w = Some w1 \<and>
       w' = wake_both s (upd_rt s (\<lambda>r. r\<lparr>rt_state := state\<rparr>) (timer_notify s MSTOP w1)))"
  using assms by (auto simp: snd_pcm_post_stop_def Option.bind_eq_Some_conv split: if_splits)

lemma rt_timer_notify [simp]: "rt (timer_notify s e w) t = rt w t"
  by (simp add: timer_notify_def)

lemma rt_wake_both [simp]: "rt (wake_both s w) t = rt w t"
  by (simp add: wake_both_def)

lemma post_stop_state:
  assumes "snd_pcm_post_stop state s w = Some w'"
  shows "rt_state (rt w' t) = (if t = s then state else rt_state (rt w t))"
  using post_stop_cases [OF assms] by (auto dest: act_frame_selectors(1) [OF trigger_tstamp_frame])

lemma post_stop_frame:
  assumes "snd_pcm_post_stop state s w = Some w'"
  shows "pos_frame w w'"
proof -
  have "pos_frame v (wake_both s (upd_rt s (\<lambda>r. r\<lparr>rt_state := state\<rparr>) (timer_notify s MSTOP v)))" for v :: "'a pcm_world"
    by (rule free_frame_trans [OF free_frame_trans [OF free_frame_timer_notify free_frame_upd_rt] free_frame_wake_both])
      (simp add: pos_free_def act_free_def)
  then show ?thesis using post_stop_cases [OF assms]
    by (auto dest!: trigger_tstamp_frame act_frame_pos intro: free_frame_trans)
qed

lemma post_stop_wf:
  assumes "master_wf w" "snd_pcm_post_stop state s w = Some w'"
  shows "master_wf w'"
proof -
  have "master_wf (wake_both s (upd_rt s (\<lambda>r. r\<lparr>rt_state := state\<rparr>) (timer_notify s MSTOP v))) = master_wf v"
    for v :: "'a pcm_world" by (rule master_edges_cong) simp
  moreover have "master_wf (wake_both s v) = master_wf v" for v :: "'a pcm_world"
    by (rule master_edges_cong) simp
  ultimately show ?thesis using post_stop_cases [OF assms(2)] assms(1) trigger_tstamp_wf by auto
qed

lemma post_stop_total: "master_wf w \<Longrightarrow> snd_pcm_post_stop state s w \<noteq> None"
  using trigger_tstamp_total [of w s] by (auto simp: snd_pcm_post_stop_def)

section \<open>Interpretations\<close>

lemmas action_start_simps [simp] = snd_pcm_action_start_def [THEN arg_cong, of pre_action, simplified]
  snd_pcm_action_start_def [THEN arg_cong, of do_action, simplified]
  snd_pcm_action_start_def [THEN arg_cong, of undo_action, simplified]
  snd_pcm_action_start_def [THEN arg_cong, of post_action, simplified]

lemmas action_stop_simps [simp] = snd_pcm_action_stop_def [THEN arg_cong, of pre_action, simplified]
  snd_pcm_action_stop_def [THEN arg_cong, of do_action, simplified]
  snd_pcm_action_stop_def [THEN arg_cong, of undo_action, simplified]
  snd_pcm_action_stop_def [THEN arg_cong, of post_action, simplified]

definition start_refuses :: "'h pcm_world \<Rightarrow> nat \<Rightarrow> bool" where
  "start_refuses w s \<longleftrightarrow> rt_state (rt w s) \<noteq> S_PREPARED \<or>
     (playback w s \<and> \<not> snd_pcm_playback_data (rt w s))"

lemma start_refuses_frame:
  assumes "act_frame w w'"
  shows "start_refuses w' t = start_refuses w t"
  using act_frame_selectors [OF assms, of t] avail_act [OF act_frame_rt [OF assms], of t] free_frame_subs(3) [OF assms, of t]
  by (simp add: start_refuses_def snd_pcm_playback_data_def)

lemma set_trigger_master_quiet [simp]:
  "w_hw (set_trigger_master s w) = w_hw w" "rt_state (rt (set_trigger_master s w) t) = rt_state (rt w t)"
  by (simp_all add: set_trigger_master_def)

interpretation start: pcm_action "snd_pcm_action_start ops state" start_refuses "\<lambda>w s. rt_state (rt w s) = state"
  by unfold_locales
    (simp_all add: snd_pcm_pre_start_def start_refuses_frame post_start_state, auto simp: start_refuses_def)

interpretation stop: pcm_action "snd_pcm_action_stop ops state" "\<lambda>w s. rt_state (rt w s) = S_OPEN"
    "\<lambda>w s. rt_state (rt w s) = state"
  by unfold_locales (simp_all add: snd_pcm_pre_stop_def post_stop_state)

interpretation start_frame: action_invariant "snd_pcm_action_start ops state" "pos_frame w0"
proof unfold_locales
  note trans = free_frame_trans and act = act_frame_pos
  fix s and w w' :: "'a pcm_world" and r u
  assume w: "pos_frame w0 w"
  show "pos_frame w0 (fst (pre_action (snd_pcm_action_start ops state) s w))"
    using pre_start_world [of s w] w act [OF set_trigger_master_frame] trans by fastforce
  show "pos_frame w0 w'" if "do_action (snd_pcm_action_start ops state) s w = Some (w', r)"
    using that do_start_world [of ops s w] w call_trigger_frame [THEN act] trans by (fastforce)
  show "pos_frame w0 (u s w)" if "undo_action (snd_pcm_action_start ops state) = Some u"
    using that undo_start_world [of ops s w] w call_trigger_frame [THEN act] trans by fastforce
  show "pos_frame w0 w'" if "post_action (snd_pcm_action_start ops state) s w = Some w'"
    using that post_start_frame w trans by fastforce
qed

interpretation stop_frame: action_invariant "snd_pcm_action_stop ops state" "pos_frame w0"
proof unfold_locales
  note trans = free_frame_trans and act = act_frame_pos
  fix s and w w' :: "'a pcm_world" and r u
  assume w: "pos_frame w0 w"
  show "pos_frame w0 (fst (pre_action (snd_pcm_action_stop ops state) s w))"
    using pre_stop_world [of s w] w act [OF set_trigger_master_frame] trans by fastforce
  show "pos_frame w0 w'" if "do_action (snd_pcm_action_stop ops state) s w = Some (w', r)"
    using that do_stop_world [of ops s w] w call_trigger_frame [THEN act] trans by fastforce
  show "pos_frame w0 (u s w)" if "undo_action (snd_pcm_action_stop ops state) = Some u"
    using that by simp
  show "pos_frame w0 w'" if "post_action (snd_pcm_action_stop ops state) s w = Some w'"
    using that post_stop_frame w trans by fastforce
qed

text \<open>A driver that marks streams in a trigger call as served by the stream that is triggered.\<close>

locale marking_driver =
  fixes ops :: "'h pcm_ops"
  assumes marks: "(t, m) \<in> set (fst (snd (op_trigger ops s cmd h))) \<Longrightarrow> m = s"
begin

lemma call_wf:
  "master_wf w \<Longrightarrow> rt_trigger_master (rt w s) \<in> {None, Some s} \<Longrightarrow> master_wf (fst (call_trigger ops s cmd w))"
  using marks by (intro call_trigger_wf) auto

end

sublocale marking_driver \<subseteq> start_total: action_total "snd_pcm_action_start ops state" master_wf
proof unfold_locales
  fix s and w w' :: "'h pcm_world" and r u
  assume w: "master_wf w"
  show "master_wf (fst (pre_action (snd_pcm_action_start ops state) s w))"
    using pre_start_world [of s w] w set_trigger_master_wf by auto
  show "master_wf w'" if "do_action (snd_pcm_action_start ops state) s w = Some (w', r)"
    using that do_start_world [of ops s w] w call_wf by fastforce
  show "master_wf (u s w)" if "undo_action (snd_pcm_action_start ops state) = Some u"
    using that undo_start_world [of ops s w] w call_wf by fastforce
  show "master_wf w'" if "post_action (snd_pcm_action_start ops state) s w = Some w'"
    using that post_start_wf w by fastforce
  show "do_action (snd_pcm_action_start ops state) s w \<noteq> None" by simp
  show "post_action (snd_pcm_action_start ops state) s w \<noteq> None" using post_start_total [OF w] by simp
qed

sublocale marking_driver \<subseteq> stop_total: action_total "snd_pcm_action_stop ops state" master_wf
proof unfold_locales
  fix s and w w' :: "'h pcm_world" and r u
  assume w: "master_wf w"
  show "master_wf (fst (pre_action (snd_pcm_action_stop ops state) s w))"
    using pre_stop_world [of s w] w set_trigger_master_wf by auto
  show "master_wf w'" if "do_action (snd_pcm_action_stop ops state) s w = Some (w', r)"
    using that do_stop_world [of ops s w] w call_wf by fastforce
  show "master_wf (u s w)" if "undo_action (snd_pcm_action_stop ops state) = Some u"
    using that by simp
  show "master_wf w'" if "post_action (snd_pcm_action_stop ops state) s w = Some w'"
    using that post_stop_wf w by fastforce
  show "do_action (snd_pcm_action_stop ops state) s w \<noteq> None" by simp
  show "post_action (snd_pcm_action_stop ops state) s w \<noteq> None" using post_stop_total [OF w] by simp
qed

context marking_driver
begin

lemma start_returns: "master_wf w \<Longrightarrow> \<exists>w' r. snd_pcm_action (snd_pcm_action_start ops state) s w = Some (w', r) \<and> master_wf w'"
  by (rule start_total.action_total)

lemma stop_returns: "master_wf w \<Longrightarrow> \<exists>w' r. snd_pcm_action (snd_pcm_action_stop ops state) s w = Some (w', r) \<and> master_wf w'"
  by (rule stop_total.action_total)

end

text \<open>Streams outside the group keep their state.\<close>

lemma call_trigger_state [simp]: "rt_state (rt (fst (call_trigger ops s cmd w)) t) = rt_state (rt w t)"
  by (rule act_frame_selectors(1) [OF call_trigger_frame])

interpretation start: local_action "snd_pcm_action_start ops state" start_refuses "\<lambda>w s. rt_state (rt w s) = state"
proof unfold_locales
  fix s t :: nat and w w' :: "'a pcm_world" and r u
  assume "t \<noteq> s"
  show "rt_state (rt w' t) = rt_state (rt w t)" if "do_action (snd_pcm_action_start ops state) s w = Some (w', r)"
    using that do_start_world [of ops s w] by fastforce
  show "rt_state (rt (u s w) t) = rt_state (rt w t)" if "undo_action (snd_pcm_action_start ops state) = Some u"
    using that undo_start_world [of ops s w] by fastforce
  show "rt_state (rt w' t) = rt_state (rt w t)" if "post_action (snd_pcm_action_start ops state) s w = Some w'"
    using that \<open>t \<noteq> s\<close> by (simp add: post_start_state)
qed

interpretation stop: local_action "snd_pcm_action_stop ops state" "\<lambda>w s. rt_state (rt w s) = S_OPEN"
    "\<lambda>w s. rt_state (rt w s) = state"
proof unfold_locales
  fix s t :: nat and w w' :: "'a pcm_world" and r u
  assume "t \<noteq> s"
  show "rt_state (rt w' t) = rt_state (rt w t)" if "do_action (snd_pcm_action_stop ops state) s w = Some (w', r)"
    using that do_stop_world [of ops s w] by fastforce
  show "rt_state (rt (u s w) t) = rt_state (rt w t)" if "undo_action (snd_pcm_action_stop ops state) = Some u"
    using that by simp
  show "rt_state (rt w' t) = rt_state (rt w t)" if "post_action (snd_pcm_action_stop ops state) s w = Some w'"
    using that \<open>t \<noteq> s\<close> by (simp add: post_stop_state)
qed

section \<open>Starting and stopping a group\<close>

text \<open>
  C6: starting is all or nothing. When \<open>snd_pcm_start\<close> succeeds, every stream of the group was
  prepared and had data and is now running; when one of them was not ready, the call fails, the
  hardware was not touched and no stream changed its state. In all cases positions, sizes and
  configuration stay, and so do the states of the streams outside the group.
\<close>

theorem snd_pcm_start_all_or_nothing:
  assumes "snd_pcm_start ops s w = Some (w', r)"
  shows "(r = Inr () \<longrightarrow> (\<forall>t\<in>set (group_members w s). \<not> start_refuses w t \<and> rt_state (rt w' t) = S_RUNNING)) \<and>
    ((\<exists>t\<in>set (group_members w s). start_refuses w t) \<longrightarrow>
      isl r \<and> w_hw w' = w_hw w \<and> (\<forall>u. rt_state (rt w' u) = rt_state (rt w u))) \<and>
    (\<forall>u. u \<notin> set (group_members w s) \<longrightarrow> rt_state (rt w' u) = rt_state (rt w u)) \<and> pos_frame w w'"
proof -
  have a: "snd_pcm_action (snd_pcm_action_start ops S_RUNNING) s w = Some (w', r)"
    using assms by (simp add: snd_pcm_start_def)
  have refused: "isl r \<and> w_hw w' = w_hw w \<and> (\<forall>u. rt_state (rt w' u) = rt_state (rt w u))"
    if "t \<in> set (group_members w s)" "start_refuses w t" for t
    using start.action_refused [OF that, of ops S_RUNNING] a by auto
  show ?thesis
    using a start.action_reaches [of ops S_RUNNING s w w'] start.action_admitted [of ops S_RUNNING s w w']
      refused start.action_outside [OF a] start_frame.action_inv [OF free_frame_refl a]
    by auto
qed

interpretation stop: unfailing_action "snd_pcm_action_stop ops state" "\<lambda>w s. rt_state (rt w s) = S_OPEN"
    "\<lambda>w s. rt_state (rt w s) = state"
  by unfold_locales (simp add: snd_pcm_do_stop_def)

text \<open>
  C24: stopping cannot be refused. On a driver that marks only streams served by the triggered one,
  \<open>snd_pcm_stop\<close> returns with success when no stream of the group is in state \<open>OPEN\<close>, whatever
  the driver answers to the trigger, and then all streams of the group are in the requested state
  (even \<open>DISCONNECTED\<close> ones), those outside keep theirs, and positions and configuration stay.
\<close>

theorem snd_pcm_stop_unconditional:
  assumes "marking_driver ops" "master_wf w" "\<forall>t\<in>set (group_members w s). rt_state (rt w t) \<noteq> S_OPEN"
  shows "\<exists>w'. snd_pcm_stop ops s state w = Some (w', Inr ()) \<and>
    (\<forall>t. rt_state (rt w' t) = (if t \<in> set (group_members w s) then state else rt_state (rt w t))) \<and>
    pos_frame w w' \<and> master_wf w'"
proof -
  obtain w' r where a: "snd_pcm_action (snd_pcm_action_stop ops state) s w = Some (w', r)" and "master_wf w'"
    using marking_driver.stop_returns [OF assms(1,2)] by blast
  moreover have r: "r = Inr ()" by (rule stop.action_succeeds [OF a assms(3)])
  moreover have "rt_state (rt w' t) = (if t \<in> set (group_members w s) then state else rt_state (rt w t))" for t
    using a r stop.action_reaches [of ops state s w w' "()" t] stop.action_outside [OF a] by simp
  moreover have "pos_frame w w'" by (rule stop_frame.action_inv [OF free_frame_refl a])
  ultimately show ?thesis by (simp add: snd_pcm_stop_def)
qed

text \<open>
  starting returns. On such a driver the recursion over trigger masters ends: \<open>snd_pcm_start\<close>
  returns, with success or an error, and leaves the trigger masters without a cycle.
\<close>

theorem snd_pcm_start_returns:
  assumes "marking_driver ops" "master_wf w"
  shows "\<exists>w' r. snd_pcm_start ops s w = Some (w', r) \<and> master_wf w'"
  using marking_driver.start_returns [OF assms] by (simp add: snd_pcm_start_def)

section \<open>Witnesses\<close>

interpretation still: marking_driver still_ops
  by unfold_locales (simp add: still_ops_def)

text \<open>Two linked playback streams, one prepared, and the other one prepared or in \<open>SETUP\<close>.\<close>

definition linked_world :: "pcm_state \<Rightarrow> unit pcm_world" where
  "linked_world st = demo_world\<lparr>
     w_subs := (\<lambda>k. \<lparr>ss_playback = True, ss_rt = demo_runtime\<lparr>rt_state := if k = 1 then st else S_PREPARED\<rparr>,
       ss_group = (if k < 2 then Shared 0 else Self k), ss_f_nonblock = False, ss_has_timer = True, ss_timer_running = False,
       ss_mmap_count = 0, ss_buffer_bytes_max = 65536\<rparr>),
     w_groups := (\<lambda>_. [0, 1]), w_group_count := (\<lambda>_. 2)\<rparr>"

lemma rt_linked_world [simp]: "rt (linked_world st) k = demo_runtime\<lparr>rt_state := if k = 1 then st else S_PREPARED\<rparr>"
  by (simp add: linked_world_def rt_def)

lemma linked_world_members: "group_members (linked_world st) 0 = [0, 1]"
  by (simp add: linked_world_def group_members_def)

lemma linked_world_masters: "master_wf (linked_world st)"
  by (simp add: master_wf_def master_edges_def demo_runtime_def zero_runtime_def)

theorem snd_pcm_stop_unconditional_witness:
  "\<exists>w'. snd_pcm_stop still_ops 0 S_SETUP (linked_world S_DISCONNECTED) = Some (w', Inr ()) \<and>
    rt_state (rt w' 0) = S_SETUP \<and> rt_state (rt w' 1) = S_SETUP \<and> rt_state (rt w' 2) = S_PREPARED"
proof -
  have "\<forall>t\<in>set (group_members (linked_world S_DISCONNECTED) 0). rt_state (rt (linked_world S_DISCONNECTED) t) \<noteq> S_OPEN"
    by (simp add: linked_world_members)
  from snd_pcm_stop_unconditional [OF still.marking_driver_axioms linked_world_masters this, of S_SETUP]
  show ?thesis by (auto simp: linked_world_members)
qed

theorem snd_pcm_start_returns_witness:
  "\<exists>w' r. snd_pcm_start still_ops 0 (linked_world S_PREPARED) = Some (w', r) \<and> master_wf w'"
  by (rule snd_pcm_start_returns [OF still.marking_driver_axioms linked_world_masters])

lemma start_linked_refused:
  "\<exists>w' e. snd_pcm_start still_ops 0 (linked_world S_SETUP) = Some (w', Inl e)"
proof -
  have "start_refuses (linked_world S_SETUP) 1" by (simp add: start_refuses_def)
  then show ?thesis using start.action_refused [of 1 "linked_world S_SETUP" 0 still_ops S_RUNNING]
    by (auto simp: linked_world_members snd_pcm_start_def)
qed

theorem snd_pcm_start_all_or_nothing_witness:
  "\<exists>w' e. snd_pcm_start still_ops 0 (linked_world S_SETUP) = Some (w', Inl e) \<and>
    rt_state (rt w' 0) = S_PREPARED \<and> rt_state (rt w' 1) = S_SETUP"
proof -
  obtain w' e where s: "snd_pcm_start still_ops 0 (linked_world S_SETUP) = Some (w', Inl e)"
    using start_linked_refused by blast
  have "\<exists>t\<in>set (group_members (linked_world S_SETUP) 0). start_refuses (linked_world S_SETUP) t"
    by (simp add: linked_world_members start_refuses_def)
  with snd_pcm_start_all_or_nothing [OF s] s show ?thesis by simp
qed

end
