(* ===== verification/Pcm_Pointer.thy ===== *)
theory Pcm_Pointer
  imports Pcm_Start_Stop
begin

text \<open>
  Following the hardware: \<open>snd_pcm_update_hw_ptr0\<close> and its callers in \<open>sound/core/pcm_lib.c\<close>. The
  model splits the function where it jumps: reading the position, choosing the new base and pointer
  (\<open>hw_ptr_target\<close>), the loop for streams without period interrupts (\<open>elapsed_loop\<close>), the check
  against the clock (\<open>jiffies_check\<close>) and storing the result (\<open>hw_ptr_commit\<close>).
\<close>

abbreviation INFO_MMAP :: u32 where "INFO_MMAP \<equiv> 0x1"
abbreviation INFO_BATCH :: u32 where "INFO_BATCH \<equiv> 0x10"
abbreviation INFO_HAS_WALL_CLOCK :: u32 where "INFO_HAS_WALL_CLOCK \<equiv> 0x01000000"

section \<open>Overruns and the state after a move\<close>

definition xrun :: "'h pcm_ops \<Rightarrow> nat \<Rightarrow> 'h pcm_world \<Rightarrow> 'h pcm_world option" where
  "xrun ops s w = do {
     (w2, _) \<leftarrow> snd_pcm_stop ops s S_XRUN
        (if rt_tstamp_mode (rt w s) then upd_rt s (\<lambda>r. r\<lparr>rt_tstamp := snd_pcm_gettime w s\<rparr>) w else w);
     Some w2
   }"

definition stream_avail :: "'h pcm_world \<Rightarrow> nat \<Rightarrow> u64" where
  "stream_avail w s =
     (if playback w s then snd_pcm_playback_avail (rt w s) else snd_pcm_capture_avail (rt w s))"

definition snd_pcm_update_state :: "'h pcm_ops \<Rightarrow> nat \<Rightarrow> 'h pcm_world \<Rightarrow> ('h pcm_world \<times> unit res) option" where
  "snd_pcm_update_state ops s w =
     (let avail = stream_avail w s;
          w1 = (if avail > rt_avail_max (rt w s) then upd_rt s (\<lambda>r. r\<lparr>rt_avail_max := avail\<rparr>) w else w);
          r = rt w1 s
      in if rt_state r = S_DRAINING \<and> avail \<ge> rt_buffer_size r then do {
           (w2, _) \<leftarrow> snd_pcm_drain_done ops s w1; Some (w2, Inl EPIPE)
         }
         else if rt_state r \<noteq> S_DRAINING \<and> avail \<ge> rt_stop_threshold r then do {
           w2 \<leftarrow> xrun ops s w1; Some (w2, Inl EPIPE)
         }
         else if rt_twake r \<noteq> 0 then
           Some (if avail \<ge> rt_twake r then add_effects [Wake_tsleep s] w1 else w1, Inr ())
         else
           Some (if avail \<ge> rt_avail_min r then add_effects [Wake_sleep s] w1 else w1, Inr ()))"

section \<open>The new position\<close>

text \<open>One buffer further, around the boundary; \<open>crossed\<close> counts how often.\<close>

definition advance_base :: "runtime \<Rightarrow> u64 \<times> int \<Rightarrow> u64 \<times> int" where
  "advance_base r = (\<lambda>(base, crossed).
     let b = base + rt_buffer_size r
     in if b \<ge> rt_boundary r then (0, crossed + 1) else (b, crossed))"

definition hw_ptr_target :: "runtime \<Rightarrow> bool \<Rightarrow> u64 \<Rightarrow> u64 \<Rightarrow> u64 \<times> int" where
  "hw_ptr_target r in_interrupt curr_jiffies pos =
     (let base = rt_hw_ptr_base r; new = base + pos
      in if in_interrupt \<and> rt_hw_ptr_interrupt r + rt_period_size r > new \<and>
            curr_jiffies - rt_hw_ptr_jiffies r > rt_hw_ptr_buffer_jiffies r div 2
         then advance_base r (base, 0)
         else if new < rt_hw_ptr r then advance_base r (base, 0)
         else (base, 0))"

definition ptr_delta :: "runtime \<Rightarrow> u64 \<Rightarrow> u64 \<Rightarrow> u64" where
  "ptr_delta r new old = (let d = new - old in if sint d < 0 then d + rt_boundary r else d)"

text \<open>The loop takes one buffer off the unexplained time in each round. It does not end when
  \<open>hw_ptr_buffer_jiffies\<close> is 0, that is when a buffer is shorter than a tick of the clock.\<close>

partial_function (option) elapsed_loop :: "runtime \<Rightarrow> u64 \<Rightarrow> u64 \<Rightarrow> u64 \<times> int \<Rightarrow> (u64 \<times> int) option" where
  "elapsed_loop r xrun_threshold hdelta bc =
     (if sint hdelta > sint xrun_threshold
      then elapsed_loop r xrun_threshold (hdelta - rt_hw_ptr_buffer_jiffies r) (advance_base r bc)
      else Some bc)"

declare elapsed_loop.simps [code]

definition elapsed_buffers :: "u64 \<Rightarrow> runtime \<Rightarrow> u64 \<Rightarrow> u64 \<Rightarrow> u64 \<times> int \<Rightarrow> (u64 \<times> int) option" where
  "elapsed_buffers HZ r curr_jiffies delta bc =
     (let jdelta = curr_jiffies - rt_hw_ptr_jiffies r
      in if jdelta < rt_hw_ptr_buffer_jiffies r div 2 then Some bc
         else elapsed_loop r (rt_hw_ptr_buffer_jiffies r div 2 + 1)
                (jdelta - sdiv64 (delta * HZ) (ucast (rt_rate r))) bc)"

fun jiffies_steps :: "runtime \<Rightarrow> nat \<Rightarrow> u64 \<times> int \<Rightarrow> u64 \<times> int" where
  "jiffies_steps r 0 pc = pc"
| "jiffies_steps r (Suc n) (ptr, crossed) =
     (let p = ptr + rt_period_size r
      in jiffies_steps r n (if p \<ge> rt_boundary r then (p - rt_boundary r, crossed - 1) else (p, crossed)))"

text \<open>Moving by whole periods from the old position; the result is the base, the pointer and the
  number of crossings.\<close>

definition jiffies_resync :: "runtime \<Rightarrow> nat \<Rightarrow> int \<Rightarrow> u64 \<times> u64 \<times> int" where
  "jiffies_resync r n crossed =
     (let (new, crossed') = jiffies_steps r n (rt_hw_ptr r, crossed)
      in (new - new mod rt_buffer_size r, new, crossed'))"

definition jiffies_check :: "'h pcm_ops \<Rightarrow> runtime \<Rightarrow> u64 \<Rightarrow> u64 \<Rightarrow> u64 \<times> u64 \<times> int \<Rightarrow> u64 \<times> u64 \<times> int" where
  "jiffies_check ops r curr_jiffies delta = (\<lambda>(base, new, crossed).
     if \<not> k_jiffies_check ops \<or> hw_info (rt_hw r) AND INFO_BATCH \<noteq> 0 \<or> sint delta < sint (rt_delay r)
     then (base, new, crossed)
     else let hdelta = delta - rt_delay r;
              jdelta = curr_jiffies - rt_hw_ptr_jiffies r
          in if sdiv64 (hdelta * k_HZ ops) (ucast (rt_rate r)) > jdelta + k_HZ ops div 100
             then let n = jdelta div ((rt_period_size r * k_HZ ops) div ucast (rt_rate r) + k_HZ ops div 100)
                  in jiffies_resync r (if sint n > 0 then unat n else 0) crossed
             else (base, new, crossed))"

section \<open>Storing the position\<close>

definition hw_ptr_interrupt_step :: "u64 \<Rightarrow> runtime \<Rightarrow> runtime" where
  "hw_ptr_interrupt_step new r =
     (let delta = ptr_delta r new (rt_hw_ptr_interrupt r);
          p = rt_hw_ptr_interrupt r + (delta - delta mod rt_period_size r)
      in r\<lparr>rt_hw_ptr_interrupt := if p \<ge> rt_boundary r then p - rt_boundary r else p\<rparr>)"

definition audio_time :: "'h pcm_ops \<Rightarrow> nat \<Rightarrow> bool \<Rightarrow> 'h \<Rightarrow> runtime \<Rightarrow> u64" where
  "audio_time ops s is_playback h r =
     (if hw_info (rt_hw r) AND INFO_HAS_WALL_CLOCK = 0 then
        (if is_playback then rt_hw_ptr_wrap r + rt_hw_ptr r - rt_delay r
         else rt_hw_ptr_wrap r + rt_hw_ptr r + rt_delay r) * 1000000000 div ucast (rt_rate r)
      else (case op_wall_clock ops of Some f \<Rightarrow> f s h | None \<Rightarrow> k_stack_time ops))"

text \<open>\<open>h\<close> and \<open>now\<close> are the hardware and the time at which the position was read.\<close>

definition hw_ptr_commit :: "'h pcm_ops \<Rightarrow> nat \<Rightarrow> bool \<Rightarrow> 'h \<Rightarrow> u64 \<Rightarrow> u64 \<Rightarrow> u64 \<times> u64 \<times> int \<Rightarrow>
    'h pcm_world \<Rightarrow> 'h pcm_world" where
  "hw_ptr_commit ops s in_interrupt h now curr_jiffies = (\<lambda>(base, new, crossed) w.
     let w1 = (if playback w s \<and> rt_silence_size (rt w s) > 0 then snd_pcm_playback_silence ops s new w else w);
         w2 = (if in_interrupt then upd_rt s (hw_ptr_interrupt_step new) w1 else w1);
         w3 = upd_rt s (\<lambda>r. r\<lparr>rt_hw_ptr_base := base, rt_hw_ptr := new, rt_hw_ptr_jiffies := curr_jiffies,
                rt_hw_ptr_wrap := if crossed \<noteq> 0 then rt_hw_ptr_wrap r + rt_boundary r else rt_hw_ptr_wrap r\<rparr>) w2
     in if rt_tstamp_mode (rt w3 s)
        then upd_rt s (\<lambda>r. r\<lparr>rt_tstamp := now, rt_audio_tstamp := audio_time ops s (playback w s) h r\<rparr>) w3
        else w3)"

section \<open>The update\<close>

definition call_pointer :: "'h pcm_ops \<Rightarrow> nat \<Rightarrow> 'h pcm_world \<Rightarrow> 'h pcm_world \<times> u64" where
  "call_pointer ops s w =
     (let (h, pos, delay) = op_pointer ops s (w_hw w); w1 = w\<lparr>w_hw := h\<rparr>
      in (case delay of None \<Rightarrow> w1 | Some d \<Rightarrow> upd_rt s (\<lambda>r. r\<lparr>rt_delay := d\<rparr>) w1, pos))"

text \<open>The target of a valid position: \<open>None\<close> when the loop does not end, \<open>Some None\<close> when the
  position is rejected.\<close>

definition hw_ptr_move :: "'h pcm_ops \<Rightarrow> runtime \<Rightarrow> bool \<Rightarrow> u64 \<Rightarrow> u64 \<Rightarrow> (u64 \<times> u64 \<times> int) option option" where
  "hw_ptr_move ops r in_interrupt curr_jiffies pos =
     (let (base, crossed) = hw_ptr_target r in_interrupt curr_jiffies pos;
          delta = ptr_delta r (base + pos) (rt_hw_ptr r)
      in if rt_no_period_wakeup r then do {
           (base', crossed') \<leftarrow> elapsed_buffers (k_HZ ops) r curr_jiffies delta (base, crossed);
           Some (Some (base', base' + pos, crossed'))
         }
         else if delta \<ge> rt_buffer_size r + rt_period_size r then Some None
         else Some (Some (jiffies_check ops r curr_jiffies delta (base, base + pos, crossed))))"

definition valid_pos :: "runtime \<Rightarrow> u64 \<Rightarrow> u64" where
  "valid_pos r pos0 = (let pos = (if pos0 \<ge> rt_buffer_size r then 0 else pos0) in pos - pos mod rt_min_align r)"

definition snd_pcm_update_hw_ptr0 :: "'h pcm_ops \<Rightarrow> nat \<Rightarrow> bool \<Rightarrow> 'h pcm_world \<Rightarrow> ('h pcm_world \<times> unit res) option" where
  "snd_pcm_update_hw_ptr0 ops s in_interrupt w =
     (let (w1, pos) = call_pointer ops s w; r = rt w1 s; curr_jiffies = w_jiffies w1
      in if pos = ULONG_MAX then do { w2 \<leftarrow> xrun ops s w1; Some (w2, Inl EPIPE) }
         else do {
           move \<leftarrow> hw_ptr_move ops r in_interrupt curr_jiffies (valid_pos r pos);
           (case move of
              None \<Rightarrow> Some (w1, Inr ())
            | Some (base, new, crossed) \<Rightarrow>
                if rt_hw_ptr r = new then Some (w1, Inr ())
                else snd_pcm_update_state ops s
                       (hw_ptr_commit ops s in_interrupt (w_hw w1) (snd_pcm_gettime w1 s) curr_jiffies
                          (base, new, crossed) w1))
         })"

definition snd_pcm_update_hw_ptr :: "'h pcm_ops \<Rightarrow> nat \<Rightarrow> 'h pcm_world \<Rightarrow> ('h pcm_world \<times> unit res) option" where
  "snd_pcm_update_hw_ptr ops s w = snd_pcm_update_hw_ptr0 ops s False w"

definition snd_pcm_period_elapsed :: "'h pcm_ops \<Rightarrow> nat \<Rightarrow> 'h pcm_world \<Rightarrow> 'h pcm_world option" where
  "snd_pcm_period_elapsed ops s w = do {
     w2 \<leftarrow> (if \<not> snd_pcm_running w s then Some w
            else do {
              (w1, res) \<leftarrow> snd_pcm_update_hw_ptr0 ops s True w;
              Some (if isl res then w1
                    else if ss_timer_running (w_subs w1 s) then add_effects [Timer_interrupt s] w1 else w1)
            });
     Some (add_effects [Kill_fasync s] w2)
   }"

section \<open>The generic ioctl callback\<close>

definition snd_pcm_lib_ioctl_reset :: "'h pcm_ops \<Rightarrow> nat \<Rightarrow> 'h pcm_world \<Rightarrow> ('h pcm_world \<times> unit res) option" where
  "snd_pcm_lib_ioctl_reset ops s w =
     (if snd_pcm_running w s then do {
        (w1, res) \<leftarrow> snd_pcm_update_hw_ptr ops s w;
        Some (if isl res then upd_rt s (\<lambda>r. r\<lparr>rt_hw_ptr := 0, rt_hw_ptr_wrap := 0\<rparr>) w1
              else upd_rt s (\<lambda>r. r\<lparr>rt_hw_ptr := rt_hw_ptr r mod rt_buffer_size r\<rparr>) w1, Inr ())
      }
      else Some (upd_rt s (\<lambda>r. r\<lparr>rt_hw_ptr := 0, rt_hw_ptr_wrap := 0\<rparr>) w, Inr ()))"

record channel_info =
  ci_channel :: u32
  ci_offset :: int
  ci_first :: u32
  ci_step :: u32

definition snd_pcm_lib_ioctl_channel_info :: "runtime \<Rightarrow> channel_info \<Rightarrow> channel_info \<times> unit res" where
  "snd_pcm_lib_ioctl_channel_info r info =
     (if rt_info r AND INFO_MMAP = 0 then (info\<lparr>ci_offset := -1\<rparr>, Inr ())
      else case snd_pcm_format_physical_width (rt_format r) of
        Inl e \<Rightarrow> (info, Inl e)
      | Inr width \<Rightarrow>
          let info0 = info\<lparr>ci_offset := 0\<rparr>
          in if rt_access r = 0 \<or> rt_access r = 3 then
               (info0\<lparr>ci_first := ci_channel info * of_nat width,
                  ci_step := rt_channels r * of_nat width\<rparr>, Inr ())
             else if rt_access r = 1 \<or> rt_access r = 4 then
               (info0\<lparr>ci_first := ucast (ucast (ci_channel info) * (rt_dma_bytes r div ucast (rt_channels r)) * 8 :: u64),
                  ci_step := of_nat width\<rparr>, Inr ())
             else (info0, Inr ()))"

end
