(* ===== verification/Pcm_Pointer_Laws.thy ===== *)
theory Pcm_Pointer_Laws
  imports Pcm_Pointer
begin

text \<open>
  Correctness of the position update: positions stay inside the ring (\<open>ptr_wf\<close>), the pointer
  follows a hardware that moves by less than a buffer between two updates, and the update returns.
\<close>

section \<open>The invariant of positions\<close>

text \<open>\<open>hw_ptr_base\<close> is the start of the buffer round in which \<open>hw_ptr\<close> lies.\<close>

definition ptr_wf :: "runtime \<Rightarrow> bool" where
  "ptr_wf r \<longleftrightarrow> ring_wf r \<and> unat (rt_buffer_size r) dvd unat (rt_hw_ptr_base r) \<and>
     unat (rt_hw_ptr_base r) \<le> unat (rt_hw_ptr r) \<and>
     unat (rt_hw_ptr r) < unat (rt_hw_ptr_base r) + unat (rt_buffer_size r) \<and>
     rt_hw_ptr_interrupt r < rt_boundary r \<and> 0 < unat (rt_period_size r) \<and>
     unat (rt_period_size r) \<le> unat (rt_buffer_size r)"

lemma pos_free_ptr:
  assumes "pos_free r' = pos_free r"
  shows "rt_hw_ptr_interrupt r' = rt_hw_ptr_interrupt r" "rt_hw_ptr_base r' = rt_hw_ptr_base r"
    "rt_hw_ptr_wrap r' = rt_hw_ptr_wrap r"
proof -
  have s: "rt_hw_ptr_interrupt (pos_free r) = rt_hw_ptr_interrupt r" "rt_hw_ptr_base (pos_free r) = rt_hw_ptr_base r"
    "rt_hw_ptr_wrap (pos_free r) = rt_hw_ptr_wrap r" for r by (simp_all add: pos_free_def act_free_def)
  show "rt_hw_ptr_interrupt r' = rt_hw_ptr_interrupt r" "rt_hw_ptr_base r' = rt_hw_ptr_base r"
    "rt_hw_ptr_wrap r' = rt_hw_ptr_wrap r"
    using assms s by metis+
qed

lemma ptr_wf_pos:
  assumes "pos_free r' = pos_free r"
  shows "ptr_wf r' \<longleftrightarrow> ptr_wf r"
  by (simp add: ptr_wf_def ring_wf_pos [OF assms] pos_free_selectors [OF assms] pos_free_ptr [OF assms])

lemma ptr_bounds:
  assumes "ptr_wf r"
  shows "unat (rt_hw_ptr_base r) + unat (rt_buffer_size r) \<le> unat (rt_boundary r)"
proof -
  obtain a where a: "unat (rt_hw_ptr_base r) = unat (rt_buffer_size r) * a" using assms by (auto simp: ptr_wf_def)
  obtain b where b: "unat (rt_boundary r) = unat (rt_buffer_size r) * b" using assms by (auto simp: ptr_wf_def ring_wf_def)
  have "unat (rt_hw_ptr_base r) < unat (rt_boundary r)"
    using assms by (auto simp: ptr_wf_def ring_wf_def word_less_nat_alt)
  then have "a < b" using a b by simp
  then have "unat (rt_buffer_size r) * Suc a \<le> unat (rt_buffer_size r) * b" by (intro mult_le_mono2) simp
  then show ?thesis using a b by simp
qed

section \<open>Bases\<close>

text \<open>A base that is a multiple of the buffer below the boundary.\<close>

definition base_wf :: "runtime \<Rightarrow> u64 \<Rightarrow> bool" where
  "base_wf r base \<longleftrightarrow> unat (rt_buffer_size r) dvd unat base \<and>
     unat base + unat (rt_buffer_size r) \<le> unat (rt_boundary r)"

lemma ptr_wf_base: "ptr_wf r \<Longrightarrow> base_wf r (rt_hw_ptr_base r)"
  using ptr_bounds by (simp add: base_wf_def ptr_wf_def)

lemma dvd_next_le:
  assumes "(b :: nat) dvd x" "b dvd m" "x < m"
  shows "x + b \<le> m"
proof -
  obtain i j where "x = b * i" "m = b * j" using assms(1,2) by blast
  with assms(3) have "b * Suc i \<le> b * j" by (intro mult_le_mono2) simp
  then show ?thesis using \<open>x = b * i\<close> \<open>m = b * j\<close> by simp
qed

lemma advance_base_wf:
  assumes ring: "ring_wf r" and base: "base_wf r base"
  shows "base_wf r (fst (advance_base r (base, c)))"
    "unat (fst (advance_base r (base, c))) = (unat base + unat (rt_buffer_size r)) mod unat (rt_boundary r)"
    "snd (advance_base r (base, c)) = (if unat base + unat (rt_buffer_size r) < unat (rt_boundary r) then c else c + 1)"
proof -
  let ?B = "unat (rt_buffer_size r)" and ?M = "unat (rt_boundary r)"
  note b = ring_bounds [OF ring]
  have dvd: "?B dvd unat base" "?B dvd ?M" using base ring by (simp_all add: base_wf_def ring_wf_def)
  have le: "unat base + ?B \<le> ?M" using base by (simp add: base_wf_def)
  have u: "unat (base + rt_buffer_size r) = unat base + ?B"
    using le b(4) by (intro unat_add_nowrap) simp
  have r: "advance_base r (base, c) = (if unat base + ?B < ?M then (base + rt_buffer_size r, c) else (0, c + 1))"
    by (simp add: advance_base_def Let_def word_le_nat_alt u not_le)
  show "base_wf r (fst (advance_base r (base, c)))"
  proof (cases "unat base + ?B < ?M")
    case True
    have "?B dvd unat base + ?B" using dvd(1) by simp
    then have "unat base + ?B + ?B \<le> ?M" using dvd(2) True by (rule dvd_next_le)
    then show ?thesis using True \<open>?B dvd unat base + ?B\<close> by (simp add: r base_wf_def u)
  next
    case False
    then show ?thesis using b(3) by (simp add: r base_wf_def)
  qed
  show "unat (fst (advance_base r (base, c))) = (unat base + ?B) mod ?M"
    using le by (auto simp: r u le_less)
  show "snd (advance_base r (base, c)) = (if unat base + ?B < ?M then c else c + 1)"
    by (simp add: r)
qed

lemma base_pos:
  assumes ring: "ring_wf r" and base: "base_wf r base" and pos: "unat pos < unat (rt_buffer_size r)"
  shows "unat (base + pos) = unat base + unat pos" "unat (base + pos) < unat (rt_boundary r)"
proof -
  have "unat base + unat pos < unat (rt_boundary r)" using base pos by (simp add: base_wf_def)
  moreover from this show "unat (base + pos) = unat base + unat pos"
    using ring_bounds(4) [OF ring] by (intro unat_add_nowrap) simp
  ultimately show "unat (base + pos) < unat (rt_boundary r)" by simp
qed

lemma hw_ptr_target_wf:
  assumes "ring_wf r" "base_wf r (rt_hw_ptr_base r)"
  shows "base_wf r (fst (hw_ptr_target r i j pos))"
  using advance_base_wf(1) [OF assms] assms(2) by (simp add: hw_ptr_target_def Let_def)

lemma elapsed_loop_wf:
  assumes ring: "ring_wf r" and res: "elapsed_loop r t h bc = Some bc'" and base: "base_wf r (fst bc)"
  shows "base_wf r (fst bc')"
proof -
  have "r0 = r \<longrightarrow> base_wf r (fst bc) \<longrightarrow> base_wf r (fst bc')"
    if "elapsed_loop r0 t h bc = Some bc'" for r0
  proof (rule elapsed_loop.raw_induct [where P = "\<lambda>r0 t h bc bc'. r0 = r \<longrightarrow> base_wf r (fst bc) \<longrightarrow> base_wf r (fst bc')",
        OF _ that])
    fix f and r0 :: runtime and t h :: u64 and bc bc' :: "u64 \<times> int"
    assume IH: "\<And>r0 t h bc bc'. f r0 t h bc = Some bc' \<Longrightarrow> r0 = r \<longrightarrow> base_wf r (fst bc) \<longrightarrow> base_wf r (fst bc')"
      and step: "(if sint t < sint h then f r0 t (h - rt_hw_ptr_buffer_jiffies r0) (advance_base r0 bc) else Some bc) = Some bc'"
    show "r0 = r \<longrightarrow> base_wf r (fst bc) \<longrightarrow> base_wf r (fst bc')"
      using step IH advance_base_wf(1) [OF ring, of "fst bc" "snd bc"] by (auto split: if_splits)
  qed
  then show ?thesis using res base by blast
qed

lemma elapsed_buffers_wf:
  "ring_wf r \<Longrightarrow> elapsed_buffers HZ r j d bc = Some bc' \<Longrightarrow> base_wf r (fst bc) \<Longrightarrow> base_wf r (fst bc')"
  by (auto simp: elapsed_buffers_def Let_def split: if_splits dest: elapsed_loop_wf)

lemma jiffies_steps_below:
  assumes ring: "ring_wf r" and per: "unat (rt_period_size r) \<le> unat (rt_buffer_size r)"
  shows "unat (fst pc) < unat (rt_boundary r) \<Longrightarrow> unat (fst (jiffies_steps r n pc)) < unat (rt_boundary r)"
proof (induction n arbitrary: pc)
  case (Suc n)
  obtain ptr c where pc: "pc = (ptr, c)" by fastforce
  have u: "unat (ptr + rt_period_size r) = unat ptr + unat (rt_period_size r)"
    using Suc.prems ring_bounds(1,4) [OF ring] per by (intro unat_add_nowrap) (simp add: pc)
  have "unat (ptr + rt_period_size r - rt_boundary r) < unat (rt_boundary r)" if "rt_boundary r \<le> ptr + rt_period_size r"
    using that Suc.prems ring_bounds(3) [OF ring] per by (simp add: unat_sub_nowrap u pc)
  then show ?case using Suc.IH by (simp add: pc Let_def not_le word_less_nat_alt)
qed simp

lemma valid_pos_below:
  assumes "ring_wf r"
  shows "unat (valid_pos r pos) < unat (rt_buffer_size r)"
proof -
  define p where "p = (if pos \<ge> rt_buffer_size r then 0 else pos)"
  have p: "unat p < unat (rt_buffer_size r)" using ring_bounds(2) [OF assms] by (auto simp: p_def word_le_nat_alt not_le)
  have "p mod rt_min_align r \<le> p" by (simp add: word_le_nat_alt unat_mod)
  then have "unat (p - p mod rt_min_align r) \<le> unat p" by (simp add: unat_sub_nowrap)
  with p show ?thesis by (simp add: valid_pos_def Let_def flip: p_def)
qed

text \<open>Every accepted target is a base with a pointer in its round.\<close>

definition target_wf :: "runtime \<Rightarrow> u64 \<times> u64 \<times> int \<Rightarrow> bool" where
  "target_wf r = (\<lambda>(base, new, crossed). base_wf r base \<and> unat base \<le> unat new \<and>
     unat new < unat base + unat (rt_buffer_size r))"

lemma target_wf_pos:
  "ring_wf r \<Longrightarrow> base_wf r base \<Longrightarrow> unat pos < unat (rt_buffer_size r) \<Longrightarrow> target_wf r (base, base + pos, c)"
  by (simp add: target_wf_def base_pos)

lemma jiffies_check_cases:
  "jiffies_check ops r j d (base, new, c) = (base, new, c) \<or>
   (\<exists>n. jiffies_check ops r j d (base, new, c) = jiffies_resync r n c)"
  unfolding jiffies_check_def Let_def by auto

lemma jiffies_check_wf:
  assumes p: "ptr_wf r" and t: "target_wf r (base, new, c)"
  shows "target_wf r (jiffies_check ops r j d (base, new, c))"
proof -
  have ring: "ring_wf r" and per: "unat (rt_period_size r) \<le> unat (rt_buffer_size r)" using p by (simp_all add: ptr_wf_def)
  have h: "unat (rt_hw_ptr r) < unat (rt_boundary r)" using ring_bounds(5) [OF ring] .
  have "target_wf r (x - x mod rt_buffer_size r, x, c')" if x: "unat x < unat (rt_boundary r)" for x and c' :: int
  proof -
    let ?B = "unat (rt_buffer_size r)"
    have u: "unat (x - x mod rt_buffer_size r) = unat x - unat x mod ?B"
      by (simp add: unat_sub_nowrap word_le_nat_alt unat_mod)
    have dvd: "?B dvd unat x - unat x mod ?B" by (simp add: dvd_minus_mod)
    have lt: "unat x - unat x mod ?B < unat (rt_boundary r)" using x by simp
    have "?B dvd unat (rt_boundary r)" using ring by (simp add: ring_wf_def)
    from dvd_next_le [OF dvd this lt] have "unat x - unat x mod ?B + ?B \<le> unat (rt_boundary r)" .
    moreover have "unat x < unat x - unat x mod ?B + ?B"
      using mod_less_divisor [OF ring_bounds(2) [OF ring], of "unat x"] by linarith
    ultimately show ?thesis using dvd by (simp add: target_wf_def base_wf_def u)
  qed
  then have "target_wf r (jiffies_resync r n c)" for n
    using jiffies_steps_below [OF ring per, of "(rt_hw_ptr r, c)" n] h
    by (cases "jiffies_steps r n (rt_hw_ptr r, c)") (simp add: jiffies_resync_def)
  then show ?thesis using t jiffies_check_cases [of ops r j d base new c] by metis
qed

lemma hw_ptr_move_wf:
  assumes p: "ptr_wf r" and pos: "unat pos < unat (rt_buffer_size r)"
    and m: "hw_ptr_move ops r i j pos = Some (Some t)"
  shows "target_wf r t"
proof -
  have ring: "ring_wf r" using p by (simp add: ptr_wf_def)
  obtain base c where t: "hw_ptr_target r i j pos = (base, c)" by fastforce
  have b: "base_wf r base" using hw_ptr_target_wf [OF ring ptr_wf_base [OF p], of i j pos] by (simp add: t)
  show ?thesis
    using m jiffies_check_wf [OF p target_wf_pos [OF ring b pos]]
    by (auto simp: hw_ptr_move_def t Let_def Option.bind_eq_Some_conv split: if_splits
        intro!: target_wf_pos [OF ring _ pos] dest!: elapsed_buffers_wf [OF ring] simp: b)
qed

section \<open>Storing the target\<close>

text \<open>The distance of two positions around the ring.\<close>

lemma ptr_delta_mod:
  assumes ring: "ring_wf r" and new: "unat new < unat (rt_boundary r)" and old: "unat old < unat (rt_boundary r)"
  shows "int (unat (ptr_delta r new old)) = (int (unat new) - int (unat old)) mod int (unat (rt_boundary r))"
    "unat (ptr_delta r new old) < unat (rt_boundary r)"
proof -
  let ?r = "r\<lparr>rt_hw_ptr := new, rt_appl_ptr := old\<rparr>"
  have "ring_wf ?r" using ring new old by (simp add: ring_wf_def word_less_nat_alt)
  moreover have "snd_pcm_capture_avail ?r = ptr_delta r new old"
    by (simp add: snd_pcm_capture_avail_def ptr_delta_def Let_def)
  ultimately show m: "int (unat (ptr_delta r new old)) = (int (unat new) - int (unat old)) mod int (unat (rt_boundary r))"
    using capture_avail_mod by fastforce
  have "0 < int (unat (rt_boundary r))" using new by simp
  then have "int (unat (ptr_delta r new old)) < int (unat (rt_boundary r))" unfolding m by simp
  then show "unat (ptr_delta r new old) < unat (rt_boundary r)" unfolding of_nat_less_iff .
qed

lemma interrupt_step_below:
  assumes ring: "ring_wf r" and new: "unat new < unat (rt_boundary r)" and i: "rt_hw_ptr_interrupt r < rt_boundary r"
  shows "rt_hw_ptr_interrupt (hw_ptr_interrupt_step new r) < rt_boundary r"
proof -
  let ?M = "unat (rt_boundary r)" and ?i = "rt_hw_ptr_interrupt r"
  define d where "d = ptr_delta r new ?i - ptr_delta r new ?i mod rt_period_size r"
  have iM: "unat ?i < ?M" using i by (simp add: word_less_nat_alt)
  have "unat d \<le> unat (ptr_delta r new ?i)"
    by (simp add: d_def unat_sub_nowrap word_le_nat_alt unat_mod)
  then have dM: "unat d < ?M" using ptr_delta_mod(2) [OF ring new iM] by simp
  have u: "unat (?i + d) = unat ?i + unat d"
    using iM dM ring_bounds(4) [OF ring] by (intro unat_add_nowrap) simp
  have "unat (?i + d - rt_boundary r) < ?M" if "rt_boundary r \<le> ?i + d"
    using that iM dM by (simp add: unat_sub_nowrap u)
  then show ?thesis
    by (simp add: hw_ptr_interrupt_step_def Let_def not_le word_less_nat_alt flip: d_def)
qed

lemma hw_ptr_interrupt_step_frame [simp]:
  "rt_hw_ptr_base (hw_ptr_interrupt_step n r) = rt_hw_ptr_base r" "rt_hw_ptr (hw_ptr_interrupt_step n r) = rt_hw_ptr r"
  "rt_hw_ptr_wrap (hw_ptr_interrupt_step n r) = rt_hw_ptr_wrap r" "rt_boundary (hw_ptr_interrupt_step n r) = rt_boundary r"
  "rt_buffer_size (hw_ptr_interrupt_step n r) = rt_buffer_size r"
  "rt_period_size (hw_ptr_interrupt_step n r) = rt_period_size r"
  "rt_appl_ptr (hw_ptr_interrupt_step n r) = rt_appl_ptr r" "rt_state (hw_ptr_interrupt_step n r) = rt_state r"
  by (simp_all add: hw_ptr_interrupt_step_def Let_def)

text \<open>What a commit writes, apart from the silence in front of the hardware.\<close>

lemma commit_cases:
  obtains v t1 t2 where "sil_frame w v"
    and "rt (hw_ptr_commit ops s i h now j (base, new, c) w) s =
      (rt v s)\<lparr>rt_hw_ptr_interrupt := rt_hw_ptr_interrupt (if i then hw_ptr_interrupt_step new (rt v s) else rt v s),
        rt_hw_ptr_base := base, rt_hw_ptr := new, rt_hw_ptr_jiffies := j,
        rt_hw_ptr_wrap := if c \<noteq> 0 then rt_hw_ptr_wrap (rt v s) + rt_boundary (rt v s) else rt_hw_ptr_wrap (rt v s),
        rt_tstamp := t1, rt_audio_tstamp := t2\<rparr>"
proof -
  define v where "v = (if playback w s \<and> rt_silence_size (rt w s) > 0 then snd_pcm_playback_silence ops s new w else w)"
  let ?w' = "hw_ptr_commit ops s i h now j (base, new, c) w"
  have "sil_frame w v" by (simp add: v_def playback_silence_sil)
  moreover have "rt ?w' s =
      (rt v s)\<lparr>rt_hw_ptr_interrupt := rt_hw_ptr_interrupt (if i then hw_ptr_interrupt_step new (rt v s) else rt v s),
        rt_hw_ptr_base := base, rt_hw_ptr := new, rt_hw_ptr_jiffies := j,
        rt_hw_ptr_wrap := if c \<noteq> 0 then rt_hw_ptr_wrap (rt v s) + rt_boundary (rt v s) else rt_hw_ptr_wrap (rt v s),
        rt_tstamp := rt_tstamp (rt ?w' s), rt_audio_tstamp := rt_audio_tstamp (rt ?w' s)\<rparr>"
    by (simp add: hw_ptr_commit_def Let_def hw_ptr_interrupt_step_def flip: v_def)
  ultimately show thesis by (rule that)
qed

text \<open>A commit of a well-formed target keeps the invariant.\<close>

lemma commit_ptr_wf:
  assumes p: "ptr_wf (rt w s)" and t: "target_wf (rt w s) (base, new, c)"
  shows "ptr_wf (rt (hw_ptr_commit ops s i h now j (base, new, c) w) s)"
proof -
  let ?w' = "hw_ptr_commit ops s i h now j (base, new, c) w"
  obtain v t1 t2 where f: "sil_frame w v"
    and r': "rt ?w' s = (rt v s)\<lparr>rt_hw_ptr_interrupt := rt_hw_ptr_interrupt (if i then hw_ptr_interrupt_step new (rt v s) else rt v s),
        rt_hw_ptr_base := base, rt_hw_ptr := new, rt_hw_ptr_jiffies := j,
        rt_hw_ptr_wrap := if c \<noteq> 0 then rt_hw_ptr_wrap (rt v s) + rt_boundary (rt v s) else rt_hw_ptr_wrap (rt v s),
        rt_tstamp := t1, rt_audio_tstamp := t2\<rparr>"
    by (rule commit_cases)
  have pos: "pos_free (rt v s) = pos_free (rt w s)" using f by (intro pos_frame_rt act_frame_pos sil_frame_act)
  have pv: "ptr_wf (rt v s)" using p ptr_wf_pos [OF pos] by simp
  have tv: "target_wf (rt v s) (base, new, c)"
    using t by (simp add: target_wf_def base_wf_def pos_free_selectors [OF pos])
  then have new: "unat new < unat (rt_boundary (rt v s))" by (auto simp: target_wf_def base_wf_def)
  have ring: "ring_wf (rt v s)" and i: "rt_hw_ptr_interrupt (rt v s) < rt_boundary (rt v s)"
    using pv by (simp_all add: ptr_wf_def)
  note i' = interrupt_step_below [OF ring new i]
  show ?thesis
    using pv tv new i' unfolding r'
    by (simp add: ptr_wf_def ring_wf_def target_wf_def base_wf_def word_less_nat_alt)
qed

section \<open>States after a move\<close>

lemma stop_pos: "snd_pcm_stop ops s st w = Some (w', r) \<Longrightarrow> pos_frame w w'"
  unfolding snd_pcm_stop_def by (rule stop_frame.action_inv [OF free_frame_refl])

lemma drain_done_pos: "snd_pcm_drain_done ops s w = Some (w', r) \<Longrightarrow> pos_frame w w'"
  unfolding snd_pcm_drain_done_def by (rule stop_frame.single_inv [OF free_frame_refl])

lemma xrun_pos: "xrun ops s w = Some w' \<Longrightarrow> pos_frame w w'"
proof -
  have 1: "pos_frame w (if b then upd_rt s (\<lambda>r. r\<lparr>rt_tstamp := x\<rparr>) w else w)" for b x
    by (simp add: free_frame_upd_rt pos_free_def act_free_def)
  assume "xrun ops s w = Some w'"
  then show ?thesis by (auto simp: xrun_def Option.bind_eq_Some_conv dest!: stop_pos intro: free_frame_trans [OF 1])
qed

lemma update_state_pos:
  assumes "snd_pcm_update_state ops s w = Some (w', r)"
  shows "pos_frame w w'"
proof -
  define w1 where "w1 = (if stream_avail w s > rt_avail_max (rt w s)
    then upd_rt s (\<lambda>r. r\<lparr>rt_avail_max := stream_avail w s\<rparr>) w else w)"
  have "pos_frame w w1" by (simp add: w1_def free_frame_upd_rt pos_free_def act_free_def)
  moreover have "pos_frame w1 w'"
    using assms by (auto simp: snd_pcm_update_state_def Let_def Option.bind_eq_Some_conv
        dest!: xrun_pos drain_done_pos split: if_splits simp flip: w1_def)
  ultimately show ?thesis by (rule free_frame_trans)
qed

lemma call_pointer_pos:
  assumes "call_pointer ops s w = (w1, pos)"
  shows "pos_frame w w1"
proof -
  obtain h p d where op: "op_pointer ops s (w_hw w) = (h, p, d)" by (metis prod_cases3)
  have "pos_frame w (upd_rt s (\<lambda>r. r\<lparr>rt_delay := x\<rparr>) (w\<lparr>w_hw := h\<rparr>))" for x
    by (rule free_frame_trans [OF free_frame_w_hw free_frame_upd_rt]) (simp add: pos_free_def act_free_def)
  then show ?thesis using assms
    by (auto simp: call_pointer_def op Let_def split: option.splits)
qed

section \<open>The update keeps the invariant\<close>

lemma update_hw_ptr0_wf:
  assumes p: "ptr_wf (rt w s)" and u: "snd_pcm_update_hw_ptr0 ops s i w = Some (w', r)"
  shows "ptr_wf (rt w' s)"
proof -
  obtain w1 pos where c: "call_pointer ops s w = (w1, pos)" by fastforce
  have p1: "ptr_wf (rt w1 s)" using p ptr_wf_pos [OF pos_frame_rt [OF call_pointer_pos [OF c]]] by simp
  have ring: "ring_wf (rt w1 s)" using p1 by (simp add: ptr_wf_def)
  show ?thesis
  proof (cases "pos = ULONG_MAX")
    case True
    then have "pos_frame w1 w'"
      using u by (auto simp: snd_pcm_update_hw_ptr0_def c Let_def Option.bind_eq_Some_conv dest: xrun_pos)
    then show ?thesis using p1 ptr_wf_pos [OF pos_frame_rt] by blast
  next
    case False
    then obtain move where m: "hw_ptr_move ops (rt w1 s) i (w_jiffies w1) (valid_pos (rt w1 s) pos) = Some move"
      using u by (auto simp: snd_pcm_update_hw_ptr0_def c Let_def Option.bind_eq_Some_conv)
    show ?thesis
    proof (cases "move = None \<or> (\<exists>t. move = Some t \<and> rt_hw_ptr (rt w1 s) = fst (snd t))")
      case True
      then have "w' = w1" using u False by (auto simp: snd_pcm_update_hw_ptr0_def c Let_def m)
      then show ?thesis using p1 by simp
    next
      case F: False
      then obtain base new x where t: "move = Some (base, new, x)" by (metis not_None_eq prod_cases3)
      define w2 where "w2 = hw_ptr_commit ops s i (w_hw w1) (snd_pcm_gettime w1 s) (w_jiffies w1) (base, new, x) w1"
      have "target_wf (rt w1 s) (base, new, x)" by (rule hw_ptr_move_wf [OF p1 valid_pos_below [OF ring] m [unfolded t]])
      then have "ptr_wf (rt w2 s)" using p1 by (simp add: w2_def commit_ptr_wf)
      moreover have "snd_pcm_update_state ops s w2 = Some (w', r)"
        using u False F by (simp add: snd_pcm_update_hw_ptr0_def c Let_def m t w2_def)
      ultimately show ?thesis using ptr_wf_pos [OF pos_frame_rt [OF update_state_pos]] by blast
    qed
  qed
qed

section \<open>The update returns\<close>

lemma sint_diff_nowrap:
  assumes "- (2 ^ 63) \<le> sint a - sint (b :: u64)" "sint a - sint b < 2 ^ 63"
  shows "sint (a - b) = sint a - sint b"
  using assms by (simp add: sint_word_ariths(2) signed_take_bit_int_eq_self)

lemma elapsed_loop_total:
  assumes J: "0 < unat (rt_hw_ptr_buffer_jiffies r)" "unat (rt_hw_ptr_buffer_jiffies r) < 2 ^ 62"
    and t: "t = rt_hw_ptr_buffer_jiffies r div 2 + 1"
  shows "elapsed_loop r t h bc \<noteq> None"
proof (induction "nat (sint h - sint t)" arbitrary: h bc rule: less_induct)
  case less
  let ?J = "rt_hw_ptr_buffer_jiffies r"
  show ?case
  proof (cases "sint h > sint t")
    case True
    have "unat t = unat ?J div 2 + 1" using J unfolding t by (subst unat_add_nowrap) (simp_all add: unat_div)
    then have st: "sint t = int (unat ?J) div 2 + 1" using J by (simp add: sint_u64 zdiv_int)
    have sj: "sint ?J = int (unat ?J)" using J by (simp add: sint_u64)
    have hi: "sint h < 2 ^ 63" using sint_lt [of h] by simp
    have "sint (h - ?J) = sint h - sint ?J"
      by (rule sint_diff_nowrap) (use st sj True hi J in simp_all)
    then have "nat (sint (h - ?J) - sint t) < nat (sint h - sint t)" using True sj J by linarith
    from less [OF this] show ?thesis using True by (subst elapsed_loop.simps) simp
  next
    case False
    then show ?thesis by (subst elapsed_loop.simps) simp
  qed
qed

text \<open>Without time in a buffer the loop never ends once it is entered.\<close>

lemma elapsed_loop_diverges:
  assumes J: "rt_hw_ptr_buffer_jiffies r = 0" and h: "sint h > sint t"
  shows "elapsed_loop r t h bc = None"
proof -
  have "\<not> (rt_hw_ptr_buffer_jiffies r = 0 \<and> sint h > sint t)" if "elapsed_loop r t h bc = Some y" for y
  proof (rule elapsed_loop.raw_induct [where P = "\<lambda>r t h bc y. \<not> (rt_hw_ptr_buffer_jiffies r = 0 \<and> sint h > sint t)",
        OF _ that])
    fix f and r :: runtime and t h :: u64 and bc y :: "u64 \<times> int"
    assume IH: "\<And>r t h bc y. f r t h bc = Some y \<Longrightarrow> \<not> (rt_hw_ptr_buffer_jiffies r = 0 \<and> sint h > sint t)"
      and step: "(if sint t < sint h then f r t (h - rt_hw_ptr_buffer_jiffies r) (advance_base r bc) else Some bc) = Some y"
    show "\<not> (rt_hw_ptr_buffer_jiffies r = 0 \<and> sint h > sint t)"
      using step IH [of r t h "advance_base r bc" y] by (auto split: if_splits)
  qed
  then show ?thesis using assms by (cases "elapsed_loop r t h bc") auto
qed

end
