(* ===== verification/Pcm_Position.thy ===== *)
theory Pcm_Position
  imports Pcm_Pointer_Laws
begin

text \<open>
  The position a stream reports: the update of the hardware pointer returns on a driver that follows
  the rules, keeps the pointer in the ring and counts the frames that the hardware has moved.
\<close>

section \<open>The update returns\<close>

text \<open>A buffer lasts at least a tick, so that the loop for streams without period interrupts ends.\<close>

definition clock_ok :: "runtime \<Rightarrow> bool" where
  "clock_ok r \<longleftrightarrow> rt_no_period_wakeup r \<longrightarrow>
     0 < unat (rt_hw_ptr_buffer_jiffies r) \<and> unat (rt_hw_ptr_buffer_jiffies r) < 2 ^ 62"

lemma call_pointer_fields:
  assumes "call_pointer ops s w = (w1, pos)"
  shows "\<exists>d. rt w1 s = (rt w s)\<lparr>rt_delay := d\<rparr>" "rt_trigger_master (rt w1 t) = rt_trigger_master (rt w t)"
proof -
  obtain h p d where op: "op_pointer ops s (w_hw w) = (h, p, d)" by (metis prod_cases3)
  have "rt w1 s = (rt w s)\<lparr>rt_delay := case d of None \<Rightarrow> rt_delay (rt w s) | Some x \<Rightarrow> x\<rparr>"
    using assms by (cases d) (auto simp: call_pointer_def op Let_def)
  then show "\<exists>d. rt w1 s = (rt w s)\<lparr>rt_delay := d\<rparr>" by (rule exI)
  show "rt_trigger_master (rt w1 t) = rt_trigger_master (rt w t)"
    using assms by (cases d) (auto simp: call_pointer_def op Let_def)
qed

lemma commit_masters [simp]:
  "rt_trigger_master (rt (hw_ptr_commit ops s i h now j t w) u) = rt_trigger_master (rt w u)"
  by (cases t) (simp add: hw_ptr_commit_def Let_def hw_ptr_interrupt_step_def)

lemma hw_ptr_move_total:
  assumes "clock_ok r"
  shows "hw_ptr_move ops r i j pos \<noteq> None"
proof -
  have "rt_no_period_wakeup r \<Longrightarrow> elapsed_loop r (rt_hw_ptr_buffer_jiffies r div 2 + 1) h bc \<noteq> None" for h bc
    using assms by (intro elapsed_loop_total) (simp_all add: clock_ok_def)
  then have "rt_no_period_wakeup r \<Longrightarrow> elapsed_buffers HZ r j d bc \<noteq> None" for HZ d bc
    by (simp add: elapsed_buffers_def Let_def)
  note loop = this
  obtain base c where t: "hw_ptr_target r i j pos = (base, c)" by fastforce
  show ?thesis
  proof (cases "rt_no_period_wakeup r")
    case True
    obtain b c' where "elapsed_buffers (k_HZ ops) r j (ptr_delta r (base + pos) (rt_hw_ptr r)) (base, c) = Some (b, c')"
      using loop [OF True] by fastforce
    then show ?thesis by (simp add: hw_ptr_move_def t Let_def)
  qed (simp add: hw_ptr_move_def t Let_def)
qed

context marking_driver
begin

lemma stop_single_returns:
  "master_wf w \<Longrightarrow> \<exists>w' r. snd_pcm_action_single (snd_pcm_action_stop ops state) s w = Some (w', r) \<and> master_wf w'"
  using stop_total.single_total [of w state s] stop_total.single_inv [of w state s] by fastforce

lemma drain_done_returns:
  "master_wf w \<Longrightarrow> \<exists>w' r. snd_pcm_drain_done ops s w = Some (w', r) \<and> master_wf w'"
  unfolding snd_pcm_drain_done_def by (rule stop_single_returns)

lemma xrun_returns:
  assumes "master_wf w"
  shows "\<exists>w'. xrun ops s w = Some w' \<and> master_wf w'"
proof -
  define v where "v = (if rt_tstamp_mode (rt w s) then upd_rt s (\<lambda>r. r\<lparr>rt_tstamp := snd_pcm_gettime w s\<rparr>) w else w)"
  have "master_wf v = master_wf w" by (rule master_edges_cong) (simp add: v_def)
  then show ?thesis using stop_returns [of v S_XRUN s] assms by (auto simp: xrun_def snd_pcm_stop_def simp flip: v_def)
qed

lemma update_state_returns:
  assumes "master_wf w"
  shows "\<exists>w' r. snd_pcm_update_state ops s w = Some (w', r) \<and> master_wf w'"
proof -
  define v where "v = (if stream_avail w s > rt_avail_max (rt w s)
    then upd_rt s (\<lambda>r. r\<lparr>rt_avail_max := stream_avail w s\<rparr>) w else w)"
  have v: "master_wf v" using assms master_edges_cong [of v w] by (simp add: v_def)
  have e: "master_wf (add_effects es v)" for es using v master_edges_cong [of "add_effects es v" v] by simp
  obtain w1 r1 where d: "snd_pcm_drain_done ops s v = Some (w1, r1)" "master_wf w1" using drain_done_returns [OF v] by blast
  obtain w2 where x: "xrun ops s v = Some w2" "master_wf w2" using xrun_returns [OF v] by blast
  show ?thesis using d x v e by (auto simp: snd_pcm_update_state_def Let_def simp flip: v_def)
qed

lemma update_hw_ptr0_returns:
  assumes m: "master_wf w" and c: "clock_ok (rt w s)"
  shows "\<exists>w' r. snd_pcm_update_hw_ptr0 ops s i w = Some (w', r) \<and> master_wf w'"
proof -
  obtain w1 pos where p: "call_pointer ops s w = (w1, pos)" by fastforce
  have m1: "master_wf w1" using m master_edges_cong call_pointer_fields(2) [OF p] by blast
  have c1: "clock_ok (rt w1 s)" using c call_pointer_fields(1) [OF p] by (auto simp: clock_ok_def)
  obtain move where mv: "hw_ptr_move ops (rt w1 s) i (w_jiffies w1) (valid_pos (rt w1 s) pos) = Some move"
    using hw_ptr_move_total [OF c1] by fastforce
  have "master_wf (hw_ptr_commit ops s i h now j t w1)" for h now j t
    using m1 master_edges_cong [of "hw_ptr_commit ops s i h now j t w1" w1] by simp
  note u = update_state_returns [OF this, of s]
  obtain w2 where x: "xrun ops s w1 = Some w2" "master_wf w2" using xrun_returns [OF m1] by blast
  show ?thesis using m1 u x mv
    by (cases move) (auto simp: snd_pcm_update_hw_ptr0_def p Let_def)
qed

end

section \<open>Exact tracking\<close>

text \<open>The target of a hardware that moved by less than a buffer since the last update.\<close>

lemma hw_ptr_target_exact:
  assumes p: "ptr_wf r" and adv: "adv < unat (rt_buffer_size r)"
    and pos: "unat pos = (unat (rt_hw_ptr r) + adv) mod unat (rt_buffer_size r)"
    and t: "hw_ptr_target r False j pos = (base, c)"
  shows "unat (base + pos) = (unat (rt_hw_ptr r) + adv) mod unat (rt_boundary r)"
    "base_wf r base" "c = (if unat (rt_hw_ptr r) + adv < unat (rt_boundary r) then 0 else 1)"
proof -
  let ?B = "unat (rt_buffer_size r)" and ?M = "unat (rt_boundary r)" and ?b = "unat (rt_hw_ptr_base r)"
    and ?h = "unat (rt_hw_ptr r)"
  have ring: "ring_wf r" using p by (simp add: ptr_wf_def)
  note bw = ptr_wf_base [OF p]
  have B: "0 < ?B" using ring_bounds(2) [OF ring] .
  have h: "?b \<le> ?h" "?h < ?b + ?B" "?b + ?B \<le> ?M" using p ptr_bounds [OF p] by (simp_all add: ptr_wf_def)
  have dvd: "?B dvd ?b" using p by (simp add: ptr_wf_def)
  have posB: "unat pos < ?B" using pos B by simp
  have "(?h + adv) mod ?B = (?h - ?b + adv) mod ?B"
  proof -
    obtain k where "?b = ?B * k" using dvd by blast
    then have "?h + adv = (?h - ?b + adv) + ?B * k" using h by simp
    then show ?thesis by (metis mod_mult_self2)
  qed
  then have upos: "unat pos = (if ?h - ?b + adv < ?B then ?h - ?b + adv else ?h - ?b + adv - ?B)"
    using pos adv h by (auto simp: mod_if)
  have near: "unat (rt_hw_ptr_base r + pos) = ?b + unat pos" by (rule base_pos(1) [OF ring bw posB])
  show "unat (base + pos) = (?h + adv) mod ?M" "base_wf r base" "c = (if ?h + adv < ?M then 0 else 1)"
  proof -
    have "unat (base + pos) = (?h + adv) mod ?M \<and> base_wf r base \<and> c = (if ?h + adv < ?M then 0 else 1)"
    proof (cases "?h - ?b + adv < ?B")
      case True
      then have "\<not> rt_hw_ptr_base r + pos < rt_hw_ptr r" using near upos h by (simp add: word_less_nat_alt)
      then have "base = rt_hw_ptr_base r" "c = 0" using t by (simp_all add: hw_ptr_target_def Let_def)
      then show ?thesis using True near upos h bw by simp
    next
      case False
      then have "rt_hw_ptr_base r + pos < rt_hw_ptr r" using near upos h adv by (simp add: word_less_nat_alt)
      then have a: "advance_base r (rt_hw_ptr_base r, 0) = (base, c)" using t by (simp add: hw_ptr_target_def Let_def)
      note A = advance_base_wf [OF ring bw, of 0, unfolded a]
      have u: "unat (base + pos) = unat base + unat pos" using base_pos(1) [OF ring A(1)] posB by simp
      show ?thesis
      proof (cases "?b + ?B < ?M")
        case T: True
        then have "?b + ?B + ?B \<le> ?M" using dvd ring by (intro dvd_next_le) (simp_all add: ring_wf_def)
        then show ?thesis using A T u upos False h adv by simp
      next
        case F: False
        then have "?M = ?b + ?B" using h by simp
        then show ?thesis using A u upos False h adv by (simp add: mod_if)
      qed
    qed
    then show "unat (base + pos) = (?h + adv) mod ?M" "base_wf r base" "c = (if ?h + adv < ?M then 0 else 1)" by simp_all
  qed
qed

lemma hw_ptr_move_exact:
  assumes p: "ptr_wf r" and adv: "adv < unat (rt_buffer_size r)"
    and pos: "unat pos = (unat (rt_hw_ptr r) + adv) mod unat (rt_buffer_size r)"
    and mode: "\<not> rt_no_period_wakeup r" "\<not> k_jiffies_check ops"
  shows "\<exists>base new. hw_ptr_move ops r False j pos = Some (Some (base, new,
      if unat (rt_hw_ptr r) + adv < unat (rt_boundary r) then 0 else 1)) \<and>
    unat new = (unat (rt_hw_ptr r) + adv) mod unat (rt_boundary r)"
proof -
  obtain base c where t: "hw_ptr_target r False j pos = (base, c)" by fastforce
  note T = hw_ptr_target_exact [OF p adv pos t]
  have ring: "ring_wf r" and per: "unat (rt_period_size r) \<le> unat (rt_buffer_size r)" "0 < unat (rt_period_size r)"
    using p by (simp_all add: ptr_wf_def)
  note R = ring_bounds [OF ring]
  have new: "unat (base + pos) < unat (rt_boundary r)" using T(1) R(5) by simp
  define d where "d = ptr_delta r (base + pos) (rt_hw_ptr r)"
  have "int (unat d) = ((int (unat (rt_hw_ptr r)) + int adv) mod int (unat (rt_boundary r)) - int (unat (rt_hw_ptr r)))
      mod int (unat (rt_boundary r))"
    unfolding d_def using ptr_delta_mod(1) [OF ring new R(5)] T(1) by (simp add: zmod_int)
  also have "\<dots> = int adv mod int (unat (rt_boundary r))" by (simp add: mod_diff_left_eq)
  finally have ud: "unat d = adv" using adv R(3) by simp
  have "unat (rt_buffer_size r + rt_period_size r) = unat (rt_buffer_size r) + unat (rt_period_size r)"
    using R(1) per by (intro unat_add_nowrap) simp
  then have "\<not> d \<ge> rt_buffer_size r + rt_period_size r" using ud adv by (simp add: word_le_nat_alt)
  then have "hw_ptr_move ops r False j pos = Some (Some (base, base + pos, c))"
    using mode by (simp add: hw_ptr_move_def t Let_def jiffies_check_def flip: d_def)
  then show ?thesis using T(1,3) by auto
qed

lemma commit_hw_ptr:
  "rt_hw_ptr (rt (hw_ptr_commit ops s i h now j (base, new, c) w) s) = new"
  "rt_hw_ptr_wrap (rt (hw_ptr_commit ops s i h now j (base, new, c) w) s) =
     (if c \<noteq> 0 then rt_hw_ptr_wrap (rt w s) + rt_boundary (rt w s) else rt_hw_ptr_wrap (rt w s))"
proof -
  obtain v t1 t2 where f: "sil_frame w v"
    and r': "rt (hw_ptr_commit ops s i h now j (base, new, c) w) s = (rt v s)\<lparr>rt_hw_ptr_interrupt := rt_hw_ptr_interrupt (if i then hw_ptr_interrupt_step new (rt v s) else rt v s),
        rt_hw_ptr_base := base, rt_hw_ptr := new, rt_hw_ptr_jiffies := j,
        rt_hw_ptr_wrap := if c \<noteq> 0 then rt_hw_ptr_wrap (rt v s) + rt_boundary (rt v s) else rt_hw_ptr_wrap (rt v s),
        rt_tstamp := t1, rt_audio_tstamp := t2\<rparr>"
    by (rule commit_cases)
  have pos: "pos_free (rt v s) = pos_free (rt w s)" using f by (intro pos_frame_rt act_frame_pos sil_frame_act)
  show "rt_hw_ptr (rt (hw_ptr_commit ops s i h now j (base, new, c) w) s) = new"
    "rt_hw_ptr_wrap (rt (hw_ptr_commit ops s i h now j (base, new, c) w) s) =
     (if c \<noteq> 0 then rt_hw_ptr_wrap (rt w s) + rt_boundary (rt w s) else rt_hw_ptr_wrap (rt w s))"
    unfolding r' by (simp_all add: pos_free_ptr [OF pos] pos_free_selectors [OF pos])
qed

lemma wrap_count:
  fixes h m new wr :: u64
  assumes "unat new = (unat h + adv) mod unat m" "unat h < unat m" "adv < unat m"
  shows "(if unat h + adv < unat m then wr else wr + m) + new = wr + h + of_nat adv"
proof (cases "unat h + adv < unat m")
  case True
  then have "new = of_nat (unat h + adv)" using assms(1) by (metis mod_less word_of_nat_unat)
  then show ?thesis using True by simp
next
  case False
  then have "unat new = unat h + adv - unat m" using assms by (simp add: mod_if)
  then have "new = of_nat (unat h + adv - unat m)" by (metis word_of_nat_unat)
  then show ?thesis using False by (simp add: of_nat_diff)
qed

lemma mod_unmoved: "h = (h + a) mod m \<Longrightarrow> h < m \<Longrightarrow> a < m \<Longrightarrow> a = (0 :: nat)"
  by (cases "h + a < m") (simp_all add: le_mod_geq)

section \<open>The properties\<close>

text \<open>
  C4: the hardware pointer follows the hardware. When the hardware has moved by \<open>adv\<close> frames, less
  than a buffer, since the last update (so that it reports the position \<open>hw_ptr + adv\<close> modulo
  the buffer), the update returns, the pointer is \<open>hw_ptr + adv\<close> modulo the boundary, and the
  64-bit frame count \<open>hw_ptr_wrap + hw_ptr\<close> has grown by \<open>adv\<close>.
\<close>

theorem snd_pcm_update_hw_ptr_exact:
  assumes "marking_driver ops" "master_wf w" "ptr_wf (rt w s)"
    and "\<not> rt_no_period_wakeup (rt w s)" "\<not> k_jiffies_check ops" "adv < unat (rt_buffer_size (rt w s))"
    and "unat (snd (call_pointer ops s w)) = (unat (rt_hw_ptr (rt w s)) + adv) mod unat (rt_buffer_size (rt w s))"
    and "snd (call_pointer ops s w) mod rt_min_align (rt w s) = 0"
  shows "\<exists>w' r. snd_pcm_update_hw_ptr ops s w = Some (w', r) \<and>
    unat (rt_hw_ptr (rt w' s)) = (unat (rt_hw_ptr (rt w s)) + adv) mod unat (rt_boundary (rt w s)) \<and>
    rt_hw_ptr_wrap (rt w' s) + rt_hw_ptr (rt w' s) = rt_hw_ptr_wrap (rt w s) + rt_hw_ptr (rt w s) + of_nat adv"
proof -
  obtain w1 pos where c: "call_pointer ops s w = (w1, pos)" by fastforce
  obtain d where r1: "rt w1 s = (rt w s)\<lparr>rt_delay := d\<rparr>" using call_pointer_fields(1) [OF c] by blast
  have p1: "ptr_wf (rt w1 s)" using assms(3) ptr_wf_pos [OF pos_frame_rt [OF call_pointer_pos [OF c]]] by simp
  have ring: "ring_wf (rt w s)" using assms(3) by (simp add: ptr_wf_def)
  note R = ring_bounds [OF ring]
  have pB: "unat pos < unat (rt_buffer_size (rt w s))" using assms(7) R(2) by (simp add: c)
  then have vp: "valid_pos (rt w1 s) pos = pos" and nx: "pos \<noteq> ULONG_MAX"
    using assms(8) R(1) by (auto simp: valid_pos_def r1 c word_le_nat_alt)
  obtain base new where m: "hw_ptr_move ops (rt w1 s) False (w_jiffies w1) pos = Some (Some (base, new,
      if unat (rt_hw_ptr (rt w s)) + adv < unat (rt_boundary (rt w s)) then 0 else 1))"
    and new: "unat new = (unat (rt_hw_ptr (rt w s)) + adv) mod unat (rt_boundary (rt w s))"
    using hw_ptr_move_exact [OF p1, of adv pos ops "w_jiffies w1"] assms(4-7) by (auto simp: r1 c)
  have count: "(if unat (rt_hw_ptr (rt w s)) + adv < unat (rt_boundary (rt w s)) then rt_hw_ptr_wrap (rt w s)
      else rt_hw_ptr_wrap (rt w s) + rt_boundary (rt w s)) + new = rt_hw_ptr_wrap (rt w s) + rt_hw_ptr (rt w s) + of_nat adv"
    using new R(5) assms(6) R(3) by (intro wrap_count) simp_all
  show ?thesis
  proof (cases "rt_hw_ptr (rt w1 s) = new")
    case True
    then have same: "new = rt_hw_ptr (rt w s)" by (simp add: r1)
    have "adv < unat (rt_boundary (rt w s))" using assms(6) R(3) by simp
    then have "adv = 0" by (rule mod_unmoved [OF new [unfolded same] R(5)])
    then show ?thesis using True nx m vp R(5) assms(4)
      by (simp add: snd_pcm_update_hw_ptr_def snd_pcm_update_hw_ptr0_def c Let_def r1 same)
  next
    case False
    define w2 where "w2 = hw_ptr_commit ops s False (w_hw w1) (snd_pcm_gettime w1 s) (w_jiffies w1) (base, new,
      if unat (rt_hw_ptr (rt w s)) + adv < unat (rt_boundary (rt w s)) then 0 else 1) w1"
    have "master_wf w1" using assms(2) master_edges_cong call_pointer_fields(2) [OF c] by blast
    then have "master_wf w2" using master_edges_cong [of w2 w1] by (simp add: w2_def)
    then obtain w' r where u: "snd_pcm_update_state ops s w2 = Some (w', r)"
      using marking_driver.update_state_returns [OF assms(1)] by blast
    note f = pos_frame_rt [OF update_state_pos [OF u], of s]
    have "snd_pcm_update_hw_ptr ops s w = Some (w', r)"
      using u nx m vp False by (simp add: snd_pcm_update_hw_ptr_def snd_pcm_update_hw_ptr0_def c Let_def w2_def)
    moreover have "rt_hw_ptr (rt w' s) = new" "rt_hw_ptr_wrap (rt w' s) =
        (if unat (rt_hw_ptr (rt w s)) + adv < unat (rt_boundary (rt w s)) then rt_hw_ptr_wrap (rt w s)
         else rt_hw_ptr_wrap (rt w s) + rt_boundary (rt w s))"
      using pos_free_selectors [OF f] pos_free_ptr [OF f] by (simp_all add: w2_def commit_hw_ptr r1)
    ultimately show ?thesis using new count by auto
  qed
qed

text \<open>
  C13: positions stay in the ring. Every update, in or out of an interrupt, with any answer of the
  driver, keeps the invariant of positions: the pointer below the boundary, its base at the start
  of the buffer round it lies in, the interrupt pointer below the boundary.
\<close>

theorem snd_pcm_update_hw_ptr0_keeps_ring:
  assumes "ptr_wf (rt w s)" "snd_pcm_update_hw_ptr0 ops s i w = Some (w', r)"
  shows "ptr_wf (rt w' s)"
  using assms by (rule update_hw_ptr0_wf)

text \<open>
  C22: the update returns, in every mode, on a driver that marks only streams served by the triggered
  one, when a buffer of a stream without period interrupts lasts at least a tick of the clock.
\<close>

theorem snd_pcm_update_hw_ptr0_returns:
  assumes "marking_driver ops" "master_wf w" "clock_ok (rt w s)"
  shows "\<exists>w' r. snd_pcm_update_hw_ptr0 ops s i w = Some (w', r) \<and> master_wf w'"
  by (rule marking_driver.update_hw_ptr0_returns [OF assms])

section \<open>Witnesses\<close>

definition moving_ops :: "u64 \<Rightarrow> unit pcm_ops" where
  "moving_ops pos = still_ops\<lparr>op_pointer := (\<lambda>_ h. (h, pos, None))\<rparr>"

interpretation moving: marking_driver "moving_ops pos"
  by unfold_locales (simp add: moving_ops_def still_ops_def)

lemma demo_world_masters: "master_wf demo_world"
  by (simp add: master_wf_def master_edges_def demo_runtime_def zero_runtime_def)

lemma demo_ptr: "ptr_wf demo_runtime"
  using demo_ring by (simp add: ptr_wf_def demo_runtime_def zero_runtime_def)

theorem snd_pcm_update_hw_ptr_exact_witness:
  "\<exists>w' r. snd_pcm_update_hw_ptr (moving_ops 4) 0 demo_world = Some (w', r) \<and>
    unat (rt_hw_ptr (rt w' 0)) = 4100 \<and> rt_hw_ptr_wrap (rt w' 0) + rt_hw_ptr (rt w' 0) = 4100"
proof -
  have "\<exists>w' r. snd_pcm_update_hw_ptr (moving_ops 4) 0 demo_world = Some (w', r) \<and>
    unat (rt_hw_ptr (rt w' 0)) = (unat (rt_hw_ptr (rt demo_world 0)) + 4000) mod unat (rt_boundary (rt demo_world 0)) \<and>
    rt_hw_ptr_wrap (rt w' 0) + rt_hw_ptr (rt w' 0) = rt_hw_ptr_wrap (rt demo_world 0) + rt_hw_ptr (rt demo_world 0) + of_nat 4000"
    by (rule snd_pcm_update_hw_ptr_exact [OF moving.marking_driver_axioms demo_world_masters])
      (simp_all add: demo_ptr, simp_all add: demo_runtime_def zero_runtime_def moving_ops_def still_ops_def call_pointer_def)
  then show ?thesis by (simp add: demo_runtime_def zero_runtime_def)
qed

lemma moving_returns: "\<exists>w' r. snd_pcm_update_hw_ptr0 (moving_ops 4) 0 True demo_world = Some (w', r)"
  using moving.update_hw_ptr0_returns [OF demo_world_masters, of 0 4 True]
  by (auto simp: clock_ok_def demo_runtime_def zero_runtime_def)

theorem snd_pcm_update_hw_ptr0_keeps_ring_witness:
  "\<exists>w' r. snd_pcm_update_hw_ptr0 (moving_ops 4) 0 True demo_world = Some (w', r) \<and> ptr_wf (rt w' 0)"
proof -
  obtain w' r where u: "snd_pcm_update_hw_ptr0 (moving_ops 4) 0 True demo_world = Some (w', r)"
    using moving_returns by blast
  have "ptr_wf (rt demo_world 0)" by (simp add: demo_ptr)
  from snd_pcm_update_hw_ptr0_keeps_ring [OF this u] u show ?thesis by blast
qed

text \<open>A stream without period interrupts whose buffer lasts eight ticks.\<close>

definition quiet_world :: "unit pcm_world" where
  "quiet_world = upd_rt 0 (\<lambda>r. r\<lparr>rt_no_period_wakeup := True, rt_hw_ptr_buffer_jiffies := 85\<rparr>) demo_world"

theorem snd_pcm_update_hw_ptr0_returns_witness:
  "\<exists>w' r. snd_pcm_update_hw_ptr0 (moving_ops 4) 0 False quiet_world = Some (w', r) \<and> master_wf w'"
proof (rule snd_pcm_update_hw_ptr0_returns [OF moving.marking_driver_axioms])
  have "master_wf quiet_world = master_wf demo_world" by (rule master_edges_cong) (simp add: quiet_world_def)
  then show "master_wf quiet_world" using demo_world_masters by simp
  show "clock_ok (rt quiet_world 0)" by (simp add: quiet_world_def clock_ok_def)
qed

section \<open>A buffer shorter than a tick\<close>

text \<open>A buffer of 32 frames at 48 kHz with 1000 ticks a second: \<open>hw_ptr_buffer_jiffies\<close> is 0.\<close>

definition short_world :: "unit pcm_world" where
  "short_world = (upd_rt 0 (\<lambda>r. r\<lparr>rt_no_period_wakeup := True, rt_buffer_size := 32, rt_period_size := 16,
     rt_hw_ptr := 4, rt_appl_ptr := 20, rt_hw_ptr_buffer_jiffies := (32 * 1000) div 48000\<rparr>) demo_world)\<lparr>w_jiffies := 2\<rparr>"


end
