(* ===== verification/Pcm_State.thy ===== *)
theory Pcm_State
  imports Pcm_Position
begin

text \<open>
  The remaining actions of \<open>sound/core/pcm_native.c\<close>: pause, suspend and resume, reset, prepare, drain
  and drop. The result of \<open>snd_power_wait\<close> (which depends on the power management of the card) is the
  argument \<open>pwr\<close>; that of \<open>file->f_flags & O_NONBLOCK\<close> is an option, \<open>None\<close> when there is no file.
\<close>

definition snd_pcm_set_state :: "nat \<Rightarrow> pcm_state \<Rightarrow> 'h pcm_world \<Rightarrow> 'h pcm_world" where
  "snd_pcm_set_state s state w =
     (if rt_state (rt w s) \<noteq> S_DISCONNECTED then upd_rt s (\<lambda>r. r\<lparr>rt_state := state\<rparr>) w else w)"

section \<open>Pause\<close>

abbreviation INFO_PAUSE :: u32 where "INFO_PAUSE \<equiv> 0x00080000"
abbreviation INFO_RESUME :: u32 where "INFO_RESUME \<equiv> 0x00040000"

definition snd_pcm_pre_pause :: "bool \<Rightarrow> nat \<Rightarrow> 'h pcm_world \<Rightarrow> 'h pcm_world \<times> unit res" where
  "snd_pcm_pre_pause push s w =
     (if rt_info (rt w s) AND INFO_PAUSE = 0 then (w, Inl ENOSYS)
      else if push \<and> rt_state (rt w s) \<noteq> S_RUNNING then (w, Inl EBADFD)
      else if \<not> push \<and> rt_state (rt w s) \<noteq> S_PAUSED then (w, Inl EBADFD)
      else (set_trigger_master s w, Inr ()))"

definition snd_pcm_do_pause :: "'h pcm_ops \<Rightarrow> bool \<Rightarrow> nat \<Rightarrow> 'h pcm_world \<Rightarrow> ('h pcm_world \<times> unit res) option" where
  "snd_pcm_do_pause ops push s w =
     (if rt_trigger_master (rt w s) \<noteq> Some s then Some (w, Inr ())
      else do {
        w1 \<leftarrow> (if push then do { (w1, _) \<leftarrow> snd_pcm_update_hw_ptr ops s w; Some w1 } else Some w);
        Some (call_trigger ops s (if push then TRIGGER_PAUSE_PUSH else TRIGGER_PAUSE_RELEASE)
                (upd_rt s (\<lambda>r. r\<lparr>rt_hw_ptr_jiffies := w_jiffies w1 - k_HZ ops * 1000\<rparr>) w1))
      })"

definition snd_pcm_undo_pause :: "'h pcm_ops \<Rightarrow> bool \<Rightarrow> nat \<Rightarrow> 'h pcm_world \<Rightarrow> 'h pcm_world" where
  "snd_pcm_undo_pause ops push s w =
     (if rt_trigger_master (rt w s) = Some s
      then fst (call_trigger ops s (if push then TRIGGER_PAUSE_RELEASE else TRIGGER_PAUSE_PUSH) w) else w)"

definition snd_pcm_post_pause :: "bool \<Rightarrow> nat \<Rightarrow> 'h pcm_world \<Rightarrow> 'h pcm_world option" where
  "snd_pcm_post_pause push s w = do {
     w1 \<leftarrow> snd_pcm_trigger_tstamp s w;
     Some (if push then wake_both s (timer_notify s MPAUSE (upd_rt s (\<lambda>r. r\<lparr>rt_state := S_PAUSED\<rparr>) w1))
           else timer_notify s MCONTINUE (upd_rt s (\<lambda>r. r\<lparr>rt_state := S_RUNNING\<rparr>) w1))
   }"

definition snd_pcm_action_pause :: "'h pcm_ops \<Rightarrow> bool \<Rightarrow> 'h action_ops" where
  "snd_pcm_action_pause ops push = \<lparr>pre_action = snd_pcm_pre_pause push, do_action = snd_pcm_do_pause ops push,
     undo_action = Some (snd_pcm_undo_pause ops push), post_action = snd_pcm_post_pause push\<rparr>"

definition snd_pcm_pause :: "'h pcm_ops \<Rightarrow> nat \<Rightarrow> bool \<Rightarrow> 'h pcm_world \<Rightarrow> ('h pcm_world \<times> unit res) option" where
  "snd_pcm_pause ops s push w = snd_pcm_action (snd_pcm_action_pause ops push) s w"

section \<open>Suspend\<close>

definition snd_pcm_pre_suspend :: "nat \<Rightarrow> 'h pcm_world \<Rightarrow> 'h pcm_world \<times> unit res" where
  "snd_pcm_pre_suspend s w =
     (if rt_state (rt w s) = S_SUSPENDED then (w, Inl EBUSY) else (set_trigger_master s w, Inr ()))"

definition snd_pcm_do_suspend :: "'h pcm_ops \<Rightarrow> nat \<Rightarrow> 'h pcm_world \<Rightarrow> 'h pcm_world \<times> unit res" where
  "snd_pcm_do_suspend ops s w =
     (if rt_trigger_master (rt w s) \<noteq> Some s then (w, Inr ())
      else if \<not> snd_pcm_running w s then (w, Inr ())
      else (fst (call_trigger ops s TRIGGER_SUSPEND w), Inr ()))"

definition snd_pcm_post_suspend :: "nat \<Rightarrow> 'h pcm_world \<Rightarrow> 'h pcm_world option" where
  "snd_pcm_post_suspend s w = do {
     w1 \<leftarrow> snd_pcm_trigger_tstamp s w;
     Some (wake_both s (upd_rt s (\<lambda>r. r\<lparr>rt_suspended_state := rt_state r, rt_state := S_SUSPENDED\<rparr>)
             (timer_notify s MSUSPEND w1)))
   }"

definition snd_pcm_action_suspend :: "'h pcm_ops \<Rightarrow> 'h action_ops" where
  "snd_pcm_action_suspend ops = \<lparr>pre_action = snd_pcm_pre_suspend,
     do_action = (\<lambda>s w. Some (snd_pcm_do_suspend ops s w)), undo_action = None, post_action = snd_pcm_post_suspend\<rparr>"

definition snd_pcm_suspend :: "'h pcm_ops \<Rightarrow> nat \<Rightarrow> 'h pcm_world \<Rightarrow> ('h pcm_world \<times> unit res) option" where
  "snd_pcm_suspend ops s w = snd_pcm_action (snd_pcm_action_suspend ops) s w"

text \<open>The list holds the opened streams of a device, playback first.\<close>

fun snd_pcm_suspend_all :: "'h pcm_ops \<Rightarrow> nat list \<Rightarrow> 'h pcm_world \<Rightarrow> ('h pcm_world \<times> unit res) option" where
  "snd_pcm_suspend_all ops [] w = Some (w, Inr ())"
| "snd_pcm_suspend_all ops (s # ss) w = do {
     (w1, res) \<leftarrow> snd_pcm_suspend ops s w;
     (case res of
        Inl e \<Rightarrow> if e \<noteq> EBUSY then Some (w1, Inl e) else snd_pcm_suspend_all ops ss w1
      | Inr _ \<Rightarrow> snd_pcm_suspend_all ops ss w1)
   }"

section \<open>Resume\<close>

definition snd_pcm_pre_resume :: "nat \<Rightarrow> 'h pcm_world \<Rightarrow> 'h pcm_world \<times> unit res" where
  "snd_pcm_pre_resume s w =
     (if rt_info (rt w s) AND INFO_RESUME = 0 then (w, Inl ENOSYS) else (set_trigger_master s w, Inr ()))"

definition was_running :: "'h pcm_world \<Rightarrow> nat \<Rightarrow> bool" where
  "was_running w s \<longleftrightarrow> rt_suspended_state (rt w s) = S_RUNNING \<or>
     (rt_suspended_state (rt w s) = S_DRAINING \<and> playback w s)"

definition snd_pcm_do_resume :: "'h pcm_ops \<Rightarrow> nat \<Rightarrow> 'h pcm_world \<Rightarrow> 'h pcm_world \<times> unit res" where
  "snd_pcm_do_resume ops s w =
     (if rt_trigger_master (rt w s) \<noteq> Some s then (w, Inr ())
      else if \<not> was_running w s then (w, Inr ())
      else call_trigger ops s TRIGGER_RESUME w)"

definition snd_pcm_undo_resume :: "'h pcm_ops \<Rightarrow> nat \<Rightarrow> 'h pcm_world \<Rightarrow> 'h pcm_world" where
  "snd_pcm_undo_resume ops s w =
     (if rt_trigger_master (rt w s) = Some s \<and> snd_pcm_running w s
      then fst (call_trigger ops s TRIGGER_SUSPEND w) else w)"

definition snd_pcm_post_resume :: "nat \<Rightarrow> 'h pcm_world \<Rightarrow> 'h pcm_world option" where
  "snd_pcm_post_resume s w = do {
     w1 \<leftarrow> snd_pcm_trigger_tstamp s w;
     Some (upd_rt s (\<lambda>r. r\<lparr>rt_state := rt_suspended_state r\<rparr>) (timer_notify s MRESUME w1))
   }"

definition snd_pcm_action_resume :: "'h pcm_ops \<Rightarrow> 'h action_ops" where
  "snd_pcm_action_resume ops = \<lparr>pre_action = snd_pcm_pre_resume,
     do_action = (\<lambda>s w. Some (snd_pcm_do_resume ops s w)), undo_action = Some (snd_pcm_undo_resume ops),
     post_action = snd_pcm_post_resume\<rparr>"

definition snd_pcm_resume :: "'h pcm_ops \<Rightarrow> unit res \<Rightarrow> nat \<Rightarrow> 'h pcm_world \<Rightarrow> ('h pcm_world \<times> unit res) option" where
  "snd_pcm_resume ops pwr s w =
     (case pwr of
        Inl e \<Rightarrow> Some (w, Inl e)
      | Inr _ \<Rightarrow> snd_pcm_action_lock_irq (snd_pcm_action_resume ops) s w)"

section \<open>The XRUN ioctl\<close>

definition snd_pcm_xrun :: "'h pcm_ops \<Rightarrow> unit res \<Rightarrow> nat \<Rightarrow> 'h pcm_world \<Rightarrow> ('h pcm_world \<times> unit res) option" where
  "snd_pcm_xrun ops pwr s w =
     (if rt_state (rt w s) = S_SUSPENDED \<and> isl pwr then Some (w, pwr)
      else if rt_state (rt w s) = S_XRUN then Some (w, Inr ())
      else if rt_state (rt w s) = S_RUNNING then snd_pcm_stop ops s S_XRUN w
      else Some (w, Inl EBADFD))"

section \<open>Reset\<close>

definition snd_pcm_pre_reset :: "nat \<Rightarrow> 'h pcm_world \<Rightarrow> 'h pcm_world \<times> unit res" where
  "snd_pcm_pre_reset s w =
     (if rt_state (rt w s) \<in> {S_RUNNING, S_PREPARED, S_PAUSED, S_SUSPENDED} then (w, Inr ()) else (w, Inl EBADFD))"

definition reset_base :: "runtime \<Rightarrow> runtime" where
  "reset_base r = r\<lparr>rt_hw_ptr_base := 0, rt_hw_ptr_interrupt := rt_hw_ptr r - rt_hw_ptr r mod rt_period_size r,
     rt_silence_start := rt_hw_ptr r, rt_silence_filled := 0\<rparr>"

text \<open>The division by a period size of zero has no result.\<close>

definition snd_pcm_do_reset :: "'h pcm_ops \<Rightarrow> nat \<Rightarrow> 'h pcm_world \<Rightarrow> ('h pcm_world \<times> unit res) option" where
  "snd_pcm_do_reset ops s w = do {
     (w1, res) \<leftarrow> (case op_reset ops of None \<Rightarrow> snd_pcm_lib_ioctl_reset ops s w | Some f \<Rightarrow> Some (f s w));
     (case res of
        Inl e \<Rightarrow> Some (w1, Inl e)
      | Inr _ \<Rightarrow> if rt_period_size (rt w1 s) = 0 then None else Some (upd_rt s reset_base w1, Inr ()))
   }"

definition snd_pcm_post_reset :: "'h pcm_ops \<Rightarrow> nat \<Rightarrow> 'h pcm_world \<Rightarrow> 'h pcm_world option" where
  "snd_pcm_post_reset ops s w =
     (let w1 = upd_rt s (\<lambda>r. r\<lparr>rt_appl_ptr := rt_hw_ptr r\<rparr>) w
      in Some (if playback w1 s \<and> rt_silence_size (rt w1 s) > 0 then snd_pcm_playback_silence ops s ULONG_MAX w1
               else w1))"

definition snd_pcm_action_reset :: "'h pcm_ops \<Rightarrow> 'h action_ops" where
  "snd_pcm_action_reset ops = \<lparr>pre_action = snd_pcm_pre_reset, do_action = snd_pcm_do_reset ops,
     undo_action = None, post_action = snd_pcm_post_reset ops\<rparr>"

definition snd_pcm_reset :: "'h pcm_ops \<Rightarrow> nat \<Rightarrow> 'h pcm_world \<Rightarrow> ('h pcm_world \<times> unit res) option" where
  "snd_pcm_reset ops s w = snd_pcm_action_nonatomic (snd_pcm_action_reset ops) s w"

section \<open>Prepare\<close>

definition snd_pcm_pre_prepare :: "bool \<Rightarrow> nat \<Rightarrow> 'h pcm_world \<Rightarrow> 'h pcm_world \<times> unit res" where
  "snd_pcm_pre_prepare nonblock s w =
     (if rt_state (rt w s) = S_OPEN \<or> rt_state (rt w s) = S_DISCONNECTED then (w, Inl EBADFD)
      else if snd_pcm_running w s then (w, Inl EBUSY)
      else (upd_sub s (\<lambda>u. u\<lparr>ss_f_nonblock := nonblock\<rparr>) w, Inr ()))"

definition snd_pcm_do_prepare :: "'h pcm_ops \<Rightarrow> nat \<Rightarrow> 'h pcm_world \<Rightarrow> ('h pcm_world \<times> unit res) option" where
  "snd_pcm_do_prepare ops s w =
     (case op_prepare ops s (w_hw w) of
        (h, Inl e) \<Rightarrow> Some (w\<lparr>w_hw := h\<rparr>, Inl e)
      | (h, Inr _) \<Rightarrow> snd_pcm_do_reset ops s (w\<lparr>w_hw := h\<rparr>))"

definition snd_pcm_post_prepare :: "nat \<Rightarrow> 'h pcm_world \<Rightarrow> 'h pcm_world option" where
  "snd_pcm_post_prepare s w = Some (snd_pcm_set_state s S_PREPARED (upd_rt s (\<lambda>r. r\<lparr>rt_appl_ptr := rt_hw_ptr r\<rparr>) w))"

definition snd_pcm_action_prepare :: "'h pcm_ops \<Rightarrow> bool \<Rightarrow> 'h action_ops" where
  "snd_pcm_action_prepare ops nonblock = \<lparr>pre_action = snd_pcm_pre_prepare nonblock,
     do_action = snd_pcm_do_prepare ops, undo_action = None, post_action = snd_pcm_post_prepare\<rparr>"

definition snd_pcm_prepare :: "'h pcm_ops \<Rightarrow> unit res \<Rightarrow> bool option \<Rightarrow> nat \<Rightarrow> 'h pcm_world \<Rightarrow>
    ('h pcm_world \<times> unit res) option" where
  "snd_pcm_prepare ops pwr file s w =
     (let nonblock = (case file of Some b \<Rightarrow> b | None \<Rightarrow> ss_f_nonblock (w_subs w s))
      in case pwr of
           Inl e \<Rightarrow> Some (w, Inl e)
         | Inr _ \<Rightarrow> snd_pcm_action_nonatomic (snd_pcm_action_prepare ops nonblock) s w)"

section \<open>Drain and drop\<close>

definition snd_pcm_pre_drain_init :: "nat \<Rightarrow> 'h pcm_world \<Rightarrow> 'h pcm_world \<times> unit res" where
  "snd_pcm_pre_drain_init s w =
     (if rt_state (rt w s) \<in> {S_OPEN, S_DISCONNECTED, S_SUSPENDED} then (w, Inl EBADFD)
      else (set_trigger_master s w, Inr ()))"

definition snd_pcm_do_drain_init :: "'h pcm_ops \<Rightarrow> nat \<Rightarrow> 'h pcm_world \<Rightarrow> ('h pcm_world \<times> unit res) option" where
  "snd_pcm_do_drain_init ops s w =
     (if playback w s then
        (case rt_state (rt w s) of
           S_PREPARED \<Rightarrow>
             if \<not> snd_pcm_playback_empty (rt w s) then do {
               w1 \<leftarrow> snd_pcm_post_start ops S_DRAINING s (fst (snd_pcm_do_start ops s w));
               Some (w1, Inr ())
             } else Some (w, Inr ())
         | S_RUNNING \<Rightarrow> Some (upd_rt s (\<lambda>r. r\<lparr>rt_state := S_DRAINING\<rparr>) w, Inr ())
         | S_XRUN \<Rightarrow> Some (upd_rt s (\<lambda>r. r\<lparr>rt_state := S_SETUP\<rparr>) w, Inr ())
         | _ \<Rightarrow> Some (w, Inr ()))
      else if rt_state (rt w s) = S_RUNNING then do {
        w1 \<leftarrow> snd_pcm_post_stop (if snd_pcm_capture_avail (rt w s) > 0 then S_DRAINING else S_SETUP) s
               (fst (snd_pcm_do_stop ops s w));
        Some (w1, Inr ())
      }
      else Some (w, Inr ()))"

definition snd_pcm_action_drain_init :: "'h pcm_ops \<Rightarrow> 'h action_ops" where
  "snd_pcm_action_drain_init ops = \<lparr>pre_action = snd_pcm_pre_drain_init, do_action = snd_pcm_do_drain_init ops,
     undo_action = None, post_action = (\<lambda>s w. Some w)\<rparr>"

text \<open>
  One round of waiting for the end of the data: whether a signal is pending when the round begins,
  what happens to the world while the caller sleeps, and whether the card was removed or the time
  was up when it wakes.
\<close>

record 'h drain_round =
  dr_signal :: bool
  dr_sleep :: "'h pcm_world \<Rightarrow> 'h pcm_world"
  dr_shutdown :: bool
  dr_timeout :: bool

definition to_drain :: "'h pcm_world \<Rightarrow> nat \<Rightarrow> nat option" where
  "to_drain w s = find (\<lambda>t. playback w t \<and> rt_state (rt w t) = S_DRAINING) (group_members w s)"

text \<open>The result is \<open>None\<close> while the caller still waits after the given rounds.\<close>

fun drain_loop :: "'h pcm_ops \<Rightarrow> nat \<Rightarrow> 'h drain_round list \<Rightarrow> 'h pcm_world \<Rightarrow>
    ('h pcm_world \<times> unit res option) option" where
  "drain_loop ops s [] w = Some (w, None)"
| "drain_loop ops s (d # ds) w =
     (if dr_signal d then Some (w, Some (Inl ERESTARTSYS))
      else case to_drain w s of
        None \<Rightarrow> Some (w, Some (Inr ()))
      | Some _ \<Rightarrow>
          let w1 = dr_sleep d w
          in if dr_shutdown d then Some (w1, Some (Inl ENODEV))
             else if dr_timeout d then
               (if rt_state (rt w1 s) = S_SUSPENDED then Some (w1, Some (Inl ESTRPIPE))
                else do { (w2, _) \<leftarrow> snd_pcm_stop ops s S_SETUP w1; Some (w2, Some (Inl EIO)) })
             else drain_loop ops s ds w1)"

definition release_pause :: "'h pcm_ops \<Rightarrow> nat \<Rightarrow> 'h pcm_world \<Rightarrow> 'h pcm_world option" where
  "release_pause ops s w =
     (if rt_state (rt w s) = S_PAUSED then do { (w1, _) \<leftarrow> snd_pcm_pause ops s False w; Some w1 } else Some w)"

definition snd_pcm_drain :: "'h pcm_ops \<Rightarrow> unit res \<Rightarrow> bool option \<Rightarrow> 'h drain_round list \<Rightarrow> nat \<Rightarrow> 'h pcm_world \<Rightarrow>
    ('h pcm_world \<times> unit res option) option" where
  "snd_pcm_drain ops pwr file rounds s w =
     (if rt_state (rt w s) = S_OPEN then Some (w, Some (Inl EBADFD))
      else if rt_state (rt w s) = S_SUSPENDED \<and> isl pwr then Some (w, Some pwr)
      else do {
        w1 \<leftarrow> release_pause ops s w;
        (w2, res) \<leftarrow> snd_pcm_action (snd_pcm_action_drain_init ops) s w1;
        (case res of
           Inl e \<Rightarrow> Some (w2, Some (Inl e))
         | Inr _ \<Rightarrow>
             if (case file of Some b \<Rightarrow> b | None \<Rightarrow> ss_f_nonblock (w_subs w s)) then Some (w2, Some (Inl EAGAIN))
             else drain_loop ops s rounds w2)
      })"

definition snd_pcm_drop :: "'h pcm_ops \<Rightarrow> nat \<Rightarrow> 'h pcm_world \<Rightarrow> ('h pcm_world \<times> unit res) option" where
  "snd_pcm_drop ops s w =
     (if rt_state (rt w s) \<in> {S_OPEN, S_DISCONNECTED, S_SUSPENDED} then Some (w, Inl EBADFD)
      else do {
        w1 \<leftarrow> release_pause ops s w;
        (w2, _) \<leftarrow> snd_pcm_stop ops s S_SETUP w1;
        Some (w2, Inr ())
      })"

end
