(* ===== verification/Pcm_Ioctl.thy ===== *)
theory Pcm_Ioctl
  imports Pcm_State
begin

text \<open>
  The ioctls of a PCM stream that are not group actions: parameters, status, position and moves of
  the application pointer, from \<open>sound/core/pcm_native.c\<close>, and the resolution of the stream's timer
  from \<open>sound/core/pcm_timer.c\<close>. Structures copied from and to user space are arguments and results.
\<close>

section \<open>The resolution of the timer\<close>

function halve_until_fits :: "u64 \<Rightarrow> u64 \<Rightarrow> u64 \<Rightarrow> u64 \<times> u64" where
  "halve_until_fits fsize mult post =
     (if (mult * fsize) div fsize = mult \<or> mult = 0 then (mult, post)
      else halve_until_fits fsize (mult div 2) (post * 2))"
  by pat_completeness auto

termination halve_until_fits
proof (relation "measure (\<lambda>(fsize, mult, post). unat mult)")
  fix fsize mult post :: u64
  assume "\<not> ((mult * fsize) div fsize = mult \<or> mult = 0)"
  then show "((fsize, mult div 2, post * 2), fsize, mult, post) \<in> measure (\<lambda>(fsize, mult, post). unat mult)"
    by (simp add: unat_div unat_gt_0)
qed simp

declare halve_until_fits.simps [simp del]

text \<open>The test of \<open>mult = 0\<close> in the loop changes nothing: 0 always fits. The result is \<open>None\<close> when
  the function gives up without a value.\<close>

definition timer_resolution :: "u32 \<Rightarrow> u64 \<Rightarrow> u64 option" where
  "timer_resolution rate32 period_size =
     (if rate32 = 0 then None
      else let l = gcd 1000000000 (unat rate32);
               mult = of_nat (1000000000 div l) :: u64;
               rate = unat rate32 div l
           in if period_size = 0 then None
              else let l2 = gcd rate (unat period_size);
                       rate' = of_nat (rate div l2) :: u64;
                       fsize = of_nat (unat period_size div l2) :: u64;
                       (mult', post) = halve_until_fits fsize mult 1
                   in if rate' = 0 then Some (-1)
                      else Some ((mult' * fsize) div rate' * post))"

definition snd_pcm_timer_resolution_change :: "runtime \<Rightarrow> runtime" where
  "snd_pcm_timer_resolution_change r =
     (case timer_resolution (rt_rate r) (rt_period_size r) of
        None \<Rightarrow> r
      | Some x \<Rightarrow> r\<lparr>rt_timer_resolution := x\<rparr>)"

section \<open>Hardware parameters\<close>

definition period_to_usecs :: "runtime \<Rightarrow> int" where
  "period_to_usecs r =
     (if rt_rate r = 0 then -1
      else sint (ucast (ucast (750000 div rt_rate r) * rt_period_size r) +
                 ucast ((ucast (750000 mod rt_rate r) * rt_period_size r) div ucast (rt_rate r)) :: u32))"

definition params_access :: "hw_params \<Rightarrow> nat" where
  "params_access p = snd_mask_min (hp_masks p HW_PARAM_ACCESS)"

definition params_format :: "hw_params \<Rightarrow> int" where
  "params_format p = int (snd_mask_min (hp_masks p HW_PARAM_FORMAT))"

definition params_subformat :: "hw_params \<Rightarrow> nat" where
  "params_subformat p = snd_mask_min (hp_masks p HW_PARAM_SUBFORMAT)"

definition params_min :: "nat \<Rightarrow> hw_params \<Rightarrow> u32" where
  "params_min k p = iv_min (hp_intervals p k)"

text \<open>Three doublings are enough: a multiple of 8 is a multiple of 8 modulo the width as well.\<close>

fun align_loop :: "nat \<Rightarrow> u32 \<times> u64 \<Rightarrow> u32 \<times> u64" where
  "align_loop 0 bf = bf"
| "align_loop (Suc n) (bits, frames) =
     (if bits mod 8 \<noteq> 0 then align_loop n (bits * 2, frames * 2) else (bits, frames))"

partial_function (option) boundary_loop :: "u64 \<Rightarrow> u64 \<Rightarrow> u64 option" where
  "boundary_loop buffer_size boundary =
     (if boundary * 2 \<le> 9223372036854775807 - buffer_size then boundary_loop buffer_size (boundary * 2)
      else Some boundary)"

declare boundary_loop.simps [code]

abbreviation INFO_NO_PERIOD_WAKEUP :: u32 where "INFO_NO_PERIOD_WAKEUP \<equiv> 0x00800000"

definition set_hw_fields :: "hw_params \<Rightarrow> runtime \<Rightarrow> runtime" where
  "set_hw_fields p r =
     (let bits = (case snd_pcm_format_physical_width (params_format p) of Inl _ \<Rightarrow> -22 | Inr w \<Rightarrow> of_nat w) :: u32;
          frame_bits = bits * params_min HW_PARAM_CHANNELS p;
          (aligned, frames) = align_loop 3 (frame_bits, 1);
          buffer_size = ucast (params_min HW_PARAM_BUFFER_SIZE p);
          period_size = ucast (params_min HW_PARAM_PERIOD_SIZE p)
      in r\<lparr>rt_access := params_access p, rt_format := params_format p, rt_subformat := params_subformat p,
           rt_channels := params_min HW_PARAM_CHANNELS p, rt_rate := params_min HW_PARAM_RATE p,
           rt_period_size := period_size, rt_periods := params_min HW_PARAM_PERIODS p,
           rt_buffer_size := buffer_size, rt_info := hp_info p, rt_rate_num := hp_rate_num p,
           rt_rate_den := hp_rate_den p,
           rt_no_period_wakeup := (hp_info p AND INFO_NO_PERIOD_WAKEUP \<noteq> 0 \<and> hp_flags p AND 4 \<noteq> 0),
           rt_sample_bits := bits, rt_frame_bits := frame_bits, rt_byte_align := ucast (aligned div 8),
           rt_min_align := frames, rt_tstamp_mode := False, rt_period_step := 1, rt_avail_min := period_size,
           rt_start_threshold := 1, rt_stop_threshold := buffer_size, rt_silence_threshold := 0,
           rt_silence_size := 0\<rparr>)"

definition hw_params_error :: "'h pcm_ops \<Rightarrow> nat \<Rightarrow> 'h pcm_world \<Rightarrow> 'h pcm_world" where
  "hw_params_error ops s w =
     (let w1 = snd_pcm_set_state s S_OPEN w
      in case op_hw_free ops of None \<Rightarrow> w1 | Some f \<Rightarrow> fst (f s w1))"

text \<open>For streams that are not in OSS emulation.\<close>

definition snd_pcm_hw_params ::
  "'h pcm_ops \<Rightarrow> refine_env \<Rightarrow> nat \<Rightarrow> hw_params \<Rightarrow> 'h pcm_world \<Rightarrow> ('h pcm_world \<times> hw_params \<times> unit res) option" where
  "snd_pcm_hw_params ops env s params w =
     (if rt_state (rt w s) \<notin> {S_OPEN, S_SETUP, S_PREPARED} then Some (w, params, Inl EBADFD)
      else if ss_mmap_count (w_subs w s) \<noteq> 0 then Some (w, params, Inl EBADFD)
      else do {
        (p1, res) \<leftarrow> snd_pcm_hw_refine env (rt_constraints (rt w s)) (params\<lparr>hp_rmask := UINT_MAX\<rparr>);
        (case res of
           Inl e \<Rightarrow> Some (hw_params_error ops s w, p1, Inl e)
         | Inr _ \<Rightarrow> do {
             (p2, res2) \<leftarrow> snd_pcm_hw_params_choose env (rt_constraints (rt w s)) p1;
             (case res2 of
                Inl e \<Rightarrow> Some (hw_params_error ops s w, p2, Inl e)
              | Inr _ \<Rightarrow>
                  (case (case op_hw_params ops of None \<Rightarrow> (w, p2, Inr ()) | Some f \<Rightarrow> f s p2 w) of
                     (w3, p3, Inl e) \<Rightarrow> Some (hw_params_error ops s w3, p3, Inl e)
                   | (w3, p3, Inr _) \<Rightarrow> do {
                       let r = set_hw_fields p3 (rt w3 s);
                       b \<leftarrow> boundary_loop (rt_buffer_size r) (rt_buffer_size r);
                       Some (snd_pcm_set_state s S_SETUP
                               (upd_rt s (\<lambda>_. snd_pcm_timer_resolution_change (r\<lparr>rt_boundary := b\<rparr>)) w3),
                             p3, Inr ())
                     }))
           })
      })"

definition snd_pcm_hw_free :: "'h pcm_ops \<Rightarrow> nat \<Rightarrow> 'h pcm_world \<Rightarrow> 'h pcm_world \<times> unit res" where
  "snd_pcm_hw_free ops s w =
     (if rt_state (rt w s) \<notin> {S_SETUP, S_PREPARED} then (w, Inl EBADFD)
      else if ss_mmap_count (w_subs w s) \<noteq> 0 then (w, Inl EBADFD)
      else let (w1, res) = (case op_hw_free ops of None \<Rightarrow> (w, Inr ()) | Some f \<Rightarrow> f s w)
           in (snd_pcm_set_state s S_OPEN w1, res))"

section \<open>Software parameters\<close>

record sw_params =
  sw_tstamp_mode :: int
  sw_period_step :: u32
  sw_avail_min :: u64
  sw_start_threshold :: u64
  sw_stop_threshold :: u64
  sw_silence_threshold :: u64
  sw_silence_size :: u64
  sw_boundary :: u64

definition sw_params_error :: "runtime \<Rightarrow> sw_params \<Rightarrow> bool" where
  "sw_params_error r p \<longleftrightarrow> sw_tstamp_mode p > 1 \<or> sw_avail_min p = 0 \<or>
     (if sw_silence_size p \<ge> rt_boundary r then sw_silence_threshold p \<noteq> 0
      else sw_silence_size p > sw_silence_threshold p \<or> sw_silence_threshold p > rt_buffer_size r)"

definition set_sw_fields :: "sw_params \<Rightarrow> runtime \<Rightarrow> runtime" where
  "set_sw_fields p r = r\<lparr>rt_tstamp_mode := (sw_tstamp_mode p = 1), rt_period_step := sw_period_step p,
     rt_avail_min := sw_avail_min p, rt_start_threshold := sw_start_threshold p,
     rt_stop_threshold := sw_stop_threshold p, rt_silence_threshold := sw_silence_threshold p,
     rt_silence_size := sw_silence_size p\<rparr>"

definition snd_pcm_sw_params ::
  "'h pcm_ops \<Rightarrow> nat \<Rightarrow> sw_params \<Rightarrow> 'h pcm_world \<Rightarrow> ('h pcm_world \<times> sw_params \<times> unit res) option" where
  "snd_pcm_sw_params ops s p w =
     (if rt_state (rt w s) = S_OPEN then Some (w, p, Inl EBADFD)
      else if sw_params_error (rt w s) p then Some (w, p, Inl EINVAL)
      else let w1 = upd_rt s (set_sw_fields p) w; p1 = p\<lparr>sw_boundary := rt_boundary (rt w s)\<rparr>
           in if snd_pcm_running w1 s then do {
                (w2, res) \<leftarrow> snd_pcm_update_state ops s
                   (if playback w1 s \<and> rt_silence_size (rt w1 s) > 0
                    then snd_pcm_playback_silence ops s ULONG_MAX w1 else w1);
                Some (w2, p1, res)
              }
              else Some (w1, p1, Inr ()))"

section \<open>Status\<close>

record pcm_status =
  st_state :: pcm_state
  st_suspended_state :: pcm_state
  st_trigger_tstamp :: u64
  st_tstamp :: u64
  st_appl_ptr :: u64
  st_hw_ptr :: u64
  st_delay :: u64
  st_avail :: u64
  st_avail_max :: u64
  st_overrange :: u64
  st_audio_tstamp :: u64

text \<open>The caller clears the structure first.\<close>

definition zero_status :: pcm_status where
  "zero_status = \<lparr>st_state = S_OPEN, st_suspended_state = S_OPEN, st_trigger_tstamp = 0, st_tstamp = 0,
     st_appl_ptr = 0, st_hw_ptr = 0, st_delay = 0, st_avail = 0, st_avail_max = 0, st_overrange = 0,
     st_audio_tstamp = 0\<rparr>"

definition status_delay :: "bool \<Rightarrow> runtime \<Rightarrow> u64" where
  "status_delay is_playback r =
     (if is_playback then
        (if rt_state r = S_RUNNING \<or> rt_state r = S_DRAINING
         then rt_buffer_size r - snd_pcm_playback_avail r + rt_delay r else 0)
      else if rt_state r = S_RUNNING then snd_pcm_capture_avail r + rt_delay r else 0)"

definition snd_pcm_status :: "'h pcm_ops \<Rightarrow> nat \<Rightarrow> pcm_status \<Rightarrow> 'h pcm_world \<Rightarrow> ('h pcm_world \<times> pcm_status) option" where
  "snd_pcm_status ops s st w =
     (let r0 = rt w s;
          st1 = st\<lparr>st_state := rt_state r0, st_suspended_state := rt_suspended_state r0\<rparr>
      in if rt_state r0 = S_OPEN then Some (w, st1)
         else do {
           let st2 = st1\<lparr>st_trigger_tstamp := rt_trigger_tstamp r0\<rparr>;
           w1 \<leftarrow> (if snd_pcm_running w s then do { (w1, _) \<leftarrow> snd_pcm_update_hw_ptr ops s w; Some w1 } else Some w);
           let r = rt w1 s;
               st3 = (if snd_pcm_running w s \<and> rt_tstamp_mode r
                      then st2\<lparr>st_tstamp := rt_tstamp r, st_audio_tstamp := rt_audio_tstamp r\<rparr>
                      else st2\<lparr>st_tstamp := snd_pcm_gettime w1 s\<rparr>);
               st4 = st3\<lparr>st_appl_ptr := rt_appl_ptr r, st_hw_ptr := rt_hw_ptr r,
                         st_avail := (if playback w1 s then snd_pcm_playback_avail r else snd_pcm_capture_avail r),
                         st_delay := status_delay (playback w1 s) r,
                         st_avail_max := rt_avail_max r, st_overrange := ucast (rt_overrange r)\<rparr>
           in Some (upd_rt s (\<lambda>r. r\<lparr>rt_avail_max := 0, rt_overrange := 0\<rparr>) w1, st4)
         })"

definition snd_pcm_channel_info :: "nat \<Rightarrow> channel_info \<Rightarrow> 'h pcm_world \<Rightarrow> channel_info \<times> unit res" where
  "snd_pcm_channel_info s info w =
     (if rt_state (rt w s) = S_OPEN then (info, Inl EBADFD)
      else if ci_channel info \<ge> rt_channels (rt w s) then (info, Inl EINVAL)
      else snd_pcm_lib_ioctl_channel_info (rt w s)
             \<lparr>ci_channel = ci_channel info, ci_offset = 0, ci_first = 0, ci_step = 0\<rparr>)"

section \<open>Moving the application pointer\<close>

definition set_appl_ptr :: "nat \<Rightarrow> u64 \<Rightarrow> 'h pcm_world \<Rightarrow> 'h pcm_world" where
  "set_appl_ptr s p = upd_rt s (\<lambda>r. r\<lparr>rt_appl_ptr := p\<rparr>)"

definition rewind_frames :: "nat \<Rightarrow> u64 \<Rightarrow> u64 \<Rightarrow> 'h pcm_world \<Rightarrow> 'h pcm_world \<times> u64 res" where
  "rewind_frames s frames hw_avail w =
     (if sint hw_avail \<le> 0 then (w, Inr 0)
      else let n = (if frames > hw_avail then hw_avail else frames);
               p = rt_appl_ptr (rt w s) - n
           in (set_appl_ptr s (if sint p < 0 then p + rt_boundary (rt w s) else p) w, Inr n))"

definition forward_frames :: "nat \<Rightarrow> u64 \<Rightarrow> u64 \<Rightarrow> 'h pcm_world \<Rightarrow> 'h pcm_world \<times> u64 res" where
  "forward_frames s frames avail w =
     (if sint avail \<le> 0 then (w, Inr 0)
      else let n = (if frames > avail then avail else frames);
               p = rt_appl_ptr (rt w s) + n
           in (set_appl_ptr s (if sint p \<ge> sint (rt_boundary (rt w s)) then p - rt_boundary (rt w s) else p) w, Inr n))"

text \<open>The state check the four functions share: in the states \<open>active\<close> the position is updated
  first, in the states \<open>passive\<close> it is taken as it is.\<close>

definition checked_move :: "'h pcm_ops \<Rightarrow> pcm_state set \<Rightarrow> pcm_state set \<Rightarrow> nat \<Rightarrow>
    ('h pcm_world \<Rightarrow> 'h pcm_world \<times> u64 res) \<Rightarrow> 'h pcm_world \<Rightarrow> ('h pcm_world \<times> u64 res) option" where
  "checked_move ops passive active s move w =
     (let state = rt_state (rt w s)
      in if state \<in> passive then Some (move w)
         else if state \<in> active then do {
           (w1, res) \<leftarrow> snd_pcm_update_hw_ptr ops s w;
           Some (if isl res then (w1, Inl EPIPE) else move w1)
         }
         else Some (w, Inl (if state = S_XRUN then EPIPE else if state = S_SUSPENDED then ESTRPIPE else EBADFD)))"

definition snd_pcm_playback_rewind :: "'h pcm_ops \<Rightarrow> nat \<Rightarrow> u64 \<Rightarrow> 'h pcm_world \<Rightarrow> ('h pcm_world \<times> u64 res) option" where
  "snd_pcm_playback_rewind ops s frames w =
     (if frames = 0 then Some (w, Inr 0)
      else checked_move ops {S_PREPARED} {S_DRAINING, S_RUNNING} s
             (\<lambda>w. rewind_frames s frames (snd_pcm_playback_hw_avail (rt w s)) w) w)"

definition snd_pcm_capture_rewind :: "'h pcm_ops \<Rightarrow> nat \<Rightarrow> u64 \<Rightarrow> 'h pcm_world \<Rightarrow> ('h pcm_world \<times> u64 res) option" where
  "snd_pcm_capture_rewind ops s frames w =
     (if frames = 0 then Some (w, Inr 0)
      else checked_move ops {S_PREPARED, S_DRAINING} {S_RUNNING} s
             (\<lambda>w. rewind_frames s frames (snd_pcm_capture_hw_avail (rt w s)) w) w)"

definition snd_pcm_playback_forward :: "'h pcm_ops \<Rightarrow> nat \<Rightarrow> u64 \<Rightarrow> 'h pcm_world \<Rightarrow> ('h pcm_world \<times> u64 res) option" where
  "snd_pcm_playback_forward ops s frames w =
     (if frames = 0 then Some (w, Inr 0)
      else checked_move ops {S_PREPARED, S_PAUSED} {S_DRAINING, S_RUNNING} s
             (\<lambda>w. forward_frames s frames (snd_pcm_playback_avail (rt w s)) w) w)"

definition snd_pcm_capture_forward :: "'h pcm_ops \<Rightarrow> nat \<Rightarrow> u64 \<Rightarrow> 'h pcm_world \<Rightarrow> ('h pcm_world \<times> u64 res) option" where
  "snd_pcm_capture_forward ops s frames w =
     (if frames = 0 then Some (w, Inr 0)
      else checked_move ops {S_PREPARED, S_DRAINING, S_PAUSED} {S_RUNNING} s
             (\<lambda>w. forward_frames s frames (snd_pcm_capture_avail (rt w s)) w) w)"

section \<open>Synchronising with the hardware\<close>

definition snd_pcm_hwsync :: "'h pcm_ops \<Rightarrow> nat \<Rightarrow> 'h pcm_world \<Rightarrow> ('h pcm_world \<times> unit res) option" where
  "snd_pcm_hwsync ops s w =
     (case rt_state (rt w s) of
        S_DRAINING \<Rightarrow> if \<not> playback w s then Some (w, Inl EBADFD) else snd_pcm_update_hw_ptr ops s w
      | S_RUNNING \<Rightarrow> snd_pcm_update_hw_ptr ops s w
      | S_PREPARED \<Rightarrow> Some (w, Inr ())
      | S_SUSPENDED \<Rightarrow> Some (w, Inr ())
      | S_XRUN \<Rightarrow> Some (w, Inl EPIPE)
      | _ \<Rightarrow> Some (w, Inl EBADFD))"

definition stream_delay :: "'h pcm_world \<Rightarrow> nat \<Rightarrow> u64" where
  "stream_delay w s =
     (if playback w s then snd_pcm_playback_hw_avail (rt w s) else snd_pcm_capture_avail (rt w s)) + rt_delay (rt w s)"

definition snd_pcm_delay :: "'h pcm_ops \<Rightarrow> nat \<Rightarrow> 'h pcm_world \<Rightarrow> ('h pcm_world \<times> u64 res) option" where
  "snd_pcm_delay ops s w = do {
     (w1, res) \<leftarrow> snd_pcm_hwsync ops s w;
     Some (w1, case res of Inl e \<Rightarrow> Inl e | Inr _ \<Rightarrow> Inr (stream_delay w1 s))
   }"

record sync_ptr =
  sp_flags :: u32
  sp_appl_ptr :: u64
  sp_avail_min :: u64
  sp_state :: pcm_state
  sp_hw_ptr :: u64
  sp_tstamp :: u64
  sp_suspended_state :: pcm_state

definition exchange_ptr :: "nat \<Rightarrow> sync_ptr \<Rightarrow> 'h pcm_world \<Rightarrow> 'h pcm_world \<times> sync_ptr" where
  "exchange_ptr s p w =
     (let (w1, p1) = (if sp_flags p AND 2 = 0 then (set_appl_ptr s (sp_appl_ptr p) w, p)
                      else (w, p\<lparr>sp_appl_ptr := rt_appl_ptr (rt w s)\<rparr>));
          (w2, p2) = (if sp_flags p AND 4 = 0 then (upd_rt s (\<lambda>r. r\<lparr>rt_avail_min := sp_avail_min p\<rparr>) w1, p1)
                      else (w1, p1\<lparr>sp_avail_min := rt_avail_min (rt w1 s)\<rparr>));
          r = rt w2 s
      in (w2, p2\<lparr>sp_state := rt_state r, sp_hw_ptr := rt_hw_ptr r, sp_tstamp := rt_tstamp r,
                 sp_suspended_state := rt_suspended_state r\<rparr>))"

definition snd_pcm_sync_ptr :: "'h pcm_ops \<Rightarrow> nat \<Rightarrow> sync_ptr \<Rightarrow> 'h pcm_world \<Rightarrow> ('h pcm_world \<times> sync_ptr res) option" where
  "snd_pcm_sync_ptr ops s p w =
     (if sp_flags p AND 1 \<noteq> 0 then do {
        (w1, res) \<leftarrow> snd_pcm_hwsync ops s w;
        Some (case res of Inl e \<Rightarrow> (w1, Inl e) | Inr _ \<Rightarrow> (let (w2, q) = exchange_ptr s p w1 in (w2, Inr q)))
      }
      else let (w2, q) = exchange_ptr s p w in Some (w2, Inr q))"

definition snd_pcm_tstamp :: "nat \<Rightarrow> int \<Rightarrow> 'h pcm_world \<Rightarrow> 'h pcm_world \<times> unit res" where
  "snd_pcm_tstamp s arg w =
     (if arg < 0 \<or> arg > 1 then (w, Inl EINVAL)
      else (upd_rt s (\<lambda>r. r\<lparr>rt_tstamp_monotonic := (arg = 1)\<rparr>) w, Inr ()))"

end
