(* ===== verification/Pcm_Link.thy ===== *)
theory Pcm_Link
  imports Pcm_Ioctl
begin

text \<open>
  Linking streams into groups: \<open>snd_pcm_link\<close> and \<open>snd_pcm_unlink\<close> of \<open>sound/core/pcm_native.c\<close>. The
  list of a group is an Isabelle list; adding a node that is already linked would make its \<open>next\<close>
  pointer point to itself, after which the list has no end, so that \<open>list_add_tail\<close> is partial. \<open>fresh\<close>
  is the number of the group that is allocated, or \<open>None\<close> when there is no memory.
\<close>

section \<open>Operations\<close>

definition list_add_tail :: "nat \<Rightarrow> nat list \<Rightarrow> nat list option" where
  "list_add_tail s xs = (if s \<in> set xs then None else Some (xs @ [s]))"

definition set_group :: "nat \<Rightarrow> group_id \<Rightarrow> 'h pcm_world \<Rightarrow> 'h pcm_world" where
  "set_group s g = upd_sub s (\<lambda>u. u\<lparr>ss_group := g\<rparr>)"

definition set_members :: "nat \<Rightarrow> nat list \<Rightarrow> int \<Rightarrow> 'h pcm_world \<Rightarrow> 'h pcm_world" where
  "set_members g xs n w = w\<lparr>w_groups := (w_groups w)(g := xs), w_group_count := (w_group_count w)(g := n)\<rparr>"

text \<open>The second stream is given by a file descriptor; \<open>None\<close> when it is not a PCM file.\<close>

definition snd_pcm_link :: "nat option \<Rightarrow> nat \<Rightarrow> nat option \<Rightarrow> 'h pcm_world \<Rightarrow> ('h pcm_world \<times> unit res) option" where
  "snd_pcm_link fresh s file w =
     (case file of
        None \<Rightarrow> Some (w, Inl EBADFD)
      | Some s1 \<Rightarrow>
          (case fresh of
             None \<Rightarrow> Some (w, Inl ENOMEM)
           | Some g \<Rightarrow>
               if rt_state (rt w s) = S_OPEN \<or> rt_state (rt w s) \<noteq> rt_state (rt w s1) then Some (w, Inl EBADFD)
               else if snd_pcm_stream_linked w s1 then Some (w, Inl EALREADY)
               else
                 let w1 = (if \<not> snd_pcm_stream_linked w s then set_members g [s] 1 (set_group s (Shared g) w) else w)
                 in (case ss_group (w_subs w1 s) of
                       Self k \<Rightarrow> Some (w1, Inr ())
                     | Shared g1 \<Rightarrow> do {
                         xs \<leftarrow> list_add_tail s1 (w_groups w1 g1);
                         Some (set_group s1 (Shared g1) (set_members g1 xs (w_group_count w1 g1 + 1) w1), Inr ())
                       })))"

definition relink_to_local :: "nat \<Rightarrow> 'h pcm_world \<Rightarrow> 'h pcm_world" where
  "relink_to_local s = set_group s (Self s)"

definition snd_pcm_unlink :: "nat \<Rightarrow> 'h pcm_world \<Rightarrow> 'h pcm_world \<times> unit res" where
  "snd_pcm_unlink s w =
     (case ss_group (w_subs w s) of
        Self k \<Rightarrow> if k = s then (w, Inl EALREADY) else (w, Inr ())
      | Shared g \<Rightarrow>
          let xs = remove1 s (w_groups w g); n = w_group_count w g - 1;
              w1 = set_members g xs n w;
              w2 = (if n = 1 then (case xs of [] \<Rightarrow> w1 | t # _ \<Rightarrow> set_members g [] n (relink_to_local t w1)) else w1)
          in (relink_to_local s w2, Inr ()))"

section \<open>Groups that partition the streams\<close>

text \<open>
  Every stream is alone, or listed once in its group together with at least one more stream; the
  count of a group is the length of its list; lists hold the streams of their group only. \<open>used\<close>
  are the numbers of groups in use.
\<close>

definition own_ok :: "'h pcm_world \<Rightarrow> nat \<Rightarrow> bool" where
  "own_ok w s = (case ss_group (w_subs w s) of Self k \<Rightarrow> k = s | Shared g \<Rightarrow> s \<in> set (w_groups w g))"

definition list_ok :: "'h pcm_world \<Rightarrow> nat \<Rightarrow> bool" where
  "list_ok w g \<longleftrightarrow> (w_groups w g \<noteq> [] \<longrightarrow> distinct (w_groups w g) \<and> 2 \<le> length (w_groups w g) \<and>
     w_group_count w g = int (length (w_groups w g)) \<and>
     (\<forall>s\<in>set (w_groups w g). ss_group (w_subs w s) = Shared g))"

definition groups_wf :: "'h pcm_world \<Rightarrow> bool" where
  "groups_wf w \<longleftrightarrow> (\<forall>s. own_ok w s) \<and> (\<forall>g. list_ok w g)"

lemma set_group_simps [simp]:
  "ss_group (w_subs (set_group s g w) t) = (if t = s then g else ss_group (w_subs w t))"
  "w_groups (set_group s g w) = w_groups w" "w_group_count (set_group s g w) = w_group_count w"
  "rt (set_group s g w) t = rt w t"
  by (simp_all add: set_group_def upd_sub_def rt_def)

lemma set_members_simps [simp]:
  "w_subs (set_members g xs n w) = w_subs w"
  "w_groups (set_members g xs n w) = (w_groups w)(g := xs)"
  "w_group_count (set_members g xs n w) = (w_group_count w)(g := n)" "rt (set_members g xs n w) t = rt w t"
  by (simp_all add: set_members_def rt_def)

lemma groups_wf_own: "groups_wf w \<Longrightarrow> own_ok w s"
  by (simp add: groups_wf_def)

lemma groups_wf_list: "groups_wf w \<Longrightarrow> list_ok w g"
  by (simp add: groups_wf_def)

lemma groups_wf_linked: "groups_wf w \<Longrightarrow> snd_pcm_stream_linked w s \<longleftrightarrow> (\<exists>g. ss_group (w_subs w s) = Shared g)"
  using groups_wf_own [of w s] by (cases "ss_group (w_subs w s)") (simp_all add: snd_pcm_stream_linked_def own_ok_def)

lemma groups_wf_member:
  assumes "groups_wf w" "ss_group (w_subs w s) = Shared g"
  shows "s \<in> set (w_groups w g)" "distinct (w_groups w g)" "2 \<le> length (w_groups w g)"
    "w_group_count w g = int (length (w_groups w g))"
    "t \<in> set (w_groups w g) \<Longrightarrow> ss_group (w_subs w t) = Shared g"
proof -
  show m: "s \<in> set (w_groups w g)" using groups_wf_own [OF assms(1), of s] assms(2) by (simp add: own_ok_def)
  then have "w_groups w g \<noteq> []" by auto
  then show "distinct (w_groups w g)" "2 \<le> length (w_groups w g)"
    "w_group_count w g = int (length (w_groups w g))"
    "t \<in> set (w_groups w g) \<Longrightarrow> ss_group (w_subs w t) = Shared g"
    using groups_wf_list [OF assms(1), of g] by (simp_all add: list_ok_def)
qed

lemma groups_wf_members:
  assumes "groups_wf w" "t \<in> set (group_members w s)"
  shows "group_members w t = group_members w s" "s \<in> set (group_members w s)"
proof -
  have "group_members w t = group_members w s \<and> s \<in> set (group_members w s)"
  proof (cases "ss_group (w_subs w s)")
    case (Self k)
    then have "k = s" using groups_wf_own [OF assms(1), of s] by (simp add: own_ok_def)
    then show ?thesis using assms(2) Self by (simp add: group_members_def)
  next
    case (Shared g)
    then show ?thesis using groups_wf_member [OF assms(1) Shared] assms(2) by (simp add: group_members_def)
  qed
  then show "group_members w t = group_members w s" "s \<in> set (group_members w s)" by simp_all
qed

section \<open>Linking\<close>

text \<open>What a link that succeeds makes of the world.\<close>

definition linked_to :: "nat \<Rightarrow> nat \<Rightarrow> nat \<Rightarrow> nat list \<Rightarrow> 'h pcm_world \<Rightarrow> 'h pcm_world" where
  "linked_to g s s1 xs w = set_group s1 (Shared g) (set_members g (xs @ [s1]) (int (length xs) + 1) (set_group s (Shared g) w))"

text \<open>The group in which a link puts the second stream: that of the first one, or a fresh one.\<close>

definition link_target :: "nat \<Rightarrow> nat \<Rightarrow> 'h pcm_world \<Rightarrow> nat" where
  "link_target g s w = (case ss_group (w_subs w s) of Self _ \<Rightarrow> g | Shared g1 \<Rightarrow> g1)"

lemma linked_to_simps [simp]:
  "ss_group (w_subs (linked_to g s s1 xs w) t) = (if t = s1 \<or> t = s then Shared g else ss_group (w_subs w t))"
  "w_groups (linked_to g s s1 xs w) = (w_groups w)(g := xs @ [s1])"
  "w_group_count (linked_to g s s1 xs w) = (w_group_count w)(g := int (length xs) + 1)"
  by (simp_all add: linked_to_def)

lemma linked_to_wf:
  assumes wf: "groups_wf w" and un: "ss_group (w_subs w s1) = Self s1" and "s \<noteq> s1"
    and g: "(\<forall>t. ss_group (w_subs w t) \<noteq> Shared g) \<and> ss_group (w_subs w s) = Self s \<and> xs = [s] \<or>
      ss_group (w_subs w s) = Shared g \<and> xs = w_groups w g"
  shows "groups_wf (linked_to g s s1 xs w)"
  unfolding groups_wf_def
proof (intro conjI allI)
  fix t
  show "own_ok (linked_to g s s1 xs w) t"
    using groups_wf_own [OF wf, of t] g groups_wf_member(1) [OF wf, of s]
    by (cases "ss_group (w_subs w t)") (auto simp: own_ok_def)
next
  fix h
  have other: "t \<noteq> s1 \<and> t \<noteq> s" if "h \<noteq> g" "ss_group (w_subs w t) = Shared h" for t
    using that un g by auto
  have "s1 \<notin> set xs"
  proof
    assume "s1 \<in> set xs"
    then have "ss_group (w_subs w s1) = Shared g" using g groups_wf_member(5) [OF wf, of s g s1] \<open>s \<noteq> s1\<close> by auto
    then show False using un by simp
  qed
  then have "list_ok (linked_to g s s1 xs w) g"
    using g \<open>s \<noteq> s1\<close> groups_wf_member(2,3,5) [OF wf, of s g] by (auto simp: list_ok_def)
  then show "list_ok (linked_to g s s1 xs w) h"
    using groups_wf_list [OF wf, of h] other by (cases "h = g") (auto simp: list_ok_def)
qed

lemma link_success:
  assumes wf: "groups_wf w" and ne: "s \<noteq> s1" and fresh: "\<forall>t. ss_group (w_subs w t) \<noteq> Shared g"
    and states: "rt_state (rt w s) \<noteq> S_OPEN" "rt_state (rt w s) = rt_state (rt w s1)"
    and un: "\<not> snd_pcm_stream_linked w s1"
  shows "snd_pcm_link (Some g) s (Some s1) w = Some (linked_to (link_target g s w) s s1 (group_members w s) w, Inr ()) \<and>
    groups_wf (linked_to (link_target g s w) s s1 (group_members w s) w)"
proof (cases "snd_pcm_stream_linked w s")
  case True
  then obtain h where h: "ss_group (w_subs w s) = Shared h" using groups_wf_linked [OF wf] by blast
  have u: "ss_group (w_subs w s1) = Self s1" using un by (simp add: snd_pcm_stream_linked_def)
  have "s1 \<notin> set (w_groups w h)" using groups_wf_member(5) [OF wf h, of s1] u by auto
  moreover have same: "set_group s (Shared h) w = w" using h by (simp add: set_group_def upd_sub_def fun_upd_idem)
  ultimately show ?thesis using True h states un linked_to_wf [OF wf u ne, of h "w_groups w h"] groups_wf_member(4) [OF wf h]
    by (simp add: snd_pcm_link_def Let_def list_add_tail_def linked_to_def link_target_def group_members_def)
next
  case False
  have u: "ss_group (w_subs w s1) = Self s1" and s: "ss_group (w_subs w s) = Self s"
    using un False by (simp_all add: snd_pcm_stream_linked_def)
  have "set_members g [s, s1] 2 (set_members g [s] 1 (set_group s (Shared g) w)) = set_members g [s, s1] 2 (set_group s (Shared g) w)"
    by (simp add: set_members_def)
  then show ?thesis using False s states un ne linked_to_wf [OF wf u ne, of g "[s]"] fresh
    by (simp add: snd_pcm_link_def Let_def list_add_tail_def linked_to_def link_target_def group_members_def)
qed

text \<open>Who is in whose group after a link.\<close>

lemma link_members:
  assumes wf: "groups_wf w" and ne: "s \<noteq> s1" and fresh: "\<forall>t. ss_group (w_subs w t) \<noteq> Shared g"
    and un: "\<not> snd_pcm_stream_linked w s1"
  shows "group_members (linked_to (link_target g s w) s s1 (group_members w s) w) t =
    (if t = s1 \<or> t \<in> set (group_members w s) then group_members w s @ [s1] else group_members w t)"
proof -
  let ?h = "link_target g s w" and ?xs = "group_members w s"
  let ?w' = "linked_to ?h s s1 ?xs w"
  have s: "s \<in> set ?xs"
    using groups_wf_own [OF wf, of s] by (cases "ss_group (w_subs w s)") (simp_all add: group_members_def own_ok_def)
  have in_group: "ss_group (w_subs w t) = Shared ?h \<longleftrightarrow> t \<in> set ?xs" if "t \<noteq> s" for t
  proof (cases "ss_group (w_subs w s)")
    case (Self k)
    then have "k = s" using groups_wf_own [OF wf, of s] by (simp add: own_ok_def)
    then show ?thesis using Self fresh that by (simp add: link_target_def group_members_def)
  next
    case (Shared h)
    then show ?thesis using groups_wf_member(5) [OF wf Shared, of t] groups_wf_member(1) [OF wf, of t h]
      by (auto simp: link_target_def group_members_def)
  qed
  show ?thesis
  proof (cases "t = s1 \<or> t \<in> set ?xs")
    case True
    then have "ss_group (w_subs ?w' t) = Shared ?h" using in_group [of t] by (cases "t = s") auto
    then show ?thesis using True by (simp add: group_members_def)
  next
    case False
    then have n: "t \<noteq> s" "t \<noteq> s1" using s by auto
    have "ss_group (w_subs w t) \<noteq> Shared ?h" using in_group [OF n(1)] False by simp
    then have "group_members ?w' t = group_members w t"
      using n by (cases "ss_group (w_subs w t)") (simp_all add: group_members_def)
    then show ?thesis using False by simp
  qed
qed

section \<open>Unlinking\<close>

lemma list_apart:
  assumes "groups_wf w" "k \<in> set (w_groups w h)" "ss_group (w_subs w k) = Shared g"
  shows "h = g"
proof -
  have "w_groups w h \<noteq> []" using assms(2) by auto
  then have "ss_group (w_subs w k) = Shared h" using groups_wf_list [OF assms(1), of h] assms(2) by (simp add: list_ok_def)
  then show ?thesis using assms(3) by simp
qed

lemma set_remove1_distinct: "distinct xs \<Longrightarrow> set (remove1 s xs) = set xs - {s}"
  by (rule set_remove1_eq)

text \<open>The world after taking a stream out of its group.\<close>

lemma unlink_world:
  assumes wf: "groups_wf w" and g: "ss_group (w_subs w s) = Shared g"
  defines "xs \<equiv> remove1 s (w_groups w g)"
  shows "snd_pcm_unlink s w = (if length xs = 1
      then relink_to_local s (set_members g [] 1 (relink_to_local (hd xs) (set_members g xs 1 w)))
      else relink_to_local s (set_members g xs (int (length xs)) w), Inr ())"
proof -
  note M = groups_wf_member [OF wf g]
  have "length xs = length (w_groups w g) - 1" using M(1) by (simp add: xs_def length_remove1)
  then have n: "w_group_count w g - 1 = int (length xs)" using M(3,4) by simp
  show ?thesis using n by (cases xs) (auto simp: snd_pcm_unlink_def g Let_def simp flip: xs_def)
qed

lemma unlink_wf_members:
  assumes wf: "groups_wf w" and g: "ss_group (w_subs w s) = Shared g"
  shows "groups_wf (fst (snd_pcm_unlink s w)) \<and>
    (\<forall>t. group_members (fst (snd_pcm_unlink s w)) t = (if t = s then [s] else remove1 s (group_members w t)))"
proof -
  define xs where "xs = remove1 s (w_groups w g)"
  note M = groups_wf_member [OF wf g] and U = unlink_world [OF wf g, folded xs_def]
  have sx: "set xs = set (w_groups w g) - {s}" using M(2) by (simp add: xs_def set_remove1_distinct)
  have dx: "distinct xs" using M(2) by (simp add: xs_def)
  have grp: "ss_group (w_subs w t) = Shared g \<longleftrightarrow> t = s \<or> t \<in> set xs" for t
    using M(1) M(5) [of t] groups_wf_member(1) [OF wf, of t g] sx g by auto
  have out: "s \<notin> set (group_members w t)" if "ss_group (w_subs w t) \<noteq> Shared g" for t
  proof
    assume "s \<in> set (group_members w t)"
    then show False using that g groups_wf_member(5) [OF wf, of t] groups_wf_own [OF wf, of t]
      by (cases "ss_group (w_subs w t)") (auto simp: group_members_def own_ok_def)
  qed
  have own: "own_ok w t" "list_ok w h" for t h using wf by (simp_all add: groups_wf_own groups_wf_list)
  show ?thesis
  proof (cases "length xs = 1")
    case True
    then obtain t where t: "xs = [t]" by (cases xs) auto
    have ts: "t \<noteq> s" using sx t by auto
    define v where "v = relink_to_local s (set_members g [] 1 (relink_to_local t (set_members g xs 1 w)))"
    have u: "fst (snd_pcm_unlink s w) = v" using U t by (simp add: v_def)
    have vg: "ss_group (w_subs v k) = (if k = s \<or> k = t then Self k else ss_group (w_subs w k))"
      "w_groups v = (w_groups w)(g := [])" "w_group_count v = (w_group_count w)(g := 1)" for k
      by (auto simp: v_def relink_to_local_def)
    have "own_ok v k" for k
      using own(1) [of k] grp [of k] t by (cases "ss_group (w_subs w k)") (auto simp: own_ok_def vg)
    moreover have "list_ok v h" for h
    proof (cases "h = g")
      case False
      have "s \<notin> set (w_groups w h)" "t \<notin> set (w_groups w h)"
        using list_apart [OF wf] grp [of s] grp [of t] t False by auto
      then show ?thesis using own(2) [of h] False by (auto simp: list_ok_def vg)
    qed (simp add: list_ok_def vg)
    moreover have "group_members v k = (if k = s then [s] else remove1 s (group_members w k))" for k
    proof (cases "ss_group (w_subs w k) = Shared g")
      case T: True
      then show ?thesis using grp [of k] t ts xs_def by (auto simp: group_members_def vg)
    next
      case F: False
      then show ?thesis using out [OF F] grp [of k] t
        by (cases "ss_group (w_subs w k)") (auto simp: group_members_def vg remove1_idem)
    qed
    ultimately show ?thesis unfolding u groups_wf_def by blast
  next
    case False
    define v where "v = relink_to_local s (set_members g xs (int (length xs)) w)"
    have u: "fst (snd_pcm_unlink s w) = v" using U False by (simp add: v_def)
    have vg: "ss_group (w_subs v k) = (if k = s then Self s else ss_group (w_subs w k))"
      "w_groups v = (w_groups w)(g := xs)" "w_group_count v = (w_group_count w)(g := int (length xs))" for k
      by (auto simp: v_def relink_to_local_def)
    have "length xs + 1 = length (w_groups w g)" using M(1,3) by (simp add: xs_def length_remove1)
    then have len: "2 \<le> length xs" using M(3) False by simp
    have "own_ok v k" for k
      using own(1) [of k] grp [of k] by (cases "ss_group (w_subs w k)") (auto simp: own_ok_def vg)
    moreover have "list_ok v h" for h
      using own(2) [of h] list_apart [OF wf _ g, of h] grp g len dx sx by (cases "h = g") (auto simp: list_ok_def vg)
    moreover have "group_members v k = (if k = s then [s] else remove1 s (group_members w k))" for k
    proof (cases "ss_group (w_subs w k) = Shared g")
      case T: True
      then show ?thesis by (auto simp: group_members_def vg xs_def)
    next
      case F: False
      then show ?thesis using out [OF F] g
        by (cases "ss_group (w_subs w k)") (auto simp: group_members_def vg remove1_idem)
    qed
    ultimately show ?thesis unfolding u groups_wf_def by blast
  qed
qed

section \<open>The properties\<close>

text \<open>
  C27: linking joins groups. When two different streams are in the same state, not \<open>OPEN\<close>, and the
  second one is not linked, \<open>snd_pcm_link\<close> succeeds, the second stream is the last member of the
  group of the first, the group has all former members, other groups are as before, and the groups
  still partition the streams with correct counts.
\<close>

theorem snd_pcm_link_joins:
  assumes "groups_wf w" "s \<noteq> s1" "\<forall>t. ss_group (w_subs w t) \<noteq> Shared g"
    and "rt_state (rt w s) \<noteq> S_OPEN" "rt_state (rt w s) = rt_state (rt w s1)" "\<not> snd_pcm_stream_linked w s1"
  shows "\<exists>w'. snd_pcm_link (Some g) s (Some s1) w = Some (w', Inr ()) \<and> groups_wf w' \<and>
    (\<forall>t. group_members w' t =
      (if t = s1 \<or> t \<in> set (group_members w s) then group_members w s @ [s1] else group_members w t))"
  using link_success [OF assms] link_members [OF assms(1,2,3,6)] by blast

text \<open>
  C28: unlinking leaves a group. \<open>snd_pcm_unlink\<close> of a linked stream leaves it alone and takes it
  from the groups of all others; when one other stream remains, that one is alone again too. The
  groups still partition the streams.
\<close>

theorem snd_pcm_unlink_leaves:
  assumes "groups_wf w" "ss_group (w_subs w s) = Shared g"
  shows "groups_wf (fst (snd_pcm_unlink s w)) \<and> snd (snd_pcm_unlink s w) = Inr () \<and>
    (\<forall>t. group_members (fst (snd_pcm_unlink s w)) t = (if t = s then [s] else remove1 s (group_members w t)))"
proof -
  have "snd (snd_pcm_unlink s w) = Inr ()" using unlink_world [OF assms] by simp
  then show ?thesis using unlink_wf_members [OF assms] by blast
qed

text \<open>
  linking and unlinking again changes no group. After a successful link, \<open>snd_pcm_unlink\<close> of the
  second stream succeeds and every stream is back in the group it was in before the link.
\<close>

theorem snd_pcm_link_unlink_roundtrip:
  assumes "groups_wf w" "s \<noteq> s1" "\<forall>t. ss_group (w_subs w t) \<noteq> Shared g"
    and "rt_state (rt w s) \<noteq> S_OPEN" "rt_state (rt w s) = rt_state (rt w s1)" "\<not> snd_pcm_stream_linked w s1"
  shows "\<exists>w'. snd_pcm_link (Some g) s (Some s1) w = Some (w', Inr ()) \<and> snd (snd_pcm_unlink s1 w') = Inr () \<and>
    (\<forall>t. group_members (fst (snd_pcm_unlink s1 w')) t = group_members w t)"
proof -
  define w' where "w' = linked_to (link_target g s w) s s1 (group_members w s) w"
  have l: "snd_pcm_link (Some g) s (Some s1) w = Some (w', Inr ())" and wf: "groups_wf w'"
    using link_success [OF assms] by (simp_all add: w'_def)
  have g': "ss_group (w_subs w' s1) = Shared (link_target g s w)" by (simp add: w'_def)
  have m: "group_members w' t =
      (if t = s1 \<or> t \<in> set (group_members w s) then group_members w s @ [s1] else group_members w t)" for t
    unfolding w'_def by (rule link_members [OF assms(1,2,3,6)])
  have self: "group_members w s1 = [s1]" using assms(6) by (simp add: snd_pcm_stream_linked_def group_members_def)
  have "s1 \<notin> set (group_members w s)"
    using groups_wf_members [OF assms(1), of s1 s] self assms(2) by (metis empty_iff insert_iff list.set)
  then have "remove1 s1 (group_members w s @ [s1]) = group_members w s" by (simp add: remove1_append)
  moreover have "s1 \<notin> set (group_members w t)" if "t \<noteq> s1" for t
    using groups_wf_members [OF assms(1), of s1 t] self that by (metis empty_iff insert_iff list.set)
  ultimately have "(if t = s1 then [s1] else remove1 s1 (group_members w' t)) = group_members w t" for t
    using self groups_wf_members(1) [OF assms(1), of t s] by (auto simp: m remove1_idem)
  then have "group_members (fst (snd_pcm_unlink s1 w')) t = group_members w t" for t
    using unlink_wf_members [OF wf g'] by simp
  moreover have "snd (snd_pcm_unlink s1 w') = Inr ()" using unlink_world [OF wf g'] by simp
  ultimately show ?thesis using l by blast
qed

text \<open>
  A stream can be linked to itself. Nothing stops \<open>snd_pcm_link\<close> from a second stream that is the
  first one: the node is added to the list twice, after which the list never ends.
\<close>

lemma snd_pcm_link_itself:
  "snd_pcm_link (Some g) 0 (Some 0) demo_world = None"
  by (simp add: snd_pcm_link_def demo_runtime_def demo_world_def rt_def snd_pcm_stream_linked_def Let_def
      list_add_tail_def set_group_def set_members_def upd_sub_def)

section \<open>Witnesses\<close>

lemma demo_world_groups: "groups_wf demo_world"
  by (simp add: groups_wf_def own_ok_def list_ok_def demo_world_def)

lemma demo_world_unlinked [simp]: "ss_group (w_subs demo_world t) = Self t" "\<not> snd_pcm_stream_linked demo_world t"
  "group_members demo_world t = [t]"
  by (simp_all add: demo_world_def snd_pcm_stream_linked_def group_members_def)

lemma demo_world_state: "rt_state demo_runtime = S_PREPARED"
  by (simp add: demo_runtime_def)

theorem snd_pcm_link_joins_witness:
  "\<exists>w'. snd_pcm_link (Some 7) 0 (Some 1) demo_world = Some (w', Inr ()) \<and>
    group_members w' 0 = [0, 1] \<and> group_members w' 1 = [0, 1] \<and> group_members w' 2 = [2]"
proof -
  have "\<exists>w'. snd_pcm_link (Some 7) 0 (Some 1) demo_world = Some (w', Inr ()) \<and> groups_wf w' \<and>
    (\<forall>t. group_members w' t = (if t = 1 \<or> t \<in> set (group_members demo_world 0)
       then group_members demo_world 0 @ [1] else group_members demo_world t))"
    by (rule snd_pcm_link_joins [OF demo_world_groups]) (simp_all add: demo_world_state)
  then show ?thesis by auto
qed

theorem snd_pcm_link_unlink_roundtrip_witness:
  "\<exists>w'. snd_pcm_link (Some 7) 0 (Some 1) demo_world = Some (w', Inr ()) \<and>
    (\<forall>t. group_members (fst (snd_pcm_unlink 1 w')) t = [t])"
proof -
  have "\<exists>w'. snd_pcm_link (Some 7) 0 (Some 1) demo_world = Some (w', Inr ()) \<and> snd (snd_pcm_unlink 1 w') = Inr () \<and>
    (\<forall>t. group_members (fst (snd_pcm_unlink 1 w')) t = group_members demo_world t)"
    by (rule snd_pcm_link_unlink_roundtrip [OF demo_world_groups]) (simp_all add: demo_world_state)
  then show ?thesis by auto
qed

lemma linked_world_groups: "groups_wf (linked_to 0 0 1 [0] demo_world)"
  using linked_to_wf [OF demo_world_groups, of 1 0 0 "[0]"] by simp

theorem snd_pcm_unlink_leaves_witness:
  "group_members (fst (snd_pcm_unlink 0 (linked_to 0 0 1 [0] demo_world))) 0 = [0] \<and>
   group_members (fst (snd_pcm_unlink 0 (linked_to 0 0 1 [0] demo_world))) 1 = [1]"
proof -
  have g: "ss_group (w_subs (linked_to 0 0 1 [0] demo_world) 0) = Shared 0" by simp
  have "group_members (linked_to 0 0 1 [0] demo_world) 1 = [0, 1]" by (simp add: group_members_def)
  then show ?thesis using snd_pcm_unlink_leaves [OF linked_world_groups g] by simp
qed

end
