(* ===== verification/Pcm_Ioctl_Laws.thy ===== *)
theory Pcm_Ioctl_Laws
  imports Pcm_Link
begin

text \<open>
  Properties of the ioctls: the boundary that \<open>snd_pcm_hw_params\<close> chooses, the resolution of the
  timer, and the moves of the application pointer.
\<close>

section \<open>The boundary\<close>

text \<open>The geometry of the ring that \<open>hw_params\<close> establishes.\<close>

definition geometry :: "runtime \<Rightarrow> bool" where
  "geometry r \<longleftrightarrow> rt_buffer_size r \<noteq> 0 \<and> unat (rt_buffer_size r) dvd unat (rt_boundary r) \<and>
     unat (rt_buffer_size r) \<le> unat (rt_boundary r) \<and>
     unat (rt_boundary r) + unat (rt_buffer_size r) < 2 ^ 63"

lemma ring_wf_geometry: "ring_wf r \<longleftrightarrow> geometry r \<and> rt_hw_ptr r < rt_boundary r \<and> rt_appl_ptr r < rt_boundary r"
  by (auto simp: ring_wf_def geometry_def)

lemma boundary_loop_result:
  assumes "bs \<noteq> 0" "unat b = unat bs * 2 ^ k" "unat b + unat bs < 2 ^ 63"
  shows "\<exists>b' k'. boundary_loop bs b = Some b' \<and> unat b' = unat bs * 2 ^ k' \<and> unat b' + unat bs < 2 ^ 63 \<and>
    2 ^ 63 \<le> 2 * unat b' + unat bs"
  using assms
proof (induction "2 ^ 63 - unat b" arbitrary: b k rule: less_induct)
  case less
  have bs: "0 < unat bs" using less.prems(1) by (simp add: unat_gt_0)
  have u2: "unat (b * 2) = 2 * unat b" using less.prems(3) by (subst unat_mult_nowrap) simp_all
  have ul: "unat (9223372036854775807 - bs) = 9223372036854775807 - unat bs"
    using less.prems(3) by (simp add: unat_sub_nowrap word_le_nat_alt)
  have cond: "b * 2 \<le> 9223372036854775807 - bs \<longleftrightarrow> 2 * unat b + unat bs < 2 ^ 63"
    using less.prems(3) by (auto simp: word_le_nat_alt u2 ul)
  show ?case
  proof (cases "2 * unat b + unat bs < 2 ^ 63")
    case True
    have pos: "0 < unat b" using less.prems(2) bs by simp
    have eq: "unat (b * 2) = unat bs * 2 ^ Suc k" using u2 less.prems(2) by simp
    have "2 ^ 63 - unat (b * 2) < 2 ^ 63 - unat b" using u2 pos True by simp
    from less.hyps [OF this less.prems(1) eq] show ?thesis
      using True cond by (subst boundary_loop.simps) (simp add: u2)
  next
    case False
    then show ?thesis using less.prems cond by (subst boundary_loop.simps) auto
  qed
qed


section \<open>The timer resolution\<close>

lemma fits_at_once:
  assumes "unat mult * unat fsize < 2 ^ 64" "fsize \<noteq> 0"
  shows "halve_until_fits fsize mult post = (mult, post)"
proof -
  have "unat ((mult * fsize) div fsize) = unat mult"
    using assms by (simp add: unat_div unat_mult_nowrap unat_gt_0)
  then have "(mult * fsize) div fsize = mult" by (simp add: word_unat_eq_iff)
  then show ?thesis by (subst halve_until_fits.simps) simp
qed

text \<open>
  The timer ticks once per period. For a rate and a period of at most 32 bits the resolution is
  the length of a period in nanoseconds, rounded down: reducing the fraction keeps all products
  within 64 bits and the loop against overflow is never entered.
\<close>

theorem timer_resolution_period:
  assumes "rate \<noteq> 0" "period \<noteq> 0" "unat period < 2 ^ 32"
  shows "\<exists>res. timer_resolution rate period = Some res \<and> unat res = 1000000000 * unat period div unat rate"
proof -
  let ?G = "1000000000 :: nat" and ?r = "unat rate" and ?p = "unat period"
  have pos: "0 < ?r" "0 < ?p" using assms by (simp_all add: unat_gt_0)
  define l where "l = gcd ?G ?r"
  define r1 where "r1 = ?r div l"
  define l2 where "l2 = gcd r1 ?p"
  have l: "0 < l" "l dvd ?G" "l dvd ?r" using pos by (simp_all add: l_def)
  have r1: "?r = r1 * l" "0 < r1" using l pos by (auto simp: r1_def dvd_div_eq_0_iff intro!: Nat.gr0I)
  have l2: "0 < l2" "l2 dvd r1" "l2 dvd ?p" using pos by (simp_all add: l2_def)
  define m f r2 where "m = ?G div l" and "f = ?p div l2" and "r2 = r1 div l2"
  have G: "?G = m * l" and p: "?p = f * l2" and r2: "r1 = r2 * l2"
    using l l2 by (simp_all add: m_def f_def r2_def)
  have r2pos: "0 < r2" using r1(2) r2 by (auto intro: Nat.gr0I)
  have fpos: "0 < f" using pos(2) p by (auto intro: Nat.gr0I)
  have mle: "m \<le> ?G" and fle: "f \<le> ?p" and "r2 \<le> r1" "r1 \<le> ?r"
    by (simp_all add: m_def f_def r2_def r1_def div_le_dividend)
  then have r2le: "r2 \<le> ?r" by simp
  have "m * f \<le> ?G * ?p" using mle fle by (rule mult_le_mono)
  also have "\<dots> < 2 ^ 64" using assms(3) by simp
  finally have mf: "m * f < 2 ^ 64" .
  have um: "unat (of_nat m :: u64) = m" using mle by (intro unat_of_nat64) linarith
  have "?p < 4294967296" using assms(3) by simp
  then have uf: "unat (of_nat f :: u64) = f" using fle by (intro unat_of_nat64) linarith
  have ur: "unat (of_nat r2 :: u64) = r2" using r2le unat_u32_lt [of rate] by (intro unat_of_nat64) linarith
  have fits: "halve_until_fits (of_nat f) (of_nat m) 1 = (of_nat m, 1)"
    by (rule fits_at_once) (use mf um uf fpos in \<open>auto simp: unat_eq_zero [symmetric] simp del: unat_eq_zero\<close>)
  have "timer_resolution rate period = Some ((of_nat m * of_nat f) div of_nat r2)"
    using assms(1,2) fits ur r2pos
    by (auto simp: timer_resolution_def Let_def m_def f_def r2_def r1_def l_def l2_def)
  moreover have "unat ((of_nat m * of_nat f) div of_nat r2 :: u64) = m * f div r2"
    using mf um uf ur by (simp add: unat_div unat_mult_nowrap)
  moreover have "?G * ?p div ?r = m * f div r2"
  proof -
    have "?G * ?p = (m * f) * (l * l2)" using G p by simp
    moreover have "?r = r2 * (l * l2)" using r1(1) r2 by simp
    moreover have "0 < l * l2" using l l2 by simp
    ultimately show ?thesis by (metis div_mult_mult2 nat_less_le)
  qed
  ultimately show ?thesis by simp
qed

section \<open>Rewinding and forwarding\<close>

text \<open>Moves of the application pointer as moves around the ring.\<close>

lemma rewind_ptr:
  assumes "ring_wf r" "unat n < unat (rt_boundary r)"
  defines "p \<equiv> rt_appl_ptr r - n"
  shows "int (unat (if sint p < 0 then p + rt_boundary r else p)) =
    (int (unat (rt_appl_ptr r)) - int (unat n)) mod int (unat (rt_boundary r))"
  using ptr_delta_mod(1) [OF assms(1) ring_bounds(6) [OF assms(1)] assms(2)]
  unfolding p_def ptr_delta_def Let_def .

lemma forward_ptr:
  assumes "ring_wf r" "unat n \<le> unat (rt_buffer_size r)"
  defines "p \<equiv> rt_appl_ptr r + n"
  shows "unat (if sint p \<ge> sint (rt_boundary r) then p - rt_boundary r else p) =
    (unat (rt_appl_ptr r) + unat n) mod unat (rt_boundary r)"
proof -
  note R = ring_bounds [OF assms(1)]
  have sum: "unat (rt_boundary r) + unat (rt_buffer_size r) < 2 ^ 63" using assms(1) by (simp add: ring_wf_def)
  have u: "unat p = unat (rt_appl_ptr r) + unat n"
    unfolding p_def using R(6) sum assms(2) by (intro unat_add_nowrap) simp
  have s: "sint (rt_boundary r) = int (unat (rt_boundary r))" "sint p = int (unat p)"
    using R(6) sum assms(2) by (simp_all add: sint_u64 u)
  show ?thesis
  proof (cases "unat p < unat (rt_boundary r)")
    case True
    then show ?thesis using s by (simp add: u)
  next
    case False
    then have "unat (p - rt_boundary r) = unat p - unat (rt_boundary r)" by (simp add: unat_sub_nowrap word_le_nat_alt)
    moreover have "unat p mod unat (rt_boundary r) = unat p - unat (rt_boundary r)"
      using False R(3,6) assms(2) by (simp add: u le_mod_geq)
    ultimately show ?thesis using False s by (simp add: u)
  qed
qed

lemma set_appl_ptr_simps [simp]:
  "rt (set_appl_ptr s p w) t = (if t = s then (rt w s)\<lparr>rt_appl_ptr := p\<rparr> else rt w t)"
  "playback (set_appl_ptr s p w) t = playback w t"
  by (simp_all add: set_appl_ptr_def)

lemma set_appl_ptr_twice [simp]: "set_appl_ptr s p (set_appl_ptr s q w) = set_appl_ptr s p w"
  by (simp add: set_appl_ptr_def upd_rt_def upd_sub_def)

lemma set_appl_ptr_same: "set_appl_ptr s (rt_appl_ptr (rt w s)) w = w"
  by (simp add: set_appl_ptr_def upd_rt_def upd_sub_def rt_def)

lemma avail_after_forward:
  assumes ring: "ring_wf r" and n: "unat n \<le> unat (snd_pcm_playback_avail r)"
    and p: "unat p = (unat (rt_appl_ptr r) + unat n) mod unat (rt_boundary r)"
  shows "ring_wf (r\<lparr>rt_appl_ptr := p\<rparr>)"
    "unat (snd_pcm_playback_avail (r\<lparr>rt_appl_ptr := p\<rparr>)) = unat (snd_pcm_playback_avail r) - unat n"
proof -
  let ?M = "unat (rt_boundary r)" and ?a = "int (unat (rt_appl_ptr r))"
    and ?x = "int (unat (rt_hw_ptr r)) + int (unat (rt_buffer_size r))"
  have M: "0 < ?M" using ring_bounds(2,3) [OF ring] by simp
  show ring': "ring_wf (r\<lparr>rt_appl_ptr := p\<rparr>)" using ring M by (simp add: ring_wf_def word_less_nat_alt p)
  have av: "int (unat (snd_pcm_playback_avail r)) = (?x - ?a) mod int ?M" by (rule playback_avail_mod [OF ring])
  have "int (unat (snd_pcm_playback_avail (r\<lparr>rt_appl_ptr := p\<rparr>))) = (?x - int (unat p)) mod int ?M"
    using playback_avail_mod [OF ring'] by simp
  also have "\<dots> = (?x - (?a + int (unat n))) mod int ?M" by (simp add: p zmod_int mod_diff_right_eq)
  also have "\<dots> = ((?x - ?a) mod int ?M - int (unat n)) mod int ?M" by (simp add: mod_diff_left_eq algebra_simps)
  also have "\<dots> = (int (unat (snd_pcm_playback_avail r)) - int (unat n)) mod int ?M" by (simp add: av)
  also have "\<dots> = int (unat (snd_pcm_playback_avail r)) - int (unat n)"
  proof -
    have "int (unat (snd_pcm_playback_avail r)) < int ?M" unfolding av using M by simp
    then show ?thesis using n by simp
  qed
  finally show "unat (snd_pcm_playback_avail (r\<lparr>rt_appl_ptr := p\<rparr>)) = unat (snd_pcm_playback_avail r) - unat n"
    using n by linarith
qed

text \<open>
  rewinding undoes forwarding. On a prepared playback stream, forwarding by at most the free part
  of the buffer moves the application pointer by as many frames around the boundary and shrinks the
  free part by as much; rewinding by the same number succeeds in full and gives back the very state
  from before.
\<close>

theorem snd_pcm_forward_rewind_roundtrip:
  assumes "ring_wf (rt w s)" "rt_state (rt w s) = S_PREPARED" "n \<noteq> 0"
    and "n \<le> snd_pcm_playback_avail (rt w s)" "snd_pcm_playback_avail (rt w s) \<le> rt_buffer_size (rt w s)"
  shows "\<exists>w'. snd_pcm_playback_forward ops s n w = Some (w', Inr n) \<and>
    unat (rt_appl_ptr (rt w' s)) = (unat (rt_appl_ptr (rt w s)) + unat n) mod unat (rt_boundary (rt w s)) \<and>
    snd_pcm_playback_avail (rt w' s) = snd_pcm_playback_avail (rt w s) - n \<and>
    snd_pcm_playback_rewind ops s n w' = Some (w, Inr n)"
proof -
  let ?r = "rt w s"
  note R = ring_bounds [OF assms(1)]
  have nav: "unat n \<le> unat (snd_pcm_playback_avail ?r)" "unat (snd_pcm_playback_avail ?r) \<le> unat (rt_buffer_size ?r)"
    using assms(4,5) by (simp_all add: word_le_nat_alt)
  have n0: "0 < unat n" using assms(3) by (simp add: unat_gt_0)
  have "int (unat (snd_pcm_playback_avail ?r)) < int (unat (rt_boundary ?r))"
    unfolding playback_avail_mod [OF assms(1)] using R(2,3) by simp
  then have nM: "unat n < unat (rt_boundary ?r)" using nav by simp
  define q where "q = rt_appl_ptr ?r + n"
  define p where "p = (if sint q \<ge> sint (rt_boundary ?r) then q - rt_boundary ?r else q)"
  have p: "unat p = (unat (rt_appl_ptr ?r) + unat n) mod unat (rt_boundary ?r)"
    unfolding p_def q_def by (rule forward_ptr [OF assms(1)]) (use nav in simp)
  have ring': "ring_wf (?r\<lparr>rt_appl_ptr := p\<rparr>)"
    and av': "unat (snd_pcm_playback_avail (?r\<lparr>rt_appl_ptr := p\<rparr>)) = unat (snd_pcm_playback_avail ?r) - unat n"
    using avail_after_forward [OF assms(1) nav(1) p] .
  have "\<not> sint (snd_pcm_playback_avail ?r) \<le> 0" using nav R(1) n0 by (auto simp: sint_u64)
  moreover have "\<not> n > snd_pcm_playback_avail ?r" using assms(4) by simp
  ultimately have fwd: "snd_pcm_playback_forward ops s n w = Some (set_appl_ptr s p w, Inr n)"
    using assms(2,3) by (simp add: snd_pcm_playback_forward_def checked_move_def forward_frames_def Let_def p_def q_def)
  have avw: "snd_pcm_playback_avail (?r\<lparr>rt_appl_ptr := p\<rparr>) = snd_pcm_playback_avail ?r - n"
    using av' assms(4) by (simp add: word_unat_eq_iff unat_sub_nowrap)
  define hw where "hw = snd_pcm_playback_hw_avail (?r\<lparr>rt_appl_ptr := p\<rparr>)"
  have "snd_pcm_playback_avail (?r\<lparr>rt_appl_ptr := p\<rparr>) \<le> rt_buffer_size ?r"
    using av' nav by (simp add: word_le_nat_alt)
  then have uhw: "unat hw = unat (rt_buffer_size ?r) - (unat (snd_pcm_playback_avail ?r) - unat n)"
    unfolding hw_def using hw_avail_bound(1) [of "?r\<lparr>rt_appl_ptr := p\<rparr>"] av' by simp
  have hpos: "\<not> sint hw \<le> 0" "\<not> n > hw"
    using uhw nav R(1) n0 by (auto simp: sint_u64 word_less_nat_alt)
  define q' where "q' = p - n"
  have "int (unat (if sint q' < 0 then q' + rt_boundary ?r else q')) =
      (int (unat p) - int (unat n)) mod int (unat (rt_boundary ?r))"
    using rewind_ptr [OF ring', of n] nM by (simp add: q'_def cong del: if_weak_cong)
  also have "\<dots> = int (unat (rt_appl_ptr ?r)) mod int (unat (rt_boundary ?r))"
    by (simp add: p zmod_int mod_diff_left_eq)
  also have "\<dots> = int (unat (rt_appl_ptr ?r))" using R(6) by simp
  finally have returns: "(if sint q' < 0 then q' + rt_boundary ?r else q') = rt_appl_ptr ?r"
    unfolding of_nat_eq_iff by (simp add: word_unat_eq_iff)
  have "snd_pcm_playback_rewind ops s n (set_appl_ptr s p w) = Some (w, Inr n)"
    using assms(2,3) hpos returns set_appl_ptr_same [of s w]
    by (auto simp: snd_pcm_playback_rewind_def checked_move_def rewind_frames_def Let_def simp flip: hw_def q'_def
        split: if_splits)
  then show ?thesis using fwd p avw by auto
qed

section \<open>The pointer exchange\<close>

text \<open>
  The application pointer is not checked. \<open>snd_pcm_sync_ptr\<close> stores any pointer that user space
  passes: one beyond the boundary is accepted and leaves a stream whose positions are outside the
  ring.
\<close>

theorem snd_pcm_sync_ptr_unchecked:
  "\<exists>w' q. snd_pcm_sync_ptr still_ops 0 \<lparr>sp_flags = 0, sp_appl_ptr = 20000, sp_avail_min = 1, sp_state = S_OPEN,
      sp_hw_ptr = 0, sp_tstamp = 0, sp_suspended_state = S_OPEN\<rparr> demo_world = Some (w', Inr q) \<and>
    \<not> ring_wf (rt w' 0) \<and> snd_pcm_playback_avail (rt w' 0) > rt_boundary (rt w' 0)"
proof -
  define p :: sync_ptr where "p = \<lparr>sp_flags = 0, sp_appl_ptr = 20000, sp_avail_min = 1, sp_state = S_OPEN,
      sp_hw_ptr = 0, sp_tstamp = 0, sp_suspended_state = S_OPEN\<rparr>"
  define w' where "w' = upd_rt 0 (\<lambda>r. r\<lparr>rt_avail_min := 1\<rparr>) (set_appl_ptr 0 20000 demo_world)"
  have "\<exists>q. snd_pcm_sync_ptr still_ops 0 p demo_world = Some (w', Inr q)"
    by (simp add: p_def w'_def snd_pcm_sync_ptr_def exchange_ptr_def Let_def)
  moreover have "rt w' 0 = demo_runtime\<lparr>rt_appl_ptr := 20000, rt_avail_min := 1\<rparr>" by (simp add: w'_def)
  then have "\<not> ring_wf (rt w' 0)" "snd_pcm_playback_avail (rt w' 0) > rt_boundary (rt w' 0)"
    by (simp_all add: ring_wf_def demo_runtime_def zero_runtime_def snd_pcm_playback_avail_def)
  ultimately show ?thesis unfolding p_def by blast
qed

section \<open>Witnesses\<close>

definition demo_params :: hw_params where
  "demo_params = zero_params\<lparr>hp_intervals := (\<lambda>_. zero_interval)(HW_PARAM_BUFFER_SIZE := zero_interval\<lparr>iv_min := 4096\<rparr>)\<rparr>"


theorem timer_resolution_period_witness:
  "\<exists>res. timer_resolution 44100 1024 = Some res \<and> unat res = 23219954"
  using timer_resolution_period [of 44100 1024] by simp

definition queue_world :: "unit pcm_world" where
  "queue_world = upd_rt 0 (\<lambda>r. r\<lparr>rt_hw_ptr := 7000, rt_appl_ptr := 8100, rt_hw_ptr_base := 4096\<rparr>) demo_world"

lemma rt_queue_world:
  "rt queue_world 0 = demo_runtime\<lparr>rt_hw_ptr := 7000, rt_appl_ptr := 8100, rt_hw_ptr_base := 4096\<rparr>"
  by (simp add: queue_world_def)

theorem snd_pcm_forward_rewind_roundtrip_witness:
  "\<exists>w'. snd_pcm_playback_forward still_ops 0 200 queue_world = Some (w', Inr 200) \<and>
    unat (rt_appl_ptr (rt w' 0)) = 108 \<and> snd_pcm_playback_rewind still_ops 0 200 w' = Some (queue_world, Inr 200)"
proof -
  have "\<exists>w'. snd_pcm_playback_forward still_ops 0 200 queue_world = Some (w', Inr 200) \<and>
    unat (rt_appl_ptr (rt w' 0)) = (unat (rt_appl_ptr (rt queue_world 0)) + unat (200 :: u64)) mod unat (rt_boundary (rt queue_world 0)) \<and>
    snd_pcm_playback_avail (rt w' 0) = snd_pcm_playback_avail (rt queue_world 0) - 200 \<and>
    snd_pcm_playback_rewind still_ops 0 200 w' = Some (queue_world, Inr 200)"
    by (rule snd_pcm_forward_rewind_roundtrip)
      (simp_all add: rt_queue_world ring_wf_def demo_runtime_def zero_runtime_def snd_pcm_playback_avail_def)
  then show ?thesis by (auto simp: rt_queue_world demo_runtime_def zero_runtime_def)
qed

end
