(* ===== verification/Pcm_Power.thy ===== *)
theory Pcm_Power
  imports Pcm_Ioctl_Laws
begin

text \<open>
  Suspending, resuming and pausing: \<open>snd_pcm_suspend_all\<close> reaches every stream, and two gaps of the
  state checks, in \<open>snd_pcm_resume\<close> and in \<open>snd_pcm_pause\<close>.
\<close>

section \<open>The suspend action\<close>

lemmas action_suspend_simps [simp] = snd_pcm_action_suspend_def [THEN arg_cong, of pre_action, simplified]
  snd_pcm_action_suspend_def [THEN arg_cong, of do_action, simplified]
  snd_pcm_action_suspend_def [THEN arg_cong, of undo_action, simplified]
  snd_pcm_action_suspend_def [THEN arg_cong, of post_action, simplified]

lemma pre_suspend_world: "fst (snd_pcm_pre_suspend s w) \<in> {w, set_trigger_master s w}"
  by (simp add: snd_pcm_pre_suspend_def)

lemma do_suspend_world: "fst (snd_pcm_do_suspend ops s w) = w \<or>
    rt_trigger_master (rt w s) = Some s \<and> fst (snd_pcm_do_suspend ops s w) = fst (call_trigger ops s TRIGGER_SUSPEND w)"
  by (simp add: snd_pcm_do_suspend_def)

text \<open>The completion of a suspend.\<close>

definition suspended :: "nat \<Rightarrow> 'h pcm_world \<Rightarrow> 'h pcm_world" where
  "suspended s w = wake_both s (upd_rt s (\<lambda>r. r\<lparr>rt_suspended_state := rt_state r, rt_state := S_SUSPENDED\<rparr>)
     (timer_notify s MSUSPEND w))"

lemma post_suspend_cases:
  "snd_pcm_post_suspend s w = Some w' \<Longrightarrow> \<exists>w1. snd_pcm_trigger_tstamp s w = Some w1 \<and> w' = suspended s w1"
  by (auto simp: snd_pcm_post_suspend_def Option.bind_eq_Some_conv suspended_def)

lemma suspended_frame: "pos_frame w (suspended s w)"
  unfolding suspended_def
  by (rule free_frame_trans [OF free_frame_trans [OF free_frame_timer_notify free_frame_upd_rt] free_frame_wake_both])
    (simp add: pos_free_def act_free_def)

lemma suspended_masters: "master_wf (suspended s w) = master_wf w"
  by (rule master_edges_cong) (simp add: suspended_def)

lemma post_suspend_frame: "snd_pcm_post_suspend s w = Some w' \<Longrightarrow> pos_frame w w'"
  by (auto dest!: post_suspend_cases intro: free_frame_trans [OF act_frame_pos [OF trigger_tstamp_frame] suspended_frame])

lemma post_suspend_state:
  "snd_pcm_post_suspend s w = Some w' \<Longrightarrow> rt_state (rt w' t) = (if t = s then S_SUSPENDED else rt_state (rt w t))"
  by (auto dest!: post_suspend_cases simp: suspended_def dest: act_frame_selectors(1) [OF trigger_tstamp_frame])

interpretation suspend: local_action "snd_pcm_action_suspend ops" "\<lambda>w s. rt_state (rt w s) = S_SUSPENDED"
    "\<lambda>w s. rt_state (rt w s) = S_SUSPENDED"
proof unfold_locales
  fix s t :: nat and w w' :: "'a pcm_world" and r u
  show "rt_state (rt w' t) = rt_state (rt w t)" if "do_action (snd_pcm_action_suspend ops) s w = Some (w', r)"
    using that do_suspend_world [of ops s w] by fastforce
qed (simp_all add: snd_pcm_pre_suspend_def post_suspend_state)

interpretation suspend_frame: action_invariant "snd_pcm_action_suspend ops" "pos_frame w0"
proof unfold_locales
  note trans = free_frame_trans and act = act_frame_pos
  fix s and w w' :: "'a pcm_world" and r u
  assume w: "pos_frame w0 w"
  show "pos_frame w0 (fst (pre_action (snd_pcm_action_suspend ops) s w))"
    using pre_suspend_world [of s w] w act [OF set_trigger_master_frame] trans by fastforce
  show "pos_frame w0 w'" if "do_action (snd_pcm_action_suspend ops) s w = Some (w', r)"
    using that do_suspend_world [of ops s w] w call_trigger_frame [THEN act] trans by fastforce
  show "pos_frame w0 w'" if "post_action (snd_pcm_action_suspend ops) s w = Some w'"
    using that post_suspend_frame w trans by fastforce
qed simp

sublocale marking_driver \<subseteq> suspend_total: action_total "snd_pcm_action_suspend ops" master_wf
proof unfold_locales
  fix s and w w' :: "'h pcm_world" and r u
  assume w: "master_wf w"
  show "master_wf (fst (pre_action (snd_pcm_action_suspend ops) s w))"
    using pre_suspend_world [of s w] w set_trigger_master_wf by auto
  show "master_wf w'" if "do_action (snd_pcm_action_suspend ops) s w = Some (w', r)"
    using that do_suspend_world [of ops s w] w call_wf by fastforce
  show "master_wf w'" if "post_action (snd_pcm_action_suspend ops) s w = Some w'"
    using that post_suspend_cases [of s w w'] w trigger_tstamp_wf suspended_masters by fastforce
  show "post_action (snd_pcm_action_suspend ops) s w \<noteq> None"
    using trigger_tstamp_total [OF w, of s] by (auto simp: snd_pcm_post_suspend_def)
qed simp_all

context marking_driver
begin

lemma suspend_returns: "master_wf w \<Longrightarrow> \<exists>w' r. snd_pcm_suspend ops s w = Some (w', r) \<and> master_wf w'"
  unfolding snd_pcm_suspend_def by (rule suspend_total.action_total)

end

interpretation suspend: unfailing_action "snd_pcm_action_suspend ops" "\<lambda>w s. rt_state (rt w s) = S_SUSPENDED"
    "\<lambda>w s. rt_state (rt w s) = S_SUSPENDED"
  by unfold_locales (auto simp: snd_pcm_do_suspend_def split: if_splits)

text \<open>The only error of a suspend is that a stream of the group is suspended already.\<close>

lemma suspend_error: "snd_pcm_suspend ops s w = Some (w', Inl e) \<Longrightarrow> e = EBUSY"
  unfolding snd_pcm_suspend_def
  by (drule suspend.action_error) (auto simp: snd_pcm_pre_suspend_def split: if_splits)

section \<open>Suspending all streams\<close>

text \<open>In every group all streams are suspended, or none.\<close>

definition suspend_uniform :: "'h pcm_world \<Rightarrow> bool" where
  "suspend_uniform w \<longleftrightarrow> (\<forall>s. \<forall>t\<in>set (group_members w s).
     rt_state (rt w t) = S_SUSPENDED \<longleftrightarrow> rt_state (rt w s) = S_SUSPENDED)"

lemma suspend_group:
  assumes drv: "marking_driver ops" and m: "master_wf w" and g: "groups_wf w" and u: "suspend_uniform w"
  shows "\<exists>w' r. snd_pcm_suspend ops s w = Some (w', r) \<and> r \<in> {Inr (), Inl EBUSY} \<and> master_wf w' \<and> pos_frame w w' \<and>
    (\<forall>t. rt_state (rt w' t) = (if t \<in> set (group_members w s) then S_SUSPENDED else rt_state (rt w t)))"
proof -
  obtain w' r where s: "snd_pcm_suspend ops s w = Some (w', r)" and m': "master_wf w'"
    using marking_driver.suspend_returns [OF drv m] by blast
  note a = s [unfolded snd_pcm_suspend_def]
  have p: "pos_frame w w'" by (rule suspend_frame.action_inv [OF free_frame_refl a])
  have in_own: "s \<in> set (group_members w s)"
    using groups_wf_own [OF g, of s] by (cases "ss_group (w_subs w s)") (simp_all add: group_members_def own_ok_def)
  have "rt_state (rt w' t) = (if t \<in> set (group_members w s) then S_SUSPENDED else rt_state (rt w t))" for t
  proof (cases r)
    case (Inr x)
    then show ?thesis using suspend.action_reaches [of ops s w w'] suspend.action_outside [OF a] a by auto
  next
    case (Inl e)
    have susp: "rt_state (rt w s) = S_SUSPENDED"
    proof (rule ccontr)
      assume n: "rt_state (rt w s) \<noteq> S_SUSPENDED"
      then have "\<forall>t\<in>set (group_members w s). rt_state (rt w t) \<noteq> S_SUSPENDED" using u by (simp add: suspend_uniform_def)
      then have "r = Inr ()" by (rule suspend.action_succeeds [OF a])
      then show False using Inl by simp
    qed
    then have "\<forall>u. rt_state (rt w' u) = rt_state (rt w u)"
      using suspend.action_refused [OF in_own susp, of ops] a by auto
    then show ?thesis using u susp by (simp add: suspend_uniform_def)
  qed
  then show ?thesis using s m' p suspend_error [of ops s w w'] by (cases r) auto
qed

text \<open>
  C29: suspending a device reaches every stream. On a driver that marks only streams served by the
  triggered one, when groups partition the streams and are suspended as a whole or not at all,
  \<open>snd_pcm_suspend_all\<close> returns with success, whatever the driver answers: every listed stream and
  every stream linked to one is in state \<open>SUSPENDED\<close>, the others keep their state, and positions
  and configuration stay.
\<close>

theorem snd_pcm_suspend_all_suspends:
  assumes "marking_driver ops" "master_wf w" "groups_wf w" "suspend_uniform w"
  shows "\<exists>w'. snd_pcm_suspend_all ops ss w = Some (w', Inr ()) \<and> pos_frame w w' \<and>
    (\<forall>t. rt_state (rt w' t) = (if \<exists>s\<in>set ss. t \<in> set (group_members w s) then S_SUSPENDED else rt_state (rt w t)))"
  using assms
proof (induction ss arbitrary: w)
  case (Cons s ss)
  obtain w1 r where s: "snd_pcm_suspend ops s w = Some (w1, r)" and r: "r \<in> {Inr (), Inl EBUSY}"
    and m1: "master_wf w1" and p1: "pos_frame w w1"
    and st: "\<And>t. rt_state (rt w1 t) = (if t \<in> set (group_members w s) then S_SUSPENDED else rt_state (rt w t))"
    using suspend_group [OF Cons.prems, of s] by blast
  note same = free_frame_subs(4) [OF p1]
  have g1: "groups_wf w1"
    using Cons.prems(3) p1 free_frame_subs(2) [OF p1]
    by (simp add: groups_wf_def own_ok_def list_ok_def free_frame_def cong: group_id.case_cong)
  have u1: "suspend_uniform w1"
    unfolding suspend_uniform_def
  proof (intro allI ballI)
    fix a t
    assume t: "t \<in> set (group_members w1 a)"
    then have "group_members w t = group_members w a" "a \<in> set (group_members w a)"
      using groups_wf_members [OF Cons.prems(3), of t a] by (simp_all add: same)
    then have "t \<in> set (group_members w s) \<longleftrightarrow> a \<in> set (group_members w s)"
      using groups_wf_members(1) [OF Cons.prems(3)] t same by metis
    then show "rt_state (rt w1 t) = S_SUSPENDED \<longleftrightarrow> rt_state (rt w1 a) = S_SUSPENDED"
      using Cons.prems(4) t by (simp add: st same suspend_uniform_def)
  qed
  obtain w' where w': "snd_pcm_suspend_all ops ss w1 = Some (w', Inr ())" and p': "pos_frame w1 w'"
    and st': "\<And>t. rt_state (rt w' t) = (if \<exists>s\<in>set ss. t \<in> set (group_members w1 s) then S_SUSPENDED else rt_state (rt w1 t))"
    using Cons.IH [OF Cons.prems(1) m1 g1 u1] by blast
  have "snd_pcm_suspend_all ops (s # ss) w = Some (w', Inr ())" using s r w' by auto
  moreover have "pos_frame w w'" using p1 p' by (rule free_frame_trans)
  ultimately show ?case by (auto simp: st' st same)
qed simp

text \<open>Two linked streams and a third one.\<close>

theorem snd_pcm_suspend_all_suspends_witness:
  "\<exists>w'. snd_pcm_suspend_all still_ops [0, 1] (linked_to 0 0 1 [0] demo_world) = Some (w', Inr ()) \<and>
    rt_state (rt w' 0) = S_SUSPENDED \<and> rt_state (rt w' 1) = S_SUSPENDED \<and> rt_state (rt w' 2) = S_PREPARED"
proof -
  let ?w = "linked_to 0 0 1 [0] demo_world"
  have members: "group_members ?w t = (if t < 2 then [0, 1] else [t])" for t
    by (auto simp: group_members_def)
  have rt: "rt ?w t = demo_runtime" for t
    using rt_demo_world by (simp add: linked_to_def set_group_def set_members_def upd_sub_def rt_def)
  have m: "master_wf ?w" by (simp add: master_wf_def master_edges_def rt demo_runtime_def zero_runtime_def del: One_nat_def)
  have "suspend_uniform ?w" by (simp add: suspend_uniform_def rt demo_runtime_def del: One_nat_def)
  from snd_pcm_suspend_all_suspends [OF still.marking_driver_axioms m linked_world_groups this, of "[0, 1]"]
  show ?thesis by (auto simp: members rt demo_runtime_def simp del: One_nat_def)
qed

section \<open>Resuming a stream that is not suspended\<close>

lemma hardware_kept [simp]:
  "w_hw (timer_notify s e w) = w_hw w" "w_hw (wake_both s w) = w_hw w"
  "snd_pcm_stream_linked (w\<lparr>w_hw := h\<rparr>) s = snd_pcm_stream_linked w s"
  by (simp_all add: timer_notify_def wake_both_def snd_pcm_stream_linked_def)

lemma trigger_tstamp_self:
  "rt_trigger_master (rt w s) = Some s \<Longrightarrow> snd_pcm_trigger_tstamp s w =
    Some (upd_rt s (\<lambda>r. r\<lparr>rt_trigger_tstamp := snd_pcm_gettime w s, rt_trigger_master := None\<rparr>) w)"
  by (subst snd_pcm_trigger_tstamp.simps) simp

lemma trigger_tstamp_none: "rt_trigger_master (rt w s) = None \<Longrightarrow> snd_pcm_trigger_tstamp s w = Some w"
  by (subst snd_pcm_trigger_tstamp.simps) simp

text \<open>
  resuming does not look at the state. For a single stream whose hardware can resume, in any
  state, when the state saved by an earlier suspend is neither \<open>RUNNING\<close> nor \<open>DRAINING\<close>,
  \<open>snd_pcm_resume\<close> succeeds, calls no trigger and gives the stream the saved state. A running
  stream that was never suspended is thereby \<open>OPEN\<close>, while its hardware runs on.
\<close>

theorem snd_pcm_resume_unguarded:
  assumes "rt_info (rt w s) AND INFO_RESUME \<noteq> 0" "\<not> snd_pcm_stream_linked w s"
    and "rt_suspended_state (rt w s) \<notin> {S_RUNNING, S_DRAINING}"
  shows "\<exists>w'. snd_pcm_resume ops (Inr ()) s w = Some (w', Inr ()) \<and> w_hw w' = w_hw w \<and>
    rt_state (rt w' s) = rt_suspended_state (rt w s)"
  using assms
  by (simp add: snd_pcm_resume_def snd_pcm_action_lock_irq_def snd_pcm_action_single_def snd_pcm_action_resume_def
      snd_pcm_pre_resume_def snd_pcm_do_resume_def was_running_def snd_pcm_post_resume_def
      trigger_tstamp_self set_trigger_master_def)

theorem snd_pcm_resume_unguarded_witness:
  "\<exists>w'. snd_pcm_resume still_ops (Inr ()) 0
      (upd_rt 0 (\<lambda>r. r\<lparr>rt_info := INFO_RESUME, rt_state := S_RUNNING\<rparr>) demo_world) = Some (w', Inr ()) \<and>
    rt_state (rt w' 0) = S_OPEN"
proof -
  define w where "w = upd_rt 0 (\<lambda>r. r\<lparr>rt_info := INFO_RESUME, rt_state := S_RUNNING\<rparr>) demo_world"
  have "\<exists>w'. snd_pcm_resume still_ops (Inr ()) 0 w = Some (w', Inr ()) \<and> w_hw w' = w_hw w \<and>
      rt_state (rt w' 0) = rt_suspended_state (rt w 0)"
    by (rule snd_pcm_resume_unguarded)
      (simp_all add: w_def, simp add: demo_runtime_def zero_runtime_def)
  moreover have "rt_suspended_state (rt w 0) = S_OPEN" by (simp add: w_def demo_runtime_def zero_runtime_def)
  ultimately show ?thesis by (auto simp: w_def)
qed

section \<open>Pausing over an overrun\<close>

text \<open>
  a pause hides an overrun. When the driver reports an overrun at the position update at the
  beginning of \<open>snd_pcm_pause\<close>, the stream is stopped, but the pause goes on: the driver is told to
  pause the stopped hardware, and the stream ends in \<open>PAUSED\<close>, from where a release makes it
  \<open>RUNNING\<close> without a start.
\<close>

theorem snd_pcm_pause_hides_xrun:
  assumes "rt_state (rt w s) = S_RUNNING" "rt_info (rt w s) AND INFO_PAUSE \<noteq> 0" "\<not> snd_pcm_stream_linked w s"
    and "op_pointer ops s (w_hw w) = (h, ULONG_MAX, None)"
    and "op_trigger ops s TRIGGER_STOP h = (h1, [], r1)" "op_trigger ops s TRIGGER_PAUSE_PUSH h1 = (h2, [], Inr ())"
  shows "\<exists>w'. snd_pcm_pause ops s True w = Some (w', Inr ()) \<and> rt_state (rt w' s) = S_PAUSED \<and> w_hw w' = h2"
  using assms
  by (simp add: snd_pcm_pause_def snd_pcm_action_def snd_pcm_action_single_def snd_pcm_action_pause_def
      snd_pcm_pre_pause_def snd_pcm_do_pause_def snd_pcm_post_pause_def snd_pcm_update_hw_ptr_def
      snd_pcm_update_hw_ptr0_def call_pointer_def Let_def xrun_def snd_pcm_stop_def snd_pcm_pre_stop_def
      snd_pcm_do_stop_def snd_pcm_post_stop_def snd_pcm_running_def call_trigger_def trigger_tstamp_self
      trigger_tstamp_none set_trigger_master_def)

text \<open>A driver that reports an overrun and keeps the commands it was given.\<close>

definition broken_ops :: "trigger_cmd list pcm_ops" where
  "broken_ops = \<lparr>op_trigger = (\<lambda>_ c h. (h @ [c], [], Inr ())), op_prepare = (\<lambda>_ h. (h, Inr ())),
     op_pointer = (\<lambda>_ h. (h, ULONG_MAX, None)), op_wall_clock = None, op_copy = None, op_silence = None, op_ack = None, op_reset = None,
     op_hw_params = None, op_hw_free = None, k_HZ = 1000, k_jiffies_check = False, k_stack_time = 0\<rparr>"

definition broken_world :: "trigger_cmd list pcm_world" where
  "broken_world = \<lparr>w_subs = (\<lambda>k. \<lparr>ss_playback = True, ss_rt = demo_runtime\<lparr>rt_state := S_RUNNING, rt_info := INFO_PAUSE\<rparr>,
       ss_group = Self k, ss_f_nonblock = False, ss_has_timer = False, ss_timer_running = False, ss_mmap_count = 0,
       ss_buffer_bytes_max = 65536\<rparr>),
     w_groups = (\<lambda>_. []), w_group_count = (\<lambda>_. 0), w_hw = [], w_jiffies = 0, w_monotonic = 0, w_realtime = 0,
     w_effects = []\<rparr>"

theorem snd_pcm_pause_hides_xrun_witness:
  "\<exists>w'. snd_pcm_pause broken_ops 0 True broken_world = Some (w', Inr ()) \<and> rt_state (rt w' 0) = S_PAUSED \<and>
    w_hw w' = [TRIGGER_STOP, TRIGGER_PAUSE_PUSH]"
  by (rule snd_pcm_pause_hides_xrun [where h = "[]"])
    (simp_all add: broken_world_def broken_ops_def rt_def snd_pcm_stream_linked_def)

end
