(* ===== verification/Pcm_Transfer.thy ===== *)
theory Pcm_Transfer
  imports Pcm_Power
begin

text \<open>
  Reading and writing frames: \<open>snd_pcm_lib_write\<close>, \<open>snd_pcm_lib_read\<close> and their vector variants from
  \<open>sound/core/pcm_lib.c\<close>. User memory is the list of the bytes behind the user's pointer up to the
  first that cannot be accessed; a vector of buffers is a function from channels. The stream lock is
  dropped while frames are copied and while the caller sleeps: a \<open>release\<close> says what the rest of
  the system does in between. A call consumes one for every chunk it copies and for every round it
  sleeps; its result is \<open>None\<close> when it has not returned after the given ones.
\<close>

record 'h release =
  rl_signal :: bool
  rl_others :: "'h pcm_world \<Rightarrow> 'h pcm_world"
  rl_timeout :: bool

section \<open>User memory\<close>

text \<open>What arrives when \<open>n\<close> bytes are copied from user memory: unreadable bytes are zero.\<close>

definition copy_from_user :: "u8 list \<Rightarrow> nat \<Rightarrow> u8 list \<times> bool" where
  "copy_from_user mem n = (take n mem @ replicate (n - length mem) 0, n \<le> length mem)"

definition copy_to_user :: "u8 list \<Rightarrow> u8 list \<Rightarrow> u8 list \<times> bool" where
  "copy_to_user mem bs = (take (length mem) bs @ drop (length bs) mem, length bs \<le> length mem)"

section \<open>Waiting for frames\<close>

fun wait_for_avail :: "nat \<Rightarrow> 'h release list \<Rightarrow> 'h pcm_world \<Rightarrow>
    ('h pcm_world \<times> u64 res \<times> 'h release list) option" where
  "wait_for_avail s [] w = None"
| "wait_for_avail s (d # ds) w =
     (if rl_signal d then Some (w, Inl ERESTARTSYS, ds)
      else if stream_avail w s \<ge> rt_twake (rt w s) then Some (w, Inr (stream_avail w s), ds)
      else
        let w1 = rl_others d w
        in case rt_state (rt w1 s) of
             S_SUSPENDED \<Rightarrow> Some (w1, Inl ESTRPIPE, ds)
           | S_XRUN \<Rightarrow> Some (w1, Inl EPIPE, ds)
           | S_DRAINING \<Rightarrow> Some (w1, if playback w1 s then Inl EPIPE else Inr 0, ds)
           | S_OPEN \<Rightarrow> Some (w1, Inl EBADFD, ds)
           | S_SETUP \<Rightarrow> Some (w1, Inl EBADFD, ds)
           | S_DISCONNECTED \<Rightarrow> Some (w1, Inl EBADFD, ds)
           | _ \<Rightarrow> if rl_timeout d then Some (w1, Inl EIO, ds) else wait_for_avail s ds w1)"

section \<open>Copying a chunk\<close>

text \<open>Copies \<open>frames\<close> frames between offset \<open>hwoff\<close> of the ring and offset \<open>off\<close> of the user's data.\<close>

type_synonym ('h, 'm) transfer =
  "nat \<Rightarrow> u32 \<Rightarrow> u32 \<Rightarrow> u64 \<Rightarrow> 'h pcm_world \<times> 'm \<Rightarrow> 'h pcm_world \<times> 'm \<times> unit res"

definition put_bytes :: "nat \<Rightarrow> u8 list \<Rightarrow> runtime \<Rightarrow> runtime" where
  "put_bytes off bs = write_area off (\<lambda>rest. bs @ drop (length bs) rest)"

definition get_bytes :: "nat \<Rightarrow> nat \<Rightarrow> runtime \<Rightarrow> u8 list" where
  "get_bytes off n r = take n (drop off (rt_dma_area r))"

definition snd_pcm_lib_write_transfer :: "'h pcm_ops \<Rightarrow> ('h, u8 list) transfer" where
  "snd_pcm_lib_write_transfer ops s hwoff off frames = (\<lambda>(w, mem).
     let r = rt w s; buf = drop (unat (frames_to_bytes r (ucast off))) mem
     in case op_copy ops of
          Some f \<Rightarrow> (let (h, _, res) = f s (-1) (ucast hwoff) buf frames (w_hw w) in (w\<lparr>w_hw := h\<rparr>, mem, res))
        | None \<Rightarrow>
            let (bs, ok) = copy_from_user buf (unat (frames_to_bytes r frames))
            in (upd_rt s (put_bytes (unat (frames_to_bytes r (ucast hwoff))) bs) w, mem,
                if ok then Inr () else Inl EFAULT))"

definition snd_pcm_lib_read_transfer :: "'h pcm_ops \<Rightarrow> ('h, u8 list) transfer" where
  "snd_pcm_lib_read_transfer ops s hwoff off frames = (\<lambda>(w, mem).
     let r = rt w s; n = unat (frames_to_bytes r (ucast off)); buf = drop n mem
     in case op_copy ops of
          Some f \<Rightarrow>
            (let (h, buf', res) = f s (-1) (ucast hwoff) buf frames (w_hw w)
             in (w\<lparr>w_hw := h\<rparr>, take n mem @ buf', res))
        | None \<Rightarrow>
            let (buf', ok) = copy_to_user buf
                  (get_bytes (unat (frames_to_bytes r (ucast hwoff))) (unat (frames_to_bytes r frames)) r)
            in (w, take n mem @ buf', if ok then Inr () else Inl EFAULT))"

text \<open>One channel after the other, until one fails.\<close>

fun each_channel :: "(nat \<Rightarrow> 'w \<Rightarrow> 'w \<times> unit res) \<Rightarrow> nat list \<Rightarrow> 'w \<Rightarrow> 'w \<times> unit res" where
  "each_channel f [] w = (w, Inr ())"
| "each_channel f (c # cs) w =
     (case f c w of
        (w1, Inl e) \<Rightarrow> (w1, Inl e)
      | (w1, Inr _) \<Rightarrow> each_channel f cs w1)"

definition snd_pcm_lib_writev_transfer :: "'h pcm_ops \<Rightarrow> ('h, nat \<Rightarrow> u8 list option) transfer" where
  "snd_pcm_lib_writev_transfer ops s hwoff off frames = (\<lambda>(w, bufs).
     let r = rt w s; n = unat (samples_to_bytes r (ucast off)); channels = [0..<unat (rt_channels r)]
     in case op_copy ops of
          Some copy \<Rightarrow>
            (case op_silence ops of
               None \<Rightarrow> (w, bufs, Inl EINVAL)
             | Some silence \<Rightarrow>
                 let (w1, res) = each_channel (\<lambda>c w.
                       case bufs c of
                         None \<Rightarrow> (let (h, res) = silence s (int c) (ucast hwoff) frames (w_hw w) in (w\<lparr>w_hw := h\<rparr>, res))
                       | Some b \<Rightarrow>
                           (let (h, _, res) = copy s (int c) (ucast hwoff) (drop n b) frames (w_hw w)
                            in (w\<lparr>w_hw := h\<rparr>, res))) channels w
                 in (w1, bufs, res))
        | None \<Rightarrow>
            let dma_csize = rt_dma_bytes r div ucast (rt_channels r);
                (w1, res) = each_channel (\<lambda>c w.
                  let hwbuf = of_nat c * dma_csize + samples_to_bytes r (ucast hwoff)
                  in case bufs c of
                       None \<Rightarrow> (upd_rt s (set_silence_at hwbuf (ucast frames)) w, Inr ())
                     | Some b \<Rightarrow>
                         let (bs, ok) = copy_from_user (drop n b) (unat (samples_to_bytes r frames))
                         in (upd_rt s (put_bytes (unat hwbuf) bs) w, if ok then Inr () else Inl EFAULT)) channels w
            in (w1, bufs, res))"

definition snd_pcm_lib_readv_transfer :: "'h pcm_ops \<Rightarrow> ('h, nat \<Rightarrow> u8 list option) transfer" where
  "snd_pcm_lib_readv_transfer ops s hwoff off frames = (\<lambda>(w, bufs).
     let r = rt w s; n = unat (samples_to_bytes r (ucast off)); channels = [0..<unat (rt_channels r)];
         dma_csize = rt_dma_bytes r div ucast (rt_channels r);
         ((w1, bufs1), res) = each_channel (\<lambda>c (w, bufs).
           case bufs c of
             None \<Rightarrow> ((w, bufs), Inr ())
           | Some b \<Rightarrow>
               (case op_copy ops of
                  Some f \<Rightarrow>
                    (let (h, buf', res) = f s (int c) (ucast hwoff) (drop n b) frames (w_hw w)
                     in ((w\<lparr>w_hw := h\<rparr>, bufs(c := Some (take n b @ buf'))), res))
                | None \<Rightarrow>
                    let hwbuf = of_nat c * dma_csize + samples_to_bytes r (ucast hwoff);
                        (buf', ok) = copy_to_user (drop n b) (get_bytes (unat hwbuf) (unat (samples_to_bytes r frames)) r)
                    in ((w, bufs(c := Some (take n b @ buf'))), if ok then Inr () else Inl EFAULT))) channels (w, bufs)
     in (w1, bufs1, res))"

text \<open>The frames up to the end of the data, of the space and of the buffer.\<close>

definition chunk_frames :: "runtime \<Rightarrow> u64 \<Rightarrow> u64 \<Rightarrow> u64" where
  "chunk_frames r size_left avail =
     (let frames = (if size_left > avail then avail else size_left);
          cont = rt_buffer_size r - rt_appl_ptr r mod rt_buffer_size r
      in if frames > cont then cont else frames)"

definition advance_appl_ptr :: "runtime \<Rightarrow> u64 \<Rightarrow> u64 \<Rightarrow> u64" where
  "advance_appl_ptr r appl_ptr frames =
     (if appl_ptr + frames \<ge> rt_boundary r then appl_ptr + frames - rt_boundary r else appl_ptr + frames)"

text \<open>Copies a chunk with the lock dropped and moves the application pointer.\<close>

definition transfer_chunk :: "'h pcm_ops \<Rightarrow> ('h, 'm) transfer \<Rightarrow> nat \<Rightarrow> u64 \<Rightarrow> u64 \<Rightarrow> ('h pcm_world \<Rightarrow> 'h pcm_world) \<Rightarrow>
    'h pcm_world \<times> 'm \<Rightarrow> 'h pcm_world \<times> 'm \<times> unit res" where
  "transfer_chunk ops transfer s off frames others = (\<lambda>(w, m).
     let appl_ptr = rt_appl_ptr (rt w s);
         (w1, m1, res) = transfer s (ucast (appl_ptr mod rt_buffer_size (rt w s))) (ucast off) frames (w, m);
         w2 = others w1
     in case res of
          Inl e \<Rightarrow> (w2, m1, Inl e)
        | Inr _ \<Rightarrow>
            if rt_state (rt w2 s) = S_XRUN then (w2, m1, Inl EPIPE)
            else if rt_state (rt w2 s) = S_SUSPENDED then (w2, m1, Inl ESTRPIPE)
            else
              let w3 = set_appl_ptr s (advance_appl_ptr (rt w2 s) appl_ptr frames) w2
              in (case op_ack ops of None \<Rightarrow> w3 | Some f \<Rightarrow> w3\<lparr>w_hw := f s (w_hw w3)\<rparr>, m1, Inr ()))"

lemma chunk_frames_le: "chunk_frames r n avail \<le> n" "chunk_frames r n avail \<le> avail"
  by (auto simp: chunk_frames_def Let_def)

section \<open>Writing\<close>

definition set_twake :: "nat \<Rightarrow> u64 \<Rightarrow> 'h pcm_world \<Rightarrow> 'h pcm_world" where
  "set_twake s n = upd_rt s (\<lambda>r. r\<lparr>rt_twake := n\<rparr>)"

definition avail_min_or_1 :: "runtime \<Rightarrow> u64" where
  "avail_min_or_1 r = (if rt_avail_min r = 0 then 1 else rt_avail_min r)"

text \<open>The wait at the beginning of a round without free frames.\<close>

definition wait_for_space :: "bool \<Rightarrow> nat \<Rightarrow> 'h release list \<Rightarrow> u64 \<Rightarrow> 'h pcm_world \<Rightarrow>
    ('h pcm_world \<times> u64 res \<times> 'h release list) option" where
  "wait_for_space nonblock s ds size_left w =
     (if nonblock then Some (w, Inl EAGAIN, ds)
      else wait_for_avail s ds (set_twake s (min size_left (avail_min_or_1 (rt w s))) w))"

definition auto_start :: "'h pcm_ops \<Rightarrow> nat \<Rightarrow> 'h pcm_world \<Rightarrow> ('h pcm_world \<times> unit res) option" where
  "auto_start ops s w =
     (if rt_state (rt w s) = S_PREPARED \<and>
         sint (snd_pcm_playback_hw_avail (rt w s)) \<ge> sint (rt_start_threshold (rt w s))
      then snd_pcm_start ops s w else Some (w, Inr ()))"

text \<open>
  The loop of \<open>snd_pcm_lib_write1\<close>. \<open>offset\<close> and \<open>xfer\<close> of the code are equal in every round. The
  result holds the frames written and the error at the end, or \<open>None\<close> for the frames when the loop
  leaves at \<open>snd_BUG_ON(!frames)\<close>.
\<close>

function write_loop :: "'h pcm_ops \<Rightarrow> ('h, 'm) transfer \<Rightarrow> bool \<Rightarrow> nat \<Rightarrow> 'h release list \<Rightarrow> u64 \<Rightarrow> u64 \<Rightarrow> u64 \<Rightarrow>
    'h pcm_world \<Rightarrow> 'm \<Rightarrow> ('h pcm_world \<times> 'm \<times> (u64 \<times> unit res) option \<times> 'h release list) option" where
  "write_loop ops transfer nonblock s ds size_left xfer avail w m =
     (if size_left = 0 then Some (w, m, Some (xfer, Inr ()), ds)
      else case (if avail = 0 then wait_for_space nonblock s ds size_left w else Some (w, Inr avail, ds)) of
        None \<Rightarrow> None
      | Some (w1, Inl e, ds1) \<Rightarrow> Some (w1, m, Some (xfer, Inl e), ds1)
      | Some (w1, Inr avail1, ds1) \<Rightarrow>
          let frames = chunk_frames (rt w1 s) size_left avail1
          in if frames = 0 then Some (set_twake s 0 w1, m, None, ds1)
             else case ds1 of
               [] \<Rightarrow> None
             | d # ds2 \<Rightarrow>
                 (case transfer_chunk ops transfer s xfer frames (rl_others d) (w1, m) of
                    (w2, m2, Inl e) \<Rightarrow> Some (w2, m2, Some (xfer, Inl e), ds2)
                  | (w2, m2, Inr _) \<Rightarrow>
                      (case auto_start ops s w2 of
                         None \<Rightarrow> None
                       | Some (w3, Inl e) \<Rightarrow> Some (w3, m2, Some (xfer + frames, Inl e), ds2)
                       | Some (w3, Inr _) \<Rightarrow>
                           write_loop ops transfer nonblock s ds2 (size_left - frames) (xfer + frames)
                             (avail1 - frames) w3 m2)))"
  by pat_completeness auto

lemma chunk_frames_shrinks:
  assumes "chunk_frames r n avail \<noteq> 0"
  shows "unat (n - chunk_frames r n avail) < unat n"
proof -
  have "0 < unat (chunk_frames r n avail)" using assms by (simp add: unat_gt_0)
  then show ?thesis using chunk_frames_le(1) [of r n avail] by (simp add: unat_sub_nowrap word_le_nat_alt)
qed

termination write_loop
  by (relation "measure (\<lambda>(ops, transfer, nonblock, s, ds, size_left, xfer, avail, w, m). unat size_left)")
    (simp_all add: chunk_frames_shrinks)

declare write_loop.simps [simp del]

text \<open>A running stream is brought up to date first; the result of the update is not looked at.\<close>

definition refresh_position :: "'h pcm_ops \<Rightarrow> nat \<Rightarrow> 'h pcm_world \<Rightarrow> 'h pcm_world option" where
  "refresh_position ops s w =
     (let w1 = set_twake s (avail_min_or_1 (rt w s)) w
      in if rt_state (rt w1 s) = S_RUNNING then map_option fst (snd_pcm_update_hw_ptr ops s w1) else Some w1)"

text \<open>The end of both functions: the frames transferred, or the error when there are none.\<close>

definition end_transfer :: "'h pcm_ops \<Rightarrow> nat \<Rightarrow> u64 \<Rightarrow> unit res \<Rightarrow> 'h pcm_world \<Rightarrow> ('h pcm_world \<times> u64 res) option" where
  "end_transfer ops s xfer res w =
     (let w1 = set_twake s 0 w
      in map_option (\<lambda>w2. (w2, if xfer > 0 then Inr xfer else case res of Inl e \<Rightarrow> Inl e | Inr _ \<Rightarrow> Inr 0))
           (if xfer > 0 \<and> \<not> isl res then map_option fst (snd_pcm_update_state ops s w1) else Some w1))"

definition snd_pcm_lib_write1 :: "'h pcm_ops \<Rightarrow> ('h, 'm) transfer \<Rightarrow> bool \<Rightarrow> nat \<Rightarrow> 'h release list \<Rightarrow> u64 \<Rightarrow>
    'h pcm_world \<Rightarrow> 'm \<Rightarrow> ('h pcm_world \<times> 'm \<times> u64 res) option" where
  "snd_pcm_lib_write1 ops transfer nonblock s ds n w m =
     (if n = 0 then Some (w, m, Inr 0)
      else if rt_state (rt w s) \<notin> {S_PREPARED, S_RUNNING, S_PAUSED} then
        Some (set_twake s 0 w, m,
              Inl (if rt_state (rt w s) = S_XRUN then EPIPE
                   else if rt_state (rt w s) = S_SUSPENDED then ESTRPIPE else EBADFD))
      else
        case refresh_position ops s w of
          None \<Rightarrow> None
        | Some w1 \<Rightarrow>
            (case write_loop ops transfer nonblock s ds n 0 (snd_pcm_playback_avail (rt w1 s)) w1 m of
               None \<Rightarrow> None
             | Some (w2, m2, None, _) \<Rightarrow> Some (w2, m2, Inl EINVAL)
             | Some (w2, m2, Some (xfer, res), _) \<Rightarrow>
                 map_option (\<lambda>(w3, r). (w3, m2, r)) (end_transfer ops s xfer res w2)))"

text \<open>A stream has no DMA area when the list is empty.\<close>

definition pcm_sanity_check :: "'h pcm_ops \<Rightarrow> nat \<Rightarrow> 'h pcm_world \<Rightarrow> unit res" where
  "pcm_sanity_check ops s w =
     (if op_copy ops = None \<and> rt_dma_area (rt w s) = [] then Inl EINVAL
      else if rt_state (rt w s) = S_OPEN then Inl EBADFD else Inr ())"

definition snd_pcm_lib_write :: "'h pcm_ops \<Rightarrow> nat \<Rightarrow> 'h release list \<Rightarrow> u64 \<Rightarrow> 'h pcm_world \<Rightarrow> u8 list \<Rightarrow>
    ('h pcm_world \<times> u8 list \<times> u64 res) option" where
  "snd_pcm_lib_write ops s ds n w buf =
     (case pcm_sanity_check ops s w of
        Inl e \<Rightarrow> Some (w, buf, Inl e)
      | Inr _ \<Rightarrow>
          if rt_access (rt w s) \<noteq> 3 \<and> rt_channels (rt w s) > 1 then Some (w, buf, Inl EINVAL)
          else snd_pcm_lib_write1 ops (snd_pcm_lib_write_transfer ops) (ss_f_nonblock (w_subs w s)) s ds n w buf)"

definition snd_pcm_lib_writev :: "'h pcm_ops \<Rightarrow> nat \<Rightarrow> 'h release list \<Rightarrow> u64 \<Rightarrow> 'h pcm_world \<Rightarrow>
    (nat \<Rightarrow> u8 list option) \<Rightarrow> ('h pcm_world \<times> (nat \<Rightarrow> u8 list option) \<times> u64 res) option" where
  "snd_pcm_lib_writev ops s ds n w bufs =
     (case pcm_sanity_check ops s w of
        Inl e \<Rightarrow> Some (w, bufs, Inl e)
      | Inr _ \<Rightarrow>
          if rt_access (rt w s) \<noteq> 4 then Some (w, bufs, Inl EINVAL)
          else snd_pcm_lib_write1 ops (snd_pcm_lib_writev_transfer ops) (ss_f_nonblock (w_subs w s)) s ds n w bufs)"

section \<open>Reading\<close>

text \<open>
  The loop of \<open>snd_pcm_lib_read1\<close>. A draining stream that runs empty is stopped; when the wait ends
  because the stream drains, the code goes round once more, which finds the state \<open>DRAINING\<close> and no
  frames.
\<close>

definition stop_drained :: "'h pcm_ops \<Rightarrow> nat \<Rightarrow> 'h pcm_world \<Rightarrow> 'h pcm_world option" where
  "stop_drained ops s w = map_option fst (snd_pcm_stop ops s S_SETUP w)"

function read_loop :: "'h pcm_ops \<Rightarrow> ('h, 'm) transfer \<Rightarrow> bool \<Rightarrow> nat \<Rightarrow> 'h release list \<Rightarrow> u64 \<Rightarrow> u64 \<Rightarrow> u64 \<Rightarrow>
    'h pcm_world \<Rightarrow> 'm \<Rightarrow> ('h pcm_world \<times> 'm \<times> (u64 \<times> unit res) option \<times> 'h release list) option" where
  "read_loop ops transfer nonblock s ds size_left xfer avail w m =
     (if size_left = 0 then Some (w, m, Some (xfer, Inr ()), ds)
      else if avail = 0 \<and> rt_state (rt w s) = S_DRAINING then
        map_option (\<lambda>w1. (w1, m, Some (xfer, Inr ()), ds)) (stop_drained ops s w)
      else case (if avail = 0 then wait_for_space nonblock s ds size_left w else Some (w, Inr avail, ds)) of
        None \<Rightarrow> None
      | Some (w1, Inl e, ds1) \<Rightarrow> Some (w1, m, Some (xfer, Inl e), ds1)
      | Some (w1, Inr avail1, ds1) \<Rightarrow>
          if avail1 = 0 then
            map_option (\<lambda>w2. (w2, m, Some (xfer, Inr ()), ds1)) (stop_drained ops s w1)
          else
          let frames = chunk_frames (rt w1 s) size_left avail1
          in if frames = 0 then Some (set_twake s 0 w1, m, None, ds1)
             else case ds1 of
               [] \<Rightarrow> None
             | d # ds2 \<Rightarrow>
                 (case transfer_chunk ops transfer s xfer frames (rl_others d) (w1, m) of
                    (w2, m2, Inl e) \<Rightarrow> Some (w2, m2, Some (xfer, Inl e), ds2)
                  | (w2, m2, Inr _) \<Rightarrow>
                      read_loop ops transfer nonblock s ds2 (size_left - frames) (xfer + frames)
                        (avail1 - frames) w2 m2))"
  by pat_completeness auto

termination read_loop
  by (relation "measure (\<lambda>(ops, transfer, nonblock, s, ds, size_left, xfer, avail, w, m). unat size_left)")
    (simp_all add: chunk_frames_shrinks)

declare read_loop.simps [simp del]

definition snd_pcm_lib_read1 :: "'h pcm_ops \<Rightarrow> ('h, 'm) transfer \<Rightarrow> bool \<Rightarrow> nat \<Rightarrow> 'h release list \<Rightarrow> u64 \<Rightarrow>
    'h pcm_world \<Rightarrow> 'm \<Rightarrow> ('h pcm_world \<times> 'm \<times> u64 res) option" where
  "snd_pcm_lib_read1 ops transfer nonblock s ds n w m =
     (if n = 0 then Some (w, m, Inr 0)
      else if rt_state (rt w s) \<notin> {S_PREPARED, S_DRAINING, S_RUNNING, S_PAUSED} then
        Some (set_twake s 0 w, m,
              Inl (if rt_state (rt w s) = S_XRUN then EPIPE
                   else if rt_state (rt w s) = S_SUSPENDED then ESTRPIPE else EBADFD))
      else
        case (if rt_state (rt w s) = S_PREPARED \<and> n \<ge> rt_start_threshold (rt w s)
              then snd_pcm_start ops s w else Some (w, Inr ())) of
          None \<Rightarrow> None
        | Some (w1, Inl e) \<Rightarrow> Some (set_twake s 0 w1, m, Inl e)
        | Some (w1, Inr _) \<Rightarrow>
            (case refresh_position ops s w1 of
               None \<Rightarrow> None
             | Some w2 \<Rightarrow>
                 (case read_loop ops transfer nonblock s ds n 0 (snd_pcm_capture_avail (rt w2 s)) w2 m of
                    None \<Rightarrow> None
                  | Some (w3, m3, None, _) \<Rightarrow> Some (w3, m3, Inl EINVAL)
                  | Some (w3, m3, Some (xfer, res), _) \<Rightarrow>
                      map_option (\<lambda>(w4, r). (w4, m3, r)) (end_transfer ops s xfer res w3))))"

definition snd_pcm_lib_read :: "'h pcm_ops \<Rightarrow> nat \<Rightarrow> 'h release list \<Rightarrow> u64 \<Rightarrow> 'h pcm_world \<Rightarrow> u8 list \<Rightarrow>
    ('h pcm_world \<times> u8 list \<times> u64 res) option" where
  "snd_pcm_lib_read ops s ds n w buf =
     (case pcm_sanity_check ops s w of
        Inl e \<Rightarrow> Some (w, buf, Inl e)
      | Inr _ \<Rightarrow>
          if rt_access (rt w s) \<noteq> 3 then Some (w, buf, Inl EINVAL)
          else snd_pcm_lib_read1 ops (snd_pcm_lib_read_transfer ops) (ss_f_nonblock (w_subs w s)) s ds n w buf)"

definition snd_pcm_lib_readv :: "'h pcm_ops \<Rightarrow> nat \<Rightarrow> 'h release list \<Rightarrow> u64 \<Rightarrow> 'h pcm_world \<Rightarrow>
    (nat \<Rightarrow> u8 list option) \<Rightarrow> ('h pcm_world \<times> (nat \<Rightarrow> u8 list option) \<times> u64 res) option" where
  "snd_pcm_lib_readv ops s ds n w bufs =
     (case pcm_sanity_check ops s w of
        Inl e \<Rightarrow> Some (w, bufs, Inl e)
      | Inr _ \<Rightarrow>
          if rt_access (rt w s) \<noteq> 4 then Some (w, bufs, Inl EINVAL)
          else snd_pcm_lib_read1 ops (snd_pcm_lib_readv_transfer ops) (ss_f_nonblock (w_subs w s)) s ds n w bufs)"

end
