(* ===== verification/Pcm_Queue.thy ===== *)
theory Pcm_Queue
  imports Pcm_Transfer
begin

text \<open>
  The ring buffer as a queue of frames. \<open>playback_queue\<close> lists the frames between the hardware's
  position and the application's, \<open>capture_queue\<close> those the hardware has recorded. \<open>snd_pcm_lib_write\<close>
  appends the user's frames at the end of the first, \<open>snd_pcm_lib_read\<close> takes them from the
  beginning of the second; the wrap at the end of the buffer and at the boundary is invisible.
\<close>

section \<open>Frames of a list of bytes\<close>

text \<open>The \<open>k\<close>-th frame of \<open>fb\<close> bytes.\<close>

definition nth_frame :: "nat \<Rightarrow> u8 list \<Rightarrow> nat \<Rightarrow> u8 list" where
  "nth_frame fb bs k = take fb (drop (k * fb) bs)"

lemma nth_frame_drop: "nth_frame fb (drop (n * fb) bs) k = nth_frame fb bs (n + k)"
  by (simp add: nth_frame_def add_mult_distrib add.commute)

lemma nth_frame_take: "k < n \<Longrightarrow> nth_frame fb (take (n * fb) bs) k = nth_frame fb bs k"
proof -
  assume "k < n"
  then obtain m where "n = k + (1 + m)" using less_imp_add_positive [of k n] by (metis Suc_pred' plus_1_eq_Suc)
  then have "n * fb = k * fb + (fb + m * fb)" by (simp add: add_mult_distrib)
  then show ?thesis by (simp add: nth_frame_def drop_take take_take)
qed

text \<open>Replacing whole frames.\<close>

definition replace :: "nat \<Rightarrow> u8 list \<Rightarrow> u8 list \<Rightarrow> u8 list" where
  "replace off bs area = take off area @ bs @ drop (off + length bs) area"

lemma length_replace: "off + length bs \<le> length area \<Longrightarrow> length (replace off bs area) = length area"
  by (simp add: replace_def)

lemma nth_frame_replace:
  assumes "length bs = n * fb" "(p + n) * fb \<le> length area"
  shows "nth_frame fb (replace (p * fb) bs area) k =
    (if p \<le> k \<and> k < p + n then nth_frame fb bs (k - p) else nth_frame fb area k)"
proof -
  let ?A = "take (p * fb) area" and ?C = "drop (p * fb + n * fb) area"
  have len: "length ?A = p * fb" using assms(2) by (simp add: add_mult_distrib)
  have eq: "replace (p * fb) bs area = ?A @ bs @ ?C" using assms(1) by (simp add: replace_def)
  consider "k < p" | "p \<le> k" "k < p + n" | "p + n \<le> k" by linarith
  then show ?thesis
  proof cases
    case 1
    then have "nth_frame fb (?A @ bs @ ?C) k = nth_frame fb (take (p * fb) (?A @ bs @ ?C)) k"
      by (rule nth_frame_take [symmetric])
    also have "\<dots> = nth_frame fb ?A k" using len by simp
    also have "\<dots> = nth_frame fb area k" using 1 by (simp add: nth_frame_take)
    finally show ?thesis using 1 eq by simp
  next
    case 2
    then obtain j where j: "k = p + j" "j < n" by (metis add_less_cancel_left le_Suc_ex)
    have "nth_frame fb (?A @ bs @ ?C) k = nth_frame fb (drop (p * fb) (?A @ bs @ ?C)) j"
      unfolding j(1) by (rule nth_frame_drop [symmetric])
    also have "\<dots> = nth_frame fb (bs @ ?C) j" using len by simp
    also have "\<dots> = nth_frame fb (take (n * fb) (bs @ ?C)) j" by (rule nth_frame_take [OF j(2), symmetric])
    also have "\<dots> = nth_frame fb bs j" using assms(1) by simp
    finally show ?thesis using j eq by simp
  next
    case 3
    then obtain j where j: "k = p + n + j" by (metis le_Suc_ex)
    have "nth_frame fb (?A @ bs @ ?C) k = nth_frame fb (drop ((p + n) * fb) (?A @ bs @ ?C)) j"
      unfolding j by (rule nth_frame_drop [symmetric])
    also have "drop ((p + n) * fb) (?A @ bs @ ?C) = drop ((p + n) * fb) area"
      using len assms(1) by (simp add: add_mult_distrib)
    also have "nth_frame fb (drop ((p + n) * fb) area) j = nth_frame fb area k"
      unfolding j by (rule nth_frame_drop)
    finally show ?thesis using 3 eq by simp
  qed
qed

section \<open>Positions in the ring\<close>

text \<open>Entries of a ring of \<open>B\<close> frames: \<open>q\<close> queued ones from \<open>h\<close> on, and \<open>n\<close> more behind them.\<close>

lemma ring_entries_apart:
  fixes h q n B i j :: nat
  assumes "q + n \<le> B" "i < q" "j < n"
  shows "(h + i) mod B \<noteq> (h + q + j) mod B"
proof
  assume "(h + i) mod B = (h + q + j) mod B"
  then have "B dvd (h + q + j) - (h + i)" using assms(2) by (metis (no_types) mod_eq_dvd_iff_nat add.assoc nat_le_linear nat_add_left_cancel_le add.commute trans_le_add1 less_imp_le_nat)
  then have "B dvd q + j - i" by simp
  then show False using assms by (auto dest: dvd_imp_le)
qed

lemma ring_entry_chunk:
  fixes p B j n :: nat
  assumes "p mod B + n \<le> B" "j < n"
  shows "(p + j) mod B = p mod B + j"
proof -
  have "(p + j) mod B = (p mod B + j) mod B" by (simp add: mod_simps)
  then show ?thesis using assms by simp
qed

text \<open>The frames of the ring from position \<open>p\<close> on.\<close>

definition ring_frames :: "nat \<Rightarrow> nat \<Rightarrow> u8 list \<Rightarrow> nat \<Rightarrow> nat \<Rightarrow> u8 list list" where
  "ring_frames fb B area p n = map (\<lambda>i. nth_frame fb area ((p + i) mod B)) [0..<n]"

lemma ring_frames_cong: "p mod B = p' mod B \<Longrightarrow> ring_frames fb B area p n = ring_frames fb B area p' n"
proof -
  assume "p mod B = p' mod B"
  then have "(p + i) mod B = (p' + i) mod B" for i by (metis mod_add_left_eq)
  then show ?thesis by (simp add: ring_frames_def)
qed

lemma ring_frames_drop: "ring_frames fb B area (p + k) n = drop k (ring_frames fb B area p (k + n))"
  by (rule nth_equalityI) (simp_all add: ring_frames_def add.assoc)

lemma ring_frames_chunk:
  assumes "p mod B + n \<le> B"
  shows "ring_frames fb B area p n = map (nth_frame fb (drop (p mod B * fb) area)) [0..<n]"
  using assms by (simp add: ring_frames_def ring_entry_chunk nth_frame_drop)

lemma ring_frames_append:
  assumes "q + n \<le> B" "(h + q) mod B + n \<le> B" "length bs = n * fb" "B * fb \<le> length area"
  shows "ring_frames fb B (replace ((h + q) mod B * fb) bs area) h (q + n) =
    ring_frames fb B area h q @ map (nth_frame fb bs) [0..<n]"
proof (rule nth_equalityI)
  let ?p = "(h + q) mod B" and ?A = "replace ((h + q) mod B * fb) bs area"
  have fit: "(?p + n) * fb \<le> length area" using assms(2,4) by (meson le_trans mult_le_mono1)
  note frame = nth_frame_replace [OF assms(3) fit]
  fix i assume i: "i < length (ring_frames fb B ?A h (q + n))"
  show "ring_frames fb B ?A h (q + n) ! i = (ring_frames fb B area h q @ map (nth_frame fb bs) [0..<n]) ! i"
  proof (cases "i < q")
    case True
    have "\<not> (?p \<le> (h + i) mod B \<and> (h + i) mod B < ?p + n)"
    proof
      assume c: "?p \<le> (h + i) mod B \<and> (h + i) mod B < ?p + n"
      then obtain j where j: "(h + i) mod B = ?p + j" "j < n" by (metis add_less_cancel_left le_Suc_ex)
      then show False using ring_entries_apart [OF assms(1) True j(2), of h] ring_entry_chunk [OF assms(2) j(2)] by simp
    qed
    then show ?thesis using True i by (auto simp: ring_frames_def frame nth_append)
  next
    case False
    then obtain j where j: "i = q + j" "j < n"
      using i by (metis add_less_cancel_left le_Suc_ex not_less ring_frames_def length_map length_upt minus_nat.diff_0)
    have "(h + i) mod B = ?p + j" using ring_entry_chunk [OF assms(2) j(2)] j(1) by (simp add: add.assoc)
    then show ?thesis using j by (simp add: ring_frames_def frame nth_append)
  qed
qed (simp add: ring_frames_def)

section \<open>The queues of a stream\<close>

definition frame_len :: "runtime \<Rightarrow> nat" where
  "frame_len r = unat (rt_frame_bits r) div 8"

text \<open>Frames of whole bytes, and a DMA area that holds the buffer.\<close>

definition area_wf :: "runtime \<Rightarrow> bool" where
  "area_wf r \<longleftrightarrow> unat (rt_frame_bits r) mod 8 = 0 \<and> 0 < frame_len r \<and>
     unat (rt_buffer_size r) * frame_len r \<le> length (rt_dma_area r) \<and>
     unat (rt_buffer_size r) < 2 ^ 32 \<and> length (rt_dma_area r) < 2 ^ 60"

definition playback_queue :: "runtime \<Rightarrow> u8 list list" where
  "playback_queue r = ring_frames (frame_len r) (unat (rt_buffer_size r)) (rt_dma_area r) (unat (rt_hw_ptr r))
     (unat (rt_buffer_size r) - unat (snd_pcm_playback_avail r))"

definition capture_queue :: "runtime \<Rightarrow> u8 list list" where
  "capture_queue r = ring_frames (frame_len r) (unat (rt_buffer_size r)) (rt_dma_area r) (unat (rt_appl_ptr r))
     (unat (snd_pcm_capture_avail r))"

lemma sdiv64_8:
  assumes "unat (x :: u64) = 8 * k" "k < 2 ^ 60"
  shows "unat (sdiv64 x 8) = k"
proof -
  have "sint x = 8 * int k" using assms by (simp add: sint_u64)
  moreover have "sint (8 :: u64) = 8" by simp
  ultimately have "sdiv64 x 8 = word_of_int (int k)" by (cases "k = 0") (simp_all add: sdiv64_def)
  then show ?thesis using assms(2) by (simp add: unat_of_nat64)
qed

lemma frames_to_bytes_exact:
  assumes "area_wf r" "unat n * frame_len r < 2 ^ 60"
  shows "unat (frames_to_bytes r n) = unat n * frame_len r"
proof -
  have b: "unat (rt_frame_bits r) = 8 * frame_len r" using assms(1) by (auto simp: area_wf_def frame_len_def)
  have "unat (n * ucast (rt_frame_bits r)) = 8 * (unat n * frame_len r)"
    using assms(2) b by (subst unat_mult_nowrap) (simp_all add: mult.commute [of "frame_len r"])
  then show ?thesis using assms(2) by (simp add: frames_to_bytes_def sdiv64_8)
qed

lemma advance_appl_ptr_mod:
  assumes "ring_wf r" "p < rt_boundary r" "unat n \<le> unat (rt_buffer_size r)"
  shows "unat (advance_appl_ptr r p n) = (unat p + unat n) mod unat (rt_boundary r)"
proof -
  have lim: "unat p < unat (rt_boundary r)" "unat (rt_boundary r) + unat (rt_buffer_size r) < 2 ^ 63"
    "unat (rt_buffer_size r) \<le> unat (rt_boundary r)"
    using assms by (auto simp: ring_wf_def word_nat)
  have sum: "unat (p + n) = unat p + unat n"
    by (rule unat_add_nowrap) (use lim assms(3) in simp)
  show ?thesis
  proof (cases "p + n \<ge> rt_boundary r")
    case True
    then show ?thesis using lim assms(3) sum
      by (simp add: advance_appl_ptr_def unat_sub_nowrap word_le_nat_alt le_mod_geq)
  next
    case False
    then show ?thesis using sum by (simp add: advance_appl_ptr_def word_le_nat_alt)
  qed
qed

lemma ring_wf_advance:
  assumes "ring_wf r" "unat n \<le> unat (rt_buffer_size r)"
  shows "ring_wf (r\<lparr>rt_appl_ptr := advance_appl_ptr r (rt_appl_ptr r) n\<rparr>)"
proof -
  have a: "rt_appl_ptr r < rt_boundary r" using assms(1) by (simp add: ring_wf_def)
  have "0 < unat (rt_boundary r)" using a by (metis gr_zeroI unat_0 word_less_nat_alt not_less_zero)
  then have "advance_appl_ptr r (rt_appl_ptr r) n < rt_boundary r"
    using advance_appl_ptr_mod [OF assms(1) a assms(2)] by (simp add: word_less_nat_alt)
  then show ?thesis using assms(1) by (simp add: ring_wf_def)
qed

lemma playback_avail_advance:
  assumes "ring_wf r" "unat n \<le> unat (snd_pcm_playback_avail r)"
    "unat (snd_pcm_playback_avail r) \<le> unat (rt_buffer_size r)"
  shows "unat (snd_pcm_playback_avail (r\<lparr>rt_appl_ptr := advance_appl_ptr r (rt_appl_ptr r) n\<rparr>)) =
    unat (snd_pcm_playback_avail r) - unat n"
proof -
  let ?r' = "r\<lparr>rt_appl_ptr := advance_appl_ptr r (rt_appl_ptr r) n\<rparr>" and ?M = "int (unat (rt_boundary r))"
  have n: "unat n \<le> unat (rt_buffer_size r)" using assms(2,3) by simp
  have a: "rt_appl_ptr r < rt_boundary r" using assms(1) by (simp add: ring_wf_def)
  let ?d = "int (unat (rt_hw_ptr r)) + int (unat (rt_buffer_size r)) - int (unat (rt_appl_ptr r))"
  have v: "int (unat (snd_pcm_playback_avail r)) = ?d mod ?M" by (rule playback_avail_mod [OF assms(1)])
  have "int (unat (snd_pcm_playback_avail ?r')) =
      (int (unat (rt_hw_ptr r)) + int (unat (rt_buffer_size r)) -
       (int (unat (rt_appl_ptr r)) + int (unat n)) mod ?M) mod ?M"
    using playback_avail_mod [OF ring_wf_advance [OF assms(1) n]] advance_appl_ptr_mod [OF assms(1) a n]
    by (simp add: zmod_int)
  also have "\<dots> = (?d mod ?M - int (unat n)) mod ?M" by (simp add: mod_simps algebra_simps)
  also have "\<dots> = int (unat (snd_pcm_playback_avail r) - unat n) mod ?M" using assms(2) by (simp add: v of_nat_diff)
  also have "\<dots> = int (unat (snd_pcm_playback_avail r) - unat n)"
  proof -
    have "?d mod ?M < ?M" using a by (intro pos_mod_bound) (simp add: word_less_nat_alt)
    then show ?thesis using v by (intro mod_pos_pos_trivial) simp_all
  qed
  finally show ?thesis by simp
qed

lemma playback_queue_end:
  assumes "ring_wf r" "unat (snd_pcm_playback_avail r) \<le> unat (rt_buffer_size r)"
  shows "(unat (rt_hw_ptr r) + (unat (rt_buffer_size r) - unat (snd_pcm_playback_avail r))) mod unat (rt_buffer_size r) =
    unat (rt_appl_ptr r) mod unat (rt_buffer_size r)"
proof -
  let ?B = "unat (rt_buffer_size r)" and ?M = "unat (rt_boundary r)" and ?h = "unat (rt_hw_ptr r)"
    and ?a = "unat (rt_appl_ptr r)" and ?v = "unat (snd_pcm_playback_avail r)"
  have dvd: "int ?B dvd int ?M" using assms(1) by (simp add: ring_wf_def)
  have "int (?h + (?B - ?v)) mod int ?B = (int ?h + int ?B - int ?v mod int ?B) mod int ?B"
    using assms(2) by (simp add: of_nat_diff mod_simps)
  also have "int ?v mod int ?B = (int ?h + int ?B - int ?a) mod int ?B"
    unfolding playback_avail_mod [OF assms(1)] using dvd by (simp add: mod_mod_cancel)
  also have "(int ?h + int ?B - (int ?h + int ?B - int ?a) mod int ?B) mod int ?B = int ?a mod int ?B"
    by (simp add: mod_simps)
  finally show ?thesis by (simp only: zmod_int [symmetric] of_nat_eq_iff)
qed

text \<open>Writing a chunk at the application's position appends it to the queue.\<close>

lemma enqueue_chunk:
  assumes ring: "ring_wf r" and area: "area_wf r" and room: "unat (snd_pcm_playback_avail r) \<le> unat (rt_buffer_size r)"
    and n: "unat n \<le> unat (snd_pcm_playback_avail r)"
    and fit: "unat (rt_appl_ptr r) mod unat (rt_buffer_size r) + unat n \<le> unat (rt_buffer_size r)"
    and len: "length bs = unat n * frame_len r"
    and r': "r' = r\<lparr>rt_dma_area := replace (unat (rt_appl_ptr r) mod unat (rt_buffer_size r) * frame_len r) bs (rt_dma_area r),
      rt_appl_ptr := advance_appl_ptr r (rt_appl_ptr r) n\<rparr>"
  shows "playback_queue r' = playback_queue r @ map (nth_frame (frame_len r) bs) [0..<unat n]"
    and "ring_wf r'" and "area_wf r'"
    and "unat (snd_pcm_playback_avail r') = unat (snd_pcm_playback_avail r) - unat n"
proof -
  let ?B = "unat (rt_buffer_size r)" and ?p = "unat (rt_appl_ptr r) mod unat (rt_buffer_size r)"
    and ?q = "unat (rt_buffer_size r) - unat (snd_pcm_playback_avail r)" and ?fb = "frame_len r"
  have same: "snd_pcm_playback_avail r' = snd_pcm_playback_avail (r\<lparr>rt_appl_ptr := advance_appl_ptr r (rt_appl_ptr r) n\<rparr>)"
    by (simp add: snd_pcm_playback_avail_def Let_def r')
  show v: "unat (snd_pcm_playback_avail r') = unat (snd_pcm_playback_avail r) - unat n"
    unfolding same by (rule playback_avail_advance [OF ring n room])
  have cap: "?B * ?fb \<le> length (rt_dma_area r)" using area by (simp add: area_wf_def)
  have "(?p + unat n) * ?fb \<le> length (rt_dma_area r)" using fit cap by (meson le_trans mult_le_mono1)
  then have la: "length (rt_dma_area r') = length (rt_dma_area r)"
    using len by (simp add: r' length_replace add_mult_distrib)
  show "ring_wf r'" using ring_wf_advance [OF ring, of n] n room by (simp add: ring_wf_def r')
  show "area_wf r'" using area la by (simp add: area_wf_def frame_len_def r')
  have e: "(unat (rt_hw_ptr r) + ?q) mod ?B = ?p" by (rule playback_queue_end [OF ring room])
  have "playback_queue r' = ring_frames ?fb ?B (replace (?p * ?fb) bs (rt_dma_area r)) (unat (rt_hw_ptr r)) (?q + unat n)"
    using v n room by (simp add: playback_queue_def r' frame_len_def)
  also have "\<dots> = playback_queue r @ map (nth_frame ?fb bs) [0..<unat n]"
    unfolding playback_queue_def e [symmetric]
    by (rule ring_frames_append) (use n room fit len cap e in simp_all)
  finally show "playback_queue r' = playback_queue r @ map (nth_frame ?fb bs) [0..<unat n]" .
qed

end
