(* ===== verification/Pcm_Write.thy ===== *)
theory Pcm_Write
  imports Pcm_Queue
begin

text \<open>
  \<open>snd_pcm_lib_write\<close> implements the append of the queue: the loop over chunks, the start it may
  cause and the update at the end leave the queued frames alone and add the user's frames in order.
\<close>

section \<open>The DMA area is left alone\<close>

abbreviation area_of :: "'h pcm_world \<Rightarrow> nat \<Rightarrow> u8 list" where "area_of w s \<equiv> rt_dma_area (rt w s)"

lemma set_trigger_master_area [simp]: "area_of (set_trigger_master t w) s = area_of w s"
  by (simp add: set_trigger_master_def)

lemma call_trigger_area [simp]: "area_of (fst (call_trigger ops t cmd w)) s = area_of w s"
proof -
  have "area_of (fold (\<lambda>(t, m). snd_pcm_trigger_done t m) ds v) s = area_of v s" for v :: "'a pcm_world" and ds
    by (induction ds arbitrary: v) (auto simp: snd_pcm_trigger_done_def)
  then show ?thesis by (auto simp: call_trigger_def Let_def split: prod.splits)
qed

lemma trigger_tstamp_area:
  assumes "snd_pcm_trigger_tstamp t w = Some w'"
  shows "area_of w' s = area_of w s"
proof (rule snd_pcm_trigger_tstamp.raw_induct [where P = "\<lambda>_ w w'. area_of w' s = area_of w s", OF _ assms])
  fix f :: "nat \<Rightarrow> 'a pcm_world \<Rightarrow> 'a pcm_world option" and t w w'
  assume "\<And>t w w'. f t w = Some w' \<Longrightarrow> area_of w' s = area_of w s"
    and "(case rt_trigger_master (rt w t) of None \<Rightarrow> Some w
      | Some m \<Rightarrow> if m = t then
            Some (upd_rt t (\<lambda>r. r\<lparr>rt_trigger_tstamp := snd_pcm_gettime w t, rt_trigger_master := None\<rparr>) w)
          else do {
            w1 \<leftarrow> f m w;
            Some (upd_rt t (\<lambda>r. r\<lparr>rt_trigger_tstamp := rt_trigger_tstamp (rt w1 m), rt_trigger_master := None\<rparr>) w1)
          }) = Some w'"
  then show "area_of w' s = area_of w s"
    by (fastforce simp: Option.bind_eq_Some_conv split: option.splits if_splits)
qed

lemma notify_wake_area [simp]: "area_of (timer_notify t e w) s = area_of w s" "area_of (wake_both t w) s = area_of w s"
  by (simp_all add: timer_notify_def wake_both_def)

text \<open>Silence for a stream does not touch another.\<close>

lemma silence_chunk_other: "t \<noteq> s \<Longrightarrow> rt (silence_chunk ops t ofs n w) s = rt w s"
  by (simp add: silence_chunk_def Let_def split: option.split)

lemma silence_loop_other: "t \<noteq> s \<Longrightarrow> rt (silence_loop ops t ofs n w) s = rt w s"
proof (induction ops t ofs n w rule: silence_loop.induct)
  case (1 ops t ofs n w)
  show ?case
  proof (cases "n = 0 \<or> ofs \<ge> rt_buffer_size (rt w t)")
    case True
    then show ?thesis by (subst silence_loop.simps) simp
  next
    case False
    then show ?thesis using 1 by (subst silence_loop.simps) (simp add: Let_def silence_chunk_other)
  qed
qed

lemma playback_silence_other: "t \<noteq> s \<Longrightarrow> rt (snd_pcm_playback_silence ops t p w) s = rt w s"
  by (auto simp: snd_pcm_playback_silence_def Let_def silence_loop_other split: option.split prod.split)

lemma post_start_area:
  assumes "snd_pcm_post_start ops state t w = Some w'" "rt_silence_size (rt w s) = 0"
  shows "area_of w' s = area_of w s"
proof -
  obtain w1 where w1: "snd_pcm_trigger_tstamp t w = Some w1"
    and w': "w' = timer_notify t MSTART (if playback (started ops state t w1) t \<and> rt_silence_size (rt (started ops state t w1) t) > 0
      then snd_pcm_playback_silence ops t ULONG_MAX (started ops state t w1) else started ops state t w1)"
    using assms(1) by (auto simp: snd_pcm_post_start_def Option.bind_eq_Some_conv Let_def started_def)
  have z: "rt_silence_size (rt w1 s) = 0"
    using assms(2) act_frame_selectors(10) [OF trigger_tstamp_frame [OF w1], of s] by simp
  have "area_of (started ops state t w1) s = area_of w s"
    using trigger_tstamp_area [OF w1] by (simp add: started_def)
  then show ?thesis using z by (cases "t = s") (simp_all add: w' playback_silence_other, simp add: started_def)
qed

lemma post_stop_area: "snd_pcm_post_stop state t w = Some w' \<Longrightarrow> area_of w' s = area_of w s"
  by (auto simp: snd_pcm_post_stop_def Option.bind_eq_Some_conv dest: trigger_tstamp_area split: if_splits)

text \<open>Positions, sizes and the area of stream \<open>s\<close>; the area when it needs no silence.\<close>

definition queue_frame :: "nat \<Rightarrow> 'h pcm_world \<Rightarrow> 'h pcm_world \<Rightarrow> bool" where
  "queue_frame s w w' \<longleftrightarrow> pos_frame w w' \<and> (rt_silence_size (rt w s) = 0 \<longrightarrow> area_of w' s = area_of w s)"

lemma queue_frame_refl [simp]: "queue_frame s w w"
  by (simp add: queue_frame_def)

lemma queue_frame_trans:
  assumes "queue_frame s w w1" "queue_frame s w1 w2"
  shows "queue_frame s w w2"
proof -
  have p: "pos_frame w w1" using assms(1) by (simp add: queue_frame_def)
  have "rt_silence_size (rt w1 s) = rt_silence_size (rt w s)"
    using arg_cong [OF pos_frame_rt [OF p], of rt_silence_size s] by simp
  then show ?thesis using assms by (auto simp: queue_frame_def intro: free_frame_trans)
qed

lemma queue_frameI: "pos_frame w w' \<Longrightarrow> (rt_silence_size (rt w s) = 0 \<Longrightarrow> area_of w' s = area_of w s) \<Longrightarrow> queue_frame s w w'"
  by (simp add: queue_frame_def)

interpretation start_queue: action_invariant "snd_pcm_action_start ops state" "queue_frame s0 w0"
proof unfold_locales
  note trans = queue_frame_trans
  fix s and w w' :: "'a pcm_world" and r u
  assume w: "queue_frame s0 w0 w"
  have trig: "queue_frame s0 v (fst (call_trigger ops s cmd v))" for v cmd
    by (rule queue_frameI [OF act_frame_pos [OF call_trigger_frame]]) simp
  have master: "queue_frame s0 w (set_trigger_master s w)"
    by (rule queue_frameI [OF act_frame_pos [OF set_trigger_master_frame]]) simp
  show "queue_frame s0 w0 (fst (pre_action (snd_pcm_action_start ops state) s w))"
    using pre_start_world [of s w] w master trans by fastforce
  show "queue_frame s0 w0 w'" if "do_action (snd_pcm_action_start ops state) s w = Some (w', r)"
    using that do_start_world [of ops s w] w trig trans by fastforce
  show "queue_frame s0 w0 (u s w)" if "undo_action (snd_pcm_action_start ops state) = Some u"
    using that undo_start_world [of ops s w] w trig trans by fastforce
  show "queue_frame s0 w0 w'" if "post_action (snd_pcm_action_start ops state) s w = Some w'"
    using that post_start_frame post_start_area trans [OF w] by (fastforce intro: queue_frameI)
qed

interpretation stop_queue: action_invariant "snd_pcm_action_stop ops state" "queue_frame s0 w0"
proof unfold_locales
  note trans = queue_frame_trans
  fix s and w w' :: "'a pcm_world" and r u
  assume w: "queue_frame s0 w0 w"
  have trig: "queue_frame s0 v (fst (call_trigger ops s cmd v))" for v cmd
    by (rule queue_frameI [OF act_frame_pos [OF call_trigger_frame]]) simp
  have master: "queue_frame s0 w (set_trigger_master s w)"
    by (rule queue_frameI [OF act_frame_pos [OF set_trigger_master_frame]]) simp
  show "queue_frame s0 w0 (fst (pre_action (snd_pcm_action_stop ops state) s w))"
    using pre_stop_world [of s w] w master trans by fastforce
  show "queue_frame s0 w0 w'" if "do_action (snd_pcm_action_stop ops state) s w = Some (w', r)"
    using that do_stop_world [of ops s w] w trig trans by fastforce
  show "queue_frame s0 w0 (u s w)" if "undo_action (snd_pcm_action_stop ops state) = Some u"
    using that by simp
  show "queue_frame s0 w0 w'" if "post_action (snd_pcm_action_stop ops state) s w = Some w'"
    using that post_stop_frame post_stop_area trans [OF w] by (fastforce intro: queue_frameI)
qed

lemma start_queue_frame: "snd_pcm_start ops t w = Some (w', r) \<Longrightarrow> queue_frame s w w'"
  unfolding snd_pcm_start_def by (rule start_queue.action_inv [OF queue_frame_refl])

lemma stop_queue_frame: "snd_pcm_stop ops t state w = Some (w', r) \<Longrightarrow> queue_frame s w w'"
  unfolding snd_pcm_stop_def by (rule stop_queue.action_inv [OF queue_frame_refl])

lemma xrun_queue_frame: "xrun ops t w = Some w' \<Longrightarrow> queue_frame s w w'"
proof -
  have 1: "queue_frame s w (if b then upd_rt t (\<lambda>r. r\<lparr>rt_tstamp := x\<rparr>) w else w)" for b x
    by (simp add: queue_frame_def free_frame_upd_rt pos_free_def act_free_def)
  assume "xrun ops t w = Some w'"
  then show ?thesis
    by (auto simp: xrun_def Option.bind_eq_Some_conv dest!: stop_queue_frame [where s = s] intro: queue_frame_trans [OF 1])
qed

lemma update_state_queue_frame:
  assumes "snd_pcm_update_state ops t w = Some (w', r)"
  shows "queue_frame s w w'"
proof -
  define w1 where "w1 = (if stream_avail w t > rt_avail_max (rt w t)
    then upd_rt t (\<lambda>r. r\<lparr>rt_avail_max := stream_avail w t\<rparr>) w else w)"
  have "queue_frame s w w1" by (simp add: w1_def queue_frame_def free_frame_upd_rt pos_free_def act_free_def)
  moreover have done_frame: "queue_frame s w1 v" if "snd_pcm_drain_done ops t w1 = Some (v, q)" for v q
    using that unfolding snd_pcm_drain_done_def by (rule stop_queue.single_inv [OF queue_frame_refl])
  have eff: "queue_frame s w1 (add_effects es w1)" for es by (simp add: queue_frame_def)
  have "queue_frame s w1 w'"
    using assms done_frame eff by (auto simp: snd_pcm_update_state_def Let_def Option.bind_eq_Some_conv
        dest!: xrun_queue_frame [where s = s] split: if_splits simp flip: w1_def)
  ultimately show ?thesis by (rule queue_frame_trans)
qed

lemma queue_frame_queues:
  assumes "queue_frame s w w'" "rt_silence_size (rt w s) = 0"
  shows "playback_queue (rt w' s) = playback_queue (rt w s)" "capture_queue (rt w' s) = capture_queue (rt w s)"
    "ring_wf (rt w' s) = ring_wf (rt w s)" "area_wf (rt w' s) = area_wf (rt w s)"
    "frame_len (rt w' s) = frame_len (rt w s)" "rt_silence_size (rt w' s) = 0"
    "snd_pcm_playback_avail (rt w' s) = snd_pcm_playback_avail (rt w s)"
    "snd_pcm_capture_avail (rt w' s) = snd_pcm_capture_avail (rt w s)"
    "rt_buffer_size (rt w' s) = rt_buffer_size (rt w s)" "rt_appl_ptr (rt w' s) = rt_appl_ptr (rt w s)"
    "playback w' s = playback w s" "group_members w' s = group_members w s"
proof -
  have p: "pos_frame w w'" using assms(1) by (simp add: queue_frame_def)
  note sel = pos_frame_selectors [OF p, of s]
  have a: "area_of w' s = area_of w s" using assms by (simp add: queue_frame_def)
  have "rt_frame_bits (rt w' s) = rt_frame_bits (rt w s)"
    using arg_cong [OF pos_frame_rt [OF p], of rt_frame_bits s] by (simp add: pos_free_def act_free_def)
  then show f: "frame_len (rt w' s) = frame_len (rt w s)" and "area_wf (rt w' s) = area_wf (rt w s)"
    using a sel by (simp_all add: frame_len_def area_wf_def)
  show v: "snd_pcm_playback_avail (rt w' s) = snd_pcm_playback_avail (rt w s)"
    and c: "snd_pcm_capture_avail (rt w' s) = snd_pcm_capture_avail (rt w s)"
    using sel by (simp_all add: snd_pcm_playback_avail_def snd_pcm_capture_avail_def Let_def)
  show "playback_queue (rt w' s) = playback_queue (rt w s)" "capture_queue (rt w' s) = capture_queue (rt w s)"
    using f v c a sel by (simp_all add: playback_queue_def capture_queue_def)
  show "ring_wf (rt w' s) = ring_wf (rt w s)" by (rule ring_wf_pos [OF pos_frame_rt [OF p]])
  show "rt_silence_size (rt w' s) = 0" "rt_buffer_size (rt w' s) = rt_buffer_size (rt w s)"
    "rt_appl_ptr (rt w' s) = rt_appl_ptr (rt w s)"
    using assms(2) sel by simp_all
  show "playback w' s = playback w s" "group_members w' s = group_members w s"
    using free_frame_subs [OF p] by simp_all
qed

section \<open>A chunk\<close>

lemma put_bytes_replace: "put_bytes off bs r = r\<lparr>rt_dma_area := replace off bs (rt_dma_area r)\<rparr>"
  by (simp add: put_bytes_def write_area_def replace_def add.commute)

text \<open>A world that differs from \<open>w\<close> in stream \<open>s\<close>, which became \<open>r\<close>, and in the hardware.\<close>

definition stream_becomes :: "nat \<Rightarrow> runtime \<Rightarrow> 'h pcm_world \<Rightarrow> 'h pcm_world \<Rightarrow> bool" where
  "stream_becomes s r w w' \<longleftrightarrow> (\<exists>h. w' = (upd_rt s (\<lambda>_. r) w)\<lparr>w_hw := h\<rparr>)"

lemma stream_becomes_same:
  assumes "stream_becomes s r w w'"
  shows "rt w' t = (if t = s then r else rt w t)" "playback w' t = playback w t"
    "group_members w' t = group_members w t" "w_subs w' t = (if t = s then (w_subs w s)\<lparr>ss_rt := r\<rparr> else w_subs w t)"
proof -
  obtain h where w': "w' = (upd_rt s (\<lambda>_. r) w)\<lparr>w_hw := h\<rparr>" using assms by (auto simp: stream_becomes_def)
  have g: "group_members (v\<lparr>w_hw := h\<rparr>) t = group_members v t" for v :: "'a pcm_world"
    by (simp add: group_members_def split: group_id.split)
  show "rt w' t = (if t = s then r else rt w t)" "playback w' t = playback w t"
    "group_members w' t = group_members w t" "w_subs w' t = (if t = s then (w_subs w s)\<lparr>ss_rt := r\<rparr> else w_subs w t)"
    by (simp_all add: w' g, simp add: playback_def, simp add: upd_rt_def upd_sub_def)
qed

lemma stream_becomes_masters:
  assumes "stream_becomes s r w w'" "rt_trigger_master r = rt_trigger_master (rt w s)"
  shows "master_wf w' = master_wf w"
  by (rule master_edges_cong) (simp add: stream_becomes_same(1) [OF assms(1)] assms(2))

lemma transfer_chunk_success:
  assumes t: "transfer s (ucast (rt_appl_ptr (rt w s) mod rt_buffer_size (rt w s))) (ucast off) n (w, m) =
      (upd_rt s (\<lambda>_. r1) w, m1, Inr ())"
    and idle: "others = id" and state: "rt_state r1 \<notin> {S_XRUN, S_SUSPENDED}"
    and r': "r' = r1\<lparr>rt_appl_ptr := advance_appl_ptr r1 (rt_appl_ptr (rt w s)) n\<rparr>"
  shows "\<exists>w'. transfer_chunk ops transfer s off n others (w, m) = (w', m1, Inr ()) \<and> stream_becomes s r' w w'"
proof -
  have u: "upd_rt s g (upd_rt s f w) = upd_rt s (\<lambda>_. g (f (rt w s))) w" for f g
    by (simp add: upd_rt_def upd_sub_def rt_def)
  have a: "set_appl_ptr s (advance_appl_ptr r1 (rt_appl_ptr (rt w s)) n) (upd_rt s (\<lambda>_. r1) w) = upd_rt s (\<lambda>_. r') w"
    by (simp add: set_appl_ptr_def u r')
  have "upd_rt s (\<lambda>_. r') w = (upd_rt s (\<lambda>_. r') w)\<lparr>w_hw := w_hw w\<rparr>" by (simp add: upd_rt_def upd_sub_def)
  then have b: "stream_becomes s r' w (upd_rt s (\<lambda>_. r') w)" unfolding stream_becomes_def by blast
  have c: "stream_becomes s r' w ((upd_rt s (\<lambda>_. r') w)\<lparr>w_hw := h\<rparr>)" for h unfolding stream_becomes_def by blast
  show ?thesis
    using state b c by (simp add: transfer_chunk_def t idle a Let_def split: option.split)
qed

lemma small_offset: "area_wf r \<Longrightarrow> x \<le> rt_buffer_size r \<Longrightarrow> unat (ucast (ucast (x :: u64) :: u32) :: u64) = unat x"
  by (simp add: area_wf_def word_le_nat_alt unat_ucast_64_32)

text \<open>The frames \<open>off\<close> to \<open>off + n\<close> of the user's buffer.\<close>

lemma write_chunk:
  assumes copy: "op_copy ops = None" and idle: "others = id"
    and ring: "ring_wf (rt w s)" and area: "area_wf (rt w s)"
    and room: "unat (snd_pcm_playback_avail (rt w s)) \<le> unat (rt_buffer_size (rt w s))"
    and n: "unat n \<le> unat (snd_pcm_playback_avail (rt w s))"
    and fit: "unat (rt_appl_ptr (rt w s)) mod unat (rt_buffer_size (rt w s)) + unat n \<le> unat (rt_buffer_size (rt w s))"
    and off: "off \<le> rt_buffer_size (rt w s)" and mem: "(unat off + unat n) * frame_len (rt w s) \<le> length mem"
    and state: "rt_state (rt w s) \<notin> {S_XRUN, S_SUSPENDED}"
  shows "\<exists>w' r'. transfer_chunk ops (snd_pcm_lib_write_transfer ops) s off n others (w, mem) = (w', mem, Inr ()) \<and>
    stream_becomes s r' w w' \<and> rt_state r' = rt_state (rt w s) \<and> rt_trigger_master r' = rt_trigger_master (rt w s) \<and>
    rt_silence_size r' = rt_silence_size (rt w s) \<and> rt_buffer_size r' = rt_buffer_size (rt w s) \<and>
    frame_len r' = frame_len (rt w s) \<and> ring_wf r' \<and> area_wf r' \<and>
    unat (rt_appl_ptr r') mod unat (rt_buffer_size (rt w s)) =
      (unat (rt_appl_ptr (rt w s)) + unat n) mod unat (rt_buffer_size (rt w s)) \<and>
    unat (snd_pcm_playback_avail r') = unat (snd_pcm_playback_avail (rt w s)) - unat n \<and>
    playback_queue r' = playback_queue (rt w s) @
      map (nth_frame (frame_len (rt w s)) (drop (unat off * frame_len (rt w s)) mem)) [0..<unat n]"
proof -
  let ?r = "rt w s" and ?fb = "frame_len (rt w s)" and ?B = "rt_buffer_size (rt w s)"
  define bs where "bs = take (unat n * ?fb) (drop (unat off * ?fb) mem)"
  define p where "p = unat (rt_appl_ptr ?r) mod unat ?B"
  define r1 where "r1 = ?r\<lparr>rt_dma_area := replace (p * ?fb) bs (rt_dma_area ?r)\<rparr>"
  define r' where "r' = r1\<lparr>rt_appl_ptr := advance_appl_ptr r1 (rt_appl_ptr ?r) n\<rparr>"
  have len: "length bs = unat n * ?fb" using mem by (simp add: bs_def add_mult_distrib)
  have cap: "unat ?B * ?fb < 2 ^ 60" using area by (simp add: area_wf_def)
  have bytes: "unat x \<le> unat ?B \<Longrightarrow> unat (frames_to_bytes ?r x) = unat x * ?fb" for x
    by (rule frames_to_bytes_exact [OF area order_le_less_trans [OF mult_le_mono1 cap]])
  have B: "0 < unat ?B" "?B \<noteq> 0" using ring_bounds(2) [OF ring] by auto
  have um: "unat (rt_appl_ptr ?r mod ?B) = p" by (simp add: p_def unat_mod)
  have pB: "p \<le> unat ?B" using B by (simp add: p_def order_less_imp_le)
  have "rt_appl_ptr ?r mod ?B \<le> ?B" using pB um by (simp add: word_le_nat_alt)
  then have hw: "unat (frames_to_bytes ?r (ucast (ucast (rt_appl_ptr ?r mod ?B) :: u32))) = p * ?fb"
    using bytes small_offset [OF area] um pB by simp
  have uo: "unat (frames_to_bytes ?r (ucast (ucast off :: u32))) = unat off * ?fb"
    using bytes small_offset [OF area off] off by (simp add: word_le_nat_alt)
  have un: "unat (frames_to_bytes ?r n) = unat n * ?fb" using bytes n room by simp
  have cu: "copy_from_user (drop (unat off * ?fb) mem) (unat n * ?fb) = (bs, True)"
    using mem by (simp add: copy_from_user_def bs_def add_mult_distrib)
  have u: "upd_rt s (put_bytes (p * ?fb) bs) w = upd_rt s (\<lambda>_. r1) w"
    by (simp add: upd_rt_def upd_sub_def put_bytes_replace r1_def rt_def)
  have t: "snd_pcm_lib_write_transfer ops s (ucast (rt_appl_ptr ?r mod ?B)) (ucast off) n (w, mem) =
      (upd_rt s (\<lambda>_. r1) w, mem, Inr ())"
    by (simp add: snd_pcm_lib_write_transfer_def copy Let_def hw uo un cu u)
  have st: "rt_state r1 \<notin> {S_XRUN, S_SUSPENDED}" using state by (simp add: r1_def)
  obtain w' where w': "transfer_chunk ops (snd_pcm_lib_write_transfer ops) s off n others (w, mem) = (w', mem, Inr ())"
    "stream_becomes s r' w w'"
    using transfer_chunk_success [where transfer = "snd_pcm_lib_write_transfer ops" and w = w and off = off, OF t idle st r'_def]
    by blast
  have adv: "advance_appl_ptr r1 (rt_appl_ptr ?r) n = advance_appl_ptr ?r (rt_appl_ptr ?r) n"
    by (simp add: advance_appl_ptr_def r1_def)
  have q: "r' = ?r\<lparr>rt_dma_area := replace (unat (rt_appl_ptr ?r) mod unat ?B * ?fb) bs (rt_dma_area ?r),
      rt_appl_ptr := advance_appl_ptr ?r (rt_appl_ptr ?r) n\<rparr>"
    using adv by (simp add: r'_def r1_def p_def)
  note E = enqueue_chunk [OF ring area room n fit len q]
  have frames: "map (nth_frame ?fb bs) [0..<unat n] = map (nth_frame ?fb (drop (unat off * ?fb) mem)) [0..<unat n]"
    by (simp add: bs_def nth_frame_take)
  have same: "rt_state r' = rt_state ?r" "rt_trigger_master r' = rt_trigger_master ?r"
    "rt_silence_size r' = rt_silence_size ?r" "rt_buffer_size r' = rt_buffer_size ?r" "frame_len r' = frame_len ?r"
    by (simp_all add: q frame_len_def)
  have a: "rt_appl_ptr ?r < rt_boundary ?r" using ring by (simp add: ring_wf_def)
  have "unat (rt_appl_ptr r') = (unat (rt_appl_ptr ?r) + unat n) mod unat (rt_boundary ?r)"
    using advance_appl_ptr_mod [OF ring a, of n] n room by (simp add: q)
  then have "unat (rt_appl_ptr r') mod unat ?B = (unat (rt_appl_ptr ?r) + unat n) mod unat ?B"
    using ring by (simp add: ring_wf_def mod_mod_cancel)
  with w' E same show ?thesis unfolding frames by blast
qed

section \<open>The loop\<close>

text \<open>A stream that frames can be written to: its ring is in order and needs no silence.\<close>

definition writable :: "nat \<Rightarrow> 'h pcm_world \<Rightarrow> bool" where
  "writable s w \<longleftrightarrow> ring_wf (rt w s) \<and> area_wf (rt w s) \<and>
     unat (snd_pcm_playback_avail (rt w s)) \<le> unat (rt_buffer_size (rt w s)) \<and>
     rt_silence_size (rt w s) = 0 \<and> playback w s \<and> s \<in> set (group_members w s) \<and> master_wf w"

definition chunks_needed :: "runtime \<Rightarrow> nat \<Rightarrow> nat" where
  "chunks_needed r n = (if n = 0 then 0
     else if unat (rt_appl_ptr r) mod unat (rt_buffer_size r) + n \<le> unat (rt_buffer_size r) then 1 else 2)"

lemma auto_start_effect:
  assumes drv: "marking_driver ops" and w: "writable s w" and state: "rt_state (rt w s) \<notin> {S_XRUN, S_SUSPENDED}"
  shows "\<exists>w' r. auto_start ops s w = Some (w', r) \<and> queue_frame s w w' \<and> writable s w' \<and>
    (r = Inr () \<longrightarrow> rt_state (rt w' s) \<notin> {S_XRUN, S_SUSPENDED}) \<and>
    (rt_state (rt w s) \<noteq> S_PREPARED \<longrightarrow> w' = w \<and> r = Inr ())"
proof (cases "rt_state (rt w s) = S_PREPARED \<and>
    sint (snd_pcm_playback_hw_avail (rt w s)) \<ge> sint (rt_start_threshold (rt w s))")
  case True
  have m: "master_wf w" using w by (simp add: writable_def)
  obtain w' r where st: "snd_pcm_start ops s w = Some (w', r)" and m': "master_wf w'"
    using marking_driver.start_returns [OF drv m, of S_RUNNING s] by (auto simp: snd_pcm_start_def)
  have q: "queue_frame s w w'" by (rule start_queue_frame [OF st])
  have silent: "rt_silence_size (rt w s) = 0" using w by (simp add: writable_def)
  have "rt_state (rt w' s) = S_RUNNING" if "r = Inr ()"
    using start.action_reaches [of ops S_RUNNING s w w' "()" s] st that w
    by (simp add: snd_pcm_start_def writable_def)
  moreover have "writable s w'"
    using w m' by (simp add: writable_def queue_frame_queues [OF q silent])
  ultimately show ?thesis using st q True by (auto simp: auto_start_def)
next
  case False
  then show ?thesis using w state by (auto simp: auto_start_def)
qed

lemma chunk_frames_within:
  assumes "unat n \<le> unat avail" "rt_buffer_size r \<noteq> 0"
  shows "unat (chunk_frames r n avail) =
    min (unat n) (unat (rt_buffer_size r) - unat (rt_appl_ptr r) mod unat (rt_buffer_size r))"
proof -
  have "rt_appl_ptr r mod rt_buffer_size r \<le> rt_buffer_size r"
    using assms(2) by (simp add: word_le_nat_alt unat_mod order_less_imp_le unat_gt_0)
  then have "unat (rt_buffer_size r - rt_appl_ptr r mod rt_buffer_size r) =
      unat (rt_buffer_size r) - unat (rt_appl_ptr r) mod unat (rt_buffer_size r)"
    by (simp add: unat_sub_nowrap unat_mod)
  then show ?thesis using assms(1) by (simp add: chunk_frames_def Let_def word_less_nat_alt)
qed

text \<open>Writing no more frames than there is room for never waits.\<close>

lemma write_loop_enqueues:
  assumes drv: "marking_driver ops" and copy: "op_copy ops = None"
    and w: "writable s w" and state: "rt_state (rt w s) \<notin> {S_XRUN, S_SUSPENDED}"
    and avail: "avail = snd_pcm_playback_avail (rt w s)" and n: "unat n \<le> unat avail"
    and off: "unat xfer + unat n \<le> unat (rt_buffer_size (rt w s))"
    and mem: "(unat xfer + unat n) * frame_len (rt w s) \<le> length mem"
    and ds: "chunks_needed (rt w s) (unat n) \<le> length ds" "\<forall>d\<in>set ds. rl_others d = id"
  shows "\<exists>w' k res ds'. write_loop ops (snd_pcm_lib_write_transfer ops) nb s ds n xfer avail w mem =
      Some (w', mem, Some (xfer + k, res), ds') \<and>
    unat k \<le> unat n \<and> (n \<noteq> 0 \<longrightarrow> k \<noteq> 0) \<and> (res = Inr () \<longrightarrow> k = n) \<and>
    (rt_state (rt w s) \<noteq> S_PREPARED \<longrightarrow> res = Inr () \<and> rt_state (rt w' s) = rt_state (rt w s)) \<and>
    writable s w' \<and> frame_len (rt w' s) = frame_len (rt w s) \<and>
    playback_queue (rt w' s) = playback_queue (rt w s) @
      map (nth_frame (frame_len (rt w s)) (drop (unat xfer * frame_len (rt w s)) mem)) [0..<unat k]"
  using w state avail n off mem ds
proof (induction "unat n" arbitrary: ds n xfer avail w rule: less_induct)
  case less
  let ?r = "rt w s" and ?fb = "frame_len (rt w s)"
  let ?B = "unat (rt_buffer_size ?r)" and ?p = "unat (rt_appl_ptr ?r) mod unat (rt_buffer_size ?r)"
  have ring: "ring_wf ?r" and area: "area_wf ?r" and room: "unat avail \<le> ?B"
    using less.prems(1,3) by (simp_all add: writable_def)
  show ?case
  proof (cases "n = 0")
    case True
    then have "write_loop ops (snd_pcm_lib_write_transfer ops) nb s ds n xfer avail w mem =
        Some (w, mem, Some (xfer + 0, Inr ()), ds)" by (subst write_loop.simps) simp
    then show ?thesis using less.prems(1) True by (intro exI conjI) auto
  next
    case False
    define f where "f = chunk_frames ?r n avail"
    have B: "0 < ?B" "rt_buffer_size ?r \<noteq> 0" using ring_bounds(2) [OF ring] by auto
    then have p: "?p < ?B" by simp
    have uf: "unat f = min (unat n) (?B - ?p)"
      unfolding f_def by (rule chunk_frames_within [OF less.prems(4) B(2)])
    have n0: "0 < unat n" using False by (simp add: unat_gt_0)
    then have f0: "0 < unat f" using uf p by simp
    then have fz: "f \<noteq> 0" by auto
    have fn: "unat f \<le> unat n" using uf by simp
    have sub: "unat (n - f) = unat n - unat f" using fn by (simp add: unat_sub_nowrap word_le_nat_alt)
    have add: "unat (xfer + f) = unat xfer + unat f"
      by (rule unat_add_nowrap) (use less.prems(5) fn ring_bounds(1) [OF ring] in simp)
    have avail0: "avail \<noteq> 0" using n0 less.prems(4) by auto
    obtain d ds2 where dd: "ds = d # ds2" using less.prems(7) n0 by (cases ds) (auto simp: chunks_needed_def split: if_splits)
    have fit: "?p + unat f \<le> ?B" using uf p by simp
    have memf: "(unat xfer + unat f) * ?fb \<le> length mem"
      by (rule order_trans [OF mult_le_mono1 less.prems(6)]) (use fn in simp)
    have xo: "xfer \<le> rt_buffer_size ?r" using less.prems(5) by (simp add: word_le_nat_alt)
    have idle: "rl_others d = id" using less.prems(8) dd by simp
    obtain w2 r2 where
      c: "transfer_chunk ops (snd_pcm_lib_write_transfer ops) s xfer f (rl_others d) (w, mem) = (w2, mem, Inr ())"
      and b: "stream_becomes s r2 w w2" and r2: "rt_state r2 = rt_state ?r" "rt_trigger_master r2 = rt_trigger_master ?r"
        "rt_silence_size r2 = rt_silence_size ?r" "rt_buffer_size r2 = rt_buffer_size ?r" "frame_len r2 = ?fb"
        "ring_wf r2" "area_wf r2" "unat (rt_appl_ptr r2) mod ?B = (unat (rt_appl_ptr ?r) + unat f) mod ?B"
        "unat (snd_pcm_playback_avail r2) = unat avail - unat f"
        "playback_queue r2 = playback_queue ?r @ map (nth_frame ?fb (drop (unat xfer * ?fb) mem)) [0..<unat f]"
      using write_chunk [OF copy idle ring area, of f xfer mem] less.prems(1,2,3,4) fn fit xo memf
      by (auto simp: writable_def)
    note same = stream_becomes_same [OF b]
    have "unat avail - unat f \<le> ?B" using room by simp
    then have w2: "writable s w2"
      using less.prems(1,3) r2 stream_becomes_masters [OF b r2(2)]
      by (simp add: writable_def same)
    have st2: "rt_state (rt w2 s) \<notin> {S_XRUN, S_SUSPENDED}" using less.prems(2) r2(1) by (simp add: same)
    obtain w3 q where as: "auto_start ops s w2 = Some (w3, q)" and qf: "queue_frame s w2 w3" and w3: "writable s w3"
      and ok: "q = Inr () \<longrightarrow> rt_state (rt w3 s) \<notin> {S_XRUN, S_SUSPENDED}"
      and quiet: "rt_state (rt w2 s) \<noteq> S_PREPARED \<longrightarrow> w3 = w2 \<and> q = Inr ()"
      using auto_start_effect [OF drv w2 st2] by blast
    have "rt_silence_size (rt w2 s) = 0" using w2 by (simp add: writable_def)
    note Q = queue_frame_queues [OF qf this]
    have r3: "frame_len (rt w3 s) = ?fb" "rt_buffer_size (rt w3 s) = rt_buffer_size ?r"
      "unat (snd_pcm_playback_avail (rt w3 s)) = unat avail - unat f"
      "playback_queue (rt w3 s) = playback_queue ?r @ map (nth_frame ?fb (drop (unat xfer * ?fb) mem)) [0..<unat f]"
      "unat (rt_appl_ptr (rt w3 s)) mod ?B = (unat (rt_appl_ptr ?r) + unat f) mod ?B"
      using r2 by (simp_all add: Q same)
    have step: "write_loop ops (snd_pcm_lib_write_transfer ops) nb s ds n xfer avail w mem =
        (case q of Inl e \<Rightarrow> Some (w3, mem, Some (xfer + f, Inl e), ds2)
         | Inr _ \<Rightarrow> write_loop ops (snd_pcm_lib_write_transfer ops) nb s ds2 (n - f) (xfer + f) (avail - f) w3 mem)"
      using False avail0 fz by (subst write_loop.simps) (simp add: dd c as flip: f_def split: sum.split)
    show ?thesis
    proof (cases q)
      case (Inl e)
      then have "rt_state ?r = S_PREPARED" using quiet r2(1) by (auto simp: same)
      then show ?thesis using Inl step w3 r3 fn f0 fz
        by (intro exI [of _ w3] exI [of _ f] exI [of _ "Inl e"] exI [of _ ds2]) simp
    next
      case (Inr x)
      have av: "unat (avail - f) = unat avail - unat f"
        using fn less.prems(4) by (simp add: unat_sub_nowrap word_le_nat_alt)
      have need: "chunks_needed (rt w3 s) (unat (n - f)) \<le> length ds2"
      proof (cases "?p + unat n \<le> ?B")
        case True
        then show ?thesis using uf sub by (simp add: chunks_needed_def)
      next
        case beyond: False
        then have f': "unat f = ?B - ?p" using uf by simp
        have "(?p + unat f) mod ?B = 0" using f' p by simp
        then have "unat (rt_appl_ptr (rt w3 s)) mod ?B = 0" using r3(5) by (simp add: mod_simps)
        moreover have "2 \<le> length ds" using less.prems(7) n0 beyond by (simp add: chunks_needed_def)
        moreover have "unat (n - f) \<le> ?B" using less.prems(5) sub by simp
        ultimately show ?thesis using dd by (simp add: chunks_needed_def r3(2))
      qed
      have IH: "\<exists>w' k res ds'. write_loop ops (snd_pcm_lib_write_transfer ops) nb s ds2 (n - f) (xfer + f) (avail - f) w3 mem =
          Some (w', mem, Some (xfer + f + k, res), ds') \<and>
        unat k \<le> unat (n - f) \<and> (n - f \<noteq> 0 \<longrightarrow> k \<noteq> 0) \<and> (res = Inr () \<longrightarrow> k = n - f) \<and>
        (rt_state (rt w3 s) \<noteq> S_PREPARED \<longrightarrow> res = Inr () \<and> rt_state (rt w' s) = rt_state (rt w3 s)) \<and>
        writable s w' \<and> frame_len (rt w' s) = frame_len (rt w3 s) \<and>
        playback_queue (rt w' s) = playback_queue (rt w3 s) @
          map (nth_frame (frame_len (rt w3 s)) (drop (unat (xfer + f) * frame_len (rt w3 s)) mem)) [0..<unat k]"
      proof (rule less.hyps)
        show "unat (n - f) < unat n" using sub f0 n0 by simp
        show "rt_state (rt w3 s) \<notin> {S_XRUN, S_SUSPENDED}" using ok Inr by simp
        show "avail - f = snd_pcm_playback_avail (rt w3 s)" using av r3(3) by (simp add: word_nat)
        show "unat (n - f) \<le> unat (avail - f)" using sub av less.prems(4) by simp
        show "unat (xfer + f) + unat (n - f) \<le> unat (rt_buffer_size (rt w3 s))"
          using add sub fn less.prems(5) r3(2) by simp
        show "(unat (xfer + f) + unat (n - f)) * frame_len (rt w3 s) \<le> length mem"
          using add sub fn less.prems(6) r3(1) by simp
        show "\<forall>d\<in>set ds2. rl_others d = id" using less.prems(8) dd by simp
      qed (use w3 need in simp_all)
      then obtain w' k res ds' where
        l: "write_loop ops (snd_pcm_lib_write_transfer ops) nb s ds2 (n - f) (xfer + f) (avail - f) w3 mem =
          Some (w', mem, Some (xfer + f + k, res), ds')" and
        R: "unat k \<le> unat (n - f)" "n - f \<noteq> 0 \<longrightarrow> k \<noteq> 0" "res = Inr () \<longrightarrow> k = n - f"
          "rt_state (rt w3 s) \<noteq> S_PREPARED \<longrightarrow> res = Inr () \<and> rt_state (rt w' s) = rt_state (rt w3 s)"
          "writable s w'" "frame_len (rt w' s) = ?fb"
          "playback_queue (rt w' s) = playback_queue (rt w3 s) @
            map (nth_frame ?fb (drop ((unat xfer + unat f) * ?fb) mem)) [0..<unat k]"
        unfolding r3(1) add by blast
      have ufk: "unat (f + k) = unat f + unat k"
      proof (rule unat_add_nowrap)
        have "unat f + unat k \<le> unat n" using R(1) sub fn by simp
        then have "unat f + unat k < 18446744073709551616" by (rule order_le_less_trans [OF _ unat_u64_lt])
        then show "unat f + unat k < 2 ^ LENGTH(64)" by simp
      qed
      have "map (nth_frame ?fb (drop (unat xfer * ?fb) mem)) [0..<unat f + unat k] =
          map (nth_frame ?fb (drop (unat xfer * ?fb) mem)) [0..<unat f] @
          map (nth_frame ?fb (drop ((unat xfer + unat f) * ?fb) mem)) [0..<unat k]"
        by (rule nth_equalityI) (auto simp: nth_append nth_frame_drop)
      then have queue: "playback_queue (rt w' s) = playback_queue ?r @
          map (nth_frame ?fb (drop (unat xfer * ?fb) mem)) [0..<unat (f + k)]"
        using R(7) r3(4) by (simp add: ufk)
      have "write_loop ops (snd_pcm_lib_write_transfer ops) nb s ds n xfer avail w mem =
          Some (w', mem, Some (xfer + (f + k), res), ds')"
        using step Inr l by (simp add: add.assoc)
      moreover have "unat (f + k) \<le> unat n" using ufk R(1) sub fn by simp
      moreover have "f + k \<noteq> 0" using ufk f0 by (metis add_is_0 unat_0 not_less_zero)
      moreover have "res = Inr () \<longrightarrow> f + k = n" using R(3) by simp
      moreover have "rt_state ?r \<noteq> S_PREPARED \<longrightarrow> res = Inr () \<and> rt_state (rt w' s) = rt_state ?r"
        using quiet R(4) r2(1) by (simp add: same)
      ultimately show ?thesis using R(5,6) queue by blast
    qed
  qed
qed

section \<open>Writing appends to the queue\<close>

lemma set_twake_queues [simp]:
  "playback_queue (rt (set_twake s n w) t) = playback_queue (rt w t)"
  "capture_queue (rt (set_twake s n w) t) = capture_queue (rt w t)"
  "rt_silence_size (rt (set_twake s n w) t) = rt_silence_size (rt w t)"
  "rt_state (rt (set_twake s n w) t) = rt_state (rt w t)"
  "master_wf (set_twake s n w) = master_wf w"
proof -
  show "master_wf (set_twake s n w) = master_wf w" by (rule master_edges_cong) (simp add: set_twake_def)
qed (simp_all add: set_twake_def playback_queue_def capture_queue_def frame_len_def snd_pcm_playback_avail_def
    snd_pcm_capture_avail_def Let_def)

text \<open>The end of a transfer leaves the queues alone.\<close>

lemma end_transfer_effect:
  assumes drv: "marking_driver ops" and m: "master_wf w" and z: "rt_silence_size (rt w s) = 0" and k: "k \<noteq> 0"
  shows "\<exists>w'. end_transfer ops s k res w = Some (w', Inr k) \<and>
    playback_queue (rt w' s) = playback_queue (rt w s) \<and> capture_queue (rt w' s) = capture_queue (rt w s)"
proof (cases res)
  case (Inl e)
  then show ?thesis using k by (simp add: end_transfer_def Let_def word_gt_0)
next
  case (Inr x)
  let ?w = "set_twake s 0 w"
  obtain w' q where u: "snd_pcm_update_state ops s ?w = Some (w', q)"
    using marking_driver.update_state_returns [OF drv, of ?w s] m by auto
  have zt: "rt_silence_size (rt ?w s) = 0" using z by simp
  note Q = queue_frame_queues [OF update_state_queue_frame [OF u] zt]
  show ?thesis using Inr k u Q by (simp add: end_transfer_def Let_def word_gt_0)
qed

text \<open>
  C2: \<open>snd_pcm_lib_write\<close> appends to the queue of frames. On a stream with a DMA area (whose driver
  has no \<open>copy\<close> callback) whose ring is in order after the update of the position and takes no
  silence, a write of at most as many frames as there is room for, undisturbed by others, returns
  without waiting after at most two chunks. The frames between the hardware's position and the
  application's are then the old ones followed by the frames of the user, across the end of the
  buffer and across the boundary. All frames are written, unless the stream was prepared and the
  driver refuses the start that the write causes; at least one frame is.
\<close>

theorem snd_pcm_lib_write_enqueues:
  assumes "marking_driver ops" "op_copy ops = None" "pcm_sanity_check ops s w = Inr ()"
    and "rt_access (rt w s) = 3" "rt_state (rt w s) \<in> {S_PREPARED, S_RUNNING, S_PAUSED}"
    and "refresh_position ops s w = Some w1" "rt_state (rt w1 s) \<notin> {S_XRUN, S_SUSPENDED}" "writable s w1"
    and "n \<noteq> 0" "n \<le> snd_pcm_playback_avail (rt w1 s)" "unat n * frame_len (rt w1 s) \<le> length mem"
    and "2 \<le> length ds" "\<forall>d\<in>set ds. rl_others d = id"
  shows "\<exists>w' k. snd_pcm_lib_write ops s ds n w mem = Some (w', mem, Inr k) \<and>
    0 < k \<and> k \<le> n \<and> (rt_state (rt w1 s) \<noteq> S_PREPARED \<longrightarrow> k = n) \<and>
    playback_queue (rt w' s) = playback_queue (rt w1 s) @ map (nth_frame (frame_len (rt w1 s)) mem) [0..<unat k]"
proof -
  let ?t = "snd_pcm_lib_write_transfer ops" and ?nb = "ss_f_nonblock (w_subs w s)" and ?a = "snd_pcm_playback_avail (rt w1 s)"
  have room: "unat n \<le> unat ?a" "unat ?a \<le> unat (rt_buffer_size (rt w1 s))"
    using assms(8,10) by (simp_all add: writable_def word_le_nat_alt)
  have need: "chunks_needed (rt w1 s) (unat n) \<le> length ds" using assms(12) by (simp add: chunks_needed_def)
  have "\<exists>w' k res ds'. write_loop ops ?t ?nb s ds n 0 ?a w1 mem = Some (w', mem, Some (0 + k, res), ds') \<and>
      unat k \<le> unat n \<and> (n \<noteq> 0 \<longrightarrow> k \<noteq> 0) \<and> (res = Inr () \<longrightarrow> k = n) \<and>
      (rt_state (rt w1 s) \<noteq> S_PREPARED \<longrightarrow> res = Inr () \<and> rt_state (rt w' s) = rt_state (rt w1 s)) \<and>
      writable s w' \<and> frame_len (rt w' s) = frame_len (rt w1 s) \<and>
      playback_queue (rt w' s) = playback_queue (rt w1 s) @
        map (nth_frame (frame_len (rt w1 s)) (drop (unat (0 :: u64) * frame_len (rt w1 s)) mem)) [0..<unat k]"
    by (rule write_loop_enqueues [OF assms(1,2,8,7) refl room(1) _ _ need assms(13)])
      (use room assms(11) in simp_all)
  then obtain w2 k res ds' where
    l: "write_loop ops ?t ?nb s ds n 0 ?a w1 mem = Some (w2, mem, Some (k, res), ds')"
    and k: "unat k \<le> unat n" "k \<noteq> 0" "res = Inr () \<longrightarrow> k = n" "rt_state (rt w1 s) \<noteq> S_PREPARED \<longrightarrow> res = Inr ()"
    and w2: "writable s w2"
    and q: "playback_queue (rt w2 s) = playback_queue (rt w1 s) @ map (nth_frame (frame_len (rt w1 s)) mem) [0..<unat k]"
    using assms(9) by auto
  obtain w' where e: "end_transfer ops s k res w2 = Some (w', Inr k)"
    "playback_queue (rt w' s) = playback_queue (rt w2 s)"
    using end_transfer_effect [OF assms(1) _ _ k(2), of w2 s res] w2 by (auto simp: writable_def)
  have "snd_pcm_lib_write ops s ds n w mem = Some (w', mem, Inr k)"
    using assms(3,4,5,6,9) l e(1) by (simp add: snd_pcm_lib_write_def snd_pcm_lib_write1_def)
  then show ?thesis using k q e(2) by (auto simp: word_gt_0 word_le_nat_alt)
qed

text \<open>A paused stream of 4-byte frames, whose ring and buffer wrap in the middle of the write.\<close>

definition write_world :: "unit pcm_world" where
  "write_world = upd_rt 0 (\<lambda>r. r\<lparr>rt_state := S_PAUSED, rt_access := 3, rt_frame_bits := 32,
     rt_dma_area := replicate 16384 0\<rparr>) queue_world"

definition idle_release :: "'h release" where
  "idle_release = \<lparr>rl_signal = False, rl_others = id, rl_timeout = False\<rparr>"

theorem snd_pcm_lib_write_enqueues_witness:
  "\<exists>w'. snd_pcm_lib_write still_ops 0 [idle_release, idle_release] 200 write_world (replicate 800 7) =
      Some (w', replicate 800 7, Inr 200) \<and>
    playback_queue (rt w' 0) = playback_queue (rt write_world 0) @
      map (nth_frame 4 (replicate 800 7)) [0..<200]"
proof -
  let ?mem = "replicate 800 7 :: u8 list" and ?w1 = "set_twake 0 1 write_world"
  define r where "r = demo_runtime\<lparr>rt_hw_ptr := 7000, rt_appl_ptr := 8100, rt_hw_ptr_base := 4096, rt_state := S_PAUSED,
    rt_access := 3, rt_frame_bits := 32, rt_dma_area := replicate 16384 0\<rparr>"
  have rt: "rt write_world 0 = r" by (simp add: write_world_def queue_world_def r_def)
  have rt1: "rt ?w1 0 = r\<lparr>rt_twake := 1\<rparr>" by (simp add: set_twake_def rt)
  have avail: "snd_pcm_playback_avail (rt ?w1 0) = 2996"
    by (simp add: rt1 r_def demo_runtime_def zero_runtime_def snd_pcm_playback_avail_def sint_u64)
  have len: "frame_len (rt ?w1 0) = 4" by (simp add: rt1 r_def frame_len_def)
  have m: "master_wf ?w1"
  proof -
    have "master_wf write_world = master_wf demo_world"
      by (rule master_edges_cong) (simp add: write_world_def queue_world_def)
    then show ?thesis using demo_world_masters by simp
  qed
  have wr: "writable 0 ?w1"
    unfolding writable_def avail
  proof (intro conjI)
    show "ring_wf (rt ?w1 0)" by (simp add: rt1 r_def ring_wf_def demo_runtime_def)
    show "area_wf (rt ?w1 0)" using len by (simp add: area_wf_def rt1 r_def demo_runtime_def)
    show "playback ?w1 0" "0 \<in> set (group_members ?w1 0)"
      by (simp_all add: set_twake_def write_world_def queue_world_def, simp add: playback_def demo_world_def)
  qed (use m in \<open>simp_all add: rt1 r_def demo_runtime_def zero_runtime_def\<close>)
  have "\<exists>w' k. snd_pcm_lib_write still_ops 0 [idle_release, idle_release] 200 write_world ?mem = Some (w', ?mem, Inr k) \<and>
      0 < k \<and> k \<le> 200 \<and> (rt_state (rt ?w1 0) \<noteq> S_PREPARED \<longrightarrow> k = 200) \<and>
      playback_queue (rt w' 0) = playback_queue (rt ?w1 0) @ map (nth_frame (frame_len (rt ?w1 0)) ?mem) [0..<unat k]"
  proof (rule snd_pcm_lib_write_enqueues [OF still.marking_driver_axioms _ _ _ _ _ _ wr])
    show "refresh_position still_ops 0 write_world = Some ?w1"
      by (simp add: refresh_position_def Let_def avail_min_or_1_def rt) (simp add: r_def demo_runtime_def zero_runtime_def)
  qed (simp_all add: avail len, simp_all add: rt rt1 r_def still_ops_def pcm_sanity_check_def idle_release_def)
  moreover have "rt_state (rt ?w1 0) \<noteq> S_PREPARED" by (simp only: rt1) (simp add: r_def)
  ultimately show ?thesis using len by auto
qed

end
