(* ===== verification/Pcm_Read.thy ===== *)
theory Pcm_Read
  imports Pcm_Write
begin

text \<open>
  \<open>snd_pcm_lib_read\<close> implements the removal of frames from the beginning of the queue of recorded
  frames, and puts them in order into the user's buffer.
\<close>

section \<open>A chunk\<close>

lemma capture_avail_advance:
  assumes "ring_wf r" "unat n \<le> unat (snd_pcm_capture_avail r)" "unat n \<le> unat (rt_buffer_size r)"
  shows "unat (snd_pcm_capture_avail (r\<lparr>rt_appl_ptr := advance_appl_ptr r (rt_appl_ptr r) n\<rparr>)) =
    unat (snd_pcm_capture_avail r) - unat n"
proof -
  let ?r' = "r\<lparr>rt_appl_ptr := advance_appl_ptr r (rt_appl_ptr r) n\<rparr>" and ?M = "int (unat (rt_boundary r))"
  have a: "rt_appl_ptr r < rt_boundary r" using assms(1) by (simp add: ring_wf_def)
  let ?d = "int (unat (rt_hw_ptr r)) - int (unat (rt_appl_ptr r))"
  have v: "int (unat (snd_pcm_capture_avail r)) = ?d mod ?M" by (rule capture_avail_mod [OF assms(1)])
  have "int (unat (snd_pcm_capture_avail ?r')) =
      (int (unat (rt_hw_ptr r)) - (int (unat (rt_appl_ptr r)) + int (unat n)) mod ?M) mod ?M"
    using capture_avail_mod [OF ring_wf_advance [OF assms(1,3)]] advance_appl_ptr_mod [OF assms(1) a assms(3)]
    by (simp add: zmod_int)
  also have "\<dots> = (?d mod ?M - int (unat n)) mod ?M" by (simp add: mod_simps algebra_simps)
  also have "\<dots> = int (unat (snd_pcm_capture_avail r) - unat n) mod ?M" using assms(2) by (simp add: v of_nat_diff)
  also have "\<dots> = int (unat (snd_pcm_capture_avail r) - unat n)"
  proof -
    have "?d mod ?M < ?M" using a by (intro pos_mod_bound) (simp add: word_less_nat_alt)
    then show ?thesis using v by (intro mod_pos_pos_trivial) simp_all
  qed
  finally show ?thesis by simp
qed

lemma dequeue_chunk:
  assumes ring: "ring_wf r" and n: "unat n \<le> unat (snd_pcm_capture_avail r)"
    and fit: "unat (rt_appl_ptr r) mod unat (rt_buffer_size r) + unat n \<le> unat (rt_buffer_size r)"
    and r': "r' = r\<lparr>rt_appl_ptr := advance_appl_ptr r (rt_appl_ptr r) n\<rparr>"
  shows "capture_queue r' = drop (unat n) (capture_queue r)"
    and "take (unat n) (capture_queue r) = map (nth_frame (frame_len r)
      (drop (unat (rt_appl_ptr r) mod unat (rt_buffer_size r) * frame_len r) (rt_dma_area r))) [0..<unat n]"
    and "unat (snd_pcm_capture_avail r') = unat (snd_pcm_capture_avail r) - unat n"
proof -
  let ?B = "unat (rt_buffer_size r)" and ?a = "unat (rt_appl_ptr r)" and ?v = "unat (snd_pcm_capture_avail r)"
    and ?fb = "frame_len r"
  have nB: "unat n \<le> ?B" using fit by simp
  show v: "unat (snd_pcm_capture_avail r') = ?v - unat n"
    unfolding r' by (rule capture_avail_advance [OF ring n nB])
  have a: "rt_appl_ptr r < rt_boundary r" using ring by (simp add: ring_wf_def)
  have "unat (rt_appl_ptr r') mod ?B = (?a + unat n) mod ?B"
    using advance_appl_ptr_mod [OF ring a nB] ring by (simp add: r' ring_wf_def mod_mod_cancel)
  then have "capture_queue r' = ring_frames ?fb ?B (rt_dma_area r) (?a + unat n) (?v - unat n)"
    using v ring_frames_cong [of "unat (rt_appl_ptr r')" ?B "?a + unat n" ?fb "rt_dma_area r" "?v - unat n"]
    by (simp add: capture_queue_def r' frame_len_def)
  then show "capture_queue r' = drop (unat n) (capture_queue r)"
    using n by (simp add: capture_queue_def ring_frames_drop)
  have "take (unat n) (capture_queue r) = ring_frames ?fb ?B (rt_dma_area r) ?a (unat n)"
    using n by (simp add: capture_queue_def ring_frames_def take_map)
  then show "take (unat n) (capture_queue r) = map (nth_frame ?fb (drop (?a mod ?B * ?fb) (rt_dma_area r))) [0..<unat n]"
    using ring_frames_chunk [OF fit] by simp
qed

text \<open>A chunk goes to frames \<open>off\<close> to \<open>off + n\<close> of the user's buffer.\<close>

lemma read_chunk:
  assumes copy: "op_copy ops = None" and idle: "others = id"
    and ring: "ring_wf (rt w s)" and area: "area_wf (rt w s)"
    and n: "unat n \<le> unat (snd_pcm_capture_avail (rt w s))"
    and fit: "unat (rt_appl_ptr (rt w s)) mod unat (rt_buffer_size (rt w s)) + unat n \<le> unat (rt_buffer_size (rt w s))"
    and off: "off \<le> rt_buffer_size (rt w s)" and mem: "(unat off + unat n) * frame_len (rt w s) \<le> length mem"
    and state: "rt_state (rt w s) \<notin> {S_XRUN, S_SUSPENDED}"
  shows "\<exists>w' r' bs. transfer_chunk ops (snd_pcm_lib_read_transfer ops) s off n others (w, mem) =
      (w', replace (unat off * frame_len (rt w s)) bs mem, Inr ()) \<and>
    stream_becomes s r' w w' \<and> rt_state r' = rt_state (rt w s) \<and> rt_trigger_master r' = rt_trigger_master (rt w s) \<and>
    rt_silence_size r' = rt_silence_size (rt w s) \<and> rt_buffer_size r' = rt_buffer_size (rt w s) \<and>
    frame_len r' = frame_len (rt w s) \<and> ring_wf r' \<and> area_wf r' \<and>
    unat (rt_appl_ptr r') mod unat (rt_buffer_size (rt w s)) =
      (unat (rt_appl_ptr (rt w s)) + unat n) mod unat (rt_buffer_size (rt w s)) \<and>
    unat (snd_pcm_capture_avail r') = unat (snd_pcm_capture_avail (rt w s)) - unat n \<and>
    length bs = unat n * frame_len (rt w s) \<and>
    map (nth_frame (frame_len (rt w s)) bs) [0..<unat n] = take (unat n) (capture_queue (rt w s)) \<and>
    capture_queue r' = drop (unat n) (capture_queue (rt w s))"
proof -
  let ?r = "rt w s" and ?fb = "frame_len (rt w s)" and ?B = "rt_buffer_size (rt w s)"
  define p where "p = unat (rt_appl_ptr ?r) mod unat ?B"
  define bs where "bs = take (unat n * ?fb) (drop (p * ?fb) (rt_dma_area ?r))"
  define r' where "r' = ?r\<lparr>rt_appl_ptr := advance_appl_ptr ?r (rt_appl_ptr ?r) n\<rparr>"
  have cap: "unat ?B * ?fb \<le> length (rt_dma_area ?r)" "unat ?B * ?fb < 2 ^ 60" using area by (simp_all add: area_wf_def)
  have "(p + unat n) * ?fb \<le> length (rt_dma_area ?r)"
    by (rule order_trans [OF mult_le_mono1 cap(1)]) (use fit in \<open>simp add: p_def\<close>)
  then have len: "length bs = unat n * ?fb" by (simp add: bs_def add_mult_distrib)
  have bytes: "unat x \<le> unat ?B \<Longrightarrow> unat (frames_to_bytes ?r x) = unat x * ?fb" for x
    by (rule frames_to_bytes_exact [OF area order_le_less_trans [OF mult_le_mono1 cap(2)]])
  have B: "0 < unat ?B" "?B \<noteq> 0" using ring_bounds(2) [OF ring] by auto
  have um: "unat (rt_appl_ptr ?r mod ?B) = p" by (simp add: p_def unat_mod)
  have pB: "p \<le> unat ?B" using B by (simp add: p_def order_less_imp_le)
  have "rt_appl_ptr ?r mod ?B \<le> ?B" using pB um by (simp add: word_le_nat_alt)
  then have hw: "unat (frames_to_bytes ?r (ucast (ucast (rt_appl_ptr ?r mod ?B) :: u32))) = p * ?fb"
    using bytes small_offset [OF area] um pB by simp
  have uo: "unat (frames_to_bytes ?r (ucast (ucast off :: u32))) = unat off * ?fb"
    using bytes small_offset [OF area off] off by (simp add: word_le_nat_alt)
  have nB: "unat n \<le> unat ?B" using fit by simp
  have un: "unat (frames_to_bytes ?r n) = unat n * ?fb" using bytes nB by simp
  have fits: "unat n * ?fb \<le> length mem - unat off * ?fb" using mem by (simp add: add_mult_distrib)
  then have cu: "copy_to_user (drop (unat off * ?fb) mem) bs = (bs @ drop (unat n * ?fb) (drop (unat off * ?fb) mem), True)"
    using len by (simp add: copy_to_user_def)
  have up: "upd_rt s (\<lambda>_. ?r) w = w" by (simp add: upd_rt_def upd_sub_def rt_def)
  have t: "snd_pcm_lib_read_transfer ops s (ucast (rt_appl_ptr ?r mod ?B)) (ucast off) n (w, mem) =
      (upd_rt s (\<lambda>_. ?r) w, replace (unat off * ?fb) bs mem, Inr ())"
    using len by (simp add: snd_pcm_lib_read_transfer_def copy Let_def hw uo un get_bytes_def up cu replace_def
        add.commute flip: bs_def)
  obtain w' where w': "transfer_chunk ops (snd_pcm_lib_read_transfer ops) s off n others (w, mem) =
      (w', replace (unat off * ?fb) bs mem, Inr ())" "stream_becomes s r' w w'"
    using transfer_chunk_success [where transfer = "snd_pcm_lib_read_transfer ops" and w = w and off = off,
        OF t idle state r'_def] by blast
  note D = dequeue_chunk [OF ring n fit r'_def]
  have frames: "map (nth_frame ?fb bs) [0..<unat n] = take (unat n) (capture_queue ?r)"
    unfolding D(2) by (simp add: bs_def nth_frame_take flip: p_def)
  have same: "rt_state r' = rt_state ?r" "rt_trigger_master r' = rt_trigger_master ?r"
    "rt_silence_size r' = rt_silence_size ?r" "rt_buffer_size r' = rt_buffer_size ?r" "frame_len r' = frame_len ?r"
    "area_wf r'"
    using area by (simp_all add: r'_def frame_len_def area_wf_def)
  have ring': "ring_wf r'" unfolding r'_def by (rule ring_wf_advance [OF ring nB])
  have a: "rt_appl_ptr ?r < rt_boundary ?r" using ring by (simp add: ring_wf_def)
  have "unat (rt_appl_ptr r') mod unat ?B = (unat (rt_appl_ptr ?r) + unat n) mod unat ?B"
    using advance_appl_ptr_mod [OF ring a nB] ring by (simp add: r'_def ring_wf_def mod_mod_cancel)
  with w' D(1,3) same ring' len frames show ?thesis by blast
qed

section \<open>The loop\<close>

definition readable :: "nat \<Rightarrow> 'h pcm_world \<Rightarrow> bool" where
  "readable s w \<longleftrightarrow> ring_wf (rt w s) \<and> area_wf (rt w s) \<and> rt_silence_size (rt w s) = 0 \<and> master_wf w"

text \<open>The frames a chunk puts into user memory stay when the rest is read behind them.\<close>

lemma frames_behind_chunk:
  assumes "length bs = f * fb" "(x + f) * fb \<le> length mem"
    and "take ((x + f) * fb) mem' = take ((x + f) * fb) (replace (x * fb) bs mem)"
  shows "map (nth_frame fb (drop (x * fb) mem')) [0..<f + n] =
    map (nth_frame fb bs) [0..<f] @ map (nth_frame fb (drop ((x + f) * fb) mem')) [0..<n]"
proof (rule nth_equalityI)
  fix i assume i: "i < length (map (nth_frame fb (drop (x * fb) mem')) [0..<f + n])"
  show "map (nth_frame fb (drop (x * fb) mem')) [0..<f + n] ! i =
    (map (nth_frame fb bs) [0..<f] @ map (nth_frame fb (drop ((x + f) * fb) mem')) [0..<n]) ! i"
  proof (cases "i < f")
    case True
    have "nth_frame fb mem' (x + i) = nth_frame fb (take ((x + f) * fb) mem') (x + i)"
      using True by (simp add: nth_frame_take)
    also have "\<dots> = nth_frame fb (replace (x * fb) bs mem) (x + i)"
      unfolding assms(3) using True by (simp add: nth_frame_take)
    also have "\<dots> = nth_frame fb bs i" using True by (simp add: nth_frame_replace [OF assms(1,2)])
    finally show ?thesis using True by (simp add: nth_append nth_frame_drop)
  next
    case False
    then show ?thesis using i by (simp add: nth_append nth_frame_drop)
  qed
qed simp

lemma read_loop_dequeues:
  assumes copy: "op_copy ops = None"
    and w: "readable s w" and state: "rt_state (rt w s) \<notin> {S_XRUN, S_SUSPENDED}"
    and avail: "avail = snd_pcm_capture_avail (rt w s)" and n: "unat n \<le> unat avail"
    and off: "unat xfer + unat n \<le> unat (rt_buffer_size (rt w s))"
    and mem: "(unat xfer + unat n) * frame_len (rt w s) \<le> length mem"
    and ds: "chunks_needed (rt w s) (unat n) \<le> length ds" "\<forall>d\<in>set ds. rl_others d = id"
  shows "\<exists>w' mem' ds'. read_loop ops (snd_pcm_lib_read_transfer ops) nb s ds n xfer avail w mem =
      Some (w', mem', Some (xfer + n, Inr ()), ds') \<and> readable s w' \<and> length mem' = length mem \<and>
    take (unat xfer * frame_len (rt w s)) mem' = take (unat xfer * frame_len (rt w s)) mem \<and>
    map (nth_frame (frame_len (rt w s)) (drop (unat xfer * frame_len (rt w s)) mem')) [0..<unat n] =
      take (unat n) (capture_queue (rt w s)) \<and>
    drop ((unat xfer + unat n) * frame_len (rt w s)) mem' = drop ((unat xfer + unat n) * frame_len (rt w s)) mem \<and>
    capture_queue (rt w' s) = drop (unat n) (capture_queue (rt w s))"
  using w state avail n off mem ds
proof (induction "unat n" arbitrary: ds n xfer avail w mem rule: less_induct)
  case less
  let ?r = "rt w s" and ?fb = "frame_len (rt w s)" and ?t = "snd_pcm_lib_read_transfer ops"
  let ?B = "unat (rt_buffer_size ?r)" and ?p = "unat (rt_appl_ptr ?r) mod unat (rt_buffer_size ?r)"
  have ring: "ring_wf ?r" and area: "area_wf ?r"
    using less.prems(1) by (simp_all add: readable_def)
  show ?case
  proof (cases "n = 0")
    case True
    then have "read_loop ops ?t nb s ds n xfer avail w mem = Some (w, mem, Some (xfer + n, Inr ()), ds)"
      by (subst read_loop.simps) simp
    then show ?thesis using less.prems(1) True by (intro exI conjI) auto
  next
    case False
    define f where "f = chunk_frames ?r n avail"
    have B: "0 < ?B" "rt_buffer_size ?r \<noteq> 0" using ring_bounds(2) [OF ring] by auto
    then have p: "?p < ?B" by simp
    have uf: "unat f = min (unat n) (?B - ?p)"
      unfolding f_def by (rule chunk_frames_within [OF less.prems(4) B(2)])
    have n0: "0 < unat n" using False by (simp add: unat_gt_0)
    then have f0: "0 < unat f" using uf p by simp
    then have fz: "f \<noteq> 0" by auto
    have fn: "unat f \<le> unat n" using uf by simp
    have sub: "unat (n - f) = unat n - unat f" using fn by (simp add: unat_sub_nowrap word_le_nat_alt)
    have add: "unat (xfer + f) = unat xfer + unat f"
      by (rule unat_add_nowrap) (use less.prems(5) fn ring_bounds(1) [OF ring] in simp)
    have split: "unat n = unat f + unat (n - f)" using sub fn by simp
    have avail0: "avail \<noteq> 0" using n0 less.prems(4) by auto
    obtain d ds2 where dd: "ds = d # ds2" using less.prems(7) n0 by (cases ds) (auto simp: chunks_needed_def split: if_splits)
    have fit: "?p + unat f \<le> ?B" using uf p by simp
    have memf: "(unat xfer + unat f) * ?fb \<le> length mem"
      by (rule order_trans [OF mult_le_mono1 less.prems(6)]) (use fn in simp)
    have xo: "xfer \<le> rt_buffer_size ?r" using less.prems(5) by (simp add: word_le_nat_alt)
    have idle: "rl_others d = id" using less.prems(8) dd by simp
    obtain w2 r2 bs where
      c: "transfer_chunk ops ?t s xfer f (rl_others d) (w, mem) = (w2, replace (unat xfer * ?fb) bs mem, Inr ())"
      and b: "stream_becomes s r2 w w2" and r2: "rt_state r2 = rt_state ?r" "rt_trigger_master r2 = rt_trigger_master ?r"
        "rt_silence_size r2 = rt_silence_size ?r" "rt_buffer_size r2 = rt_buffer_size ?r" "frame_len r2 = ?fb"
        "ring_wf r2" "area_wf r2" "unat (rt_appl_ptr r2) mod ?B = (unat (rt_appl_ptr ?r) + unat f) mod ?B"
        "unat (snd_pcm_capture_avail r2) = unat avail - unat f"
      and bs: "length bs = unat f * ?fb" "map (nth_frame ?fb bs) [0..<unat f] = take (unat f) (capture_queue ?r)"
        "capture_queue r2 = drop (unat f) (capture_queue ?r)"
      using read_chunk [OF copy idle ring area, of f xfer mem] less.prems(1,2,3,4) fn fit xo memf
      by (auto simp: readable_def)
    define mem1 where "mem1 = replace (unat xfer * ?fb) bs mem"
    have fits: "unat xfer * ?fb + length bs \<le> length mem" using memf bs(1) by (simp add: add_mult_distrib)
    have len1: "length mem1 = length mem" using fits by (simp add: mem1_def length_replace)
    note same = stream_becomes_same [OF b]
    have w2: "readable s w2"
      using less.prems(1) r2 stream_becomes_masters [OF b r2(2)] by (simp add: readable_def same)
    have step: "read_loop ops ?t nb s ds n xfer avail w mem =
        read_loop ops ?t nb s ds2 (n - f) (xfer + f) (avail - f) w2 mem1"
      using False avail0 fz by (subst read_loop.simps) (simp add: dd c flip: f_def mem1_def)
    have av: "unat (avail - f) = unat avail - unat f"
      using fn less.prems(4) by (simp add: unat_sub_nowrap word_le_nat_alt)
    have need: "chunks_needed r2 (unat (n - f)) \<le> length ds2"
    proof (cases "?p + unat n \<le> ?B")
      case True
      then show ?thesis using uf sub by (simp add: chunks_needed_def)
    next
      case beyond: False
      then have "unat f = ?B - ?p" using uf by simp
      then have "(?p + unat f) mod ?B = 0" using p by simp
      then have "unat (rt_appl_ptr r2) mod ?B = 0" using r2(8) by (simp add: mod_simps)
      moreover have "2 \<le> length ds" using less.prems(7) n0 beyond by (simp add: chunks_needed_def)
      moreover have "unat (n - f) \<le> ?B" using less.prems(5) sub by simp
      ultimately show ?thesis using dd by (simp add: chunks_needed_def r2(4))
    qed
    have rw: "rt w2 s = r2" by (simp add: same)
    have IH: "\<exists>w' mem' ds'. read_loop ops ?t nb s ds2 (n - f) (xfer + f) (avail - f) w2 mem1 =
        Some (w', mem', Some (xfer + f + (n - f), Inr ()), ds') \<and> readable s w' \<and> length mem' = length mem1 \<and>
      take (unat (xfer + f) * frame_len (rt w2 s)) mem' = take (unat (xfer + f) * frame_len (rt w2 s)) mem1 \<and>
      map (nth_frame (frame_len (rt w2 s)) (drop (unat (xfer + f) * frame_len (rt w2 s)) mem')) [0..<unat (n - f)] =
        take (unat (n - f)) (capture_queue (rt w2 s)) \<and>
      drop ((unat (xfer + f) + unat (n - f)) * frame_len (rt w2 s)) mem' =
        drop ((unat (xfer + f) + unat (n - f)) * frame_len (rt w2 s)) mem1 \<and>
      capture_queue (rt w' s) = drop (unat (n - f)) (capture_queue (rt w2 s))"
    proof (rule less.hyps)
      show "unat (n - f) < unat n" using sub f0 n0 by simp
      show "rt_state (rt w2 s) \<notin> {S_XRUN, S_SUSPENDED}" using less.prems(2) r2(1) rw by simp
      show "avail - f = snd_pcm_capture_avail (rt w2 s)" using av r2(9) rw by (simp add: word_nat)
      show "unat (n - f) \<le> unat (avail - f)" using sub av less.prems(4) by simp
      show "unat (xfer + f) + unat (n - f) \<le> unat (rt_buffer_size (rt w2 s))"
        using add sub fn less.prems(5) r2(4) rw by simp
      show "(unat (xfer + f) + unat (n - f)) * frame_len (rt w2 s) \<le> length mem1"
        using add sub fn less.prems(6) r2(5) rw len1 by simp
      show "\<forall>d\<in>set ds2. rl_others d = id" using less.prems(8) dd by simp
    qed (use w2 need rw in simp_all)
    have sum: "unat xfer + unat f + unat (n - f) = unat xfer + unat n" using split by simp
    obtain w' mem' ds' where
      l: "read_loop ops ?t nb s ds2 (n - f) (xfer + f) (avail - f) w2 mem1 = Some (w', mem', Some (xfer + n, Inr ()), ds')"
      and R: "readable s w'" "length mem' = length mem"
        "take ((unat xfer + unat f) * ?fb) mem' = take ((unat xfer + unat f) * ?fb) mem1"
        "map (nth_frame ?fb (drop ((unat xfer + unat f) * ?fb) mem')) [0..<unat (n - f)] =
          take (unat (n - f)) (capture_queue r2)"
        "drop ((unat xfer + unat n) * ?fb) mem' = drop ((unat xfer + unat n) * ?fb) mem1"
        "capture_queue (rt w' s) = drop (unat (n - f)) (capture_queue r2)"
      using IH unfolding rw r2(5) add sum len1 by auto
    have front: "take (unat xfer * ?fb) mem' = take (unat xfer * ?fb) mem"
    proof -
      have le: "unat xfer * ?fb \<le> (unat xfer + unat f) * ?fb" by simp
      have "take (unat xfer * ?fb) mem' = take (unat xfer * ?fb) (take ((unat xfer + unat f) * ?fb) mem')"
        using le by (simp add: take_take min_absorb1)
      also have "\<dots> = take (unat xfer * ?fb) mem1" unfolding R(3) using le by (simp add: take_take min_absorb1)
      also have "\<dots> = take (unat xfer * ?fb) mem" using fits by (simp add: mem1_def replace_def)
      finally show ?thesis .
    qed
    have middle: "map (nth_frame ?fb (drop (unat xfer * ?fb) mem')) [0..<unat n] = take (unat n) (capture_queue ?r)"
      unfolding split frames_behind_chunk [OF bs(1) memf R(3) [unfolded mem1_def]] R(4) bs(2,3) take_add ..
    have behind: "drop ((unat xfer + unat n) * ?fb) mem1 = drop ((unat xfer + unat n) * ?fb) mem"
    proof -
      have "drop ((unat xfer + unat f) * ?fb) mem1 = drop ((unat xfer + unat f) * ?fb) mem"
        using fits bs(1) by (simp add: mem1_def replace_def add_mult_distrib)
      then have "drop (unat (n - f) * ?fb) (drop ((unat xfer + unat f) * ?fb) mem1) =
          drop (unat (n - f) * ?fb) (drop ((unat xfer + unat f) * ?fb) mem)" by simp
      moreover have "(unat xfer + unat n) * ?fb = unat (n - f) * ?fb + (unat xfer + unat f) * ?fb"
        by (simp add: split add_mult_distrib)
      ultimately show ?thesis by (simp only: drop_drop)
    qed
    have "capture_queue (rt w' s) = drop (unat n) (capture_queue ?r)"
      unfolding R(6) bs(3) by (simp add: split add.commute)
    then show ?thesis using step l R(1,2,5) front middle behind by auto
  qed
qed

section \<open>Reading takes from the queue\<close>

text \<open>
  C3: \<open>snd_pcm_lib_read\<close> takes frames from the beginning of the queue. On a stream with a DMA area
  whose ring is in order after the update of the position, a read of at most as many frames as were
  recorded and as the buffer holds, undisturbed by others, returns all of them without waiting. The
  user's buffer begins with the first frames of the queue in order and is unchanged behind them;
  the queue has lost them.
\<close>

theorem snd_pcm_lib_read_dequeues:
  assumes "marking_driver ops" "op_copy ops = None" "pcm_sanity_check ops s w = Inr ()"
    and "rt_access (rt w s) = 3" "rt_state (rt w s) \<in> {S_DRAINING, S_RUNNING, S_PAUSED}"
    and "refresh_position ops s w = Some w1" "rt_state (rt w1 s) \<notin> {S_XRUN, S_SUSPENDED}" "readable s w1"
    and "n \<noteq> 0" "n \<le> snd_pcm_capture_avail (rt w1 s)" "n \<le> rt_buffer_size (rt w1 s)"
    and "unat n * frame_len (rt w1 s) \<le> length mem" "2 \<le> length ds" "\<forall>d\<in>set ds. rl_others d = id"
  shows "\<exists>w' mem'. snd_pcm_lib_read ops s ds n w mem = Some (w', mem', Inr n) \<and> length mem' = length mem \<and>
    map (nth_frame (frame_len (rt w1 s)) mem') [0..<unat n] = take (unat n) (capture_queue (rt w1 s)) \<and>
    drop (unat n * frame_len (rt w1 s)) mem' = drop (unat n * frame_len (rt w1 s)) mem \<and>
    capture_queue (rt w' s) = drop (unat n) (capture_queue (rt w1 s))"
proof -
  let ?t = "snd_pcm_lib_read_transfer ops" and ?nb = "ss_f_nonblock (w_subs w s)" and ?a = "snd_pcm_capture_avail (rt w1 s)"
  have room: "unat n \<le> unat ?a" "unat n \<le> unat (rt_buffer_size (rt w1 s))"
    using assms(10,11) by (simp_all add: word_le_nat_alt)
  have need: "chunks_needed (rt w1 s) (unat n) \<le> length ds" using assms(13) by (simp add: chunks_needed_def)
  have "\<exists>w' mem' ds'. read_loop ops ?t ?nb s ds n 0 ?a w1 mem = Some (w', mem', Some (0 + n, Inr ()), ds') \<and>
      readable s w' \<and> length mem' = length mem \<and>
      take (unat (0 :: u64) * frame_len (rt w1 s)) mem' = take (unat (0 :: u64) * frame_len (rt w1 s)) mem \<and>
      map (nth_frame (frame_len (rt w1 s)) (drop (unat (0 :: u64) * frame_len (rt w1 s)) mem')) [0..<unat n] =
        take (unat n) (capture_queue (rt w1 s)) \<and>
      drop ((unat (0 :: u64) + unat n) * frame_len (rt w1 s)) mem' = drop ((unat (0 :: u64) + unat n) * frame_len (rt w1 s)) mem \<and>
      capture_queue (rt w' s) = drop (unat n) (capture_queue (rt w1 s))"
    by (rule read_loop_dequeues [OF assms(2,8,7) refl room(1) _ _ need assms(14)]) (use room assms(12) in simp_all)
  then obtain w2 mem' ds' where
    l: "read_loop ops ?t ?nb s ds n 0 ?a w1 mem = Some (w2, mem', Some (n, Inr ()), ds')" and w2: "readable s w2"
    and R: "length mem' = length mem"
      "map (nth_frame (frame_len (rt w1 s)) mem') [0..<unat n] = take (unat n) (capture_queue (rt w1 s))"
      "drop (unat n * frame_len (rt w1 s)) mem' = drop (unat n * frame_len (rt w1 s)) mem"
      "capture_queue (rt w2 s) = drop (unat n) (capture_queue (rt w1 s))"
    by auto
  obtain w' where e: "end_transfer ops s n (Inr ()) w2 = Some (w', Inr n)"
    "capture_queue (rt w' s) = capture_queue (rt w2 s)"
    using end_transfer_effect [OF assms(1) _ _ assms(9), of w2 s "Inr ()"] w2 by (auto simp: readable_def)
  have "snd_pcm_lib_read ops s ds n w mem = Some (w', mem', Inr n)"
    using assms(3,4,5,6,9) l e(1) by (auto simp: snd_pcm_lib_read_def snd_pcm_lib_read1_def)
  then show ?thesis using R e(2) by auto
qed

text \<open>A paused recording of 4-byte frames whose next frames lie at the end and the beginning of the ring.\<close>

definition read_world :: "unit pcm_world" where
  "read_world = upd_rt 0 (\<lambda>r. r\<lparr>rt_state := S_PAUSED, rt_access := 3, rt_frame_bits := 32,
     rt_dma_area := replicate 16384 5, rt_hw_ptr := 108, rt_appl_ptr := 8100\<rparr>) demo_world"

theorem snd_pcm_lib_read_dequeues_witness:
  "\<exists>w' mem'. snd_pcm_lib_read still_ops 0 [idle_release, idle_release] 200 read_world (replicate 900 0) =
      Some (w', mem', Inr 200) \<and>
    map (nth_frame 4 mem') [0..<200] = take 200 (capture_queue (rt read_world 0)) \<and>
    drop 800 mem' = replicate 100 0 \<and> capture_queue (rt w' 0) = drop 200 (capture_queue (rt read_world 0))"
proof -
  let ?mem = "replicate 900 0 :: u8 list" and ?w1 = "set_twake 0 1 read_world"
  define r where "r = demo_runtime\<lparr>rt_state := S_PAUSED, rt_access := 3, rt_frame_bits := 32,
     rt_dma_area := replicate 16384 5, rt_hw_ptr := 108, rt_appl_ptr := 8100\<rparr>"
  have rt: "rt read_world 0 = r" by (simp add: read_world_def r_def)
  have rt1: "rt ?w1 0 = r\<lparr>rt_twake := 1\<rparr>" by (simp add: set_twake_def rt)
  have avail: "snd_pcm_capture_avail (rt ?w1 0) = 200"
    by (simp add: rt1 r_def demo_runtime_def zero_runtime_def snd_pcm_capture_avail_def sint_u64)
  have len: "frame_len (rt ?w1 0) = 4" by (simp add: rt1 r_def frame_len_def)
  have m: "master_wf ?w1"
  proof -
    have "master_wf read_world = master_wf demo_world"
      by (rule master_edges_cong) (simp add: read_world_def)
    then show ?thesis using demo_world_masters by simp
  qed
  have rd: "readable 0 ?w1"
    unfolding readable_def
  proof (intro conjI)
    show "ring_wf (rt ?w1 0)" by (simp add: rt1 r_def ring_wf_def demo_runtime_def)
    show "area_wf (rt ?w1 0)" using len by (simp add: area_wf_def rt1 r_def demo_runtime_def)
  qed (use m in \<open>simp_all add: rt1 r_def demo_runtime_def zero_runtime_def\<close>)
  have "\<exists>w' mem'. snd_pcm_lib_read still_ops 0 [idle_release, idle_release] 200 read_world ?mem = Some (w', mem', Inr 200) \<and>
      length mem' = length ?mem \<and>
      map (nth_frame (frame_len (rt ?w1 0)) mem') [0..<unat (200 :: u64)] = take (unat (200 :: u64)) (capture_queue (rt ?w1 0)) \<and>
      drop (unat (200 :: u64) * frame_len (rt ?w1 0)) mem' = drop (unat (200 :: u64) * frame_len (rt ?w1 0)) ?mem \<and>
      capture_queue (rt w' 0) = drop (unat (200 :: u64)) (capture_queue (rt ?w1 0))"
  proof (rule snd_pcm_lib_read_dequeues [OF still.marking_driver_axioms _ _ _ _ _ _ rd])
    show "refresh_position still_ops 0 read_world = Some ?w1"
      by (simp add: refresh_position_def Let_def avail_min_or_1_def rt) (simp add: r_def demo_runtime_def zero_runtime_def)
  qed (simp_all add: avail len, simp_all add: rt rt1 r_def still_ops_def pcm_sanity_check_def idle_release_def demo_runtime_def)
  then show ?thesis using len by auto
qed

end
