(* ===== verification/Pcm_Invariant.thy ===== *)
theory Pcm_Invariant
  imports Pcm_Read
begin

text \<open>
  The invariant of streams: the sizes of a stream fit together once it has a period (\<open>sizes_wf\<close>), and the
  positions of a prepared, running, draining or paused one lie in its ring (\<open>ptr_wf\<close>). Actions on a
  group check all members first and change states last; the locale \<open>guarded_action\<close> says what the
  checks must establish (\<open>G\<close>), what the middle phase must establish (\<open>D\<close>), and concludes that the action
  keeps the invariant.
\<close>

section \<open>Views\<close>

definition sizes_wf :: "runtime \<Rightarrow> bool" where
  "sizes_wf r \<longleftrightarrow> rt_period_size r = 0 \<or> geometry r \<and> unat (rt_period_size r) \<le> unat (rt_buffer_size r)"

text \<open>The states in which positions matter.\<close>

definition placed :: "pcm_state \<Rightarrow> bool" where
  "placed st \<longleftrightarrow> st \<in> {S_PREPARED, S_RUNNING, S_DRAINING, S_PAUSED}"

definition stream_ok :: "runtime \<Rightarrow> bool" where
  "stream_ok r \<longleftrightarrow> sizes_wf r \<and>
     (placed (rt_state r) \<or> (rt_state r = S_SUSPENDED \<and> placed (rt_suspended_state r)) \<longrightarrow> ptr_wf r)"

definition world_ok :: "'h pcm_world \<Rightarrow> bool" where
  "world_ok w \<longleftrightarrow> (\<forall>t. stream_ok (rt w t))"

text \<open>All that the invariant looks at.\<close>

definition view :: "runtime \<Rightarrow> pcm_state \<times> pcm_state \<times> bool \<times> bool" where
  "view r = (rt_state r, rt_suspended_state r, ptr_wf r, sizes_wf r)"

lemma view_eqD:
  assumes "view r' = view r"
  shows "rt_state r' = rt_state r" "rt_suspended_state r' = rt_suspended_state r" "ptr_wf r' = ptr_wf r"
    "sizes_wf r' = sizes_wf r" "stream_ok r' = stream_ok r"
  using assms by (auto simp: view_def stream_ok_def)

lemma ptr_sizes: "ptr_wf r \<Longrightarrow> sizes_wf r"
  by (simp add: ptr_wf_def sizes_wf_def ring_wf_geometry)

lemma sizes_wf_pos: "pos_free r' = pos_free r \<Longrightarrow> sizes_wf r' = sizes_wf r"
  by (simp add: sizes_wf_def geometry_def pos_free_selectors [of r' r])

lemma act_view:
  assumes "act_frame w w'"
  shows "view (rt w' t) = view (rt w t)"
  using act_frame_selectors(1,2) [OF assms, of t] ptr_wf_pos [OF pos_frame_rt [OF act_frame_pos [OF assms]], of t]
    sizes_wf_pos [OF pos_frame_rt [OF act_frame_pos [OF assms]], of t]
  by (simp add: view_def)

text \<open>Streams agree in view; positions and sizes survive.\<close>

definition same_views :: "'h pcm_world \<Rightarrow> 'h pcm_world \<Rightarrow> bool" where
  "same_views w w' \<longleftrightarrow> (\<forall>t. view (rt w' t) = view (rt w t))"

definition keeps :: "'h pcm_world \<Rightarrow> 'h pcm_world \<Rightarrow> bool" where
  "keeps w w' \<longleftrightarrow> (\<forall>t. (ptr_wf (rt w t) \<longrightarrow> ptr_wf (rt w' t)) \<and> (sizes_wf (rt w t) \<longrightarrow> sizes_wf (rt w' t)))"

lemma keeps_refl [simp]: "keeps w w"
  by (simp add: keeps_def)

lemma keeps_trans: "keeps w w1 \<Longrightarrow> keeps w1 w2 \<Longrightarrow> keeps w w2"
  by (simp add: keeps_def)

lemma same_views_trans: "same_views w w1 \<Longrightarrow> same_views w1 w2 \<Longrightarrow> same_views w w2"
  by (simp add: same_views_def)

lemma same_views_ok:
  assumes "same_views w w'"
  shows "world_ok w' = world_ok w"
proof -
  have "stream_ok (rt w' t) = stream_ok (rt w t)" for t
    using assms view_eqD(5) [of "rt w' t" "rt w t"] by (simp add: same_views_def)
  then show ?thesis by (simp add: world_ok_def)
qed

lemma same_views_act: "act_frame w w' \<Longrightarrow> same_views w w'"
  by (simp add: same_views_def act_view)

lemma same_views_rt: "(\<And>t. rt w' t = rt w t) \<Longrightarrow> same_views w w'"
  by (simp add: same_views_def)

lemma keeps_pos: "pos_frame w w' \<Longrightarrow> keeps w w'"
  using ptr_wf_pos [OF pos_frame_rt, of w w'] sizes_wf_pos [OF pos_frame_rt, of w w'] unfolding keeps_def by blast

lemma keeps_views:
  assumes "same_views w w'"
  shows "keeps w w'"
proof -
  have "ptr_wf (rt w' t) = ptr_wf (rt w t)" "sizes_wf (rt w' t) = sizes_wf (rt w t)" for t
    using assms view_eqD(3,4) [of "rt w' t" "rt w t"] by (simp_all add: same_views_def)
  then show ?thesis by (simp add: keeps_def)
qed

text \<open>One stream gets a new state.\<close>

definition state_set :: "nat \<Rightarrow> pcm_state \<Rightarrow> 'h pcm_world \<Rightarrow> 'h pcm_world \<Rightarrow> bool" where
  "state_set s st w w' \<longleftrightarrow> (\<forall>t. view (rt w' t) =
     (if t = s then (st, rt_suspended_state (rt w s), ptr_wf (rt w s), sizes_wf (rt w s)) else view (rt w t)))"

lemma state_set_keeps:
  assumes "state_set s st w w'"
  shows "keeps w w'"
  unfolding keeps_def
proof
  fix t
  show "(ptr_wf (rt w t) \<longrightarrow> ptr_wf (rt w' t)) \<and> (sizes_wf (rt w t) \<longrightarrow> sizes_wf (rt w' t))"
    using assms [unfolded state_set_def, rule_format, of t] by (auto simp: view_def split: if_splits)
qed

lemma state_set_ok:
  assumes "state_set s st w w'" "world_ok w"
    and "placed st \<or> (st = S_SUSPENDED \<and> placed (rt_suspended_state (rt w s))) \<longrightarrow> ptr_wf (rt w s)"
  shows "world_ok w'"
  unfolding world_ok_def
proof
  fix t
  have "stream_ok (rt w t)" using assms(2) by (simp add: world_ok_def)
  then show "stream_ok (rt w' t)"
    using assms(1) [unfolded state_set_def, rule_format, of t] assms(2,3)
    by (cases "t = s") (auto simp: view_def stream_ok_def)
qed

lemma state_set_up: "state_set s st w w' \<Longrightarrow> world_ok w \<Longrightarrow> ptr_wf (rt w s) \<Longrightarrow> world_ok w'"
  by (erule state_set_ok) (simp_all add: ptr_sizes)

lemma state_set_down:
  "state_set s st w w' \<Longrightarrow> world_ok w \<Longrightarrow> st \<in> {S_XRUN, S_SETUP} \<Longrightarrow> world_ok w'"
  by (erule state_set_ok) (auto simp: placed_def)

lemma state_setI:
  assumes "same_views w w1" "\<And>t. t \<noteq> s \<Longrightarrow> view (rt w' t) = view (rt w1 t)"
    and "view (rt w' s) = (st, rt_suspended_state (rt w1 s), ptr_wf (rt w1 s), sizes_wf (rt w1 s))"
  shows "state_set s st w w'"
  unfolding state_set_def
proof
  fix t
  have 1: "view (rt w1 t) = view (rt w t)" "view (rt w1 s) = view (rt w s)"
    using assms(1) by (simp_all add: same_views_def)
  show "view (rt w' t) = (if t = s then (st, rt_suspended_state (rt w s), ptr_wf (rt w s), sizes_wf (rt w s)) else view (rt w t))"
    using 1(1) view_eqD [OF 1(2)] assms(2,3) by simp
qed

lemma state_set_members: "state_set s st w w' \<Longrightarrow> (t \<noteq> s \<Longrightarrow> view (rt w' t) = view (rt w t))"
  by (simp add: state_set_def)

section \<open>Guarded actions\<close>

text \<open>\<open>P\<close> are the streams that may take part.\<close>

locale guarded_action =
  fixes A :: "'h action_ops" and P :: "nat \<Rightarrow> bool" and I :: "'h pcm_world \<Rightarrow> bool"
    and G D :: "'h pcm_world \<Rightarrow> nat \<Rightarrow> bool"
  assumes pre_ok: "I w \<Longrightarrow> I (fst (pre_action A s w))"
    and pre_guard: "P s \<Longrightarrow> I w \<Longrightarrow> snd (pre_action A s w) = Inr u \<Longrightarrow> G (fst (pre_action A s w)) s"
    and pre_keeps: "G w t \<Longrightarrow> G (fst (pre_action A s w)) t"
    and do_ok: "I w \<Longrightarrow> G w s \<Longrightarrow> do_action A s w = Some (w', r) \<Longrightarrow> I w'"
    and do_keeps: "I w \<Longrightarrow> G w s \<Longrightarrow> do_action A s w = Some (w', r) \<Longrightarrow> G w t \<Longrightarrow> G w' t"
    and do_done: "I w \<Longrightarrow> G w s \<Longrightarrow> do_action A s w = Some (w', Inr u) \<Longrightarrow> D w' s"
    and do_keeps_done: "I w \<Longrightarrow> G w s \<Longrightarrow> do_action A s w = Some (w', Inr u) \<Longrightarrow> D w t \<Longrightarrow> D w' t"
    and undo_ok: "I w \<Longrightarrow> undo_action A = Some f \<Longrightarrow> I (f s w)"
    and post_ok: "P s \<Longrightarrow> I w \<Longrightarrow> D w s \<Longrightarrow> post_action A s w = Some w' \<Longrightarrow> I w'"
    and post_keeps: "I w \<Longrightarrow> D w s \<Longrightarrow> post_action A s w = Some w' \<Longrightarrow> D w t \<Longrightarrow> D w' t"
begin

lemma pre_members_guard:
  "I w \<Longrightarrow> \<forall>t\<in>set ss. P t \<Longrightarrow> pre_members A ss w = (w', r) \<Longrightarrow>
   I w' \<and> (\<forall>t. G w t \<longrightarrow> G w' t) \<and> (r = Inr () \<longrightarrow> (\<forall>t\<in>set ss. G w' t))"
proof (induction ss arbitrary: w)
  case (Cons s ss)
  obtain w1 r1 where p: "pre_action A s w = (w1, r1)" by fastforce
  have 1: "I w1" "\<And>t. G w t \<Longrightarrow> G w1 t" "r1 = Inr () \<Longrightarrow> G w1 s"
    using pre_ok [OF Cons.prems(1), of s] pre_keeps [of w _ s] pre_guard [of s w "()"] Cons.prems(1,2)
    by (simp_all add: p)
  show ?case
  proof (cases r1)
    case (Inl e)
    then show ?thesis using Cons.prems(3) 1(1,2) by (auto simp: p)
  next
    case (Inr u)
    then show ?thesis using Cons.IH [OF 1(1)] Cons.prems(2,3) 1 by (auto simp: p)
  qed
qed simp

lemma undo_members_ok: "I w \<Longrightarrow> I (undo_members A ss w)"
proof (cases "undo_action A")
  case (Some u)
  assume "I w"
  then have "I (fold u ss w)" by (induction ss arbitrary: w) (auto intro: undo_ok [OF _ Some])
  then show ?thesis by (simp add: undo_members_def Some)
qed (simp add: undo_members_def)

lemma do_members_done:
  "I w \<Longrightarrow> \<forall>t\<in>set ss. G w t \<Longrightarrow> do_members A served ss w = Some (w', r) \<Longrightarrow>
   I w' \<and> (r = Inr () \<longrightarrow> (\<forall>t. D w t \<longrightarrow> D w' t) \<and> (\<forall>t\<in>set ss. D w' t))"
proof (induction ss arbitrary: w served)
  case (Cons s ss)
  then obtain w1 r1 where d: "do_action A s w = Some (w1, r1)" by (auto simp: Option.bind_eq_Some_conv)
  have g: "G w s" using Cons.prems(2) by simp
  have 1: "I w1" using do_ok [OF Cons.prems(1) g d] .
  show ?case
  proof (cases r1)
    case (Inl e)
    then show ?thesis using Cons.prems(3) undo_members_ok [OF 1] by (auto simp: d)
  next
    case (Inr u)
    have 2: "\<forall>t\<in>set ss. G w1 t" using do_keeps [OF Cons.prems(1) g d] Cons.prems(2) by simp
    have 3: "D w1 s" "\<And>t. D w t \<Longrightarrow> D w1 t"
      using do_done [OF Cons.prems(1) g] do_keeps_done [OF Cons.prems(1) g] d Inr by blast+
    have "do_members A (served @ [s]) ss w1 = Some (w', r)" using Cons.prems(3) Inr by (simp add: d)
    from Cons.IH [OF 1 2 this] show ?thesis using 3 by auto
  qed
qed simp

lemma post_members_ok:
  "I w \<Longrightarrow> \<forall>t\<in>set ss. P t \<and> D w t \<Longrightarrow> post_members A ss w = Some w' \<Longrightarrow> I w'"
proof (induction ss arbitrary: w)
  case (Cons s ss)
  then obtain w1 where p: "post_action A s w = Some w1" "post_members A ss w1 = Some w'"
    by (auto simp: Option.bind_eq_Some_conv)
  have d: "P s" "D w s" using Cons.prems(2) by auto
  show ?case
    using Cons.IH [OF post_ok [OF d(1) Cons.prems(1) d(2) p(1)] _ p(2)]
      post_keeps [OF Cons.prems(1) d(2) p(1)] Cons.prems(2) by simp
qed simp

lemma guarded_group:
  assumes "I w" "\<forall>t\<in>set (group_members w s). P t" "snd_pcm_action_group A s w = Some (w', r)"
  shows "I w'"
proof -
  obtain w1 r1 where p: "pre_members A (group_members w s) w = (w1, r1)" by fastforce
  note 1 = pre_members_guard [OF assms(1,2) p]
  show ?thesis
  proof (cases r1)
    case (Inr u)
    then obtain w2 r2 where d: "do_members A [] (group_members w s) w1 = Some (w2, r2)"
      using assms(3) by (auto simp: snd_pcm_action_group_def p Option.bind_eq_Some_conv)
    have 2: "I w2 \<and> (r2 = Inr () \<longrightarrow> (\<forall>t\<in>set (group_members w s). D w2 t))"
      using do_members_done [OF _ _ d] 1 Inr by simp
    then show ?thesis using assms(2,3) Inr post_members_ok [of w2 "group_members w s"]
      by (cases r2) (auto simp: snd_pcm_action_group_def p d Option.bind_eq_Some_conv)
  qed (use assms 1 in \<open>simp add: snd_pcm_action_group_def p\<close>)
qed

lemma guarded_single:
  assumes "I w" "P s" "snd_pcm_action_single A s w = Some (w', r)"
  shows "I w'"
proof -
  obtain w1 r1 where p: "pre_action A s w = (w1, r1)" by fastforce
  have 1: "I w1" using pre_ok [OF assms(1), of s] by (simp add: p)
  show ?thesis
  proof (cases r1)
    case (Inr u)
    then have g: "G w1 s" using pre_guard [OF assms(2,1), of "()"] by (simp add: p)
    obtain w2 r2 where d: "do_action A s w1 = Some (w2, r2)"
      using assms(3) Inr by (auto simp: snd_pcm_action_single_def p Option.bind_eq_Some_conv)
    have 2: "I w2" by (rule do_ok [OF 1 g d])
    show ?thesis
    proof (cases r2)
      case (Inl e)
      then show ?thesis using assms(3) Inr 2 undo_ok
        by (cases "undo_action A") (auto simp: snd_pcm_action_single_def p d)
    next
      case fin: (Inr v)
      have "D w2 s" using do_done [OF 1 g] d fin by simp
      then show ?thesis using assms(3) Inr fin post_ok [OF assms(2) 2]
        by (auto simp: snd_pcm_action_single_def p d Option.bind_eq_Some_conv)
    qed
  qed (use assms 1 in \<open>simp add: snd_pcm_action_single_def p\<close>)
qed

lemma guarded_action:
  assumes "I w" "\<forall>t\<in>insert s (set (group_members w s)). P t" "snd_pcm_action A s w = Some (w', r)"
  shows "I w'"
  using guarded_group [of w s w' r] guarded_single [of w s w' r] assms
  by (auto simp: snd_pcm_action_def split: if_splits)

end

end
