(* ===== verification/Pcm_Kept.thy ===== *)
theory Pcm_Kept
  imports Pcm_Invariant
begin

text \<open>
  The actions and the position update keep the invariant: an interpretation of \<open>guarded_action\<close> for
  each action of \<open>sound/core/pcm_native.c\<close>.
\<close>

named_theorems view_simps "fields a view depends on"

lemmas [view_simps] = view_def ptr_wf_def ring_wf_def sizes_wf_def geometry_def

lemma view_quiet [simp]:
  "view (r\<lparr>rt_delay := d\<rparr>) = view r" "view (r\<lparr>rt_tstamp := q\<rparr>) = view r" "view (r\<lparr>rt_avail_max := q\<rparr>) = view r"
  "view (r\<lparr>rt_overrange := o32\<rparr>) = view r" "view (r\<lparr>rt_hw_ptr_jiffies := q\<rparr>) = view r"
  "view (r\<lparr>rt_twake := q\<rparr>) = view r" "view (r\<lparr>rt_avail_min := q\<rparr>) = view r"
  "view (r\<lparr>rt_tstamp_monotonic := b\<rparr>) = view r" "view (r\<lparr>rt_dma_area := bs\<rparr>) = view r"
  by (simp_all add: view_simps)

section \<open>Start and stop\<close>

lemma post_start_set:
  assumes "snd_pcm_post_start ops st s w = Some w'"
  shows "state_set s st w w'"
proof -
  obtain w1 where w1: "snd_pcm_trigger_tstamp s w = Some w1" and f: "sil_frame (started ops st s w1) w'"
    using assms by (rule post_start_cases)
  have v: "view (rt w' t) = view (rt (started ops st s w1) t)" for t by (rule act_view [OF sil_frame_act [OF f]])
  show ?thesis
  proof (rule state_setI)
    show "same_views w w1" by (rule same_views_act [OF trigger_tstamp_frame [OF w1]])
    show "view (rt w' t) = view (rt w1 t)" if "t \<noteq> s" for t using that by (simp add: v started_def)
    show "view (rt w' s) = (st, rt_suspended_state (rt w1 s), ptr_wf (rt w1 s), sizes_wf (rt w1 s))"
      unfolding v by (simp add: started_def view_simps)
  qed
qed

lemma post_stop_set:
  assumes "snd_pcm_post_stop st s w = Some w'"
  shows "state_set s st w w'"
proof -
  consider "rt_state (rt w s) = st" "w' = wake_both s w"
    | w1 where "snd_pcm_trigger_tstamp s w = Some w1"
        "w' = wake_both s (upd_rt s (\<lambda>r. r\<lparr>rt_state := st\<rparr>) (timer_notify s MSTOP w1))"
    using post_stop_cases [OF assms] by blast
  then show ?thesis
  proof cases
    case 1
    then show ?thesis by (intro state_setI [where ?w1.0 = w]) (simp_all add: same_views_def, simp add: view_def)
  next
    case 2
    then show ?thesis
      by (intro state_setI [OF same_views_act [OF trigger_tstamp_frame [OF 2(1)]]]) (simp_all, simp add: view_simps)
  qed
qed

lemma views_trigger: "same_views w (fst (call_trigger ops s cmd w))"
  by (rule same_views_act [OF call_trigger_frame])

lemma views_master: "same_views w (set_trigger_master s w)"
  by (rule same_views_act [OF set_trigger_master_frame])

lemma views_refl [simp]: "same_views w w"
  by (simp add: same_views_def)

lemma views_do_start: "same_views w (fst (snd_pcm_do_start ops s w))"
  using do_start_world [of ops s w] views_trigger by fastforce

lemma views_do_stop: "same_views w (fst (snd_pcm_do_stop ops s w))"
  using do_stop_world [of ops s w] views_trigger by fastforce

text \<open>The guards: a stream has positions in the ring, or sizes that fit.\<close>

abbreviation ptr_guard :: "'h pcm_world \<Rightarrow> nat \<Rightarrow> bool" where "ptr_guard w t \<equiv> ptr_wf (rt w t)"
abbreviation sizes_guard :: "'h pcm_world \<Rightarrow> nat \<Rightarrow> bool" where "sizes_guard w t \<equiv> sizes_wf (rt w t)"

lemma keeps_guards:
  assumes "keeps w w'"
  shows "ptr_guard w t \<Longrightarrow> ptr_guard w' t" "sizes_guard w t \<Longrightarrow> sizes_guard w' t"
  using assms by (auto simp: keeps_def)

lemmas views_guards = keeps_guards [OF keeps_views]

lemma world_ok_guards:
  assumes "world_ok w"
  shows "placed (rt_state (rt w t)) \<Longrightarrow> ptr_guard w t" "sizes_guard w t"
  using assms by (auto simp: world_ok_def stream_ok_def)

lemma pre_start_views: "same_views w (fst (snd_pcm_pre_start s w))"
  by (simp add: snd_pcm_pre_start_def views_master)

lemma pre_stop_views: "same_views w (fst (snd_pcm_pre_stop s w))"
  by (simp add: snd_pcm_pre_stop_def views_master)

interpretation start_ok: guarded_action "snd_pcm_action_start ops S_RUNNING" "\<lambda>_. True" world_ok ptr_guard ptr_guard
proof unfold_locales
  fix s t and w w' :: "'a pcm_world" and r u f
  note pre = views_guards(1) [OF pre_start_views]
  show "world_ok w \<Longrightarrow> world_ok (fst (pre_action (snd_pcm_action_start ops S_RUNNING) s w))"
    by (simp add: same_views_ok [OF pre_start_views])
  show "ptr_guard w t \<Longrightarrow> ptr_guard (fst (pre_action (snd_pcm_action_start ops S_RUNNING) s w)) t"
    using pre by simp
  show "ptr_guard (fst (pre_action (snd_pcm_action_start ops S_RUNNING) s w)) s"
    if "world_ok w" "snd (pre_action (snd_pcm_action_start ops S_RUNNING) s w) = Inr u"
  proof -
    have "rt_state (rt w s) = S_PREPARED" using that(2) by (auto simp: snd_pcm_pre_start_def split: if_splits)
    then have "ptr_guard w s" using world_ok_guards(1) [OF that(1)] by (simp add: placed_def)
    then show ?thesis using pre by simp
  qed
  have d: "same_views w w'" if "do_action (snd_pcm_action_start ops S_RUNNING) s w = Some (w', q)" for q
    using that views_do_start [of w ops s] by simp
  show "world_ok w'" if "world_ok w" "do_action (snd_pcm_action_start ops S_RUNNING) s w = Some (w', r)"
    using that same_views_ok [OF d] by simp
  show "ptr_guard w' t" if "do_action (snd_pcm_action_start ops S_RUNNING) s w = Some (w', r)" "ptr_guard w t"
    using that views_guards(1) [OF d] by blast
  show "ptr_guard w' s" if "do_action (snd_pcm_action_start ops S_RUNNING) s w = Some (w', Inr u)" "ptr_guard w s"
    using that views_guards(1) [OF d] by blast
  show "ptr_guard w' t" if "do_action (snd_pcm_action_start ops S_RUNNING) s w = Some (w', Inr u)" "ptr_guard w t"
    using that views_guards(1) [OF d] by blast
  show "world_ok (f s w)" if "world_ok w" "undo_action (snd_pcm_action_start ops S_RUNNING) = Some f"
    using that undo_start_world [of ops s w] same_views_ok [OF views_trigger] by fastforce
  show "world_ok w'" if "world_ok w" "ptr_guard w s" "post_action (snd_pcm_action_start ops S_RUNNING) s w = Some w'"
    using that state_set_up [OF post_start_set] by simp
  show "ptr_guard w' t" if "post_action (snd_pcm_action_start ops S_RUNNING) s w = Some w'" "ptr_guard w t"
    using that keeps_guards(1) [OF state_set_keeps [OF post_start_set]] by simp
qed

interpretation stop_ok: guarded_action "snd_pcm_action_stop ops st" "\<lambda>_. st \<in> {S_XRUN, S_SETUP}" world_ok
    "\<lambda>_ _. True" "\<lambda>_ _. True"
proof unfold_locales
  fix s t and w w' :: "'a pcm_world" and r u f
  show "world_ok w \<Longrightarrow> world_ok (fst (pre_action (snd_pcm_action_stop ops st) s w))"
    by (simp add: same_views_ok [OF pre_stop_views])
  show "world_ok w'" if "world_ok w" "do_action (snd_pcm_action_stop ops st) s w = Some (w', r)"
    using that same_views_ok [OF views_do_stop [of w ops s]] by simp
  show "world_ok (f s w)" if "undo_action (snd_pcm_action_stop ops st) = Some f" using that by simp
  show "world_ok w'" if "st \<in> {S_XRUN, S_SETUP}" "world_ok w" "post_action (snd_pcm_action_stop ops st) s w = Some w'"
    using that state_set_down [OF post_stop_set] by simp
qed simp_all

lemma start_world_ok: "world_ok w \<Longrightarrow> snd_pcm_start ops s w = Some (w', r) \<Longrightarrow> world_ok w'"
  unfolding snd_pcm_start_def by (rule start_ok.guarded_action) simp_all

lemma stop_world_ok:
  "world_ok w \<Longrightarrow> st \<in> {S_XRUN, S_SETUP} \<Longrightarrow> snd_pcm_stop ops s st w = Some (w', r) \<Longrightarrow> world_ok w'"
  unfolding snd_pcm_stop_def by (rule stop_ok.guarded_action) simp_all

lemma drain_done_world_ok: "world_ok w \<Longrightarrow> snd_pcm_drain_done ops s w = Some (w', r) \<Longrightarrow> world_ok w'"
  unfolding snd_pcm_drain_done_def by (rule stop_ok.guarded_single) simp_all

section \<open>The position update\<close>

lemma xrun_ok:
  assumes "world_ok w" "xrun ops s w = Some w'"
  shows "world_ok w' \<and> keeps w w'"
proof -
  define v where "v = (if rt_tstamp_mode (rt w s) then upd_rt s (\<lambda>r. r\<lparr>rt_tstamp := snd_pcm_gettime w s\<rparr>) w else w)"
  have "same_views w v" by (simp add: v_def same_views_def)
  then have "world_ok v" using assms(1) same_views_ok by blast
  moreover obtain q where "snd_pcm_stop ops s S_XRUN v = Some (w', q)"
    using assms(2) by (auto simp: xrun_def Option.bind_eq_Some_conv simp flip: v_def)
  ultimately have "world_ok w'" using stop_world_ok [of v S_XRUN] by simp
  then show ?thesis using keeps_pos [OF xrun_pos [OF assms(2)]] by simp
qed

lemma update_state_ok:
  assumes "world_ok w" "snd_pcm_update_state ops s w = Some (w', r)"
  shows "world_ok w' \<and> keeps w w'"
proof -
  define v where "v = (if stream_avail w s > rt_avail_max (rt w s)
    then upd_rt s (\<lambda>r. r\<lparr>rt_avail_max := stream_avail w s\<rparr>) w else w)"
  have "same_views w v" by (simp add: v_def same_views_def)
  then have v: "world_ok v" using assms(1) same_views_ok by blast
  have e: "world_ok (add_effects es v)" for es
    using v same_views_ok [OF same_views_rt, of v "add_effects es v"] by simp
  have "world_ok w'"
    using assms(2) v e by (auto simp: snd_pcm_update_state_def Let_def Option.bind_eq_Some_conv
        dest: xrun_ok drain_done_world_ok split: if_splits simp flip: v_def)
  then show ?thesis using keeps_pos [OF update_state_pos [OF assms(2)]] by simp
qed

lemma call_pointer_views:
  assumes "call_pointer ops s w = (w1, pos)"
  shows "same_views w w1"
proof -
  obtain h p d where op: "op_pointer ops s (w_hw w) = (h, p, d)" by (metis prod_cases3)
  show ?thesis using assms
    by (cases d) (auto simp: call_pointer_def op Let_def same_views_def)
qed

lemma commit_other: "t \<noteq> s \<Longrightarrow> rt (hw_ptr_commit ops s i h now j (base, new, c) w) t = rt w t"
  by (simp add: hw_ptr_commit_def Let_def playback_silence_other)

lemma commit_views:
  assumes "ptr_wf (rt w s)" "target_wf (rt w s) (base, new, c)"
  shows "same_views w (hw_ptr_commit ops s i h now j (base, new, c) w)"
  unfolding same_views_def
proof
  fix t
  let ?w' = "hw_ptr_commit ops s i h now j (base, new, c) w"
  have p: "ptr_wf (rt ?w' s)" by (rule commit_ptr_wf [OF assms])
  obtain v where f: "sil_frame w v" and r: "rt_state (rt ?w' s) = rt_state (rt v s)"
    "rt_suspended_state (rt ?w' s) = rt_suspended_state (rt v s)"
    by (rule commit_cases [of w ops s i h now j base new c]) simp
  have "rt_state (rt ?w' s) = rt_state (rt w s)" "rt_suspended_state (rt ?w' s) = rt_suspended_state (rt w s)"
    using r act_frame_selectors(1,2) [OF sil_frame_act [OF f], of s] by simp_all
  then show "view (rt ?w' t) = view (rt w t)"
    using p assms(1) ptr_sizes [OF p] ptr_sizes [OF assms(1)] by (cases "t = s") (simp_all add: commit_other, simp add: view_def)
qed

lemma update_hw_ptr0_ok:
  assumes ok: "world_ok w" and p: "ptr_guard w s" and u: "snd_pcm_update_hw_ptr0 ops s i w = Some (w', r)"
  shows "world_ok w' \<and> keeps w w'"
proof -
  obtain w1 pos where c: "call_pointer ops s w = (w1, pos)" by fastforce
  note v1 = call_pointer_views [OF c]
  have ok1: "world_ok w1" and p1: "ptr_guard w1 s" and k1: "keeps w w1"
    using ok same_views_ok [OF v1] views_guards(1) [OF v1 p] keeps_views [OF v1] by simp_all
  have ring: "ring_wf (rt w1 s)" using p1 by (simp add: ptr_wf_def)
  show ?thesis
  proof (cases "pos = ULONG_MAX")
    case True
    then have "xrun ops s w1 = Some w'"
      using u by (auto simp: snd_pcm_update_hw_ptr0_def c Let_def Option.bind_eq_Some_conv)
    then show ?thesis using xrun_ok [OF ok1] k1 keeps_trans by blast
  next
    case False
    then obtain move where m: "hw_ptr_move ops (rt w1 s) i (w_jiffies w1) (valid_pos (rt w1 s) pos) = Some move"
      using u by (auto simp: snd_pcm_update_hw_ptr0_def c Let_def Option.bind_eq_Some_conv)
    show ?thesis
    proof (cases "move = None \<or> (\<exists>t. move = Some t \<and> rt_hw_ptr (rt w1 s) = fst (snd t))")
      case True
      then have "w' = w1" using u False by (auto simp: snd_pcm_update_hw_ptr0_def c Let_def m)
      then show ?thesis using ok1 k1 by simp
    next
      case F: False
      then obtain base new x where t: "move = Some (base, new, x)" by (metis not_None_eq prod_cases3)
      define w2 where "w2 = hw_ptr_commit ops s i (w_hw w1) (snd_pcm_gettime w1 s) (w_jiffies w1) (base, new, x) w1"
      have "target_wf (rt w1 s) (base, new, x)" by (rule hw_ptr_move_wf [OF p1 valid_pos_below [OF ring] m [unfolded t]])
      then have v2: "same_views w1 w2" unfolding w2_def by (rule commit_views [OF p1])
      have "world_ok w2" using ok1 same_views_ok [OF v2] by simp
      moreover have "snd_pcm_update_state ops s w2 = Some (w', r)"
        using u False F by (simp add: snd_pcm_update_hw_ptr0_def c Let_def m t w2_def)
      ultimately show ?thesis using update_state_ok keeps_trans [OF k1 keeps_trans [OF keeps_views [OF v2]]] by blast
    qed
  qed
qed

lemma update_hw_ptr_ok:
  "world_ok w \<Longrightarrow> ptr_guard w s \<Longrightarrow> snd_pcm_update_hw_ptr ops s w = Some (w', r) \<Longrightarrow> world_ok w' \<and> keeps w w'"
  unfolding snd_pcm_update_hw_ptr_def by (rule update_hw_ptr0_ok)

lemma running_guard: "world_ok w \<Longrightarrow> snd_pcm_running w s \<Longrightarrow> ptr_guard w s"
  by (rule world_ok_guards(1)) (auto simp: snd_pcm_running_def placed_def)

section \<open>Pause\<close>

lemma pre_pause_views: "same_views w (fst (snd_pcm_pre_pause push s w))"
  by (simp add: snd_pcm_pre_pause_def views_master)

lemma do_pause_ok:
  assumes ok: "world_ok w" and p: "ptr_guard w s" and d: "snd_pcm_do_pause ops push s w = Some (w', r)"
  shows "world_ok w' \<and> keeps w w'"
proof (cases "rt_trigger_master (rt w s) = Some s")
  case True
  then obtain w1 where
    w1: "(if push then map_option fst (snd_pcm_update_hw_ptr ops s w) else Some w) = Some w1"
    and w': "w' = fst (call_trigger ops s (if push then TRIGGER_PAUSE_PUSH else TRIGGER_PAUSE_RELEASE)
                (upd_rt s (\<lambda>r. r\<lparr>rt_hw_ptr_jiffies := w_jiffies w1 - k_HZ ops * 1000\<rparr>) w1))"
    using d by (auto simp: snd_pcm_do_pause_def Option.bind_eq_Some_conv Let_def split: if_splits dest!: arg_cong [of _ _ fst])
  have 1: "world_ok w1 \<and> keeps w w1" using w1 update_hw_ptr_ok [OF ok p] ok by (auto split: if_splits)
  have "same_views w1 (upd_rt s (\<lambda>r. r\<lparr>rt_hw_ptr_jiffies := w_jiffies w1 - k_HZ ops * 1000\<rparr>) w1)"
    by (simp add: same_views_def)
  then have "same_views w1 w'" unfolding w' by (rule same_views_trans [OF _ views_trigger])
  then show ?thesis using 1 same_views_ok keeps_trans keeps_views by blast
next
  case False
  then show ?thesis using d ok by (simp add: snd_pcm_do_pause_def)
qed

lemma post_pause_set:
  assumes "snd_pcm_post_pause push s w = Some w'"
  shows "state_set s (if push then S_PAUSED else S_RUNNING) w w'"
proof -
  obtain w1 where w1: "snd_pcm_trigger_tstamp s w = Some w1"
    and w': "w' = (if push then wake_both s (timer_notify s MPAUSE (upd_rt s (\<lambda>r. r\<lparr>rt_state := S_PAUSED\<rparr>) w1))
           else timer_notify s MCONTINUE (upd_rt s (\<lambda>r. r\<lparr>rt_state := S_RUNNING\<rparr>) w1))"
    using assms by (auto simp: snd_pcm_post_pause_def Option.bind_eq_Some_conv)
  show ?thesis
    by (rule state_setI [OF same_views_act [OF trigger_tstamp_frame [OF w1]]]) (simp_all add: w', simp_all add: view_simps)
qed

lemmas action_pause_simps [simp] = snd_pcm_action_pause_def [THEN arg_cong, of pre_action, simplified]
  snd_pcm_action_pause_def [THEN arg_cong, of do_action, simplified]
  snd_pcm_action_pause_def [THEN arg_cong, of undo_action, simplified]
  snd_pcm_action_pause_def [THEN arg_cong, of post_action, simplified]

interpretation pause_ok: guarded_action "snd_pcm_action_pause ops push" "\<lambda>_. True" world_ok ptr_guard ptr_guard
proof unfold_locales
  fix s t and w w' :: "'a pcm_world" and r u f
  note pre = views_guards(1) [OF pre_pause_views]
  show "world_ok w \<Longrightarrow> world_ok (fst (pre_action (snd_pcm_action_pause ops push) s w))"
    by (simp add: same_views_ok [OF pre_pause_views])
  show "ptr_guard w t \<Longrightarrow> ptr_guard (fst (pre_action (snd_pcm_action_pause ops push) s w)) t"
    using pre by simp
  show "ptr_guard (fst (pre_action (snd_pcm_action_pause ops push) s w)) s"
    if "world_ok w" "snd (pre_action (snd_pcm_action_pause ops push) s w) = Inr u"
  proof -
    have "placed (rt_state (rt w s))"
      using that(2) by (cases push) (auto simp: snd_pcm_pre_pause_def placed_def split: if_splits)
    then have "ptr_guard w s" by (rule world_ok_guards(1) [OF that(1)])
    then show ?thesis using pre by simp
  qed
  have d: "world_ok w' \<and> keeps w w'"
    if "world_ok w" "ptr_guard w s" "do_action (snd_pcm_action_pause ops push) s w = Some (w', q)" for q
    using do_pause_ok [OF that(1,2)] that(3) by simp
  show "world_ok w'" if "world_ok w" "ptr_guard w s" "do_action (snd_pcm_action_pause ops push) s w = Some (w', r)"
    using d that by blast
  show "ptr_guard w' t" if "world_ok w" "ptr_guard w s" "do_action (snd_pcm_action_pause ops push) s w = Some (w', r)"
      "ptr_guard w t"
    using d [OF that(1-3)] that(4) keeps_guards(1) by blast
  show "ptr_guard w' s" if "world_ok w" "ptr_guard w s" "do_action (snd_pcm_action_pause ops push) s w = Some (w', Inr u)"
    using d [OF that(1-3)] that(2) keeps_guards(1) by blast
  show "ptr_guard w' t" if "world_ok w" "ptr_guard w s" "do_action (snd_pcm_action_pause ops push) s w = Some (w', Inr u)"
      "ptr_guard w t"
    using d [OF that(1-3)] that(4) keeps_guards(1) by blast
  show "world_ok (f s w)" if "world_ok w" "undo_action (snd_pcm_action_pause ops push) = Some f"
    using that by (auto simp: snd_pcm_undo_pause_def same_views_ok [OF views_trigger])
  show "world_ok w'" if "world_ok w" "ptr_guard w s" "post_action (snd_pcm_action_pause ops push) s w = Some w'"
    using that state_set_up [OF post_pause_set] by simp
  show "ptr_guard w' t" if "post_action (snd_pcm_action_pause ops push) s w = Some w'" "ptr_guard w t"
    using that keeps_guards(1) [OF state_set_keeps [OF post_pause_set]] by simp
qed

lemma pause_world_ok: "world_ok w \<Longrightarrow> snd_pcm_pause ops s push w = Some (w', r) \<Longrightarrow> world_ok w'"
  unfolding snd_pcm_pause_def by (rule pause_ok.guarded_action) simp_all

end
