(* ===== verification/Pcm_Kept_States.thy ===== *)
theory Pcm_Kept_States
  imports Pcm_Kept
begin

text \<open>
  The remaining actions keep the invariant: suspend, resume of groups whose streams are all suspended,
  reset, prepare and the beginning of a drain.
\<close>

lemma ptr_ok: "ptr_wf r \<Longrightarrow> stream_ok r"
  by (simp add: stream_ok_def ptr_sizes)

text \<open>One stream is replaced by an orderly one.\<close>

lemma world_ok_upd:
  assumes "world_ok w" "\<And>t. t \<noteq> s \<Longrightarrow> view (rt w' t) = view (rt w t)" "stream_ok (rt w' s)"
  shows "world_ok w'"
  unfolding world_ok_def
proof
  fix t
  show "stream_ok (rt w' t)"
  proof (cases "t = s")
    case False
    then show ?thesis using view_eqD(5) [OF assms(2)] assms(1) by (simp add: world_ok_def)
  qed (use assms(3) in simp)
qed

lemma keeps_upd:
  assumes "\<And>t. t \<noteq> s \<Longrightarrow> view (rt w' t) = view (rt w t)"
    and "ptr_wf (rt w s) \<Longrightarrow> ptr_wf (rt w' s)" "sizes_wf (rt w s) \<Longrightarrow> sizes_wf (rt w' s)"
  shows "keeps w w'"
  unfolding keeps_def
proof
  fix t
  show "(ptr_wf (rt w t) \<longrightarrow> ptr_wf (rt w' t)) \<and> (sizes_wf (rt w t) \<longrightarrow> sizes_wf (rt w' t))"
  proof (cases "t = s")
    case False
    then show ?thesis using view_eqD(3,4) [OF assms(1)] by simp
  qed (use assms(2,3) in simp)
qed

section \<open>Suspend and resume\<close>

lemma pre_suspend_views: "same_views w (fst (snd_pcm_pre_suspend s w))"
  by (simp add: snd_pcm_pre_suspend_def views_master)

lemma do_suspend_views: "same_views w (fst (snd_pcm_do_suspend ops s w))"
  using do_suspend_world [of ops s w] views_trigger by fastforce

lemma post_suspend_ok:
  assumes "world_ok w" "snd_pcm_post_suspend s w = Some w'"
  shows "world_ok w'"
proof -
  obtain w1 where w1: "snd_pcm_trigger_tstamp s w = Some w1" and w': "w' = suspended s w1"
    using post_suspend_cases [OF assms(2)] by blast
  have v: "same_views w w1" by (rule same_views_act [OF trigger_tstamp_frame [OF w1]])
  have ok1: "world_ok w1" using assms(1) same_views_ok [OF v] by simp
  have r: "rt w' t = (if t = s then (rt w1 s)\<lparr>rt_suspended_state := rt_state (rt w1 s), rt_state := S_SUSPENDED\<rparr> else rt w1 t)" for t
    by (simp add: w' suspended_def)
  have "stream_ok (rt w1 s)" using ok1 by (simp add: world_ok_def)
  then have "stream_ok (rt w' s)" by (simp add: r stream_ok_def view_simps placed_def)
  then show ?thesis by (rule world_ok_upd [OF ok1, rotated]) (simp add: r)
qed

interpretation suspend_ok: guarded_action "snd_pcm_action_suspend ops" "\<lambda>_. True" world_ok "\<lambda>_ _. True" "\<lambda>_ _. True"
proof unfold_locales
  fix s t and w w' :: "'a pcm_world" and r u f
  show "world_ok w \<Longrightarrow> world_ok (fst (pre_action (snd_pcm_action_suspend ops) s w))"
    by (simp add: same_views_ok [OF pre_suspend_views])
  show "world_ok w'" if "world_ok w" "do_action (snd_pcm_action_suspend ops) s w = Some (w', r)"
    using that same_views_ok [OF do_suspend_views [of w ops s]] by simp
  show "world_ok (f s w)" if "undo_action (snd_pcm_action_suspend ops) = Some f" using that by simp
  show "world_ok w'" if "world_ok w" "post_action (snd_pcm_action_suspend ops) s w = Some w'"
    using post_suspend_ok [of w s w'] that by simp
qed simp_all

lemma suspend_world_ok: "world_ok w \<Longrightarrow> snd_pcm_suspend ops s w = Some (w', r) \<Longrightarrow> world_ok w'"
  unfolding snd_pcm_suspend_def by (rule suspend_ok.guarded_action) simp_all

text \<open>What a suspended stream needs to go back to its old state.\<close>

definition resumable :: "runtime \<Rightarrow> bool" where
  "resumable r \<longleftrightarrow> sizes_wf r \<and> (placed (rt_suspended_state r) \<longrightarrow> ptr_wf r)"

lemma resumable_view: "view r' = view r \<Longrightarrow> resumable r' = resumable r"
  using view_eqD [of r' r] by (simp add: resumable_def)

lemma post_resume_ok:
  assumes "world_ok w" "resumable (rt w s)" "snd_pcm_post_resume s w = Some w'"
  shows "world_ok w' \<and> (\<forall>t. resumable (rt w t) \<longrightarrow> resumable (rt w' t))"
proof -
  obtain w1 where w1: "snd_pcm_trigger_tstamp s w = Some w1"
    and w': "w' = upd_rt s (\<lambda>r. r\<lparr>rt_state := rt_suspended_state r\<rparr>) (timer_notify s MRESUME w1)"
    using assms(3) by (auto simp: snd_pcm_post_resume_def Option.bind_eq_Some_conv)
  have v: "view (rt w1 t) = view (rt w t)" for t by (rule act_view [OF trigger_tstamp_frame [OF w1]])
  have r: "rt w' t = (if t = s then (rt w1 s)\<lparr>rt_state := rt_suspended_state (rt w1 s)\<rparr> else rt w1 t)" for t
    by (simp add: w')
  have res: "resumable (rt w' t) = resumable (rt w t)" for t
    unfolding resumable_view [OF v, symmetric] r by (simp add: resumable_def view_simps)
  have "stream_ok (rt w' s)"
    using assms(2) res [of s] by (simp add: r) (auto simp: resumable_def stream_ok_def view_simps placed_def)
  then have "world_ok w'" by (rule world_ok_upd [OF assms(1), rotated]) (simp add: r v)
  then show ?thesis by (simp add: res)
qed

lemmas action_resume_simps [simp] = snd_pcm_action_resume_def [THEN arg_cong, of pre_action, simplified]
  snd_pcm_action_resume_def [THEN arg_cong, of do_action, simplified]
  snd_pcm_action_resume_def [THEN arg_cong, of undo_action, simplified]
  snd_pcm_action_resume_def [THEN arg_cong, of post_action, simplified]

interpretation resume_ok: guarded_action "snd_pcm_action_resume ops" "\<lambda>t. t \<in> M"
    "\<lambda>w. world_ok w \<and> (\<forall>t\<in>M. resumable (rt w t))" "\<lambda>_ _. True" "\<lambda>_ _. True"
proof unfold_locales
  fix s t and w w' :: "'a pcm_world" and r u f
  let ?I = "\<lambda>w :: 'a pcm_world. world_ok w \<and> (\<forall>t\<in>M. resumable (rt w t))"
  have views: "?I w \<Longrightarrow> same_views w v \<Longrightarrow> ?I v" for v
    using same_views_ok [of w v] resumable_view [of "rt v x" "rt w x" for x] by (auto simp: same_views_def)
  show "?I w \<Longrightarrow> ?I (fst (pre_action (snd_pcm_action_resume ops) s w))"
    using views [of "fst (snd_pcm_pre_resume s w)"] by (simp add: snd_pcm_pre_resume_def views_master)
  show "?I w'" if "?I w" "do_action (snd_pcm_action_resume ops) s w = Some (w', r)"
  proof -
    have "same_views w (fst (snd_pcm_do_resume ops s w))" by (simp add: snd_pcm_do_resume_def views_trigger)
    from views [OF that(1) this] that(2) show ?thesis by simp
  qed
  show "?I (f s w)" if "?I w" "undo_action (snd_pcm_action_resume ops) = Some f"
    using views [of "snd_pcm_undo_resume ops s w"] that by (auto simp: snd_pcm_undo_resume_def views_trigger)
  show "?I w'" if "s \<in> M" "?I w" "post_action (snd_pcm_action_resume ops) s w = Some w'"
    using post_resume_ok [of w s w'] that by auto
qed simp_all

lemma resume_world_ok:
  assumes "world_ok w" "\<forall>t\<in>insert s (set (group_members w s)). rt_state (rt w t) = S_SUSPENDED"
    and "snd_pcm_resume ops pwr s w = Some (w', r)"
  shows "world_ok w'"
proof -
  have "resumable (rt w t)" if "rt_state (rt w t) = S_SUSPENDED" for t
    using assms(1) that by (simp add: world_ok_def stream_ok_def resumable_def)
  then show ?thesis
    using resume_ok.guarded_action [of w "insert s (set (group_members w s))" s ops w' r] assms
    by (auto simp: snd_pcm_resume_def snd_pcm_action_lock_irq_def snd_pcm_action_def split: sum.splits)
qed

section \<open>Reset\<close>

text \<open>The position of the hardware is in the ring; the application's becomes the same.\<close>

definition aligned :: "runtime \<Rightarrow> bool" where
  "aligned r \<longleftrightarrow> ptr_wf (r\<lparr>rt_appl_ptr := rt_hw_ptr r\<rparr>)"

lemma aligned_pos:
  assumes "pos_free r' = pos_free r"
  shows "aligned r' = aligned r"
proof -
  have "pos_free (r'\<lparr>rt_appl_ptr := rt_hw_ptr r'\<rparr>) = (pos_free r')\<lparr>rt_appl_ptr := rt_hw_ptr (pos_free r')\<rparr>"
    "pos_free (r\<lparr>rt_appl_ptr := rt_hw_ptr r\<rparr>) = (pos_free r)\<lparr>rt_appl_ptr := rt_hw_ptr (pos_free r)\<rparr>"
    by (simp_all add: pos_free_def act_free_def)
  then show ?thesis unfolding aligned_def using assms by (intro ptr_wf_pos) simp
qed

lemma aligned_sizes: "aligned r \<Longrightarrow> sizes_wf r"
  unfolding aligned_def by (drule ptr_sizes) (simp add: view_simps)

lemma ptr_wf_aligned: "ptr_wf r \<Longrightarrow> aligned r"
  by (simp add: aligned_def view_simps)

lemma reset_base_ok:
  assumes "sizes_wf r" "rt_period_size r \<noteq> 0" "unat (rt_hw_ptr r) < unat (rt_buffer_size r)"
  shows "aligned (reset_base r)" "rt_appl_ptr r < rt_boundary r \<Longrightarrow> ptr_wf (reset_base r)"
proof -
  have m: "unat (rt_hw_ptr r mod rt_period_size r) \<le> unat (rt_hw_ptr r)" by (simp add: unat_mod)
  then have i: "unat (rt_hw_ptr r - rt_hw_ptr r mod rt_period_size r) \<le> unat (rt_hw_ptr r)"
    by (simp add: unat_sub_nowrap word_le_nat_alt)
  have h: "unat (rt_hw_ptr r) < unat (rt_boundary r)" using assms by (simp add: sizes_wf_def geometry_def)
  show "aligned (reset_base r)" "rt_appl_ptr r < rt_boundary r \<Longrightarrow> ptr_wf (reset_base r)"
    using assms i h
    by (simp_all add: aligned_def reset_base_def ptr_wf_def ring_wf_def sizes_wf_def geometry_def word_less_nat_alt unat_gt_0)
qed

text \<open>Other streams are only stopped by an update.\<close>

lemma update_hw_ptr0_other:
  assumes "snd_pcm_update_hw_ptr0 ops s i w = Some (w', r)" "t \<noteq> s"
  shows "pos_free (rt w' t) = pos_free (rt w t)"
proof -
  obtain w1 pos where c: "call_pointer ops s w = (w1, pos)" by fastforce
  have 1: "pos_free (rt w1 t) = pos_free (rt w t)" by (rule pos_frame_rt [OF call_pointer_pos [OF c]])
  show ?thesis
  proof (cases "pos = ULONG_MAX")
    case True
    then have "xrun ops s w1 = Some w'"
      using assms(1) by (auto simp: snd_pcm_update_hw_ptr0_def c Let_def Option.bind_eq_Some_conv)
    then show ?thesis using 1 pos_frame_rt [OF xrun_pos] by metis
  next
    case False
    then obtain move where m: "hw_ptr_move ops (rt w1 s) i (w_jiffies w1) (valid_pos (rt w1 s) pos) = Some move"
      using assms(1) by (auto simp: snd_pcm_update_hw_ptr0_def c Let_def Option.bind_eq_Some_conv)
    show ?thesis
    proof (cases "move = None \<or> (\<exists>t. move = Some t \<and> rt_hw_ptr (rt w1 s) = fst (snd t))")
      case True
      then have "w' = w1" using assms(1) False by (auto simp: snd_pcm_update_hw_ptr0_def c Let_def m)
      then show ?thesis using 1 by simp
    next
      case F: False
      then obtain base new x where q: "move = Some (base, new, x)" by (metis not_None_eq prod_cases3)
      then have "snd_pcm_update_state ops s (hw_ptr_commit ops s i (w_hw w1) (snd_pcm_gettime w1 s) (w_jiffies w1)
          (base, new, x) w1) = Some (w', r)"
        using assms(1) False F by (simp add: snd_pcm_update_hw_ptr0_def c Let_def m)
      from pos_frame_rt [OF update_state_pos [OF this], of t] show ?thesis by (simp add: commit_other assms(2) 1)
    qed
  qed
qed

lemma do_reset_ok:
  assumes ok: "world_ok w" and none: "op_reset ops = None"
    and d: "snd_pcm_do_reset ops s w = Some (w', r)"
  shows "world_ok w' \<and> keeps w w' \<and> aligned (rt w' s) \<and> (\<forall>t. aligned (rt w t) \<longrightarrow> aligned (rt w' t))"
proof -
  obtain w2 f where w2: "world_ok w2" "keeps w w2" "\<And>t. t \<noteq> s \<Longrightarrow> pos_free (rt w2 t) = pos_free (rt w t)"
    and w': "w' = upd_rt s reset_base (upd_rt s f w2)" and pz: "rt_period_size (rt w2 s) \<noteq> 0"
    and f: "f \<in> {\<lambda>r. r\<lparr>rt_hw_ptr := 0, rt_hw_ptr_wrap := 0\<rparr>, \<lambda>r. r\<lparr>rt_hw_ptr := rt_hw_ptr r mod rt_buffer_size r\<rparr>}"
  proof (cases "snd_pcm_running w s")
    case True
    then obtain v q where u: "snd_pcm_update_hw_ptr ops s w = Some (v, q)"
      and e: "(let v2 = (if isl q then upd_rt s (\<lambda>r. r\<lparr>rt_hw_ptr := 0, rt_hw_ptr_wrap := 0\<rparr>) v
         else upd_rt s (\<lambda>r. r\<lparr>rt_hw_ptr := rt_hw_ptr r mod rt_buffer_size r\<rparr>) v)
        in if rt_period_size (rt v2 s) = 0 then None else Some (upd_rt s reset_base v2, Inr ())) = Some (w', r)"
      using d by (auto simp: snd_pcm_do_reset_def none snd_pcm_lib_ioctl_reset_def Option.bind_eq_Some_conv)
    have "world_ok v \<and> keeps w v" by (rule update_hw_ptr_ok [OF ok running_guard [OF ok True] u])
    moreover have "t \<noteq> s \<Longrightarrow> pos_free (rt v t) = pos_free (rt w t)" for t
      using update_hw_ptr0_other u by (auto simp: snd_pcm_update_hw_ptr_def)
    ultimately show thesis using that [of v] e by (cases "isl q") (auto simp: Let_def split: if_splits)
  next
    case False
    then have "w' = upd_rt s reset_base (upd_rt s (\<lambda>r. r\<lparr>rt_hw_ptr := 0, rt_hw_ptr_wrap := 0\<rparr>) w)"
      "rt_period_size (rt w s) \<noteq> 0"
      using d by (auto simp: snd_pcm_do_reset_def none snd_pcm_lib_ioctl_reset_def split: if_splits)
    then show thesis using that [of w] ok by simp
  qed
  define r2 where "r2 = f (rt w2 s)"
  have z2: "sizes_wf (rt w2 s)" by (rule world_ok_guards(2) [OF w2(1)])
  then have B: "0 < unat (rt_buffer_size (rt w2 s))" using pz by (simp add: sizes_wf_def geometry_def unat_gt_0)
  have same: "rt_appl_ptr r2 = rt_appl_ptr (rt w2 s)" "rt_boundary r2 = rt_boundary (rt w2 s)"
    "rt_state r2 = rt_state (rt w2 s)" "rt_suspended_state r2 = rt_suspended_state (rt w2 s)"
    "rt_buffer_size r2 = rt_buffer_size (rt w2 s)"
    using f by (auto simp: r2_def)
  have h: "unat (rt_hw_ptr r2) < unat (rt_buffer_size r2)" using f B by (auto simp: r2_def unat_mod)
  have zr: "sizes_wf r2" using z2 f by (auto simp: r2_def view_simps)
  have "rt_period_size r2 \<noteq> 0" using pz f by (auto simp: r2_def)
  note R = reset_base_ok [OF zr this h]
  have rt': "rt w' t = (if t = s then reset_base r2 else rt w2 t)" for t by (simp add: w' r2_def)
  have st: "rt_state (reset_base r2) = rt_state (rt w2 s)" "rt_suspended_state (reset_base r2) = rt_suspended_state (rt w2 s)"
    using same by (simp_all add: reset_base_def)
  have ptr: "ptr_wf (rt w2 s) \<Longrightarrow> ptr_wf (reset_base r2)"
    using R(2) same by (simp add: ptr_wf_def ring_wf_def)
  have "stream_ok (rt w2 s)" using w2(1) by (simp add: world_ok_def)
  then have "stream_ok (rt w' s)" using ptr aligned_sizes [OF R(1)] st by (simp add: stream_ok_def rt')
  then have ok': "world_ok w'" by (rule world_ok_upd [OF w2(1), rotated]) (simp add: rt')
  have k: "keeps w2 w'" by (rule keeps_upd [of s]) (use ptr aligned_sizes [OF R(1)] in \<open>simp_all add: rt'\<close>)
  have "aligned (rt w t) \<Longrightarrow> aligned (rt w' t)" for t
    using R(1) aligned_pos [OF w2(3)] by (cases "t = s") (simp_all add: rt')
  then show ?thesis using ok' keeps_trans [OF w2(2) k] R(1) by (simp add: rt')
qed

lemmas action_reset_simps [simp] = snd_pcm_action_reset_def [THEN arg_cong, of pre_action, simplified]
  snd_pcm_action_reset_def [THEN arg_cong, of do_action, simplified]
  snd_pcm_action_reset_def [THEN arg_cong, of undo_action, simplified]
  snd_pcm_action_reset_def [THEN arg_cong, of post_action, simplified]

text \<open>The application's position becomes that of the hardware.\<close>

lemma ptr_align: "ptr_wf r \<Longrightarrow> ptr_wf (r\<lparr>rt_appl_ptr := rt_hw_ptr r\<rparr>)"
  by (simp add: view_simps)

lemma post_reset_ok:
  assumes "world_ok w" "snd_pcm_post_reset ops s w = Some w'"
  shows "world_ok w'"
proof -
  define w1 where "w1 = upd_rt s (\<lambda>r. r\<lparr>rt_appl_ptr := rt_hw_ptr r\<rparr>) w"
  have r: "rt w1 t = (if t = s then (rt w s)\<lparr>rt_appl_ptr := rt_hw_ptr (rt w s)\<rparr> else rt w t)" for t by (simp add: w1_def)
  have z: "sizes_wf ((rt w s)\<lparr>rt_appl_ptr := rt_hw_ptr (rt w s)\<rparr>) = sizes_wf (rt w s)" by (simp add: view_simps)
  have "stream_ok (rt w s)" using assms(1) by (simp add: world_ok_def)
  then have "stream_ok (rt w1 s)" using ptr_align [of "rt w s"] z by (simp add: stream_ok_def r)
  then have ok1: "world_ok w1" by (rule world_ok_upd [OF assms(1), rotated]) (simp add: r)
  have "act_frame w1 w'"
    using assms(2) by (auto simp: snd_pcm_post_reset_def Let_def playback_silence_frame simp flip: w1_def split: if_splits)
  then show ?thesis using ok1 same_views_ok [OF same_views_act] by blast
qed

interpretation reset_ok: guarded_action "snd_pcm_action_reset ops" "\<lambda>_. True"
    "\<lambda>w. world_ok w \<and> op_reset ops = None" "\<lambda>_ _. True" "\<lambda>_ _. True"
proof unfold_locales
  fix s t and w w' :: "'a pcm_world" and r u f
  let ?I = "\<lambda>w :: 'a pcm_world. world_ok w \<and> op_reset ops = None"
  show "?I w \<Longrightarrow> ?I (fst (pre_action (snd_pcm_action_reset ops) s w))" by (simp add: snd_pcm_pre_reset_def)
  show "?I w'" if "?I w" "do_action (snd_pcm_action_reset ops) s w = Some (w', r)"
    using do_reset_ok [of w ops s w' r] that by simp
  show "?I (f s w)" if "undo_action (snd_pcm_action_reset ops) = Some f" using that by simp
  show "?I w'" if "?I w" "post_action (snd_pcm_action_reset ops) s w = Some w'"
    using that post_reset_ok [of w ops s w'] by simp
qed simp_all

lemma reset_world_ok:
  "world_ok w \<Longrightarrow> op_reset ops = None \<Longrightarrow> snd_pcm_reset ops s w = Some (w', r) \<Longrightarrow> world_ok w'"
  using reset_ok.guarded_action [of w ops s w' r]
  by (simp add: snd_pcm_reset_def snd_pcm_action_nonatomic_def snd_pcm_action_def)

section \<open>Prepare\<close>

lemma do_prepare_ok:
  assumes ok: "world_ok w" and none: "op_reset ops = None"
    and d: "snd_pcm_do_prepare ops s w = Some (w', r)"
  shows "world_ok w' \<and> (r = Inr () \<longrightarrow> aligned (rt w' s)) \<and> (\<forall>t. aligned (rt w t) \<longrightarrow> aligned (rt w' t))"
proof -
  obtain h q where p: "op_prepare ops s (w_hw w) = (h, q)" by fastforce
  have v: "same_views w (w\<lparr>w_hw := h\<rparr>)" by (rule same_views_rt) simp
  have ok1: "world_ok (w\<lparr>w_hw := h\<rparr>)" using ok same_views_ok [OF v] by simp
  show ?thesis
  proof (cases q)
    case (Inl e)
    then have "w' = w\<lparr>w_hw := h\<rparr>" "r = Inl e" using d by (simp_all add: snd_pcm_do_prepare_def p)
    then show ?thesis using ok1 by simp
  next
    case (Inr u)
    then have "snd_pcm_do_reset ops s (w\<lparr>w_hw := h\<rparr>) = Some (w', r)" using d by (simp add: snd_pcm_do_prepare_def p)
    from do_reset_ok [OF ok1 none this] show ?thesis by simp
  qed
qed

lemma post_prepare_ok:
  assumes "world_ok w" "aligned (rt w s)" "snd_pcm_post_prepare s w = Some w'"
  shows "world_ok w' \<and> (\<forall>t. aligned (rt w t) \<longrightarrow> aligned (rt w' t))"
proof -
  have w': "w' = snd_pcm_set_state s S_PREPARED (upd_rt s (\<lambda>r. r\<lparr>rt_appl_ptr := rt_hw_ptr r\<rparr>) w)"
    using assms(3) by (simp add: snd_pcm_post_prepare_def)
  have r: "rt w' t = (if t = s then (rt w s)\<lparr>rt_appl_ptr := rt_hw_ptr (rt w s),
      rt_state := if rt_state (rt w s) \<noteq> S_DISCONNECTED then S_PREPARED else S_DISCONNECTED\<rparr> else rt w t)" for t
    by (simp add: w' snd_pcm_set_state_def)
  have p: "ptr_wf (rt w' s)" using assms(2) by (simp add: r) (simp add: aligned_def view_simps)
  have "world_ok w'" by (rule world_ok_upd [OF assms(1) _ ptr_ok [OF p]]) (simp add: r)
  moreover have "aligned (rt w t) \<Longrightarrow> aligned (rt w' t)" for t
    using ptr_wf_aligned [OF p] by (cases "t = s") (simp_all add: r)
  ultimately show ?thesis by simp
qed

lemmas action_prepare_simps [simp] = snd_pcm_action_prepare_def [THEN arg_cong, of pre_action, simplified]
  snd_pcm_action_prepare_def [THEN arg_cong, of do_action, simplified]
  snd_pcm_action_prepare_def [THEN arg_cong, of undo_action, simplified]
  snd_pcm_action_prepare_def [THEN arg_cong, of post_action, simplified]

interpretation prepare_ok: guarded_action "snd_pcm_action_prepare ops nb" "\<lambda>_. True"
    "\<lambda>w. world_ok w \<and> op_reset ops = None" "\<lambda>_ _. True" "\<lambda>w t. aligned (rt w t)"
proof unfold_locales
  fix s t and w w' :: "'a pcm_world" and r u f
  let ?I = "\<lambda>w :: 'a pcm_world. world_ok w \<and> op_reset ops = None"
  have v: "same_views w (fst (snd_pcm_pre_prepare nb s w))"
    by (rule same_views_rt) (simp add: snd_pcm_pre_prepare_def upd_sub_def rt_def)
  show "?I w \<Longrightarrow> ?I (fst (pre_action (snd_pcm_action_prepare ops nb) s w))"
    using same_views_ok [OF v] by simp
  have d: "world_ok w' \<and> (q = Inr () \<longrightarrow> aligned (rt w' s)) \<and> (\<forall>t. aligned (rt w t) \<longrightarrow> aligned (rt w' t))"
    if "?I w" "do_action (snd_pcm_action_prepare ops nb) s w = Some (w', q)" for q
    using do_prepare_ok [of w ops s w' q] that by simp
  show "?I w'" if "?I w" "do_action (snd_pcm_action_prepare ops nb) s w = Some (w', r)"
    using d [OF that] that(1) by simp
  show "aligned (rt w' s)" if "?I w" "do_action (snd_pcm_action_prepare ops nb) s w = Some (w', Inr u)"
    using d [OF that] by simp
  show "aligned (rt w' t)" if "?I w" "do_action (snd_pcm_action_prepare ops nb) s w = Some (w', Inr u)"
      "aligned (rt w t)"
    using d [OF that(1,2)] that(3) by blast
  show "?I (f s w)" if "undo_action (snd_pcm_action_prepare ops nb) = Some f" using that by simp
  show "?I w'" if "?I w" "aligned (rt w s)" "post_action (snd_pcm_action_prepare ops nb) s w = Some w'"
    using that post_prepare_ok [of w s w'] by simp
  show "aligned (rt w' t)" if "?I w" "aligned (rt w s)" "post_action (snd_pcm_action_prepare ops nb) s w = Some w'" "aligned (rt w t)"
    using that post_prepare_ok [of w s w'] by simp
qed simp_all

lemma prepare_world_ok:
  "world_ok w \<Longrightarrow> op_reset ops = None \<Longrightarrow> snd_pcm_prepare ops pwr file s w = Some (w', r) \<Longrightarrow> world_ok w'"
  using prepare_ok.guarded_action [of w ops s _ w' r]
  by (auto simp: snd_pcm_prepare_def snd_pcm_action_nonatomic_def snd_pcm_action_def Let_def split: sum.splits)

section \<open>Drain\<close>

lemma do_drain_init_ok:
  assumes ok: "world_ok w" and d: "snd_pcm_do_drain_init ops s w = Some (w', r)"
  shows "world_ok w'"
proof -
  have down: "world_ok (upd_rt s (\<lambda>r. r\<lparr>rt_state := st\<rparr>) w)"
    if "st = S_SETUP \<or> ptr_guard w s" for st
  proof -
    have "state_set s st w (upd_rt s (\<lambda>r. r\<lparr>rt_state := st\<rparr>) w)"
      by (rule state_setI [OF views_refl]) (simp_all, simp add: view_simps)
    then show ?thesis using that state_set_up [OF _ ok] state_set_down [OF _ ok] by blast
  qed
  note place = world_ok_guards(1) [OF ok, of s]
  show ?thesis
  proof (cases "playback w s")
    case True
    show ?thesis
    proof (cases "rt_state (rt w s) = S_PREPARED \<and> \<not> snd_pcm_playback_empty (rt w s)")
      case prep: True
      then have p: "ptr_guard w s" using place by (simp add: placed_def)
      obtain q where q: "snd_pcm_post_start ops S_DRAINING s (fst (snd_pcm_do_start ops s w)) = Some q" "w' = q"
        using d True prep by (auto simp: snd_pcm_do_drain_init_def Option.bind_eq_Some_conv)
      note v = views_do_start [of w ops s]
      show ?thesis unfolding q(2)
        by (rule state_set_up [OF post_start_set [OF q(1)]]) (use ok p same_views_ok [OF v] views_guards(1) [OF v] in simp_all)
    next
      case False
      then have "w' = w \<or> w' = upd_rt s (\<lambda>r. r\<lparr>rt_state := S_DRAINING\<rparr>) w \<and> rt_state (rt w s) = S_RUNNING \<or>
          w' = upd_rt s (\<lambda>r. r\<lparr>rt_state := S_SETUP\<rparr>) w"
        using d True by (auto simp: snd_pcm_do_drain_init_def split: pcm_state.splits if_splits)
      then show ?thesis using ok place down by (auto simp: placed_def)
    qed
  next
    case False
    show ?thesis
    proof (cases "rt_state (rt w s) = S_RUNNING")
      case True
      then have p: "ptr_guard w s" using place by (simp add: placed_def)
      obtain q st where q: "snd_pcm_post_stop st s (fst (snd_pcm_do_stop ops s w)) = Some q" "w' = q"
        using d True False by (auto simp: snd_pcm_do_drain_init_def Option.bind_eq_Some_conv)
      note v = views_do_stop [of w ops s]
      show ?thesis unfolding q(2)
        by (rule state_set_up [OF post_stop_set [OF q(1)]]) (use ok p same_views_ok [OF v] views_guards(1) [OF v] in simp_all)
    next
      case 2: False
      then show ?thesis using d False ok by (simp add: snd_pcm_do_drain_init_def)
    qed
  qed
qed

lemmas action_drain_init_simps [simp] = snd_pcm_action_drain_init_def [THEN arg_cong, of pre_action, simplified]
  snd_pcm_action_drain_init_def [THEN arg_cong, of do_action, simplified]
  snd_pcm_action_drain_init_def [THEN arg_cong, of undo_action, simplified]
  snd_pcm_action_drain_init_def [THEN arg_cong, of post_action, simplified]

interpretation drain_ok: guarded_action "snd_pcm_action_drain_init ops" "\<lambda>_. True" world_ok "\<lambda>_ _. True" "\<lambda>_ _. True"
proof unfold_locales
  fix s t and w w' :: "'a pcm_world" and r u f
  have v: "same_views w (fst (snd_pcm_pre_drain_init s w))" by (simp add: snd_pcm_pre_drain_init_def views_master)
  show "world_ok w \<Longrightarrow> world_ok (fst (pre_action (snd_pcm_action_drain_init ops) s w))"
    using same_views_ok [OF v] by simp
  show "world_ok w'" if "world_ok w" "do_action (snd_pcm_action_drain_init ops) s w = Some (w', r)"
    using do_drain_init_ok [of w ops s w' r] that by simp
qed simp_all

end
