(* ===== verification/Pcm_Kept_Ioctl.thy ===== *)
theory Pcm_Kept_Ioctl
  imports Pcm_Kept_States
begin

text \<open>The ioctls and the period interrupt keep the invariant.\<close>

section \<open>Interrupt, overrun, drop and drain\<close>

lemma world_ok_effects [simp]: "world_ok (add_effects es w) = world_ok w"
  by (simp add: world_ok_def)

lemma period_elapsed_world_ok:
  assumes ok: "world_ok w" and e: "snd_pcm_period_elapsed ops s w = Some w'"
  shows "world_ok w'"
proof (cases "snd_pcm_running w s")
  case True
  obtain w1 r where u: "snd_pcm_update_hw_ptr0 ops s True w = Some (w1, r)"
    and w': "w' = add_effects [Kill_fasync s] (if isl r then w1
       else if ss_timer_running (w_subs w1 s) then add_effects [Timer_interrupt s] w1 else w1)"
    using e True by (auto simp: snd_pcm_period_elapsed_def Option.bind_eq_Some_conv)
  have "world_ok w1" using update_hw_ptr0_ok [OF ok running_guard [OF ok True] u] by simp
  then show ?thesis by (simp add: w')
next
  case False
  then show ?thesis using e ok by (auto simp: snd_pcm_period_elapsed_def)
qed

lemma xrun_ioctl_world_ok: "world_ok w \<Longrightarrow> snd_pcm_xrun ops pwr s w = Some (w', r) \<Longrightarrow> world_ok w'"
  using stop_world_ok [of w S_XRUN ops s w' r] by (auto simp: snd_pcm_xrun_def split: if_splits)

lemma release_pause_world_ok: "world_ok w \<Longrightarrow> release_pause ops s w = Some w' \<Longrightarrow> world_ok w'"
  by (auto simp: release_pause_def Option.bind_eq_Some_conv intro: pause_world_ok split: if_splits)

lemma drop_world_ok: "world_ok w \<Longrightarrow> snd_pcm_drop ops s w = Some (w', r) \<Longrightarrow> world_ok w'"
  by (auto simp: snd_pcm_drop_def Option.bind_eq_Some_conv intro: stop_world_ok dest: release_pause_world_ok split: if_splits)

lemma drain_loop_world_ok:
  assumes "\<forall>d\<in>set ds. \<forall>w. world_ok w \<longrightarrow> world_ok (dr_sleep d w)"
    and "world_ok w" "drain_loop ops s ds w = Some (w', r)"
  shows "world_ok w'"
  using assms
proof (induction ds arbitrary: w)
  case (Cons d ds)
  have 1: "world_ok (dr_sleep d w)" using Cons.prems(1,2) by simp
  then show ?case using Cons.prems(2,3) Cons.IH [of "dr_sleep d w"] Cons.prems(1) stop_world_ok [OF 1, of S_SETUP]
    by (auto simp: Let_def Option.bind_eq_Some_conv split: if_splits option.splits)
qed simp

lemma drain_world_ok:
  assumes ds: "\<forall>d\<in>set ds. \<forall>w. world_ok w \<longrightarrow> world_ok (dr_sleep d w)"
    and ok: "world_ok w" and d: "snd_pcm_drain ops pwr file ds s w = Some (w', r)"
  shows "world_ok w'"
proof (cases "rt_state (rt w s) = S_OPEN \<or> rt_state (rt w s) = S_SUSPENDED \<and> isl pwr")
  case True
  then show ?thesis using d ok by (auto simp: snd_pcm_drain_def split: if_splits)
next
  case False
  then obtain w1 w2 q where 1: "release_pause ops s w = Some w1"
    and 2: "snd_pcm_action (snd_pcm_action_drain_init ops) s w1 = Some (w2, q)"
    using d by (auto simp: snd_pcm_drain_def Option.bind_eq_Some_conv)
  have ok2: "world_ok w2"
    by (rule drain_ok.guarded_action [OF release_pause_world_ok [OF ok 1] _ 2]) simp
  have "w' = w2 \<or> drain_loop ops s ds w2 = Some (w', r)"
    using d False by (cases q) (auto simp: snd_pcm_drain_def 1 2 split: if_splits)
  then show ?thesis using ok2 drain_loop_world_ok [OF ds ok2] by blast
qed

section \<open>Parameters\<close>

text \<open>
  A driver whose reset is that of the library and whose parameter callbacks write only the hardware
  and the DMA area of streams, as \<open>snd_pcm_lib_malloc_pages\<close> and \<open>snd_pcm_lib_free_pages\<close> do.
\<close>

definition same_but_dma :: "'h pcm_world \<Rightarrow> 'h pcm_world \<Rightarrow> bool" where
  "same_but_dma w w' \<longleftrightarrow>
     (\<forall>t. (rt w' t)\<lparr>rt_dma_area := [], rt_dma_bytes := 0\<rparr> = (rt w t)\<lparr>rt_dma_area := [], rt_dma_bytes := 0\<rparr>)"

definition calm_driver :: "'h pcm_ops \<Rightarrow> bool" where
  "calm_driver ops \<longleftrightarrow> op_reset ops = None \<and>
     (\<forall>f s p w. op_hw_params ops = Some f \<longrightarrow> same_but_dma w (fst (f s p w))) \<and>
     (\<forall>f s w. op_hw_free ops = Some f \<longrightarrow> same_but_dma w (fst (f s w)))"

lemma same_but_dma_views:
  assumes "same_but_dma w w'"
  shows "same_views w w'"
  unfolding same_views_def
proof
  fix t
  have v: "view (r\<lparr>rt_dma_area := [], rt_dma_bytes := 0\<rparr>) = view r" for r by (simp add: view_simps)
  show "view (rt w' t) = view (rt w t)"
    using assms v by (metis same_but_dma_def)
qed

lemma set_state_rt:
  "rt (snd_pcm_set_state s st w) t =
     (if t = s \<and> rt_state (rt w s) \<noteq> S_DISCONNECTED then (rt w s)\<lparr>rt_state := st\<rparr> else rt w t)"
  by (simp add: snd_pcm_set_state_def)

lemma set_open_world_ok:
  assumes "world_ok w"
  shows "world_ok (snd_pcm_set_state s S_OPEN w)"
proof -
  have "stream_ok (rt w s)" using assms by (simp add: world_ok_def)
  then have "stream_ok (rt (snd_pcm_set_state s S_OPEN w) s)"
    by (auto simp: set_state_rt stream_ok_def placed_def view_simps)
  then show ?thesis by (rule world_ok_upd [OF assms, rotated]) (simp add: set_state_rt)
qed

lemma hw_params_error_ok:
  assumes "calm_driver ops" "world_ok w"
  shows "world_ok (hw_params_error ops s w)"
proof (cases "op_hw_free ops")
  case None
  then show ?thesis using set_open_world_ok [OF assms(2)] by (simp add: hw_params_error_def)
next
  case (Some f)
  let ?w = "snd_pcm_set_state s S_OPEN w"
  have "same_but_dma ?w (fst (f s ?w))" using assms(1) Some by (simp add: calm_driver_def)
  then have "world_ok (fst (f s ?w)) = world_ok ?w" by (intro same_views_ok same_but_dma_views)
  then show ?thesis using set_open_world_ok [OF assms(2)] Some by (simp add: hw_params_error_def)
qed

lemma timer_change_view: "view (snd_pcm_timer_resolution_change r) = view r"
  by (simp add: snd_pcm_timer_resolution_change_def view_simps split: option.split)

text \<open>The chosen parameters have a period that is not empty and not longer than the buffer.\<close>

definition sane_params :: "hw_params \<Rightarrow> bool" where
  "sane_params p \<longleftrightarrow> params_min HW_PARAM_PERIOD_SIZE p \<noteq> 0 \<and>
     params_min HW_PARAM_PERIOD_SIZE p \<le> params_min HW_PARAM_BUFFER_SIZE p"

lemma configured_sizes:
  assumes p: "sane_params p"
    and b: "boundary_loop (rt_buffer_size (set_hw_fields p r)) (rt_buffer_size (set_hw_fields p r)) = Some b"
  shows "sizes_wf ((set_hw_fields p r)\<lparr>rt_boundary := b\<rparr>)"
proof -
  let ?r = "set_hw_fields p r"
  have f: "rt_buffer_size ?r = ucast (params_min HW_PARAM_BUFFER_SIZE p)" "rt_period_size ?r = ucast (params_min HW_PARAM_PERIOD_SIZE p)"
    by (simp_all add: set_hw_fields_def Let_def split: prod.split)
  have u: "unat (rt_buffer_size ?r) = unat (params_min HW_PARAM_BUFFER_SIZE p)"
    "unat (rt_period_size ?r) = unat (params_min HW_PARAM_PERIOD_SIZE p)" by (simp_all add: f)
  have per: "0 < unat (rt_period_size ?r)" "unat (rt_period_size ?r) \<le> unat (rt_buffer_size ?r)"
    using p by (simp_all add: u sane_params_def word_le_nat_alt unat_gt_0)
  then have nz: "rt_buffer_size ?r \<noteq> 0" by auto
  have small: "unat (rt_buffer_size ?r) + unat (rt_buffer_size ?r) < 2 ^ 63"
  proof -
    have "unat (params_min HW_PARAM_BUFFER_SIZE p) < 4294967296" by simp
    then have "unat (params_min HW_PARAM_BUFFER_SIZE p) + unat (params_min HW_PARAM_BUFFER_SIZE p) < 9223372036854775808"
      by linarith
    then show ?thesis by (simp add: u)
  qed
  have "\<exists>b' k. boundary_loop (rt_buffer_size ?r) (rt_buffer_size ?r) = Some b' \<and>
      unat b' = unat (rt_buffer_size ?r) * 2 ^ k \<and> unat b' + unat (rt_buffer_size ?r) < 2 ^ 63 \<and>
      2 ^ 63 \<le> 2 * unat b' + unat (rt_buffer_size ?r)"
    by (rule boundary_loop_result [OF nz _ small, of 0]) simp
  then have "geometry (?r\<lparr>rt_boundary := b\<rparr>)" using b nz by (auto simp: geometry_def)
  then show ?thesis using per by (simp add: sizes_wf_def)
qed

lemma hw_params_world_ok:
  assumes calm: "calm_driver ops" and ok: "world_ok w"
    and h: "snd_pcm_hw_params ops env s params w = Some (w', p', r)" and sane: "r = Inr () \<longrightarrow> sane_params p'"
  shows "world_ok w'"
proof (cases "rt_state (rt w s) \<notin> {S_OPEN, S_SETUP, S_PREPARED} \<or> ss_mmap_count (w_subs w s) \<noteq> 0")
  case True
  then show ?thesis using h ok by (auto simp: snd_pcm_hw_params_def split: if_splits)
next
  case False
  then obtain p1 q1 where 1: "snd_pcm_hw_refine env (rt_constraints (rt w s)) (params\<lparr>hp_rmask := UINT_MAX\<rparr>) = Some (p1, q1)"
    using h by (auto simp: snd_pcm_hw_params_def Option.bind_eq_Some_conv)
  show ?thesis
  proof (cases q1)
    case (Inl e)
    then show ?thesis using h False 1 hw_params_error_ok [OF calm ok] by (auto simp: snd_pcm_hw_params_def)
  next
    case (Inr u)
    then obtain p2 q2 where 2: "snd_pcm_hw_params_choose env (rt_constraints (rt w s)) p1 = Some (p2, q2)"
      using h False 1 by (auto simp: snd_pcm_hw_params_def Option.bind_eq_Some_conv)
    show ?thesis
    proof (cases q2)
      case e: (Inl e)
      then show ?thesis using h False 1 2 Inr hw_params_error_ok [OF calm ok] by (auto simp: snd_pcm_hw_params_def)
    next
      case v: (Inr v)
      obtain w3 p3 q3 where 3: "(case op_hw_params ops of None \<Rightarrow> (w, p2, Inr ()) | Some f \<Rightarrow> f s p2 w) = (w3, p3, q3)"
        by (metis prod_cases3)
      have "same_views w w3"
      proof (cases "op_hw_params ops")
        case (Some f)
        then have "same_but_dma w (fst (f s p2 w))" using calm by (simp add: calm_driver_def)
        then show ?thesis using 3 Some same_but_dma_views by auto
      qed (use 3 in simp)
      then have ok3: "world_ok w3" using ok same_views_ok by blast
      show ?thesis
      proof (cases q3)
        case e: (Inl e)
        then show ?thesis using h False 1 2 3 Inr v hw_params_error_ok [OF calm ok3] by (auto simp: snd_pcm_hw_params_def)
      next
        case x: (Inr x)
        let ?r = "set_hw_fields p3 (rt w3 s)"
        obtain b where b: "boundary_loop (rt_buffer_size ?r) (rt_buffer_size ?r) = Some b"
          and w': "w' = snd_pcm_set_state s S_SETUP
             (upd_rt s (\<lambda>_. snd_pcm_timer_resolution_change (?r\<lparr>rt_boundary := b\<rparr>)) w3)"
          and res: "p' = p3" "r = Inr ()"
          using h False 1 2 3 Inr v x by (auto simp: snd_pcm_hw_params_def Option.bind_eq_Some_conv Let_def)
        have z: "sizes_wf (snd_pcm_timer_resolution_change (?r\<lparr>rt_boundary := b\<rparr>))"
          using configured_sizes [OF _ b] sane res view_eqD(4) [OF timer_change_view] by simp
        have st: "rt_state (snd_pcm_timer_resolution_change (?r\<lparr>rt_boundary := b\<rparr>)) = rt_state (rt w3 s)"
          using view_eqD(1) [OF timer_change_view, of "?r\<lparr>rt_boundary := b\<rparr>"]
          by (simp add: set_hw_fields_def Let_def split: prod.split)
        show ?thesis
        proof (rule world_ok_upd [OF ok3])
          show "t \<noteq> s \<Longrightarrow> view (rt w' t) = view (rt w3 t)" for t by (simp add: w' set_state_rt)
          show "stream_ok (rt w' s)"
            using z by (auto simp: w' set_state_rt st stream_ok_def view_simps placed_def)
        qed
      qed
    qed
  qed
qed

lemma hw_free_world_ok:
  assumes "calm_driver ops" "world_ok w" "snd_pcm_hw_free ops s w = (w', r)"
  shows "world_ok w'"
proof -
  obtain w1 q where f: "(case op_hw_free ops of None \<Rightarrow> (w, Inr ()) | Some f \<Rightarrow> f s w) = (w1, q)" by fastforce
  have "same_views w w1"
  proof (cases "op_hw_free ops")
    case (Some f)
    then have "same_but_dma w (fst (f s w))" using assms(1) by (simp add: calm_driver_def)
    then show ?thesis using f Some same_but_dma_views by auto
  qed (use f in simp)
  then have "world_ok w1" using assms(2) same_views_ok by blast
  then show ?thesis using assms(2,3) f set_open_world_ok by (auto simp: snd_pcm_hw_free_def split: if_splits)
qed

lemma sw_params_world_ok:
  assumes ok: "world_ok w" and p: "snd_pcm_sw_params ops s p w = Some (w', p', r)"
  shows "world_ok w'"
proof (cases "rt_state (rt w s) = S_OPEN \<or> sw_params_error (rt w s) p")
  case True
  then show ?thesis using p ok by (auto simp: snd_pcm_sw_params_def split: if_splits)
next
  case False
  define w1 where "w1 = upd_rt s (set_sw_fields p) w"
  have "view (set_sw_fields p r) = view r" for r by (simp add: set_sw_fields_def view_simps)
  then have ok1: "world_ok w1" using ok same_views_ok [of w w1] by (simp add: w1_def same_views_def)
  define w2 where "w2 = (if playback w1 s \<and> rt_silence_size (rt w1 s) > 0 then snd_pcm_playback_silence ops s ULONG_MAX w1 else w1)"
  have "same_views w1 w2" by (simp add: w2_def same_views_act [OF playback_silence_frame])
  then have ok2: "world_ok w2" using ok1 same_views_ok by blast
  show ?thesis
    using p False ok1 update_state_ok [OF ok2]
    by (auto simp: snd_pcm_sw_params_def Let_def Option.bind_eq_Some_conv simp flip: w1_def w2_def split: if_splits)
qed

section \<open>Status and positions\<close>

lemma status_world_ok:
  assumes ok: "world_ok w" and st: "snd_pcm_status ops s q w = Some (w', q')"
  shows "world_ok w'"
proof (cases "rt_state (rt w s) = S_OPEN")
  case True
  then show ?thesis using st ok by (simp add: snd_pcm_status_def Let_def)
next
  case False
  obtain w1 where 1: "(if snd_pcm_running w s then map_option fst (snd_pcm_update_hw_ptr ops s w) else Some w) = Some w1"
    and w': "w' = upd_rt s (\<lambda>r. r\<lparr>rt_avail_max := 0, rt_overrange := 0\<rparr>) w1"
    using st False by (auto simp: snd_pcm_status_def Let_def Option.bind_eq_Some_conv split: if_splits)
  have "world_ok w1" using 1 ok update_hw_ptr_ok [OF ok running_guard [OF ok]] by (auto split: if_splits)
  moreover have "same_views w1 w'" by (simp add: w' same_views_def view_simps)
  ultimately show ?thesis using same_views_ok by blast
qed

lemma hwsync_world_ok:
  assumes ok: "world_ok w" and h: "snd_pcm_hwsync ops s w = Some (w', r)"
  shows "world_ok w'"
proof -
  have "w' = w \<or> (rt_state (rt w s) \<in> {S_DRAINING, S_RUNNING} \<and> snd_pcm_update_hw_ptr ops s w = Some (w', r))"
    using h by (auto simp: snd_pcm_hwsync_def split: pcm_state.splits if_splits)
  then show ?thesis using ok update_hw_ptr_ok [OF ok] world_ok_guards(1) [OF ok, of s] by (auto simp: placed_def)
qed

lemma delay_world_ok: "world_ok w \<Longrightarrow> snd_pcm_delay ops s w = Some (w', r) \<Longrightarrow> world_ok w'"
  by (auto simp: snd_pcm_delay_def Option.bind_eq_Some_conv intro: hwsync_world_ok)

text \<open>An application pointer inside the ring.\<close>

lemma set_appl_ptr_world_ok:
  assumes "world_ok w" "ptr_guard w s \<Longrightarrow> p < rt_boundary (rt w s)"
  shows "world_ok (set_appl_ptr s p w)"
proof (rule world_ok_upd [OF assms(1)])
  show "t \<noteq> s \<Longrightarrow> view (rt (set_appl_ptr s p w) t) = view (rt w t)" for t by simp
  have "ptr_guard w s \<Longrightarrow> ptr_wf ((rt w s)\<lparr>rt_appl_ptr := p\<rparr>)" using assms(2) by (auto simp: view_simps)
  moreover have "stream_ok (rt w s)" using assms(1) by (simp add: world_ok_def)
  moreover have "sizes_wf ((rt w s)\<lparr>rt_appl_ptr := p\<rparr>) = sizes_wf (rt w s)" by (simp add: view_simps)
  ultimately show "stream_ok (rt (set_appl_ptr s p w) s)" by (simp add: stream_ok_def)
qed

lemma tstamp_world_ok: "world_ok w \<Longrightarrow> snd_pcm_tstamp s arg w = (w', r) \<Longrightarrow> world_ok w'"
  using same_views_ok [of w w'] by (auto simp: snd_pcm_tstamp_def same_views_def split: if_splits)

lemma exchange_world_ok:
  assumes "world_ok w" "sp_flags p AND 2 = 0 \<Longrightarrow> sp_appl_ptr p < rt_boundary (rt w s)"
  shows "world_ok (fst (exchange_ptr s p w))"
proof -
  obtain w1 p1 where 1: "(if sp_flags p AND 2 = 0 then (set_appl_ptr s (sp_appl_ptr p) w, p)
      else (w, p\<lparr>sp_appl_ptr := rt_appl_ptr (rt w s)\<rparr>)) = (w1, p1)" by fastforce
  have "world_ok w1" using 1 assms set_appl_ptr_world_ok [OF assms(1), of s "sp_appl_ptr p"] by (auto split: if_splits)
  moreover have "same_views w1 (upd_rt s (\<lambda>r. r\<lparr>rt_avail_min := x\<rparr>) w1)" for x by (simp add: same_views_def)
  ultimately show ?thesis
    using same_views_ok by (auto simp: exchange_ptr_def 1 Let_def)
qed

text \<open>An update leaves the sizes and the application pointer of all streams alone.\<close>

definition sizes_of :: "runtime \<Rightarrow> u64 \<times> u64 \<times> u64" where
  "sizes_of r = (rt_buffer_size r, rt_boundary r, rt_appl_ptr r)"

lemma sizes_of_pos: "pos_frame w w' \<Longrightarrow> sizes_of (rt w' t) = sizes_of (rt w t)"
  using pos_frame_selectors(2,4,5) [of w w' t] by (simp add: sizes_of_def)

lemma commit_sizes: "sizes_of (rt (hw_ptr_commit ops s i h now j m w) t) = sizes_of (rt w t)"
proof -
  obtain base new c where m: "m = (base, new, c)" by (metis prod_cases3)
  obtain v where f: "sil_frame w v"
    and r: "sizes_of (rt (hw_ptr_commit ops s i h now j m w) s) = sizes_of (rt v s)"
    unfolding m by (rule commit_cases [of w ops s i h now j base new c]) (simp add: sizes_of_def)
  show ?thesis
    using r sizes_of_pos [OF act_frame_pos [OF sil_frame_act [OF f]]] by (cases "t = s") (simp_all add: m commit_other)
qed

lemma update_hw_ptr0_sizes:
  assumes u: "snd_pcm_update_hw_ptr0 ops s i w = Some (w', r)"
  shows "sizes_of (rt w' t) = sizes_of (rt w t)"
proof -
  obtain w1 pos where c: "call_pointer ops s w = (w1, pos)" by fastforce
  have 1: "sizes_of (rt w1 t) = sizes_of (rt w t)" by (rule sizes_of_pos [OF call_pointer_pos [OF c]])
  show ?thesis
  proof (cases "pos = ULONG_MAX")
    case True
    then have "pos_frame w1 w'"
      using u by (auto simp: snd_pcm_update_hw_ptr0_def c Let_def Option.bind_eq_Some_conv dest: xrun_pos)
    then show ?thesis using 1 sizes_of_pos [of w1 w' t] by simp
  next
    case False
    then obtain move where m: "hw_ptr_move ops (rt w1 s) i (w_jiffies w1) (valid_pos (rt w1 s) pos) = Some move"
      using u by (auto simp: snd_pcm_update_hw_ptr0_def c Let_def Option.bind_eq_Some_conv)
    have "w' = w1 \<or> (\<exists>x. snd_pcm_update_state ops s
        (hw_ptr_commit ops s i (w_hw w1) (snd_pcm_gettime w1 s) (w_jiffies w1) x w1) = Some (w', r))"
      using u False m by (auto simp: snd_pcm_update_hw_ptr0_def c Let_def split: option.splits if_splits)
    then show ?thesis using 1 by (auto simp: commit_sizes dest!: update_state_pos sizes_of_pos [of _ _ t])
  qed
qed

lemma hwsync_sizes: "snd_pcm_hwsync ops s w = Some (w', r) \<Longrightarrow> sizes_of (rt w' t) = sizes_of (rt w t)"
  by (auto simp: snd_pcm_hwsync_def snd_pcm_update_hw_ptr_def update_hw_ptr0_sizes split: pcm_state.splits if_splits)

lemma sync_ptr_world_ok:
  assumes ok: "world_ok w" and s: "snd_pcm_sync_ptr ops s p w = Some (w', r)"
    and b: "sp_flags p AND 2 = 0 \<Longrightarrow> sp_appl_ptr p < rt_boundary (rt w s)"
  shows "world_ok w'"
proof (cases "sp_flags p AND 1 = 0")
  case True
  have "world_ok (fst (exchange_ptr s p w))" by (rule exchange_world_ok [OF ok b])
  then show ?thesis using s True by (auto simp: snd_pcm_sync_ptr_def split: prod.splits)
next
  case False
  then obtain w1 q where 1: "snd_pcm_hwsync ops s w = Some (w1, q)"
    using s by (auto simp: snd_pcm_sync_ptr_def Option.bind_eq_Some_conv)
  have w': "w' = w1 \<or> w' = fst (exchange_ptr s p w1)"
    using s False by (cases q) (auto simp: snd_pcm_sync_ptr_def 1 split: prod.splits)
  have ok1: "world_ok w1" by (rule hwsync_world_ok [OF ok 1])
  have "rt_boundary (rt w1 s) = rt_boundary (rt w s)" using hwsync_sizes [OF 1, of s] by (simp add: sizes_of_def)
  then have "world_ok (fst (exchange_ptr s p w1))" by (intro exchange_world_ok [OF ok1]) (simp add: b)
  then show ?thesis using ok1 w' by auto
qed

section \<open>Moving the application pointer\<close>

lemma rewind_ptr_below:
  assumes "ring_wf r" "unat n \<le> unat (rt_boundary r)"
  defines "p \<equiv> rt_appl_ptr r - n"
  shows "(if sint p < 0 then p + rt_boundary r else p) < rt_boundary r"
proof (cases "n = rt_boundary r")
  case True
  note R = ring_bounds [OF assms(1)]
  have "sint p = int (unat (rt_appl_ptr r)) - int (unat (rt_boundary r))"
    unfolding p_def True using R(4,6) by (subst sint_diff_nowrap) (simp_all add: sint_u64)
  then show ?thesis using R(6) True by (simp add: p_def word_less_nat_alt)
next
  case False
  then have n: "unat n < unat (rt_boundary r)" using assms(2) by (simp add: word_unat_eq_iff)
  then have "0 < int (unat (rt_boundary r))" by simp
  then have "int (unat (if sint p < 0 then p + rt_boundary r else p)) < int (unat (rt_boundary r))"
    unfolding p_def rewind_ptr [OF assms(1) n] by (rule pos_mod_bound)
  then show ?thesis unfolding word_less_nat_alt of_nat_less_iff .
qed

text \<open>What is queued is at most a buffer, unless the difference is negative.\<close>

lemma hw_avail_below:
  assumes "ring_wf r" "unat a < unat (rt_boundary r)" "0 < sint (rt_buffer_size r - a)"
  shows "unat (rt_buffer_size r - a) \<le> unat (rt_boundary r)"
proof -
  note R = ring_bounds [OF assms(1)]
  have "sint (rt_buffer_size r - a) = int (unat (rt_buffer_size r)) - int (unat a)"
    using R assms(2) by (subst sint_diff_nowrap) (simp_all add: sint_u64)
  then have "unat a \<le> unat (rt_buffer_size r)" using assms(3) by simp
  then have "unat (rt_buffer_size r - a) = unat (rt_buffer_size r) - unat a"
    by (simp add: unat_sub_nowrap word_le_nat_alt)
  then show ?thesis using R(3) by simp
qed

lemma avail_below:
  assumes "ring_wf r"
  shows "unat (snd_pcm_playback_avail r) < unat (rt_boundary r)" "unat (snd_pcm_capture_avail r) < unat (rt_boundary r)"
proof -
  have M: "0 < int (unat (rt_boundary r))" using ring_bounds [OF assms] by simp
  have "int (unat (snd_pcm_playback_avail r)) < int (unat (rt_boundary r))"
    unfolding playback_avail_mod [OF assms] by (rule pos_mod_bound [OF M])
  then show "unat (snd_pcm_playback_avail r) < unat (rt_boundary r)" unfolding of_nat_less_iff .
  have "int (unat (snd_pcm_capture_avail r)) < int (unat (rt_boundary r))"
    unfolding capture_avail_mod [OF assms] by (rule pos_mod_bound [OF M])
  then show "unat (snd_pcm_capture_avail r) < unat (rt_boundary r)" unfolding of_nat_less_iff .
qed

lemma rewind_world_ok:
  assumes ok: "world_ok w" and a: "a = rt_buffer_size (rt w s) - v"
    and v: "ptr_guard w s \<Longrightarrow> unat v < unat (rt_boundary (rt w s))"
  shows "world_ok (fst (rewind_frames s f a w))"
proof (cases "sint a \<le> 0")
  case False
  let ?n = "if f > a then a else f"
  let ?p = "rt_appl_ptr (rt w s) - ?n"
  have "world_ok (set_appl_ptr s (if sint ?p < 0 then ?p + rt_boundary (rt w s) else ?p) w)"
  proof (rule set_appl_ptr_world_ok [OF ok])
    assume p: "ptr_guard w s"
    then have ring: "ring_wf (rt w s)" by (simp add: ptr_wf_def)
    have "unat a \<le> unat (rt_boundary (rt w s))" using hw_avail_below [OF ring v [OF p]] False a by simp
    then have "unat ?n \<le> unat (rt_boundary (rt w s))" by (auto simp: word_less_nat_alt)
    then show "(if sint ?p < 0 then ?p + rt_boundary (rt w s) else ?p) < rt_boundary (rt w s)"
      by (rule rewind_ptr_below [OF ring])
  qed
  then show ?thesis using False by (simp only: rewind_frames_def Let_def if_False fst_conv)
qed (simp add: rewind_frames_def ok)

lemma forward_world_ok:
  assumes ok: "world_ok w" and n: "ptr_guard w s \<Longrightarrow> unat f \<le> unat (rt_buffer_size (rt w s))"
  shows "world_ok (fst (forward_frames s f a w))"
proof (cases "sint a \<le> 0")
  case False
  let ?n = "if f > a then a else f"
  let ?p = "rt_appl_ptr (rt w s) + ?n"
  have "world_ok (set_appl_ptr s (if sint ?p \<ge> sint (rt_boundary (rt w s)) then ?p - rt_boundary (rt w s) else ?p) w)"
  proof (rule set_appl_ptr_world_ok [OF ok])
    assume p: "ptr_guard w s"
    then have ring: "ring_wf (rt w s)" by (simp add: ptr_wf_def)
    have n': "unat ?n \<le> unat (rt_buffer_size (rt w s))" using n [OF p] by (auto simp: word_less_nat_alt)
    have "0 < unat (rt_boundary (rt w s))" using ring_bounds [OF ring] by simp
    then show "(if sint ?p \<ge> sint (rt_boundary (rt w s)) then ?p - rt_boundary (rt w s) else ?p) < rt_boundary (rt w s)"
      using forward_ptr [OF ring n'] by (simp only: word_less_nat_alt) simp
  qed
  then show ?thesis using False by (simp only: forward_frames_def Let_def if_False fst_conv)
qed (simp add: forward_frames_def ok)

lemma checked_move_world_ok:
  assumes ok: "world_ok w" and m: "checked_move ops passive active s move w = Some (w', r)"
    and active: "active \<subseteq> {S_DRAINING, S_RUNNING}"
    and move: "\<And>v. world_ok v \<Longrightarrow> sizes_of (rt v s) = sizes_of (rt w s) \<Longrightarrow> world_ok (fst (move v))"
  shows "world_ok w'"
proof -
  consider "Some (move w) = Some (w', r)" | "w' = w"
    | w1 q where "rt_state (rt w s) \<in> active" "snd_pcm_update_hw_ptr ops s w = Some (w1, q)"
      "(w', r) = (if isl q then (w1, Inl EPIPE) else move w1)"
    using m by (auto simp: checked_move_def Let_def Option.bind_eq_Some_conv split: if_splits)
  then show ?thesis
  proof cases
    case 1
    then show ?thesis using move [OF ok] by (metis fst_conv option.inject)
  next
    case 2
    then show ?thesis using ok by simp
  next
    case (3 w1 q)
    have "ptr_guard w s" using 3(1) active by (intro world_ok_guards(1) [OF ok]) (auto simp: placed_def)
    then have 1: "world_ok w1" using update_hw_ptr_ok [OF ok _ 3(2)] by simp
    have "sizes_of (rt w1 s) = sizes_of (rt w s)"
      using 3(2) unfolding snd_pcm_update_hw_ptr_def by (rule update_hw_ptr0_sizes)
    then have "world_ok (fst (move w1))" by (rule move [OF 1])
    then show ?thesis using 3(3) 1 by (metis fst_conv)
  qed
qed

lemma playback_rewind_world_ok:
  "world_ok w \<Longrightarrow> snd_pcm_playback_rewind ops s f w = Some (w', r) \<Longrightarrow> world_ok w'"
  unfolding snd_pcm_playback_rewind_def
  by (auto split: if_splits elim!: checked_move_world_ok [rotated]
      intro!: rewind_world_ok [OF _ snd_pcm_playback_hw_avail_def] avail_below simp: ptr_wf_def)

lemma capture_rewind_world_ok:
  "world_ok w \<Longrightarrow> snd_pcm_capture_rewind ops s f w = Some (w', r) \<Longrightarrow> world_ok w'"
  unfolding snd_pcm_capture_rewind_def
  by (auto split: if_splits elim!: checked_move_world_ok [rotated]
      intro!: rewind_world_ok [OF _ snd_pcm_capture_hw_avail_def] avail_below simp: ptr_wf_def)

lemma playback_forward_world_ok:
  "world_ok w \<Longrightarrow> f \<le> rt_buffer_size (rt w s) \<Longrightarrow> snd_pcm_playback_forward ops s f w = Some (w', r) \<Longrightarrow> world_ok w'"
  unfolding snd_pcm_playback_forward_def
  by (auto split: if_splits elim!: checked_move_world_ok [rotated]
      intro!: forward_world_ok simp: sizes_of_def word_le_nat_alt)

lemma capture_forward_world_ok:
  "world_ok w \<Longrightarrow> f \<le> rt_buffer_size (rt w s) \<Longrightarrow> snd_pcm_capture_forward ops s f w = Some (w', r) \<Longrightarrow> world_ok w'"
  unfolding snd_pcm_capture_forward_def
  by (auto split: if_splits elim!: checked_move_world_ok [rotated]
      intro!: forward_world_ok simp: sizes_of_def word_le_nat_alt)

end
