(* ===== verification/Pcm_Kept_Transfer.thy ===== *)
theory Pcm_Kept_Transfer
  imports Pcm_Kept_Ioctl
begin

text \<open>
  Reading and writing keep the invariant, whatever the rest of the system does while the lock is
  dropped, as long as it keeps the invariant and does not reconfigure the stream.
\<close>

section \<open>Transfers touch the DMA area only\<close>

lemma same_but_dma_refl [simp]: "same_but_dma w w"
  by (simp add: same_but_dma_def)

lemma same_but_dma_trans: "same_but_dma w w1 \<Longrightarrow> same_but_dma w1 w2 \<Longrightarrow> same_but_dma w w2"
  by (simp add: same_but_dma_def)

lemma same_but_dma_hw [simp]: "same_but_dma w (v\<lparr>w_hw := h\<rparr>) = same_but_dma w v"
  by (simp add: same_but_dma_def)

lemma same_but_dma_area: "same_but_dma w (upd_rt s (\<lambda>r. r\<lparr>rt_dma_area := f r\<rparr>) v) = same_but_dma w v"
  by (auto simp: same_but_dma_def)

lemma same_but_dma_put [simp]: "same_but_dma w (upd_rt s (put_bytes off bs) v) = same_but_dma w v"
  unfolding put_bytes_replace [abs_def] by (rule same_but_dma_area)

lemma same_but_dma_silence [simp]: "same_but_dma w (upd_rt s (set_silence_at off n) v) = same_but_dma w v"
  unfolding set_silence_at_def [abs_def] write_area_def [abs_def] by (rule same_but_dma_area)

lemma same_but_dma_sizes:
  assumes "same_but_dma w w'"
  shows "sizes_of (rt w' t) = sizes_of (rt w t)"
proof -
  have "sizes_of (r\<lparr>rt_dma_area := [], rt_dma_bytes := 0\<rparr>) = sizes_of r" for r by (simp add: sizes_of_def)
  then show ?thesis using assms by (metis same_but_dma_def)
qed

definition calm_transfer :: "('h, 'm) transfer \<Rightarrow> bool" where
  "calm_transfer transfer \<longleftrightarrow> (\<forall>s hwoff off n w m. same_but_dma w (fst (transfer s hwoff off n (w, m))))"

lemma each_channel_keeps:
  assumes "\<And>c w w' r. f c w = (w', r) \<Longrightarrow> P w \<Longrightarrow> P w'" "P w" "each_channel f cs w = (w', r)"
  shows "P w'"
  using assms(2,3)
proof (induction cs arbitrary: w)
  case (Cons c cs)
  obtain w1 q where f: "f c w = (w1, q)" by fastforce
  have "P w1" by (rule assms(1) [OF f Cons.prems(1)])
  then show ?case using Cons f by (cases q) simp_all
qed simp

lemma write_transfer_calm: "calm_transfer (snd_pcm_lib_write_transfer ops)"
  by (simp add: calm_transfer_def snd_pcm_lib_write_transfer_def Let_def split: option.split prod.split)

lemma read_transfer_calm: "calm_transfer (snd_pcm_lib_read_transfer ops)"
  by (simp add: calm_transfer_def snd_pcm_lib_read_transfer_def Let_def split: option.split prod.split)

lemma writev_transfer_calm: "calm_transfer (snd_pcm_lib_writev_transfer ops)"
  by (auto simp: calm_transfer_def snd_pcm_lib_writev_transfer_def Let_def split: option.split prod.split
      elim!: each_channel_keeps [where P = "same_but_dma w" for w, rotated 2] split: option.splits prod.splits)

lemma readv_transfer_calm: "calm_transfer (snd_pcm_lib_readv_transfer ops)"
  unfolding calm_transfer_def
proof (intro allI)
  fix s and hwoff off :: u32 and n :: u64 and w :: "'a pcm_world" and m
  define f where "f = (\<lambda>c (v, bufs).
    case bufs c of None \<Rightarrow> ((v :: 'a pcm_world, bufs), Inr ())
    | Some b \<Rightarrow>
        (case op_copy ops of
           Some f \<Rightarrow>
             (let (h, buf', res) = f s (int c) (ucast hwoff) (drop (unat (samples_to_bytes (rt w s) (ucast off))) b) n (w_hw v)
              in ((v\<lparr>w_hw := h\<rparr>, bufs(c := Some (take (unat (samples_to_bytes (rt w s) (ucast off))) b @ buf'))), res))
         | None \<Rightarrow>
             let hwbuf = of_nat c * (rt_dma_bytes (rt w s) div ucast (rt_channels (rt w s))) + samples_to_bytes (rt w s) (ucast hwoff);
                 (buf', ok) = copy_to_user (drop (unat (samples_to_bytes (rt w s) (ucast off))) b)
                   (get_bytes (unat hwbuf) (unat (samples_to_bytes (rt w s) n)) (rt w s))
             in ((v, bufs(c := Some (take (unat (samples_to_bytes (rt w s) (ucast off))) b @ buf'))), if ok then Inr () else Inl EFAULT)))"
  have step: "same_but_dma w (fst vb')" if "f c vb = (vb', r)" "same_but_dma w (fst vb)" for c vb vb' r
    using that by (auto simp: f_def Let_def split: prod.splits option.splits)
  obtain vb r where e: "each_channel f [0..<unat (rt_channels (rt w s))] (w, m) = (vb, r)" by fastforce
  have "same_but_dma w (fst vb)" by (rule each_channel_keeps [OF _ _ e, where P = "\<lambda>vb. same_but_dma w (fst vb)"]) (auto dest: step)
  moreover have "fst (snd_pcm_lib_readv_transfer ops s hwoff off n (w, m)) = fst vb"
    using e by (simp add: snd_pcm_lib_readv_transfer_def Let_def f_def split: prod.split)
  ultimately show "same_but_dma w (fst (snd_pcm_lib_readv_transfer ops s hwoff off n (w, m)))" by simp
qed

section \<open>The loops\<close>

text \<open>The stream keeps its sizes \<open>B\<close> and \<open>M\<close>.\<close>

definition xfer_ok :: "nat \<Rightarrow> u64 \<Rightarrow> u64 \<Rightarrow> 'h pcm_world \<Rightarrow> bool" where
  "xfer_ok s B M w \<longleftrightarrow> world_ok w \<and> rt_buffer_size (rt w s) = B \<and> rt_boundary (rt w s) = M \<and> rt_appl_ptr (rt w s) < M"

text \<open>What the rest of the system may do meanwhile.\<close>

definition calm_releases :: "nat \<Rightarrow> u64 \<Rightarrow> u64 \<Rightarrow> 'h release list \<Rightarrow> bool" where
  "calm_releases s B M ds \<longleftrightarrow> (\<forall>d\<in>set ds. \<forall>w. xfer_ok s B M w \<longrightarrow> xfer_ok s B M (rl_others d w))"

lemma calm_releases_simps [simp]:
  "calm_releases s B M []"
  "calm_releases s B M (d # ds) \<longleftrightarrow> (\<forall>w. xfer_ok s B M w \<longrightarrow> xfer_ok s B M (rl_others d w)) \<and> calm_releases s B M ds"
  by (simp_all add: calm_releases_def)

lemma xfer_ok_frame: "xfer_ok s B M w \<Longrightarrow> world_ok w' \<Longrightarrow> sizes_of (rt w' s) = sizes_of (rt w s) \<Longrightarrow> xfer_ok s B M w'"
  by (simp add: xfer_ok_def sizes_of_def)

lemma set_twake_ok [simp]: "world_ok (set_twake s n w) = world_ok w" "xfer_ok s B M (set_twake s n w) = xfer_ok s B M w"
proof -
  have "same_views w (set_twake s n w)" by (simp add: same_views_def set_twake_def)
  then show 1: "world_ok (set_twake s n w) = world_ok w" by (rule same_views_ok)
  show "xfer_ok s B M (set_twake s n w) = xfer_ok s B M w" by (simp add: xfer_ok_def 1) (simp add: set_twake_def)
qed

lemma wait_for_avail_ok:
  "xfer_ok s B M w \<Longrightarrow> calm_releases s B M ds \<Longrightarrow> wait_for_avail s ds w = Some (w', r, ds') \<Longrightarrow>
   xfer_ok s B M w' \<and> calm_releases s B M ds'"
proof (induction ds arbitrary: w)
  case (Cons d ds)
  show ?case
  proof (cases "rl_signal d \<or> stream_avail w s \<ge> rt_twake (rt w s)")
    case True
    then show ?thesis using Cons.prems by (auto split: if_splits)
  next
    case False
    have o: "xfer_ok s B M (rl_others d w)" "calm_releases s B M ds" using Cons.prems by simp_all
    have "w' = rl_others d w \<and> ds' = ds \<or> wait_for_avail s ds (rl_others d w) = Some (w', r, ds')"
      using Cons.prems(3) False by (auto simp: Let_def split: pcm_state.splits if_splits)
    then show ?thesis using o Cons.IH [OF o] by blast
  qed
qed simp

lemma wait_for_space_ok:
  "xfer_ok s B M w \<Longrightarrow> calm_releases s B M ds \<Longrightarrow> wait_for_space nb s ds n w = Some (w', r, ds') \<Longrightarrow>
   xfer_ok s B M w' \<and> calm_releases s B M ds'"
  using wait_for_avail_ok [of s B M "set_twake s (min n (avail_min_or_1 (rt w s))) w" ds w' r ds']
  by (auto simp: wait_for_space_def split: if_splits)

lemma chunk_below_buffer: "rt_buffer_size r \<noteq> 0 \<Longrightarrow> chunk_frames r n a \<le> rt_buffer_size r"
proof -
  assume "rt_buffer_size r \<noteq> 0"
  have "rt_appl_ptr r mod rt_buffer_size r \<le> rt_buffer_size r"
    using \<open>rt_buffer_size r \<noteq> 0\<close> by (simp add: word_le_nat_alt unat_mod unat_gt_0 less_imp_le)
  then have "rt_buffer_size r - rt_appl_ptr r mod rt_buffer_size r \<le> rt_buffer_size r"
    by (simp add: word_le_nat_alt unat_sub_nowrap)
  then show ?thesis by (auto simp: chunk_frames_def Let_def)
qed

text \<open>The moved pointer is in the ring.\<close>

lemma advance_below:
  assumes "geometry r" "p < rt_boundary r" "n \<le> rt_buffer_size r"
  shows "advance_appl_ptr r p n < rt_boundary r"
proof -
  have "0 < rt_boundary r" using order.strict_trans1 [OF word_zero_le assms(2)] .
  then have "ring_wf (r\<lparr>rt_hw_ptr := 0, rt_appl_ptr := p\<rparr>)"
    using assms(1,2) by (simp add: ring_wf_geometry) (simp add: geometry_def)
  note R = ring_bounds [OF this]
  have "unat p + unat n < 2 ^ 64" using R(1,4,6) assms(3) by (simp add: word_le_nat_alt)
  then have s: "unat (p + n) = unat p + unat n" by (simp add: unat_add_nowrap)
  show ?thesis
  proof (cases "p + n \<ge> rt_boundary r")
    case True
    then have "unat (p + n - rt_boundary r) = unat p + unat n - unat (rt_boundary r)"
      using s by (simp add: unat_sub_nowrap word_le_nat_alt)
    then show ?thesis using True R(3,6) assms(3) by (simp add: advance_appl_ptr_def word_less_nat_alt word_le_nat_alt)
  qed (simp add: advance_appl_ptr_def)
qed

lemma xfer_sizes: "xfer_ok s B M w \<Longrightarrow> rt_buffer_size (rt w s) = B" "xfer_ok s B M w \<Longrightarrow> rt_boundary (rt w s) = M"
  "xfer_ok s B M w \<Longrightarrow> rt_appl_ptr (rt w s) < M" "xfer_ok s B M w \<Longrightarrow> world_ok w"
  by (simp_all add: xfer_ok_def)

definition fits :: "u64 \<Rightarrow> u64 \<Rightarrow> bool" where
  "fits B M \<longleftrightarrow> geometry (zero_runtime\<lparr>rt_buffer_size := B, rt_boundary := M\<rparr>)"

lemma fits_geometry: "fits (rt_buffer_size r) (rt_boundary r) = geometry r"
  by (simp add: fits_def geometry_def)

lemma transfer_chunk_ok:
  assumes calm: "calm_transfer transfer" and x: "xfer_ok s B M w" and fits: "fits B M" and n: "n \<le> B"
    and o: "\<And>w. xfer_ok s B M w \<Longrightarrow> xfer_ok s B M (others w)"
    and c: "transfer_chunk ops transfer s off n others (w, m) = (w', m', r)"
  shows "xfer_ok s B M w'"
proof -
  obtain w1 m1 q where t: "transfer s (ucast (rt_appl_ptr (rt w s) mod rt_buffer_size (rt w s))) (ucast off) n (w, m) = (w1, m1, q)"
    by (metis prod_cases3)
  have d: "same_but_dma w w1" using calm t by (metis calm_transfer_def fst_conv)
  have "world_ok w1" using xfer_sizes(4) [OF x] same_views_ok [OF same_but_dma_views [OF d]] by simp
  then have "xfer_ok s B M w1" by (rule xfer_ok_frame [OF x _ same_but_dma_sizes [OF d]])
  then have 2: "xfer_ok s B M (others w1)" by (rule o)
  note S = xfer_sizes [OF 2]
  let ?p = "advance_appl_ptr (rt (others w1) s) (rt_appl_ptr (rt w s)) n"
  have p: "?p < M"
    using advance_below [of "rt (others w1) s" "rt_appl_ptr (rt w s)" n] xfer_sizes(3) [OF x] S(1,2) n fits
      fits_geometry [of "rt (others w1) s"] by simp
  have "world_ok (set_appl_ptr s ?p (others w1))"
    by (rule set_appl_ptr_world_ok [OF S(4)]) (use p S(2) in simp)
  then have 3: "xfer_ok s B M (set_appl_ptr s ?p (others w1))" using p S(1,2) by (simp add: xfer_ok_def)
  then have "xfer_ok s B M ((set_appl_ptr s ?p (others w1))\<lparr>w_hw := h\<rparr>)" for h
    by (simp add: xfer_ok_def world_ok_def)
  then show ?thesis using c 2 3
    by (auto simp: transfer_chunk_def t Let_def split: sum.splits if_splits option.splits)
qed

lemma auto_start_ok: "xfer_ok s B M w \<Longrightarrow> auto_start ops s w = Some (w', r) \<Longrightarrow> xfer_ok s B M w'"
proof -
  assume x: "xfer_ok s B M w" and a: "auto_start ops s w = Some (w', r)"
  have "w' = w \<or> snd_pcm_start ops s w = Some (w', r)" using a by (auto simp: auto_start_def split: if_splits)
  then show ?thesis
  proof
    assume s: "snd_pcm_start ops s w = Some (w', r)"
    have "pos_frame w w'" using s unfolding snd_pcm_start_def by (rule start_frame.action_inv [OF free_frame_refl])
    then show ?thesis using xfer_ok_frame [OF x start_world_ok [OF xfer_sizes(4) [OF x] s] sizes_of_pos] by simp
  qed (use x in simp)
qed

lemma stop_drained_ok: "xfer_ok s B M w \<Longrightarrow> stop_drained ops s w = Some w' \<Longrightarrow> xfer_ok s B M w'"
  using xfer_ok_frame [OF _ _ sizes_of_pos [OF stop_pos]] stop_world_ok [of w S_SETUP] xfer_sizes(4) [of s B M w]
  by (fastforce simp: stop_drained_def)

lemma fits_pos: "fits B M \<Longrightarrow> B \<noteq> 0"
  by (auto simp: fits_def geometry_def)

lemma chunk_le: "fits B M \<Longrightarrow> xfer_ok s B M w \<Longrightarrow> chunk_frames (rt w s) n a \<le> B"
  using chunk_below_buffer [of "rt w s" n a] xfer_sizes(1) [of s B M w] fits_pos by auto

text \<open>The wait at the beginning of a round.\<close>

lemma round_wait_ok:
  assumes "xfer_ok s B M w" "calm_releases s B M ds"
    and "(if a = 0 then wait_for_space nb s ds n w else Some (w, Inr a, ds)) = Some (w1, q, ds1)"
  shows "xfer_ok s B M w1" "calm_releases s B M ds1"
  using wait_for_space_ok [OF assms(1,2)] assms by (auto split: if_splits)

lemma write_loop_ok:
  assumes calm: "calm_transfer transfer" and fits: "fits B M"
  shows "xfer_ok s B M w \<Longrightarrow> calm_releases s B M ds \<Longrightarrow>
    write_loop ops transfer nb s ds n x a w m = Some (w', m', res, ds') \<Longrightarrow> xfer_ok s B M w'"
proof (induction "unat n" arbitrary: ds n x a w m rule: less_induct)
  case less
  show ?case
  proof (cases "n = 0")
    case True
    then show ?thesis using less.prems by (subst (asm) write_loop.simps) simp
  next
    case n: False
    then obtain w1 q ds1 where 1: "(if a = 0 then wait_for_space nb s ds n w else Some (w, Inr a, ds)) = Some (w1, q, ds1)"
      using less.prems(3) by (subst (asm) write_loop.simps) (auto split: option.splits)
    note W = round_wait_ok [OF less.prems(1,2) 1]
    show ?thesis
    proof (cases q)
      case (Inl e)
      then show ?thesis using less.prems(3) W(1) n by (subst (asm) write_loop.simps) (simp add: 1)
    next
      case (Inr a1)
      define f where "f = chunk_frames (rt w1 s) n a1"
      have fB: "f \<le> B" unfolding f_def by (rule chunk_le [OF fits W(1)])
      show ?thesis
      proof (cases "f = 0")
        case True
        then have "w' = set_twake s 0 w1"
          using less.prems(3) n Inr by (subst (asm) write_loop.simps) (simp add: 1 flip: f_def)
        then show ?thesis using W(1) by simp
      next
        case f: False
        then obtain d ds2 where dd: "ds1 = d # ds2"
          using less.prems(3) n Inr by (subst (asm) write_loop.simps) (auto simp: 1 simp flip: f_def split: list.splits)
        obtain w2 m2 q2 where c: "transfer_chunk ops transfer s x f (rl_others d) (w1, m) = (w2, m2, q2)" by (metis prod_cases3)
        have 2: "xfer_ok s B M w2" and r: "calm_releases s B M ds2"
          using transfer_chunk_ok [OF calm W(1) fits fB _ c] W(2) dd by simp_all
        show ?thesis
        proof (cases q2)
          case e: (Inl e)
          then show ?thesis using less.prems(3) n Inr f 2 by (subst (asm) write_loop.simps) (simp add: 1 dd c flip: f_def)
        next
          case u: (Inr u)
          then obtain w3 q3 where 3: "auto_start ops s w2 = Some (w3, q3)"
            using less.prems(3) n Inr f by (subst (asm) write_loop.simps) (auto simp: 1 dd c simp flip: f_def split: option.splits)
          have ok3: "xfer_ok s B M w3" by (rule auto_start_ok [OF 2 3])
          have "w' = w3 \<or> write_loop ops transfer nb s ds2 (n - f) (x + f) (a1 - f) w3 m2 = Some (w', m', res, ds')"
            using less.prems(3) n Inr f u
            by (subst (asm) write_loop.simps) (cases q3, auto simp: 1 dd c 3 simp flip: f_def)
          moreover have "unat (n - f) < unat n" using chunk_frames_shrinks [of "rt w1 s" n a1] f by (simp flip: f_def)
          ultimately show ?thesis using less.hyps [OF _ ok3 r] ok3 by blast
        qed
      qed
    qed
  qed
qed

lemma read_loop_ok:
  assumes calm: "calm_transfer transfer" and fits: "fits B M"
  shows "xfer_ok s B M w \<Longrightarrow> calm_releases s B M ds \<Longrightarrow>
    read_loop ops transfer nb s ds n x a w m = Some (w', m', res, ds') \<Longrightarrow> xfer_ok s B M w'"
proof (induction "unat n" arbitrary: ds n x a w m rule: less_induct)
  case less
  show ?case
  proof (cases "n = 0 \<or> a = 0 \<and> rt_state (rt w s) = S_DRAINING")
    case True
    then show ?thesis using less.prems stop_drained_ok [OF less.prems(1)]
      by (subst (asm) read_loop.simps) (auto split: if_splits)
  next
    case n: False
    then obtain w1 q ds1 where 1: "(if a = 0 then wait_for_space nb s ds n w else Some (w, Inr a, ds)) = Some (w1, q, ds1)"
      using less.prems(3) by (subst (asm) read_loop.simps) (auto split: option.splits)
    note W = round_wait_ok [OF less.prems(1,2) 1]
    have nz: "(n = 0) = False" "(a = 0 \<and> rt_state (rt w s) = S_DRAINING) = False" using n by auto
    note step = less.prems(3) [unfolded read_loop.simps [of ops transfer nb s ds n x a w m] nz if_False 1 option.case prod.case]
    show ?thesis
    proof (cases q)
      case (Inl e)
      then show ?thesis using step W(1) by simp
    next
      case (Inr a1)
      define f where "f = chunk_frames (rt w1 s) n a1"
      have fB: "f \<le> B" unfolding f_def by (rule chunk_le [OF fits W(1)])
      show ?thesis
      proof (cases "a1 = 0 \<or> f = 0")
        case True
        then have "stop_drained ops s w1 = Some w' \<or> w' = set_twake s 0 w1"
          using step Inr by (auto simp flip: f_def split: if_splits)
        then show ?thesis using W(1) stop_drained_ok [OF W(1)] by auto
      next
        case f: False
        then obtain d ds2 where dd: "ds1 = d # ds2"
          using step Inr f by (auto simp flip: f_def split: list.splits)
        obtain w2 m2 q2 where c: "transfer_chunk ops transfer s x f (rl_others d) (w1, m) = (w2, m2, q2)" by (metis prod_cases3)
        have 2: "xfer_ok s B M w2" and r: "calm_releases s B M ds2"
          using transfer_chunk_ok [OF calm W(1) fits fB _ c] W(2) dd by simp_all
        have "w' = w2 \<or> read_loop ops transfer nb s ds2 (n - f) (x + f) (a1 - f) w2 m2 = Some (w', m', res, ds')"
          using step Inr f by (cases q2) (auto simp: dd c simp flip: f_def)
        moreover have "unat (n - f) < unat n" using chunk_frames_shrinks [of "rt w1 s" n a1] f by (simp flip: f_def)
        ultimately show ?thesis using less.hyps [OF _ 2 r] 2 by blast
      qed
    qed
  qed
qed

section \<open>The four operations\<close>

lemma refresh_position_ok:
  assumes "world_ok w" "refresh_position ops s w = Some w'"
  shows "world_ok w' \<and> sizes_of (rt w' t) = sizes_of (rt w t)"
proof -
  define v where "v = set_twake s (avail_min_or_1 (rt w s)) w"
  have v: "world_ok v" "sizes_of (rt v t) = sizes_of (rt w t)"
    using assms(1) by (simp_all add: v_def) (simp add: set_twake_def sizes_of_def)
  consider "w' = v" | q where "rt_state (rt v s) = S_RUNNING" "snd_pcm_update_hw_ptr ops s v = Some (w', q)"
    using assms(2) by (auto simp: refresh_position_def Let_def simp flip: v_def split: if_splits)
  then show ?thesis
  proof cases
    case 2
    have "ptr_guard v s" by (rule world_ok_guards(1) [OF v(1)]) (simp add: 2(1) placed_def)
    then show ?thesis using update_hw_ptr_ok [OF v(1) _ 2(2)] update_hw_ptr0_sizes [of ops s False v w'] 2(2) v(2)
      by (simp add: snd_pcm_update_hw_ptr_def)
  qed (use v in simp)
qed

lemma end_transfer_ok:
  assumes "world_ok w" "end_transfer ops s x res w = Some (w', r)"
  shows "world_ok w'"
  using assms update_state_ok [of "set_twake s 0 w" ops s] by (auto simp: end_transfer_def Let_def split: if_splits)

lemma placed_xfer:
  assumes "world_ok w" "placed (rt_state (rt w s))"
  shows "xfer_ok s (rt_buffer_size (rt w s)) (rt_boundary (rt w s)) w"
    "fits (rt_buffer_size (rt w s)) (rt_boundary (rt w s))"
proof -
  have "ptr_guard w s" by (rule world_ok_guards(1) [OF assms])
  then have "ring_wf (rt w s)" by (simp add: ptr_wf_def)
  then show "xfer_ok s (rt_buffer_size (rt w s)) (rt_boundary (rt w s)) w"
    "fits (rt_buffer_size (rt w s)) (rt_boundary (rt w s))"
    using assms(1) by (simp_all add: xfer_ok_def fits_geometry ring_wf_geometry)
qed

abbreviation calm_now :: "nat \<Rightarrow> 'h pcm_world \<Rightarrow> 'h release list \<Rightarrow> bool" where
  "calm_now s w ds \<equiv> calm_releases s (rt_buffer_size (rt w s)) (rt_boundary (rt w s)) ds"

lemma lib_write1_ok:
  assumes calm: "calm_transfer transfer" and ok: "world_ok w" and r: "calm_now s w ds"
    and e: "snd_pcm_lib_write1 ops transfer nb s ds n w m = Some (w', m', res)"
  shows "world_ok w'"
proof (cases "n = 0 \<or> rt_state (rt w s) \<notin> {S_PREPARED, S_RUNNING, S_PAUSED}")
  case True
  then show ?thesis using e ok by (auto simp: snd_pcm_lib_write1_def split: if_splits)
next
  case False
  then have p: "placed (rt_state (rt w s))" by (auto simp: placed_def)
  obtain w1 where 1: "refresh_position ops s w = Some w1"
    using e False by (auto simp: snd_pcm_lib_write1_def split: option.splits)
  note x = placed_xfer [OF ok p]
  have x1: "xfer_ok s (rt_buffer_size (rt w s)) (rt_boundary (rt w s)) w1"
    using xfer_ok_frame [OF x(1)] refresh_position_ok [OF ok 1] by blast
  obtain w2 m2 q ds2 where 2: "write_loop ops transfer nb s ds n 0 (snd_pcm_playback_avail (rt w1 s)) w1 m = Some (w2, m2, q, ds2)"
    using e False 1 by (auto simp: snd_pcm_lib_write1_def split: option.splits)
  have ok2: "world_ok w2" by (rule xfer_sizes(4) [OF write_loop_ok [OF calm x(2) x1 r 2]])
  show ?thesis
    using e False ok2 end_transfer_ok [OF ok2] by (auto simp: snd_pcm_lib_write1_def 1 2 split: option.splits)
qed

lemma lib_read1_ok:
  assumes calm: "calm_transfer transfer" and ok: "world_ok w" and r: "calm_now s w ds"
    and e: "snd_pcm_lib_read1 ops transfer nb s ds n w m = Some (w', m', res)"
  shows "world_ok w'"
proof (cases "n = 0 \<or> rt_state (rt w s) \<notin> {S_PREPARED, S_DRAINING, S_RUNNING, S_PAUSED}")
  case True
  then show ?thesis using e ok by (auto simp: snd_pcm_lib_read1_def split: if_splits)
next
  case False
  then have p: "placed (rt_state (rt w s))" by (auto simp: placed_def)
  obtain w1 q1 where 1: "(if rt_state (rt w s) = S_PREPARED \<and> n \<ge> rt_start_threshold (rt w s)
      then snd_pcm_start ops s w else Some (w, Inr ())) = Some (w1, q1)"
    using e False by (auto simp: snd_pcm_lib_read1_def split: option.splits)
  note x = placed_xfer [OF ok p]
  have f1: "pos_frame w w1"
    using 1 start_frame.action_inv [OF free_frame_refl, of ops S_RUNNING s w w1 q1]
    by (auto simp: snd_pcm_start_def split: if_splits)
  have ok1: "world_ok w1" using 1 ok start_world_ok [OF ok] by (auto split: if_splits)
  show ?thesis
  proof (cases q1)
    case (Inl e')
    then show ?thesis using e False ok1 by (auto simp: snd_pcm_lib_read1_def 1)
  next
    case (Inr u)
    then obtain w2 where 2: "refresh_position ops s w1 = Some w2"
      using e False by (auto simp: snd_pcm_lib_read1_def 1 split: option.splits)
    have x2: "xfer_ok s (rt_buffer_size (rt w s)) (rt_boundary (rt w s)) w2"
      using xfer_ok_frame [OF x(1)] refresh_position_ok [OF ok1 2] sizes_of_pos [OF f1] by fastforce
    obtain w3 m3 q ds3 where 3: "read_loop ops transfer nb s ds n 0 (snd_pcm_capture_avail (rt w2 s)) w2 m = Some (w3, m3, q, ds3)"
      using e False Inr by (auto simp: snd_pcm_lib_read1_def 1 2 split: option.splits)
    have ok3: "world_ok w3" by (rule xfer_sizes(4) [OF read_loop_ok [OF calm x(2) x2 r 3]])
    show ?thesis
      using e False ok3 Inr end_transfer_ok [OF ok3] by (auto simp: snd_pcm_lib_read1_def 1 2 3 split: option.splits)
  qed
qed

lemma write_world_ok:
  "world_ok w \<Longrightarrow> calm_now s w ds \<Longrightarrow> snd_pcm_lib_write ops s ds n w b = Some (w', b', r) \<Longrightarrow> world_ok w'"
  by (auto simp: snd_pcm_lib_write_def intro: lib_write1_ok [OF write_transfer_calm] split: sum.splits if_splits)

lemma writev_world_ok:
  "world_ok w \<Longrightarrow> calm_now s w ds \<Longrightarrow> snd_pcm_lib_writev ops s ds n w bs = Some (w', bs', r) \<Longrightarrow> world_ok w'"
  by (auto simp: snd_pcm_lib_writev_def intro: lib_write1_ok [OF writev_transfer_calm] split: sum.splits if_splits)

lemma read_world_ok:
  "world_ok w \<Longrightarrow> calm_now s w ds \<Longrightarrow> snd_pcm_lib_read ops s ds n w b = Some (w', b', r) \<Longrightarrow> world_ok w'"
  by (auto simp: snd_pcm_lib_read_def intro: lib_read1_ok [OF read_transfer_calm] split: sum.splits if_splits)

lemma readv_world_ok:
  "world_ok w \<Longrightarrow> calm_now s w ds \<Longrightarrow> snd_pcm_lib_readv ops s ds n w bs = Some (w', bs', r) \<Longrightarrow> world_ok w'"
  by (auto simp: snd_pcm_lib_readv_def intro: lib_read1_ok [OF readv_transfer_calm] split: sum.splits if_splits)

end
