(* ===== verification/Pcm_Machine.thy ===== *)
theory Pcm_Machine
  imports Pcm_Kept_Transfer
begin

text \<open>
  The state machine of streams: one rule per operation that applications, the driver's interrupt and
  the power management call, in any order and on any stream, and the invariant of all reachable
  worlds. The premises of a rule are what the code relies on its callers for and does not check.
\<close>

section \<open>Steps\<close>

text \<open>Time and hardware go on.\<close>

definition passes :: "'h \<Rightarrow> u64 \<Rightarrow> u64 \<Rightarrow> u64 \<Rightarrow> 'h pcm_world \<Rightarrow> 'h pcm_world" where
  "passes h j m t w = w\<lparr>w_hw := h, w_jiffies := j, w_monotonic := m, w_realtime := t\<rparr>"

inductive pcm_step :: "'h pcm_ops \<Rightarrow> 'h pcm_world \<Rightarrow> 'h pcm_world \<Rightarrow> bool" for ops where
  time: "pcm_step ops w (passes h j m t w)"
| interrupt: "snd_pcm_period_elapsed ops s w = Some w' \<Longrightarrow> pcm_step ops w w'"
| hw_params: "snd_pcm_hw_params ops env s p w = Some (w', p', r) \<Longrightarrow> (r = Inr () \<longrightarrow> sane_params p') \<Longrightarrow> pcm_step ops w w'"
| hw_free: "snd_pcm_hw_free ops s w = (w', r) \<Longrightarrow> pcm_step ops w w'"
| sw_params: "snd_pcm_sw_params ops s q w = Some (w', q', r) \<Longrightarrow> pcm_step ops w w'"
| prepare: "snd_pcm_prepare ops pwr file s w = Some (w', r) \<Longrightarrow> pcm_step ops w w'"
| reset: "snd_pcm_reset ops s w = Some (w', r) \<Longrightarrow> pcm_step ops w w'"
| start: "snd_pcm_start ops s w = Some (w', r) \<Longrightarrow> pcm_step ops w w'"
| stop: "st \<in> {S_SETUP, S_XRUN} \<Longrightarrow> snd_pcm_stop ops s st w = Some (w', r) \<Longrightarrow> pcm_step ops w w'"
| drop: "snd_pcm_drop ops s w = Some (w', r) \<Longrightarrow> pcm_step ops w w'"
| drain: "snd_pcm_drain ops pwr file ds s w = Some (w', q) \<Longrightarrow>
    (\<forall>d\<in>set ds. \<forall>w. world_ok w \<longrightarrow> world_ok (dr_sleep d w)) \<Longrightarrow> pcm_step ops w w'"
| pause: "snd_pcm_pause ops s push w = Some (w', r) \<Longrightarrow> pcm_step ops w w'"
| suspend: "snd_pcm_suspend ops s w = Some (w', r) \<Longrightarrow> pcm_step ops w w'"
| resume: "snd_pcm_resume ops pwr s w = Some (w', r) \<Longrightarrow>
    \<forall>t\<in>insert s (set (group_members w s)). rt_state (rt w t) = S_SUSPENDED \<Longrightarrow> pcm_step ops w w'"
| xrun: "snd_pcm_xrun ops pwr s w = Some (w', r) \<Longrightarrow> pcm_step ops w w'"
| status: "snd_pcm_status ops s st w = Some (w', st') \<Longrightarrow> pcm_step ops w w'"
| delay: "snd_pcm_delay ops s w = Some (w', n) \<Longrightarrow> pcm_step ops w w'"
| hwsync: "snd_pcm_hwsync ops s w = Some (w', r) \<Longrightarrow> pcm_step ops w w'"
| sync_ptr: "snd_pcm_sync_ptr ops s sp w = Some (w', sr) \<Longrightarrow>
    (sp_flags sp AND 2 = 0 \<longrightarrow> sp_appl_ptr sp < rt_boundary (rt w s)) \<Longrightarrow> pcm_step ops w w'"
| tstamp: "snd_pcm_tstamp s arg w = (w', r) \<Longrightarrow> pcm_step ops w w'"
| playback_rewind: "snd_pcm_playback_rewind ops s f w = Some (w', n) \<Longrightarrow> pcm_step ops w w'"
| capture_rewind: "snd_pcm_capture_rewind ops s f w = Some (w', n) \<Longrightarrow> pcm_step ops w w'"
| playback_forward: "f \<le> rt_buffer_size (rt w s) \<Longrightarrow> snd_pcm_playback_forward ops s f w = Some (w', n) \<Longrightarrow> pcm_step ops w w'"
| capture_forward: "f \<le> rt_buffer_size (rt w s) \<Longrightarrow> snd_pcm_capture_forward ops s f w = Some (w', n) \<Longrightarrow> pcm_step ops w w'"
| lib_write: "snd_pcm_lib_write ops s rs f w b = Some (w', b', n) \<Longrightarrow> calm_now s w rs \<Longrightarrow> pcm_step ops w w'"
| lib_writev: "snd_pcm_lib_writev ops s rs f w bs = Some (w', bs', n) \<Longrightarrow> calm_now s w rs \<Longrightarrow> pcm_step ops w w'"
| lib_read: "snd_pcm_lib_read ops s rs f w b = Some (w', b', n) \<Longrightarrow> calm_now s w rs \<Longrightarrow> pcm_step ops w w'"
| lib_readv: "snd_pcm_lib_readv ops s rs f w bs = Some (w', bs', n) \<Longrightarrow> calm_now s w rs \<Longrightarrow> pcm_step ops w w'"
| link: "snd_pcm_link fresh s other w = Some (w', r) \<Longrightarrow> pcm_step ops w w'"
| unlink: "snd_pcm_unlink s w = (w', r) \<Longrightarrow> pcm_step ops w w'"

text \<open>The worlds that are reached from \<open>w\<close>.\<close>

inductive pcm_reach :: "'h pcm_ops \<Rightarrow> 'h pcm_world \<Rightarrow> 'h pcm_world \<Rightarrow> bool" for ops w where
  reach_start [intro]: "pcm_reach ops w w"
| reach_step [intro]: "pcm_reach ops w v \<Longrightarrow> pcm_step ops v v' \<Longrightarrow> pcm_reach ops w v'"

inductive_cases pcm_reachE: "pcm_reach ops w v"

section \<open>Every step keeps the invariant\<close>

lemma same_rt_ok: "(\<And>t. rt w' t = rt w t) \<Longrightarrow> world_ok w' = world_ok w"
  by (simp add: world_ok_def)

lemma link_world_ok: "world_ok w \<Longrightarrow> snd_pcm_link fresh s other w = Some (w', r) \<Longrightarrow> world_ok w'"
  by (auto simp: snd_pcm_link_def Let_def Option.bind_eq_Some_conv world_ok_def
      split: option.splits group_id.splits if_splits)

lemma unlink_rt: "rt (fst (snd_pcm_unlink s w)) t = rt w t"
  by (simp add: snd_pcm_unlink_def Let_def relink_to_local_def split: group_id.split list.split)

lemma unlink_world_ok: "world_ok w \<Longrightarrow> snd_pcm_unlink s w = (w', r) \<Longrightarrow> world_ok w'"
  using same_rt_ok [OF unlink_rt, of s w] by simp

lemma passes_world_ok: "world_ok (passes h j m t w) = world_ok w"
  by (rule same_rt_ok) (simp add: passes_def rt_def)

lemma pcm_step_keeps:
  assumes "pcm_step ops w w'" "calm_driver ops" "world_ok w"
  shows "world_ok w'"
proof -
  have reset: "op_reset ops = None" using assms(2) by (simp add: calm_driver_def)
  show ?thesis
    using assms(1,3)
  proof cases
    case (time h j m t)
    then show ?thesis using assms(3) passes_world_ok [of h j m t w] by simp
  next
    case (sync_ptr s sp sr)
    then show ?thesis using sync_ptr_world_ok [OF assms(3)] by blast
  qed (use assms(2,3) reset in \<open>auto intro: period_elapsed_world_ok hw_params_world_ok hw_free_world_ok sw_params_world_ok
      prepare_world_ok reset_world_ok start_world_ok stop_world_ok drop_world_ok drain_world_ok pause_world_ok
      suspend_world_ok resume_world_ok xrun_ioctl_world_ok status_world_ok delay_world_ok hwsync_world_ok
      tstamp_world_ok playback_rewind_world_ok capture_rewind_world_ok playback_forward_world_ok
      capture_forward_world_ok write_world_ok writev_world_ok read_world_ok readv_world_ok link_world_ok
      unlink_world_ok\<close>)
qed

lemma pcm_reach_ok: "pcm_reach ops w v \<Longrightarrow> calm_driver ops \<Longrightarrow> world_ok w \<Longrightarrow> world_ok v"
  by (induction rule: pcm_reach.induct) (auto intro: pcm_step_keeps)

section \<open>Reachable worlds\<close>

text \<open>Streams that were just opened: their runtime is zero.\<close>

definition opened :: "'h pcm_world \<Rightarrow> bool" where
  "opened w \<longleftrightarrow> (\<forall>t. rt_state (rt w t) = S_OPEN \<and> rt_period_size (rt w t) = 0)"

lemma opened_ok: "opened w \<Longrightarrow> world_ok w"
  by (simp add: opened_def world_ok_def stream_ok_def placed_def sizes_wf_def)


section \<open>A stream that is opened, configured and prepared\<close>

definition single :: "u32 \<Rightarrow> snd_interval" where
  "single n = ivl n False n False True"

definition free_constraints :: hw_constraints where
  "free_constraints = \<lparr>hc_masks = (\<lambda>_. replicate 8 0xFF), hc_intervals = (\<lambda>_. snd_interval_any zero_interval),
     hc_rules = [], hc_rules_all = 0\<rparr>"

definition plain_env :: refine_env where
  "plain_env = \<lparr>env_hw = zero_hardware, env_buffer_bytes_max = 65536, env_stack_interval = zero_interval,
     env_stack_mask = replicate 8 0, env_fifo_ioctl = (\<lambda>p. (p, Inr ()))\<rparr>"

definition open_world :: "unit pcm_world" where
  "open_world = \<lparr>w_subs = (\<lambda>k. \<lparr>ss_playback = True, ss_rt = zero_runtime\<lparr>rt_constraints := free_constraints\<rparr>, ss_group = Self k, ss_f_nonblock = False,
       ss_has_timer = True, ss_timer_running = False, ss_mmap_count = 0, ss_buffer_bytes_max = 65536\<rparr>),
     w_groups = (\<lambda>_. []), w_group_count = (\<lambda>_. 0), w_hw = (), w_jiffies = 0, w_monotonic = 0, w_realtime = 0,
     w_effects = []\<rparr>"

definition fixed_params :: hw_params where
  "fixed_params = zero_params\<lparr>hp_masks := (\<lambda>k. if k = 1 then [4, 0, 0, 0, 0, 0, 0, 0] else [8, 0, 0, 0, 0, 0, 0, 0]), hp_rmask := 0xFFFFFFFF,
     hp_intervals := (\<lambda>k. if k = 11 then single 48000 else if k = 10 then single 2 else if k = 13 then single 1024 else if k = 15 then single 4 else single 4096)\<rparr>"

lemma both_succeed:
  fixes R :: "('a \<times> unit res) option" and C :: "'a \<Rightarrow> ('b \<times> unit res) option"
  assumes "(case R of Some (a, Inr _) \<Rightarrow> (case C a of Some (b, Inr _) \<Rightarrow> P b | _ \<Rightarrow> False) | _ \<Rightarrow> False)"
  obtains a b where "R = Some (a, Inr ())" "C a = Some (b, Inr ())" "P b"
proof (cases R)
  case (Some q)
  obtain a r where q: "q = (a, r)" by fastforce
  then obtain u where r: "r = Inr u" using assms Some by (cases r) auto
  show thesis
  proof (cases "C a")
    case c: (Some z)
    obtain b t where z: "z = (b, t)" by fastforce
    then obtain v where "t = Inr v" using assms Some q r c by (cases t) auto
    then show thesis using that [of a b] assms Some q r c z by simp
  qed (use assms Some q r in simp)
qed (use assms in simp)

lemma fixed_params_chosen:
  "(case snd_pcm_hw_refine plain_env free_constraints (fixed_params\<lparr>hp_rmask := UINT_MAX\<rparr>) of
     Some (p1, Inr _) \<Rightarrow>
       (case snd_pcm_hw_params_choose plain_env free_constraints p1 of
          Some (p2, Inr _) \<Rightarrow> params_min HW_PARAM_BUFFER_SIZE p2 = 4096 \<and> params_min HW_PARAM_PERIOD_SIZE p2 = 1024
        | _ \<Rightarrow> False)
   | _ \<Rightarrow> False)"
  by code_simp

lemma still_calm: "calm_driver still_ops"
  by (simp add: calm_driver_def still_ops_def)

lemma rt_open_world [simp]: "rt open_world s = zero_runtime\<lparr>rt_constraints := free_constraints\<rparr>"
  by (simp add: open_world_def rt_def)

lemma open_world_opened: "opened open_world"
  by (simp add: opened_def) (simp add: zero_runtime_def)

lemma fixed_params_accepted:
  "\<exists>w p. snd_pcm_hw_params still_ops plain_env 0 fixed_params open_world = Some (w, p, Inr ()) \<and> sane_params p \<and>
    rt_state (rt w 0) = S_SETUP \<and> rt_period_size (rt w 0) = 1024 \<and> \<not> snd_pcm_stream_linked w 0"
proof -
  obtain p1 p2 where
    p: "snd_pcm_hw_refine plain_env free_constraints (fixed_params\<lparr>hp_rmask := UINT_MAX\<rparr>) = Some (p1, Inr ())"
    "snd_pcm_hw_params_choose plain_env free_constraints p1 = Some (p2, Inr ())"
    and size: "params_min HW_PARAM_BUFFER_SIZE p2 = 4096" "params_min HW_PARAM_PERIOD_SIZE p2 = 1024"
    using both_succeed [OF fixed_params_chosen] by metis
  define r where "r = set_hw_fields p2 (zero_runtime\<lparr>rt_constraints := free_constraints\<rparr>)"
  have z: "rt_state zero_runtime = S_OPEN" by (simp add: zero_runtime_def)
  have r: "rt_buffer_size r = 4096" "rt_period_size r = 1024" "rt_state r = S_OPEN"
    by (simp_all add: r_def set_hw_fields_def Let_def size z split: prod.split)
  obtain b where b: "boundary_loop (4096 :: u64) 4096 = Some b"
    using boundary_loop_result [of 4096 4096 0] by auto
  let ?r = "snd_pcm_timer_resolution_change (r\<lparr>rt_boundary := b\<rparr>)"
  let ?w = "snd_pcm_set_state 0 S_SETUP (upd_rt 0 (\<lambda>_. ?r) open_world)"
  have t: "rt_state ?r = S_OPEN" "rt_period_size ?r = 1024"
    by (simp_all add: snd_pcm_timer_resolution_change_def r split: option.split)
  have "ss_mmap_count (w_subs open_world 0) = 0" "op_hw_params still_ops = None"
    by (simp_all add: open_world_def still_ops_def)
  then have "snd_pcm_hw_params still_ops plain_env 0 fixed_params open_world = Some (?w, p2, Inr ())"
    using p b r(1) z by (simp add: snd_pcm_hw_params_def Let_def flip: r_def)
  moreover have "rt_state (rt ?w 0) = S_SETUP" "rt_period_size (rt ?w 0) = 1024"
    using t by (simp_all add: set_state_rt)
  moreover have "\<not> snd_pcm_stream_linked ?w 0"
    by (simp add: snd_pcm_stream_linked_def snd_pcm_set_state_def open_world_def upd_rt_def upd_sub_def)
  moreover have "sane_params p2" using size by (simp add: sane_params_def)
  ultimately show ?thesis by blast
qed

text \<open>A stream that is alone and stopped is prepared without parameters being asked for.\<close>

lemma prepare_alone:
  assumes "rt_state (rt w s) \<notin> {S_OPEN, S_DISCONNECTED, S_RUNNING, S_DRAINING}" "\<not> snd_pcm_stream_linked w s"
    and "op_reset ops = None" "op_prepare ops s (w_hw w) = (h, Inr ())"
  shows "rt_period_size (rt w s) = 0 \<Longrightarrow> snd_pcm_prepare ops (Inr ()) None s w = None"
    "rt_period_size (rt w s) \<noteq> 0 \<Longrightarrow>
      \<exists>w'. snd_pcm_prepare ops (Inr ()) None s w = Some (w', Inr ()) \<and> rt_state (rt w' s) = S_PREPARED"
proof -
  have run: "\<not> snd_pcm_running w s" using assms(1) by (simp add: snd_pcm_running_def)
  define w1 where "w1 = (upd_sub s (\<lambda>u. u\<lparr>ss_f_nonblock := ss_f_nonblock (w_subs w s)\<rparr>) w)\<lparr>w_hw := h\<rparr>"
  have hw: "w_hw (upd_sub s f w) = w_hw w" for f by (simp add: upd_sub_def)
  have 1: "rt w1 t = rt w t" "playback w1 t = playback w t" for t
    by (simp_all add: w1_def rt_def playback_def upd_sub_def)
  then have "\<not> snd_pcm_running w1 s" using run by (simp add: snd_pcm_running_def)
  then have r: "snd_pcm_do_reset ops s w1 = (if rt_period_size (rt w s) = 0 then None else
      Some (upd_rt s reset_base (upd_rt s (\<lambda>r. r\<lparr>rt_hw_ptr := 0, rt_hw_ptr_wrap := 0\<rparr>) w1), Inr ()))"
    using 1 assms(3) by (simp add: snd_pcm_do_reset_def snd_pcm_lib_ioctl_reset_def)
  note defs = snd_pcm_prepare_def snd_pcm_action_nonatomic_def snd_pcm_action_single_def snd_pcm_pre_prepare_def
    snd_pcm_do_prepare_def
  have p: "snd_pcm_prepare ops (Inr ()) None s w = (case snd_pcm_do_reset ops s w1 of None \<Rightarrow> None
      | Some (w2, Inl e) \<Rightarrow> Some (w2, Inl e)
      | Some (w2, Inr _) \<Rightarrow> map_option (\<lambda>v. (v, Inr ())) (snd_pcm_post_prepare s w2))"
    using assms run by (simp add: defs hw r snd_pcm_post_prepare_def flip: w1_def)
  show "rt_period_size (rt w s) = 0 \<Longrightarrow> snd_pcm_prepare ops (Inr ()) None s w = None" by (simp add: p r)
  show "rt_period_size (rt w s) \<noteq> 0 \<Longrightarrow>
      \<exists>w'. snd_pcm_prepare ops (Inr ()) None s w = Some (w', Inr ()) \<and> rt_state (rt w' s) = S_PREPARED"
    using assms(1) by (simp add: p r snd_pcm_post_prepare_def snd_pcm_set_state_def reset_base_def 1)
qed


section \<open>A stream that is suspended before it is configured\<close>

text \<open>Suspending accepts a stream in state OPEN. It can then be prepared although it has no hardware
  parameters: if it never had any, the division by its period size faults; if they were freed, it
  becomes PREPARED with its old sizes and no buffer.\<close>

theorem snd_pcm_suspend_unconfigured:
  assumes "rt_state (rt w s) = S_OPEN" "\<not> snd_pcm_stream_linked w s"
    and "op_reset ops = None" "op_prepare ops s (w_hw w) = (h, Inr ())"
  shows "snd_pcm_prepare ops (Inr ()) None s w = Some (w, Inl EBADFD) \<and>
    (\<exists>w1. snd_pcm_suspend ops s w = Some (w1, Inr ()) \<and> rt_state (rt w1 s) = S_SUSPENDED \<and>
      (if rt_period_size (rt w s) = 0 then snd_pcm_prepare ops (Inr ()) None s w1 = None
       else \<exists>w2. snd_pcm_prepare ops (Inr ()) None s w1 = Some (w2, Inr ()) \<and> rt_state (rt w2 s) = S_PREPARED))"
proof -
  have 0: "snd_pcm_prepare ops (Inr ()) None s w = Some (w, Inl EBADFD)"
    using assms by (simp add: snd_pcm_prepare_def snd_pcm_action_nonatomic_def snd_pcm_action_single_def snd_pcm_pre_prepare_def)
  define m where "m = set_trigger_master s w"
  define w1 where "w1 = suspended s (upd_rt s (\<lambda>r. r\<lparr>rt_trigger_tstamp := snd_pcm_gettime m s, rt_trigger_master := None\<rparr>) m)"
  have m: "rt m s = (rt w s)\<lparr>rt_trigger_master := Some s\<rparr>" "w_hw m = w_hw w"
    by (simp_all add: m_def set_trigger_master_def upd_rt_def upd_sub_def rt_def)
  have "\<not> snd_pcm_running m s" using assms(1) m(1) by (simp add: snd_pcm_running_def)
  then have do_s: "snd_pcm_do_suspend ops s m = (m, Inr ())" using m(1) by (simp add: snd_pcm_do_suspend_def)
  have post: "snd_pcm_post_suspend s m = Some w1"
    using trigger_tstamp_self [of m s] m(1) by (simp add: snd_pcm_post_suspend_def suspended_def w1_def)
  have 1: "snd_pcm_suspend ops s w = Some (w1, Inr ())"
    using assms(1,2) do_s post by (simp add: snd_pcm_suspend_def snd_pcm_action_def snd_pcm_action_single_def
        snd_pcm_action_suspend_def snd_pcm_pre_suspend_def flip: m_def)
  have w1: "rt_state (rt w1 s) = S_SUSPENDED" "rt_period_size (rt w1 s) = rt_period_size (rt w s)"
    by (simp_all add: w1_def suspended_def m(1))
  have "pos_frame m w1" by (rule post_suspend_frame [OF post])
  then have "pos_frame w w1" unfolding m_def using act_frame_pos [OF set_trigger_master_frame] free_frame_trans by blast
  then have link: "\<not> snd_pcm_stream_linked w1 s" using free_frame_subs assms(2) by metis
  have hw: "w_hw w1 = w_hw w"
    by (simp add: w1_def suspended_def m(2) wake_both_def timer_notify_def add_effects_def upd_rt_def upd_sub_def)
  note P = prepare_alone [of w1 s ops h, OF _ link assms(3)]
  show ?thesis using 0 1 w1 hw assms(4) P by simp
qed

text \<open>The stream of \<open>open_world\<close> was never configured.\<close>

theorem snd_pcm_suspend_unconfigured_witness:
  "\<exists>w1. snd_pcm_suspend still_ops 0 open_world = Some (w1, Inr ()) \<and>
    snd_pcm_prepare still_ops (Inr ()) None 0 w1 = None"
proof -
  have "rt_state (rt open_world 0) = S_OPEN" "\<not> snd_pcm_stream_linked open_world 0"
    "op_reset still_ops = None" "op_prepare still_ops 0 (w_hw open_world) = ((), Inr ())"
    by (simp_all add: snd_pcm_stream_linked_def) (simp_all add: zero_runtime_def open_world_def still_ops_def)
  moreover have "rt_period_size (rt open_world 0) = 0" by (simp add: zero_runtime_def)
  ultimately show ?thesis using snd_pcm_suspend_unconfigured [of open_world 0 still_ops "()"] by auto
qed

end
