(* ===== verification/Scarlett_Control.thy ===== *)
theory Scarlett_Control
  imports Alsa_Prelude
begin

text \<open>
  The mixer elements of the Focusrite Scarlett interfaces, from \<open>sound/usb/scarlettmixer.c\<close>: reading
  and writing the registers of the device over USB with a cache per element, and the callbacks of the
  controls. The USB stack is a parameter (\<open>usb_bus\<close>), the device behind it the state it works on. C's
  \<open>int\<close> is an integer, with the wrap-around written out where a value may leave its range.
\<close>

section \<open>The USB stack\<close>

type_synonym u16 = "16 word"

record usb_setup =
  us_request :: u8
  us_type :: u8
  us_value :: u16
  us_index :: u16

text \<open>
  \<open>ub_kmemdup\<close>: there is memory for a buffer. \<open>ub_control_msg\<close> gets the data of the transfer and
  returns the data of the buffer afterwards.
\<close>

record 'd usb_bus =
  ub_autopm_get :: "'d \<Rightarrow> 'd \<times> unit res"
  ub_autopm_put :: "'d \<Rightarrow> 'd"
  ub_kmemdup :: "'d \<Rightarrow> bool"
  ub_control_msg :: "usb_setup \<Rightarrow> u8 list \<Rightarrow> 'd \<Rightarrow> 'd \<times> u8 list \<times> unit res"

record snd_usb_audio =
  ch_usb_id :: u32
  ch_probing :: bool
  ch_shutdown :: bool
  ch_ctrl_intf :: u8

abbreviation UAC2_CS_CUR :: u8 where "UAC2_CS_CUR \<equiv> 1"
abbreviation UAC2_CS_MEM :: u8 where "UAC2_CS_MEM \<equiv> 3"

definition snd_usb_autoresume :: "'d usb_bus \<Rightarrow> snd_usb_audio \<Rightarrow> 'd \<Rightarrow> 'd \<times> unit res" where
  "snd_usb_autoresume bus chip d =
     (if ch_probing chip then (d, Inr ())
      else if \<not> ch_shutdown chip then ub_autopm_get bus d
      else (d, Inl ENODEV))"

definition snd_usb_autosuspend :: "'d usb_bus \<Rightarrow> snd_usb_audio \<Rightarrow> 'd \<Rightarrow> 'd" where
  "snd_usb_autosuspend bus chip d =
     (if \<not> ch_shutdown chip \<and> \<not> ch_probing chip then ub_autopm_put bus d else d)"

definition snd_usb_ctl_msg :: "'d usb_bus \<Rightarrow> usb_setup \<Rightarrow> u8 list \<Rightarrow> nat \<Rightarrow> 'd \<Rightarrow> 'd \<times> u8 list \<times> unit res" where
  "snd_usb_ctl_msg bus setup data n d =
     (if n > 0 \<and> \<not> ub_kmemdup bus d then (d, data, Inl ENOMEM)
      else let (d1, buf, res) = ub_control_msg bus setup (take n data) d
           in (d1, if n > 0 then take n buf @ drop n data else data, res))"

text \<open>The request for register \<open>wValue\<close> of unit \<open>index\<close>; \<open>dir\<close> is the request type.\<close>

definition urb_setup :: "snd_usb_audio \<Rightarrow> u8 \<Rightarrow> u8 \<Rightarrow> nat \<Rightarrow> nat \<Rightarrow> usb_setup" where
  "urb_setup chip dir request wValue index =
     \<lparr>us_request = request, us_type = dir, us_value = of_nat wValue,
      us_index = ucast (ch_ctrl_intf chip) OR push_bit 8 (of_nat index)\<rparr>"

definition get_ctl_urb2 :: "'d usb_bus \<Rightarrow> snd_usb_audio \<Rightarrow> u8 \<Rightarrow> nat \<Rightarrow> nat \<Rightarrow> u8 list \<Rightarrow> nat \<Rightarrow> 'd \<Rightarrow>
    'd \<times> u8 list \<times> unit res" where
  "get_ctl_urb2 bus chip bRequest wValue index buf n d =
     (case snd_usb_autoresume bus chip d of
        (d1, res) \<Rightarrow>
          if isl res \<and> res \<noteq> Inl ENODEV then (d1, buf, Inl EIO)
          else let (d2, buf', ret) = (if ch_shutdown chip then (d1, buf, Inl ENODEV)
                     else snd_usb_ctl_msg bus (urb_setup chip 0xA1 bRequest wValue index) buf n d1)
               in (snd_usb_autosuspend bus chip d2, buf', ret))"

text \<open>Up to \<open>n\<close> attempts.\<close>

fun send_urb :: "'d usb_bus \<Rightarrow> snd_usb_audio \<Rightarrow> usb_setup \<Rightarrow> u8 list \<Rightarrow> nat \<Rightarrow> nat \<Rightarrow> 'd \<Rightarrow> 'd \<times> unit res" where
  "send_urb bus chip setup buf len 0 d = (d, Inl EINVAL)"
| "send_urb bus chip setup buf len (Suc n) d =
     (if ch_shutdown chip then (d, Inl EINVAL)
      else case snd_usb_ctl_msg bus setup buf len d of
        (d1, buf', Inr _) \<Rightarrow> (d1, Inr ())
      | (d1, buf', Inl _) \<Rightarrow> send_urb bus chip setup buf' len n d1)"

definition set_ctl_urb2 :: "'d usb_bus \<Rightarrow> snd_usb_audio \<Rightarrow> u8 \<Rightarrow> nat \<Rightarrow> nat \<Rightarrow> u8 list \<Rightarrow> nat \<Rightarrow> 'd \<Rightarrow> 'd \<times> unit res" where
  "set_ctl_urb2 bus chip request wValue index buf val_len d =
     (case snd_usb_autoresume bus chip d of
        (d1, res) \<Rightarrow>
          if isl res \<and> res \<noteq> Inl ENODEV then (d1, Inl EIO)
          else let (d2, ret) = send_urb bus chip (urb_setup chip 0x21 request wValue index) buf val_len 10 d1
               in (snd_usb_autosuspend bus chip d2, ret))"

section \<open>Elements\<close>

record enum_info =
  en_start :: int
  en_len :: nat
  en_texts :: "string list"

abbreviation MAX_CHANNELS :: nat where "MAX_CHANNELS \<equiv> 16"

record mixer_elem =
  el_wValue :: nat
  el_index :: nat
  el_val_len :: nat
  el_count :: nat
  el_opt :: "enum_info option"
  el_cached :: u32
  el_cache_val :: "int list"

definition is_cached :: "mixer_elem \<Rightarrow> nat \<Rightarrow> bool" where
  "is_cached elem channel \<longleftrightarrow> el_cached elem AND push_bit channel 1 \<noteq> 0"

definition put_cache :: "nat \<Rightarrow> int \<Rightarrow> mixer_elem \<Rightarrow> mixer_elem" where
  "put_cache channel value elem = elem\<lparr>el_cached := el_cached elem OR push_bit channel 1,
     el_cache_val := (el_cache_val elem)[channel := value]\<rparr>"

text \<open>The little-endian bytes of a value.\<close>

definition ctl_bytes :: "nat \<Rightarrow> int \<Rightarrow> u8 list" where
  "ctl_bytes val_len value =
     (if val_len = 2 then [word_of_int value, word_of_int (value div 256)] else [word_of_int value])"

definition ctl_value :: "nat \<Rightarrow> u8 list \<Rightarrow> int" where
  "ctl_value val_len buf =
     (if val_len = 2 then (let v = uint (buf ! 0) + 256 * uint (buf ! 1) in if v \<ge> 0x8000 then v - 0x10000 else v)
      else uint (buf ! 0))"

definition set_ctl_value :: "'d usb_bus \<Rightarrow> snd_usb_audio \<Rightarrow> mixer_elem \<Rightarrow> nat \<Rightarrow> int \<Rightarrow> 'd \<Rightarrow> mixer_elem \<times> 'd \<times> unit res" where
  "set_ctl_value bus chip elem channel value d =
     (case set_ctl_urb2 bus chip UAC2_CS_CUR (el_wValue elem + channel) (el_index elem)
             (ctl_bytes (el_val_len elem) value) (el_val_len elem) d of
        (d1, Inl e) \<Rightarrow> (elem, d1, Inl e)
      | (d1, Inr _) \<Rightarrow> (put_cache channel value elem, d1, Inr ()))"

text \<open>Some registers are written as two bytes and read as one.\<close>

definition read_len :: "mixer_elem \<Rightarrow> nat" where
  "read_len elem =
     (if el_index elem = 1 \<or> (el_index elem = 0xa \<and> el_wValue elem < 0x200) \<or> el_index elem = 0x32 \<or> el_index elem = 0x33
      then 1 else el_val_len elem)"

definition get_ctl_value :: "'d usb_bus \<Rightarrow> snd_usb_audio \<Rightarrow> mixer_elem \<Rightarrow> nat \<Rightarrow> 'd \<Rightarrow> mixer_elem \<times> 'd \<times> int res" where
  "get_ctl_value bus chip elem channel d =
     (if is_cached elem channel then (elem, d, Inr (el_cache_val elem ! channel))
      else case get_ctl_urb2 bus chip UAC2_CS_CUR (el_wValue elem + channel) (el_index elem) [0, 0] (read_len elem) d of
          (d1, buf, Inl e) \<Rightarrow> (elem, d1, Inl e)
        | (d1, buf, Inr _) \<Rightarrow>
            let value = ctl_value (read_len elem) buf in (put_cache channel value elem, d1, Inr value))"

section \<open>The callbacks of the controls\<close>

datatype elem_type = TYPE_BOOLEAN | TYPE_INTEGER | TYPE_ENUMERATED

record elem_info =
  ei_type :: elem_type
  ei_count :: nat
  ei_min :: int
  ei_max :: int
  ei_step :: int
  ei_items :: u32
  ei_item :: u32
  ei_name :: string

text \<open>
  The value of a control: the integers and the first enumerated item, which share their memory. On a
  little-endian machine the first integer, cut to an \<open>int\<close>, is the item.
\<close>

record elem_value =
  ev_values :: "int list"
  ev_item :: u32

text \<open>C's conversion to \<open>int\<close>, division and \<open>clamp\<close>.\<close>

definition to_int :: "int \<Rightarrow> int" where
  "to_int x = signed_take_bit 31 x"

definition cdiv :: "int \<Rightarrow> int \<Rightarrow> int" where
  "cdiv a b = (if a < 0 then - (- a div b) else a div b)"

definition clamp :: "int \<Rightarrow> int \<Rightarrow> int \<Rightarrow> int" where
  "clamp x lo hi = (if x < lo then lo else if x > hi then hi else x)"

text \<open>Reads all channels in turn, converting each value.\<close>

fun read_channels :: "'d usb_bus \<Rightarrow> snd_usb_audio \<Rightarrow> (int \<Rightarrow> int) \<Rightarrow> nat list \<Rightarrow> mixer_elem \<Rightarrow> 'd \<Rightarrow>
    mixer_elem \<times> 'd \<times> int list res" where
  "read_channels bus chip conv [] elem d = (elem, d, Inr [])"
| "read_channels bus chip conv (i # is) elem d =
     (case get_ctl_value bus chip elem i d of
        (elem1, d1, Inl e) \<Rightarrow> (elem1, d1, Inl e)
      | (elem1, d1, Inr val) \<Rightarrow>
          (case read_channels bus chip conv is elem1 d1 of
             (elem2, d2, Inl e) \<Rightarrow> (elem2, d2, Inl e)
           | (elem2, d2, Inr vals) \<Rightarrow> (elem2, d2, Inr (conv val # vals))))"

text \<open>Writes the channels whose value differs; the result says whether one did.\<close>

fun write_channels :: "'d usb_bus \<Rightarrow> snd_usb_audio \<Rightarrow> (int \<Rightarrow> int) \<Rightarrow> int list \<Rightarrow> nat list \<Rightarrow> bool \<Rightarrow> mixer_elem \<Rightarrow> 'd \<Rightarrow>
    mixer_elem \<times> 'd \<times> bool res" where
  "write_channels bus chip conv vals [] changed elem d = (elem, d, Inr changed)"
| "write_channels bus chip conv vals (i # is) changed elem d =
     (case get_ctl_value bus chip elem i d of
        (elem1, d1, Inl e) \<Rightarrow> (elem1, d1, Inl e)
      | (elem1, d1, Inr oval) \<Rightarrow>
          if oval \<noteq> conv (vals ! i) then
            (case set_ctl_value bus chip elem1 i (conv (vals ! i)) d1 of
               (elem2, d2, Inl e) \<Rightarrow> (elem2, d2, Inl e)
             | (elem2, d2, Inr _) \<Rightarrow> write_channels bus chip conv vals is True elem2 d2)
          else write_channels bus chip conv vals is changed elem1 d1)"

definition not_int :: "int \<Rightarrow> int" where
  "not_int v = (if v = 0 then 1 else 0)"

definition scarlett_ctl_switch_info :: "mixer_elem \<Rightarrow> elem_info \<Rightarrow> elem_info" where
  "scarlett_ctl_switch_info elem u = u\<lparr>ei_type := TYPE_BOOLEAN, ei_count := el_count elem, ei_min := 0, ei_max := 1\<rparr>"

definition scarlett_ctl_switch_get :: "'d usb_bus \<Rightarrow> snd_usb_audio \<Rightarrow> mixer_elem \<Rightarrow> 'd \<Rightarrow> mixer_elem \<times> 'd \<times> int list res" where
  "scarlett_ctl_switch_get bus chip elem d = read_channels bus chip not_int [0..<el_count elem] elem d"

definition scarlett_ctl_switch_put :: "'d usb_bus \<Rightarrow> snd_usb_audio \<Rightarrow> int list \<Rightarrow> mixer_elem \<Rightarrow> 'd \<Rightarrow>
    mixer_elem \<times> 'd \<times> bool res" where
  "scarlett_ctl_switch_put bus chip vals elem d =
     write_channels bus chip (\<lambda>v. not_int (to_int v)) vals [0..<el_count elem] False elem d"

abbreviation LEVEL_BIAS :: int where "LEVEL_BIAS \<equiv> 128"

definition scarlett_ctl_info :: "int \<Rightarrow> mixer_elem \<Rightarrow> elem_info \<Rightarrow> elem_info" where
  "scarlett_ctl_info private_value elem u =
     u\<lparr>ei_type := TYPE_INTEGER, ei_count := el_count elem, ei_min := -128 + LEVEL_BIAS,
       ei_max := private_value + LEVEL_BIAS, ei_step := 1\<rparr>"

definition level_of :: "int \<Rightarrow> int \<Rightarrow> int" where
  "level_of private_value val = clamp (cdiv val 256) (-128) private_value + LEVEL_BIAS"

definition level_value :: "int \<Rightarrow> int" where
  "level_value v = to_int (to_int (v - LEVEL_BIAS) * 256)"

definition scarlett_ctl_get :: "'d usb_bus \<Rightarrow> snd_usb_audio \<Rightarrow> int \<Rightarrow> mixer_elem \<Rightarrow> 'd \<Rightarrow> mixer_elem \<times> 'd \<times> int list res" where
  "scarlett_ctl_get bus chip private_value elem d =
     read_channels bus chip (level_of private_value) [0..<el_count elem] elem d"

definition scarlett_ctl_put :: "'d usb_bus \<Rightarrow> snd_usb_audio \<Rightarrow> int list \<Rightarrow> mixer_elem \<Rightarrow> 'd \<Rightarrow> mixer_elem \<times> 'd \<times> bool res" where
  "scarlett_ctl_put bus chip vals elem d = write_channels bus chip level_value vals [0..<el_count elem] False elem d"

text \<open>Elements of enumerated controls have options.\<close>

abbreviation opt_of :: "mixer_elem \<Rightarrow> enum_info" where "opt_of elem \<equiv> the (el_opt elem)"

definition scarlett_ctl_enum_info :: "mixer_elem \<Rightarrow> elem_info \<Rightarrow> elem_info" where
  "scarlett_ctl_enum_info elem u =
     (let items = of_nat (en_len (opt_of elem)) :: u32;
          item = (if ei_item u > items - 1 then items - 1 else ei_item u)
      in u\<lparr>ei_type := TYPE_ENUMERATED, ei_count := el_count elem, ei_items := items, ei_item := item,
           ei_name := en_texts (opt_of elem) ! unat item\<rparr>)"

definition item_of :: "enum_info \<Rightarrow> int \<Rightarrow> int" where
  "item_of opt val =
     (if en_start opt = -1 \<and> val > int (en_len opt) then 0 else clamp (val - en_start opt) 0 (int (en_len opt) - 1))"

definition scarlett_ctl_enum_get :: "'d usb_bus \<Rightarrow> snd_usb_audio \<Rightarrow> mixer_elem \<Rightarrow> 'd \<Rightarrow> mixer_elem \<times> 'd \<times> u32 res" where
  "scarlett_ctl_enum_get bus chip elem d =
     (case get_ctl_value bus chip elem 0 d of
        (elem1, d1, Inl e) \<Rightarrow> (elem1, d1, Inl e)
      | (elem1, d1, Inr val) \<Rightarrow> (elem1, d1, Inr (word_of_int (item_of (opt_of elem) val))))"

definition scarlett_ctl_enum_put :: "'d usb_bus \<Rightarrow> snd_usb_audio \<Rightarrow> u32 \<Rightarrow> mixer_elem \<Rightarrow> 'd \<Rightarrow> mixer_elem \<times> 'd \<times> bool res" where
  "scarlett_ctl_enum_put bus chip item elem d =
     (case get_ctl_value bus chip elem 0 d of
        (elem1, d1, Inl e) \<Rightarrow> (elem1, d1, Inl e)
      | (elem1, d1, Inr oval) \<Rightarrow>
          let val = to_int (sint item + en_start (opt_of elem))
          in if oval \<noteq> val then
               (case set_ctl_value bus chip elem1 0 val d1 of
                  (elem2, d2, Inl e) \<Rightarrow> (elem2, d2, Inl e)
                | (elem2, d2, Inr _) \<Rightarrow> (elem2, d2, Inr True))
             else (elem1, d1, Inr False))"

definition scarlett_ctl_save_get :: "u32" where
  "scarlett_ctl_save_get = 0"

definition scarlett_ctl_save_put :: "'d usb_bus \<Rightarrow> snd_usb_audio \<Rightarrow> u32 \<Rightarrow> 'd \<Rightarrow> 'd \<times> unit res" where
  "scarlett_ctl_save_put bus chip item d =
     (if item > 0 then set_ctl_urb2 bus chip UAC2_CS_MEM 0x5a 0x3c [0xa5] 1 d else (d, Inr ()))"

text \<open>The two readings: one flag, or signed levels.\<close>

definition scarlett_ctl_meter_get :: "'d usb_bus \<Rightarrow> snd_usb_audio \<Rightarrow> mixer_elem \<Rightarrow> elem_value \<Rightarrow> 'd \<Rightarrow>
    'd \<times> elem_value \<times> unit res" where
  "scarlett_ctl_meter_get bus chip elem u d =
     (case get_ctl_urb2 bus chip UAC2_CS_MEM (el_wValue elem) (el_index elem) (replicate (2 * MAX_CHANNELS) 0)
             (el_val_len elem * el_count elem) d of
        (d1, buf, Inl e) \<Rightarrow> (d1, u, Inl e)
      | (d1, buf, Inr _) \<Rightarrow>
          (d1, if el_val_len elem = 1 then u\<lparr>ev_item := word_of_int (clamp (uint (buf ! 0)) 0 1)\<rparr>
               else u\<lparr>ev_values := map (\<lambda>i. clamp (cdiv (ctl_value 2 (drop (2 * i) buf)) 256) 0 255) [0..<el_count elem]\<rparr>,
           Inr ()))"

end
