(* ===== verification/Scarlett_Setup.thy ===== *)
theory Scarlett_Setup
  imports Scarlett_Control
begin

text \<open>
  The controls of the Scarlett interfaces and their initial values: the option tables and the devices,
  the creation of controls and \<open>scarlett_mixer_controls\<close> of \<open>sound/usb/scarlettmixer.c\<close>. Creating a
  control asks for memory and registers it with the card; the answers are arguments (\<open>card\<close>).
\<close>

section \<open>Texts\<close>

fun decimal :: "nat \<Rightarrow> string" where
  "decimal n = (if n < 10 then [char_of (48 + n)] else decimal (n div 10) @ [char_of (48 + n mod 10)])"

declare decimal.simps [simp del]

text \<open>Printed with \<open>%02d\<close>, and truncated by \<open>snprintf\<close>.\<close>

definition decimal2 :: "nat \<Rightarrow> string" where
  "decimal2 n = (if n < 10 then ''0'' @ decimal n else decimal n)"

definition snprintf :: "nat \<Rightarrow> string \<Rightarrow> string" where
  "snprintf n s = take (n - 1) s"

definition letter :: "nat \<Rightarrow> char" where
  "letter o' = char_of (65 + o')"

definition numbered :: "string \<Rightarrow> nat \<Rightarrow> string list" where
  "numbered name n = map (\<lambda>i. name @ decimal (i + 1)) [0..<n]"

definition txt_mix :: "nat \<Rightarrow> string list" where
  "txt_mix n = map (\<lambda>i. ''Mix '' @ [letter i]) [0..<n]"

definition opt_pad :: enum_info where
  "opt_pad = \<lparr>en_start = 0, en_len = 2, en_texts = [''Off'', ''-10dB'']\<rparr>"

definition opt_impedance :: enum_info where
  "opt_impedance = \<lparr>en_start = 0, en_len = 2, en_texts = [''Line'', ''Hi-Z'']\<rparr>"

definition opt_clock :: enum_info where
  "opt_clock = \<lparr>en_start = 1, en_len = 3, en_texts = [''Internal'', ''SPDIF'', ''ADAT'']\<rparr>"

definition opt_sync :: enum_info where
  "opt_sync = \<lparr>en_start = 0, en_len = 2, en_texts = [''No Lock'', ''Locked'']\<rparr>"

definition opt_save :: enum_info where
  "opt_save = \<lparr>en_start = 0, en_len = 2, en_texts = [''---'', ''Save'']\<rparr>"

definition s8i6_texts :: "string list" where
  "s8i6_texts = ''Off'' # numbered ''PCM '' 12 @ numbered ''Analog '' 4 @ numbered ''SPDIF '' 2 @ txt_mix 6"

definition s18i6_texts :: "string list" where
  "s18i6_texts = ''Off'' # numbered ''PCM '' 6 @ numbered ''Analog '' 8 @ numbered ''SPDIF '' 2 @
     numbered ''ADAT '' 8 @ txt_mix 6"

definition s18i8_texts :: "string list" where
  "s18i8_texts = ''Off'' # numbered ''PCM '' 8 @ numbered ''Analog '' 8 @ numbered ''SPDIF '' 2 @
     numbered ''ADAT '' 8 @ txt_mix 8"

definition s18i20_texts :: "string list" where
  "s18i20_texts = ''Off'' # numbered ''PCM '' 20 @ numbered ''Analog '' 8 @ numbered ''SPDIF '' 2 @
     numbered ''ADAT '' 8 @ txt_mix 16"

section \<open>Devices\<close>

text \<open>The member \<open>controls_fn\<close>, as the device it belongs to.\<close>

datatype scarlett_model = S8I6 | S18I6 | S18I8 | S18I20

record device_info =
  di_matrix_in :: nat
  di_matrix_out :: nat
  di_input_len :: nat
  di_output_len :: nat
  di_pcm_start :: int
  di_analog_start :: int
  di_spdif_start :: int
  di_adat_start :: int
  di_mix_start :: int
  di_opt_master :: enum_info
  di_opt_matrix :: enum_info
  di_controls_fn :: scarlett_model
  di_matrix_mux_init :: "int list"

definition s8i6_info :: device_info where
  "s8i6_info = \<lparr>di_matrix_in = 18, di_matrix_out = 6, di_input_len = 8, di_output_len = 6,
     di_pcm_start = 0, di_analog_start = 12, di_spdif_start = 16, di_adat_start = 18, di_mix_start = 18,
     di_opt_master = \<lparr>en_start = -1, en_len = 25, en_texts = s8i6_texts\<rparr>,
     di_opt_matrix = \<lparr>en_start = -1, en_len = 19, en_texts = s8i6_texts\<rparr>,
     di_controls_fn = S8I6,
     di_matrix_mux_init = [12, 13, 14, 15, 16, 17, 0, 1, 2, 3, 4, 5, 6, 7, 8, 9, 10, 11]\<rparr>"

definition s18i6_info :: device_info where
  "s18i6_info = \<lparr>di_matrix_in = 18, di_matrix_out = 6, di_input_len = 18, di_output_len = 6,
     di_pcm_start = 0, di_analog_start = 6, di_spdif_start = 14, di_adat_start = 16, di_mix_start = 24,
     di_opt_master = \<lparr>en_start = -1, en_len = 31, en_texts = s18i6_texts\<rparr>,
     di_opt_matrix = \<lparr>en_start = -1, en_len = 25, en_texts = s18i6_texts\<rparr>,
     di_controls_fn = S18I6,
     di_matrix_mux_init = [6, 7, 8, 9, 10, 11, 12, 13, 16, 17, 18, 19, 20, 21, 14, 15, 0, 1]\<rparr>"

definition s18i8_info :: device_info where
  "s18i8_info = \<lparr>di_matrix_in = 18, di_matrix_out = 8, di_input_len = 18, di_output_len = 8,
     di_pcm_start = 0, di_analog_start = 8, di_spdif_start = 16, di_adat_start = 18, di_mix_start = 26,
     di_opt_master = \<lparr>en_start = -1, en_len = 35, en_texts = s18i8_texts\<rparr>,
     di_opt_matrix = \<lparr>en_start = -1, en_len = 27, en_texts = s18i8_texts\<rparr>,
     di_controls_fn = S18I8,
     di_matrix_mux_init = [8, 9, 10, 11, 12, 13, 14, 15, 18, 19, 20, 21, 22, 23, 16, 17, 0, 1]\<rparr>"

definition s18i20_info :: device_info where
  "s18i20_info = \<lparr>di_matrix_in = 18, di_matrix_out = 16, di_input_len = 18, di_output_len = 20,
     di_pcm_start = 0, di_analog_start = 20, di_spdif_start = 28, di_adat_start = 30, di_mix_start = 38,
     di_opt_master = \<lparr>en_start = -1, en_len = 55, en_texts = s18i20_texts\<rparr>,
     di_opt_matrix = \<lparr>en_start = -1, en_len = 39, en_texts = s18i20_texts\<rparr>,
     di_controls_fn = S18I20,
     di_matrix_mux_init = [20, 21, 22, 23, 24, 25, 26, 27, 30, 31, 32, 33, 34, 35, 28, 29, 0, 1]\<rparr>"

section \<open>Controls\<close>

text \<open>The templates of controls; levels carry their \<open>private_value\<close>.\<close>

datatype ctl_kind = SWITCH | LEVEL int | ENUM | SYNC | SAVE

record kcontrol =
  kc_kind :: ctl_kind
  kc_name :: string
  kc_elem :: mixer_elem

definition kctl_info :: "kcontrol \<Rightarrow> elem_info \<Rightarrow> elem_info" where
  "kctl_info k u = (case kc_kind k of
     SWITCH \<Rightarrow> scarlett_ctl_switch_info (kc_elem k) u
   | LEVEL m \<Rightarrow> scarlett_ctl_info m (kc_elem k) u
   | _ \<Rightarrow> scarlett_ctl_enum_info (kc_elem k) u)"

definition with_values :: "kcontrol \<Rightarrow> elem_value \<Rightarrow> mixer_elem \<times> 'd \<times> int list res \<Rightarrow> kcontrol \<times> elem_value \<times> 'd \<times> unit res" where
  "with_values k u = (\<lambda>(e, d, r). (k\<lparr>kc_elem := e\<rparr>, case r of Inl _ \<Rightarrow> u | Inr vs \<Rightarrow> u\<lparr>ev_values := vs\<rparr>, d,
     map_sum id (\<lambda>_. ()) r))"

text \<open>
  The \<open>get\<close> callbacks. The initializer of \<open>usb_scarlett_ctl_save\<close> names \<open>get\<close> twice, and the second,
  \<open>scarlett_ctl_save_put\<close>, is the one that counts.
\<close>

definition kctl_get :: "'d usb_bus \<Rightarrow> snd_usb_audio \<Rightarrow> kcontrol \<Rightarrow> elem_value \<Rightarrow> 'd \<Rightarrow> kcontrol \<times> elem_value \<times> 'd \<times> unit res" where
  "kctl_get bus chip k u d = (case kc_kind k of
     SWITCH \<Rightarrow> with_values k u (scarlett_ctl_switch_get bus chip (kc_elem k) d)
   | LEVEL m \<Rightarrow> with_values k u (scarlett_ctl_get bus chip m (kc_elem k) d)
   | ENUM \<Rightarrow> (let (e, d1, r) = scarlett_ctl_enum_get bus chip (kc_elem k) d
              in (k\<lparr>kc_elem := e\<rparr>, case r of Inl _ \<Rightarrow> u | Inr i \<Rightarrow> u\<lparr>ev_item := i\<rparr>, d1, map_sum id (\<lambda>_. ()) r))
   | SYNC \<Rightarrow> (let (d1, u1, r) = scarlett_ctl_meter_get bus chip (kc_elem k) u d in (k, u1, d1, r))
   | SAVE \<Rightarrow> (let (d1, r) = scarlett_ctl_save_put bus chip (ev_item u) d in (k, u, d1, r)))"

text \<open>The \<open>put\<close> callbacks; \<open>None\<close> when there is none.\<close>

definition kctl_put :: "'d usb_bus \<Rightarrow> snd_usb_audio \<Rightarrow> kcontrol \<Rightarrow> elem_value \<Rightarrow> 'd \<Rightarrow> (kcontrol \<times> 'd \<times> bool res) option" where
  "kctl_put bus chip k u d = map_option (\<lambda>(e, d1, r). (k\<lparr>kc_elem := e\<rparr>, d1, r)) (case kc_kind k of
     SWITCH \<Rightarrow> Some (scarlett_ctl_switch_put bus chip (ev_values u) (kc_elem k) d)
   | LEVEL _ \<Rightarrow> Some (scarlett_ctl_put bus chip (ev_values u) (kc_elem k) d)
   | ENUM \<Rightarrow> Some (scarlett_ctl_enum_put bus chip (ev_item u) (kc_elem k) d)
   | SYNC \<Rightarrow> None
   | SAVE \<Rightarrow> None)"

section \<open>Creating controls\<close>

text \<open>Answers to requests for a control of a given name.\<close>

record 'd card =
  cd_bus :: "'d usb_bus"
  cd_chip :: snd_usb_audio
  cd_kzalloc :: "string \<Rightarrow> bool"
  cd_ctl_new1 :: "string \<Rightarrow> bool"
  cd_ctl_add :: "string \<Rightarrow> unit res"

text \<open>The controls that were created, the newest first, and the device.\<close>

type_synonym 'd creation = "(kcontrol list \<times> 'd) \<Rightarrow> (kcontrol list \<times> 'd) \<times> unit res"

fun in_order :: "('s \<Rightarrow> 's \<times> unit res) list \<Rightarrow> 's \<Rightarrow> 's \<times> unit res" where
  "in_order [] s = (s, Inr ())"
| "in_order (f # fs) s = (case f s of (s1, Inl e) \<Rightarrow> (s1, Inl e) | (s1, Inr _) \<Rightarrow> in_order fs s1)"

definition add_new_ctl :: "'d card \<Rightarrow> ctl_kind \<Rightarrow> nat \<Rightarrow> nat \<Rightarrow> nat \<Rightarrow> nat \<Rightarrow> nat \<Rightarrow> string \<Rightarrow> enum_info option \<Rightarrow> 'd creation" where
  "add_new_ctl cd kind index offset num val_len count name opt = (\<lambda>(ks, d).
     if \<not> cd_kzalloc cd name \<or> \<not> cd_ctl_new1 cd name then ((ks, d), Inl ENOMEM)
     else let elem = \<lparr>el_wValue = push_bit 8 offset OR num, el_index = index, el_val_len = val_len,
                      el_count = count, el_opt = opt, el_cached = 0, el_cache_val = replicate MAX_CHANNELS 0\<rparr>
          in case cd_ctl_add cd name of
               Inl e \<Rightarrow> ((ks, d), Inl e)
             | Inr _ \<Rightarrow> ((\<lparr>kc_kind = kind, kc_name = snprintf 44 name, kc_elem = elem\<rparr> # ks, d), Inr ()))"

fun init_channels :: "'d usb_bus \<Rightarrow> snd_usb_audio \<Rightarrow> int \<Rightarrow> nat list \<Rightarrow> mixer_elem \<Rightarrow> 'd \<Rightarrow> mixer_elem \<times> 'd \<times> unit res" where
  "init_channels bus chip value [] elem d = (elem, d, Inr ())"
| "init_channels bus chip value (c # cs) elem d =
     (case set_ctl_value bus chip elem c value d of
        (elem1, d1, Inl e) \<Rightarrow> (elem1, d1, Inl e)
      | (elem1, d1, Inr _) \<Rightarrow> init_channels bus chip value cs elem1 d1)"

text \<open>The element of the newest control is initialized.\<close>

definition init_ctl :: "'d card \<Rightarrow> int \<Rightarrow> 'd creation" where
  "init_ctl cd value = (\<lambda>(ks, d). case ks of
     [] \<Rightarrow> ((ks, d), Inr ())
   | k # ks' \<Rightarrow>
       let (elem, d1, r) = init_channels (cd_bus cd) (cd_chip cd) value [0..<el_count (kc_elem k)] (kc_elem k) d
       in ((k\<lparr>kc_elem := elem\<rparr> # ks', d1), r))"

definition CTL_SWITCH :: "'d card \<Rightarrow> nat \<Rightarrow> nat \<Rightarrow> nat \<Rightarrow> nat \<Rightarrow> string \<Rightarrow> 'd creation" where
  "CTL_SWITCH cd cmd off no count name = add_new_ctl cd SWITCH cmd off no 2 count name None"

definition CTL_ENUM :: "'d card \<Rightarrow> nat \<Rightarrow> nat \<Rightarrow> nat \<Rightarrow> string \<Rightarrow> enum_info \<Rightarrow> 'd creation" where
  "CTL_ENUM cd cmd off no name opt = add_new_ctl cd ENUM cmd off no 2 1 name (Some opt)"

definition CTL_MIXER :: "'d card \<Rightarrow> nat \<Rightarrow> nat \<Rightarrow> nat \<Rightarrow> nat \<Rightarrow> string \<Rightarrow> 'd creation" where
  "CTL_MIXER cd cmd off no count name =
     in_order [add_new_ctl cd (LEVEL 6) cmd off no 2 count name None, init_ctl cd (-32768)]"

definition CTL_MASTER :: "'d card \<Rightarrow> nat \<Rightarrow> nat \<Rightarrow> nat \<Rightarrow> nat \<Rightarrow> string \<Rightarrow> 'd creation" where
  "CTL_MASTER cd cmd off no count name =
     in_order [add_new_ctl cd (LEVEL 6) cmd off no 2 count name None, init_ctl cd 0]"

definition add_output_ctls :: "'d card \<Rightarrow> nat \<Rightarrow> string \<Rightarrow> device_info \<Rightarrow> 'd creation" where
  "add_output_ctls cd index name info = in_order
     [CTL_SWITCH cd 0x0a 0x01 (2 * index + 1) 2
        (snprintf 45 (''Master '' @ decimal (index + 1) @ '' ('' @ name @ '') Playback Switch'')),
      CTL_MASTER cd 0x0a 0x02 (2 * index + 1) 2
        (snprintf 45 (''Master '' @ decimal (index + 1) @ '' ('' @ name @ '') Playback Volume'')),
      CTL_ENUM cd 0x33 0x00 (2 * index)
        (snprintf 45 (''Master '' @ decimal (index + 1) @ ''L ('' @ name @ '') Source Playback Enum'')) (di_opt_master info),
      init_ctl cd (di_mix_start info),
      CTL_ENUM cd 0x33 0x00 (2 * index + 1)
        (snprintf 45 (''Master '' @ decimal (index + 1) @ ''R ('' @ name @ '') Source Playback Enum'')) (di_opt_master info),
      init_ctl cd (di_mix_start info + 1)]"

definition impedance :: "'d card \<Rightarrow> nat \<Rightarrow> 'd creation" where
  "impedance cd n = CTL_ENUM cd 0x01 0x09 n (''Input '' @ decimal n @ '' Impedance Switch'') opt_impedance"

definition pad :: "'d card \<Rightarrow> nat \<Rightarrow> 'd creation" where
  "pad cd n = CTL_ENUM cd 0x01 0x0b n (''Input '' @ decimal n @ '' Pad Switch'') opt_pad"

definition scarlet_s8i6_controls :: "'d card \<Rightarrow> device_info \<Rightarrow> 'd creation" where
  "scarlet_s8i6_controls cd info = in_order
     [add_output_ctls cd 0 ''Monitor'' info, add_output_ctls cd 1 ''Headphone'' info,
      add_output_ctls cd 2 ''SPDIF'' info, impedance cd 1, impedance cd 2, pad cd 3, pad cd 4]"

definition scarlet_s18i6_controls :: "'d card \<Rightarrow> device_info \<Rightarrow> 'd creation" where
  "scarlet_s18i6_controls cd info = in_order
     [add_output_ctls cd 0 ''Monitor'' info, add_output_ctls cd 1 ''Headphone'' info,
      add_output_ctls cd 2 ''SPDIF'' info, impedance cd 1, impedance cd 2]"

definition scarlet_s18i8_controls :: "'d card \<Rightarrow> device_info \<Rightarrow> 'd creation" where
  "scarlet_s18i8_controls cd info = in_order
     [add_output_ctls cd 0 ''Monitor'' info, add_output_ctls cd 1 ''Headphone 1'' info,
      add_output_ctls cd 2 ''Headphone 2'' info, add_output_ctls cd 3 ''SPDIF'' info,
      impedance cd 1, pad cd 1, impedance cd 2, pad cd 2, pad cd 3, pad cd 4]"

definition scarlet_s18i20_controls :: "'d card \<Rightarrow> device_info \<Rightarrow> 'd creation" where
  "scarlet_s18i20_controls cd info = in_order
     [add_output_ctls cd 0 ''Monitor'' info, add_output_ctls cd 1 ''Line 3/4'' info,
      add_output_ctls cd 2 ''Line 5/6'' info, add_output_ctls cd 3 ''Line 7/8'' info,
      add_output_ctls cd 4 ''Line 9/10'' info, add_output_ctls cd 5 ''SPDIF'' info,
      add_output_ctls cd 6 ''ADAT 1/2'' info, add_output_ctls cd 7 ''ADAT 3/4'' info,
      add_output_ctls cd 8 ''ADAT 5/6'' info, add_output_ctls cd 9 ''ADAT 7/8'' info]"

definition controls_fn :: "'d card \<Rightarrow> device_info \<Rightarrow> 'd creation" where
  "controls_fn cd info = (case di_controls_fn info of
     S8I6 \<Rightarrow> scarlet_s8i6_controls cd info
   | S18I6 \<Rightarrow> scarlet_s18i6_controls cd info
   | S18I8 \<Rightarrow> scarlet_s18i8_controls cd info
   | S18I20 \<Rightarrow> scarlet_s18i20_controls cd info)"

text \<open>One gain of the matrix: input \<open>i\<close> on mix \<open>o'\<close>.\<close>

definition matrix_cell :: "'d card \<Rightarrow> device_info \<Rightarrow> nat \<Rightarrow> nat \<Rightarrow> 'd creation" where
  "matrix_cell cd info i o' = in_order
     [CTL_MIXER cd 0x3c 0x00 (push_bit 3 i + (o' AND 7)) 1
        (''Matrix '' @ decimal2 (i + 1) @ '' Mix '' @ [letter o'] @ '' Playback Volume''),
      if o' = 0 \<and> di_matrix_mux_init info ! i = di_pcm_start info \<or>
         o' = 1 \<and> di_matrix_mux_init info ! i = di_pcm_start info + 1
      then init_ctl cd 0 else (\<lambda>s. (s, Inr ()))]"

definition matrix_row :: "'d card \<Rightarrow> device_info \<Rightarrow> nat \<Rightarrow> 'd creation" where
  "matrix_row cd info i = in_order
     (CTL_ENUM cd 0x32 0x06 i (snprintf 32 (''Matrix '' @ decimal2 (i + 1) @ '' Input Playback Route'')) (di_opt_matrix info) #
      init_ctl cd (di_matrix_mux_init info ! i) #
      map (matrix_cell cd info i) [0..<di_matrix_out info])"

definition capture_route :: "'d card \<Rightarrow> device_info \<Rightarrow> nat \<Rightarrow> 'd creation" where
  "capture_route cd info i = in_order
     [CTL_ENUM cd 0x34 0x00 i (snprintf 32 (''Input Source '' @ decimal2 (i + 1) @ '' Capture Route'')) (di_opt_master info),
      init_ctl cd (di_analog_start info + int i)]"

definition USB_ID :: "nat \<Rightarrow> nat \<Rightarrow> u32" where
  "USB_ID vendor product = push_bit 16 (of_nat vendor) OR of_nat product"

definition device_of :: "u32 \<Rightarrow> device_info option" where
  "device_of usb_id =
     (if usb_id = USB_ID 0x1235 0x8002 then Some s8i6_info
      else if usb_id = USB_ID 0x1235 0x8004 then Some s18i6_info
      else if usb_id = USB_ID 0x1235 0x8014 then Some s18i8_info
      else if usb_id = USB_ID 0x1235 0x800c then Some s18i20_info
      else None)"

definition scarlett_mixer_controls :: "'d card \<Rightarrow> 'd creation" where
  "scarlett_mixer_controls cd = in_order
     [CTL_SWITCH cd 0x0a 0x01 0 1 ''Master Playback Switch'',
      CTL_MASTER cd 0x0a 0x02 0 1 ''Master Playback Volume'',
      (case device_of (ch_usb_id (cd_chip cd)) of
         None \<Rightarrow> (\<lambda>s. (s, Inl EINVAL))
       | Some info \<Rightarrow> in_order
           [controls_fn cd info,
            in_order (map (matrix_row cd info) [0..<di_matrix_in info]),
            in_order (map (capture_route cd info) [0..<di_input_len info]),
            add_new_ctl cd ENUM 0x28 0x01 0 1 1 ''Sample Clock Source'' (Some opt_clock),
            add_new_ctl cd SYNC 0x3c 0x00 2 1 1 ''Sample Clock Sync Status'' (Some opt_sync),
            add_new_ctl cd SAVE 0x3c 0x00 0x5a 1 1 ''Save To HW'' (Some opt_save)])]"

end
