(* ===== verification/Scarlett_Laws.thy ===== *)
theory Scarlett_Laws
  imports Scarlett_Setup
begin

text \<open>
  The mixer elements of the Scarlett interfaces on a device that keeps its registers
  (\<open>register_device\<close>): the caches of the elements agree with the registers whatever the controls are
  asked to do, and what is written to a control is read from it, from the cache or from the device.
\<close>

section \<open>The device\<close>

text \<open>
  Every register has an address, made of the two words of a request. A write to a register either
  succeeds and stores its bytes or leaves all registers alone, a read returns the bytes, and no other
  request changes a register.
\<close>

type_synonym address = "u16 \<times> u16"

definition urb_address :: "usb_setup \<Rightarrow> address" where
  "urb_address s = (us_index s, us_value s)"

definition is_write :: "usb_setup \<Rightarrow> bool" where
  "is_write s \<longleftrightarrow> us_request s = UAC2_CS_CUR \<and> us_type s = 0x21"

definition register_device :: "'d usb_bus \<Rightarrow> ('d \<Rightarrow> address \<Rightarrow> u8 list) \<Rightarrow> bool" where
  "register_device bus reg \<longleftrightarrow>
     (\<forall>d. reg (fst (ub_autopm_get bus d)) = reg d \<and> reg (ub_autopm_put bus d) = reg d) \<and>
     (\<forall>s data d d' buf r. ub_control_msg bus s data d = (d', buf, r) \<longrightarrow>
        reg d' = (if is_write s \<and> \<not> isl r then (reg d)(urb_address s := data) else reg d) \<and>
        (is_write s \<longrightarrow> buf = data) \<and>
        (us_type s = 0xA1 \<and> us_request s = UAC2_CS_CUR \<and> \<not> isl r \<and> length data \<le> length (reg d (urb_address s)) \<longrightarrow>
           buf = take (length data) (reg d (urb_address s))))"

lemma register_device_msg:
  assumes "register_device bus reg" "ub_control_msg bus s data d = (d', buf, r)"
  shows "reg d' = (if is_write s \<and> \<not> isl r then (reg d)(urb_address s := data) else reg d)"
    and "is_write s \<Longrightarrow> buf = data"
    and "us_type s = 0xA1 \<Longrightarrow> us_request s = UAC2_CS_CUR \<Longrightarrow> \<not> isl r \<Longrightarrow> length data \<le> length (reg d (urb_address s)) \<Longrightarrow>
           buf = take (length data) (reg d (urb_address s))"
  using assms unfolding register_device_def by blast+

lemma register_device_pm:
  "register_device bus reg \<Longrightarrow> reg (fst (ub_autopm_get bus d)) = reg d"
  "register_device bus reg \<Longrightarrow> reg (ub_autopm_put bus d) = reg d"
  unfolding register_device_def by blast+

lemma autoresume_reg:
  "register_device bus reg \<Longrightarrow> snd_usb_autoresume bus chip d = (d1, r) \<Longrightarrow> reg d1 = reg d"
  using register_device_pm(1) [of bus reg d] by (auto simp: snd_usb_autoresume_def split: if_splits)

lemma autosuspend_reg: "register_device bus reg \<Longrightarrow> reg (snd_usb_autosuspend bus chip d) = reg d"
  by (simp add: snd_usb_autosuspend_def register_device_pm)

text \<open>The address of a register of an element.\<close>

definition address_of :: "snd_usb_audio \<Rightarrow> nat \<Rightarrow> nat \<Rightarrow> address" where
  "address_of chip index wValue = (ucast (ch_ctrl_intf chip) OR push_bit 8 (of_nat index), of_nat wValue)"

lemma urb_address_setup [simp]: "urb_address (urb_setup chip t r w i) = address_of chip i w"
  by (simp add: urb_address_def urb_setup_def address_of_def)

lemma is_write_setup [simp]: "is_write (urb_setup chip t r w i) \<longleftrightarrow> r = UAC2_CS_CUR \<and> t = 0x21"
  by (simp add: is_write_def urb_setup_def)

lemma urb_setup_fields [simp]:
  "us_type (urb_setup chip t r w i) = t" "us_request (urb_setup chip t r w i) = r"
  by (simp_all add: urb_setup_def)

section \<open>Requests\<close>

lemma ctl_msg_reg:
  assumes rd: "register_device bus reg" and m: "snd_usb_ctl_msg bus s data n d = (d', buf, r)"
    and n: "0 < n" "length data = n"
  shows "reg d' = (if is_write s \<and> \<not> isl r then (reg d)(urb_address s := data) else reg d)"
    and "is_write s \<Longrightarrow> buf = data"
    and "us_type s = 0xA1 \<Longrightarrow> us_request s = UAC2_CS_CUR \<Longrightarrow> \<not> isl r \<Longrightarrow> n \<le> length (reg d (urb_address s)) \<Longrightarrow>
           buf = take n (reg d (urb_address s))"
proof -
  obtain d1 b1 r1 where c: "ub_control_msg bus s data d = (d1, b1, r1)" by (cases "ub_control_msg bus s data d")
  note laws = register_device_msg [OF rd c]
  show "reg d' = (if is_write s \<and> \<not> isl r then (reg d)(urb_address s := data) else reg d)"
    using m c n laws(1) by (auto simp: snd_usb_ctl_msg_def split: if_splits)
  show "is_write s \<Longrightarrow> buf = data"
    using m c n laws(2) by (auto simp: snd_usb_ctl_msg_def split: if_splits)
  show "us_type s = 0xA1 \<Longrightarrow> us_request s = UAC2_CS_CUR \<Longrightarrow> \<not> isl r \<Longrightarrow> n \<le> length (reg d (urb_address s)) \<Longrightarrow>
           buf = take n (reg d (urb_address s))"
    using m c n laws(3) by (auto simp: snd_usb_ctl_msg_def split: if_splits)
qed

lemma send_urb_reg:
  assumes rd: "register_device bus reg" and w: "is_write s" and n: "0 < n" "length data = n"
  shows "send_urb bus chip s data n t d = (d', r) \<Longrightarrow>
    reg d' = (if isl r then reg d else (reg d)(urb_address s := data))"
proof (induction t arbitrary: d)
  case (Suc t)
  obtain d1 b1 r1 where c: "snd_usb_ctl_msg bus s data n d = (d1, b1, r1)" by (cases "snd_usb_ctl_msg bus s data n d")
  note laws = ctl_msg_reg [OF rd c n]
  show ?case
    using Suc.prems Suc.IH [of d1] c laws(1,2) w by (cases r1) (auto split: if_splits)
qed auto

lemma set_ctl_urb2_reg:
  assumes rd: "register_device bus reg" and n: "0 < n" "length data = n"
    and s: "set_ctl_urb2 bus chip UAC2_CS_CUR w i data n d = (d', r)"
  shows "reg d' = (if isl r then reg d else (reg d)(address_of chip i w := data))"
proof -
  obtain d1 r1 where a: "snd_usb_autoresume bus chip d = (d1, r1)" by (cases "snd_usb_autoresume bus chip d")
  obtain d2 r2 where u: "send_urb bus chip (urb_setup chip 0x21 UAC2_CS_CUR w i) data n 10 d1 = (d2, r2)"
    by (cases "send_urb bus chip (urb_setup chip 0x21 UAC2_CS_CUR w i) data n 10 d1")
  have "reg d2 = (if isl r2 then reg d1 else (reg d1)(address_of chip i w := data))"
    using send_urb_reg [OF rd _ n u] by simp
  with s a u show ?thesis
    using autoresume_reg [OF rd a] autosuspend_reg [OF rd, of chip d2]
    by (auto simp: set_ctl_urb2_def split: if_splits)
qed

lemma set_mem_reg:
  assumes rd: "register_device bus reg" and n: "0 < n" "length data = n" and q: "q \<noteq> UAC2_CS_CUR"
  shows "reg (fst (set_ctl_urb2 bus chip q w i data n d)) = reg d"
proof -
  obtain d1 r1 where a: "snd_usb_autoresume bus chip d = (d1, r1)" by (cases "snd_usb_autoresume bus chip d")
  have step: "reg (fst (snd_usb_ctl_msg bus (urb_setup chip 0x21 q w i) b n d)) = reg d" for b d
    using register_device_msg(1) [OF rd] q
    by (cases "ub_control_msg bus (urb_setup chip 0x21 q w i) (take n b) d") (auto simp: snd_usb_ctl_msg_def Let_def)
  have "reg (fst (send_urb bus chip (urb_setup chip 0x21 q w i) b n t d)) = reg d" for b t d
  proof (induction t arbitrary: b d)
    case (Suc t)
    then show ?case
      using step [of b d]
      by (cases "snd_usb_ctl_msg bus (urb_setup chip 0x21 q w i) b n d") (auto split: sum.splits)
  qed simp
  then show ?thesis
    using a autoresume_reg [OF rd a] autosuspend_reg [OF rd]
    by (auto simp: set_ctl_urb2_def case_prod_unfold Let_def)
qed


lemma get_ctl_urb2_reg:
  assumes rd: "register_device bus reg" and n: "0 < n" "n \<le> length data"
    and g: "get_ctl_urb2 bus chip q w i data n d = (d', buf, r)"
  shows "reg d' = reg d"
    and "q = UAC2_CS_CUR \<Longrightarrow> \<not> isl r \<Longrightarrow> n \<le> length (reg d (address_of chip i w)) \<Longrightarrow> take n buf = take n (reg d (address_of chip i w))"
proof -
  obtain d1 r1 where a: "snd_usb_autoresume bus chip d = (d1, r1)" by (cases "snd_usb_autoresume bus chip d")
  obtain d2 b2 r2 where c: "ub_control_msg bus (urb_setup chip 0xA1 q w i) (take n data) d1 = (d2, b2, r2)"
    by (cases "ub_control_msg bus (urb_setup chip 0xA1 q w i) (take n data) d1")
  note a1 = autoresume_reg [OF rd a] and a2 = autosuspend_reg [OF rd, of chip]
  show "reg d' = reg d"
    using g a c n a1 a2 register_device_msg(1) [OF rd c]
    by (auto simp: get_ctl_urb2_def snd_usb_ctl_msg_def Let_def split: if_splits)
  show "q = UAC2_CS_CUR \<Longrightarrow> \<not> isl r \<Longrightarrow> n \<le> length (reg d (address_of chip i w)) \<Longrightarrow> take n buf = take n (reg d (address_of chip i w))"
    using g a c n a1 a2 register_device_msg(3) [OF rd c]
    by (auto simp: get_ctl_urb2_def snd_usb_ctl_msg_def Let_def min_def split: if_splits)
qed

section \<open>The cache\<close>

lemma is_cached_bit: "is_cached elem c = bit (el_cached elem) c"
  by (simp add: is_cached_def push_bit_eq_mult and_exp_eq_0_iff_not_bit)

lemma is_cached_put [simp]:
  "c < 32 \<Longrightarrow> is_cached (put_cache c v elem) c' \<longleftrightarrow> c' = c \<or> is_cached elem c'"
  by (auto simp: is_cached_bit put_cache_def bit_or_iff push_bit_eq_mult bit_exp_iff)

lemma put_cache_fields [simp]:
  "el_wValue (put_cache c v elem) = el_wValue elem" "el_index (put_cache c v elem) = el_index elem"
  "el_val_len (put_cache c v elem) = el_val_len elem" "el_count (put_cache c v elem) = el_count elem"
  "el_opt (put_cache c v elem) = el_opt elem" "el_cache_val (put_cache c v elem) = (el_cache_val elem)[c := v]"
  by (simp_all add: put_cache_def)

lemma read_len_put [simp]: "read_len (put_cache c v elem) = read_len elem"
  by (simp add: read_len_def)

text \<open>An element as \<open>add_new_ctl\<close> makes it.\<close>

definition elem_ok :: "mixer_elem \<Rightarrow> bool" where
  "elem_ok elem \<longleftrightarrow> el_val_len elem \<in> {1, 2} \<and> el_count elem \<le> MAX_CHANNELS \<and> length (el_cache_val elem) = MAX_CHANNELS"

abbreviation elem_address :: "snd_usb_audio \<Rightarrow> mixer_elem \<Rightarrow> nat \<Rightarrow> address" where
  "elem_address chip elem c \<equiv> address_of chip (el_index elem) (el_wValue elem + c)"

text \<open>Every register of the element holds enough bytes, and what the cache has of it is what a read yields.\<close>

definition coherent :: "snd_usb_audio \<Rightarrow> mixer_elem \<Rightarrow> (address \<Rightarrow> u8 list) \<Rightarrow> bool" where
  "coherent chip elem regs \<longleftrightarrow> (\<forall>c < el_count elem.
     read_len elem \<le> length (regs (elem_address chip elem c)) \<and>
     (is_cached elem c \<longrightarrow> ctl_bytes (read_len elem) (el_cache_val elem ! c) = take (read_len elem) (regs (elem_address chip elem c))))"

lemma elem_ok_put [simp]: "elem_ok (put_cache c v elem) = elem_ok elem"
  by (simp add: elem_ok_def)

lemma read_len_le: "elem_ok elem \<Longrightarrow> read_len elem \<in> {1, 2} \<and> read_len elem \<le> el_val_len elem"
  by (auto simp: elem_ok_def read_len_def)

section \<open>Values and bytes\<close>

lemma length_ctl_bytes: "n \<in> {1, 2} \<Longrightarrow> length (ctl_bytes n v) = n"
  by (auto simp: ctl_bytes_def)

lemma take_ctl_bytes: "m \<in> {1, 2} \<Longrightarrow> n \<in> {1, 2} \<Longrightarrow> m \<le> n \<Longrightarrow> take m (ctl_bytes n v) = ctl_bytes m v"
  by (auto simp: ctl_bytes_def)

lemma uint_word8_of_int: "uint (word_of_int v :: u8) = v mod 256"
  by (simp add: uint_word_of_int take_bit_eq_mod)

lemma uint_u8_bounds: "0 \<le> uint (a :: u8)" "uint (a :: u8) < 256"
  using unsigned_less [of a] by (simp_all add: uint_int_unat)

lemma word8_of_int_256 [simp]: "(word_of_int (uint (a :: u8) + 256 * x) :: u8) = a"
  by (rule word_uint_eqI) (subst uint_word8_of_int, use uint_u8_bounds [of a] in simp)

text \<open>Reading and writing back keeps the bytes, writing and reading back keeps the values that fit.\<close>

lemma ctl_bytes_value:
  assumes "n \<in> {1, 2}" "n \<le> length bs"
  shows "ctl_bytes n (ctl_value n bs) = take n bs"
proof -
  obtain a rest where b: "bs = a # rest" using assms by (cases bs) auto
  show ?thesis
  proof (cases "n = 1")
    case False
    then obtain b' rest' where r: "rest = b' # rest'" "n = 2" using assms b by (cases rest) auto
    have u: "uint a < 256" "0 \<le> uint a" "uint b' < 256" "0 \<le> uint b'"
      using unsigned_less [of a] unsigned_less [of b'] by (simp_all add: uint_int_unat)
    have "(word_of_int ((uint a + 256 * uint b' - 65536) div 256) :: u8) = b'"
    proof -
      have "(uint a + 256 * uint b' - 65536) div 256 = uint b' + 256 * (-1)" using u by linarith
      then show ?thesis by (simp only: word8_of_int_256)
    qed
    moreover have "(uint a + 256 * uint b') div 256 = uint b'" using u by linarith
    moreover have "(word_of_int (uint a + 256 * uint b' - 65536) :: u8) = a"
      using word8_of_int_256 [of a "uint b' - 256"] by (simp add: algebra_simps)
    ultimately show ?thesis
      using b r by (simp add: ctl_bytes_def ctl_value_def Let_def)
  qed (use b in \<open>simp add: ctl_bytes_def ctl_value_def\<close>)
qed

lemma ctl_value_bytes: 
  assumes "- 0x8000 \<le> v" "v < 0x8000"
  shows "ctl_value 2 (ctl_bytes 2 v) = v"
proof -
  have "(v div 256) mod 256 = (if v < 0 then v div 256 + 256 else v div 256)"
  proof (cases "v < 0")
    case True
    then have "v div 256 = -256 + (v div 256 + 256)" "0 \<le> v div 256 + 256" "v div 256 + 256 < 256" using assms by simp_all
    then show ?thesis using True by (metis mod_add_self1 mod_pos_pos_trivial add.commute add_uminus_conv_diff diff_add_cancel)
  qed (use assms in simp)
  moreover have "256 * (v div 256) + v mod 256 = v" by simp
  ultimately show ?thesis
    using assms by (simp add: ctl_value_def ctl_bytes_def uint_word8_of_int Let_def algebra_simps split: if_splits)
qed

lemma ctl_value_byte: "ctl_value 1 (ctl_bytes n v) = v mod 256"
  by (simp add: ctl_value_def ctl_bytes_def uint_word8_of_int)

lemma ctl_value_take: "n \<in> {1, 2} \<Longrightarrow> ctl_value n (take n bs) = ctl_value n bs"
  by (auto simp: ctl_value_def)


section \<open>Accesses to one element\<close>

lemma coherentD:
  "coherent chip elem regs \<Longrightarrow> c < el_count elem \<Longrightarrow> read_len elem \<le> length (regs (elem_address chip elem c))"
  "coherent chip elem regs \<Longrightarrow> c < el_count elem \<Longrightarrow> is_cached elem c \<Longrightarrow>
     ctl_bytes (read_len elem) (el_cache_val elem ! c) = take (read_len elem) (regs (elem_address chip elem c))"
  unfolding coherent_def by blast+

text \<open>What an access to channel \<open>c\<close> leaves of an element.\<close>

definition touches :: "nat \<Rightarrow> mixer_elem \<Rightarrow> mixer_elem \<Rightarrow> bool" where
  "touches c elem elem' \<longleftrightarrow> elem' = elem \<or> (\<exists>v. elem' = put_cache c v elem)"

lemma touchesE:
  assumes "touches c elem elem'"
  obtains "elem' = elem" | v where "elem' = put_cache c v elem"
  using assms unfolding touches_def by blast

lemma coherent_put_cache:
  assumes ok: "elem_ok elem" "c < el_count elem" and co: "coherent chip elem regs"
    and rest: "\<And>c'. c' < el_count elem \<Longrightarrow> c' \<noteq> c \<Longrightarrow> regs' (elem_address chip elem c') = regs (elem_address chip elem c')"
    and len: "read_len elem \<le> length (regs' (elem_address chip elem c))"
    and v: "ctl_bytes (read_len elem) v = take (read_len elem) (regs' (elem_address chip elem c))"
  shows "coherent chip (put_cache c v elem) regs'"
  using ok co rest len v unfolding coherent_def elem_ok_def by (auto simp: nth_list_update)

lemma get_ctl_value_reg:
  assumes rd: "register_device bus reg" and ok: "elem_ok elem" "c < el_count elem"
    and co: "coherent chip elem (reg d)" and g: "get_ctl_value bus chip elem c d = (elem', d', r)"
  shows "reg d' = reg d" "coherent chip elem' (reg d')" "touches c elem elem'"
    and "r = Inr v \<Longrightarrow> is_cached elem' c \<and> el_cache_val elem' ! c = v"
proof -
  obtain d1 buf r1 where u: "get_ctl_urb2 bus chip UAC2_CS_CUR (el_wValue elem + c) (el_index elem) [0, 0] (read_len elem) d = (d1, buf, r1)"
    by (cases "get_ctl_urb2 bus chip UAC2_CS_CUR (el_wValue elem + c) (el_index elem) [0, 0] (read_len elem) d")
  have rl: "0 < read_len elem" "read_len elem \<le> length [0 :: u8, 0]" "read_len elem \<in> {1, 2}" using read_len_le [OF ok(1)] by auto
  note laws = get_ctl_urb2_reg [OF rd rl(1,2) u]
  have len: "read_len elem \<le> length (reg d (elem_address chip elem c))" by (rule coherentD(1) [OF co ok(2)])
  have c: "c < 32" "c < length (el_cache_val elem)" using ok by (auto simp: elem_ok_def)
  show "reg d' = reg d" using g u laws(1) by (cases r1) (auto simp: get_ctl_value_def Let_def split: if_splits)
  show "touches c elem elem'" using g u by (cases r1) (auto simp: get_ctl_value_def Let_def touches_def split: if_splits)
  show "r = Inr v \<Longrightarrow> is_cached elem' c \<and> el_cache_val elem' ! c = v"
    using g u c by (cases r1) (auto simp: get_ctl_value_def Let_def split: if_splits)
  have "coherent chip (put_cache c (ctl_value (read_len elem) buf) elem) (reg d)" if r1: "\<not> isl r1"
  proof (rule coherent_put_cache [where regs = "reg d" and regs' = "reg d", OF ok co _ len])
    have t: "take (read_len elem) buf = take (read_len elem) (reg d (elem_address chip elem c))" using laws(2) r1 len by simp
    then have "read_len elem \<le> length buf" using len by (metis length_take min.absorb2 min.cobounded1)
    then show "ctl_bytes (read_len elem) (ctl_value (read_len elem) buf) = take (read_len elem) (reg d (elem_address chip elem c))"
      using ctl_bytes_value [OF rl(3)] t by simp
  qed simp
  then show "coherent chip elem' (reg d')"
    using g u laws(1) co by (cases r1) (auto simp: get_ctl_value_def Let_def split: if_splits)
qed

text \<open>The registers of an element are different ones.\<close>

definition own_registers :: "snd_usb_audio \<Rightarrow> mixer_elem \<Rightarrow> bool" where
  "own_registers chip elem \<longleftrightarrow> inj_on (elem_address chip elem) {..<el_count elem}"

lemma own_registers_put [simp]: "own_registers chip (put_cache c v elem) = own_registers chip elem"
  by (simp add: own_registers_def)

lemma set_ctl_value_reg:
  assumes rd: "register_device bus reg" and ok: "elem_ok elem"
    and s: "set_ctl_value bus chip elem c v d = (elem', d', r)"
  shows "reg d' = (if isl r then reg d else (reg d)(elem_address chip elem c := ctl_bytes (el_val_len elem) v))"
    and "elem' = (if isl r then elem else put_cache c v elem)"
proof -
  obtain d1 r1 where u: "set_ctl_urb2 bus chip UAC2_CS_CUR (el_wValue elem + c) (el_index elem) (ctl_bytes (el_val_len elem) v) (el_val_len elem) d = (d1, r1)"
    by (cases "set_ctl_urb2 bus chip UAC2_CS_CUR (el_wValue elem + c) (el_index elem) (ctl_bytes (el_val_len elem) v) (el_val_len elem) d")
  have n: "0 < el_val_len elem" "length (ctl_bytes (el_val_len elem) v) = el_val_len elem"
    using ok length_ctl_bytes by (auto simp: elem_ok_def)
  show "reg d' = (if isl r then reg d else (reg d)(elem_address chip elem c := ctl_bytes (el_val_len elem) v))"
    "elem' = (if isl r then elem else put_cache c v elem)"
    using s u set_ctl_urb2_reg [OF rd n u] by (cases r1; auto simp: set_ctl_value_def)+
qed

lemma set_ctl_value_coherent:
  assumes rd: "register_device bus reg" and ok: "elem_ok elem" "c < el_count elem" "own_registers chip elem"
    and co: "coherent chip elem (reg d)" and s: "set_ctl_value bus chip elem c v d = (elem', d', r)"
  shows "coherent chip elem' (reg d')"
proof (cases "isl r")
  case False
  note eqs = set_ctl_value_reg [OF rd ok(1) s]
  have "coherent chip (put_cache c v elem) ((reg d)(elem_address chip elem c := ctl_bytes (el_val_len elem) v))"
  proof (rule coherent_put_cache [OF ok(1,2) co])
    show "((reg d)(elem_address chip elem c := ctl_bytes (el_val_len elem) v)) (elem_address chip elem c') = reg d (elem_address chip elem c')"
      if "c' < el_count elem" "c' \<noteq> c" for c'
      using that ok(2,3) unfolding own_registers_def by (auto dest!: inj_onD [where x = c' and y = c])
  qed (use ok(1) read_len_le [OF ok(1)] in \<open>auto simp: elem_ok_def length_ctl_bytes take_ctl_bytes\<close>)
  then show ?thesis using False eqs by simp
qed (use set_ctl_value_reg [OF rd ok(1) s] co in simp)


section \<open>Accesses to a control\<close>

definition registers_of :: "snd_usb_audio \<Rightarrow> mixer_elem \<Rightarrow> address set" where
  "registers_of chip elem = elem_address chip elem ` {..<el_count elem}"

definition good :: "snd_usb_audio \<Rightarrow> mixer_elem \<Rightarrow> (address \<Rightarrow> u8 list) \<Rightarrow> bool" where
  "good chip elem regs \<longleftrightarrow> elem_ok elem \<and> own_registers chip elem \<and> coherent chip elem regs"

text \<open>A control may change its cache and its registers, and keeps the one coherent with the others.\<close>

definition accesses :: "snd_usb_audio \<Rightarrow> mixer_elem \<Rightarrow> (address \<Rightarrow> u8 list) \<Rightarrow> mixer_elem \<Rightarrow> (address \<Rightarrow> u8 list) \<Rightarrow> bool" where
  "accesses chip elem regs elem' regs' \<longleftrightarrow>
     (\<exists>cached vals. elem' = elem\<lparr>el_cached := cached, el_cache_val := vals\<rparr>) \<and> good chip elem' regs' \<and>
     (\<forall>a. a \<notin> registers_of chip elem \<longrightarrow> regs' a = regs a)"

lemma accesses_refl [simp]: "accesses chip elem regs elem regs \<longleftrightarrow> good chip elem regs"
  by (auto simp: accesses_def intro!: exI [of _ "el_cached elem"] exI [of _ "el_cache_val elem"])

lemma accesses_good: "accesses chip elem regs elem' regs' \<Longrightarrow> good chip elem' regs'"
  by (simp add: accesses_def)

lemma accesses_fields:
  assumes "accesses chip elem regs elem' regs'"
  shows "el_wValue elem' = el_wValue elem" "el_index elem' = el_index elem" "el_val_len elem' = el_val_len elem"
    "el_count elem' = el_count elem" "el_opt elem' = el_opt elem" "registers_of chip elem' = registers_of chip elem"
    "read_len elem' = read_len elem"
  using assms by (auto simp: accesses_def registers_of_def read_len_def)

lemma accesses_trans [trans]:
  assumes "accesses chip e0 r0 e1 r1" "accesses chip e1 r1 e2 r2"
  shows "accesses chip e0 r0 e2 r2"
proof -
  obtain c v where e1: "e1 = e0\<lparr>el_cached := c, el_cache_val := v\<rparr>" using assms(1) unfolding accesses_def by blast
  obtain c' v' where e2: "e2 = e1\<lparr>el_cached := c', el_cache_val := v'\<rparr>" using assms(2) unfolding accesses_def by blast
  have "e2 = e0\<lparr>el_cached := c', el_cache_val := v'\<rparr>" using e1 e2 by simp
  moreover have "registers_of chip e1 = registers_of chip e0" by (rule accesses_fields [OF assms(1)])
  ultimately show ?thesis using assms unfolding accesses_def by metis
qed

lemma accesses_put_cache:
  assumes "good chip elem regs" "c < el_count elem" "coherent chip (put_cache c v elem) regs'"
    "\<And>a. a \<notin> registers_of chip elem \<Longrightarrow> regs' a = regs a"
  shows "accesses chip elem regs (put_cache c v elem) regs'"
  using assms unfolding accesses_def good_def by (auto simp: put_cache_def elem_ok_def own_registers_def)

lemma get_ctl_value_accesses:
  assumes rd: "register_device bus reg" and gd: "good chip elem (reg d)" and c: "c < el_count elem"
    and g: "get_ctl_value bus chip elem c d = (elem', d', r)"
  shows "accesses chip elem (reg d) elem' (reg d')"
proof -
  have ok: "elem_ok elem" and co: "coherent chip elem (reg d)" using gd by (simp_all add: good_def)
  note laws = get_ctl_value_reg [OF rd ok c co g]
  from laws(3) show ?thesis
  proof (cases rule: touchesE)
    case 1
    then show ?thesis using gd laws(1) by simp
  next
    case (2 v)
    then show ?thesis using accesses_put_cache [OF gd c, of v "reg d'"] laws(1,2) by simp
  qed
qed

lemma set_ctl_value_accesses:
  assumes rd: "register_device bus reg" and gd: "good chip elem (reg d)" and c: "c < el_count elem"
    and s: "set_ctl_value bus chip elem c v d = (elem', d', r)"
  shows "accesses chip elem (reg d) elem' (reg d')"
proof -
  have ok: "elem_ok elem" "own_registers chip elem" and co: "coherent chip elem (reg d)" using gd by (simp_all add: good_def)
  note eqs = set_ctl_value_reg [OF rd ok(1) s] and co' = set_ctl_value_coherent [OF rd ok(1) c ok(2) co s]
  show ?thesis
  proof (cases "isl r")
    case False
    then have "elem' = put_cache c v elem" using eqs by simp
    moreover have "reg d' a = reg d a" if "a \<notin> registers_of chip elem" for a
      using that eqs c False unfolding registers_of_def by auto
    ultimately show ?thesis using accesses_put_cache [OF gd c, of v "reg d'"] co' by simp
  qed (use eqs gd in simp)
qed

lemma read_channels_accesses:
  assumes rd: "register_device bus reg"
  shows "good chip elem (reg d) \<Longrightarrow> set cs \<subseteq> {..<el_count elem} \<Longrightarrow>
    read_channels bus chip conv cs elem d = (elem', d', r) \<Longrightarrow> accesses chip elem (reg d) elem' (reg d')"
proof (induction cs arbitrary: elem d elem' d' r)
  case (Cons c cs)
  obtain e1 d1 r1 where g: "get_ctl_value bus chip elem c d = (e1, d1, r1)" by (cases "get_ctl_value bus chip elem c d")
  have a1: "accesses chip elem (reg d) e1 (reg d1)" using get_ctl_value_accesses [OF rd Cons.prems(1) _ g] Cons.prems(2) by simp
  have a2: "accesses chip elem (reg d) e2 (reg d2)" if "read_channels bus chip conv cs e1 d1 = (e2, d2, r2)" for e2 d2 r2
    using accesses_trans [OF a1 Cons.IH [OF accesses_good [OF a1] _ that]] Cons.prems(2) accesses_fields(4) [OF a1] by simp
  show ?case using Cons.prems(3) a1 a2 g by (cases r1) (auto split: prod.splits sum.splits)
qed simp

lemma write_channels_accesses:
  assumes rd: "register_device bus reg"
  shows "good chip elem (reg d) \<Longrightarrow> set cs \<subseteq> {..<el_count elem} \<Longrightarrow>
    write_channels bus chip conv vals cs ch elem d = (elem', d', r) \<Longrightarrow> accesses chip elem (reg d) elem' (reg d')"
proof (induction cs arbitrary: ch elem d elem' d' r)
  case (Cons c cs)
  obtain e1 d1 r1 where g: "get_ctl_value bus chip elem c d = (e1, d1, r1)" by (cases "get_ctl_value bus chip elem c d")
  obtain e2 d2 r2 where s: "set_ctl_value bus chip e1 c (conv (vals ! c)) d1 = (e2, d2, r2)"
    by (cases "set_ctl_value bus chip e1 c (conv (vals ! c)) d1")
  have a1: "accesses chip elem (reg d) e1 (reg d1)" using get_ctl_value_accesses [OF rd Cons.prems(1) _ g] Cons.prems(2) by simp
  have a2: "accesses chip elem (reg d) e2 (reg d2)"
    using accesses_trans [OF a1 set_ctl_value_accesses [OF rd accesses_good [OF a1] _ s]] Cons.prems(2) accesses_fields(4) [OF a1] by simp
  have "accesses chip elem (reg d) e3 (reg d3)"
    if "accesses chip elem (reg d) e (reg dx)" "write_channels bus chip conv vals cs ch' e dx = (e3, d3, r3)" for e dx ch' e3 d3 r3
    using accesses_trans [OF that(1) Cons.IH [OF accesses_good [OF that(1)] _ that(2)]] Cons.prems(2) accesses_fields(4) [OF that(1)] by simp
  note rec = this
  show ?case using Cons.prems(3) a1 a2 g s rec by (cases r1; cases r2) (auto split: if_splits)
qed simp


section \<open>The controls of a card\<close>

text \<open>The sync status and the save control have no cache and only send requests to the memory of the device.\<close>

definition caching :: "kcontrol \<Rightarrow> bool" where
  "caching k \<longleftrightarrow> (case kc_kind k of SYNC \<Rightarrow> False | SAVE \<Rightarrow> False | _ \<Rightarrow> True)"

definition kctl_good :: "snd_usb_audio \<Rightarrow> kcontrol \<Rightarrow> (address \<Rightarrow> u8 list) \<Rightarrow> bool" where
  "kctl_good chip k regs \<longleftrightarrow> (caching k \<longrightarrow> good chip (kc_elem k) regs \<and> (kc_kind k = ENUM \<longrightarrow> 0 < el_count (kc_elem k)))"

definition kctl_step :: "snd_usb_audio \<Rightarrow> kcontrol \<Rightarrow> (address \<Rightarrow> u8 list) \<Rightarrow> kcontrol \<Rightarrow> (address \<Rightarrow> u8 list) \<Rightarrow> bool" where
  "kctl_step chip k regs k' regs' \<longleftrightarrow>
     (if caching k then (\<exists>e. k' = k\<lparr>kc_elem := e\<rparr>) \<and> accesses chip (kc_elem k) regs (kc_elem k') regs' else k' = k \<and> regs' = regs)"

lemma get_ctl_urb2_keeps:
  assumes rd: "register_device bus reg"
  shows "reg (fst (get_ctl_urb2 bus chip q w i data n d)) = reg d"
proof -
  obtain d1 r1 where a: "snd_usb_autoresume bus chip d = (d1, r1)" by (cases "snd_usb_autoresume bus chip d")
  obtain d2 b2 r2 where c: "ub_control_msg bus (urb_setup chip 0xA1 q w i) (take n data) d1 = (d2, b2, r2)"
    by (cases "ub_control_msg bus (urb_setup chip 0xA1 q w i) (take n data) d1")
  show ?thesis
    using a c autoresume_reg [OF rd a] autosuspend_reg [OF rd] register_device_msg(1) [OF rd c]
    by (auto simp: get_ctl_urb2_def snd_usb_ctl_msg_def Let_def)
qed

lemma kctl_get_step:
  assumes rd: "register_device bus reg" and gd: "kctl_good chip k (reg d)" and g: "kctl_get bus chip k u d = (k', u', d', r)"
  shows "kctl_step chip k (reg d) k' (reg d')"
proof (cases "kc_kind k")
  case SWITCH
  then obtain e dx rx where f: "scarlett_ctl_switch_get bus chip (kc_elem k) d = (e, dx, rx)"
    by (cases "scarlett_ctl_switch_get bus chip (kc_elem k) d")
  have "accesses chip (kc_elem k) (reg d) e (reg dx)"
    using read_channels_accesses [OF rd _ _ f [unfolded scarlett_ctl_switch_get_def]] gd SWITCH by (auto simp: kctl_good_def caching_def atLeast0LessThan)
  then show ?thesis using g f SWITCH by (auto simp: kctl_get_def with_values_def kctl_step_def caching_def)
next
  case (LEVEL m)
  then obtain e dx rx where f: "scarlett_ctl_get bus chip m (kc_elem k) d = (e, dx, rx)"
    by (cases "scarlett_ctl_get bus chip m (kc_elem k) d")
  have "accesses chip (kc_elem k) (reg d) e (reg dx)"
    using read_channels_accesses [OF rd _ _ f [unfolded scarlett_ctl_get_def]] gd LEVEL by (auto simp: kctl_good_def caching_def atLeast0LessThan)
  then show ?thesis using g f LEVEL by (auto simp: kctl_get_def with_values_def kctl_step_def caching_def)
next
  case ENUM
  obtain e dx rx where f: "get_ctl_value bus chip (kc_elem k) 0 d = (e, dx, rx)" by (cases "get_ctl_value bus chip (kc_elem k) 0 d")
  have "accesses chip (kc_elem k) (reg d) e (reg dx)"
    using get_ctl_value_accesses [OF rd _ _ f] gd ENUM by (auto simp: kctl_good_def caching_def)
  then show ?thesis using g f ENUM
    by (cases rx) (auto simp: kctl_get_def scarlett_ctl_enum_get_def kctl_step_def caching_def)
next
  case SYNC
  then show ?thesis using g get_ctl_urb2_keeps [OF rd, of chip UAC2_CS_MEM]
    by (auto simp: kctl_get_def scarlett_ctl_meter_get_def kctl_step_def caching_def split: prod.splits sum.splits)
      (metis fst_conv)+
next
  case SAVE
  then show ?thesis using g set_mem_reg [OF rd, of 1 "[0xa5]" UAC2_CS_MEM]
    by (auto simp: kctl_get_def scarlett_ctl_save_put_def kctl_step_def caching_def split: prod.splits if_splits)
      (metis fst_conv)+
qed

lemma kctl_put_step:
  assumes rd: "register_device bus reg" and gd: "kctl_good chip k (reg d)" and g: "kctl_put bus chip k u d = Some (k', d', r)"
  shows "kctl_step chip k (reg d) k' (reg d')"
proof (cases "kc_kind k")
  case SWITCH
  then obtain e dx rx where f: "scarlett_ctl_switch_put bus chip (ev_values u) (kc_elem k) d = (e, dx, rx)"
    by (cases "scarlett_ctl_switch_put bus chip (ev_values u) (kc_elem k) d")
  have "accesses chip (kc_elem k) (reg d) e (reg dx)"
    using write_channels_accesses [OF rd _ _ f [unfolded scarlett_ctl_switch_put_def]] gd SWITCH by (auto simp: kctl_good_def caching_def atLeast0LessThan)
  then show ?thesis using g f SWITCH by (auto simp: kctl_put_def kctl_step_def caching_def)
next
  case (LEVEL m)
  then obtain e dx rx where f: "scarlett_ctl_put bus chip (ev_values u) (kc_elem k) d = (e, dx, rx)"
    by (cases "scarlett_ctl_put bus chip (ev_values u) (kc_elem k) d")
  have "accesses chip (kc_elem k) (reg d) e (reg dx)"
    using write_channels_accesses [OF rd _ _ f [unfolded scarlett_ctl_put_def]] gd LEVEL by (auto simp: kctl_good_def caching_def atLeast0LessThan)
  then show ?thesis using g f LEVEL by (auto simp: kctl_put_def kctl_step_def caching_def)
next
  case ENUM
  let ?v = "to_int (sint (ev_item u) + en_start (opt_of (kc_elem k)))"
  obtain e dx rx where f: "get_ctl_value bus chip (kc_elem k) 0 d = (e, dx, rx)" by (cases "get_ctl_value bus chip (kc_elem k) 0 d")
  have a1: "accesses chip (kc_elem k) (reg d) e (reg dx)"
    using get_ctl_value_accesses [OF rd _ _ f] gd ENUM by (auto simp: kctl_good_def caching_def)
  obtain e2 d2 r2 where s: "set_ctl_value bus chip e 0 ?v dx = (e2, d2, r2)" by (cases "set_ctl_value bus chip e 0 ?v dx")
  have "accesses chip (kc_elem k) (reg d) e2 (reg d2)"
    using accesses_trans [OF a1 set_ctl_value_accesses [OF rd accesses_good [OF a1] _ s]] accesses_fields(4) [OF a1] gd ENUM
    by (auto simp: kctl_good_def caching_def)
  then show ?thesis using g f ENUM s a1
    by (cases rx; cases r2) (auto simp: kctl_put_def scarlett_ctl_enum_put_def kctl_step_def caching_def Let_def split: if_splits)
qed (use g in \<open>simp_all add: kctl_put_def\<close>)

text \<open>Reading and writing the controls of a card, one operation at a time.\<close>

datatype ctl_op = Read_Ctl nat elem_value | Write_Ctl nat elem_value

fun ctl_do :: "'d usb_bus \<Rightarrow> snd_usb_audio \<Rightarrow> ctl_op \<Rightarrow> kcontrol list \<times> 'd \<Rightarrow> kcontrol list \<times> 'd" where
  "ctl_do bus chip (Read_Ctl i u) (ks, d) =
     (if i < length ks then let (k, _, d', _) = kctl_get bus chip (ks ! i) u d in (ks[i := k], d') else (ks, d))"
| "ctl_do bus chip (Write_Ctl i u) (ks, d) =
     (if i < length ks then (case kctl_put bus chip (ks ! i) u d of None \<Rightarrow> (ks, d) | Some (k, d', _) \<Rightarrow> (ks[i := k], d')) else (ks, d))"

definition ctl_run :: "'d usb_bus \<Rightarrow> snd_usb_audio \<Rightarrow> ctl_op list \<Rightarrow> kcontrol list \<times> 'd \<Rightarrow> kcontrol list \<times> 'd" where
  "ctl_run bus chip ops s = fold (ctl_do bus chip) ops s"

definition kctl_registers :: "snd_usb_audio \<Rightarrow> kcontrol \<Rightarrow> address list" where
  "kctl_registers chip k = (if caching k then map (elem_address chip (kc_elem k)) [0..<el_count (kc_elem k)] else [])"

definition separate :: "snd_usb_audio \<Rightarrow> kcontrol list \<Rightarrow> bool" where
  "separate chip ks \<longleftrightarrow> distinct (concat (map (kctl_registers chip) ks))"

definition card_good :: "snd_usb_audio \<Rightarrow> kcontrol list \<Rightarrow> (address \<Rightarrow> u8 list) \<Rightarrow> bool" where
  "card_good chip ks regs \<longleftrightarrow> separate chip ks \<and> (\<forall>k \<in> set ks. kctl_good chip k regs)"

lemma concat_disjoint:
  "distinct (concat xss) \<Longrightarrow> i < length xss \<Longrightarrow> j < length xss \<Longrightarrow> i \<noteq> j \<Longrightarrow> set (xss ! i) \<inter> set (xss ! j) = {}"
proof (induction xss arbitrary: i j)
  case (Cons xs xss)
  then show ?case by (cases i; cases j) (fastforce simp: in_set_conv_nth)+
qed simp

lemma good_cong:
  "(\<And>a. a \<in> registers_of chip elem \<Longrightarrow> regs' a = regs a) \<Longrightarrow> good chip elem regs' = good chip elem regs"
  unfolding good_def coherent_def registers_of_def by (metis imageI lessThan_iff)

lemma set_kctl_registers: "set (kctl_registers chip k) = (if caching k then registers_of chip (kc_elem k) else {})"
  by (simp add: kctl_registers_def registers_of_def atLeast0LessThan)

lemma kctl_good_step:
  assumes st: "kctl_step chip k regs k' regs'" and g: "kctl_good chip k regs"
  shows "kctl_good chip k' regs'" "kctl_registers chip k' = kctl_registers chip k"
    "a \<notin> set (kctl_registers chip k) \<Longrightarrow> regs' a = regs a"
proof -
  show "a \<notin> set (kctl_registers chip k) \<Longrightarrow> regs' a = regs a"
    using st by (cases a) (auto simp: kctl_step_def set_kctl_registers accesses_def split: if_splits)
  have "kc_kind k' = kc_kind k" using st by (auto simp: kctl_step_def split: if_splits)
  then have kind: "caching k' = caching k" "kc_kind k' = kc_kind k" by (simp_all add: caching_def)
  then show "kctl_good chip k' regs'" "kctl_registers chip k' = kctl_registers chip k"
    using st g accesses_good accesses_fields
    by (auto simp: kctl_step_def kctl_good_def kctl_registers_def split: if_splits)
qed

lemma card_good_step:
  assumes cg: "card_good chip ks regs" and i: "i < length ks" and st: "kctl_step chip (ks ! i) regs k regs'"
  shows "card_good chip (ks[i := k]) regs'"
proof -
  have g: "kctl_good chip (ks ! i) regs" using cg i by (simp add: card_good_def)
  have regs: "map (kctl_registers chip) (ks[i := k]) = map (kctl_registers chip) ks"
    using kctl_good_step(2) [OF st g] i by (metis list_update_id map_update nth_map)
  have other: "kctl_good chip (ks ! j) regs'" if j: "j < length ks" "j \<noteq> i" for j
  proof -
    have "set (kctl_registers chip (ks ! i)) \<inter> set (kctl_registers chip (ks ! j)) = {}"
      using concat_disjoint [of "map (kctl_registers chip) ks" i j] cg i j by (simp add: card_good_def separate_def)
    then have "caching (ks ! j) \<Longrightarrow> a \<in> registers_of chip (kc_elem (ks ! j)) \<Longrightarrow> regs' a = regs a" for a
      using kctl_good_step(3) [OF st g, of a] by (auto simp: set_kctl_registers)
    then have "caching (ks ! j) \<Longrightarrow> good chip (kc_elem (ks ! j)) regs' = good chip (kc_elem (ks ! j)) regs"
      by (rule good_cong)
    then show ?thesis using cg j by (auto simp: card_good_def kctl_good_def)
  qed
  show ?thesis
    using cg regs other kctl_good_step(1) [OF st g] i
    by (auto simp: card_good_def separate_def in_set_conv_nth nth_list_update)
qed

lemma ctl_do_card_good:
  assumes rd: "register_device bus reg" and cg: "card_good chip ks (reg d)" and r: "ctl_do bus chip op (ks, d) = (ks', d')"
  shows "card_good chip ks' (reg d')"
proof (cases op)
  case (Read_Ctl i u)
  show ?thesis
  proof (cases "i < length ks")
    case True
    obtain k u' d1 r1 where g: "kctl_get bus chip (ks ! i) u d = (k, u', d1, r1)" by (cases "kctl_get bus chip (ks ! i) u d")
    have "kctl_good chip (ks ! i) (reg d)" using cg True by (simp add: card_good_def)
    from card_good_step [OF cg True kctl_get_step [OF rd this g]] show ?thesis using r Read_Ctl True g by simp
  qed (use cg r Read_Ctl in simp)
next
  case (Write_Ctl i u)
  show ?thesis
  proof (cases "i < length ks \<and> kctl_put bus chip (ks ! i) u d \<noteq> None")
    case True
    then obtain k d1 r1 where g: "kctl_put bus chip (ks ! i) u d = Some (k, d1, r1)" by auto
    have "kctl_good chip (ks ! i) (reg d)" using cg True by (simp add: card_good_def)
    from card_good_step [OF cg _ kctl_put_step [OF rd this g]] show ?thesis using r Write_Ctl True g by simp
  qed (use cg r Write_Ctl in \<open>auto split: if_splits option.splits\<close>)
qed

lemma ctl_run_card_good:
  "register_device bus reg \<Longrightarrow> card_good chip ks (reg d) \<Longrightarrow> ctl_run bus chip ops (ks, d) = (ks', d') \<Longrightarrow> card_good chip ks' (reg d')"
proof (induction ops arbitrary: ks d)
  case (Cons op ops)
  obtain ks1 d1 where "ctl_do bus chip op (ks, d) = (ks1, d1)" by (cases "ctl_do bus chip op (ks, d)")
  then show ?case using Cons.IH [of ks1 d1] Cons.prems ctl_do_card_good [OF Cons.prems(1,2)] by (simp add: ctl_run_def)
qed (simp add: ctl_run_def)

end
