(* ===== verification/Scarlett_Roundtrip.thy ===== *)
theory Scarlett_Roundtrip
  imports Scarlett_Laws
begin

text \<open>
  What is written to a control of a Scarlett interface is read from it, for the values the control
  announces: levels and options, from the cache and, with an empty cache, from the device. Values
  outside that range are not refused.
\<close>

section \<open>Writing and reading all channels\<close>

lemma write_channels_post:
  assumes rd: "register_device bus reg"
  shows "good chip elem (reg d) \<Longrightarrow> set cs \<subseteq> {..<el_count elem} \<Longrightarrow> distinct cs \<Longrightarrow>
    write_channels bus chip conv vals cs ch elem d = (elem', d', Inr ch') \<Longrightarrow>
    (\<forall>c \<in> set cs. is_cached elem' c \<and> el_cache_val elem' ! c = conv (vals ! c)) \<and>
    (\<forall>c. c \<notin> set cs \<longrightarrow> is_cached elem' c = is_cached elem c \<and> el_cache_val elem' ! c = el_cache_val elem ! c)"
proof (induction cs arbitrary: ch elem d)
  case (Cons c cs)
  obtain e1 d1 r1 where g: "get_ctl_value bus chip elem c d = (e1, d1, r1)" by (cases "get_ctl_value bus chip elem c d")
  obtain e2 d2 r2 where s: "set_ctl_value bus chip e1 c (conv (vals ! c)) d1 = (e2, d2, r2)"
    by (cases "set_ctl_value bus chip e1 c (conv (vals ! c)) d1")
  have ok: "elem_ok elem" "c < el_count elem" "c < 32" "c < length (el_cache_val elem)" and co: "coherent chip elem (reg d)"
    using Cons.prems(1,2) by (auto simp: good_def elem_ok_def)
  have a1: "accesses chip elem (reg d) e1 (reg d1)" by (rule get_ctl_value_accesses [OF rd Cons.prems(1) ok(2) g])
  note f1 = accesses_fields [OF a1] and gd1 = accesses_good [OF a1]
  have a2: "accesses chip e1 (reg d1) e2 (reg d2)"
    by (rule set_ctl_value_accesses [OF rd gd1 _ s]) (use ok f1 in simp)
  note f2 = accesses_fields [OF a2] and gd2 = accesses_good [OF a2]
  have t1: "touches c elem e1" and v1: "\<And>v. r1 = Inr v \<Longrightarrow> is_cached e1 c \<and> el_cache_val e1 ! c = v"
    using get_ctl_value_reg(3,4) [OF rd ok(1,2) co g] by blast+
  have e2: "e2 = (if isl r2 then e1 else put_cache c (conv (vals ! c)) e1)"
    by (rule set_ctl_value_reg(2) [OF rd _ s]) (use gd1 in \<open>simp add: good_def\<close>)
  have len1: "c < length (el_cache_val e1)" using gd1 ok f1(4) by (auto simp: good_def elem_ok_def)
  have same1: "is_cached e1 c' = is_cached elem c' \<and> el_cache_val e1 ! c' = el_cache_val elem ! c'" if "c' \<noteq> c" for c'
    using t1 that ok by (cases rule: touchesE) auto
  obtain oval where oval: "r1 = Inr oval" using Cons.prems(4) g by (cases r1) auto
  show ?case
  proof (cases "oval = conv (vals ! c)")
    case True
    then have "write_channels bus chip conv vals cs ch e1 d1 = (elem', d', Inr ch')" using Cons.prems(4) g oval by simp
    from Cons.IH [OF gd1 _ _ this] show ?thesis using Cons.prems(2,3) f1 same1 v1 [OF oval] True by auto
  next
    case False
    then obtain r where r2: "r2 = Inr r" and rec: "write_channels bus chip conv vals cs True e2 d2 = (elem', d', Inr ch')"
      using Cons.prems(4) g s oval by (cases r2) auto
    have "is_cached e2 c \<and> el_cache_val e2 ! c = conv (vals ! c)" using e2 r2 ok len1 by simp
    moreover have "is_cached e2 c' = is_cached elem c' \<and> el_cache_val e2 ! c' = el_cache_val elem ! c'" if "c' \<noteq> c" for c'
      using e2 r2 same1 [OF that] that ok by simp
    ultimately show ?thesis using Cons.IH [OF gd2 _ _ rec] Cons.prems(2,3) f1 f2 by auto
  qed
qed simp

lemma read_channels_cached:
  "\<forall>c \<in> set cs. is_cached elem c \<Longrightarrow>
     read_channels bus chip conv cs elem d = (elem, d, Inr (map (\<lambda>c. conv (el_cache_val elem ! c)) cs))"
  by (induction cs) (simp_all add: get_ctl_value_def)

lemma get_ctl_value_cold:
  assumes rd: "register_device bus reg" and ok: "elem_ok elem" "c < el_count elem" and co: "coherent chip elem (reg d)"
    and g: "get_ctl_value bus chip elem c d = (elem', d', Inr v)" and cold: "\<not> is_cached elem c"
  shows "v = ctl_value (read_len elem) (reg d (elem_address chip elem c))"
proof -
  obtain d1 buf r1 where u: "get_ctl_urb2 bus chip UAC2_CS_CUR (el_wValue elem + c) (el_index elem) [0, 0] (read_len elem) d = (d1, buf, r1)"
    by (cases "get_ctl_urb2 bus chip UAC2_CS_CUR (el_wValue elem + c) (el_index elem) [0, 0] (read_len elem) d")
  have rl: "0 < read_len elem" "read_len elem \<le> length [0 :: u8, 0]" "read_len elem \<in> {1, 2}" using read_len_le [OF ok(1)] by auto
  have len: "read_len elem \<le> length (reg d (elem_address chip elem c))" by (rule coherentD(1) [OF co ok(2)])
  have "\<not> isl r1" "v = ctl_value (read_len elem) buf" using g u cold by (cases r1; simp add: get_ctl_value_def Let_def)+
  then show ?thesis
    using get_ctl_urb2_reg(2) [OF rd rl(1,2) u] len ctl_value_take [OF rl(3), of buf]
      ctl_value_take [OF rl(3), of "reg d (elem_address chip elem c)"] by simp
qed

lemma read_channels_cold:
  assumes rd: "register_device bus reg"
  shows "good chip elem (reg d) \<Longrightarrow> set cs \<subseteq> {..<el_count elem} \<Longrightarrow> distinct cs \<Longrightarrow> \<forall>c \<in> set cs. \<not> is_cached elem c \<Longrightarrow>
    read_channels bus chip conv cs elem d = (elem', d', Inr ws) \<Longrightarrow>
    ws = map (\<lambda>c. conv (ctl_value (read_len elem) (reg d (elem_address chip elem c)))) cs"
proof (induction cs arbitrary: elem d elem' d' ws)
  case (Cons c cs)
  obtain e1 d1 r1 where g: "get_ctl_value bus chip elem c d = (e1, d1, r1)" by (cases "get_ctl_value bus chip elem c d")
  then obtain v where v: "r1 = Inr v" using Cons.prems(5) by (cases r1) auto
  have ok: "elem_ok elem" "c < el_count elem" "c < 32" and co: "coherent chip elem (reg d)"
    using Cons.prems(1,2) by (auto simp: good_def elem_ok_def)
  have a1: "accesses chip elem (reg d) e1 (reg d1)" by (rule get_ctl_value_accesses [OF rd Cons.prems(1) ok(2) g])
  have t1: "touches c elem e1" and r1: "reg d1 = reg d" using get_ctl_value_reg(1,3) [OF rd ok(1,2) co g] by blast+
  have same: "is_cached e1 c' = is_cached elem c'" if "c' \<noteq> c" for c' using t1 that ok by (cases rule: touchesE) auto
  have v': "v = ctl_value (read_len elem) (reg d (elem_address chip elem c))"
    by (rule get_ctl_value_cold [OF rd ok(1,2) co g [unfolded v]]) (use Cons.prems(4) in simp)
  obtain e2 d2 vs where rec: "read_channels bus chip conv cs e1 d1 = (e2, d2, Inr vs)" "ws = conv v # vs"
    using Cons.prems(5) g v by (auto split: prod.splits sum.splits)
  have "\<forall>c' \<in> set cs. \<not> is_cached e1 c'" using same Cons.prems(3,4) by (metis distinct.simps(2) list.set_intros(2))
  from Cons.IH [OF accesses_good [OF a1] _ _ this rec(1)] show ?case
    using Cons.prems(2,3) accesses_fields [OF a1] r1 rec(2) v' by simp
qed simp

text \<open>An element whose cache was emptied.\<close>

abbreviation emptied :: "mixer_elem \<Rightarrow> mixer_elem" where
  "emptied elem \<equiv> elem\<lparr>el_cached := 0\<rparr>"

lemma emptied_simps [simp]: "\<not> is_cached (emptied elem) c" "read_len (emptied elem) = read_len elem"
  by (simp_all add: is_cached_def read_len_def)

lemma good_emptied: "good chip elem regs \<Longrightarrow> good chip (emptied elem) regs"
  by (auto simp: good_def elem_ok_def own_registers_def coherent_def)

lemma coherent_value:
  assumes "good chip elem regs" "c < el_count elem" "is_cached elem c"
  shows "ctl_value (read_len elem) (regs (elem_address chip elem c)) = ctl_value (read_len elem) (ctl_bytes (read_len elem) (el_cache_val elem ! c))"
proof -
  have "read_len elem \<in> {1, 2}" using assms(1) read_len_le by (auto simp: good_def)
  then show ?thesis using coherentD(2) [OF _ assms(2,3), of chip regs] assms(1)
    by (simp only: good_def) (metis ctl_value_take)
qed

text \<open>After a successful write, the cache is read, and the device if the cache is emptied.\<close>

lemma write_then_read:
  assumes rd: "register_device bus reg" and gd: "good chip elem (reg d)"
    and w: "write_channels bus chip conv vals [0..<el_count elem] False elem d = (elem', d', Inr ch)"
  shows "read_channels bus chip bk [0..<el_count elem'] elem' d' = (elem', d', Inr (map (\<lambda>c. bk (conv (vals ! c))) [0..<el_count elem]))"
    and "read_channels bus chip bk [0..<el_count elem'] (emptied elem') d' = (e2, d2, Inr ws) \<Longrightarrow>
      ws = map (\<lambda>c. bk (ctl_value (read_len elem) (ctl_bytes (read_len elem) (conv (vals ! c))))) [0..<el_count elem]"
    and "\<forall>c < el_count elem. take (read_len elem) (reg d' (elem_address chip elem c)) = ctl_bytes (read_len elem) (conv (vals ! c))"
proof -
  have sub: "set [0..<el_count elem] \<subseteq> {..<el_count elem}" by auto
  have acc: "accesses chip elem (reg d) elem' (reg d')" by (rule write_channels_accesses [OF rd gd sub w])
  note f = accesses_fields [OF acc] and gd' = accesses_good [OF acc]
  have post: "\<forall>c < el_count elem. is_cached elem' c \<and> el_cache_val elem' ! c = conv (vals ! c)"
    using write_channels_post [OF rd gd sub _ w] by simp
  show "read_channels bus chip bk [0..<el_count elem'] elem' d' = (elem', d', Inr (map (\<lambda>c. bk (conv (vals ! c))) [0..<el_count elem]))"
    using read_channels_cached [of "[0..<el_count elem']" elem' bus chip bk d'] post f by simp
  show "\<forall>c < el_count elem. take (read_len elem) (reg d' (elem_address chip elem c)) = ctl_bytes (read_len elem) (conv (vals ! c))"
    using coherentD(2) [of chip elem' "reg d'"] gd' post f by (simp add: good_def)
  show "read_channels bus chip bk [0..<el_count elem'] (emptied elem') d' = (e2, d2, Inr ws) \<Longrightarrow>
      ws = map (\<lambda>c. bk (ctl_value (read_len elem) (ctl_bytes (read_len elem) (conv (vals ! c))))) [0..<el_count elem]"
  proof -
    assume r: "read_channels bus chip bk [0..<el_count elem'] (emptied elem') d' = (e2, d2, Inr ws)"
    have same: "ctl_value (read_len elem) (reg d' (elem_address chip elem c)) = ctl_value (read_len elem) (ctl_bytes (read_len elem) (conv (vals ! c)))"
      if "c < el_count elem" for c
      using coherent_value [OF gd', of c] post f that by simp
    have "ws = map (\<lambda>c. bk (ctl_value (read_len elem) (reg d' (elem_address chip elem c)))) [0..<el_count elem]"
      using read_channels_cold [OF rd good_emptied [OF gd'] _ _ _ r] f by (simp add: atLeast0LessThan)
    then show ?thesis using same by simp
  qed
qed

section \<open>Levels\<close>

text \<open>The value of a level that the control announces comes back.\<close>

lemma level_value_in_range: "0 \<le> v \<Longrightarrow> v \<le> 255 \<Longrightarrow> level_value v = (v - 128) * 256"
  by (simp add: level_value_def to_int_def signed_take_bit_int_eq_self)

lemma level_of_value:
  assumes "-128 \<le> m" "0 \<le> v" "v \<le> m + 128" "v \<le> 255"
  shows "level_of m (level_value v) = v"
proof -
  have "cdiv ((v - 128) * 256) 256 = v - 128" by (simp add: cdiv_def flip: mult_minus_left)
  then show ?thesis using assms by (simp add: level_of_def level_value_in_range clamp_def)
qed

lemma level_bytes:
  assumes "0 \<le> v" "v \<le> 255"
  shows "ctl_value 2 (ctl_bytes 2 (level_value v)) = level_value v"
  by (rule ctl_value_bytes) (use assms level_value_in_range [OF assms] in auto)

lemma map_nth_take: "n \<le> length xs \<Longrightarrow> map ((!) xs) [0..<n] = take n xs"
  by (rule nth_equalityI) auto


text \<open>A device of the simplest kind: it is its registers.\<close>

definition plain_bus :: "(address \<Rightarrow> u8 list) usb_bus" where
  "plain_bus = \<lparr>ub_autopm_get = \<lambda>d. (d, Inr ()), ub_autopm_put = \<lambda>d. d, ub_kmemdup = \<lambda>_. True,
     ub_control_msg = \<lambda>s data d.
       if is_write s then (d(urb_address s := data), data, Inr ())
       else (d, take (length data) (d (urb_address s) @ replicate (length data) 0), Inr ())\<rparr>"

lemma plain_bus_registers: "register_device plain_bus (\<lambda>d. d)"
  by (auto simp: register_device_def plain_bus_def is_write_def split: if_splits)

definition plain_chip :: snd_usb_audio where
  "plain_chip = \<lparr>ch_usb_id = 0x12358004, ch_probing = False, ch_shutdown = False, ch_ctrl_intf = 0\<rparr>"

text \<open>A stereo master volume.\<close>

definition volume_elem :: mixer_elem where
  "volume_elem = \<lparr>el_wValue = 0x201, el_index = 0x0a, el_val_len = 2, el_count = 2, el_opt = None, el_cached = 0,
     el_cache_val = replicate 16 0\<rparr>"

lemma volume_good: "good plain_chip volume_elem (\<lambda>_. [0, 0])"
proof -
  have "inj_on (elem_address plain_chip volume_elem) {..<2}"
    by (auto simp: inj_on_def address_of_def volume_elem_def less_2_cases_iff)
  then show ?thesis
    by (auto simp: good_def elem_ok_def own_registers_def coherent_def is_cached_def read_len_def volume_elem_def)
qed

lemma volume_read_len: "read_len volume_elem = 2"
  by (simp add: read_len_def volume_elem_def)



text \<open>
  Levels above the announced maximum are not refused, they wrap around: writing 300 to a control
  of one channel stores a gain of -84 dB in the device, and reading the control returns its maximum.
\<close>

theorem scarlett_level_wraps:
  assumes rd: "register_device bus reg" and gd: "good chip elem (reg d)" and len: "read_len elem = 2" "el_count elem = 1"
    and m: "m \<le> 127" and w: "scarlett_ctl_put bus chip [300] elem d = (elem', d', Inr ch)"
  shows "ctl_value 2 (reg d' (elem_address chip elem 0)) = -84 * 256 \<and>
    scarlett_ctl_get bus chip m elem' d' = (elem', d', Inr [m + 128])"
proof -
  note laws = write_then_read [OF rd gd w [unfolded scarlett_ctl_put_def]]
  have v: "level_value 300 = 44032" by (simp add: level_value_def to_int_def signed_take_bit_int_eq_self)
  have "take 2 (reg d' (elem_address chip elem 0)) = ctl_bytes 2 44032" using laws(3) len v by simp
  moreover have "ctl_value 2 (ctl_bytes 2 44032) = -84 * 256" by (simp add: ctl_value_def ctl_bytes_def)
  ultimately have "ctl_value 2 (reg d' (elem_address chip elem 0)) = -84 * 256"
    using ctl_value_take [of 2 "reg d' (elem_address chip elem 0)"] by simp
  moreover have "level_of m 44032 = m + 128" using m by (simp add: level_of_def cdiv_def clamp_def)
  ultimately show ?thesis using laws(1) [of "level_of m"] len v by (simp add: scarlett_ctl_get_def)
qed

definition gain_elem :: mixer_elem where
  "gain_elem = volume_elem\<lparr>el_count := 1\<rparr>"

lemma gain_good: "good plain_chip gain_elem (\<lambda>_. [0, 0])"
  by (auto simp: good_def elem_ok_def own_registers_def coherent_def is_cached_def read_len_def gain_elem_def volume_elem_def inj_on_def)

theorem scarlett_level_wraps_witness:
  "\<exists>elem' d'. ctl_value 2 (d' (elem_address plain_chip gain_elem 0)) = -84 * 256 \<and>
     scarlett_ctl_get plain_bus plain_chip 6 elem' d' = (elem', d', Inr [134])"
proof -
  let ?put = "scarlett_ctl_put plain_bus plain_chip [300] gain_elem (\<lambda>_. [0, 0])"
  obtain elem' d' r where p: "?put = (elem', d', r)" by (cases ?put)
  have "\<not> isl (snd (snd ?put))" by code_simp
  then obtain ch where r: "r = Inr ch" using p by (cases r) auto
  have "read_len gain_elem = 2" "el_count gain_elem = 1" by (simp_all add: read_len_def gain_elem_def volume_elem_def)
  from scarlett_level_wraps [OF plain_bus_registers gain_good this _ p [unfolded r], of 6] show ?thesis by auto
qed

section \<open>Options\<close>

text \<open>The option written comes back from the cache, and from the one or two bytes of the register.\<close>

definition opt_ok :: "enum_info \<Rightarrow> bool" where
  "opt_ok opt \<longleftrightarrow> -1 \<le> en_start opt \<and> en_start opt \<le> 1 \<and> en_len opt < 255"

lemma item_of_start: "opt_ok opt \<Longrightarrow> i < en_len opt \<Longrightarrow> item_of opt (int i + en_start opt) = int i"
  by (auto simp: item_of_def opt_ok_def clamp_def)

lemma item_of_byte:
  assumes "opt_ok opt" "i < en_len opt"
  shows "item_of opt ((int i + en_start opt) mod 256) = int i"
proof (cases "int i + en_start opt = -1")
  case False
  then have "(int i + en_start opt) mod 256 = int i + en_start opt" using assms by (auto simp: opt_ok_def)
  then show ?thesis using item_of_start [OF assms] by simp
next
  case True
  then have "i = 0" "en_start opt = -1" using assms by (auto simp: opt_ok_def)
  then show ?thesis using assms by (simp add: item_of_def opt_ok_def)
qed

lemma item_of_register:
  assumes "opt_ok opt" "i < en_len opt" "n \<in> {1, 2}"
  shows "item_of opt (ctl_value n (ctl_bytes n (int i + en_start opt))) = int i"
proof (cases "n = 1")
  case False
  have "ctl_value 2 (ctl_bytes 2 (int i + en_start opt)) = int i + en_start opt"
    by (rule ctl_value_bytes) (use assms in \<open>auto simp: opt_ok_def\<close>)
  then show ?thesis using False assms item_of_start [OF assms(1,2)] by simp
qed (simp add: ctl_value_byte item_of_byte [OF assms(1,2)] del: One_nat_def)

lemma sint_small_item:
  assumes "unat (i :: u32) < 255"
  shows "sint i = int (unat i)"
  using assms by (simp add: sint_uint uint_int_unat signed_take_bit_int_eq_self)

lemma enum_put_post:
  assumes rd: "register_device bus reg" and gd: "good chip elem (reg d)" and n: "0 < el_count elem"
    and p: "scarlett_ctl_enum_put bus chip item elem d = (elem', d', Inr ch)"
    and v: "to_int (sint item + en_start (opt_of elem)) = v"
  shows "accesses chip elem (reg d) elem' (reg d')" "is_cached elem' 0" "el_cache_val elem' ! 0 = v"
proof -
  obtain e1 d1 r1 where g: "get_ctl_value bus chip elem 0 d = (e1, d1, r1)" by (cases "get_ctl_value bus chip elem 0 d")
  obtain e2 d2 r2 where s: "set_ctl_value bus chip e1 0 v d1 = (e2, d2, r2)" by (cases "set_ctl_value bus chip e1 0 v d1")
  have ok: "elem_ok elem" and co: "coherent chip elem (reg d)" using gd by (auto simp: good_def)
  have a1: "accesses chip elem (reg d) e1 (reg d1)" by (rule get_ctl_value_accesses [OF rd gd n g])
  note f1 = accesses_fields [OF a1] and gd1 = accesses_good [OF a1]
  have a2: "accesses chip e1 (reg d1) e2 (reg d2)" by (rule set_ctl_value_accesses [OF rd gd1 _ s]) (use n f1 in simp)
  have e2: "e2 = (if isl r2 then e1 else put_cache 0 v e1)"
    by (rule set_ctl_value_reg(2) [OF rd _ s]) (use gd1 in \<open>simp add: good_def\<close>)
  have len: "0 < length (el_cache_val e1)" using gd1 by (auto simp: good_def elem_ok_def)
  have c1: "\<And>w. r1 = Inr w \<Longrightarrow> is_cached e1 0 \<and> el_cache_val e1 ! 0 = w"
    using get_ctl_value_reg(4) [OF rd ok n co g] by blast
  obtain w where r1: "r1 = Inr w" using p g by (cases r1) (auto simp: scarlett_ctl_enum_put_def)
  show "accesses chip elem (reg d) elem' (reg d')"
    using p g s r1 v a1 accesses_trans [OF a1 a2]
    by (cases r2) (auto simp: scarlett_ctl_enum_put_def Let_def split: if_splits)
  show "is_cached elem' 0" "el_cache_val elem' ! 0 = v"
    using p g s r1 v c1 [OF r1] e2 len
    by (cases r2; auto simp: scarlett_ctl_enum_put_def Let_def split: if_splits)+
qed

text \<open>
  Options are kept: after a successful write of one of the items of a control, reading it returns
  that item from the cache, and with an empty cache a successful read of the device returns it too,
  the item ''Off'' included, which is written as -1 and read back as 255.
\<close>

theorem scarlett_enum_roundtrip:
  assumes rd: "register_device bus reg" and gd: "good chip elem (reg d)" and n: "0 < el_count elem"
    and opt: "opt_ok (opt_of elem)" "unat item < en_len (opt_of elem)"
    and p: "scarlett_ctl_enum_put bus chip item elem d = (elem', d', Inr ch)"
  shows "scarlett_ctl_enum_get bus chip elem' d' = (elem', d', Inr item) \<and>
    (\<forall>e2 d2 i. scarlett_ctl_enum_get bus chip (emptied elem') d' = (e2, d2, Inr i) \<longrightarrow> i = item)"
proof -
  let ?v = "int (unat item) + en_start (opt_of elem)"
  have "sint item = int (unat item)" using opt by (intro sint_small_item) (auto simp: opt_ok_def)
  then have v: "to_int (sint item + en_start (opt_of elem)) = ?v"
    using opt by (auto simp: to_int_def opt_ok_def intro!: signed_take_bit_int_eq_self)
  note post = enum_put_post [OF rd gd n p v]
  note f = accesses_fields [OF post(1)] and gd' = accesses_good [OF post(1)]
  have rl: "read_len elem \<in> {1, 2}" using gd read_len_le by (auto simp: good_def)
  have "i = item" if g: "scarlett_ctl_enum_get bus chip (emptied elem') d' = (e2, d2, Inr i)" for e2 d2 i
  proof -
    obtain w where gw: "get_ctl_value bus chip (emptied elem') 0 d' = (e2, d2, Inr w)" and i: "i = word_of_int (item_of (opt_of elem') w)"
      using g by (auto simp: scarlett_ctl_enum_get_def split: prod.splits sum.splits)
    have "w = ctl_value (read_len elem') (reg d' (elem_address chip elem' 0))"
      using get_ctl_value_cold [OF rd _ _ _ gw] good_emptied [OF gd'] n f by (simp add: good_def)
    also have "\<dots> = ctl_value (read_len elem') (ctl_bytes (read_len elem') ?v)"
      using coherent_value [OF gd', of 0] n f post(2,3) by simp
    finally show ?thesis using i f item_of_register [OF opt rl] by simp
  qed
  then show ?thesis
    using post(2,3) f item_of_start [OF opt] by (auto simp: scarlett_ctl_enum_get_def get_ctl_value_def)
qed

text \<open>An output route with three sources.\<close>

definition route_elem :: mixer_elem where
  "route_elem = \<lparr>el_wValue = 0, el_index = 0x33, el_val_len = 2, el_count = 1,
     el_opt = Some \<lparr>en_start = -1, en_len = 3, en_texts = [''Off'', ''PCM 1'', ''PCM 2'']\<rparr>,
     el_cached = 0, el_cache_val = replicate 16 0\<rparr>"

theorem scarlett_enum_roundtrip_witness:
  "\<exists>elem' d'. scarlett_ctl_enum_get plain_bus plain_chip elem' d' = (elem', d', Inr 0) \<and>
     d' (elem_address plain_chip route_elem 0) = [255, 255]"
proof -
  let ?put = "scarlett_ctl_enum_put plain_bus plain_chip 0 route_elem (\<lambda>_. [0, 0])"
  obtain elem' d' r where p: "?put = (elem', d', r)" by (cases ?put)
  have "\<not> isl (snd (snd ?put)) \<and> fst (snd ?put) (elem_address plain_chip route_elem 0) = [255, 255]" by code_simp
  then obtain ch where r: "r = Inr ch" and w: "d' (elem_address plain_chip route_elem 0) = [255, 255]" using p by (cases r) auto
  have g: "good plain_chip route_elem (\<lambda>_. [0, 0])"
    by (auto simp: good_def elem_ok_def own_registers_def coherent_def is_cached_def read_len_def route_elem_def inj_on_def)
  have "0 < el_count route_elem" "opt_ok (opt_of route_elem)" "unat (0 :: u32) < en_len (opt_of route_elem)"
    by (simp_all add: route_elem_def opt_ok_def)
  from scarlett_enum_roundtrip [OF plain_bus_registers g this p [unfolded r]] show ?thesis using w by auto
qed

end
