(* ===== verification/Scarlett_Plan.thy ===== *)
theory Scarlett_Plan
  imports Scarlett_Roundtrip
begin

text \<open>
  What \<open>scarlett_mixer_controls\<close> leaves behind. The creation of the controls is the execution of a plan,
  a list of steps that create or initialize a control; the registers written and the registers of the
  controls follow from the plan.
\<close>

section \<open>The plan\<close>

datatype plan_step = New ctl_kind nat nat nat nat nat string "enum_info option" | Init int

fun do_step :: "'d card \<Rightarrow> plan_step \<Rightarrow> 'd creation" where
  "do_step cd (New kind index offset num val_len count name opt) = add_new_ctl cd kind index offset num val_len count name opt"
| "do_step cd (Init v) = init_ctl cd v"

abbreviation run_plan :: "'d card \<Rightarrow> plan_step list \<Rightarrow> 'd creation" where
  "run_plan cd p \<equiv> in_order (map (do_step cd) p)"

definition level_plan :: "nat \<Rightarrow> nat \<Rightarrow> nat \<Rightarrow> nat \<Rightarrow> string \<Rightarrow> int \<Rightarrow> plan_step list" where
  "level_plan index off no count name v = [New (LEVEL 6) index off no 2 count name None, Init v]"

definition output_plan :: "device_info \<Rightarrow> nat \<Rightarrow> string \<Rightarrow> plan_step list" where
  "output_plan info index name =
     [New SWITCH 0x0a 0x01 (2 * index + 1) 2 2 (snprintf 45 (''Master '' @ decimal (index + 1) @ '' ('' @ name @ '') Playback Switch'')) None] @
     level_plan 0x0a 0x02 (2 * index + 1) 2 (snprintf 45 (''Master '' @ decimal (index + 1) @ '' ('' @ name @ '') Playback Volume'')) 0 @
     [New ENUM 0x33 0x00 (2 * index) 2 1 (snprintf 45 (''Master '' @ decimal (index + 1) @ ''L ('' @ name @ '') Source Playback Enum'')) (Some (di_opt_master info)),
      Init (di_mix_start info),
      New ENUM 0x33 0x00 (2 * index + 1) 2 1 (snprintf 45 (''Master '' @ decimal (index + 1) @ ''R ('' @ name @ '') Source Playback Enum'')) (Some (di_opt_master info)),
      Init (di_mix_start info + 1)]"

definition impedance_plan :: "nat \<Rightarrow> plan_step list" where
  "impedance_plan n = [New ENUM 0x01 0x09 n 2 1 (''Input '' @ decimal n @ '' Impedance Switch'') (Some opt_impedance)]"

definition pad_plan :: "nat \<Rightarrow> plan_step list" where
  "pad_plan n = [New ENUM 0x01 0x0b n 2 1 (''Input '' @ decimal n @ '' Pad Switch'') (Some opt_pad)]"

definition outputs_plan :: "device_info \<Rightarrow> plan_step list" where
  "outputs_plan info = (case di_controls_fn info of
     S8I6 \<Rightarrow> output_plan info 0 ''Monitor'' @ output_plan info 1 ''Headphone'' @ output_plan info 2 ''SPDIF'' @
       impedance_plan 1 @ impedance_plan 2 @ pad_plan 3 @ pad_plan 4
   | S18I6 \<Rightarrow> output_plan info 0 ''Monitor'' @ output_plan info 1 ''Headphone'' @ output_plan info 2 ''SPDIF'' @
       impedance_plan 1 @ impedance_plan 2
   | S18I8 \<Rightarrow> output_plan info 0 ''Monitor'' @ output_plan info 1 ''Headphone 1'' @ output_plan info 2 ''Headphone 2'' @
       output_plan info 3 ''SPDIF'' @ impedance_plan 1 @ pad_plan 1 @ impedance_plan 2 @ pad_plan 2 @ pad_plan 3 @ pad_plan 4
   | S18I20 \<Rightarrow> output_plan info 0 ''Monitor'' @ output_plan info 1 ''Line 3/4'' @ output_plan info 2 ''Line 5/6'' @
       output_plan info 3 ''Line 7/8'' @ output_plan info 4 ''Line 9/10'' @ output_plan info 5 ''SPDIF'' @
       output_plan info 6 ''ADAT 1/2'' @ output_plan info 7 ''ADAT 3/4'' @ output_plan info 8 ''ADAT 5/6'' @
       output_plan info 9 ''ADAT 7/8'')"

definition cell_plan :: "device_info \<Rightarrow> nat \<Rightarrow> nat \<Rightarrow> plan_step list" where
  "cell_plan info i o' = level_plan 0x3c 0x00 (push_bit 3 i + (o' AND 7)) 1
       (''Matrix '' @ decimal2 (i + 1) @ '' Mix '' @ [letter o'] @ '' Playback Volume'') (-32768) @
     (if o' = 0 \<and> di_matrix_mux_init info ! i = di_pcm_start info \<or> o' = 1 \<and> di_matrix_mux_init info ! i = di_pcm_start info + 1
      then [Init 0] else [])"

definition row_plan :: "device_info \<Rightarrow> nat \<Rightarrow> plan_step list" where
  "row_plan info i =
     [New ENUM 0x32 0x06 i 2 1 (snprintf 32 (''Matrix '' @ decimal2 (i + 1) @ '' Input Playback Route'')) (Some (di_opt_matrix info)),
      Init (di_matrix_mux_init info ! i)] @ concat (map (cell_plan info i) [0..<di_matrix_out info])"

definition capture_plan :: "device_info \<Rightarrow> nat \<Rightarrow> plan_step list" where
  "capture_plan info i =
     [New ENUM 0x34 0x00 i 2 1 (snprintf 32 (''Input Source '' @ decimal2 (i + 1) @ '' Capture Route'')) (Some (di_opt_master info)),
      Init (di_analog_start info + int i)]"

definition mixer_plan :: "device_info \<Rightarrow> plan_step list" where
  "mixer_plan info =
     [New SWITCH 0x0a 0x01 0 2 1 ''Master Playback Switch'' None] @ level_plan 0x0a 0x02 0 1 ''Master Playback Volume'' 0 @
     outputs_plan info @ concat (map (row_plan info) [0..<di_matrix_in info]) @
     concat (map (capture_plan info) [0..<di_input_len info]) @
     [New ENUM 0x28 0x01 0 1 1 ''Sample Clock Source'' (Some opt_clock),
      New SYNC 0x3c 0x00 2 1 1 ''Sample Clock Sync Status'' (Some opt_sync),
      New SAVE 0x3c 0x00 0x5a 1 1 ''Save To HW'' (Some opt_save)]"

text \<open>The lists of functions of the setup code run plans.\<close>

lemma in_order_append:
  "in_order (fs @ gs) s = (case in_order fs s of (s1, Inl e) \<Rightarrow> (s1, Inl e) | (s1, Inr _) \<Rightarrow> in_order gs s1)"
  by (induction fs arbitrary: s) (auto split: prod.splits sum.splits)

lemma in_order_flat: "in_order (in_order fs # gs) = in_order (fs @ gs)"
  by (rule ext) (simp add: in_order_append)

lemma in_order_one: "in_order [f] = f"
  by (rule ext) (auto split: prod.splits sum.splits)

lemma runs_nil: "in_order [] = run_plan cd []"
  by simp

lemma runs_step: "in_order fs = run_plan cd p \<Longrightarrow> in_order (do_step cd s # fs) = run_plan cd (s # p)"
  by (rule ext) (simp split: prod.splits sum.splits)

lemma runs_plan: "in_order fs = run_plan cd p \<Longrightarrow> in_order (run_plan cd q # fs) = run_plan cd (q @ p)"
  by (rule ext) (simp add: in_order_flat in_order_append split: prod.splits sum.splits)

lemma runs_last: "in_order [run_plan cd q] = run_plan cd q"
  by (rule in_order_one)

lemma runs_map:
  assumes "\<And>x. F x = run_plan cd (G x)"
  shows "in_order (map F xs) = run_plan cd (concat (map G xs))"
proof (induction xs)
  case (Cons x xs)
  show ?case using runs_plan [OF Cons.IH, of "G x"] by (simp only: list.map concat.simps assms)
qed (simp only: list.map concat.simps)

lemmas runs = runs_last runs_nil runs_step runs_plan

lemma run_plan_simps:
  "CTL_SWITCH cd cmd off no count name = do_step cd (New SWITCH cmd off no 2 count name None)"
  "CTL_ENUM cd cmd off no name opt = do_step cd (New ENUM cmd off no 2 1 name (Some opt))"
  "CTL_MASTER cd cmd off no count name = run_plan cd (level_plan cmd off no count name 0)"
  "CTL_MIXER cd cmd off no count name = run_plan cd (level_plan cmd off no count name (-32768))"
  by (simp_all add: CTL_SWITCH_def CTL_ENUM_def CTL_MASTER_def CTL_MIXER_def level_plan_def)

lemma init_step: "init_ctl cd v = do_step cd (Init v)"
  by simp

lemma new_step: "add_new_ctl cd kind index offset num val_len count name opt = do_step cd (New kind index offset num val_len count name opt)"
  by simp

lemma add_output_ctls_plan: "add_output_ctls cd index name info = run_plan cd (output_plan info index name)"
  unfolding add_output_ctls_def output_plan_def run_plan_simps init_step append_Cons append_Nil
  by (intro runs)

lemma impedance_run: "impedance cd n = run_plan cd (impedance_plan n)"
  unfolding impedance_def impedance_plan_def run_plan_simps by (rule ext) (auto split: prod.splits sum.splits)

lemma pad_run: "pad cd n = run_plan cd (pad_plan n)"
  unfolding pad_def pad_plan_def run_plan_simps by (rule ext) (auto split: prod.splits sum.splits)

lemma controls_fn_plan: "controls_fn cd info = run_plan cd (outputs_plan info)"
  unfolding controls_fn_def outputs_plan_def scarlet_s8i6_controls_def scarlet_s18i6_controls_def
    scarlet_s18i8_controls_def scarlet_s18i20_controls_def add_output_ctls_plan impedance_run pad_run
  by (cases "di_controls_fn info") (simp_all only: scarlett_model.case, (intro runs)+)

lemma matrix_cell_plan: "matrix_cell cd info i o' = run_plan cd (cell_plan info i o')"
  unfolding matrix_cell_def cell_plan_def run_plan_simps init_step
  by (intro runs_plan) (auto simp: in_order_one simp del: in_order.simps(2))

lemma matrix_row_plan: "matrix_row cd info i = run_plan cd (row_plan info i)"
  unfolding matrix_row_def row_plan_def run_plan_simps init_step append_Cons append_Nil
  by (intro runs_step runs_map matrix_cell_plan)

lemma capture_route_plan: "capture_route cd info i = run_plan cd (capture_plan info i)"
  unfolding capture_route_def capture_plan_def run_plan_simps init_step by (intro runs)

lemma scarlett_mixer_controls_plan:
  assumes "device_of (ch_usb_id (cd_chip cd)) = Some info"
  shows "scarlett_mixer_controls cd = run_plan cd (mixer_plan info)"
proof -
  have rows: "in_order (map (matrix_row cd info) xs) = run_plan cd (concat (map (row_plan info) xs))" for xs
    by (intro runs_map matrix_row_plan)
  have caps: "in_order (map (capture_route cd info) xs) = run_plan cd (concat (map (capture_plan info) xs))" for xs
    by (intro runs_map capture_route_plan)
  have rest: "in_order [controls_fn cd info, in_order (map (matrix_row cd info) [0..<di_matrix_in info]),
      in_order (map (capture_route cd info) [0..<di_input_len info]),
      add_new_ctl cd ENUM 0x28 0x01 0 1 1 ''Sample Clock Source'' (Some opt_clock),
      add_new_ctl cd SYNC 0x3c 0x00 2 1 1 ''Sample Clock Sync Status'' (Some opt_sync),
      add_new_ctl cd SAVE 0x3c 0x00 0x5a 1 1 ''Save To HW'' (Some opt_save)] =
    run_plan cd (outputs_plan info @ concat (map (row_plan info) [0..<di_matrix_in info]) @
      concat (map (capture_plan info) [0..<di_input_len info]) @
     [New ENUM 0x28 0x01 0 1 1 ''Sample Clock Source'' (Some opt_clock),
      New SYNC 0x3c 0x00 2 1 1 ''Sample Clock Sync Status'' (Some opt_sync),
      New SAVE 0x3c 0x00 0x5a 1 1 ''Save To HW'' (Some opt_save)])"
    unfolding controls_fn_plan rows caps new_step by (intro runs)
  show ?thesis
    unfolding scarlett_mixer_controls_def mixer_plan_def run_plan_simps assms option.case rest append_Cons append_Nil
    by (intro runs)
qed


section \<open>What a plan writes and creates\<close>

definition new_elem :: "nat \<Rightarrow> nat \<Rightarrow> nat \<Rightarrow> nat \<Rightarrow> nat \<Rightarrow> enum_info option \<Rightarrow> mixer_elem" where
  "new_elem index offset num val_len count opt = \<lparr>el_wValue = push_bit 8 offset OR num, el_index = index, el_val_len = val_len,
     el_count = count, el_opt = opt, el_cached = 0, el_cache_val = replicate MAX_CHANNELS 0\<rparr>"

text \<open>The writes to registers, by unit and register number, given the element that was created last.\<close>

fun plan_writes :: "mixer_elem option \<Rightarrow> plan_step list \<Rightarrow> ((nat \<times> nat) \<times> u8 list) list" where
  "plan_writes cur [] = []"
| "plan_writes cur (New kind index offset num val_len count name opt # p) = plan_writes (Some (new_elem index offset num val_len count opt)) p"
| "plan_writes cur (Init v # p) = (case cur of None \<Rightarrow> [] | Some e \<Rightarrow>
     map (\<lambda>c. ((el_index e, el_wValue e + c), ctl_bytes (el_val_len e) v)) [0..<el_count e]) @ plan_writes cur p"

definition apply_writes :: "snd_usb_audio \<Rightarrow> ((nat \<times> nat) \<times> u8 list) list \<Rightarrow> (address \<Rightarrow> u8 list) \<Rightarrow> (address \<Rightarrow> u8 list)" where
  "apply_writes chip ws regs = fold (\<lambda>((i, w), bs) f. f(address_of chip i w := bs)) ws regs"

fun plan_controls :: "plan_step list \<Rightarrow> kcontrol list" where
  "plan_controls [] = []"
| "plan_controls (New kind index offset num val_len count name opt # p) =
     \<lparr>kc_kind = kind, kc_name = snprintf 44 name, kc_elem = new_elem index offset num val_len count opt\<rparr> # plan_controls p"
| "plan_controls (Init v # p) = plan_controls p"

fun step_ok :: "plan_step \<Rightarrow> bool" where
  "step_ok (New kind index offset num val_len count name opt) \<longleftrightarrow> val_len \<in> {1, 2} \<and> count \<le> MAX_CHANNELS \<and> (kind = ENUM \<longrightarrow> 0 < count)"
| "step_ok (Init v) \<longleftrightarrow> True"

text \<open>A control with its cache forgotten.\<close>

definition skeleton :: "kcontrol \<Rightarrow> kcontrol" where
  "skeleton k = k\<lparr>kc_elem := (kc_elem k)\<lparr>el_cached := 0, el_cache_val := replicate MAX_CHANNELS 0\<rparr>\<rparr>"

lemma skeleton_new: "skeleton \<lparr>kc_kind = kind, kc_name = nm, kc_elem = new_elem index offset num val_len count opt\<rparr> =
    \<lparr>kc_kind = kind, kc_name = nm, kc_elem = new_elem index offset num val_len count opt\<rparr>"
  by (simp add: skeleton_def new_elem_def)

lemma skeletonD:
  assumes "skeleton k = skeleton k'"
  shows "kc_kind k = kc_kind k'" "el_wValue (kc_elem k) = el_wValue (kc_elem k')" "el_index (kc_elem k) = el_index (kc_elem k')"
    "el_val_len (kc_elem k) = el_val_len (kc_elem k')" "el_count (kc_elem k) = el_count (kc_elem k')"
  using arg_cong [OF assms, of kc_kind] arg_cong [OF assms, of "\<lambda>k. el_wValue (kc_elem k)"]
    arg_cong [OF assms, of "\<lambda>k. el_index (kc_elem k)"] arg_cong [OF assms, of "\<lambda>k. el_val_len (kc_elem k)"]
    arg_cong [OF assms, of "\<lambda>k. el_count (kc_elem k)"]
  by (simp_all add: skeleton_def)

lemma registers_skeleton: "skeleton k = skeleton k' \<Longrightarrow> kctl_registers chip k = kctl_registers chip k'"
  using skeletonD [of k k'] by (simp add: kctl_registers_def caching_def)

lemma map_eq_map:
  assumes "map f xs = map f ys" "\<And>x y. f x = f y \<Longrightarrow> g x = g y"
  shows "map g xs = map g ys"
proof (rule nth_equalityI)
  show len: "length (map g xs) = length (map g ys)" using arg_cong [OF assms(1), of length] by simp
  show "map g xs ! i = map g ys ! i" if "i < length (map g xs)" for i
    using arg_cong [OF assms(1), of "\<lambda>zs. zs ! i"] that len by (auto intro: assms(2))
qed

lemma separate_skeleton:
  assumes "map skeleton ks = map skeleton ks'"
  shows "separate chip ks = separate chip ks'"
proof -
  have "map (kctl_registers chip) ks = map (kctl_registers chip) ks'"
    by (rule map_eq_map [OF assms registers_skeleton])
  then show ?thesis by (simp add: separate_def)
qed

abbreviation cur_elem :: "kcontrol list \<Rightarrow> mixer_elem option" where
  "cur_elem ks \<equiv> (case ks of [] \<Rightarrow> None | k # _ \<Rightarrow> Some (kc_elem k))"

lemma plan_writes_cong:
  "el_wValue e = el_wValue e' \<Longrightarrow> el_index e = el_index e' \<Longrightarrow> el_val_len e = el_val_len e' \<Longrightarrow> el_count e = el_count e' \<Longrightarrow>
     plan_writes (Some e) p = plan_writes (Some e') p"
proof (induction p)
  case (Cons x p)
  then show ?case by (cases x) auto
qed simp

lemma apply_writes_append: "apply_writes chip (ws @ ws') regs = apply_writes chip ws' (apply_writes chip ws regs)"
  by (simp add: apply_writes_def)

lemma init_channels_reg:
  assumes rd: "register_device bus reg"
  shows "elem_ok elem \<Longrightarrow> init_channels bus chip v cs elem d = (elem', d', Inr ()) \<Longrightarrow>
    reg d' = apply_writes chip (map (\<lambda>c. ((el_index elem, el_wValue elem + c), ctl_bytes (el_val_len elem) v)) cs) (reg d) \<and>
    (\<exists>cached vals. elem' = elem\<lparr>el_cached := cached, el_cache_val := vals\<rparr>) \<and> elem_ok elem'"
proof (induction cs arbitrary: elem d)
  case Nil
  then show ?case by (auto simp: apply_writes_def intro!: exI [of _ "el_cached elem"] exI [of _ "el_cache_val elem"])
next
  case (Cons c cs)
  obtain e1 d1 r1 where s: "set_ctl_value bus chip elem c v d = (e1, d1, r1)" by (cases "set_ctl_value bus chip elem c v d")
  note eqs = set_ctl_value_reg [OF rd Cons.prems(1) s]
  obtain u where r1: "r1 = Inr u" using Cons.prems(2) s by (cases r1) auto
  have rec: "init_channels bus chip v cs e1 d1 = (elem', d', Inr ())" using Cons.prems(2) s r1 by simp
  have e1: "e1 = put_cache c v elem" using eqs r1 by simp
  have f: "\<exists>cached vals. elem' = elem\<lparr>el_cached := cached, el_cache_val := vals\<rparr>"
    if "\<exists>cached vals. elem' = e1\<lparr>el_cached := cached, el_cache_val := vals\<rparr>"
    using that e1 by (auto simp: put_cache_def)
  show ?case
    using Cons.IH [OF _ rec] eqs r1 e1 Cons.prems(1) f by (simp add: apply_writes_def fun_upd_def)
qed

lemma init_channels_accesses:
  assumes rd: "register_device bus reg"
  shows "good chip elem (reg d) \<Longrightarrow> set cs \<subseteq> {..<el_count elem} \<Longrightarrow> init_channels bus chip v cs elem d = (elem', d', r) \<Longrightarrow>
    accesses chip elem (reg d) elem' (reg d')"
proof (induction cs arbitrary: elem d)
  case (Cons c cs)
  obtain e1 d1 r1 where s: "set_ctl_value bus chip elem c v d = (e1, d1, r1)" by (cases "set_ctl_value bus chip elem c v d")
  have a1: "accesses chip elem (reg d) e1 (reg d1)" by (rule set_ctl_value_accesses [OF rd Cons.prems(1) _ s]) (use Cons.prems(2) in simp)
  then show ?case
    using Cons.IH [OF accesses_good [OF a1]] accesses_fields(4) [OF a1] Cons.prems(2,3) s accesses_trans [OF a1] by (cases r1) auto
qed simp


section \<open>The effect of a plan\<close>

lemma skeleton_elem: "skeleton (k\<lparr>kc_elem := (kc_elem k)\<lparr>el_cached := c, el_cache_val := v\<rparr>\<rparr>) = skeleton k"
  by (simp add: skeleton_def)

lemma do_step_new:
  assumes "do_step cd (New kind index offset num val_len count name opt) (ks, d) = ((ks1, d1), Inr ())"
  shows "d1 = d" "ks1 = \<lparr>kc_kind = kind, kc_name = snprintf 44 name, kc_elem = new_elem index offset num val_len count opt\<rparr> # ks"
  using assms by (auto simp: add_new_ctl_def new_elem_def Let_def split: if_splits sum.splits)

lemma do_step_init:
  assumes rd: "register_device (cd_bus cd) reg" and ok: "\<forall>k \<in> set ks. elem_ok (kc_elem k)"
    and s: "do_step cd (Init v) (ks, d) = ((ks1, d1), Inr ())"
  shows "reg d1 = apply_writes (cd_chip cd) (case cur_elem ks of None \<Rightarrow> [] | Some e \<Rightarrow>
      map (\<lambda>c. ((el_index e, el_wValue e + c), ctl_bytes (el_val_len e) v)) [0..<el_count e]) (reg d)"
    and "map skeleton ks1 = map skeleton ks" "\<forall>k \<in> set ks1. elem_ok (kc_elem k)"
    and "plan_writes (cur_elem ks1) p = plan_writes (cur_elem ks) p"
proof -
  have "reg d1 = apply_writes (cd_chip cd) (case cur_elem ks of None \<Rightarrow> [] | Some e \<Rightarrow>
      map (\<lambda>c. ((el_index e, el_wValue e + c), ctl_bytes (el_val_len e) v)) [0..<el_count e]) (reg d) \<and>
    map skeleton ks1 = map skeleton ks \<and> (\<forall>k \<in> set ks1. elem_ok (kc_elem k)) \<and>
    plan_writes (cur_elem ks1) p = plan_writes (cur_elem ks) p"
  proof (cases ks)
    case Nil
    then show ?thesis using s by (simp add: init_ctl_def apply_writes_def)
  next
    case (Cons k ks0)
    obtain e d2 r where i: "init_channels (cd_bus cd) (cd_chip cd) v [0..<el_count (kc_elem k)] (kc_elem k) d = (e, d2, r)"
      by (cases "init_channels (cd_bus cd) (cd_chip cd) v [0..<el_count (kc_elem k)] (kc_elem k) d")
    have r: "r = Inr ()" "d1 = d2" "ks1 = k\<lparr>kc_elem := e\<rparr> # ks0" using s i Cons by (auto simp: init_ctl_def)
    have "elem_ok (kc_elem k)" using ok Cons by simp
    note laws = init_channels_reg [OF rd this i [unfolded r]]
    then obtain c vs where e: "e = (kc_elem k)\<lparr>el_cached := c, el_cache_val := vs\<rparr>" by blast
    have "plan_writes (Some e) p = plan_writes (Some (kc_elem k)) p" by (rule plan_writes_cong) (simp_all add: e)
    then show ?thesis using laws r Cons ok e by (simp add: skeleton_elem)
  qed
  then show "reg d1 = apply_writes (cd_chip cd) (case cur_elem ks of None \<Rightarrow> [] | Some e \<Rightarrow>
      map (\<lambda>c. ((el_index e, el_wValue e + c), ctl_bytes (el_val_len e) v)) [0..<el_count e]) (reg d)"
    "map skeleton ks1 = map skeleton ks" "\<forall>k \<in> set ks1. elem_ok (kc_elem k)"
    "plan_writes (cur_elem ks1) p = plan_writes (cur_elem ks) p" by blast+
qed

lemma run_plan_effect:
  assumes rd: "register_device (cd_bus cd) reg"
  shows "\<forall>k \<in> set ks. elem_ok (kc_elem k) \<Longrightarrow> \<forall>s \<in> set p. step_ok s \<Longrightarrow> run_plan cd p (ks, d) = ((ks', d'), Inr ()) \<Longrightarrow>
    reg d' = apply_writes (cd_chip cd) (plan_writes (cur_elem ks) p) (reg d) \<and>
    map skeleton ks' = rev (map skeleton (plan_controls p)) @ map skeleton ks"
proof (induction p arbitrary: ks d)
  case Nil
  then show ?case by (simp add: apply_writes_def)
next
  case (Cons s p)
  obtain ks1 d1 r where st: "do_step cd s (ks, d) = ((ks1, d1), r)" by (metis prod.exhaust)
  have r: "r = Inr ()" using Cons.prems(3) st by (cases r) auto
  have rec: "run_plan cd p (ks1, d1) = ((ks', d'), Inr ())" using Cons.prems(3) st r by simp
  show ?case
  proof (cases s)
    case (New kind index offset num val_len count name opt)
    note eqs = do_step_new [OF st [unfolded New r]]
    have "\<forall>k \<in> set ks1. elem_ok (kc_elem k)" using eqs(2) Cons.prems(1,2) New by (auto simp: elem_ok_def new_elem_def)
    from Cons.IH [OF this _ rec] show ?thesis using Cons.prems(2) eqs New by simp
  next
    case (Init v)
    note laws = do_step_init [OF rd Cons.prems(1) st [unfolded Init r]]
    from Cons.IH [OF laws(3) _ rec] show ?thesis using Cons.prems(2) laws(1,2,4) Init by (simp add: apply_writes_append)
  qed
qed

text \<open>
  When the controls of a plan have different registers, and registers not yet in use hold two bytes,
  the plan leaves every control coherent with the device.
\<close>

definition two_bytes :: "snd_usb_audio \<Rightarrow> kcontrol list \<Rightarrow> (address \<Rightarrow> u8 list) \<Rightarrow> bool" where
  "two_bytes chip ks regs \<longleftrightarrow> (\<forall>a. a \<notin> set (concat (map (kctl_registers chip) ks)) \<longrightarrow> 2 \<le> length (regs a))"

lemma card_good_new:
  assumes cg: "card_good chip ks regs" and tb: "two_bytes chip ks regs"
    and ok: "step_ok (New kind index offset num val_len count name opt)"
    and k: "k = \<lparr>kc_kind = kind, kc_name = nm, kc_elem = new_elem index offset num val_len count opt\<rparr>"
    and sep: "separate chip (k # ks)"
  shows "card_good chip (k # ks) regs"
proof -
  have "good chip (kc_elem k) regs" if c: "caching k"
  proof -
    have d: "distinct (kctl_registers chip k)" "set (kctl_registers chip k) \<inter> set (concat (map (kctl_registers chip) ks)) = {}"
      using sep by (auto simp: separate_def)
    have e: "elem_ok (kc_elem k)" using ok k by (auto simp: elem_ok_def new_elem_def)
    then have rl: "read_len (kc_elem k) \<le> 2" using read_len_le by fastforce
    have "2 \<le> length (regs (elem_address chip (kc_elem k) i))" if "i < el_count (kc_elem k)" for i
    proof -
      have "elem_address chip (kc_elem k) i \<in> set (kctl_registers chip k)" using c that by (simp add: set_kctl_registers registers_of_def)
      then have "elem_address chip (kc_elem k) i \<notin> set (concat (map (kctl_registers chip) ks))" using d(2) by blast
      then show ?thesis using tb unfolding two_bytes_def by blast
    qed
    then have "coherent chip (kc_elem k) regs" using rl k by (auto simp: coherent_def is_cached_def new_elem_def intro: order_trans)
    moreover have "own_registers chip (kc_elem k)"
      using d(1) c by (simp add: own_registers_def kctl_registers_def distinct_map atLeast0LessThan)
    ultimately show ?thesis using e by (simp add: good_def)
  qed
  then show ?thesis using cg sep ok k by (auto simp: card_good_def kctl_good_def new_elem_def)
qed

text \<open>Only controls with registers are initialized.\<close>

fun plan_ok :: "bool \<Rightarrow> plan_step list \<Rightarrow> bool" where
  "plan_ok b [] \<longleftrightarrow> True"
| "plan_ok b (New kind index offset num val_len count name opt # p) \<longleftrightarrow>
     step_ok (New kind index offset num val_len count name opt) \<and> plan_ok (kind \<noteq> SYNC \<and> kind \<noteq> SAVE) p"
| "plan_ok b (Init v # p) \<longleftrightarrow> b \<and> plan_ok b p"

lemma plan_ok_steps: "plan_ok b p \<Longrightarrow> \<forall>s \<in> set p. step_ok s"
  by (induction b p rule: plan_ok.induct) auto

lemma caching_kind: "caching k \<longleftrightarrow> kc_kind k \<noteq> SYNC \<and> kc_kind k \<noteq> SAVE"
  by (simp add: caching_def split: ctl_kind.split)

lemma separate_tail: "separate chip (ks' @ ks) \<Longrightarrow> separate chip ks"
  by (simp add: separate_def)

lemma separate_regs: "map (kctl_registers chip) ks = map (kctl_registers chip) ks' \<Longrightarrow> separate chip (xs @ ks) = separate chip (xs @ ks')"
  by (simp add: separate_def)

lemma two_bytes_Cons: "two_bytes chip ks regs \<Longrightarrow> two_bytes chip (k # ks) regs"
  by (simp add: two_bytes_def)

lemma do_step_init_good:
  assumes rd: "register_device (cd_bus cd) reg" and cg: "card_good (cd_chip cd) (k # ks) (reg d)"
    and tb: "two_bytes (cd_chip cd) (k # ks) (reg d)" and c: "caching k"
    and s: "do_step cd (Init v) (k # ks, d) = ((ks1, d1), r)"
  shows "card_good (cd_chip cd) ks1 (reg d1)" "two_bytes (cd_chip cd) ks1 (reg d1)" "\<exists>e. ks1 = k\<lparr>kc_elem := e\<rparr> # ks"
    "map (kctl_registers (cd_chip cd)) ks1 = map (kctl_registers (cd_chip cd)) (k # ks)"
proof -
  obtain e d2 r2 where i: "init_channels (cd_bus cd) (cd_chip cd) v [0..<el_count (kc_elem k)] (kc_elem k) d = (e, d2, r2)"
    by (cases "init_channels (cd_bus cd) (cd_chip cd) v [0..<el_count (kc_elem k)] (kc_elem k) d")
  have ks1: "ks1 = k\<lparr>kc_elem := e\<rparr> # ks" "d1 = d2" using s i by (auto simp: init_ctl_def)
  have kg: "kctl_good (cd_chip cd) k (reg d)" using cg by (simp add: card_good_def)
  then have "good (cd_chip cd) (kc_elem k) (reg d)" using c by (simp add: kctl_good_def)
  from init_channels_accesses [OF rd this _ i] have st: "kctl_step (cd_chip cd) k (reg d) (k\<lparr>kc_elem := e\<rparr>) (reg d1)"
    using c ks1 by (auto simp: kctl_step_def atLeast0LessThan)
  note keep = kctl_good_step [OF st kg]
  show regs: "map (kctl_registers (cd_chip cd)) ks1 = map (kctl_registers (cd_chip cd)) (k # ks)" using keep(2) ks1 by simp
  show "card_good (cd_chip cd) ks1 (reg d1)" using card_good_step [OF cg, of 0 "k\<lparr>kc_elem := e\<rparr>"] st ks1 by simp
  show "\<exists>e. ks1 = k\<lparr>kc_elem := e\<rparr> # ks" using ks1 by blast
  have "reg d1 a = reg d a" if "a \<notin> set (concat (map (kctl_registers (cd_chip cd)) (k # ks)))" for a
    using keep(3) [of a] that by simp
  then show "two_bytes (cd_chip cd) ks1 (reg d1)" using tb unfolding two_bytes_def regs by metis
qed

lemma run_plan_good:
  assumes rd: "register_device (cd_bus cd) reg"
  shows "card_good (cd_chip cd) ks (reg d) \<Longrightarrow> two_bytes (cd_chip cd) ks (reg d) \<Longrightarrow> plan_ok b p \<Longrightarrow>
    (b \<Longrightarrow> \<exists>k ks0. ks = k # ks0 \<and> caching k) \<Longrightarrow> separate (cd_chip cd) (rev (plan_controls p) @ ks) \<Longrightarrow>
    run_plan cd p (ks, d) = ((ks', d'), Inr ()) \<Longrightarrow> card_good (cd_chip cd) ks' (reg d')"
proof (induction p arbitrary: ks d b)
  case (Cons s p)
  obtain ks1 d1 r where st: "do_step cd s (ks, d) = ((ks1, d1), r)" by (metis prod.exhaust)
  have r: "r = Inr ()" using Cons.prems(6) st by (cases r) auto
  have rec: "run_plan cd p (ks1, d1) = ((ks', d'), Inr ())" using Cons.prems(6) st r by simp
  show ?case
  proof (cases s)
    case (New kind index offset num val_len count name opt)
    define k where "k = \<lparr>kc_kind = kind, kc_name = snprintf 44 name, kc_elem = new_elem index offset num val_len count opt\<rparr>"
    have eqs: "d1 = d" "ks1 = k # ks" using do_step_new [OF st [unfolded New r]] by (simp_all add: k_def)
    have sep: "separate (cd_chip cd) (rev (plan_controls p) @ k # ks)" using Cons.prems(5) New by (simp add: k_def)
    have ok: "step_ok (New kind index offset num val_len count name opt)" "plan_ok (kind \<noteq> SYNC \<and> kind \<noteq> SAVE) p"
      using Cons.prems(3) New by simp_all
    have "card_good (cd_chip cd) (k # ks) (reg d)"
      by (rule card_good_new [OF Cons.prems(1,2) ok(1) k_def separate_tail [OF sep]])
    moreover have "caching k \<longleftrightarrow> kind \<noteq> SYNC \<and> kind \<noteq> SAVE" by (simp add: caching_kind k_def)
    ultimately show ?thesis
      using Cons.IH [OF _ two_bytes_Cons [OF Cons.prems(2)] ok(2), of k] sep rec eqs by simp
  next
    case (Init v)
    then obtain k ks0 where ks: "ks = k # ks0" "caching k" and b: b and ok: "plan_ok b p" using Cons.prems(3,4) by auto
    note laws = do_step_init_good [OF rd Cons.prems(1,2) [unfolded ks(1)] ks(2) st [unfolded Init ks(1)]]
    have "\<exists>k ks0. ks1 = k # ks0 \<and> caching k" using laws(3) ks(2) by (auto simp: caching_kind)
    moreover have "separate (cd_chip cd) (rev (plan_controls p) @ ks1)"
      using Cons.prems(5) separate_regs [OF laws(4), of "rev (plan_controls p)"] Init ks(1) by simp
    ultimately show ?thesis using Cons.IH [OF laws(1,2) ok _ _ rec] by blast
  qed
qed simp

end
