(* ===== verification/Scarlett_Mixer.thy ===== *)
theory Scarlett_Mixer
  imports Scarlett_Plan
begin

text \<open>
  The state of a Scarlett interface after \<open>scarlett_mixer_controls\<close>, read off its registers: what is
  heard on the outputs, and the coherence of the caches under everything the controls are asked to do
  afterwards. The 18i20 has more mixes than gain registers.
\<close>

section \<open>Addresses\<close>

lemma bit_small_nat: "(m :: nat) < 256 \<Longrightarrow> bit m n \<Longrightarrow> n < 8"
proof -
  assume "m < 256" "bit m n"
  then have "m div 2 ^ n \<noteq> 0" by (intro notI) (simp add: bit_iff_odd)
  then have "2 ^ n \<le> m" by (metis div_less not_le)
  then have "\<not> (2 :: nat) ^ 8 \<le> 2 ^ n" using \<open>m < 256\<close> by simp
  then show "n < 8" using power_increasing [of 8 n "2 :: nat"] by linarith
qed

lemma drop_bit_unit: 
  assumes "i < 256"
  shows "drop_bit 8 ((ucast (a :: u8) :: u16) OR push_bit 8 (of_nat i)) = of_nat i"
proof (rule bit_word_eqI)
  fix n assume n: "n < LENGTH(16)"
  have "\<not> bit a (8 + n)" by (auto dest: bit_imp_le_length)
  then show "bit (drop_bit 8 ((ucast a :: u16) OR push_bit 8 (of_nat i))) n = bit (of_nat i :: u16) n"
    using bit_small_nat [OF assms, of n] n by (auto simp: bit_drop_bit_eq bit_or_iff bit_ucast_iff bit_push_bit_iff bit_of_nat_iff)
qed

lemma address_inj:
  assumes "i < 256" "j < 256" "v < 65536" "w < 65536"
  shows "address_of chip i v = address_of chip j w \<longleftrightarrow> i = j \<and> v = w"
proof
  assume a: "address_of chip i v = address_of chip j w"
  then have "drop_bit 8 (ucast (ch_ctrl_intf chip) OR push_bit 8 (of_nat i :: u16)) = drop_bit 8 (ucast (ch_ctrl_intf chip) OR push_bit 8 (of_nat j))"
    by (simp add: address_of_def)
  then have "(of_nat i :: u16) = of_nat j" using assms drop_bit_unit by simp
  moreover have "(of_nat v :: u16) = of_nat w" using a by (simp add: address_of_def)
  ultimately show "i = j \<and> v = w" using assms by (simp add: word_unat_eq_iff unat_of_nat)
qed simp

section \<open>The registers after a plan\<close>

text \<open>Register \<open>w\<close> of unit \<open>i\<close> as a pair of integers: the block of 256 registers and the place in it.\<close>

definition key :: "nat \<Rightarrow> nat \<Rightarrow> int \<times> int" where
  "key i w = (int (256 * i + w div 256), int (w mod 256))"

lemma key_inj:
  assumes "v < 65536" "w < 65536" "key i v = key j w"
  shows "i = j \<and> v = w"
proof -
  have "v div 256 < 256" "w div 256 < 256" using assms(1,2) by simp_all
  moreover have k: "256 * i + v div 256 = 256 * j + w div 256" "v mod 256 = w mod 256"
    using assms(3) unfolding key_def prod.inject of_nat_eq_iff by blast+
  moreover have "i = j \<and> a = b" if "a < 256" "b < 256" "256 * i + a = 256 * j + b" for i j a b :: nat
    using that by (cases i j rule: linorder_cases) linarith+
  ultimately have "i = j" "v div 256 = w div 256" by blast+
  then show ?thesis using k(2) by (metis mult_div_mod_eq)
qed

lemma key_offset: "num < 256 \<Longrightarrow> key i (256 * offset + num) = (256 * int i + int offset, int num)"
  by (simp add: key_def)

text \<open>
  The steps of a plan without the texts, in integers: whether the control has registers, its block and
  the place of the first register, the lengths of a value and the number of registers.
\<close>

datatype int_step = Make bool int int nat nat | Put int

fun as_ints :: "plan_step \<Rightarrow> int_step" where
  "as_ints (New kind index offset num val_len count name opt) =
     Make (kind \<noteq> SYNC \<and> kind \<noteq> SAVE) (256 * int index + int offset) (int num) val_len count"
| "as_ints (Init v) = Put v"

fun int_writes :: "(int \<times> int \<times> nat) option \<Rightarrow> int_step list \<Rightarrow> ((int \<times> int) \<times> int) list" where
  "int_writes cur [] = []"
| "int_writes cur (Make r g x l n # p) = int_writes (Some (g, x, n)) p"
| "int_writes cur (Put v # p) =
     (case cur of None \<Rightarrow> [] | Some (g, x, n) \<Rightarrow> map (\<lambda>c. ((g, x + int c), v)) [0..<n]) @ int_writes cur p"

text \<open>Registers are within their block, and two bytes hold the initial values.\<close>

fun int_ok :: "bool \<Rightarrow> bool \<Rightarrow> int_step list \<Rightarrow> bool" where
  "int_ok r two [] \<longleftrightarrow> True"
| "int_ok r two (Make r' g x l n # p) \<longleftrightarrow>
     (l = 1 \<or> l = 2) \<and> 0 < n \<and> n \<le> MAX_CHANNELS \<and> g < 65536 \<and> x + int n \<le> 256 \<and> int_ok r' (l = 2) p"
| "int_ok r two (Put v # p) \<longleftrightarrow> r \<and> two \<and> -0x8000 \<le> v \<and> v < 0x8000 \<and> int_ok r two p"

text \<open>The offsets within a unit are bytes.\<close>

fun offset_ok :: "plan_step \<Rightarrow> bool" where
  "offset_ok (New kind index offset num val_len count name opt) \<longleftrightarrow> offset < 256"
| "offset_ok (Init v) \<longleftrightarrow> True"

lemma int_ok_plan: "int_ok r two (map as_ints p) \<Longrightarrow> plan_ok r p"
proof (induction p arbitrary: r two)
  case (Cons s p)
  then show ?case by (cases s) auto
qed simp

lemma offset_or_num:
  assumes "num < 256"
  shows "push_bit 8 offset OR num = 256 * offset + (num :: nat)"
proof -
  have "\<not> (bit (push_bit 8 offset) n \<and> bit num n)" for n
    using bit_small_nat [OF assms, of n] by (auto simp: bit_push_bit_iff)
  then have "push_bit 8 offset OR num = push_bit 8 offset + num"
    by (intro disjunctive_add [symmetric]) auto
  then show ?thesis by (simp add: push_bit_eq_mult)
qed

text \<open>The writes of a plan in integers.\<close>

definition write_key :: "(nat \<times> nat) \<times> u8 list \<Rightarrow> (int \<times> int) \<times> int" where
  "write_key = (\<lambda>((i, w), bs). (key i w, ctl_value 2 bs))"

definition cur_key :: "mixer_elem \<Rightarrow> int \<times> int \<times> nat" where
  "cur_key e = (fst (key (el_index e) (el_wValue e)), snd (key (el_index e) (el_wValue e)), el_count e)"

definition cur_small :: "bool \<Rightarrow> mixer_elem option \<Rightarrow> bool" where
  "cur_small two cur \<longleftrightarrow> (\<forall>e. cur = Some e \<longrightarrow> el_index e < 256 \<and> el_wValue e < 65536 \<and>
     el_wValue e mod 256 + el_count e \<le> 256 \<and> (two \<longrightarrow> el_val_len e = 2))"

lemma key_channel:
  assumes "w mod 256 + c < 256"
  shows "key i (w + c) = (fst (key i w), snd (key i w) + int c)"
proof -
  have "w + c = 256 * (w div 256) + (w mod 256 + c)" by simp
  then have "(w + c) div 256 = w div 256" "(w + c) mod 256 = w mod 256 + c" using assms
    by (metis div_mult_self4 div_less add.right_neutral zero_neq_numeral, metis mod_mult_self4 mod_less)
  then show ?thesis by (simp add: key_def)
qed

lemma plan_writes_keys:
  "int_ok r two (map as_ints p) \<Longrightarrow> \<forall>s \<in> set p. offset_ok s \<Longrightarrow> cur_small two cur \<Longrightarrow>
     map write_key (plan_writes cur p) = int_writes (map_option cur_key cur) (map as_ints p) \<and>
     (\<forall>((i, w), bs) \<in> set (plan_writes cur p). i < 256 \<and> w < 65536)"
proof (induction p arbitrary: r two cur)
  case (Cons s p)
  show ?case
  proof (cases s)
    case (New kind index offset num val_len count name opt)
    let ?e = "new_elem index offset num val_len count opt"
    have n: "int_ok (kind \<noteq> SYNC \<and> kind \<noteq> SAVE) (val_len = 2) (map as_ints p)" "num < 256" "offset < 256" "index < 256" "num + count \<le> 256"
      using Cons.prems(1,2) New by auto
    have small: "cur_small (val_len = 2) (Some ?e)" using n by (simp add: cur_small_def new_elem_def offset_or_num)
    have "cur_key ?e = (256 * int index + int offset, int num, count)"
      using n by (simp add: cur_key_def new_elem_def offset_or_num key_offset)
    then show ?thesis using Cons.IH [OF n(1) _ small] Cons.prems(2) New by simp
  next
    case (Init v)
    then have i: "two" "-0x8000 \<le> v" "v < 0x8000" "int_ok r two (map as_ints p)"
      using Cons.prems(1) unfolding Init list.map as_ints.simps int_ok.simps by blast+
    note IH = Cons.IH [OF i(4) _ Cons.prems(3)]
    show ?thesis
    proof (cases cur)
      case (Some e)
      then have e: "el_index e < 256" "el_wValue e < 65536" "el_wValue e mod 256 + el_count e \<le> 256" "el_val_len e = 2"
        using Cons.prems(3) i(1) by (simp_all add: cur_small_def)
      have k: "key (el_index e) (el_wValue e + c) = (fst (key (el_index e) (el_wValue e)), snd (key (el_index e) (el_wValue e)) + int c)"
        if "c < el_count e" for c using e(3) that by (intro key_channel) simp
      then have "map write_key (map (\<lambda>c. ((el_index e, el_wValue e + c), ctl_bytes 2 v)) [0..<el_count e]) =
          map (\<lambda>c. ((fst (key (el_index e) (el_wValue e)), snd (key (el_index e) (el_wValue e)) + int c), v)) [0..<el_count e]"
        using ctl_value_bytes [OF i(2,3)] by (simp add: write_key_def)
      moreover have "el_wValue e + c < 65536" if "c < el_count e" for c
      proof -
        have "el_wValue e = 256 * (el_wValue e div 256) + el_wValue e mod 256" "el_wValue e div 256 < 256" using e(2) by simp_all
        then show ?thesis using e(3) that by linarith
      qed
      ultimately show ?thesis using IH Cons.prems(2) Some Init e by (auto simp: cur_key_def)
    qed (use IH Cons.prems(2) Init in simp)
  qed
qed simp

lemma apply_writes_lookup:
  assumes "\<forall>((i, w), bs) \<in> set ws. i < 256 \<and> w < 65536" "i < 256" "w < 65536"
    "map_of (rev (map write_key ws)) (key i w) = Some v"
  shows "ctl_value 2 (apply_writes chip ws regs (address_of chip i w)) = v"
  using assms
proof (induction ws rule: rev_induct)
  case (snoc x ws)
  obtain j u bs where x: "x = ((j, u), bs)" by (metis prod.exhaust)
  have ws: "\<forall>((i, w), bs) \<in> set ws. i < 256 \<and> w < 65536" and ju: "j < 256" "u < 65536" using snoc.prems(1) x by auto
  have ap: "apply_writes chip (ws @ [x]) regs = (apply_writes chip ws regs)(address_of chip j u := bs)"
    by (simp add: apply_writes_def x)
  have wx: "write_key x = (key j u, ctl_value 2 bs)" by (simp add: x write_key_def)
  show ?case
  proof (cases "i = j \<and> w = u")
    case True
    then show ?thesis using snoc.prems(4) ap wx by simp
  next
    case False
    then have "key i w \<noteq> key j u" "address_of chip i w \<noteq> address_of chip j u"
      using key_inj [OF snoc.prems(3) ju(2), of i j] address_inj [OF snoc.prems(2) ju(1) snoc.prems(3) ju(2)] by blast+
    then show ?thesis using snoc.IH [OF ws snoc.prems(2,3)] snoc.prems(4) ap wx by simp
  qed
qed simp

text \<open>The value of a register.\<close>

definition register :: "snd_usb_audio \<Rightarrow> (address \<Rightarrow> u8 list) \<Rightarrow> nat \<Rightarrow> nat \<Rightarrow> int" where
  "register chip regs i w = ctl_value 2 (regs (address_of chip i w))"

text \<open>The writes to a block, the last first, and the last value written to a place of it.\<close>

definition block :: "int_step list \<Rightarrow> int \<Rightarrow> (int \<times> int) list" where
  "block p g = map (\<lambda>(k, v). (snd k, v)) (filter (\<lambda>(k, v). fst k = g) (rev (int_writes None p)))"

abbreviation last_write :: "int_step list \<Rightarrow> int \<Rightarrow> int \<Rightarrow> int option" where
  "last_write p g x \<equiv> map_of (block p g) x"

lemma map_of_block: "map_of (map (\<lambda>(k, v). (snd k, v)) (filter (\<lambda>(k, v). fst k = g) ws)) x = map_of ws (g, x)"
  by (induction ws) auto

lemma plan_register:
  assumes rd: "register_device (cd_bus cd) reg" and p: "int_ok False False (map as_ints p)" "\<forall>s \<in> set p. offset_ok s"
    and r: "run_plan cd p ([], d) = ((ks, d'), Inr ())"
    and k: "i < 256" "w < 65536" "last_write (map as_ints p) (256 * int i + int (w div 256)) (int (w mod 256)) = Some v"
  shows "register (cd_chip cd) (reg d') i w = v"
proof -
  have "reg d' = apply_writes (cd_chip cd) (plan_writes None p) (reg d)"
    using run_plan_effect [OF rd _ plan_ok_steps [OF int_ok_plan [OF p(1)]] r] by simp
  moreover have "map_of (rev (map write_key (plan_writes None p))) (key i w) = Some v"
    using plan_writes_keys [OF p, of None] k(3) by (simp add: cur_small_def block_def map_of_block key_def)
  ultimately show ?thesis
    using apply_writes_lookup [OF _ k(1,2)] plan_writes_keys [OF p, of None] by (simp add: register_def cur_small_def)
qed

section \<open>Different registers\<close>

fun increasing :: "int list \<Rightarrow> bool" where
  "increasing (x # y # xs) \<longleftrightarrow> x < y \<and> increasing (y # xs)"
| "increasing _ \<longleftrightarrow> True"

lemma increasing_above: "increasing (x # xs) \<Longrightarrow> y \<in> set xs \<Longrightarrow> x < y"
  by (induction xs arbitrary: x) (auto, force)

lemma increasing_distinct: "increasing xs \<Longrightarrow> distinct xs"
proof (induction xs)
  case (Cons x xs)
  then have "increasing xs" by (cases xs) auto
  then show ?case using Cons increasing_above by auto
qed simp

text \<open>The registers of the controls, by block.\<close>

definition int_keys :: "int_step list \<Rightarrow> (int \<times> int) list" where
  "int_keys p = concat (map (\<lambda>s. case s of Make r g x l n \<Rightarrow> (if r then map (\<lambda>c. (g, x + int c)) [0..<n] else []) | Put v \<Rightarrow> []) p)"

definition blocks_distinct :: "int list \<Rightarrow> (int \<times> int) list \<Rightarrow> bool" where
  "blocks_distinct gs ks \<longleftrightarrow> list_all (\<lambda>k. fst k \<in> set gs) ks \<and> list_all (\<lambda>g. increasing (map snd (filter (\<lambda>k. fst k = g) ks))) gs"

lemma blocks_distinct: "blocks_distinct gs ks \<Longrightarrow> distinct ks"
proof (rule ccontr)
  assume b: "blocks_distinct gs ks" and "\<not> distinct ks"
  then obtain xs ys zs k where ks: "ks = xs @ [k] @ ys @ [k] @ zs" using not_distinct_decomp by blast
  then have "fst k \<in> set gs" using b by (simp add: blocks_distinct_def)
  then have "distinct (map snd (filter (\<lambda>k'. fst k' = fst k) ks))"
    using b increasing_distinct by (auto simp: blocks_distinct_def list_all_iff)
  then show False using ks by simp
qed


lemma distinct_concat_rev: "distinct (concat (rev xss)) = distinct (concat xss)"
  by (induction xss) auto

lemma plan_control_keys:
  "int_ok r two (map as_ints p) \<Longrightarrow> \<forall>s \<in> set p. offset_ok s \<Longrightarrow>
   \<exists>ws. int_keys (map as_ints p) = map (\<lambda>(i, w). key i w) ws \<and>
     concat (map (kctl_registers chip) (plan_controls p)) = map (\<lambda>(i, w). address_of chip i w) ws \<and>
     (\<forall>(i, w) \<in> set ws. i < 256 \<and> w < 65536)"
proof (induction p arbitrary: r two)
  case (Cons s p)
  show ?case
  proof (cases s)
    case (New kind index offset num val_len count name opt)
    let ?k = "\<lparr>kc_kind = kind, kc_name = snprintf 44 name, kc_elem = new_elem index offset num val_len count opt\<rparr>"
    have n: "int_ok (kind \<noteq> SYNC \<and> kind \<noteq> SAVE) (val_len = 2) (map as_ints p)" "num < 256" "offset < 256" "index < 256" "num + count \<le> 256"
      using Cons.prems New by auto
    obtain ws where ws: "int_keys (map as_ints p) = map (\<lambda>(i, w). key i w) ws"
      "concat (map (kctl_registers chip) (plan_controls p)) = map (\<lambda>(i, w). address_of chip i w) ws"
      "\<forall>(i, w) \<in> set ws. i < 256 \<and> w < 65536"
      using Cons.IH [OF n(1)] Cons.prems(2) by auto
    let ?new = "if caching ?k then map (\<lambda>c. (index, 256 * offset + num + c)) [0..<count] else []"
    have "key index (256 * offset + num + c) = (256 * int index + int offset, int num + int c)" if "c < count" for c
      using key_offset [of "num + c" index offset] n(5) that by (simp add: add.assoc)
    then have "int_keys (map as_ints (s # p)) = map (\<lambda>(i, w). key i w) (?new @ ws)"
      using ws(1) New by (simp add: int_keys_def caching_kind)
    moreover have "concat (map (kctl_registers chip) (plan_controls (s # p))) = map (\<lambda>(i, w). address_of chip i w) (?new @ ws)"
      using ws(2) New n(2) by (simp add: kctl_registers_def new_elem_def offset_or_num)
    moreover have "\<forall>(i, w) \<in> set (?new @ ws). i < 256 \<and> w < 65536" using ws(3) n by auto
    ultimately show ?thesis by blast
  next
    case (Init v)
    then have "int_ok r two (map as_ints p)" using Cons.prems(1) by auto
    then show ?thesis using Cons.IH Cons.prems(2) Init by (simp add: int_keys_def)
  qed
qed (simp add: int_keys_def)

lemma plan_separate:
  assumes "int_ok r two (map as_ints p)" "\<forall>s \<in> set p. offset_ok s" "distinct (int_keys (map as_ints p))"
  shows "separate chip (rev (plan_controls p))"
proof -
  obtain ws where ws: "int_keys (map as_ints p) = map (\<lambda>(i, w). key i w) ws"
    "concat (map (kctl_registers chip) (plan_controls p)) = map (\<lambda>(i, w). address_of chip i w) ws"
    "\<forall>(i, w) \<in> set ws. i < 256 \<and> w < 65536"
    using plan_control_keys [OF assms(1,2)] by blast
  have "inj_on (\<lambda>(i, w). address_of chip i w) (set ws)"
  proof (rule inj_onI, clarify)
    fix i w j v assume "(i, w) \<in> set ws" "(j, v) \<in> set ws" "address_of chip i w = address_of chip j v"
    moreover have "i < 256" "w < 65536" "j < 256" "v < 65536" using ws(3) calculation(1,2) by auto
    ultimately show "i = j \<and> w = v" using address_inj [of i j w v chip] by blast
  qed
  moreover have "distinct ws" using assms(3) ws(1) by (simp add: distinct_map)
  ultimately have "distinct (concat (map (kctl_registers chip) (plan_controls p)))" using ws(2) by (simp add: distinct_map)
  then show ?thesis using distinct_concat_rev [of "map (kctl_registers chip) (plan_controls p)"] by (simp add: separate_def rev_map)
qed

end
