(* ===== verification/Scarlett_Startup.thy ===== *)
theory Scarlett_Startup
  imports Scarlett_Mixer
begin

text \<open>
  The plan of every device evaluated, and the theorems about \<open>scarlett_mixer_controls\<close>: on the 8i6,
  18i6 and 18i8 it connects the first two PCM channels to all outputs and keeps all caches coherent, on
  the 18i20 it leaves all outputs silent.
\<close>

section \<open>The plans in integers\<close>

definition level_ints :: "int \<Rightarrow> int \<Rightarrow> nat \<Rightarrow> int \<Rightarrow> int_step list" where
  "level_ints g x n v = [Make True g x 2 n, Put v]"

definition output_ints :: "int \<Rightarrow> nat \<Rightarrow> int_step list" where
  "output_ints mix index =
     Make True 0x0a01 (2 * int index + 1) 2 2 # level_ints 0x0a02 (2 * int index + 1) 2 0 @
     [Make True 0x3300 (2 * int index) 2 1, Put mix, Make True 0x3300 (2 * int index + 1) 2 1, Put (mix + 1)]"

definition input_ints :: "scarlett_model \<Rightarrow> int_step list" where
  "input_ints model = (case model of
     S8I6 \<Rightarrow> [Make True 0x109 1 2 1, Make True 0x109 2 2 1, Make True 0x10b 3 2 1, Make True 0x10b 4 2 1]
   | S18I6 \<Rightarrow> [Make True 0x109 1 2 1, Make True 0x109 2 2 1]
   | S18I8 \<Rightarrow> [Make True 0x109 1 2 1, Make True 0x10b 1 2 1, Make True 0x109 2 2 1, Make True 0x10b 2 2 1,
       Make True 0x10b 3 2 1, Make True 0x10b 4 2 1]
   | S18I20 \<Rightarrow> [])"

definition pairs_of :: "scarlett_model \<Rightarrow> nat" where
  "pairs_of model = (case model of S8I6 \<Rightarrow> 3 | S18I6 \<Rightarrow> 3 | S18I8 \<Rightarrow> 4 | S18I20 \<Rightarrow> 10)"

definition cell_ints :: "int \<Rightarrow> int \<Rightarrow> nat \<Rightarrow> nat \<Rightarrow> int_step list" where
  "cell_ints pcm source i m = level_ints 0x3c00 (8 * int i + int (m mod 8)) 1 (-32768) @
     (if m = 0 \<and> source = pcm \<or> m = 1 \<and> source = pcm + 1 then [Put 0] else [])"

definition row_ints :: "int \<Rightarrow> nat \<Rightarrow> nat \<Rightarrow> int \<Rightarrow> int_step list" where
  "row_ints pcm mixes i source = Make True 0x3206 (int i) 2 1 # Put source # concat (map (cell_ints pcm source i) [0..<mixes])"

definition capture_ints :: "int \<Rightarrow> nat \<Rightarrow> int_step list" where
  "capture_ints analog i = [Make True 0x3400 (int i) 2 1, Put (analog + int i)]"

definition mixer_ints :: "scarlett_model \<Rightarrow> int \<Rightarrow> int \<Rightarrow> int \<Rightarrow> nat \<Rightarrow> nat \<Rightarrow> int list \<Rightarrow> int_step list" where
  "mixer_ints model pcm analog mix mixes inputs mux =
     Make True 0x0a01 0 2 1 # level_ints 0x0a02 0 1 0 @ concat (map (output_ints mix) [0..<pairs_of model]) @ input_ints model @
     concat (map (\<lambda>(i, source). row_ints pcm mixes i source) (zip [0..<length mux] mux)) @
     concat (map (capture_ints analog) [0..<inputs]) @
     [Make True 0x2801 0 1 1, Make False 0x3c00 2 1 1, Make False 0x3c00 0x5a 1 1]"

definition info_ints :: "device_info \<Rightarrow> int_step list" where
  "info_ints info = mixer_ints (di_controls_fn info) (di_pcm_start info) (di_analog_start info) (di_mix_start info)
     (di_matrix_out info) (di_input_len info) (di_matrix_mux_init info)"

lemma as_ints_level: "map as_ints (level_plan g off num n name v) = level_ints (256 * int g + int off) (int num) n v"
  by (simp add: level_plan_def level_ints_def)

lemma as_ints_output: "map as_ints (output_plan info index name) = output_ints (di_mix_start info) index"
  by (simp add: output_plan_def output_ints_def as_ints_level add.commute)

lemma and_7: "(m :: nat) AND 7 = m mod 8"
  using take_bit_eq_mask [of 3 m] by (simp add: take_bit_eq_mod mask_eq_exp_minus_1)

lemma as_ints_cell: "map as_ints (cell_plan info i m) = cell_ints (di_pcm_start info) (di_matrix_mux_init info ! i) i m"
  by (simp add: cell_plan_def cell_ints_def as_ints_level and_7 push_bit_eq_mult mult.commute)

lemma as_ints_row: "map as_ints (row_plan info i) = row_ints (di_pcm_start info) (di_matrix_out info) i (di_matrix_mux_init info ! i)"
  by (simp add: row_plan_def row_ints_def map_concat comp_def as_ints_cell)

lemma as_ints_capture: "map as_ints (capture_plan info i) = capture_ints (di_analog_start info) i"
  by (simp add: capture_plan_def capture_ints_def)

lemma upt_pairs: "[0..<3] = [0, 1, 2 :: nat]" "[0..<4] = [0, 1, 2, 3 :: nat]" "[0..<10] = [0, 1, 2, 3, 4, 5, 6, 7, 8, 9 :: nat]"
  by (simp_all add: upt_rec eval_nat_numeral)

lemma as_ints_inputs:
  "map as_ints (impedance_plan n) = [Make True 0x109 (int n) 2 1]" "map as_ints (pad_plan n) = [Make True 0x10b (int n) 2 1]"
  by (simp_all add: impedance_plan_def pad_plan_def)

lemma as_ints_outputs: "map as_ints (outputs_plan info) =
    concat (map (output_ints (di_mix_start info)) [0..<pairs_of (di_controls_fn info)]) @ input_ints (di_controls_fn info)"
  by (cases "di_controls_fn info")
    (simp_all add: outputs_plan_def as_ints_output as_ints_inputs pairs_of_def input_ints_def upt_pairs)

lemma zip_upt: "zip [0..<length xs] xs = map (\<lambda>i. (i, xs ! i)) [0..<length xs]"
  by (rule nth_equalityI) auto

lemma as_ints_mixer:
  "di_matrix_in info = length (di_matrix_mux_init info) \<Longrightarrow> map as_ints (mixer_plan info) = info_ints info"
  by (simp add: mixer_plan_def info_ints_def mixer_ints_def as_ints_level as_ints_outputs map_concat comp_def
      as_ints_row as_ints_capture zip_upt del: upt_Suc)

lemma offsets_parts:
  "s \<in> set (level_plan g off num n name v) \<Longrightarrow> off < 256 \<Longrightarrow> offset_ok s"
  "s \<in> set (output_plan info index name) \<Longrightarrow> offset_ok s"
  "s \<in> set (impedance_plan n) \<Longrightarrow> offset_ok s" "s \<in> set (pad_plan n) \<Longrightarrow> offset_ok s"
  "s \<in> set (cell_plan info i m) \<Longrightarrow> offset_ok s" "s \<in> set (capture_plan info i) \<Longrightarrow> offset_ok s"
  by (auto simp: level_plan_def output_plan_def impedance_plan_def pad_plan_def cell_plan_def capture_plan_def split: if_splits)

lemma offsets_outputs: "s \<in> set (outputs_plan info) \<Longrightarrow> offset_ok s"
  by (cases "di_controls_fn info") (auto simp: outputs_plan_def dest: offsets_parts)

lemma offsets_row: "s \<in> set (row_plan info i) \<Longrightarrow> offset_ok s"
  by (auto simp: row_plan_def dest: offsets_parts)

lemma offsets_mixer: "\<forall>s \<in> set (mixer_plan info). offset_ok s"
  by (auto simp: mixer_plan_def dest: offsets_parts(1,6) offsets_outputs offsets_row)

section \<open>Evaluation\<close>

definition looks_up :: "(int \<times> int) list \<Rightarrow> (int \<times> int) list \<Rightarrow> bool" where
  "looks_up ws qs \<longleftrightarrow> list_all (\<lambda>(x, v). map_of ws x = Some v) qs"

text \<open>
  What the plan leaves in the registers: the sources of the matrix, the gains of its first two mixes
  (\<open>on\<close> the gain of the PCM channel), the sources of the outputs, the master gains and the capture sources.
\<close>

definition startup_ok :: "int_step list \<Rightarrow> int \<Rightarrow> int \<Rightarrow> int \<Rightarrow> int \<Rightarrow> nat \<Rightarrow> nat \<Rightarrow> int list \<Rightarrow> bool" where
  "startup_ok p on pcm analog mix outputs inputs mux \<longleftrightarrow>
     int_ok False False p \<and>
     looks_up (block p 0x3206) (map (\<lambda>(i, s). (int i, s)) (zip [0..<length mux] mux)) \<and>
     looks_up (filter (\<lambda>(x, v). x mod 8 = 0) (block p 0x3c00))
       (map (\<lambda>(i, s). (8 * int i, if s = pcm then on else -32768)) (zip [0..<length mux] mux)) \<and>
     looks_up (filter (\<lambda>(x, v). x mod 8 = 1) (block p 0x3c00))
       (map (\<lambda>(i, s). (8 * int i + 1, if s = pcm + 1 then on else -32768)) (zip [0..<length mux] mux)) \<and>
     looks_up (block p 0x3300) (map (\<lambda>k. (int k, mix + int (k mod 2))) [0..<outputs]) \<and>
     looks_up (block p 0x0a02) (map (\<lambda>k. (int k, 0)) [0..<Suc outputs]) \<and>
     looks_up (block p 0x3400) (map (\<lambda>i. (int i, analog + int i)) [0..<inputs])"

abbreviation blocks :: "int list" where
  "blocks \<equiv> [0x0a01, 0x0a02, 0x3300, 0x109, 0x10b, 0x3206, 0x3c00, 0x3400, 0x2801]"

abbreviation "s8i6_ints \<equiv> mixer_ints S8I6 0 12 18 6 8 [12, 13, 14, 15, 16, 17, 0, 1, 2, 3, 4, 5, 6, 7, 8, 9, 10, 11]"
abbreviation "s18i6_ints \<equiv> mixer_ints S18I6 0 6 24 6 18 [6, 7, 8, 9, 10, 11, 12, 13, 16, 17, 18, 19, 20, 21, 14, 15, 0, 1]"
abbreviation "s18i8_ints \<equiv> mixer_ints S18I8 0 8 26 8 18 [8, 9, 10, 11, 12, 13, 14, 15, 18, 19, 20, 21, 22, 23, 16, 17, 0, 1]"
abbreviation "s18i20_ints \<equiv> mixer_ints S18I20 0 20 38 16 18 [20, 21, 22, 23, 24, 25, 26, 27, 30, 31, 32, 33, 34, 35, 28, 29, 0, 1]"

lemma s8i6_startup: "startup_ok s8i6_ints 0 0 12 18 6 8 [12, 13, 14, 15, 16, 17, 0, 1, 2, 3, 4, 5, 6, 7, 8, 9, 10, 11]"
  by code_simp

lemma s18i6_startup: "startup_ok s18i6_ints 0 0 6 24 6 18 [6, 7, 8, 9, 10, 11, 12, 13, 16, 17, 18, 19, 20, 21, 14, 15, 0, 1]"
  by code_simp

lemma s18i8_startup: "startup_ok s18i8_ints 0 0 8 26 8 18 [8, 9, 10, 11, 12, 13, 14, 15, 18, 19, 20, 21, 22, 23, 16, 17, 0, 1]"
  by code_simp

text \<open>The gains of the first two mixes of the 18i20 are overwritten by those of the ninth and tenth.\<close>

lemma s18i20_startup: "startup_ok s18i20_ints (-32768) 0 20 38 20 18 [20, 21, 22, 23, 24, 25, 26, 27, 30, 31, 32, 33, 34, 35, 28, 29, 0, 1]"
  by code_simp

lemma s8i6_blocks: "blocks_distinct blocks (int_keys s8i6_ints)"
  by code_simp

lemma s18i6_blocks: "blocks_distinct blocks (int_keys s18i6_ints)"
  by code_simp

lemma s18i8_blocks: "blocks_distinct blocks (int_keys s18i8_ints)"
  by code_simp


section \<open>After the setup\<close>

definition on_gain :: "device_info \<Rightarrow> int" where
  "on_gain info = (if di_controls_fn info = S18I20 then -32768 else 0)"

text \<open>What holds of the description of every device.\<close>

definition info_ok :: "device_info \<Rightarrow> bool" where
  "info_ok info \<longleftrightarrow>
     startup_ok (info_ints info) (on_gain info) (di_pcm_start info) (di_analog_start info) (di_mix_start info)
       (di_output_len info) (di_input_len info) (di_matrix_mux_init info) \<and>
     length (di_matrix_mux_init info) = 18 \<and> di_matrix_in info = 18 \<and> di_output_len info \<le> 20 \<and> di_input_len info \<le> 18 \<and>
     0 \<le> di_mix_start info \<and> di_pcm_start info = 0 \<and>
     filter (\<lambda>s. s = 0) (di_matrix_mux_init info) = [0] \<and> filter (\<lambda>s. s = 1) (di_matrix_mux_init info) = [1] \<and>
     (di_controls_fn info \<noteq> S18I20 \<longrightarrow> distinct (int_keys (info_ints info)))"

lemma s8i6_info_ok: "info_ok s8i6_info"
proof -
  have i: "info_ints s8i6_info = s8i6_ints" by (simp add: info_ints_def s8i6_info_def)
  show ?thesis
    using s8i6_startup blocks_distinct [OF s8i6_blocks] unfolding info_ok_def i by (simp add: s8i6_info_def on_gain_def)
qed

lemma s18i6_info_ok: "info_ok s18i6_info"
proof -
  have i: "info_ints s18i6_info = s18i6_ints" by (simp add: info_ints_def s18i6_info_def)
  show ?thesis
    using s18i6_startup blocks_distinct [OF s18i6_blocks] unfolding info_ok_def i by (simp add: s18i6_info_def on_gain_def)
qed

lemma s18i8_info_ok: "info_ok s18i8_info"
proof -
  have i: "info_ints s18i8_info = s18i8_ints" by (simp add: info_ints_def s18i8_info_def)
  show ?thesis
    using s18i8_startup blocks_distinct [OF s18i8_blocks] unfolding info_ok_def i by (simp add: s18i8_info_def on_gain_def)
qed

lemma s18i20_info_ok: "info_ok s18i20_info"
proof -
  have i: "info_ints s18i20_info = s18i20_ints" by (simp add: info_ints_def s18i20_info_def)
  show ?thesis
    using s18i20_startup unfolding info_ok_def i by (simp add: s18i20_info_def on_gain_def)
qed

lemma device_ok: "device_of u = Some info \<Longrightarrow> info_ok info"
  using s8i6_info_ok s18i6_info_ok s18i8_info_ok s18i20_info_ok by (auto simp: device_of_def split: if_splits)

lemma nth_filter_map: "map ((!) xs) (filter (\<lambda>i. P (xs ! i)) [0..<length xs]) = filter P xs"
  using filter_map [of P "(!) xs" "[0..<length xs]"] by (simp add: map_nth comp_def)

lemma looks_up_nth: "looks_up ws (map (\<lambda>i. (f i, g i)) [0..<n]) \<Longrightarrow> i < n \<Longrightarrow> map_of ws (f i) = Some (g i)"
  by (auto simp: looks_up_def list_all_iff)

lemma map_of_filter: "map_of (filter (\<lambda>(x, v). Q x) ws) x = (if Q x then map_of ws x else None)"
  by (induction ws) auto

lemma mod_8: "(8 * int i) mod 8 = 0" "(8 * int i + 1) mod 8 = 1"
  by presburger+

lemma startup_writes:
  assumes ok: "startup_ok p on pcm analog mix outs ins mux"
  shows "i < length mux \<Longrightarrow> last_write p 0x3206 (int i) = Some (mux ! i)"
    and "i < length mux \<Longrightarrow> m < 2 \<Longrightarrow> last_write p 0x3c00 (8 * int i + int m) = Some (if mux ! i = pcm + int m then on else -32768)"
    and "k < outs \<Longrightarrow> last_write p 0x3300 (int k) = Some (mix + int (k mod 2))"
    and "k \<le> outs \<Longrightarrow> last_write p 0x0a02 (int k) = Some 0"
    and "j < ins \<Longrightarrow> last_write p 0x3400 (int j) = Some (analog + int j)"
proof -
  have e: "map (\<lambda>(i, s). F i s) (zip [0..<length mux] mux) = map (\<lambda>i. F i (mux ! i)) [0..<length mux]" for F :: "nat \<Rightarrow> int \<Rightarrow> int \<times> int"
    by (simp add: zip_upt)
  note ok' = ok [unfolded startup_ok_def e]
  show "i < length mux \<Longrightarrow> last_write p 0x3206 (int i) = Some (mux ! i)"
    using looks_up_nth [OF ok' [THEN conjunct2, THEN conjunct1]] by simp
  show "k < outs \<Longrightarrow> last_write p 0x3300 (int k) = Some (mix + int (k mod 2))"
    using looks_up_nth [OF ok' [THEN conjunct2, THEN conjunct2, THEN conjunct2, THEN conjunct2, THEN conjunct1]] by simp
  show "k \<le> outs \<Longrightarrow> last_write p 0x0a02 (int k) = Some 0"
    using looks_up_nth [OF ok' [THEN conjunct2, THEN conjunct2, THEN conjunct2, THEN conjunct2, THEN conjunct2, THEN conjunct1]] by simp
  show "j < ins \<Longrightarrow> last_write p 0x3400 (int j) = Some (analog + int j)"
    using looks_up_nth [OF ok' [THEN conjunct2, THEN conjunct2, THEN conjunct2, THEN conjunct2, THEN conjunct2, THEN conjunct2]] by simp
  show "last_write p 0x3c00 (8 * int i + int m) = Some (if mux ! i = pcm + int m then on else -32768)" if "i < length mux" "m < 2"
  proof (cases "m = 0")
    case True
    have "map_of (filter (\<lambda>(x, v). x mod 8 = 0) (block p 0x3c00)) (8 * int i) = Some (if mux ! i = pcm then on else -32768)"
      using looks_up_nth [OF ok' [THEN conjunct2, THEN conjunct2, THEN conjunct1] that(1)] by simp
    then show ?thesis using True map_of_filter [of "\<lambda>x. x mod 8 = 0" "block p 0x3c00" "8 * int i"] mod_8 by simp
  next
    case False
    have "map_of (filter (\<lambda>(x, v). x mod 8 = 1) (block p 0x3c00)) (8 * int i + 1) = Some (if mux ! i = pcm + 1 then on else -32768)"
      using looks_up_nth [OF ok' [THEN conjunct2, THEN conjunct2, THEN conjunct2, THEN conjunct1] that(1)] by simp
    then show ?thesis using False that(2) map_of_filter [of "\<lambda>x. x mod 8 = 1" "block p 0x3c00" "8 * int i + 1"] mod_8 by (simp add: less_2_cases_iff)
  qed
qed

lemma startup_registers:
  assumes rd: "register_device (cd_bus cd) reg" and dev: "device_of (ch_usb_id (cd_chip cd)) = Some info"
    and s: "scarlett_mixer_controls cd ([], d) = ((ks, d'), Inr ())"
  defines "r \<equiv> register (cd_chip cd) (reg d')"
  shows "i < 18 \<Longrightarrow> r 0x32 (0x600 + i) = di_matrix_mux_init info ! i"
    and "i < 18 \<Longrightarrow> m < 2 \<Longrightarrow> r 0x3c (8 * i + m) = (if di_matrix_mux_init info ! i = di_pcm_start info + int m
      then on_gain info else -32768)"
    and "k < di_output_len info \<Longrightarrow> r 0x33 k = di_mix_start info + int (k mod 2)"
    and "k \<le> di_output_len info \<Longrightarrow> r 0x0a (0x200 + k) = 0"
    and "j < di_input_len info \<Longrightarrow> r 0x34 j = di_analog_start info + int j"
proof -
  have facts: "startup_ok (info_ints info) (on_gain info) (di_pcm_start info) (di_analog_start info) (di_mix_start info)
       (di_output_len info) (di_input_len info) (di_matrix_mux_init info)"
    "length (di_matrix_mux_init info) = 18" "di_matrix_in info = 18" "di_output_len info \<le> 20" "di_input_len info \<le> 18"
    using device_ok [OF dev] by (auto simp: info_ok_def)
  have ints: "map as_ints (mixer_plan info) = info_ints info" by (rule as_ints_mixer) (simp add: facts)
  have run: "run_plan cd (mixer_plan info) ([], d) = ((ks, d'), Inr ())"
    using s scarlett_mixer_controls_plan [OF dev] by simp
  have ok: "int_ok False False (map as_ints (mixer_plan info))" using facts(1) ints by (simp add: startup_ok_def)
  have reg: "u < 256 \<Longrightarrow> w < 65536 \<Longrightarrow> last_write (info_ints info) (256 * int u + int (w div 256)) (int (w mod 256)) = Some v \<Longrightarrow>
      r u w = v" for u w v
    using plan_register [OF rd ok offsets_mixer run, of u w v] ints by (simp add: r_def)
  note writes = startup_writes [OF facts(1), unfolded facts(2)]
  have div_mod: "(0x600 + n) div 256 = 6" "(0x600 + n) mod 256 = n" "(0x200 + n) div 256 = 2" "(0x200 + n) mod 256 = n"
    "n div 256 = 0" "n mod 256 = n" if "n < 256" for n :: nat
    using that by (auto intro!: div_nat_eqI mod_nat_eqI)
  show "i < 18 \<Longrightarrow> r 0x32 (0x600 + i) = di_matrix_mux_init info ! i"
    by (rule reg) (use writes(1) [of i] div_mod [of i] in simp_all)
  show "i < 18 \<Longrightarrow> m < 2 \<Longrightarrow> r 0x3c (8 * i + m) = (if di_matrix_mux_init info ! i = di_pcm_start info + int m
      then on_gain info else -32768)"
    by (rule reg) (use writes(2) [of i m] div_mod [of "8 * i + m"] in simp_all)
  show "k < di_output_len info \<Longrightarrow> r 0x33 k = di_mix_start info + int (k mod 2)"
    by (rule reg) (use writes(3) [of k] facts(4) div_mod [of k] in simp_all)
  show "k \<le> di_output_len info \<Longrightarrow> r 0x0a (0x200 + k) = 0"
    by (rule reg) (use writes(4) [of k] facts(4) div_mod [of k] in simp_all)
  show "j < di_input_len info \<Longrightarrow> r 0x34 j = di_analog_start info + int j"
    by (rule reg) (use writes(5) [of j] facts(5) div_mod [of j] in simp_all)
qed


text \<open>
  What is heard: the sources that are mixed with a gain above the lowest, and the sources of an output,
  which is fed by one source or by a mix.
\<close>

definition mix_sources :: "device_info \<Rightarrow> (nat \<Rightarrow> nat \<Rightarrow> int) \<Rightarrow> nat \<Rightarrow> int list" where
  "mix_sources info r m = map (\<lambda>i. r 0x32 (0x600 + i)) (filter (\<lambda>i. r 0x3c (8 * i + m) \<noteq> -32768) [0..<di_matrix_in info])"

definition heard :: "device_info \<Rightarrow> (nat \<Rightarrow> nat \<Rightarrow> int) \<Rightarrow> nat \<Rightarrow> int list" where
  "heard info r out = (let s = r 0x33 out in
     if s < 0 then [] else if s < di_mix_start info then [s] else mix_sources info r (nat (s - di_mix_start info)))"

lemma startup_heard:
  assumes rd: "register_device (cd_bus cd) reg" and dev: "device_of (ch_usb_id (cd_chip cd)) = Some info"
    and s: "scarlett_mixer_controls cd ([], d) = ((ks, d'), Inr ())" and out: "out < di_output_len info"
  shows "heard info (register (cd_chip cd) (reg d')) out = (if di_controls_fn info = S18I20 then [] else [int (out mod 2)])"
proof -
  let ?r = "register (cd_chip cd) (reg d')" and ?mux = "di_matrix_mux_init info" and ?m = "out mod 2"
  note regs = startup_registers [OF rd dev s]
  have ok: "length ?mux = 18" "di_matrix_in info = 18" "0 \<le> di_mix_start info" "di_pcm_start info = 0"
    "filter (\<lambda>s. s = 0) ?mux = [0]" "filter (\<lambda>s. s = 1) ?mux = [1]"
    using device_ok [OF dev] by (auto simp: info_ok_def)
  have m: "?m < 2" by simp
  have "mix_sources info ?r ?m = map ((!) ?mux) (filter (\<lambda>i. ?r 0x3c (8 * i + ?m) \<noteq> -32768) [0..<length ?mux])"
    unfolding mix_sources_def ok(1,2) by (rule map_cong) (use regs(1) in auto)
  also have "filter (\<lambda>i. ?r 0x3c (8 * i + ?m) \<noteq> -32768) [0..<length ?mux] =
      filter (\<lambda>i. ?mux ! i = int ?m \<and> on_gain info \<noteq> -32768) [0..<length ?mux]"
    by (rule filter_cong) (use regs(2) [OF _ m] ok(1,4) in \<open>auto split: if_splits\<close>)
  also have "map ((!) ?mux) \<dots> = filter (\<lambda>s. s = int ?m \<and> on_gain info \<noteq> -32768) ?mux" by (rule nth_filter_map)
  also have "\<dots> = (if di_controls_fn info = S18I20 then [] else [int ?m])"
  proof (cases "?m = 0")
    case False
    then have "?m = 1" using m by linarith
    then show ?thesis using ok(6) by (simp add: on_gain_def)
  qed (use ok(5) in \<open>simp add: on_gain_def\<close>)
  finally show ?thesis using regs(3) [OF out] ok(3) by (simp add: heard_def)
qed

text \<open>A card on which nothing fails.\<close>

definition plain_card :: "u32 \<Rightarrow> (address \<Rightarrow> u8 list) card" where
  "plain_card u = \<lparr>cd_bus = plain_bus, cd_chip = plain_chip\<lparr>ch_usb_id := u\<rparr>, cd_kzalloc = \<lambda>_. True, cd_ctl_new1 = \<lambda>_. True,
     cd_ctl_add = \<lambda>_. Inr ()\<rparr>"

lemma plain_set: "\<exists>e d1. set_ctl_value plain_bus (plain_chip\<lparr>ch_usb_id := u\<rparr>) elem c v d = (e, d1, Inr ())"
  by (simp add: set_ctl_value_def set_ctl_urb2_def snd_usb_autoresume_def plain_chip_def plain_bus_def eval_nat_numeral
      snd_usb_ctl_msg_def snd_usb_autosuspend_def)

lemma plain_init: "\<exists>e d1. init_channels plain_bus (plain_chip\<lparr>ch_usb_id := u\<rparr>) v cs elem d = (e, d1, Inr ())"
proof (induction cs arbitrary: elem d)
  case (Cons c cs)
  obtain e d1 where "set_ctl_value plain_bus (plain_chip\<lparr>ch_usb_id := u\<rparr>) elem c v d = (e, d1, Inr ())" using plain_set by blast
  then show ?case using Cons.IH [of e d1] by simp
qed simp

lemma plain_step: "\<exists>s1. do_step (plain_card u) st s = (s1, Inr ())"
proof (cases st)
  case (Init v)
  obtain ks d where s: "s = (ks, d)" by (cases s)
  show ?thesis
  proof (cases ks)
    case (Cons k ks0)
    obtain e d1 where "init_channels plain_bus (plain_chip\<lparr>ch_usb_id := u\<rparr>) v [0..<el_count (kc_elem k)] (kc_elem k) d = (e, d1, Inr ())"
      using plain_init by blast
    then show ?thesis using Init s Cons by (simp add: init_ctl_def plain_card_def)
  qed (use Init s in \<open>simp add: init_ctl_def\<close>)
qed (cases s, simp add: add_new_ctl_def plain_card_def)

lemma plain_run: "\<exists>s1. run_plan (plain_card u) p s = (s1, Inr ())"
proof (induction p arbitrary: s)
  case (Cons st p)
  obtain s1 where "do_step (plain_card u) st s = (s1, Inr ())" using plain_step by blast
  then show ?case using Cons.IH [of s1] by simp
qed simp

lemma plain_controls:
  assumes "device_of u = Some info"
  obtains ks d' where "scarlett_mixer_controls (plain_card u) ([], d) = ((ks, d'), Inr ())"
  using plain_run [of u "mixer_plan info" "([], d)"] scarlett_mixer_controls_plan [of "plain_card u" info] assms
  by (auto simp: plain_card_def plain_chip_def)

lemma plain_devices: "device_of 0x12358004 = Some s18i6_info" "device_of 0x1235800c = Some s18i20_info"
  by (simp_all add: device_of_def USB_ID_def)

lemma plain_card_simps: "cd_bus (plain_card u) = plain_bus" "ch_usb_id (cd_chip (plain_card u)) = u"
  by (simp_all add: plain_card_def)



text \<open>
  C36: On an 18i20, whose 16 mixes share 8 gain registers per input, the gains of the mixes A and B are
  overwritten by those of the mixes I and J: after a successful setup nothing is heard on any output.
\<close>

theorem scarlett_mixer_controls_silent:
  assumes rd: "register_device (cd_bus cd) reg" and dev: "device_of (ch_usb_id (cd_chip cd)) = Some s18i20_info"
    and s: "scarlett_mixer_controls cd ([], d) = ((ks, d'), Inr ())"
  shows "\<forall>out < 20. heard s18i20_info (register (cd_chip cd) (reg d')) out = []"
  using startup_heard [OF rd dev s] by (simp add: s18i20_info_def)

theorem scarlett_mixer_controls_silent_witness:
  "\<exists>ks d'. scarlett_mixer_controls (plain_card 0x1235800c) ([], \<lambda>_. [0, 0]) = ((ks, d'), Inr ()) \<and>
     heard s18i20_info (register (cd_chip (plain_card 0x1235800c)) d') 0 = []"
proof -
  obtain ks d' where s: "scarlett_mixer_controls (plain_card 0x1235800c) ([], \<lambda>_. [0, 0]) = ((ks, d'), Inr ())"
    using plain_controls [OF plain_devices(2)] .
  have "register_device (cd_bus (plain_card 0x1235800c)) (\<lambda>d. d)" by (simp add: plain_card_simps plain_bus_registers)
  then show ?thesis
    using scarlett_mixer_controls_silent [where reg = "\<lambda>d. d", OF _ _ s] s plain_devices(2) by (auto simp: plain_card_simps)
qed


lemma ctl_run_length: "length (fst (ctl_run bus chip ops s)) = length (fst s)"
proof (induction ops arbitrary: s)
  case (Cons op ops)
  have "length (fst (ctl_do bus chip op s)) = length (fst s)"
    by (cases s; cases op) (auto split: prod.splits option.splits)
  then show ?case using Cons.IH [of "ctl_do bus chip op s"] by (simp add: ctl_run_def)
qed (simp add: ctl_run_def)


end
