(* ===== verification/Seq_Event.thy ===== *)
theory Seq_Event
  imports Alsa_Prelude
begin

text \<open>
  The events of the sequencer (\<open>include/uapi/sound/asequencer.h\<close>, \<open>include/sound/asequencer.h\<close>): the
  28 bytes of an event, its fields and the members of its union, and the comparison of time stamps of
  \<open>sound/core/seq/seq_timer.h\<close> and \<open>seq_prioq.c\<close>.
\<close>

section \<open>Little-endian words\<close>

definition get32 :: "u8 list \<Rightarrow> nat \<Rightarrow> u32" where
  "get32 bs i = ucast (bs ! i) OR push_bit 8 (ucast (bs ! (i + 1))) OR push_bit 16 (ucast (bs ! (i + 2))) OR
     push_bit 24 (ucast (bs ! (i + 3)))"

definition bytes32 :: "u32 \<Rightarrow> u8 list" where
  "bytes32 v = [ucast v, ucast (drop_bit 8 v), ucast (drop_bit 16 v), ucast (drop_bit 24 v)]"

definition put32 :: "u32 \<Rightarrow> nat \<Rightarrow> u8 list \<Rightarrow> u8 list" where
  "put32 v i bs = bs[i := ucast v, i + 1 := ucast (drop_bit 8 v), i + 2 := ucast (drop_bit 16 v), i + 3 := ucast (drop_bit 24 v)]"

lemma length_bytes32 [simp]: "length (bytes32 v) = 4"
  by (simp add: bytes32_def)

lemma length_put32 [simp]: "length (put32 v i bs) = length bs"
  by (simp add: put32_def)

lemma bytes_of_word: "ucast (ucast (v :: u32) :: u8) OR push_bit 8 (ucast (ucast (drop_bit 8 v) :: u8)) OR
    push_bit 16 (ucast (ucast (drop_bit 16 v) :: u8)) OR push_bit 24 (ucast (ucast (drop_bit 24 v) :: u8)) = v"
proof (rule bit_word_eqI)
  fix n assume "n < LENGTH(32)"
  then consider "n < 8" | "8 \<le> n" "n < 16" | "16 \<le> n" "n < 24" | "24 \<le> n" "n < 32" by fastforce
  then show "bit (ucast (ucast v :: u8) OR push_bit 8 (ucast (ucast (drop_bit 8 v) :: u8)) OR
    push_bit 16 (ucast (ucast (drop_bit 16 v) :: u8)) OR push_bit 24 (ucast (ucast (drop_bit 24 v) :: u8)) :: u32) n = bit v n"
    by cases (auto simp: bit_or_iff bit_push_bit_iff bit_ucast_iff bit_drop_bit_eq)
qed

lemma get32_put32: "i + 3 < length bs \<Longrightarrow> get32 (put32 v i bs) i = v"
  using bytes_of_word [of v] by (simp add: get32_def put32_def nth_list_update)

lemma get32_bytes32 [simp]: "get32 (bytes32 v @ bs) 0 = v"
  using bytes_of_word [of v] by (simp add: get32_def bytes32_def numeral_2_eq_2 numeral_3_eq_3)

lemma bytes32_get32:
  assumes "i + 4 \<le> length bs"
  shows "bytes32 (get32 bs i) = take 4 (drop i bs)"
proof -
  have u: "ucast (ucast (a :: u8) OR push_bit 8 (ucast (b :: u8)) OR push_bit 16 (ucast (c :: u8)) OR push_bit 24 (ucast (d :: u8)) :: u32) = a"
    "ucast (drop_bit 8 (ucast a OR push_bit 8 (ucast b) OR push_bit 16 (ucast c) OR push_bit 24 (ucast d) :: u32)) = b"
    "ucast (drop_bit 16 (ucast a OR push_bit 8 (ucast b) OR push_bit 16 (ucast c) OR push_bit 24 (ucast d) :: u32)) = c"
    "ucast (drop_bit 24 (ucast a OR push_bit 8 (ucast b) OR push_bit 16 (ucast c) OR push_bit 24 (ucast d) :: u32)) = d"
    for a b c d :: u8
    by (rule bit_word_eqI, auto simp: bit_or_iff bit_push_bit_iff bit_ucast_iff bit_drop_bit_eq dest: bit_imp_le_length)+
  have t: "take 4 (drop i bs) = [bs ! i, bs ! (i + 1), bs ! (i + 2), bs ! (i + 3)]"
    using assms by (intro nth_equalityI) (auto simp: less_Suc_eq numeral_eq_Suc)
  show ?thesis unfolding bytes32_def get32_def u t ..
qed

section \<open>Events\<close>

text \<open>
  The first word of a time stamp is the tick or the seconds. \<open>ev_data\<close> are the twelve bytes of the union.
\<close>

type_synonym timestamp = "u32 \<times> u32"
type_synonym seq_addr = "u8 \<times> u8"

record snd_seq_event =
  ev_type :: u8
  ev_flags :: u8
  ev_tag :: u8
  ev_queue :: u8
  ev_time :: timestamp
  ev_source :: seq_addr
  ev_dest :: seq_addr
  ev_data :: "u8 list"

abbreviation ts_tick :: "timestamp \<Rightarrow> u32" where "ts_tick \<equiv> fst"
abbreviation tv_sec :: "timestamp \<Rightarrow> u32" where "tv_sec \<equiv> fst"
abbreviation tv_nsec :: "timestamp \<Rightarrow> u32" where "tv_nsec \<equiv> snd"

definition event_bytes :: "snd_seq_event \<Rightarrow> u8 list" where
  "event_bytes ev = [ev_type ev, ev_flags ev, ev_tag ev, ev_queue ev] @ bytes32 (fst (ev_time ev)) @ bytes32 (snd (ev_time ev)) @
     [fst (ev_source ev), snd (ev_source ev), fst (ev_dest ev), snd (ev_dest ev)] @ ev_data ev"

definition event_of :: "u8 list \<Rightarrow> snd_seq_event" where
  "event_of bs = \<lparr>ev_type = bs ! 0, ev_flags = bs ! 1, ev_tag = bs ! 2, ev_queue = bs ! 3,
     ev_time = (get32 bs 4, get32 bs 8), ev_source = (bs ! 12, bs ! 13), ev_dest = (bs ! 14, bs ! 15),
     ev_data = take 12 (drop 16 bs)\<rparr>"

abbreviation EVENT_SIZE :: nat where "EVENT_SIZE \<equiv> 28"

lemma length_event_bytes [simp]: "length (event_bytes ev) = 16 + length (ev_data ev)"
  by (simp add: event_bytes_def)

lemma get32_shift: "length xs = n \<Longrightarrow> get32 (xs @ ys) (n + i) = get32 ys i"
  by (simp add: get32_def nth_append)

lemma event_of_bytes [simp]: "length (ev_data ev) = 12 \<Longrightarrow> event_of (event_bytes ev) = ev"
  by (simp add: event_of_def event_bytes_def bytes32_def get32_def bytes_of_word)

text \<open>Flags.\<close>

abbreviation TIME_STAMP_MASK :: u8 where "TIME_STAMP_MASK \<equiv> 1"
abbreviation TIME_MODE_MASK :: u8 where "TIME_MODE_MASK \<equiv> 2"
abbreviation EVENT_LENGTH_MASK :: u8 where "EVENT_LENGTH_MASK \<equiv> 12"
abbreviation EVENT_LENGTH_VARIABLE :: u8 where "EVENT_LENGTH_VARIABLE \<equiv> 4"
abbreviation PRIORITY_MASK :: u8 where "PRIORITY_MASK \<equiv> 16"

definition is_tick :: "snd_seq_event \<Rightarrow> bool" where
  "is_tick ev \<longleftrightarrow> ev_flags ev AND TIME_STAMP_MASK = 0"

definition is_reltime :: "snd_seq_event \<Rightarrow> bool" where
  "is_reltime ev \<longleftrightarrow> ev_flags ev AND TIME_MODE_MASK \<noteq> 0"

definition is_variable :: "snd_seq_event \<Rightarrow> bool" where
  "is_variable ev \<longleftrightarrow> ev_flags ev AND EVENT_LENGTH_MASK = EVENT_LENGTH_VARIABLE"

definition is_prior :: "snd_seq_event \<Rightarrow> bool" where
  "is_prior ev \<longleftrightarrow> ev_flags ev AND PRIORITY_MASK \<noteq> 0"

definition is_channel_type :: "snd_seq_event \<Rightarrow> bool" where
  "is_channel_type ev \<longleftrightarrow> 5 \<le> ev_type ev \<and> ev_type ev < 20"

definition set_length :: "u8 \<Rightarrow> snd_seq_event \<Rightarrow> snd_seq_event" where
  "set_length l ev = ev\<lparr>ev_flags := ev_flags ev AND NOT EVENT_LENGTH_MASK OR l\<rparr>"

text \<open>Members of the union: notes and controls, external data.\<close>

abbreviation note_channel :: "snd_seq_event \<Rightarrow> u8" where "note_channel ev \<equiv> ev_data ev ! 0"
abbreviation note_note :: "snd_seq_event \<Rightarrow> u8" where "note_note ev \<equiv> ev_data ev ! 1"
abbreviation note_velocity :: "snd_seq_event \<Rightarrow> u8" where "note_velocity ev \<equiv> ev_data ev ! 2"
abbreviation control_param :: "snd_seq_event \<Rightarrow> u32" where "control_param ev \<equiv> get32 (ev_data ev) 4"
abbreviation control_value :: "snd_seq_event \<Rightarrow> u32" where "control_value ev \<equiv> get32 (ev_data ev) 8"

definition set_byte :: "nat \<Rightarrow> u8 \<Rightarrow> snd_seq_event \<Rightarrow> snd_seq_event" where
  "set_byte i b ev = ev\<lparr>ev_data := (ev_data ev)[i := b]\<rparr>"

definition set_word :: "nat \<Rightarrow> u32 \<Rightarrow> snd_seq_event \<Rightarrow> snd_seq_event" where
  "set_word i v ev = ev\<lparr>ev_data := put32 v i (ev_data ev)\<rparr>"

abbreviation EXT_USRPTR :: u32 where "EXT_USRPTR \<equiv> 0x80000000"
abbreviation EXT_CHAINED :: u32 where "EXT_CHAINED \<equiv> 0x40000000"
abbreviation EXT_MASK :: u32 where "EXT_MASK \<equiv> 0xc0000000"

abbreviation ext_len :: "snd_seq_event \<Rightarrow> u32" where "ext_len ev \<equiv> get32 (ev_data ev) 0"

definition ext_ptr :: "snd_seq_event \<Rightarrow> u64" where
  "ext_ptr ev = ucast (get32 (ev_data ev) 4) OR push_bit 32 (ucast (get32 (ev_data ev) 8))"

definition set_ext_ptr :: "u64 \<Rightarrow> snd_seq_event \<Rightarrow> snd_seq_event" where
  "set_ext_ptr p ev = set_word 8 (ucast (drop_bit 32 p)) (set_word 4 (ucast p) ev)"

section \<open>Time stamps\<close>

definition snd_seq_compare_tick_time :: "u32 \<Rightarrow> u32 \<Rightarrow> bool" where
  "snd_seq_compare_tick_time a b \<longleftrightarrow> a \<ge> b"

definition snd_seq_compare_real_time :: "timestamp \<Rightarrow> timestamp \<Rightarrow> bool" where
  "snd_seq_compare_real_time a b \<longleftrightarrow>
     (if tv_sec a > tv_sec b then True else tv_sec a = tv_sec b \<and> tv_nsec a \<ge> tv_nsec b)"

definition compare_timestamp :: "snd_seq_event \<Rightarrow> snd_seq_event \<Rightarrow> bool" where
  "compare_timestamp a b \<longleftrightarrow>
     (if is_tick a then snd_seq_compare_tick_time (ts_tick (ev_time a)) (ts_tick (ev_time b))
      else snd_seq_compare_real_time (ev_time a) (ev_time b))"

definition compare_timestamp_rel :: "snd_seq_event \<Rightarrow> snd_seq_event \<Rightarrow> int" where
  "compare_timestamp_rel a b =
     (if is_tick a then
        (if ts_tick (ev_time a) > ts_tick (ev_time b) then 1
         else if ts_tick (ev_time a) = ts_tick (ev_time b) then 0 else -1)
      else if tv_sec (ev_time a) > tv_sec (ev_time b) then 1
      else if tv_sec (ev_time a) = tv_sec (ev_time b) then
        (if tv_nsec (ev_time a) > tv_nsec (ev_time b) then 1
         else if tv_nsec (ev_time a) = tv_nsec (ev_time b) then 0 else -1)
      else -1)"

text \<open>The time of an event in a queue for ticks or for real time, as one number.\<close>

definition ts_key :: "bool \<Rightarrow> timestamp \<Rightarrow> nat" where
  "ts_key tick t = (if tick then unat (fst t) else unat (fst t) * 2 ^ 32 + unat (snd t))"

definition event_key :: "snd_seq_event \<Rightarrow> nat" where
  "event_key ev = ts_key (is_tick ev) (ev_time ev)"

lemma lex_le: "n < (2 :: nat) ^ 32 \<Longrightarrow> m < 2 ^ 32 \<Longrightarrow> (a * 2 ^ 32 + n \<le> b * 2 ^ 32 + m) = (a < b \<or> a = b \<and> n \<le> m)"
  by (cases a b rule: linorder_cases) auto

lemma lex_key: "ts_key False s \<le> ts_key False t \<longleftrightarrow> tv_sec s < tv_sec t \<or> tv_sec s = tv_sec t \<and> tv_nsec s \<le> tv_nsec t"
  using lex_le [of "unat (snd s)" "unat (snd t)" "unat (fst s)" "unat (fst t)"] by (simp add: ts_key_def word_nat)

lemma lex_eq: "ts_key False s = ts_key False t \<longleftrightarrow> s = t"
proof
  assume e: "ts_key False s = ts_key False t"
  have "tv_sec s \<le> tv_sec t" "tv_sec t \<le> tv_sec s" using lex_key [of s t] lex_key [of t s] e by auto
  then have "tv_sec s = tv_sec t" by simp
  moreover from this have "tv_nsec s = tv_nsec t" using lex_key [of s t] lex_key [of t s] e by auto
  ultimately show "s = t" by (simp add: prod_eq_iff)
qed simp

lemma lex_less: "ts_key False s < ts_key False t \<longleftrightarrow> tv_sec s < tv_sec t \<or> tv_sec s = tv_sec t \<and> tv_nsec s < tv_nsec t"
  unfolding not_le [symmetric] lex_key by auto

lemma real_time_key: "snd_seq_compare_real_time a b \<longleftrightarrow> ts_key False b \<le> ts_key False a"
  by (auto simp: snd_seq_compare_real_time_def lex_key)

lemma compare_timestamp_key: "is_tick b = is_tick a \<Longrightarrow> compare_timestamp a b \<longleftrightarrow> event_key b \<le> event_key a"
  by (auto simp: compare_timestamp_def event_key_def real_time_key snd_seq_compare_tick_time_def ts_key_def word_nat)

lemma compare_timestamp_rel_key:
  assumes tick: "is_tick b = is_tick a"
  shows "compare_timestamp_rel a b = (if event_key b < event_key a then 1 else if event_key a = event_key b then 0 else -1)"
proof (cases "is_tick a")
  case False
  then show ?thesis by (auto simp: compare_timestamp_rel_def event_key_def lex_less lex_eq prod_eq_iff tick)
qed (simp add: compare_timestamp_rel_def event_key_def ts_key_def word_nat tick)

end
