(* ===== verification/Seq_Memory.thy ===== *)
theory Seq_Memory
  imports Seq_Event "HOL-Library.Multiset"
begin

text \<open>
  The cells of the sequencer and the pools they are taken from (\<open>sound/core/seq/seq_memory.c\<close>). Cells are
  named by their addresses, \<open>0\<close> is the null pointer, and a pool by a number. The memory that holds
  external data, and what happens while a caller sleeps for a free cell, are arguments.
\<close>

section \<open>Cells and pools\<close>

text \<open>A cell holds the bytes of an event, or a piece of the external data of one.\<close>

record snd_seq_event_cell =
  ce_raw :: "u8 list"
  ce_pool :: nat
  ce_next :: u64

record snd_seq_pool =
  pl_ptr :: u64
  pl_free :: u64
  pl_total_elements :: int
  pl_counter :: int
  pl_size :: int
  pl_room :: int
  pl_closing :: bool
  pl_max_used :: int
  pl_alloc_failures :: int
  pl_alloc_success :: int

type_synonym cells = "u64 \<Rightarrow> snd_seq_event_cell"

record seq_mem =
  sm_cells :: cells
  sm_pools :: "nat \<Rightarrow> snd_seq_pool"

definition cell_event :: "cells \<Rightarrow> u64 \<Rightarrow> snd_seq_event" where
  "cell_event h c = event_of (ce_raw (h c))"

definition set_next :: "u64 \<Rightarrow> u64 \<Rightarrow> cells \<Rightarrow> cells" where
  "set_next c n h = h(c := (h c)\<lparr>ce_next := n\<rparr>)"

definition set_raw :: "u64 \<Rightarrow> u8 list \<Rightarrow> cells \<Rightarrow> cells" where
  "set_raw c bs h = h(c := (h c)\<lparr>ce_raw := bs\<rparr>)"

definition set_event :: "u64 \<Rightarrow> snd_seq_event \<Rightarrow> cells \<Rightarrow> cells" where
  "set_event c ev h = set_raw c (event_bytes ev) h"

definition upd_pool :: "nat \<Rightarrow> (snd_seq_pool \<Rightarrow> snd_seq_pool) \<Rightarrow> seq_mem \<Rightarrow> seq_mem" where
  "upd_pool p f m = m\<lparr>sm_pools := (sm_pools m)(p := f (sm_pools m p))\<rparr>"

definition upd_cells :: "(cells \<Rightarrow> cells) \<Rightarrow> seq_mem \<Rightarrow> seq_mem" where
  "upd_cells f m = m\<lparr>sm_cells := f (sm_cells m)\<rparr>"

definition snd_seq_pool_available :: "snd_seq_pool \<Rightarrow> int" where
  "snd_seq_pool_available pl = pl_total_elements pl - pl_counter pl"

definition snd_seq_output_ok :: "snd_seq_pool \<Rightarrow> bool" where
  "snd_seq_output_ok pl \<longleftrightarrow> snd_seq_pool_available pl \<ge> pl_room pl"

section \<open>External data\<close>

text \<open>Kernel memory by address and length; user memory may fault.\<close>

record data_env =
  de_kernel :: "u64 \<Rightarrow> nat \<Rightarrow> u8 list"
  de_user :: "u64 \<Rightarrow> nat \<Rightarrow> u8 list option"

definition get_var_len :: "snd_seq_event \<Rightarrow> nat res" where
  "get_var_len ev = (if \<not> is_variable ev then Inl EINVAL else Inr (unat (ext_len ev AND NOT EXT_MASK)))"

text \<open>
  The data of an event, as the calls of the dump function get it: from user space in pieces of 32 bytes,
  from kernel memory at once, or from a chain of cells.
\<close>

fun dump_user :: "data_env \<Rightarrow> u64 \<Rightarrow> nat \<Rightarrow> u8 list list res" where
  "dump_user env cur len =
     (if len = 0 then Inr []
      else let sz = (if len < 32 then len else 32) in
        case de_user env cur sz of
          None \<Rightarrow> Inl EFAULT
        | Some bs \<Rightarrow> map_sum id ((#) bs) (dump_user env (cur + of_nat sz) (len - sz)))"

fun dump_cells :: "cells \<Rightarrow> u64 \<Rightarrow> nat \<Rightarrow> u8 list list" where
  "dump_cells h c len =
     (if len = 0 \<or> c = 0 then []
      else let sz = (if len < EVENT_SIZE then len else EVENT_SIZE)
           in take sz (ce_raw (h c)) # dump_cells h (ce_next (h c)) (len - sz))"

declare dump_user.simps [simp del] dump_cells.simps [simp del]

definition snd_seq_dump_var_event :: "data_env \<Rightarrow> cells \<Rightarrow> snd_seq_event \<Rightarrow> u8 list list res" where
  "snd_seq_dump_var_event env h ev =
     (case get_var_len ev of
        Inl e \<Rightarrow> Inl e
      | Inr len \<Rightarrow>
          if len = 0 then Inr []
          else if ext_len ev AND EXT_USRPTR \<noteq> 0 then dump_user env (ext_ptr ev) len
          else if ext_len ev AND EXT_CHAINED = 0 then Inr [de_kernel env (ext_ptr ev) len]
          else Inr (dump_cells h (ext_ptr ev) len))"

text \<open>
  The data put into a buffer of \<open>cnt\<close> bytes, and the length it takes there. Writing to the buffer succeeds.
\<close>

definition snd_seq_expand_var_event :: "data_env \<Rightarrow> cells \<Rightarrow> snd_seq_event \<Rightarrow> int \<Rightarrow> bool \<Rightarrow> nat \<Rightarrow> (u8 list \<times> nat) res" where
  "snd_seq_expand_var_event env h ev cnt in_kernel size_aligned =
     (case get_var_len ev of
        Inl e \<Rightarrow> Inl e
      | Inr len \<Rightarrow>
          let newlen = (if size_aligned > 0 then (len + (size_aligned - 1)) div size_aligned * size_aligned else len) in
          if cnt < int newlen then Inl EAGAIN
          else if ext_len ev AND EXT_USRPTR \<noteq> 0 then
            (if \<not> in_kernel then Inl EINVAL
             else case de_user env (ext_ptr ev) len of None \<Rightarrow> Inl EFAULT | Some bs \<Rightarrow> Inr (bs, newlen))
          else map_sum id (\<lambda>bss. (concat bss, newlen)) (snd_seq_dump_var_event env h ev))"

section \<open>Taking and returning cells\<close>

definition free_cell :: "nat \<Rightarrow> u64 \<Rightarrow> seq_mem \<Rightarrow> seq_mem" where
  "free_cell p c m = upd_pool p (\<lambda>pl. pl\<lparr>pl_free := c, pl_counter := pl_counter pl - 1\<rparr>)
     (upd_cells (set_next c (pl_free (sm_pools m p))) m)"

text \<open>Returns a chain of cells; does not end when the chain is a ring.\<close>

partial_function (option) free_chain :: "nat \<Rightarrow> u64 \<Rightarrow> seq_mem \<Rightarrow> seq_mem option" where
  "free_chain p c m =
     (if c = 0 then Some m
      else let n = ce_next (sm_cells m c);
               m1 = upd_cells (set_next c (pl_free (sm_pools m p))) m
           in free_chain p n (free_cell p c m1))"

definition snd_seq_cell_free :: "u64 \<Rightarrow> seq_mem \<Rightarrow> seq_mem option" where
  "snd_seq_cell_free c m =
     (if c = 0 then Some m
      else let p = ce_pool (sm_cells m c); m1 = free_cell p c m; ev = cell_event (sm_cells m1) c
           in if is_variable ev \<and> ext_len ev AND EXT_CHAINED \<noteq> 0 then free_chain p (ext_ptr ev) m1 else Some m1)"

text \<open>
  A caller that may block sleeps while the pool is empty; the elements of the list say what the rest of
  the system does each time, and whether a signal arrived. \<open>None\<close>: still asleep.
\<close>

type_synonym sleeps = "(seq_mem \<Rightarrow> seq_mem \<times> bool) list"

fun wait_for_cell :: "bool \<Rightarrow> nat \<Rightarrow> sleeps \<Rightarrow> seq_mem \<Rightarrow> (seq_mem \<times> sleeps \<times> unit res) option" where
  "wait_for_cell nonblock p ws m =
     (if pl_free (sm_pools m p) = 0 \<and> \<not> nonblock \<and> \<not> pl_closing (sm_pools m p) then
        (case ws of
           [] \<Rightarrow> None
         | w # ws' \<Rightarrow> let (m1, signal) = w m in
             if signal then Some (m1, ws', Inl ERESTARTSYS) else wait_for_cell nonblock p ws' m1)
      else Some (m, ws, Inr ()))"

declare wait_for_cell.simps [simp del]

definition take_cell :: "nat \<Rightarrow> seq_mem \<Rightarrow> seq_mem \<times> u64" where
  "take_cell p m =
     (let pl = sm_pools m p; c = pl_free pl; used = pl_counter pl + 1
      in (upd_cells (set_next c 0) (upd_pool p (\<lambda>_. pl\<lparr>pl_free := ce_next (sm_cells m c), pl_counter := used,
            pl_max_used := max (pl_max_used pl) used, pl_alloc_success := pl_alloc_success pl + 1\<rparr>) m), c))"

definition snd_seq_cell_alloc :: "bool \<Rightarrow> nat \<Rightarrow> sleeps \<Rightarrow> seq_mem \<Rightarrow> (seq_mem \<times> sleeps \<times> u64 res) option" where
  "snd_seq_cell_alloc nonblock p ws m =
     (if pl_ptr (sm_pools m p) = 0 then Some (m, ws, Inl EINVAL)
      else case wait_for_cell nonblock p ws m of
        None \<Rightarrow> None
      | Some (m1, ws1, Inl e) \<Rightarrow> Some (m1, ws1, Inl e)
      | Some (m1, ws1, Inr _) \<Rightarrow>
          if pl_closing (sm_pools m1 p) then Some (m1, ws1, Inl ENOMEM)
          else if pl_free (sm_pools m1 p) \<noteq> 0 then (let (m2, c) = take_cell p m1 in Some (m2, ws1, Inr c))
          else Some (upd_pool p (\<lambda>pl. pl\<lparr>pl_alloc_failures := pl_alloc_failures pl + 1\<rparr>) m1, ws1, Inl EAGAIN))"

section \<open>Copying events\<close>

text \<open>One piece of the data into cell \<open>tmp\<close>; the rest of the cell keeps what it held.\<close>

definition copy_chunk :: "data_env \<Rightarrow> bool \<Rightarrow> bool \<Rightarrow> u64 \<Rightarrow> u64 \<Rightarrow> nat \<Rightarrow> u64 \<Rightarrow> cells \<Rightarrow> (cells \<times> u64) option" where
  "copy_chunk env is_chained is_usrptr src buf sz tmp h =
     (if is_chained \<and> src \<noteq> 0 then Some (set_raw tmp (ce_raw (h src)) h, ce_next (h src))
      else if is_usrptr then
        (case de_user env buf sz of None \<Rightarrow> None | Some bs \<Rightarrow> Some (set_raw tmp (bs @ drop sz (ce_raw (h tmp))) h, src))
      else Some (set_raw tmp (de_kernel env buf sz @ drop sz (ce_raw (h tmp))) h, src))"

definition chain_cell :: "u64 \<Rightarrow> u64 \<Rightarrow> u64 \<Rightarrow> cells \<Rightarrow> cells" where
  "chain_cell c tail tmp h =
     (let h1 = (if ext_ptr (cell_event h c) = 0 then set_event c (set_ext_ptr tmp (cell_event h c)) h else h)
      in if tail \<noteq> 0 then set_next tail tmp h1 else h1)"

fun dup_loop :: "data_env \<Rightarrow> bool \<Rightarrow> nat \<Rightarrow> bool \<Rightarrow> bool \<Rightarrow> u64 \<Rightarrow> nat \<Rightarrow> nat \<Rightarrow> u64 \<Rightarrow> u64 \<Rightarrow> u64 \<Rightarrow> sleeps \<Rightarrow> seq_mem \<Rightarrow>
    (seq_mem \<times> sleeps \<times> unit res) option" where
  "dup_loop env nonblock p is_chained is_usrptr c 0 len src buf tail ws m = Some (m, ws, Inr ())"
| "dup_loop env nonblock p is_chained is_usrptr c (Suc n) len src buf tail ws m =
     (let sz = (if len < EVENT_SIZE then len else EVENT_SIZE) in
      case snd_seq_cell_alloc nonblock p ws m of
        None \<Rightarrow> None
      | Some (m1, ws1, Inl e) \<Rightarrow> Some (m1, ws1, Inl e)
      | Some (m1, ws1, Inr tmp) \<Rightarrow>
          let m2 = upd_cells (chain_cell c tail tmp) m1 in
          case copy_chunk env is_chained is_usrptr src buf sz tmp (sm_cells m2) of
            None \<Rightarrow> Some (m2, ws1, Inl EFAULT)
          | Some (h, src') \<Rightarrow>
              dup_loop env nonblock p is_chained is_usrptr c n (len - sz) src' (buf + of_nat sz) tmp ws1 (m2\<lparr>sm_cells := h\<rparr>))"

definition var_cells :: "snd_seq_event \<Rightarrow> nat \<times> nat" where
  "var_cells ev =
     (if is_variable ev then (let extlen = unat (ext_len ev AND NOT EXT_MASK) in (extlen, (extlen + EVENT_SIZE - 1) div EVENT_SIZE))
      else (0, 0))"

definition snd_seq_event_dup :: "data_env \<Rightarrow> nat \<Rightarrow> snd_seq_event \<Rightarrow> bool \<Rightarrow> sleeps \<Rightarrow> seq_mem \<Rightarrow>
    (seq_mem \<times> sleeps \<times> u64 res) option" where
  "snd_seq_event_dup env p ev nonblock ws m =
     (let (extlen, ncells) = var_cells ev in
      if int ncells \<ge> pl_total_elements (sm_pools m p) then Some (m, ws, Inl ENOMEM)
      else case snd_seq_cell_alloc nonblock p ws m of
        None \<Rightarrow> None
      | Some (m1, ws1, Inl e) \<Rightarrow> Some (m1, ws1, Inl e)
      | Some (m1, ws1, Inr c) \<Rightarrow>
          if \<not> is_variable ev then Some (upd_cells (set_event c ev) m1, ws1, Inr c)
          else
            let ev' = set_ext_ptr 0 (set_word 0 (of_nat extlen OR EXT_CHAINED) ev);
                m2 = upd_cells (set_event c ev') m1
            in case dup_loop env nonblock p (ext_len ev AND EXT_CHAINED \<noteq> 0) (ext_len ev AND EXT_USRPTR \<noteq> 0) c ncells extlen
                      (ext_ptr ev) (ext_ptr ev) 0 ws1 m2 of
                 None \<Rightarrow> None
               | Some (m3, ws2, Inr _) \<Rightarrow> Some (m3, ws2, Inr c)
               | Some (m3, ws2, Inl e) \<Rightarrow> map_option (\<lambda>m4. (m4, ws2, Inl e)) (snd_seq_cell_free c m3))"

section \<open>Pools\<close>

text \<open>The cells of a pool at address \<open>base\<close>, which the allocator chooses, each \<open>CELL_SIZE\<close> bytes after the last.\<close>

abbreviation CELL_SIZE :: nat where "CELL_SIZE \<equiv> 48"

definition cell_at :: "u64 \<Rightarrow> nat \<Rightarrow> u64" where
  "cell_at base i = base + of_nat (CELL_SIZE * i)"

definition link_free :: "u64 \<Rightarrow> nat \<Rightarrow> nat \<Rightarrow> seq_mem \<Rightarrow> seq_mem" where
  "link_free base p i m =
     upd_pool p (\<lambda>pl. pl\<lparr>pl_free := cell_at base i\<rparr>)
       (upd_cells (\<lambda>h. h(cell_at base i := (h (cell_at base i))\<lparr>ce_pool := p, ce_next := pl_free (sm_pools m p)\<rparr>)) m)"

definition snd_seq_pool_init :: "u64 \<Rightarrow> nat \<Rightarrow> seq_mem \<Rightarrow> seq_mem \<times> unit res" where
  "snd_seq_pool_init base p m =
     (if pl_ptr (sm_pools m p) \<noteq> 0 then (m, Inr ())
      else if base = 0 then (m, Inl ENOMEM)
      else (upd_pool p (\<lambda>pl. pl\<lparr>pl_room := (pl_size pl + 1) div 2, pl_max_used := 0, pl_total_elements := pl_size pl\<rparr>)
              (fold (link_free base p) [0..<nat (pl_size (sm_pools m p))]
                 (upd_pool p (\<lambda>pl. pl\<lparr>pl_ptr := base, pl_free := 0\<rparr>) m)), Inr ()))"

definition snd_seq_pool_new :: "int \<Rightarrow> snd_seq_pool" where
  "snd_seq_pool_new poolsize = \<lparr>pl_ptr = 0, pl_free = 0, pl_total_elements = 0, pl_counter = 0, pl_size = poolsize, pl_room = 0,
     pl_closing = False, pl_max_used = 0, pl_alloc_failures = 0, pl_alloc_success = 0\<rparr>"

text \<open>After the wait for the cells in use, which ends with a timeout at the latest.\<close>

definition snd_seq_pool_done :: "nat \<Rightarrow> seq_mem \<Rightarrow> seq_mem" where
  "snd_seq_pool_done p m = upd_pool p (\<lambda>pl. pl\<lparr>pl_ptr := 0, pl_free := 0, pl_total_elements := 0, pl_closing := False\<rparr>) m"

section \<open>Lists of cells\<close>

text \<open>The cells of a list linked from address \<open>a\<close>, in order.\<close>

fun chain :: "cells \<Rightarrow> u64 \<Rightarrow> u64 list \<Rightarrow> bool" where
  "chain h a [] \<longleftrightarrow> a = 0"
| "chain h a (c # cs) \<longleftrightarrow> a = c \<and> c \<noteq> 0 \<and> chain h (ce_next (h c)) cs"

lemma chain_null [simp]: "chain h 0 cs \<longleftrightarrow> cs = []"
  by (cases cs) auto

lemma chain_nonzero: "chain h a cs \<Longrightarrow> 0 \<notin> set cs"
  by (induction cs arbitrary: a) auto

lemma chain_cong: "(\<And>c. c \<in> set cs \<Longrightarrow> ce_next (h' c) = ce_next (h c)) \<Longrightarrow> chain h' a cs = chain h a cs"
  by (induction cs arbitrary: a) auto

lemma chain_unique: "chain h a cs \<Longrightarrow> chain h a ds \<Longrightarrow> cs = ds"
proof (induction cs arbitrary: a ds)
  case (Cons c cs)
  then show ?case by (cases ds) auto
qed auto

lemma chain_hd: "chain h a cs \<Longrightarrow> cs \<noteq> [] \<Longrightarrow> a = hd cs"
  by (cases cs) auto

lemma chain_drop: "chain h a (ps @ cs) \<Longrightarrow> ps \<noteq> [] \<Longrightarrow> chain h (ce_next (h (last ps))) cs"
  by (induction ps arbitrary: a) auto

lemma chain_distinct: "chain h a cs \<Longrightarrow> distinct cs"
proof (induction cs arbitrary: a)
  case (Cons c cs)
  have "c \<notin> set cs"
  proof
    assume "c \<in> set cs"
    then obtain ps qs where cs: "cs = ps @ c # qs" by (meson split_list)
    have "chain h (ce_next (h (last (c # ps)))) (c # qs)" using chain_drop [of h a "c # ps" "c # qs"] Cons.prems(1) by (simp add: cs)
    then have "chain h c (c # qs)" by simp
    then have "c # qs = c # cs" using Cons.prems chain_unique [of h c "c # qs" "c # cs"] by simp
    then show False by (simp add: cs)
  qed
  then show ?case using Cons by auto
qed simp

text \<open>A list whose last cell is linked to a new one.\<close>

lemma set_next_simps [simp]: "ce_next (set_next c n h d) = (if d = c then n else ce_next (h d))"
  "ce_raw (set_next c n h d) = ce_raw (h d)" "ce_pool (set_next c n h d) = ce_pool (h d)"
  by (simp_all add: set_next_def)

lemma set_raw_simps [simp]: "ce_next (set_raw c bs h d) = ce_next (h d)"
  "ce_raw (set_raw c bs h d) = (if d = c then bs else ce_raw (h d))" "ce_pool (set_raw c bs h d) = ce_pool (h d)"
  by (simp_all add: set_raw_def)

lemma chain_set_raw [simp]: "chain (set_raw c bs h) a cs = chain h a cs"
  by (rule chain_cong) simp

lemma chain_set_next [simp]: "c \<notin> set cs \<Longrightarrow> chain (set_next c n h) a cs = chain h a cs"
  by (rule chain_cong) auto

lemma chain_snoc:
  assumes "chain h a cs" "cs \<noteq> []" "t \<noteq> 0" "ce_next (h t) = 0" "t \<notin> set cs"
  shows "chain (set_next (last cs) t h) a (cs @ [t])"
  using assms
proof (induction cs arbitrary: a)
  case (Cons c cs)
  show ?case
  proof (cases "cs = []")
    case False
    have "c \<noteq> last cs" using chain_distinct [OF Cons.prems(1)] False by auto
    moreover have "chain (set_next (last cs) t h) (ce_next (h c)) (cs @ [t])" using Cons False by simp
    ultimately show ?thesis using Cons.prems False by simp
  qed (use Cons in auto)
qed simp

section \<open>The account of a pool\<close>

text \<open>
  \<open>free\<close> are the cells of the free list, \<open>used\<close> those handed out: each cell of the pool is on one of the
  two sides, the counter counts the second, and the total both.
\<close>

definition pool_state :: "nat \<Rightarrow> u64 list \<Rightarrow> u64 list \<Rightarrow> seq_mem \<Rightarrow> bool" where
  "pool_state p free used m \<longleftrightarrow>
     chain (sm_cells m) (pl_free (sm_pools m p)) free \<and> distinct (free @ used) \<and> 0 \<notin> set used \<and>
     (\<forall>c\<in>set (free @ used). ce_pool (sm_cells m c) = p) \<and>
     pl_counter (sm_pools m p) = int (length used) \<and> pl_total_elements (sm_pools m p) = int (length free + length used)"

definition pool_open :: "nat \<Rightarrow> seq_mem \<Rightarrow> bool" where
  "pool_open p m \<longleftrightarrow> pl_ptr (sm_pools m p) \<noteq> 0 \<and> \<not> pl_closing (sm_pools m p)"

lemma upd_simps [simp]: "sm_cells (upd_cells f m) = f (sm_cells m)" "sm_pools (upd_cells f m) = sm_pools m"
  "sm_cells (upd_pool p g m) = sm_cells m" "sm_pools (upd_pool p g m) = (sm_pools m)(p := g (sm_pools m p))"
  by (simp_all add: upd_cells_def upd_pool_def)

lemma pool_state_perm: "mset used = mset used' \<Longrightarrow> pool_state p free used m = pool_state p free used' m"
  using mset_eq_setD [of used used'] mset_eq_length [of used used'] mset_eq_imp_distinct_iff [of used used']
  by (auto simp: pool_state_def)

lemma pool_state_distinct: "pool_state p free used m \<Longrightarrow> distinct (free @ used)"
  by (simp add: pool_state_def)

lemma pool_state_cells:
  assumes "pool_state p free used m" "\<And>c. c \<in> set free \<Longrightarrow> ce_next (h c) = ce_next (sm_cells m c)"
    "\<And>c. ce_pool (h c) = ce_pool (sm_cells m c)"
  shows "pool_state p free used (m\<lparr>sm_cells := h\<rparr>)"
  using assms chain_cong [of free h "sm_cells m"] by (simp add: pool_state_def)

lemma pool_open_cells [simp]: "pool_open p (m\<lparr>sm_cells := h\<rparr>) = pool_open p m" "pool_open p (upd_cells f m) = pool_open p m"
  by (simp_all add: pool_open_def)

lemma free_cell_state:
  assumes st: "pool_state p free (c # used) m"
  shows "pool_state p (c # free) used (free_cell p c m)" "pool_open p (free_cell p c m) = pool_open p m"
    "ce_raw (sm_cells (free_cell p c m) d) = ce_raw (sm_cells m d)"
    "d \<noteq> c \<Longrightarrow> ce_next (sm_cells (free_cell p c m) d) = ce_next (sm_cells m d)"
    "sm_pools (free_cell p c m) q = sm_pools m q \<or> q = p"
proof -
  have "c \<notin> set free" using st by (auto simp: pool_state_def)
  then show "pool_state p (c # free) used (free_cell p c m)" using st by (auto simp: pool_state_def free_cell_def)
qed (auto simp: free_cell_def pool_open_def)

text \<open>A chain goes back to the free list whole.\<close>

lemma free_chain_state:
  assumes "pool_state p free (cs @ used) m" "chain (sm_cells m) a cs"
  shows "\<exists>m'. free_chain p a m = Some m' \<and> pool_state p (rev cs @ free) used m' \<and> pool_open p m' = pool_open p m \<and>
    (\<forall>d. ce_raw (sm_cells m' d) = ce_raw (sm_cells m d))"
  using assms
proof (induction cs arbitrary: a free m)
  case Nil
  then show ?case by (simp add: free_chain.simps)
next
  case (Cons c cs)
  let ?m1 = "upd_cells (set_next c (pl_free (sm_pools m p))) m"
  let ?m2 = "free_cell p c ?m1"
  have d: "c \<notin> set free" "c \<notin> set cs" "c \<noteq> 0" "a = c" using Cons.prems by (auto simp: pool_state_def)
  have "ce_next (set_next c n h e) = ce_next (h e)" if "e \<in> set free" for e n h using that d(1) by auto
  then have "pool_state p free (c # cs @ used) ?m1"
    using pool_state_cells [OF Cons.prems(1), of "set_next c (pl_free (sm_pools m p)) (sm_cells m)"] by (simp add: upd_cells_def)
  note s = free_cell_state [OF this]
  have "ce_next (sm_cells ?m2 e) = ce_next (sm_cells m e)" if "e \<in> set cs" for e using that d(2) by (subst s(4)) auto
  then have "chain (sm_cells ?m2) (ce_next (sm_cells m c)) cs"
    using Cons.prems(2) chain_cong [of cs "sm_cells ?m2" "sm_cells m"] by simp
  from Cons.IH [OF s(1) this] obtain m' where m': "free_chain p (ce_next (sm_cells m c)) ?m2 = Some m'"
    "pool_state p (rev cs @ c # free) used m'" "pool_open p m' = pool_open p ?m2"
    "\<forall>e. ce_raw (sm_cells m' e) = ce_raw (sm_cells ?m2 e)" by auto
  then show ?case using d s(2,3) by (subst free_chain.simps) (auto simp: Let_def)
qed

text \<open>A cell and the chain of its data, if it has one.\<close>

definition data_chain :: "cells \<Rightarrow> u64 \<Rightarrow> u64 list \<Rightarrow> bool" where
  "data_chain h c cs \<longleftrightarrow>
     (if is_variable (cell_event h c) \<and> ext_len (cell_event h c) AND EXT_CHAINED \<noteq> 0 then chain h (ext_ptr (cell_event h c)) cs else cs = [])"

lemma snd_seq_cell_free_state:
  assumes st: "pool_state p free (c # cs @ used) m" and dc: "data_chain (sm_cells m) c cs"
  shows "\<exists>m'. snd_seq_cell_free c m = Some m' \<and> pool_state p (rev cs @ c # free) used m' \<and> pool_open p m' = pool_open p m \<and>
    (\<forall>d. ce_raw (sm_cells m' d) = ce_raw (sm_cells m d))"
proof -
  let ?m1 = "free_cell p c m"
  note s = free_cell_state [OF st]
  have c: "c \<noteq> 0" "ce_pool (sm_cells m c) = p" "c \<notin> set cs" using st by (auto simp: pool_state_def)
  have ev: "cell_event (sm_cells ?m1) c = cell_event (sm_cells m) c" by (simp add: cell_event_def s(3))
  have ch: "chain (sm_cells ?m1) a cs = chain (sm_cells m) a cs" for a using c(3) by (intro chain_cong s(4)) auto
  show ?thesis
  proof (cases "is_variable (cell_event (sm_cells m) c) \<and> ext_len (cell_event (sm_cells m) c) AND EXT_CHAINED \<noteq> 0")
    case True
    then have "chain (sm_cells ?m1) (ext_ptr (cell_event (sm_cells m) c)) cs" using dc by (simp add: data_chain_def ch)
    from free_chain_state [OF s(1) this] show ?thesis using True c s(2,3) by (auto simp: snd_seq_cell_free_def Let_def ev)
  next
    case False
    then show ?thesis using c s dc by (auto simp: snd_seq_cell_free_def Let_def ev data_chain_def)
  qed
qed

lemma snd_seq_cell_alloc_state:
  assumes st: "pool_state p free used m" and op: "pool_open p m"
  shows "\<exists>m' r. snd_seq_cell_alloc True p ws m = Some (m', ws, r) \<and> pool_open p m' \<and>
    (\<forall>d. ce_raw (sm_cells m' d) = ce_raw (sm_cells m d)) \<and> (\<forall>d. d \<notin> set free \<longrightarrow> ce_next (sm_cells m' d) = ce_next (sm_cells m d)) \<and>
    (case free of [] \<Rightarrow> r = Inl EAGAIN \<and> pool_state p [] used m'
     | c # fs \<Rightarrow> r = Inr c \<and> pool_state p fs (c # used) m' \<and> ce_next (sm_cells m' c) = 0)"
proof (cases free)
  case Nil
  then show ?thesis using assms
    by (simp add: snd_seq_cell_alloc_def pool_open_def wait_for_cell.simps pool_state_def)
next
  case (Cons c fs)
  have f: "pl_free (sm_pools m p) = c" "c \<noteq> 0" "c \<notin> set fs" using st Cons by (auto simp: pool_state_def)
  have "pool_state p fs (c # used) (fst (take_cell p m))"
    using st Cons f by (auto simp: pool_state_def take_cell_def Let_def)
  then show ?thesis using f op Cons
    by (simp add: snd_seq_cell_alloc_def pool_open_def wait_for_cell.simps take_cell_def Let_def)
qed

end
