(* ===== verification/Seq_Dup.thy ===== *)
theory Seq_Dup
  imports Seq_Memory
begin

text \<open>
  What copying an event into a pool does (\<open>snd_seq_event_dup\<close>): whether it succeeds or fails, no cell of
  the pool is lost, and a copy holds the data that was copied.
\<close>

section \<open>Fields of an event\<close>

lemma set_event_simps [simp]: "length (ev_data e) = 12 \<Longrightarrow> cell_event (set_event c e h) c = e"
  "d \<noteq> c \<Longrightarrow> cell_event (set_event c e h) d = cell_event h d" "ce_next (set_event c e h d) = ce_next (h d)"
  "ce_pool (set_event c e h d) = ce_pool (h d)" "chain (set_event c e h) a cs = chain h a cs"
  "ce_raw (set_event c e h d) = (if d = c then event_bytes e else ce_raw (h d))"
  by (simp_all add: set_event_def cell_event_def)

lemma cell_event_set_next [simp]: "cell_event (set_next a n h) c = cell_event h c"
  by (simp add: cell_event_def)

lemma set_ext_ptr_simps [simp]: "is_variable (set_ext_ptr q e) = is_variable e" "is_variable (set_word i v e) = is_variable e"
  "length (ev_data (set_ext_ptr q e)) = length (ev_data e)" "length (ev_data (set_word i v e)) = length (ev_data e)"
  by (simp_all add: set_ext_ptr_def set_word_def is_variable_def)

lemma get32_put32_other: "j + 3 < i \<or> i + 3 < j \<Longrightarrow> get32 (put32 v i bs) j = get32 bs j"
  by (auto simp: get32_def put32_def)

lemma ext_len_set [simp]: "length (ev_data e) = 12 \<Longrightarrow> ext_len (set_ext_ptr q e) = ext_len e"
  "length (ev_data e) = 12 \<Longrightarrow> ext_len (set_word 0 v e) = v"
  by (simp_all add: set_ext_ptr_def set_word_def get32_put32 get32_put32_other)

lemma ext_ptr_set [simp]:
  assumes "length (ev_data e) = 12"
  shows "ext_ptr (set_ext_ptr q e) = q"
proof -
  have "get32 (ev_data (set_ext_ptr q e)) 4 = ucast q" "get32 (ev_data (set_ext_ptr q e)) 8 = ucast (drop_bit 32 q)"
    using assms by (simp_all add: set_ext_ptr_def set_word_def get32_put32 get32_put32_other)
  moreover have "ucast (ucast q :: u32) OR push_bit 32 (ucast (ucast (drop_bit 32 q) :: u32)) = q"
    by (rule bit_word_eqI) (auto simp: bit_or_iff bit_push_bit_iff bit_ucast_iff bit_drop_bit_eq dest: bit_imp_le_length)
  ultimately show ?thesis by (simp add: ext_ptr_def)
qed

section \<open>The loop\<close>

text \<open>The first cell \<open>c\<close> of a copy, whose data so far is in the chain \<open>cs\<close>.\<close>

definition copying :: "nat \<Rightarrow> u64 \<Rightarrow> u64 list \<Rightarrow> u64 list \<Rightarrow> u64 list \<Rightarrow> seq_mem \<Rightarrow> bool" where
  "copying p c free cs used m \<longleftrightarrow>
     pool_state p free (c # cs @ used) m \<and> pool_open p m \<and> is_variable (cell_event (sm_cells m) c) \<and>
     ext_len (cell_event (sm_cells m) c) AND EXT_CHAINED \<noteq> 0 \<and> chain (sm_cells m) (ext_ptr (cell_event (sm_cells m) c)) cs \<and>
     length (ev_data (cell_event (sm_cells m) c)) = 12"

lemma copying_data_chain: "copying p c free cs used m \<Longrightarrow> data_chain (sm_cells m) c cs"
  by (simp add: copying_def data_chain_def)

text \<open>A new cell \<open>t\<close> is linked behind the others.\<close>

lemma copying_chain_cell:
  assumes cp: "copying p c free cs used m"
    and st: "pool_state p fs (t # c # cs @ used) m1" and op: "pool_open p m1"
    and raw: "\<And>d. ce_raw (sm_cells m1 d) = ce_raw (sm_cells m d)"
    and nx: "\<And>d. d \<notin> set free \<Longrightarrow> ce_next (sm_cells m1 d) = ce_next (sm_cells m d)" "ce_next (sm_cells m1 t) = 0"
  shows "copying p c fs (cs @ [t]) used (upd_cells (chain_cell c (if cs = [] then 0 else last cs) t) m1)" (is "copying p c fs _ used ?m2")
    "d \<noteq> c \<Longrightarrow> ce_raw (sm_cells (upd_cells (chain_cell c (if cs = [] then 0 else last cs) t) m1) d) = ce_raw (sm_cells m d)"
    "ext_len (cell_event (sm_cells (upd_cells (chain_cell c (if cs = [] then 0 else last cs) t) m1)) c) = ext_len (cell_event (sm_cells m) c)"
proof -
  let ?h = "sm_cells m1" and ?e = "cell_event (sm_cells m) c"
  have ev: "cell_event ?h c = ?e" by (simp add: cell_event_def raw)
  have n: "t \<noteq> 0" "c \<noteq> 0" "t \<noteq> c" "t \<notin> set cs" "c \<notin> set cs" "0 \<notin> set cs" "t \<notin> set fs" "c \<notin> set fs" "set cs \<inter> set fs = {}"
    using st by (auto simp: pool_state_def)
  have ch: "chain ?h (ext_ptr ?e) cs"
  proof -
    have "d \<notin> set free" if "d \<in> set cs" for d using cp that by (auto simp: copying_def pool_state_def)
    then have "chain ?h (ext_ptr ?e) cs = chain (sm_cells m) (ext_ptr ?e) cs" by (intro chain_cong nx(1))
    then show ?thesis using cp by (simp add: copying_def)
  qed
  have l: "length (ev_data ?e) = 12" "is_variable ?e" "ext_len ?e AND EXT_CHAINED \<noteq> 0" using cp by (auto simp: copying_def)
  have st': "pool_state p fs (c # (cs @ [t]) @ used) m1" using st by (subst pool_state_perm [of _ "t # c # cs @ used"]) auto
  show "copying p c fs (cs @ [t]) used ?m2"
  proof (cases "cs = []")
    case True
    then have "ext_ptr ?e = 0" using ch by simp
    then have m2: "sm_cells ?m2 = set_event c (set_ext_ptr t ?e) ?h" using True by (simp add: chain_cell_def ev)
    have "pool_state p fs (c # (cs @ [t]) @ used) (m1\<lparr>sm_cells := set_event c (set_ext_ptr t ?e) ?h\<rparr>)"
      by (rule pool_state_cells [OF st']) simp_all
    then show ?thesis using True l n op nx(2) m2 by (simp add: copying_def upd_cells_def)
  next
    case False
    then have in_cs: "hd cs \<in> set cs" "last cs \<in> set cs" by simp_all
    have p0: "ext_ptr ?e \<noteq> 0" using chain_hd [OF ch False] n(6) in_cs(1) by auto
    have lc: "last cs \<noteq> 0" "last cs \<noteq> c" "last cs \<notin> set fs" using in_cs(2) n(5,6,9) by auto
    have m2: "sm_cells ?m2 = set_next (last cs) t ?h" using False p0 lc by (simp add: chain_cell_def ev)
    have "ce_next (set_next (last cs) t ?h d) = ce_next (?h d)" if "d \<in> set fs" for d using that lc(3) by auto
    then have "pool_state p fs (c # (cs @ [t]) @ used) (m1\<lparr>sm_cells := set_next (last cs) t ?h\<rparr>)"
      by (intro pool_state_cells [OF st']) simp_all
    moreover have "chain (set_next (last cs) t ?h) (ext_ptr ?e) (cs @ [t])" using chain_snoc [OF ch False n(1) nx(2) n(4)] .
    moreover have "cell_event (set_next (last cs) t ?h) c = ?e" by (simp add: cell_event_def raw)
    ultimately show ?thesis using l op m2 by (simp add: copying_def upd_cells_def)
  qed
  show "d \<noteq> c \<Longrightarrow> ce_raw (sm_cells ?m2 d) = ce_raw (sm_cells m d)" by (simp add: chain_cell_def Let_def raw)
  show "ext_len (cell_event (sm_cells ?m2) c) = ext_len ?e"
  proof (cases "ext_ptr ?e = 0")
    case True
    then have "cell_event (chain_cell c b t ?h) c = set_ext_ptr t ?e" for b using l(1) by (simp only: chain_cell_def ev Let_def if_True) simp
    then show ?thesis by (simp only: upd_simps ext_len_set(1) [OF l(1)])
  next
    case False
    then have "cell_event (chain_cell c b t ?h) c = ?e" for b by (simp only: chain_cell_def ev Let_def if_False) (simp add: ev)
    then show ?thesis by (simp only: upd_simps)
  qed
qed

lemma copy_chunk_effect:
  assumes "copy_chunk env ic iu src buf sz t h = Some (h', src')"
  shows "\<exists>bs. h' = set_raw t bs h" "\<not> ic \<Longrightarrow> \<not> iu \<Longrightarrow> ce_raw (h' t) = de_kernel env buf sz @ drop sz (ce_raw (h t))"
  using assms by (auto simp: copy_chunk_def split: if_splits option.splits)

lemma copying_set_raw:
  assumes cp: "copying p c free (cs @ [t]) used m"
  shows "copying p c free (cs @ [t]) used (m\<lparr>sm_cells := set_raw t bs (sm_cells m)\<rparr>)"
    "cell_event (set_raw t bs (sm_cells m)) c = cell_event (sm_cells m) c"
proof -
  have "t \<noteq> c" using cp by (auto simp: copying_def pool_state_def)
  then show ev: "cell_event (set_raw t bs (sm_cells m)) c = cell_event (sm_cells m) c" by (simp add: cell_event_def)
  have "pool_state p free (c # (cs @ [t]) @ used) (m\<lparr>sm_cells := set_raw t bs (sm_cells m)\<rparr>)"
    using cp by (intro pool_state_cells) (simp_all add: copying_def)
  then show "copying p c free (cs @ [t]) used (m\<lparr>sm_cells := set_raw t bs (sm_cells m)\<rparr>)" using cp by (simp add: copying_def ev)
qed

text \<open>
  The loop copies \<open>n\<close> pieces or fails; either way the cells it took hang behind \<open>c\<close>. From kernel memory,
  piece \<open>i\<close> is copied into cell \<open>i\<close>, and the loop fails only when the pool runs out.
\<close>

abbreviation piece :: "nat \<Rightarrow> nat \<Rightarrow> nat" where
  "piece len i \<equiv> min EVENT_SIZE (len - EVENT_SIZE * i)"

definition pieces_copied :: "data_env \<Rightarrow> cells \<Rightarrow> u64 \<Rightarrow> nat \<Rightarrow> u64 list \<Rightarrow> bool" where
  "pieces_copied env h buf len new \<longleftrightarrow>
     (\<forall>i<length new. take (piece len i) (ce_raw (h (new ! i))) = de_kernel env (buf + of_nat (EVENT_SIZE * i)) (piece len i))"

lemma pieces_copied_Cons:
  assumes "take (piece len 0) (ce_raw (h t)) = de_kernel env buf (piece len 0)"
    "pieces_copied env h (buf + of_nat (piece len 0)) (len - piece len 0) new" "new \<noteq> [] \<longrightarrow> EVENT_SIZE \<le> len"
  shows "pieces_copied env h buf len (t # new)"
  unfolding pieces_copied_def
proof (intro allI impI)
  fix i assume i: "i < length (t # new)"
  show "take (piece len i) (ce_raw (h ((t # new) ! i))) = de_kernel env (buf + of_nat (EVENT_SIZE * i)) (piece len i)"
  proof (cases i)
    case 0
    then show ?thesis using assms(1) by simp
  next
    case (Suc j)
    then have j: "j < length new" and l: "EVENT_SIZE \<le> len" using i assms(3) by auto
    have "piece (len - 28) j = piece len i" using Suc by simp
    moreover have "buf + of_nat 28 + of_nat (EVENT_SIZE * j) = (buf + of_nat (EVENT_SIZE * i) :: u64)" using Suc by simp
    moreover have "take (piece (len - 28) j) (ce_raw (h (new ! j))) = de_kernel env (buf + of_nat 28 + of_nat (EVENT_SIZE * j)) (piece (len - 28) j)"
      using assms(2) j l by (simp add: pieces_copied_def)
    ultimately show ?thesis using Suc by (simp add: add.assoc)
  qed
qed

lemma dup_loop_state:
  assumes "copying p c free cs used m" "\<And>a k. length (de_kernel env a k) = k" "n = 0 \<or> EVENT_SIZE * (n - 1) < len"
  shows "\<exists>m' r free' new. dup_loop env True p ic iu c n len src buf (if cs = [] then 0 else last cs) ws m = Some (m', ws, r) \<and>
    copying p c free' (cs @ new) used m' \<and> free = new @ free' \<and>
    ext_len (cell_event (sm_cells m') c) = ext_len (cell_event (sm_cells m) c) \<and>
    (\<forall>d. d \<notin> set free \<longrightarrow> d \<noteq> c \<longrightarrow> ce_raw (sm_cells m' d) = ce_raw (sm_cells m d)) \<and>
    (r = Inr () \<longrightarrow> length new = n \<and> (\<not> ic \<longrightarrow> \<not> iu \<longrightarrow> pieces_copied env (sm_cells m') buf len new)) \<and>
    (n \<le> length free \<longrightarrow> \<not> iu \<longrightarrow> r = Inr ()) \<and> r \<in> {Inr (), Inl EAGAIN, Inl EFAULT}"
  using assms(1,3)
proof (induction n arbitrary: cs free len src buf m)
  case 0
  then show ?case by (auto simp: pieces_copied_def)
next
  case (Suc n)
  let ?tail = "if cs = [] then 0 else last cs" and ?sz = "piece len 0"
  have st: "pool_state p free (c # cs @ used) m" and op: "pool_open p m" using Suc.prems by (auto simp: copying_def)
  from snd_seq_cell_alloc_state [OF st op, of ws] obtain m1 r1 where a: "snd_seq_cell_alloc True p ws m = Some (m1, ws, r1)"
    and op1: "pool_open p m1" and raw1: "\<And>d. ce_raw (sm_cells m1 d) = ce_raw (sm_cells m d)"
    and nx1: "\<And>d. d \<notin> set free \<Longrightarrow> ce_next (sm_cells m1 d) = ce_next (sm_cells m d)"
    and al: "case free of [] \<Rightarrow> r1 = Inl EAGAIN \<and> pool_state p [] (c # cs @ used) m1
       | t # fs \<Rightarrow> r1 = Inr t \<and> pool_state p fs (t # c # cs @ used) m1 \<and> ce_next (sm_cells m1 t) = 0" by blast
  have sz: "(if len < EVENT_SIZE then len else EVENT_SIZE) = ?sz" by simp
  show ?case
  proof (cases free)
    case Nil
    have ev: "cell_event (sm_cells m1) c = cell_event (sm_cells m) c" by (simp add: cell_event_def raw1)
    have "chain (sm_cells m1) (ext_ptr (cell_event (sm_cells m) c)) cs = chain (sm_cells m) (ext_ptr (cell_event (sm_cells m) c)) cs"
      by (intro chain_cong nx1) (simp add: Nil)
    then have "copying p c [] cs used m1" using Suc.prems(1) al op1 Nil by (simp add: copying_def ev)
    then show ?thesis using a al Nil by (auto simp: ev raw1)
  next
    case (Cons t fs)
    let ?m2 = "upd_cells (chain_cell c ?tail t) m1"
    have al': "r1 = Inr t" "pool_state p fs (t # c # cs @ used) m1" "ce_next (sm_cells m1 t) = 0" using al Cons by simp_all
    note cc = copying_chain_cell [OF Suc.prems(1) al'(2) op1 raw1 nx1 al'(3)]
    have nf: "t \<notin> set fs" "t \<noteq> c" using al'(2) by (auto simp: pool_state_def)
    show ?thesis
    proof (cases "copy_chunk env ic iu src buf ?sz t (sm_cells ?m2)")
      case None
      then have iu by (auto simp: copy_chunk_def split: if_splits)
      moreover have "dup_loop env True p ic iu c (Suc n) len src buf ?tail ws m = Some (?m2, ws, Inl EFAULT)"
        using a al' None by (simp add: Let_def sz split del: if_split)
      ultimately show ?thesis using cc(1,3) cc(2) Cons by (intro exI [of _ ?m2] exI [of _ "Inl EFAULT"] exI [of _ fs] exI [of _ "[t]"]) auto
    next
      case (Some hs)
      obtain h' src' where hs: "hs = (h', src')" by force
      let ?m3 = "?m2\<lparr>sm_cells := h'\<rparr>"
      note ce = copy_chunk_effect [OF Some [unfolded hs]]
      obtain bs where h': "h' = set_raw t bs (sm_cells ?m2)" using ce(1) by blast
      have cp3: "copying p c fs (cs @ [t]) used ?m3" unfolding h' by (rule copying_set_raw(1) [OF cc(1)])
      have ev3: "cell_event h' c = cell_event (sm_cells ?m2) c" unfolding h' by (rule copying_set_raw(2) [OF cc(1)])
      have run: "dup_loop env True p ic iu c (Suc n) len src buf ?tail ws m =
          dup_loop env True p ic iu c n (len - ?sz) src' (buf + of_nat ?sz) (if cs @ [t] = [] then 0 else last (cs @ [t])) ws ?m3"
        using a al' Some hs by (simp add: Let_def sz split del: if_split)
      have "n = 0 \<or> EVENT_SIZE * (n - 1) < len - ?sz" using Suc.prems(2) by (cases n) auto
      from Suc.IH [OF cp3 this, of src' "buf + of_nat ?sz"] obtain m' r free' new where
        d: "dup_loop env True p ic iu c n (len - ?sz) src' (buf + of_nat ?sz) (if cs @ [t] = [] then 0 else last (cs @ [t])) ws ?m3 = Some (m', ws, r)"
        and cp: "copying p c free' ((cs @ [t]) @ new) used m'" and fs: "fs = new @ free'"
        and el: "ext_len (cell_event (sm_cells m') c) = ext_len (cell_event (sm_cells ?m3) c)"
        and raw: "\<And>e. e \<notin> set fs \<Longrightarrow> e \<noteq> c \<Longrightarrow> ce_raw (sm_cells m' e) = ce_raw (sm_cells ?m3 e)"
        and ok: "r = Inr () \<Longrightarrow> length new = n \<and> (\<not> ic \<longrightarrow> \<not> iu \<longrightarrow> pieces_copied env (sm_cells m') (buf + of_nat ?sz) (len - ?sz) new)"
        and suf: "n \<le> length fs \<Longrightarrow> \<not> iu \<Longrightarrow> r = Inr ()" and rs: "r \<in> {Inr (), Inl EAGAIN, Inl EFAULT}" by blast
      have "pieces_copied env (sm_cells m') buf len (t # new)" if "r = Inr ()" "\<not> ic" "\<not> iu"
      proof (rule pieces_copied_Cons)
        show "take ?sz (ce_raw (sm_cells m' t)) = de_kernel env buf ?sz" using raw [OF nf] ce(2) that(2,3) assms(2) by simp
        show "pieces_copied env (sm_cells m') (buf + of_nat ?sz) (len - ?sz) new" using ok [OF that(1)] that by simp
        show "new \<noteq> [] \<longrightarrow> EVENT_SIZE \<le> len" using ok [OF that(1)] Suc.prems(2) by (cases n) auto
      qed
      moreover have "ce_raw (sm_cells m' e) = ce_raw (sm_cells m e)" if "e \<notin> set free" "e \<noteq> c" for e
        using that Cons raw [of e] cc(2) [of e] by (simp add: h')
      moreover have "ext_len (cell_event (sm_cells m') c) = ext_len (cell_event (sm_cells m) c)" using el ev3 cc(3) by simp
      ultimately show ?thesis using run d cp fs ok suf rs Cons
        by (intro exI [of _ m'] exI [of _ r] exI [of _ free'] exI [of _ "t # new"]) auto
    qed
  qed
qed

section \<open>Copies\<close>

lemma ext_mask_numerals: "(0x40000000 :: u32) AND NOT 0xc0000000 = 0" "(0x40000000 :: u32) AND 0x80000000 = 0"
  "NOT (0xc0000000 :: u32) AND 0x80000000 = 0"
  by code_simp+

lemma chained_len:
  fixes x :: u32
  defines "y \<equiv> x AND NOT EXT_MASK OR EXT_CHAINED"
  shows "y AND NOT EXT_MASK = x AND NOT EXT_MASK" "y AND EXT_USRPTR = 0" "y AND EXT_CHAINED \<noteq> 0"
proof -
  show "y AND NOT EXT_MASK = x AND NOT EXT_MASK"
    unfolding y_def bit.conj_disj_distrib2 ext_mask_numerals by (simp add: and.assoc)
  show "y AND EXT_USRPTR = 0"
    unfolding y_def bit.conj_disj_distrib2 ext_mask_numerals and.assoc by simp
  have "y AND EXT_CHAINED = EXT_CHAINED" unfolding y_def by (simp add: bit.conj_disj_distrib2 and.assoc)
  then show "y AND EXT_CHAINED \<noteq> 0" by simp
qed

lemma unmasked:
  assumes "(x :: u32) AND EXT_MASK = 0"
  shows "x AND EXT_CHAINED = 0" "x AND EXT_USRPTR = 0"
proof -
  have "x AND EXT_CHAINED = (x AND EXT_MASK) AND EXT_CHAINED" "x AND EXT_USRPTR = (x AND EXT_MASK) AND EXT_USRPTR"
    by (simp_all add: and.assoc)
  then show "x AND EXT_CHAINED = 0" "x AND EXT_USRPTR = 0" unfolding assms by simp_all
qed

definition data_len :: "snd_seq_event \<Rightarrow> nat" where
  "data_len ev = unat (ext_len ev AND NOT EXT_MASK)"

lemma snd_seq_event_dup_state:
  assumes st: "pool_state p free used m" and op: "pool_open p m" and l: "length (ev_data ev) = 12"
    and k: "\<And>a k. length (de_kernel env a k) = k"
  shows "\<exists>m' r free'. snd_seq_event_dup env p ev True ws m = Some (m', ws, r) \<and> pool_open p m' \<and>
    (int (snd (var_cells ev)) < pl_total_elements (sm_pools m p) \<longrightarrow> snd (var_cells ev) < length free \<longrightarrow> ext_len ev AND EXT_USRPTR = 0 \<or> \<not> is_variable ev \<longrightarrow> r = Inr (hd free)) \<and>
    (case r of
       Inl e \<Rightarrow> e \<in> {EAGAIN, ENOMEM, EFAULT} \<and> pool_state p free' used m' \<and> mset free' = mset free
     | Inr c \<Rightarrow> \<exists>cs. free = c # cs @ free' \<and> pool_state p free' (c # cs @ used) m' \<and> data_chain (sm_cells m') c cs \<and>
         length cs = snd (var_cells ev) \<and> (\<not> is_variable ev \<longrightarrow> cell_event (sm_cells m') c = ev) \<and>
         (is_variable ev \<longrightarrow> is_variable (cell_event (sm_cells m') c) \<and>
           ext_len (cell_event (sm_cells m') c) = ext_len ev AND NOT EXT_MASK OR EXT_CHAINED \<and>
           (ext_len ev AND EXT_MASK = 0 \<longrightarrow> pieces_copied env (sm_cells m') (ext_ptr ev) (data_len ev) cs)))"
proof (cases "int (snd (var_cells ev)) \<ge> pl_total_elements (sm_pools m p)")
  case True
  then show ?thesis using st op by (auto simp: snd_seq_event_dup_def split_beta)
next
  case nc: False
  from snd_seq_cell_alloc_state [OF st op, of ws] obtain m1 r1 where a: "snd_seq_cell_alloc True p ws m = Some (m1, ws, r1)"
    and op1: "pool_open p m1" and al: "case free of [] \<Rightarrow> r1 = Inl EAGAIN \<and> pool_state p [] used m1
       | c # fs \<Rightarrow> r1 = Inr c \<and> pool_state p fs (c # used) m1 \<and> ce_next (sm_cells m1 c) = 0" by blast
  show ?thesis
  proof (cases free)
    case Nil
    then show ?thesis using a al nc op1 by (auto simp: snd_seq_event_dup_def split_beta)
  next
    case (Cons c fs)
    have al': "r1 = Inr c" "pool_state p fs (c # used) m1" using al Cons by simp_all
    have st2: "pool_state p fs (c # used) (upd_cells (set_event c e) m1)" for e
      using pool_state_cells [OF al'(2), of "set_event c e (sm_cells m1)"] by (simp add: upd_cells_def)
    show ?thesis
    proof (cases "is_variable ev")
      case False
      then show ?thesis using a al' nc st2 [of ev] op1 l Cons
        by (auto simp: snd_seq_event_dup_def split_beta var_cells_def data_chain_def)
    next
      case True
      let ?n = "(data_len ev + 27) div 28" and ?l = "data_len ev"
      let ?ev = "set_ext_ptr 0 (set_word 0 (of_nat ?l OR EXT_CHAINED) ev)"
      let ?m2 = "upd_cells (set_event c ?ev) m1" and ?loop = "dup_loop env True p (ext_len ev AND EXT_CHAINED \<noteq> 0) (ext_len ev AND EXT_USRPTR \<noteq> 0) c"
      have e: "cell_event (set_event c ?ev (sm_cells m1)) c = ?ev" "ext_len ?ev = ext_len ev AND NOT EXT_MASK OR EXT_CHAINED"
        using l by (simp_all add: data_len_def)
      have v: "var_cells ev = (?l, ?n)" using True by (simp add: var_cells_def data_len_def Let_def)
      have cp: "copying p c fs [] used ?m2" using st2 [of ?ev] op1 True l e chained_len(3) [of "ext_len ev"] by (simp add: copying_def)
      have "?n = 0 \<or> EVENT_SIZE * (?n - 1) < ?l" by linarith
      from dup_loop_state [OF cp k this, of "ext_len ev AND EXT_CHAINED \<noteq> 0" "ext_len ev AND EXT_USRPTR \<noteq> 0" "ext_ptr ev" "ext_ptr ev" ws]
      obtain m' r free' new where d: "?loop ?n ?l (ext_ptr ev) (ext_ptr ev) 0 ws ?m2 = Some (m', ws, r)"
        and cp': "copying p c free' new used m'" and fs: "fs = new @ free'"
        and el: "ext_len (cell_event (sm_cells m') c) = ext_len (cell_event (sm_cells ?m2) c)"
        and ok: "r = Inr () \<Longrightarrow> length new = ?n \<and> (ext_len ev AND EXT_CHAINED = 0 \<longrightarrow> ext_len ev AND EXT_USRPTR = 0 \<longrightarrow> pieces_copied env (sm_cells m') (ext_ptr ev) ?l new)"
        and suf: "?n \<le> length fs \<Longrightarrow> ext_len ev AND EXT_USRPTR = 0 \<Longrightarrow> r = Inr ()" and rs: "r \<in> {Inr (), Inl EAGAIN, Inl EFAULT}" by auto
      have run: "snd_seq_event_dup env p ev True ws m = (case ?loop ?n ?l (ext_ptr ev) (ext_ptr ev) 0 ws ?m2 of None \<Rightarrow> None
          | Some (m3, ws2, Inr _) \<Rightarrow> Some (m3, ws2, Inr c) | Some (m3, ws2, Inl e) \<Rightarrow> map_option (\<lambda>m4. (m4, ws2, Inl e)) (snd_seq_cell_free c m3))"
        using nc a al' True by (simp add: snd_seq_event_dup_def v Let_def)
      show ?thesis
      proof (cases r)
        case (Inl er)
        have "pool_state p free' (c # new @ used) m'" "pool_open p m'" using cp' by (simp_all add: copying_def)
        from snd_seq_cell_free_state [OF this(1) copying_data_chain [OF cp']] this(2) obtain m4 where
          m4: "snd_seq_cell_free c m' = Some m4" "pool_state p (rev new @ c # free') used m4" "pool_open p m4" by auto
        have "\<not> (?n \<le> length fs \<and> ext_len ev AND EXT_USRPTR = 0)" using suf Inl by auto
        then show ?thesis using run d Inl m4 rs fs Cons True v by (intro exI [of _ m4] exI [of _ "Inl er"] exI [of _ "rev new @ c # free'"]) auto
      next
        case (Inr u)
        have mk: "ext_len ev AND EXT_CHAINED = 0" "ext_len ev AND EXT_USRPTR = 0" if "ext_len ev AND EXT_MASK = 0"
          by (rule unmasked(1) [OF that], rule unmasked(2) [OF that])
        have "pieces_copied env (sm_cells m') (ext_ptr ev) ?l new" if "ext_len ev AND EXT_MASK = 0" using ok mk [OF that] Inr by simp
        moreover have "length new = ?n" using ok Inr by simp
        moreover have "snd_seq_event_dup env p ev True ws m = Some (m', ws, Inr c)" using run d Inr by simp
        moreover have "ext_len (cell_event (sm_cells m') c) = ext_len ev AND NOT EXT_MASK OR EXT_CHAINED" using el e by simp
        moreover have "pool_state p free' (c # new @ used) m'" "pool_open p m'" "is_variable (cell_event (sm_cells m') c)"
          using cp' by (simp_all add: copying_def)
        ultimately show ?thesis using copying_data_chain [OF cp'] fs Cons True v
          by (intro exI [of _ m'] exI [of _ "Inr c"] exI [of _ free']) simp
      qed
    qed
  qed
qed

section \<open>A new pool\<close>

lemma unat_cell_at: "unat base + CELL_SIZE * n < 2 ^ 64 \<Longrightarrow> i \<le> n \<Longrightarrow> unat (cell_at base i) = unat base + CELL_SIZE * i"
  unfolding cell_at_def by (simp only: unat_word_ariths unat_of_nat) simp

lemma link_free_simps [simp]: "sm_pools (link_free base p i m) = (sm_pools m)(p := (sm_pools m p)\<lparr>pl_free := cell_at base i\<rparr>)"
  "sm_cells (link_free base p i m) = (sm_cells m)(cell_at base i := (sm_cells m (cell_at base i))\<lparr>ce_pool := p, ce_next := pl_free (sm_pools m p)\<rparr>)"
  by (simp_all add: link_free_def fun_eq_iff)

lemma link_all_pool: "\<exists>a. sm_pools (fold (link_free base p) is m) p = (sm_pools m p)\<lparr>pl_free := a\<rparr>"
proof (induction "is" arbitrary: m)
  case Nil
  then show ?case by (intro exI [of _ "pl_free (sm_pools m p)"]) simp
next
  case (Cons i js)
  then show ?case using Cons.IH [of "link_free base p i m"] by simp
qed

lemma link_all:
  assumes b: "base \<noteq> 0" "unat base + CELL_SIZE * n < 2 ^ 64" and "k \<le> n" "pl_free (sm_pools m p) = 0"
  defines "m' \<equiv> fold (link_free base p) [0..<k] m"
  shows "chain (sm_cells m') (pl_free (sm_pools m' p)) (rev (map (cell_at base) [0..<k])) \<and>
    (\<forall>i<k. ce_pool (sm_cells m' (cell_at base i)) = p)"
  using assms(3) unfolding m'_def
proof (induction k)
  case 0
  then show ?case using assms(4) by (simp add: fun_eq_iff)
next
  case (Suc k)
  let ?m = "fold (link_free base p) [0..<k] m"
  have u: "unat (cell_at base i) = unat base + CELL_SIZE * i" if "i \<le> k" for i using unat_cell_at [OF b(2)] that Suc.prems by simp
  have ne: "cell_at base i \<noteq> cell_at base k" if "i < k" for i using u [of i] u [of k] that by auto
  have "cell_at base k \<noteq> 0" using u [of k] b(1) by (auto simp: unat_eq_0 [symmetric])
  let ?m' = "link_free base p k ?m"
  have "chain (sm_cells ?m') (pl_free (sm_pools ?m p)) (rev (map (cell_at base) [0..<k]))"
    using Suc ne chain_cong [of "rev (map (cell_at base) [0..<k])" "sm_cells ?m'" "sm_cells ?m"] by fastforce
  moreover have "ce_next (sm_cells ?m' (cell_at base k)) = pl_free (sm_pools ?m p)" "pl_free (sm_pools ?m' p) = cell_at base k" by simp_all
  ultimately have "chain (sm_cells ?m') (pl_free (sm_pools ?m' p)) (cell_at base k # rev (map (cell_at base) [0..<k]))"
    using \<open>cell_at base k \<noteq> 0\<close> by (simp only: chain.simps simp_thms)
  moreover have "\<forall>i<Suc k. ce_pool (sm_cells ?m' (cell_at base i)) = p"
    using Suc by (simp add: less_Suc_eq)
  moreover have "fold (link_free base p) [0..<Suc k] m = ?m'" "rev (map (cell_at base) [0..<Suc k]) = cell_at base k # rev (map (cell_at base) [0..<k])"
    by simp_all
  ultimately show ?case by (simp only: simp_thms)
qed

lemma snd_seq_pool_init_state:
  assumes "base \<noteq> 0" "unat base + CELL_SIZE * nat (pl_size (sm_pools m p)) < 2 ^ 64" "pl_size (sm_pools m p) \<ge> 0"
    "pl_ptr (sm_pools m p) = 0" "pl_counter (sm_pools m p) = 0" "\<not> pl_closing (sm_pools m p)"
  shows "\<exists>m'. snd_seq_pool_init base p m = (m', Inr ()) \<and> pool_open p m' \<and>
    pool_state p (rev (map (cell_at base) [0..<nat (pl_size (sm_pools m p))])) [] m'"
proof -
  let ?n = "nat (pl_size (sm_pools m p))"
  let ?m1 = "upd_pool p (\<lambda>pl. pl\<lparr>pl_ptr := base, pl_free := 0\<rparr>) m"
  let ?m2 = "fold (link_free base p) [0..<?n] ?m1"
  have s: "chain (sm_cells ?m2) (pl_free (sm_pools ?m2 p)) (rev (map (cell_at base) [0..<?n]))"
      "\<forall>i<?n. ce_pool (sm_cells ?m2 (cell_at base i)) = p"
    using link_all [of base ?n ?n ?m1 p] assms by simp_all
  obtain a where "sm_pools ?m2 p = (sm_pools ?m1 p)\<lparr>pl_free := a\<rparr>" using link_all_pool by blast
  then have "pl_counter (sm_pools ?m2 p) = 0" "pl_size (sm_pools ?m2 p) = pl_size (sm_pools m p)" "pl_ptr (sm_pools ?m2 p) = base"
    "\<not> pl_closing (sm_pools ?m2 p)" by (simp_all add: assms(5,6))
  then show ?thesis using assms(1,3,4) s(1,2) chain_distinct [OF s(1)] by (simp add: snd_seq_pool_init_def pool_state_def pool_open_def)
qed

section \<open>Data of a copy\<close>

text \<open>The bytes \<open>bs\<close> are in the kernel's memory at \<open>a\<close>, for every read within them.\<close>

definition holds_data :: "data_env \<Rightarrow> u64 \<Rightarrow> u8 list \<Rightarrow> bool" where
  "holds_data env a bs \<longleftrightarrow> (\<forall>i k. i + k \<le> length bs \<longrightarrow> de_kernel env (a + of_nat i) k = take k (drop i bs))"

lemma dump_chain:
  assumes "chain h a cs" "length bs \<le> EVENT_SIZE * length cs"
    "\<And>i. i < length cs \<Longrightarrow> take (piece (length bs) i) (ce_raw (h (cs ! i))) = take (piece (length bs) i) (drop (EVENT_SIZE * i) bs)"
  shows "concat (dump_cells h a (length bs)) = bs"
  using assms
proof (induction cs arbitrary: a bs)
  case Nil
  then show ?case by (simp add: dump_cells.simps)
next
  case (Cons c cs)
  let ?sz = "piece (length bs) 0"
  have tl: "take (piece (length bs - ?sz) i) (ce_raw (h (cs ! i))) = take (piece (length bs - ?sz) i) (drop (EVENT_SIZE * i) (drop ?sz bs))"
    if "i < length cs" for i
  proof (cases "EVENT_SIZE \<le> length bs")
    case True
    then have "piece (length bs - ?sz) i = piece (length bs) (Suc i)" "EVENT_SIZE * i + ?sz = EVENT_SIZE * Suc i" by auto
    then show ?thesis using Cons.prems(3) [of "Suc i"] that by (simp add: add.commute)
  qed simp
  have "concat (dump_cells h (ce_next (h c)) (length (drop ?sz bs))) = drop ?sz bs"
    using Cons.prems(1,2) tl by (intro Cons.IH) auto
  moreover have "take ?sz (ce_raw (h c)) = take ?sz bs" using Cons.prems(3) [of 0] by simp
  moreover have "(if length bs < EVENT_SIZE then length bs else EVENT_SIZE) = ?sz" by simp
  ultimately show ?case using Cons.prems(1)
    by (subst dump_cells.simps) (auto simp: Let_def simp del: min_def)
qed

lemma get_var_len_copy: "ext_len e = ext_len ev AND NOT EXT_MASK OR EXT_CHAINED \<Longrightarrow> is_variable e \<Longrightarrow> get_var_len e = Inr (data_len ev)"
  using chained_len(1) [of "ext_len ev"] by (simp add: get_var_len_def data_len_def)

lemma expand_copy:
  assumes v: "is_variable e" "ext_len e = ext_len ev AND NOT EXT_MASK OR EXT_CHAINED" and ch: "data_chain h c cs" "cell_event h c = e"
    and n: "length cs = (data_len ev + 27) div 28" and p: "pieces_copied env h (ext_ptr ev) (data_len ev) cs"
    and d: "holds_data env (ext_ptr ev) bs" "length bs = data_len ev"
  shows "snd_seq_expand_var_event env' h e (int (length bs)) ik 0 = Inr (bs, length bs)"
proof -
  note m = chained_len [of "ext_len ev", folded v(2)]
  have c: "chain h (ext_ptr e) cs" using ch v(1) m(3) by (simp add: data_chain_def)
  have "concat (dump_cells h (ext_ptr e) (length bs)) = bs"
  proof (rule dump_chain [OF c])
    show "length bs \<le> EVENT_SIZE * length cs" using n d(2) by linarith
    fix i assume i: "i < length cs"
    have "EVENT_SIZE * i + piece (length bs) i \<le> length bs" using i n d(2) by (simp add: min_def) linarith
    then have "de_kernel env (ext_ptr ev + of_nat (EVENT_SIZE * i)) (piece (length bs) i) = take (piece (length bs) i) (drop (EVENT_SIZE * i) bs)"
      using d(1) unfolding holds_data_def by blast
    then show "take (piece (length bs) i) (ce_raw (h (cs ! i))) = take (piece (length bs) i) (drop (EVENT_SIZE * i) bs)"
      using p i d(2) unfolding pieces_copied_def by metis
  qed
  moreover have "dump_cells h (ext_ptr e) 0 = []" by (simp add: dump_cells.simps)
  ultimately have "concat (if length bs = 0 then [] else dump_cells h (ext_ptr e) (length bs)) = bs" by simp
  then show ?thesis using get_var_len_copy [OF v(2,1)] m(2,3) d(2)
    by (simp add: snd_seq_expand_var_event_def snd_seq_dump_var_event_def Let_def split: if_splits)
qed

section \<open>Properties\<close>

text \<open>A pool of four cells at address 0x1000, and 30 bytes of system exclusive data in the kernel's memory at 0x9000.\<close>

definition four_cells :: seq_mem where
  "four_cells = fst (snd_seq_pool_init 0x1000 0
     \<lparr>sm_cells = \<lambda>_. \<lparr>ce_raw = replicate 28 0, ce_pool = 0, ce_next = 0\<rparr>, sm_pools = \<lambda>_. snd_seq_pool_new 4\<rparr>)"

lemma four_cells_state: "pool_state 0 [cell_at 0x1000 3, cell_at 0x1000 2, cell_at 0x1000 1, cell_at 0x1000 0] [] four_cells" "pool_open 0 four_cells"
proof -
  let ?m = "\<lparr>sm_cells = \<lambda>_. \<lparr>ce_raw = replicate 28 0, ce_pool = 0, ce_next = 0\<rparr>, sm_pools = \<lambda>_. snd_seq_pool_new 4\<rparr>"
  have "\<exists>m'. snd_seq_pool_init 0x1000 0 ?m = (m', Inr ()) \<and> pool_open 0 m' \<and>
      pool_state 0 (rev (map (cell_at 0x1000) [0..<nat (pl_size (sm_pools ?m 0))])) [] m'"
    by (rule snd_seq_pool_init_state) (simp_all add: snd_seq_pool_new_def)
  then show "pool_state 0 [cell_at 0x1000 3, cell_at 0x1000 2, cell_at 0x1000 1, cell_at 0x1000 0] [] four_cells" "pool_open 0 four_cells"
    by (auto simp: four_cells_def snd_seq_pool_new_def upt_rec numeral_eq_Suc)
qed

definition sysex_env :: "u8 list \<Rightarrow> data_env" where
  "sysex_env bs = \<lparr>de_kernel = \<lambda>a k. take k (drop (unat (a - 0x9000)) bs @ replicate k 0), de_user = \<lambda>_ _. None\<rparr>"

definition sysex_event :: "u32 \<Rightarrow> snd_seq_event" where
  "sysex_event l = set_ext_ptr 0x9000 (set_word 0 l \<lparr>ev_type = 130, ev_flags = 4, ev_tag = 0, ev_queue = 253, ev_time = (0, 0),
     ev_source = (0, 0), ev_dest = (0, 0), ev_data = replicate 12 0\<rparr>)"

lemma sysex_event_simps: "length (ev_data (sysex_event l)) = 12" "is_variable (sysex_event l)" "ext_len (sysex_event l) = l" "ext_ptr (sysex_event l) = 0x9000"
  by (simp_all add: sysex_event_def) (simp add: is_variable_def)

lemma sysex_env_length: "length (de_kernel (sysex_env bs) a k) = k"
  by (simp add: sysex_env_def)

text \<open>
  C19: copying an event into a pool loses no cell. When \<open>snd_seq_event_dup\<close> succeeds, the cells it took are
  the event's cell and the chain of its data, and giving the copy back with \<open>snd_seq_cell_free\<close> returns
  exactly them; when it fails, whatever it had taken is in the free list again. The counter and the
  total account for every cell throughout.
\<close>
theorem snd_seq_event_dup_accounts:
  assumes "pool_state p free used m" "pool_open p m" "length (ev_data ev) = 12" "\<And>a k. length (de_kernel env a k) = k"
  shows "\<exists>m' r. snd_seq_event_dup env p ev True ws m = Some (m', ws, r) \<and>
    (case r of
       Inl e \<Rightarrow> \<exists>free'. pool_state p free' used m' \<and> mset free' = mset free
     | Inr c \<Rightarrow> \<exists>cs free' m''. free = c # cs @ free' \<and> pool_state p free' (c # cs @ used) m' \<and> length cs = snd (var_cells ev) \<and>
         snd_seq_cell_free c m' = Some m'' \<and> pool_state p (rev cs @ c # free') used m'')"
proof -
  from snd_seq_event_dup_state [OF assms, of ws] obtain m' r free' where d: "snd_seq_event_dup env p ev True ws m = Some (m', ws, r)"
    and s: "case r of
       Inl e \<Rightarrow> e \<in> {EAGAIN, ENOMEM, EFAULT} \<and> pool_state p free' used m' \<and> mset free' = mset free
     | Inr c \<Rightarrow> \<exists>cs. free = c # cs @ free' \<and> pool_state p free' (c # cs @ used) m' \<and> data_chain (sm_cells m') c cs \<and>
         length cs = snd (var_cells ev) \<and> (\<not> is_variable ev \<longrightarrow> cell_event (sm_cells m') c = ev) \<and>
         (is_variable ev \<longrightarrow> is_variable (cell_event (sm_cells m') c) \<and>
           ext_len (cell_event (sm_cells m') c) = ext_len ev AND NOT EXT_MASK OR EXT_CHAINED \<and>
           (ext_len ev AND EXT_MASK = 0 \<longrightarrow> pieces_copied env (sm_cells m') (ext_ptr ev) (data_len ev) cs))" by blast
  show ?thesis
  proof (cases r)
    case (Inr c)
    then obtain cs where cs: "free = c # cs @ free'" "pool_state p free' (c # cs @ used) m'" "data_chain (sm_cells m') c cs" "length cs = snd (var_cells ev)"
      using s by auto
    from snd_seq_cell_free_state [OF cs(2,3)] show ?thesis using d Inr cs by auto
  qed (use d s in auto)
qed

theorem snd_seq_event_dup_accounts_witness:
  "\<exists>m' r. snd_seq_event_dup (sysex_env (replicate 30 7)) 0 (sysex_event 30) True [] four_cells = Some (m', [], r) \<and>
    (case r of
       Inl e \<Rightarrow> \<exists>free'. pool_state 0 free' [] m' \<and>
         mset free' = mset [cell_at 0x1000 3, cell_at 0x1000 2, cell_at 0x1000 1, cell_at 0x1000 0]
     | Inr c \<Rightarrow> \<exists>cs free' m''. [cell_at 0x1000 3, cell_at 0x1000 2, cell_at 0x1000 1, cell_at 0x1000 0] = c # cs @ free' \<and>
         pool_state 0 free' (c # cs @ []) m' \<and> length cs = snd (var_cells (sysex_event 30)) \<and>
         snd_seq_cell_free c m' = Some m'' \<and> pool_state 0 (rev cs @ c # free') [] m'')"
  by (rule snd_seq_event_dup_accounts [OF four_cells_state sysex_event_simps(1) sysex_env_length])

text \<open>
  C21: an event with data of any length in the kernel's memory, copied into a pool with enough free cells,
  comes out whole: \<open>snd_seq_expand_var_event\<close> of the copy puts the same bytes into the buffer.
\<close>
theorem snd_seq_event_dup_expand:
  assumes "pool_state p free used m" "pool_open p m" "length (ev_data ev) = 12" "\<And>a k. length (de_kernel env a k) = k"
    and v: "is_variable ev" "ext_len ev AND EXT_MASK = 0" and n: "(data_len ev + EVENT_SIZE - 1) div EVENT_SIZE < length free"
    and d: "holds_data env (ext_ptr ev) bs" "length bs = data_len ev"
  shows "\<exists>m' c. snd_seq_event_dup env p ev True ws m = Some (m', ws, Inr c) \<and>
    snd_seq_expand_var_event env' (sm_cells m') (cell_event (sm_cells m') c) (int (length bs)) in_kernel 0 = Inr (bs, length bs)"
proof -
  have vc: "snd (var_cells ev) = (data_len ev + 27) div 28" using v by (simp add: var_cells_def data_len_def Let_def)
  have "int (snd (var_cells ev)) < pl_total_elements (sm_pools m p)" using assms(1) n by (simp add: pool_state_def vc)
  with snd_seq_event_dup_state [OF assms(1-4), of ws] obtain m' c cs where "snd_seq_event_dup env p ev True ws m = Some (m', ws, Inr c)"
    "data_chain (sm_cells m') c cs" "length cs = (data_len ev + 27) div 28" "is_variable (cell_event (sm_cells m') c)"
    "ext_len (cell_event (sm_cells m') c) = ext_len ev AND NOT EXT_MASK OR EXT_CHAINED"
    "pieces_copied env (sm_cells m') (ext_ptr ev) (data_len ev) cs"
    using n v unmasked(2) [OF v(2)] vc by auto
  then show ?thesis using expand_copy [of "cell_event (sm_cells m') c" ev "sm_cells m'" c cs env bs env' in_kernel] d by blast
qed

theorem snd_seq_event_dup_expand_witness:
  "\<exists>m' c. snd_seq_event_dup (sysex_env (replicate 30 7)) 0 (sysex_event 30) True [] four_cells = Some (m', [], Inr c) \<and>
    snd_seq_expand_var_event (sysex_env []) (sm_cells m') (cell_event (sm_cells m') c) (int (length (replicate 30 (7 :: u8)))) False 0 =
      Inr (replicate 30 7, length (replicate 30 (7 :: u8)))"
proof (rule snd_seq_event_dup_expand [OF four_cells_state sysex_event_simps(1) sysex_env_length sysex_event_simps(2)])
  have l: "data_len (sysex_event 30) = 30" by (simp add: data_len_def sysex_event_simps)
  show "(data_len (sysex_event 30) + EVENT_SIZE - 1) div EVENT_SIZE < length [cell_at 0x1000 3, cell_at 0x1000 2, cell_at 0x1000 1, cell_at 0x1000 0]"
    "length (replicate 30 (7 :: u8)) = data_len (sysex_event 30)" by (simp_all add: l)
  show "ext_len (sysex_event 30) AND EXT_MASK = 0" by (simp add: sysex_event_simps)
  show "holds_data (sysex_env (replicate 30 7)) (ext_ptr (sysex_event 30)) (replicate 30 7)"
    by (auto simp: holds_data_def sysex_env_def sysex_event_simps unat_of_nat take_bit_nat_eq_self)
qed

end
