(* ===== verification/Seq_Laws.thy ===== *)
theory Seq_Laws
  imports Seq_Dup
begin

text \<open>
  The contract of the sequencer's queues of cells, the priority queue of \<open>seq_prioq.c\<close> and the fifo of
  \<open>seq_fifo.c\<close>: what is put in, and where, is what comes out.
\<close>

text \<open>Putting in a list of elements, and taking out \<open>n\<close>.\<close>

fun enq_all :: "('c \<Rightarrow> 's \<Rightarrow> 'e + 's) \<Rightarrow> 'c list \<Rightarrow> 's \<Rightarrow> 'e + 's" where
  "enq_all enq [] s = Inr s"
| "enq_all enq (c # cs) s = (case enq c s of Inl e \<Rightarrow> Inl e | Inr s' \<Rightarrow> enq_all enq cs s')"

fun roomy :: "('c \<Rightarrow> 'c list \<Rightarrow> 'c list) \<Rightarrow> ('c \<Rightarrow> 'c list \<Rightarrow> bool) \<Rightarrow> 'c list \<Rightarrow> 'c list \<Rightarrow> bool" where
  "roomy place room [] xs \<longleftrightarrow> True"
| "roomy place room (c # cs) xs \<longleftrightarrow> room c xs \<and> roomy place room cs (place c xs)"

fun drain :: "('s \<Rightarrow> 's \<times> 'c option) \<Rightarrow> nat \<Rightarrow> 's \<Rightarrow> 'c list" where
  "drain deq 0 s = []"
| "drain deq (Suc n) s = (case deq s of (s', None) \<Rightarrow> [] | (s', Some x) \<Rightarrow> x # drain deq n s')"

locale cell_queue =
  fixes rep :: "'s \<Rightarrow> 'c list \<Rightarrow> bool"
    and enq :: "'c \<Rightarrow> 's \<Rightarrow> 'e + 's"
    and deq :: "'s \<Rightarrow> 's \<times> 'c option"
    and place :: "'c \<Rightarrow> 'c list \<Rightarrow> 'c list"
    and room :: "'c \<Rightarrow> 'c list \<Rightarrow> bool"
  assumes enq: "rep s xs \<Longrightarrow> room c xs \<Longrightarrow> \<exists>s'. enq c s = Inr s' \<and> rep s' (place c xs)"
    and deq_empty: "rep s [] \<Longrightarrow> deq s = (s, None)"
    and deq: "rep s (x # xs) \<Longrightarrow> \<exists>s'. deq s = (s', Some x) \<and> rep s' xs"
begin

lemma enq_all_rep: "rep s xs \<Longrightarrow> roomy place room cs xs \<Longrightarrow> \<exists>s'. enq_all enq cs s = Inr s' \<and> rep s' (fold place cs xs)"
proof (induction cs arbitrary: s xs)
  case (Cons c cs)
  obtain s' where "enq c s = Inr s'" "rep s' (place c xs)" using enq [of s xs c] Cons.prems by auto
  then show ?case using Cons.IH [of s' "place c xs"] Cons.prems by simp
qed simp

lemma drain_rep: "rep s xs \<Longrightarrow> drain deq n s = take n xs"
proof (induction n arbitrary: s xs)
  case (Suc n)
  then show ?case
  proof (cases xs)
    case (Cons x ys)
    then obtain s' where "deq s = (s', Some x)" "rep s' ys" using deq Suc.prems by blast
    then show ?thesis using Suc.IH Cons by simp
  qed (simp add: deq_empty)
qed simp

lemma enq_all_drain:
  assumes "rep s xs" "roomy place room cs xs"
  shows "\<exists>s'. enq_all enq cs s = Inr s' \<and> (\<forall>n. drain deq n s' = take n (fold place cs xs))"
  using enq_all_rep [OF assms] drain_rep by blast

end

section \<open>Keeping order\<close>

text \<open>A new element goes behind the elements before it, and behind those equal to it unless it has priority.\<close>

fun place_key :: "('c \<Rightarrow> nat) \<Rightarrow> ('c \<Rightarrow> bool) \<Rightarrow> 'c \<Rightarrow> 'c list \<Rightarrow> 'c list" where
  "place_key key pri c [] = [c]"
| "place_key key pri c (x # xs) =
     (if key x < key c \<or> key x = key c \<and> \<not> pri c then x # place_key key pri c xs else c # x # xs)"

lemma mset_place_key [simp]: "mset (place_key key pri c xs) = add_mset c (mset xs)"
  by (induction xs) auto

lemma set_place_key [simp]: "set (place_key key pri c xs) = insert c (set xs)"
  by (induction xs) auto

lemma length_place_key [simp]: "length (place_key key pri c xs) = Suc (length xs)"
  by (induction xs) auto

lemma distinct_place_key [simp]: "distinct (place_key key pri c xs) \<longleftrightarrow> c \<notin> set xs \<and> distinct xs"
  by (induction xs) auto

lemma sorted_place_key: "sorted (map key xs) \<Longrightarrow> sorted (map key (place_key key pri c xs))"
  by (induction xs) (auto intro: less_imp_le order_trans)

lemma place_key_end:
  "sorted (map key xs) \<Longrightarrow> \<not> pri c \<Longrightarrow> xs = [] \<or> key (last xs) \<le> key c \<Longrightarrow> place_key key pri c xs = xs @ [c]"
proof (induction xs)
  case (Cons x xs)
  show ?case
  proof (cases "xs = []")
    case False
    then have "key x \<le> key c" using Cons.prems(1,3) by (auto intro: order_trans [of _ "key (last xs)"])
    then have "key x < key c \<or> key x = key c" by auto
    then show ?thesis using Cons False by auto
  qed (use Cons in \<open>auto simp: le_less\<close>)
qed simp

lemma filter_place_key:
  assumes "sorted (map key xs)" "\<not> pri c"
  shows "filter (\<lambda>x. k = key x) (place_key key pri c xs) = filter (\<lambda>x. k = key x) (xs @ [c])"
  using assms
proof (induction xs)
  case (Cons x xs)
  show ?case
  proof (cases "key x \<le> key c")
    case True
    then show ?thesis using Cons by (auto simp: le_less)
  next
    case False
    then have "\<forall>y\<in>set (x # xs). key y \<noteq> key c" using Cons.prems by fastforce
    then have "k = key c \<Longrightarrow> filter (\<lambda>x. k = key x) (x # xs) = []" by (auto simp: filter_empty_conv)
    then show ?thesis using False Cons.prems by (cases "k = key c") auto
  qed
qed simp

text \<open>Putting elements without priority in one by one sorts them, stably.\<close>

lemma fold_place_key_props:
  assumes "sorted (map key xs)" "\<And>c. c \<in> set cs \<Longrightarrow> \<not> pri c"
  shows "sorted (map key (fold (place_key key pri) cs xs)) \<and> mset (fold (place_key key pri) cs xs) = mset (xs @ cs) \<and>
    (\<forall>k. filter (\<lambda>x. k = key x) (fold (place_key key pri) cs xs) = filter (\<lambda>x. k = key x) (xs @ cs))"
  using assms
proof (induction cs arbitrary: xs)
  case (Cons c cs)
  then show ?case using Cons.IH [OF sorted_place_key [OF Cons.prems(1), of pri c]] filter_place_key [of key xs pri c] by simp
qed simp

lemma fold_place_key_sort:
  assumes "\<And>c. c \<in> set cs \<Longrightarrow> \<not> pri c"
  shows "fold (place_key key pri) cs [] = sort_key key cs"
  using fold_place_key_props [of key "[]" cs pri] assms
  by (intro properties_for_sort_key [symmetric]) auto

end
