(* ===== verification/Seq_Owner.thy ===== *)
theory Seq_Owner
  imports Seq_Laws
begin

text \<open>
  Who holds the cells of the pools: the events of a queue, each with the chain of its data, and others.
  Shared by the priority queue and the fifo.
\<close>

section \<open>Cells held by a list of events\<close>

definition event_cells :: "(u64 \<Rightarrow> u64 list) \<Rightarrow> u64 list \<Rightarrow> u64 list" where
  "event_cells dat xs = concat (map (\<lambda>x. x # dat x) xs)"

text \<open>
  The events at \<open>xs\<close>, with their data \<open>dat\<close>, and \<open>rest p\<close> are exactly the cells in use of each pool \<open>p\<close>.
\<close>

definition held :: "(u64 \<Rightarrow> u64 list) \<Rightarrow> u64 list \<Rightarrow> (nat \<Rightarrow> u64 list) \<Rightarrow> seq_mem \<Rightarrow> bool" where
  "held dat xs rest m \<longleftrightarrow>
     (\<forall>x\<in>set xs. data_chain (sm_cells m) x (dat x)) \<and>
     (\<forall>p. \<exists>free. pool_state p free (event_cells dat (filter (\<lambda>x. ce_pool (sm_cells m x) = p) xs) @ rest p) m)"

lemma event_cells_simps [simp]: "event_cells dat [] = []" "event_cells dat (x # xs) = x # dat x @ event_cells dat xs"
  "event_cells dat (xs @ ys) = event_cells dat xs @ event_cells dat ys"
  by (simp_all add: event_cells_def)

lemma in_event_cells: "x \<in> set xs \<Longrightarrow> d = x \<or> d \<in> set (dat x) \<Longrightarrow> d \<in> set (event_cells dat xs)"
  by (auto simp: event_cells_def)

lemma pool_state_pool: "pool_state p free used m \<Longrightarrow> c \<in> set free \<or> c \<in> set used \<Longrightarrow> ce_pool (sm_cells m c) = p"
  by (auto simp: pool_state_def)

lemma pool_state_nonzero: "pool_state p free used m \<Longrightarrow> 0 \<notin> set used"
  by (auto simp: pool_state_def)

lemma pool_state_free_used: "pool_state p free used m \<Longrightarrow> c \<in> set free \<Longrightarrow> c \<notin> set used"
  by (auto simp: pool_state_def)

lemma mset_event_cells: "mset xs = mset ys \<Longrightarrow> mset (event_cells dat xs) = mset (event_cells dat ys)"
proof -
  have "mset (event_cells dat zs) = \<Sum>\<^sub># (image_mset (\<lambda>x. mset (x # dat x)) (mset zs))" for zs
    by (induction zs) auto
  then show "mset xs = mset ys \<Longrightarrow> mset (event_cells dat xs) = mset (event_cells dat ys)" by simp
qed

lemma held_perm:
  assumes "mset xs = mset ys"
  shows "held dat xs rest m = held dat ys rest m"
proof -
  have "mset (event_cells dat (filter P xs) @ rest p) = mset (event_cells dat (filter P ys) @ rest p)" for P p
    using mset_event_cells [of "filter P xs" "filter P ys"] assms by simp
  then show ?thesis using mset_eq_setD [OF assms] pool_state_perm by (auto simp: held_def; metis)
qed

lemma held_data:
  assumes "held dat (x # xs) rest m"
  shows "x \<notin> set xs" "x \<notin> set (dat x)" "x \<noteq> 0" "data_chain (sm_cells m) x (dat x)"
    "\<And>d. d \<in> set (dat x) \<Longrightarrow> d \<notin> set xs"
    "\<And>y d. y \<in> set xs \<Longrightarrow> d \<in> set (dat y) \<Longrightarrow> d \<noteq> x"
    "\<And>y d. y \<in> set xs \<Longrightarrow> d \<in> set (dat y) \<Longrightarrow> d \<notin> set (dat x)"
proof -
  let ?h = "sm_cells m" and ?p = "ce_pool (sm_cells m x)"
  have st: "\<exists>free. pool_state p free (event_cells dat (filter (\<lambda>x. ce_pool (?h x) = p) (x # xs)) @ rest p) m" for p
    using assms by (simp add: held_def)
  obtain free where s: "pool_state ?p free (x # dat x @ event_cells dat (filter (\<lambda>x. ce_pool (?h x) = ?p) xs) @ rest ?p) m"
    using st [of ?p] by (simp only: filter.simps refl if_True event_cells_simps append_Cons append_assoc) blast
  have p: "ce_pool (?h d) = ce_pool (?h y)" if "y \<in> set (x # xs)" "d \<in> set (dat y)" for y d
  proof -
    obtain fr where f: "pool_state (ce_pool (?h y)) fr (event_cells dat (filter (\<lambda>x. ce_pool (?h x) = ce_pool (?h y)) (x # xs)) @ rest (ce_pool (?h y))) m"
      using st by blast
    have "d \<in> set (event_cells dat (filter (\<lambda>x. ce_pool (?h x) = ce_pool (?h y)) (x # xs)))"
      by (rule in_event_cells [of y]) (use that in auto)
    then show ?thesis using pool_state_pool [OF f, of d] by simp
  qed
  have ds: "x \<notin> set (dat x)" "x \<notin> set (event_cells dat (filter (\<lambda>x. ce_pool (?h x) = ?p) xs))"
    "set (dat x) \<inter> set (event_cells dat (filter (\<lambda>x. ce_pool (?h x) = ?p) xs)) = {}"
    using pool_state_distinct [OF s] by auto
  have other: "d \<in> set (event_cells dat (filter (\<lambda>x. ce_pool (?h x) = ?p) xs))"
    if "y \<in> set xs" "d = y \<or> d \<in> set (dat y)" "ce_pool (?h d) = ?p" for y d
    by (rule in_event_cells [of y]) (use that p [of y d] in auto)
  show "data_chain ?h x (dat x)" using assms by (simp add: held_def)
  show "x \<noteq> 0" using pool_state_nonzero [OF s] by auto
  show "x \<notin> set (dat x)" by (rule ds)
  show "x \<notin> set xs" using ds(2) other [of x x] by auto
  show "d \<notin> set xs" if "d \<in> set (dat x)" for d using ds(3) other [of d d] p [of x d] that by auto
  show "d \<noteq> x" if "y \<in> set xs" "d \<in> set (dat y)" for y d using ds(2) other [OF that(1), of d] that by auto
  show "d \<notin> set (dat x)" if "y \<in> set xs" "d \<in> set (dat y)" for y d using ds(3) other [OF that(1), of d] that p [of x d] by auto
qed

lemma data_chain_cong:
  "ce_raw (h' x) = ce_raw (h x) \<Longrightarrow> (\<And>d. d \<in> set cs \<Longrightarrow> ce_next (h' d) = ce_next (h d)) \<Longrightarrow> data_chain h' x cs = data_chain h x cs"
  using chain_cong [of cs h' h] by (simp add: data_chain_def cell_event_def)

text \<open>Linking the events of a queue differently does not touch the pools or the data.\<close>

lemma held_relink:
  assumes hd: "held dat xs rest m" and raw: "\<And>d. ce_raw (h d) = ce_raw (sm_cells m d)" and pl: "\<And>d. ce_pool (h d) = ce_pool (sm_cells m d)"
    and nx: "\<And>d. d \<notin> set xs \<Longrightarrow> ce_next (h d) = ce_next (sm_cells m d)"
  shows "held dat xs rest (m\<lparr>sm_cells := h\<rparr>)"
  unfolding held_def
proof (intro conjI ballI allI)
  fix x assume x: "x \<in> set xs"
  have "mset xs = mset (x # remove1 x xs)" using x by simp
  then have h1: "held dat (x # remove1 x xs) rest m" using hd held_perm by blast
  have "ce_next (h d) = ce_next (sm_cells m d)" if d: "d \<in> set (dat x)" for d
  proof (rule nx)
    show "d \<notin> set xs" using held_data(2,5) [OF h1] d x by (metis in_set_remove1)
  qed
  then show "data_chain (sm_cells (m\<lparr>sm_cells := h\<rparr>)) x (dat x)" using held_data(4) [OF h1] data_chain_cong [of h x "sm_cells m" "dat x"] raw by simp
next
  fix p
  let ?xs = "filter (\<lambda>x. ce_pool (sm_cells m x) = p) xs"
  obtain free where s: "pool_state p free (event_cells dat ?xs @ rest p) m" using hd by (auto simp: held_def)
  have "ce_next (h d) = ce_next (sm_cells m d)" if d: "d \<in> set free" for d
  proof (rule nx)
    have "ce_pool (sm_cells m d) = p" using pool_state_pool [OF s] d by blast
    moreover have "d \<notin> set ?xs" using pool_state_free_used [OF s d] in_event_cells [of d ?xs d dat] by auto
    ultimately show "d \<notin> set xs" by auto
  qed
  then have "pool_state p free (event_cells dat ?xs @ rest p) (m\<lparr>sm_cells := h\<rparr>)" using pool_state_cells [OF s] pl by blast
  then show "\<exists>free. pool_state p free (event_cells dat (filter (\<lambda>x. ce_pool (sm_cells (m\<lparr>sm_cells := h\<rparr>) x) = p) xs) @ rest p) (m\<lparr>sm_cells := h\<rparr>)"
    using pl by (intro exI [of _ free]) simp
qed

section \<open>Giving events back\<close>

text \<open>What returning cells leaves alone.\<close>

definition frame :: "nat \<Rightarrow> u64 set \<Rightarrow> seq_mem \<Rightarrow> seq_mem \<Rightarrow> bool" where
  "frame p A m m' \<longleftrightarrow>
     (\<forall>d. ce_raw (sm_cells m' d) = ce_raw (sm_cells m d) \<and> ce_pool (sm_cells m' d) = ce_pool (sm_cells m d)) \<and>
     (\<forall>d. d \<notin> A \<longrightarrow> ce_next (sm_cells m' d) = ce_next (sm_cells m d)) \<and> (\<forall>q. q \<noteq> p \<longrightarrow> sm_pools m' q = sm_pools m q)"

lemma frame_trans: "frame p A m m1 \<Longrightarrow> frame p B m1 m2 \<Longrightarrow> frame p (A \<union> B) m m2"
  by (simp add: frame_def)

lemma frame_free_cell: "frame p {c} m (free_cell p c (upd_cells (set_next c n) m))" "frame p {c} m (free_cell p c m)"
  by (simp_all add: frame_def free_cell_def)

lemma free_chain_frame:
  assumes "chain (sm_cells m) a cs"
  shows "\<exists>m'. free_chain p a m = Some m' \<and> frame p (set cs) m m'"
  using assms
proof (induction cs arbitrary: a m)
  case Nil
  then show ?case by (simp add: free_chain.simps frame_def)
next
  case (Cons c cs)
  let ?m2 = "free_cell p c (upd_cells (set_next c (pl_free (sm_pools m p))) m)"
  have fr: "frame p {c} m ?m2" by (rule frame_free_cell)
  have "c \<notin> set cs" using chain_distinct [OF Cons.prems] by simp
  then have "ce_next (sm_cells ?m2 e) = ce_next (sm_cells m e)" if "e \<in> set cs" for e using that fr by (auto simp: frame_def)
  then have "chain (sm_cells ?m2) (ce_next (sm_cells m c)) cs" using Cons.prems chain_cong [of cs "sm_cells ?m2" "sm_cells m"] by simp
  from Cons.IH [OF this] obtain m' where m': "free_chain p (ce_next (sm_cells m c)) ?m2 = Some m'" "frame p (set cs) ?m2 m'" by blast
  then show ?case using Cons.prems frame_trans [OF fr m'(2)] by (subst free_chain.simps) (auto simp: Let_def)
qed

lemma snd_seq_cell_free_frame:
  assumes dc: "data_chain (sm_cells m) c cs" and c: "c \<noteq> 0" "c \<notin> set cs"
  shows "\<exists>m'. snd_seq_cell_free c m = Some m' \<and> frame (ce_pool (sm_cells m c)) (insert c (set cs)) m m'"
proof -
  let ?p = "ce_pool (sm_cells m c)"
  let ?m1 = "free_cell ?p c m"
  have fr: "frame ?p {c} m ?m1" by (rule frame_free_cell)
  have ev: "cell_event (sm_cells ?m1) c = cell_event (sm_cells m) c" using fr by (simp add: cell_event_def frame_def)
  have ch: "chain (sm_cells ?m1) a cs = chain (sm_cells m) a cs" for a using c fr by (intro chain_cong) (auto simp: frame_def)
  show ?thesis
  proof (cases "is_variable (cell_event (sm_cells m) c) \<and> ext_len (cell_event (sm_cells m) c) AND EXT_CHAINED \<noteq> 0")
    case True
    then have "chain (sm_cells ?m1) (ext_ptr (cell_event (sm_cells m) c)) cs" using dc by (simp add: data_chain_def ch)
    from free_chain_frame [OF this] obtain m' where "free_chain ?p (ext_ptr (cell_event (sm_cells m) c)) ?m1 = Some m'" "frame ?p (set cs) ?m1 m'" by blast
    then show ?thesis using True c frame_trans [OF fr] by (auto simp: snd_seq_cell_free_def Let_def ev)
  next
    case False
    then show ?thesis using c fr dc by (auto simp: snd_seq_cell_free_def Let_def ev data_chain_def frame_def)
  qed
qed

lemma held_free:
  assumes hd: "held dat (c # xs) rest m"
  shows "\<exists>m' p. snd_seq_cell_free c m = Some m' \<and> held dat xs rest m' \<and> frame p (insert c (set (dat c))) m m'"
proof -
  let ?h = "sm_cells m" and ?p = "ce_pool (sm_cells m c)"
  note d = held_data [OF hd]
  obtain m' where m': "snd_seq_cell_free c m = Some m'" and fr: "frame ?p (insert c (set (dat c))) m m'"
    using snd_seq_cell_free_frame [OF d(4,3,2)] by blast
  have pl: "ce_pool (sm_cells m' e) = ce_pool (?h e)" for e using fr by (simp add: frame_def)
  have st: "\<exists>free. pool_state p free (event_cells dat (filter (\<lambda>x. ce_pool (?h x) = p) (c # xs)) @ rest p) m" for p
    using hd by (simp add: held_def)
  have "\<exists>free. pool_state p free (event_cells dat (filter (\<lambda>x. ce_pool (?h x) = p) xs) @ rest p) m'" for p
  proof (cases "p = ?p")
    case True
    obtain free where s: "pool_state ?p free (c # dat c @ (event_cells dat (filter (\<lambda>x. ce_pool (?h x) = ?p) xs) @ rest ?p)) m"
      using st [of ?p] by (simp only: filter.simps refl if_True event_cells_simps append_Cons append_assoc) blast
    from snd_seq_cell_free_state [OF s d(4)] m' show ?thesis unfolding True by auto
  next
    case False
    obtain free where s: "pool_state p free (event_cells dat (filter (\<lambda>x. ce_pool (?h x) = p) xs) @ rest p) m"
      using st [of p] False by (simp only: filter.simps if_not_P [OF False [symmetric]]) blast
    have nc: "e \<notin> insert c (set (dat c))" if "ce_pool (?h e) = p" for e
    proof
      obtain fr where f: "pool_state ?p fr (event_cells dat (filter (\<lambda>x. ce_pool (?h x) = ?p) (c # xs)) @ rest ?p) m" using st by blast
      assume e: "e \<in> insert c (set (dat c))"
      have "e \<in> set (event_cells dat (filter (\<lambda>x. ce_pool (?h x) = ?p) (c # xs)))" by (rule in_event_cells [of c]) (use e in auto)
      then have "ce_pool (?h e) = ?p" by (intro pool_state_pool [OF f] disjI2) (simp only: set_append Un_iff simp_thms)
      then show False using that False by simp
    qed
    have nx: "ce_next (sm_cells m' e) = ce_next (?h e)" if "e \<in> set free" for e
      using fr nc [OF pool_state_pool [OF s disjI1 [OF that]]] unfolding frame_def by blast
    have "pool_state p free (event_cells dat (filter (\<lambda>x. ce_pool (?h x) = p) xs) @ rest p) (m\<lparr>sm_cells := sm_cells m'\<rparr>)"
      by (rule pool_state_cells [OF s nx pl])
    moreover have "sm_pools m' p = sm_pools m p" using fr False by (simp add: frame_def)
    ultimately show ?thesis by (auto simp: pool_state_def)
  qed
  moreover have "data_chain (sm_cells m') y (dat y)" if y: "y \<in> set xs" for y
  proof -
    have "ce_next (sm_cells m' e) = ce_next (?h e)" if "e \<in> set (dat y)" for e
      using fr d(6) [OF y that] d(7) [OF y that] by (simp add: frame_def)
    then have "data_chain (sm_cells m') y (dat y) = data_chain ?h y (dat y)" using fr by (intro data_chain_cong) (auto simp: frame_def)
    then show ?thesis using hd y by (simp add: held_def)
  qed
  ultimately have "held dat xs rest m'" by (simp add: held_def pl)
  then show ?thesis using m' fr by blast
qed

lemma held_free_next:
  assumes "held dat (c # xs) rest m" "frame p (insert c (set (dat c))) m m'" "y \<in> set xs"
  shows "ce_next (sm_cells m' y) = ce_next (sm_cells m y)"
proof -
  have "y \<notin> insert c (set (dat c))" using assms(3) held_data(1) [OF assms(1)] held_data(5) [OF assms(1), of y] by auto
  then show ?thesis using assms(2) by (simp add: frame_def)
qed

end
