(* ===== verification/Seq_Fifo.thy ===== *)
theory Seq_Fifo
  imports Seq_Owner
begin

text \<open>
  The fifo of events waiting for a client (\<open>sound/core/seq/seq_fifo.c\<close>), with a pool of its own. Waking up
  and counting the users of a fifo are not modelled.
\<close>

section \<open>Operations\<close>

record snd_seq_fifo =
  ff_pool :: nat
  ff_head :: u64
  ff_tail :: u64
  ff_cells :: int
  ff_overflow :: int

text \<open>Pool \<open>p\<close> is the place the allocator gives to the fifo's pool, \<open>base\<close> that of its cells.\<close>

definition snd_seq_fifo_new :: "nat \<Rightarrow> u64 \<Rightarrow> int \<Rightarrow> seq_mem \<Rightarrow> seq_mem \<times> snd_seq_fifo option" where
  "snd_seq_fifo_new p base poolsize m =
     (case snd_seq_pool_init base p (upd_pool p (\<lambda>_. snd_seq_pool_new poolsize) m) of
        (m', Inl e) \<Rightarrow> (m', None)
      | (m', Inr _) \<Rightarrow> (m', Some \<lparr>ff_pool = p, ff_head = 0, ff_tail = 0, ff_cells = 0, ff_overflow = 0\<rparr>))"

definition fifo_cell_out :: "snd_seq_fifo \<times> cells \<Rightarrow> (snd_seq_fifo \<times> cells) \<times> u64 option" where
  "fifo_cell_out s =
     (let (f, h) = s; c = ff_head f in
      if c = 0 then (s, None)
      else ((f\<lparr>ff_head := ce_next (h c), ff_tail := if ff_tail f = c then 0 else ff_tail f, ff_cells := ff_cells f - 1\<rparr>, set_next c 0 h), Some c))"

definition fifo_append :: "u64 \<Rightarrow> snd_seq_fifo \<times> cells \<Rightarrow> 'e + (snd_seq_fifo \<times> cells)" where
  "fifo_append c = (\<lambda>(f, h). Inr
     (f\<lparr>ff_tail := c, ff_head := if ff_head f = 0 then c else ff_head f, ff_cells := ff_cells f + 1\<rparr>,
      if ff_tail f \<noteq> 0 then set_next (ff_tail f) c h else h))"

definition snd_seq_fifo_event_in :: "data_env \<Rightarrow> snd_seq_event \<Rightarrow> snd_seq_fifo \<Rightarrow> seq_mem \<Rightarrow> (snd_seq_fifo \<times> seq_mem \<times> unit res) option" where
  "snd_seq_fifo_event_in env ev f m =
     (case snd_seq_event_dup env (ff_pool f) ev True [] m of
        None \<Rightarrow> None
      | Some (m1, _, Inl e) \<Rightarrow> Some (if e = ENOMEM then f\<lparr>ff_overflow := ff_overflow f + 1\<rparr> else f, m1, Inl e)
      | Some (m1, _, Inr c) \<Rightarrow>
          (case fifo_append c (f, sm_cells m1) of
             Inl e \<Rightarrow> Some (f, m1, Inl e)
           | Inr (f', h) \<Rightarrow> Some (f', m1\<lparr>sm_cells := h\<rparr>, Inr ())))"

text \<open>A blocking reader sleeps while the fifo is empty; the list says what happens meanwhile, as for the pools.\<close>

fun snd_seq_fifo_cell_out :: "bool \<Rightarrow> (snd_seq_fifo \<times> cells \<Rightarrow> (snd_seq_fifo \<times> cells) \<times> bool) list \<Rightarrow> snd_seq_fifo \<times> cells \<Rightarrow>
    ((snd_seq_fifo \<times> cells) \<times> u64 res) option" where
  "snd_seq_fifo_cell_out nonblock ws s =
     (case fifo_cell_out s of
        (s', Some c) \<Rightarrow> Some (s', Inr c)
      | (s', None) \<Rightarrow>
          if nonblock then Some (s', Inl EAGAIN)
          else (case ws of
            [] \<Rightarrow> None
          | w # ws' \<Rightarrow> let (s1, signal) = w s' in
              if signal then Some (s1, Inl ERESTARTSYS) else snd_seq_fifo_cell_out nonblock ws' s1))"

declare snd_seq_fifo_cell_out.simps [simp del]

definition snd_seq_fifo_cell_putback :: "u64 \<Rightarrow> snd_seq_fifo \<times> cells \<Rightarrow> snd_seq_fifo \<times> cells" where
  "snd_seq_fifo_cell_putback c =
     (\<lambda>(f, h). if c = 0 then (f, h) else (f\<lparr>ff_head := c, ff_cells := ff_cells f + 1\<rparr>, set_next c (ff_head f) h))"

definition snd_seq_fifo_poll :: "snd_seq_fifo \<Rightarrow> bool" where
  "snd_seq_fifo_poll f \<longleftrightarrow> ff_cells f > 0"

text \<open>\<open>None\<close>: the list is a ring.\<close>

partial_function (option) fifo_drain :: "snd_seq_fifo \<Rightarrow> seq_mem \<Rightarrow> (snd_seq_fifo \<times> seq_mem) option" where
  "fifo_drain f m =
     (case fifo_cell_out (f, sm_cells m) of
        ((f', h), None) \<Rightarrow> Some (f', m)
      | ((f', h), Some c) \<Rightarrow> (case snd_seq_cell_free c (m\<lparr>sm_cells := h\<rparr>) of
          None \<Rightarrow> None
        | Some m' \<Rightarrow> fifo_drain f' m'))"

definition snd_seq_fifo_clear :: "snd_seq_fifo \<Rightarrow> seq_mem \<Rightarrow> (snd_seq_fifo \<times> seq_mem) option" where
  "snd_seq_fifo_clear f m = fifo_drain (f\<lparr>ff_overflow := 0\<rparr>) m"

partial_function (option) free_old :: "u64 \<Rightarrow> seq_mem \<Rightarrow> seq_mem option" where
  "free_old c m =
     (if c = 0 then Some m
      else let n = ce_next (sm_cells m c) in
        case snd_seq_cell_free c m of None \<Rightarrow> None | Some m' \<Rightarrow> free_old n m')"

definition snd_seq_fifo_resize :: "nat \<Rightarrow> u64 \<Rightarrow> int \<Rightarrow> snd_seq_fifo \<Rightarrow> seq_mem \<Rightarrow> (snd_seq_fifo \<times> seq_mem \<times> unit res) option" where
  "snd_seq_fifo_resize p base poolsize f m =
     (case snd_seq_pool_init base p (upd_pool p (\<lambda>_. snd_seq_pool_new poolsize) m) of
        (m1, Inl e) \<Rightarrow> Some (f, m1, Inl ENOMEM)
      | (m1, Inr _) \<Rightarrow>
          map_option (\<lambda>m2. (f\<lparr>ff_pool := p, ff_head := 0, ff_tail := 0, ff_cells := 0\<rparr>, snd_seq_pool_done (ff_pool f) m2, Inr ()))
            (free_old (ff_head f) m1))"

definition snd_seq_fifo_delete :: "snd_seq_fifo \<Rightarrow> seq_mem \<Rightarrow> seq_mem option" where
  "snd_seq_fifo_delete f m = map_option (\<lambda>(f', m'). snd_seq_pool_done (ff_pool f') m') (snd_seq_fifo_clear f m)"

section \<open>A queue\<close>

text \<open>The fifo holds the cells \<open>xs\<close>; the cells of \<open>A\<close> that are not in it are linked to nothing.\<close>

definition fifo_rep :: "u64 set \<Rightarrow> snd_seq_fifo \<times> cells \<Rightarrow> u64 list \<Rightarrow> bool" where
  "fifo_rep A s xs \<longleftrightarrow>
     chain (snd s) (ff_head (fst s)) xs \<and> ff_tail (fst s) = (if xs = [] then 0 else last xs) \<and> ff_cells (fst s) = int (length xs) \<and>
     (\<forall>c\<in>A - set xs. ce_next (snd s c) = 0)"

definition fifo_room :: "u64 set \<Rightarrow> u64 \<Rightarrow> u64 list \<Rightarrow> bool" where
  "fifo_room A c xs \<longleftrightarrow> c \<noteq> 0 \<and> c \<in> A \<and> c \<notin> set xs"

abbreviation fifo_place :: "u64 \<Rightarrow> u64 list \<Rightarrow> u64 list" where
  "fifo_place c xs \<equiv> xs @ [c]"

lemma fifo_append_rep:
  assumes r: "fifo_rep A s xs" and room: "fifo_room A c xs"
  shows "\<exists>s'. fifo_append c s = Inr s' \<and> fifo_rep A s' (fifo_place c xs)"
proof -
  obtain f h where s: "s = (f, h)" by force
  have ch: "chain h (ff_head f) xs" and tl: "ff_tail f = (if xs = [] then 0 else last xs)" and c: "c \<noteq> 0" "c \<in> A" "c \<notin> set xs" "ce_next (h c) = 0"
    using r room s by (auto simp: fifo_rep_def fifo_room_def)
  show ?thesis
  proof (cases "xs = []")
    case True
    then show ?thesis using r c s by (auto simp: fifo_rep_def fifo_append_def)
  next
    case False
    have l: "last xs \<noteq> 0" using chain_nonzero [OF ch] last_in_set [OF False] by metis
    have hd: "ff_head f \<noteq> 0" using chain_hd [OF ch False] chain_nonzero [OF ch] hd_in_set [OF False] by metis
    have "chain (set_next (last xs) c h) (ff_head f) (xs @ [c])" by (rule chain_snoc [OF ch False c(1,4,3)])
    then show ?thesis using r l hd False s tl by (auto simp: fifo_rep_def fifo_append_def)
  qed
qed

lemma fifo_cell_out_empty: "fifo_rep A s [] \<Longrightarrow> fifo_cell_out s = (s, None)"
  by (cases s) (simp add: fifo_rep_def fifo_cell_out_def)

lemma fifo_cell_out_rep:
  assumes "fifo_rep A s (x # xs)"
  shows "\<exists>s'. fifo_cell_out s = (s', Some x) \<and> fifo_rep A s' xs"
proof -
  obtain f h where s: "s = (f, h)" by force
  have x: "ff_head f = x" "x \<noteq> 0" "x \<notin> set xs" "chain h (ce_next (h x)) xs"
    using assms chain_distinct [of h "ff_head f" "x # xs"] s by (auto simp: fifo_rep_def)
  have "last xs \<noteq> x" if "xs \<noteq> []" using x(3) last_in_set [OF that] by metis
  then show ?thesis using assms s x by (cases "xs = []") (auto simp: fifo_rep_def fifo_cell_out_def Let_def)
qed

interpretation ff: cell_queue "fifo_rep A" fifo_append fifo_cell_out fifo_place "fifo_room A"
  for A
  by unfold_locales (rule fifo_append_rep fifo_cell_out_empty fifo_cell_out_rep; assumption)+

lemma fifo_roomy: "distinct (xs @ cs) \<Longrightarrow> 0 \<notin> set cs \<Longrightarrow> set cs \<subseteq> A \<Longrightarrow> roomy fifo_place (fifo_room A) cs xs"
  by (induction cs arbitrary: xs) (auto simp: fifo_room_def)

lemma fold_fifo_place: "fold fifo_place cs xs = xs @ cs"
  by (induction cs arbitrary: xs) auto

text \<open>Clearing gives every cell back.\<close>

lemma fifo_drain_held:
  assumes "fifo_rep {} (f, sm_cells m) xs" "held dat xs rest m"
  shows "\<exists>f' m'. fifo_drain f m = Some (f', m') \<and> fifo_rep {} (f', sm_cells m') [] \<and> held dat [] rest m' \<and>
    ff_pool f' = ff_pool f \<and> ff_overflow f' = ff_overflow f"
  using assms
proof (induction xs arbitrary: f m)
  case Nil
  then show ?case by (simp add: fifo_drain.simps fifo_cell_out_empty [OF Nil(1)])
next
  case (Cons x xs)
  from fifo_cell_out_rep [OF Cons.prems(1)] obtain f1 h1 where
    o: "fifo_cell_out (f, sm_cells m) = ((f1, h1), Some x)" "fifo_rep {} (f1, h1) xs" by auto
  have h1: "h1 = set_next x 0 (sm_cells m)" "ff_pool f1 = ff_pool f" "ff_overflow f1 = ff_overflow f"
    using o(1) by (auto simp: fifo_cell_out_def Let_def split: if_splits)
  have h: "held dat (x # xs) rest (m\<lparr>sm_cells := h1\<rparr>)" by (rule held_relink [OF Cons.prems(2)]) (auto simp: h1)
  from held_free [OF h] obtain m2 p where m2: "snd_seq_cell_free x (m\<lparr>sm_cells := h1\<rparr>) = Some m2" "held dat xs rest m2"
    and fr: "frame p (insert x (set (dat x))) (m\<lparr>sm_cells := h1\<rparr>) m2" by blast
  have "chain (sm_cells m2) (ff_head f1) xs = chain h1 (ff_head f1) xs"
    using held_free_next [OF h fr] by (intro chain_cong) simp
  then have "fifo_rep {} (f1, sm_cells m2) xs" using o(2) by (simp add: fifo_rep_def)
  from Cons.IH [OF this m2(2)] obtain f' m' where "fifo_drain f1 m2 = Some (f', m')" "fifo_rep {} (f', sm_cells m') []" "held dat [] rest m'"
    "ff_pool f' = ff_pool f1" "ff_overflow f' = ff_overflow f1" by blast
  then show ?case using o(1) m2(1) h1(2,3) by (subst fifo_drain.simps) simp
qed

section \<open>Properties\<close>

abbreviation fifo_empty :: "nat \<Rightarrow> snd_seq_fifo" where
  "fifo_empty p \<equiv> \<lparr>ff_pool = p, ff_head = 0, ff_tail = 0, ff_cells = 0, ff_overflow = 0\<rparr>"

text \<open>
  a fifo is a queue. The cells that were put into an empty fifo come out in the same order, each once;
  when fewer are asked for, the rest stays.
\<close>
theorem snd_seq_fifo_in_order:
  assumes "distinct cs" "0 \<notin> set cs" "\<And>c. c \<in> set cs \<Longrightarrow> ce_next (h c) = 0"
  shows "\<exists>s. enq_all fifo_append cs (fifo_empty p, h) = (Inr s :: unit + _) \<and> (\<forall>n. drain fifo_cell_out n s = take n cs)"
proof -
  have "fifo_rep (set cs) (fifo_empty p, h) []" using assms(3) by (simp add: fifo_rep_def)
  moreover have "roomy fifo_place (fifo_room (set cs)) cs []" using assms by (intro fifo_roomy) auto
  ultimately show ?thesis using ff.enq_all_drain [of "set cs" "(fifo_empty p, h)" "[]" cs] by (simp add: fold_fifo_place)
qed

definition blank_cells :: cells where
  "blank_cells c = \<lparr>ce_raw = replicate 28 0, ce_pool = 0, ce_next = 0\<rparr>"

theorem snd_seq_fifo_in_order_witness:
  "\<exists>s. enq_all fifo_append [3, 1, 2] (fifo_empty 0, blank_cells) = (Inr s :: unit + _) \<and> (\<forall>n. drain fifo_cell_out n s = take n [3, 1, 2])"
  by (rule snd_seq_fifo_in_order) (auto simp: blank_cells_def)

text \<open>
  C37: an event put back into an empty fifo is not counted as its last one. The next event that arrives is
  not linked behind it: once the first is read, the fifo has no more cells to give, although it counts
  one and polling finds it readable; the second event is lost.
\<close>
theorem snd_seq_fifo_putback_loses:
  assumes "a \<noteq> 0" "b \<noteq> 0" "a \<noteq> b"
  shows "\<exists>s s' s''. enq_all fifo_append [b] (snd_seq_fifo_cell_putback a (fifo_empty p, h)) = (Inr s :: unit + _) \<and>
    fifo_cell_out s = (s', Some a) \<and> fifo_cell_out s' = (s'', None) \<and> ff_cells (fst s'') = 1 \<and> snd_seq_fifo_poll (fst s'')"
  using assms by (simp add: snd_seq_fifo_cell_putback_def fifo_append_def fifo_cell_out_def Let_def snd_seq_fifo_poll_def)

theorem snd_seq_fifo_putback_loses_witness:
  "\<exists>s s' s''. enq_all fifo_append [2] (snd_seq_fifo_cell_putback 1 (fifo_empty 0, blank_cells)) = (Inr s :: unit + _) \<and>
    fifo_cell_out s = (s', Some 1) \<and> fifo_cell_out s' = (s'', None) \<and> ff_cells (fst s'') = 1 \<and> snd_seq_fifo_poll (fst s'')"
  by (rule snd_seq_fifo_putback_loses) simp_all

text \<open>
  an event for a fifo whose pool has no free cell is refused with \<open>EAGAIN\<close>, nothing changes except the
  statistics of the pool, and the overflow is not counted: it is counted for \<open>ENOMEM\<close> only, which a full
  pool does not give.
\<close>
theorem snd_seq_fifo_full_uncounted:
  assumes "pool_state (ff_pool f) [] used m" "pool_open (ff_pool f) m" "\<not> is_variable ev" "used \<noteq> []"
  shows "\<exists>m'. snd_seq_fifo_event_in env ev f m = Some (f, m', Inl EAGAIN) \<and> pool_state (ff_pool f) [] used m' \<and> sm_cells m' = sm_cells m"
proof -
  let ?p = "ff_pool f"
  have p: "pl_ptr (sm_pools m ?p) \<noteq> 0" "\<not> pl_closing (sm_pools m ?p)" "pl_free (sm_pools m ?p) = 0" "pl_total_elements (sm_pools m ?p) = int (length used)"
    using assms(1,2) by (auto simp: pool_state_def pool_open_def)
  let ?m = "upd_pool ?p (\<lambda>pl. pl\<lparr>pl_alloc_failures := pl_alloc_failures pl + 1\<rparr>) m"
  have "snd_seq_cell_alloc True ?p [] m = Some (?m, [], Inl EAGAIN)" using p by (simp add: snd_seq_cell_alloc_def wait_for_cell.simps)
  then have "snd_seq_event_dup env ?p ev True [] m = Some (?m, [], Inl EAGAIN)"
    using p assms(3,4) by (simp add: snd_seq_event_dup_def var_cells_def)
  moreover have "pool_state ?p [] used ?m" using assms(1) by (simp add: pool_state_def)
  ultimately show ?thesis by (simp add: snd_seq_fifo_event_in_def)
qed

abbreviation plain_event :: snd_seq_event where
  "plain_event \<equiv> \<lparr>ev_type = 6, ev_flags = 0, ev_tag = 0, ev_queue = 0, ev_time = (0, 0), ev_source = (0, 0), ev_dest = (0, 0), ev_data = replicate 12 0\<rparr>"

definition full_pool :: seq_mem where
  "full_pool = \<lparr>sm_cells = blank_cells, sm_pools = \<lambda>_. (snd_seq_pool_new 1)\<lparr>pl_ptr := 16, pl_total_elements := 1, pl_counter := 1\<rparr>\<rparr>"

theorem snd_seq_fifo_full_uncounted_witness:
  "\<exists>m'. snd_seq_fifo_event_in (sysex_env []) plain_event (fifo_empty 0) full_pool = Some (fifo_empty 0, m', Inl EAGAIN) \<and>
    pool_state (ff_pool (fifo_empty 0)) [] [16] m' \<and> sm_cells m' = sm_cells full_pool"
  by (rule snd_seq_fifo_full_uncounted)
    (simp_all add: pool_state_def pool_open_def full_pool_def snd_seq_pool_new_def blank_cells_def is_variable_def)

end
