(* ===== verification/Seq_Midi.thy ===== *)
theory Seq_Midi
  imports Seq_Memory
begin

text \<open>
  The coder between MIDI bytes and events (\<open>sound/core/seq/seq_midi_event.c\<close>): the parser that takes bytes
  one by one, with running status and system exclusive messages in pieces, and the way back.
\<close>

section \<open>The table of commands\<close>

text \<open>
  The state of a coder. \<open>me_addr\<close> is the address of its buffer, which external data of events points to.
\<close>

record snd_midi_event =
  me_qlen :: int
  me_read :: nat
  me_type :: nat
  me_lastcmd :: u8
  me_nostat :: bool
  me_bufsize :: int
  me_buf :: "u8 list"
  me_addr :: u64

abbreviation ST_INVALID :: nat where "ST_INVALID \<equiv> 7"
abbreviation ST_SPECIAL :: nat where "ST_SPECIAL \<equiv> 8"
abbreviation ST_SYSEX :: nat where "ST_SYSEX \<equiv> 8"

abbreviation EV_NONE :: u8 where "EV_NONE \<equiv> 255"
abbreviation EV_SYSEX :: u8 where "EV_SYSEX \<equiv> 130"
abbreviation EV_CONTROL14 :: u8 where "EV_CONTROL14 \<equiv> 14"
abbreviation EV_NONREGPARAM :: u8 where "EV_NONREGPARAM \<equiv> 15"
abbreviation EV_REGPARAM :: u8 where "EV_REGPARAM \<equiv> 16"

definition note_event :: "u8 list \<Rightarrow> snd_seq_event \<Rightarrow> snd_seq_event" where
  "note_event buf ev = set_byte 2 (buf ! 2) (set_byte 1 (buf ! 1) (set_byte 0 (buf ! 0 AND 0x0f) ev))"

definition one_param_ctrl_event :: "u8 list \<Rightarrow> snd_seq_event \<Rightarrow> snd_seq_event" where
  "one_param_ctrl_event buf ev = set_word 8 (ucast (buf ! 1)) (set_byte 0 (buf ! 0 AND 0x0f) ev)"

definition pitchbend_ctrl_event :: "u8 list \<Rightarrow> snd_seq_event \<Rightarrow> snd_seq_event" where
  "pitchbend_ctrl_event buf ev =
     set_word 8 (ucast (buf ! 2) * 128 + ucast (buf ! 1) - 8192) (set_byte 0 (buf ! 0 AND 0x0f) ev)"

definition two_param_ctrl_event :: "u8 list \<Rightarrow> snd_seq_event \<Rightarrow> snd_seq_event" where
  "two_param_ctrl_event buf ev =
     set_word 8 (ucast (buf ! 2)) (set_word 4 (ucast (buf ! 1)) (set_byte 0 (buf ! 0 AND 0x0f) ev))"

definition one_param_event :: "u8 list \<Rightarrow> snd_seq_event \<Rightarrow> snd_seq_event" where
  "one_param_event buf ev = set_word 8 (ucast (buf ! 1)) ev"

definition songpos_event :: "u8 list \<Rightarrow> snd_seq_event \<Rightarrow> snd_seq_event" where
  "songpos_event buf ev = set_word 8 (ucast (buf ! 2) * 128 + ucast (buf ! 1)) ev"

definition note_decode :: "snd_seq_event \<Rightarrow> u8 list" where
  "note_decode ev = [note_note ev AND 0x7f, note_velocity ev AND 0x7f]"

definition one_param_decode :: "snd_seq_event \<Rightarrow> u8 list" where
  "one_param_decode ev = [ucast (control_value ev AND 0x7f)]"

definition pitchbend_decode :: "snd_seq_event \<Rightarrow> u8 list" where
  "pitchbend_decode ev =
     (let v = control_value ev + 8192 in [ucast (v AND 0x7f), ucast (drop_bit 7 v AND 0x7f)])"

definition two_param_decode :: "snd_seq_event \<Rightarrow> u8 list" where
  "two_param_decode ev = [ucast (control_param ev AND 0x7f), ucast (control_value ev AND 0x7f)]"

definition songpos_decode :: "snd_seq_event \<Rightarrow> u8 list" where
  "songpos_decode ev = [ucast (control_value ev AND 0x7f), ucast (drop_bit 7 (control_value ev) AND 0x7f)]"

record status_event_list =
  se_event :: u8
  se_qlen :: int
  se_encode :: "(u8 list \<Rightarrow> snd_seq_event \<Rightarrow> snd_seq_event) option"
  se_decode :: "(snd_seq_event \<Rightarrow> u8 list) option"

definition no_event :: status_event_list where
  "no_event = \<lparr>se_event = EV_NONE, se_qlen = -1, se_encode = None, se_decode = None\<rparr>"

definition plain_status :: "u8 \<Rightarrow> status_event_list" where
  "plain_status e = \<lparr>se_event = e, se_qlen = 0, se_encode = None, se_decode = None\<rparr>"

definition status_event :: "status_event_list list" where
  "status_event =
    [\<lparr>se_event = 7, se_qlen = 2, se_encode = Some note_event, se_decode = Some note_decode\<rparr>,
     \<lparr>se_event = 6, se_qlen = 2, se_encode = Some note_event, se_decode = Some note_decode\<rparr>,
     \<lparr>se_event = 8, se_qlen = 2, se_encode = Some note_event, se_decode = Some note_decode\<rparr>,
     \<lparr>se_event = 10, se_qlen = 2, se_encode = Some two_param_ctrl_event, se_decode = Some two_param_decode\<rparr>,
     \<lparr>se_event = 11, se_qlen = 1, se_encode = Some one_param_ctrl_event, se_decode = Some one_param_decode\<rparr>,
     \<lparr>se_event = 12, se_qlen = 1, se_encode = Some one_param_ctrl_event, se_decode = Some one_param_decode\<rparr>,
     \<lparr>se_event = 13, se_qlen = 2, se_encode = Some pitchbend_ctrl_event, se_decode = Some pitchbend_decode\<rparr>,
     no_event,
     \<lparr>se_event = EV_SYSEX, se_qlen = 1, se_encode = None, se_decode = None\<rparr>,
     \<lparr>se_event = 22, se_qlen = 1, se_encode = Some one_param_event, se_decode = Some one_param_decode\<rparr>,
     \<lparr>se_event = 20, se_qlen = 2, se_encode = Some songpos_event, se_decode = Some songpos_decode\<rparr>,
     \<lparr>se_event = 21, se_qlen = 1, se_encode = Some one_param_event, se_decode = Some one_param_decode\<rparr>,
     no_event, no_event,
     plain_status 40,
     no_event,
     plain_status 36,
     no_event,
     plain_status 30, plain_status 31, plain_status 32,
     no_event,
     plain_status 42, plain_status 41]"

section \<open>Creation and reset\<close>

definition snd_midi_event_new :: "int \<Rightarrow> u64 \<Rightarrow> u8 list \<Rightarrow> snd_midi_event res" where
  "snd_midi_event_new bufsize addr buf =
     (if bufsize > 0 \<and> addr = 0 then Inl ENOMEM
      else Inr \<lparr>me_qlen = 0, me_read = 0, me_type = ST_INVALID, me_lastcmd = 0xff, me_nostat = False, me_bufsize = bufsize,
        me_buf = (if bufsize > 0 then buf else []), me_addr = (if bufsize > 0 then addr else 0)\<rparr>)"

definition reset_encode :: "snd_midi_event \<Rightarrow> snd_midi_event" where
  "reset_encode dev = dev\<lparr>me_read := 0, me_qlen := 0, me_type := ST_INVALID\<rparr>"

definition snd_midi_event_reset_encode :: "snd_midi_event \<Rightarrow> snd_midi_event" where
  "snd_midi_event_reset_encode dev = reset_encode dev"

definition snd_midi_event_reset_decode :: "snd_midi_event \<Rightarrow> snd_midi_event" where
  "snd_midi_event_reset_decode dev = dev\<lparr>me_lastcmd := 0xff\<rparr>"

definition snd_midi_event_no_status :: "bool \<Rightarrow> snd_midi_event \<Rightarrow> snd_midi_event" where
  "snd_midi_event_no_status on dev = dev\<lparr>me_nostat := on\<rparr>"

section \<open>Bytes to events\<close>

text \<open>A byte into the buffer; \<open>None\<close> is a write outside of it.\<close>

definition put_buf :: "nat \<Rightarrow> u8 \<Rightarrow> snd_midi_event \<Rightarrow> snd_midi_event option" where
  "put_buf i c dev = (if i < length (me_buf dev) then Some (dev\<lparr>me_buf := (me_buf dev)[i := c]\<rparr>) else None)"

definition status_type :: "u8 \<Rightarrow> nat" where
  "status_type c = (if c AND 0xf0 = 0xf0 then unat (c AND 0x0f) + ST_SPECIAL else unat (drop_bit 4 c AND 0x07))"

definition encode_store :: "u8 \<Rightarrow> snd_midi_event \<Rightarrow> snd_midi_event option" where
  "encode_store c dev =
     (if c AND 0x80 \<noteq> 0 \<and> (c \<noteq> 0xf7 \<or> me_type dev \<noteq> ST_SYSEX) then
        map_option (\<lambda>d. d\<lparr>me_type := status_type c, me_read := 1, me_qlen := se_qlen (status_event ! status_type c)\<rparr>) (put_buf 0 c dev)
      else if me_qlen dev > 0 then
        map_option (\<lambda>d. d\<lparr>me_read := me_read d + 1, me_qlen := if me_type d \<noteq> ST_SYSEX then me_qlen d - 1 else me_qlen d\<rparr>) (put_buf (me_read dev) c dev)
      else
        map_option (\<lambda>d. d\<lparr>me_qlen := se_qlen (status_event ! me_type d) - 1, me_read := 2\<rparr>) (put_buf 1 c dev))"

definition encode_sysex :: "u8 \<Rightarrow> snd_midi_event \<Rightarrow> snd_seq_event \<Rightarrow> snd_midi_event \<times> snd_seq_event" where
  "encode_sysex c dev ev =
     (if c \<noteq> 0xf7 then dev\<lparr>me_read := 0\<rparr> else reset_encode dev,
      set_ext_ptr (me_addr dev) (set_word 0 (of_nat (me_read dev)) ((set_length EVENT_LENGTH_VARIABLE ev)\<lparr>ev_type := EV_SYSEX\<rparr>)))"

definition encode_done :: "u8 \<Rightarrow> snd_midi_event \<Rightarrow> snd_seq_event \<Rightarrow> snd_midi_event \<times> snd_seq_event \<times> bool" where
  "encode_done c dev ev =
     (if me_qlen dev = 0 then
        let st = status_event ! me_type dev;
            ev1 = set_length 0 (ev\<lparr>ev_type := se_event st\<rparr>);
            ev2 = (case se_encode st of None \<Rightarrow> ev1 | Some f \<Rightarrow> f (me_buf dev) ev1)
        in (if me_type dev \<ge> ST_SPECIAL then dev\<lparr>me_type := ST_INVALID\<rparr> else dev, ev2, True)
      else if me_type dev = ST_SYSEX then
        (if c = 0xf7 \<or> int (me_read dev) \<ge> me_bufsize dev then (let (d, e) = encode_sysex c dev ev in (d, e, True))
         else (dev, ev, False))
      else (dev, ev, False))"

definition snd_midi_event_encode_byte :: "u8 \<Rightarrow> snd_midi_event \<Rightarrow> snd_seq_event \<Rightarrow> (snd_midi_event \<times> snd_seq_event \<times> bool) option" where
  "snd_midi_event_encode_byte c dev ev =
     (if c \<ge> 0xf8 then
        let ev1 = set_length 0 (ev\<lparr>ev_type := se_event (status_event ! (ST_SPECIAL + unat (c - 0xf0)))\<rparr>)
        in Some (dev, ev1, ev_type ev1 \<noteq> EV_NONE)
      else map_option (\<lambda>d. encode_done c d ev) (encode_store c dev))"

text \<open>Bytes up to the first event; the number of bytes used.\<close>

fun encode_loop :: "u8 list \<Rightarrow> nat \<Rightarrow> snd_midi_event \<Rightarrow> snd_seq_event \<Rightarrow> (snd_midi_event \<times> snd_seq_event \<times> nat) option" where
  "encode_loop [] n dev ev = Some (dev, ev, n)"
| "encode_loop (c # cs) n dev ev =
     (case snd_midi_event_encode_byte c dev ev of
        None \<Rightarrow> None
      | Some (d, e, found) \<Rightarrow> if found then Some (d, e, n + 1) else encode_loop cs (n + 1) d e)"

definition snd_midi_event_encode :: "u8 list \<Rightarrow> snd_midi_event \<Rightarrow> snd_seq_event \<Rightarrow> (snd_midi_event \<times> snd_seq_event \<times> nat) option" where
  "snd_midi_event_encode cs dev ev = encode_loop cs 0 dev (ev\<lparr>ev_type := EV_NONE\<rparr>)"

section \<open>Events to bytes\<close>

text \<open>The results of the decoders are the bytes written, or an error; \<open>cnt\<close> is the room for them.\<close>

definition ctrl_cmd :: "snd_seq_event \<Rightarrow> u8" where
  "ctrl_cmd ev = 0xb0 OR (note_channel ev AND 0x0f)"

definition extra_decode_ctrl14 :: "int \<Rightarrow> snd_seq_event \<Rightarrow> snd_midi_event \<Rightarrow> snd_midi_event \<times> u8 list res" where
  "extra_decode_ctrl14 cnt ev dev =
     (let cmd = ctrl_cmd ev; status = cmd \<noteq> me_lastcmd dev \<or> me_nostat dev; param = control_param ev; val = control_value ev in
      if param < 0x20 then
        (if cnt < 4 then (dev, Inl ENOMEM)
         else if me_nostat dev \<and> cnt < 6 then (dev, Inl ENOMEM)
         else if status \<and> cnt < 5 then (dev, Inl ENOMEM)
         else (if status then dev\<lparr>me_lastcmd := cmd\<rparr> else dev,
           Inr ((if status then [cmd] else []) @ [ucast param, ucast (drop_bit 7 val AND 0x7f)] @ (if me_nostat dev then [cmd] else []) @
             [ucast (param + 0x20), ucast (val AND 0x7f)])))
      else
        (if cnt < 2 then (dev, Inl ENOMEM)
         else if status \<and> cnt < 3 then (dev, Inl ENOMEM)
         else (if status then dev\<lparr>me_lastcmd := cmd\<rparr> else dev,
           Inr ((if status then [cmd] else []) @ [ucast (param AND 0x7f), ucast (val AND 0x7f)]))))"

definition extra_decode_xrpn :: "int \<Rightarrow> snd_seq_event \<Rightarrow> snd_midi_event \<Rightarrow> snd_midi_event \<times> u8 list res" where
  "extra_decode_xrpn cnt ev dev =
     (let cmd = ctrl_cmd ev; status = cmd \<noteq> me_lastcmd dev \<and> \<not> me_nostat dev; param = control_param ev; val = control_value ev;
          bs = [ucast (drop_bit 7 (param AND 0x3f80)), ucast (param AND 0x7f), ucast (drop_bit 7 (val AND 0x3f80)), ucast (val AND 0x7f)];
          cbytes = (if ev_type ev = EV_NONREGPARAM then [0x63, 0x62, 0x06, 0x26] else [0x65, 0x64, 0x06, 0x26])
      in if cnt < 8 then (dev, Inl ENOMEM)
         else if me_nostat dev \<and> cnt < 12 then (dev, Inl ENOMEM)
         else if status \<and> cnt < 9 then (dev, Inl ENOMEM)
         else (if status \<or> me_nostat dev then dev\<lparr>me_lastcmd := cmd\<rparr> else dev,
           Inr ((if status then [cmd] else []) @ concat (map (\<lambda>(c, b). (if me_nostat dev then [cmd] else []) @ [c, b]) (zip cbytes bs)))))"

fun find_status :: "u8 \<Rightarrow> nat \<Rightarrow> status_event_list list \<Rightarrow> nat option" where
  "find_status t i [] = None"
| "find_status t i (s # ss) = (if t = se_event s then Some i else find_status t (i + 1) ss)"

definition decode_cmd :: "nat \<Rightarrow> snd_seq_event \<Rightarrow> u8" where
  "decode_cmd t ev =
     (if t \<ge> ST_SPECIAL then 0xf0 + of_nat (t - ST_SPECIAL) else 0x80 OR push_bit 4 (of_nat t) OR (note_channel ev AND 0x0f))"

definition decode_status :: "int \<Rightarrow> nat \<Rightarrow> snd_seq_event \<Rightarrow> snd_midi_event \<Rightarrow> snd_midi_event \<times> u8 list res" where
  "decode_status cnt t ev dev =
     (let cmd = decode_cmd t ev; st = status_event ! t;
          data = (case se_decode st of None \<Rightarrow> [] | Some f \<Rightarrow> f ev);
          status = cmd AND 0xf0 = 0xf0 \<or> me_lastcmd dev \<noteq> cmd \<or> me_nostat dev;
          qlen = (if status then se_qlen st + 1 else se_qlen st);
          d = (if status then dev\<lparr>me_lastcmd := cmd\<rparr> else dev)
      in if cnt < qlen then (d, Inl ENOMEM)
         else (d, Inr (take (nat qlen) ((if status then [cmd] else []) @ data))))"

definition snd_midi_event_decode :: "data_env \<Rightarrow> cells \<Rightarrow> int \<Rightarrow> snd_seq_event \<Rightarrow> snd_midi_event \<Rightarrow> snd_midi_event \<times> u8 list res" where
  "snd_midi_event_decode env h cnt ev dev =
     (if ev_type ev = EV_NONE then (dev, Inl ENOENT)
      else case find_status (ev_type ev) 0 status_event of
        None \<Rightarrow>
          if ev_type ev = EV_CONTROL14 then extra_decode_ctrl14 cnt ev dev
          else if ev_type ev = EV_NONREGPARAM \<or> ev_type ev = EV_REGPARAM then extra_decode_xrpn cnt ev dev
          else (dev, Inl ENOENT)
      | Some t \<Rightarrow>
          if decode_cmd t ev = 0xf0 then
            (snd_midi_event_reset_decode dev, map_sum id fst (snd_seq_expand_var_event env h ev cnt True 0))
          else decode_status cnt t ev dev)"

end
