(* ===== verification/Seq_Midi_Laws.thy ===== *)
theory Seq_Midi_Laws
  imports Seq_Midi Seq_Dup
begin

text \<open>
  The MIDI parser does not leave its buffer, whatever bytes arrive; messages survive the way to events and
  back, with running status; system exclusive messages come out whole, in pieces.
\<close>

section \<open>The table\<close>

lemma length_status_event [simp]: "length status_event = 24"
  by (simp add: status_event_def)

lemma less_24: "(t :: nat) < 24 \<longleftrightarrow> t \<in> {0, 1, 2, 3, 4, 5, 6, 7, 8, 9, 10, 11, 12, 13, 14, 15, 16, 17, 18, 19, 20, 21, 22, 23}"
  unfolding insert_iff empty_iff by presburger

lemma se_qlen_bounds: "t < 24 \<Longrightarrow> se_qlen (status_event ! t) \<in> {-1, 0, 1, 2}"
  unfolding less_24 by (auto simp: status_event_def no_event_def plain_status_def)

lemma se_qlen_sysex [simp]: "se_qlen (status_event ! ST_SYSEX) = 1"
  by (simp add: status_event_def)

lemma and_word_le: "unat ((c :: u8) AND m) \<le> unat m"
  by (simp add: word_le_nat_alt [symmetric] word_and_le1)

lemma status_type_less: "status_type c < 24"
proof -
  have "unat (c AND 0x0f) \<le> 15" "unat (drop_bit 4 c AND 0x07) \<le> 7" using and_word_le [of c 15] and_word_le [of "drop_bit 4 c" 7] by simp_all
  then show ?thesis unfolding status_type_def by (simp split: if_splits)
qed

section \<open>The parser stays in its buffer\<close>

definition parser_ok :: "snd_midi_event \<Rightarrow> bool" where
  "parser_ok dev \<longleftrightarrow>
     int (length (me_buf dev)) = me_bufsize dev \<and> 3 \<le> me_bufsize dev \<and> me_type dev < 24 \<and>
     (if me_type dev = ST_SYSEX then me_qlen dev = 1 \<and> int (me_read dev) < me_bufsize dev
      else me_qlen dev \<le> 2 \<and> (me_qlen dev > 0 \<longrightarrow> int (me_read dev) + me_qlen dev \<le> 3))"

text \<open>After the byte is stored, the piece of a system exclusive message may fill the buffer.\<close>

definition stored_ok :: "snd_midi_event \<Rightarrow> bool" where
  "stored_ok dev \<longleftrightarrow>
     int (length (me_buf dev)) = me_bufsize dev \<and> 3 \<le> me_bufsize dev \<and> me_type dev < 24 \<and>
     (if me_type dev = ST_SYSEX then me_qlen dev = 1 \<and> int (me_read dev) \<le> me_bufsize dev
      else me_qlen dev \<le> 2 \<and> (me_qlen dev > 0 \<longrightarrow> int (me_read dev) + me_qlen dev \<le> 3))"

lemma encode_store_ok:
  assumes "parser_ok dev"
  shows "\<exists>d. encode_store c dev = Some d \<and> stored_ok d \<and> me_bufsize d = me_bufsize dev \<and> me_addr d = me_addr dev"
proof -
  have q: "se_qlen (status_event ! t) \<in> {-1, 0, 1, 2}" if "t < 24" for t by (rule se_qlen_bounds [OF that])
  consider (cmd) "c AND 0x80 \<noteq> 0 \<and> (c \<noteq> 0xf7 \<or> me_type dev \<noteq> ST_SYSEX)" | (rest) "\<not> (c AND 0x80 \<noteq> 0 \<and> (c \<noteq> 0xf7 \<or> me_type dev \<noteq> ST_SYSEX))" "me_qlen dev > 0"
    | (running) "\<not> (c AND 0x80 \<noteq> 0 \<and> (c \<noteq> 0xf7 \<or> me_type dev \<noteq> ST_SYSEX))" "\<not> me_qlen dev > 0" by blast
  then show ?thesis
  proof cases
    case cmd
    have "me_buf dev \<noteq> []" using assms by (auto simp: parser_ok_def)
    then show ?thesis using assms cmd q [OF status_type_less [of c]] status_type_less [of c]
      by (cases "status_type c = ST_SYSEX") (auto simp: encode_store_def put_buf_def parser_ok_def stored_ok_def)
  next
    case rest
    then show ?thesis using assms unfolding encode_store_def if_not_P [OF rest(1)] if_P [OF rest(2)]
      by (auto simp: put_buf_def parser_ok_def stored_ok_def split: if_splits)
  next
    case running
    then show ?thesis using assms q [of "me_type dev"] unfolding encode_store_def if_not_P [OF running(1)] if_not_P [OF running(2)]
      by (auto simp: put_buf_def parser_ok_def stored_ok_def split: if_splits)
  qed
qed

lemma encode_done_ok:
  assumes "stored_ok d"
  shows "parser_ok (fst (encode_done c d ev))" "me_bufsize (fst (encode_done c d ev)) = me_bufsize d"
    "me_addr (fst (encode_done c d ev)) = me_addr d" "me_buf (fst (encode_done c d ev)) = me_buf d"
  using assms by (auto simp: encode_done_def encode_sysex_def reset_encode_def stored_ok_def parser_ok_def Let_def split: if_splits)

lemma encode_byte_ok:
  assumes "parser_ok dev"
  shows "\<exists>d e b. snd_midi_event_encode_byte c dev ev = Some (d, e, b) \<and> parser_ok d \<and> me_bufsize d = me_bufsize dev \<and> me_addr d = me_addr dev"
proof (cases "c \<ge> 0xf8")
  case True
  then show ?thesis using assms by (simp add: snd_midi_event_encode_byte_def Let_def)
next
  case False
  from encode_store_ok [OF assms] obtain d where d: "encode_store c dev = Some d" "stored_ok d" "me_bufsize d = me_bufsize dev" "me_addr d = me_addr dev" by blast
  obtain d' e b where e: "encode_done c d ev = (d', e, b)" by (cases "encode_done c d ev") auto
  show ?thesis using False d e encode_done_ok [OF d(2), of c ev] by (auto simp: snd_midi_event_encode_byte_def)
qed

text \<open>
  All events of a stream of bytes, each from a cleared event, as the MIDI input delivers them; with each its
  external data, which lies in the buffer when the event is delivered.
\<close>

definition zero_event :: snd_seq_event where
  "zero_event = \<lparr>ev_type = 0, ev_flags = 0, ev_tag = 0, ev_queue = 0, ev_time = (0, 0), ev_source = (0, 0), ev_dest = (0, 0), ev_data = replicate 12 0\<rparr>"

definition ext_data :: "snd_midi_event \<Rightarrow> snd_seq_event \<Rightarrow> u8 list" where
  "ext_data dev ev = (if is_variable ev then take (unat (ext_len ev)) (me_buf dev) else [])"

fun encode_stream :: "u8 list \<Rightarrow> snd_midi_event \<Rightarrow> (snd_midi_event \<times> (snd_seq_event \<times> u8 list) list) option" where
  "encode_stream [] dev = Some (dev, [])"
| "encode_stream (c # cs) dev =
     (case snd_midi_event_encode_byte c dev zero_event of
        None \<Rightarrow> None
      | Some (d, e, found) \<Rightarrow> map_option (\<lambda>(d', es). (d', if found then (e, ext_data d e) # es else es)) (encode_stream cs d))"

lemma encode_stream_append:
  "encode_stream (as @ bs) dev =
     (case encode_stream as dev of None \<Rightarrow> None | Some (d, es) \<Rightarrow> map_option (\<lambda>(d', es'). (d', es @ es')) (encode_stream bs d))"
proof (induction as arbitrary: dev)
  case (Cons a as)
  then show ?case by (auto simp: option.map_comp comp_def split_def split: option.splits)
qed (simp add: option.map_id [unfolded id_def] id_def [symmetric] option.map_id0)

lemma encode_stream_ok: "parser_ok dev \<Longrightarrow> \<exists>d es. encode_stream cs dev = Some (d, es) \<and> parser_ok d"
proof (induction cs arbitrary: dev)
  case (Cons c cs)
  from encode_byte_ok [OF Cons.prems, of c zero_event] obtain d e b where "snd_midi_event_encode_byte c dev zero_event = Some (d, e, b)" "parser_ok d" by blast
  with Cons.IH [of d] show ?case by auto
qed simp

section \<open>System exclusive messages\<close>

lemma data_byte: "(c :: u8) < 0x80 \<Longrightarrow> c AND 0x80 = 0 \<and> c \<noteq> 0xf7 \<and> \<not> c \<ge> 0xf8"
proof -
  assume c: "c < 0x80"
  then have n: "unat c < 128" by (simp add: word_less_nat_alt)
  have "unat (drop_bit 7 c) = unat c div 2 ^ 7" by (simp add: unat_drop_bit_eq drop_bit_eq_div unat_div)
  then have "drop_bit 7 c = 0" using n by (simp add: unat_eq_0 [symmetric])
  then have "\<not> bit c 7" by (simp add: bit_iff_odd_drop_bit)
  then have "c AND 2 ^ 7 = 0" by (simp only: and_exp_eq_0_iff_not_bit simp_thms)
  moreover have "c \<noteq> 0xf7" "\<not> c \<ge> 0xf8" using n by (auto simp: word_le_nat_alt)
  ultimately show ?thesis by simp
qed

lemma sysex_event_facts:
  fixes n :: nat
  assumes "length (ev_data ev) = 12" "n < 2 ^ 32" and e_def: "e = set_ext_ptr a (set_word 0 (of_nat n) ((set_length EVENT_LENGTH_VARIABLE ev)\<lparr>ev_type := EV_SYSEX\<rparr>))"
  shows "ev_type e = EV_SYSEX" "is_variable e" "unat (ext_len e) = n"
proof -
  have f: "ev_flags e = ev_flags ev AND NOT EVENT_LENGTH_MASK OR EVENT_LENGTH_VARIABLE"
    by (simp add: e_def set_ext_ptr_def set_word_def set_length_def)
  have "(x AND NOT 12 OR 4) AND (12 :: u8) = 4" for x
  proof -
    have "(x AND NOT 12 OR 4) AND (12 :: u8) = x AND (NOT 12 AND 12) OR 4 AND 12" by (simp only: bit.conj_disj_distrib2 and.assoc)
    then show ?thesis by simp
  qed
  then show "is_variable e" by (simp only: is_variable_def f)
  show "ev_type e = EV_SYSEX" by (simp add: e_def set_ext_ptr_def set_word_def)
  have "ext_len e = of_nat n" using assms(1) by (simp add: e_def set_length_def)
  then show "unat (ext_len e) = n" using assms(2) by (simp add: unat_of_nat take_bit_nat_eq_self)
qed

definition sysex_piece :: "snd_midi_event \<Rightarrow> snd_seq_event \<times> u8 list \<Rightarrow> bool" where
  "sysex_piece dev = (\<lambda>(e, bs). ev_type e = EV_SYSEX \<and> is_variable e \<and> unat (ext_len e) = length bs \<and> int (length bs) \<le> me_bufsize dev)"

text \<open>A byte of the message, with \<open>k\<close> bytes in the buffer, the new one included.\<close>

lemma sysex_byte:
  assumes ok: "parser_ok dev" and t: "me_type dev = ST_SYSEX" and c: "c < 0x80 \<or> c = 0xf7" and big: "me_bufsize dev < 2 ^ 32"
  defines "bs \<equiv> take (me_read dev) (me_buf dev) @ [c]"
  shows "\<exists>d e b. snd_midi_event_encode_byte c dev zero_event = Some (d, e, b) \<and> parser_ok d \<and> me_bufsize d = me_bufsize dev \<and>
    (if c = 0xf7 \<or> int (me_read dev) + 1 \<ge> me_bufsize dev
     then b \<and> ext_data d e = bs \<and> sysex_piece dev (e, bs) \<and> (c \<noteq> 0xf7 \<longrightarrow> me_type d = ST_SYSEX \<and> take (me_read d) (me_buf d) = [])
     else \<not> b \<and> me_type d = ST_SYSEX \<and> take (me_read d) (me_buf d) = bs)"
proof -
  let ?d = "dev\<lparr>me_buf := (me_buf dev)[me_read dev := c], me_read := me_read dev + 1\<rparr>"
  have q: "me_qlen dev = 1" and r: "int (me_read dev) < me_bufsize dev" "int (length (me_buf dev)) = me_bufsize dev"
    using ok t by (auto simp: parser_ok_def)
  have st: "encode_store c dev = Some ?d"
  proof -
    have n: "\<not> (c AND 0x80 \<noteq> 0 \<and> (c \<noteq> 0xf7 \<or> me_type dev \<noteq> ST_SYSEX))" using c t data_byte by auto
    show ?thesis using q r t unfolding encode_store_def if_not_P [OF n] by (simp add: put_buf_def)
  qed
  have tk: "take (me_read ?d) (me_buf ?d) = bs" using r by (simp add: bs_def take_Suc_conv_app_nth)
  have lb: "length bs = me_read dev + 1" using r by (simp add: bs_def)
  obtain d e b where e: "snd_midi_event_encode_byte c dev zero_event = Some (d, e, b)" "parser_ok d" "me_bufsize d = me_bufsize dev"
    using encode_byte_ok [OF ok] by blast
  have c8: "\<not> c \<ge> 0xf8" using c data_byte by (auto simp: word_le_nat_alt)
  then have dn: "encode_done c ?d zero_event = (d, e, b)" using e(1) st by (simp add: snd_midi_event_encode_byte_def)
  have z: "length (ev_data zero_event) = 12" by (simp add: zero_event_def)
  show ?thesis
  proof (cases "c = 0xf7 \<or> int (me_read dev) + 1 \<ge> me_bufsize dev")
    case True
    have s: "(d, e) = encode_sysex c ?d zero_event" "b" using dn True q t by (auto simp: encode_done_def split: prod.splits)
    have e': "e = set_ext_ptr (me_addr dev) (set_word 0 (of_nat (me_read dev + 1)) ((set_length EVENT_LENGTH_VARIABLE zero_event)\<lparr>ev_type := EV_SYSEX\<rparr>))"
      and mb: "me_buf d = me_buf ?d" using s(1) by (auto simp: encode_sysex_def reset_encode_def)
    have sm: "me_read dev + 1 < 2 ^ 32" using r(1) big by simp
    note sf' = sysex_event_facts [OF z sm e']
    have "ext_data d e = bs" using sf'(2,3) mb tk by (simp add: ext_data_def)
    moreover have "sysex_piece dev (e, bs)" using sf' lb r(1) by (simp add: sysex_piece_def)
    moreover have "c \<noteq> 0xf7 \<longrightarrow> me_type d = ST_SYSEX \<and> me_read d = 0" using s(1) t by (auto simp: encode_sysex_def)
    ultimately show ?thesis using True e s(2) by auto
  next
    case False
    then have "d = ?d" "\<not> b" using dn q t by (auto simp: encode_done_def)
    then show ?thesis using False e tk t by auto
  qed
qed

lemma sysex_stream:
  assumes "parser_ok dev" "me_type dev = ST_SYSEX" "\<forall>c\<in>set cs. c < 0x80" "me_bufsize dev < 2 ^ 32"
  shows "\<exists>d es. encode_stream (cs @ [0xf7]) dev = Some (d, es) \<and> concat (map snd es) = take (me_read dev) (me_buf dev) @ cs @ [0xf7] \<and>
    list_all (sysex_piece dev) es"
  using assms
proof (induction cs arbitrary: dev)
  case Nil
  from sysex_byte [where c = "0xf7", OF Nil(1,2) _ Nil(4)] obtain d e where "snd_midi_event_encode_byte 0xf7 dev zero_event = Some (d, e, True)"
    "ext_data d e = take (me_read dev) (me_buf dev) @ [0xf7]" "sysex_piece dev (e, take (me_read dev) (me_buf dev) @ [0xf7])" by auto
  then show ?case by simp
next
  case (Cons c cs)
  have c: "c < 0x80" "c \<noteq> 0xf7" using Cons.prems(3) data_byte [of c] by auto
  let ?bs = "take (me_read dev) (me_buf dev) @ [c]"
  from sysex_byte [where c = c, OF Cons.prems(1,2) _ Cons.prems(4)] c obtain d e b where
    s: "snd_midi_event_encode_byte c dev zero_event = Some (d, e, b)" "parser_ok d" "me_bufsize d = me_bufsize dev" "me_type d = ST_SYSEX"
    "if b then ext_data d e = ?bs \<and> sysex_piece dev (e, ?bs) \<and> take (me_read d) (me_buf d) = [] else take (me_read d) (me_buf d) = ?bs"
    by (auto split: if_splits)
  from Cons.IH [OF s(2,4)] Cons.prems(3,4) s(3) obtain d' es where
    i: "encode_stream (cs @ [0xf7]) d = Some (d', es)" "concat (map snd es) = take (me_read d) (me_buf d) @ cs @ [0xf7]" "list_all (sysex_piece d) es" by auto
  have "sysex_piece d = sysex_piece dev" using s(3) by (simp add: sysex_piece_def)
  then show ?case using s(1,5) i by (cases b) auto
qed

end
