(* ===== verification/Seq_Midi_Roundtrip.thy ===== *)
theory Seq_Midi_Roundtrip
  imports Seq_Midi_Laws
begin

text \<open>MIDI messages to events and back, with and without running status.\<close>

section \<open>Messages\<close>

text \<open>A command and its data, system exclusive messages and real-time messages apart.\<close>

definition valid_msg :: "u8 \<Rightarrow> u8 list \<Rightarrow> bool" where
  "valid_msg cmd data \<longleftrightarrow>
     cmd \<ge> 0x80 \<and> cmd < 0xf8 \<and> cmd \<noteq> 0xf0 \<and> se_qlen (status_event ! status_type cmd) = int (length data) \<and> (\<forall>c\<in>set data. c < 0x80)"

text \<open>The event of a message.\<close>

definition status_done :: "nat \<Rightarrow> u8 list \<Rightarrow> snd_seq_event" where
  "status_done t buf =
     (let st = status_event ! t; ev1 = set_length 0 (zero_event\<lparr>ev_type := se_event st\<rparr>)
      in case se_encode st of None \<Rightarrow> ev1 | Some f \<Rightarrow> f buf ev1)"

definition msg_event :: "u8 \<Rightarrow> u8 list \<Rightarrow> snd_seq_event" where
  "msg_event cmd data = status_done (status_type cmd) (cmd # data)"

text \<open>The parser is where a command leaves it: data alone is taken for another message of this command.\<close>

definition after_msg :: "u8 \<Rightarrow> snd_midi_event \<Rightarrow> bool" where
  "after_msg cmd dev \<longleftrightarrow> parser_ok dev \<and> (status_type cmd < ST_INVALID \<longrightarrow> me_type dev = status_type cmd \<and> me_qlen dev = 0 \<and> me_buf dev ! 0 = cmd)"

lemma encoders_prefix:
  assumes t: "t < 24" and q: "se_qlen (status_event ! t) = int n" and b: "take (Suc n) buf = xs" "length xs = Suc n"
  shows "status_done t buf = status_done t xs"
proof -
  have nth: "buf ! i = xs ! i" if "i \<le> n" for i using b that by (metis le_imp_less_Suc nth_take)
  have q2: "se_qlen (status_event ! t) = 2 \<Longrightarrow> n = 2" "se_qlen (status_event ! t) = 1 \<Longrightarrow> n = 1" using q by auto
  show ?thesis using t q2 unfolding less_24
    by (auto simp: status_done_def status_event_def plain_status_def no_event_def note_event_def two_param_ctrl_event_def
      one_param_ctrl_event_def pitchbend_ctrl_event_def one_param_event_def songpos_event_def nth)
qed

lemma status_done_fixed: "t < 24 \<Longrightarrow> \<not> is_variable (status_done t buf)"
  unfolding less_24
  by (auto simp: status_done_def status_event_def plain_status_def no_event_def note_event_def two_param_ctrl_event_def
      one_param_ctrl_event_def pitchbend_ctrl_event_def one_param_event_def songpos_event_def is_variable_def set_length_def
      set_byte_def set_word_def zero_event_def)

text \<open>The rest of a message.\<close>

lemma encode_rest_byte:
  assumes ok: "parser_ok dev" and t: "me_type dev \<noteq> ST_SYSEX" and q: "me_qlen dev > 0" and c: "c < 0x80"
  defines "d \<equiv> dev\<lparr>me_buf := (me_buf dev)[me_read dev := c], me_read := me_read dev + 1, me_qlen := me_qlen dev - 1\<rparr>"
  shows "encode_store c dev = Some d" "take (me_read d) (me_buf d) = take (me_read dev) (me_buf dev) @ [c]"
proof -
  have r: "me_read dev < length (me_buf dev)" using ok q t by (auto simp: parser_ok_def)
  have n: "\<not> (c AND 0x80 \<noteq> 0 \<and> (c \<noteq> 0xf7 \<or> me_type dev \<noteq> ST_SYSEX))" using data_byte [OF c] by auto
  show "encode_store c dev = Some d" using q r t unfolding encode_store_def if_not_P [OF n] by (simp add: put_buf_def d_def)
  show "take (me_read d) (me_buf d) = take (me_read dev) (me_buf dev) @ [c]" using r by (simp add: d_def take_Suc_conv_app_nth)
qed

lemma encode_rest:
  assumes "parser_ok dev" "me_type dev \<noteq> ST_SYSEX" "me_qlen dev = int (length cs)" "cs \<noteq> []" "\<forall>c\<in>set cs. c < 0x80"
  shows "\<exists>d. encode_stream cs dev = Some (d, [(status_done (me_type dev) (me_buf d), [])]) \<and> parser_ok d \<and>
    me_type d = (if me_type dev \<ge> ST_SPECIAL then ST_INVALID else me_type dev) \<and> me_qlen d = 0 \<and>
    take (me_read dev + length cs) (me_buf d) = take (me_read dev) (me_buf dev) @ cs"
  using assms
proof (induction cs arbitrary: dev)
  case (Cons c cs)
  let ?d = "dev\<lparr>me_buf := (me_buf dev)[me_read dev := c], me_read := me_read dev + 1, me_qlen := me_qlen dev - 1\<rparr>"
  have c: "c < 0x80" "\<not> c \<ge> 0xf8" using Cons.prems(5) data_byte by auto
  have q: "me_qlen dev > 0" using Cons.prems(3) by simp
  note b = encode_rest_byte [OF Cons.prems(1,2) q c(1)]
  have st: "stored_ok ?d" using encode_store_ok [OF Cons.prems(1), of c] b(1) by auto
  have t24: "me_type dev < 24" using Cons.prems(1) by (simp add: parser_ok_def)
  show ?case
  proof (cases "cs = []")
    case True
    have q1: "me_qlen dev = 1" using Cons.prems(3) True by simp
    let ?d' = "if me_type ?d \<ge> ST_SPECIAL then ?d\<lparr>me_type := ST_INVALID\<rparr> else ?d"
    have dn: "encode_done c ?d zero_event = (?d', status_done (me_type dev) (me_buf ?d), True)"
      using q1 by (simp add: encode_done_def status_done_def Let_def split: option.split)
    have "parser_ok ?d'" using encode_done_ok(1) [OF st, of c zero_event] dn by simp
    moreover have "ext_data ?d' (status_done (me_type dev) (me_buf ?d)) = []" using status_done_fixed [OF t24] by (simp add: ext_data_def)
    moreover have "snd_midi_event_encode_byte c dev zero_event = Some (?d', status_done (me_type dev) (me_buf ?d), True)"
      using c b(1) dn by (simp add: snd_midi_event_encode_byte_def)
    ultimately show ?thesis using True q1 b(2) by (intro exI [of _ ?d']) auto
  next
    case False
    have "me_qlen ?d \<noteq> 0" using Cons.prems(3) False by simp
    then have dn: "encode_done c ?d zero_event = (?d, zero_event, False)" using Cons.prems(2) by (simp add: encode_done_def)
    have ok: "parser_ok ?d" using encode_done_ok(1) [OF st, of c zero_event] dn by simp
    have run: "snd_midi_event_encode_byte c dev zero_event = Some (?d, zero_event, False)"
      using c b(1) dn by (simp add: snd_midi_event_encode_byte_def)
    from Cons.IH [OF ok] Cons.prems False obtain d where
      i: "encode_stream cs ?d = Some (d, [(status_done (me_type ?d) (me_buf d), [])])" "parser_ok d"
      "me_type d = (if me_type ?d \<ge> ST_SPECIAL then ST_INVALID else me_type ?d)" "me_qlen d = 0"
      "take (me_read ?d + length cs) (me_buf d) = take (me_read ?d) (me_buf ?d) @ cs" by auto
    show ?thesis using run i b(2) by (intro exI [of _ d]) (auto simp: add.commute)
  qed
qed simp

lemma cmd_byte:
  assumes "(cmd :: u8) \<ge> 0x80" "cmd < 0xf8"
  shows "cmd AND 0x80 \<noteq> 0" "\<not> cmd \<ge> 0xf8"
proof -
  have n: "128 \<le> unat cmd" "unat cmd < 248" using assms by (simp_all add: word_nat)
  have "unat (drop_bit 7 cmd) = unat cmd div 2 ^ 7" by (simp add: unat_drop_bit_eq drop_bit_eq_div unat_div)
  then have "unat (drop_bit 7 cmd) = 1" using n by simp
  then have "drop_bit 7 cmd = 1" by (simp add: word_nat)
  then have "bit cmd 7" by (simp add: bit_iff_odd_drop_bit)
  then show "cmd AND 0x80 \<noteq> 0" using and_exp_eq_0_iff_not_bit [of cmd 7] by simp
  show "\<not> cmd \<ge> 0xf8" using assms by simp
qed

text \<open>Facts about single bytes, by looking at each.\<close>

lemma all_bytes: "list_all P (map of_nat [0..<256]) \<Longrightarrow> P (c :: u8)"
proof -
  assume a: "list_all P (map of_nat [0..<256])"
  have "unat c < 256" using unsigned_less [of c] by simp
  moreover have "c = of_nat (unat c)" by simp
  ultimately have "c \<in> set (map of_nat [0..<256])" by (metis atLeast0LessThan image_eqI lessThan_iff list.set_map set_upt)
  then show "P c" using a by (simp only: list_all_iff)
qed

lemma status_type_facts:
  "c \<ge> 0x80 \<longrightarrow> (status_type c = ST_SYSEX \<longrightarrow> c = 0xf0) \<and> status_type c \<noteq> ST_INVALID \<and> (c AND 0xf0 = 0xf0 \<longleftrightarrow> status_type c \<ge> ST_SPECIAL) \<and>
     (if status_type c \<ge> ST_SPECIAL then 0xf0 + of_nat (status_type c - ST_SPECIAL)
      else 0x80 OR push_bit 4 (of_nat (status_type c)) OR (c AND 0x0f AND 0x0f)) = c"
  by (rule all_bytes) code_simp

lemma encode_stream_byte:
  assumes "encode_store c dev = Some d" "\<not> c \<ge> 0xf8" "encode_done c d zero_event = (d', e, b)"
  shows "snd_midi_event_encode_byte c dev zero_event = Some (d', e, b)"
  using assms by (simp add: snd_midi_event_encode_byte_def)

lemma status_done_msg:
  assumes "valid_msg cmd data" "take (Suc (length data)) buf = cmd # data"
  shows "status_done (status_type cmd) buf = msg_event cmd data"
  using encoders_prefix [OF status_type_less _ assms(2), of cmd] assms(1) by (simp add: msg_event_def valid_msg_def)

lemma encode_msg:
  assumes ok: "parser_ok dev" and v: "valid_msg cmd data"
  shows "\<exists>d. encode_stream (cmd # data) dev = Some (d, [(msg_event cmd data, [])]) \<and> after_msg cmd d"
proof -
  let ?t = "status_type cmd"
  let ?d = "dev\<lparr>me_buf := (me_buf dev)[0 := cmd], me_type := ?t, me_read := 1, me_qlen := int (length data)\<rparr>"
  have cm: "cmd AND 0x80 \<noteq> 0" "\<not> cmd \<ge> 0xf8" using cmd_byte v by (auto simp: valid_msg_def)
  have t: "?t < 24" "?t \<noteq> ST_SYSEX" "?t \<noteq> ST_INVALID" "se_qlen (status_event ! ?t) = int (length data)"
    using v status_type_less [of cmd] status_type_facts [of cmd] by (auto simp: valid_msg_def)
  have b: "me_buf dev \<noteq> []" using ok by (auto simp: parser_ok_def)
  have n: "cmd AND 0x80 \<noteq> 0 \<and> (cmd \<noteq> 0xf7 \<or> me_type dev \<noteq> ST_SYSEX)"
  proof -
    have "cmd \<noteq> 0xf7"
    proof
      assume c: "cmd = 0xf7"
      have "se_qlen (status_event ! status_type 0xf7) = -1" by (simp add: status_type_def status_event_def no_event_def)
      then show False using t(4) c by simp
    qed
    then show ?thesis using cm by simp
  qed
  have st: "encode_store cmd dev = Some ?d" unfolding encode_store_def if_P [OF n] using b t(4) by (simp add: put_buf_def)
  have sok: "stored_ok ?d" using encode_store_ok [OF ok, of cmd] st by auto
  have buf0: "take 1 (me_buf ?d) = [cmd]" using b by (cases "me_buf dev") auto
  show ?thesis
  proof (cases "data = []")
    case True
    let ?d' = "if ?t \<ge> ST_SPECIAL then ?d\<lparr>me_type := ST_INVALID\<rparr> else ?d"
    have "encode_done cmd ?d zero_event = (?d', status_done ?t (me_buf ?d), True)" using True by (simp add: encode_done_def status_done_def Let_def split: option.split)
    moreover have "status_done ?t (me_buf ?d) = msg_event cmd data" using status_done_msg [OF v, of "me_buf ?d"] buf0 True by simp
    ultimately have dn: "encode_done cmd ?d zero_event = (?d', msg_event cmd data, True)" by simp
    have "ext_data ?d' (msg_event cmd data) = []" using status_done_fixed [OF t(1)] by (simp add: ext_data_def msg_event_def)
    moreover have "parser_ok ?d'" using encode_done_ok(1) [OF sok, of cmd zero_event] dn by simp
    moreover have "?d'\<lparr>me_type := ?t\<rparr> = ?d" by simp
    ultimately show ?thesis using encode_stream_byte [OF st cm(2) dn] True b
      by (intro exI [of _ ?d']) (auto simp: after_msg_def)
  next
    case False
    have dn: "encode_done cmd ?d zero_event = (?d, zero_event, False)" using False t(2) by (simp add: encode_done_def)
    have pok: "parser_ok ?d" using encode_done_ok(1) [OF sok, of cmd zero_event] dn by simp
    from encode_rest [OF pok, of data] t(2) False v obtain d where
      d: "encode_stream data ?d = Some (d, [(status_done ?t (me_buf d), [])])" "parser_ok d"
      "me_type d = (if ?t \<ge> ST_SPECIAL then ST_INVALID else ?t)" "me_qlen d = 0" "take (1 + length data) (me_buf d) = take 1 (me_buf ?d) @ data"
      by (auto simp: valid_msg_def)
    have tk: "take (Suc (length data)) (me_buf d) = cmd # data" using d(5) buf0 by simp
    then have "me_buf d ! 0 = cmd" by (cases "me_buf d") auto
    then show ?thesis using encode_stream_byte [OF st cm(2) dn] d status_done_msg [OF v tk] by (intro exI [of _ d]) (auto simp: after_msg_def)
  qed
qed

lemma encode_running:
  assumes af: "after_msg cmd dev" and v: "valid_msg cmd data" and t: "status_type cmd < ST_INVALID" and ne: "data \<noteq> []"
  shows "\<exists>d. encode_stream data dev = Some (d, [(msg_event cmd data, [])]) \<and> after_msg cmd d"
proof -
  let ?t = "status_type cmd"
  obtain c cs where data: "data = c # cs" using ne by (cases data) auto
  have a: "parser_ok dev" "me_type dev = ?t" "me_qlen dev = 0" "me_buf dev ! 0 = cmd" using af t by (auto simp: after_msg_def)
  have len: "length (me_buf dev) \<ge> 3" using a(1) by (auto simp: parser_ok_def)
  have q: "se_qlen (status_event ! ?t) = int (length data)" using v by (simp add: valid_msg_def)
  have c: "c < 0x80" "\<not> c \<ge> 0xf8" using v data data_byte by (auto simp: valid_msg_def)
  let ?d = "dev\<lparr>me_buf := (me_buf dev)[1 := c], me_qlen := int (length cs), me_read := 2\<rparr>"
  have n: "\<not> (c AND 0x80 \<noteq> 0 \<and> (c \<noteq> 0xf7 \<or> me_type dev \<noteq> ST_SYSEX))" using data_byte [OF c(1)] by simp
  have st: "encode_store c dev = Some ?d" using a len q data unfolding encode_store_def if_not_P [OF n] by (simp add: put_buf_def)
  have sok: "stored_ok ?d" using encode_store_ok [OF a(1), of c] st by auto
  have buf: "take 2 (me_buf ?d) = [cmd, c]" using len a(4) by (cases "me_buf dev"; cases "tl (me_buf dev)") (auto simp: numeral_2_eq_2)
  show ?thesis
  proof (cases "cs = []")
    case True
    have "encode_done c ?d zero_event = (?d, status_done ?t (me_buf ?d), True)"
      using True t a(2) by (simp add: encode_done_def status_done_def Let_def split: option.split)
    moreover have "status_done ?t (me_buf ?d) = msg_event cmd data" using status_done_msg [OF v, of "me_buf ?d"] buf True data by (simp add: numeral_2_eq_2)
    ultimately have dn: "encode_done c ?d zero_event = (?d, msg_event cmd data, True)" by simp
    have "ext_data ?d (msg_event cmd data) = []" using status_done_fixed [OF status_type_less] by (simp add: ext_data_def msg_event_def)
    moreover have "parser_ok ?d" using encode_done_ok(1) [OF sok, of c zero_event] dn by simp
    ultimately show ?thesis using encode_stream_byte [OF st c(2) dn] True data a by (intro exI [of _ ?d]) (simp add: after_msg_def)
  next
    case False
    have dn: "encode_done c ?d zero_event = (?d, zero_event, False)" using False t a(2) by (simp add: encode_done_def)
    have pok: "parser_ok ?d" using encode_done_ok(1) [OF sok, of c zero_event] dn by simp
    from encode_rest [OF pok, of cs] t a(2) False v data obtain d where
      d: "encode_stream cs ?d = Some (d, [(status_done ?t (me_buf d), [])])" "parser_ok d"
      "me_type d = ?t" "me_qlen d = 0" "take (2 + length cs) (me_buf d) = take 2 (me_buf ?d) @ cs"
      by (auto simp: valid_msg_def)
    have tk: "take (Suc (length data)) (me_buf d) = cmd # data" using d(5) buf data by simp
    then have "me_buf d ! 0 = cmd" by (cases "me_buf d") auto
    then show ?thesis using encode_stream_byte [OF st c(2) dn] d status_done_msg [OF v tk] data by (intro exI [of _ d]) (auto simp: after_msg_def)
  qed
qed

end
