(* ===== verification/Seq_Midi_Codec.thy ===== *)
theory Seq_Midi_Codec
  imports Seq_Midi_Roundtrip
begin

text \<open>The decoder gives the bytes of a message back; what the coder does to whole streams.\<close>

section \<open>Data bytes\<close>

lemma seven_bits: "(a :: u8) < 0x80 \<Longrightarrow> a AND 0x7f = a"
proof -
  assume a: "a < 0x80"
  have "(0x7f :: u8) = mask 7" by (simp add: mask_eq_exp_minus_1)
  then have "a AND 0x7f = take_bit 7 a" by (simp add: take_bit_eq_mask)
  moreover have "unat (take_bit 7 a) = unat a mod 128" by (simp add: unsigned_take_bit_eq take_bit_eq_mod unat_mod)
  ultimately show ?thesis using a by (simp add: word_nat)
qed

lemma word_seven_bits: "unat ((v :: u32) AND 0x7f) = unat v mod 128"
proof -
  have "(0x7f :: u32) = mask 7" by (simp add: mask_eq_exp_minus_1)
  then have "v AND 0x7f = take_bit 7 v" by (simp add: take_bit_eq_mask)
  then show ?thesis by (simp add: unsigned_take_bit_eq take_bit_eq_mod unat_mod)
qed

lemma value_byte: "(a :: u8) < 0x80 \<Longrightarrow> ucast (ucast a AND 0x7f :: u32) = a"
  using word_seven_bits [of "ucast a"] by (simp add: word_nat unsigned_ucast_eq take_bit_eq_mod)

lemma two_value_bytes:
  assumes "(a :: u8) < 0x80" "(b :: u8) < 0x80"
  defines "v \<equiv> ucast b * 128 + ucast a :: u32"
  shows "ucast (v AND 0x7f) = a" "ucast (drop_bit 7 v AND 0x7f) = b"
proof -
  have n: "unat a < 128" "unat b < 128" using assms(1,2) by (simp_all add: word_nat)
  have v: "unat v = 128 * unat b + unat a" using n by (simp add: v_def unat_word_ariths unsigned_ucast_eq take_bit_eq_mod)
  show "ucast (v AND 0x7f) = a" using n by (simp add: unat_inj_iff unsigned_ucast_eq take_bit_eq_mod word_seven_bits v)
  have "unat (drop_bit 7 v) = unat b" using n by (simp add: unat_drop_bit_eq drop_bit_eq_div unat_div v)
  then show "ucast (drop_bit 7 v AND 0x7f) = b" using n by (simp add: unat_inj_iff unsigned_ucast_eq take_bit_eq_mod word_seven_bits)
qed

section \<open>Decoding a message\<close>

lemma data_set [simp]: "length (ev_data (set_byte i b e)) = length (ev_data e)" "length (ev_data (set_length l e)) = length (ev_data e)"
  "ev_type (set_byte i b e) = ev_type e" "ev_type (set_word i v e) = ev_type e" "ev_type (set_length l e) = ev_type e"
  by (simp_all add: set_byte_def set_length_def set_word_def)

lemma get_set_word: "i + 3 < length (ev_data e) \<Longrightarrow> get32 (ev_data (set_word i v e)) i = v"
  "i + 3 < j \<or> j + 3 < i \<Longrightarrow> get32 (ev_data (set_word i v e)) j = get32 (ev_data e) j"
  by (auto simp: set_word_def get32_put32 get32_put32_other)

lemma nth_set_word: "j < i \<Longrightarrow> ev_data (set_word i v e) ! j = ev_data e ! j"
  by (simp add: set_word_def put32_def)

lemma nth_set_byte: "i < length (ev_data e) \<Longrightarrow> ev_data (set_byte i b e) ! j = (if i = j then b else ev_data e ! j)"
  by (simp add: set_byte_def nth_list_update)

lemma zero_event_data [simp]: "length (ev_data zero_event) = 12" "length (ev_data (zero_event\<lparr>ev_type := x\<rparr>)) = 12"
  by (simp_all add: zero_event_def)

lemmas codec_simps = status_done_def status_event_def plain_status_def no_event_def note_event_def two_param_ctrl_event_def
  one_param_ctrl_event_def pitchbend_ctrl_event_def one_param_event_def songpos_event_def get_set_word nth_set_word nth_set_byte

lemma status_done_type: "t < 24 \<Longrightarrow> ev_type (status_done t buf) = se_event (status_event ! t)"
  unfolding less_24 by (auto simp: codec_simps)

lemma status_done_channel: "t < ST_INVALID \<Longrightarrow> note_channel (status_done t buf) = buf ! 0 AND 0x0f"
proof -
  assume "t < ST_INVALID"
  then have "t \<in> {0, 1, 2, 3, 4, 5, 6}" by auto
  then show ?thesis by (auto simp: codec_simps)
qed

lemma find_status_all:
  "list_all (\<lambda>t. se_event (status_event ! t) \<noteq> EV_NONE \<longrightarrow> find_status (se_event (status_event ! t)) 0 status_event = Some t) [0..<24]"
  by code_simp

lemma find_status_event: "t < 24 \<Longrightarrow> se_event (status_event ! t) \<noteq> EV_NONE \<Longrightarrow> find_status (se_event (status_event ! t)) 0 status_event = Some t"
  using find_status_all by (simp only: list_all_iff set_upt) auto

lemma event_of_qlen: "t < 24 \<Longrightarrow> se_qlen (status_event ! t) \<ge> 0 \<Longrightarrow> se_event (status_event ! t) \<noteq> EV_NONE"
  unfolding less_24 by (auto simp: status_event_def plain_status_def no_event_def)

lemma decode_data:
  assumes v: "valid_msg cmd data"
  shows "(case se_decode (status_event ! status_type cmd) of None \<Rightarrow> [] | Some f \<Rightarrow> f (msg_event cmd data)) = data"
proof -
  let ?t = "status_type cmd"
  have t: "?t \<in> {0, 1, 2, 3, 4, 5, 6, 7, 8, 9, 10, 11, 12, 13, 14, 15, 16, 17, 18, 19, 20, 21, 22, 23}" using status_type_less less_24 by blast
  have q: "se_qlen (status_event ! ?t) = int (length data)" and d: "\<forall>c\<in>set data. c < 0x80" and s: "?t \<noteq> ST_SYSEX"
    using v status_type_facts [of cmd] by (auto simp: valid_msg_def)
  have two: "?t \<in> {0, 1, 2, 3, 6, 10} \<Longrightarrow> \<exists>a b. data = [a, b]" and one: "?t \<in> {4, 5, 9, 11} \<Longrightarrow> \<exists>a. data = [a]"
    and zero: "?t \<in> {7, 12, 13, 14, 15, 16, 17, 18, 19, 20, 21, 22, 23} \<Longrightarrow> data = []"
    using q by (auto simp: codec_simps length_Suc_conv numeral_2_eq_2)
  consider a b where "?t \<in> {0, 1, 2, 3, 6, 10}" "data = [a, b]" "a < 0x80" "b < 0x80" | a where "?t \<in> {4, 5, 9, 11}" "data = [a]" "a < 0x80"
    | "?t \<in> {7, 12, 13, 14, 15, 16, 17, 18, 19, 20, 21, 22, 23}" "data = []"
    using t s two one zero d by (elim insertE) auto
  then show ?thesis
  proof cases
    case 1
    then show ?thesis using two_value_bytes [OF 1(3,4)]
      by (elim insertE) (simp_all add: msg_event_def codec_simps note_decode_def two_param_decode_def pitchbend_decode_def songpos_decode_def
        Let_def seven_bits value_byte)
  next
    case 2
    then show ?thesis by (elim insertE) (simp_all add: msg_event_def codec_simps one_param_decode_def value_byte)
  next
    case 3
    then show ?thesis by (elim insertE) (simp_all add: codec_simps)
  qed
qed

lemma decode_cmd_msg:
  assumes "valid_msg cmd data"
  shows "decode_cmd (status_type cmd) (msg_event cmd data) = cmd"
  using assms status_type_facts [of cmd] status_done_channel [of "status_type cmd" "cmd # data"]
  by (auto simp: decode_cmd_def msg_event_def valid_msg_def split: if_splits)

lemma decode_msg:
  fixes dev :: snd_midi_event
  assumes v: "valid_msg cmd data" and n: "cnt \<ge> 3"
  defines "status \<equiv> status_type cmd \<ge> ST_SPECIAL \<or> me_lastcmd dev \<noteq> cmd \<or> me_nostat dev"
  shows "snd_midi_event_decode env h cnt (msg_event cmd data) dev =
    (if status then dev\<lparr>me_lastcmd := cmd\<rparr> else dev, Inr ((if status then [cmd] else []) @ data))"
proof -
  let ?t = "status_type cmd" and ?ev = "msg_event cmd data"
  have q: "se_qlen (status_event ! ?t) = int (length data)" and c: "cmd \<ge> 0x80" "cmd \<noteq> 0xf0" using v by (simp_all add: valid_msg_def)
  have ty: "ev_type ?ev = se_event (status_event ! ?t)" "ev_type ?ev \<noteq> EV_NONE"
    using status_done_type [OF status_type_less] event_of_qlen [OF status_type_less, of cmd] q by (simp_all add: msg_event_def)
  then have fs: "find_status (ev_type ?ev) 0 status_event = Some ?t" using find_status_event [OF status_type_less] by simp
  have "length data \<le> 2" using se_qlen_bounds [OF status_type_less, of cmd] q by auto
  then show ?thesis
    using ty fs q n c(2) decode_cmd_msg [OF v] decode_data [OF v] status_type_facts [of cmd, rule_format, OF c(1)]
    by (simp add: snd_midi_event_decode_def decode_status_def Let_def status_def nat_add_distrib)
qed

section \<open>Streams\<close>

lemma channel_qlen: "t < ST_INVALID \<Longrightarrow> se_qlen (status_event ! t) \<ge> 1"
proof -
  assume "t < ST_INVALID"
  then have "t \<in> {0, 1, 2, 3, 4, 5, 6}" by auto
  then show ?thesis by (auto simp: status_event_def)
qed

text \<open>The decoder and a parser at the other end agree on the running status.\<close>

definition linked :: "snd_midi_event \<Rightarrow> snd_midi_event \<Rightarrow> bool" where
  "linked dec p \<longleftrightarrow> parser_ok p \<and> (status_type (me_lastcmd dec) < ST_INVALID \<longrightarrow> after_msg (me_lastcmd dec) p)"

fun decode_stream :: "data_env \<Rightarrow> cells \<Rightarrow> int \<Rightarrow> snd_seq_event list \<Rightarrow> snd_midi_event \<Rightarrow> (snd_midi_event \<times> u8 list) option" where
  "decode_stream env h cnt [] dev = Some (dev, [])"
| "decode_stream env h cnt (e # es) dev =
     (case snd_midi_event_decode env h cnt e dev of
        (d, Inl _) \<Rightarrow> None
      | (d, Inr bs) \<Rightarrow> map_option (\<lambda>(d', bs'). (d', bs @ bs')) (decode_stream env h cnt es d))"

lemma message_passes:
  assumes l: "linked dec p" and v: "valid_msg cmd data" and n: "cnt \<ge> 3"
  shows "\<exists>dec' bs p'. snd_midi_event_decode env h cnt (msg_event cmd data) dec = (dec', Inr bs) \<and>
    encode_stream bs p = Some (p', [(msg_event cmd data, [])]) \<and> linked dec' p' \<and> me_nostat dec' = me_nostat dec \<and>
    (me_nostat dec \<longrightarrow> bs = cmd # data)"
proof (cases "status_type cmd \<ge> ST_SPECIAL \<or> me_lastcmd dec \<noteq> cmd \<or> me_nostat dec")
  case True
  have ok: "parser_ok p" using l by (simp add: linked_def)
  from encode_msg [OF ok v] obtain p' where "encode_stream (cmd # data) p = Some (p', [(msg_event cmd data, [])])" "after_msg cmd p'" by blast
  then show ?thesis using True decode_msg [OF v n, of env h dec] by (auto simp: linked_def after_msg_def)
next
  case False
  have t: "status_type cmd < ST_INVALID" using False v status_type_facts [of cmd] by (auto simp: valid_msg_def)
  then have ne: "data \<noteq> []" using channel_qlen [OF t] v by (auto simp: valid_msg_def)
  have "after_msg cmd p" using l t False by (simp add: linked_def)
  from encode_running [OF this v t ne] obtain p' where "encode_stream data p = Some (p', [(msg_event cmd data, [])])" "after_msg cmd p'" by blast
  then show ?thesis using False decode_msg [OF v n, of env h dec] by (auto simp: linked_def after_msg_def)
qed

lemma streams_pass:
  assumes "\<forall>(cmd, data)\<in>set msgs. valid_msg cmd data" "linked dec p" "cnt \<ge> 3"
  shows "\<exists>dec' bs p'. decode_stream env h cnt (map (\<lambda>(c, ds). msg_event c ds) msgs) dec = Some (dec', bs) \<and>
    encode_stream bs p = Some (p', map (\<lambda>(c, ds). (msg_event c ds, [])) msgs) \<and>
    (me_nostat dec \<longrightarrow> bs = concat (map (\<lambda>(c, ds). c # ds) msgs))"
  using assms(1,2)
proof (induction msgs arbitrary: dec p)
  case (Cons m msgs)
  obtain cmd data where m: "m = (cmd, data)" by force
  have v: "valid_msg cmd data" using Cons.prems(1) m by auto
  from message_passes [OF Cons.prems(2) v assms(3), of env h] obtain dec1 bs1 p1 where
    1: "snd_midi_event_decode env h cnt (msg_event cmd data) dec = (dec1, Inr bs1)"
    "encode_stream bs1 p = Some (p1, [(msg_event cmd data, [])])" "linked dec1 p1" "me_nostat dec1 = me_nostat dec"
    "me_nostat dec \<longrightarrow> bs1 = cmd # data" by blast
  from Cons.IH [OF _ 1(3)] Cons.prems(1) obtain dec' bs p' where
    2: "decode_stream env h cnt (map (\<lambda>(c, ds). msg_event c ds) msgs) dec1 = Some (dec', bs)"
    "encode_stream bs p1 = Some (p', map (\<lambda>(c, ds). (msg_event c ds, [])) msgs)"
    "me_nostat dec1 \<longrightarrow> bs = concat (map (\<lambda>(c, ds). c # ds) msgs)" by auto
  show ?case using 1 2 m by (auto simp: encode_stream_append)
qed simp

lemma plain_stream:
  assumes "\<forall>(cmd, data)\<in>set msgs. valid_msg cmd data" "parser_ok p"
  shows "\<exists>p'. encode_stream (concat (map (\<lambda>(c, ds). c # ds) msgs)) p = Some (p', map (\<lambda>(c, ds). (msg_event c ds, [])) msgs)"
  using assms
proof (induction msgs arbitrary: p)
  case (Cons m msgs)
  obtain cmd data where m: "m = (cmd, data)" by force
  from encode_msg [OF Cons.prems(2), of cmd data] Cons.prems(1) m obtain p1 where
    1: "encode_stream (cmd # data) p = Some (p1, [(msg_event cmd data, [])])" "parser_ok p1" by (auto simp: after_msg_def)
  from Cons.IH [OF _ 1(2)] Cons.prems(1) show ?case using 1(1) m encode_stream_append [of "cmd # data" "concat (map (\<lambda>(c, ds). c # ds) msgs)" p] by auto
qed simp

section \<open>Properties\<close>

lemma snd_midi_event_new_ok:
  "snd_midi_event_new n a buf = Inr dev \<Longrightarrow> n \<ge> 3 \<Longrightarrow> int (length buf) = n \<Longrightarrow> parser_ok dev \<and> me_bufsize dev = n \<and> me_lastcmd dev = 0xff \<and> \<not> me_nostat dev"
  by (auto simp: snd_midi_event_new_def parser_ok_def split: if_splits)

lemma encode_byte_ext:
  assumes "parser_ok dev" "me_bufsize dev < 2 ^ 31" "snd_midi_event_encode_byte c dev zero_event = Some (d, e, True)" "is_variable e"
  shows "int (unat (ext_len e)) \<le> me_bufsize dev"
proof (cases "c \<ge> 0xf8")
  case True
  then have "\<not> is_variable e" using assms(3) by (auto simp: snd_midi_event_encode_byte_def Let_def is_variable_def set_length_def zero_event_def)
  then show ?thesis using assms(4) by simp
next
  case False
  from encode_store_ok [OF assms(1), of c] obtain d0 where s: "encode_store c dev = Some d0" "stored_ok d0" "me_bufsize d0 = me_bufsize dev" by blast
  then have dn: "encode_done c d0 zero_event = (d, e, True)" using assms(3) False by (simp add: snd_midi_event_encode_byte_def)
  have "me_qlen d0 \<noteq> 0"
  proof
    assume q: "me_qlen d0 = 0"
    then have "e = status_done (me_type d0) (me_buf d0)" using dn by (auto simp: encode_done_def status_done_def Let_def split: option.splits)
    then show False using assms(4) status_done_fixed [of "me_type d0"] s(2) by (simp add: stored_ok_def)
  qed
  then have t: "me_type d0 = ST_SYSEX" and e: "e = set_ext_ptr (me_addr d0) (set_word 0 (of_nat (me_read d0)) ((set_length EVENT_LENGTH_VARIABLE zero_event)\<lparr>ev_type := EV_SYSEX\<rparr>))"
    using dn by (auto simp: encode_done_def encode_sysex_def split: if_splits)
  have r: "int (me_read d0) \<le> me_bufsize dev" using s t by (auto simp: stored_ok_def)
  then have "me_read d0 < 2 ^ 32" using assms(2) by simp
  then show ?thesis using sysex_event_facts(3) [OF zero_event_data(1) _ e] r by simp
qed

lemma encode_stream_ext:
  assumes "parser_ok dev" "me_bufsize dev < 2 ^ 31"
  shows "\<exists>d es. encode_stream cs dev = Some (d, es) \<and> parser_ok d \<and>
    (\<forall>(e, bs)\<in>set es. is_variable e \<longrightarrow> unat (ext_len e) = length bs \<and> int (length bs) \<le> me_bufsize dev)"
  using assms
proof (induction cs arbitrary: dev)
  case (Cons c cs)
  from encode_byte_ok [OF Cons.prems(1), of c zero_event] obtain d e b where
    b: "snd_midi_event_encode_byte c dev zero_event = Some (d, e, b)" "parser_ok d" "me_bufsize d = me_bufsize dev" by blast
  have x: "is_variable e \<longrightarrow> unat (ext_len e) = length (ext_data d e) \<and> int (length (ext_data d e)) \<le> me_bufsize dev" if b
    using encode_byte_ext [OF Cons.prems, of c d e] b that by (auto simp: ext_data_def parser_ok_def)
  from Cons.IH [OF b(2)] Cons.prems(2) b(3) obtain d' es where i: "encode_stream cs d = Some (d', es)" "parser_ok d'"
    "\<forall>(e, bs)\<in>set es. is_variable e \<longrightarrow> unat (ext_len e) = length bs \<and> int (length bs) \<le> me_bufsize dev" by auto
  show ?case using b(1) i x by (cases b) simp_all
qed simp

text \<open>
  C18: the MIDI parser does not get stuck and does not leave its buffer. With a buffer of at least three
  bytes, which every caller asks for, any sequence of bytes is parsed without a write outside the buffer,
  and an event with external data refers to no more bytes than the buffer has.
\<close>
theorem midi_parser_stays_in_buffer:
  assumes "snd_midi_event_new n a buf = Inr dev" "3 \<le> n" "n < 2 ^ 31" "int (length buf) = n"
  shows "\<exists>d es. encode_stream cs dev = Some (d, es) \<and> parser_ok d \<and>
    (\<forall>(e, bs)\<in>set es. is_variable e \<longrightarrow> unat (ext_len e) = length bs \<and> int (length bs) \<le> n)"
  using encode_stream_ext [of dev cs] snd_midi_event_new_ok [OF assms(1,2,4)] assms(3) by auto

abbreviation small_parser :: snd_midi_event where
  "small_parser \<equiv> \<lparr>me_qlen = 0, me_read = 0, me_type = ST_INVALID, me_lastcmd = 0xff, me_nostat = False, me_bufsize = 4, me_buf = [0, 0, 0, 0], me_addr = 16\<rparr>"

theorem midi_parser_stays_in_buffer_witness:
  "\<exists>d es. encode_stream [0xf0, 1, 2, 3, 4, 0x90, 5, 0xf7, 6] small_parser = Some (d, es) \<and> parser_ok d \<and>
    (\<forall>(e, bs)\<in>set es. is_variable e \<longrightarrow> unat (ext_len e) = length bs \<and> int (length bs) \<le> 4)"
  by (rule midi_parser_stays_in_buffer [where a = 16 and buf = "[0, 0, 0, 0]"]) (simp_all add: snd_midi_event_new_def)

text \<open>
  C17: messages survive. Take any sequence of channel and system messages: the parser makes one event of each;
  the decoder, fresh from its creation, turns these events into bytes, with running status unless it is
  switched off; and a parser at the other end makes the same events of these bytes.
\<close>
theorem midi_messages_roundtrip:
  assumes "\<forall>(cmd, data)\<in>set msgs. valid_msg cmd data" "snd_midi_event_new n a buf = Inr dev" "3 \<le> n" "int (length buf) = n" "3 \<le> cnt"
  shows "\<exists>es bytes d d' d''. length es = length msgs \<and>
    encode_stream (concat (map (\<lambda>(c, ds). c # ds) msgs)) dev = Some (d, map (\<lambda>e. (e, [])) es) \<and>
    decode_stream env h cnt es (snd_midi_event_no_status on dev) = Some (d', bytes) \<and>
    encode_stream bytes dev = Some (d'', map (\<lambda>e. (e, [])) es) \<and> (on \<longrightarrow> bytes = concat (map (\<lambda>(c, ds). c # ds) msgs))"
proof -
  let ?es = "map (\<lambda>(c, ds). msg_event c ds) msgs" and ?dec = "snd_midi_event_no_status on dev"
  have ok: "parser_ok dev" "me_lastcmd dev = 0xff" using snd_midi_event_new_ok [OF assms(2-4)] by auto
  have "status_type 0xff = 23" by (simp add: status_type_def)
  then have "linked ?dec dev" using ok by (simp add: linked_def snd_midi_event_no_status_def)
  from streams_pass [OF assms(1) this assms(5), of env h] obtain dec' bs p' where
    s: "decode_stream env h cnt ?es ?dec = Some (dec', bs)" "encode_stream bs dev = Some (p', map (\<lambda>(c, ds). (msg_event c ds, [])) msgs)"
    "me_nostat ?dec \<longrightarrow> bs = concat (map (\<lambda>(c, ds). c # ds) msgs)" by blast
  from plain_stream [OF assms(1) ok(1)] obtain p where
    p: "encode_stream (concat (map (\<lambda>(c, ds). c # ds) msgs)) dev = Some (p, map (\<lambda>(c, ds). (msg_event c ds, [])) msgs)" by blast
  have "map (\<lambda>(c, ds). (msg_event c ds, [])) msgs = map (\<lambda>e. (e, [])) ?es" by (simp add: case_prod_beta)
  then show ?thesis using s p by (intro exI [of _ ?es]) (auto simp: snd_midi_event_no_status_def)
qed

theorem midi_messages_roundtrip_witness:
  "\<exists>es bytes d d' d''. length es = length [(0x90 :: u8, [60 :: u8, 100]), (0x90, [60, 0]), (0xe3, [5, 64])] \<and>
    encode_stream (concat (map (\<lambda>(c, ds). c # ds) [(0x90, [60, 100]), (0x90, [60, 0]), (0xe3, [5, 64])])) small_parser = Some (d, map (\<lambda>e. (e, [])) es) \<and>
    decode_stream (sysex_env []) (\<lambda>_. undefined) 3 es (snd_midi_event_no_status False small_parser) = Some (d', bytes) \<and>
    encode_stream bytes small_parser = Some (d'', map (\<lambda>e. (e, [])) es) \<and>
    (False \<longrightarrow> bytes = concat (map (\<lambda>(c, ds). c # ds) [(0x90, [60, 100]), (0x90, [60, 0]), (0xe3, [5, 64])]))"
  by (rule midi_messages_roundtrip [where n = 4 and a = 16 and buf = "[0, 0, 0, 0]"])
    (simp_all add: snd_midi_event_new_def valid_msg_def status_type_def status_event_def)

text \<open>
  a system exclusive message of any length comes out whole. The parser gives it in pieces, each an event
  with at most a buffer full of external data, and the data of the pieces together are the bytes of the
  message from its start to its end.
\<close>
theorem midi_sysex_whole:
  assumes "snd_midi_event_new n a buf = Inr dev" "3 \<le> n" "n < 2 ^ 31" "int (length buf) = n" "\<forall>c\<in>set data. c < 0x80"
  shows "\<exists>d es. encode_stream (0xf0 # data @ [0xf7]) dev = Some (d, es) \<and> concat (map snd es) = 0xf0 # data @ [0xf7] \<and>
    (\<forall>(e, bs)\<in>set es. ev_type e = EV_SYSEX \<and> is_variable e \<and> unat (ext_len e) = length bs \<and> int (length bs) \<le> n)"
proof -
  have ok: "parser_ok dev" "me_bufsize dev = n" using snd_midi_event_new_ok [OF assms(1,2,4)] by auto
  let ?d = "dev\<lparr>me_buf := (me_buf dev)[0 := 0xf0], me_type := ST_SYSEX, me_read := 1, me_qlen := 1\<rparr>"
  have b: "me_buf dev \<noteq> []" using ok by (auto simp: parser_ok_def)
  have "encode_store 0xf0 dev = Some ?d" using b by (simp add: encode_store_def put_buf_def status_type_def)
  moreover have "encode_done 0xf0 ?d zero_event = (?d, zero_event, False)" using ok assms(2) by (simp add: encode_done_def)
  ultimately have f0: "snd_midi_event_encode_byte 0xf0 dev zero_event = Some (?d, zero_event, False)"
    by (intro encode_stream_byte) simp_all
  have pok: "parser_ok ?d" using ok assms(2) by (auto simp: parser_ok_def)
  have "me_bufsize ?d < 2 ^ 32" using ok(2) assms(3) by simp
  from sysex_stream [OF pok _ assms(5) this] obtain d es where
    e: "encode_stream (data @ [0xf7]) ?d = Some (d, es)" "concat (map snd es) = take 1 (me_buf ?d) @ data @ [0xf7]" "list_all (sysex_piece ?d) es" by auto
  have "take 1 (me_buf ?d) = [0xf0]" using b by (cases "me_buf dev") auto
  then show ?thesis using f0 e ok(2) by (auto simp: list_all_iff sysex_piece_def)
qed

theorem midi_sysex_whole_witness:
  "\<exists>d es. encode_stream (0xf0 # [1, 2, 3, 4, 5] @ [0xf7]) small_parser = Some (d, es) \<and> concat (map snd es) = 0xf0 # [1, 2, 3, 4, 5] @ [0xf7] \<and>
    (\<forall>(e, bs)\<in>set es. ev_type e = EV_SYSEX \<and> is_variable e \<and> unat (ext_len e) = length bs \<and> int (length bs) \<le> 4)"
  by (rule midi_sysex_whole [where a = 16 and buf = "[0, 0, 0, 0]"]) (simp_all add: snd_midi_event_new_def)

text \<open>
  a decoder that finds too little room has already noted the command as the last one sent. When the
  caller tries again with enough room, the status byte is left out, although it was never sent.
\<close>
theorem snd_midi_event_decode_loses_status:
  assumes "valid_msg cmd data" "status_type cmd < ST_INVALID" "me_lastcmd dev \<noteq> cmd" "\<not> me_nostat dev" "cnt < 1 + int (length data)" "3 \<le> cnt'"
  shows "\<exists>d. snd_midi_event_decode env h cnt (msg_event cmd data) dev = (d, Inl ENOMEM) \<and>
    snd_midi_event_decode env h cnt' (msg_event cmd data) d = (d, Inr data)"
proof -
  let ?t = "status_type cmd" and ?ev = "msg_event cmd data"
  have q: "se_qlen (status_event ! ?t) = int (length data)" and c: "cmd \<ge> 0x80" "cmd \<noteq> 0xf0" using assms(1) by (simp_all add: valid_msg_def)
  have ty: "ev_type ?ev = se_event (status_event ! ?t)" "ev_type ?ev \<noteq> EV_NONE"
    using status_done_type [OF status_type_less] event_of_qlen [OF status_type_less, of cmd] q by (simp_all add: msg_event_def)
  then have fs: "find_status (ev_type ?ev) 0 status_event = Some ?t" using find_status_event [OF status_type_less] by simp
  let ?d = "dev\<lparr>me_lastcmd := cmd\<rparr>"
  have "snd_midi_event_decode env h cnt ?ev dev = (?d, Inl ENOMEM)"
    using ty fs q c(2) assms(3,5) decode_cmd_msg [OF assms(1)] by (simp add: snd_midi_event_decode_def decode_status_def Let_def)
  moreover have "snd_midi_event_decode env h cnt' ?ev ?d = (?d, Inr data)"
    using decode_msg [OF assms(1,6), of env h ?d] assms(2,4) by simp
  ultimately show ?thesis by blast
qed

theorem snd_midi_event_decode_loses_status_witness:
  "\<exists>d. snd_midi_event_decode (sysex_env []) (\<lambda>_. undefined) 2 (msg_event 0x90 [60, 100]) small_parser = (d, Inl ENOMEM) \<and>
    snd_midi_event_decode (sysex_env []) (\<lambda>_. undefined) 3 (msg_event 0x90 [60, 100]) d = (d, Inr [60, 100])"
  by (rule snd_midi_event_decode_loses_status) (simp_all add: valid_msg_def status_type_def status_event_def)

end
