(* ===== verification/Seq_Timer.thy ===== *)
theory Seq_Timer
  imports Seq_Event
begin

text \<open>
  The clock of a queue (\<open>sound/core/seq/seq_timer.c\<close>, \<open>seq_timer.h\<close>): real time and ticks, advanced by the
  interrupts of a timer device. The device is what it tells about itself; the calls made to it are a list.
\<close>

section \<open>State\<close>

record snd_seq_timer_tick =
  tk_cur_tick :: u32
  tk_resolution :: u64
  tk_fraction :: u64

record snd_timer =
  td_slave :: bool
  td_resolution :: u64
  td_c_resolution :: "u64 option"

datatype timer_call = Timer_Start u32 | Timer_Pause | Timer_Stop_Close

record snd_seq_timer =
  st_running :: bool
  st_initialized :: bool
  st_tempo :: u32
  st_ppq :: u32
  st_cur_time :: timestamp
  st_tick :: snd_seq_timer_tick
  st_timeri :: "snd_timer option"
  st_ticks :: u32
  st_preferred_resolution :: u64
  st_skew :: u32
  st_skew_base :: u32
  st_last_update :: "int \<times> int"

abbreviation SKEW_BASE :: u32 where "SKEW_BASE \<equiv> 0x10000"
abbreviation NSEC_PER_SEC :: nat where "NSEC_PER_SEC \<equiv> 1000000000"

section \<open>Advancing time\<close>

definition snd_seq_timer_update_tick :: "u64 \<Rightarrow> snd_seq_timer_tick \<Rightarrow> snd_seq_timer_tick" where
  "snd_seq_timer_update_tick resolution tk =
     (if tk_resolution tk > 0 then
        let fraction = tk_fraction tk + resolution
        in tk\<lparr>tk_cur_tick := tk_cur_tick tk + ucast (fraction div tk_resolution tk), tk_fraction := fraction mod tk_resolution tk\<rparr>
      else tk)"

function snd_seq_sanity_real_time :: "timestamp \<Rightarrow> timestamp" where
  "snd_seq_sanity_real_time (s, n) = (if n \<ge> 1000000000 then snd_seq_sanity_real_time (s + 1, n - 1000000000) else (s, n))"
  by pat_completeness auto
termination
proof (relation "measure (\<lambda>(s, n). unat n)")
  fix n :: u32 assume "1000000000 \<le> n"
  then have "unat (n - 1000000000) = unat n - 1000000000" "1000000000 \<le> unat n" by (simp_all add: unat_sub word_le_nat_alt)
  then show "((s + 1, n - 1000000000), s, n) \<in> measure (\<lambda>(s, n). unat n)" for s :: u32 by simp
qed simp

declare snd_seq_sanity_real_time.simps [simp del]

definition snd_seq_inc_real_time :: "timestamp \<Rightarrow> timestamp \<Rightarrow> timestamp" where
  "snd_seq_inc_real_time t d = snd_seq_sanity_real_time (tv_sec t + tv_sec d, tv_nsec t + tv_nsec d)"

definition snd_seq_inc_time_nsec :: "u64 \<Rightarrow> timestamp \<Rightarrow> timestamp" where
  "snd_seq_inc_time_nsec nsec t = snd_seq_sanity_real_time (tv_sec t, ucast (ucast (tv_nsec t) + nsec))"

section \<open>Tempo\<close>

text \<open>Computed with unsigned numbers of 32 bits.\<close>

definition tick_resolution :: "u32 \<Rightarrow> u32 \<Rightarrow> u64" where
  "tick_resolution tempo ppq =
     (let r = (if tempo < 1000000 then ucast (tempo * 1000 div ppq)
               else ucast (tempo div ppq * 1000) + ucast (tempo mod ppq * 1000 div ppq))
      in if r \<le> 0 then 1 else r)"

definition snd_seq_timer_set_tick_resolution :: "snd_seq_timer \<Rightarrow> snd_seq_timer" where
  "snd_seq_timer_set_tick_resolution tmr =
     tmr\<lparr>st_tick := snd_seq_timer_update_tick 0 ((st_tick tmr)\<lparr>tk_resolution := tick_resolution (st_tempo tmr) (st_ppq tmr)\<rparr>)\<rparr>"

definition snd_seq_timer_defaults :: "u64 \<Rightarrow> snd_seq_timer \<Rightarrow> snd_seq_timer" where
  "snd_seq_timer_defaults default_resolution tmr =
     (snd_seq_timer_set_tick_resolution (tmr\<lparr>st_ppq := 96, st_tempo := 500000\<rparr>))
       \<lparr>st_running := False, st_preferred_resolution := default_resolution, st_skew := SKEW_BASE, st_skew_base := SKEW_BASE\<rparr>"

definition snd_seq_timer_reset :: "snd_seq_timer \<Rightarrow> snd_seq_timer" where
  "snd_seq_timer_reset tmr = tmr\<lparr>st_cur_time := (0, 0), st_tick := (st_tick tmr)\<lparr>tk_cur_tick := 0, tk_fraction := 0\<rparr>\<rparr>"

definition snd_seq_timer_new :: "u64 \<Rightarrow> snd_seq_timer" where
  "snd_seq_timer_new default_resolution =
     snd_seq_timer_reset (snd_seq_timer_defaults default_resolution
       \<lparr>st_running = False, st_initialized = False, st_tempo = 0, st_ppq = 0, st_cur_time = (0, 0),
         st_tick = \<lparr>tk_cur_tick = 0, tk_resolution = 0, tk_fraction = 0\<rparr>, st_timeri = None, st_ticks = 0,
         st_preferred_resolution = 0, st_skew = 0, st_skew_base = 0, st_last_update = (0, 0)\<rparr>)"

text \<open>What an interrupt does before the events that are due are dispatched; \<open>now\<close> is the time of day.\<close>

definition skewed :: "snd_seq_timer \<Rightarrow> u64 \<Rightarrow> u64" where
  "skewed tmr r =
     (if st_skew tmr \<noteq> st_skew_base tmr then
        drop_bit 16 r * ucast (st_skew tmr) + drop_bit 16 ((r AND 0xffff) * ucast (st_skew tmr))
      else r)"

definition snd_seq_timer_interrupt :: "int \<times> int \<Rightarrow> u64 \<Rightarrow> u64 \<Rightarrow> snd_seq_timer \<Rightarrow> snd_seq_timer" where
  "snd_seq_timer_interrupt now resolution ticks tmr =
     (if \<not> st_running tmr then tmr
      else let r = skewed tmr (resolution * ticks)
        in tmr\<lparr>st_cur_time := snd_seq_inc_time_nsec r (st_cur_time tmr), st_tick := snd_seq_timer_update_tick r (st_tick tmr),
             st_last_update := now\<rparr>)"

definition snd_seq_timer_set_tempo :: "int \<Rightarrow> snd_seq_timer \<Rightarrow> snd_seq_timer \<times> unit res" where
  "snd_seq_timer_set_tempo tempo tmr =
     (if tempo \<le> 0 then (tmr, Inl EINVAL)
      else (if of_int tempo \<noteq> st_tempo tmr then snd_seq_timer_set_tick_resolution (tmr\<lparr>st_tempo := of_int tempo\<rparr>) else tmr, Inr ()))"

definition snd_seq_timer_set_ppq :: "u32 \<Rightarrow> snd_seq_timer \<Rightarrow> snd_seq_timer \<times> unit res" where
  "snd_seq_timer_set_ppq ppq tmr =
     (if sint ppq \<le> 0 then (tmr, Inl EINVAL)
      else if st_running tmr \<and> ppq \<noteq> st_ppq tmr then (tmr, Inl EBUSY)
      else (snd_seq_timer_set_tick_resolution (tmr\<lparr>st_ppq := ppq\<rparr>), Inr ()))"

definition snd_seq_timer_set_position_tick :: "u32 \<Rightarrow> snd_seq_timer \<Rightarrow> snd_seq_timer \<times> unit res" where
  "snd_seq_timer_set_position_tick position tmr =
     (tmr\<lparr>st_tick := (st_tick tmr)\<lparr>tk_cur_tick := position, tk_fraction := 0\<rparr>\<rparr>, Inr ())"

definition snd_seq_timer_set_position_time :: "timestamp \<Rightarrow> snd_seq_timer \<Rightarrow> snd_seq_timer \<times> unit res" where
  "snd_seq_timer_set_position_time position tmr = (tmr\<lparr>st_cur_time := snd_seq_sanity_real_time position\<rparr>, Inr ())"

definition snd_seq_timer_set_skew :: "u32 \<Rightarrow> u32 \<Rightarrow> snd_seq_timer \<Rightarrow> snd_seq_timer \<times> unit res" where
  "snd_seq_timer_set_skew skew base tmr = (if base \<noteq> SKEW_BASE then (tmr, Inl EINVAL) else (tmr\<lparr>st_skew := skew\<rparr>, Inr ()))"

section \<open>Start and stop\<close>

text \<open>\<open>devices\<close> are the answers of the timer core: for the device asked for, and for the system timer.\<close>

definition snd_seq_timer_open :: "bool \<Rightarrow> bool \<Rightarrow> snd_timer res \<Rightarrow> snd_timer res \<Rightarrow> snd_seq_timer \<Rightarrow> snd_seq_timer \<times> unit res" where
  "snd_seq_timer_open slave_class is_system_timer asked system tmr =
     (if st_timeri tmr \<noteq> None then (tmr, Inl EBUSY)
      else case (case asked of Inl e \<Rightarrow> if \<not> slave_class \<and> \<not> is_system_timer then system else Inl e | Inr t \<Rightarrow> Inr t) of
        Inl e \<Rightarrow> (tmr, Inl e)
      | Inr t \<Rightarrow> (tmr\<lparr>st_timeri := Some t\<rparr>, Inr ()))"

definition snd_seq_timer_close :: "snd_seq_timer \<Rightarrow> snd_seq_timer \<times> timer_call list" where
  "snd_seq_timer_close tmr = (case st_timeri tmr of None \<Rightarrow> (tmr, []) | Some _ \<Rightarrow> (tmr\<lparr>st_timeri := None\<rparr>, [Timer_Stop_Close]))"

definition snd_seq_timer_stop :: "snd_seq_timer \<Rightarrow> snd_seq_timer \<times> timer_call list \<times> unit res" where
  "snd_seq_timer_stop tmr =
     (if st_timeri tmr = None then (tmr, [], Inl EINVAL)
      else if \<not> st_running tmr then (tmr, [], Inr ())
      else (tmr\<lparr>st_running := False\<rparr>, [Timer_Pause], Inr ()))"

definition timer_frequency :: "u64 \<Rightarrow> u64" where
  "timer_frequency f = (if f = 0 then 1000 else if f < 10 then 10 else if f > 6250 then 6250 else f)"

definition initialize_timer :: "snd_timer \<Rightarrow> snd_seq_timer \<Rightarrow> snd_seq_timer" where
  "initialize_timer t tmr =
     (let freq = timer_frequency (st_preferred_resolution tmr);
          r = (if td_resolution t = 0 then (case td_c_resolution t of None \<Rightarrow> 0 | Some c \<Rightarrow> c) else td_resolution t);
          n = ucast (1000000000 div (r * freq)) :: u32
      in tmr\<lparr>st_ticks := if \<not> td_slave t \<and> r \<noteq> 0 \<and> n \<noteq> 0 then n else 1, st_initialized := True\<rparr>)"

definition run_timer :: "int \<times> int \<Rightarrow> snd_seq_timer \<Rightarrow> snd_seq_timer" where
  "run_timer now tmr = tmr\<lparr>st_running := True, st_last_update := now\<rparr>"

definition snd_seq_timer_start :: "int \<times> int \<Rightarrow> snd_seq_timer \<Rightarrow> snd_seq_timer \<times> timer_call list \<times> unit res" where
  "snd_seq_timer_start now tmr =
     (case st_timeri tmr of
        None \<Rightarrow> (tmr, [], Inl EINVAL)
      | Some t \<Rightarrow>
          let (tmr1, calls) = (if st_running tmr then (case snd_seq_timer_stop tmr of (a, b, _) \<Rightarrow> (a, b)) else (tmr, []));
              tmr2 = initialize_timer t (snd_seq_timer_reset tmr1)
          in (run_timer now tmr2, calls @ [Timer_Start (st_ticks tmr2)], Inr ()))"

definition snd_seq_timer_continue :: "int \<times> int \<Rightarrow> snd_seq_timer \<Rightarrow> snd_seq_timer \<times> timer_call list \<times> unit res" where
  "snd_seq_timer_continue now tmr =
     (case st_timeri tmr of
        None \<Rightarrow> (tmr, [], Inl EINVAL)
      | Some t \<Rightarrow>
          if st_running tmr then (tmr, [], Inl EBUSY)
          else let tmr1 = (if st_initialized tmr then tmr else initialize_timer t (snd_seq_timer_reset tmr))
            in (run_timer now tmr1, [Timer_Start (st_ticks tmr1)], Inr ()))"

text \<open>The current time, with the time of day since the last interrupt added.\<close>

definition snd_seq_timer_get_cur_time :: "int \<times> int \<Rightarrow> snd_seq_timer \<Rightarrow> timestamp" where
  "snd_seq_timer_get_cur_time now tmr =
     (let t = st_cur_time tmr in
      if st_running tmr then
        let usec = snd now - snd (st_last_update tmr); sec = fst now - fst (st_last_update tmr) in
        snd_seq_sanity_real_time
          (if usec < 0 then (tv_sec t + of_int (sec - 1), tv_nsec t + of_int ((1000000 + usec) * 1000))
           else (tv_sec t + of_int sec, tv_nsec t + of_int (usec * 1000)))
      else t)"

definition snd_seq_timer_get_cur_tick :: "snd_seq_timer \<Rightarrow> u32" where
  "snd_seq_timer_get_cur_tick tmr = tk_cur_tick (st_tick tmr)"

end
