(* ===== verification/Seq_Timer_Laws.thy ===== *)
theory Seq_Timer_Laws
  imports Seq_Timer
begin

text \<open>A queue's clock counts exactly: ticks and real time both are what has elapsed, rounded once.\<close>

section \<open>Numbers\<close>

lemma unat_of_nat_eq: "n < 2 ^ LENGTH('a) \<Longrightarrow> unat (of_nat n :: 'a::len word) = n"
  by (simp add: unat_of_nat take_bit_nat_eq_self)

lemma sanity_exact: "snd_seq_sanity_real_time t = (fst t + of_nat (unat (snd t) div NSEC_PER_SEC), of_nat (unat (snd t) mod NSEC_PER_SEC))"
proof (induction t rule: snd_seq_sanity_real_time.induct)
  case (1 s n)
  show ?case
  proof (cases "1000000000 \<le> n")
    case True
    then have u: "unat (n - 1000000000) = unat n - NSEC_PER_SEC" "NSEC_PER_SEC \<le> unat n" by (simp_all add: unat_sub word_le_nat_alt)
    have "unat n div NSEC_PER_SEC = Suc ((unat n - NSEC_PER_SEC) div NSEC_PER_SEC)" using u(2) by (subst le_div_geq) simp_all
    moreover have "unat n mod NSEC_PER_SEC = (unat n - NSEC_PER_SEC) mod NSEC_PER_SEC" using u(2) by (subst le_mod_geq) simp_all
    ultimately show ?thesis using 1 [OF True] u(1) True by (subst snd_seq_sanity_real_time.simps) (simp add: add.assoc)
  next
    case False
    then have "unat n < NSEC_PER_SEC" by (simp add: word_le_nat_alt)
    then show ?thesis using False by (subst snd_seq_sanity_real_time.simps) simp
  qed
qed

text \<open>A time in nanoseconds, and ticks with the fraction, after \<open>d\<close> more nanoseconds.\<close>

definition time_after :: "timestamp \<Rightarrow> nat \<Rightarrow> timestamp" where
  "time_after t d = (fst t + of_nat ((unat (snd t) + d) div NSEC_PER_SEC), of_nat ((unat (snd t) + d) mod NSEC_PER_SEC))"

definition tick_after :: "snd_seq_timer_tick \<Rightarrow> nat \<Rightarrow> snd_seq_timer_tick" where
  "tick_after tk d =
     (let r = unat (tk_resolution tk); f = unat (tk_fraction tk) + d
      in tk\<lparr>tk_cur_tick := tk_cur_tick tk + of_nat (f div r), tk_fraction := of_nat (f mod r)\<rparr>)"

lemma div_split: "r > 0 \<Longrightarrow> (a + b) div r = a div r + (a mod r + b) div (r :: nat)"
proof -
  assume "r > 0"
  have "a + b = (a mod r + b) + a div r * r" using div_mult_mod_eq [of a r] by linarith
  then show ?thesis using div_mult_self1 [of r "a mod r + b" "a div r"] \<open>r > 0\<close> by simp
qed

lemma time_after_add:
  "time_after (time_after t a) b = time_after t (a + b)"
proof -
  let ?n = "unat (snd t) + a"
  have "?n mod NSEC_PER_SEC < NSEC_PER_SEC" by simp
  then have "?n mod NSEC_PER_SEC < 2 ^ 32" by (rule order.strict_trans) simp
  then have "unat (of_nat (?n mod NSEC_PER_SEC) :: u32) = ?n mod NSEC_PER_SEC" by (intro unat_of_nat_eq) simp
  moreover have "(?n + b) div NSEC_PER_SEC = ?n div NSEC_PER_SEC + (?n mod NSEC_PER_SEC + b) div NSEC_PER_SEC" by (rule div_split) simp
  moreover have "(?n mod NSEC_PER_SEC + b) mod NSEC_PER_SEC = (?n + b) mod NSEC_PER_SEC" by (rule mod_add_left_eq)
  ultimately show ?thesis by (simp add: time_after_def add.assoc del: of_nat_add) (simp add: add.assoc)
qed

lemma tick_after_add:
  assumes "tk_resolution tk > 0"
  shows "tick_after (tick_after tk a) b = tick_after tk (a + b)"
proof -
  let ?r = "unat (tk_resolution tk)" and ?n = "unat (tk_fraction tk) + a"
  have r: "?r > 0" using assms by (simp add: word_less_nat_alt)
  have "?r < 2 ^ 64" using unsigned_less [where 'a = nat, of "tk_resolution tk"] by simp
  then have "?n mod ?r < 2 ^ 64" by (rule order.strict_trans [OF mod_less_divisor [OF r]])
  then have "unat (of_nat (?n mod ?r) :: u64) = ?n mod ?r" by (intro unat_of_nat_eq) simp
  moreover have "(?n + b) div ?r = ?n div ?r + (?n mod ?r + b) div ?r" by (rule div_split [OF r])
  moreover have "(?n mod ?r + b) mod ?r = (?n + b) mod ?r" by (rule mod_add_left_eq)
  ultimately show ?thesis by (simp add: tick_after_def Let_def add.assoc del: of_nat_add) (simp add: add.assoc)
qed

lemma update_tick_exact:
  assumes "tk_resolution tk > 0" "unat (tk_fraction tk) + unat d < 2 ^ 64"
  shows "snd_seq_timer_update_tick d tk = tick_after tk (unat d)"
proof -
  let ?f = "tk_fraction tk + d"
  have f: "unat ?f = unat (tk_fraction tk) + unat d" using assms(2) by (simp add: unat_word_ariths)
  have "(ucast (?f div tk_resolution tk) :: u32) = of_nat (unat (?f div tk_resolution tk))" by (rule of_nat_unat [symmetric])
  moreover have "?f mod tk_resolution tk = of_nat (unat (?f mod tk_resolution tk))" by simp
  ultimately show ?thesis using assms(1) f by (simp add: snd_seq_timer_update_tick_def tick_after_def Let_def unat_div unat_mod)
qed

lemma inc_time_exact:
  assumes "unat (snd t) + unat d < 2 ^ 32"
  shows "snd_seq_inc_time_nsec d t = time_after t (unat d)"
proof -
  have "unat (ucast (ucast (tv_nsec t) + d) :: u32) = unat (tv_nsec t) + unat d"
  proof -
    have "unat (ucast (tv_nsec t) + d :: u64) = unat (tv_nsec t) + unat d"
      using assms by (simp add: unat_word_ariths unsigned_ucast_eq take_bit_eq_mod)
    then show ?thesis using assms by (simp add: unsigned_ucast_eq take_bit_eq_mod)
  qed
  then show ?thesis by (simp add: snd_seq_inc_time_nsec_def sanity_exact time_after_def)
qed

text \<open>The skew multiplies by \<open>skew / 65536\<close> and rounds down once.\<close>

lemma skewed_exact:
  assumes "st_skew_base tmr = SKEW_BASE" "unat r < 2 ^ 32"
  shows "unat (skewed tmr r) = unat r * unat (st_skew tmr) div 65536"
proof (cases "st_skew tmr = st_skew_base tmr")
  case True
  then show ?thesis using assms by (simp add: skewed_def)
next
  case False
  let ?s = "unat (st_skew tmr)" and ?hi = "unat r div 65536" and ?lo = "unat r mod 65536"
  have s: "?s < 2 ^ 32" using unsigned_less [of "st_skew tmr"] by simp
  have hi: "?hi < 2 ^ 16" "?lo < 2 ^ 16" using assms(2) by auto
  have big: "?hi < 2 ^ 64" "?s < 2 ^ 64" by (rule order.strict_trans [OF hi(1)], simp, rule order.strict_trans [OF s], simp)
  have m: "r AND 0xffff = take_bit 16 r"
  proof -
    have "(0xffff :: u64) = mask 16" by (simp add: mask_eq_exp_minus_1)
    then show ?thesis by (simp add: take_bit_eq_mask)
  qed
  have p: "?hi * ?s < 2 ^ 48" "?lo * ?s < 2 ^ 48" using mult_strict_mono [of ?hi "2 ^ 16" ?s "2 ^ 32"] mult_strict_mono [of ?lo "2 ^ 16" ?s "2 ^ 32"] hi s by simp_all
  have a: "unat (drop_bit 16 r * ucast (st_skew tmr)) = ?hi * ?s"
    using p(1) s big by (simp add: unat_word_ariths unat_drop_bit_eq drop_bit_eq_div unat_div unsigned_ucast_eq take_bit_eq_mod)
  have b: "unat (drop_bit 16 ((r AND 0xffff) * ucast (st_skew tmr))) = ?lo * ?s div 65536"
    using p(2) s big by (simp add: m unat_word_ariths unat_drop_bit_eq drop_bit_eq_div unat_div unsigned_ucast_eq unsigned_take_bit_eq take_bit_eq_mod unat_mod)
  have "unat (skewed tmr r) = ?hi * ?s + ?lo * ?s div 65536"
    using False a b p by (simp add: skewed_def unat_word_ariths)
  moreover have "(65536 * hi + lo) * s = 65536 * (hi * s) + lo * s" for hi lo s :: nat by (simp add: algebra_simps)
  then have "unat r * ?s = 65536 * (?hi * ?s) + ?lo * ?s" using mult_div_mod_eq [of 65536 "unat r"] by metis
  ultimately show ?thesis by simp
qed

section \<open>Interrupts\<close>

text \<open>The time of an interrupt, the periods of the device times their number, and what it counts for.\<close>

definition due :: "u32 \<Rightarrow> u64 \<times> u64 \<Rightarrow> nat" where
  "due skew = (\<lambda>(r, n). unat r * unat n * unat skew div 65536)"

definition regular :: "u32 \<Rightarrow> u64 \<times> u64 \<Rightarrow> bool" where
  "regular skew = (\<lambda>(r, n). unat r * unat n < 2 ^ 32 \<and> due skew (r, n) + NSEC_PER_SEC < 2 ^ 32)"

fun interrupts :: "(u64 \<times> u64) list \<Rightarrow> snd_seq_timer \<Rightarrow> snd_seq_timer" where
  "interrupts [] tmr = tmr"
| "interrupts ((r, n) # is) tmr = interrupts is (snd_seq_timer_interrupt (0, 0) r n tmr)"

definition clock_ok :: "snd_seq_timer \<Rightarrow> bool" where
  "clock_ok tmr \<longleftrightarrow> st_running tmr \<and> st_skew_base tmr = SKEW_BASE \<and> unat (tv_nsec (st_cur_time tmr)) < NSEC_PER_SEC \<and>
     tk_resolution (st_tick tmr) > 0 \<and> tk_fraction (st_tick tmr) < tk_resolution (st_tick tmr) \<and> unat (tk_resolution (st_tick tmr)) < 2 ^ 63"

lemma interrupt_exact:
  assumes ok: "clock_ok tmr" and g: "regular (st_skew tmr) (r, n)"
  defines "d \<equiv> due (st_skew tmr) (r, n)"
  shows "clock_ok (snd_seq_timer_interrupt now r n tmr)" "st_skew (snd_seq_timer_interrupt now r n tmr) = st_skew tmr"
    "st_cur_time (snd_seq_timer_interrupt now r n tmr) = time_after (st_cur_time tmr) d"
    "st_tick (snd_seq_timer_interrupt now r n tmr) = tick_after (st_tick tmr) d"
proof -
  have rn: "unat (r * n) = unat r * unat n" "unat (r * n) < 2 ^ 32" using g by (simp_all add: regular_def unat_word_ariths)
  have sk: "unat (skewed tmr (r * n)) = d" using skewed_exact [OF _ rn(2), of tmr] ok rn(1) by (simp add: clock_ok_def d_def due_def)
  have dl: "d + NSEC_PER_SEC < 2 ^ 32" using g by (simp add: regular_def d_def)
  have t: "st_cur_time (snd_seq_timer_interrupt now r n tmr) = time_after (st_cur_time tmr) d"
    using ok inc_time_exact [of "st_cur_time tmr" "skewed tmr (r * n)"] sk dl by (simp add: clock_ok_def snd_seq_timer_interrupt_def Let_def)
  have k: "st_tick (snd_seq_timer_interrupt now r n tmr) = tick_after (st_tick tmr) d"
  proof -
    have "unat (tk_fraction (st_tick tmr)) < 2 ^ 63" using ok by (simp add: clock_ok_def word_less_nat_alt)
    then show ?thesis using ok update_tick_exact [of "st_tick tmr" "skewed tmr (r * n)"] sk dl
      by (simp add: clock_ok_def snd_seq_timer_interrupt_def Let_def)
  qed
  show "st_cur_time (snd_seq_timer_interrupt now r n tmr) = time_after (st_cur_time tmr) d" by (rule t)
  show "st_tick (snd_seq_timer_interrupt now r n tmr) = tick_after (st_tick tmr) d" by (rule k)
  have fr: "st_running (snd_seq_timer_interrupt now r n tmr) = st_running tmr" "st_skew_base (snd_seq_timer_interrupt now r n tmr) = st_skew_base tmr"
    by (simp_all add: snd_seq_timer_interrupt_def Let_def)
  show "st_skew (snd_seq_timer_interrupt now r n tmr) = st_skew tmr" by (simp add: snd_seq_timer_interrupt_def Let_def)
  let ?r = "unat (tk_resolution (st_tick tmr))" and ?f = "unat (tk_fraction (st_tick tmr)) + d"
  have r: "?r > 0" "?r < 2 ^ 63" using ok by (simp_all add: clock_ok_def word_less_nat_alt)
  have "?r < 2 ^ 64" using r(2) by simp
  then have "?f mod ?r < 2 ^ 64" by (rule order.strict_trans [OF mod_less_divisor [OF r(1)]])
  then have "unat (of_nat (?f mod ?r) :: u64) = ?f mod ?r" by (intro unat_of_nat_eq) simp
  then have "tk_fraction (tick_after (st_tick tmr) d) < tk_resolution (st_tick tmr)" using mod_less_divisor [OF r(1), of ?f]
    by (simp add: tick_after_def Let_def word_less_nat_alt)
  moreover have "tk_resolution (tick_after (st_tick tmr) d) = tk_resolution (st_tick tmr)" by (simp add: tick_after_def Let_def)
  moreover have "unat (tv_nsec (time_after (st_cur_time tmr) d)) < NSEC_PER_SEC"
  proof -
    let ?m = "(unat (snd (st_cur_time tmr)) + d) mod NSEC_PER_SEC"
    have "?m < NSEC_PER_SEC" by simp
    moreover then have "unat (of_nat ?m :: u32) = ?m" by (intro unat_of_nat_eq) simp
    ultimately show ?thesis by (simp add: time_after_def)
  qed
  ultimately show "clock_ok (snd_seq_timer_interrupt now r n tmr)" using ok t k fr by (simp add: clock_ok_def)
qed


definition ticking :: snd_seq_timer where
  "ticking = (snd_seq_timer_new 0)\<lparr>st_running := True, st_skew := 0x18000\<rparr>"

lemma ticking_ok: "clock_ok ticking"
  by (simp add: clock_ok_def ticking_def snd_seq_timer_new_def snd_seq_timer_reset_def snd_seq_timer_defaults_def
    snd_seq_timer_set_tick_resolution_def snd_seq_timer_update_tick_def tick_resolution_def Let_def)


text \<open>
  the length of a tick is exact. It is the tempo in nanoseconds divided by the ticks of a quarter note,
  rounded down and at least one, as if computed with unbounded numbers, when a tick is shorter than 4.29
  seconds and a quarter note has at most 4294967 ticks.
\<close>
theorem tick_resolution_exact:
  assumes "0 < ppq" "unat ppq \<le> 4294967" "unat tempo div unat ppq \<le> 4294967"
  shows "unat (tick_resolution tempo ppq) = max 1 (unat tempo * 1000 div unat ppq)"
proof -
  let ?t = "unat tempo" and ?p = "unat ppq"
  let ?r = "if tempo < 1000000 then ucast (tempo * 1000 div ppq) else ucast (tempo div ppq * 1000) + ucast (tempo mod ppq * 1000 div ppq) :: u64"
  have p: "?p > 0" using assms(1) by (simp add: word_less_nat_alt)
  have "unat ?r = ?t * 1000 div ?p"
  proof (cases "tempo < 1000000")
    case True
    then have "?t < 1000000" by (simp add: word_less_nat_alt)
    then have "unat (tempo * 1000) = ?t * 1000" by (simp add: unat_word_ariths)
    moreover have "?t * 1000 div ?p < 2 ^ 32" by (rule le_less_trans [OF div_le_dividend]) (use \<open>?t < 1000000\<close> in simp)
    ultimately show ?thesis using True by (simp add: unsigned_ucast_eq take_bit_eq_mod unat_div)
  next
    case False
    have m: "?t mod ?p < ?p" using p by simp
    have a: "unat (tempo div ppq * 1000) = ?t div ?p * 1000" using assms(3) by (simp add: unat_word_ariths unat_div)
    have n: "?t mod ?p * 1000 < 2 ^ 32" using m assms(2) by simp
    have "?t mod ?p * 1000 div ?p < 2 ^ 32" by (rule le_less_trans [OF div_le_dividend n])
    with n have b: "unat (tempo mod ppq * 1000 div ppq) = ?t mod ?p * 1000 div ?p" by (simp add: unat_word_ariths unat_div unat_mod)
    have c: "?t mod ?p * 1000 div ?p < 1000" using m p by (simp add: div_less_iff_less_mult)
    have "unat ?r = ?t div ?p * 1000 + ?t mod ?p * 1000 div ?p"
      using False a b c assms(3) by (simp add: unat_word_ariths unsigned_ucast_eq take_bit_eq_mod)
    moreover have "(q * p + m) * 1000 = m * 1000 + q * 1000 * p" for q p m :: nat by (simp add: algebra_simps)
    then have "?t * 1000 = ?t mod ?p * 1000 + ?t div ?p * 1000 * ?p" using div_mult_mod_eq [of ?t ?p] by metis
    moreover have "(?t mod ?p * 1000 + ?t div ?p * 1000 * ?p) div ?p = ?t div ?p * 1000 + ?t mod ?p * 1000 div ?p" using p by simp
    ultimately show ?thesis by simp
  qed
  moreover have "?r \<le> 0 \<longleftrightarrow> unat ?r = 0" by (simp add: unat_eq_0)
  ultimately show ?thesis by (auto simp: tick_resolution_def Let_def)
qed

theorem tick_resolution_exact_witness: "unat (tick_resolution 500000 96) = max 1 (unat (500000 :: u32) * 1000 div unat (96 :: u32))"
  by (rule tick_resolution_exact) simp_all

text \<open>
  the skew is not limited, and the nanoseconds are added with 32 bits. At 64 times the speed, an interrupt
  after a tenth of a second advances the ticks by 6.4 seconds but the real time by 2.1 only.
\<close>
theorem snd_seq_timer_skew_overflows:
  "st_cur_time (snd_seq_timer_interrupt now 100000000 1 (fst (snd_seq_timer_set_skew 0x400000 SKEW_BASE (ticking\<lparr>st_skew := 0x10000\<rparr>)))) = (2, 105032704) \<and>
    tk_cur_tick (st_tick (snd_seq_timer_interrupt now 100000000 1 (fst (snd_seq_timer_set_skew 0x400000 SKEW_BASE (ticking\<lparr>st_skew := 0x10000\<rparr>))))) = 1228"
  by (simp add: snd_seq_timer_interrupt_def snd_seq_timer_set_skew_def ticking_def snd_seq_timer_new_def snd_seq_timer_reset_def
    snd_seq_timer_defaults_def snd_seq_timer_set_tick_resolution_def snd_seq_timer_update_tick_def tick_resolution_def Let_def skewed_def
    snd_seq_inc_time_nsec_def sanity_exact)

end
