(* ===== verification/Seq_Prioq.thy ===== *)
theory Seq_Prioq
  imports Seq_Laws
begin

text \<open>
  The priority queue of scheduled events (\<open>sound/core/seq/seq_prioq.c\<close>): a list of cells in the order of
  their time stamps, with a pointer to its last cell for events that come in order. A queue holds events
  stamped in ticks or events stamped in real time.
\<close>

section \<open>Operations\<close>

record snd_seq_prioq =
  pq_head :: u64
  pq_tail :: u64
  pq_cells :: int

definition snd_seq_prioq_new :: snd_seq_prioq where
  "snd_seq_prioq_new = \<lparr>pq_head = 0, pq_tail = 0, pq_cells = 0\<rparr>"

text \<open>The place of a new event; \<open>None\<close> when \<open>n\<close> cells have been passed.\<close>

fun prioq_scan :: "cells \<Rightarrow> snd_seq_event \<Rightarrow> bool \<Rightarrow> nat \<Rightarrow> u64 \<Rightarrow> u64 \<Rightarrow> (u64 \<times> u64) option" where
  "prioq_scan h ev prior n prev cur =
     (if cur = 0 then Some (prev, cur)
      else let rel = compare_timestamp_rel ev (cell_event h cur) in
        if rel < 0 then Some (prev, cur)
        else if rel = 0 \<and> prior then Some (prev, cur)
        else if n \<le> 1 then None
        else prioq_scan h ev prior (n - 1) cur (ce_next (h cur)))"

declare prioq_scan.simps [simp del]

definition prioq_append :: "u64 \<Rightarrow> snd_seq_prioq \<times> cells \<Rightarrow> snd_seq_prioq \<times> cells" where
  "prioq_append c = (\<lambda>(f, h). (f\<lparr>pq_tail := c, pq_cells := pq_cells f + 1\<rparr>, set_next c 0 (set_next (pq_tail f) c h)))"

definition prioq_insert :: "u64 \<Rightarrow> u64 \<Rightarrow> u64 \<Rightarrow> snd_seq_prioq \<times> cells \<Rightarrow> snd_seq_prioq \<times> cells" where
  "prioq_insert c prev cur = (\<lambda>(f, h).
     (f\<lparr>pq_head := if pq_head f = cur then c else pq_head f, pq_tail := if cur = 0 then c else pq_tail f, pq_cells := pq_cells f + 1\<rparr>,
      set_next c cur (if prev \<noteq> 0 then set_next prev c h else h)))"

definition snd_seq_prioq_cell_in :: "u64 \<Rightarrow> snd_seq_prioq \<times> cells \<Rightarrow> (snd_seq_prioq \<times> cells) res" where
  "snd_seq_prioq_cell_in c s =
     (let (f, h) = s; ev = cell_event h c; prior = is_prior ev in
      if pq_tail f \<noteq> 0 \<and> \<not> prior \<and> compare_timestamp ev (cell_event h (pq_tail f)) then Inr (prioq_append c s)
      else case prioq_scan h ev prior 10000 0 (pq_head f) of
        None \<Rightarrow> Inl EINVAL
      | Some (prev, cur) \<Rightarrow> Inr (prioq_insert c prev cur s))"

definition snd_seq_prioq_cell_out :: "snd_seq_prioq \<times> cells \<Rightarrow> (snd_seq_prioq \<times> cells) \<times> u64 option" where
  "snd_seq_prioq_cell_out s =
     (let (f, h) = s; c = pq_head f in
      if c = 0 then (s, None)
      else ((f\<lparr>pq_head := ce_next (h c), pq_tail := if pq_tail f = c then 0 else pq_tail f, pq_cells := pq_cells f - 1\<rparr>, set_next c 0 h), Some c))"

definition snd_seq_prioq_avail :: "snd_seq_prioq \<Rightarrow> int" where
  "snd_seq_prioq_avail f = pq_cells f"

definition snd_seq_prioq_cell_peek :: "snd_seq_prioq \<Rightarrow> u64" where
  "snd_seq_prioq_cell_peek f = pq_head f"

text \<open>Which events go when a client leaves, or asks for the removal of events.\<close>

definition prioq_match :: "int \<Rightarrow> bool \<Rightarrow> snd_seq_event \<Rightarrow> bool" where
  "prioq_match client timestamp ev =
     (if uint (fst (ev_source ev)) = client \<or> uint (fst (ev_dest ev)) = client then True
      else if \<not> timestamp then False
      else if is_tick ev then ts_tick (ev_time ev) \<noteq> 0
      else tv_sec (ev_time ev) \<noteq> 0 \<or> tv_nsec (ev_time ev) \<noteq> 0)"

record snd_seq_remove_events =
  rm_mode :: u32
  rm_time :: timestamp
  rm_queue :: u8
  rm_dest :: seq_addr
  rm_channel :: u8
  rm_type :: int
  rm_tag :: u8

abbreviation REMOVE_DEST :: nat where "REMOVE_DEST \<equiv> 2"
abbreviation REMOVE_DEST_CHANNEL :: nat where "REMOVE_DEST_CHANNEL \<equiv> 3"
abbreviation REMOVE_TIME_BEFORE :: nat where "REMOVE_TIME_BEFORE \<equiv> 4"
abbreviation REMOVE_TIME_AFTER :: nat where "REMOVE_TIME_AFTER \<equiv> 5"
abbreviation REMOVE_TIME_TICK :: nat where "REMOVE_TIME_TICK \<equiv> 6"
abbreviation REMOVE_EVENT_TYPE :: nat where "REMOVE_EVENT_TYPE \<equiv> 7"
abbreviation REMOVE_IGNORE_OFF :: nat where "REMOVE_IGNORE_OFF \<equiv> 8"
abbreviation REMOVE_TAG_MATCH :: nat where "REMOVE_TAG_MATCH \<equiv> 9"

definition remove_time :: "snd_seq_remove_events \<Rightarrow> snd_seq_event \<Rightarrow> bool" where
  "remove_time info ev =
     (if bit (rm_mode info) REMOVE_TIME_TICK then snd_seq_compare_tick_time (ts_tick (ev_time ev)) (ts_tick (rm_time info))
      else snd_seq_compare_real_time (ev_time ev) (rm_time info))"

definition prioq_remove_match :: "snd_seq_remove_events \<Rightarrow> snd_seq_event \<Rightarrow> bool" where
  "prioq_remove_match info ev =
     (let mode = bit (rm_mode info) in
      if mode REMOVE_DEST \<and> ev_dest ev \<noteq> rm_dest info then False
      else if mode REMOVE_DEST_CHANNEL \<and> \<not> is_channel_type ev then False
      else if mode REMOVE_DEST_CHANNEL \<and> note_channel ev \<noteq> rm_channel info then False
      else if mode REMOVE_TIME_AFTER \<and> \<not> remove_time info ev then False
      else if mode REMOVE_TIME_BEFORE \<and> remove_time info ev then False
      else if mode REMOVE_EVENT_TYPE \<and> uint (ev_type ev) \<noteq> rm_type info then False
      else if mode REMOVE_IGNORE_OFF \<and> ev_type ev = 7 then False
      else if mode REMOVE_TAG_MATCH \<and> rm_tag info \<noteq> ev_tag ev then False
      else True)"

text \<open>
  One cell of the loop that collects the cells to remove: they are linked to each other, in order, and
  given back afterwards. \<open>prev\<close> is the last cell that stays, \<open>last\<close> the last one collected.
\<close>

record collected =
  co_first :: u64
  co_prev :: u64

definition collect_cell :: "u64 \<Rightarrow> u64 \<Rightarrow> snd_seq_prioq \<times> cells \<Rightarrow> collected \<Rightarrow> (snd_seq_prioq \<times> cells) \<times> collected" where
  "collect_cell c prev s co =
     (let (f, h) = s;
          n = ce_next (h c);
          h1 = (if c = pq_head f then h else set_next prev n h);
          f1 = f\<lparr>pq_head := if c = pq_head f then n else pq_head f, pq_tail := if c = pq_tail f then n else pq_tail f, pq_cells := pq_cells f - 1\<rparr>;
          h2 = set_next c 0 h1;
          h3 = (if co_first co = 0 then h2 else set_next (co_prev co) c h2)
      in ((f1, h3), \<lparr>co_first = if co_first co = 0 then c else co_first co, co_prev = c\<rparr>))"

partial_function (option) prioq_collect ::
    "(snd_seq_event \<Rightarrow> bool) \<Rightarrow> u64 \<Rightarrow> u64 \<Rightarrow> snd_seq_prioq \<times> cells \<Rightarrow> collected \<Rightarrow> ((snd_seq_prioq \<times> cells) \<times> u64) option" where
  "prioq_collect P c prev s co =
     (if c = 0 then Some (s, co_first co)
      else let n = ce_next (snd s c) in
        if P (cell_event (snd s) c) then (let (s', co') = collect_cell c prev s co in prioq_collect P n prev s' co')
        else prioq_collect P n c s co)"

partial_function (option) free_collected :: "u64 \<Rightarrow> seq_mem \<Rightarrow> seq_mem option" where
  "free_collected c m =
     (if c = 0 then Some m
      else let n = ce_next (sm_cells m c) in
        case snd_seq_cell_free c m of None \<Rightarrow> None | Some m' \<Rightarrow> free_collected n m')"

definition prioq_remove :: "(snd_seq_event \<Rightarrow> bool) \<Rightarrow> snd_seq_prioq \<Rightarrow> seq_mem \<Rightarrow> (snd_seq_prioq \<times> seq_mem) option" where
  "prioq_remove P f m =
     (case prioq_collect P (pq_head f) 0 (f, sm_cells m) \<lparr>co_first = 0, co_prev = 0\<rparr> of
        None \<Rightarrow> None
      | Some ((f', h), first) \<Rightarrow> map_option (\<lambda>m'. (f', m')) (free_collected first (m\<lparr>sm_cells := h\<rparr>)))"

definition snd_seq_prioq_leave :: "int \<Rightarrow> bool \<Rightarrow> snd_seq_prioq \<Rightarrow> seq_mem \<Rightarrow> (snd_seq_prioq \<times> seq_mem) option" where
  "snd_seq_prioq_leave client timestamp = prioq_remove (prioq_match client timestamp)"

definition snd_seq_prioq_remove_events :: "int \<Rightarrow> snd_seq_remove_events \<Rightarrow> snd_seq_prioq \<Rightarrow> seq_mem \<Rightarrow> (snd_seq_prioq \<times> seq_mem) option" where
  "snd_seq_prioq_remove_events client info =
     prioq_remove (\<lambda>ev. uint (fst (ev_source ev)) = client \<and> prioq_remove_match info ev)"

text \<open>The destructor gives every cell back.\<close>

partial_function (option) snd_seq_prioq_delete :: "snd_seq_prioq \<Rightarrow> seq_mem \<Rightarrow> seq_mem option" where
  "snd_seq_prioq_delete f m =
     (if pq_cells f > 0 then
        (case snd_seq_prioq_cell_out (f, sm_cells m) of
           ((f', h), c) \<Rightarrow> (case snd_seq_cell_free (case c of None \<Rightarrow> 0 | Some c \<Rightarrow> c) (m\<lparr>sm_cells := h\<rparr>) of
             None \<Rightarrow> None
           | Some m' \<Rightarrow> snd_seq_prioq_delete f' m'))
      else Some m)"

section \<open>A sorted list of cells\<close>

text \<open>
  The queue holds the cells \<open>xs\<close>, in the order of their times. The pointer to the last cell is right or
  null; it is null with cells in the queue after the last ones were removed.
\<close>

definition prioq_rep :: "bool \<Rightarrow> (u64 \<Rightarrow> snd_seq_event) \<Rightarrow> snd_seq_prioq \<times> cells \<Rightarrow> u64 list \<Rightarrow> bool" where
  "prioq_rep tick ev s xs \<longleftrightarrow>
     (\<forall>c. cell_event (snd s) c = ev c) \<and> (\<forall>c\<in>set xs. is_tick (ev c) = tick) \<and> sorted (map (\<lambda>c. event_key (ev c)) xs) \<and>
     chain (snd s) (pq_head (fst s)) xs \<and> (pq_tail (fst s) = 0 \<or> xs \<noteq> [] \<and> pq_tail (fst s) = last xs) \<and>
     pq_cells (fst s) = int (length xs)"

abbreviation prioq_key :: "(u64 \<Rightarrow> snd_seq_event) \<Rightarrow> u64 \<Rightarrow> nat" where
  "prioq_key ev c \<equiv> event_key (ev c)"

abbreviation prioq_place :: "(u64 \<Rightarrow> snd_seq_event) \<Rightarrow> u64 \<Rightarrow> u64 list \<Rightarrow> u64 list" where
  "prioq_place ev \<equiv> place_key (prioq_key ev) (\<lambda>c. is_prior (ev c))"

definition prioq_room :: "bool \<Rightarrow> (u64 \<Rightarrow> snd_seq_event) \<Rightarrow> u64 \<Rightarrow> u64 list \<Rightarrow> bool" where
  "prioq_room tick ev c xs \<longleftrightarrow> c \<noteq> 0 \<and> c \<notin> set xs \<and> is_tick (ev c) = tick \<and> length xs < 10000"

lemma chain_relink:
  "chain h a (ps @ qs) \<Longrightarrow> ps \<noteq> [] \<Longrightarrow> chain (set_next (last ps) b h) b rs \<Longrightarrow> chain (set_next (last ps) b h) a (ps @ rs)"
proof (induction ps arbitrary: a)
  case (Cons p ps)
  show ?case
  proof (cases "ps = []")
    case False
    then have "p \<noteq> last ps" using chain_distinct [OF Cons.prems(1)] by auto
    then show ?thesis using Cons False by simp
  qed (use Cons in simp)
qed simp

lemma chain_last_next: "chain h a (xs @ [x]) \<Longrightarrow> ce_next (h x) = 0"
  by (induction xs arbitrary: a) auto

lemma prioq_scan_place:
  assumes "chain h cur xs" "length xs < n" "\<forall>x\<in>set xs. is_tick (cell_event h x) = is_tick (cell_event h c)"
  shows "\<exists>ps qs cur'. prioq_scan h (cell_event h c) (is_prior (cell_event h c)) n prev cur = Some (if ps = [] then prev else last ps, cur') \<and>
    xs = ps @ qs \<and> chain h cur' qs \<and> prioq_place (cell_event h) c xs = ps @ c # qs"
  using assms
proof (induction xs arbitrary: prev cur n)
  case Nil
  then show ?case by (simp add: prioq_scan.simps)
next
  case (Cons x xs)
  let ?ev = "cell_event h c" and ?rel = "compare_timestamp_rel (cell_event h c) (cell_event h x)"
  have rel: "?rel = (if event_key (cell_event h x) < event_key ?ev then 1 else if event_key ?ev = event_key (cell_event h x) then 0 else -1)"
    using Cons.prems(3) by (simp add: compare_timestamp_rel_key)
  show ?case
  proof (cases "event_key (cell_event h x) < event_key ?ev \<or> event_key (cell_event h x) = event_key ?ev \<and> \<not> is_prior ?ev")
    case True
    have "length xs < n - 1" using Cons.prems(2) by simp
    with Cons.IH [of "ce_next (h x)" "n - 1" x] Cons.prems obtain ps qs cur' where i:
      "prioq_scan h ?ev (is_prior ?ev) (n - 1) x (ce_next (h x)) = Some (if ps = [] then x else last ps, cur')"
      "xs = ps @ qs" "chain h cur' qs" "prioq_place (cell_event h) c xs = ps @ c # qs" by auto
    have "prioq_scan h ?ev (is_prior ?ev) n prev cur = prioq_scan h ?ev (is_prior ?ev) (n - 1) x (ce_next (h x))"
      using True Cons.prems(1,2) rel by (subst prioq_scan.simps) (auto simp: Let_def)
    then show ?thesis using i True by (intro exI [of _ "x # ps"] exI [of _ qs] exI [of _ cur']) auto
  next
    case False
    then have "prioq_scan h ?ev (is_prior ?ev) n prev cur = Some (prev, cur)"
      using Cons.prems(1) rel by (subst prioq_scan.simps) (auto simp: Let_def)
    then show ?thesis using False Cons.prems(1) by (intro exI [of _ "[]"] exI [of _ "x # xs"] exI [of _ cur]) auto
  qed
qed

lemma prioq_append_rep:
  assumes r: "prioq_rep tick ev (f, h) xs" and room: "prioq_room tick ev c xs" and t: "pq_tail f \<noteq> 0"
    and p: "prioq_place ev c xs = xs @ [c]"
  shows "prioq_rep tick ev (prioq_append c (f, h)) (prioq_place ev c xs)"
proof -
  have l: "pq_tail f = last xs" "xs \<noteq> []" and ch: "chain h (pq_head f) xs" and c: "c \<noteq> 0" "c \<notin> set xs" "last xs \<noteq> c"
    using r t room by (auto simp: prioq_rep_def prioq_room_def)
  have "chain (set_next c 0 h) (pq_head f) (xs @ [])" using ch c by simp
  then have "chain (set_next (last xs) c (set_next c 0 h)) (pq_head f) (xs @ [c])"
    using l c by (intro chain_relink [where qs = "[]"]) auto
  moreover have "set_next c 0 (set_next (last xs) c h) = set_next (last xs) c (set_next c 0 h)"
    using c(3) by (auto simp: set_next_def fun_eq_iff)
  moreover have "sorted (map (prioq_key ev) (prioq_place ev c xs))" using r by (intro sorted_place_key) (simp add: prioq_rep_def)
  ultimately show ?thesis using r room l p by (simp add: prioq_rep_def prioq_append_def prioq_room_def)
qed

lemma prioq_insert_rep:
  assumes r: "prioq_rep tick ev (f, h) (ps @ qs)" and room: "prioq_room tick ev c (ps @ qs)" and q: "chain h cur qs"
    and p: "prioq_place ev c (ps @ qs) = ps @ c # qs"
  shows "prioq_rep tick ev (prioq_insert c (if ps = [] then 0 else last ps) cur (f, h)) (ps @ c # qs)"
proof -
  have ch: "chain h (pq_head f) (ps @ qs)" and c: "c \<noteq> 0" "c \<notin> set ps" "c \<notin> set qs" using r room by (auto simp: prioq_rep_def prioq_room_def)
  have nn: "0 \<notin> set (ps @ qs)" "distinct (ps @ qs)" using chain_nonzero [OF ch] chain_distinct [OF ch] by auto
  have s: "sorted (map (prioq_key ev) (ps @ c # qs))" using r sorted_place_key [of "prioq_key ev" "ps @ qs" "\<lambda>c. is_prior (ev c)" c] p
    by (simp add: prioq_rep_def)
  have cur: "cur = 0 \<longleftrightarrow> qs = []" using q nn by (cases qs) auto
  have base: "chain (set_next c cur h) c (c # qs)" using q c by simp
  have tail: "pq_tail f = 0 \<or> (if qs = [] then ps \<noteq> [] \<and> pq_tail f = last ps else pq_tail f = last qs)"
    using r by (auto simp: prioq_rep_def split: if_splits)
  show ?thesis
  proof (cases "ps = []")
    case True
    have "pq_head f = cur" using chain_unique ch q True by (cases qs) auto
    then show ?thesis using r room True base s cur tail c by (auto simp: prioq_rep_def prioq_insert_def prioq_room_def)
  next
    case False
    then have lp: "last ps \<noteq> 0" "last ps \<in> set ps" using nn by (metis Un_iff last_in_set set_append, simp)
    have "pq_head f = hd ps" using ch False by (cases ps) auto
    moreover have "hd ps \<in> set ps" using False by simp
    ultimately have hd: "pq_head f \<noteq> cur" using q nn by (cases qs) auto
    have "last ps \<notin> set qs" "last ps \<noteq> c" using lp nn c by auto
    then have "chain (set_next (last ps) c (set_next c cur h)) c (c # qs)" using base by simp
    moreover have "chain (set_next c cur h) (pq_head f) (ps @ qs)" using ch c by simp
    ultimately have "chain (set_next (last ps) c (set_next c cur h)) (pq_head f) (ps @ c # qs)" using False by (rule chain_relink [rotated 2])
    moreover have "set_next c cur (set_next (last ps) c h) = set_next (last ps) c (set_next c cur h)"
      using \<open>last ps \<noteq> c\<close> by (auto simp: set_next_def fun_eq_iff)
    ultimately show ?thesis using r room False hd lp s cur tail by (auto simp: prioq_rep_def prioq_insert_def prioq_room_def)
  qed
qed

lemma snd_seq_prioq_cell_in_rep:
  assumes r: "prioq_rep tick ev s xs" and room: "prioq_room tick ev c xs"
  shows "\<exists>s'. snd_seq_prioq_cell_in c s = Inr s' \<and> prioq_rep tick ev s' (prioq_place ev c xs)"
proof -
  obtain f h where s: "s = (f, h)" by force
  have ev: "cell_event h = ev" using r s by (auto simp: prioq_rep_def)
  have ch: "chain h (pq_head f) xs" and ti: "\<forall>x\<in>set xs. is_tick (ev x) = is_tick (ev c)" and so: "sorted (map (prioq_key ev) xs)"
    using r room s by (auto simp: prioq_rep_def prioq_room_def)
  show ?thesis
  proof (cases "pq_tail f \<noteq> 0 \<and> \<not> is_prior (ev c) \<and> compare_timestamp (ev c) (ev (pq_tail f))")
    case True
    have l: "xs \<noteq> []" "pq_tail f = last xs" using True r s by (auto simp: prioq_rep_def)
    then have "prioq_key ev (last xs) \<le> prioq_key ev c" using True ti by (simp add: compare_timestamp_key)
    then have p: "prioq_place ev c xs = xs @ [c]" by (intro place_key_end so disjI2) (use True in simp_all)
    have "snd_seq_prioq_cell_in c s = Inr (prioq_append c (f, h))" unfolding s snd_seq_prioq_cell_in_def Let_def split_conv ev
      by (rule if_P [OF True])
    moreover have "prioq_rep tick ev (prioq_append c (f, h)) (prioq_place ev c xs)"
      by (rule prioq_append_rep [OF r [unfolded s] room _ p]) (use True in simp)
    ultimately show ?thesis by blast
  next
    case False
    have "length xs < 10000" using room by (simp add: prioq_room_def)
    from prioq_scan_place [OF ch this, of c 0, unfolded ev, OF ti] obtain ps qs cur where
      p: "prioq_scan h (ev c) (is_prior (ev c)) 10000 0 (pq_head f) = Some (if ps = [] then 0 else last ps, cur)"
      "xs = ps @ qs" "chain h cur qs" "prioq_place ev c xs = ps @ c # qs" by blast
    have "snd_seq_prioq_cell_in c s = Inr (prioq_insert c (if ps = [] then 0 else last ps) cur s)"
      unfolding s snd_seq_prioq_cell_in_def Let_def split_conv ev if_not_P [OF False] p(1) by simp
    moreover have "prioq_rep tick ev (prioq_insert c (if ps = [] then 0 else last ps) cur (f, h)) (ps @ c # qs)"
      by (rule prioq_insert_rep) (use r room p s in simp_all)
    ultimately show ?thesis using p(4) s by simp
  qed
qed

lemma snd_seq_prioq_cell_out_empty: "prioq_rep tick ev s [] \<Longrightarrow> snd_seq_prioq_cell_out s = (s, None)"
  by (cases s) (simp add: prioq_rep_def snd_seq_prioq_cell_out_def)

lemma snd_seq_prioq_cell_out_rep:
  assumes "prioq_rep tick ev s (x # xs)"
  shows "\<exists>s'. snd_seq_prioq_cell_out s = (s', Some x) \<and> prioq_rep tick ev s' xs"
proof -
  obtain f h where s: "s = (f, h)" by force
  have x: "pq_head f = x" "x \<noteq> 0" "x \<notin> set xs" "chain h (ce_next (h x)) xs"
    using assms chain_distinct [of h "pq_head f" "x # xs"] s by (auto simp: prioq_rep_def)
  then show ?thesis using assms s by (cases "xs = []") (auto simp: prioq_rep_def snd_seq_prioq_cell_out_def Let_def)
qed

interpretation pq: cell_queue "prioq_rep tick ev" snd_seq_prioq_cell_in snd_seq_prioq_cell_out "prioq_place ev" "prioq_room tick ev"
  for tick ev
  by unfold_locales (rule snd_seq_prioq_cell_in_rep snd_seq_prioq_cell_out_empty snd_seq_prioq_cell_out_rep; assumption)+

end
