(* ===== verification/Seq_Prioq_Laws.thy ===== *)
theory Seq_Prioq_Laws
  imports Seq_Prioq Seq_Owner
begin

text \<open>
  What the priority queue does as a whole: events come out in the order of their times, and the removal
  of events leaves the others in order and gives every cell back to its pool.
\<close>

section \<open>Collecting cells\<close>

text \<open>The queue \<open>ks\<close> so far kept and \<open>xs\<close> to come, the cells \<open>rs\<close> collected.\<close>

definition collecting :: "u64 list \<Rightarrow> u64 list \<Rightarrow> u64 list \<Rightarrow> u64 \<Rightarrow> snd_seq_prioq \<times> cells \<Rightarrow> collected \<Rightarrow> bool" where
  "collecting ks xs rs prev s co \<longleftrightarrow>
     chain (snd s) (pq_head (fst s)) (ks @ xs) \<and> chain (snd s) (co_first co) rs \<and> (rs = [] \<or> co_prev co = last rs) \<and>
     distinct (ks @ xs @ rs) \<and> (ks = [] \<or> prev = last ks) \<and>
     (pq_tail (fst s) = 0 \<or> ks @ xs \<noteq> [] \<and> pq_tail (fst s) = last (ks @ xs)) \<and> pq_cells (fst s) = int (length (ks @ xs))"

lemma chain_suffix: "chain h a (ks @ xs) \<Longrightarrow> chain h (if ks = [] then a else ce_next (h (last ks))) xs"
  by (auto intro: chain_drop)

lemma chain_unlink:
  assumes ch: "chain h a (ks @ x # xs)" and ks: "ks \<noteq> []"
  shows "chain (set_next (last ks) (ce_next (h x)) h) a (ks @ xs)"
proof (rule chain_relink [OF ch ks])
  have "last ks \<in> set ks" using ks by simp
  then have "last ks \<notin> set xs" using chain_distinct [OF ch] by auto
  moreover have "chain h (ce_next (h x)) xs" using chain_suffix [OF ch] by simp
  ultimately show "chain (set_next (last ks) (ce_next (h x)) h) (ce_next (h x)) xs" by simp
qed

lemma collecting_facts:
  assumes "collecting ks (x # xs) rs prev (f, h) co"
  shows "x \<noteq> 0" "x \<notin> set ks" "x \<notin> set xs" "x \<notin> set rs" "ks \<noteq> [] \<Longrightarrow> last ks \<notin> set xs \<and> last ks \<noteq> x \<and> last ks \<notin> set rs"
    "rs \<noteq> [] \<Longrightarrow> last rs \<notin> set (ks @ xs) \<and> last rs \<noteq> x" "ks = [] \<longleftrightarrow> pq_head f = x" "co_first co = 0 \<longleftrightarrow> rs = []"
proof -
  have ch: "chain h (pq_head f) (ks @ x # xs)" and rs: "chain h (co_first co) rs" and d: "distinct (ks @ (x # xs) @ rs)"
    using assms by (auto simp: collecting_def)
  show "x \<noteq> 0" using chain_nonzero [OF ch] by auto
  show "x \<notin> set ks" "x \<notin> set xs" "x \<notin> set rs" using d by auto
  show "last ks \<notin> set xs \<and> last ks \<noteq> x \<and> last ks \<notin> set rs" if "ks \<noteq> []" using d last_in_set [OF that] by auto
  show "last rs \<notin> set (ks @ xs) \<and> last rs \<noteq> x" if "rs \<noteq> []" using d last_in_set [OF that] by auto
  show "ks = [] \<longleftrightarrow> pq_head f = x" using ch d by (cases ks) auto
  show "co_first co = 0 \<longleftrightarrow> rs = []" using rs by (cases rs) auto
qed

lemma collect_cell_step:
  assumes c: "collecting ks (x # xs) rs prev (f, h) co"
  shows "\<exists>s' co'. collect_cell x prev (f, h) co = (s', co') \<and> collecting ks xs (rs @ [x]) prev s' co' \<and>
    (\<forall>d. ce_raw (snd s' d) = ce_raw (h d) \<and> ce_pool (snd s' d) = ce_pool (h d)) \<and>
    (\<forall>d. d \<notin> set (ks @ x # rs) \<longrightarrow> ce_next (snd s' d) = ce_next (h d))"
proof -
  note n = collecting_facts [OF c]
  let ?n = "ce_next (h x)"
  let ?h1 = "if x = pq_head f then h else set_next prev ?n h"
  let ?h2 = "set_next x 0 ?h1"
  let ?h3 = "if co_first co = 0 then ?h2 else set_next (co_prev co) x ?h2"
  let ?hd = "if x = pq_head f then ?n else pq_head f"
  let ?f = "f\<lparr>pq_head := ?hd, pq_tail := if x = pq_tail f then ?n else pq_tail f, pq_cells := pq_cells f - 1\<rparr>"
  have ch: "chain h (pq_head f) (ks @ x # xs)" and rs: "chain h (co_first co) rs" "rs = [] \<or> co_prev co = last rs"
    and pv: "ks = [] \<or> prev = last ks" and d: "distinct (ks @ (x # xs) @ rs)"
    and tl: "pq_tail f = 0 \<or> pq_tail f = last (ks @ x # xs)" using c by (auto simp: collecting_def)
  have nx: "chain h ?n xs" using chain_suffix [OF ch] by simp
  have 1: "chain ?h1 ?hd (ks @ xs)"
  proof (cases "ks = []")
    case True
    then show ?thesis using n(7) nx by simp
  next
    case False
    then show ?thesis using n(7) pv chain_unlink [OF ch] by auto
  qed
  have 2: "chain ?h2 ?hd (ks @ xs)" using 1 n(2,3) by simp
  have 3: "chain ?h3 ?hd (ks @ xs)" using 2 n(6,8) rs(2) by (cases "rs = []") auto
  have r1: "chain ?h1 (co_first co) rs" using rs(1) n(5,7) pv by (cases "ks = []") auto
  have r2: "chain ?h2 (co_first co) rs" using r1 n(4) by simp
  have r3: "chain ?h3 (if co_first co = 0 then x else co_first co) (rs @ [x])"
  proof (cases "rs = []")
    case True
    then show ?thesis using n(1,8) by simp
  next
    case False
    have "chain (set_next (last rs) x ?h2) (co_first co) (rs @ [x])" using chain_snoc [OF r2 False n(1) _ n(4)] by simp
    then show ?thesis using False n(8) rs(2) by simp
  qed
  have tl': "pq_tail ?f = 0 \<or> ks @ xs \<noteq> [] \<and> pq_tail ?f = last (ks @ xs)"
  proof (cases "pq_tail f = x")
    case True
    then have "xs = []" using tl n(1,3) by (cases "xs = []") (auto dest: last_in_set)
    then show ?thesis using True nx by simp
  next
    case False
    then show ?thesis using tl by (cases "xs = []") auto
  qed
  have "collecting ks xs (rs @ [x]) prev (?f, ?h3) \<lparr>co_first = if co_first co = 0 then x else co_first co, co_prev = x\<rparr>"
    unfolding collecting_def using 3 r3 d pv tl' c by (simp add: collecting_def)
  moreover have "collect_cell x prev (f, h) co = ((?f, ?h3), \<lparr>co_first = if co_first co = 0 then x else co_first co, co_prev = x\<rparr>)"
    by (simp only: collect_cell_def Let_def split_conv)
  moreover have "ce_raw (?h3 e) = ce_raw (h e) \<and> ce_pool (?h3 e) = ce_pool (h e)" for e by simp
  moreover have "ce_next (?h3 e) = ce_next (h e)" if "e \<notin> set (ks @ x # rs)" for e
    using that n(7,8) pv rs(2) last_in_set [of ks] last_in_set [of rs] by (cases "ks = []"; cases "rs = []") auto
  ultimately show ?thesis by (intro exI conjI) auto
qed

lemma prioq_collect_filter:
  assumes "collecting ks xs rs prev (f, h) co" "c = (if xs = [] then 0 else hd xs)"
  shows "\<exists>f' h' first. prioq_collect P c prev (f, h) co = Some ((f', h'), first) \<and>
    chain h' (pq_head f') (ks @ filter (\<lambda>x. \<not> P (cell_event h x)) xs) \<and> chain h' first (rs @ filter (\<lambda>x. P (cell_event h x)) xs) \<and>
    (pq_tail f' = 0 \<or> ks @ filter (\<lambda>x. \<not> P (cell_event h x)) xs \<noteq> [] \<and> pq_tail f' = last (ks @ filter (\<lambda>x. \<not> P (cell_event h x)) xs)) \<and>
    pq_cells f' = int (length (ks @ filter (\<lambda>x. \<not> P (cell_event h x)) xs)) \<and>
    (\<forall>d. ce_raw (h' d) = ce_raw (h d) \<and> ce_pool (h' d) = ce_pool (h d)) \<and>
    (\<forall>d. d \<notin> set (ks @ xs @ rs) \<longrightarrow> ce_next (h' d) = ce_next (h d))"
  using assms
proof (induction xs arbitrary: ks rs prev f h co c)
  case Nil
  then show ?case by (auto simp: prioq_collect.simps collecting_def)
next
  case (Cons x xs)
  have x: "c = x" "x \<noteq> 0" using Cons.prems collecting_facts(1) by auto
  have nx: "ce_next (h x) = (if xs = [] then 0 else hd xs)"
  proof -
    have "chain h (pq_head f) (ks @ x # xs)" using Cons.prems(1) by (simp add: collecting_def)
    then have "chain h (ce_next (h x)) xs" using chain_suffix by fastforce
    then show ?thesis by (cases xs) auto
  qed
  show ?case
  proof (cases "P (cell_event h x)")
    case True
    from collect_cell_step [OF Cons.prems(1)] obtain f1 h1 co1 where
      s: "collect_cell x prev (f, h) co = ((f1, h1), co1)" "collecting ks xs (rs @ [x]) prev (f1, h1) co1"
      "\<forall>d. ce_raw (h1 d) = ce_raw (h d) \<and> ce_pool (h1 d) = ce_pool (h d)"
      "\<forall>d. d \<notin> set (ks @ x # rs) \<longrightarrow> ce_next (h1 d) = ce_next (h d)" by auto
    have ev: "cell_event h1 y = cell_event h y" for y using s(3) by (simp add: cell_event_def)
    have run: "prioq_collect P c prev (f, h) co = prioq_collect P (ce_next (h x)) prev (f1, h1) co1"
      using x True s(1) by (subst prioq_collect.simps) (simp add: Let_def)
    from Cons.IH [OF s(2) nx] show ?thesis unfolding run ev using True s(3,4) by auto
  next
    case False
    have "collecting (ks @ [x]) xs rs x (f, h) co" using Cons.prems(1) by (auto simp: collecting_def)
    moreover have "prioq_collect P c prev (f, h) co = prioq_collect P (ce_next (h x)) x (f, h) co"
      using x False by (subst prioq_collect.simps) (simp add: Let_def)
    ultimately show ?thesis using Cons.IH [of "ks @ [x]" rs x f h co, OF _ nx] False by auto
  qed
qed

section \<open>Removal\<close>

lemma free_collected_held:
  assumes "held dat (rs @ ks) rest m" "chain (sm_cells m) a rs"
  shows "\<exists>m'. free_collected a m = Some m' \<and> held dat ks rest m' \<and>
    (\<forall>d. ce_raw (sm_cells m' d) = ce_raw (sm_cells m d)) \<and> (\<forall>k\<in>set ks. ce_next (sm_cells m' k) = ce_next (sm_cells m k))"
  using assms
proof (induction rs arbitrary: a m)
  case Nil
  then show ?case by (simp add: free_collected.simps)
next
  case (Cons r rs)
  have h: "held dat (r # rs @ ks) rest m" using Cons.prems by simp
  from held_free [OF h] obtain m1 p where m1: "snd_seq_cell_free r m = Some m1" "held dat (rs @ ks) rest m1" and
    fr: "frame p (insert r (set (dat r))) m m1" by blast
  have nx: "ce_next (sm_cells m1 y) = ce_next (sm_cells m y)" if "y \<in> set (rs @ ks)" for y by (rule held_free_next [OF h fr that])
  have "chain (sm_cells m1) (ce_next (sm_cells m r)) rs = chain (sm_cells m) (ce_next (sm_cells m r)) rs" by (intro chain_cong nx) simp
  then have "chain (sm_cells m1) (ce_next (sm_cells m r)) rs" using Cons.prems(2) by simp
  from Cons.IH [OF m1(2) this] obtain m' where i: "free_collected (ce_next (sm_cells m r)) m1 = Some m'" "held dat ks rest m'"
    "\<forall>d. ce_raw (sm_cells m' d) = ce_raw (sm_cells m1 d)" "\<forall>k\<in>set ks. ce_next (sm_cells m' k) = ce_next (sm_cells m1 k)" by blast
  have "free_collected a m = Some m'" using Cons.prems(2) m1(1) i(1) by (subst free_collected.simps) (simp add: Let_def)
  then show ?case using i nx fr by (auto simp: frame_def)
qed

lemma sorted_map_filter_key: "sorted (map key xs) \<Longrightarrow> sorted (map (key :: 'a \<Rightarrow> nat) (filter P xs))"
  by (simp add: sorted_filter)

lemma prioq_remove_rep:
  assumes r: "prioq_rep tick ev (f, sm_cells m) xs" and hd: "held dat xs rest m"
  shows "\<exists>f' m'. prioq_remove P f m = Some (f', m') \<and> prioq_rep tick ev (f', sm_cells m') (filter (\<lambda>x. \<not> P (ev x)) xs) \<and>
    held dat (filter (\<lambda>x. \<not> P (ev x)) xs) rest m'"
proof -
  let ?ks = "filter (\<lambda>x. \<not> P (ev x)) xs" and ?rs = "filter (\<lambda>x. P (ev x)) xs"
  have ev: "cell_event (sm_cells m) = ev" and ch: "chain (sm_cells m) (pq_head f) xs" using r by (auto simp: prioq_rep_def)
  have "collecting [] xs [] 0 (f, sm_cells m) \<lparr>co_first = 0, co_prev = 0\<rparr>"
    using r chain_distinct [OF ch] by (auto simp: collecting_def prioq_rep_def)
  moreover have "pq_head f = (if xs = [] then 0 else hd xs)" using ch by (cases xs) auto
  ultimately obtain f' h' first where
    c: "prioq_collect P (pq_head f) 0 (f, sm_cells m) \<lparr>co_first = 0, co_prev = 0\<rparr> = Some ((f', h'), first)"
    "chain h' (pq_head f') ?ks" "chain h' first ?rs" "pq_tail f' = 0 \<or> ?ks \<noteq> [] \<and> pq_tail f' = last ?ks" "pq_cells f' = int (length ?ks)"
    and raw: "\<And>d. ce_raw (h' d) = ce_raw (sm_cells m d)" and pl: "\<And>d. ce_pool (h' d) = ce_pool (sm_cells m d)"
    and nx: "\<And>d. d \<notin> set xs \<Longrightarrow> ce_next (h' d) = ce_next (sm_cells m d)"
    using prioq_collect_filter [of "[]" xs "[]" 0 f "sm_cells m" "\<lparr>co_first = 0, co_prev = 0\<rparr>" "pq_head f" P] by (auto simp: ev)
  have "mset (?rs @ ?ks) = mset xs" by (simp add: union_code [symmetric])
  then have "held dat (?rs @ ?ks) rest (m\<lparr>sm_cells := h'\<rparr>)"
    using held_relink [OF hd raw pl nx] held_perm by blast
  then obtain m' where m': "free_collected first (m\<lparr>sm_cells := h'\<rparr>) = Some m'" "held dat ?ks rest m'"
    "\<forall>d. ce_raw (sm_cells m' d) = ce_raw (h' d)" "\<forall>k\<in>set ?ks. ce_next (sm_cells m' k) = ce_next (h' k)"
    using free_collected_held [of dat ?rs ?ks rest "m\<lparr>sm_cells := h'\<rparr>" first] c(3) by auto
  have "chain (sm_cells m') (pq_head f') ?ks" using c(2) m'(4) chain_cong [of ?ks "sm_cells m'" h'] by auto
  moreover have "cell_event (sm_cells m') d = ev d" for d using m'(3) raw ev by (auto simp: cell_event_def)
  moreover have "prioq_remove P f m = Some (f', m')" using c(1) m'(1) by (simp add: prioq_remove_def)
  ultimately show ?thesis using m'(2) r c(4,5) sorted_map_filter_key [of "prioq_key ev" xs] by (auto simp: prioq_rep_def)
qed

lemma snd_seq_prioq_delete_held:
  assumes "prioq_rep tick ev (f, sm_cells m) xs" "held dat xs rest m"
  shows "\<exists>m'. snd_seq_prioq_delete f m = Some m' \<and> held dat [] rest m'"
  using assms
proof (induction xs arbitrary: f m)
  case Nil
  then show ?case by (simp add: snd_seq_prioq_delete.simps prioq_rep_def)
next
  case (Cons x xs)
  from snd_seq_prioq_cell_out_rep [OF Cons.prems(1)] obtain f1 h1 where
    o: "snd_seq_prioq_cell_out (f, sm_cells m) = ((f1, h1), Some x)" "prioq_rep tick ev (f1, h1) xs" by auto
  have h1: "h1 = set_next x 0 (sm_cells m)" using o(1) by (auto simp: snd_seq_prioq_cell_out_def Let_def split: if_splits)
  have h: "held dat (x # xs) rest (m\<lparr>sm_cells := h1\<rparr>)" by (rule held_relink [OF Cons.prems(2)]) (auto simp: h1)
  from held_free [OF h] obtain m2 p where m2: "snd_seq_cell_free x (m\<lparr>sm_cells := h1\<rparr>) = Some m2" "held dat xs rest m2"
    and fr: "frame p (insert x (set (dat x))) (m\<lparr>sm_cells := h1\<rparr>) m2" by blast
  have "chain (sm_cells m2) (pq_head f1) xs = chain h1 (pq_head f1) xs"
    using held_free_next [OF h fr] by (intro chain_cong) simp
  moreover have "cell_event (sm_cells m2) d = cell_event h1 d" for d using fr by (simp add: frame_def cell_event_def)
  ultimately have "prioq_rep tick ev (f1, sm_cells m2) xs" using o(2) by (simp add: prioq_rep_def)
  from Cons.IH [OF this m2(2)] obtain m' where "snd_seq_prioq_delete f1 m2 = Some m'" "held dat [] rest m'" by blast
  moreover have "pq_cells f > 0" using Cons.prems(1) by (simp add: prioq_rep_def)
  ultimately show ?case using o(1) m2(1) by (subst snd_seq_prioq_delete.simps) simp
qed

section \<open>Properties\<close>

lemma prioq_roomy:
  assumes "\<And>c. c \<in> set cs \<Longrightarrow> c \<noteq> 0 \<and> is_tick (ev c) = tick" "distinct (xs @ cs)" "length xs + length cs \<le> 10000"
  shows "roomy (prioq_place ev) (prioq_room tick ev) cs xs"
  using assms
proof (induction cs arbitrary: xs)
  case (Cons c cs)
  then show ?case by (auto simp: prioq_room_def)
qed simp

text \<open>
  C14: a queue is a stable sort. Up to 10000 events without the priority flag, put into an empty queue in
  any order, come out in the order of their times, events of the same time in the order they were put in.
\<close>
theorem snd_seq_prioq_sorts:
  assumes "\<And>c. c \<in> set cs \<Longrightarrow> c \<noteq> 0 \<and> \<not> is_prior (cell_event h c) \<and> is_tick (cell_event h c) = tick" "distinct cs" "length cs \<le> 10000"
  shows "\<exists>s. enq_all snd_seq_prioq_cell_in cs (snd_seq_prioq_new, h) = Inr s \<and>
    (\<forall>n. drain snd_seq_prioq_cell_out n s = take n (sort_key (\<lambda>c. event_key (cell_event h c)) cs))"
proof -
  let ?ev = "cell_event h"
  have "prioq_rep tick ?ev (snd_seq_prioq_new, h) []" by (simp add: prioq_rep_def snd_seq_prioq_new_def)
  moreover have "roomy (prioq_place ?ev) (prioq_room tick ?ev) cs []" using assms by (intro prioq_roomy) auto
  moreover have "fold (prioq_place ?ev) cs [] = sort_key (prioq_key ?ev) cs" using assms(1) by (intro fold_place_key_sort) auto
  ultimately show ?thesis using pq.enq_all_drain [of tick ?ev "(snd_seq_prioq_new, h)" "[]" cs] by simp
qed

definition ticked :: "u8 \<Rightarrow> u32 \<Rightarrow> snd_seq_event" where
  "ticked client t = \<lparr>ev_type = 6, ev_flags = 0, ev_tag = 0, ev_queue = 0, ev_time = (t, 0), ev_source = (client, 0), ev_dest = (64, 0),
     ev_data = replicate 12 0\<rparr>"

definition three_events :: cells where
  "three_events c = \<lparr>ce_raw = event_bytes (if c = 1 then ticked 128 20 else if c = 2 then ticked 129 20 else ticked 128 10), ce_pool = 0,
     ce_next = (if c = 1 then 2 else 0)\<rparr>"

lemma three_events_simps: "cell_event three_events 1 = ticked 128 20" "cell_event three_events 2 = ticked 129 20"
  "c \<noteq> 1 \<Longrightarrow> c \<noteq> 2 \<Longrightarrow> cell_event three_events c = ticked 128 10"
  by (simp_all add: cell_event_def three_events_def ticked_def)

theorem snd_seq_prioq_sorts_witness:
  "\<exists>s. enq_all snd_seq_prioq_cell_in [1, 2, 3] (snd_seq_prioq_new, three_events) = Inr s \<and>
    (\<forall>n. drain snd_seq_prioq_cell_out n s = take n (sort_key (\<lambda>c. event_key (cell_event three_events c)) [1, 2, 3]))"
  by (rule snd_seq_prioq_sorts [where tick = True])
    (auto simp: three_events_simps ticked_def is_prior_def is_tick_def)

text \<open>
  C20: when a client leaves, and when a client removes events, the queue keeps exactly the other events, in
  their order; the loop ends, and each cell of a removed event and of its data is back in its pool: the
  cells in use are those of the remaining events.
\<close>
theorem snd_seq_prioq_removes:
  assumes "prioq_rep tick ev (f, sm_cells m) xs" "held dat xs rest m"
  shows "(\<exists>f' m'. snd_seq_prioq_leave client timestamp f m = Some (f', m') \<and>
      prioq_rep tick ev (f', sm_cells m') (filter (\<lambda>x. \<not> prioq_match client timestamp (ev x)) xs) \<and>
      held dat (filter (\<lambda>x. \<not> prioq_match client timestamp (ev x)) xs) rest m') \<and>
    (\<exists>f' m'. snd_seq_prioq_remove_events client info f m = Some (f', m') \<and>
      prioq_rep tick ev (f', sm_cells m') (filter (\<lambda>x. \<not> (uint (fst (ev_source (ev x))) = client \<and> prioq_remove_match info (ev x))) xs) \<and>
      held dat (filter (\<lambda>x. \<not> (uint (fst (ev_source (ev x))) = client \<and> prioq_remove_match info (ev x))) xs) rest m')"
  unfolding snd_seq_prioq_leave_def snd_seq_prioq_remove_events_def by (intro conjI prioq_remove_rep [OF assms])

definition two_queued :: seq_mem where
  "two_queued = \<lparr>sm_cells = three_events,
     sm_pools = \<lambda>p. if p = 0 then (snd_seq_pool_new 2)\<lparr>pl_total_elements := 2, pl_counter := 2\<rparr> else snd_seq_pool_new 0\<rparr>"

lemma two_queued_held: "held (\<lambda>_. []) [1, 2] (\<lambda>_. []) two_queued"
proof -
  have "pool_state 0 [] [1, 2] two_queued" "pool_state (Suc p) [] [] two_queued" for p
    by (simp_all add: pool_state_def two_queued_def snd_seq_pool_new_def three_events_def)
  then have "\<exists>free. pool_state p free (event_cells (\<lambda>_. []) (filter (\<lambda>x. ce_pool (sm_cells two_queued x) = p) [1, 2]) @ []) two_queued" for p
    by (cases p) (auto simp: two_queued_def three_events_def)
  moreover have "data_chain (sm_cells two_queued) x []" if "x \<in> {1, 2}" for x
    using that by (auto simp: two_queued_def data_chain_def three_events_simps ticked_def is_variable_def)
  ultimately show ?thesis by (simp add: held_def)
qed

theorem snd_seq_prioq_removes_witness:
  "\<exists>f' m'. snd_seq_prioq_leave 128 False \<lparr>pq_head = 1, pq_tail = 2, pq_cells = 2\<rparr> two_queued = Some (f', m') \<and>
      prioq_rep True (cell_event three_events) (f', sm_cells m') [2] \<and> held (\<lambda>_. []) [2] (\<lambda>_. []) m'"
proof -
  have "prioq_rep True (cell_event three_events) (\<lparr>pq_head = 1, pq_tail = 2, pq_cells = 2\<rparr>, sm_cells two_queued) [1, 2]"
    by (auto simp: prioq_rep_def two_queued_def three_events_simps ticked_def is_tick_def event_key_def) (simp_all add: three_events_def)
  from snd_seq_prioq_removes [OF this two_queued_held, of 128 False, THEN conjunct1] show ?thesis
    by (simp add: three_events_simps prioq_match_def ticked_def)
qed

end
