(* ===== verification/Seq_Queue.thy ===== *)
theory Seq_Queue
  imports Seq_Prioq_Laws Seq_Timer
begin

text \<open>
  The queues of the sequencer (\<open>sound/core/seq/seq_queue.c\<close>): a priority queue of events stamped in ticks and
  one of events stamped in real time, with a clock, an owner and users. The delivery of an event that is due
  and the timer core are arguments.
\<close>

section \<open>State\<close>

record snd_seq_queue =
  q_queue :: int
  q_name :: string
  q_tickq :: snd_seq_prioq
  q_timeq :: snd_seq_prioq
  q_timer :: snd_seq_timer
  q_owner :: int
  q_locked :: bool
  q_klocked :: bool
  q_check_again :: bool
  q_check_blocked :: bool
  q_info_flags :: u32
  q_clients_bitmap :: "int set"
  q_clients :: int

record seq_queues =
  sq_list :: "nat \<Rightarrow> snd_seq_queue option"
  sq_num :: int

text \<open>What the timer core answers when a clock is opened, and the defaults of the module.\<close>

record timer_env =
  te_default :: u64
  te_slave_class :: bool
  te_is_system :: bool
  te_asked :: "snd_timer res"
  te_system :: "snd_timer res"

abbreviation MAX_QUEUES :: nat where "MAX_QUEUES \<equiv> 8"
abbreviation EV_START :: u8 where "EV_START \<equiv> 30"
abbreviation EV_CONTINUE :: u8 where "EV_CONTINUE \<equiv> 31"
abbreviation EV_STOP :: u8 where "EV_STOP \<equiv> 32"
abbreviation EV_SETPOS_TICK :: u8 where "EV_SETPOS_TICK \<equiv> 33"
abbreviation EV_SETPOS_TIME :: u8 where "EV_SETPOS_TIME \<equiv> 34"
abbreviation EV_TEMPO :: u8 where "EV_TEMPO \<equiv> 35"
abbreviation EV_QUEUE_SKEW :: u8 where "EV_QUEUE_SKEW \<equiv> 38"

definition open_timer :: "timer_env \<Rightarrow> snd_seq_timer \<Rightarrow> snd_seq_timer \<times> unit res" where
  "open_timer env = snd_seq_timer_open (te_slave_class env) (te_is_system env) (te_asked env) (te_system env)"

definition queueptr :: "int \<Rightarrow> seq_queues \<Rightarrow> snd_seq_queue option" where
  "queueptr i s = (if i < 0 \<or> i \<ge> int MAX_QUEUES then None else sq_list s (nat i))"

definition upd_queue :: "int \<Rightarrow> snd_seq_queue \<Rightarrow> seq_queues \<Rightarrow> seq_queues" where
  "upd_queue i q s = s\<lparr>sq_list := (sq_list s)(nat i := Some q)\<rparr>"

section \<open>The list of queues\<close>

definition queue_list_add :: "snd_seq_queue \<Rightarrow> seq_queues \<Rightarrow> seq_queues \<times> nat option" where
  "queue_list_add q s =
     (case List.find (\<lambda>i. sq_list s i = None) [0..<MAX_QUEUES] of
        None \<Rightarrow> (s, None)
      | Some i \<Rightarrow> (s\<lparr>sq_list := (sq_list s)(i := Some (q\<lparr>q_queue := int i\<rparr>)), sq_num := sq_num s + 1\<rparr>, Some i))"

definition queue_list_remove :: "nat \<Rightarrow> int \<Rightarrow> seq_queues \<Rightarrow> seq_queues \<times> snd_seq_queue option" where
  "queue_list_remove i client s =
     (case sq_list s i of
        None \<Rightarrow> (s, None)
      | Some q \<Rightarrow>
          if q_owner q = client then (s\<lparr>sq_list := (sq_list s)(i := None), sq_num := sq_num s - 1\<rparr>, Some (q\<lparr>q_klocked := True\<rparr>))
          else (s, None))"

text \<open>\<open>got\<close>: whether the allocations succeed.\<close>

definition queue_new :: "timer_env \<Rightarrow> bool \<Rightarrow> int \<Rightarrow> bool \<Rightarrow> snd_seq_queue option" where
  "queue_new env got owner locked =
     (if \<not> got then None
      else Some \<lparr>q_queue = -1, q_name = [], q_tickq = snd_seq_prioq_new, q_timeq = snd_seq_prioq_new, q_timer = snd_seq_timer_new (te_default env),
        q_owner = owner, q_locked = locked, q_klocked = False, q_check_again = False, q_check_blocked = False, q_info_flags = 0,
        q_clients_bitmap = {}, q_clients = 0\<rparr>)"

definition queue_delete :: "snd_seq_queue \<Rightarrow> seq_mem \<Rightarrow> (seq_mem \<times> timer_call list) option" where
  "queue_delete q m =
     (case snd_seq_timer_stop (q_timer q) of
        (t1, calls1, _) \<Rightarrow> (case snd_seq_timer_close t1 of
          (t2, calls2) \<Rightarrow> (case snd_seq_prioq_delete (q_tickq q) m of
            None \<Rightarrow> None
          | Some m1 \<Rightarrow> map_option (\<lambda>m2. (m2, calls1 @ calls2)) (snd_seq_prioq_delete (q_timeq q) m1))))"

definition snd_seq_queue_get_cur_queues :: "seq_queues \<Rightarrow> int" where
  "snd_seq_queue_get_cur_queues s = sq_num s"

definition snd_seq_queue_find_name :: "string \<Rightarrow> seq_queues \<Rightarrow> nat option" where
  "snd_seq_queue_find_name name s =
     List.find (\<lambda>i. case sq_list s i of None \<Rightarrow> False | Some q \<Rightarrow> take 64 (q_name q) = take 64 name) [0..<MAX_QUEUES]"

section \<open>Users, owner and lock\<close>

text \<open>The clock is open while the queue has users. The result of opening is not looked at.\<close>

definition use_queue :: "timer_env \<Rightarrow> int \<Rightarrow> bool \<Rightarrow> snd_seq_queue \<Rightarrow> snd_seq_queue \<times> timer_call list" where
  "use_queue env client use q =
     (let q1 = (if use then (if client \<in> q_clients_bitmap q then q else q\<lparr>q_clients_bitmap := insert client (q_clients_bitmap q), q_clients := q_clients q + 1\<rparr>)
                else (if client \<in> q_clients_bitmap q then q\<lparr>q_clients_bitmap := q_clients_bitmap q - {client}, q_clients := q_clients q - 1\<rparr> else q))
      in if q_clients q1 \<noteq> 0 then
           (let t = (if use \<and> q_clients q1 = 1 then snd_seq_timer_defaults (te_default env) (q_timer q1) else q_timer q1)
            in (q1\<lparr>q_timer := fst (open_timer env t)\<rparr>, []))
         else (case snd_seq_timer_close (q_timer q1) of (t, calls) \<Rightarrow> (q1\<lparr>q_timer := t\<rparr>, calls)))"

definition snd_seq_queue_use :: "timer_env \<Rightarrow> int \<Rightarrow> int \<Rightarrow> bool \<Rightarrow> seq_queues \<Rightarrow> seq_queues \<times> timer_call list \<times> unit res" where
  "snd_seq_queue_use env i client use s =
     (case queueptr i s of
        None \<Rightarrow> (s, [], Inl EINVAL)
      | Some q \<Rightarrow> (case use_queue env client use q of (q', calls) \<Rightarrow> (upd_queue i q' s, calls, Inr ())))"

definition snd_seq_queue_is_used :: "int \<Rightarrow> int \<Rightarrow> seq_queues \<Rightarrow> bool res" where
  "snd_seq_queue_is_used i client s = (case queueptr i s of None \<Rightarrow> Inl EINVAL | Some q \<Rightarrow> Inr (client \<in> q_clients_bitmap q))"

definition snd_seq_queue_alloc :: "timer_env \<Rightarrow> bool \<Rightarrow> int \<Rightarrow> bool \<Rightarrow> u32 \<Rightarrow> seq_queues \<Rightarrow> seq_queues \<times> timer_call list \<times> nat res" where
  "snd_seq_queue_alloc env got client locked info_flags s =
     (case queue_new env got client locked of
        None \<Rightarrow> (s, [], Inl ENOMEM)
      | Some q \<Rightarrow> (case queue_list_add (q\<lparr>q_info_flags := info_flags\<rparr>) s of
          (s1, None) \<Rightarrow> (s1, [], Inl ENOMEM)
        | (s1, Some i) \<Rightarrow> (case snd_seq_queue_use env (int i) client True s1 of (s2, calls, _) \<Rightarrow> (s2, calls, Inr i))))"

definition snd_seq_queue_delete :: "int \<Rightarrow> int \<Rightarrow> seq_queues \<Rightarrow> seq_mem \<Rightarrow> (seq_queues \<times> seq_mem \<times> timer_call list \<times> unit res) option" where
  "snd_seq_queue_delete client i s m =
     (if i < 0 \<or> i \<ge> int MAX_QUEUES then Some (s, m, [], Inl EINVAL)
      else case queue_list_remove (nat i) client s of
        (s1, None) \<Rightarrow> Some (s1, m, [], Inl EINVAL)
      | (s1, Some q) \<Rightarrow> map_option (\<lambda>(m1, calls). (s1, m1, calls, Inr ())) (queue_delete q m))"

definition check_access :: "snd_seq_queue \<Rightarrow> int \<Rightarrow> bool" where
  "check_access q client \<longleftrightarrow> q_owner q = client \<or> \<not> q_locked q \<and> \<not> q_klocked q"

definition queue_access_lock :: "snd_seq_queue \<Rightarrow> int \<Rightarrow> snd_seq_queue option" where
  "queue_access_lock q client = (if check_access q client then Some (q\<lparr>q_klocked := True\<rparr>) else None)"

definition queue_access_unlock :: "snd_seq_queue \<Rightarrow> snd_seq_queue" where
  "queue_access_unlock q = q\<lparr>q_klocked := False\<rparr>"

definition snd_seq_queue_check_access :: "int \<Rightarrow> int \<Rightarrow> seq_queues \<Rightarrow> bool" where
  "snd_seq_queue_check_access i client s = (case queueptr i s of None \<Rightarrow> False | Some q \<Rightarrow> check_access q client)"

definition snd_seq_queue_set_owner :: "int \<Rightarrow> int \<Rightarrow> bool \<Rightarrow> seq_queues \<Rightarrow> seq_queues \<times> unit res" where
  "snd_seq_queue_set_owner i client locked s =
     (case queueptr i s of
        None \<Rightarrow> (s, Inl EINVAL)
      | Some q \<Rightarrow> (case queue_access_lock q client of
          None \<Rightarrow> (s, Inl EPERM)
        | Some q1 \<Rightarrow> (upd_queue i (queue_access_unlock (q1\<lparr>q_locked := locked, q_owner := client\<rparr>)) s, Inr ())))"

definition snd_seq_queue_timer_open :: "timer_env \<Rightarrow> int \<Rightarrow> seq_queues \<Rightarrow> seq_queues \<times> unit res" where
  "snd_seq_queue_timer_open env i s =
     (case queueptr i s of
        None \<Rightarrow> (s, Inl EINVAL)
      | Some q \<Rightarrow> (case open_timer env (q_timer q) of
          (t, Inr _) \<Rightarrow> (upd_queue i (q\<lparr>q_timer := t\<rparr>) s, Inr ())
        | (t, Inl _) \<Rightarrow> (case open_timer env (snd_seq_timer_defaults (te_default env) t) of (t2, r) \<Rightarrow> (upd_queue i (q\<lparr>q_timer := t2\<rparr>) s, r))))"

definition snd_seq_queue_timer_close :: "int \<Rightarrow> seq_queues \<Rightarrow> seq_queues \<times> timer_call list \<times> unit res" where
  "snd_seq_queue_timer_close i s =
     (case queueptr i s of
        None \<Rightarrow> (s, [], Inl EINVAL)
      | Some q \<Rightarrow> (case snd_seq_timer_close (q_timer q) of (t, calls) \<Rightarrow> (upd_queue i (q\<lparr>q_timer := t\<rparr>) s, calls, Inr ())))"

record snd_seq_queue_tempo =
  qt_tempo :: u32
  qt_ppq :: u32
  qt_skew_value :: u32
  qt_skew_base :: u32

definition set_timer_tempo :: "snd_seq_queue_tempo \<Rightarrow> snd_seq_timer \<Rightarrow> snd_seq_timer \<times> unit res" where
  "set_timer_tempo info t =
     (case snd_seq_timer_set_tempo (sint (qt_tempo info)) t of
        (t1, Inl e) \<Rightarrow> (t1, Inl e)
      | (t1, Inr _) \<Rightarrow> (case snd_seq_timer_set_ppq (qt_ppq info) t1 of
          (t2, Inl e) \<Rightarrow> (t2, Inl e)
        | (t2, Inr _) \<Rightarrow> if qt_skew_base info > 0 then snd_seq_timer_set_skew (qt_skew_value info) (qt_skew_base info) t2 else (t2, Inr ())))"

definition snd_seq_queue_timer_set_tempo :: "int \<Rightarrow> int \<Rightarrow> snd_seq_queue_tempo \<Rightarrow> seq_queues \<Rightarrow> seq_queues \<times> unit res" where
  "snd_seq_queue_timer_set_tempo i client info s =
     (case queueptr i s of
        None \<Rightarrow> (s, Inl EINVAL)
      | Some q \<Rightarrow> (case queue_access_lock q client of
          None \<Rightarrow> (s, Inl EPERM)
        | Some q1 \<Rightarrow> (case set_timer_tempo info (q_timer q1) of (t, r) \<Rightarrow> (upd_queue i (queue_access_unlock (q1\<lparr>q_timer := t\<rparr>)) s, r))))"

section \<open>Events that are due\<close>

text \<open>
  \<open>dispatch\<close> delivers a cell taken from the queue; it may change this queue, the memory and the rest of the
  system, \<open>'w\<close>. \<open>None\<close>: a fault, or the loop does not end.
\<close>

type_synonym 'w queue_state = "snd_seq_queue \<times> seq_mem \<times> 'w"
type_synonym 'w dispatcher = "u64 \<Rightarrow> 'w queue_state \<Rightarrow> 'w queue_state option"

definition tick_due :: "'w queue_state \<Rightarrow> bool" where
  "tick_due = (\<lambda>(q, m, w). let c = snd_seq_prioq_cell_peek (q_tickq q) in
     c \<noteq> 0 \<and> snd_seq_compare_tick_time (tk_cur_tick (st_tick (q_timer q))) (ts_tick (ev_time (cell_event (sm_cells m) c))))"

definition time_due :: "'w queue_state \<Rightarrow> bool" where
  "time_due = (\<lambda>(q, m, w). let c = snd_seq_prioq_cell_peek (q_timeq q) in
     c \<noteq> 0 \<and> snd_seq_compare_real_time (st_cur_time (q_timer q)) (ev_time (cell_event (sm_cells m) c)))"

definition dispatch_tick :: "'w dispatcher \<Rightarrow> 'w queue_state \<Rightarrow> 'w queue_state option" where
  "dispatch_tick dispatch = (\<lambda>(q, m, w).
     (case snd_seq_prioq_cell_out (q_tickq q, sm_cells m) of
        ((f, h), None) \<Rightarrow> Some (q\<lparr>q_tickq := f\<rparr>, m\<lparr>sm_cells := h\<rparr>, w)
      | ((f, h), Some c) \<Rightarrow> dispatch c (q\<lparr>q_tickq := f\<rparr>, m\<lparr>sm_cells := h\<rparr>, w)))"

definition dispatch_time :: "'w dispatcher \<Rightarrow> 'w queue_state \<Rightarrow> 'w queue_state option" where
  "dispatch_time dispatch = (\<lambda>(q, m, w).
     (case snd_seq_prioq_cell_out (q_timeq q, sm_cells m) of
        ((f, h), None) \<Rightarrow> Some (q\<lparr>q_timeq := f\<rparr>, m\<lparr>sm_cells := h\<rparr>, w)
      | ((f, h), Some c) \<Rightarrow> dispatch c (q\<lparr>q_timeq := f\<rparr>, m\<lparr>sm_cells := h\<rparr>, w)))"

partial_function (option) tick_loop :: "'w dispatcher \<Rightarrow> 'w queue_state \<Rightarrow> 'w queue_state option" where
  "tick_loop dispatch st = (if tick_due st then (case dispatch_tick dispatch st of None \<Rightarrow> None | Some st' \<Rightarrow> tick_loop dispatch st') else Some st)"

partial_function (option) time_loop :: "'w dispatcher \<Rightarrow> 'w queue_state \<Rightarrow> 'w queue_state option" where
  "time_loop dispatch st = (if time_due st then (case dispatch_time dispatch st of None \<Rightarrow> None | Some st' \<Rightarrow> time_loop dispatch st') else Some st)"

partial_function (option) check_loop :: "'w dispatcher \<Rightarrow> 'w queue_state \<Rightarrow> 'w queue_state option" where
  "check_loop dispatch st =
     (case tick_loop dispatch st of
        None \<Rightarrow> None
      | Some st1 \<Rightarrow> (case time_loop dispatch st1 of
          None \<Rightarrow> None
        | Some (q, m, w) \<Rightarrow>
            if q_check_again q then check_loop dispatch (q\<lparr>q_check_again := False\<rparr>, m, w)
            else Some (q\<lparr>q_check_blocked := False\<rparr>, m, w)))"

definition snd_seq_check_queue :: "'w dispatcher \<Rightarrow> 'w queue_state \<Rightarrow> 'w queue_state option" where
  "snd_seq_check_queue dispatch = (\<lambda>(q, m, w).
     if q_check_blocked q then Some (q\<lparr>q_check_again := True\<rparr>, m, w)
     else check_loop dispatch (q\<lparr>q_check_blocked := True\<rparr>, m, w))"

text \<open>The whole of an interrupt of the clock: time advances, then the events that are due are delivered.\<close>

definition queue_interrupt :: "'w dispatcher \<Rightarrow> int \<times> int \<Rightarrow> u64 \<Rightarrow> u64 \<Rightarrow> 'w queue_state \<Rightarrow> 'w queue_state option" where
  "queue_interrupt dispatch now resolution ticks = (\<lambda>(q, m, w).
     if st_running (q_timer q) then
       snd_seq_check_queue dispatch (q\<lparr>q_timer := snd_seq_timer_interrupt now resolution ticks (q_timer q)\<rparr>, m, w)
     else Some (q, m, w))"

text \<open>A relative time stamp becomes absolute.\<close>

definition absolute_time :: "snd_seq_timer \<Rightarrow> snd_seq_event \<Rightarrow> snd_seq_event" where
  "absolute_time t ev =
     (if is_reltime ev then
        ev\<lparr>ev_time := (if is_tick ev then (ts_tick (ev_time ev) + tk_cur_tick (st_tick t), snd (ev_time ev))
             else snd_seq_inc_real_time (ev_time ev) (st_cur_time t)),
           ev_flags := ev_flags ev AND NOT TIME_MODE_MASK\<rparr>
      else ev)"

definition enqueue_cell :: "u64 \<Rightarrow> snd_seq_queue \<times> seq_mem \<Rightarrow> (snd_seq_queue \<times> seq_mem) \<times> unit res" where
  "enqueue_cell c = (\<lambda>(q, m).
     let ev = absolute_time (q_timer q) (cell_event (sm_cells m) c);
         h = (if is_reltime (cell_event (sm_cells m) c) then set_event c ev (sm_cells m) else sm_cells m)
     in if is_tick ev then
          (case snd_seq_prioq_cell_in c (q_tickq q, h) of
             Inl e \<Rightarrow> ((q, m\<lparr>sm_cells := h\<rparr>), Inl e)
           | Inr (f, h') \<Rightarrow> ((q\<lparr>q_tickq := f\<rparr>, m\<lparr>sm_cells := h'\<rparr>), Inr ()))
        else
          (case snd_seq_prioq_cell_in c (q_timeq q, h) of
             Inl e \<Rightarrow> ((q, m\<lparr>sm_cells := h\<rparr>), Inl e)
           | Inr (f, h') \<Rightarrow> ((q\<lparr>q_timeq := f\<rparr>, m\<lparr>sm_cells := h'\<rparr>), Inr ())))"

definition snd_seq_enqueue_event :: "'w dispatcher \<Rightarrow> u64 \<Rightarrow> seq_queues \<times> seq_mem \<times> 'w \<Rightarrow> ((seq_queues \<times> seq_mem \<times> 'w) \<times> unit res) option" where
  "snd_seq_enqueue_event dispatch c = (\<lambda>(s, m, w).
     let dest = uint (ev_queue (cell_event (sm_cells m) c)) in
     case queueptr dest s of
       None \<Rightarrow> Some ((s, m, w), Inl EINVAL)
     | Some q \<Rightarrow> (case enqueue_cell c (q, m) of
         ((q1, m1), Inl e) \<Rightarrow> Some ((upd_queue dest q1 s, m1, w), Inl e)
       | ((q1, m1), Inr _) \<Rightarrow> map_option (\<lambda>(q2, m2, w2). ((upd_queue dest q2 s, m2, w2), Inr ())) (snd_seq_check_queue dispatch (q1, m1, w))))"

section \<open>Delivery\<close>

text \<open>
  What becomes of a cell that is due (\<open>snd_seq_dispatch_event\<close> in \<open>seq_clientmgr.c\<close>). \<open>there\<close> tells which
  clients exist, \<open>deliver\<close> hands a copy of an event to its destinations.
\<close>

abbreviation EV_NOTE :: u8 where "EV_NOTE \<equiv> 5"
abbreviation EV_NOTEON :: u8 where "EV_NOTEON \<equiv> 6"
abbreviation EV_NOTEOFF :: u8 where "EV_NOTEOFF \<equiv> 7"
abbreviation note_off_velocity :: "snd_seq_event \<Rightarrow> u8" where "note_off_velocity ev \<equiv> ev_data ev ! 3"
abbreviation note_duration :: "snd_seq_event \<Rightarrow> u32" where "note_duration ev \<equiv> get32 (ev_data ev) 4"

definition note_on :: "snd_seq_event \<Rightarrow> snd_seq_event" where
  "note_on ev = ev\<lparr>ev_type := EV_NOTEON\<rparr>"

definition end_time :: "snd_seq_event \<Rightarrow> timestamp" where
  "end_time ev =
     (let t = ev_time ev; d = note_duration ev in
      if is_tick ev then (ts_tick t + d, snd t)
      else let n = tv_nsec t + 1000000 * (d mod 1000) in (tv_sec t + (d div 1000 + n div 1000000000), n mod 1000000000))"

definition note_off :: "snd_seq_event \<Rightarrow> snd_seq_event" where
  "note_off ev = set_byte 2 (note_off_velocity ev) (ev\<lparr>ev_type := EV_NOTEOFF, ev_flags := ev_flags ev OR PRIORITY_MASK, ev_time := end_time ev\<rparr>)"

text \<open>The queue is being checked when the cell is put back, so the nested check only asks for another pass.\<close>

definition requeue :: "u64 \<Rightarrow> snd_seq_queue \<times> seq_mem \<Rightarrow> (snd_seq_queue \<times> seq_mem) option" where
  "requeue c s =
     (case enqueue_cell c s of
        ((q, m), Inl _) \<Rightarrow> map_option (\<lambda>m'. (q, m')) (snd_seq_cell_free c m)
      | ((q, m), Inr _) \<Rightarrow> Some (q\<lparr>q_check_again := True\<rparr>, m))"

definition snd_seq_dispatch_event :: "(int \<Rightarrow> bool) \<Rightarrow> (snd_seq_event \<Rightarrow> 'w \<Rightarrow> 'w) \<Rightarrow> 'w dispatcher" where
  "snd_seq_dispatch_event there deliver c = (\<lambda>(q, m, w).
     let ev = cell_event (sm_cells m) c in
     if \<not> there (uint (fst (ev_source ev))) then map_option (\<lambda>m'. (q, m', w)) (snd_seq_cell_free c m)
     else if ev_type ev = EV_NOTE then
       map_option (\<lambda>(q', m'). (q', m', deliver (note_on ev) w)) (requeue c (q, upd_cells (set_event c (note_off ev)) m))
     else map_option (\<lambda>m'. (q, m', deliver ev w)) (snd_seq_cell_free c m))"

section \<open>Clients that leave\<close>

text \<open>A pass over all queues, each with the memory, and the calls made to timers.\<close>

type_synonym queue_pass = "snd_seq_queue \<Rightarrow> seq_mem \<Rightarrow> (snd_seq_queue \<times> seq_mem \<times> timer_call list) option"

fun each_queue :: "queue_pass \<Rightarrow> nat list \<Rightarrow> seq_queues \<Rightarrow> seq_mem \<Rightarrow> (seq_queues \<times> seq_mem \<times> timer_call list) option" where
  "each_queue f [] s m = Some (s, m, [])"
| "each_queue f (i # is) s m =
     (case queueptr (int i) s of
        None \<Rightarrow> each_queue f is s m
      | Some q \<Rightarrow> (case f q m of
          None \<Rightarrow> None
        | Some (q', m1, calls1) \<Rightarrow> map_option (\<lambda>(s2, m2, calls2). (s2, m2, calls1 @ calls2)) (each_queue f is (upd_queue (int i) q' s) m1)))"

text \<open>The same operation on both priority queues.\<close>

definition both_prioqs :: "(snd_seq_prioq \<Rightarrow> seq_mem \<Rightarrow> (snd_seq_prioq \<times> seq_mem) option) \<Rightarrow> snd_seq_queue \<Rightarrow> seq_mem \<Rightarrow> (snd_seq_queue \<times> seq_mem) option" where
  "both_prioqs g q m =
     (case g (q_tickq q) m of
        None \<Rightarrow> None
      | Some (f1, m1) \<Rightarrow> map_option (\<lambda>(f2, m2). (q\<lparr>q_tickq := f1, q_timeq := f2\<rparr>, m2)) (g (q_timeq q) m1))"

definition snd_seq_queue_client_leave_cells :: "int \<Rightarrow> seq_queues \<Rightarrow> seq_mem \<Rightarrow> (seq_queues \<times> seq_mem \<times> timer_call list) option" where
  "snd_seq_queue_client_leave_cells client =
     each_queue (\<lambda>q m. map_option (\<lambda>(q', m'). (q', m', [])) (both_prioqs (snd_seq_prioq_leave client False) q m)) [0..<MAX_QUEUES]"

definition snd_seq_queue_remove_cells :: "int \<Rightarrow> snd_seq_remove_events \<Rightarrow> seq_queues \<Rightarrow> seq_mem \<Rightarrow> (seq_queues \<times> seq_mem \<times> timer_call list) option" where
  "snd_seq_queue_remove_cells client info =
     each_queue (\<lambda>q m.
       if client \<in> q_clients_bitmap q \<and> (\<not> bit (rm_mode info) REMOVE_DEST \<or> q_queue q = uint (rm_queue info)) then
         map_option (\<lambda>(q', m'). (q', m', [])) (both_prioqs (snd_seq_prioq_remove_events client info) q m)
       else Some (q, m, [])) [0..<MAX_QUEUES]"

definition terminate_queue :: "int \<Rightarrow> snd_seq_queue \<Rightarrow> snd_seq_queue \<times> timer_call list" where
  "terminate_queue client q =
     (if q_owner q = client then
        (case (if st_running (q_timer q) then snd_seq_timer_stop (q_timer q) else (q_timer q, [], Inr ())) of
           (t, calls, _) \<Rightarrow> (q\<lparr>q_klocked := True, q_timer := snd_seq_timer_reset t\<rparr>, calls))
      else (q, []))"

definition snd_seq_queue_client_termination :: "int \<Rightarrow> seq_queues \<Rightarrow> seq_queues \<times> timer_call list" where
  "snd_seq_queue_client_termination client s =
     fold (\<lambda>i (s, calls). case queueptr (int i) s of
         None \<Rightarrow> (s, calls)
       | Some q \<Rightarrow> (case terminate_queue client q of (q', c) \<Rightarrow> (upd_queue (int i) q' s, calls @ c))) [0..<MAX_QUEUES] (s, [])"

fun delete_owned :: "int \<Rightarrow> nat list \<Rightarrow> seq_queues \<Rightarrow> seq_mem \<Rightarrow> (seq_queues \<times> seq_mem \<times> timer_call list) option" where
  "delete_owned client [] s m = Some (s, m, [])"
| "delete_owned client (i # is) s m =
     (case queue_list_remove i client s of
        (s1, None) \<Rightarrow> delete_owned client is s1 m
      | (s1, Some q) \<Rightarrow> (case queue_delete q m of
          None \<Rightarrow> None
        | Some (m1, calls1) \<Rightarrow> map_option (\<lambda>(s2, m2, calls2). (s2, m2, calls1 @ calls2)) (delete_owned client is s1 m1)))"

definition leave_queue :: "timer_env \<Rightarrow> int \<Rightarrow> queue_pass" where
  "leave_queue env client q m =
     (if client \<in> q_clients_bitmap q then
        map_option (\<lambda>(q1, m1). (case use_queue env client False q1 of (q2, calls) \<Rightarrow> (q2, m1, calls))) (both_prioqs (snd_seq_prioq_leave client False) q m)
      else Some (q, m, []))"

definition snd_seq_queue_client_leave :: "timer_env \<Rightarrow> int \<Rightarrow> seq_queues \<Rightarrow> seq_mem \<Rightarrow> (seq_queues \<times> seq_mem \<times> timer_call list) option" where
  "snd_seq_queue_client_leave env client s m =
     (case delete_owned client [0..<MAX_QUEUES] s m of
        None \<Rightarrow> None
      | Some (s1, m1, calls1) \<Rightarrow>
          map_option (\<lambda>(s2, m2, calls2). (s2, m2, calls1 @ calls2)) (each_queue (leave_queue env client) [0..<MAX_QUEUES] s1 m1))"

section \<open>Control events\<close>

text \<open>The data of a control event: the queue, and a number, a time or a skew.\<close>

abbreviation ctl_queue :: "snd_seq_event \<Rightarrow> u8" where "ctl_queue ev \<equiv> ev_data ev ! 0"
abbreviation ctl_value :: "snd_seq_event \<Rightarrow> u32" where "ctl_value ev \<equiv> get32 (ev_data ev) 4"
abbreviation ctl_second :: "snd_seq_event \<Rightarrow> u32" where "ctl_second ev \<equiv> get32 (ev_data ev) 8"

text \<open>The event sent to the subscribers of the timer port.\<close>

definition queue_broadcast_event :: "snd_seq_queue \<Rightarrow> snd_seq_event \<Rightarrow> snd_seq_event" where
  "queue_broadcast_event q ev =
     (set_byte 0 (of_int (q_queue q)) ev)
       \<lparr>ev_flags := 0, ev_time := (tk_cur_tick (st_tick (q_timer q)), snd (ev_time ev)), ev_queue := of_int (q_queue q), ev_source := (0, 0),
        ev_dest := (254, snd (ev_dest ev))\<rparr>"

definition set_timer :: "snd_seq_timer \<Rightarrow> snd_seq_queue \<Rightarrow> snd_seq_queue" where
  "set_timer t q = q\<lparr>q_timer := t\<rparr>"

definition after_set :: "snd_seq_event \<Rightarrow> snd_seq_queue \<Rightarrow> snd_seq_timer \<times> unit res \<Rightarrow> snd_seq_queue \<times> timer_call list \<times> snd_seq_event list" where
  "after_set ev q = (\<lambda>(t, r). (set_timer t q, [], case r of Inl _ \<Rightarrow> [] | Inr _ \<Rightarrow> [queue_broadcast_event (set_timer t q) ev]))"

definition snd_seq_queue_process_event :: "int \<times> int \<Rightarrow> snd_seq_event \<Rightarrow> snd_seq_queue \<Rightarrow> seq_mem \<Rightarrow>
    ((snd_seq_queue \<times> timer_call list \<times> snd_seq_event list) \<times> seq_mem) option" where
  "snd_seq_queue_process_event now ev q m =
     (let t = q_timer q; client = uint (fst (ev_source ev)) in
      if ev_type ev = EV_START then
        (case both_prioqs (snd_seq_prioq_leave client True) q m of
           None \<Rightarrow> None
         | Some (q1, m1) \<Rightarrow> (case snd_seq_timer_start now t of
             (t', calls, r) \<Rightarrow> Some ((set_timer t' q1, calls, case r of Inl _ \<Rightarrow> [] | Inr _ \<Rightarrow> [queue_broadcast_event (set_timer t' q1) ev]), m1)))
      else if ev_type ev = EV_CONTINUE then
        (case snd_seq_timer_continue now t of
           (t', calls, r) \<Rightarrow> Some ((set_timer t' q, calls, case r of Inl _ \<Rightarrow> [] | Inr _ \<Rightarrow> [queue_broadcast_event (set_timer t' q) ev]), m))
      else if ev_type ev = EV_STOP then
        (case snd_seq_timer_stop t of (t', calls, _) \<Rightarrow> Some ((set_timer t' q, calls, [queue_broadcast_event (set_timer t' q) ev]), m))
      else if ev_type ev = EV_TEMPO then
        (case snd_seq_timer_set_tempo (sint (ctl_value ev)) t of (t', _) \<Rightarrow> Some ((set_timer t' q, [], [queue_broadcast_event (set_timer t' q) ev]), m))
      else if ev_type ev = EV_SETPOS_TICK then Some (after_set ev q (snd_seq_timer_set_position_tick (ctl_value ev) t), m)
      else if ev_type ev = EV_SETPOS_TIME then Some (after_set ev q (snd_seq_timer_set_position_time (ctl_value ev, ctl_second ev) t), m)
      else if ev_type ev = EV_QUEUE_SKEW then Some (after_set ev q (snd_seq_timer_set_skew (ctl_value ev) (ctl_second ev) t), m)
      else Some ((q, [], []), m))"

definition snd_seq_control_queue :: "int \<times> int \<Rightarrow> snd_seq_event \<Rightarrow> seq_queues \<Rightarrow> seq_mem \<Rightarrow>
    ((seq_queues \<times> timer_call list \<times> snd_seq_event list) \<times> seq_mem \<times> unit res) option" where
  "snd_seq_control_queue now ev s m =
     (let i = uint (ctl_queue ev) in
      case queueptr i s of
        None \<Rightarrow> Some ((s, [], []), m, Inl EINVAL)
      | Some q \<Rightarrow> (case queue_access_lock q (uint (fst (ev_source ev))) of
          None \<Rightarrow> Some ((s, [], []), m, Inl EPERM)
        | Some q1 \<Rightarrow> map_option (\<lambda>((q2, calls, evs), m1). ((upd_queue i (queue_access_unlock q2) s, calls, evs), m1, Inr ()))
            (snd_seq_queue_process_event now ev q1 m)))"

end
