(* ===== verification/Seq_Dispatch.thy ===== *)
theory Seq_Dispatch
  imports Seq_Queue
begin

text \<open>
  The delivery of due events by a queue, against a specification on lists of events: what is delivered, in
  which order, and what stays queued; the cells used are exactly those of the events that stay.
\<close>

section \<open>Specification\<close>

text \<open>
  A queue as the list of its events. The due ones are delivered from the front; a note is delivered as its
  beginning, and its end is queued.
\<close>

abbreviation place_event :: "snd_seq_event \<Rightarrow> snd_seq_event list \<Rightarrow> snd_seq_event list" where
  "place_event \<equiv> place_key event_key is_prior"

definition weight :: "snd_seq_event \<Rightarrow> nat" where
  "weight e = (if ev_type e = EV_NOTE then 2 else 1)"

lemma weight_place_event: "sum_list (map weight (place_event e es)) = weight e + sum_list (map weight es)"
  using mset_place_key [of event_key is_prior e es] by (metis mset_map mset.simps(2) list.map(2) sum_list.Cons sum_mset_sum_list)

lemma weight_note_off: "weight (note_off e) = 1"
  by (simp add: weight_def note_off_def set_byte_def)

function serve :: "(snd_seq_event \<Rightarrow> bool) \<Rightarrow> (int \<Rightarrow> bool) \<Rightarrow> snd_seq_event list \<Rightarrow> snd_seq_event list \<times> snd_seq_event list" where
  "serve due there [] = ([], [])"
| "serve due there (e # es) =
     (if \<not> due e then ([], e # es)
      else if \<not> there (uint (fst (ev_source e))) then serve due there es
      else if ev_type e = EV_NOTE then (case serve due there (place_event (note_off e) es) of (d, r) \<Rightarrow> (note_on e # d, r))
      else (case serve due there es of (d, r) \<Rightarrow> (e # d, r)))"
  by pat_completeness auto
termination
  by (relation "measure (\<lambda>(due, there, es). sum_list (map weight es))")
    (auto simp: weight_place_event weight_note_off, auto simp: weight_def)

lemma serve_rest: "serve due there es = (d, r) \<Longrightarrow> r = [] \<or> \<not> due (hd r)"
  by (induction due there es arbitrary: d rule: serve.induct) (auto split: if_splits prod.splits)

text \<open>One event that is due: what is sent, and what becomes of the events behind it.\<close>

definition sent :: "(int \<Rightarrow> bool) \<Rightarrow> snd_seq_event \<Rightarrow> snd_seq_event list" where
  "sent there e = (if \<not> there (uint (fst (ev_source e))) then [] else if ev_type e = EV_NOTE then [note_on e] else [e])"

definition handled :: "(int \<Rightarrow> bool) \<Rightarrow> snd_seq_event \<Rightarrow> snd_seq_event list \<Rightarrow> snd_seq_event list" where
  "handled there e es = (if there (uint (fst (ev_source e))) \<and> ev_type e = EV_NOTE then place_event (note_off e) es else es)"

lemma serve_due:
  "due e \<Longrightarrow> fst (serve due there (e # es)) = sent there e @ fst (serve due there (handled there e es))"
  "due e \<Longrightarrow> snd (serve due there (e # es)) = snd (serve due there (handled there e es))"
  by (auto simp: sent_def handled_def split: prod.split)

lemma serve_not_due: "es = [] \<or> \<not> due (hd es) \<Longrightarrow> serve due there es = ([], es)"
  by (cases es) auto

lemma weight_handled: "sum_list (map weight (handled there e es)) < sum_list (map weight (e # es))"
  by (auto simp: handled_def weight_place_event weight_note_off) (simp_all add: weight_def)

declare serve.simps [simp del]

section \<open>Loops over what is due\<close>

text \<open>The contract of a loop that takes the due elements from the front of a list.\<close>

locale due_loop =
  fixes loop :: "'s \<Rightarrow> 's option" and is_due :: "'s \<Rightarrow> bool" and step :: "'s \<Rightarrow> 's option"
    and rep :: "'s \<Rightarrow> snd_seq_event list \<Rightarrow> snd_seq_event list \<Rightarrow> bool" and due :: "snd_seq_event \<Rightarrow> bool" and there :: "int \<Rightarrow> bool"
  assumes loop: "loop st = (if is_due st then (case step st of None \<Rightarrow> None | Some st' \<Rightarrow> loop st') else Some st)"
    and is_due: "rep st es ds \<Longrightarrow> is_due st \<longleftrightarrow> es \<noteq> [] \<and> due (hd es)"
    and step: "rep st (e # es) ds \<Longrightarrow> due e \<Longrightarrow> \<exists>st'. step st = Some st' \<and> rep st' (handled there e es) (ds @ sent there e)"
begin

lemma loop_serves: "rep st es ds \<Longrightarrow> \<exists>st'. loop st = Some st' \<and> rep st' (snd (serve due there es)) (ds @ fst (serve due there es))"
proof (induction es arbitrary: st ds rule: measure_induct_rule [of "\<lambda>es. sum_list (map weight es)"])
  case (less es)
  show ?case
  proof (cases "es \<noteq> [] \<and> due (hd es)")
    case False
    then have "loop st = Some st" using is_due [OF less.prems] by (subst loop) auto
    then show ?thesis using less.prems False serve_not_due by simp
  next
    case True
    then obtain e fs where es: "es = e # fs" "due e" by (cases es) auto
    obtain st' where st': "step st = Some st'" "rep st' (handled there e fs) (ds @ sent there e)" using step less.prems es by blast
    from less.IH [OF _ st'(2)] weight_handled es obtain st'' where l: "loop st' = Some st''"
      "rep st'' (snd (serve due there (handled there e fs))) ((ds @ sent there e) @ fst (serve due there (handled there e fs)))" by blast
    have "loop st = Some st''" using True is_due [OF less.prems] st'(1) l(1) by (subst loop) simp
    then show ?thesis using l(2) es by (simp add: serve_due)
  qed
qed

end

section \<open>The queues as lists of events\<close>

text \<open>What the client interface lets into a queue: notes are of fixed length, and times absolute.\<close>

definition plain :: "snd_seq_event \<Rightarrow> bool" where
  "plain e \<longleftrightarrow> length (ev_data e) = 12 \<and> \<not> is_reltime e \<and> (ev_type e = EV_NOTE \<longrightarrow> \<not> is_variable e)"

definition queued :: "(u64 \<Rightarrow> u64 list) \<Rightarrow> (nat \<Rightarrow> u64 list) \<Rightarrow> bool \<Rightarrow> snd_seq_prioq \<Rightarrow> snd_seq_prioq \<Rightarrow> seq_mem \<Rightarrow>
    snd_seq_event list \<Rightarrow> snd_seq_event list \<Rightarrow> bool" where
  "queued dat rest tick f g m es fs \<longleftrightarrow>
     (\<exists>xs ys. prioq_rep tick (cell_event (sm_cells m)) (f, sm_cells m) xs \<and> prioq_rep (\<not> tick) (cell_event (sm_cells m)) (g, sm_cells m) ys \<and>
        held dat (xs @ ys) rest m \<and> es = map (cell_event (sm_cells m)) xs \<and> fs = map (cell_event (sm_cells m)) ys) \<and>
     (\<forall>e\<in>set es \<union> set fs. plain e) \<and> length es \<le> 10000 \<and> length fs \<le> 10000"

lemma queued_swap: "queued dat rest tick f g m es fs \<Longrightarrow> queued dat rest (\<not> tick) g f m fs es"
proof -
  have "held dat (xs @ ys) rest m = held dat (ys @ xs) rest m" for xs ys by (rule held_perm) simp
  then show "queued dat rest tick f g m es fs \<Longrightarrow> queued dat rest (\<not> tick) g f m fs es" unfolding queued_def by auto
qed

lemma prioq_rep_cong:
  assumes "prioq_rep tick (cell_event h) (f, h) xs" "\<And>y. y \<in> set xs \<Longrightarrow> cell_event h' y = cell_event h y \<and> ce_next (h' y) = ce_next (h y)"
  shows "prioq_rep tick (cell_event h') (f, h') xs"
proof -
  have e: "map (prioq_key (cell_event h')) xs = map (prioq_key (cell_event h)) xs" using assms(2) by simp
  have "sorted (map (prioq_key (cell_event h')) xs)" unfolding e using assms(1) by (simp add: prioq_rep_def)
  moreover have "chain h' (pq_head f) xs" using assms chain_cong [of xs h' h] by (simp add: prioq_rep_def)
  ultimately show ?thesis using assms by (simp add: prioq_rep_def)
qed

lemma map_place_key: "map f (place_key (\<lambda>c. key (f c)) (\<lambda>c. pri (f c)) c xs) = place_key key pri (f c) (map f xs)"
  by (induction xs) auto

lemma plain_note_off:
  assumes "plain e" "ev_type e = EV_NOTE"
  shows "plain (note_off e)" "is_tick (note_off e) = is_tick e" "\<not> is_variable (note_off e)" "length (ev_data (note_off e)) = 12"
proof -
  have "((a :: u8) OR 16) AND 1 = a AND 1" "(a OR 16) AND 2 = a AND 2" "(a OR 16) AND 12 = a AND 12" for a
    by (simp_all add: bit.conj_disj_distrib2)
  then show "plain (note_off e)" "is_tick (note_off e) = is_tick e" "\<not> is_variable (note_off e)" "length (ev_data (note_off e)) = 12"
    using assms by (simp_all add: plain_def note_off_def set_byte_def is_reltime_def is_variable_def is_tick_def)
qed

text \<open>Taking out the first cell leaves the other queue alone.\<close>

lemma queued_out:
  assumes "queued dat rest tick f g m (e # es) fs"
  shows "\<exists>f' x xs ys. snd_seq_prioq_cell_out (f, sm_cells m) = ((f', set_next x 0 (sm_cells m)), Some x) \<and> pq_head f = x \<and> x \<noteq> 0 \<and>
    cell_event (sm_cells m) x = e \<and> prioq_rep tick (cell_event (sm_cells m)) (f', set_next x 0 (sm_cells m)) xs \<and>
    prioq_rep (\<not> tick) (cell_event (sm_cells m)) (g, set_next x 0 (sm_cells m)) ys \<and>
    held dat (x # xs @ ys) rest (m\<lparr>sm_cells := set_next x 0 (sm_cells m)\<rparr>) \<and>
    es = map (cell_event (sm_cells m)) xs \<and> fs = map (cell_event (sm_cells m)) ys \<and> is_tick e = tick"
proof -
  let ?h = "sm_cells m" and ?ev = "cell_event (sm_cells m)"
  obtain x xs ys where r: "prioq_rep tick ?ev (f, ?h) (x # xs)" "prioq_rep (\<not> tick) ?ev (g, ?h) ys" "held dat (x # xs @ ys) rest m"
    "?ev x = e" "es = map ?ev xs" "fs = map ?ev ys" using assms unfolding queued_def by auto
  from snd_seq_prioq_cell_out_rep [OF r(1)] obtain f' h' where
    o: "snd_seq_prioq_cell_out (f, ?h) = ((f', h'), Some x)" "prioq_rep tick ?ev (f', h') xs" by auto
  have h': "h' = set_next x 0 ?h" "pq_head f = x" using o(1) by (auto simp: snd_seq_prioq_cell_out_def Let_def split: if_splits)
  have "x \<notin> set ys" "x \<noteq> 0" using held_data(1,3) [OF r(3)] by auto
  moreover have "prioq_rep (\<not> tick) (cell_event (set_next x 0 ?h)) (g, set_next x 0 ?h) ys"
    by (rule prioq_rep_cong [OF r(2)]) (use \<open>x \<notin> set ys\<close> in auto)
  moreover have "cell_event (set_next x 0 ?h) = ?ev" by (simp add: fun_eq_iff)
  moreover have "held dat (x # xs @ ys) rest (m\<lparr>sm_cells := set_next x 0 ?h\<rparr>)" by (rule held_relink [OF r(3)]) auto
  moreover have "is_tick e = tick" using r(1,4) by (simp add: prioq_rep_def)
  ultimately show ?thesis using o h' r(4,5,6) by (intro exI [of _ f'] exI [of _ x] exI [of _ xs] exI [of _ ys]) auto
qed

text \<open>Its cell given back: the event is gone.\<close>

lemma prioq_rep_event: "prioq_rep tick ev (f, h) xs \<Longrightarrow> ev = cell_event h"
  by (auto simp: prioq_rep_def)

lemma queued_free:
  assumes "held dat (x # xs @ ys) rest m" "prioq_rep tick ev (f, sm_cells m) xs" "prioq_rep (\<not> tick) ev (g, sm_cells m) ys"
    "\<forall>e\<in>set (map ev xs) \<union> set (map ev ys). plain e" "length xs \<le> 10000" "length ys \<le> 10000"
  shows "\<exists>m'. snd_seq_cell_free x m = Some m' \<and> queued dat rest tick f g m' (map ev xs) (map ev ys)"
proof -
  have ev: "ev = cell_event (sm_cells m)" using prioq_rep_event [OF assms(2)] .
  obtain m' p where m': "snd_seq_cell_free x m = Some m'" "held dat (xs @ ys) rest m'"
    and fr: "frame p (insert x (set (dat x))) m m'" using held_free [OF assms(1)] by blast
  have e: "cell_event (sm_cells m') = cell_event (sm_cells m)" using fr by (auto simp: frame_def cell_event_def)
  have n: "ce_next (sm_cells m' y) = ce_next (sm_cells m y)" if "y \<in> set (xs @ ys)" for y
    using held_free_next [OF assms(1) fr that] .
  have "prioq_rep tick (cell_event (sm_cells m')) (f, sm_cells m') xs"
    by (rule prioq_rep_cong [OF assms(2) [unfolded ev]]) (use n e in simp)
  moreover have "prioq_rep (\<not> tick) (cell_event (sm_cells m')) (g, sm_cells m') ys"
    by (rule prioq_rep_cong [OF assms(3) [unfolded ev]]) (use n e in simp)
  ultimately have "queued dat rest tick f g m' (map ev xs) (map ev ys)" using m'(2) assms(4-6) unfolding queued_def ev e by auto
  then show ?thesis using m'(1) by blast
qed

section \<open>The end of a note is queued\<close>

lemma snd_seq_prioq_cell_in_frame:
  assumes r: "prioq_rep tick ev (f, h) xs" and c: "\<forall>x\<in>set xs. is_tick (ev x) = is_tick (ev c)" "length xs < 10000"
    and i: "snd_seq_prioq_cell_in c (f, h) = Inr (f', h')"
  shows "ce_raw (h' d) = ce_raw (h d)" "ce_pool (h' d) = ce_pool (h d)" "d \<noteq> c \<Longrightarrow> d \<notin> set xs \<Longrightarrow> ce_next (h' d) = ce_next (h d)"
proof -
  have ev: "cell_event h = ev" and ch: "chain h (pq_head f) xs" using r by (auto simp: prioq_rep_def)
  from prioq_scan_place [OF ch c(2), of c 0, unfolded ev, OF c(1)] obtain ps qs cur where
    p: "prioq_scan h (ev c) (is_prior (ev c)) 10000 0 (pq_head f) = Some (if ps = [] then 0 else last ps, cur)" "xs = ps @ qs" by blast
  consider "pq_tail f \<noteq> 0" "(f', h') = prioq_append c (f, h)" | "(f', h') = prioq_insert c (if ps = [] then 0 else last ps) cur (f, h)"
    using i p(1) by (auto simp: snd_seq_prioq_cell_in_def Let_def ev split: if_splits)
  then have "ce_raw (h' d) = ce_raw (h d) \<and> ce_pool (h' d) = ce_pool (h d) \<and> (d \<noteq> c \<longrightarrow> d \<notin> set xs \<longrightarrow> ce_next (h' d) = ce_next (h d))"
  proof cases
    case 1
    then have "pq_tail f \<in> set xs" using r by (auto simp: prioq_rep_def)
    then show ?thesis using 1 by (auto simp: prioq_append_def)
  next
    case 2
    have "ps \<noteq> [] \<Longrightarrow> last ps \<in> set xs" using p(2) by simp
    then show ?thesis using 2 by (cases "ps = []") (auto simp: prioq_insert_def)
  qed
  then show "ce_raw (h' d) = ce_raw (h d)" "ce_pool (h' d) = ce_pool (h d)" "d \<noteq> c \<Longrightarrow> d \<notin> set xs \<Longrightarrow> ce_next (h' d) = ce_next (h d)" by auto
qed

lemma held_set_event:
  assumes "held dat (x # xs) rest m" "\<not> is_variable (cell_event (sm_cells m) x)" "\<not> is_variable e" "length (ev_data e) = 12"
  shows "held dat (x # xs) rest (upd_cells (set_event x e) m)"
  unfolding held_def
proof (intro conjI ballI allI)
  let ?h = "set_event x e (sm_cells m)"
  fix y assume y: "y \<in> set (x # xs)"
  show "data_chain (sm_cells (upd_cells (set_event x e) m)) y (dat y)"
  proof (cases "y = x")
    case True
    then show ?thesis using assms held_data(4) [OF assms(1)] by (simp add: data_chain_def upd_cells_def)
  next
    case False
    then have "data_chain ?h y (dat y) = data_chain (sm_cells m) y (dat y)" by (intro data_chain_cong) simp_all
    moreover have "data_chain (sm_cells m) y (dat y)" using assms(1) y unfolding held_def by blast
    ultimately show ?thesis by (simp add: upd_cells_def)
  qed
next
  fix p
  let ?h = "set_event x e (sm_cells m)" and ?xs = "filter (\<lambda>y. ce_pool (sm_cells m y) = p) (x # xs)"
  obtain free where s: "pool_state p free (event_cells dat ?xs @ rest p) m" using assms(1) unfolding held_def by blast
  have "pool_state p free (event_cells dat ?xs @ rest p) (m\<lparr>sm_cells := ?h\<rparr>)" by (rule pool_state_cells [OF s]) simp_all
  then show "\<exists>free. pool_state p free (event_cells dat (filter (\<lambda>y. ce_pool (sm_cells (upd_cells (set_event x e) m) y) = p) (x # xs)) @ rest p)
      (upd_cells (set_event x e) m)" unfolding upd_cells_def by (intro exI [of _ free]) simp
qed

lemma queued_put:
  assumes hd: "held dat (x # xs @ ys) rest m" and f: "prioq_rep tick ev (f, sm_cells m) xs" and g: "prioq_rep (\<not> tick) ev (g, sm_cells m) ys"
    and pl: "\<forall>e\<in>set (map ev xs) \<union> set (map ev ys). plain e" "plain (ev x)" and l: "length xs < 10000" "length ys \<le> 10000" and t: "is_tick (ev x) = tick"
  shows "\<exists>f' h'. snd_seq_prioq_cell_in x (f, sm_cells m) = Inr (f', h') \<and>
    queued dat rest tick f' g (m\<lparr>sm_cells := h'\<rparr>) (place_event (ev x) (map ev xs)) (map ev ys)"
proof -
  let ?zs = "prioq_place ev x xs"
  have x: "x \<noteq> 0" "x \<notin> set xs" "x \<notin> set ys" using held_data(1,3) [OF hd] by auto
  have room: "prioq_room tick ev x xs" using x l t by (simp add: prioq_room_def)
  obtain f' h' where i: "snd_seq_prioq_cell_in x (f, sm_cells m) = Inr (f', h')" "prioq_rep tick ev (f', h') ?zs"
    using snd_seq_prioq_cell_in_rep [OF f room] by auto
  have "\<forall>y\<in>set xs. is_tick (ev y) = is_tick (ev x)" using f t by (simp add: prioq_rep_def)
  note fr = snd_seq_prioq_cell_in_frame [OF f this l(1) i(1)]
  have e: "cell_event h' = ev" using prioq_rep_event [OF i(2)] ..
  have dis: "set xs \<inter> set ys = {}"
    using f g by (auto simp: prioq_rep_def)
  have n: "ce_next (h' y) = ce_next (sm_cells m y)" if "y \<in> set ys" for y using fr(3) x(3) dis that by (metis disjoint_iff)
  have g': "prioq_rep (\<not> tick) (cell_event h') (g, h') ys"
    by (rule prioq_rep_cong [OF g [unfolded prioq_rep_event [OF g]]]) (use n e prioq_rep_event [OF g] in simp)
  have "held dat (x # xs @ ys) rest (m\<lparr>sm_cells := h'\<rparr>)" by (rule held_relink [OF hd fr(1,2)]) (use fr(3) in auto)
  moreover have "mset (x # xs @ ys) = mset (?zs @ ys)" by simp
  ultimately have "held dat (?zs @ ys) rest (m\<lparr>sm_cells := h'\<rparr>)" using held_perm by blast
  then have "queued dat rest tick f' g (m\<lparr>sm_cells := h'\<rparr>) (map ev ?zs) (map ev ys)"
    using i(2) g' pl l unfolding queued_def by (auto simp: e)
  then show ?thesis using i(1) map_place_key [of ev event_key is_prior x xs] by simp
qed

lemma requeue_plain:
  assumes "plain (cell_event (sm_cells m) c)"
  shows "requeue c (q, m) =
    (if is_tick (cell_event (sm_cells m) c) then
       (case snd_seq_prioq_cell_in c (q_tickq q, sm_cells m) of
          Inl _ \<Rightarrow> map_option (\<lambda>m'. (q, m')) (snd_seq_cell_free c m)
        | Inr (f, h) \<Rightarrow> Some (q\<lparr>q_tickq := f, q_check_again := True\<rparr>, m\<lparr>sm_cells := h\<rparr>))
     else
       (case snd_seq_prioq_cell_in c (q_timeq q, sm_cells m) of
          Inl _ \<Rightarrow> map_option (\<lambda>m'. (q, m')) (snd_seq_cell_free c m)
        | Inr (f, h) \<Rightarrow> Some (q\<lparr>q_timeq := f, q_check_again := True\<rparr>, m\<lparr>sm_cells := h\<rparr>)))"
  using assms by (auto simp: requeue_def enqueue_cell_def absolute_time_def plain_def split: sum.split)

section \<open>One event\<close>

lemma queued_step:
  assumes q: "queued dat rest tick f g m (e # es) fs"
  shows "\<exists>f' x. snd_seq_prioq_cell_out (f, sm_cells m) = ((f', set_next x 0 (sm_cells m)), Some x) \<and> cell_event (sm_cells m) x = e \<and>
    is_tick e = tick \<and> plain e \<and>
    (\<exists>m'. snd_seq_cell_free x (m\<lparr>sm_cells := set_next x 0 (sm_cells m)\<rparr>) = Some m' \<and> queued dat rest tick f' g m' es fs) \<and>
    (ev_type e = EV_NOTE \<longrightarrow> (\<exists>f'' h. snd_seq_prioq_cell_in x (f', set_event x (note_off e) (set_next x 0 (sm_cells m))) = Inr (f'', h) \<and>
      queued dat rest tick f'' g (m\<lparr>sm_cells := h\<rparr>) (place_event (note_off e) es) fs))"
proof -
  let ?ev = "cell_event (sm_cells m)"
  obtain f' x xs ys where o: "snd_seq_prioq_cell_out (f, sm_cells m) = ((f', set_next x 0 (sm_cells m)), Some x)" "x \<noteq> 0" "?ev x = e" "is_tick e = tick"
    and xs: "prioq_rep tick ?ev (f', set_next x 0 (sm_cells m)) xs" and ys: "prioq_rep (\<not> tick) ?ev (g, set_next x 0 (sm_cells m)) ys"
    and hd: "held dat (x # xs @ ys) rest (m\<lparr>sm_cells := set_next x 0 (sm_cells m)\<rparr>)" and es: "es = map ?ev xs" "fs = map ?ev ys"
    using queued_out [OF q] by blast
  let ?h1 = "set_next x 0 (sm_cells m)"
  let ?m1 = "m\<lparr>sm_cells := ?h1\<rparr>"
  have pl: "\<forall>e\<in>set es \<union> set fs. plain e" "plain e" "length xs < 10000" "length ys \<le> 10000" using q es unfolding queued_def by auto
  have "\<exists>m'. snd_seq_cell_free x ?m1 = Some m' \<and> queued dat rest tick f' g m' es fs"
    using queued_free [OF hd, of tick ?ev f' g] xs ys pl unfolding es by simp
  moreover have "\<exists>f'' h. snd_seq_prioq_cell_in x (f', set_event x (note_off e) ?h1) = Inr (f'', h) \<and>
      queued dat rest tick f'' g (m\<lparr>sm_cells := h\<rparr>) (place_event (note_off e) es) fs" if nt: "ev_type e = EV_NOTE"
  proof -
    note p = plain_note_off [OF pl(2) nt]
    let ?h2 = "set_event x (note_off e) ?h1"
    let ?ev2 = "cell_event ?h2"
    have dis: "x \<notin> set xs" "x \<notin> set ys" using held_data(1) [OF hd] by auto
    have ev: "?ev2 x = note_off e" "\<And>y. y \<noteq> x \<Longrightarrow> ?ev2 y = ?ev y" using p(4) by simp_all
    have k: "?ev2 y = ?ev y" if "y \<in> set xs \<or> y \<in> set ys" for y using ev(2) dis that by metis
    have m: "map ?ev2 xs = es" "map ?ev2 ys = fs" unfolding es map_eq_conv using k by blast+
    have c1: "cell_event ?h1 = ?ev" by (simp add: fun_eq_iff)
    have "held dat (x # xs @ ys) rest (upd_cells (set_event x (note_off e)) ?m1)"
      by (rule held_set_event [OF hd]) (use p pl nt o(3) in \<open>auto simp: plain_def\<close>)
    then have hd2: "held dat (x # xs @ ys) rest (m\<lparr>sm_cells := ?h2\<rparr>)" by (simp add: upd_cells_def)
    have "prioq_rep tick ?ev2 (f', ?h2) xs"
      by (rule prioq_rep_cong [OF xs [folded c1]]) (use k in \<open>simp add: c1\<close>)
    moreover have "prioq_rep (\<not> tick) ?ev2 (g, ?h2) ys"
      by (rule prioq_rep_cong [OF ys [folded c1]]) (use k in \<open>simp add: c1\<close>)
    ultimately show ?thesis using queued_put [OF hd2, of tick ?ev2 f' g] m ev(1) pl p(1,2) o(4) by simp
  qed
  ultimately show ?thesis using o pl(2) by blast
qed

lemma dispatch_tick_step:
  assumes "queued dat rest True (q_tickq q) (q_timeq q) m (e # es) fs"
  shows "\<exists>q' m'. dispatch_tick (snd_seq_dispatch_event there deliver) (q, m, w) = Some (q', m', fold deliver (sent there e) w) \<and>
    queued dat rest True (q_tickq q') (q_timeq q') m' (handled there e es) fs \<and> q' = q\<lparr>q_tickq := q_tickq q', q_check_again := q_check_again q'\<rparr>"
proof -
  obtain f' x where o: "snd_seq_prioq_cell_out (q_tickq q, sm_cells m) = ((f', set_next x 0 (sm_cells m)), Some x)" "cell_event (sm_cells m) x = e"
      "is_tick e" "plain e"
    and free: "\<exists>m'. snd_seq_cell_free x (m\<lparr>sm_cells := set_next x 0 (sm_cells m)\<rparr>) = Some m' \<and> queued dat rest True f' (q_timeq q) m' es fs"
    and put: "ev_type e = EV_NOTE \<Longrightarrow> \<exists>f'' h. snd_seq_prioq_cell_in x (f', set_event x (note_off e) (set_next x 0 (sm_cells m))) = Inr (f'', h) \<and>
      queued dat rest True f'' (q_timeq q) (m\<lparr>sm_cells := h\<rparr>) (place_event (note_off e) es) fs"
    using queued_step [OF assms] by blast
  show ?thesis
  proof (cases "there (uint (fst (ev_source e))) \<and> ev_type e = EV_NOTE")
    case True
    note p = plain_note_off [OF o(4) conjunct2 [OF True]]
    from put True obtain f'' h where i: "snd_seq_prioq_cell_in x (f', set_event x (note_off e) (set_next x 0 (sm_cells m))) = Inr (f'', h)"
      "queued dat rest True f'' (q_timeq q) (m\<lparr>sm_cells := h\<rparr>) (place_event (note_off e) es) fs" by blast
    then have "requeue x (q\<lparr>q_tickq := f'\<rparr>, upd_cells (set_event x (note_off e)) (m\<lparr>sm_cells := set_next x 0 (sm_cells m)\<rparr>)) =
        Some (q\<lparr>q_tickq := f'', q_check_again := True\<rparr>, m\<lparr>sm_cells := h\<rparr>)"
      using p o(3) by (subst requeue_plain) (simp_all add: upd_cells_def)
    then show ?thesis using True o i(2) by (simp add: dispatch_tick_def snd_seq_dispatch_event_def sent_def handled_def)
  next
    case False
    then show ?thesis using o free by (auto simp: dispatch_tick_def snd_seq_dispatch_event_def sent_def handled_def)
  qed
qed

lemma dispatch_time_step:
  assumes "queued dat rest False (q_timeq q) (q_tickq q) m (e # es) fs"
  shows "\<exists>q' m'. dispatch_time (snd_seq_dispatch_event there deliver) (q, m, w) = Some (q', m', fold deliver (sent there e) w) \<and>
    queued dat rest False (q_timeq q') (q_tickq q') m' (handled there e es) fs \<and> q' = q\<lparr>q_timeq := q_timeq q', q_check_again := q_check_again q'\<rparr>"
proof -
  obtain f' x where o: "snd_seq_prioq_cell_out (q_timeq q, sm_cells m) = ((f', set_next x 0 (sm_cells m)), Some x)" "cell_event (sm_cells m) x = e"
      "\<not> is_tick e" "plain e"
    and free: "\<exists>m'. snd_seq_cell_free x (m\<lparr>sm_cells := set_next x 0 (sm_cells m)\<rparr>) = Some m' \<and> queued dat rest False f' (q_tickq q) m' es fs"
    and put: "ev_type e = EV_NOTE \<Longrightarrow> \<exists>f'' h. snd_seq_prioq_cell_in x (f', set_event x (note_off e) (set_next x 0 (sm_cells m))) = Inr (f'', h) \<and>
      queued dat rest False f'' (q_tickq q) (m\<lparr>sm_cells := h\<rparr>) (place_event (note_off e) es) fs"
    using queued_step [OF assms] by blast
  show ?thesis
  proof (cases "there (uint (fst (ev_source e))) \<and> ev_type e = EV_NOTE")
    case True
    note p = plain_note_off [OF o(4) conjunct2 [OF True]]
    from put True obtain f'' h where i: "snd_seq_prioq_cell_in x (f', set_event x (note_off e) (set_next x 0 (sm_cells m))) = Inr (f'', h)"
      "queued dat rest False f'' (q_tickq q) (m\<lparr>sm_cells := h\<rparr>) (place_event (note_off e) es) fs" by blast
    then have "requeue x (q\<lparr>q_timeq := f'\<rparr>, upd_cells (set_event x (note_off e)) (m\<lparr>sm_cells := set_next x 0 (sm_cells m)\<rparr>)) =
        Some (q\<lparr>q_timeq := f'', q_check_again := True\<rparr>, m\<lparr>sm_cells := h\<rparr>)"
      using p o(3) by (subst requeue_plain) (simp_all add: upd_cells_def)
    then show ?thesis using True o i(2) by (simp add: dispatch_time_def snd_seq_dispatch_event_def sent_def handled_def)
  next
    case False
    then show ?thesis using o free by (auto simp: dispatch_time_def snd_seq_dispatch_event_def sent_def handled_def)
  qed
qed

section \<open>The two loops\<close>

definition tick_reached :: "snd_seq_queue \<Rightarrow> snd_seq_event \<Rightarrow> bool" where
  "tick_reached q e = snd_seq_compare_tick_time (tk_cur_tick (st_tick (q_timer q))) (ts_tick (ev_time e))"

definition time_reached :: "snd_seq_queue \<Rightarrow> snd_seq_event \<Rightarrow> bool" where
  "time_reached q e = snd_seq_compare_real_time (st_cur_time (q_timer q)) (ev_time e)"

definition tick_serving :: "(snd_seq_event \<Rightarrow> 'w \<Rightarrow> 'w) \<Rightarrow> (u64 \<Rightarrow> u64 list) \<Rightarrow> (nat \<Rightarrow> u64 list) \<Rightarrow> snd_seq_queue \<Rightarrow> 'w \<Rightarrow> snd_seq_event list \<Rightarrow>
    'w queue_state \<Rightarrow> snd_seq_event list \<Rightarrow> snd_seq_event list \<Rightarrow> bool" where
  "tick_serving deliver dat rest q0 w0 fs = (\<lambda>(q, m, w) es ds.
     queued dat rest True (q_tickq q) (q_timeq q) m es fs \<and> w = fold deliver ds w0 \<and>
     q = q0\<lparr>q_tickq := q_tickq q, q_check_again := q_check_again q\<rparr>)"

definition time_serving :: "(snd_seq_event \<Rightarrow> 'w \<Rightarrow> 'w) \<Rightarrow> (u64 \<Rightarrow> u64 list) \<Rightarrow> (nat \<Rightarrow> u64 list) \<Rightarrow> snd_seq_queue \<Rightarrow> 'w \<Rightarrow> snd_seq_event list \<Rightarrow>
    'w queue_state \<Rightarrow> snd_seq_event list \<Rightarrow> snd_seq_event list \<Rightarrow> bool" where
  "time_serving deliver dat rest q0 w0 fs = (\<lambda>(q, m, w) es ds.
     queued dat rest False (q_timeq q) (q_tickq q) m es fs \<and> w = fold deliver ds w0 \<and>
     q = q0\<lparr>q_timeq := q_timeq q, q_check_again := q_check_again q\<rparr>)"

lemma queued_peek:
  assumes "queued dat rest tick f g m es fs"
  shows "pq_head f \<noteq> 0 \<longleftrightarrow> es \<noteq> []" "es \<noteq> [] \<Longrightarrow> cell_event (sm_cells m) (pq_head f) = hd es"
proof -
  obtain xs where xs: "chain (sm_cells m) (pq_head f) xs" "es = map (cell_event (sm_cells m)) xs" using assms by (auto simp: queued_def prioq_rep_def)
  then show "pq_head f \<noteq> 0 \<longleftrightarrow> es \<noteq> []" "es \<noteq> [] \<Longrightarrow> cell_event (sm_cells m) (pq_head f) = hd es" by (cases xs; auto)+
qed

lemma same_clock:
  "q = q0\<lparr>q_tickq := f, q_check_again := b\<rparr> \<Longrightarrow> q_timer q = q_timer q0"
  "q = q0\<lparr>q_timeq := f, q_check_again := b\<rparr> \<Longrightarrow> q_timer q = q_timer q0"
  by simp_all

lemma same_queue_trans:
  "q' = q\<lparr>q_tickq := c, q_check_again := d\<rparr> \<Longrightarrow> q = q0\<lparr>q_tickq := a, q_check_again := b\<rparr> \<Longrightarrow> q' = q0\<lparr>q_tickq := c, q_check_again := d\<rparr>"
  "q' = q\<lparr>q_timeq := c, q_check_again := d\<rparr> \<Longrightarrow> q = q0\<lparr>q_timeq := a, q_check_again := b\<rparr> \<Longrightarrow> q' = q0\<lparr>q_timeq := c, q_check_again := d\<rparr>"
  by simp_all

interpretation tl: due_loop "tick_loop (snd_seq_dispatch_event there deliver)" tick_due "dispatch_tick (snd_seq_dispatch_event there deliver)"
  "tick_serving deliver dat rest q0 w0 fs" "tick_reached q0" there for there deliver dat rest q0 w0 fs
proof
  fix st es ds
  assume r: "tick_serving deliver dat rest q0 w0 fs st es ds"
  obtain q m w where st: "st = (q, m, w)" by (cases st)
  have k: "queued dat rest True (q_tickq q) (q_timeq q) m es fs" using r unfolding st tick_serving_def split_conv by blast
  have "q_timer q = q_timer q0" using r same_clock(1) unfolding st tick_serving_def split_conv by blast
  then show "tick_due st \<longleftrightarrow> es \<noteq> [] \<and> tick_reached q0 (hd es)"
    using queued_peek [OF k] by (auto simp: st tick_due_def tick_reached_def Let_def snd_seq_prioq_cell_peek_def)
next
  fix st e es ds
  assume r: "tick_serving deliver dat rest q0 w0 fs st (e # es) ds"
  obtain q m w where st: "st = (q, m, w)" by (cases st)
  have k: "queued dat rest True (q_tickq q) (q_timeq q) m (e # es) fs" and w: "w = fold deliver ds w0"
    and q: "q = q0\<lparr>q_tickq := q_tickq q, q_check_again := q_check_again q\<rparr>" using r unfolding st tick_serving_def split_conv by blast+
  from dispatch_tick_step [OF k, of there deliver w] obtain q' m' where
    s: "dispatch_tick (snd_seq_dispatch_event there deliver) st = Some (q', m', fold deliver (sent there e) w)"
    "queued dat rest True (q_tickq q') (q_timeq q') m' (handled there e es) fs" and q': "q' = q\<lparr>q_tickq := q_tickq q', q_check_again := q_check_again q'\<rparr>"
    unfolding st by blast
  have "tick_serving deliver dat rest q0 w0 fs (q', m', fold deliver (sent there e) w) (handled there e es) (ds @ sent there e)"
    unfolding tick_serving_def split_conv w using s(2) same_queue_trans(1) [OF q' q] by simp
  then show "\<exists>st'. dispatch_tick (snd_seq_dispatch_event there deliver) st = Some st' \<and>
      tick_serving deliver dat rest q0 w0 fs st' (handled there e es) (ds @ sent there e)"
    using s(1) by blast
qed (rule tick_loop.simps)

interpretation rl: due_loop "time_loop (snd_seq_dispatch_event there deliver)" time_due "dispatch_time (snd_seq_dispatch_event there deliver)"
  "time_serving deliver dat rest q0 w0 fs" "time_reached q0" there for there deliver dat rest q0 w0 fs
proof
  fix st es ds
  assume r: "time_serving deliver dat rest q0 w0 fs st es ds"
  obtain q m w where st: "st = (q, m, w)" by (cases st)
  have k: "queued dat rest False (q_timeq q) (q_tickq q) m es fs" using r unfolding st time_serving_def split_conv by blast
  have "q_timer q = q_timer q0" using r same_clock(2) unfolding st time_serving_def split_conv by blast
  then show "time_due st \<longleftrightarrow> es \<noteq> [] \<and> time_reached q0 (hd es)"
    using queued_peek [OF k] by (auto simp: st time_due_def time_reached_def Let_def snd_seq_prioq_cell_peek_def)
next
  fix st e es ds
  assume r: "time_serving deliver dat rest q0 w0 fs st (e # es) ds"
  obtain q m w where st: "st = (q, m, w)" by (cases st)
  have k: "queued dat rest False (q_timeq q) (q_tickq q) m (e # es) fs" and w: "w = fold deliver ds w0"
    and q: "q = q0\<lparr>q_timeq := q_timeq q, q_check_again := q_check_again q\<rparr>" using r unfolding st time_serving_def split_conv by blast+
  from dispatch_time_step [OF k, of there deliver w] obtain q' m' where
    s: "dispatch_time (snd_seq_dispatch_event there deliver) st = Some (q', m', fold deliver (sent there e) w)"
    "queued dat rest False (q_timeq q') (q_tickq q') m' (handled there e es) fs" and q': "q' = q\<lparr>q_timeq := q_timeq q', q_check_again := q_check_again q'\<rparr>"
    unfolding st by blast
  have "time_serving deliver dat rest q0 w0 fs (q', m', fold deliver (sent there e) w) (handled there e es) (ds @ sent there e)"
    unfolding time_serving_def split_conv w using s(2) same_queue_trans(2) [OF q' q] by simp
  then show "\<exists>st'. dispatch_time (snd_seq_dispatch_event there deliver) st = Some st' \<and>
      time_serving deliver dat rest q0 w0 fs st' (handled there e es) (ds @ sent there e)"
    using s(1) by blast
qed (rule time_loop.simps)

section \<open>A check of the queue\<close>

definition restate :: "snd_seq_queue \<Rightarrow> snd_seq_prioq \<Rightarrow> snd_seq_prioq \<Rightarrow> bool \<Rightarrow> snd_seq_queue" where
  "restate q f g again = q\<lparr>q_tickq := f, q_timeq := g, q_check_again := again\<rparr>"

lemma restate_simps [simp]: "q_tickq (restate q f g b) = f" "q_timeq (restate q f g b) = g" "q_timer (restate q f g b) = q_timer q"
  "q_check_again (restate q f g b) = b" "restate (restate q f g b) f' g' b' = restate q f' g' b'"
  "tick_reached (restate q f g b) = tick_reached q" "time_reached (restate q f g b) = time_reached q"
  "(restate q f g b)\<lparr>q_check_again := c\<rparr> = restate q f g c"
  by (simp_all add: restate_def tick_reached_def time_reached_def fun_eq_iff)

text \<open>One pass over both queues.\<close>

lemma tick_loop_serves:
  assumes "queued dat rest True (q_tickq q) (q_timeq q) m ts rs"
  shows "\<exists>f m' b. tick_loop (snd_seq_dispatch_event there deliver) (q, m, w) =
      Some (restate q f (q_timeq q) b, m', fold deliver (fst (serve (tick_reached q) there ts)) w) \<and>
    queued dat rest True f (q_timeq q) m' (snd (serve (tick_reached q) there ts)) rs"
proof -
  have "tick_serving deliver dat rest q w rs (q, m, w) ts []" using assms by (simp add: tick_serving_def)
  from tl.loop_serves [OF this, of there] obtain q' m' w' where
    l: "tick_loop (snd_seq_dispatch_event there deliver) (q, m, w) = Some (q', m', w')"
    "tick_serving deliver dat rest q w rs (q', m', w') (snd (serve (tick_reached q) there ts)) (fst (serve (tick_reached q) there ts))" by auto
  have s: "queued dat rest True (q_tickq q') (q_timeq q') m' (snd (serve (tick_reached q) there ts)) rs"
    "w' = fold deliver (fst (serve (tick_reached q) there ts)) w" and q': "q' = q\<lparr>q_tickq := q_tickq q', q_check_again := q_check_again q'\<rparr>"
    using l(2) unfolding tick_serving_def split_conv by blast+
  have "q' = restate q (q_tickq q') (q_timeq q) (q_check_again q')" using q' by (simp add: restate_def)
  then show ?thesis using l(1) s by (metis restate_simps(2))
qed

lemma time_loop_serves:
  assumes "queued dat rest True (q_tickq q) (q_timeq q) m ts rs"
  shows "\<exists>g m' b. time_loop (snd_seq_dispatch_event there deliver) (q, m, w) =
      Some (restate q (q_tickq q) g b, m', fold deliver (fst (serve (time_reached q) there rs)) w) \<and>
    queued dat rest True (q_tickq q) g m' ts (snd (serve (time_reached q) there rs))"
proof -
  have "time_serving deliver dat rest q w ts (q, m, w) rs []" using queued_swap [OF assms] by (simp add: time_serving_def)
  from rl.loop_serves [OF this, of there] obtain q' m' w' where
    l: "time_loop (snd_seq_dispatch_event there deliver) (q, m, w) = Some (q', m', w')"
    "time_serving deliver dat rest q w ts (q', m', w') (snd (serve (time_reached q) there rs)) (fst (serve (time_reached q) there rs))" by auto
  have s: "queued dat rest False (q_timeq q') (q_tickq q') m' (snd (serve (time_reached q) there rs)) ts"
    "w' = fold deliver (fst (serve (time_reached q) there rs)) w" and q': "q' = q\<lparr>q_timeq := q_timeq q', q_check_again := q_check_again q'\<rparr>"
    using l(2) unfolding time_serving_def split_conv by blast+
  have "q' = restate q (q_tickq q) (q_timeq q') (q_check_again q')" using q' by (simp add: restate_def)
  then show ?thesis using l(1) s queued_swap [OF s(1)] by (metis (full_types) restate_simps(1))
qed

lemma pass_serves:
  assumes "queued dat rest True (q_tickq q) (q_timeq q) m ts rs"
  shows "\<exists>f g m' b. check_loop (snd_seq_dispatch_event there deliver) (q, m, w) =
      (let q' = restate q f g b; w' = fold deliver (fst (serve (tick_reached q) there ts) @ fst (serve (time_reached q) there rs)) w in
       if b then check_loop (snd_seq_dispatch_event there deliver) (restate q f g False, m', w') else Some (q'\<lparr>q_check_blocked := False\<rparr>, m', w')) \<and>
    queued dat rest True f g m' (snd (serve (tick_reached q) there ts)) (snd (serve (time_reached q) there rs))"
proof -
  obtain f m1 b1 where t: "tick_loop (snd_seq_dispatch_event there deliver) (q, m, w) =
      Some (restate q f (q_timeq q) b1, m1, fold deliver (fst (serve (tick_reached q) there ts)) w)"
    "queued dat rest True f (q_timeq q) m1 (snd (serve (tick_reached q) there ts)) rs" using tick_loop_serves [OF assms, of there deliver w] by blast
  let ?q1 = "restate q f (q_timeq q) b1" and ?w1 = "fold deliver (fst (serve (tick_reached q) there ts)) w"
  obtain g m2 b2 where u: "time_loop (snd_seq_dispatch_event there deliver) (?q1, m1, ?w1) =
      Some (restate ?q1 f g b2, m2, fold deliver (fst (serve (time_reached q) there rs)) ?w1)"
    "queued dat rest True f g m2 (snd (serve (tick_reached q) there ts)) (snd (serve (time_reached q) there rs))"
    using time_loop_serves [of dat rest ?q1 m1 "snd (serve (tick_reached q) there ts)" rs there deliver ?w1] t(2) by auto
  have "check_loop (snd_seq_dispatch_event there deliver) (q, m, w) =
      (let q' = restate q f g b2; w' = fold deliver (fst (serve (tick_reached q) there ts) @ fst (serve (time_reached q) there rs)) w in
       if b2 then check_loop (snd_seq_dispatch_event there deliver) (restate q f g False, m2, w') else Some (q'\<lparr>q_check_blocked := False\<rparr>, m2, w'))"
    using t(1) u(1) by (subst check_loop.simps) (simp add: Let_def)
  then show ?thesis using u(2) by blast
qed

text \<open>A pass with nothing due changes nothing.\<close>

lemma check_loop_idle:
  assumes q: "queued dat rest True (q_tickq q) (q_timeq q) m ts rs" and "\<not> q_check_again q"
    and "ts = [] \<or> \<not> tick_reached q (hd ts)" "rs = [] \<or> \<not> time_reached q (hd rs)"
  shows "check_loop dispatch (q, m, w) = Some (q\<lparr>q_check_blocked := False\<rparr>, m, w)"
proof -
  have "\<not> tick_due (q, m, w)"
    using assms(3) queued_peek [OF q] by (auto simp: tick_due_def tick_reached_def Let_def snd_seq_prioq_cell_peek_def)
  moreover have "\<not> time_due (q, m, w)"
    using assms(4) queued_peek [OF queued_swap [OF q]] by (auto simp: time_due_def time_reached_def Let_def snd_seq_prioq_cell_peek_def)
  ultimately have "tick_loop dispatch (q, m, w) = Some (q, m, w)" "time_loop dispatch (q, m, w) = Some (q, m, w)"
    by (subst tick_loop.simps time_loop.simps; simp)+
  then show ?thesis using assms(2) by (subst check_loop.simps) simp
qed

lemma check_queue_serves:
  assumes q: "queued dat rest True (q_tickq q) (q_timeq q) m ts rs" and b: "\<not> q_check_blocked q" and a: "\<not> q_check_again q"
  shows "\<exists>f g m'. snd_seq_check_queue (snd_seq_dispatch_event there deliver) (q, m, w) =
      Some (q\<lparr>q_tickq := f, q_timeq := g\<rparr>, m', fold deliver (fst (serve (tick_reached q) there ts) @ fst (serve (time_reached q) there rs)) w) \<and>
    queued dat rest True f g m' (snd (serve (tick_reached q) there ts)) (snd (serve (time_reached q) there rs))"
proof -
  let ?q = "q\<lparr>q_check_blocked := True\<rparr>" and ?D = "snd_seq_dispatch_event there deliver"
  let ?T = "serve (tick_reached q) there ts" and ?R = "serve (time_reached q) there rs"
  have re: "tick_reached ?q = tick_reached q" "time_reached ?q = time_reached q" by (simp_all add: tick_reached_def time_reached_def fun_eq_iff)
  have q1: "queued dat rest True (q_tickq ?q) (q_timeq ?q) m ts rs" using q by simp
  obtain f g m' b where p: "check_loop ?D (?q, m, w) =
      (let q' = restate ?q f g b; w' = fold deliver (fst ?T @ fst ?R) w in
       if b then check_loop ?D (restate ?q f g False, m', w') else Some (q'\<lparr>q_check_blocked := False\<rparr>, m', w'))"
    "queued dat rest True f g m' (snd ?T) (snd ?R)" using pass_serves [OF q1, of there deliver w] unfolding re by blast
  have idle: "snd ?T = [] \<or> \<not> tick_reached q (hd (snd ?T))" "snd ?R = [] \<or> \<not> time_reached q (hd (snd ?R))"
    using serve_rest [of "tick_reached q" there ts] serve_rest [of "time_reached q" there rs] by (metis prod.collapse)+
  have fin: "(restate ?q f g False)\<lparr>q_check_blocked := False\<rparr> = q\<lparr>q_tickq := f, q_timeq := g\<rparr>" for f g
    using a b by (simp add: restate_def)
  show ?thesis
  proof (cases b)
    case False
    then show ?thesis using p a b fin [of f g] by (auto simp: snd_seq_check_queue_def Let_def)
  next
    case True
    let ?q2 = "restate ?q f g False" and ?w2 = "fold deliver (fst ?T @ fst ?R) w"
    have q2: "queued dat rest True (q_tickq ?q2) (q_timeq ?q2) m' (snd ?T) (snd ?R)" using p(2) by simp
    have "check_loop ?D (?q2, m', ?w2) = Some (q\<lparr>q_tickq := f, q_timeq := g\<rparr>, m', ?w2)"
      using check_loop_idle [OF q2] idle by (simp add: fin re)
    then show ?thesis using True p b by (auto simp: snd_seq_check_queue_def Let_def)
  qed
qed

definition long_note :: snd_seq_event where
  "long_note = (ticked 128 20)\<lparr>ev_type := EV_NOTE, ev_data := [0, 60, 100, 64, 5, 0, 0, 0, 0, 0, 0, 0]\<rparr>"

definition noted :: seq_mem where
  "noted = two_queued\<lparr>sm_cells := set_event 1 long_note three_events\<rparr>"

definition sounding :: snd_seq_queue where
  "sounding = \<lparr>q_queue = 0, q_name = [], q_tickq = \<lparr>pq_head = 1, pq_tail = 2, pq_cells = 2\<rparr>, q_timeq = snd_seq_prioq_new,
     q_timer = (snd_seq_timer_new 0)\<lparr>st_tick := \<lparr>tk_cur_tick = 20, tk_resolution = 1, tk_fraction = 0\<rparr>\<rparr>, q_owner = 128, q_locked = False,
     q_klocked = False, q_check_again = False, q_check_blocked = False, q_info_flags = 0, q_clients_bitmap = {128}, q_clients = 1\<rparr>"

lemma noted_queued: "queued (\<lambda>_. []) (\<lambda>_. []) True (q_tickq sounding) (q_timeq sounding) noted [long_note, ticked 129 20] []"
proof -
  have c: "sm_cells noted = set_event 1 long_note three_events" by (simp add: noted_def)
  have d: "length (ev_data long_note) = 12" by (simp add: long_note_def)
  have e: "cell_event (sm_cells noted) 1 = long_note" "cell_event (sm_cells noted) 2 = ticked 129 20"
    unfolding c by (simp_all add: d three_events_simps)
  have k: "event_key long_note = event_key (ticked 129 20)" "is_tick long_note" "is_tick (ticked 129 20)"
    by (simp_all add: event_key_def long_note_def is_tick_def ticked_def)
  have "held (\<lambda>_. []) [1, 2] (\<lambda>_. []) (upd_cells (set_event 1 long_note) two_queued)"
    by (rule held_set_event [OF two_queued_held]) (simp_all add: two_queued_def three_events_simps ticked_def is_variable_def long_note_def)
  then have "held (\<lambda>_. []) ([1, 2] @ []) (\<lambda>_. []) noted" by (simp add: noted_def upd_cells_def two_queued_def)
  moreover have "prioq_rep True (cell_event (sm_cells noted)) (q_tickq sounding, sm_cells noted) [1, 2]"
    using e k by (simp add: prioq_rep_def sounding_def c) (simp add: three_events_def)
  moreover have "prioq_rep (\<not> True) (cell_event (sm_cells noted)) (q_timeq sounding, sm_cells noted) []"
    by (simp add: prioq_rep_def sounding_def snd_seq_prioq_new_def)
  moreover have "plain long_note" "plain (ticked 129 20)"
    by (simp_all add: plain_def long_note_def ticked_def is_reltime_def is_variable_def)
  ultimately show ?thesis unfolding queued_def using e by (intro conjI exI [of _ "[1, 2]"] exI [of _ "[]"]) auto
qed

lemma noted_serve:
  assumes "there 128" "there 129"
  shows "serve (tick_reached sounding) there [long_note, ticked 129 20] = ([note_on long_note, ticked 129 20], [note_off long_note])"
proof -
  have t: "tick_reached sounding long_note" "tick_reached sounding (ticked 129 20)" "\<not> tick_reached sounding (note_off long_note)"
    "ev_type long_note = EV_NOTE" "ev_type (ticked 129 20) \<noteq> EV_NOTE" "there (uint (fst (ev_source long_note)))" "there (uint (fst (ev_source (ticked 129 20))))"
    by (simp_all add: tick_reached_def sounding_def snd_seq_compare_tick_time_def note_off_def end_time_def long_note_def ticked_def set_byte_def
      is_tick_def get32_def Let_def assms)
  have k: "place_event (note_off long_note) [ticked 129 20] = [ticked 129 20, note_off long_note]"
    by (simp add: event_key_def ts_key_def note_off_def end_time_def long_note_def ticked_def set_byte_def is_tick_def get32_def Let_def)
  show ?thesis using t k by (simp add: serve.simps)
qed

text \<open>
  C7: a check of a queue ends, and delivers exactly the events that are due: for either queue what the
  specification on lists delivers, in this order, ticks first; what the specification leaves stays in the
  queues, and their cells and data are all the cells still used. The end of a note that was put back is
  part of this: a note of no length begins and ends in the same check.
\<close>
theorem snd_seq_check_queue_serves:
  assumes q: "queued dat rest True (q_tickq q) (q_timeq q) m ts rs" and b: "\<not> q_check_blocked q" and a: "\<not> q_check_again q"
  shows "\<exists>f g m'. snd_seq_check_queue (snd_seq_dispatch_event there deliver) (q, m, w) =
      Some (q\<lparr>q_tickq := f, q_timeq := g\<rparr>, m', fold deliver (fst (serve (tick_reached q) there ts) @ fst (serve (time_reached q) there rs)) w) \<and>
    queued dat rest True f g m' (snd (serve (tick_reached q) there ts)) (snd (serve (time_reached q) there rs))"
  by (rule check_queue_serves [OF assms])

theorem snd_seq_check_queue_serves_witness:
  "\<exists>f g m'. snd_seq_check_queue (snd_seq_dispatch_event (\<lambda>_. True) (\<lambda>e w. w @ [e])) (sounding, noted, []) =
      Some (sounding\<lparr>q_tickq := f, q_timeq := g\<rparr>, m', [note_on long_note, ticked 129 20]) \<and>
    queued (\<lambda>_. []) (\<lambda>_. []) True f g m' [note_off long_note] []"
  using snd_seq_check_queue_serves [OF noted_queued, of "\<lambda>_. True" "\<lambda>e w. w @ [e]" "[]"] noted_serve [of "\<lambda>_. True"]
  by (simp add: sounding_def serve.simps)

end
