(* ===== verification/Seq_Registry.thy ===== *)
theory Seq_Registry
  imports Seq_Queue
begin

text \<open>
  The queues as a whole: the steps clients can take, what the list of queues keeps through all of them, and
  what the lock of a queue protects.
\<close>

section \<open>Well-formed lists of queues\<close>

definition queue_ok :: "nat \<Rightarrow> snd_seq_queue \<Rightarrow> bool" where
  "queue_ok i q \<longleftrightarrow> q_queue q = int i \<and> finite (q_clients_bitmap q) \<and> q_clients q = int (card (q_clients_bitmap q))"

definition queues_ok :: "seq_queues \<Rightarrow> bool" where
  "queues_ok s \<longleftrightarrow> (\<forall>i q. sq_list s i = Some q \<longrightarrow> i < MAX_QUEUES \<and> queue_ok i q) \<and> sq_num s = int (card (dom (sq_list s)))"

definition no_queues :: seq_queues where
  "no_queues = \<lparr>sq_list = Map.empty, sq_num = 0\<rparr>"

lemma no_queues_ok: "queues_ok no_queues"
  by (simp add: queues_ok_def no_queues_def)

lemma queues_ok_finite: "queues_ok s \<Longrightarrow> finite (dom (sq_list s))"
  by (rule finite_subset [of _ "{..<MAX_QUEUES}"]) (auto simp: queues_ok_def)

lemma queueptr_Some: "queueptr i s = Some q \<longleftrightarrow> 0 \<le> i \<and> i < int MAX_QUEUES \<and> sq_list s (nat i) = Some q"
  by (auto simp: queueptr_def)

lemma queueptr_ok: "queues_ok s \<Longrightarrow> queueptr i s = Some q \<Longrightarrow> queue_ok (nat i) q"
  by (auto simp: queueptr_Some queues_ok_def)

lemma upd_queue_ok: "queues_ok s \<Longrightarrow> queueptr i s = Some q \<Longrightarrow> queue_ok (nat i) q' \<Longrightarrow> queues_ok (upd_queue i q' s)"
  by (auto simp: queueptr_Some queues_ok_def upd_queue_def insert_absorb domI)

section \<open>What a client may do to a queue\<close>

definition same_place :: "snd_seq_queue \<Rightarrow> snd_seq_queue \<Rightarrow> bool" where
  "same_place q q' \<longleftrightarrow> q_queue q' = q_queue q \<and> q_clients_bitmap q' = q_clients_bitmap q \<and> q_clients q' = q_clients q"

definition same_owner :: "snd_seq_queue \<Rightarrow> snd_seq_queue \<Rightarrow> bool" where
  "same_owner q q' \<longleftrightarrow> q_owner q' = q_owner q \<and> q_locked q' = q_locked q"

text \<open>A queue locked by another client than \<open>c\<close> keeps its owner and its lock.\<close>

definition fine :: "int \<Rightarrow> snd_seq_queue \<Rightarrow> snd_seq_queue \<Rightarrow> bool" where
  "fine c q q' \<longleftrightarrow> (\<forall>i. queue_ok i q \<longrightarrow> queue_ok i q') \<and> (q_owner q \<noteq> c \<and> q_locked q \<longrightarrow> same_owner q q')"

definition effect :: "int \<Rightarrow> seq_queues \<Rightarrow> seq_queues \<Rightarrow> bool" where
  "effect c s s' \<longleftrightarrow> (queues_ok s \<longrightarrow> queues_ok s') \<and>
     (\<forall>i q. sq_list s i = Some q \<longrightarrow> q_owner q \<noteq> c \<longrightarrow> q_locked q \<longrightarrow> (\<exists>q'. sq_list s' i = Some q' \<and> same_owner q q'))"

lemma same_place_refl [simp, intro]: "same_place q q" by (simp add: same_place_def)
lemma same_owner_refl [simp, intro]: "same_owner q q" by (simp add: same_owner_def)

lemma same_trans: "same_place p q \<Longrightarrow> same_place q r \<Longrightarrow> same_place p r" "same_owner p q \<Longrightarrow> same_owner q r \<Longrightarrow> same_owner p r"
  by (simp_all add: same_place_def same_owner_def)

lemma same_fine: "same_place q q' \<Longrightarrow> same_owner q q' \<Longrightarrow> fine c q q'"
  by (simp add: fine_def queue_ok_def same_place_def)

lemma fine_refl [simp, intro]: "fine c q q"
  by (rule same_fine) auto

lemma fine_trans: "fine c p q \<Longrightarrow> fine c q r \<Longrightarrow> fine c p r"
  by (auto simp: fine_def same_owner_def)

lemma effect_refl [simp, intro]: "effect c s s"
  by (auto simp: effect_def)

lemma effect_trans: "effect c s s1 \<Longrightarrow> effect c s1 s2 \<Longrightarrow> effect c s s2"
  unfolding effect_def same_owner_def by metis

lemma effect_upd: "queueptr i s = Some q \<Longrightarrow> fine c q q' \<Longrightarrow> effect c s (upd_queue i q' s)"
  using upd_queue_ok [of s i q q'] queueptr_ok [of s i q] unfolding effect_def
  by (auto simp: fine_def upd_queue_def queueptr_Some)

section \<open>The operations\<close>

lemma queue_list_add_effect: "queue_list_add q s = (s', r) \<Longrightarrow> q_clients_bitmap q = {} \<Longrightarrow> q_clients q = 0 \<Longrightarrow> effect c s s'"
proof -
  assume a: "queue_list_add q s = (s', r)" and q: "q_clients_bitmap q = {}" "q_clients q = 0"
  show ?thesis
  proof (cases r)
    case (Some i)
    then have s': "s' = s\<lparr>sq_list := (sq_list s)(i := Some (q\<lparr>q_queue := int i\<rparr>)), sq_num := sq_num s + 1\<rparr>" and i: "i < MAX_QUEUES" "sq_list s i = None"
      using a by (auto simp: queue_list_add_def find_Some_iff split: option.splits)
    have "queues_ok s'" if "queues_ok s"
    proof -
      have "card (insert i (dom (sq_list s))) = Suc (card (dom (sq_list s)))" using queues_ok_finite [OF that] i(2) by (simp add: domIff)
      then show ?thesis using that i q by (auto simp: s' queues_ok_def queue_ok_def)
    qed
    moreover have "sq_list s j = Some p \<Longrightarrow> sq_list s' j = Some p" for j p using i(2) by (auto simp: s')
    ultimately show ?thesis unfolding effect_def by blast
  qed (use a in \<open>auto simp: queue_list_add_def split: option.splits\<close>)
qed

lemma queue_list_remove_effect: "queue_list_remove i c s = (s', r) \<Longrightarrow> effect c s s'"
proof -
  assume a: "queue_list_remove i c s = (s', r)"
  show ?thesis
  proof (cases r)
    case (Some q')
    then obtain q where s': "s' = s\<lparr>sq_list := (sq_list s)(i := None), sq_num := sq_num s - 1\<rparr>" and q: "sq_list s i = Some q" "q_owner q = c"
      using a by (auto simp: queue_list_remove_def split: option.splits if_splits)
    have "queues_ok s'" if "queues_ok s"
    proof -
      have i: "i \<in> dom (sq_list s)" using q by auto
      then have "card (dom (sq_list s)) = Suc (card (dom (sq_list s) - {i}))" using queues_ok_finite [OF that] by (metis card_Suc_Diff1)
      then show ?thesis using that by (auto simp: s' queues_ok_def split: if_splits)
    qed
    then show ?thesis unfolding effect_def using q(1,2) by (auto simp: s')
  qed (use a in \<open>auto simp: queue_list_remove_def split: option.splits if_splits\<close>)
qed

lemma use_queue_fine: "fine c q (fst (use_queue env client use q))"
proof -
  let ?b = "q_clients_bitmap q"
  have "card (?b - {client}) = card ?b - 1" "card ?b > 0" if "finite ?b" "client \<in> ?b" using that by (auto simp: card_gt_0_iff)
  then show ?thesis
    by (auto simp: fine_def queue_ok_def same_owner_def use_queue_def Let_def split: prod.split)
qed

lemma snd_seq_queue_use_effect: "effect c s (fst (snd_seq_queue_use env i client use s))"
  using use_queue_fine by (auto simp: snd_seq_queue_use_def split: option.splits prod.splits intro!: effect_upd) (metis fst_conv)

lemma snd_seq_queue_alloc_effect: "effect c s (fst (snd_seq_queue_alloc env got c locked fl s))"
proof -
  have "effect c s s1" if "queue_list_add (q\<lparr>q_info_flags := fl\<rparr>) s = (s1, r)" "queue_new env got c locked = Some q" for q s1 r
    by (rule queue_list_add_effect [OF that(1)]) (use that(2) in \<open>auto simp: queue_new_def split: if_splits\<close>)
  then show ?thesis using effect_trans [OF _ snd_seq_queue_use_effect]
    by (auto simp: snd_seq_queue_alloc_def split: option.splits prod.splits) (metis fst_conv)
qed

lemma snd_seq_queue_delete_effect: "snd_seq_queue_delete c i s m = Some (s', m', calls, r) \<Longrightarrow> effect c s s'"
  using queue_list_remove_effect by (auto simp: snd_seq_queue_delete_def split: if_splits prod.splits option.splits)

lemma access_fine: "queue_access_lock q c = Some q1 \<Longrightarrow> same_place q1 q2 \<Longrightarrow> fine c q (queue_access_unlock q2)"
  by (auto simp: queue_access_lock_def check_access_def fine_def queue_ok_def same_place_def queue_access_unlock_def split: if_splits)

lemma snd_seq_queue_set_owner_effect: "effect c s (fst (snd_seq_queue_set_owner i c locked s))"
  by (auto simp: snd_seq_queue_set_owner_def same_place_def split: option.splits intro!: effect_upd access_fine)

lemma snd_seq_queue_timer_set_tempo_effect: "effect c s (fst (snd_seq_queue_timer_set_tempo i c info s))"
  by (auto simp: snd_seq_queue_timer_set_tempo_def same_place_def split: option.splits prod.splits intro!: effect_upd access_fine)

lemma timer_fine: "fine c q (q\<lparr>q_timer := t\<rparr>)"
  by (rule same_fine) (auto simp: same_place_def same_owner_def)

lemma snd_seq_queue_timer_open_effect: "effect c s (fst (snd_seq_queue_timer_open env i s))"
  by (auto simp: snd_seq_queue_timer_open_def split: option.splits prod.splits sum.splits intro!: effect_upd timer_fine)

lemma snd_seq_queue_timer_close_effect: "effect c s (fst (snd_seq_queue_timer_close i s))"
  by (auto simp: snd_seq_queue_timer_close_def split: option.splits prod.splits intro!: effect_upd timer_fine)

text \<open>Passes over all queues.\<close>

lemma each_queue_effect:
  assumes "\<And>q m q' m' calls. f q m = Some (q', m', calls) \<Longrightarrow> fine c q q'"
  shows "each_queue f is s m = Some (s', m', calls) \<Longrightarrow> effect c s s'"
proof (induction "is" arbitrary: s m calls)
  case (Cons i "is")
  then show ?case
  proof (cases "queueptr (int i) s")
    case (Some q)
    then obtain q1 m1 c1 c2 where f: "f q m = Some (q1, m1, c1)" "each_queue f is (upd_queue (int i) q1 s) m1 = Some (s', m', c2)"
      using Cons.prems by (auto split: option.splits)
    show ?thesis using effect_trans [OF effect_upd [OF Some assms [OF f(1)]] Cons.IH [OF f(2)]] .
  qed (use Cons in auto)
qed auto

lemma both_prioqs_same: "both_prioqs g q m = Some (q', m') \<Longrightarrow> same_place q q' \<and> same_owner q q' \<and> q_timer q' = q_timer q"
  by (auto simp: both_prioqs_def same_place_def same_owner_def split: option.splits)

lemma snd_seq_queue_client_leave_cells_effect: "snd_seq_queue_client_leave_cells c s m = Some (s', m', calls) \<Longrightarrow> effect c s s'"
  unfolding snd_seq_queue_client_leave_cells_def by (erule each_queue_effect [rotated]) (auto dest: both_prioqs_same intro: same_fine)

lemma snd_seq_queue_remove_cells_effect: "snd_seq_queue_remove_cells c info s m = Some (s', m', calls) \<Longrightarrow> effect c s s'"
  unfolding snd_seq_queue_remove_cells_def
  by (erule each_queue_effect [rotated]) (auto dest: both_prioqs_same intro: same_fine split: if_splits)

lemma delete_owned_effect: "delete_owned c is s m = Some (s', m', calls) \<Longrightarrow> effect c s s'"
proof (induction "is" arbitrary: s m calls)
  case (Cons i "is")
  obtain s1 r where r: "queue_list_remove i c s = (s1, r)" by force
  then obtain m1 c1 where "delete_owned c is s1 m1 = Some (s', m', c1)" using Cons.prems by (auto split: option.splits)
  then show ?case using effect_trans [OF queue_list_remove_effect [OF r]] Cons.IH by blast
qed auto

lemma leave_queue_fine: "leave_queue env c q m = Some (q', m', calls) \<Longrightarrow> fine c q q'"
proof -
  assume l: "leave_queue env c q m = Some (q', m', calls)"
  show ?thesis
  proof (cases "c \<in> q_clients_bitmap q")
    case True
    then obtain q1 m1 where b: "both_prioqs (snd_seq_prioq_leave c False) q m = Some (q1, m1)" using l by (auto simp: leave_queue_def)
    then have "q' = fst (use_queue env c False q1)" using l True by (cases "use_queue env c False q1") (simp add: leave_queue_def)
    then show ?thesis using fine_trans [OF same_fine use_queue_fine] both_prioqs_same [OF b(1)] by blast
  qed (use l in \<open>auto simp: leave_queue_def\<close>)
qed

lemma snd_seq_queue_client_leave_effect: "snd_seq_queue_client_leave env c s m = Some (s', m', calls) \<Longrightarrow> effect c s s'"
  using effect_trans [OF delete_owned_effect each_queue_effect [OF leave_queue_fine]]
  by (auto simp: snd_seq_queue_client_leave_def split: option.splits)

lemma snd_seq_queue_client_termination_effect: "effect c s (fst (snd_seq_queue_client_termination c s))"
proof -
  have t: "fine c q (fst (terminate_queue c q))" for q
    by (auto simp: terminate_queue_def fine_def queue_ok_def split: prod.splits)
  have "effect c s0 (fst (fold (\<lambda>i (s, calls). case queueptr (int i) s of None \<Rightarrow> (s, calls)
       | Some q \<Rightarrow> (case terminate_queue c q of (q', c') \<Rightarrow> (upd_queue (int i) q' s, calls @ c'))) is (s0, calls)))" for "is" s0 calls
  proof (induction "is" arbitrary: s0 calls)
    case (Cons i "is")
    show ?case
    proof (cases "queueptr (int i) s0")
      case (Some q)
      obtain q' c' where q': "terminate_queue c q = (q', c')" by force
      then have "fine c q q'" using t [of q] by simp
      then show ?thesis using Some q' effect_trans [OF effect_upd [OF Some] Cons.IH] by simp
    qed (use Cons.IH in simp)
  qed simp
  then show ?thesis unfolding snd_seq_queue_client_termination_def .
qed

lemma set_timer_same: "same_place q (set_timer t q) \<and> same_owner q (set_timer t q)"
  by (simp add: set_timer_def same_place_def same_owner_def)

lemma snd_seq_queue_process_event_same:
  "snd_seq_queue_process_event now ev q m = Some ((q', calls, evs), m') \<Longrightarrow> same_place q q'"
  using both_prioqs_same [of _ q m] set_timer_same same_trans(1)
  by (auto simp: snd_seq_queue_process_event_def Let_def after_set_def split: if_splits option.splits prod.splits) blast+

lemma snd_seq_control_queue_effect:
  "snd_seq_control_queue now ev s m = Some ((s', calls, evs), m', r) \<Longrightarrow> effect (uint (fst (ev_source ev))) s s'"
  by (auto simp: snd_seq_control_queue_def Let_def split: option.splits intro!: effect_upd access_fine dest: snd_seq_queue_process_event_same)

text \<open>The delivery of events leaves the place, the users and the owner of a queue alone.\<close>

definition same_head :: "'w queue_state \<Rightarrow> 'w queue_state \<Rightarrow> bool" where
  "same_head st st' \<longleftrightarrow> same_place (fst st) (fst st') \<and> same_owner (fst st) (fst st')"

lemma same_head_refl [simp, intro]: "same_head st st" by (simp add: same_head_def)

lemma same_head_trans: "same_head a b \<Longrightarrow> same_head b c \<Longrightarrow> same_head a c"
  using same_trans by (auto simp: same_head_def)

lemma enqueue_cell_same: "enqueue_cell c (q, m) = ((q', m'), r) \<Longrightarrow> same_place q q' \<and> same_owner q q'"
  by (auto simp: enqueue_cell_def Let_def same_place_def same_owner_def split: if_splits sum.splits)

lemma snd_seq_dispatch_event_same: "snd_seq_dispatch_event there deliver c st = Some st' \<Longrightarrow> same_head st st'"
proof -
  have "same_place q q' \<and> same_owner q q'" if "requeue c (q, m) = Some (q', m')" for q m q' m'
  proof -
    obtain q1 m1 r where e: "enqueue_cell c (q, m) = ((q1, m1), r)" by (cases "enqueue_cell c (q, m)") auto
    have "q' = q1 \<or> q' = q1\<lparr>q_check_again := True\<rparr>" using that e by (cases r) (auto simp: requeue_def)
    then show ?thesis using enqueue_cell_same [OF e] unfolding same_place_def same_owner_def by (elim disjE) simp_all
  qed
  then show "snd_seq_dispatch_event there deliver c st = Some st' \<Longrightarrow> same_head st st'"
    by (cases st) (fastforce simp: snd_seq_dispatch_event_def same_head_def Let_def split: if_splits)
qed

lemma dispatch_tick_same: "dispatch_tick (snd_seq_dispatch_event there deliver) st = Some st' \<Longrightarrow> same_head st st'"
  and dispatch_time_same: "dispatch_time (snd_seq_dispatch_event there deliver) st = Some st' \<Longrightarrow> same_head st st'"
  by (auto simp: dispatch_tick_def dispatch_time_def same_head_def same_place_def same_owner_def
    split: prod.splits option.splits dest!: snd_seq_dispatch_event_same)

lemma tick_loop_same:
  assumes "tick_loop (snd_seq_dispatch_event there deliver) st = Some st'"
  shows "same_head st st'"
proof -
  have "d = snd_seq_dispatch_event there deliver \<longrightarrow> same_head st st'" if "tick_loop d st = Some st'" for d
  proof (rule tick_loop.raw_induct [where P = "\<lambda>d st st'. d = snd_seq_dispatch_event there deliver \<longrightarrow> same_head st st'", OF _ that], rule impI)
    fix f and d :: "'a dispatcher" and st st' :: "'a queue_state"
    assume IH: "\<And>d st st'. f d st = Some st' \<Longrightarrow> d = snd_seq_dispatch_event there deliver \<longrightarrow> same_head st st'"
      and step: "(if tick_due st then (case dispatch_tick d st of None \<Rightarrow> None | Some st1 \<Rightarrow> f d st1) else Some st) = Some st'"
      and d: "d = snd_seq_dispatch_event there deliver"
    show "same_head st st'"
    proof (cases "tick_due st")
      case True
      then obtain st1 where s: "dispatch_tick d st = Some st1" "f d st1 = Some st'" using step by (auto split: option.splits)
      show ?thesis using same_head_trans [OF dispatch_tick_same [OF s(1) [unfolded d]]] IH [OF s(2)] d by blast
    qed (use step in auto)
  qed
  then show ?thesis using assms by blast
qed

lemma time_loop_same:
  assumes "time_loop (snd_seq_dispatch_event there deliver) st = Some st'"
  shows "same_head st st'"
proof -
  have "d = snd_seq_dispatch_event there deliver \<longrightarrow> same_head st st'" if "time_loop d st = Some st'" for d
  proof (rule time_loop.raw_induct [where P = "\<lambda>d st st'. d = snd_seq_dispatch_event there deliver \<longrightarrow> same_head st st'", OF _ that], rule impI)
    fix f and d :: "'a dispatcher" and st st' :: "'a queue_state"
    assume IH: "\<And>d st st'. f d st = Some st' \<Longrightarrow> d = snd_seq_dispatch_event there deliver \<longrightarrow> same_head st st'"
      and step: "(if time_due st then (case dispatch_time d st of None \<Rightarrow> None | Some st1 \<Rightarrow> f d st1) else Some st) = Some st'"
      and d: "d = snd_seq_dispatch_event there deliver"
    show "same_head st st'"
    proof (cases "time_due st")
      case True
      then obtain st1 where s: "dispatch_time d st = Some st1" "f d st1 = Some st'" using step by (auto split: option.splits)
      show ?thesis using same_head_trans [OF dispatch_time_same [OF s(1) [unfolded d]]] IH [OF s(2)] d by blast
    qed (use step in auto)
  qed
  then show ?thesis using assms by blast
qed

lemma same_head_flags:
  "same_head (q, m, w) (q\<lparr>q_check_again := b\<rparr>, m, w)" "same_head (q, m, w) (q\<lparr>q_check_blocked := b\<rparr>, m, w)"
  by (simp_all add: same_head_def same_place_def same_owner_def)

lemma check_loop_same:
  assumes "check_loop (snd_seq_dispatch_event there deliver) st = Some st'"
  shows "same_head st st'"
proof -
  have "d = snd_seq_dispatch_event there deliver \<longrightarrow> same_head st st'" if "check_loop d st = Some st'" for d
  proof (rule check_loop.raw_induct [where P = "\<lambda>d st st'. d = snd_seq_dispatch_event there deliver \<longrightarrow> same_head st st'", OF _ that], rule impI)
    fix f and d :: "'a dispatcher" and st st' :: "'a queue_state"
    assume IH: "\<And>d st st'. f d st = Some st' \<Longrightarrow> d = snd_seq_dispatch_event there deliver \<longrightarrow> same_head st st'"
      and step: "(case tick_loop d st of None \<Rightarrow> None
        | Some st1 \<Rightarrow> (case time_loop d st1 of None \<Rightarrow> None
          | Some (q, m, w) \<Rightarrow> if q_check_again q then f d (q\<lparr>q_check_again := False\<rparr>, m, w) else Some (q\<lparr>q_check_blocked := False\<rparr>, m, w))) = Some st'"
      and d: "d = snd_seq_dispatch_event there deliver"
    obtain st1 q m w where l: "tick_loop d st = Some st1" "time_loop d st1 = Some (q, m, w)" using step by (auto split: option.splits)
    have h: "same_head st (q, m, w)" by (rule same_head_trans [OF tick_loop_same [OF l(1) [unfolded d]] time_loop_same [OF l(2) [unfolded d]]])
    show "same_head st st'"
    proof (cases "q_check_again q")
      case True
      then have "f d (q\<lparr>q_check_again := False\<rparr>, m, w) = Some st'" using step l by simp
      then show ?thesis using same_head_trans [OF h same_head_trans [OF same_head_flags(1)]] IH d by blast
    next
      case False
      then have "st' = (q\<lparr>q_check_blocked := False\<rparr>, m, w)" using step l by simp
      then show ?thesis using same_head_trans [OF h same_head_flags(2)] by simp
    qed
  qed
  then show ?thesis using assms by blast
qed

lemma snd_seq_check_queue_same:
  assumes "snd_seq_check_queue (snd_seq_dispatch_event there deliver) (q, m, w) = Some st'"
  shows "same_head (q, m, w) st'"
proof (cases "q_check_blocked q")
  case True
  then have "st' = (q\<lparr>q_check_again := True\<rparr>, m, w)" using assms by (simp add: snd_seq_check_queue_def)
  then show ?thesis using same_head_flags(1) by simp
next
  case False
  then have "check_loop (snd_seq_dispatch_event there deliver) (q\<lparr>q_check_blocked := True\<rparr>, m, w) = Some st'"
    using assms by (simp add: snd_seq_check_queue_def)
  then show ?thesis by (rule same_head_trans [OF same_head_flags(2) check_loop_same])
qed

lemma snd_seq_check_queue_fine: "snd_seq_check_queue (snd_seq_dispatch_event there deliver) (q, m, w) = Some (q', m', w') \<Longrightarrow> fine c q q'"
  using snd_seq_check_queue_same [of there deliver q m w "(q', m', w')"] by (simp add: same_head_def same_fine)

lemma snd_seq_enqueue_event_effect:
  assumes e: "snd_seq_enqueue_event (snd_seq_dispatch_event there deliver) cell (s, m, w) = Some ((s', m', w'), r)"
  shows "effect c s s'"
proof (cases "queueptr (uint (ev_queue (cell_event (sm_cells m) cell))) s")
  case None
  then show ?thesis using e by (simp add: snd_seq_enqueue_event_def Let_def)
next
  case (Some q)
  obtain q1 m1 r1 where k: "enqueue_cell cell (q, m) = ((q1, m1), r1)" by (cases "enqueue_cell cell (q, m)") auto
  have f: "fine c q q1" using enqueue_cell_same [OF k] by (simp add: same_fine)
  show ?thesis
  proof (cases r1)
    case (Inl x)
    then show ?thesis using e Some k effect_upd [OF Some f] by (simp add: snd_seq_enqueue_event_def Let_def)
  next
    case (Inr x)
    then obtain q2 m2 w2 where c: "snd_seq_check_queue (snd_seq_dispatch_event there deliver) (q1, m1, w) = Some (q2, m2, w2)"
      using e Some k by (cases "snd_seq_check_queue (snd_seq_dispatch_event there deliver) (q1, m1, w)") (auto simp: snd_seq_enqueue_event_def Let_def)
    then have "s' = upd_queue (uint (ev_queue (cell_event (sm_cells m) cell))) q2 s"
      using e Some k Inr by (simp add: snd_seq_enqueue_event_def Let_def)
    then show ?thesis using effect_upd [OF Some fine_trans [OF f snd_seq_check_queue_fine [OF c]]] by simp
  qed
qed

lemma queue_interrupt_fine:
  assumes "queue_interrupt (snd_seq_dispatch_event there deliver) now r n (q, m, w) = Some (q', m', w')"
  shows "fine c q q'"
proof (cases "st_running (q_timer q)")
  case True
  then have "snd_seq_check_queue (snd_seq_dispatch_event there deliver)
      (q\<lparr>q_timer := snd_seq_timer_interrupt now r n (q_timer q)\<rparr>, m, w) = Some (q', m', w')" using assms by (simp add: queue_interrupt_def)
  then show ?thesis by (rule fine_trans [OF timer_fine snd_seq_check_queue_fine])
qed (use assms in \<open>simp add: queue_interrupt_def\<close>)

section \<open>Steps\<close>

text \<open>
  What client \<open>c\<close> can do to the queues, and the interrupts of their clocks. The timer of a queue is opened
  and closed by the clients with access to it.
\<close>

inductive queue_step :: "(int \<Rightarrow> bool) \<Rightarrow> (snd_seq_event \<Rightarrow> 'w \<Rightarrow> 'w) \<Rightarrow> int \<Rightarrow> seq_queues \<Rightarrow> seq_queues \<Rightarrow> bool"
  for there deliver c where
  "queue_step there deliver c s (fst (snd_seq_queue_alloc env got c locked fl s))"
| "snd_seq_queue_delete c i s m = Some (s', m', calls, r) \<Longrightarrow> queue_step there deliver c s s'"
| "queue_step there deliver c s (fst (snd_seq_queue_use env i c use s))"
| "queue_step there deliver c s (fst (snd_seq_queue_set_owner i c locked s))"
| "queue_step there deliver c s (fst (snd_seq_queue_timer_set_tempo i c info s))"
| "snd_seq_queue_check_access i c s \<Longrightarrow> queue_step there deliver c s (fst (snd_seq_queue_timer_open env i s))"
| "snd_seq_queue_check_access i c s \<Longrightarrow> queue_step there deliver c s (fst (snd_seq_queue_timer_close i s))"
| "uint (fst (ev_source (cell_event (sm_cells m) cell))) = c \<Longrightarrow>
   snd_seq_enqueue_event (snd_seq_dispatch_event there deliver) cell (s, m, w) = Some ((s', m', w'), r) \<Longrightarrow> queue_step there deliver c s s'"
| "queueptr i s = Some q \<Longrightarrow> queue_interrupt (snd_seq_dispatch_event there deliver) now res n (q, m, w) = Some (q', m', w') \<Longrightarrow>
   queue_step there deliver c s (upd_queue i q' s)"
| "snd_seq_queue_remove_cells c info s m = Some (s', m', calls) \<Longrightarrow> queue_step there deliver c s s'"
| "snd_seq_queue_client_leave_cells c s m = Some (s', m', calls) \<Longrightarrow> queue_step there deliver c s s'"
| "uint (fst (ev_source ev)) = c \<Longrightarrow> snd_seq_control_queue now ev s m = Some ((s', calls, evs), m', r) \<Longrightarrow> queue_step there deliver c s s'"
| "queue_step there deliver c s (fst (snd_seq_queue_client_termination c s))"
| "snd_seq_queue_client_leave env c s m = Some (s', m', calls) \<Longrightarrow> queue_step there deliver c s s'"

lemma queue_step_effect: "queue_step there deliver c s s' \<Longrightarrow> effect c s s'"
proof (induction rule: queue_step.induct)
  case (9 i s q now res n m w q' m' w')
  show ?case by (rule effect_upd [OF 9(1) queue_interrupt_fine [OF 9(2)]])
next
  case (12 ev now s m s' calls evs m' r)
  then show ?case using snd_seq_control_queue_effect by blast
qed (auto intro: snd_seq_queue_alloc_effect snd_seq_queue_delete_effect snd_seq_queue_use_effect snd_seq_queue_set_owner_effect
  snd_seq_queue_timer_set_tempo_effect snd_seq_queue_timer_open_effect snd_seq_queue_timer_close_effect snd_seq_enqueue_event_effect
  snd_seq_queue_remove_cells_effect snd_seq_queue_client_leave_cells_effect snd_seq_queue_client_termination_effect
  snd_seq_queue_client_leave_effect)

section \<open>Properties\<close>

text \<open>
  C15: whatever clients and clocks do, in any order: the queues in use are counted, each knows its number, and
  the number of its users is that of the clients in its set of users.
\<close>
theorem seq_queues_stay_consistent:
  assumes "(\<lambda>s s'. \<exists>c. queue_step there deliver c s s')\<^sup>*\<^sup>* no_queues s"
  shows "queues_ok s"
  using assms
proof induction
  case (step s s')
  then show ?case using queue_step_effect unfolding effect_def by blast
qed (rule no_queues_ok)

definition one_timer :: timer_env where
  "one_timer = \<lparr>te_default = 0, te_slave_class = False, te_is_system = True,
     te_asked = Inr \<lparr>td_slave = False, td_resolution = 1000000, td_c_resolution = None\<rparr>, te_system = Inl EINVAL\<rparr>"

definition one_queue :: seq_queues where
  "one_queue = fst (snd_seq_queue_alloc one_timer True 128 True 0 no_queues)"

lemma one_queue_list: "\<exists>q. sq_list one_queue 0 = Some q \<and> q_owner q = 128 \<and> q_locked q \<and> q_clients_bitmap q = {128} \<and> q_clients q = 1"
  by (simp add: one_queue_def snd_seq_queue_alloc_def queue_new_def queue_list_add_def no_queues_def snd_seq_queue_use_def queueptr_def
    upd_queue_def use_queue_def Let_def upt_rec)

theorem seq_queues_stay_consistent_witness: "queues_ok (fst (snd_seq_queue_use one_timer 0 129 True one_queue))"
proof (rule seq_queues_stay_consistent [of "\<lambda>_. True" "\<lambda>e w. w @ [e]"])
  let ?S = "\<lambda>s s'. \<exists>c. queue_step (\<lambda>_. True) (\<lambda>e w. w @ [e]) c s s'"
  have "?S no_queues one_queue" unfolding one_queue_def by (blast intro: queue_step.intros(1))
  moreover have "?S one_queue (fst (snd_seq_queue_use one_timer 0 129 True one_queue))" by (blast intro: queue_step.intros(3))
  ultimately show "?S\<^sup>*\<^sup>* no_queues (fst (snd_seq_queue_use one_timer 0 129 True one_queue))"
    by (rule rtranclp.rtrancl_into_rtrancl [OF r_into_rtranclp])
qed

text \<open>
  C16: a locked queue stays its owner's. Whatever the other clients do, and they may try to delete it, to take
  it over or to unlock it, to change or control its clock, and leave: it is there, with its owner and its lock.
\<close>
theorem seq_queue_lock_protects:
  assumes "(\<lambda>s s'. \<exists>c. c \<noteq> owner \<and> queue_step there deliver c s s')\<^sup>*\<^sup>* s s'"
    and "sq_list s i = Some q" "q_owner q = owner" "q_locked q"
  shows "\<exists>q'. sq_list s' i = Some q' \<and> q_owner q' = owner \<and> q_locked q'"
  using assms(1)
proof induction
  case (step s1 s2)
  then obtain c q1 where "c \<noteq> owner" "queue_step there deliver c s1 s2" "sq_list s1 i = Some q1" "q_owner q1 = owner" "q_locked q1" by blast
  then show ?case using queue_step_effect [of there deliver c s1 s2] unfolding effect_def same_owner_def by metis
qed (use assms in blast)

theorem seq_queue_lock_protects_witness:
  "\<exists>q'. sq_list (fst (snd_seq_queue_set_owner 0 129 False one_queue)) 0 = Some q' \<and> q_owner q' = 128 \<and> q_locked q'"
proof -
  obtain q where q: "sq_list one_queue 0 = Some q" "q_owner q = 128" "q_locked q" using one_queue_list by blast
  let ?S = "\<lambda>s s'. \<exists>c. c \<noteq> 128 \<and> queue_step (\<lambda>_. True) (\<lambda>e w. w @ [e]) c s s'"
  have "queue_step (\<lambda>_. True) (\<lambda>e w. w @ [e]) 129 one_queue (fst (snd_seq_queue_set_owner 0 129 False one_queue))"
    by (rule queue_step.intros(4))
  then have "?S one_queue (fst (snd_seq_queue_set_owner 0 129 False one_queue))" by (intro exI [of _ 129]) simp
  then have "?S\<^sup>*\<^sup>* one_queue (fst (snd_seq_queue_set_owner 0 129 False one_queue))" by (rule r_into_rtranclp)
  from seq_queue_lock_protects [OF this q] show ?thesis .
qed

text \<open>
  whoever has no access to a queue is refused. A client other than the owner of a locked queue gets
  \<open>EPERM\<close> when it wants to take it over, to set its tempo or to control its clock, and it cannot delete the
  queue; nothing is changed by the attempt.
\<close>
theorem seq_queue_access_refused:
  assumes "queueptr i s = Some q" "q_locked q" "c \<noteq> q_owner q"
  shows "snd_seq_queue_set_owner i c locked s = (s, Inl EPERM) \<and>
    snd_seq_queue_timer_set_tempo i c info s = (s, Inl EPERM) \<and>
    (uint (fst (ev_source ev)) = c \<and> uint (ctl_queue ev) = i \<longrightarrow> snd_seq_control_queue now ev s m = Some ((s, [], []), m, Inl EPERM)) \<and>
    snd_seq_queue_delete c i s m = Some (s, m, [], Inl EINVAL)"
proof -
  have l: "\<not> i < 0" "\<not> i \<ge> int MAX_QUEUES" "sq_list s (nat i) = Some q" using assms(1) by (simp_all add: queueptr_Some)
  have n: "queue_access_lock q c = None" using assms(2,3) by (simp add: queue_access_lock_def check_access_def)
  have "snd_seq_queue_delete c i s m = Some (s, m, [], Inl EINVAL)"
    using l assms(3) by (simp add: snd_seq_queue_delete_def queue_list_remove_def)
  moreover have "snd_seq_control_queue now ev s m = Some ((s, [], []), m, Inl EPERM)" if "uint (fst (ev_source ev)) = c" "uint (ctl_queue ev) = i"
    using assms(1) n by (simp add: snd_seq_control_queue_def that Let_def)
  ultimately show ?thesis using assms(1) n by (simp add: snd_seq_queue_set_owner_def snd_seq_queue_timer_set_tempo_def)
qed

theorem seq_queue_access_refused_witness:
  "snd_seq_queue_set_owner 0 129 False one_queue = (one_queue, Inl EPERM) \<and> snd_seq_queue_delete 129 0 one_queue m = Some (one_queue, m, [], Inl EINVAL)"
proof -
  obtain q where q: "sq_list one_queue 0 = Some q" "q_owner q = 128" "q_locked q" using one_queue_list by blast
  then have p: "queueptr 0 one_queue = Some q" "129 \<noteq> q_owner q" by (simp_all add: queueptr_Some)
  show ?thesis using seq_queue_access_refused [OF p(1) q(3) p(2)] by blast
qed

text \<open>
  C38: joining a queue again stops its clock, whoever owns and locks the queue. When a running queue has one user
  and this client asks to use it once more, the clock falls back to the default tempo and counts as stopped; but
  its timer is not told, and stopping the queue afterwards does not stop the timer either.
\<close>
theorem snd_seq_queue_use_resets_clock:
  assumes "queueptr i s = Some q" "q_clients_bitmap q = {c}" "q_clients q = 1" "st_timeri (q_timer q) = Some t" "st_running (q_timer q)"
  shows "\<exists>q'. snd_seq_queue_use env i c True s = (upd_queue i q' s, [], Inr ()) \<and> \<not> st_running (q_timer q') \<and> st_tempo (q_timer q') = 500000 \<and>
    st_ppq (q_timer q') = 96 \<and> st_timeri (q_timer q') = Some t \<and> snd_seq_timer_stop (q_timer q') = (q_timer q', [], Inr ())"
  by (rule exI [of _ "q\<lparr>q_timer := snd_seq_timer_defaults (te_default env) (q_timer q)\<rparr>"])
    (use assms in \<open>simp add: snd_seq_queue_use_def use_queue_def Let_def open_timer_def snd_seq_timer_open_def snd_seq_timer_defaults_def
      snd_seq_timer_set_tick_resolution_def snd_seq_timer_stop_def\<close>)

text \<open>The queue after its owner has set the tempo and started it.\<close>

definition playing_queue :: seq_queues where
  "playing_queue = (case queueptr 0 one_queue of None \<Rightarrow> one_queue
     | Some q \<Rightarrow> upd_queue 0 (q\<lparr>q_timer := fst (snd_seq_timer_start (0, 0) (fst (snd_seq_timer_set_tempo 250000 (q_timer q))))\<rparr>) one_queue)"

lemma playing_queue_list: "\<exists>q t. queueptr 0 playing_queue = Some q \<and> q_clients_bitmap q = {128} \<and> q_clients q = 1 \<and>
    st_timeri (q_timer q) = Some t \<and> st_running (q_timer q) \<and> st_tempo (q_timer q) = 250000"
  by (simp add: playing_queue_def one_queue_def snd_seq_queue_alloc_def queue_new_def queue_list_add_def no_queues_def snd_seq_queue_use_def
    queueptr_def upd_queue_def use_queue_def Let_def upt_rec open_timer_def snd_seq_timer_open_def one_timer_def snd_seq_timer_start_def
    snd_seq_timer_defaults_def snd_seq_timer_set_tick_resolution_def snd_seq_timer_new_def snd_seq_timer_reset_def
    snd_seq_timer_set_tempo_def initialize_timer_def run_timer_def)

theorem snd_seq_queue_use_resets_clock_witness:
  "\<exists>q q' t. queueptr 0 playing_queue = Some q \<and> st_running (q_timer q) \<and> st_tempo (q_timer q) = 250000 \<and>
    snd_seq_queue_use one_timer 0 128 True playing_queue = (upd_queue 0 q' playing_queue, [], Inr ()) \<and> \<not> st_running (q_timer q') \<and>
    st_tempo (q_timer q') = 500000 \<and> st_timeri (q_timer q') = Some t \<and> snd_seq_timer_stop (q_timer q') = (q_timer q', [], Inr ())"
proof -
  obtain q t where q: "queueptr 0 playing_queue = Some q" "q_clients_bitmap q = {128}" "q_clients q = 1" "st_timeri (q_timer q) = Some t"
    "st_running (q_timer q)" "st_tempo (q_timer q) = 250000" using playing_queue_list by blast
  show ?thesis using snd_seq_queue_use_resets_clock [OF q(1-5), of one_timer] q(1,5,6) by blast
qed

end
