(* ===== verification/Seq_Ports.thy ===== *)
theory Seq_Ports
  imports Seq_Fifo
begin

text \<open>
  Ports and subscriptions (\<open>sound/core/seq/seq_ports.c\<close>, with the ioctls for them from \<open>seq_clientmgr.c\<close>). A
  subscription is a node of two lists, that of the subscribers of its source and that of its destination.
  Ports and subscriptions are numbered; a pointer is the number. The callbacks of kernel clients act on a world
  \<open>'w\<close> of their own. The names of ports are left out.
\<close>

section \<open>State\<close>

record snd_seq_port_subscribe =
  pi_sender :: seq_addr
  pi_dest :: seq_addr
  pi_voices :: u32
  pi_flags :: u32
  pi_queue :: u8

text \<open>
  What a kernel client does with an event it gets: it answers, or it first has another event dispatched from one of its ports
  (\<open>snd_seq_kernel_client_dispatch\<close>) and goes on with the result.
\<close>

datatype 'w reaction = Reply 'w "int res" | Dispatch 'w int snd_seq_event "int res \<Rightarrow> 'w \<Rightarrow> 'w reaction"

type_synonym 'w event_callback = "snd_seq_event \<Rightarrow> bool \<Rightarrow> 'w \<Rightarrow> 'w reaction"

type_synonym 'w subs_callback = "snd_seq_port_subscribe \<Rightarrow> 'w \<Rightarrow> 'w \<times> unit res"

record 'w snd_seq_port_subs_info =
  si_list :: "nat list"
  si_count :: int
  si_exclusive :: bool
  si_open :: "'w subs_callback option"
  si_close :: "'w subs_callback option"

text \<open>\<open>po_owner\<close>: whether the module that owns the port can still be used.\<close>

record 'w snd_seq_client_port =
  po_addr :: seq_addr
  po_owner :: bool
  po_c_src :: "'w snd_seq_port_subs_info"
  po_c_dest :: "'w snd_seq_port_subs_info"
  po_private_free :: "('w \<Rightarrow> 'w) option"
  po_event_input :: "'w event_callback option"
  po_callback_all :: bool
  po_closing :: bool
  po_timestamping :: bool
  po_time_real :: bool
  po_time_queue :: int
  po_capability :: u32
  po_type :: u32
  po_midi_channels :: int
  po_midi_voices :: int
  po_synth_voices :: int

record snd_seq_subscribers =
  su_info :: snd_seq_port_subscribe
  su_ref_count :: int

datatype snd_seq_client_type = NO_CLIENT | USER_CLIENT | KERNEL_CLIENT

text \<open>\<open>cl_event_filter\<close>: the types whose bit is set. \<open>cl_pool\<close>: the pool for output. \<open>cl_fifo\<close>: the input of a user client.\<close>

record snd_seq_client =
  cl_type :: snd_seq_client_type
  cl_accept_input :: bool
  cl_accept_output :: bool
  cl_number :: int
  cl_filter :: u32
  cl_event_filter :: "u8 set"
  cl_event_lost :: int
  cl_num_ports :: int
  cl_ports :: "nat list"
  cl_pool :: nat
  cl_fifo :: "snd_seq_fifo option"

abbreviation cl_user :: "snd_seq_client \<Rightarrow> bool" where "cl_user c \<equiv> cl_type c = USER_CLIENT"

text \<open>What the system client is told.\<close>

datatype announcement = Subscription int int snd_seq_port_subscribe u8 | Port_Event int int u8

text \<open>\<open>sp_alive\<close>: the subscriptions in memory.\<close>

record 'w seq_ports =
  sp_client :: "int \<Rightarrow> snd_seq_client option"
  sp_port :: "nat \<Rightarrow> 'w snd_seq_client_port"
  sp_subs :: "nat \<Rightarrow> snd_seq_subscribers"
  sp_alive :: "nat set"
  sp_told :: "announcement list"
  sp_world :: 'w

datatype group_type = SRC_LIST | DEST_LIST

abbreviation PORT_SUBSCRIBED :: u8 where "PORT_SUBSCRIBED \<equiv> 66"
abbreviation PORT_UNSUBSCRIBED :: u8 where "PORT_UNSUBSCRIBED \<equiv> 67"
abbreviation PORT_START :: u8 where "PORT_START \<equiv> 63"
abbreviation PORT_EXIT :: u8 where "PORT_EXIT \<equiv> 64"
abbreviation SUBS_EXCLUSIVE :: nat where "SUBS_EXCLUSIVE \<equiv> 0"
abbreviation FLG_GIVEN_PORT :: nat where "FLG_GIVEN_PORT \<equiv> 0"
abbreviation FLG_TIMESTAMP :: nat where "FLG_TIMESTAMP \<equiv> 1"
abbreviation FLG_TIME_REAL :: nat where "FLG_TIME_REAL \<equiv> 2"
abbreviation PERM_RD :: u32 where "PERM_RD \<equiv> 0x21"
abbreviation PERM_WR :: u32 where "PERM_WR \<equiv> 0x42"
abbreviation CAP_NO_EXPORT :: u32 where "CAP_NO_EXPORT \<equiv> 0x80"
abbreviation ADDRESS_SUBSCRIBERS :: int where "ADDRESS_SUBSCRIBERS \<equiv> 254"
abbreviation MAX_CLIENTS :: int where "MAX_CLIENTS \<equiv> 192"
abbreviation MAX_PORTS :: int where "MAX_PORTS \<equiv> 254"

abbreviation port_no :: "'w snd_seq_client_port \<Rightarrow> int" where "port_no p \<equiv> uint (snd (po_addr p))"

definition grp :: "group_type \<Rightarrow> 'w snd_seq_client_port \<Rightarrow> 'w snd_seq_port_subs_info" where
  "grp g p = (case g of SRC_LIST \<Rightarrow> po_c_src p | DEST_LIST \<Rightarrow> po_c_dest p)"

definition upd_grp :: "group_type \<Rightarrow> ('w snd_seq_port_subs_info \<Rightarrow> 'w snd_seq_port_subs_info) \<Rightarrow> 'w snd_seq_client_port \<Rightarrow> 'w snd_seq_client_port" where
  "upd_grp g f p = (case g of SRC_LIST \<Rightarrow> p\<lparr>po_c_src := f (po_c_src p)\<rparr> | DEST_LIST \<Rightarrow> p\<lparr>po_c_dest := f (po_c_dest p)\<rparr>)"

definition opposite :: "group_type \<Rightarrow> group_type" where
  "opposite g = (case g of SRC_LIST \<Rightarrow> DEST_LIST | DEST_LIST \<Rightarrow> SRC_LIST)"

definition upd_port :: "nat \<Rightarrow> ('w snd_seq_client_port \<Rightarrow> 'w snd_seq_client_port) \<Rightarrow> 'w seq_ports \<Rightarrow> 'w seq_ports" where
  "upd_port p f s = s\<lparr>sp_port := (sp_port s)(p := f (sp_port s p))\<rparr>"

definition upd_client :: "snd_seq_client \<Rightarrow> 'w seq_ports \<Rightarrow> 'w seq_ports" where
  "upd_client c s = s\<lparr>sp_client := (sp_client s)(cl_number c := Some c)\<rparr>"

definition tell :: "announcement \<Rightarrow> 'w seq_ports \<Rightarrow> 'w seq_ports" where
  "tell a s = s\<lparr>sp_told := sp_told s @ [a]\<rparr>"

definition call_back :: "'w subs_callback \<Rightarrow> snd_seq_port_subscribe \<Rightarrow> 'w seq_ports \<Rightarrow> 'w seq_ports \<times> unit res" where
  "call_back f info s = (case f info (sp_world s) of (w, r) \<Rightarrow> (s\<lparr>sp_world := w\<rparr>, r))"

section \<open>Ports\<close>

text \<open>The loading of modules for clients that do not exist is left out.\<close>

definition snd_seq_client_use_ptr :: "int \<Rightarrow> 'w seq_ports \<Rightarrow> snd_seq_client option" where
  "snd_seq_client_use_ptr k s = (if k < 0 \<or> k \<ge> MAX_CLIENTS then None else sp_client s k)"

definition snd_seq_port_use_ptr :: "snd_seq_client \<Rightarrow> int \<Rightarrow> 'w seq_ports \<Rightarrow> nat option" where
  "snd_seq_port_use_ptr c num s =
     (case List.find (\<lambda>p. port_no (sp_port s p) = num) (cl_ports c) of
        None \<Rightarrow> None
      | Some p \<Rightarrow> if po_closing (sp_port s p) then None else Some p)"

fun nearest_port :: "(nat \<Rightarrow> int) \<Rightarrow> int \<Rightarrow> nat option \<Rightarrow> nat list \<Rightarrow> nat option" where
  "nearest_port no num found [] = found"
| "nearest_port no num found (p # ps) =
     (if no p < num then nearest_port no num found ps
      else if no p = num then Some p
      else nearest_port no num (case found of None \<Rightarrow> Some p | Some q \<Rightarrow> if no p < no q then Some p else Some q) ps)"

definition snd_seq_port_query_nearest :: "snd_seq_client \<Rightarrow> int \<Rightarrow> 'w seq_ports \<Rightarrow> nat option" where
  "snd_seq_port_query_nearest c num s =
     (case nearest_port (\<lambda>p. port_no (sp_port s p)) num None (cl_ports c) of
        None \<Rightarrow> None
      | Some p \<Rightarrow> if po_closing (sp_port s p) then None else Some p)"

definition port_subs_info_init :: "'w snd_seq_port_subs_info" where
  "port_subs_info_init = \<lparr>si_list = [], si_count = 0, si_exclusive = False, si_open = None, si_close = None\<rparr>"

text \<open>The list of ports is sorted; the number is the one given, or the first that is free.\<close>

fun insert_port :: "(nat \<Rightarrow> int) \<Rightarrow> bool \<Rightarrow> int \<Rightarrow> nat \<Rightarrow> nat list \<Rightarrow> nat list \<times> int" where
  "insert_port no auto num new [] = ([new], num)"
| "insert_port no auto num new (p # ps) =
     (if no p > num then (new # p # ps, num)
      else (case insert_port no auto (if auto then no p + 1 else num) new ps of (ps', n) \<Rightarrow> (p # ps', n)))"

text \<open>\<open>fresh\<close> is the number of the port that is allocated, \<open>None\<close> when there is no memory.\<close>

definition snd_seq_create_port :: "snd_seq_client \<Rightarrow> int \<Rightarrow> nat option \<Rightarrow> 'w seq_ports \<Rightarrow> 'w seq_ports \<times> nat option" where
  "snd_seq_create_port c port fresh s =
     (if cl_num_ports c \<ge> MAX_PORTS - 1 then (s, None)
      else case fresh of
        None \<Rightarrow> (s, None)
      | Some new \<Rightarrow>
          (case insert_port (\<lambda>p. port_no (sp_port s p)) (port < 0) (if port \<ge> 0 then port else 0) new (cl_ports c) of
             (ports, num) \<Rightarrow>
               ((upd_client (c\<lparr>cl_ports := ports, cl_num_ports := cl_num_ports c + 1\<rparr>) s)
                  \<lparr>sp_port := (sp_port s)(new := \<lparr>po_addr = (of_int (cl_number c), of_int num), po_owner = True, po_c_src = port_subs_info_init,
                     po_c_dest = port_subs_info_init, po_private_free = None, po_event_input = None, po_callback_all = False, po_closing = False,
                     po_timestamping = False, po_time_real = False, po_time_queue = 0, po_capability = 0, po_type = 0, po_midi_channels = 0,
                     po_midi_voices = 0, po_synth_voices = 0\<rparr>)\<rparr>, Some new)))"

section \<open>Subscribing\<close>

definition subscribe_port :: "snd_seq_client \<Rightarrow> nat \<Rightarrow> group_type \<Rightarrow> snd_seq_port_subscribe \<Rightarrow> bool \<Rightarrow> 'w seq_ports \<Rightarrow> 'w seq_ports \<times> unit res" where
  "subscribe_port c p g info send_ack s =
     (if \<not> po_owner (sp_port s p) then (s, Inl EFAULT)
      else let s1 = upd_port p (upd_grp g (\<lambda>i. i\<lparr>si_count := si_count i + 1\<rparr>)) s;
               i = grp g (sp_port s1 p)
        in case (case si_open i of
                   None \<Rightarrow> (s1, Inr ())
                 | Some f \<Rightarrow> if po_callback_all (sp_port s1 p) \<or> si_count i = 1 then call_back f info s1 else (s1, Inr ())) of
             (s2, Inl e) \<Rightarrow> (upd_port p (upd_grp g (\<lambda>i. i\<lparr>si_count := si_count i - 1\<rparr>)) s2, Inl e)
           | (s2, Inr _) \<Rightarrow>
               (if send_ack \<and> cl_user c then tell (Subscription (uint (fst (po_addr (sp_port s2 p)))) (port_no (sp_port s2 p)) info PORT_SUBSCRIBED) s2
                else s2, Inr ()))"

definition unsubscribe_port :: "snd_seq_client \<Rightarrow> nat \<Rightarrow> group_type \<Rightarrow> snd_seq_port_subscribe \<Rightarrow> bool \<Rightarrow> 'w seq_ports \<Rightarrow> 'w seq_ports \<times> unit res" where
  "unsubscribe_port c p g info send_ack s =
     (if si_count (grp g (sp_port s p)) = 0 then (s, Inl EINVAL)
      else let s1 = upd_port p (upd_grp g (\<lambda>i. i\<lparr>si_count := si_count i - 1\<rparr>)) s;
               i = grp g (sp_port s1 p)
        in case (case si_close i of
                   None \<Rightarrow> (s1, Inr ())
                 | Some f \<Rightarrow> if po_callback_all (sp_port s1 p) \<or> si_count i = 0 then call_back f info s1 else (s1, Inr ())) of
             (s2, r) \<Rightarrow>
               (if send_ack \<and> cl_user c then tell (Subscription (uint (fst (po_addr (sp_port s2 p)))) (port_no (sp_port s2 p)) info PORT_UNSUBSCRIBED) s2
                else s2, r))"

definition addr_match :: "seq_addr \<Rightarrow> seq_addr \<Rightarrow> bool" where
  "addr_match r s \<longleftrightarrow> fst r = fst s \<and> snd r = snd s"

definition match_subs_info :: "snd_seq_port_subscribe \<Rightarrow> snd_seq_port_subscribe \<Rightarrow> bool" where
  "match_subs_info r s \<longleftrightarrow>
     (if addr_match (pi_sender r) (pi_sender s) \<and> addr_match (pi_dest r) (pi_dest s) then
        (if pi_flags r \<noteq> 0 \<and> pi_flags r = pi_flags s then pi_queue r = pi_queue s else pi_flags r = 0)
      else False)"

definition link_subs :: "nat \<Rightarrow> snd_seq_port_subscribe \<Rightarrow> nat \<Rightarrow> nat \<Rightarrow> bool \<Rightarrow> 'w seq_ports \<Rightarrow> 'w seq_ports" where
  "link_subs n info sp dp exclusive s =
     upd_port dp (upd_grp DEST_LIST (\<lambda>i. i\<lparr>si_list := si_list i @ [n], si_exclusive := exclusive\<rparr>))
       (upd_port sp (upd_grp SRC_LIST (\<lambda>i. i\<lparr>si_list := si_list i @ [n], si_exclusive := exclusive\<rparr>))
         (s\<lparr>sp_subs := (sp_subs s)(n := \<lparr>su_info = info, su_ref_count = 2\<rparr>), sp_alive := insert n (sp_alive s)\<rparr>))"

definition connect_refused :: "'w snd_seq_port_subs_info \<Rightarrow> 'w snd_seq_port_subs_info \<Rightarrow> snd_seq_port_subscribe \<Rightarrow> 'w seq_ports \<Rightarrow> bool" where
  "connect_refused src dest info s \<longleftrightarrow>
     (if bit (pi_flags info) SUBS_EXCLUSIVE then si_list src \<noteq> [] \<or> si_list dest \<noteq> []
      else si_exclusive src \<or> si_exclusive dest \<or> list_ex (\<lambda>n. match_subs_info info (su_info (sp_subs s n))) (si_list src) \<or>
        list_ex (\<lambda>n. match_subs_info info (su_info (sp_subs s n))) (si_list dest))"

definition snd_seq_port_connect :: "int \<Rightarrow> snd_seq_client \<Rightarrow> nat \<Rightarrow> snd_seq_client \<Rightarrow> nat \<Rightarrow> snd_seq_port_subscribe \<Rightarrow> nat option \<Rightarrow>
    'w seq_ports \<Rightarrow> 'w seq_ports \<times> unit res" where
  "snd_seq_port_connect connector sc sp dc dp info fresh s =
     (case fresh of
        None \<Rightarrow> (s, Inl ENOMEM)
      | Some n \<Rightarrow>
          if connect_refused (po_c_src (sp_port s sp)) (po_c_dest (sp_port s dp)) info s then (s, Inl EBUSY)
          else (case subscribe_port sc sp SRC_LIST info (connector \<noteq> cl_number sc) s of
            (s1, Inl e) \<Rightarrow> (s1, Inl e)
          | (s1, Inr _) \<Rightarrow> (case subscribe_port dc dp DEST_LIST info (connector \<noteq> cl_number dc) s1 of
              (s2, Inl e) \<Rightarrow> (fst (unsubscribe_port sc sp SRC_LIST info (connector \<noteq> cl_number sc) s2), Inl e)
            | (s2, Inr _) \<Rightarrow> (link_subs n info sp dp (bit (pi_flags info) SUBS_EXCLUSIVE) s2, Inr ()))))"

text \<open>\<open>list_del\<close> takes a node out of the list it is in.\<close>

definition unlink_subs :: "group_type \<Rightarrow> nat \<Rightarrow> 'w seq_ports \<Rightarrow> 'w seq_ports" where
  "unlink_subs g n s = s\<lparr>sp_port := \<lambda>p. upd_grp g (\<lambda>i. i\<lparr>si_list := filter (\<lambda>m. m \<noteq> n) (si_list i)\<rparr>) (sp_port s p)\<rparr>"

definition free_subs :: "nat \<Rightarrow> 'w seq_ports \<Rightarrow> 'w seq_ports" where
  "free_subs n s = s\<lparr>sp_alive := sp_alive s - {n}\<rparr>"

definition snd_seq_port_disconnect :: "int \<Rightarrow> snd_seq_client \<Rightarrow> nat \<Rightarrow> snd_seq_client \<Rightarrow> nat \<Rightarrow> snd_seq_port_subscribe \<Rightarrow> 'w seq_ports \<Rightarrow> 'w seq_ports \<times> unit res" where
  "snd_seq_port_disconnect connector sc sp dc dp info s =
     (case List.find (\<lambda>n. match_subs_info info (su_info (sp_subs s n))) (si_list (po_c_src (sp_port s sp))) of
        None \<Rightarrow> (s, Inl ENOENT)
      | Some n \<Rightarrow>
          let s1 = unlink_subs DEST_LIST n (unlink_subs SRC_LIST n s);
              s2 = upd_port dp (upd_grp DEST_LIST (\<lambda>i. i\<lparr>si_exclusive := False\<rparr>)) (upd_port sp (upd_grp SRC_LIST (\<lambda>i. i\<lparr>si_exclusive := False\<rparr>)) s1);
              s3 = fst (unsubscribe_port sc sp SRC_LIST info (connector \<noteq> cl_number sc) s2);
              s4 = fst (unsubscribe_port dc dp DEST_LIST info (connector \<noteq> cl_number dc) s3)
          in (free_subs n s4, Inr ()))"

definition snd_seq_port_get_subscription :: "'w snd_seq_port_subs_info \<Rightarrow> seq_addr \<Rightarrow> 'w seq_ports \<Rightarrow> nat option" where
  "snd_seq_port_get_subscription src dest s = List.find (\<lambda>n. addr_match dest (pi_dest (su_info (sp_subs s n)))) (si_list src)"

section \<open>Deleting ports\<close>

definition get_client_port :: "seq_addr \<Rightarrow> 'w seq_ports \<Rightarrow> (nat \<times> snd_seq_client) option" where
  "get_client_port addr s =
     (case snd_seq_client_use_ptr (uint (fst addr)) s of
        None \<Rightarrow> None
      | Some c \<Rightarrow> map_option (\<lambda>p. (p, c)) (snd_seq_port_use_ptr c (uint (snd addr)) s))"

definition drop_ref :: "nat \<Rightarrow> 'w seq_ports \<Rightarrow> 'w seq_ports" where
  "drop_ref n s =
     (let r = su_ref_count (sp_subs s n) - 1; s1 = s\<lparr>sp_subs := (sp_subs s)(n := (sp_subs s n)\<lparr>su_ref_count := r\<rparr>)\<rparr>
      in if r = 0 then free_subs n s1 else s1)"

definition clear_subscriber :: "snd_seq_client \<Rightarrow> nat \<Rightarrow> group_type \<Rightarrow> nat \<Rightarrow> 'w seq_ports \<Rightarrow> 'w seq_ports" where
  "clear_subscriber c p g n s =
     (let info = su_info (sp_subs s n);
          s1 = fst (unsubscribe_port c p g info False (unlink_subs g n s))
      in case get_client_port (case g of SRC_LIST \<Rightarrow> pi_dest info | DEST_LIST \<Rightarrow> pi_sender info) s of
           None \<Rightarrow> drop_ref n s1
         | Some (ap, ac) \<Rightarrow> free_subs n (fst (unsubscribe_port ac ap (opposite g) info True (unlink_subs (opposite g) n s1))))"

definition clear_subscriber_list :: "snd_seq_client \<Rightarrow> nat \<Rightarrow> group_type \<Rightarrow> 'w seq_ports \<Rightarrow> 'w seq_ports" where
  "clear_subscriber_list c p g s = fold (clear_subscriber c p g) (si_list (grp g (sp_port s p))) s"

definition port_delete :: "snd_seq_client \<Rightarrow> nat \<Rightarrow> 'w seq_ports \<Rightarrow> 'w seq_ports" where
  "port_delete c p s =
     (let s1 = upd_port p (\<lambda>q. q\<lparr>po_closing := True\<rparr>) s;
          s2 = clear_subscriber_list c p DEST_LIST (clear_subscriber_list c p SRC_LIST s1)
      in case po_private_free (sp_port s2 p) of None \<Rightarrow> s2 | Some f \<Rightarrow> s2\<lparr>sp_world := f (sp_world s2)\<rparr>)"

definition snd_seq_delete_port :: "snd_seq_client \<Rightarrow> int \<Rightarrow> 'w seq_ports \<Rightarrow> 'w seq_ports \<times> unit res" where
  "snd_seq_delete_port c port s =
     (case List.find (\<lambda>p. port_no (sp_port s p) = port) (cl_ports c) of
        None \<Rightarrow> (s, Inl ENOENT)
      | Some p \<Rightarrow>
          let c' = c\<lparr>cl_ports := remove1 p (cl_ports c), cl_num_ports := cl_num_ports c - 1\<rparr>
          in (port_delete c' p (upd_client c' s), Inr ()))"

definition snd_seq_delete_all_ports :: "snd_seq_client \<Rightarrow> 'w seq_ports \<Rightarrow> 'w seq_ports" where
  "snd_seq_delete_all_ports c s =
     (let c' = c\<lparr>cl_ports := [], cl_num_ports := 0\<rparr>
      in fold (\<lambda>p s. port_delete c' p (tell (Port_Event (uint (fst (po_addr (sp_port s p)))) (port_no (sp_port s p)) PORT_EXIT) s))
           (cl_ports c) (upd_client c' s))"

section \<open>Information on ports\<close>

record snd_seq_port_info =
  pf_addr :: seq_addr
  pf_capability :: u32
  pf_type :: u32
  pf_midi_channels :: int
  pf_midi_voices :: int
  pf_synth_voices :: int
  pf_read_use :: int
  pf_write_use :: int
  pf_flags :: u32
  pf_time_queue :: u8

definition snd_seq_set_port_info :: "snd_seq_port_info \<Rightarrow> 'w snd_seq_client_port \<Rightarrow> 'w snd_seq_client_port" where
  "snd_seq_set_port_info i port =
     port\<lparr>po_capability := pf_capability i, po_type := pf_type i, po_midi_channels := pf_midi_channels i, po_midi_voices := pf_midi_voices i,
       po_synth_voices := pf_synth_voices i, po_timestamping := bit (pf_flags i) FLG_TIMESTAMP, po_time_real := bit (pf_flags i) FLG_TIME_REAL,
       po_time_queue := uint (pf_time_queue i)\<rparr>"

definition snd_seq_get_port_info :: "'w snd_seq_client_port \<Rightarrow> snd_seq_port_info \<Rightarrow> snd_seq_port_info" where
  "snd_seq_get_port_info port i =
     i\<lparr>pf_capability := po_capability port, pf_type := po_type port, pf_midi_channels := po_midi_channels port,
       pf_midi_voices := po_midi_voices port, pf_synth_voices := po_synth_voices port,
       pf_read_use := si_count (po_c_src port), pf_write_use := si_count (po_c_dest port),
       pf_flags := if po_timestamping port then (if po_time_real port then 6 else 2) else 0,
       pf_time_queue := if po_timestamping port then of_int (po_time_queue port) else pf_time_queue i\<rparr>"

section \<open>Ioctls\<close>

text \<open>The callbacks of a kernel client; \<open>cb_owner\<close>: its module, when given, and whether it can be used.\<close>

record 'w snd_seq_port_callback =
  cb_owner :: "bool option"
  cb_private_free :: "('w \<Rightarrow> 'w) option"
  cb_event_input :: "'w event_callback option"
  cb_callback_all :: bool
  cb_subscribe :: "'w subs_callback option"
  cb_unsubscribe :: "'w subs_callback option"
  cb_use :: "'w subs_callback option"
  cb_unuse :: "'w subs_callback option"

definition set_callbacks :: "'w snd_seq_port_callback \<Rightarrow> 'w snd_seq_client_port \<Rightarrow> 'w snd_seq_client_port" where
  "set_callbacks cb port =
     port\<lparr>po_owner := (case cb_owner cb of None \<Rightarrow> po_owner port | Some b \<Rightarrow> b), po_private_free := cb_private_free cb,
       po_event_input := cb_event_input cb, po_callback_all := cb_callback_all cb,
       po_c_src := (po_c_src port)\<lparr>si_open := cb_subscribe cb, si_close := cb_unsubscribe cb\<rparr>,
       po_c_dest := (po_c_dest port)\<lparr>si_open := cb_use cb, si_close := cb_unuse cb\<rparr>\<rparr>"

definition snd_seq_ioctl_create_port :: "snd_seq_client \<Rightarrow> snd_seq_port_info \<Rightarrow> 'w snd_seq_port_callback option \<Rightarrow> nat option \<Rightarrow>
    'w seq_ports \<Rightarrow> 'w seq_ports \<times> seq_addr res" where
  "snd_seq_ioctl_create_port c i cb fresh s =
     (if uint (fst (pf_addr i)) \<noteq> cl_number c then (s, Inl EPERM)
      else case snd_seq_create_port c (if bit (pf_flags i) FLG_GIVEN_PORT then uint (snd (pf_addr i)) else -1) fresh s of
        (s1, None) \<Rightarrow> (s1, Inl ENOMEM)
      | (s1, Some p) \<Rightarrow>
          (case (cb, sp_client s1 (cl_number c)) of
             (Some k, Some c1) \<Rightarrow>
               if cl_user c then (fst (snd_seq_delete_port c1 (port_no (sp_port s1 p)) s1), Inl EINVAL)
               else let s2 = upd_port p (\<lambda>q. snd_seq_set_port_info i (set_callbacks k q)) s1; a = po_addr (sp_port s2 p)
                 in (tell (Port_Event (uint (fst a)) (uint (snd a)) PORT_START) s2, Inr a)
           | _ \<Rightarrow> let s2 = upd_port p (snd_seq_set_port_info i) s1; a = po_addr (sp_port s2 p)
               in (tell (Port_Event (uint (fst a)) (uint (snd a)) PORT_START) s2, Inr a)))"

definition snd_seq_ioctl_delete_port :: "snd_seq_client \<Rightarrow> snd_seq_port_info \<Rightarrow> 'w seq_ports \<Rightarrow> 'w seq_ports \<times> unit res" where
  "snd_seq_ioctl_delete_port c i s =
     (if uint (fst (pf_addr i)) \<noteq> cl_number c then (s, Inl EPERM)
      else case snd_seq_delete_port c (uint (snd (pf_addr i))) s of
        (s1, Inl e) \<Rightarrow> (s1, Inl e)
      | (s1, Inr _) \<Rightarrow> (tell (Port_Event (cl_number c) (uint (snd (pf_addr i))) PORT_EXIT) s1, Inr ()))"

definition check_port_perm :: "'w snd_seq_client_port \<Rightarrow> u32 \<Rightarrow> bool" where
  "check_port_perm port flags \<longleftrightarrow> po_capability port AND flags = flags"

definition check_subscription_permission :: "int \<Rightarrow> 'w snd_seq_client_port \<Rightarrow> 'w snd_seq_client_port \<Rightarrow> snd_seq_port_subscribe \<Rightarrow> unit res" where
  "check_subscription_permission client sport dport subs =
     (let sender = uint (fst (pi_sender subs)); dest = uint (fst (pi_dest subs)) in
      if client \<noteq> sender \<and> client \<noteq> dest \<and> (check_port_perm sport CAP_NO_EXPORT \<or> check_port_perm dport CAP_NO_EXPORT) then Inl EPERM
      else if client \<noteq> sender \<and> \<not> check_port_perm sport PERM_RD then Inl EPERM
      else if client \<noteq> dest \<and> \<not> check_port_perm dport PERM_WR then Inl EPERM
      else Inr ())"

text \<open>The clients and ports of a subscription, when all exist.\<close>

definition subscription_ports :: "snd_seq_port_subscribe \<Rightarrow> 'w seq_ports \<Rightarrow> (snd_seq_client \<times> nat \<times> snd_seq_client \<times> nat) option" where
  "subscription_ports subs s =
     (case snd_seq_client_use_ptr (uint (fst (pi_dest subs))) s of
        None \<Rightarrow> None
      | Some receiver \<Rightarrow> (case snd_seq_client_use_ptr (uint (fst (pi_sender subs))) s of
          None \<Rightarrow> None
        | Some sender \<Rightarrow> (case snd_seq_port_use_ptr sender (uint (snd (pi_sender subs))) s of
            None \<Rightarrow> None
          | Some sport \<Rightarrow> map_option (\<lambda>dport. (sender, sport, receiver, dport)) (snd_seq_port_use_ptr receiver (uint (snd (pi_dest subs))) s))))"

definition announce_subscription :: "u8 \<Rightarrow> snd_seq_port_subscribe \<Rightarrow> 'w seq_ports \<times> unit res \<Rightarrow> 'w seq_ports \<times> unit res" where
  "announce_subscription evtype subs = (\<lambda>(s, r). (case r of Inl _ \<Rightarrow> s | Inr _ \<Rightarrow> tell (Subscription ADDRESS_SUBSCRIBERS 0 subs evtype) s, r))"

definition snd_seq_ioctl_subscribe_port :: "int \<Rightarrow> snd_seq_port_subscribe \<Rightarrow> nat option \<Rightarrow> 'w seq_ports \<Rightarrow> 'w seq_ports \<times> unit res" where
  "snd_seq_ioctl_subscribe_port client subs fresh s =
     (case subscription_ports subs s of
        None \<Rightarrow> (s, Inl EINVAL)
      | Some (sender, sport, receiver, dport) \<Rightarrow> (case check_subscription_permission client (sp_port s sport) (sp_port s dport) subs of
          Inl e \<Rightarrow> (s, Inl e)
        | Inr _ \<Rightarrow> announce_subscription PORT_SUBSCRIBED subs (snd_seq_port_connect client sender sport receiver dport subs fresh s)))"

definition snd_seq_ioctl_unsubscribe_port :: "int \<Rightarrow> snd_seq_port_subscribe \<Rightarrow> 'w seq_ports \<Rightarrow> 'w seq_ports \<times> unit res" where
  "snd_seq_ioctl_unsubscribe_port client subs s =
     (case subscription_ports subs s of
        None \<Rightarrow> (s, Inl ENXIO)
      | Some (sender, sport, receiver, dport) \<Rightarrow> (case check_subscription_permission client (sp_port s sport) (sp_port s dport) subs of
          Inl e \<Rightarrow> (s, Inl e)
        | Inr _ \<Rightarrow> announce_subscription PORT_UNSUBSCRIBED subs (snd_seq_port_disconnect client sender sport receiver dport subs s)))"

end
