(* ===== verification/Seq_Subs.thy ===== *)
theory Seq_Subs
  imports Seq_Ports
begin

text \<open>
  The web of subscriptions: each is in the list of its source and in that of its destination, or neither; ports
  count their subscribers; an exclusive subscription is alone. Deleting a port takes this apart and
  leaves it whole again.
\<close>

section \<open>Lists, ends and registered ports\<close>

definition lst :: "group_type \<Rightarrow> 'w seq_ports \<Rightarrow> nat \<Rightarrow> nat list" where
  "lst g s q = si_list (grp g (sp_port s q))"

definition cnt :: "group_type \<Rightarrow> 'w seq_ports \<Rightarrow> nat \<Rightarrow> int" where
  "cnt g s q = si_count (grp g (sp_port s q))"

definition excl :: "group_type \<Rightarrow> 'w seq_ports \<Rightarrow> nat \<Rightarrow> bool" where
  "excl g s q = si_exclusive (grp g (sp_port s q))"

definition addr :: "'w seq_ports \<Rightarrow> nat \<Rightarrow> seq_addr" where
  "addr s q = po_addr (sp_port s q)"

definition info :: "'w seq_ports \<Rightarrow> nat \<Rightarrow> snd_seq_port_subscribe" where
  "info s n = su_info (sp_subs s n)"

definition end_of :: "group_type \<Rightarrow> snd_seq_port_subscribe \<Rightarrow> seq_addr" where
  "end_of g i = (case g of SRC_LIST \<Rightarrow> pi_sender i | DEST_LIST \<Rightarrow> pi_dest i)"

definition linked :: "group_type \<Rightarrow> 'w seq_ports \<Rightarrow> nat \<Rightarrow> bool" where
  "linked g s n \<longleftrightarrow> (\<exists>q. n \<in> set (lst g s q))"

definition regd :: "'w seq_ports \<Rightarrow> nat set" where
  "regd s = {q. \<exists>k c. sp_client s k = Some c \<and> q \<in> set (cl_ports c)}"

definition exclusive :: "'w seq_ports \<Rightarrow> nat \<Rightarrow> bool" where
  "exclusive s n = bit (pi_flags (info s n)) SUBS_EXCLUSIVE"

lemma opposite_simps [simp]: "opposite (opposite g) = g" "opposite g \<noteq> g" "g \<noteq> opposite g" "opposite SRC_LIST = DEST_LIST" "opposite DEST_LIST = SRC_LIST"
  by (cases g; simp add: opposite_def)+

lemma group_cases: "h = g \<or> h = opposite g"
  by (cases g; cases h) (simp_all add: opposite_def)

section \<open>The invariant\<close>

text \<open>
  \<open>E\<close> are the ports that have left the lists of their clients and are being deleted. A subscription may have
  lost one of its two links only when it is in the list of such a port.
\<close>

definition subs_ok :: "nat set \<Rightarrow> 'w seq_ports \<Rightarrow> bool" where
  "subs_ok E s \<longleftrightarrow>
     E \<inter> regd s = {} \<and> inj_on (addr s) (regd s \<union> E) \<and>
     (\<forall>g q. distinct (lst g s q) \<and> cnt g s q = int (length (lst g s q))) \<and>
     (\<forall>g q n. n \<in> set (lst g s q) \<longrightarrow> q \<in> regd s \<union> E \<and> n \<in> sp_alive s \<and> addr s q = end_of g (info s n) \<and>
        (exclusive s n \<longrightarrow> lst g s q = [n] \<and> excl g s q) \<and> (\<not> linked (opposite g) s n \<longrightarrow> q \<in> E)) \<and>
     (\<forall>n\<in>sp_alive s. su_ref_count (sp_subs s n) = int (card {g. linked g s n}) \<and> (\<exists>g. linked g s n) \<and>
        (\<forall>g. linked g s n \<or> end_of g (info s n) \<notin> addr s ` regd s))"

lemma subs_okD:
  assumes "subs_ok E s"
  shows "E \<inter> regd s = {}" "inj_on (addr s) (regd s \<union> E)" "distinct (lst g s q)" "cnt g s q = int (length (lst g s q))"
    "n \<in> set (lst g s q) \<Longrightarrow> q \<in> regd s \<union> E" "n \<in> set (lst g s q) \<Longrightarrow> n \<in> sp_alive s"
    "n \<in> set (lst g s q) \<Longrightarrow> addr s q = end_of g (info s n)"
    "n \<in> set (lst g s q) \<Longrightarrow> exclusive s n \<Longrightarrow> lst g s q = [n] \<and> excl g s q"
    "n \<in> set (lst g s q) \<Longrightarrow> \<not> linked (opposite g) s n \<Longrightarrow> q \<in> E"
    "n \<in> sp_alive s \<Longrightarrow> su_ref_count (sp_subs s n) = int (card {g. linked g s n})" "n \<in> sp_alive s \<Longrightarrow> \<exists>g. linked g s n"
    "n \<in> sp_alive s \<Longrightarrow> linked g s n \<or> end_of g (info s n) \<notin> addr s ` regd s"
  using assms unfolding subs_ok_def by blast+

lemma subs_ok_cong:
  assumes "addr s' = addr s" "regd s' = regd s" "\<And>g. lst g s' = lst g s" "\<And>g. cnt g s' = cnt g s" "\<And>g. excl g s' = excl g s"
    "sp_subs s' = sp_subs s" "sp_alive s' = sp_alive s"
  shows "subs_ok E s' = subs_ok E s"
  using assms by (simp add: subs_ok_def linked_def exclusive_def info_def)

text \<open>A subscription is in one list of each kind at most.\<close>

lemma linked_once:
  assumes ok: "subs_ok E s" and "n \<in> set (lst g s q)" "n \<in> set (lst g s q')"
  shows "q' = q"
proof -
  have "addr s q' = addr s q" using subs_okD(7) [OF ok] assms(2,3) by metis
  then show ?thesis using subs_okD(2) [OF ok] subs_okD(5) [OF ok] assms(2,3) by (meson inj_onD)
qed

text \<open>A subscription that is gone from both kinds of lists.\<close>

lemma subs_ok_gone:
  assumes ok: "subs_ok E s"
    and reg: "regd s' = regd s" "addr s' = addr s" and inf: "\<And>m. m \<noteq> n \<Longrightarrow> sp_subs s' m = sp_subs s m" "sp_alive s' = sp_alive s - {n}"
    and l: "\<And>g q. lst g s' q = filter (\<lambda>m. m \<noteq> n) (lst g s q)" "\<And>g q. cnt g s' q = int (length (lst g s' q))"
    and x: "\<And>g q. n \<notin> set (lst g s q) \<Longrightarrow> excl g s' q = excl g s q"
  shows "subs_ok E s'"
proof -
  note d = subs_okD [OF ok]
  have i: "m \<noteq> n \<Longrightarrow> info s' m = info s m" "m \<noteq> n \<Longrightarrow> exclusive s' m = exclusive s m" for m by (simp_all add: info_def exclusive_def inf(1))
  have lk: "linked g s' m \<longleftrightarrow> m \<noteq> n \<and> linked g s m" for g m by (auto simp: linked_def l(1))
  have "q \<in> regd s' \<union> E \<and> m \<in> sp_alive s' \<and> addr s' q = end_of g (info s' m) \<and>
        (exclusive s' m \<longrightarrow> lst g s' q = [m] \<and> excl g s' q) \<and> (\<not> linked (opposite g) s' m \<longrightarrow> q \<in> E)" if m: "m \<in> set (lst g s' q)" for g q m
  proof -
    have m1: "m \<noteq> n" "m \<in> set (lst g s q)" using m by (simp_all add: l(1))
    have "lst g s' q = [m] \<and> excl g s' q" if "exclusive s' m"
    proof -
      have "lst g s q = [m] \<and> excl g s q" using d(8) [OF m1(2)] that i(2) m1(1) by blast
      then show ?thesis using m1(1) x [of g q] by (simp add: l(1))
    qed
    then show ?thesis using m1 d(5,6,7,9) [OF m1(2)] by (simp add: reg inf(2) lk i)
  qed
  moreover have "su_ref_count (sp_subs s' m) = int (card {g. linked g s' m}) \<and> (\<exists>g. linked g s' m) \<and>
        (\<forall>g. linked g s' m \<or> end_of g (info s' m) \<notin> addr s' ` regd s')" if m: "m \<in> sp_alive s'" for m
  proof -
    have "m \<noteq> n" "m \<in> sp_alive s" using m inf(2) by auto
    then show ?thesis using d(10,11,12) [of m] by (simp add: lk i(1) inf(1) reg)
  qed
  moreover have "distinct (lst g s' q)" for g q using d(3) l(1) by simp
  ultimately show ?thesis using d(1,2) l(2) unfolding subs_ok_def reg by blast
qed

text \<open>A subscription that has lost its link of kind \<open>g\<close> only.\<close>

lemma subs_ok_half:
  assumes ok: "subs_ok E s" and p: "p \<in> E" "n \<in> set (lst g s p)" and o: "linked (opposite g) s n" "end_of (opposite g) (info s n) \<notin> addr s ` regd s"
    and reg: "regd s' = regd s" "addr s' = addr s"
    and inf: "\<And>m. info s' m = info s m" "\<And>m. su_ref_count (sp_subs s' m) = (if m = n then 1 else su_ref_count (sp_subs s m))" "sp_alive s' = sp_alive s"
    and l: "\<And>q. lst g s' q = filter (\<lambda>m. m \<noteq> n) (lst g s q)" "\<And>q. lst (opposite g) s' q = lst (opposite g) s q"
    and c: "\<And>h q. cnt h s' q = int (length (lst h s' q))" and x: "\<And>h q. excl h s' q = excl h s q"
  shows "subs_ok E s'"
proof -
  note d = subs_okD [OF ok]
  have i: "exclusive s' m = exclusive s m" for m by (simp add: exclusive_def inf(1))
  have lk: "linked g s' m \<longleftrightarrow> m \<noteq> n \<and> linked g s m" "linked (opposite g) s' m = linked (opposite g) s m" for m by (auto simp: linked_def l)
  have sub: "set (lst h s' q) \<subseteq> set (lst h s q)" for h q using group_cases [of h g] l by auto
  have "q \<in> regd s' \<union> E \<and> m \<in> sp_alive s' \<and> addr s' q = end_of h (info s' m) \<and>
        (exclusive s' m \<longrightarrow> lst h s' q = [m] \<and> excl h s' q) \<and> (\<not> linked (opposite h) s' m \<longrightarrow> q \<in> E)" if m: "m \<in> set (lst h s' q)" for h q m
  proof -
    have m1: "m \<in> set (lst h s q)" using m sub by blast
    have "lst h s' q = [m]" if "exclusive s' m"
    proof -
      have "lst h s q = [m]" using d(8) [OF m1] that i by blast
      then show ?thesis using m group_cases [of h g] l by (auto split: if_splits)
    qed
    moreover have "excl h s' q" if "exclusive s' m" using d(8) [OF m1] that by (simp add: i x)
    moreover have "q \<in> E" if nl: "\<not> linked (opposite h) s' m"
    proof (cases "h = g")
      case True
      then show ?thesis using nl d(9) [OF m1] lk(2) by simp
    next
      case False
      then have h: "h = opposite g" using group_cases by blast
      show ?thesis
      proof (cases "m = n")
        case True
        have "addr s q \<notin> addr s ` regd s" using d(7) [OF m1] o(2) True h by simp
        then show ?thesis using d(5) [OF m1] by blast
      next
        case False
        then show ?thesis using nl d(9) [OF m1] lk(1) h by simp
      qed
    qed
    ultimately show ?thesis using d(5,6,7) [OF m1] by (simp add: reg inf)
  qed
  moreover have "su_ref_count (sp_subs s' m) = int (card {h. linked h s' m}) \<and> (\<exists>h. linked h s' m) \<and>
        (\<forall>h. linked h s' m \<or> end_of h (info s' m) \<notin> addr s' ` regd s')" if m: "m \<in> sp_alive s'" for m
  proof (cases "m = n")
    case True
    have "end_of g (info s n) \<notin> addr s ` regd s"
    proof
      assume "end_of g (info s n) \<in> addr s ` regd s"
      then obtain q where q: "q \<in> regd s" "addr s q = addr s p" using d(7) [OF p(2)] by auto
      then have "q = p" using d(2) p(1) by (meson UnCI inj_onD)
      then show False using q(1) d(1) p(1) by blast
    qed
    moreover have k: "linked h s' n \<longleftrightarrow> h = opposite g" for h using lk o group_cases [of h g] by auto
    ultimately have "\<forall>h. linked h s' n \<or> end_of h (info s n) \<notin> addr s ` regd s" using group_cases [of _ g] by metis
    then show ?thesis using True by (auto simp: inf reg k)
  next
    case False
    have "linked h s' m = linked h s m" for h using lk False group_cases [of h g] by auto
    then show ?thesis using d(10,11,12) [of m] m False by (simp add: inf reg)
  qed
  moreover have "distinct (lst h s' q)" for h q using d(3) l group_cases [of h g] by auto
  ultimately show ?thesis using d(1,2) c unfolding subs_ok_def reg by blast
qed

section \<open>What the operations touch\<close>

lemma grp_upd_grp [simp]: "grp h (upd_grp g f p) = (if h = g then f (grp g p) else grp h p)"
  "po_addr (upd_grp g f p) = po_addr p" "po_closing (upd_grp g f p) = po_closing p" "po_owner (upd_grp g f p) = po_owner p"
  by (cases g; cases h; simp add: grp_def upd_grp_def)+

lemma upd_port_simps [simp]: "sp_client (upd_port p f s) = sp_client s" "sp_subs (upd_port p f s) = sp_subs s"
  "sp_alive (upd_port p f s) = sp_alive s" "sp_port (upd_port p f s) q = (if q = p then f (sp_port s p) else sp_port s q)"
  by (simp_all add: upd_port_def)

lemma tell_simps [simp]: "sp_client (tell a s) = sp_client s" "sp_subs (tell a s) = sp_subs s" "sp_alive (tell a s) = sp_alive s"
  "sp_port (tell a s) = sp_port s"
  by (simp_all add: tell_def)

lemma call_back_simps: "call_back f i s = (s', r) \<Longrightarrow> sp_client s' = sp_client s \<and> sp_subs s' = sp_subs s \<and> sp_alive s' = sp_alive s \<and> sp_port s' = sp_port s"
  by (auto simp: call_back_def split: prod.splits)

text \<open>The part of the state that is not a list, a count or a flag of subscriptions.\<close>

definition same_web :: "'w seq_ports \<Rightarrow> 'w seq_ports \<Rightarrow> bool" where
  "same_web s s' \<longleftrightarrow> sp_client s' = sp_client s \<and> sp_subs s' = sp_subs s \<and> sp_alive s' = sp_alive s \<and>
     (\<forall>q. addr s' q = addr s q \<and> po_closing (sp_port s' q) = po_closing (sp_port s q))"

lemma same_web_refl [simp, intro]: "same_web s s" by (simp add: same_web_def)

lemma same_web_trans: "same_web s s1 \<Longrightarrow> same_web s1 s2 \<Longrightarrow> same_web s s2" by (simp add: same_web_def)

lemma same_webD: "same_web s s' \<Longrightarrow> regd s' = regd s" "same_web s s' \<Longrightarrow> addr s' = addr s" "same_web s s' \<Longrightarrow> info s' n = info s n"
  "same_web s s' \<Longrightarrow> sp_subs s' = sp_subs s" "same_web s s' \<Longrightarrow> sp_alive s' = sp_alive s" "same_web s s' \<Longrightarrow> sp_client s' = sp_client s"
  by (auto simp: same_web_def regd_def info_def fun_eq_iff)

lemma unlink_subs_effect:
  "same_web s (unlink_subs g n s)" "lst h (unlink_subs g n s) q = (if h = g then filter (\<lambda>m. m \<noteq> n) (lst h s q) else lst h s q)"
  "cnt h (unlink_subs g n s) q = cnt h s q" "excl h (unlink_subs g n s) q = excl h s q"
  by (auto simp: same_web_def unlink_subs_def lst_def cnt_def excl_def addr_def)

lemma unsubscribe_port_effect:
  "same_web s (fst (unsubscribe_port c p g i b s))" "lst h (fst (unsubscribe_port c p g i b s)) q = lst h s q"
  "excl h (fst (unsubscribe_port c p g i b s)) q = excl h s q"
  "cnt h (fst (unsubscribe_port c p g i b s)) q = (if h = g \<and> q = p \<and> cnt g s p \<noteq> 0 then cnt g s p - 1 else cnt h s q)"
proof -
  let ?s1 = "upd_port p (upd_grp g (\<lambda>i. i\<lparr>si_count := si_count i - 1\<rparr>)) s"
  have "sp_client (fst (unsubscribe_port c p g i b s)) = sp_client s \<and> sp_subs (fst (unsubscribe_port c p g i b s)) = sp_subs s \<and>
    sp_alive (fst (unsubscribe_port c p g i b s)) = sp_alive s \<and>
    sp_port (fst (unsubscribe_port c p g i b s)) = (if cnt g s p = 0 then sp_port s else sp_port ?s1)"
    by (auto simp: unsubscribe_port_def Let_def cnt_def call_back_def split: prod.splits option.splits if_splits)
  then show "same_web s (fst (unsubscribe_port c p g i b s))" "lst h (fst (unsubscribe_port c p g i b s)) q = lst h s q"
    "excl h (fst (unsubscribe_port c p g i b s)) q = excl h s q"
    "cnt h (fst (unsubscribe_port c p g i b s)) q = (if h = g \<and> q = p \<and> cnt g s p \<noteq> 0 then cnt g s p - 1 else cnt h s q)"
    by (auto simp: same_web_def lst_def cnt_def excl_def addr_def)
qed

lemma length_filter_ne: "distinct xs \<Longrightarrow> n \<in> set xs \<Longrightarrow> length (filter (\<lambda>m. m \<noteq> n) xs) = length xs - 1"
proof (induction xs)
  case (Cons x xs)
  show ?case
  proof (cases "x = n")
    case True
    then have "filter (\<lambda>m. m \<noteq> n) xs = xs" using Cons.prems(1) by (intro filter_True) auto
    then show ?thesis using True by simp
  next
    case False
    then have "xs \<noteq> []" using Cons.prems by auto
    then show ?thesis using False Cons by (cases xs) auto
  qed
qed simp

text \<open>Unlinked from its only list of a kind, and uncounted there.\<close>

lemma unlink_unsubscribe:
  assumes ok: "subs_ok E s" and n: "n \<in> set (lst g s p)"
  shows "cnt g (fst (unsubscribe_port c p g i b (unlink_subs g n s))) q = int (length (filter (\<lambda>m. m \<noteq> n) (lst g s q)))"
proof -
  note d = subs_okD [OF ok]
  have c: "cnt g (fst (unsubscribe_port c p g i b (unlink_subs g n s))) q = (if q = p \<and> lst g s p \<noteq> [] then int (length (lst g s p)) - 1 else int (length (lst g s q)))"
    by (simp add: unsubscribe_port_effect unlink_subs_effect d(4))
  show ?thesis
  proof (cases "q = p")
    case True
    have "length (filter (\<lambda>m. m \<noteq> n) (lst g s p)) = length (lst g s p) - 1"
      using length_filter_ne [OF d(3) n] .
    moreover have "lst g s p \<noteq> []" using n by auto
    ultimately show ?thesis using True c by (cases "lst g s p") auto
  next
    case False
    then have "n \<notin> set (lst g s q)" using linked_once [OF ok n] by blast
    then have "filter (\<lambda>m. m \<noteq> n) (lst g s q) = lst g s q" by (intro filter_True) auto
    then show ?thesis using False c by simp
  qed
qed

section \<open>Clients and their ports\<close>

definition clients_ok :: "'w seq_ports \<Rightarrow> bool" where
  "clients_ok s \<longleftrightarrow>
     (\<forall>k c. sp_client s k = Some c \<longrightarrow> 0 \<le> k \<and> k < 192 \<and> cl_number c = k \<and> sorted_wrt (<) (map (\<lambda>p. uint (snd (addr s p))) (cl_ports c)) \<and>
        cl_num_ports c = int (length (cl_ports c)) \<and> (\<forall>p\<in>set (cl_ports c). fst (addr s p) = of_int k \<and> \<not> po_closing (sp_port s p)))"

lemma clients_ok_web: "same_web s s' \<Longrightarrow> clients_ok s' = clients_ok s"
  by (simp add: clients_ok_def same_web_def)

lemma find_member: "List.find P xs = Some x \<Longrightarrow> x \<in> set xs \<and> P x"
  by (auto simp: find_Some_iff)

lemma get_client_port_addr:
  assumes "clients_ok s" "get_client_port a s = Some (q, c)"
  shows "q \<in> regd s" "addr s q = a" "sp_client s (cl_number c) = Some c"
proof -
  have c: "sp_client s (uint (fst a)) = Some c" and u: "snd_seq_port_use_ptr c (uint (snd a)) s = Some q"
    using assms(2) by (auto simp: get_client_port_def snd_seq_client_use_ptr_def split: option.splits if_splits)
  then have f: "List.find (\<lambda>p. port_no (sp_port s p) = uint (snd a)) (cl_ports c) = Some q"
    by (auto simp: snd_seq_port_use_ptr_def split: option.splits if_splits)
  then have q: "q \<in> set (cl_ports c)" "uint (snd (addr s q)) = uint (snd a)" using find_member by (fastforce simp: addr_def)+
  have "fst (addr s q) = of_int (uint (fst a))" using assms(1) c q(1) unfolding clients_ok_def by blast
  then show "addr s q = a" using q(2) by (simp add: prod_eq_iff word_uint_eq_iff)
  show "q \<in> regd s" using c q(1) by (auto simp: regd_def)
  have "cl_number c = uint (fst a)" using assms(1) c unfolding clients_ok_def by blast
  then show "sp_client s (cl_number c) = Some c" using c by simp
qed

lemma get_client_port_none: "clients_ok s \<Longrightarrow> a \<notin> addr s ` regd s \<Longrightarrow> get_client_port a s = None"
  using get_client_port_addr by (metis imageI not_None_eq surj_pair)

lemma get_client_port_regd:
  assumes c: "clients_ok s" and inj: "inj_on (addr s) (regd s)" and q: "q \<in> regd s"
  shows "\<exists>c. get_client_port (addr s q) s = Some (q, c)"
proof -
  obtain k c where k: "sp_client s k = Some c" "q \<in> set (cl_ports c)" using q by (auto simp: regd_def)
  have b: "0 \<le> k" "k < 192" "fst (addr s q) = of_int k" using c k unfolding clients_ok_def by blast+
  have uk: "uint (of_int k :: u8) = k" using b(1,2) by (simp add: uint_word_of_int_eq take_bit_eq_mod)
  then have u: "sp_client s (uint (fst (addr s q))) = Some c" using b(3) k(1) by simp
  obtain p where p: "List.find (\<lambda>p. port_no (sp_port s p) = uint (snd (addr s q))) (cl_ports c) = Some p"
    using k(2) by (metis (mono_tags, lifting) addr_def find_None_iff not_None_eq)
  then have pm: "p \<in> set (cl_ports c)" "uint (snd (addr s p)) = uint (snd (addr s q))" using find_member by (fastforce simp: addr_def)+
  have "fst (addr s p) = of_int k" and cl: "\<not> po_closing (sp_port s p)" using c k(1) pm(1) unfolding clients_ok_def by blast+
  then have "addr s p = addr s q" using pm(2) b(3) by (simp add: prod_eq_iff word_uint_eq_iff)
  moreover have "p \<in> regd s" using k(1) pm(1) by (auto simp: regd_def)
  ultimately have "p = q" using inj q by (meson inj_onD)
  then show ?thesis using u p cl uk b(1-3) by (simp add: get_client_port_def snd_seq_client_use_ptr_def snd_seq_port_use_ptr_def)
qed

section \<open>Deleting a port\<close>

text \<open>One subscriber: the rest stays well-formed, and nothing but this subscription is touched.\<close>

lemma free_subs_effect: "sp_client (free_subs n s) = sp_client s" "sp_port (free_subs n s) = sp_port s" "sp_subs (free_subs n s) = sp_subs s"
  "sp_alive (free_subs n s) = sp_alive s - {n}" "addr (free_subs n s) = addr s" "regd (free_subs n s) = regd s"
  "lst g (free_subs n s) q = lst g s q" "cnt g (free_subs n s) q = cnt g s q" "excl g (free_subs n s) q = excl g s q"
  "clients_ok (free_subs n s) = clients_ok s"
  by (simp_all add: free_subs_def addr_def regd_def fun_eq_iff lst_def cnt_def excl_def clients_ok_def)

lemma drop_ref_effect: "sp_client (drop_ref n s) = sp_client s" "sp_port (drop_ref n s) = sp_port s" "addr (drop_ref n s) = addr s"
  "regd (drop_ref n s) = regd s" "lst g (drop_ref n s) q = lst g s q" "cnt g (drop_ref n s) q = cnt g s q" "excl g (drop_ref n s) q = excl g s q"
  "clients_ok (drop_ref n s) = clients_ok s" "info (drop_ref n s) m = info s m"
  "su_ref_count (sp_subs (drop_ref n s) m) = (if m = n then su_ref_count (sp_subs s n) - 1 else su_ref_count (sp_subs s m))"
  "m \<noteq> n \<Longrightarrow> sp_subs (drop_ref n s) m = sp_subs s m"
  "sp_alive (drop_ref n s) = (if su_ref_count (sp_subs s n) = 1 then sp_alive s - {n} else sp_alive s)"
  by (simp_all add: drop_ref_def Let_def free_subs_def addr_def regd_def fun_eq_iff lst_def cnt_def excl_def clients_ok_def info_def)

definition clear_step :: "group_type \<Rightarrow> nat \<Rightarrow> nat \<Rightarrow> 'w seq_ports \<Rightarrow> 'w seq_ports \<Rightarrow> bool" where
  "clear_step g n p s s' \<longleftrightarrow> clients_ok s' \<and> sp_client s' = sp_client s \<and> addr s' = addr s \<and>
     (\<forall>q. po_closing (sp_port s' q) = po_closing (sp_port s q)) \<and> lst g s' p = filter (\<lambda>m. m \<noteq> n) (lst g s p) \<and>
     (\<forall>h q. set (lst h s' q) \<subseteq> set (lst h s q)) \<and> (\<forall>h q. excl h s' q = excl h s q)"

lemma clear_subscriber_ok:
  assumes ok: "subs_ok E s" and cl: "clients_ok s" and p: "p \<in> E" and n: "n \<in> set (lst g s p)"
  shows "subs_ok E (clear_subscriber c p g n s) \<and> clear_step g n p s (clear_subscriber c p g n s)"
proof -
  note d = subs_okD [OF ok]
  let ?i = "su_info (sp_subs s n)" and ?o = "opposite g"
  let ?s1 = "fst (unsubscribe_port c p g ?i False (unlink_subs g n s))"
  have web1: "same_web s ?s1" by (rule same_web_trans [OF unlink_subs_effect(1) unsubscribe_port_effect(1)])
  have l1: "lst h ?s1 q = (if h = g then filter (\<lambda>m. m \<noteq> n) (lst h s q) else lst h s q)" for h q
    by (simp add: unsubscribe_port_effect unlink_subs_effect)
  have c1: "cnt h ?s1 q = int (length (lst h ?s1 q))" for h q
  proof (cases "h = g")
    case True
    then show ?thesis using unlink_unsubscribe [OF ok n, of c ?i False q] l1 by simp
  next
    case False
    then show ?thesis using d(4) by (simp add: unsubscribe_port_effect unlink_subs_effect)
  qed
  have x1: "excl h ?s1 q = excl h s q" for h q by (simp add: unsubscribe_port_effect unlink_subs_effect)
  have al: "n \<in> sp_alive s" using d(6) [OF n] .
  have e: "(case g of SRC_LIST \<Rightarrow> pi_dest ?i | DEST_LIST \<Rightarrow> pi_sender ?i) = end_of ?o (info s n)"
    by (cases g) (simp_all add: end_of_def info_def)
  show ?thesis
  proof (cases "get_client_port (end_of ?o (info s n)) s")
    case None
    have far: "end_of ?o (info s n) \<notin> addr s ` regd s"
    proof
      assume "end_of ?o (info s n) \<in> addr s ` regd s"
      then obtain q where q: "q \<in> regd s" "addr s q = end_of ?o (info s n)" by auto
      have "inj_on (addr s) (regd s)" using d(2) by (rule inj_on_subset) simp
      from get_client_port_regd [OF cl this q(1)] show False using None q(2) by simp
    qed
    have s': "clear_subscriber c p g n s = drop_ref n ?s1" using None by (simp add: clear_subscriber_def Let_def e)
    have lg: "linked g s n" using n by (auto simp: linked_def)
    have ref: "su_ref_count (sp_subs s n) = (if linked ?o s n then 2 else 1)"
    proof -
      have "{h. linked h s n} = (if linked ?o s n then {g, ?o} else {g})" using lg group_cases [of _ g] by auto
      then show ?thesis using d(10) [OF al] by simp
    qed
    have "subs_ok E (drop_ref n ?s1)"
    proof (cases "linked ?o s n")
      case True
      show ?thesis
        by (rule subs_ok_half [OF ok p n True far])
          (use True ref web1 in \<open>simp_all add: drop_ref_effect same_webD [OF web1] l1 c1 x1\<close>)
    next
      case False
      then have no: "n \<notin> set (lst ?o s q)" for q by (auto simp: linked_def)
      have f: "filter (\<lambda>m. m \<noteq> n) (lst h s q) = (if h = g then filter (\<lambda>m. m \<noteq> n) (lst h s q) else lst h s q)" for h q
        using group_cases [of h g] no [of q] by (auto intro!: filter_True)
      show ?thesis
        by (rule subs_ok_gone [OF ok, where n = n])
          (use False ref f in \<open>simp_all add: drop_ref_effect same_webD [OF web1] l1 c1 x1\<close>)
    qed
    moreover have "clear_step g n p s (drop_ref n ?s1)"
      using cl clients_ok_web [OF web1] web1 by (auto simp: clear_step_def drop_ref_effect same_webD [OF web1] l1 x1) (simp_all add: same_web_def)
    ultimately show ?thesis unfolding s' by blast
  next
    case (Some ac)
    obtain a ca where a: "ac = (a, ca)" by force
    note ga = get_client_port_addr [OF cl Some [unfolded a]]
    have "linked ?o s n" using d(12) [OF al, of ?o] ga(1,2) by force
    then obtain q where q: "n \<in> set (lst ?o s q)" by (auto simp: linked_def)
    have "addr s q = addr s a" using d(7) [OF q] ga(2) by simp
    then have na: "n \<in> set (lst ?o s a)" using d(2) d(5) [OF q] ga(1) q by (metis UnCI inj_onD)
    let ?s2 = "fst (unsubscribe_port ca a ?o ?i True (unlink_subs ?o n ?s1))"
    have s': "clear_subscriber c p g n s = free_subs n ?s2" using Some a by (simp add: clear_subscriber_def Let_def e)
    have web2: "same_web s ?s2" by (rule same_web_trans [OF web1 same_web_trans [OF unlink_subs_effect(1) unsubscribe_port_effect(1)]])
    have l2: "lst h ?s2 q = filter (\<lambda>m. m \<noteq> n) (lst h s q)" for h q
      using group_cases [of h g] by (auto simp: unsubscribe_port_effect unlink_subs_effect)
    have c2: "cnt h ?s2 q = int (length (filter (\<lambda>m. m \<noteq> n) (lst h s q)))" for h q
    proof (cases "h = g")
      case True
      then show ?thesis using c1 [of g q] l1 by (simp add: unsubscribe_port_effect unlink_subs_effect)
    next
      case False
      then have h: "h = ?o" using group_cases by blast
      have "cnt ?o ?s2 q = cnt ?o (fst (unsubscribe_port ca a ?o ?i True (unlink_subs ?o n s))) q"
        by (simp add: unsubscribe_port_effect unlink_subs_effect)
      then show ?thesis unfolding h using unlink_unsubscribe [OF ok na] by simp
    qed
    have x2: "excl h ?s2 q = excl h s q" for h q by (simp add: unsubscribe_port_effect unlink_subs_effect)
    have "subs_ok E (free_subs n ?s2)"
      by (rule subs_ok_gone [OF ok, where n = n]) (simp_all add: free_subs_effect same_webD [OF web2] l2 c2 x2)
    moreover have "clear_step g n p s (free_subs n ?s2)"
      using cl clients_ok_web [OF web2] web2 by (auto simp: clear_step_def free_subs_effect same_webD [OF web2] l2 x2) (simp_all add: same_web_def)
    ultimately show ?thesis unfolding s' by blast
  qed
qed

lemma clear_fold_ok:
  assumes "subs_ok E s" "clients_ok s" "p \<in> E" "lst g s p = xs" "distinct xs"
  shows "subs_ok E (fold (clear_subscriber c p g) xs s) \<and> clients_ok (fold (clear_subscriber c p g) xs s) \<and>
    sp_client (fold (clear_subscriber c p g) xs s) = sp_client s \<and> addr (fold (clear_subscriber c p g) xs s) = addr s \<and>
    lst g (fold (clear_subscriber c p g) xs s) p = [] \<and>
    (\<forall>h q. set (lst h (fold (clear_subscriber c p g) xs s) q) \<subseteq> set (lst h s q)) \<and>
    (\<forall>q. po_closing (sp_port (fold (clear_subscriber c p g) xs s) q) = po_closing (sp_port s q)) \<and>
    (\<forall>h q. excl h (fold (clear_subscriber c p g) xs s) q = excl h s q)"
  using assms
proof (induction xs arbitrary: s)
  case (Cons n xs)
  let ?s1 = "clear_subscriber c p g n s"
  have k: "subs_ok E ?s1" "clear_step g n p s ?s1" using clear_subscriber_ok [OF Cons.prems(1-3), of n g c] Cons.prems(4) by auto
  then have "lst g ?s1 p = filter (\<lambda>m. m \<noteq> n) (n # xs)" using Cons.prems(4) by (simp add: clear_step_def)
  also have "\<dots> = xs" using Cons.prems(5) by (simp, intro filter_True) auto
  finally have l: "lst g ?s1 p = xs" .
  have "clients_ok ?s1" "distinct xs" using k(2) Cons.prems(5) by (simp_all add: clear_step_def)
  from Cons.IH [OF k(1) this(1) Cons.prems(3) l this(2)] show ?case using k(2) unfolding clear_step_def by simp blast
qed simp

lemma port_delete_ok:
  assumes ok: "subs_ok E s" and cl: "clients_ok s" and p: "p \<in> E"
  shows "subs_ok (E - {p}) (port_delete c p s) \<and> clients_ok (port_delete c p s) \<and> sp_client (port_delete c p s) = sp_client s \<and>
    addr (port_delete c p s) = addr s \<and> (\<forall>g. lst g (port_delete c p s) p = [] \<and> cnt g (port_delete c p s) p = 0) \<and>
    (\<forall>g q. set (lst g (port_delete c p s) q) \<subseteq> set (lst g s q) \<and> excl g (port_delete c p s) q = excl g s q)"
proof -
  let ?s1 = "upd_port p (\<lambda>q. q\<lparr>po_closing := True\<rparr>) s"
  have np: "p \<notin> regd s" using subs_okD(1) [OF ok] p by blast
  have e: "addr ?s1 = addr s" "regd ?s1 = regd s" "lst g ?s1 = lst g s" "cnt g ?s1 = cnt g s" "excl g ?s1 = excl g s" for g
    by (auto simp: addr_def regd_def lst_def cnt_def excl_def grp_def fun_eq_iff split: group_type.split)
  have ok1: "subs_ok E ?s1" using ok subs_ok_cong [of ?s1 s E, OF e] by simp
  have "q \<noteq> p" if "q \<in> set (cl_ports c)" "sp_client s k = Some c" for q k c using np that by (auto simp: regd_def)
  then have cl1: "clients_ok ?s1" using cl unfolding clients_ok_def e by (auto simp: addr_def)
  let ?s2 = "clear_subscriber_list c p SRC_LIST ?s1"
  let ?s3 = "clear_subscriber_list c p DEST_LIST ?s2"
  have f1: "subs_ok E ?s2 \<and> clients_ok ?s2 \<and> sp_client ?s2 = sp_client ?s1 \<and> addr ?s2 = addr ?s1 \<and> lst SRC_LIST ?s2 p = [] \<and>
      (\<forall>h q. set (lst h ?s2 q) \<subseteq> set (lst h ?s1 q) \<and> excl h ?s2 q = excl h ?s1 q)"
    using clear_fold_ok [OF ok1 cl1 p refl subs_okD(3) [OF ok1], of c SRC_LIST] unfolding clear_subscriber_list_def lst_def by blast
  then have f2: "subs_ok E ?s3 \<and> clients_ok ?s3 \<and> sp_client ?s3 = sp_client ?s2 \<and> addr ?s3 = addr ?s2 \<and> lst DEST_LIST ?s3 p = [] \<and>
      (\<forall>h q. set (lst h ?s3 q) \<subseteq> set (lst h ?s2 q) \<and> excl h ?s3 q = excl h ?s2 q)"
    using clear_fold_ok [of E ?s2 p DEST_LIST "lst DEST_LIST ?s2 p" c] subs_okD(3) [of E ?s2] p unfolding clear_subscriber_list_def lst_def by blast
  have sh: "set (lst g ?s3 q) \<subseteq> set (lst g s q) \<and> excl g ?s3 q = excl g s q" for g q using f1 f2 by (simp add: e) (meson subset_trans)
  have emp: "lst g ?s3 p = []" for g using f1 f2 group_cases [of g SRC_LIST] by (metis empty_set opposite_simps(4) subset_empty set_empty)
  have ok3: "subs_ok E ?s3" using f2 by blast
  have "subs_ok (E - {p}) ?s3"
  proof -
    have nq: "q \<noteq> p" if "n \<in> set (lst g ?s3 q)" for n g q using that emp [of g] by auto
    have "(E - {p}) \<inter> regd ?s3 = {}" "inj_on (addr ?s3) (regd ?s3 \<union> (E - {p}))"
      using subs_okD(1,2) [OF ok3] by (auto intro: inj_on_subset)
    moreover have "q \<in> regd ?s3 \<union> (E - {p})" if "n \<in> set (lst g ?s3 q)" for n g q using subs_okD(5) [OF ok3 that] nq [OF that] by blast
    moreover have "q \<in> E - {p}" if "n \<in> set (lst g ?s3 q)" "\<not> linked (opposite g) ?s3 n" for n g q
      using subs_okD(9) [OF ok3 that] nq [OF that(1)] by blast
    ultimately show ?thesis using ok3 unfolding subs_ok_def by blast
  qed
  moreover have "cnt g ?s3 p = 0" for g using subs_okD(4) [OF ok3] emp by simp
  ultimately have fin: "subs_ok (E - {p}) ?s3 \<and> clients_ok ?s3 \<and> sp_client ?s3 = sp_client s \<and> addr ?s3 = addr s \<and>
      (\<forall>g. lst g ?s3 p = [] \<and> cnt g ?s3 p = 0)" using f1 f2 emp e(1) by simp
  show ?thesis
  proof (cases "po_private_free (sp_port ?s3 p)")
    case None
    then show ?thesis using fin sh by (simp add: port_delete_def Let_def)
  next
    case (Some f)
    let ?s4 = "?s3\<lparr>sp_world := f (sp_world ?s3)\<rparr>"
    have w: "addr ?s4 = addr ?s3" "regd ?s4 = regd ?s3" "lst g ?s4 = lst g ?s3" "cnt g ?s4 = cnt g ?s3" "excl g ?s4 = excl g ?s3" for g
      by (simp_all add: addr_def regd_def lst_def cnt_def excl_def fun_eq_iff)
    have "same_web ?s3 ?s4" by (simp add: same_web_def addr_def)
    then have "clients_ok ?s4" using fin clients_ok_web by blast
    moreover have "subs_ok (E - {p}) ?s4 = subs_ok (E - {p}) ?s3" by (rule subs_ok_cong [OF w]) simp_all
    ultimately have "subs_ok (E - {p}) ?s4" "clients_ok ?s4" using fin by blast+
    then show ?thesis using fin sh Some by (simp add: port_delete_def Let_def w)
  qed
qed

end
