(* ===== verification/Seq_Port_Steps.thy ===== *)
theory Seq_Port_Steps
  imports Seq_Subs
begin

text \<open>
  Connecting, disconnecting, creating and deleting keep the web of subscriptions whole, through any sequence
  of ioctls; and two gaps: an exclusive connection that outlives its port, and two ports with one number.
\<close>

section \<open>Connecting\<close>

lemma subscribe_port_effect:
  assumes "subscribe_port c p g i b s = (s', r)"
  shows "same_web s s'" "lst h s' q = lst h s q" "excl h s' q = excl h s q"
    "cnt h s' q = (if h = g \<and> q = p \<and> r = Inr () then cnt h s q + 1 else cnt h s q)"
proof -
  let ?f = "\<lambda>k i. i\<lparr>si_count := si_count i + k\<rparr>"
  have "sp_client s' = sp_client s \<and> sp_subs s' = sp_subs s \<and> sp_alive s' = sp_alive s \<and>
    sp_port s' = (if r = Inr () then (sp_port s)(p := upd_grp g (\<lambda>i. i\<lparr>si_count := si_count i + 1\<rparr>) (sp_port s p)) else sp_port s)"
    using assms
    by (cases g) (auto simp: subscribe_port_def Let_def call_back_def fun_eq_iff upd_grp_def grp_def split: prod.splits option.splits if_splits sum.splits)
  then show "same_web s s'" "lst h s' q = lst h s q" "excl h s' q = excl h s q"
    "cnt h s' q = (if h = g \<and> q = p \<and> r = Inr () then cnt h s q + 1 else cnt h s q)"
    by (auto simp: same_web_def lst_def cnt_def excl_def addr_def)
qed

lemma subs_ok_web:
  assumes "same_web s s'" "\<And>h q. lst h s' q = lst h s q" "\<And>h q. excl h s' q = excl h s q" "\<And>h q. cnt h s' q = cnt h s q"
  shows "subs_ok E s' = subs_ok E s"
  by (rule subs_ok_cong) (use assms same_webD [OF assms(1)] in \<open>auto simp: fun_eq_iff\<close>)

lemma all_linked: "subs_ok {} s \<Longrightarrow> n \<in> sp_alive s \<Longrightarrow> linked g s n"
  using subs_okD(11) [of "{}" s n] subs_okD(9) [of "{}" s n] group_cases [of g] unfolding linked_def by (metis empty_iff opposite_simps(1))

lemma subs_ok_link:
  assumes ok: "subs_ok {} s" and n: "n \<notin> sp_alive s"
    and t: "\<And>g. tgt g \<in> regd s" "\<And>g. addr s (tgt g) = end_of g i"
    and free: "\<And>g. if bit (pi_flags i) SUBS_EXCLUSIVE then lst g s (tgt g) = [] else \<not> excl g s (tgt g)"
    and reg: "regd s' = regd s" "addr s' = addr s"
    and inf: "sp_subs s' = (sp_subs s)(n := \<lparr>su_info = i, su_ref_count = 2\<rparr>)" "sp_alive s' = insert n (sp_alive s)"
    and l: "\<And>g q. lst g s' q = (if q = tgt g then lst g s q @ [n] else lst g s q)" "\<And>g q. cnt g s' q = int (length (lst g s' q))"
    and x: "\<And>g q. excl g s' q = (if q = tgt g then bit (pi_flags i) SUBS_EXCLUSIVE else excl g s q)"
  shows "subs_ok {} s'"
proof -
  note d = subs_okD [OF ok]
  have new: "n \<notin> set (lst g s q)" for g q using d(6) n by blast
  have i: "info s' m = (if m = n then i else info s m)" for m by (simp add: info_def inf)
  have mem: "m \<in> set (lst g s' q) \<longleftrightarrow> m \<in> set (lst g s q) \<or> m = n \<and> q = tgt g" for g q m by (auto simp: l(1))
  have lk: "linked g s' m \<longleftrightarrow> m = n \<or> linked g s m" for g m unfolding linked_def mem by blast
  have "q \<in> regd s' \<union> {} \<and> m \<in> sp_alive s' \<and> addr s' q = end_of g (info s' m) \<and>
        (exclusive s' m \<longrightarrow> lst g s' q = [m] \<and> excl g s' q) \<and> (\<not> linked (opposite g) s' m \<longrightarrow> q \<in> {})" if m: "m \<in> set (lst g s' q)" for g q m
  proof (cases "m = n")
    case True
    then have q: "q = tgt g" using m l(1) new by (auto split: if_splits)
    show ?thesis using t free [of g] by (simp add: True q reg inf i lk l(1) x exclusive_def)
  next
    case False
    then have m1: "m \<in> set (lst g s q)" using m l(1) by (auto split: if_splits)
    have lm: "linked (opposite g) s m" using all_linked [OF ok d(6) [OF m1]] .
    have "lst g s' q = [m] \<and> excl g s' q" if "exclusive s' m"
    proof -
      have e: "lst g s q = [m] \<and> excl g s q" using d(8) [OF m1] that False by (simp add: exclusive_def i)
      then have "q \<noteq> tgt g" using free [of g] by (auto split: if_splits)
      then show ?thesis using e by (simp add: l(1) x)
    qed
    then show ?thesis using False d(5,6,7) [OF m1] lm by (simp add: reg inf i lk)
  qed
  moreover have "su_ref_count (sp_subs s' m) = int (card {g. linked g s' m}) \<and> (\<exists>g. linked g s' m) \<and>
        (\<forall>g. linked g s' m \<or> end_of g (info s' m) \<notin> addr s' ` regd s')" if m: "m \<in> sp_alive s'" for m
  proof (cases "m = n")
    case True
    have "{g. linked g s' n} = {SRC_LIST, DEST_LIST}" using lk group_cases [of _ SRC_LIST] by auto
    then have "card {g. linked g s' n} = 2" by (simp only: card_2_iff) blast
    then show ?thesis using True by (simp add: inf lk)
  next
    case False
    then show ?thesis using d(10,11,12) [of m] m by (simp add: inf lk i reg)
  qed
  moreover have "distinct (lst g s' q)" for g q using d(3) new by (simp add: l(1))
  ultimately show ?thesis using d(1,2) l(2) unfolding subs_ok_def reg by blast
qed

text \<open>Invariant of the state between two ioctls.\<close>

definition web_ok :: "'w seq_ports \<Rightarrow> bool" where
  "web_ok s \<longleftrightarrow> clients_ok s \<and> subs_ok {} s"

lemma web_ok_same: "same_web s s' \<Longrightarrow> (\<And>h q. lst h s' q = lst h s q) \<Longrightarrow> (\<And>h q. excl h s' q = excl h s q) \<Longrightarrow>
    (\<And>h q. cnt h s' q = cnt h s q) \<Longrightarrow> web_ok s' = web_ok s"
  unfolding web_ok_def using subs_ok_web [of s s'] clients_ok_web [of s s'] by blast

lemma link_subs_effect:
  "sp_client (link_subs n i sp dp b s) = sp_client s" "addr (link_subs n i sp dp b s) = addr s" "regd (link_subs n i sp dp b s) = regd s"
  "sp_subs (link_subs n i sp dp b s) = (sp_subs s)(n := \<lparr>su_info = i, su_ref_count = 2\<rparr>)" "sp_alive (link_subs n i sp dp b s) = insert n (sp_alive s)"
  "lst g (link_subs n i sp dp b s) q = (if q = (case g of SRC_LIST \<Rightarrow> sp | DEST_LIST \<Rightarrow> dp) then lst g s q @ [n] else lst g s q)"
  "excl g (link_subs n i sp dp b s) q = (if q = (case g of SRC_LIST \<Rightarrow> sp | DEST_LIST \<Rightarrow> dp) then b else excl g s q)"
  "cnt g (link_subs n i sp dp b s) q = cnt g s q" "po_closing (sp_port (link_subs n i sp dp b s) q) = po_closing (sp_port s q)"
  by (cases g; auto simp: link_subs_def addr_def regd_def lst_def excl_def cnt_def fun_eq_iff upd_port_def)+

lemma snd_seq_port_connect_ok:
  assumes ok: "web_ok s" and p: "sp \<in> regd s" "dp \<in> regd s" "addr s sp = pi_sender i" "addr s dp = pi_dest i"
    and n: "\<And>n. fresh = Some n \<Longrightarrow> n \<notin> sp_alive s"
  shows "web_ok (fst (snd_seq_port_connect k sc sp dc dp i fresh s))"
proof (cases fresh)
  case (Some m)
  let ?b = "bit (pi_flags i) SUBS_EXCLUSIVE"
  have sub: "subs_ok {} s" and cl: "clients_ok s" using ok by (simp_all add: web_ok_def)
  show ?thesis
  proof (cases "connect_refused (po_c_src (sp_port s sp)) (po_c_dest (sp_port s dp)) i s")
    case True
    then show ?thesis using ok Some by (simp add: snd_seq_port_connect_def)
  next
    case False
    obtain s1 r1 where s1: "subscribe_port sc sp SRC_LIST i (k \<noteq> cl_number sc) s = (s1, r1)" by force
    note e1 = subscribe_port_effect [OF s1]
    show ?thesis
    proof (cases r1)
      case (Inl e)
      then have "web_ok s1" using ok web_ok_same [OF e1(1-3)] e1(4) by simp
      then show ?thesis using Some False s1 Inl by (simp add: snd_seq_port_connect_def)
    next
      case (Inr u)
      obtain s2 r2 where s2: "subscribe_port dc dp DEST_LIST i (k \<noteq> cl_number dc) s1 = (s2, r2)" by force
      note e2 = subscribe_port_effect [OF s2]
      have web: "same_web s s2" by (rule same_web_trans [OF e1(1) e2(1)])
      show ?thesis
      proof (cases r2)
        case (Inl e)
        let ?s3 = "fst (unsubscribe_port sc sp SRC_LIST i (k \<noteq> cl_number sc) s2)"
        have "cnt SRC_LIST s sp \<ge> 0" using subs_okD(4) [OF sub] by simp
        then have "web_ok ?s3 = web_ok s"
          by (intro web_ok_same same_web_trans [OF web unsubscribe_port_effect(1)])
            (use e1 e2 Inl Inr in \<open>auto simp: unsubscribe_port_effect\<close>)
        then show ?thesis using ok Some False s1 s2 Inl Inr by (simp add: snd_seq_port_connect_def)
      next
        case (Inr u2)
        let ?s3 = "link_subs m i sp dp ?b s2"
        let ?t = "\<lambda>g. case g of SRC_LIST \<Rightarrow> sp | DEST_LIST \<Rightarrow> dp"
        have c2: "cnt g s2 q = cnt g s q + (if q = ?t g then 1 else 0)" for g q
          using e1(4) e2(4) \<open>r1 = Inr u\<close> Inr by (cases g) auto
        have "subs_ok {} ?s3"
        proof (rule subs_ok_link [OF sub n [OF Some], where tgt = ?t and i = i])
          show "?t g \<in> regd s" "addr s (?t g) = end_of g i" for g using p by (cases g; simp add: end_of_def)+
          show "if ?b then lst g s (?t g) = [] else \<not> excl g s (?t g)" for g
            using False by (cases g) (auto simp: connect_refused_def lst_def excl_def grp_def split: if_splits)
          show "cnt g ?s3 q = int (length (lst g ?s3 q))" for g q
            using subs_okD(4) [OF sub, of g q] by (simp add: link_subs_effect c2 e1(2) e2(2))
        qed (simp_all add: link_subs_effect same_webD [OF web] e1 e2)
        moreover have "clients_ok ?s3" using cl clients_ok_web [OF web] by (simp add: clients_ok_def link_subs_effect)
        ultimately show ?thesis using Some False s1 s2 Inr \<open>r1 = Inr u\<close> by (simp add: snd_seq_port_connect_def web_ok_def)
      qed
    qed
  qed
qed (use ok in \<open>simp add: snd_seq_port_connect_def\<close>)

section \<open>Disconnecting\<close>

lemma upd_exclusive_effect:
  "same_web s (upd_port p (upd_grp g (\<lambda>i. i\<lparr>si_exclusive := b\<rparr>)) s)" "lst h (upd_port p (upd_grp g (\<lambda>i. i\<lparr>si_exclusive := b\<rparr>)) s) q = lst h s q"
  "cnt h (upd_port p (upd_grp g (\<lambda>i. i\<lparr>si_exclusive := b\<rparr>)) s) q = cnt h s q"
  "excl h (upd_port p (upd_grp g (\<lambda>i. i\<lparr>si_exclusive := b\<rparr>)) s) q = (if h = g \<and> q = p then b else excl h s q)"
  by (auto simp: same_web_def addr_def lst_def cnt_def excl_def)

lemma snd_seq_port_disconnect_ok:
  assumes ok: "web_ok s" and p: "sp \<in> regd s" "dp \<in> regd s" "addr s sp = pi_sender i" "addr s dp = pi_dest i"
  shows "web_ok (fst (snd_seq_port_disconnect k sc sp dc dp i s))"
proof (cases "List.find (\<lambda>n. match_subs_info i (su_info (sp_subs s n))) (si_list (po_c_src (sp_port s sp)))")
  case (Some n)
  have sub: "subs_ok {} s" and cl: "clients_ok s" using ok by (simp_all add: web_ok_def)
  note d = subs_okD [OF sub]
  have n: "n \<in> set (lst SRC_LIST s sp)" and m: "match_subs_info i (su_info (sp_subs s n))"
    using find_member [OF Some] by (simp_all add: lst_def grp_def)
  have "linked DEST_LIST s n" using all_linked [OF sub d(6) [OF n]] .
  then obtain q where q: "n \<in> set (lst DEST_LIST s q)" by (auto simp: linked_def)
  have "addr s q = addr s dp" using d(7) [OF q] m p(4) by (auto simp: match_subs_info_def addr_match_def end_of_def info_def prod_eq_iff split: if_splits)
  then have nd: "n \<in> set (lst DEST_LIST s dp)" using d(2) d(5) [OF q] p(2) q by (metis UnCI inj_onD)
  let ?s1 = "unlink_subs DEST_LIST n (unlink_subs SRC_LIST n s)"
  let ?s2 = "upd_port dp (upd_grp DEST_LIST (\<lambda>i. i\<lparr>si_exclusive := False\<rparr>)) (upd_port sp (upd_grp SRC_LIST (\<lambda>i. i\<lparr>si_exclusive := False\<rparr>)) ?s1)"
  let ?s3 = "fst (unsubscribe_port sc sp SRC_LIST i (k \<noteq> cl_number sc) ?s2)"
  let ?s4 = "fst (unsubscribe_port dc dp DEST_LIST i (k \<noteq> cl_number dc) ?s3)"
  have web: "same_web s ?s4"
    by (intro same_web_trans [OF _ unsubscribe_port_effect(1)] same_web_trans [OF _ upd_exclusive_effect(1)] same_web_trans [OF _ unlink_subs_effect(1)] same_web_refl)
  have l: "lst g ?s4 q = filter (\<lambda>m. m \<noteq> n) (lst g s q)" for g q
    by (cases g) (simp_all add: unsubscribe_port_effect upd_exclusive_effect unlink_subs_effect)
  have c: "cnt g ?s4 q = int (length (filter (\<lambda>m. m \<noteq> n) (lst g s q)))" for g q
  proof (cases g)
    case SRC_LIST
    have "cnt SRC_LIST ?s4 q = cnt SRC_LIST (fst (unsubscribe_port sc sp SRC_LIST i False (unlink_subs SRC_LIST n s))) q"
      by (simp add: unsubscribe_port_effect upd_exclusive_effect unlink_subs_effect)
    then show ?thesis using unlink_unsubscribe [OF sub n] SRC_LIST by simp
  next
    case DEST_LIST
    have "cnt DEST_LIST ?s4 q = cnt DEST_LIST (fst (unsubscribe_port dc dp DEST_LIST i False (unlink_subs DEST_LIST n s))) q"
      by (simp add: unsubscribe_port_effect upd_exclusive_effect unlink_subs_effect)
    then show ?thesis using unlink_unsubscribe [OF sub nd] DEST_LIST by simp
  qed
  have x: "excl g ?s4 q = excl g s q" if "n \<notin> set (lst g s q)" for g q
    using that n nd by (cases g) (auto simp: unsubscribe_port_effect upd_exclusive_effect unlink_subs_effect)
  have "subs_ok {} (free_subs n ?s4)"
    by (rule subs_ok_gone [OF sub, where n = n]) (simp_all add: free_subs_effect same_webD [OF web] l c x)
  moreover have "clients_ok (free_subs n ?s4)" using cl clients_ok_web [OF web] by (simp add: free_subs_effect)
  ultimately show ?thesis using Some by (simp add: snd_seq_port_disconnect_def Let_def web_ok_def)
qed (use ok in \<open>simp add: snd_seq_port_disconnect_def\<close>)

section \<open>Taking ports out of the list of a client\<close>

lemma clients_unique:
  assumes "clients_ok s" "sp_client s k = Some c" "sp_client s k' = Some c'" "q \<in> set (cl_ports c)" "q \<in> set (cl_ports c')"
  shows "k' = k"
proof -
  have "0 \<le> k" "k < 192" "0 \<le> k'" "k' < 192" "fst (addr s q) = of_int k" "fst (addr s q) = of_int k'"
    using assms unfolding clients_ok_def by blast+
  then have "uint (of_int k :: u8) = uint (of_int k' :: u8)" by simp
  then show ?thesis using \<open>0 \<le> k\<close> \<open>k < 192\<close> \<open>0 \<le> k'\<close> \<open>k' < 192\<close> by (simp add: uint_word_of_int_eq take_bit_eq_mod)
qed

lemma unregister_ok:
  assumes ok: "web_ok s" and c: "sp_client s (cl_number c) = Some c" and ps: "ps = filter P (cl_ports c)"
    and s': "s' = upd_client (c\<lparr>cl_ports := ps, cl_num_ports := int (length ps)\<rparr>) s"
  shows "clients_ok s'" "subs_ok (set (cl_ports c) - set ps) s'" "addr s' = addr s"
proof -
  have sub: "subs_ok {} s" and cl: "clients_ok s" using ok by (simp_all add: web_ok_def)
  note d = subs_okD [OF sub]
  have k: "cl_number c = cl_number c" "0 \<le> cl_number c" "cl_number c < 192" "sorted_wrt (<) (map (\<lambda>p. uint (snd (addr s p))) (cl_ports c))"
    "\<forall>p\<in>set (cl_ports c). fst (addr s p) = of_int (cl_number c) \<and> \<not> po_closing (sp_port s p)"
    using cl c unfolding clients_ok_def by blast+
  show ad: "addr s' = addr s" by (simp add: s' upd_client_def addr_def fun_eq_iff)
  have e: "lst g s' = lst g s" "cnt g s' = cnt g s" "excl g s' = excl g s" "info s' = info s" "sp_subs s' = sp_subs s" "sp_alive s' = sp_alive s"
    "exclusive s' = exclusive s" "linked g s' = linked g s" for g
    by (simp_all add: s' upd_client_def lst_def cnt_def excl_def info_def exclusive_def linked_def fun_eq_iff)
  have sp: "set ps \<subseteq> set (cl_ports c)" by (auto simp: ps)
  have srt: "sorted_wrt (<) (map (\<lambda>p. uint (snd (addr s p))) ps)"
    using k(4) unfolding ps sorted_wrt_map by (rule sorted_wrt_filter)
  show "clients_ok s'"
    using cl srt k sp unfolding clients_ok_def ad by (auto simp: s' upd_client_def)
  let ?E = "set (cl_ports c) - set ps"
  have reg: "regd s' = regd s - ?E"
  proof (intro set_eqI iffI)
    fix q assume "q \<in> regd s'"
    then obtain k' c' where q: "sp_client s' k' = Some c'" "q \<in> set (cl_ports c')" by (auto simp: regd_def)
    show "q \<in> regd s - ?E"
    proof (cases "k' = cl_number c")
      case True
      then have "q \<in> set ps" using q by (auto simp: s' upd_client_def)
      then show ?thesis using c sp by (auto simp: regd_def)
    next
      case False
      then have q': "sp_client s k' = Some c'" using q by (simp add: s' upd_client_def)
      then have "q \<notin> set (cl_ports c)" using clients_unique [OF cl q' c q(2)] False by auto
      then show ?thesis using q' q(2) by (auto simp: regd_def)
    qed
  next
    fix q assume q: "q \<in> regd s - ?E"
    then obtain k' c' where "sp_client s k' = Some c'" "q \<in> set (cl_ports c')" by (auto simp: regd_def)
    then show "q \<in> regd s'" using q c by (cases "k' = cl_number c") (auto simp: regd_def s' upd_client_def)
  qed
  have "set (cl_ports c) \<subseteq> regd s" using c by (auto simp: regd_def)
  then have u: "regd s' \<union> ?E = regd s" using reg by blast
  have lk: "linked g s n" if "n \<in> sp_alive s" for g n using all_linked [OF sub that] .
  have "?E \<inter> regd s' = {}" using reg by blast
  moreover have "inj_on (addr s) (regd s)" using d(2) by simp
  moreover have "q \<in> regd s" if "n \<in> set (lst g s q)" for g q n using d(5) [OF that] by simp
  moreover have "linked (opposite g) s n" if "n \<in> set (lst g s q)" for g q n using lk [OF d(6) [OF that]] .
  ultimately show "subs_ok ?E s'" using d(3,4,6,7,8,10) lk unfolding subs_ok_def u e ad by (intro conjI allI impI ballI) (blast | simp)+
qed

section \<open>Deleting\<close>

text \<open>One port after the other, the last one leaves nothing behind.\<close>

lemma port_deletes_ok:
  assumes "subs_ok (set ps) s" "clients_ok s" "distinct ps"
    and f: "\<And>p s. same_web s (f p s)" "\<And>p s h q. lst h (f p s) q = lst h s q" "\<And>p s h q. excl h (f p s) q = excl h s q" "\<And>p s h q. cnt h (f p s) q = cnt h s q"
  shows "web_ok (fold (\<lambda>p s. port_delete c p (f p s)) ps s)"
  using assms(1-3)
proof (induction ps arbitrary: s)
  case (Cons p ps)
  have "subs_ok (set (p # ps)) (f p s)" "clients_ok (f p s)"
    using Cons.prems subs_ok_web [OF f(1) f(2) f(3) f(4)] clients_ok_web [OF f(1)] by blast+
  then have "subs_ok (set (p # ps) - {p}) (port_delete c p (f p s))" "clients_ok (port_delete c p (f p s))"
    using port_delete_ok [of "set (p # ps)" "f p s" p c] by auto
  moreover have "set (p # ps) - {p} = set ps" using Cons.prems(3) by auto
  ultimately show ?case using Cons.IH Cons.prems(3) by simp
qed (simp add: web_ok_def)

lemma ports_distinct: "clients_ok s \<Longrightarrow> sp_client s k = Some c \<Longrightarrow> distinct (cl_ports c)"
proof -
  assume "clients_ok s" "sp_client s k = Some c"
  then have "sorted_wrt (<) (map (\<lambda>p. uint (snd (addr s p))) (cl_ports c))" unfolding clients_ok_def by blast
  then have "distinct (map (\<lambda>p. uint (snd (addr s p))) (cl_ports c))" by (simp only: strict_sorted_iff)
  then show ?thesis by (simp add: distinct_map)
qed

lemma snd_seq_delete_port_found:
  assumes ok: "web_ok s" and c: "sp_client s (cl_number c) = Some c"
    and f: "List.find (\<lambda>p. port_no (sp_port s p) = port) (cl_ports c) = Some p"
  shows "web_ok (fst (snd_seq_delete_port c port s))" "lst g (fst (snd_seq_delete_port c port s)) p = []"
    "cnt g (fst (snd_seq_delete_port c port s)) p = 0" "set (lst g (fst (snd_seq_delete_port c port s)) q) \<subseteq> set (lst g s q)"
    "excl g (fst (snd_seq_delete_port c port s)) q = excl g s q" "snd (snd_seq_delete_port c port s) = Inr ()"
proof -
  let ?c = "c\<lparr>cl_ports := remove1 p (cl_ports c), cl_num_ports := cl_num_ports c - 1\<rparr>"
  let ?s1 = "upd_client ?c s"
  have cl: "clients_ok s" using ok by (simp add: web_ok_def)
  have d: "distinct (cl_ports c)" by (rule ports_distinct [OF cl c])
  have p: "p \<in> set (cl_ports c)" using find_member [OF f] by blast
  have "cl_num_ports c = int (length (cl_ports c))" using cl c unfolding clients_ok_def by blast
  moreover have r: "remove1 p (cl_ports c) = filter (\<lambda>q. q \<noteq> p) (cl_ports c)"
    using distinct_remove1_removeAll [OF d] by (simp add: removeAll_filter_not_eq eq_commute [of _ p])
  moreover have "length (filter (\<lambda>q. q \<noteq> p) (cl_ports c)) = length (cl_ports c) - 1" using length_filter_ne [OF d p] .
  moreover have "cl_ports c \<noteq> []" using p by auto
  ultimately have n: "cl_num_ports c - 1 = int (length (remove1 p (cl_ports c)))" by (cases "cl_ports c") auto
  note u = unregister_ok [OF ok c r, of ?s1, unfolded n, OF refl]
  have "set (cl_ports c) - set (remove1 p (cl_ports c)) = {p}" using d p by auto
  then have "subs_ok {p} ?s1" "clients_ok ?s1" using u n by simp_all
  from port_delete_ok [OF this, of p ?c] have k: "web_ok (port_delete ?c p ?s1)" "lst g (port_delete ?c p ?s1) p = []"
    "cnt g (port_delete ?c p ?s1) p = 0" "set (lst g (port_delete ?c p ?s1) q) \<subseteq> set (lst g ?s1 q)"
    "excl g (port_delete ?c p ?s1) q = excl g ?s1 q" by (simp_all add: web_ok_def)
  have "lst g ?s1 q = lst g s q" "excl g ?s1 q = excl g s q" by (simp_all add: upd_client_def lst_def excl_def)
  then show "web_ok (fst (snd_seq_delete_port c port s))" "lst g (fst (snd_seq_delete_port c port s)) p = []"
    "cnt g (fst (snd_seq_delete_port c port s)) p = 0" "set (lst g (fst (snd_seq_delete_port c port s)) q) \<subseteq> set (lst g s q)"
    "excl g (fst (snd_seq_delete_port c port s)) q = excl g s q" "snd (snd_seq_delete_port c port s) = Inr ()"
    using k f by (simp_all add: snd_seq_delete_port_def Let_def)
qed

lemma snd_seq_delete_port_ok:
  assumes "web_ok s" "sp_client s (cl_number c) = Some c"
  shows "web_ok (fst (snd_seq_delete_port c port s))"
proof (cases "List.find (\<lambda>p. port_no (sp_port s p) = port) (cl_ports c)")
  case (Some p)
  then show ?thesis using snd_seq_delete_port_found(1) [OF assms] by blast
qed (use assms in \<open>simp add: snd_seq_delete_port_def\<close>)

lemma tell_web: "same_web s (tell a s)" "lst h (tell a s) q = lst h s q" "excl h (tell a s) q = excl h s q" "cnt h (tell a s) q = cnt h s q"
  by (simp_all add: same_web_def addr_def lst_def excl_def cnt_def)

lemma tell_ok [simp]: "web_ok (tell a s) = web_ok s"
  by (rule web_ok_same [OF tell_web])

lemma snd_seq_delete_all_ports_ok:
  assumes ok: "web_ok s" and c: "sp_client s (cl_number c) = Some c"
  shows "web_ok (snd_seq_delete_all_ports c s)"
proof -
  have cl: "clients_ok s" using ok by (simp add: web_ok_def)
  let ?s1 = "upd_client (c\<lparr>cl_ports := [], cl_num_ports := 0\<rparr>) s"
  have "[] = filter (\<lambda>_. False) (cl_ports c)" by simp
  note u = unregister_ok [OF ok c this, of ?s1]
  have "subs_ok (set (cl_ports c)) ?s1" "clients_ok ?s1" using u by simp_all
  then show ?thesis unfolding snd_seq_delete_all_ports_def Let_def
    by (intro port_deletes_ok [OF _ _ ports_distinct [OF cl c]] tell_web)
qed

end
