(* ===== verification/Seq_Port_Create.thy ===== *)
theory Seq_Port_Create
  imports Seq_Port_Steps
begin

text \<open>
  Creating ports, the ioctls on ports as steps, and what every sequence of them keeps.
\<close>

section \<open>Creating\<close>

definition put_between :: "(nat \<Rightarrow> int) \<Rightarrow> nat \<Rightarrow> nat list \<Rightarrow> nat list \<Rightarrow> int \<Rightarrow> bool" where
  "put_between no new ps ps' n \<longleftrightarrow>
     (\<exists>as bs. ps = as @ bs \<and> ps' = as @ new # bs \<and> (\<forall>p\<in>set as. no p < n) \<and> (\<forall>p\<in>set bs. n < no p))"

lemma put_between_Cons: "no p < n \<Longrightarrow> put_between no new ps ps' n \<Longrightarrow> put_between no new (p # ps) (p # ps') n"
  unfolding put_between_def
proof (elim exE conjE)
  fix as bs assume "no p < n" "ps = as @ bs" "ps' = as @ new # bs" "\<forall>p\<in>set as. no p < n" "\<forall>p\<in>set bs. n < no p"
  then show "\<exists>as bs. p # ps = as @ bs \<and> p # ps' = as @ new # bs \<and> (\<forall>p\<in>set as. no p < n) \<and> (\<forall>p\<in>set bs. n < no p)"
    by (intro exI [of _ "p # as"] exI [of _ bs]) simp
qed

lemma insert_port_auto:
  "insert_port no True num new ps = (ps', n) \<Longrightarrow> sorted_wrt (<) (map no ps) \<Longrightarrow> \<forall>p\<in>set ps. num \<le> no p \<Longrightarrow>
    put_between no new ps ps' n \<and> num \<le> n \<and> n \<le> num + int (length ps)"
proof (induction ps arbitrary: num ps' n)
  case Nil
  then show ?case by (auto simp: put_between_def)
next
  case (Cons p ps)
  show ?case
  proof (cases "no p > num")
    case True
    then have "ps' = new # p # ps" "n = num" using Cons.prems(1) by auto
    moreover have "\<forall>q\<in>set (p # ps). num < no q" using True Cons.prems(2) by auto
    ultimately show ?thesis unfolding put_between_def by (intro conjI exI [of _ "[]"] exI [of _ "p # ps"]) auto
  next
    case False
    then have p: "no p = num" using Cons.prems(3) by auto
    obtain qs m where r: "insert_port no True (no p + 1) new ps = (qs, m)" by force
    then have e: "ps' = p # qs" "n = m" using Cons.prems(1) False by auto
    have "sorted_wrt (<) (map no ps)" "\<forall>q\<in>set ps. no p + 1 \<le> no q" using Cons.prems(2) by auto
    from Cons.IH [OF r this] have i: "put_between no new ps qs m" "no p + 1 \<le> m" "m \<le> no p + 1 + int (length ps)" by auto
    then show ?thesis using put_between_Cons [of no p m new ps qs] p e by auto
  qed
qed

lemma insert_port_given:
  "insert_port no False num new ps = (ps', n) \<Longrightarrow> sorted_wrt (<) (map no ps) \<Longrightarrow> \<forall>p\<in>set ps. no p \<noteq> num \<Longrightarrow> put_between no new ps ps' n \<and> n = num"
proof (induction ps arbitrary: ps' n)
  case Nil
  then show ?case by (auto simp: put_between_def)
next
  case (Cons p ps)
  show ?case
  proof (cases "no p > num")
    case True
    then have "ps' = new # p # ps" "n = num" using Cons.prems(1) by auto
    moreover have "\<forall>q\<in>set (p # ps). num < no q" using True Cons.prems(2) by auto
    ultimately show ?thesis unfolding put_between_def by (intro conjI exI [of _ "[]"] exI [of _ "p # ps"]) auto
  next
    case False
    obtain qs m where r: "insert_port no False num new ps = (qs, m)" by force
    then have e: "ps' = p # qs" "n = m" using Cons.prems(1) False by auto
    have "no p < num" using False Cons.prems(3) by (simp add: le_neq_trans)
    then show ?thesis using Cons.IH [OF r] Cons.prems(2,3) put_between_Cons [of no p m new ps qs] e by auto
  qed
qed

text \<open>\<open>port\<close> is a free number of the client, or negative.\<close>

definition free_number :: "snd_seq_client \<Rightarrow> int \<Rightarrow> 'w seq_ports \<Rightarrow> bool" where
  "free_number c port s \<longleftrightarrow> port < 256 \<and> (\<forall>p\<in>set (cl_ports c). uint (snd (addr s p)) \<noteq> port)"

lemma snd_seq_create_port_ok:
  assumes ok: "web_ok s" and c: "sp_client s (cl_number c) = Some c" and f: "free_number c port s" and new: "new \<notin> regd s"
    and r: "snd_seq_create_port c port (Some new) s = (s', Some p)"
  shows "web_ok s'" "p = new" "\<exists>c'. sp_client s' (cl_number c) = Some c' \<and> cl_number c' = cl_number c"
proof -
  have sub: "subs_ok {} s" and cl: "clients_ok s" using ok by (simp_all add: web_ok_def)
  note d = subs_okD [OF sub]
  let ?no = "\<lambda>p. uint (snd (addr s p))"
  have k: "0 \<le> cl_number c" "cl_number c < 192" "sorted_wrt (<) (map ?no (cl_ports c))" "cl_num_ports c = int (length (cl_ports c))"
    "\<forall>p\<in>set (cl_ports c). fst (addr s p) = of_int (cl_number c) \<and> \<not> po_closing (sp_port s p)"
    using cl c unfolding clients_ok_def by blast+
  have small: "cl_num_ports c < MAX_PORTS - 1" using r by (auto simp: snd_seq_create_port_def split: if_splits)
  obtain ports num where i: "insert_port ?no (port < 0) (if port \<ge> 0 then port else 0) new (cl_ports c) = (ports, num)" by force
  have pb: "put_between ?no new (cl_ports c) ports num" and num: "0 \<le> num" "num < 256"
  proof -
    have "put_between ?no new (cl_ports c) ports num \<and> 0 \<le> num \<and> num < 256"
    proof (cases "port < 0")
      case True
      then have "insert_port ?no True 0 new (cl_ports c) = (ports, num)" using i by simp
      from insert_port_auto [OF this k(3)] show ?thesis using small k(4) by auto
    next
      case False
      then have "insert_port ?no False port new (cl_ports c) = (ports, num)" using i by simp
      from insert_port_given [OF this k(3)] show ?thesis using f False by (auto simp: free_number_def)
    qed
    then show "put_between ?no new (cl_ports c) ports num" "0 \<le> num" "num < 256" by auto
  qed
  let ?a = "(of_int (cl_number c), of_int num) :: seq_addr"
  have un: "uint (of_int num :: u8) = num" using num by (simp add: uint_word_of_int_eq take_bit_eq_mod)
  have i': "insert_port (\<lambda>p. port_no (sp_port s p)) (port < 0) (if port \<ge> 0 then port else 0) new (cl_ports c) = (ports, num)"
    using i by (simp add: addr_def)
  define c' where "c' = c\<lparr>cl_ports := ports, cl_num_ports := cl_num_ports c + 1\<rparr>"
  have s': "sp_client s' = (sp_client s)(cl_number c := Some c')" "sp_subs s' = sp_subs s" "sp_alive s' = sp_alive s"
    "addr s' = (addr s)(new := ?a)" "\<And>g q. lst g s' q = (if q = new then [] else lst g s q)" "\<And>g q. cnt g s' q = (if q = new then 0 else cnt g s q)"
    "\<And>g q. q \<noteq> new \<Longrightarrow> excl g s' q = excl g s q" "\<And>q. po_closing (sp_port s' q) = (if q = new then False else po_closing (sp_port s q))"
    and "p = new"
    using r small i' by (auto simp: snd_seq_create_port_def upd_client_def c'_def addr_def lst_def cnt_def excl_def fun_eq_iff grp_def
        port_subs_info_init_def split: group_type.split)
  then show "p = new" "\<exists>c'. sp_client s' (cl_number c) = Some c' \<and> cl_number c' = cl_number c" by (auto simp: c'_def)
  obtain as bs where ab: "cl_ports c = as @ bs" "ports = as @ new # bs" "\<forall>p\<in>set as. ?no p < num" "\<forall>p\<in>set bs. num < ?no p"
    using pb by (auto simp: put_between_def)
  have nc: "new \<notin> set (cl_ports c')" if "sp_client s k' = Some c'" for k' c' using new that by (auto simp: regd_def)
  have nab: "new \<notin> set as" "new \<notin> set bs" using nc [OF c] ab(1) by auto
  have cl': "clients_ok s'"
    unfolding clients_ok_def
  proof (intro allI impI)
    fix k' c2 assume a: "sp_client s' k' = Some c2"
    show "0 \<le> k' \<and> k' < 192 \<and> cl_number c2 = k' \<and> sorted_wrt (<) (map (\<lambda>p. uint (snd (addr s' p))) (cl_ports c2)) \<and>
        cl_num_ports c2 = int (length (cl_ports c2)) \<and> (\<forall>p\<in>set (cl_ports c2). fst (addr s' p) = of_int k' \<and> \<not> po_closing (sp_port s' p))"
    proof (cases "k' = cl_number c")
      case True
      then have c2: "c2 = c'" using a by (simp add: s'(1))
      have "map (\<lambda>p. uint (snd (addr s' p))) ports = map ?no as @ num # map ?no bs"
        using nab by (auto simp: ab(2) s'(4) un)
      moreover have "sorted_wrt (<) (map ?no as @ num # map ?no bs)"
        using k(3) ab by (auto simp: sorted_wrt_append)
      ultimately have srt: "sorted_wrt (<) (map (\<lambda>p. uint (snd (addr s' p))) ports)" by simp
      have len: "cl_num_ports c + 1 = int (length ports)" using k(4) ab(1,2) by simp
      have "fst (addr s' p) = of_int (cl_number c) \<and> \<not> po_closing (sp_port s' p)" if "p \<in> set ports" for p
        using that k(5) ab(1,2) by (auto simp: s'(4,8))
      then show ?thesis using True c2 k(1,2) srt len by (simp add: c'_def)
    next
      case False
      then have o: "sp_client s k' = Some c2" using a by (simp add: s'(1))
      then have same: "addr s' q = addr s q" "po_closing (sp_port s' q) = po_closing (sp_port s q)" if "q \<in> set (cl_ports c2)" for q
        using nc that by (auto simp: s'(4,8))
      then have m: "map (\<lambda>p. uint (snd (addr s' p))) (cl_ports c2) = map ?no (cl_ports c2)" by simp
      have "0 \<le> k' \<and> k' < 192 \<and> cl_number c2 = k' \<and> sorted_wrt (<) (map ?no (cl_ports c2)) \<and> cl_num_ports c2 = int (length (cl_ports c2)) \<and>
          (\<forall>p\<in>set (cl_ports c2). fst (addr s p) = of_int k' \<and> \<not> po_closing (sp_port s p))"
        using cl o unfolding clients_ok_def by blast
      then show ?thesis unfolding m using same by simp
    qed
  qed
  have own: "set (cl_ports c) \<subseteq> regd s" using c by (auto simp: regd_def)
  have reg: "regd s' = insert new (regd s)"
  proof (intro set_eqI iffI)
    fix q assume "q \<in> regd s'"
    then obtain k' c2 where q: "sp_client s' k' = Some c2" "q \<in> set (cl_ports c2)" by (auto simp: regd_def)
    show "q \<in> insert new (regd s)"
    proof (cases "k' = cl_number c")
      case True
      then have "q = new \<or> q \<in> set (cl_ports c)" using q ab(1,2) by (auto simp: s'(1) c'_def)
      then show ?thesis using own by blast
    next
      case False
      then show ?thesis using q by (auto simp: s'(1) regd_def)
    qed
  next
    fix q assume "q \<in> insert new (regd s)"
    then have "q = new \<or> (\<exists>k' c2. sp_client s k' = Some c2 \<and> q \<in> set (cl_ports c2))" by (simp add: regd_def)
    then consider "q = new \<or> q \<in> set (cl_ports c)" | k' c2 where "sp_client s k' = Some c2" "q \<in> set (cl_ports c2)" "k' \<noteq> cl_number c"
      using c by (metis option.inject)
    then show "q \<in> regd s'"
    proof cases
      case 1
      then have "q \<in> set (cl_ports c')" using ab(1,2) by (auto simp: c'_def)
      then show ?thesis using s'(1) by (auto simp: regd_def intro!: exI [of _ "cl_number c"])
    next
      case 2
      then show ?thesis by (auto simp: regd_def s'(1) intro!: exI [of _ k'])
    qed
  qed
  have "?a \<notin> addr s ` regd s"
  proof
    assume "?a \<in> addr s ` regd s"
    then obtain q k2 c2 where q: "addr s q = ?a" "sp_client s k2 = Some c2" "q \<in> set (cl_ports c2)" by (auto simp: regd_def)
    have "0 \<le> k2" "k2 < 192" "fst (addr s q) = of_int k2" using cl q(2,3) unfolding clients_ok_def by blast+
    then have "uint (of_int k2 :: u8) = uint (of_int (cl_number c) :: u8)" using q(1) by simp
    then have "k2 = cl_number c" using \<open>0 \<le> k2\<close> \<open>k2 < 192\<close> k(1,2) by (simp add: uint_word_of_int_eq take_bit_eq_mod)
    then have "q \<in> set as \<or> q \<in> set bs" using q c ab(1) by auto
    then show False using ab(3,4) q(1) un by auto
  qed
  moreover have "inj_on (addr s) (regd s)" using d(2) by simp
  moreover have "(addr s)(new := ?a) ` regd s = addr s ` regd s" using new by (intro image_cong) auto
  ultimately have inj: "inj_on (addr s') (regd s')"
    unfolding reg s'(4) inj_on_insert using inj_on_fun_updI [of "addr s" "regd s" ?a new] new by simp
  have sub': "subs_ok {} s'"
  proof -
    have lk: "linked g s' n" if m: "n \<in> sp_alive s" for g n
    proof -
      obtain q where q: "n \<in> set (lst g s q)" using all_linked [OF sub m, of g] by (auto simp: linked_def)
      then have "q \<noteq> new" using d(5) new by blast
      then show ?thesis using q by (auto simp: linked_def s'(5))
    qed
    have i: "info s' n = info s n" "exclusive s' n = exclusive s n" for n by (simp_all add: info_def exclusive_def s'(2))
    have o: "addr s' q = addr s q" "excl g s' q = excl g s q" "lst g s' q = lst g s q" if "q \<noteq> new" for g q using that by (simp_all add: s'(4,5,7))
    have "distinct (lst g s' q) \<and> cnt g s' q = int (length (lst g s' q))" for g q using d(3,4) by (simp add: s'(5,6))
    moreover have "q \<in> regd s' \<union> {} \<and> n \<in> sp_alive s' \<and> addr s' q = end_of g (info s' n) \<and>
        (exclusive s' n \<longrightarrow> lst g s' q = [n] \<and> excl g s' q) \<and> (\<not> linked (opposite g) s' n \<longrightarrow> q \<in> {})" if m: "n \<in> set (lst g s' q)" for g q n
    proof -
      have q: "q \<noteq> new" "n \<in> set (lst g s q)" using m by (auto simp: s'(5) split: if_splits)
      then show ?thesis using d(5-8) [OF q(2)] lk by (simp add: reg i o s'(3))
    qed
    moreover have "su_ref_count (sp_subs s' n) = int (card {g. linked g s' n}) \<and> (\<exists>g. linked g s' n) \<and>
        (\<forall>g. linked g s' n \<or> end_of g (info s' n) \<notin> addr s' ` regd s')" if m: "n \<in> sp_alive s'" for n
    proof -
      have m: "n \<in> sp_alive s" using m s'(3) by simp
      then show ?thesis using d(10) [OF m] lk [OF m] all_linked [OF sub m] by (simp add: s'(2))
    qed
    moreover have "{} \<inter> regd s' = {}" "inj_on (addr s') (regd s' \<union> {})" using inj by simp_all
    ultimately show ?thesis unfolding subs_ok_def by blast
  qed
  show "web_ok s'" using cl' sub' by (simp add: web_ok_def)
qed

section \<open>The ioctls\<close>

lemma upd_port_web:
  assumes "\<And>q. po_addr (f q) = po_addr q \<and> po_closing (f q) = po_closing q"
    "\<And>g q. si_list (grp g (f q)) = si_list (grp g q) \<and> si_count (grp g (f q)) = si_count (grp g q) \<and> si_exclusive (grp g (f q)) = si_exclusive (grp g q)"
  shows "web_ok (upd_port p f s) = web_ok s"
  by (rule web_ok_same) (use assms in \<open>auto simp: same_web_def addr_def lst_def cnt_def excl_def\<close>)

lemma set_port_info_web [simp]:
  "web_ok (upd_port p (snd_seq_set_port_info i) s) = web_ok s"
  "web_ok (upd_port p (\<lambda>q. snd_seq_set_port_info i (set_callbacks cb q)) s) = web_ok s"
  by (rule upd_port_web; simp add: snd_seq_set_port_info_def set_callbacks_def grp_def split: group_type.split)+

definition given_number :: "snd_seq_port_info \<Rightarrow> int" where
  "given_number i = (if bit (pf_flags i) FLG_GIVEN_PORT then uint (snd (pf_addr i)) else -1)"

lemma snd_seq_ioctl_create_port_ok:
  assumes ok: "web_ok s" and c: "sp_client s (cl_number c) = Some c" and f: "free_number c (given_number i) s"
    and new: "\<And>p. fresh = Some p \<Longrightarrow> p \<notin> regd s"
  shows "web_ok (fst (snd_seq_ioctl_create_port c i cb fresh s))"
proof -
  obtain s1 r where r: "snd_seq_create_port c (given_number i) fresh s = (s1, r)" by force
  show ?thesis
  proof (cases r)
    case None
    then have "s1 = s" using r by (auto simp: snd_seq_create_port_def split: if_splits option.splits prod.splits)
    then show ?thesis using ok r None by (simp add: snd_seq_ioctl_create_port_def given_number_def)
  next
    case (Some p)
    then obtain n where n: "fresh = Some n" using r by (auto simp: snd_seq_create_port_def split: if_splits option.splits)
    note k = snd_seq_create_port_ok [OF ok c f new [OF n] r [unfolded n Some]]
    obtain c1 where c1: "sp_client s1 (cl_number c) = Some c1" "cl_number c1 = cl_number c" using k(3) by blast
    then have "web_ok (fst (snd_seq_delete_port c1 m s1))" for m using snd_seq_delete_port_ok [OF k(1)] by simp
    then show ?thesis using ok k(1) c1(1) r Some
      by (simp add: snd_seq_ioctl_create_port_def given_number_def Let_def split: option.split)
  qed
qed

lemma snd_seq_ioctl_delete_port_ok:
  assumes ok: "web_ok s" and c: "sp_client s (cl_number c) = Some c"
  shows "web_ok (fst (snd_seq_ioctl_delete_port c i s))"
  using snd_seq_delete_port_ok [OF ok c, of "uint (snd (pf_addr i))"] ok
  by (auto simp: snd_seq_ioctl_delete_port_def split: prod.split sum.split)

text \<open>The ports of a subscription are registered, at its addresses.\<close>

lemma subscription_ports_at:
  assumes cl: "clients_ok s" and r: "subscription_ports i s = Some (sc, sp, dc, dp)"
  shows "sp \<in> regd s" "addr s sp = pi_sender i" "dp \<in> regd s" "addr s dp = pi_dest i"
proof -
  have g: "get_client_port (pi_sender i) s = Some (sp, sc)" "get_client_port (pi_dest i) s = Some (dp, dc)"
    using r by (auto simp: subscription_ports_def get_client_port_def split: option.splits)
  from get_client_port_addr [OF cl g(1)] get_client_port_addr [OF cl g(2)]
  show "sp \<in> regd s" "addr s sp = pi_sender i" "dp \<in> regd s" "addr s dp = pi_dest i" by simp_all
qed

lemma announce_subscription_ok [simp]: "web_ok (fst (announce_subscription e i x)) = web_ok (fst x)"
  by (cases x) (simp add: announce_subscription_def split: sum.split)

lemma snd_seq_ioctl_subscribe_port_ok:
  assumes ok: "web_ok s" and n: "\<And>n. fresh = Some n \<Longrightarrow> n \<notin> sp_alive s"
  shows "web_ok (fst (snd_seq_ioctl_subscribe_port k i fresh s))"
proof (cases "subscription_ports i s")
  case (Some x)
  obtain sc sp dc dp where x: "x = (sc, sp, dc, dp)" using prod_cases4 by blast
  have "clients_ok s" using ok by (simp add: web_ok_def)
  note at = subscription_ports_at [OF this Some [unfolded x]]
  show ?thesis using Some x ok snd_seq_port_connect_ok [OF ok at(1,3,2,4) n, of fresh k sc dc]
    by (simp add: snd_seq_ioctl_subscribe_port_def split: sum.split)
qed (use ok in \<open>simp add: snd_seq_ioctl_subscribe_port_def\<close>)

lemma snd_seq_ioctl_unsubscribe_port_ok:
  assumes ok: "web_ok s"
  shows "web_ok (fst (snd_seq_ioctl_unsubscribe_port k i s))"
proof (cases "subscription_ports i s")
  case (Some x)
  obtain sc sp dc dp where x: "x = (sc, sp, dc, dp)" using prod_cases4 by blast
  have "clients_ok s" using ok by (simp add: web_ok_def)
  note at = subscription_ports_at [OF this Some [unfolded x]]
  show ?thesis using Some x ok snd_seq_port_disconnect_ok [OF ok at(1,3,2,4), of k sc dc]
    by (simp add: snd_seq_ioctl_unsubscribe_port_def split: sum.split)
qed (use ok in \<open>simp add: snd_seq_ioctl_unsubscribe_port_def\<close>)

section \<open>Every sequence of ioctls\<close>

text \<open>
  Allocation gives a port that no client has, and a subscription that is not in memory. A number given for a port is
  one that its client does not use yet: the code does not check it, see \<open>snd_seq_create_port_twice\<close>.
\<close>

inductive port_step :: "'w seq_ports \<Rightarrow> 'w seq_ports \<Rightarrow> bool" where
  create: "sp_client s k = Some c \<Longrightarrow> free_number c (given_number i) s \<Longrightarrow> (case fresh of None \<Rightarrow> True | Some p \<Rightarrow> p \<notin> regd s) \<Longrightarrow>
    port_step s (fst (snd_seq_ioctl_create_port c i cb fresh s))"
| delete: "sp_client s k = Some c \<Longrightarrow> port_step s (fst (snd_seq_ioctl_delete_port c i s))"
| leave: "sp_client s k = Some c \<Longrightarrow> port_step s (snd_seq_delete_all_ports c s)"
| subscribe: "(case fresh of None \<Rightarrow> True | Some n \<Rightarrow> n \<notin> sp_alive s) \<Longrightarrow> port_step s (fst (snd_seq_ioctl_subscribe_port client subs fresh s))"
| unsubscribe: "port_step s (fst (snd_seq_ioctl_unsubscribe_port client subs s))"

lemma port_step_ok: "port_step s s' \<Longrightarrow> web_ok s \<Longrightarrow> web_ok s'"
proof (induction rule: port_step.induct)
  case (create s k c i fresh cb)
  then have "cl_number c = k" unfolding web_ok_def clients_ok_def by blast
  then show ?case using create by (intro snd_seq_ioctl_create_port_ok) auto
next
  case (delete s k c i)
  then have "cl_number c = k" unfolding web_ok_def clients_ok_def by blast
  then show ?case using delete by (intro snd_seq_ioctl_delete_port_ok) auto
next
  case (leave s k c)
  then have "cl_number c = k" unfolding web_ok_def clients_ok_def by blast
  then show ?case using leave by (intro snd_seq_delete_all_ports_ok) auto
next
  case (subscribe fresh s client subs)
  then show ?case by (intro snd_seq_ioctl_subscribe_port_ok) auto
qed (rule snd_seq_ioctl_unsubscribe_port_ok)

text \<open>Clients without ports.\<close>

definition no_ports :: "'w seq_ports \<Rightarrow> bool" where
  "no_ports s \<longleftrightarrow> (\<forall>k c. sp_client s k = Some c \<longrightarrow> 0 \<le> k \<and> k < 192 \<and> cl_number c = k \<and> cl_ports c = [] \<and> cl_num_ports c = 0) \<and>
     sp_alive s = {} \<and> (\<forall>g q. lst g s q = [] \<and> cnt g s q = 0)"

lemma no_ports_ok:
  assumes "no_ports s"
  shows "web_ok s"
proof -
  have "clients_ok s" "regd s = {}" using assms by (auto simp: no_ports_def clients_ok_def regd_def)
  then show ?thesis using assms by (simp add: web_ok_def subs_ok_def no_ports_def)
qed

lemma port_steps_ok: "port_step\<^sup>*\<^sup>* s s' \<Longrightarrow> web_ok s \<Longrightarrow> web_ok s'"
  by (induction rule: rtranclp_induct) (blast intro: port_step_ok)+

section \<open>Two gaps\<close>

text \<open>
  Nothing resets the exclusive flag of the port that stays: \<open>clear_subscriber_list\<close> only takes the subscription
  out of the list of the other port and uncounts it.
\<close>

lemma exclusive_end_left_behind:
  assumes ok: "web_ok s" and c: "sp_client s (cl_number c) = Some c"
    and p: "List.find (\<lambda>p. port_no (sp_port s p) = port) (cl_ports c) = Some p"
    and n: "n \<in> set (lst (opposite g) s p)" "exclusive s n" "n \<in> set (lst g s q)"
  shows "excl g (fst (snd_seq_delete_port c port s)) q" "lst g (fst (snd_seq_delete_port c port s)) q = []"
proof -
  let ?s' = "fst (snd_seq_delete_port c port s)"
  have sub: "subs_ok {} s" and sub': "subs_ok {} ?s'" using ok snd_seq_delete_port_ok [OF ok c] by (simp_all add: web_ok_def)
  note f = snd_seq_delete_port_found [OF ok c p]
  have l: "lst g s q = [n] \<and> excl g s q" using subs_okD(8) [OF sub n(3,2)] .
  then show "excl g ?s' q" using f(5) by blast
  have "n \<notin> set (lst g ?s' q)"
  proof
    assume "n \<in> set (lst g ?s' q)"
    then have "linked (opposite g) ?s' n" using all_linked [OF sub'] subs_okD(6) [OF sub'] by blast
    then obtain q' where q': "n \<in> set (lst (opposite g) ?s' q')" by (auto simp: linked_def)
    then have "n \<in> set (lst (opposite g) s q')" using f(4) by blast
    from linked_once [OF sub n(1) this] q' f(2) show False by simp
  qed
  moreover have "set (lst g ?s' q) \<subseteq> {n}" using f(4) [of g q] l by simp
  ultimately show "lst g ?s' q = []" by (metis empty_set insertI1 set_empty subset_singletonD)
qed

lemma insert_port_set: "set (fst (insert_port no auto num new ps)) = insert new (set ps)"
  by (induction ps arbitrary: num) (simp_all add: case_prod_beta insert_commute)

lemma insert_port_number: "snd (insert_port no False num new ps) = num"
  by (induction ps) (simp_all add: case_prod_beta)

lemma insert_port_twice:
  "sorted_wrt (<) (map no ps) \<Longrightarrow> p \<in> set ps \<Longrightarrow> new \<notin> set ps \<Longrightarrow> insert_port no False (no p) new ps = (ps', n) \<Longrightarrow>
    n = no p \<and> set ps' = insert new (set ps) \<and> List.find (\<lambda>q. q \<noteq> new \<longrightarrow> no q = no p) ps' = Some p"
proof (induction ps arbitrary: ps' n)
  case (Cons x ps)
  have x: "\<not> no x > no p" using Cons.prems(1,2) by auto
  obtain qs m where r: "insert_port no False (no p) new ps = (qs, m)" by force
  then have e: "ps' = x # qs" "n = m" using Cons.prems(4) x by auto
  show ?case
  proof (cases "p \<in> set ps")
    case True
    then have "no x < no p" using Cons.prems(1) by auto
    then show ?thesis using Cons.IH [OF _ True _ r] Cons.prems(1,3) e by auto
  next
    case False
    then have p: "x = p" using Cons.prems(2) by auto
    have "m = no p \<and> set qs = insert new (set ps)"
      using insert_port_set [of no False "no p" new ps] insert_port_number [of no "no p" new ps] r by simp
    then show ?thesis using p e Cons.prems(3) by auto
  qed
qed simp

text \<open>A number given for a new port is not looked up: the second port of that number is one that no address reaches.\<close>

lemma snd_seq_create_port_twice:
  assumes ok: "web_ok s" and c: "sp_client s (cl_number c) = Some c" and p: "p \<in> set (cl_ports c)" and new: "new \<notin> regd s"
    and room: "cl_num_ports c < MAX_PORTS - 1"
  shows "\<exists>s' c'. snd_seq_create_port c (uint (snd (addr s p))) (Some new) s = (s', Some new) \<and> sp_client s' (cl_number c) = Some c' \<and>
    set (cl_ports c') = insert new (set (cl_ports c)) \<and> addr s' new = addr s p \<and> snd_seq_port_use_ptr c' (uint (snd (addr s p))) s' = Some p"
proof -
  let ?no = "\<lambda>p. uint (snd (addr s p))"
  have k: "sorted_wrt (<) (map ?no (cl_ports c))" "\<forall>p\<in>set (cl_ports c). fst (addr s p) = of_int (cl_number c) \<and> \<not> po_closing (sp_port s p)"
    using ok c unfolding web_ok_def clients_ok_def by blast+
  have nc: "new \<notin> set (cl_ports c)" using new c by (auto simp: regd_def)
  obtain ports num where i: "insert_port ?no False (?no p) new (cl_ports c) = (ports, num)" by force
  from insert_port_twice [where no = ?no, OF k(1) p nc i]
  have r: "num = ?no p" "set ports = insert new (set (cl_ports c))" "List.find (\<lambda>q. q \<noteq> new \<longrightarrow> ?no q = ?no p) ports = Some p" by auto
  let ?s' = "fst (snd_seq_create_port c (?no p) (Some new) s)"
  let ?c' = "c\<lparr>cl_ports := ports, cl_num_ports := cl_num_ports c + 1\<rparr>"
  have "new \<noteq> p" using nc p by auto
  have a: "addr s p = (of_int (cl_number c), of_int (?no p))" using k(2) p by (simp add: prod_eq_iff)
  have "snd_seq_create_port c (?no p) (Some new) s = (?s', Some new)" and s': "sp_client ?s' (cl_number c) = Some ?c'"
    "\<And>q. addr ?s' q = (if q = new then addr s p else addr s q)" "\<And>q. q \<noteq> new \<Longrightarrow> sp_port ?s' q = sp_port s q"
    using room i r(1) a by (simp_all add: snd_seq_create_port_def upd_client_def addr_def not_le)
  moreover have "snd_seq_port_use_ptr ?c' (?no p) ?s' = Some p"
  proof -
    have "(\<lambda>q. port_no (sp_port ?s' q) = ?no p) = (\<lambda>q. q \<noteq> new \<longrightarrow> ?no q = ?no p)"
      using s'(2) r(1) by (auto simp: addr_def fun_eq_iff)
    then show ?thesis using r(3) k(2) p s'(3) \<open>new \<noteq> p\<close> by (simp add: snd_seq_port_use_ptr_def)
  qed
  ultimately show ?thesis using r(2) by (intro exI [of _ ?s'] exI [of _ ?c']) simp
qed

section \<open>An example\<close>

definition blank_port :: "unit snd_seq_client_port" where
  "blank_port = \<lparr>po_addr = (0, 0), po_owner = True, po_c_src = port_subs_info_init, po_c_dest = port_subs_info_init, po_private_free = None,
     po_event_input = None, po_callback_all = False, po_closing = False, po_timestamping = False, po_time_real = False, po_time_queue = 0, po_capability = 0,
     po_type = 0, po_midi_channels = 0, po_midi_voices = 0, po_synth_voices = 0\<rparr>"

definition new_client :: snd_seq_client where
  "new_client = \<lparr>cl_type = USER_CLIENT, cl_accept_input = True, cl_accept_output = True, cl_number = 128, cl_filter = 0, cl_event_filter = {},
     cl_event_lost = 0, cl_num_ports = 0, cl_ports = [], cl_pool = 0, cl_fifo = None\<rparr>"

definition one_client :: "unit seq_ports" where
  "one_client = \<lparr>sp_client = [128 \<mapsto> new_client], sp_port = \<lambda>_. blank_port, sp_subs = \<lambda>_. \<lparr>su_info = \<lparr>pi_sender = (0, 0), pi_dest = (0, 0),
     pi_voices = 0, pi_flags = 0, pi_queue = 0\<rparr>, su_ref_count = 0\<rparr>, sp_alive = {}, sp_told = [], sp_world = ()\<rparr>"

definition any_number :: snd_seq_port_info where
  "any_number = \<lparr>pf_addr = (128, 0), pf_capability = 0x63, pf_type = 2, pf_midi_channels = 16, pf_midi_voices = 0, pf_synth_voices = 0,
     pf_read_use = 0, pf_write_use = 0, pf_flags = 0, pf_time_queue = 0\<rparr>"

definition one_port :: "unit seq_ports" where "one_port = fst (snd_seq_ioctl_create_port new_client any_number None (Some 0) one_client)"

definition two_ports :: "unit seq_ports" where
  "two_ports = fst (snd_seq_ioctl_create_port (the (sp_client one_port 128)) any_number None (Some 1) one_port)"

definition exclusive_link :: snd_seq_port_subscribe where
  "exclusive_link = \<lparr>pi_sender = (128, 0), pi_dest = (128, 1), pi_voices = 0, pi_flags = 1, pi_queue = 0\<rparr>"

definition linked_ports :: "unit seq_ports" where
  "linked_ports = fst (snd_seq_ioctl_subscribe_port 128 exclusive_link (Some 7) two_ports)"

lemma no_ports_one_client: "no_ports one_client"
  by (auto simp: no_ports_def one_client_def lst_def cnt_def grp_def blank_port_def port_subs_info_init_def new_client_def split: group_type.split if_splits)

lemma sp_client_one_port: "sp_client one_port = [128 \<mapsto> new_client\<lparr>cl_ports := [0], cl_num_ports := 1\<rparr>]"
  by (simp add: one_port_def snd_seq_ioctl_create_port_def snd_seq_create_port_def any_number_def new_client_def one_client_def upd_client_def Let_def)

lemma uint_ne_minus: "uint w \<noteq> - 1"
  using uint_ge_0 [of w] by linarith

lemma linked_ports_steps: "port_step\<^sup>*\<^sup>* one_client linked_ports"
proof -
  have "port_step one_client one_port" unfolding one_port_def
    by (rule port_step.create [where k = 128]) (simp_all add: one_client_def free_number_def new_client_def given_number_def any_number_def regd_def)
  moreover have "port_step one_port two_ports" unfolding two_ports_def
    by (rule port_step.create [where k = 128]) (simp_all add: sp_client_one_port free_number_def new_client_def given_number_def any_number_def regd_def uint_ne_minus)
  moreover have "port_step two_ports linked_ports" unfolding linked_ports_def
    by (rule port_step.subscribe) (simp add: two_ports_def one_port_def, code_simp)
  ultimately show ?thesis by simp
qed

lemma linked_ports_eval: "sp_alive linked_ports = {7}" "lst SRC_LIST linked_ports 0 = [7]" "lst DEST_LIST linked_ports 1 = [7]"
  "exclusive linked_ports 7" "sp_client linked_ports 128 = Some (new_client\<lparr>cl_ports := [0, 1], cl_num_ports := 2\<rparr>)"
  "List.find (\<lambda>p. port_no (sp_port linked_ports p) = 1) [0, 1] = Some 1"
  by code_simp+

section \<open>Properties\<close>



text \<open>
  C39: An exclusive connection outlives its port (\<open>clear_subscriber_list\<close>, \<open>snd_seq_port_connect\<close>). When the
  destination of an exclusive subscription is deleted, the source has no subscriber left but keeps its exclusive flag: every further
  subscription from it that is not exclusive itself is refused with \<open>-EBUSY\<close>, whatever the destination.
\<close>

theorem exclusive_outlives_its_port:
  assumes "web_ok s" "sp_client s (cl_number c) = Some c"
    and "List.find (\<lambda>p. port_no (sp_port s p) = port) (cl_ports c) = Some p"
    and "n \<in> set (lst DEST_LIST s p)" "exclusive s n" "n \<in> set (lst SRC_LIST s q)"
    and "\<not> bit (pi_flags i) SUBS_EXCLUSIVE" "snd_seq_delete_port c port s = (s', r)"
  shows "r = Inr () \<and> lst SRC_LIST s' q = [] \<and> cnt SRC_LIST s' q = 0 \<and>
    snd_seq_port_connect k sc q dc dp i (Some m) s' = (s', Inl EBUSY)"
proof -
  have s': "s' = fst (snd_seq_delete_port c port s)" "r = snd (snd_seq_delete_port c port s)" using assms(8) by simp_all
  have n: "n \<in> set (lst (opposite SRC_LIST) s p)" using assms(4) by simp
  note x = exclusive_end_left_behind [OF assms(1-3) n assms(5,6), folded s'(1)]
  have "web_ok s'" using snd_seq_delete_port_ok [OF assms(1,2)] s'(1) by simp
  then have "cnt SRC_LIST s' q = 0" using x(2) subs_okD(4) [of "{}" s' SRC_LIST q] by (simp add: web_ok_def)
  moreover have "connect_refused (po_c_src (sp_port s' q)) d i s'" for d
    using x(1) assms(7) by (simp add: connect_refused_def excl_def grp_def)
  ultimately show ?thesis using x(2) snd_seq_delete_port_found(6) [OF assms(1-3)] s'(2) by (simp add: snd_seq_port_connect_def)
qed

theorem exclusive_outlives_its_port_witness:
  "snd (snd_seq_port_connect 128 new_client 0 new_client 0 (exclusive_link\<lparr>pi_dest := (128, 0), pi_flags := 0\<rparr>) (Some 8)
     (fst (snd_seq_delete_port (new_client\<lparr>cl_ports := [0, 1], cl_num_ports := 2\<rparr>) 1 linked_ports))) = Inl EBUSY"
proof -
  have ok: "web_ok linked_ports" using port_steps_ok [OF linked_ports_steps no_ports_ok [OF no_ports_one_client]] .
  let ?c = "new_client\<lparr>cl_ports := [0, 1], cl_num_ports := 2\<rparr>"
  have c: "sp_client linked_ports (cl_number ?c) = Some ?c" using linked_ports_eval(5) by (simp add: new_client_def)
  have f: "List.find (\<lambda>p. port_no (sp_port linked_ports p) = 1) (cl_ports ?c) = Some 1" using linked_ports_eval(6) by simp
  from exclusive_outlives_its_port [OF ok c f, of 7 0 "exclusive_link\<lparr>pi_dest := (128, 0), pi_flags := 0\<rparr>"
      "fst (snd_seq_delete_port ?c 1 linked_ports)" "snd (snd_seq_delete_port ?c 1 linked_ports)" 128 new_client new_client 0 8]
  show ?thesis using linked_ports_eval(2-4) by (simp add: exclusive_link_def)
qed

end
