(* ===== verification/Seq_Deliver.thy ===== *)
theory Seq_Deliver
  imports Seq_Ports Seq_Queue
begin

text \<open>
  The delivery of events to clients (\<open>sound/core/seq/seq_clientmgr.c\<close>): to one port, or to all subscribers of a
  port. User clients get them in their fifos; kernel clients through a callback, which may send
  events on, up to a number of hops. Broadcasting is not compiled (\<open>SUPPORT_BROADCAST\<close> is not defined).
\<close>

section \<open>State\<close>

text \<open>\<open>de_now\<close>: the time of day. \<open>de_quote\<close>: the address at which the event being delivered is stored.\<close>

record deliver_env =
  dl_data :: data_env
  dl_now :: "int \<times> int"
  dl_quote :: u64

record 'w seq_sys =
  sy_ports :: "'w seq_ports"
  sy_queues :: seq_queues
  sy_mem :: seq_mem

abbreviation QUEUE_DIRECT :: u8 where "QUEUE_DIRECT \<equiv> 253"
abbreviation TO_SUBSCRIBERS :: u8 where "TO_SUBSCRIBERS \<equiv> 254"
abbreviation EV_KERNEL_ERROR :: u8 where "EV_KERNEL_ERROR \<equiv> 150"
abbreviation FILTER_BOUNCE :: nat where "FILTER_BOUNCE \<equiv> 2"
abbreviation FILTER_USE_EVENT :: nat where "FILTER_USE_EVENT \<equiv> 31"
abbreviation SUBS_TIMESTAMP :: nat where "SUBS_TIMESTAMP \<equiv> 1"
abbreviation SUBS_TIME_REAL :: nat where "SUBS_TIME_REAL \<equiv> 2"
abbreviation CAP_WRITE :: u32 where "CAP_WRITE \<equiv> 2"
abbreviation EVENT_LENGTH_VARUSR :: u8 where "EVENT_LENGTH_VARUSR \<equiv> 8"
abbreviation MAX_EVENT_LEN :: nat where "MAX_EVENT_LEN \<equiv> 0x3fffffff"
abbreviation MAX_HOPS :: nat where "MAX_HOPS \<equiv> 10"

definition is_direct :: "snd_seq_event \<Rightarrow> bool" where
  "is_direct ev \<longleftrightarrow> ev_queue ev = QUEUE_DIRECT"

definition is_variable_type :: "snd_seq_event \<Rightarrow> bool" where
  "is_variable_type ev \<longleftrightarrow> 130 \<le> ev_type ev \<and> ev_type ev < 140"

text \<open>Zero and the negative of an error code are the results of the check.\<close>

definition check_event_type_and_length :: "snd_seq_event \<Rightarrow> unit res" where
  "check_event_type_and_length ev =
     (let l = ev_flags ev AND EVENT_LENGTH_MASK in
      if l = 0 then (if is_variable_type ev then Inl EINVAL else Inr ())
      else if l = EVENT_LENGTH_VARIABLE then
        (if \<not> is_variable_type ev \<or> unat (ext_len ev AND NOT EXT_MASK) \<ge> MAX_EVENT_LEN then Inl EINVAL else Inr ())
      else if l = EVENT_LENGTH_VARUSR then (if \<not> is_direct ev then Inl EINVAL else Inr ())
      else Inr ())"

section \<open>One destination\<close>

text \<open>No caller asks for a filter of its own (only broadcasting does).\<close>

definition get_event_dest_client :: "snd_seq_event \<Rightarrow> 'w seq_ports \<Rightarrow> snd_seq_client option" where
  "get_event_dest_client ev s =
     (case snd_seq_client_use_ptr (uint (fst (ev_dest ev))) s of
        None \<Rightarrow> None
      | Some dest \<Rightarrow>
          if \<not> cl_accept_input dest then None
          else if bit (cl_filter dest) FILTER_USE_EVENT \<and> ev_type ev \<notin> cl_event_filter dest then None
          else Some dest)"

definition update_timestamp_of_queue :: "int \<times> int \<Rightarrow> int \<Rightarrow> bool \<Rightarrow> seq_queues \<Rightarrow> snd_seq_event \<Rightarrow> snd_seq_event" where
  "update_timestamp_of_queue now queue real_time qs ev =
     (case queueptr queue qs of
        None \<Rightarrow> ev
      | Some q \<Rightarrow>
          let e = ev\<lparr>ev_queue := of_int queue, ev_flags := ev_flags ev AND NOT TIME_STAMP_MASK\<rparr> in
          if real_time then e\<lparr>ev_time := snd_seq_timer_get_cur_time now (q_timer q), ev_flags := ev_flags e OR 1\<rparr>
          else e\<lparr>ev_time := (snd_seq_timer_get_cur_tick (q_timer q), snd (ev_time e))\<rparr>)"

type_synonym 'w outcome = "'w seq_sys \<times> int res"

text \<open>How an event of a kernel client is dispatched: client, event, state.\<close>

type_synonym 'w dispatch = "int \<Rightarrow> snd_seq_event \<Rightarrow> 'w seq_sys \<Rightarrow> 'w outcome option"

definition set_world :: "'w \<Rightarrow> 'w seq_sys \<Rightarrow> 'w seq_sys" where
  "set_world w s = s\<lparr>sy_ports := (sy_ports s)\<lparr>sp_world := w\<rparr>\<rparr>"

primrec react :: "'w dispatch \<Rightarrow> 'w reaction \<Rightarrow> 'w seq_sys \<Rightarrow> 'w outcome option" where
  "react d (Reply w r) s = Some (set_world w s, r)"
| "react d (Dispatch w client ev k) s =
     (case d client ev (set_world w s) of
        None \<Rightarrow> None
      | Some (s1, r) \<Rightarrow> react d (k r (sp_world (sy_ports s1))) s1)"

definition fifo_input :: "data_env \<Rightarrow> snd_seq_client \<Rightarrow> snd_seq_event \<Rightarrow> 'w seq_sys \<Rightarrow> 'w outcome option" where
  "fifo_input env dest ev s =
     (case cl_fifo dest of
        None \<Rightarrow> Some (s, Inl ENOENT)
      | Some f \<Rightarrow> map_option (\<lambda>(f', m, r). (s\<lparr>sy_ports := upd_client (dest\<lparr>cl_fifo := Some f'\<rparr>) (sy_ports s), sy_mem := m\<rparr>, map_sum id (\<lambda>_. 0) r))
          (snd_seq_fifo_event_in env ev f (sy_mem s)))"

text \<open>The event as the port stamps it, and its arrival, before an error is reported back.\<close>

definition stamp_for_port :: "deliver_env \<Rightarrow> 'w snd_seq_client_port \<Rightarrow> seq_queues \<Rightarrow> snd_seq_event \<Rightarrow> snd_seq_event" where
  "stamp_for_port env port qs ev =
     (if po_timestamping port then update_timestamp_of_queue (dl_now env) (po_time_queue port) (po_time_real port) qs ev else ev)"

definition arrive :: "deliver_env \<Rightarrow> 'w dispatch \<Rightarrow> snd_seq_event \<Rightarrow> 'w seq_sys \<Rightarrow> (snd_seq_event \<times> 'w outcome) option" where
  "arrive env d ev s =
     (case get_event_dest_client ev (sy_ports s) of
        None \<Rightarrow> Some (ev, s, Inl ENOENT)
      | Some dest \<Rightarrow> (case snd_seq_port_use_ptr dest (uint (snd (ev_dest ev))) (sy_ports s) of
          None \<Rightarrow> Some (ev, s, Inl ENOENT)
        | Some p \<Rightarrow>
            let port = sp_port (sy_ports s) p in
            if \<not> check_port_perm port CAP_WRITE then Some (ev, s, Inl EPERM)
            else let ev' = stamp_for_port env port (sy_queues s) ev in
              map_option (Pair ev')
                (case cl_type dest of
                   USER_CLIENT \<Rightarrow> fifo_input (dl_data env) dest ev' s
                 | KERNEL_CLIENT \<Rightarrow> (case po_event_input port of
                     None \<Rightarrow> Some (s, Inl ENOENT)
                   | Some input \<Rightarrow> react d (input ev' (is_direct ev) (sp_world (sy_ports s))) s)
                 | NO_CLIENT \<Rightarrow> Some (s, Inl ENOENT))))"

text \<open>The code of an error, as the header files number it.\<close>

fun errno_code :: "errno \<Rightarrow> 16 word" where
  "errno_code EPERM = 1" | "errno_code ENOENT = 2" | "errno_code EIO = 5" | "errno_code ENXIO = 6" | "errno_code EAGAIN = 11"
| "errno_code ENOMEM = 12" | "errno_code EFAULT = 14" | "errno_code EBUSY = 16" | "errno_code ENODEV = 19" | "errno_code EINVAL = 22"
| "errno_code ENOTTY = 25" | "errno_code EPIPE = 32" | "errno_code ENOSYS = 38" | "errno_code EBADFD = 77" | "errno_code ESTRPIPE = 86"
| "errno_code EMLINK = 31" | "errno_code ENOSPC = 28" | "errno_code EALREADY = 114" | "errno_code ERESTARTSYS = 512" | "errno_code (EDRIVER n) = of_nat n"

text \<open>The quoting event.\<close>

definition bounce_ev :: "deliver_env \<Rightarrow> snd_seq_client \<Rightarrow> snd_seq_event \<Rightarrow> errno \<Rightarrow> snd_seq_event" where
  "bounce_ev env client ev err =
     \<lparr>ev_type = EV_KERNEL_ERROR, ev_flags = 0, ev_tag = 0, ev_queue = QUEUE_DIRECT, ev_time = (0, 0), ev_source = (0, 1),
      ev_dest = (of_int (cl_number client), snd (ev_source ev)),
      ev_data = [fst (ev_dest ev), snd (ev_dest ev), ucast (errno_code err), ucast (drop_bit 8 (errno_code err))] @
        bytes32 (ucast (dl_quote env)) @ bytes32 (ucast (drop_bit 32 (dl_quote env)))\<rparr>"

definition lose_event :: "int \<Rightarrow> 'w seq_sys \<Rightarrow> 'w seq_sys" where
  "lose_event k s =
     (case sp_client (sy_ports s) k of
        None \<Rightarrow> s
      | Some c \<Rightarrow> s\<lparr>sy_ports := upd_client (c\<lparr>cl_event_lost := cl_event_lost c + 1\<rparr>) (sy_ports s)\<rparr>)"

text \<open>
  Instead of the number of hops, \<open>d\<close> is passed on: \<open>d i\<close> is the dispatch of a kernel client that gets an event after
  \<open>i\<close> more hops. The quoting event is direct and is sent for no client, so it is not bounced itself: its
  delivery is its arrival (\<open>bounce_error_event_delivers\<close>).
\<close>

definition bounce_error_event :: "deliver_env \<Rightarrow> (nat \<Rightarrow> 'w dispatch) \<Rightarrow> snd_seq_client option \<Rightarrow> snd_seq_event \<Rightarrow> errno \<Rightarrow> 'w seq_sys \<Rightarrow> 'w outcome option" where
  "bounce_error_event env d client ev err s =
     (case client of
        None \<Rightarrow> Some (s, Inr 0)
      | Some c \<Rightarrow>
          if \<not> bit (cl_filter c) FILTER_BOUNCE \<or> \<not> cl_accept_input c then Some (s, Inr 0)
          else map_option (\<lambda>(_, s1, r). (case r of Inl _ \<Rightarrow> lose_event (cl_number c) s1 | Inr _ \<Rightarrow> s1, r))
            (arrive env (d 1) (bounce_ev env c ev err) s))"

text \<open>Also returns the event, which the destination port may have stamped.\<close>

definition snd_seq_deliver_single_event :: "deliver_env \<Rightarrow> (nat \<Rightarrow> 'w dispatch) \<Rightarrow> snd_seq_client option \<Rightarrow> snd_seq_event \<Rightarrow> 'w seq_sys \<Rightarrow>
    (snd_seq_event \<times> 'w outcome) option" where
  "snd_seq_deliver_single_event env d client ev s =
     (case arrive env (d 0) ev s of
        None \<Rightarrow> None
      | Some (ev', s1, Inr r) \<Rightarrow> Some (ev', s1, Inr r)
      | Some (ev', s1, Inl e) \<Rightarrow>
          if is_direct ev then Some (ev', s1, Inl e) else map_option (Pair ev') (bounce_error_event env d client ev' e s1))"

lemma bounce_error_event_delivers:
  "bounce_error_event env d (Some c) ev err s =
     (if \<not> bit (cl_filter c) FILTER_BOUNCE \<or> \<not> cl_accept_input c then Some (s, Inr 0)
      else map_option (\<lambda>(_, s1, r). (case r of Inl _ \<Rightarrow> lose_event (cl_number c) s1 | Inr _ \<Rightarrow> s1, r))
        (snd_seq_deliver_single_event env (\<lambda>i. d (i + 1)) None (bounce_ev env c ev err) s))"
proof -
  have "snd_seq_deliver_single_event env (\<lambda>i. d (i + 1)) None (bounce_ev env c ev err) s = arrive env (d 1) (bounce_ev env c ev err) s"
    by (auto simp: snd_seq_deliver_single_event_def is_direct_def bounce_ev_def split: option.split sum.split)
  then show ?thesis by (simp add: bounce_error_event_def)
qed

section \<open>All subscribers\<close>

text \<open>The event for one subscriber, with the time its subscription asks for.\<close>

definition stamp_for_subs :: "deliver_env \<Rightarrow> snd_seq_port_subscribe \<Rightarrow> seq_queues \<Rightarrow> snd_seq_event \<Rightarrow> snd_seq_event" where
  "stamp_for_subs env i qs ev =
     (let e = ev\<lparr>ev_dest := pi_dest i\<rparr> in
      if bit (pi_flags i) SUBS_TIMESTAMP then update_timestamp_of_queue (dl_now env) (uint (pi_queue i)) (bit (pi_flags i) SUBS_TIME_REAL) qs e else e)"

fun subscribers_loop :: "deliver_env \<Rightarrow> (nat \<Rightarrow> 'w dispatch) \<Rightarrow> snd_seq_client \<Rightarrow> snd_seq_event \<Rightarrow> nat list \<Rightarrow> int \<Rightarrow> 'w seq_sys \<Rightarrow> 'w outcome option" where
  "subscribers_loop env d client ev [] num_ev s = Some (s, Inr num_ev)"
| "subscribers_loop env d client ev (n # ns) num_ev s =
     (case snd_seq_deliver_single_event env d (Some client) (stamp_for_subs env (su_info (sp_subs (sy_ports s) n)) (sy_queues s) ev) s of
        None \<Rightarrow> None
      | Some (_, s1, Inl e) \<Rightarrow> Some (s1, Inl e)
      | Some (_, s1, Inr _) \<Rightarrow> subscribers_loop env d client ev ns (num_ev + 1) s1)"

definition deliver_to_subscribers :: "deliver_env \<Rightarrow> (nat \<Rightarrow> 'w dispatch) \<Rightarrow> snd_seq_client \<Rightarrow> snd_seq_event \<Rightarrow> 'w seq_sys \<Rightarrow> 'w outcome option" where
  "deliver_to_subscribers env d client ev s =
     (case snd_seq_port_use_ptr client (uint (snd (ev_source ev))) (sy_ports s) of
        None \<Rightarrow> Some (s, Inl EINVAL)
      | Some p \<Rightarrow> subscribers_loop env d client ev (si_list (po_c_src (sp_port (sy_ports s) p))) 0 s)"

section \<open>Any destination\<close>

text \<open>A kernel client that gets the event at a hop dispatches at that hop; each dispatch adds one.\<close>

definition client_dispatch :: "(snd_seq_client \<Rightarrow> snd_seq_event \<Rightarrow> 'w seq_sys \<Rightarrow> 'w outcome option) \<Rightarrow> 'w dispatch" where
  "client_dispatch deliver client ev s =
     (let e = ev\<lparr>ev_queue := QUEUE_DIRECT, ev_source := (of_int client, snd (ev_source ev))\<rparr> in
      case check_event_type_and_length e of
        Inl _ \<Rightarrow> Some (s, Inl EINVAL)
      | Inr _ \<Rightarrow> (case snd_seq_client_use_ptr client (sy_ports s) of
          None \<Rightarrow> Some (s, Inl EINVAL)
        | Some c \<Rightarrow> if \<not> cl_accept_output c then Some (s, Inl EPERM) else deliver c e s))"

definition deliver_somewhere :: "deliver_env \<Rightarrow> (nat \<Rightarrow> 'w dispatch) \<Rightarrow> snd_seq_client \<Rightarrow> snd_seq_event \<Rightarrow> 'w seq_sys \<Rightarrow> 'w outcome option" where
  "deliver_somewhere env d client ev s =
     (if ev_queue ev = TO_SUBSCRIBERS \<or> fst (ev_dest ev) = TO_SUBSCRIBERS then deliver_to_subscribers env d client ev s
      else map_option snd (snd_seq_deliver_single_event env d (Some client) ev s))"

function snd_seq_deliver_event :: "deliver_env \<Rightarrow> nat \<Rightarrow> snd_seq_client \<Rightarrow> snd_seq_event \<Rightarrow> 'w seq_sys \<Rightarrow> 'w outcome option" where
  "snd_seq_deliver_event env hop client ev s =
     (if hop + 1 \<ge> MAX_HOPS then Some (s, Inl EMLINK)
      else deliver_somewhere env (\<lambda>i. client_dispatch (\<lambda>c e t. snd_seq_deliver_event env (hop + 1 + i) c e t)) client ev s)"
  by pat_completeness auto
termination by (relation "measure (\<lambda>(env, hop, client, ev, s). MAX_HOPS - hop)") auto

declare snd_seq_deliver_event.simps [simp del]

definition snd_seq_kernel_client_dispatch :: "deliver_env \<Rightarrow> nat \<Rightarrow> 'w dispatch" where
  "snd_seq_kernel_client_dispatch env hop = client_dispatch (snd_seq_deliver_event env hop)"

section \<open>MIDI through\<close>

text \<open>
  A kernel client that sends every event on to its subscribers (\<open>seq_dummy.c\<close>): what it does with an event.
\<close>

record snd_seq_dummy_port =
  du_client :: int
  du_port :: u8
  du_duplex :: bool
  du_connect :: u8

definition dummy_input :: "snd_seq_dummy_port \<Rightarrow> 'w event_callback" where
  "dummy_input p ev direct w =
     (if fst (ev_source ev) = 0 \<or> ev_type ev = EV_KERNEL_ERROR then Reply w (Inr 0)
      else Dispatch w (du_client p)
        (ev\<lparr>ev_source := (fst (ev_source ev), if du_duplex p then du_connect p else du_port p), ev_dest := (TO_SUBSCRIBERS, snd (ev_dest ev))\<rparr>)
        (\<lambda>r w'. Reply w' r))"

end
