(* ===== verification/Seq_Inbox.thy ===== *)
theory Seq_Inbox
  imports Seq_Deliver "HOL-Library.Sublist"
begin

text \<open>
  The fifos of user clients as lists of events: what an event that arrives does to them, and that nothing else is
  touched.
\<close>

section \<open>What copying an event touches\<close>

text \<open>Outside \<open>A\<close> all cells, and outside \<open>B\<close> the links of cells, are as before; no cell changes its pool.\<close>

definition touches :: "u64 set \<Rightarrow> u64 set \<Rightarrow> nat \<Rightarrow> seq_mem \<Rightarrow> seq_mem \<Rightarrow> bool" where
  "touches A B p m m' \<longleftrightarrow>
     (\<forall>d. d \<notin> A \<longrightarrow> sm_cells m' d = sm_cells m d) \<and> (\<forall>d. d \<notin> B \<longrightarrow> ce_next (sm_cells m' d) = ce_next (sm_cells m d)) \<and>
     (\<forall>d. ce_pool (sm_cells m' d) = ce_pool (sm_cells m d)) \<and> (\<forall>q. q \<noteq> p \<longrightarrow> sm_pools m' q = sm_pools m q)"

lemma touches_refl [simp]: "touches A B p m m"
  by (simp add: touches_def)

lemma touches_trans: "touches A B p m m1 \<Longrightarrow> touches A' B' p m1 m2 \<Longrightarrow> A \<subseteq> C \<Longrightarrow> A' \<subseteq> C \<Longrightarrow> B \<subseteq> D \<Longrightarrow> B' \<subseteq> D \<Longrightarrow> touches C D p m m2"
  unfolding touches_def by (metis subsetD)

lemma touches_mono: "touches A B p m m' \<Longrightarrow> A \<subseteq> C \<Longrightarrow> B \<subseteq> D \<Longrightarrow> touches C D p m m'"
  unfolding touches_def by blast

lemma touches_alloc:
  assumes "snd_seq_cell_alloc True p ws m = Some (m1, ws1, r)"
  shows "touches {pl_free (sm_pools m p)} {pl_free (sm_pools m p)} p m m1"
  using assms
  by (auto simp: touches_def snd_seq_cell_alloc_def wait_for_cell.simps take_cell_def Let_def set_next_def split: if_splits)

lemma touches_chain_cell: "touches {c, tail} (if tail = 0 then {} else {tail}) p m (upd_cells (chain_cell c tail t) m)"
  by (auto simp: touches_def chain_cell_def set_event_def set_raw_def set_next_def Let_def)

lemma touches_chain_first: "touches {c} {} p m (upd_cells (chain_cell c 0 t) m)"
  by (auto simp: touches_def chain_cell_def set_event_def set_raw_def Let_def)

lemma touches_set_raw: "touches {t} {} p m (m\<lparr>sm_cells := set_raw t bs (sm_cells m)\<rparr>)"
  by (simp add: touches_def set_raw_def)

lemma touches_frame: "frame p A m m' \<Longrightarrow> touches A A p m m'"
  by (auto simp: touches_def frame_def intro: snd_seq_event_cell.equality)

lemma dup_loop_touches:
  assumes "copying p c free cs used m" "dup_loop env True p ic iu c n len src buf (if cs = [] then 0 else last cs) ws m = Some (m', ws', r)"
  shows "touches (set free \<union> {c} \<union> set cs) (set free \<union> set cs) p m m'"
  using assms
proof (induction n arbitrary: cs free len src buf m)
  case (Suc n)
  let ?tail = "if cs = [] then 0 else last cs" and ?sz = "piece len 0"
  have st: "pool_state p free (c # cs @ used) m" and op: "pool_open p m" using Suc.prems by (auto simp: copying_def)
  from snd_seq_cell_alloc_state [OF st op, of ws] obtain m1 r1 where a: "snd_seq_cell_alloc True p ws m = Some (m1, ws, r1)"
    and op1: "pool_open p m1" and raw1: "\<And>d. ce_raw (sm_cells m1 d) = ce_raw (sm_cells m d)"
    and nx1: "\<And>d. d \<notin> set free \<Longrightarrow> ce_next (sm_cells m1 d) = ce_next (sm_cells m d)"
    and al: "case free of [] \<Rightarrow> r1 = Inl EAGAIN \<and> pool_state p [] (c # cs @ used) m1
       | t # fs \<Rightarrow> r1 = Inr t \<and> pool_state p fs (t # c # cs @ used) m1 \<and> ce_next (sm_cells m1 t) = 0" by blast
  have sz: "(if len < EVENT_SIZE then len else EVENT_SIZE) = ?sz" by simp
  have ch: "chain (sm_cells m) (pl_free (sm_pools m p)) free" using st by (simp add: pool_state_def)
  show ?case
  proof (cases free)
    case Nil
    then have "m' = m1" "m1 = m \<or> touches {} {} p m m1" using Suc.prems(2) a al ch
      by (auto simp: touches_def snd_seq_cell_alloc_def wait_for_cell.simps split: if_splits)
    then show ?thesis by (auto simp: touches_def)
  next
    case (Cons t fs)
    let ?m2 = "upd_cells (chain_cell c ?tail t) m1"
    have al': "r1 = Inr t" "pool_state p fs (t # c # cs @ used) m1" "ce_next (sm_cells m1 t) = 0" using al Cons by simp_all
    note cc = copying_chain_cell [OF Suc.prems(1) al'(2) op1 raw1 nx1 al'(3)]
    have "pl_free (sm_pools m p) = t" using ch Cons by simp
    then have t1: "touches {t} {t} p m m1" using touches_alloc [OF a] by simp
    have x: "touches ({c} \<union> set cs) (set cs) p m1 ?m2"
      using touches_mono [OF touches_chain_first [of c p m1 t]] touches_mono [OF touches_chain_cell [of c "last cs" p m1 t]] by auto
    have t2: "touches (set free \<union> {c} \<union> set cs) (set free \<union> set cs) p m ?m2" by (rule touches_trans [OF t1 x]) (auto simp: Cons)
    show ?thesis
    proof (cases "copy_chunk env ic iu src buf ?sz t (sm_cells ?m2)")
      case None
      then have "m' = ?m2" using a al' Suc.prems(2) by (simp add: Let_def sz split del: if_split)
      then show ?thesis using t2 by simp
    next
      case (Some hs)
      obtain h' src' where hs: "hs = (h', src')" by force
      let ?m3 = "?m2\<lparr>sm_cells := h'\<rparr>"
      obtain bs where h': "h' = set_raw t bs (sm_cells ?m2)" using copy_chunk_effect(1) [OF Some [unfolded hs]] by blast
      have cp3: "copying p c fs (cs @ [t]) used ?m3" unfolding h' by (rule copying_set_raw(1) [OF cc(1)])
      have "dup_loop env True p ic iu c n (len - ?sz) src' (buf + of_nat ?sz) (if cs @ [t] = [] then 0 else last (cs @ [t])) ws ?m3 = Some (m', ws', r)"
        using a al' Some hs Suc.prems(2) by (simp add: Let_def sz split del: if_split)
      from Suc.IH [OF cp3 this] have "touches (set fs \<union> {c} \<union> set (cs @ [t])) (set fs \<union> set (cs @ [t])) p ?m3 m'" .
      then have t4: "touches (set free \<union> {c} \<union> set cs) (set free \<union> set cs) p ?m3 m'" by (rule touches_mono) (auto simp: Cons)
      have t3: "touches {t} {} p ?m2 ?m3" unfolding h' by (rule touches_set_raw)
      have "touches (set free \<union> {c} \<union> set cs) (set free \<union> set cs) p ?m2 m'" by (rule touches_trans [OF t3 t4]) (auto simp: Cons)
      then show ?thesis by (rule touches_trans [OF t2]) auto
    qed
  qed
qed simp

lemma snd_seq_event_dup_touches:
  assumes st: "pool_state p free used m" and op: "pool_open p m" and l: "length (ev_data ev) = 12"
    and k: "\<And>a k. length (de_kernel env a k) = k"
    and d: "snd_seq_event_dup env p ev True ws m = Some (m', ws', r)"
  shows "touches (set free) (set free) p m m' \<and> (\<forall>c. r = Inr c \<longrightarrow> ce_next (sm_cells m' c) = 0)"
proof (cases "int (snd (var_cells ev)) \<ge> pl_total_elements (sm_pools m p)")
  case True
  then show ?thesis using d by (auto simp: snd_seq_event_dup_def split_beta)
next
  case nc: False
  from snd_seq_cell_alloc_state [OF st op, of ws] obtain m1 r1 where a: "snd_seq_cell_alloc True p ws m = Some (m1, ws, r1)"
    and op1: "pool_open p m1" and al: "case free of [] \<Rightarrow> r1 = Inl EAGAIN \<and> pool_state p [] used m1
       | c # fs \<Rightarrow> r1 = Inr c \<and> pool_state p fs (c # used) m1 \<and> ce_next (sm_cells m1 c) = 0" by blast
  have ch: "chain (sm_cells m) (pl_free (sm_pools m p)) free" using st by (simp add: pool_state_def)
  show ?thesis
  proof (cases free)
    case Nil
    then have "m' = m1" "r = Inl EAGAIN" "m1 = m \<or> touches {} {} p m m1" using d a al ch nc
      by (auto simp: touches_def snd_seq_event_dup_def split_beta snd_seq_cell_alloc_def wait_for_cell.simps split: if_splits)
    then show ?thesis by (auto simp: touches_def)
  next
    case (Cons c fs)
    have al': "r1 = Inr c" "pool_state p fs (c # used) m1" "ce_next (sm_cells m1 c) = 0" using al Cons by simp_all
    have t1: "touches (set free) (set free) p m m1" by (rule touches_mono [OF touches_alloc [OF a]]) (use ch Cons in auto)
    have t2: "touches (set free) (set free) p m (upd_cells (set_event c e) m1)" for e
      using touches_trans [OF t1 touches_set_raw [of c p m1], of "set free" "set free"] Cons by (simp add: upd_cells_def set_event_def)
    show ?thesis
    proof (cases "is_variable ev")
      case False
      then show ?thesis using d a al' nc t2 [of ev] by (auto simp: snd_seq_event_dup_def split_beta)
    next
      case True
      let ?n = "(data_len ev + 27) div 28" and ?l = "data_len ev"
      let ?ev = "set_ext_ptr 0 (set_word 0 (of_nat ?l OR EXT_CHAINED) ev)"
      let ?m2 = "upd_cells (set_event c ?ev) m1" and ?loop = "dup_loop env True p (ext_len ev AND EXT_CHAINED \<noteq> 0) (ext_len ev AND EXT_USRPTR \<noteq> 0) c"
      have v: "var_cells ev = (?l, ?n)" using True by (simp add: var_cells_def data_len_def Let_def)
      have st2: "pool_state p fs (c # used) ?m2" using pool_state_cells [OF al'(2), of "set_event c ?ev (sm_cells m1)"] by (simp add: upd_cells_def)
      have "cell_event (set_event c ?ev (sm_cells m1)) c = ?ev" "ext_len ?ev = ext_len ev AND NOT EXT_MASK OR EXT_CHAINED"
        using l by (simp_all add: data_len_def)
      then have cp: "copying p c fs [] used ?m2" using st2 op1 True l chained_len(3) [of "ext_len ev"] by (simp add: copying_def)
      have "?n = 0 \<or> EVENT_SIZE * (?n - 1) < ?l" by linarith
      from dup_loop_state [OF cp k this, of "ext_len ev AND EXT_CHAINED \<noteq> 0" "ext_len ev AND EXT_USRPTR \<noteq> 0" "ext_ptr ev" "ext_ptr ev" ws]
      obtain m3 r3 free' new where lp: "?loop ?n ?l (ext_ptr ev) (ext_ptr ev) 0 ws ?m2 = Some (m3, ws, r3)"
        and cp': "copying p c free' new used m3" and fs: "fs = new @ free'" by auto
      have run: "snd_seq_event_dup env p ev True ws m = (case ?loop ?n ?l (ext_ptr ev) (ext_ptr ev) 0 ws ?m2 of None \<Rightarrow> None
          | Some (m3, ws2, Inr _) \<Rightarrow> Some (m3, ws2, Inr c) | Some (m3, ws2, Inl e) \<Rightarrow> map_option (\<lambda>m4. (m4, ws2, Inl e)) (snd_seq_cell_free c m3))"
        using nc a al' True by (simp add: snd_seq_event_dup_def v Let_def)
      have tl: "touches (set fs \<union> {c} \<union> set []) (set fs \<union> set []) p ?m2 m3" by (rule dup_loop_touches [OF cp]) (use lp in simp)
      have t3: "touches (set free) (set free) p m m3" by (rule touches_trans [OF t2 [of ?ev] tl]) (auto simp: Cons)
      have "c \<notin> set fs" using al'(2) by (auto simp: pool_state_def)
      then have nx: "ce_next (sm_cells m3 c) = 0" using tl al'(3) by (auto simp: touches_def)
      show ?thesis
      proof (cases r3)
        case (Inl er)
        have "c \<noteq> 0" "c \<notin> set new" using cp' by (auto simp: copying_def pool_state_def)
        from snd_seq_cell_free_frame [OF copying_data_chain [OF cp'] this] obtain m4 where
          m4: "snd_seq_cell_free c m3 = Some m4" "frame (ce_pool (sm_cells m3 c)) (insert c (set new)) m3 m4" by blast
        have "ce_pool (sm_cells m3 c) = p" using cp' by (auto simp: copying_def pool_state_def)
        then have t4: "touches (insert c (set new)) (insert c (set new)) p m3 m4" using touches_frame m4(2) by simp
        have "touches (set free) (set free) p m m4" by (rule touches_trans [OF t3 t4]) (auto simp: Cons fs)
        then show ?thesis using d run lp Inl m4(1) by auto
      next
        case (Inr u)
        then show ?thesis using d run lp t3 nx by auto
      qed
    qed
  qed
qed

section \<open>A fifo with its pool\<close>

text \<open>The fifo holds the events \<open>evs\<close>, and its pool has \<open>room\<close> free cells.\<close>

definition holds :: "snd_seq_fifo \<Rightarrow> snd_seq_event list \<Rightarrow> nat \<Rightarrow> seq_mem \<Rightarrow> bool" where
  "holds f evs room m \<longleftrightarrow>
     (\<exists>xs free used. fifo_rep {} (f, sm_cells m) xs \<and> pool_state (ff_pool f) free used m \<and> pool_open (ff_pool f) m \<and> set xs \<subseteq> set used \<and>
        map (cell_event (sm_cells m)) xs = evs \<and> length free = room \<and> free @ used \<noteq> [])"

abbreviation fifo_cells :: "snd_seq_fifo \<Rightarrow> seq_mem \<Rightarrow> u64 set" where
  "fifo_cells f m \<equiv> {c. ce_pool (sm_cells m c) = ff_pool f}"

lemma holds_touched:
  assumes h: "holds f evs room m" and t: "touches {c. ce_pool (sm_cells m c) = p} B p m m'" and p: "p \<noteq> ff_pool f"
  shows "holds f evs room m'"
proof -
  obtain xs free used where a: "fifo_rep {} (f, sm_cells m) xs" "pool_state (ff_pool f) free used m" "pool_open (ff_pool f) m"
    "set xs \<subseteq> set used" "map (cell_event (sm_cells m)) xs = evs" "length free = room" "free @ used \<noteq> []" using h by (auto simp: holds_def)
  have same: "sm_cells m' c = sm_cells m c" if "c \<in> set (free @ used)" for c
  proof -
    have "ce_pool (sm_cells m c) = ff_pool f" using a(2) that by (auto simp: pool_state_def)
    then show ?thesis using t p by (auto simp: touches_def)
  qed
  have q: "sm_pools m' (ff_pool f) = sm_pools m (ff_pool f)" using t p by (auto simp: touches_def)
  have "chain (sm_cells m') a xs = chain (sm_cells m) a xs" for a using same a(4) by (intro chain_cong) auto
  then have "fifo_rep {} (f, sm_cells m') xs" using a(1) by (simp add: fifo_rep_def)
  moreover have "chain (sm_cells m') a free = chain (sm_cells m) a free" for a using same by (intro chain_cong) auto
  then have "pool_state (ff_pool f) free used m'" using a(2) same q by (auto simp: pool_state_def)
  moreover have "pool_open (ff_pool f) m'" using a(3) q by (simp add: pool_open_def)
  moreover have "map (cell_event (sm_cells m')) xs = map (cell_event (sm_cells m)) xs"
    by (rule map_cong [OF refl], simp only: cell_event_def, subst same) (use a(4) in auto)
  then have "map (cell_event (sm_cells m')) xs = evs" using a(5) by simp
  ultimately show ?thesis using a(4,6,7) unfolding holds_def by blast
qed

text \<open>An event arrives, or the fifo stays as it was.\<close>

lemma snd_seq_fifo_event_in_holds:
  assumes h: "holds f evs room m" and l: "length (ev_data ev) = 12" and k: "\<And>a k. length (de_kernel env a k) = k"
  shows "\<exists>f' m' r. snd_seq_fifo_event_in env ev f m = Some (f', m', r) \<and> ff_pool f' = ff_pool f \<and> touches (fifo_cells f m) (fifo_cells f m) (ff_pool f) m m' \<and>
    (case r of
       Inl e \<Rightarrow> holds f' evs room m' \<and> (\<not> is_variable ev \<longrightarrow> room = 0)
     | Inr _ \<Rightarrow> \<exists>e room'. holds f' (evs @ [e]) room' m' \<and> (\<not> is_variable ev \<longrightarrow> e = ev \<and> room = Suc room'))"
proof -
  let ?p = "ff_pool f"
  obtain xs free used where a: "fifo_rep {} (f, sm_cells m) xs" "pool_state ?p free used m" "pool_open ?p m"
    "set xs \<subseteq> set used" "map (cell_event (sm_cells m)) xs = evs" "length free = room" "free @ used \<noteq> []" using h by (auto simp: holds_def)
  from snd_seq_event_dup_state [OF a(2,3) l k, of "[]"] obtain m1 r free' where d: "snd_seq_event_dup env ?p ev True [] m = Some (m1, [], r)"
    and op: "pool_open ?p m1"
    and fit: "int (snd (var_cells ev)) < pl_total_elements (sm_pools m ?p) \<Longrightarrow> snd (var_cells ev) < length free \<Longrightarrow> \<not> is_variable ev \<Longrightarrow> r = Inr (hd free)"
    and s: "case r of
       Inl e \<Rightarrow> e \<in> {EAGAIN, ENOMEM, EFAULT} \<and> pool_state ?p free' used m1 \<and> mset free' = mset free
     | Inr c \<Rightarrow> \<exists>cs. free = c # cs @ free' \<and> pool_state ?p free' (c # cs @ used) m1 \<and> data_chain (sm_cells m1) c cs \<and>
         length cs = snd (var_cells ev) \<and> (\<not> is_variable ev \<longrightarrow> cell_event (sm_cells m1) c = ev) \<and>
         (is_variable ev \<longrightarrow> is_variable (cell_event (sm_cells m1) c) \<and>
           ext_len (cell_event (sm_cells m1) c) = ext_len ev AND NOT EXT_MASK OR EXT_CHAINED \<and>
           (ext_len ev AND EXT_MASK = 0 \<longrightarrow> pieces_copied env (sm_cells m1) (ext_ptr ev) (data_len ev) cs))" by blast
  have t: "touches (set free) (set free) ?p m m1" and nx: "\<And>c. r = Inr c \<Longrightarrow> ce_next (sm_cells m1 c) = 0"
    using snd_seq_event_dup_touches [OF a(2,3) l k d] by simp_all
  have fr: "set free \<subseteq> fifo_cells f m" "set used \<subseteq> fifo_cells f m" "set free \<inter> set used = {}" using a(2) by (auto simp: pool_state_def)
  then have t1: "touches (fifo_cells f m) (fifo_cells f m) ?p m m1" using touches_mono [OF t] by blast
  have same: "sm_cells m1 c = sm_cells m c" if "c \<in> set used" for c using t that fr(3) by (auto simp: touches_def)
  have "chain (sm_cells m1) b xs = chain (sm_cells m) b xs" for b using same a(4) by (intro chain_cong) auto
  then have rep: "fifo_rep {} (f, sm_cells m1) xs" using a(1) by (simp add: fifo_rep_def)
  have "map (cell_event (sm_cells m1)) xs = map (cell_event (sm_cells m)) xs"
    by (rule map_cong [OF refl], simp only: cell_event_def, subst same) (use a(4) in auto)
  then have evs: "map (cell_event (sm_cells m1)) xs = evs" using a(5) by simp
  show ?thesis
  proof (cases r)
    case (Inl e)
    then have st: "pool_state ?p free' used m1" "mset free' = mset free" using s by auto
    then have len: "length free' = room" using a(6) mset_eq_length by fastforce
    have "free' @ used \<noteq> []" using a(7) st(2) by auto
    then have hd: "holds f evs room m1" using rep st(1) op a(4) evs len unfolding holds_def by blast
    have "room = 0" if "\<not> is_variable ev"
    proof (rule ccontr)
      assume "room \<noteq> 0"
      moreover have "0 < pl_total_elements (sm_pools m ?p)" using a(2,7) by (cases free; cases used) (auto simp: pool_state_def)
      ultimately show False using fit that Inl a(6) by (simp add: var_cells_def)
    qed
    moreover have "holds (if e = ENOMEM then f\<lparr>ff_overflow := ff_overflow f + 1\<rparr> else f) evs room m1" using hd by (simp add: holds_def fifo_rep_def)
    ultimately show ?thesis using d Inl t1 by (simp add: snd_seq_fifo_event_in_def)
  next
    case (Inr c)
    then obtain cs where st: "free = c # cs @ free'" "pool_state ?p free' (c # cs @ used) m1" "length cs = snd (var_cells ev)"
      "\<not> is_variable ev \<longrightarrow> cell_event (sm_cells m1) c = ev" using s by auto
    let ?fh = "(f\<lparr>ff_tail := c, ff_head := if ff_head f = 0 then c else ff_head f, ff_cells := ff_cells f + 1\<rparr>,
      if ff_tail f \<noteq> 0 then set_next (ff_tail f) c (sm_cells m1) else sm_cells m1)"
    have cu: "c \<notin> set used" "c \<noteq> 0" "c \<notin> set xs" using st(2) a(4) by (auto simp: pool_state_def)
    have "fifo_rep {c} (f, sm_cells m1) xs" using rep nx [OF Inr] by (simp add: fifo_rep_def)
    from fifo_append_rep [OF this, of c] have rp: "fifo_rep {c} ?fh (xs @ [c])" using cu by (auto simp: fifo_room_def fifo_append_def)
    define m2 where "m2 = m1\<lparr>sm_cells := snd ?fh\<rparr>"
    define f2 where "f2 = fst ?fh"
    have tail: "ff_tail f = 0 \<or> ff_tail f \<in> set xs" using rep by (auto simp: fifo_rep_def)
    have raw: "ce_raw (sm_cells m2 d) = ce_raw (sm_cells m1 d)" "ce_pool (sm_cells m2 d) = ce_pool (sm_cells m1 d)"
      "d \<notin> set xs \<Longrightarrow> sm_cells m2 d = sm_cells m1 d" for d
      using tail by (auto simp: m2_def set_next_def)
    have run: "snd_seq_fifo_event_in env ev f m = Some (f2, m2, Inr ())" using d Inr by (simp add: snd_seq_fifo_event_in_def fifo_append_def f2_def m2_def)
    have p2: "ff_pool f2 = ?p" by (simp add: f2_def)
    have rep2: "fifo_rep {} (f2, sm_cells m2) (xs @ [c])" using rp by (simp add: f2_def m2_def fifo_rep_def)
    have fx: "d \<notin> set xs" if "d \<in> set free'" for d using st(2) a(4) that by (auto simp: pool_state_def)
    have "pool_state ?p free' (c # cs @ used) (m1\<lparr>sm_cells := snd ?fh\<rparr>)"
      by (rule pool_state_cells [OF st(2)]) (use raw fx in \<open>auto simp: m2_def\<close>)
    then have "pool_state ?p free' (c # cs @ used) m2" by (simp add: m2_def)
    moreover have "pool_open ?p m2" using op by (simp add: m2_def pool_open_def)
    moreover have "map (cell_event (sm_cells m2)) (xs @ [c]) = evs @ [cell_event (sm_cells m1) c]"
    proof -
      have "cell_event (sm_cells m2) = cell_event (sm_cells m1)" by (simp add: fun_eq_iff cell_event_def raw(1))
      then show ?thesis using evs by simp
    qed
    ultimately have hd: "holds f2 (evs @ [cell_event (sm_cells m1) c]) (length free') m2"
      unfolding holds_def p2 by (intro exI [of _ "xs @ [c]"] exI [of _ free'] exI [of _ "c # cs @ used"]) (use rep2 a(4) in auto)
    have "touches (set xs) (set xs) ?p m1 m2" using raw by (auto simp: touches_def) (simp add: m2_def)
    from touches_trans [OF t1 this] have t2: "touches (fifo_cells f m) (fifo_cells f m) ?p m m2" using a(4) fr(2) by blast
    have "room = Suc (length free')" if "\<not> is_variable ev" using st(1,3) a(6) that by (simp add: var_cells_def)
    then show ?thesis using run p2 t2 hd st(4) by auto
  qed
qed

text \<open>A full pool refuses an event with \<open>EAGAIN\<close>.\<close>

lemma snd_seq_fifo_event_in_full:
  assumes h: "holds f evs 0 m" and v: "\<not> is_variable ev"
  shows "\<exists>m'. snd_seq_fifo_event_in env ev f m = Some (f, m', Inl EAGAIN)"
proof -
  obtain xs used where a: "pool_state (ff_pool f) [] used m" "pool_open (ff_pool f) m" "used \<noteq> []" using h by (auto simp: holds_def)
  show ?thesis using snd_seq_fifo_full_uncounted [OF a(1,2) v a(3)] by blast
qed

section \<open>The fifos of all clients\<close>

text \<open>
  \<open>E k\<close> are the events in the fifo of client \<open>k\<close>, and \<open>R k\<close> the free cells of its pool. Each fifo has a pool of its own.
\<close>

definition inboxes :: "'w seq_sys \<Rightarrow> (int \<Rightarrow> snd_seq_event list) \<Rightarrow> (int \<Rightarrow> nat) \<Rightarrow> bool" where
  "inboxes s E R \<longleftrightarrow>
     (\<forall>k c. sp_client (sy_ports s) k = Some c \<longrightarrow> cl_number c = k \<and> (\<forall>f. cl_fifo c = Some f \<longrightarrow> holds f (E k) (R k) (sy_mem s))) \<and>
     (\<forall>k c f k' c' f'. sp_client (sy_ports s) k = Some c \<longrightarrow> cl_fifo c = Some f \<longrightarrow> sp_client (sy_ports s) k' = Some c' \<longrightarrow>
        cl_fifo c' = Some f' \<longrightarrow> ff_pool f = ff_pool f' \<longrightarrow> k = k')"

text \<open>What delivery does not change: everything except what is in the fifos, the lost events, and the world of the kernel clients.\<close>

definition still :: "snd_seq_client \<Rightarrow> snd_seq_client \<times> bool" where
  "still c = (c\<lparr>cl_fifo := None, cl_event_lost := 0\<rparr>, cl_fifo c = None)"

definition same_setup :: "'w seq_sys \<Rightarrow> 'w seq_sys \<Rightarrow> bool" where
  "same_setup s s' \<longleftrightarrow>
     (\<forall>k. map_option still (sp_client (sy_ports s') k) = map_option still (sp_client (sy_ports s) k)) \<and>
     sp_port (sy_ports s') = sp_port (sy_ports s) \<and> sp_subs (sy_ports s') = sp_subs (sy_ports s) \<and>
     sp_alive (sy_ports s') = sp_alive (sy_ports s) \<and> sy_queues s' = sy_queues s"

lemma same_setup_refl [simp]: "same_setup s s"
  by (simp add: same_setup_def)

lemma same_setup_trans: "same_setup s s1 \<Longrightarrow> same_setup s1 s2 \<Longrightarrow> same_setup s s2"
  by (simp add: same_setup_def)

lemma still_eqD:
  assumes "still c = still c'"
  shows "cl_type c = cl_type c'" "cl_accept_input c = cl_accept_input c'" "cl_accept_output c = cl_accept_output c'" "cl_number c = cl_number c'"
    "cl_filter c = cl_filter c'" "cl_event_filter c = cl_event_filter c'" "cl_ports c = cl_ports c'" "cl_pool c = cl_pool c'"
    "(cl_fifo c = None) = (cl_fifo c' = None)"
  using assms by (cases c; cases c'; simp add: still_def)+

lemma set_world_simps [simp]: "sy_mem (set_world w s) = sy_mem s" "sy_queues (set_world w s) = sy_queues s"
  "sp_client (sy_ports (set_world w s)) = sp_client (sy_ports s)" "sp_port (sy_ports (set_world w s)) = sp_port (sy_ports s)"
  "sp_subs (sy_ports (set_world w s)) = sp_subs (sy_ports s)" "sp_alive (sy_ports (set_world w s)) = sp_alive (sy_ports s)"
  by (simp_all add: set_world_def)

lemma set_world_inboxes [simp]: "inboxes (set_world w s) E R = inboxes s E R" "same_setup s (set_world w s)"
  by (simp_all add: inboxes_def same_setup_def)

lemma upd_client_simps [simp]: "sp_client (upd_client c s) = (sp_client s)(cl_number c \<mapsto> c)" "sp_port (upd_client c s) = sp_port s"
  "sp_subs (upd_client c s) = sp_subs s" "sp_alive (upd_client c s) = sp_alive s"
  by (simp_all add: upd_client_def)

text \<open>One fifo has changed, with its pool.\<close>

lemma inboxes_update:
  assumes i: "inboxes s E R" and c: "sp_client (sy_ports s) k = Some c" "cl_fifo c = Some f"
    and t: "touches (fifo_cells f (sy_mem s)) B (ff_pool f) (sy_mem s) m'" and f': "ff_pool f' = ff_pool f" "holds f' evs room m'"
    and s': "s' = s\<lparr>sy_ports := upd_client (c\<lparr>cl_fifo := Some f'\<rparr>) (sy_ports s), sy_mem := m'\<rparr>"
  shows "inboxes s' (E(k := evs)) (R(k := room))" "same_setup s s'"
proof -
  have k: "cl_number c = k" using i c by (simp add: inboxes_def)
  have cl: "sp_client (sy_ports s') = (sp_client (sy_ports s))(k \<mapsto> c\<lparr>cl_fifo := Some f'\<rparr>)" by (simp add: s' k)
  have other: "ff_pool g \<noteq> ff_pool f \<and> holds g (E j) (R j) (sy_mem s)" if "sp_client (sy_ports s) j = Some d" "cl_fifo d = Some g" "j \<noteq> k" for j d g
    using i c that unfolding inboxes_def by blast
  have "holds g (E j) (R j) m'" if "sp_client (sy_ports s) j = Some d" "cl_fifo d = Some g" "j \<noteq> k" for j d g
    using other [OF that] holds_touched [OF _ t] by metis
  moreover have "cl_number d = j" if "sp_client (sy_ports s) j = Some d" for j d using i that by (simp add: inboxes_def)
  moreover have "j = j'" if "sp_client (sy_ports s) j = Some d" "cl_fifo d = Some g" "sp_client (sy_ports s) j' = Some d'" "cl_fifo d' = Some g'"
    "ff_pool g = ff_pool g'" for j d g j' d' g' using i that unfolding inboxes_def by blast
  ultimately show "inboxes s' (E(k := evs)) (R(k := room))" unfolding inboxes_def cl using f' k other
    by (intro conjI allI impI) (auto simp: s' split: if_splits)
  show "same_setup s s'" using c k by (simp add: same_setup_def cl still_def s')
qed

text \<open>An event for a user client.\<close>

lemma fifo_input_inboxes:
  assumes i: "inboxes s E R" and c: "sp_client (sy_ports s) k = Some c" "cl_fifo c \<noteq> None"
    and l: "length (ev_data ev) = 12" and len: "\<And>a k. length (de_kernel env a k) = k"
  shows "\<exists>s' r. fifo_input env c ev s = Some (s', r) \<and> same_setup s s' \<and>
    (case r of
       Inl e \<Rightarrow> inboxes s' E R \<and> (\<not> is_variable ev \<longrightarrow> R k = 0 \<and> e = EAGAIN)
     | Inr n \<Rightarrow> n = 0 \<and> (\<exists>e room. inboxes s' (E(k := E k @ [e])) (R(k := room)) \<and> (\<not> is_variable ev \<longrightarrow> e = ev \<and> R k = Suc room)))"
proof -
  obtain f where f: "cl_fifo c = Some f" using c(2) by blast
  have h: "holds f (E k) (R k) (sy_mem s)" using i c f by (simp add: inboxes_def)
  from snd_seq_fifo_event_in_holds [OF h l, of env] len obtain f' m' r where run: "snd_seq_fifo_event_in env ev f (sy_mem s) = Some (f', m', r)"
    and p: "ff_pool f' = ff_pool f" and t: "touches (fifo_cells f (sy_mem s)) (fifo_cells f (sy_mem s)) (ff_pool f) (sy_mem s) m'"
    and r: "case r of
       Inl e \<Rightarrow> holds f' (E k) (R k) m' \<and> (\<not> is_variable ev \<longrightarrow> R k = 0)
     | Inr _ \<Rightarrow> \<exists>e room'. holds f' (E k @ [e]) room' m' \<and> (\<not> is_variable ev \<longrightarrow> e = ev \<and> R k = Suc room')" by blast
  let ?s' = "s\<lparr>sy_ports := upd_client (c\<lparr>cl_fifo := Some f'\<rparr>) (sy_ports s), sy_mem := m'\<rparr>"
  note u = inboxes_update [OF i c(1) f t p _ refl]
  have out: "fifo_input env c ev s = Some (?s', map_sum id (\<lambda>_. 0) r)" using f run by (simp add: fifo_input_def)
  show ?thesis
  proof (cases r)
    case (Inl e)
    have "e = EAGAIN" if "\<not> is_variable ev"
    proof -
      have "holds f (E k) 0 (sy_mem s)" using h r Inl that by simp
      from snd_seq_fifo_event_in_full [OF this that, of env] show ?thesis using run Inl by auto
    qed
    then show ?thesis using out r u [of "E k" "R k"] Inl by simp
  next
    case (Inr x)
    then obtain e room where e: "holds f' (E k @ [e]) room m'" "\<not> is_variable ev \<longrightarrow> e = ev \<and> R k = Suc room" using r by auto
    then show ?thesis using out u [OF e(1)] Inr by auto
  qed
qed

end
