(* ===== verification/Seq_Delivery.thy ===== *)
theory Seq_Delivery
  imports Seq_Inbox
begin

text \<open>
  Delivery, as a whole: it ends whatever the kernel clients do; every subscriber gets the event; and a direct
  event that one subscriber has no room for is kept from those after it.
\<close>

section \<open>Whatever kernel clients do\<close>

text \<open>An event has twelve bytes of data: this is a fact of the C type.\<close>

abbreviation whole :: "snd_seq_event \<Rightarrow> bool" where
  "whole ev \<equiv> length (ev_data ev) = 12"

primrec whole_reaction :: "'w reaction \<Rightarrow> bool" where
  "whole_reaction (Reply w r) = True"
| "whole_reaction (Dispatch w client ev k) = (whole ev \<and> (\<forall>r w'. whole_reaction (k r w')))"

definition whole_clients :: "'w seq_sys \<Rightarrow> bool" where
  "whole_clients s \<longleftrightarrow> (\<forall>p input ev direct w. po_event_input (sp_port (sy_ports s) p) = Some input \<longrightarrow> whole ev \<longrightarrow> whole_reaction (input ev direct w))"

definition whole_env :: "deliver_env \<Rightarrow> bool" where
  "whole_env env \<longleftrightarrow> (\<forall>a k. length (de_kernel (dl_data env) a k) = k)"

text \<open>Every fifo is a queue of events, and what was in it is still there, in order, before what came.\<close>

definition delivers :: "'w seq_sys \<Rightarrow> 'w outcome option \<Rightarrow> bool" where
  "delivers s out \<longleftrightarrow>
     (\<forall>E R. inboxes s E R \<longrightarrow> (\<exists>s' r E' R'. out = Some (s', r) \<and> inboxes s' E' R' \<and> (\<forall>k. prefix (E k) (E' k)) \<and> same_setup s s'))"

lemma deliversI: "(\<And>E R. inboxes s E R \<Longrightarrow> \<exists>s' r E' R'. out = Some (s', r) \<and> inboxes s' E' R' \<and> (\<forall>k. prefix (E k) (E' k)) \<and> same_setup s s') \<Longrightarrow> delivers s out"
  by (simp add: delivers_def)

lemma delivers_same: "same_setup s s' \<Longrightarrow> (\<And>E R. inboxes s E R \<Longrightarrow> inboxes s' E R) \<Longrightarrow> delivers s (Some (s', r))"
  unfolding delivers_def by blast

lemma delivers_bind:
  assumes "delivers s out" "\<And>s' r. out = Some (s', r) \<Longrightarrow> same_setup s s' \<Longrightarrow> delivers s' (g s' r)"
  shows "delivers s (case out of None \<Rightarrow> None | Some (s', r) \<Rightarrow> g s' r)"
proof (rule deliversI)
  fix E R assume "inboxes s E R"
  then obtain s' r E' R' where a: "out = Some (s', r)" "inboxes s' E' R'" "\<forall>k. prefix (E k) (E' k)" "same_setup s s'"
    using assms(1) unfolding delivers_def by blast
  then obtain s2 r2 E2 R2 where "g s' r = Some (s2, r2)" "inboxes s2 E2 R2" "\<forall>k. prefix (E' k) (E2 k)" "same_setup s' s2"
    using assms(2) [OF a(1,4)] unfolding delivers_def by blast
  then show "\<exists>s' r E' R'. (case out of None \<Rightarrow> None | Some (s', r) \<Rightarrow> g s' r) = Some (s', r) \<and> inboxes s' E' R' \<and> (\<forall>k. prefix (E k) (E' k)) \<and> same_setup s s'"
    using a same_setup_trans prefix_order.trans by (intro exI [of _ s2] exI [of _ r2] exI [of _ E2] exI [of _ R2]) (simp, blast)
qed

lemma whole_clients_same: "same_setup s s' \<Longrightarrow> whole_clients s' = whole_clients s"
  by (simp add: whole_clients_def same_setup_def)

text \<open>A dispatch of kernel clients that delivers.\<close>

definition good_dispatch :: "'w dispatch \<Rightarrow> bool" where
  "good_dispatch d \<longleftrightarrow> (\<forall>client ev s. whole ev \<longrightarrow> whole_clients s \<longrightarrow> delivers s (d client ev s))"

lemma set_world_delivers: "delivers s (Some (set_world w s, r))"
  by (rule delivers_same) simp_all

lemma react_delivers: "good_dispatch d \<Longrightarrow> whole_reaction a \<Longrightarrow> whole_clients s \<Longrightarrow> delivers s (react d a s)"
proof (induction a arbitrary: s)
  case (Reply w r)
  then show ?case by (simp add: set_world_delivers)
next
  case (Dispatch w client ev k)
  have w: "whole_clients (set_world w s)" using Dispatch.prems(3) whole_clients_same [of s "set_world w s"] by simp
  then have "delivers (set_world w s) (d client ev (set_world w s))" using Dispatch.prems(1,2) by (simp add: good_dispatch_def)
  then have "delivers (set_world w s) (react d (Dispatch w client ev k) s)"
    unfolding react.simps
  proof (rule delivers_bind)
    fix s' r assume "same_setup (set_world w s) s'"
    then have "whole_clients s'" using w whole_clients_same by blast
    then show "delivers s' (react d (k r (sp_world (sy_ports s'))) s')" using Dispatch.prems by (intro Dispatch.IH) auto
  qed
  then show ?case unfolding delivers_def using same_setup_trans [OF set_world_inboxes(2)] by (meson set_world_inboxes(1))
qed

lemma stamp_whole [simp]: "whole (update_timestamp_of_queue now q rt qs ev) = whole ev" "whole (stamp_for_port env port qs ev) = whole ev"
  "whole (stamp_for_subs env i qs ev) = whole ev"
  by (simp_all add: update_timestamp_of_queue_def stamp_for_port_def stamp_for_subs_def Let_def split: option.split)

lemma whole_bounce [simp]: "whole (bounce_ev env c ev err)"
  by (simp add: bounce_ev_def)

lemma use_ptr_client: "snd_seq_client_use_ptr k s = Some c \<Longrightarrow> sp_client s k = Some c"
  by (simp add: snd_seq_client_use_ptr_def split: if_splits)

lemma dest_client: "get_event_dest_client ev s = Some c \<Longrightarrow> sp_client s (uint (fst (ev_dest ev))) = Some c"
  by (auto simp: get_event_dest_client_def dest: use_ptr_client split: option.splits if_splits)

lemma arrive_delivers:
  assumes d: "good_dispatch d" and w: "whole ev" "whole_clients s" "whole_env env"
  shows "delivers s (map_option snd (arrive env d ev s)) \<and> (\<forall>ev' o1. arrive env d ev s = Some (ev', o1) \<longrightarrow> whole ev')"
proof (cases "get_event_dest_client ev (sy_ports s)")
  case None
  then show ?thesis using w(1) by (simp add: arrive_def delivers_same)
next
  case (Some c)
  show ?thesis
  proof (cases "snd_seq_port_use_ptr c (uint (snd (ev_dest ev))) (sy_ports s)")
    case None
    then show ?thesis using Some w(1) by (simp add: arrive_def delivers_same)
  next
    case (Some p)
    let ?port = "sp_port (sy_ports s) p"
    let ?ev = "stamp_for_port env ?port (sy_queues s) ev"
    have u: "delivers s (fifo_input (dl_data env) c ?ev s)"
    proof (cases "cl_fifo c = None")
      case True
      then show ?thesis by (simp add: fifo_input_def delivers_same)
    next
      case False
      show ?thesis
      proof (rule deliversI)
        fix E R assume "inboxes s E R"
        from fifo_input_inboxes [OF this dest_client [OF \<open>get_event_dest_client ev (sy_ports s) = Some c\<close>] False, of ?ev "dl_data env"] w(1,3)
        obtain s' r where f: "fifo_input (dl_data env) c ?ev s = Some (s', r)" "same_setup s s'"
          and r: "case r of Inl e \<Rightarrow> inboxes s' E R \<and> (\<not> is_variable ?ev \<longrightarrow> R (uint (fst (ev_dest ev))) = 0 \<and> e = EAGAIN)
            | Inr n \<Rightarrow> n = 0 \<and> (\<exists>e room. inboxes s' (E(uint (fst (ev_dest ev)) := E (uint (fst (ev_dest ev))) @ [e])) (R(uint (fst (ev_dest ev)) := room)) \<and>
                (\<not> is_variable ?ev \<longrightarrow> e = ?ev \<and> R (uint (fst (ev_dest ev))) = Suc room))"
          by (auto simp: whole_env_def)
        show "\<exists>s' r E' R'. fifo_input (dl_data env) c ?ev s = Some (s', r) \<and> inboxes s' E' R' \<and> (\<forall>k. prefix (E k) (E' k)) \<and> same_setup s s'"
        proof (cases r)
          case (Inl e)
          then show ?thesis using f r by auto
        next
          case (Inr n)
          then obtain e room where "inboxes s' (E(uint (fst (ev_dest ev)) := E (uint (fst (ev_dest ev))) @ [e])) (R(uint (fst (ev_dest ev)) := room))"
            using r by auto
          moreover have "prefix (E k) ((E(uint (fst (ev_dest ev)) := E (uint (fst (ev_dest ev))) @ [e])) k)" for k by simp
          ultimately show ?thesis using f by blast
        qed
      qed
    qed
    have k: "delivers s (react d (input ?ev b (sp_world (sy_ports s))) s)" if "po_event_input ?port = Some input" for input b
      using that w by (intro react_delivers [OF d _ w(2)]) (simp add: whole_clients_def)
    show ?thesis using Some \<open>get_event_dest_client ev (sy_ports s) = Some c\<close> u k w(1)
      by (auto simp: arrive_def Let_def delivers_same option.map_comp comp_def option.map_ident split: snd_seq_client_type.split option.split)
  qed
qed

lemma lose_event_inboxes:
  assumes "inboxes s E R"
  shows "inboxes (lose_event k s) E R"
proof (cases "sp_client (sy_ports s) k")
  case (Some c)
  have "cl_number c = k" using assms Some by (simp add: inboxes_def)
  then have cl: "sp_client (sy_ports (lose_event k s)) = (sp_client (sy_ports s))(k \<mapsto> c\<lparr>cl_event_lost := cl_event_lost c + 1\<rparr>)"
    "sy_mem (lose_event k s) = sy_mem s" using Some by (simp_all add: lose_event_def)
  show ?thesis unfolding inboxes_def cl using assms Some unfolding inboxes_def by (intro conjI allI impI) (auto split: if_splits)
qed (use assms in \<open>simp add: lose_event_def\<close>)

lemma lose_event_same: "inboxes s E R \<Longrightarrow> same_setup s (lose_event k s)"
  by (auto simp: inboxes_def lose_event_def same_setup_def still_def split: option.split)

lemma bounce_delivers:
  assumes d: "good_dispatch (d 1)" and w: "whole_clients s" "whole_env env"
  shows "delivers s (bounce_error_event env d client ev err s)"
proof (cases "\<exists>c. client = Some c \<and> bit (cl_filter c) FILTER_BOUNCE \<and> cl_accept_input c")
  case True
  then obtain c where c: "client = Some c" "bit (cl_filter c) FILTER_BOUNCE" "cl_accept_input c" by blast
  let ?b = "arrive env (d 1) (bounce_ev env c ev err) s"
  have a: "delivers s (map_option snd ?b)" using arrive_delivers [OF d _ w(1,2), of "bounce_ev env c ev err"] by simp
  have "delivers s (case map_option snd ?b of None \<Rightarrow> None | Some (s1, r) \<Rightarrow> Some (case r of Inl _ \<Rightarrow> lose_event (cl_number c) s1 | Inr _ \<Rightarrow> s1, r))"
  proof (rule delivers_bind [OF a], rule deliversI)
    fix s1 r E R assume "inboxes s1 E R"
    then show "\<exists>s' r' E' R'. Some (case r of Inl _ \<Rightarrow> lose_event (cl_number c) s1 | Inr _ \<Rightarrow> s1, r) = Some (s', r') \<and> inboxes s' E' R' \<and>
        (\<forall>k. prefix (E k) (E' k)) \<and> same_setup s1 s'"
      using lose_event_inboxes [of s1 E R "cl_number c"] lose_event_same [of s1 E R "cl_number c"]
      by (intro exI [of _ "case r of Inl _ \<Rightarrow> lose_event (cl_number c) s1 | Inr _ \<Rightarrow> s1"] exI [of _ r] exI [of _ E] exI [of _ R])
        (simp split: sum.split)
  qed
  moreover have "bounce_error_event env d client ev err s =
      (case map_option snd ?b of None \<Rightarrow> None | Some (s1, r) \<Rightarrow> Some (case r of Inl _ \<Rightarrow> lose_event (cl_number c) s1 | Inr _ \<Rightarrow> s1, r))"
    using c by (auto simp: bounce_error_event_def split: option.split)
  ultimately show ?thesis by simp
next
  case False
  then have "bounce_error_event env d client ev err s = Some (s, Inr 0)" by (auto simp: bounce_error_event_def split: option.split)
  then show ?thesis by (simp add: delivers_same)
qed

lemma single_delivers:
  assumes d: "good_dispatch (d 0)" "good_dispatch (d 1)" and w: "whole ev" "whole_clients s" "whole_env env"
  shows "delivers s (map_option snd (snd_seq_deliver_single_event env d client ev s))"
proof -
  let ?a = "arrive env (d 0) ev s"
  have a: "delivers s (map_option snd ?a)" using arrive_delivers [OF d(1) w] by blast
  show ?thesis
  proof (rule deliversI)
    fix E R assume i: "inboxes s E R"
    obtain s1 r E1 R1 where o1: "map_option snd ?a = Some (s1, r)" "inboxes s1 E1 R1" "\<forall>k. prefix (E k) (E1 k)" "same_setup s s1"
      using a i unfolding delivers_def by blast
    then obtain ev' where ev': "?a = Some (ev', s1, r)" by auto
    show "\<exists>s' r E' R'. map_option snd (snd_seq_deliver_single_event env d client ev s) = Some (s', r) \<and> inboxes s' E' R' \<and>
        (\<forall>k. prefix (E k) (E' k)) \<and> same_setup s s'"
    proof (cases "\<exists>e. r = Inl e \<and> \<not> is_direct ev")
      case False
      then have "snd_seq_deliver_single_event env d client ev s = Some (ev', s1, r)" using ev' by (cases r) (auto simp: snd_seq_deliver_single_event_def)
      then show ?thesis using o1 by auto
    next
      case True
      then obtain e where e: "r = Inl e" "\<not> is_direct ev" by blast
      have "whole_clients s1" using w(2) whole_clients_same [OF o1(4)] by simp
      from bounce_delivers [where d = d, OF d(2) this w(3), of client ev' e] o1(2) obtain s2 r2 E2 R2 where
        b: "bounce_error_event env d client ev' e s1 = Some (s2, r2)" "inboxes s2 E2 R2" "\<forall>k. prefix (E1 k) (E2 k)" "same_setup s1 s2"
        unfolding delivers_def by blast
      then have "snd_seq_deliver_single_event env d client ev s = Some (ev', s2, r2)" using ev' e by (simp add: snd_seq_deliver_single_event_def)
      moreover have "prefix (E k) (E2 k)" for k using o1(3) b(3) prefix_order.trans by blast
      ultimately show ?thesis using b same_setup_trans [OF o1(4) b(4)] by auto
    qed
  qed
qed

lemma subscribers_delivers:
  assumes d: "good_dispatch (d 0)" "good_dispatch (d 1)" and w: "whole ev" "whole_env env"
  shows "whole_clients s \<Longrightarrow> delivers s (subscribers_loop env d client ev ns n s)"
proof (induction ns arbitrary: n s)
  case Nil
  then show ?case by (simp add: delivers_same)
next
  case (Cons m ns)
  let ?ev = "stamp_for_subs env (su_info (sp_subs (sy_ports s) m)) (sy_queues s) ev"
  let ?one = "map_option snd (snd_seq_deliver_single_event env d (Some client) ?ev s)"
  have a: "delivers s ?one" by (rule single_delivers [OF d]) (use w Cons.prems in simp_all)
  have "subscribers_loop env d client ev (m # ns) n s = (case ?one of None \<Rightarrow> None | Some (s1, r) \<Rightarrow>
      (case r of Inl e \<Rightarrow> Some (s1, Inl e) | Inr _ \<Rightarrow> subscribers_loop env d client ev ns (n + 1) s1))"
    by (auto split: option.split sum.split)
  also have "delivers s \<dots>"
  proof (rule delivers_bind [OF a])
    fix s1 r assume "same_setup s s1"
    then have "whole_clients s1" using Cons.prems whole_clients_same by blast
    then show "delivers s1 (case r of Inl e \<Rightarrow> Some (s1, Inl e) | Inr _ \<Rightarrow> subscribers_loop env d client ev ns (n + 1) s1)"
      using Cons.IH by (auto simp: delivers_same split: sum.split)
  qed
  finally show ?case .
qed

lemma snd_seq_deliver_event_delivers:
  fixes s :: "'w seq_sys"
  shows "whole ev \<Longrightarrow> whole_env env \<Longrightarrow> whole_clients s \<Longrightarrow> delivers s (snd_seq_deliver_event env hop client ev s)"
proof (induction "MAX_HOPS - hop" arbitrary: hop client ev s rule: less_induct)
  case less
  show ?case
  proof (cases "hop + 1 \<ge> MAX_HOPS")
    case True
    then show ?thesis by (simp add: snd_seq_deliver_event.simps delivers_same)
  next
    case False
    let ?d = "\<lambda>i. client_dispatch (\<lambda>c e (t :: 'w seq_sys). snd_seq_deliver_event env (hop + 1 + i) c e t)"
    have d: "good_dispatch (?d i)" for i
      unfolding good_dispatch_def
    proof (intro allI impI)
      fix k e and t :: "'w seq_sys" assume e: "whole e" "whole_clients t"
      have "MAX_HOPS - (hop + 1 + i) < MAX_HOPS - hop" using False by linarith
      from less.hyps [OF this _ less.prems(2) e(2)] e(1)
      have "delivers t (snd_seq_deliver_event env (hop + 1 + i) c (e\<lparr>ev_queue := QUEUE_DIRECT, ev_source := a\<rparr>) t)" for c a by simp
      then show "delivers t (?d i k e t)" by (simp add: client_dispatch_def Let_def delivers_same split: sum.split option.split)
    qed
    have "delivers s (deliver_somewhere env ?d client ev s)"
      using single_delivers [where d = ?d and env = env and client = "Some client", OF d d less.prems(1,3,2)] subscribers_delivers [where d = ?d, OF d d less.prems(1,2,3)]
      by (auto simp: deliver_somewhere_def deliver_to_subscribers_def delivers_same split: option.split)
    then show ?thesis using False by (subst snd_seq_deliver_event.simps) (simp only: if_False)
  qed
qed

section \<open>Subscribers that read\<close>

text \<open>The port an event arrives at, when it is one of a user client that takes it.\<close>

definition reader :: "snd_seq_event \<Rightarrow> 'w seq_sys \<Rightarrow> nat option" where
  "reader ev s =
     (case get_event_dest_client ev (sy_ports s) of
        None \<Rightarrow> None
      | Some c \<Rightarrow> (case snd_seq_port_use_ptr c (uint (snd (ev_dest ev))) (sy_ports s) of
          None \<Rightarrow> None
        | Some p \<Rightarrow> if check_port_perm (sp_port (sy_ports s) p) CAP_WRITE \<and> cl_type c = USER_CLIENT \<and> cl_fifo c \<noteq> None then Some p else None))"

text \<open>The event on its way to subscriber \<open>n\<close>, the client it goes to, and the event as it ends up there.\<close>

definition arriving :: "deliver_env \<Rightarrow> 'w seq_sys \<Rightarrow> snd_seq_event \<Rightarrow> nat \<Rightarrow> snd_seq_event" where
  "arriving env s ev n = stamp_for_subs env (su_info (sp_subs (sy_ports s) n)) (sy_queues s) ev"

definition target :: "'w seq_sys \<Rightarrow> nat \<Rightarrow> int" where
  "target s n = uint (fst (pi_dest (su_info (sp_subs (sy_ports s) n))))"

definition received :: "deliver_env \<Rightarrow> 'w seq_sys \<Rightarrow> snd_seq_event \<Rightarrow> snd_seq_event" where
  "received env s e = (case reader e s of None \<Rightarrow> e | Some p \<Rightarrow> stamp_for_port env (sp_port (sy_ports s) p) (sy_queues s) e)"

lemma stamp_dest [simp]: "ev_dest (update_timestamp_of_queue now q rt qs ev) = ev_dest ev" "ev_dest (stamp_for_port env port qs ev) = ev_dest ev"
  "ev_dest (stamp_for_subs env i qs ev) = pi_dest i"
  by (simp_all add: update_timestamp_of_queue_def stamp_for_port_def stamp_for_subs_def Let_def split: option.split)

lemma stamp_variable [simp]: "is_variable (update_timestamp_of_queue now q rt qs ev) = is_variable ev"
  "is_variable (stamp_for_port env port qs ev) = is_variable ev" "is_variable (stamp_for_subs env i qs ev) = is_variable ev"
proof -
  have m: "(NOT 1 :: u8) AND 12 = 12" "(1 :: u8) AND 12 = 0" by simp_all
  have "(f AND NOT 1 :: u8) AND 12 = f AND 12" "((f AND NOT 1 :: u8) OR 1) AND 12 = f AND 12" for f
    by (simp_all only: bit.conj_disj_distrib2 and.assoc m and_zero_eq or.right_neutral)
  then show v: "is_variable (update_timestamp_of_queue now q rt qs ev) = is_variable ev" for now q rt qs ev
    by (auto simp: update_timestamp_of_queue_def is_variable_def Let_def split: option.split)
  show "is_variable (stamp_for_port env port qs ev) = is_variable ev" by (simp add: stamp_for_port_def v)
  have "is_variable (ev\<lparr>ev_dest := a\<rparr>) = is_variable ev" for a by (simp add: is_variable_def)
  then show "is_variable (stamp_for_subs env i qs ev) = is_variable ev" by (simp add: stamp_for_subs_def Let_def v)
qed

lemma arriving_simps [simp]: "whole (arriving env s ev n) = whole ev" "is_variable (arriving env s ev n) = is_variable ev"
  "uint (fst (ev_dest (arriving env s ev n))) = target s n"
  by (simp_all add: arriving_def target_def)

lemma same_clients:
  assumes "same_setup s s'"
  shows "(case sp_client (sy_ports s') k of None \<Rightarrow> sp_client (sy_ports s) k = None
    | Some c' \<Rightarrow> \<exists>c. sp_client (sy_ports s) k = Some c \<and> still c = still c')"
proof -
  have "map_option still (sp_client (sy_ports s') k) = map_option still (sp_client (sy_ports s) k)" using assms by (simp add: same_setup_def)
  then show ?thesis by (cases "sp_client (sy_ports s') k"; cases "sp_client (sy_ports s) k") simp_all
qed

lemma reader_same:
  assumes "same_setup s s'"
  shows "reader e s' = reader e s"
proof -
  have p: "sp_port (sy_ports s') = sp_port (sy_ports s)" using assms by (simp add: same_setup_def)
  let ?k = "uint (fst (ev_dest e))"
  show ?thesis
  proof (cases "sp_client (sy_ports s') ?k")
    case None
    then have "sp_client (sy_ports s) ?k = None" using same_clients [OF assms, of ?k] by simp
    then show ?thesis using None by (simp add: reader_def get_event_dest_client_def snd_seq_client_use_ptr_def)
  next
    case (Some c')
    then obtain c where c: "sp_client (sy_ports s) ?k = Some c" "still c = still c'" using same_clients [OF assms, of ?k] by auto
    note e = still_eqD [OF c(2)]
    show ?thesis
      by (simp add: reader_def get_event_dest_client_def snd_seq_client_use_ptr_def c(1) Some e(1,2,5,6) snd_seq_port_use_ptr_def e(7,9) p del: not_None_eq split: option.split)
  qed
qed

lemma setup_same:
  assumes "same_setup s s'"
  shows "arriving env s' ev n = arriving env s ev n" "target s' n = target s n" "received env s' e = received env s e"
proof -
  have q: "sp_port (sy_ports s') = sp_port (sy_ports s)" "sp_subs (sy_ports s') = sp_subs (sy_ports s)" "sy_queues s' = sy_queues s"
    using assms by (simp_all add: same_setup_def)
  show "arriving env s' ev n = arriving env s ev n" "target s' n = target s n" by (simp_all add: arriving_def target_def q)
  show "received env s' e = received env s e" by (cases "reader e s") (simp_all add: received_def q reader_same [OF assms])
qed

text \<open>One reader: it gets the event, or has no room.\<close>

lemma single_reader:
  assumes i: "inboxes s E R" and e: "reader e s \<noteq> None" "whole e" "whole_env env" "\<not> is_variable e"
  shows "\<exists>s'. same_setup s s' \<and>
    (case R (uint (fst (ev_dest e))) of
       0 \<Rightarrow> arrive env d e s = Some (received env s e, s', Inl EAGAIN) \<and> inboxes s' E R
     | Suc r \<Rightarrow> arrive env d e s = Some (received env s e, s', Inr 0) \<and>
         inboxes s' (E(uint (fst (ev_dest e)) := E (uint (fst (ev_dest e))) @ [received env s e])) (R(uint (fst (ev_dest e)) := r)))"
proof -
  let ?k = "uint (fst (ev_dest e))"
  obtain c p where c: "get_event_dest_client e (sy_ports s) = Some c" "snd_seq_port_use_ptr c (uint (snd (ev_dest e))) (sy_ports s) = Some p"
    "check_port_perm (sp_port (sy_ports s) p) CAP_WRITE" "cl_type c = USER_CLIENT" "cl_fifo c \<noteq> None" "reader e s = Some p"
    using e(1) by (auto simp: reader_def split: option.splits if_splits)
  have ev: "received env s e = stamp_for_port env (sp_port (sy_ports s) p) (sy_queues s) e" by (simp add: received_def c(6))
  have run: "arrive env d e s = map_option (Pair (received env s e)) (fifo_input (dl_data env) c (received env s e) s)"
    by (simp add: arrive_def c ev Let_def)
  have "whole (received env s e)" "\<not> is_variable (received env s e)" using e by (simp_all add: ev)
  moreover have "length (de_kernel (dl_data env) a k) = k" for a k using e(3) by (simp add: whole_env_def)
  ultimately obtain s' r where f: "fifo_input (dl_data env) c (received env s e) s = Some (s', r)" "same_setup s s'"
    and r0: "case r of Inl er \<Rightarrow> inboxes s' E R \<and> (\<not> is_variable (received env s e) \<longrightarrow> R ?k = 0 \<and> er = EAGAIN)
      | Inr n \<Rightarrow> n = 0 \<and> (\<exists>x room. inboxes s' (E(?k := E ?k @ [x])) (R(?k := room)) \<and>
          (\<not> is_variable (received env s e) \<longrightarrow> x = received env s e \<and> R ?k = Suc room))"
    using fifo_input_inboxes [OF i dest_client [OF c(1)] c(5), of "received env s e" "dl_data env"] by blast
  show ?thesis
  proof (cases r)
    case (Inl er)
    then show ?thesis using f r0 run \<open>\<not> is_variable (received env s e)\<close> by (intro exI [of _ s']) simp
  next
    case (Inr n)
    then show ?thesis using f r0 run \<open>\<not> is_variable (received env s e)\<close> by (intro exI [of _ s']) auto
  qed
qed

text \<open>All of them, when each has room for what it gets.\<close>

abbreviation for_client :: "'w seq_sys \<Rightarrow> int \<Rightarrow> nat list \<Rightarrow> nat list" where
  "for_client s k ns \<equiv> filter (\<lambda>n. target s n = k) ns"

lemma subscribers_loop_all:
  assumes "inboxes s E R" "\<forall>n\<in>set ns. reader (arriving env s ev n) s \<noteq> None" "\<forall>k. length (for_client s k ns) \<le> R k"
    and ev: "whole ev" "whole_env env" "\<not> is_variable ev"
  shows "\<exists>s'. same_setup s s' \<and> subscribers_loop env d client ev (ns @ ms) i s = subscribers_loop env d client ev ms (i + int (length ns)) s' \<and>
    inboxes s' (\<lambda>k. E k @ map (\<lambda>n. received env s (arriving env s ev n)) (for_client s k ns)) (\<lambda>k. R k - length (for_client s k ns))"
  using assms(1-3)
proof (induction ns arbitrary: s E R i)
  case Nil
  then show ?case by (intro exI [of _ s]) simp
next
  case (Cons n ns)
  let ?e = "arriving env s ev n" and ?k = "target s n"
  have "R ?k \<noteq> 0" using Cons.prems(3) by (metis (mono_tags, lifting) filter.simps(2) le_zero_eq length_0_conv list.distinct(1))
  then obtain r where r: "R ?k = Suc r" using not0_implies_Suc by blast
  from single_reader [OF Cons.prems(1), of ?e env "d 0"] Cons.prems(2) ev obtain s1 where s1: "same_setup s s1"
    "arrive env (d 0) ?e s = Some (received env s ?e, s1, Inr 0)" "inboxes s1 (E(?k := E ?k @ [received env s ?e])) (R(?k := r))"
    by (auto simp: r)
  then have run: "subscribers_loop env d client ev ((n # ns) @ ms) i s = subscribers_loop env d client ev (ns @ ms) (i + 1) s1"
    by (simp add: snd_seq_deliver_single_event_def arriving_def)
  note same = setup_same [OF s1(1)] reader_same [OF s1(1)]
  have "length (for_client s1 k ns) \<le> (R(?k := r)) k" for k
    using Cons.prems(3) [rule_format, of k] r by (auto simp: same split: if_splits)
  moreover have "\<forall>m\<in>set ns. reader (arriving env s1 ev m) s1 \<noteq> None" using Cons.prems(2) by (simp add: same)
  ultimately obtain s2 where s2: "same_setup s1 s2"
    "subscribers_loop env d client ev (ns @ ms) (i + 1) s1 = subscribers_loop env d client ev ms (i + 1 + int (length ns)) s2"
    "inboxes s2 (\<lambda>k. (E(?k := E ?k @ [received env s ?e])) k @ map (\<lambda>n. received env s1 (arriving env s1 ev n)) (for_client s1 k ns))
      (\<lambda>k. (R(?k := r)) k - length (for_client s1 k ns))"
    using Cons.IH [OF s1(3), of "i + 1"] by blast
  have "(\<lambda>k. (E(?k := E ?k @ [received env s ?e])) k @ map (\<lambda>n. received env s1 (arriving env s1 ev n)) (for_client s1 k ns)) =
      (\<lambda>k. E k @ map (\<lambda>n. received env s (arriving env s ev n)) (for_client s k (n # ns)))"
    "(\<lambda>k. (R(?k := r)) k - length (for_client s1 k ns)) = (\<lambda>k. R k - length (for_client s k (n # ns)))"
    using r by (auto simp: fun_eq_iff same)
  then show ?case using s2 run same_setup_trans [OF s1(1) s2(1)] by (intro exI [of _ s2]) (simp add: algebra_simps)
qed

text \<open>
  The delivery to subscribers, seen from the client that sends from port \<open>p\<close>.
\<close>

lemma deliver_to_subscribers_at:
  assumes "hop + 1 < MAX_HOPS" "fst (ev_dest ev) = TO_SUBSCRIBERS" "snd_seq_port_use_ptr client (uint (snd (ev_source ev))) (sy_ports s) = Some p"
  shows "\<exists>d. snd_seq_deliver_event env hop client ev s = subscribers_loop env d client ev (si_list (po_c_src (sp_port (sy_ports s) p))) 0 s"
  using assms by (subst snd_seq_deliver_event.simps) (auto simp: deliver_somewhere_def deliver_to_subscribers_def)

section \<open>An example\<close>

text \<open>
  Client 128 has a port with subscribers at clients 129 and 130, each with room for one event; or 129 with none left.
\<close>

definition mail_mem :: "bool \<Rightarrow> seq_mem" where
  "mail_mem full = \<lparr>sm_cells = \<lambda>c. \<lparr>ce_raw = replicate 28 0, ce_pool = (if c = 16 then 1 else 2), ce_next = 0\<rparr>,
     sm_pools = \<lambda>p. (snd_seq_pool_new 1)\<lparr>pl_ptr := 16, pl_total_elements := 1, pl_free := if p = 1 then (if full then 0 else 16) else 32,
       pl_counter := if full \<and> p = 1 then 1 else 0\<rparr>\<rparr>"

definition mail_fifo :: "bool \<Rightarrow> snd_seq_fifo" where
  "mail_fifo full = (if full then \<lparr>ff_pool = 1, ff_head = 16, ff_tail = 16, ff_cells = 1, ff_overflow = 0\<rparr> else fifo_empty 1)"

definition mail_client :: "int \<Rightarrow> nat \<Rightarrow> snd_seq_fifo option \<Rightarrow> snd_seq_client" where
  "mail_client k p f = \<lparr>cl_type = USER_CLIENT, cl_accept_input = True, cl_accept_output = True, cl_number = k, cl_filter = 0, cl_event_filter = {},
     cl_event_lost = 0, cl_num_ports = 1, cl_ports = [p], cl_pool = 0, cl_fifo = f\<rparr>"

definition mail_port :: "nat \<Rightarrow> unit snd_seq_client_port" where
  "mail_port p = \<lparr>po_addr = (128 + of_nat p, 0), po_owner = True, po_c_src = port_subs_info_init\<lparr>si_list := if p = 0 then [7, 8] else []\<rparr>,
     po_c_dest = port_subs_info_init, po_private_free = None, po_event_input = None, po_callback_all = False, po_closing = False,
     po_timestamping = False, po_time_real = False, po_time_queue = 0, po_capability = 0x63, po_type = 0, po_midi_channels = 0,
     po_midi_voices = 0, po_synth_voices = 0\<rparr>"

definition mail :: "bool \<Rightarrow> unit seq_sys" where
  "mail full = \<lparr>sy_ports = \<lparr>sp_client = [128 \<mapsto> mail_client 128 0 None, 129 \<mapsto> mail_client 129 1 (Some (mail_fifo full)), 130 \<mapsto> mail_client 130 2 (Some (fifo_empty 2))],
       sp_port = mail_port, sp_subs = \<lambda>n. \<lparr>su_info = \<lparr>pi_sender = (128, 0), pi_dest = (if n = 7 then 129 else 130, 0), pi_voices = 0, pi_flags = 0, pi_queue = 0\<rparr>,
         su_ref_count = 2\<rparr>, sp_alive = {7, 8}, sp_told = [], sp_world = ()\<rparr>,
     sy_queues = \<lparr>sq_list = \<lambda>_. None, sq_num = 0\<rparr>, sy_mem = mail_mem full\<rparr>"

definition mail_events :: "bool \<Rightarrow> int \<Rightarrow> snd_seq_event list" where
  "mail_events full k = (if full \<and> k = 129 then [event_of (replicate 28 0)] else [])"

definition mail_room :: "bool \<Rightarrow> int \<Rightarrow> nat" where
  "mail_room full k = (if full \<and> k = 129 then 0 else 1)"

definition letter :: snd_seq_event where
  "letter = plain_event\<lparr>ev_queue := QUEUE_DIRECT, ev_source := (128, 0), ev_dest := (TO_SUBSCRIBERS, 0)\<rparr>"

definition mail_env :: deliver_env where
  "mail_env = \<lparr>dl_data = sysex_env [], dl_now = (0, 0), dl_quote = 0\<rparr>"

lemma mail_inboxes: "inboxes (mail full) (mail_events full) (mail_room full)"
proof -
  have "holds (mail_fifo full) (mail_events full 129) (mail_room full 129) (mail_mem full)"
  proof (cases full)
    case True
    then show ?thesis unfolding holds_def
      by (intro exI [of _ "[16]"] exI [of _ "[]"] exI [of _ "[16]"])
        (simp add: fifo_rep_def mail_fifo_def mail_mem_def pool_state_def pool_open_def mail_events_def mail_room_def cell_event_def snd_seq_pool_new_def)
  next
    case False
    then show ?thesis unfolding holds_def
      by (intro exI [of _ "[]"] exI [of _ "[16]"] exI [of _ "[]"])
        (simp add: fifo_rep_def mail_fifo_def mail_mem_def pool_state_def pool_open_def mail_events_def mail_room_def snd_seq_pool_new_def)
  qed
  moreover have "holds (fifo_empty 2) (mail_events full 130) (mail_room full 130) (mail_mem full)" unfolding holds_def
    by (intro exI [of _ "[]"] exI [of _ "[32]"] exI [of _ "[]"])
      (simp add: fifo_rep_def mail_mem_def pool_state_def pool_open_def mail_events_def mail_room_def snd_seq_pool_new_def)
  ultimately show ?thesis by (auto simp: inboxes_def mail_def mail_client_def mail_fifo_def split: if_splits)
qed

lemma mail_readers: "reader (arriving mail_env (mail full) letter 7) (mail full) \<noteq> None" "reader (arriving mail_env (mail full) letter 8) (mail full) \<noteq> None"
  by (simp_all add: reader_def arriving_def stamp_for_subs_def Let_def mail_def get_event_dest_client_def snd_seq_client_use_ptr_def mail_client_def
      snd_seq_port_use_ptr_def mail_port_def check_port_perm_def)

lemma mail_letter: "whole letter" "\<not> is_variable letter" "fst (ev_dest letter) = TO_SUBSCRIBERS" "whole_env mail_env" "is_direct (arriving mail_env (mail full) letter n)"
  by (simp_all add: letter_def is_variable_def whole_env_def mail_env_def sysex_env_def is_direct_def arriving_def stamp_for_subs_def mail_def)

lemma mail_source: "snd_seq_port_use_ptr (mail_client 128 0 None) (uint (snd (ev_source letter))) (sy_ports (mail full)) = Some 0"
  "si_list (po_c_src (sp_port (sy_ports (mail full)) 0)) = [7, 8]" "target (mail full) 7 = 129" "target (mail full) 8 = 130"
  by (simp_all add: snd_seq_port_use_ptr_def mail_client_def mail_def mail_port_def letter_def target_def)

text \<open>
  A MIDI through port that is connected to itself: an event goes round until the limit on hops stops it.
\<close>

definition circle :: "unit seq_sys" where
  "circle = (mail False)\<lparr>sy_ports := (sy_ports (mail False))
     \<lparr>sp_client := [128 \<mapsto> mail_client 128 0 None, 14 \<mapsto> (mail_client 14 3 None)\<lparr>cl_type := KERNEL_CLIENT\<rparr>],
      sp_port := mail_port(3 := (mail_port 0)\<lparr>po_addr := (14, 0), po_c_src := port_subs_info_init\<lparr>si_list := [9]\<rparr>,
        po_event_input := Some (dummy_input \<lparr>du_client = 14, du_port = 0, du_duplex = False, du_connect = 0\<rparr>)\<rparr>),
      sp_subs := \<lambda>n. \<lparr>su_info = \<lparr>pi_sender = (14, 0), pi_dest = (14, 0), pi_voices = 0, pi_flags = 0, pi_queue = 0\<rparr>, su_ref_count = 2\<rparr>\<rparr>\<rparr>"

definition round_trip :: snd_seq_event where
  "round_trip = letter\<lparr>ev_dest := (14, 0), ev_data := replicate 12 0\<rparr>"

lemma circle_stops: "map_option snd (snd_seq_deliver_event mail_env 0 (mail_client 128 0 None) round_trip circle) = Some (Inl EMLINK)"
  by code_simp

section \<open>Properties\<close>



text \<open>
  C11: Every subscriber gets the event (\<open>deliver_to_subscribers\<close>). When the subscribers of the source port are ports of user
  clients that may be written, with room in the pools of their fifos, an event of fixed length for the subscribers is appended once for each
  subscription to the fifo of its destination, in the order of the subscriptions, addressed to it, with the time stamps that the
  subscription and the port ask for; the result is the number of subscriptions, and no other fifo changes.
\<close>

theorem snd_seq_deliver_event_to_all:
  fixes s :: "'w seq_sys"
  assumes "inboxes s E R" "whole ev" "whole_env env" "\<not> is_variable ev" "hop + 1 < MAX_HOPS" "fst (ev_dest ev) = TO_SUBSCRIBERS"
    and "snd_seq_port_use_ptr client (uint (snd (ev_source ev))) (sy_ports s) = Some p" "ns = si_list (po_c_src (sp_port (sy_ports s) p))"
    and "\<forall>n\<in>set ns. reader (arriving env s ev n) s \<noteq> None" "\<forall>k. length (for_client s k ns) \<le> R k"
  shows "\<exists>s'. snd_seq_deliver_event env hop client ev s = Some (s', Inr (int (length ns))) \<and> same_setup s s' \<and>
    inboxes s' (\<lambda>k. E k @ map (\<lambda>n. received env s (arriving env s ev n)) (for_client s k ns)) (\<lambda>k. R k - length (for_client s k ns))"
proof -
  obtain d where d: "snd_seq_deliver_event env hop client ev s = subscribers_loop env d client ev ns 0 s"
    using deliver_to_subscribers_at [OF assms(5-7), of env] assms(8) by blast
  from subscribers_loop_all [OF assms(1,9,10,2-4), of d client "[]" 0] show ?thesis by (simp add: d) blast
qed

theorem snd_seq_deliver_event_to_all_witness:
  "\<exists>s'. snd_seq_deliver_event mail_env 0 (mail_client 128 0 None) letter (mail False) = Some (s', Inr 2) \<and> same_setup (mail False) s' \<and>
    inboxes s' (\<lambda>k. mail_events False k @ map (\<lambda>n. received mail_env (mail False) (arriving mail_env (mail False) letter n)) (for_client (mail False) k [7, 8]))
      (\<lambda>k. mail_room False k - length (for_client (mail False) k [7, 8]))"
proof -
  have "\<forall>n\<in>set [7, 8]. reader (arriving mail_env (mail False) letter n) (mail False) \<noteq> None" using mail_readers by simp
  moreover have "\<forall>k. length (for_client (mail False) k [7, 8]) \<le> mail_room False k" by (simp add: mail_source mail_room_def)
  ultimately show ?thesis
    using snd_seq_deliver_event_to_all [OF mail_inboxes mail_letter(1,4,2) _ mail_letter(3) mail_source(1) mail_source(2) [symmetric], of 0] by simp
qed

text \<open>
  C40: A full subscriber cuts the others off (\<open>deliver_to_subscribers\<close>). When the fifo of one subscriber has no room, a direct event of fixed
  length reaches the subscribers before it; those after it get nothing, although they may have room, and the sender gets
  \<open>-EAGAIN\<close> although some have got the event.
\<close>

theorem snd_seq_deliver_event_stops_at_full:
  fixes s :: "'w seq_sys"
  assumes "inboxes s E R" "whole ev" "whole_env env" "\<not> is_variable ev" "hop + 1 < MAX_HOPS" "fst (ev_dest ev) = TO_SUBSCRIBERS"
    and "snd_seq_port_use_ptr client (uint (snd (ev_source ev))) (sy_ports s) = Some p" "si_list (po_c_src (sp_port (sy_ports s) p)) = ns @ n # ms"
    and "\<forall>n\<in>set ns. reader (arriving env s ev n) s \<noteq> None" "\<forall>k. length (for_client s k ns) \<le> R k"
    and "reader (arriving env s ev n) s \<noteq> None" "R (target s n) = length (for_client s (target s n) ns)" "is_direct (arriving env s ev n)"
  shows "\<exists>s'. snd_seq_deliver_event env hop client ev s = Some (s', Inl EAGAIN) \<and> same_setup s s' \<and>
    inboxes s' (\<lambda>k. E k @ map (\<lambda>n. received env s (arriving env s ev n)) (for_client s k ns)) (\<lambda>k. R k - length (for_client s k ns))"
proof -
  obtain d where d: "snd_seq_deliver_event env hop client ev s = subscribers_loop env d client ev (ns @ n # ms) 0 s"
    using deliver_to_subscribers_at [OF assms(5-7), of env] assms(8) by auto
  from subscribers_loop_all [OF assms(1,9,10,2-4), of d client "n # ms" 0] obtain s1 where s1: "same_setup s s1"
    "subscribers_loop env d client ev (ns @ n # ms) 0 s = subscribers_loop env d client ev (n # ms) (int (length ns)) s1"
    "inboxes s1 (\<lambda>k. E k @ map (\<lambda>n. received env s (arriving env s ev n)) (for_client s k ns)) (\<lambda>k. R k - length (for_client s k ns))" by auto
  note same = setup_same [OF s1(1)] reader_same [OF s1(1)]
  have a: "arriving env s ev n = stamp_for_subs env (su_info (sp_subs (sy_ports s1) n)) (sy_queues s1) ev"
    using s1(1) by (simp add: arriving_def same_setup_def)
  from single_reader [OF s1(3), of "arriving env s ev n" env "d 0"] assms(2-4,11,12) obtain s2 where s2: "same_setup s1 s2"
    "arrive env (d 0) (arriving env s ev n) s1 = Some (received env s1 (arriving env s ev n), s2, Inl EAGAIN)"
    "inboxes s2 (\<lambda>k. E k @ map (\<lambda>n. received env s (arriving env s ev n)) (for_client s k ns)) (\<lambda>k. R k - length (for_client s k ns))"
    by (auto simp: same)
  then have "subscribers_loop env d client ev (n # ms) (int (length ns)) s1 = Some (s2, Inl EAGAIN)"
    using assms(13) by (simp add: snd_seq_deliver_single_event_def a [symmetric])
  then show ?thesis using d s1(2) s2(3) same_setup_trans [OF s1(1) s2(1)] by auto
qed

theorem snd_seq_deliver_event_stops_at_full_witness:
  "\<exists>s'. snd_seq_deliver_event mail_env 0 (mail_client 128 0 None) letter (mail True) = Some (s', Inl EAGAIN) \<and> same_setup (mail True) s' \<and>
    inboxes s' (mail_events True) (mail_room True)"
proof -
  have "mail_room True (target (mail True) 7) = length (for_client (mail True) (target (mail True) 7) [])" by (simp add: mail_source mail_room_def)
  then show ?thesis
    using snd_seq_deliver_event_stops_at_full [OF mail_inboxes mail_letter(1,4,2) _ mail_letter(3) mail_source(1), where hop = 0 and ns = "[]" and n = 7 and ms = "[8]"]
      mail_readers(1) mail_letter(5) mail_source(2) by simp
qed

end
