(* ===== verification/Seq_Post.thy ===== *)
theory Seq_Post
  imports Seq_Dispatch Seq_Delivery
begin

text \<open>
  From the queue to the readers: a check of a queue, with the delivery of the client manager. The pools of the queued
  events and those of the fifos are different allocations and are kept in two memories; events have a fixed
  length, so that nothing is copied from one to the other but the event. The clocks that stamp events stand still during the check.
\<close>

section \<open>Who gets an event\<close>

definition deliver_from :: "deliver_env \<Rightarrow> snd_seq_event \<Rightarrow> 'w seq_sys \<Rightarrow> 'w seq_sys" where
  "deliver_from env ev s =
     (case snd_seq_client_use_ptr (uint (fst (ev_source ev))) (sy_ports s) of
        None \<Rightarrow> s
      | Some c \<Rightarrow> (case snd_seq_deliver_event env 0 c ev s of None \<Rightarrow> s | Some (s', _) \<Rightarrow> s'))"

definition sender_there :: "'w seq_sys \<Rightarrow> int \<Rightarrow> bool" where
  "sender_there s k \<longleftrightarrow> snd_seq_client_use_ptr k (sy_ports s) \<noteq> None"

abbreviation to_subscribers :: "snd_seq_event \<Rightarrow> bool" where
  "to_subscribers ev \<equiv> ev_queue ev = TO_SUBSCRIBERS \<or> fst (ev_dest ev) = TO_SUBSCRIBERS"

definition source_port :: "'w seq_sys \<Rightarrow> snd_seq_event \<Rightarrow> nat option" where
  "source_port s ev =
     (case snd_seq_client_use_ptr (uint (fst (ev_source ev))) (sy_ports s) of
        None \<Rightarrow> None
      | Some c \<Rightarrow> snd_seq_port_use_ptr c (uint (snd (ev_source ev))) (sy_ports s))"

text \<open>The copies of an event, each with its own destination.\<close>

definition route :: "deliver_env \<Rightarrow> 'w seq_sys \<Rightarrow> snd_seq_event \<Rightarrow> snd_seq_event list" where
  "route env s ev =
     (if to_subscribers ev then
        (case source_port s ev of None \<Rightarrow> [] | Some p \<Rightarrow> map (arriving env s ev) (si_list (po_c_src (sp_port (sy_ports s) p))))
      else [ev])"

abbreviation dest_client_no :: "snd_seq_event \<Rightarrow> int" where
  "dest_client_no e \<equiv> uint (fst (ev_dest e))"

definition deliverable :: "deliver_env \<Rightarrow> 'w seq_sys \<Rightarrow> snd_seq_event \<Rightarrow> bool" where
  "deliverable env s ev \<longleftrightarrow>
     whole ev \<and> \<not> is_variable ev \<and> sender_there s (uint (fst (ev_source ev))) \<and> (to_subscribers ev \<longrightarrow> source_port s ev \<noteq> None) \<and>
     (\<forall>e\<in>set (route env s ev). reader e s \<noteq> None)"

lemma client_same:
  assumes "same_setup s s'" "snd_seq_client_use_ptr k (sy_ports s) = Some c"
  shows "\<exists>c'. snd_seq_client_use_ptr k (sy_ports s') = Some c' \<and> still c = still c'"
  using same_clients [OF assms(1), of k] assms(2) by (auto simp: snd_seq_client_use_ptr_def split: option.splits if_splits)

lemma client_same_none:
  assumes "same_setup s s'"
  shows "(snd_seq_client_use_ptr k (sy_ports s') = None) = (snd_seq_client_use_ptr k (sy_ports s) = None)"
  using same_clients [OF assms, of k] by (auto simp: snd_seq_client_use_ptr_def split: option.splits)

lemma source_port_same:
  assumes "same_setup s s'"
  shows "source_port s' ev = source_port s ev"
proof (cases "snd_seq_client_use_ptr (uint (fst (ev_source ev))) (sy_ports s)")
  case None
  then have "snd_seq_client_use_ptr (uint (fst (ev_source ev))) (sy_ports s') = None" using client_same_none [OF assms] by blast
  then show ?thesis using None by (simp add: source_port_def)
next
  case (Some c)
  from client_same [OF assms Some] obtain c' where c': "snd_seq_client_use_ptr (uint (fst (ev_source ev))) (sy_ports s') = Some c'" "still c = still c'" by blast
  have "sp_port (sy_ports s') = sp_port (sy_ports s)" using assms by (simp add: same_setup_def)
  then show ?thesis using Some c' still_eqD(7) [OF c'(2)] by (simp add: source_port_def snd_seq_port_use_ptr_def split: option.split)
qed

lemma route_same:
  assumes "same_setup s s'"
  shows "route env s' ev = route env s ev" "deliverable env s' ev = deliverable env s ev" "sender_there s' k = sender_there s k"
proof -
  have p: "sp_port (sy_ports s') = sp_port (sy_ports s)" using assms by (simp add: same_setup_def)
  have "arriving env s' ev = arriving env s ev" by (simp add: fun_eq_iff setup_same [OF assms])
  then show r: "route env s' ev = route env s ev" by (cases "source_port s ev") (simp_all add: route_def source_port_same [OF assms] p)
  show t: "sender_there s' k = sender_there s k" for k by (simp add: sender_there_def client_same_none [OF assms])
  show "deliverable env s' ev = deliverable env s ev" by (simp add: deliverable_def r t source_port_same [OF assms] reader_same [OF assms])
qed

section \<open>One event and many\<close>

text \<open>What an event adds to the inboxes.\<close>

abbreviation posted :: "deliver_env \<Rightarrow> 'w seq_sys \<Rightarrow> int \<Rightarrow> snd_seq_event list \<Rightarrow> snd_seq_event list" where
  "posted env s k es \<equiv> map (received env s) (filter (\<lambda>e. dest_client_no e = k) es)"

lemma deliver_from_route:
  assumes i: "inboxes s E R" and ok: "deliverable env s ev" "whole_env env"
    and room: "\<forall>k. length (posted env s k (route env s ev)) \<le> R k"
  shows "same_setup s (deliver_from env ev s) \<and>
    inboxes (deliver_from env ev s) (\<lambda>k. E k @ posted env s k (route env s ev)) (\<lambda>k. R k - length (posted env s k (route env s ev)))"
proof -
  have ev: "whole ev" "\<not> is_variable ev" "\<forall>e\<in>set (route env s ev). reader e s \<noteq> None" using ok by (simp_all add: deliverable_def)
  obtain c where c: "snd_seq_client_use_ptr (uint (fst (ev_source ev))) (sy_ports s) = Some c"
    using ok(1) by (auto simp: deliverable_def sender_there_def)
  let ?d = "\<lambda>i. client_dispatch (\<lambda>c e (t :: 'a seq_sys). snd_seq_deliver_event env (0 + 1 + i) c e t)"
  have run: "snd_seq_deliver_event env 0 c ev s = deliver_somewhere env ?d c ev s" by (subst snd_seq_deliver_event.simps) simp
  show ?thesis
  proof (cases "to_subscribers ev")
    case True
    then obtain p where p: "source_port s ev = Some p" using ok(1) by (auto simp: deliverable_def)
    let ?ns = "si_list (po_c_src (sp_port (sy_ports s) p))"
    have r: "route env s ev = map (arriving env s ev) ?ns" using True p by (simp add: route_def)
    have f: "filter (\<lambda>e. dest_client_no e = k) (map (arriving env s ev) ns) = map (arriving env s ev) (for_client s k ns)" for k ns
      by (simp add: filter_map comp_def)
    have "snd_seq_port_use_ptr c (uint (snd (ev_source ev))) (sy_ports s) = Some p" using p c by (simp add: source_port_def)
    then have "snd_seq_deliver_event env 0 c ev s = subscribers_loop env ?d c ev (?ns @ []) 0 s"
      using True run by (simp add: deliver_somewhere_def deliver_to_subscribers_def)
    moreover have "\<forall>n\<in>set ?ns. reader (arriving env s ev n) s \<noteq> None" using ev(3) by (simp add: r)
    moreover have "\<forall>k. length (for_client s k ?ns) \<le> R k" using room by (simp add: r f)
    ultimately obtain s' where s': "same_setup s s'" "snd_seq_deliver_event env 0 c ev s = Some (s', Inr (int (length ?ns)))"
      "inboxes s' (\<lambda>k. E k @ map (\<lambda>n. received env s (arriving env s ev n)) (for_client s k ?ns)) (\<lambda>k. R k - length (for_client s k ?ns))"
      using subscribers_loop_all [OF i _ _ ev(1) ok(2) ev(2), of ?ns ?d c "[]" 0] by auto
    then have "deliver_from env ev s = s'" using c by (simp add: deliver_from_def)
    then show ?thesis using s'(1,3) by (simp add: r f comp_def)
  next
    case False
    let ?k = "dest_client_no ev"
    have r: "route env s ev = [ev]" using False by (simp add: route_def)
    have "R ?k \<noteq> 0" using room [rule_format, of ?k] by (simp add: r)
    then obtain n where n: "R ?k = Suc n" using not0_implies_Suc by blast
    from single_reader [OF i, of ev env "?d 0"] ev ok(2) obtain s' where s': "same_setup s s'"
      "arrive env (?d 0) ev s = Some (received env s ev, s', Inr 0)" "inboxes s' (E(?k := E ?k @ [received env s ev])) (R(?k := n))"
      by (auto simp: n r)
    have "snd_seq_deliver_event env 0 c ev s = Some (s', Inr 0)"
      unfolding run using False s'(2) by (simp add: deliver_somewhere_def snd_seq_deliver_single_event_def)
    then have "deliver_from env ev s = s'" using c by (simp add: deliver_from_def)
    moreover have "(\<lambda>k. E k @ posted env s k [ev]) = E(?k := E ?k @ [received env s ev])" "(\<lambda>k. R k - length (posted env s k [ev])) = R(?k := n)"
      by (auto simp: fun_eq_iff n)
    ultimately show ?thesis using s'(1,3) by (simp add: r)
  qed
qed

lemma deliver_all:
  assumes "inboxes s E R" "\<forall>ev\<in>set evs. deliverable env s ev" "whole_env env"
    and "\<forall>k. length (posted env s k (concat (map (route env s) evs))) \<le> R k"
  shows "same_setup s (fold (deliver_from env) evs s) \<and>
    inboxes (fold (deliver_from env) evs s) (\<lambda>k. E k @ posted env s k (concat (map (route env s) evs)))
      (\<lambda>k. R k - length (posted env s k (concat (map (route env s) evs))))"
  using assms
proof (induction evs arbitrary: s E R)
  case (Cons ev evs)
  let ?p = "\<lambda>k. posted env s k (route env s ev)" and ?s1 = "deliver_from env ev s"
  have room: "length (?p k) + length (posted env s k (concat (map (route env s) evs))) \<le> R k" for k using Cons.prems(4) by simp
  then have "\<forall>k. length (?p k) \<le> R k" using add_leD1 by blast
  from deliver_from_route [OF Cons.prems(1) _ Cons.prems(3) this] Cons.prems(2) have
    s1: "same_setup s ?s1" "inboxes ?s1 (\<lambda>k. E k @ ?p k) (\<lambda>k. R k - length (?p k))" by simp_all
  have same: "route env ?s1 = route env s" "received env ?s1 = received env s" by (simp_all add: fun_eq_iff route_same [OF s1(1)] setup_same [OF s1(1)])
  have "length (posted env ?s1 k (concat (map (route env ?s1) evs))) \<le> R k - length (?p k)" for k using room [of k] by (simp add: same)
  moreover have "\<forall>e\<in>set evs. deliverable env ?s1 e" using Cons.prems(2) route_same [OF s1(1)] by simp
  ultimately have "same_setup ?s1 (fold (deliver_from env) evs ?s1) \<and>
    inboxes (fold (deliver_from env) evs ?s1) (\<lambda>k. (E k @ ?p k) @ posted env ?s1 k (concat (map (route env ?s1) evs)))
      (\<lambda>k. R k - length (?p k) - length (posted env ?s1 k (concat (map (route env ?s1) evs))))"
    using Cons.IH [OF s1(2) _ Cons.prems(3)] by blast
  then show ?case using same_setup_trans [OF s1(1)] by (simp add: same)
qed simp

section \<open>An example\<close>

text \<open>The events of clients 128 and 129 that \<open>Seq_Dispatch\<close> has queued go to client 64, which has room for two.\<close>

definition office :: "unit seq_sys" where
  "office = (mail False)\<lparr>sy_ports := (sy_ports (mail False))
     \<lparr>sp_client := [128 \<mapsto> mail_client 128 0 None, 129 \<mapsto> mail_client 129 1 None, 64 \<mapsto> mail_client 64 2 (Some (fifo_empty 1))]\<rparr>,
     sy_mem := \<lparr>sm_cells = \<lambda>c. \<lparr>ce_raw = replicate 28 0, ce_pool = 1, ce_next = if c = 16 then 32 else 0\<rparr>,
       sm_pools = \<lambda>p. (snd_seq_pool_new 2)\<lparr>pl_ptr := 16, pl_total_elements := 2, pl_free := 16\<rparr>\<rparr>\<rparr>"

lemma office_inboxes: "inboxes office (\<lambda>_. []) (\<lambda>_. 2)"
proof -
  have "holds (fifo_empty 1) [] 2 (sy_mem office)" unfolding holds_def
    by (intro exI [of _ "[]"] exI [of _ "[16, 32]"] exI [of _ "[]"])
      (simp add: fifo_rep_def office_def pool_state_def pool_open_def snd_seq_pool_new_def)
  then show ?thesis by (auto simp: inboxes_def office_def mail_client_def split: if_splits)
qed

lemma office_there: "sender_there office 128" "sender_there office 129"
  by (simp_all add: sender_there_def snd_seq_client_use_ptr_def office_def)

lemma office_route: "route mail_env office (note_on long_note) = [note_on long_note]" "route mail_env office (ticked 129 20) = [ticked 129 20]"
  by (simp_all add: route_def note_on_def long_note_def ticked_def)

lemma office_reader: "reader (note_on long_note) office = Some 2" "reader (ticked 129 20) office = Some 2"
  by (simp_all add: reader_def note_on_def long_note_def ticked_def get_event_dest_client_def snd_seq_client_use_ptr_def office_def mail_def mail_client_def
      snd_seq_port_use_ptr_def mail_port_def check_port_perm_def)

lemma office_received: "received mail_env office e = e" if "reader e office = Some 2"
  using that by (simp add: received_def stamp_for_port_def office_def mail_def mail_port_def)

lemma office_deliverable: "deliverable mail_env office (note_on long_note)" "deliverable mail_env office (ticked 129 20)"
proof -
  have d: "whole (note_on long_note)" "\<not> is_variable (note_on long_note)" "fst (ev_source (note_on long_note)) = 128" "\<not> to_subscribers (note_on long_note)"
    "whole (ticked 129 20)" "\<not> is_variable (ticked 129 20)" "fst (ev_source (ticked 129 20)) = 129" "\<not> to_subscribers (ticked 129 20)"
    by (simp_all add: note_on_def long_note_def ticked_def is_variable_def)
  then show "deliverable mail_env office (note_on long_note)" "deliverable mail_env office (ticked 129 20)"
    by (simp_all add: deliverable_def office_route office_reader office_there)
qed

section \<open>Properties\<close>

text \<open>
  C8: From the queue to the inboxes (\<open>snd_seq_check_queue\<close>, \<open>snd_seq_dispatch_event\<close>, \<open>snd_seq_deliver_event\<close>). A check of a queue with the real
  delivery ends. Each reader then finds in its fifo, after what was there, exactly the due events that are addressed to it or that it
  subscribes to, once for each subscription, in the order the queue serves them: by time stamp, ticks before real time. This is when
  the senders exist, the destinations are ports of user clients that take the events, there is room, and events have a fixed length.
\<close>

theorem snd_seq_check_queue_posts:
  fixes s :: "'w seq_sys"
  assumes "queued dat rest True (q_tickq q) (q_timeq q) m ts rs" "\<not> q_check_blocked q" "\<not> q_check_again q"
    and due: "due = fst (serve (tick_reached q) (sender_there s) ts) @ fst (serve (time_reached q) (sender_there s) rs)"
    and "inboxes s E R" "\<forall>ev\<in>set due. deliverable env s ev" "whole_env env"
    and "\<forall>k. length (posted env s k (concat (map (route env s) due))) \<le> R k"
  shows "\<exists>q' m' s'. snd_seq_check_queue (snd_seq_dispatch_event (sender_there s) (deliver_from env)) (q, m, s) = Some (q', m', s') \<and>
    same_setup s s' \<and> inboxes s' (\<lambda>k. E k @ posted env s k (concat (map (route env s) due)))
      (\<lambda>k. R k - length (posted env s k (concat (map (route env s) due))))"
  using check_queue_serves [OF assms(1-3), of "sender_there s" "deliver_from env" s, folded due] deliver_all [OF assms(5-8)]
  by blast

theorem snd_seq_check_queue_posts_witness:
  "\<exists>q' m' s' E R. snd_seq_check_queue (snd_seq_dispatch_event (sender_there office) (deliver_from mail_env)) (sounding, noted, office) = Some (q', m', s') \<and>
    inboxes s' E R \<and> E 64 = [note_on long_note, ticked 129 20]"
proof -
  let ?due = "[note_on long_note, ticked 129 20]"
  have due: "?due = fst (serve (tick_reached sounding) (sender_there office) [long_note, ticked 129 20]) @
      fst (serve (time_reached sounding) (sender_there office) [])"
    using noted_serve [of "sender_there office", OF office_there] by (simp add: serve.simps)
  have to: "dest_client_no (note_on long_note) = 64" "dest_client_no (ticked 129 20) = 64" by (simp_all add: note_on_def long_note_def ticked_def)
  have p: "posted mail_env office k (concat (map (route mail_env office) ?due)) = (if k = 64 then ?due else [])" for k
    by (simp add: office_route to office_received office_reader)
  have "\<not> q_check_blocked sounding" "\<not> q_check_again sounding" by (simp_all add: sounding_def)
  moreover have "\<forall>ev\<in>set ?due. deliverable mail_env office ev" using office_deliverable by simp
  moreover have "\<forall>k. length (posted mail_env office k (concat (map (route mail_env office) ?due))) \<le> 2" by (simp add: office_route to)
  ultimately obtain q' m' s' where "snd_seq_check_queue (snd_seq_dispatch_event (sender_there office) (deliver_from mail_env)) (sounding, noted, office) = Some (q', m', s')"
    "inboxes s' (\<lambda>k. [] @ posted mail_env office k (concat (map (route mail_env office) ?due)))
      (\<lambda>k. 2 - length (posted mail_env office k (concat (map (route mail_env office) ?due))))"
    using snd_seq_check_queue_posts [OF noted_queued _ _ due office_inboxes _ mail_letter(4)] by blast
  moreover have "[] @ posted mail_env office 64 (concat (map (route mail_env office) ?due)) = ?due" unfolding p by simp
  ultimately show ?thesis by blast
qed

end
