(* ===== verification/Spec2Isabelle.thy ===== *)
theory Spec2Isabelle
  imports Pcm_Hw_Setup Pcm_Machine Scarlett_Startup Seq_Fifo Seq_Midi_Codec Seq_Timer_Laws Seq_Dispatch Seq_Registry Seq_Port_Create Seq_Post
begin

text \<open>
  A verification development for the ALSA drivers with the mixer of the Focusrite Scarlett interfaces. It
  models three parts of the kernel code: the core of PCM streams, the mixer driver, and the core of the MIDI
  sequencer. All file names are below \<open>src/\<close>; functions, fields and constants have the names of the source,
  fields with a prefix for their structure.

  PCM STREAMS: \<open>sound/core/pcm_lib.c\<close>, \<open>pcm_native.c\<close>, \<open>pcm_misc.c\<close>, \<open>pcm_timer.c\<close>, \<open>include/sound/pcm.h\<close>,
  \<open>pcm_params.h\<close>. An application first negotiates the parameters of a stream. The space of configurations is a
  mask for each of access, format and subformat and an interval for each numeric parameter; rules relate
  them, and \<open>snd_pcm_hw_refine\<close> runs the rules until nothing changes.
  \<^item> \<open>Pcm_Interval\<close>, \<open>Pcm_Interval_Arith\<close>, \<open>Pcm_Interval_Tables\<close>, \<open>Pcm_Mask\<close>, \<open>Pcm_Format\<close>: the operations on
    intervals, masks and formats, related to the sets of numbers they stand for.
  \<^item> \<open>Pcm_HwParams\<close>, \<open>Pcm_Refine\<close>, \<open>Pcm_Constraints\<close>: the rule functions, the loop, the constraints of a stream.
    \<open>Pcm_Config\<close>, \<open>Pcm_Configurator\<close>, \<open>Pcm_Hw_Setup\<close>: the loop ends and keeps every configuration that obeys
    the relations as exact real numbers; so do the constraints that the core builds for a hardware.

  Then the stream runs: the hardware moves a pointer through a ring buffer, the application another one.
  \<^item> \<open>Pcm_Runtime\<close>: the state of streams, \<open>pcm_world\<close>, and the driver, a record of callbacks \<open>pcm_ops\<close> that act on
    a state of the hardware. \<open>Pcm_Silence\<close>: filling with silence. \<open>Pcm_Action\<close>: actions on groups of linked
    streams in three phases, start and stop. \<open>Pcm_Pointer\<close>: following the hardware. \<open>Pcm_State\<close>: the other
    actions. \<open>Pcm_Ioctl\<close>, \<open>Pcm_Link\<close>: parameters, status, links. \<open>Pcm_Transfer\<close>: reading and writing.
  \<^item> \<open>Pcm_Action_Laws\<close>, \<open>Pcm_Start_Stop\<close>, \<open>Pcm_Frames\<close>, \<open>Pcm_Power\<close>: what one action promises (locales
    \<open>pcm_action\<close>, \<open>action_invariant\<close> and their extensions) and what a group action makes of it: all or none.
  \<^item> \<open>Pcm_Pointer_Laws\<close>, \<open>Pcm_Position\<close>: the position update returns, and counts the frames. \<open>Pcm_Queue\<close>,
    \<open>Pcm_Write\<close>, \<open>Pcm_Read\<close>: the ring refines a queue of frames.
  \<^item> \<open>Pcm_Invariant\<close> (locale \<open>guarded_action\<close>), the \<open>Pcm_Kept\<close> theories and \<open>Pcm_Machine\<close>: the state machine
    of all operations, and the invariant that sizes fit together and positions lie in the ring.

  SCARLETT MIXER: \<open>sound/usb/scarlettmixer.c\<close>. \<open>Scarlett_Control\<close> models the registers of the device, the caches
  and the callbacks of the controls, \<open>Scarlett_Setup\<close> the devices and \<open>scarlett_mixer_controls\<close>. \<open>Scarlett_Laws\<close>
  and \<open>Scarlett_Roundtrip\<close> show caches coherent and values read as written; \<open>Scarlett_Plan\<close>, \<open>Scarlett_Mixer\<close> and
  \<open>Scarlett_Startup\<close> what is heard after start-up.

  SEQUENCER: \<open>sound/core/seq/\<close>. Clients send events; an event with a time stamp waits in a queue until the clock of
  the queue reaches it, and goes to the fifos of its destinations.
  \<^item> \<open>Seq_Event\<close>, \<open>Seq_Memory\<close>, \<open>Seq_Dup\<close> (\<open>seq_memory.c\<close>): events as 28 bytes; pools of cells, linked by address;
    long data in chains of cells. \<open>Seq_Owner\<close>: which cells a list of events holds.
  \<^item> \<open>Seq_Laws\<close>: the contract \<open>cell_queue\<close> of a queue of cells. \<open>Seq_Prioq\<close>, \<open>Seq_Prioq_Laws\<close> (\<open>seq_prioq.c\<close>) and
    \<open>Seq_Fifo\<close> (\<open>seq_fifo.c\<close>) provide it, for the order of time stamps and the order of arrival.
  \<^item> \<open>Seq_Timer\<close>, \<open>Seq_Timer_Laws\<close> (\<open>seq_timer.c\<close>): the clock. \<open>Seq_Queue\<close> (\<open>seq_queue.c\<close>, and
    \<open>snd_seq_dispatch_event\<close> of \<open>seq_clientmgr.c\<close>): clock and priority queues together. \<open>Seq_Dispatch\<close>: a check of a
    queue refines a specification on lists of events. \<open>Seq_Registry\<close>: the list of all queues under every sequence
    of operations.
  \<^item> \<open>Seq_Ports\<close> (\<open>seq_ports.c\<close> and its ioctls): ports, and subscriptions as nodes of two lists. \<open>Seq_Subs\<close>,
    \<open>Seq_Port_Steps\<close>, \<open>Seq_Port_Create\<close>: the invariant of this web and that every sequence of ioctls keeps it.
  \<^item> \<open>Seq_Deliver\<close> (\<open>seq_clientmgr.c\<close>, and the MIDI through of \<open>seq_dummy.c\<close>): delivery to a port, or to the subscribers of a
    port. User clients get events in their fifos; kernel clients react through a callback, a tree of type \<open>reaction\<close> whose
    nodes send events on, at most ten hops. \<open>Seq_Inbox\<close>: the fifos of all clients as lists of events. \<open>Seq_Delivery\<close>:
    delivery ends, keeps the fifos, and reaches every subscriber while there is room. \<open>Seq_Post\<close>: a check of a queue with this
    delivery puts the due events into the fifos of their readers.
  \<^item> \<open>Seq_Midi\<close> and its laws (\<open>seq_midi_event.c\<close>): the coder between bytes and events.

  CONVENTIONS. Integers are words of their width, with the LP64 model and little-endian memory; C's \<open>int\<close> is an
  integer where the values cannot leave its range, and has the wrap-around written out where they can. An error
  code is \<open>Inl\<close> of a constructor of \<open>errno\<close>. Operations return the state on errors too. A loop that may not end is
  a \<open>partial_function\<close>, \<open>None\<close> also stands for a fault of the machine (a null pointer, a write out of bounds), and
  that a function returns is part of what is shown. Fuel appears once: the loops that drop a lock or sleep
  (\<open>Pcm_Transfer\<close>, draining, waiting for a cell) consume one element of a list of what happens meanwhile, and are
  \<open>None\<close> when the list is too short. The priority queue gives up after 10000 cells, as the code does.

  ASSUMPTIONS, each a hypothesis of the theorems that need it. Calls are atomic: locks are left out, and time
  stands still during a call. Drivers are parameters; \<open>marking_driver\<close> says that one only marks the streams it
  serves, \<open>calm_driver\<close> that it keeps to the streams' sizes and reports positions within the buffer. \<open>calm\<close>
  releases keep the invariant and do not reconfigure the stream while it is unlocked. A group is resumed
  when all its members are suspended (the code does not check it, and the invariant is lost otherwise). A Scarlett
  device keeps its registers (\<open>register_device\<close>), and the control core makes one call at a time. The buffer of a
  MIDI coder has at least three bytes. The delivery of a queued event changes neither
  its queue nor the pool of the cells of the queue; in \<open>Seq_Post\<close> the fifos have cells of their own and events a fixed length.

  NOT MODELLED. Registration, proc files, memory mapping, poll and compatibility ioctls of PCM, the other parts of
  \<open>sound/core\<close> (controls, raw MIDI, timers, OSS emulation), the client manager of the sequencer beyond
  ports, dispatch and delivery (no registration, reading and writing by applications, or broadcasting, which is not compiled),
  and the drivers: they move registers of particular hardware, for which the repository has no description to verify against. The manifest lists them.
\<close>

end
